(* ===== verification/Prelude.thy ===== *)
theory Prelude
  imports Main "HOL-Library.Word"
begin

text \<open>
  Shared vocabulary of the development: bytes and byte strings, Go errors as values,
  byte order, reading from a stream, slicing, and the generic list facts that the component
  theories use.

  \<^item> A \<open>[]byte\<close> is a list of 8-bit words; a Go \<open>string\<close> is a list of characters (bytes), and
    \<open>s2b\<close> and \<open>b2s\<close> are the conversions \<open>[]byte(s)\<close> and \<open>string(b)\<close>.
  \<^item> A fallible operation returns \<open>gerr + 'a\<close>: \<open>Inl e\<close> is a Go error (or a run-time panic, which
    the code never recovers from in the modelled paths), \<open>Inr x\<close> the result.
  \<^item> The bytes that a peer will send are a list; \<open>read_full n\<close> is \<open>io.ReadFull\<close> into a buffer
    of \<open>n\<close> bytes. It is insensitive to how the transport cuts the stream into segments.
\<close>

unbundle bit_operations_syntax

type_synonym byte = "8 word"
type_synonym bytes = "byte list"

named_theorems wire "lengths and round trips of the wire encoders"

section \<open>Errors\<close>

datatype gerr =
    EOF
  | UnexpectedEOF
  | ClosedPipe
  | NetClosed
  | ShortBuffer
  | DeadlineExceeded
  | ConnErr
  | SocksErr byte
  | AuthErr
  | Msg string
  | Panic string

type_synonym 'a res = "gerr + 'a"

abbreviation Ok :: "'a \<Rightarrow> 'a res" where "Ok \<equiv> Inr"
abbreviation Err :: "gerr \<Rightarrow> 'a res" where "Err \<equiv> Inl"

definition out_of_range :: gerr where
  "out_of_range = Panic ''slice bounds out of range''"

fun is_panic :: "'a res \<Rightarrow> bool" where
  "is_panic (Inl (Panic _)) = True"
| "is_panic _ = False"

section \<open>Strings and bytes\<close>

definition s2b :: "string \<Rightarrow> bytes" where
  "s2b s = map (\<lambda>c. word_of_nat (of_char c)) s"

definition b2s :: "bytes \<Rightarrow> string" where
  "b2s b = map (\<lambda>w. char_of (unat w)) b"

lemma length_s2b [simp]: "length (s2b s) = length s"
  by (simp add: s2b_def)

lemma length_b2s [simp]: "length (b2s b) = length b"
  by (simp add: b2s_def)

lemma s2b_append [simp]: "s2b (s @ t) = s2b s @ s2b t"
  by (simp add: s2b_def)

lemma b2s_append [simp]: "b2s (s @ t) = b2s s @ b2s t"
  by (simp add: b2s_def)

lemma s2b_Nil [simp]: "s2b [] = []" and b2s_Nil [simp]: "b2s [] = []"
  by (simp_all add: s2b_def b2s_def)

lemma unat_byte_less: "unat (b :: byte) < 256"
  using unsigned_less [of b, where ?'a = nat] by simp

lemma of_char_less_256: "(of_char c :: nat) < 256"
  by (metis char_of_char mod_less_divisor of_char_mod_256 zero_less_numeral)

lemma b2s_s2b [simp]: "b2s (s2b s) = s"
proof (induction s)
  case (Cons c s)
  have "unat (word_of_nat (of_char c) :: byte) = of_char c"
    using of_char_less_256 [of c] by (simp add: unat_of_nat)
  with Cons show ?case by (simp add: s2b_def b2s_def)
qed simp

lemma s2b_b2s [simp]: "s2b (b2s b) = b"
proof (induction b)
  case (Cons w b)
  have "(of_char (char_of (unat w)) :: nat) = unat w"
    using unat_byte_less [of w] by simp
  with Cons show ?case by (simp add: s2b_def b2s_def)
qed simp

lemma b2s_inject [simp]: "b2s a = b2s b \<longleftrightarrow> a = b"
  by (metis s2b_b2s)

lemma s2b_inject [simp]: "s2b a = s2b b \<longleftrightarrow> a = b"
  by (metis b2s_s2b)

section \<open>Byte order\<close>

text \<open>\<open>encoding/binary\<close>: \<open>BigEndian\<close> and \<open>LittleEndian\<close> for 16, 32 and 64 bits.\<close>

definition put_be16 :: "16 word \<Rightarrow> bytes" where
  "put_be16 w = [ucast (drop_bit 8 w), ucast w]"

definition put_be32 :: "32 word \<Rightarrow> bytes" where
  "put_be32 w = [ucast (drop_bit 24 w), ucast (drop_bit 16 w), ucast (drop_bit 8 w), ucast w]"

definition put_be64 :: "64 word \<Rightarrow> bytes" where
  "put_be64 w = put_be32 (ucast (drop_bit 32 w)) @ put_be32 (ucast w)"

definition put_le16 :: "16 word \<Rightarrow> bytes" where "put_le16 w = rev (put_be16 w)"
definition put_le32 :: "32 word \<Rightarrow> bytes" where "put_le32 w = rev (put_be32 w)"
definition put_le64 :: "64 word \<Rightarrow> bytes" where "put_le64 w = rev (put_be64 w)"

text \<open>The readers look at the first 2, 4 or 8 bytes; a shorter buffer panics in Go, so every
  caller checks the length first.\<close>

fun get_be16 :: "bytes \<Rightarrow> 16 word" where
  "get_be16 (a # b # _) = push_bit 8 (ucast a) OR ucast b"
| "get_be16 _ = 0"

fun get_be32 :: "bytes \<Rightarrow> 32 word" where
  "get_be32 (a # b # c # d # _) =
     push_bit 24 (ucast a) OR push_bit 16 (ucast b) OR push_bit 8 (ucast c) OR ucast d"
| "get_be32 _ = 0"

definition get_be64 :: "bytes \<Rightarrow> 64 word" where
  "get_be64 b = push_bit 32 (ucast (get_be32 b)) OR ucast (get_be32 (drop 4 b))"

definition get_le16 :: "bytes \<Rightarrow> 16 word" where "get_le16 b = get_be16 (rev (take 2 b))"
definition get_le32 :: "bytes \<Rightarrow> 32 word" where "get_le32 b = get_be32 (rev (take 4 b))"
definition get_le64 :: "bytes \<Rightarrow> 64 word" where "get_le64 b = get_be64 (rev (take 8 b))"

lemma length_put [simp, wire]:
  "length (put_be16 w) = 2" "length (put_be32 x) = 4" "length (put_be64 y) = 8"
  "length (put_le16 w) = 2" "length (put_le32 x) = 4" "length (put_le64 y) = 8"
  by (simp_all add: put_be16_def put_be32_def put_be64_def put_le16_def put_le32_def put_le64_def)

lemma get_put_be16 [simp, wire]: "get_be16 (put_be16 w @ r) = w"
  by (rule bit_word_eqI) (auto simp: put_be16_def bit_simps)

lemma get_put_be32 [simp, wire]: "get_be32 (put_be32 w @ r) = w"
proof (rule bit_word_eqI)
  fix n assume "n < LENGTH(32)"
  then consider "n < 8" | "8 \<le> n" "n < 16" | "16 \<le> n" "n < 24" | "24 \<le> n" "n < 32"
    by fastforce
  then show "bit (get_be32 (put_be32 w @ r)) n = bit w n"
    by cases (auto simp: put_be32_def bit_simps)
qed

lemma get_put_be64 [simp, wire]: "get_be64 (put_be64 w @ r) = w"
proof -
  have d: "drop 4 (put_be64 w @ r) = put_be32 (ucast w) @ r"
    by (simp add: put_be64_def put_be32_def)
  have t: "get_be32 (put_be64 w @ r) = ucast (drop_bit 32 w)"
    by (simp add: put_be64_def)
  show ?thesis
    by (rule bit_word_eqI) (auto simp: get_be64_def d t bit_simps simp del: drop_append)
qed

lemma get_put_be [simp, wire]:
  "get_be16 (put_be16 w) = w" "get_be32 (put_be32 x) = x" "get_be64 (put_be64 y) = y"
  using get_put_be16 [of w "[]"] get_put_be32 [of x "[]"] get_put_be64 [of y "[]"]
  by simp_all

lemma get_put_le [simp, wire]:
  "get_le16 (put_le16 w @ r) = w" "get_le32 (put_le32 x @ r) = x" "get_le64 (put_le64 y @ r) = y"
  by (simp_all add: get_le16_def get_le32_def get_le64_def put_le16_def put_le32_def put_le64_def)

lemma put_get_be16 [simp]: "put_be16 (get_be16 [a, b]) = [a, b]"
proof -
  have "\<not> bit b (8 + n)" for n
    using bit_imp_le_length [of b "8 + n"] by fastforce
  then show ?thesis
    by (auto simp: put_be16_def bit_simps intro!: bit_word_eqI)
qed

lemma put_get_be16_len:
  assumes "length b = 2" shows "put_be16 (get_be16 b) = b"
proof -
  obtain x y where "b = [x, y]"
    using assms by (auto simp: numeral_2_eq_2 length_Suc_conv)
  then show ?thesis by (simp only: put_get_be16)
qed

section \<open>Reading and slicing\<close>

text \<open>\<open>io.ReadFull(r, buf)\<close> with \<open>len(buf) = n\<close>: all \<open>n\<close> bytes, or \<open>EOF\<close> when nothing was read,
  or \<open>UnexpectedEOF\<close> when some bytes were.\<close>

definition read_full :: "nat \<Rightarrow> bytes \<Rightarrow> (bytes \<times> bytes) res" where
  "read_full n inp =
     (if n \<le> length inp then Ok (take n inp, drop n inp)
      else Err (if inp = [] then EOF else UnexpectedEOF))"

lemma read_full_append [simp, wire]:
  "length x = n \<Longrightarrow> read_full n (x @ r) = Ok (x, r)"
  by (simp add: read_full_def)

lemma read_full_Ok_iff: "read_full n inp = Ok (x, r) \<longleftrightarrow> inp = x @ r \<and> length x = n"
  by (auto simp: read_full_def min_def)

lemma read_full_OkD:
  "read_full n inp = Ok (x, r) \<Longrightarrow> length x = n \<and> length r \<le> length inp \<and> inp = x @ r"
  by (auto simp: read_full_Ok_iff)

lemma read_full_not_panic [simp]: "\<not> is_panic (read_full n inp)"
  by (simp add: read_full_def)

text \<open>\<open>b[lo:hi]\<close> on a slice whose capacity is its length.\<close>

definition go_slice :: "'a list \<Rightarrow> nat \<Rightarrow> nat \<Rightarrow> 'a list res" where
  "go_slice xs lo hi =
     (if lo \<le> hi \<and> hi \<le> length xs then Ok (take (hi - lo) (drop lo xs)) else Err out_of_range)"

definition go_index :: "'a list \<Rightarrow> nat \<Rightarrow> 'a res" where
  "go_index xs i = (if i < length xs then Ok (xs ! i) else Err out_of_range)"

text \<open>\<open>copy(dst, src)\<close>: the destination after the call.\<close>

definition go_copy :: "'a list \<Rightarrow> 'a list \<Rightarrow> 'a list" where
  "go_copy dst src = take (length dst) src @ drop (length src) dst"

lemma length_go_copy [simp]: "length (go_copy dst src) = length dst"
  by (simp add: go_copy_def)

lemma go_copy_full: "length src = length dst \<Longrightarrow> go_copy dst src = src"
  by (simp add: go_copy_def)

text \<open>Sequencing of fallible steps.\<close>

fun rbind :: "'a res \<Rightarrow> ('a \<Rightarrow> 'b res) \<Rightarrow> 'b res" where
  "rbind (Inl e) f = Inl e"
| "rbind (Inr x) f = f x"

lemma rbind_Ok_iff: "rbind m f = Ok y \<longleftrightarrow> (\<exists>x. m = Ok x \<and> f x = Ok y)"
  by (cases m) auto

section \<open>Lists\<close>

lemma take_append_le: "n \<le> length xs \<Longrightarrow> take n (xs @ ys) = take n xs"
  by simp

lemma filter_snoc_eq:
  "filter P (xs @ [x]) = (if P x then filter P xs @ [x] else filter P xs)"
  by simp

lemma takeWhile_dropWhile_split: "xs = takeWhile P xs @ dropWhile P xs"
  by simp

lemma unat_ucast_byte16 [simp]: "unat (ucast (b :: byte) :: 16 word) = unat b"
  using unat_byte_less [of b] by (simp add: unsigned_ucast_eq take_bit_nat_eq_self)

lemma word_of_nat_unat_16: "n < 65536 \<Longrightarrow> unat (word_of_nat n :: 16 word) = n"
  by (simp add: unat_of_nat)

lemma word_of_nat_unat_8: "n < 256 \<Longrightarrow> unat (word_of_nat n :: byte) = n"
  by (simp add: unat_of_nat)

end
