(* ===== verification/Codec.thy ===== *)
theory Codec
  imports Prelude
begin

text \<open>
  The interface of a self-delimiting wire format: an encoder, a decoder that returns the value
  and the rest of the input, and the values the encoder can represent. Every framed format of
  the program (anytls frames, mux stream requests, SOCKS addresses, AEAD-free record layers)
  is an instance; what a reader of a stream of such messages relies on is proved once, here.
\<close>

text \<open>Decoding message after message until the input is used up; the fuel is the input's
  length, which is enough because a message is never empty.\<close>

fun dec_many :: "(bytes \<Rightarrow> ('a \<times> bytes) res) \<Rightarrow> nat \<Rightarrow> bytes \<Rightarrow> 'a list res" where
  "dec_many dec 0 inp = (if inp = [] then Ok [] else Err UnexpectedEOF)"
| "dec_many dec (Suc n) inp =
     (if inp = [] then Ok []
      else case dec inp of
          Inl e \<Rightarrow> Err e
        | Inr (x, rest) \<Rightarrow>
            (case dec_many dec n rest of Inl e \<Rightarrow> Err e | Inr xs \<Rightarrow> Ok (x # xs)))"

locale codec =
  fixes enc :: "'a \<Rightarrow> bytes"
    and dec :: "bytes \<Rightarrow> ('a \<times> bytes) res"
    and ok :: "'a \<Rightarrow> bool"
  assumes dec_enc: "ok x \<Longrightarrow> dec (enc x @ r) = Ok (x, r)"
    and enc_nonempty: "ok x \<Longrightarrow> enc x \<noteq> []"
begin

lemma dec_enc_all: "ok x \<Longrightarrow> dec (enc x) = Ok (x, [])"
  using dec_enc [of x "[]"] by (simp only: append_Nil2)

lemma prefix_free:
  assumes "ok x" "ok y" "enc x @ r = enc y @ s"
  shows "x = y \<and> r = s"
proof -
  have "Inr (x, r) = (Inr (y, s) :: ('a \<times> bytes) res)"
    by (simp only: dec_enc [OF assms(1), of r, symmetric] dec_enc [OF assms(2), of s, symmetric]
        assms(3))
  then show ?thesis by simp
qed

lemma enc_inj: "ok x \<Longrightarrow> ok y \<Longrightarrow> enc x = enc y \<Longrightarrow> x = y"
  by (rule prefix_free [of x y "[]" "[]", THEN conjunct1]) simp_all

lemma dec_many_enc:
  "(\<And>x. x \<in> set xs \<Longrightarrow> ok x) \<Longrightarrow> length xs \<le> n \<Longrightarrow>
   dec_many dec n (concat (map enc xs)) = Ok xs"
proof (induction xs arbitrary: n)
  case Nil
  then show ?case by (cases n) simp_all
next
  case (Cons x xs)
  then obtain m where n: "n = Suc m" by (cases n) auto
  have "dec_many dec m (concat (map enc xs)) = Ok xs"
    using Cons n by simp
  moreover have "enc x \<noteq> []" "dec (enc x @ concat (map enc xs)) = Ok (x, concat (map enc xs))"
    using Cons.prems dec_enc enc_nonempty by auto
  ultimately show ?case by (simp add: n)
qed

lemma length_le_concat_enc:
  "(\<And>x. x \<in> set xs \<Longrightarrow> ok x) \<Longrightarrow> length xs \<le> length (concat (map enc xs))"
proof (induction xs)
  case (Cons x xs)
  have "1 \<le> length (enc x)"
    using Cons.prems enc_nonempty by (simp add: Suc_le_eq)
  moreover have "length xs \<le> length (concat (map enc xs))" using Cons by simp
  ultimately show ?case by (simp add: add_mono del: length_concat)
qed simp

text \<open>A stream of messages is read back whole, with the input's own length as fuel.\<close>

lemma stream_roundtrip:
  "(\<And>x. x \<in> set xs \<Longrightarrow> ok x) \<Longrightarrow>
   dec_many dec (length (concat (map enc xs))) (concat (map enc xs)) = Ok xs"
  by (rule dec_many_enc) (auto intro: length_le_concat_enc)

end

end
