(* ===== verification/Conn.thy ===== *)
theory Conn
  imports Prelude
begin

text \<open>
  A \<open>net.Conn\<close> as the code uses it: the bytes the peer will deliver, the writes made so far (one
  list element per \<open>Write\<close> call, in order), and which write fails. A failed write leaves nothing
  on the wire and every later one fails too, as on a broken connection. A step that reads,
  writes and may stop with an error is a function from the connection to a result and the
  connection after it.
\<close>

record conn =
  rd :: bytes
  wr :: "bytes list"
  wbad :: "nat \<Rightarrow> bool"

type_synonym 'a io = "conn \<Rightarrow> 'a res \<times> conn"

definition sent :: "conn \<Rightarrow> bytes" where
  "sent c = concat (wr c)"

definition mk_conn :: "bytes \<Rightarrow> conn" where
  "mk_conn inp = \<lparr>rd = inp, wr = [], wbad = (\<lambda>_. False)\<rparr>"

definition io_ret :: "'a \<Rightarrow> 'a io" where
  "io_ret x = (\<lambda>c. (Ok x, c))"

definition io_err :: "gerr \<Rightarrow> 'a io" where
  "io_err e = (\<lambda>c. (Err e, c))"

definition io_bind :: "'a io \<Rightarrow> ('a \<Rightarrow> 'b io) \<Rightarrow> 'b io" where
  "io_bind m f = (\<lambda>c. case m c of (Inl e, c') \<Rightarrow> (Err e, c') | (Inr x, c') \<Rightarrow> f x c')"

text \<open>A pure fallible step, and one whose error is dropped (\<open>_ = ...\<close> in the code).\<close>

definition io_res :: "'a res \<Rightarrow> 'a io" where
  "io_res r = (\<lambda>c. (r, c))"

definition io_try :: "'a io \<Rightarrow> unit io" where
  "io_try m = (\<lambda>c. (Ok (), snd (m c)))"

text \<open>\<open>io.ReadFull\<close> into \<open>n\<close> bytes. On a short stream everything that was there is consumed.\<close>

definition io_read :: "nat \<Rightarrow> bytes io" where
  "io_read n = (\<lambda>c. case read_full n (rd c) of
     Inl e \<Rightarrow> (Err e, c\<lparr>rd := []\<rparr>)
   | Inr (x, r) \<Rightarrow> (Ok x, c\<lparr>rd := r\<rparr>))"

definition io_write :: "bytes \<Rightarrow> unit io" where
  "io_write b = (\<lambda>c. if wbad c (length (wr c)) then (Err ConnErr, c)
                     else (Ok (), c\<lparr>wr := wr c @ [b]\<rparr>))"

lemmas io_defs = io_ret_def io_err_def io_bind_def io_res_def io_try_def

lemma io_bind_simps [simp]:
  "m c = (Inl e, c') \<Longrightarrow> io_bind m f c = (Inl e, c')"
  "m c = (Inr x, c') \<Longrightarrow> io_bind m f c = f x c'"
  by (simp_all add: io_bind_def)

lemma io_ret_run [simp]: "io_ret x c = (Inr x, c)"
  by (simp add: io_ret_def)

lemma io_err_run [simp]: "io_err e c = (Inl e, c)"
  by (simp add: io_err_def)

lemma io_res_run [simp]: "io_res r c = (r, c)"
  by (simp add: io_res_def)

lemma io_read_append [simp]:
  "rd c = x @ r \<Longrightarrow> length x = n \<Longrightarrow> io_read n c = (Inr x, c\<lparr>rd := r\<rparr>)"
  by (simp add: io_read_def)

lemma io_read_Cons [simp]:
  "rd c = t # r \<Longrightarrow> io_read (Suc 0) c = (Inr [t], c\<lparr>rd := r\<rparr>)"
  using io_read_append [of c "[t]" r "Suc 0"] by simp

lemma io_read_one_shape: "io_read (Suc 0) c = (Inr x, c') \<Longrightarrow> x = [hd x]"
  by (auto simp: io_read_def read_full_def length_Suc_conv split: if_splits list.splits)
    (cases "rd c", auto)

lemma io_write_good [simp]:
  "\<not> wbad c (length (wr c)) \<Longrightarrow> io_write b c = (Inr (), c\<lparr>wr := wr c @ [b]\<rparr>)"
  by (simp add: io_write_def)

lemma io_bind_Ok_iff:
  "io_bind m f c = (Inr y, c'') \<longleftrightarrow> (\<exists>x c'. m c = (Inr x, c') \<and> f x c' = (Inr y, c''))"
  by (auto simp: io_bind_def split: prod.splits sum.splits)

lemma io_read_Ok_iff:
  "io_read n c = (Inr x, c') \<longleftrightarrow> (\<exists>r. rd c = x @ r \<and> length x = n \<and> c' = c\<lparr>rd := r\<rparr>)"
proof
  assume "io_read n c = (Inr x, c')"
  then show "\<exists>r. rd c = x @ r \<and> length x = n \<and> c' = c\<lparr>rd := r\<rparr>"
    by (auto simp: io_read_def read_full_def split: if_splits
        intro: exI [of _ "drop n (rd c)"])
qed auto

lemma io_write_Ok_iff:
  "io_write b c = (Inr (), c') \<longleftrightarrow> \<not> wbad c (length (wr c)) \<and> c' = c\<lparr>wr := wr c @ [b]\<rparr>"
  by (auto simp: io_write_def)

text \<open>A step never un-sends: what was written before is a prefix of what is written after.\<close>

definition io_extends :: "'a io \<Rightarrow> bool" where
  "io_extends m \<longleftrightarrow> (\<forall>c. \<exists>ws. wr (snd (m c)) = wr c @ ws \<and> wbad (snd (m c)) = wbad c)"

lemma io_extends_basic [intro!, simp]:
  "io_extends (io_ret x)" "io_extends (io_err e)" "io_extends (io_res r)"
  "io_extends (io_read n)" "io_extends (io_write b)"
  by (auto simp: io_extends_def io_read_def io_write_def split: sum.splits)

lemma io_extends_bind [intro!]:
  assumes "io_extends m" "\<And>x. io_extends (f x)"
  shows "io_extends (io_bind m f)"
  unfolding io_extends_def
proof
  fix c
  obtain ws where ws: "wr (snd (m c)) = wr c @ ws" "wbad (snd (m c)) = wbad c"
    using assms(1) by (auto simp: io_extends_def)
  show "\<exists>ws. wr (snd (io_bind m f c)) = wr c @ ws \<and> wbad (snd (io_bind m f c)) = wbad c"
  proof (cases "fst (m c)")
    case (Inl e)
    then have "snd (io_bind m f c) = snd (m c)"
      by (auto simp: io_bind_def split: prod.splits)
    then show ?thesis using ws by auto
  next
    case (Inr x)
    then have b: "io_bind m f c = f x (snd (m c))"
      by (auto simp: io_bind_def split: prod.splits)
    obtain vs where "wr (snd (f x (snd (m c)))) = wr (snd (m c)) @ vs"
      "wbad (snd (f x (snd (m c)))) = wbad (snd (m c))"
      using assms(2) by (auto simp: io_extends_def)
    then show ?thesis using ws by (simp add: b)
  qed
qed

end
