(* ===== verification/GoLib.thy ===== *)
theory GoLib
  imports Prelude
begin

text \<open>
  The parts of Go's standard library that the modelled code calls, on strings and addresses:
  \<open>strconv\<close> (\<open>Itoa\<close>, \<open>Atoi\<close>, \<open>ParseInt\<close>, \<open>ParseUint\<close>), \<open>strings\<close> (\<open>Split\<close>, \<open>SplitN\<close>, \<open>Index\<close>,
  \<open>Contains\<close>, \<open>HasPrefix\<close>, \<open>HasSuffix\<close>, \<open>TrimRight\<close>, \<open>ToUpper\<close>) and \<open>net\<close> (\<open>SplitHostPort\<close>,
  \<open>JoinHostPort\<close>). A conversion that fails still returns a value in Go, and part of the code
  uses that value with the error ignored; the models therefore return both.
\<close>

section \<open>strconv\<close>

definition digit_char :: "nat \<Rightarrow> char" where
  "digit_char d = char_of (48 + d)"

definition is_digit :: "char \<Rightarrow> bool" where
  "is_digit c \<longleftrightarrow> 48 \<le> (of_char c :: nat) \<and> (of_char c :: nat) \<le> 57"

definition digit_val :: "char \<Rightarrow> nat" where
  "digit_val c = of_char c - 48"

fun itoa :: "nat \<Rightarrow> string" where
  "itoa n = (if n < 10 then [digit_char n] else itoa (n div 10) @ [digit_char (n mod 10)])"

declare itoa.simps [simp del]

definition dec_val :: "string \<Rightarrow> int" where
  "dec_val s = foldl (\<lambda>a c. 10 * a + int (digit_val c)) 0 s"

text \<open>\<open>ParseUint(s, 10, bits)\<close>: the value and the error. A string that is not a number gives 0,
  a number out of range the largest value.\<close>

definition parse_uint :: "nat \<Rightarrow> string \<Rightarrow> nat \<times> gerr option" where
  "parse_uint bits s =
     (if s = [] \<or> \<not> list_all is_digit s then (0, Some (Msg ''invalid syntax''))
      else if dec_val s < 2 ^ bits then (nat (dec_val s), None)
      else (nat (2 ^ bits - 1), Some (Msg ''value out of range'')))"

text \<open>\<open>ParseInt(s, 10, 64)\<close>, and \<open>Atoi\<close> on a 64-bit platform, which agrees with it.\<close>

definition parse_int64 :: "string \<Rightarrow> int \<times> gerr option" where
  "parse_int64 s =
     (let neg = (s \<noteq> [] \<and> hd s = CHR ''-'');
          body = (if s \<noteq> [] \<and> (hd s = CHR ''-'' \<or> hd s = CHR ''+'') then tl s else s)
      in if body = [] \<or> \<not> list_all is_digit body then (0, Some (Msg ''invalid syntax''))
         else if neg then
           (if dec_val body \<le> 2 ^ 63 then (- dec_val body, None)
            else (- (2 ^ 63), Some (Msg ''value out of range'')))
         else
           (if dec_val body < 2 ^ 63 then (dec_val body, None)
            else (2 ^ 63 - 1, Some (Msg ''value out of range''))))"

abbreviation atoi :: "string \<Rightarrow> int \<times> gerr option" where
  "atoi \<equiv> parse_int64"

lemma of_char_digit: "d < 10 \<Longrightarrow> (of_char (digit_char d) :: nat) = 48 + d"
  by (simp add: digit_char_def)

lemma is_digit_digit_char [simp]: "d < 10 \<Longrightarrow> is_digit (digit_char d)"
  by (simp add: is_digit_def of_char_digit)

lemma digit_val_digit_char [simp]: "d < 10 \<Longrightarrow> digit_val (digit_char d) = d"
  by (simp add: digit_val_def of_char_digit)

lemma itoa_nonempty [simp]: "itoa n \<noteq> []"
  by (subst itoa.simps) simp

lemma itoa_digits [simp]: "list_all is_digit (itoa n)"
proof (induction n rule: itoa.induct)
  case (1 n)
  then show ?case by (simp add: itoa.simps [of n])
qed

lemma dec_val_snoc: "dec_val (s @ [c]) = 10 * dec_val s + int (digit_val c)"
  by (simp add: dec_val_def)

lemma dec_val_itoa [simp]: "dec_val (itoa n) = int n"
proof (induction n rule: itoa.induct)
  case (1 n)
  show ?case
  proof (cases "n < 10")
    case True
    then show ?thesis by (simp add: itoa.simps [of n] dec_val_def)
  next
    case False
    with 1 have "dec_val (itoa n) = 10 * int (n div 10) + int (n mod 10)"
      by (simp add: itoa.simps [of n] dec_val_snoc)
    then show ?thesis by presburger
  qed
qed

lemma is_digit_not_sign: "is_digit c \<Longrightarrow> c \<noteq> CHR ''-'' \<and> c \<noteq> CHR ''+'' \<and> c \<noteq> CHR '':''
    \<and> c \<noteq> CHR ''['' \<and> c \<noteq> CHR '']'' \<and> c \<noteq> CHR ''.''"
  by (auto simp: is_digit_def)

lemma dec_val_nonneg [simp]: "0 \<le> dec_val s"
proof -
  have "0 \<le> a \<Longrightarrow> 0 \<le> foldl (\<lambda>a c. 10 * a + int (digit_val c)) a s" for a
    by (induction s arbitrary: a) auto
  then show ?thesis by (simp add: dec_val_def)
qed

lemma parse_uint_itoa [simp]: "n < 2 ^ bits \<Longrightarrow> parse_uint bits (itoa n) = (n, None)"
  using of_nat_less_iff [of n "2 ^ bits", where ?'a = int]
  by (simp add: parse_uint_def)

lemma parse_uint_less: "fst (parse_uint bits s) < 2 ^ bits"
proof -
  have "nat (dec_val s) < 2 ^ bits" if "dec_val s < 2 ^ bits"
    using that by (simp add: nat_less_iff)
  moreover have "nat (2 ^ bits - 1) < 2 ^ bits"
    by (simp add: nat_less_iff)
  ultimately show ?thesis by (simp add: parse_uint_def)
qed

lemma atoi_itoa [simp]: "n < 2 ^ 63 \<Longrightarrow> atoi (itoa n) = (int n, None)"
proof -
  assume n: "n < 2 ^ 63"
  have "is_digit (hd (itoa n))"
    using itoa_digits [of n] by (cases "itoa n") auto
  then have "hd (itoa n) \<noteq> CHR ''-''" "hd (itoa n) \<noteq> CHR ''+''"
    using is_digit_not_sign by blast+
  moreover have "int n < 2 ^ 63" using n by simp
  ultimately show ?thesis by (simp add: parse_int64_def Let_def)
qed

lemma parse_int64_range: "- (2 ^ 63) \<le> fst (parse_int64 s) \<and> fst (parse_int64 s) < 2 ^ 63"
proof -
  have "- 9223372036854775808 \<le> dec_val x" "- dec_val x < 9223372036854775808" for x
    using dec_val_nonneg [of x] by linarith+
  then show ?thesis by (simp add: parse_int64_def Let_def)
qed

section \<open>strings\<close>

text \<open>\<open>strings.Split(s, sep)\<close> with a one-byte separator: never empty.\<close>

fun split_on :: "'a \<Rightarrow> 'a list \<Rightarrow> 'a list list" where
  "split_on c [] = [[]]"
| "split_on c (x # xs) =
     (if x = c then [] # split_on c xs
      else case split_on c xs of [] \<Rightarrow> [[x]] | (w # ws) \<Rightarrow> (x # w) # ws)"

fun join :: "'a list \<Rightarrow> 'a list list \<Rightarrow> 'a list" where
  "join sep [] = []"
| "join sep [x] = x"
| "join sep (x # y # zs) = x @ sep @ join sep (y # zs)"

text \<open>\<open>strings.IndexByte\<close> and \<open>strings.LastIndexByte\<close>.\<close>

fun index_byte :: "'a \<Rightarrow> 'a list \<Rightarrow> nat option" where
  "index_byte c [] = None"
| "index_byte c (x # xs) = (if x = c then Some 0 else map_option Suc (index_byte c xs))"

definition last_index_byte :: "'a \<Rightarrow> 'a list \<Rightarrow> nat option" where
  "last_index_byte c s = map_option (\<lambda>i. length s - 1 - i) (index_byte c (rev s))"

definition has_prefix :: "'a list \<Rightarrow> 'a list \<Rightarrow> bool" where
  "has_prefix s p \<longleftrightarrow> take (length p) s = p"

definition has_suffix :: "'a list \<Rightarrow> 'a list \<Rightarrow> bool" where
  "has_suffix s p \<longleftrightarrow> has_prefix (rev s) (rev p)"

text \<open>\<open>strings.Index(s, sub)\<close> and \<open>strings.Contains\<close>.\<close>

fun str_index :: "'a list \<Rightarrow> 'a list \<Rightarrow> nat option" where
  "str_index [] sub = (if sub = [] then Some 0 else None)"
| "str_index (x # xs) sub =
     (if has_prefix (x # xs) sub then Some 0 else map_option Suc (str_index xs sub))"

definition str_contains :: "'a list \<Rightarrow> 'a list \<Rightarrow> bool" where
  "str_contains s sub \<longleftrightarrow> str_index s sub \<noteq> None"

text \<open>\<open>strings.SplitN(s, sep, 2)\<close> with a one-byte separator.\<close>

definition split_n2 :: "'a \<Rightarrow> 'a list \<Rightarrow> 'a list list" where
  "split_n2 c s =
     (case index_byte c s of None \<Rightarrow> [s] | Some i \<Rightarrow> [take i s, drop (Suc i) s])"

definition trim_right :: "'a \<Rightarrow> 'a list \<Rightarrow> 'a list" where
  "trim_right c s = rev (dropWhile (\<lambda>x. x = c) (rev s))"

text \<open>\<open>strings.Trim(s, cutset)\<close>.\<close>

definition str_trim :: "'a list \<Rightarrow> 'a list \<Rightarrow> 'a list" where
  "str_trim cs s =
     rev (dropWhile (\<lambda>x. x \<in> set cs) (rev (dropWhile (\<lambda>x. x \<in> set cs) s)))"

lemma split_on_nonempty [simp]: "split_on c s \<noteq> []"
  by (induction s) (auto split: list.splits)

lemma split_on_no_sep: "c \<notin> set s \<Longrightarrow> split_on c s = [s]"
  by (induction s) auto

lemma split_on_append:
  "c \<notin> set s \<Longrightarrow> split_on c (s @ c # t) = s # split_on c t"
  by (induction s) auto

lemma split_on_join:
  "ls \<noteq> [] \<Longrightarrow> (\<And>l. l \<in> set ls \<Longrightarrow> c \<notin> set l) \<Longrightarrow> split_on c (join [c] ls) = ls"
proof (induction "[c]" ls rule: join.induct)
  case (3 x y zs)
  then show ?case by (simp add: split_on_append)
qed (auto simp: split_on_no_sep)

lemma join_split_on: "join [c] (split_on c s) = s"
proof (induction s)
  case (Cons x s)
  show ?case
  proof (cases "split_on c s")
    case Nil
    then show ?thesis by simp
  next
    case (Cons w ws)
    then show ?thesis using Cons.IH by (cases ws) auto
  qed
qed simp

lemma index_byte_None: "index_byte c s = None \<longleftrightarrow> c \<notin> set s"
  by (induction s) auto

lemma index_byte_append: "c \<notin> set s \<Longrightarrow> index_byte c (s @ c # t) = Some (length s)"
  by (induction s) auto

lemma index_byte_SomeD:
  "index_byte c s = Some i \<Longrightarrow> i < length s \<and> s ! i = c \<and> c \<notin> set (take i s)"
proof (induction s arbitrary: i)
  case (Cons x s)
  then show ?case by (cases i) (auto split: if_splits)
qed simp

lemma last_index_byte_None: "last_index_byte c s = None \<longleftrightarrow> c \<notin> set s"
  by (simp add: last_index_byte_def index_byte_None)

lemma last_index_byte_append:
  "c \<notin> set t \<Longrightarrow> last_index_byte c (s @ c # t) = Some (length s)"
  using index_byte_append [of c "rev t" "rev s"] by (simp add: last_index_byte_def)

lemma split_n2_append:
  "c \<notin> set s \<Longrightarrow> split_n2 c (s @ c # t) = [s, t]"
  by (simp add: split_n2_def index_byte_append)

lemma trim_right_idle: "s = [] \<or> last s \<noteq> c \<Longrightarrow> trim_right c s = s"
  by (cases s rule: rev_cases) (auto simp: trim_right_def)

section \<open>net\<close>

text \<open>\<open>net.JoinHostPort\<close> and \<open>net.SplitHostPort\<close>, branch by branch.\<close>

definition join_host_port :: "string \<Rightarrow> string \<Rightarrow> string" where
  "join_host_port host port =
     (if CHR '':'' \<in> set host then ''['' @ host @ '']:'' @ port else host @ '':'' @ port)"

definition split_host_port :: "string \<Rightarrow> (string \<times> string) res" where
  "split_host_port hp =
     (case last_index_byte (CHR '':'') hp of
        None \<Rightarrow> Err (Msg ''missing port in address'')
      | Some i \<Rightarrow>
          if hp ! 0 = CHR ''['' then
            (case index_byte (CHR '']'') hp of
               None \<Rightarrow> Err (Msg ''missing ']' in address'')
             | Some e \<Rightarrow>
                 if Suc e = length hp then Err (Msg ''missing port in address'')
                 else if Suc e = i then
                   (if CHR ''['' \<in> set (drop 1 hp) then Err (Msg ''unexpected '[' in address'')
                    else if CHR '']'' \<in> set (drop (Suc e) hp)
                    then Err (Msg ''unexpected ']' in address'')
                    else Ok (take (e - 1) (drop 1 hp), drop (Suc i) hp))
                 else if hp ! Suc e = CHR '':'' then Err (Msg ''too many colons in address'')
                 else Err (Msg ''missing port in address''))
          else if CHR '':'' \<in> set (take i hp) then Err (Msg ''too many colons in address'')
          else if CHR ''['' \<in> set hp then Err (Msg ''unexpected '[' in address'')
          else if CHR '']'' \<in> set hp then Err (Msg ''unexpected ']' in address'')
          else Ok (take i hp, drop (Suc i) hp))"

definition plain_chars :: "string \<Rightarrow> bool" where
  "plain_chars s \<longleftrightarrow> CHR ''['' \<notin> set s \<and> CHR '']'' \<notin> set s"

lemma itoa_chars: "c \<in> set (itoa n) \<Longrightarrow> is_digit c"
  using itoa_digits [of n] by (simp add: list_all_iff)

lemma itoa_no_special:
  "CHR '':'' \<notin> set (itoa n)" "CHR ''['' \<notin> set (itoa n)" "CHR '']'' \<notin> set (itoa n)"
  using itoa_chars [of "CHR '':''" n] itoa_chars [of "CHR ''[''" n] itoa_chars [of "CHR '']''" n]
  by (auto simp: is_digit_def)

text \<open>Splitting what was joined gives the two parts back, IPv6 literals included.\<close>

lemma split_join_host_port:
  assumes "plain_chars host" and "plain_chars port" and "CHR '':'' \<notin> set port"
  shows "split_host_port (join_host_port host port) = Ok (host, port)"
proof (cases "CHR '':'' \<in> set host")
  case False
  then have j: "join_host_port host port = host @ CHR '':'' # port"
    by (simp add: join_host_port_def)
  have "(host @ CHR '':'' # port) ! 0 \<noteq> CHR ''[''"
    using assms(1) by (cases host) (auto simp: plain_chars_def)
  moreover have "last_index_byte (CHR '':'') (host @ CHR '':'' # port) = Some (length host)"
    using assms(3) by (rule last_index_byte_append)
  ultimately show ?thesis
    using False assms by (simp add: split_host_port_def j plain_chars_def)
next
  case True
  define hp where "hp = (CHR ''['' # host @ [CHR '']'']) @ CHR '':'' # port"
  have j: "join_host_port host port = hp"
    using True by (simp add: join_host_port_def hp_def)
  have li: "last_index_byte (CHR '':'') hp = Some (length host + 2)"
    unfolding hp_def
    by (subst last_index_byte_append [OF assms(3)]) simp
  have ib: "index_byte (CHR '']'') hp = Some (Suc (length host))"
    using index_byte_append [of "CHR '']''" "CHR ''['' # host" "CHR '':'' # port"] assms(1)
    by (simp add: hp_def plain_chars_def)
  have "drop (Suc (Suc (length host))) hp = CHR '':'' # port"
    and "drop 1 hp = host @ CHR '']'' # CHR '':'' # port"
    and "length hp = length host + 3 + length port" and "hp ! 0 = CHR ''[''"
    by (simp_all add: hp_def)
  moreover have "drop (Suc (length host + 2)) hp = port"
    by (simp add: hp_def)
  ultimately show ?thesis
    using assms(1,2) by (simp add: j split_host_port_def li ib plain_chars_def)
qed

end
