(* ===== verification/Netip.thy ===== *)
theory Netip
  imports GoLib
begin

text \<open>
  \<open>transport/common/netip\<close>: IP addresses as a 128-bit value with an address family, their
  text forms, their order, and CIDR prefixes (\<open>uint128.go\<close>, \<open>leaf_alt.go\<close>, \<open>netip.go\<close>).
  The interned zone pointer \<open>z\<close> is its value: \<open>Z0\<close> (no address), \<open>Z4\<close>, or \<open>Z6 zone\<close> with the
  empty zone for \<open>z6noz\<close>. Parse errors keep the message and drop the quoted input.
\<close>

section \<open>128-bit values\<close>

datatype uint128 = U128 (hi: "64 word") (lo: "64 word")

definition u_isZero :: "uint128 \<Rightarrow> bool" where
  "u_isZero u \<longleftrightarrow> hi u OR lo u = 0"

definition u_and :: "uint128 \<Rightarrow> uint128 \<Rightarrow> uint128" where
  "u_and u m = U128 (hi u AND hi m) (lo u AND lo m)"

definition u_xor :: "uint128 \<Rightarrow> uint128 \<Rightarrow> uint128" where
  "u_xor u m = U128 (hi u XOR hi m) (lo u XOR lo m)"

definition u_or :: "uint128 \<Rightarrow> uint128 \<Rightarrow> uint128" where
  "u_or u m = U128 (hi u OR hi m) (lo u OR lo m)"

definition u_not :: "uint128 \<Rightarrow> uint128" where
  "u_not u = U128 (NOT (hi u)) (NOT (lo u))"

text \<open>\<open>bits.Add64(lo, 1, 0)\<close> and \<open>bits.Sub64(lo, 1, 0)\<close>: the carry is 1 exactly on wrap-around.\<close>

definition u_addOne :: "uint128 \<Rightarrow> uint128" where
  "u_addOne u = U128 (hi u + (if lo u + 1 = 0 then 1 else 0)) (lo u + 1)"

definition u_subOne :: "uint128 \<Rightarrow> uint128" where
  "u_subOne u = U128 (hi u - (if lo u = 0 then 1 else 0)) (lo u - 1)"

text \<open>\<open>mask6(n)\<close> for \<open>n \<le> 128\<close> (a larger \<open>n\<close> would be a negative shift, and no caller passes one).\<close>

definition mask6 :: "nat \<Rightarrow> uint128" where
  "mask6 n = U128 (NOT (drop_bit n (NOT 0))) (push_bit (128 - n) (NOT 0))"

definition bitsSetFrom :: "uint128 \<Rightarrow> byte \<Rightarrow> uint128" where
  "bitsSetFrom u b = u_or u (u_not (mask6 (unat b)))"

definition bitsClearedFrom :: "uint128 \<Rightarrow> byte \<Rightarrow> uint128" where
  "bitsClearedFrom u b = u_and u (mask6 (unat b))"

text \<open>The 128-bit integer that a pair stands for.\<close>

definition u_val :: "uint128 \<Rightarrow> 128 word" where
  "u_val u = push_bit 64 (ucast (hi u)) OR ucast (lo u)"

section \<open>Addresses\<close>

datatype zfield = Z0 | Z4 | Z6 string

datatype addr = Addr (abits: uint128) (afam: zfield)

definition zero_addr :: addr where "zero_addr = Addr (U128 0 0) Z0"

definition addrFrom4 :: "bytes \<Rightarrow> addr" where
  "addrFrom4 a = Addr (U128 0 (0xffff00000000 OR push_bit 24 (ucast (a ! 0))
     OR push_bit 16 (ucast (a ! 1)) OR push_bit 8 (ucast (a ! 2)) OR ucast (a ! 3))) Z4"

definition addrFrom16 :: "bytes \<Rightarrow> addr" where
  "addrFrom16 a = Addr (U128 (get_be64 (take 8 a)) (get_be64 (drop 8 a))) (Z6 [])"

definition addrFromSlice :: "bytes \<Rightarrow> addr option" where
  "addrFromSlice s =
     (if length s = 4 then Some (addrFrom4 s)
      else if length s = 16 then Some (addrFrom16 s) else None)"

definition addr_v4 :: "addr \<Rightarrow> nat \<Rightarrow> byte" where
  "addr_v4 ip i = ucast (drop_bit ((3 - i) * 8) (lo (abits ip)))"

definition addr_v6 :: "addr \<Rightarrow> nat \<Rightarrow> byte" where
  "addr_v6 ip i =
     ucast (drop_bit ((7 - i mod 8) * 8) (if (i div 8) mod 2 = 0 then hi (abits ip) else lo (abits ip)))"

definition addr_v6u16 :: "addr \<Rightarrow> nat \<Rightarrow> 16 word" where
  "addr_v6u16 ip i =
     ucast (drop_bit ((3 - i mod 4) * 16) (if (i div 4) mod 2 = 0 then hi (abits ip) else lo (abits ip)))"

definition addr_isValid :: "addr \<Rightarrow> bool" where "addr_isValid ip \<longleftrightarrow> afam ip \<noteq> Z0"

fun z_bitLen :: "zfield \<Rightarrow> nat" where
  "z_bitLen Z0 = 0" | "z_bitLen Z4 = 32" | "z_bitLen (Z6 _) = 128"

definition addr_bitLen :: "addr \<Rightarrow> nat" where "addr_bitLen ip = z_bitLen (afam ip)"

definition addr_zone :: "addr \<Rightarrow> string" where
  "addr_zone ip = (case afam ip of Z6 z \<Rightarrow> z | _ \<Rightarrow> [])"

definition addr_is4 :: "addr \<Rightarrow> bool" where "addr_is4 ip \<longleftrightarrow> afam ip = Z4"

definition addr_is6 :: "addr \<Rightarrow> bool" where "addr_is6 ip \<longleftrightarrow> afam ip \<noteq> Z0 \<and> afam ip \<noteq> Z4"

definition addr_is4In6 :: "addr \<Rightarrow> bool" where
  "addr_is4In6 ip \<longleftrightarrow> addr_is6 ip \<and> hi (abits ip) = 0 \<and> drop_bit 32 (lo (abits ip)) = 0xffff"

definition addr_unmap :: "addr \<Rightarrow> addr" where
  "addr_unmap ip = (if addr_is4In6 ip then Addr (abits ip) Z4 else ip)"

definition addr_withZone :: "addr \<Rightarrow> string \<Rightarrow> addr" where
  "addr_withZone ip zone = (if \<not> addr_is6 ip then ip else Addr (abits ip) (Z6 zone))"

definition addr_withoutZone :: "addr \<Rightarrow> addr" where
  "addr_withoutZone ip = (if \<not> addr_is6 ip then ip else Addr (abits ip) (Z6 []))"

definition addr_hasZone :: "addr \<Rightarrow> bool" where
  "addr_hasZone ip \<longleftrightarrow> afam ip \<noteq> Z0 \<and> afam ip \<noteq> Z4 \<and> afam ip \<noteq> Z6 []"

definition addr_as16 :: "addr \<Rightarrow> bytes" where
  "addr_as16 ip = put_be64 (hi (abits ip)) @ put_be64 (lo (abits ip))"

definition addr_as4 :: "addr \<Rightarrow> bytes res" where
  "addr_as4 ip =
     (if afam ip = Z4 \<or> addr_is4In6 ip then Ok (put_be32 (ucast (lo (abits ip))))
      else if afam ip = Z0 then Err (Panic ''As4 called on IP zero value'')
      else Err (Panic ''As4 called on IPv6 address''))"

definition addr_asSlice :: "addr \<Rightarrow> bytes" where
  "addr_asSlice ip = (case afam ip of Z0 \<Rightarrow> []
     | Z4 \<Rightarrow> put_be32 (ucast (lo (abits ip)))
     | Z6 _ \<Rightarrow> put_be64 (hi (abits ip)) @ put_be64 (lo (abits ip)))"

definition addr_next :: "addr \<Rightarrow> addr" where
  "addr_next ip =
     (let u = u_addOne (abits ip) in
      if addr_is4 ip then (if (ucast (lo u) :: 32 word) = 0 then zero_addr else Addr u (afam ip))
      else if u_isZero u then zero_addr else Addr u (afam ip))"

definition addr_prev :: "addr \<Rightarrow> addr" where
  "addr_prev ip =
     (if addr_is4 ip then
        (if (ucast (lo (abits ip)) :: 32 word) = 0 then zero_addr
         else Addr (u_subOne (abits ip)) (afam ip))
      else if u_isZero (abits ip) then zero_addr else Addr (u_subOne (abits ip)) (afam ip))"

subsection \<open>Order\<close>

definition str_less :: "string \<Rightarrow> string \<Rightarrow> bool" where
  "str_less a b \<longleftrightarrow> ord_class.lexordp (map (of_char :: char \<Rightarrow> nat) a) (map of_char b)"

definition addr_compare :: "addr \<Rightarrow> addr \<Rightarrow> int" where
  "addr_compare a b =
     (if addr_bitLen a < addr_bitLen b then -1
      else if addr_bitLen b < addr_bitLen a then 1
      else if hi (abits a) < hi (abits b) then -1
      else if hi (abits b) < hi (abits a) then 1
      else if lo (abits a) < lo (abits b) then -1
      else if lo (abits b) < lo (abits a) then 1
      else if addr_is6 a then
        (if str_less (addr_zone a) (addr_zone b) then -1
         else if str_less (addr_zone b) (addr_zone a) then 1 else 0)
      else 0)"

definition addr_less :: "addr \<Rightarrow> addr \<Rightarrow> bool" where
  "addr_less a b \<longleftrightarrow> addr_compare a b = -1"

subsection \<open>Classification\<close>

definition isLinkLocalUnicast :: "addr \<Rightarrow> bool" where
  "isLinkLocalUnicast ip =
     (if addr_is4 ip then addr_v4 ip 0 = 169 \<and> addr_v4 ip 1 = 254
      else if addr_is6 ip then addr_v6u16 ip 0 AND 0xffc0 = 0xfe80 else False)"

definition isLoopback :: "addr \<Rightarrow> bool" where
  "isLoopback ip =
     (if addr_is4 ip then addr_v4 ip 0 = 127
      else if addr_is6 ip then hi (abits ip) = 0 \<and> lo (abits ip) = 1 else False)"

definition isMulticast :: "addr \<Rightarrow> bool" where
  "isMulticast ip =
     (if addr_is4 ip then addr_v4 ip 0 AND 0xf0 = 0xe0
      else if addr_is6 ip then drop_bit 56 (hi (abits ip)) = 0xff else False)"

definition isInterfaceLocalMulticast :: "addr \<Rightarrow> bool" where
  "isInterfaceLocalMulticast ip = (if addr_is6 ip then addr_v6u16 ip 0 AND 0xff0f = 0xff01 else False)"

definition isLinkLocalMulticast :: "addr \<Rightarrow> bool" where
  "isLinkLocalMulticast ip =
     (if addr_is4 ip then addr_v4 ip 0 = 224 \<and> addr_v4 ip 1 = 0 \<and> addr_v4 ip 2 = 0
      else if addr_is6 ip then addr_v6u16 ip 0 AND 0xff0f = 0xff02 else False)"

definition isUnspecified :: "addr \<Rightarrow> bool" where
  "isUnspecified ip \<longleftrightarrow> ip = addrFrom4 [0, 0, 0, 0] \<or> ip = Addr (U128 0 0) (Z6 [])"

definition isGlobalUnicast :: "addr \<Rightarrow> bool" where
  "isGlobalUnicast ip =
     (if afam ip = Z0 then False
      else if addr_is4 ip \<and> (ip = addrFrom4 [0, 0, 0, 0] \<or> ip = addrFrom4 [255, 255, 255, 255])
      then False
      else ip \<noteq> Addr (U128 0 0) (Z6 []) \<and> \<not> isLoopback ip \<and> \<not> isMulticast ip
           \<and> \<not> isLinkLocalUnicast ip)"

definition isPrivate :: "addr \<Rightarrow> bool" where
  "isPrivate ip =
     (if addr_is4 ip then addr_v4 ip 0 = 10
        \<or> (addr_v4 ip 0 = 172 \<and> addr_v4 ip 1 AND 0xf0 = 16)
        \<or> (addr_v4 ip 0 = 192 \<and> addr_v4 ip 1 = 168)
      else if addr_is6 ip then addr_v6 ip 0 AND 0xfe = 0xfc else False)"

section \<open>Text forms\<close>

definition hex_digits :: string where "hex_digits = ''0123456789abcdef''"

definition appendDecimal :: "string \<Rightarrow> byte \<Rightarrow> string" where
  "appendDecimal b x =
     (let b1 = (if 100 \<le> x then b @ [hex_digits ! unat (x div 100)] else b);
          b2 = (if 10 \<le> x then b1 @ [hex_digits ! unat (x div 10 mod 10)] else b1)
      in b2 @ [hex_digits ! unat (x mod 10)])"

definition appendHex :: "string \<Rightarrow> 16 word \<Rightarrow> string" where
  "appendHex b x =
     (let b1 = (if 0x1000 \<le> x then b @ [hex_digits ! unat (drop_bit 12 x)] else b);
          b2 = (if 0x100 \<le> x then b1 @ [hex_digits ! unat (drop_bit 8 x AND 0xf)] else b1);
          b3 = (if 0x10 \<le> x then b2 @ [hex_digits ! unat (drop_bit 4 x AND 0xf)] else b2)
      in b3 @ [hex_digits ! unat (x AND 0xf)])"

definition appendHexPad :: "string \<Rightarrow> 16 word \<Rightarrow> string" where
  "appendHexPad b x = b @ [hex_digits ! unat (drop_bit 12 x), hex_digits ! unat (drop_bit 8 x AND 0xf),
     hex_digits ! unat (drop_bit 4 x AND 0xf), hex_digits ! unat (x AND 0xf)]"

definition appendTo4 :: "addr \<Rightarrow> string \<Rightarrow> string" where
  "appendTo4 ip ret =
     appendDecimal (appendDecimal (appendDecimal (appendDecimal ret (addr_v4 ip 0) @ ''.'')
       (addr_v4 ip 1) @ ''.'') (addr_v4 ip 2) @ ''.'') (addr_v4 ip 3)"

definition zone_suffix :: "addr \<Rightarrow> string" where
  "zone_suffix ip = (if afam ip \<noteq> Z6 [] then CHR ''%'' # addr_zone ip else [])"

definition appendTo4In6 :: "addr \<Rightarrow> string \<Rightarrow> string" where
  "appendTo4In6 ip ret = appendTo4 (addr_unmap ip) (ret @ ''::ffff:'') @ zone_suffix ip"

text \<open>The longest run of zero groups: the first index at or after \<open>i\<close> of a non-zero group, and
  the scan that keeps the first run of the greatest length of at least two.\<close>

fun zero_run_end :: "addr \<Rightarrow> nat \<Rightarrow> nat \<Rightarrow> nat" where
  "zero_run_end ip 0 j = j"
| "zero_run_end ip (Suc n) j =
     (if j < 8 \<and> addr_v6u16 ip j = 0 then zero_run_end ip n (Suc j) else j)"

definition zero_run :: "addr \<Rightarrow> nat \<times> nat" where
  "zero_run ip = foldl (\<lambda>(zs, ze) i.
      let j = zero_run_end ip 8 i; l = j - i
      in if 2 \<le> l \<and> ze - zs < l then (i, j) else (zs, ze)) (255, 255) [0..<8]"

function to6_loop :: "addr \<Rightarrow> nat \<Rightarrow> nat \<Rightarrow> nat \<Rightarrow> string \<Rightarrow> string" where
  "to6_loop ip zs ze i ret =
     (if 8 \<le> i then ret
      else if i = zs then
        (if 8 \<le> ze then ret @ ''::''
         else to6_loop ip zs ze (Suc (max i ze)) (appendHex (ret @ ''::'') (addr_v6u16 ip ze)))
      else to6_loop ip zs ze (Suc i)
             (appendHex (if 0 < i then ret @ '':'' else ret) (addr_v6u16 ip i)))"
  by pat_completeness auto
termination by (relation "measure (\<lambda>(_, _, _, i, _). 8 - i)") auto

declare to6_loop.simps [simp del]

definition appendTo6 :: "addr \<Rightarrow> string \<Rightarrow> string" where
  "appendTo6 ip ret =
     (case zero_run ip of (zs, ze) \<Rightarrow> to6_loop ip zs ze 0 ret @ zone_suffix ip)"

definition addr_string :: "addr \<Rightarrow> string" where
  "addr_string ip = (case afam ip of Z0 \<Rightarrow> ''invalid IP''
     | Z4 \<Rightarrow> appendTo4 ip []
     | Z6 _ \<Rightarrow> if addr_is4In6 ip then appendTo4In6 ip [] else appendTo6 ip [])"

definition addr_appendTo :: "addr \<Rightarrow> string \<Rightarrow> string" where
  "addr_appendTo ip b = (case afam ip of Z0 \<Rightarrow> b
     | Z4 \<Rightarrow> appendTo4 ip b
     | Z6 _ \<Rightarrow> if addr_is4In6 ip then appendTo4In6 ip b else appendTo6 ip b)"

definition addr_stringExpanded :: "addr \<Rightarrow> string" where
  "addr_stringExpanded ip = (case afam ip of Z0 \<Rightarrow> addr_string ip | Z4 \<Rightarrow> addr_string ip
     | Z6 _ \<Rightarrow> foldl (\<lambda>ret i. appendHexPad (if 0 < i then ret @ '':'' else ret) (addr_v6u16 ip i))
                 [] [0..<8] @ zone_suffix ip)"

section \<open>Parsing\<close>

text \<open>\<open>parseIPv4Fields\<close>: the rest of the text, the previous character (none at the start), the
  current octet's value and number of digits, and the octets stored so far.\<close>

fun parse_v4_loop :: "string \<Rightarrow> char option \<Rightarrow> nat \<Rightarrow> nat \<Rightarrow> nat list \<Rightarrow> nat list res" where
  "parse_v4_loop [] prev val digLen acc =
     (if length acc < 3 then Err (Msg ''IPv4 address too short'') else Ok (acc @ [val]))"
| "parse_v4_loop (c # cs) prev val digLen acc =
     (if is_digit c then
        (if digLen = 1 \<and> val = 0 then Err (Msg ''IPv4 field has octet with leading zero'')
         else let val' = val * 10 + digit_val c in
           if 255 < val' then Err (Msg ''IPv4 field has value >255'')
           else parse_v4_loop cs (Some c) val' (Suc digLen) acc)
      else if c = CHR ''.'' then
        (if prev = None \<or> cs = [] \<or> prev = Some CHR ''.''
         then Err (Msg ''IPv4 field must have at least one digit'')
         else if length acc = 3 then Err (Msg ''IPv4 address too long'')
         else parse_v4_loop cs (Some c) 0 0 (acc @ [val]))
      else Err (Msg ''unexpected character''))"

definition parseIPv4Fields :: "string \<Rightarrow> bytes res" where
  "parseIPv4Fields s = (case parse_v4_loop s None 0 0 [] of
     Inl e \<Rightarrow> Err e | Inr f \<Rightarrow> Ok (map word_of_nat f))"

definition parseIPv4 :: "string \<Rightarrow> addr res" where
  "parseIPv4 s = (case parseIPv4Fields s of Inl e \<Rightarrow> Err e | Inr f \<Rightarrow> Ok (addrFrom4 f))"

definition hex_val :: "char \<Rightarrow> nat option" where
  "hex_val c = (let n = (of_char c :: nat) in
     if 48 \<le> n \<and> n \<le> 57 then Some (n - 48)
     else if 97 \<le> n \<and> n \<le> 102 then Some (n - 97 + 10)
     else if 65 \<le> n \<and> n \<le> 70 then Some (n - 65 + 10) else None)"

text \<open>One hexadecimal group: the number of digits, the value, and the rest of the text.\<close>

fun scan_hex :: "string \<Rightarrow> nat \<Rightarrow> 32 word \<Rightarrow> (nat \<times> 32 word \<times> string) res" where
  "scan_hex [] off acc = Ok (off, acc, [])"
| "scan_hex (c # cs) off acc = (case hex_val c of
     None \<Rightarrow> Ok (off, acc, c # cs)
   | Some d \<Rightarrow>
       let acc' = push_bit 4 acc + word_of_nat d in
       if 3 < off then Err (Msg ''each group must have 4 or less digits'')
       else if 65535 < acc' then Err (Msg ''IPv6 field has value >=2^16'')
       else scan_hex cs (Suc off) acc')"

text \<open>The main loop of \<open>parseIPv6\<close>: the rest of the text, the position of the ellipsis, and the
  bytes stored so far (the loop variable \<open>i\<close> is their number).\<close>

function parse_v6_loop :: "string \<Rightarrow> nat option \<Rightarrow> bytes \<Rightarrow> (string \<times> nat option \<times> bytes) res" where
  "parse_v6_loop s ell ip =
     (if 16 \<le> length ip then Ok (s, ell, ip)
      else case scan_hex s 0 0 of
        Inl e \<Rightarrow> Err e
      | Inr (off, acc, rest) \<Rightarrow>
          if off = 0 then Err (Msg ''each colon-separated field must have at least one digit'')
          else if rest \<noteq> [] \<and> hd rest = CHR ''.'' then
            (if ell = None \<and> length ip \<noteq> 12
             then Err (Msg ''embedded IPv4 address must replace the final 2 fields of the address'')
             else if 16 < length ip + 4
             then Err (Msg ''too many hex fields to fit an embedded IPv4 at the end of the address'')
             else case parseIPv4Fields s of
                 Inl e \<Rightarrow> Err e
               | Inr f \<Rightarrow> Ok ([], ell, ip @ f))
          else let ip' = ip @ [ucast (drop_bit 8 acc), ucast acc] in
            if rest = [] then Ok ([], ell, ip')
            else if hd rest \<noteq> CHR '':'' then Err (Msg ''unexpected character, want colon'')
            else if length rest = 1 then Err (Msg ''colon must be followed by more characters'')
            else let s1 = tl rest in
              if hd s1 = CHR '':'' then
                (if ell \<noteq> None then Err (Msg ''multiple :: in address'')
                 else if tl s1 = [] then Ok ([], Some (length ip'), ip')
                 else parse_v6_loop (tl s1) (Some (length ip')) ip')
              else parse_v6_loop s1 ell ip')"
  by pat_completeness auto
termination by (relation "measure (\<lambda>(_, _, ip). 16 - length ip)") (auto simp: Let_def)

declare parse_v6_loop.simps [simp del]

definition parseIPv6 :: "string \<Rightarrow> addr res" where
  "parseIPv6 inp =
     (let (s, zone, badzone) = (case index_byte (CHR ''%'') inp of
          None \<Rightarrow> (inp, [], False)
        | Some i \<Rightarrow> (take i inp, drop (Suc i) inp, drop (Suc i) inp = []));
        lead = (2 \<le> length s \<and> s ! 0 = CHR '':'' \<and> s ! 1 = CHR '':'')
      in if badzone then Err (Msg ''zone must be a non-empty string'')
         else if lead \<and> length s = 2 then Ok (addr_withZone (Addr (U128 0 0) (Z6 [])) zone)
         else case parse_v6_loop (if lead then drop 2 s else s) (if lead then Some 0 else None) [] of
           Inl e \<Rightarrow> Err e
         | Inr (rest, ell, ip) \<Rightarrow>
             if rest \<noteq> [] then Err (Msg ''trailing garbage after address'')
             else if length ip < 16 then
               (case ell of None \<Rightarrow> Err (Msg ''address string too short'')
                | Some e \<Rightarrow> Ok (addr_withZone
                    (addrFrom16 (take e ip @ replicate (16 - length ip) 0 @ drop e ip)) zone))
             else if ell \<noteq> None
             then Err (Msg ''the :: must expand to at least one field of zeros'')
             else Ok (addr_withZone (addrFrom16 ip) zone))"

fun parseAddr_scan :: "string \<Rightarrow> string \<Rightarrow> addr res" where
  "parseAddr_scan whole [] = Err (Msg ''unable to parse IP'')"
| "parseAddr_scan whole (c # cs) =
     (if c = CHR ''.'' then parseIPv4 whole
      else if c = CHR '':'' then parseIPv6 whole
      else if c = CHR ''%'' then Err (Msg ''missing IPv6 address'')
      else parseAddr_scan whole cs)"

definition parseAddr :: "string \<Rightarrow> addr res" where
  "parseAddr s = parseAddr_scan s s"

definition mustParseAddr :: "string \<Rightarrow> addr res" where
  "mustParseAddr s = (case parseAddr s of Inl _ \<Rightarrow> Err (Panic ''MustParseAddr'') | Inr a \<Rightarrow> Ok a)"

section \<open>Binary form\<close>

definition addr_marshalBinary :: "addr \<Rightarrow> bytes" where
  "addr_marshalBinary ip = (case afam ip of Z0 \<Rightarrow> []
     | Z4 \<Rightarrow> put_be32 (ucast (lo (abits ip)))
     | Z6 z \<Rightarrow> put_be64 (hi (abits ip)) @ put_be64 (lo (abits ip)) @ s2b z)"

definition addr_unmarshalBinary :: "bytes \<Rightarrow> addr res" where
  "addr_unmarshalBinary b =
     (if length b = 0 then Ok zero_addr
      else if length b = 4 then Ok (addrFrom4 b)
      else if length b = 16 then Ok (addrFrom16 b)
      else if 16 < length b then Ok (addr_withZone (addrFrom16 (take 16 b)) (b2s (drop 16 b)))
      else Err (Msg ''unexpected slice size''))"

section \<open>Prefixes\<close>

datatype prefix = Prefix (pip: addr) (bitsPlusOne: byte)

definition prefix_isValid :: "prefix \<Rightarrow> bool" where
  "prefix_isValid p \<longleftrightarrow> bitsPlusOne p > 0"

definition prefix_bits :: "prefix \<Rightarrow> int" where
  "prefix_bits p = int (unat (bitsPlusOne p)) - 1"

definition prefixFrom :: "addr \<Rightarrow> int \<Rightarrow> prefix" where
  "prefixFrom ip bits = Prefix (addr_withoutZone ip)
     (if afam ip \<noteq> Z0 \<and> 0 \<le> bits \<and> bits \<le> int (addr_bitLen ip) then word_of_int bits + 1 else 0)"

definition zero_prefix :: prefix where "zero_prefix = Prefix zero_addr 0"

definition addr_prefix :: "addr \<Rightarrow> int \<Rightarrow> prefix res" where
  "addr_prefix ip b =
     (if b < 0 then Err (Msg ''negative Prefix bits'')
      else case afam ip of
        Z0 \<Rightarrow> Ok zero_prefix
      | Z4 \<Rightarrow> if 32 < b then Err (Msg ''prefix length too large for IPv4'')
              else Ok (prefixFrom (Addr (u_and (abits ip) (mask6 (nat b + 96))) Z4) b)
      | Z6 z \<Rightarrow> if 128 < b then Err (Msg ''prefix length too large for IPv6'')
              else Ok (prefixFrom (Addr (u_and (abits ip) (mask6 (nat b))) (Z6 z)) b))"

definition prefix_masked :: "prefix \<Rightarrow> prefix" where
  "prefix_masked p = (case addr_prefix (pip p) (prefix_bits p) of
     Inl _ \<Rightarrow> zero_prefix | Inr m \<Rightarrow> m)"

definition prefix_contains :: "prefix \<Rightarrow> addr \<Rightarrow> bool" where
  "prefix_contains p ip =
     (if \<not> prefix_isValid p \<or> addr_hasZone ip then False
      else if addr_bitLen (pip p) = 0 \<or> addr_bitLen ip = 0 \<or> addr_bitLen (pip p) \<noteq> addr_bitLen ip
      then False
      else if addr_is4 ip then
        (ucast (drop_bit (nat ((32 - prefix_bits p) mod 64)) (lo (abits ip) XOR lo (abits (pip p)))) :: 32 word) = 0
      else u_isZero (u_and (u_xor (abits ip) (abits (pip p))) (mask6 (nat (prefix_bits p)))))"

definition prefix_overlaps :: "prefix \<Rightarrow> prefix \<Rightarrow> bool" where
  "prefix_overlaps p q =
     (if \<not> prefix_isValid p \<or> \<not> prefix_isValid q then False
      else if p = q then True
      else if addr_is4 (pip p) \<noteq> addr_is4 (pip q) then False
      else let m = min (prefix_bits p) (prefix_bits q) in
        if m = 0 then True
        else case addr_prefix (pip p) m of Inl _ \<Rightarrow> False
          | Inr p' \<Rightarrow> (case addr_prefix (pip q) m of Inl _ \<Rightarrow> False
             | Inr q' \<Rightarrow> pip p' = pip q'))"

definition parsePrefix :: "string \<Rightarrow> prefix res" where
  "parsePrefix s =
     (case last_index_byte (CHR ''/'') s of
        None \<Rightarrow> Err (Msg ''no slash'')
      | Some i \<Rightarrow>
          (case parseAddr (take i s) of
             Inl e \<Rightarrow> Err e
           | Inr ip \<Rightarrow>
               if addr_is6 ip \<and> afam ip \<noteq> Z6 []
               then Err (Msg ''IPv6 zones cannot be present in a prefix'')
               else let b = drop (Suc i) s in
                 if 1 < length b \<and> ((of_char (b ! 0) :: nat) < 49 \<or> 57 < (of_char (b ! 0) :: nat))
                 then Err (Msg ''bad bits after slash'')
                 else case atoi b of
                   (_, Some e) \<Rightarrow> Err (Msg ''bad bits after slash'')
                 | (bits, None) \<Rightarrow>
                     if bits < 0 \<or> (if addr_is6 ip then 128 else 32) < bits
                     then Err (Msg ''prefix length out of range'')
                     else Ok (prefixFrom ip bits)))"

definition prefix_string :: "prefix \<Rightarrow> string" where
  "prefix_string p = (if \<not> prefix_isValid p then ''invalid Prefix''
     else addr_string (pip p) @ ''/'' @ itoa (nat (prefix_bits p)))"

definition prefix_isSingleIP :: "prefix \<Rightarrow> bool" where
  "prefix_isSingleIP p \<longleftrightarrow> prefix_isValid p \<and> prefix_bits p = int (addr_bitLen (pip p))"

definition prefix_marshalBinary :: "prefix \<Rightarrow> bytes" where
  "prefix_marshalBinary p = addr_marshalBinary (addr_withoutZone (pip p)) @ [word_of_int (prefix_bits p)]"

definition prefix_unmarshalBinary :: "bytes \<Rightarrow> prefix res" where
  "prefix_unmarshalBinary b =
     (if length b < 1 then Err (Msg ''unexpected slice size'')
      else case addr_unmarshalBinary (butlast b) of
        Inl e \<Rightarrow> Err e
      | Inr a \<Rightarrow> Ok (prefixFrom a (int (unat (last b)))))"

section \<open>Address and port\<close>

datatype addrPort = AddrPort (ap_ip: addr) (ap_port: "16 word")

definition splitAddrPort :: "string \<Rightarrow> (string \<times> string \<times> bool) res" where
  "splitAddrPort s =
     (case last_index_byte (CHR '':'') s of
        None \<Rightarrow> Err (Msg ''not an ip:port'')
      | Some i \<Rightarrow>
          let ip = take i s; port = drop (Suc i) s in
          if ip = [] then Err (Msg ''no IP'')
          else if port = [] then Err (Msg ''no port'')
          else if ip ! 0 = CHR ''['' then
            (if length ip < 2 \<or> last ip \<noteq> CHR '']'' then Err (Msg ''missing ]'')
             else Ok (butlast (tl ip), port, True))
          else Ok (ip, port, False))"

definition parseAddrPort :: "string \<Rightarrow> addrPort res" where
  "parseAddrPort s =
     (case splitAddrPort s of
        Inl e \<Rightarrow> Err e
      | Inr (ip, port, v6) \<Rightarrow>
          (case parse_uint 16 port of
             (_, Some _) \<Rightarrow> Err (Msg ''invalid port'')
           | (p, None) \<Rightarrow>
               (case parseAddr ip of
                  Inl e \<Rightarrow> Err e
                | Inr a \<Rightarrow>
                    if v6 \<and> addr_is4 a then Err (Msg ''square brackets can only be used with IPv6 addresses'')
                    else if \<not> v6 \<and> addr_is6 a
                    then Err (Msg ''IPv6 addresses must be surrounded by square brackets'')
                    else Ok (AddrPort a (word_of_nat p)))))"

definition addrPort_string :: "addrPort \<Rightarrow> string" where
  "addrPort_string p =
     (case afam (ap_ip p) of
        Z0 \<Rightarrow> ''invalid AddrPort''
      | Z4 \<Rightarrow> appendTo4 (ap_ip p) [] @ '':'' @ itoa (unat (ap_port p))
      | Z6 _ \<Rightarrow> (if addr_is4In6 (ap_ip p) then appendTo4In6 (ap_ip p) ''[''
                else appendTo6 (ap_ip p) ''['') @ '']'' @ '':'' @ itoa (unat (ap_port p)))"

end
