(* ===== verification/Socks5.thy ===== *)
theory Socks5
  imports Codec Conn Netip
begin

text \<open>
  \<open>transport/socks5/socks5.go\<close> and \<open>transport/common/auth/auth.go\<close>: SOCKS addresses and their
  readers, the text forms, the UDP packet header, and both sides of the handshake as programs
  over a connection. An address is the byte string that goes on the wire.
\<close>

type_synonym saddr = bytes

definition AtypIPv4 :: byte where "AtypIPv4 = 1"
definition AtypDomainName :: byte where "AtypDomainName = 3"
definition AtypIPv6 :: byte where "AtypIPv6 = 4"
definition MaxAddrLen :: nat where "MaxAddrLen = 1 + 1 + 255 + 2"

lemmas atyp_defs = AtypIPv4_def AtypDomainName_def AtypIPv6_def

definition CmdConnect :: byte where "CmdConnect = 1"
definition CmdBind :: byte where "CmdBind = 2"
definition CmdUDPAssociate :: byte where "CmdUDPAssociate = 3"

definition ErrCommandNotSupported :: gerr where "ErrCommandNotSupported = SocksErr 7"
definition ErrAddressNotSupported :: gerr where "ErrAddressNotSupported = SocksErr 8"

section \<open>Reading addresses\<close>

text \<open>\<open>ReadAddr(r, b)\<close> for a buffer of \<open>blen\<close> bytes: the filled prefix of the buffer.\<close>

definition readAddr :: "nat \<Rightarrow> saddr io" where
  "readAddr blen =
     (if blen < MaxAddrLen then io_err ShortBuffer
      else io_bind (io_read 1) (\<lambda>t.
        if hd t = AtypDomainName then
          io_bind (io_read 1) (\<lambda>l.
          io_bind (io_read (unat (hd l) + 2)) (\<lambda>d. io_ret (t @ l @ d)))
        else if hd t = AtypIPv4 then
          io_bind (io_read (4 + 2)) (\<lambda>d. io_ret (t @ d))
        else if hd t = AtypIPv6 then
          io_bind (io_read (16 + 2)) (\<lambda>d. io_ret (t @ d))
        else io_err ErrAddressNotSupported))"

definition readByte :: "byte io" where
  "readByte = io_bind (io_read 1) (\<lambda>b. io_ret (hd b))"

definition readAddr0 :: "saddr io" where
  "readAddr0 =
     io_bind readByte (\<lambda>t.
        if t = AtypDomainName then
          io_bind readByte (\<lambda>l.
          io_bind (io_read (unat l + 2)) (\<lambda>d. io_ret (t # l # d)))
        else if t = AtypIPv4 then
          io_bind (io_read (4 + 2)) (\<lambda>d. io_ret (t # d))
        else if t = AtypIPv6 then
          io_bind (io_read (16 + 2)) (\<lambda>d. io_ret (t # d))
        else io_err ErrAddressNotSupported)"

text \<open>\<open>SplitAddr\<close>: the address at the start of a buffer.\<close>

definition splitAddr :: "bytes \<Rightarrow> saddr option" where
  "splitAddr b =
     (if length b < 1 then None
      else if b ! 0 = AtypDomainName then
        (if length b < 2 then None
         else let n = 1 + 1 + unat (b ! 1) + 2 in if length b < n then None else Some (take n b))
      else if b ! 0 = AtypIPv4 then
        (let n = 1 + 4 + 2 in if length b < n then None else Some (take n b))
      else if b ! 0 = AtypIPv6 then
        (let n = 1 + 16 + 2 in if length b < n then None else Some (take n b))
      else None)"

text \<open>The well-formed addresses, and the abstract address each stands for.\<close>

datatype dest = Domain string "16 word" | IP4 bytes "16 word" | IP6 bytes "16 word"

fun dest_ok :: "dest \<Rightarrow> bool" where
  "dest_ok (Domain h p) = (length h \<le> 255)"
| "dest_ok (IP4 a p) = (length a = 4)"
| "dest_ok (IP6 a p) = (length a = 16)"

fun dest_addr :: "dest \<Rightarrow> saddr" where
  "dest_addr (Domain h p) = AtypDomainName # word_of_nat (length h) # s2b h @ put_be16 p"
| "dest_addr (IP4 a p) = AtypIPv4 # a @ put_be16 p"
| "dest_addr (IP6 a p) = AtypIPv6 # a @ put_be16 p"

definition addr_wf :: "saddr \<Rightarrow> bool" where
  "addr_wf a \<longleftrightarrow> splitAddr a = Some a"

section \<open>Text forms\<close>

text \<open>\<open>net.IP.String\<close> and \<open>net.ParseIP\<close>, which share their algorithms with \<open>netip\<close>: an IPv4-mapped
  address prints in dotted form, and a parsed IPv4 address is stored in its 16-byte form.\<close>

definition v4_prefix :: bytes where
  "v4_prefix = replicate 10 0 @ [0xff, 0xff]"

definition ip_to4 :: "bytes \<Rightarrow> bytes option" where
  "ip_to4 ip =
     (if length ip = 4 then Some ip
      else if length ip = 16 \<and> take 12 ip = v4_prefix then Some (drop 12 ip) else None)"

definition ip_string :: "bytes \<Rightarrow> string" where
  "ip_string ip =
     (if ip = [] then ''<nil>''
      else case ip_to4 ip of
        Some v \<Rightarrow> addr_string (addrFrom4 v)
      | None \<Rightarrow> if length ip = 16 then addr_string (addrFrom16 ip)
                else ''?'' @ concat (map (\<lambda>b. [hex_digits ! unat (drop_bit 4 b),
                                               hex_digits ! unat (b AND 0xf)]) ip))"

definition parse_ip :: "string \<Rightarrow> bytes option" where
  "parse_ip s =
     (case parseAddr s of
        Inl _ \<Rightarrow> None
      | Inr a \<Rightarrow>
          (case afam a of
             Z4 \<Rightarrow> Some (v4_prefix @ put_be32 (ucast (lo (abits a))))
           | _ \<Rightarrow> if addr_zone a \<noteq> [] then None else Some (addr_as16 a)))"

definition port_at :: "bytes \<Rightarrow> nat \<Rightarrow> nat" where
  "port_at a i = unat (a ! i) * 256 + unat (a ! (i + 1))"

text \<open>\<open>Addr.String\<close>; indices past the end panic.\<close>

definition saddr_string :: "saddr \<Rightarrow> string res" where
  "saddr_string a =
     rbind (go_index a 0) (\<lambda>t.
       if t = AtypDomainName then
         rbind (go_index a 1) (\<lambda>l.
         rbind (go_slice a 2 (2 + unat l)) (\<lambda>h.
         rbind (go_index a (2 + unat l)) (\<lambda>_.
         rbind (go_index a (2 + unat l + 1)) (\<lambda>_.
           Ok (join_host_port (b2s h) (itoa (port_at a (2 + unat l))))))))
       else if t = AtypIPv4 then
         rbind (go_slice a 1 5) (\<lambda>h. rbind (go_index a 5) (\<lambda>_. rbind (go_index a 6) (\<lambda>_.
           Ok (join_host_port (ip_string h) (itoa (port_at a 5))))))
       else if t = AtypIPv6 then
         rbind (go_slice a 1 17) (\<lambda>h. rbind (go_index a 17) (\<lambda>_. rbind (go_index a 18) (\<lambda>_.
           Ok (join_host_port (ip_string h) (itoa (port_at a 17))))))
       else Ok (join_host_port [] []))"

text \<open>\<open>ParseAddr\<close>: \<open>None\<close> is the \<open>nil\<close> it returns for a text it cannot parse.\<close>

definition parse_saddr :: "string \<Rightarrow> saddr option" where
  "parse_saddr s =
     (case split_host_port s of
        Inl _ \<Rightarrow> None
      | Inr (host, port) \<Rightarrow>
          let hd_part = (case parse_ip host of
              Some ip \<Rightarrow> (case ip_to4 ip of Some v \<Rightarrow> Some (AtypIPv4 # v) | None \<Rightarrow> Some (AtypIPv6 # ip))
            | None \<Rightarrow> if 255 < length host then None
                      else Some (AtypDomainName # word_of_nat (length host) # s2b host))
          in case hd_part of
               None \<Rightarrow> None
             | Some h \<Rightarrow>
                 (case parse_uint 16 port of
                    (_, Some _) \<Rightarrow> None
                  | (p, None) \<Rightarrow> Some (h @ put_be16 (word_of_nat p))))"

text \<open>\<open>Addr.UDPAddr\<close>: \<open>None\<close> is \<open>nil\<close> (an empty address, a domain name); a truncated address panics.\<close>

definition saddr_udpAddr :: "saddr \<Rightarrow> (bytes \<times> nat) option res" where
  "saddr_udpAddr a =
     (if length a = 0 then Ok None
      else if a ! 0 = AtypIPv4 then
        rbind (go_slice a 1 (1 + 4)) (\<lambda>ip. rbind (go_slice a (1 + 4) (1 + 4 + 2)) (\<lambda>p.
          Ok (Some (ip, unat (get_be16 p)))))
      else if a ! 0 = AtypIPv6 then
        rbind (go_slice a 1 (1 + 16)) (\<lambda>ip. rbind (go_slice a (1 + 16) (1 + 16 + 2)) (\<lambda>p.
          Ok (Some (ip, unat (get_be16 p)))))
      else Ok None)"

text \<open>\<open>ParseAddrToSocksAddr\<close> for an address with the given IP (if it is a TCP or UDP address that has
  one), port and text.\<close>

definition parseAddrToSocksAddr :: "bytes option \<Rightarrow> int \<Rightarrow> string \<Rightarrow> saddr option" where
  "parseAddrToSocksAddr hostip port text =
     (case hostip of
        None \<Rightarrow> parse_saddr text
      | Some ip \<Rightarrow>
          (case ip_to4 ip of
             Some v \<Rightarrow> Some (AtypIPv4 # v @ put_be16 (word_of_int port))
           | None \<Rightarrow> Some (AtypIPv6 # take 16 (go_copy (replicate 18 0) ip)
                              @ put_be16 (word_of_int port))))"

section \<open>UDP packets\<close>

text \<open>\<open>DecodeUDPPacket\<close> returns the address, the payload and the error: when the address cannot be
  read the error is set and the payload is still taken after three bytes.\<close>

definition decodeUDPPacket :: "bytes \<Rightarrow> saddr option \<times> bytes \<times> gerr option" where
  "decodeUDPPacket packet =
     (if length packet < 5 then (None, [], Some (Msg ''insufficient length of packet''))
      else if take 2 packet \<noteq> [0, 0] then (None, [], Some (Msg ''reserved fields should be zero''))
      else if packet ! 2 \<noteq> 0 then (None, [], Some (Msg ''discarding fragmented payload''))
      else case splitAddr (drop 3 packet) of
          None \<Rightarrow> (None, drop 3 packet, Some (Msg ''failed to read UDP header''))
        | Some a \<Rightarrow> (Some a, drop (3 + length a) packet, None))"

definition encodeUDPPacket :: "saddr option \<Rightarrow> bytes \<Rightarrow> bytes res" where
  "encodeUDPPacket addr payload =
     (case addr of None \<Rightarrow> Err (Msg ''address is invalid'') | Some a \<Rightarrow> Ok ([0, 0, 0] @ a @ payload))"

section \<open>Authentication\<close>

text \<open>\<open>auth.go\<close>: the users in order; a later entry of the same name replaces the password. An empty
  list gives no authenticator at all.\<close>

record authenticator =
  auStorage :: "string \<Rightarrow> string option"
  auUsernames :: "string list"

definition newAuthenticator :: "(string \<times> string) list \<Rightarrow> authenticator option" where
  "newAuthenticator users =
     (if users = [] then None
      else Some (foldl (\<lambda>au (u, p). au\<lparr>auStorage := (auStorage au)(u \<mapsto> p), auUsernames := auUsernames au @ [u]\<rparr>)
                  \<lparr>auStorage = Map.empty, auUsernames = []\<rparr> users))"

definition auth_verify :: "authenticator \<Rightarrow> string \<Rightarrow> string \<Rightarrow> bool" where
  "auth_verify au user pass = (case auStorage au user of None \<Rightarrow> False | Some p \<Rightarrow> p = pass)"

section \<open>Handshakes\<close>

text \<open>The username/password exchange of \<open>ServerHandshake\<close> (RFC 1929).\<close>

definition server_auth :: "authenticator \<Rightarrow> unit io" where
  "server_auth au =
     io_bind (io_write [5, 2]) (\<lambda>_.
     io_bind (io_read 2) (\<lambda>hdr.
       if unat (hdr ! 1) \<le> 0 then io_bind (io_try (io_write [1, 1])) (\<lambda>_. io_err AuthErr)
       else
     io_bind (io_read (unat (hdr ! 1))) (\<lambda>user.
     io_bind (io_read 1) (\<lambda>pl.
       if unat (hd pl) \<le> 0 then io_bind (io_try (io_write [1, 1])) (\<lambda>_. io_err AuthErr)
       else
     io_bind (io_read (unat (hd pl))) (\<lambda>pass.
       if \<not> auth_verify au (b2s user) (b2s pass)
       then io_bind (io_try (io_write [1, 1])) (\<lambda>_. io_err AuthErr)
       else io_write [1, 0])))))"

text \<open>\<open>ServerHandshake(rw, authenticator)\<close>, with the text of \<open>rw.LocalAddr()\<close>.\<close>

definition serverHandshake :: "authenticator option \<Rightarrow> string \<Rightarrow> (saddr \<times> byte) io" where
  "serverHandshake auth localAddr =
     io_bind (io_read 2) (\<lambda>h.
     io_bind (io_read (unat (h ! 1))) (\<lambda>_.
     io_bind (case auth of Some au \<Rightarrow> server_auth au | None \<Rightarrow> io_write [5, 0]) (\<lambda>_.
     io_bind (io_read 3) (\<lambda>req.
     io_bind (readAddr MaxAddrLen) (\<lambda>addr.
       let command = req ! 1 in
       if command = CmdConnect \<or> command = CmdUDPAssociate then
         (case parse_saddr localAddr of
            None \<Rightarrow> io_err ErrAddressNotSupported
          | Some la \<Rightarrow> io_bind (io_write ([5, 0, 0] @ la)) (\<lambda>_. io_ret (addr, command)))
       else io_err ErrCommandNotSupported)))))"

text \<open>\<open>ClientHandshake(rw, addr, command, user)\<close>.\<close>

definition clientHandshake :: "saddr \<Rightarrow> byte \<Rightarrow> (string \<times> string) option \<Rightarrow> saddr io" where
  "clientHandshake addr command user =
     io_bind (io_write (case user of Some _ \<Rightarrow> [5, 1, 2] | None \<Rightarrow> [5, 1, 0])) (\<lambda>_.
     io_bind (io_read 2) (\<lambda>b.
       if b ! 0 \<noteq> 5 then io_err (Msg ''SOCKS version error'')
       else
     io_bind (case user of
         Some (u, p) \<Rightarrow>
           io_bind (io_write ([1, word_of_nat (length u)] @ s2b u @ [word_of_nat (length p)] @ s2b p)) (\<lambda>_.
           io_bind (io_read 2) (\<lambda>r.
             if r ! 1 \<noteq> 0 then io_err (Msg ''rejected username/password'') else io_ret ()))
       | None \<Rightarrow> if b ! 1 \<noteq> 0 then io_err (Msg ''SOCKS need auth'') else io_ret ()) (\<lambda>_.
     io_bind (io_write ([5, command, 0] @ addr)) (\<lambda>_.
     io_bind (io_read 3) (\<lambda>_. readAddr MaxAddrLen)))))"

section \<open>Facts about addresses\<close>

lemma length_dest_addr: "dest_ok d \<Longrightarrow> 7 \<le> length (dest_addr d) \<or> (\<exists>h p. d = Domain h p)"
  by (cases d) auto

lemma unat_length_byte: "n \<le> 255 \<Longrightarrow> unat (word_of_nat n :: byte) = n"
  by (simp add: unat_of_nat)

lemma splitAddr_dest [simp]: "dest_ok d \<Longrightarrow> splitAddr (dest_addr d @ r) = Some (dest_addr d)"
  by (cases d) (auto simp: splitAddr_def atyp_defs unat_length_byte Let_def)

lemma addr_wf_dest [simp]: "dest_ok d \<Longrightarrow> addr_wf (dest_addr d)"
  using splitAddr_dest [of d "[]"] by (simp add: addr_wf_def)

lemma io_bind_read_one: "io_bind (io_read (Suc 0)) f = io_bind readByte (\<lambda>t. f [t])"
proof
  fix c
  show "io_bind (io_read (Suc 0)) f c = io_bind readByte (\<lambda>t. f [t]) c"
    using io_read_one_shape [of c]
    by (cases "io_read (Suc 0) c"; cases "fst (io_read (Suc 0) c)")
      (auto simp: readByte_def io_bind_def)
qed

lemma readAddr_eq_readAddr0: "MaxAddrLen \<le> n \<Longrightarrow> readAddr n = readAddr0"
  by (simp add: readAddr_def readAddr0_def io_bind_read_one cong: if_cong)

text \<open>A well-formed address is one of the three shapes.\<close>

lemma addr_wfE:
  assumes "addr_wf a"
  obtains d where "dest_ok d" "a = dest_addr d"
proof -
  have port: "\<exists>p. x = put_be16 p" if "length x = 2" for x
    using put_get_be16_len [OF that] by metis
  consider (dom) n x where "a = AtypDomainName # n # x" "length x = unat n + 2"
    | (v4) x where "a = AtypIPv4 # x" "length x = 6"
    | (v6) x where "a = AtypIPv6 # x" "length x = 18"
  proof (cases a)
    case Nil
    then show ?thesis using assms by (simp add: addr_wf_def splitAddr_def)
  next
    case (Cons t x)
    have *: "take k a = a \<longleftrightarrow> length a \<le> k" for k
      by (metis length_take min.cobounded2 take_all)
    show ?thesis
    proof (cases "t = AtypDomainName")
      case True
      then obtain n y where "x = n # y" "length y = unat n + 2"
        using assms Cons * by (cases x) (auto simp: addr_wf_def splitAddr_def Let_def split: if_splits)
      then show ?thesis using dom Cons True by blast
    next
      case False
      then show ?thesis
        using assms Cons * v4 v6 by (auto simp: addr_wf_def splitAddr_def Let_def split: if_splits)
    qed
  qed
  then show thesis
  proof cases
    case dom
    then obtain p where p: "drop (unat n) x = put_be16 p"
      using port [of "drop (unat n) x"] by auto
    have "x = s2b (b2s (take (unat n) x)) @ put_be16 p"
      using p by (metis append_take_drop_id s2b_b2s)
    moreover have "length (take (unat n) x) = unat n" "unat n \<le> 255"
      using dom unat_byte_less [of n] by auto
    ultimately show thesis
      using that [of "Domain (b2s (take (unat n) x)) p"] dom by simp
  next
    case v4
    then obtain p where p: "drop 4 x = put_be16 p" using port [of "drop 4 x"] by auto
    then have "x = take 4 x @ put_be16 p" by (metis append_take_drop_id)
    then show thesis using that [of "IP4 (take 4 x) p"] v4 by simp
  next
    case v6
    then obtain p where p: "drop 16 x = put_be16 p" using port [of "drop 16 x"] by auto
    then have "x = take 16 x @ put_be16 p" by (metis append_take_drop_id)
    then show thesis using that [of "IP6 (take 16 x) p"] v6 by simp
  qed
qed

lemma readByte_Cons [simp]: "rd c = t # r \<Longrightarrow> readByte c = (Inr t, c\<lparr>rd := r\<rparr>)"
  by (simp add: readByte_def)

lemma readAddr0_dest:
  assumes "dest_ok d" "rd c = dest_addr d @ r"
  shows "readAddr0 c = (Inr (dest_addr d), c\<lparr>rd := r\<rparr>)"
proof (cases d)
  case (Domain h p)
  have "io_read (length h + 2) (c\<lparr>rd := s2b h @ put_be16 p @ r\<rparr>)
      = (Inr (s2b h @ put_be16 p), c\<lparr>rd := r\<rparr>)"
    using io_read_append [of "c\<lparr>rd := s2b h @ put_be16 p @ r\<rparr>" "s2b h @ put_be16 p" r] by simp
  then show ?thesis
    using assms Domain by (simp add: readAddr0_def unat_length_byte)
next
  case (IP4 a p)
  have "io_read 6 (c\<lparr>rd := a @ put_be16 p @ r\<rparr>) = (Inr (a @ put_be16 p), c\<lparr>rd := r\<rparr>)"
    using io_read_append [of "c\<lparr>rd := a @ put_be16 p @ r\<rparr>" "a @ put_be16 p" r] assms IP4 by simp
  then show ?thesis
    using assms IP4 by (simp add: readAddr0_def atyp_defs)
next
  case (IP6 a p)
  have "io_read 18 (c\<lparr>rd := a @ put_be16 p @ r\<rparr>) = (Inr (a @ put_be16 p), c\<lparr>rd := r\<rparr>)"
    using io_read_append [of "c\<lparr>rd := a @ put_be16 p @ r\<rparr>" "a @ put_be16 p" r] assms IP6 by simp
  then show ?thesis
    using assms IP6 by (simp add: readAddr0_def atyp_defs)
qed

lemma readAddr0_wf:
  assumes "addr_wf a" "rd c = a @ r"
  shows "readAddr0 c = (Inr a, c\<lparr>rd := r\<rparr>)"
  using assms by (auto elim!: addr_wfE intro: readAddr0_dest)

lemma readAddr_wf [simp]:
  assumes "addr_wf a" "rd c = a @ r"
  shows "readAddr MaxAddrLen c = (Inr a, c\<lparr>rd := r\<rparr>)"
  using readAddr0_wf [OF assms] by (simp add: readAddr_eq_readAddr0)

lemma readAddr_wf_all [simp]:
  "addr_wf (rd c) \<Longrightarrow> readAddr MaxAddrLen c = (Inr (rd c), c\<lparr>rd := []\<rparr>)"
  using readAddr_wf [of "rd c" c "[]"] by simp

lemma splitAddr_append:
  "addr_wf a \<Longrightarrow> splitAddr (a @ r) = Some a"
  by (auto elim!: addr_wfE)

lemma splitAddr_wf: "splitAddr b = Some a \<Longrightarrow> addr_wf a \<and> (\<exists>r. b = a @ r)"
proof
  assume s: "splitAddr b = Some a"
  show "addr_wf a"
    using s by (auto simp: addr_wf_def splitAddr_def Let_def split: if_splits)
  show "\<exists>r. b = a @ r"
    using s by (auto simp: splitAddr_def Let_def split: if_splits)
      (metis append_take_drop_id)+
qed

lemma addr_wf_length: "addr_wf a \<Longrightarrow> 4 \<le> length a"
  by (erule addr_wfE) (case_tac d, auto)

lemma addr_wf_nonempty [simp]: "addr_wf a \<Longrightarrow> a \<noteq> []"
  using addr_wf_length by fastforce

text \<open>The reader as a decoder of a byte string, and the instance of the codec interface.\<close>

definition dec_addr :: "bytes \<Rightarrow> (saddr \<times> bytes) res" where
  "dec_addr inp = (case readAddr0 (mk_conn inp) of
     (Inl e, _) \<Rightarrow> Err e | (Inr a, c) \<Rightarrow> Ok (a, rd c))"

interpretation socks_codec: codec "\<lambda>a. a" dec_addr addr_wf
  by unfold_locales
    (auto simp: dec_addr_def readAddr0_wf mk_conn_def)

end
