(* ===== verification/NetipFacts.thy ===== *)
theory NetipFacts
  imports Netip
begin

text \<open>
  What the address arithmetic of \<open>netip\<close> computes: the pair of 64-bit halves behaves as one
  128-bit integer, \<open>Compare\<close> is a linear order, \<open>Contains\<close> and \<open>Overlaps\<close> mean what CIDR blocks
  mean, and the binary and dotted forms are read back.
\<close>

section \<open>128-bit arithmetic\<close>

lemma bit64_less: "bit (w :: 64 word) i \<Longrightarrow> i < 64"
  using bit_imp_le_length [of w i] by simp

lemma bit_u_val: "bit (u_val u) i \<longleftrightarrow> (if i < 64 then bit (lo u) i else bit (hi u) (i - 64))"
  using bit64_less [of "hi u" "i - 64"] bit64_less [of "lo u" i]
  by (auto simp: u_val_def bit_simps)

lemma u_val_inject [simp]: "u_val u = u_val v \<longleftrightarrow> u = v"
proof
  assume e: "u_val u = u_val v"
  have "bit (lo u) i = bit (lo v) i" if "i < 64" for i
    using that arg_cong [OF e, of "\<lambda>w. bit w i"] by (simp add: bit_u_val)
  moreover have "bit (hi u) i = bit (hi v) i" if "i < 64" for i
    using that arg_cong [OF e, of "\<lambda>w. bit w (i + 64)"] by (simp add: bit_u_val)
  ultimately have "lo u = lo v" "hi u = hi v" by (auto intro: bit_word_eqI)
  then show "u = v" by (simp add: uint128.expand)
qed simp

lemma u_val_ops [simp]:
  "u_val (u_and u v) = u_val u AND u_val v"
  "u_val (u_or u v) = u_val u OR u_val v"
  "u_val (u_xor u v) = u_val u XOR u_val v"
  "u_val (u_not u) = NOT (u_val u)"
  by (auto intro!: bit_word_eqI
      simp: bit_u_val u_and_def u_or_def u_xor_def u_not_def bit_simps split: if_splits)

lemma u_val_zero: "u_val (U128 0 0) = 0"
  by (simp add: u_val_def)

lemma u_isZero_iff: "u_isZero u \<longleftrightarrow> u_val u = 0"
proof -
  have "u_isZero u \<longleftrightarrow> hi u = 0 \<and> lo u = 0"
    by (simp add: u_isZero_def or_eq_0_iff)
  also have "\<dots> \<longleftrightarrow> u = U128 0 0" by (cases u) simp
  also have "\<dots> \<longleftrightarrow> u_val u = 0" by (metis u_val_zero u_val_inject)
  finally show ?thesis .
qed

lemma unat_of_nat_128: "n < 2 ^ 128 \<Longrightarrow> unat (word_of_nat n :: 128 word) = n"
  by (simp add: unat_of_nat)

lemma unat_u_val: "unat (u_val u) = unat (hi u) * 2 ^ 64 + unat (lo u)"
proof -
  have h: "unat (hi u) < 2 ^ 64" and l: "unat (lo u) < 2 ^ 64"
    using unsigned_less [of "hi u", where ?'a = nat] unsigned_less [of "lo u", where ?'a = nat]
    by simp_all
  have "u_val u = push_bit 64 (ucast (hi u)) + ucast (lo u)"
    unfolding u_val_def
    by (rule disjunctive_add [symmetric]) (auto simp: bit_simps dest: bit64_less)
  also have "\<dots> = word_of_nat (unat (hi u) * 2 ^ 64 + unat (lo u))"
    by (simp add: push_bit_eq_mult)
  finally have "u_val u = word_of_nat (unat (hi u) * 2 ^ 64 + unat (lo u))" .
  moreover have "unat (hi u) * 2 ^ 64 + unat (lo u) < 2 ^ 128"
    using h l by simp
  ultimately show ?thesis
    by (metis unat_of_nat_128)
qed

lemma u_val_addOne: "u_val (u_addOne u) = u_val u + 1"
proof -
  have "unat (u_val (u_addOne u)) = unat (u_val u + 1)"
  proof (cases "lo u + 1 = 0")
    case True
    then have "lo u = - 1" by (simp add: eq_neg_iff_add_eq_0)
    then have "unat (lo u) = 2 ^ 64 - 1" by (simp add: unsigned_minus_1_eq_mask mask_eq_exp_minus_1)
    with True show ?thesis
      using unsigned_less [of "hi u", where ?'a = nat]
      mod_mult_mult2 [of "Suc (unat (hi u))" "2 ^ 64" "2 ^ 64"]
      by (auto simp: unat_u_val u_addOne_def unat_word_ariths)
  next
    case False
    then have "unat (lo u + 1) = unat (lo u) + 1" by (simp add: unat_eq_zero unatSuc add.commute)
    with False show ?thesis
      using unsigned_less [of "hi u", where ?'a = nat] unsigned_less [of "lo u + 1", where ?'a = nat]
      by (simp add: unat_u_val u_addOne_def unat_word_ariths)
  qed
  then show ?thesis by (rule unsigned_word_eqI)
qed

lemma u_subOne_addOne: "u_subOne (u_addOne u) = u" "u_addOne (u_subOne u) = u"
  by (cases u, simp add: u_subOne_def u_addOne_def)+

lemma u_val_subOne: "u_val (u_subOne u) = u_val u - 1"
  using u_val_addOne [of "u_subOne u"] by (simp add: u_subOne_addOne)

lemma bit_mask6:
  assumes "n \<le> 128"
  shows "bit (u_val (mask6 n)) i \<longleftrightarrow> i < 128 \<and> 128 - n \<le> i"
  using assms by (auto simp: bit_u_val mask6_def bit_simps split: if_splits)

section \<open>Addresses as numbers\<close>

text \<open>The number an address stands for within its family, and the shape \<open>AddrFrom4\<close> gives the bits
  of an IPv4 address.\<close>

definition addr_num :: "addr \<Rightarrow> nat" where
  "addr_num ip = (if addr_is4 ip then unat (ucast (lo (abits ip)) :: 32 word)
                  else unat (u_val (abits ip)))"

definition addr_ok :: "addr \<Rightarrow> bool" where
  "addr_ok ip \<longleftrightarrow>
     (afam ip = Z0 \<longrightarrow> ip = zero_addr) \<and>
     (afam ip = Z4 \<longrightarrow> hi (abits ip) = 0 \<and> drop_bit 32 (lo (abits ip)) = 0xffff)"

lemma addr_num_less: "addr_isValid ip \<Longrightarrow> addr_num ip < 2 ^ addr_bitLen ip"
  using unsigned_less [of "ucast (lo (abits ip)) :: 32 word", where ?'a = nat]
    unsigned_less [of "u_val (abits ip)", where ?'a = nat]
  by (cases "afam ip") (auto simp: addr_num_def addr_isValid_def addr_bitLen_def addr_is4_def)

lemma lo_split: "w = push_bit 32 (drop_bit 32 w) OR ucast (ucast w :: 32 word)" for w :: "64 word"
  by (rule bit_word_eqI) (auto simp: bit_simps)

lemma addr_ok_num_inj:
  assumes "addr_ok a" "addr_ok b" "afam a = afam b" "addr_num a = addr_num b"
  shows "a = b"
proof (cases "afam a = Z4")
  case True
  then have "(ucast (lo (abits a)) :: 32 word) = ucast (lo (abits b))"
    using assms by (simp add: addr_num_def addr_is4_def word_unat_eq_iff)
  moreover have "drop_bit 32 (lo (abits a)) = drop_bit 32 (lo (abits b))"
    using True assms by (simp add: addr_ok_def)
  ultimately have "lo (abits a) = lo (abits b)"
    by (metis lo_split)
  then show ?thesis
    using True assms by (simp add: addr_ok_def addr.expand uint128.expand)
next
  case False
  then show ?thesis
    using assms by (auto simp: addr_num_def addr_is4_def addr.expand dest: unsigned_word_eqI)
qed

text \<open>Shifting right is division.\<close>

lemma unat_drop: "unat (drop_bit n w) = unat w div 2 ^ n" for w :: "'a :: len word"
  by (subst unat_drop_bit_eq) (simp add: drop_bit_eq_div)

lemma xor_zero: "v XOR w = 0 \<longleftrightarrow> v = w" for v w :: "'a :: len word"
  by (auto simp: bit_eq_iff bit_simps)

lemma xor_drop_zero:
  "drop_bit n v XOR drop_bit n w = 0 \<longleftrightarrow> unat v div 2 ^ n = unat w div 2 ^ n"
  for v w :: "'a :: len word"
proof -
  have "drop_bit n v XOR drop_bit n w = 0 \<longleftrightarrow> unat (drop_bit n v) = unat (drop_bit n w)"
    unfolding xor_zero by (rule word_unat_eq_iff)
  then show ?thesis by (simp add: unat_drop)
qed

lemma and_mask6_zero:
  assumes "n \<le> 128"
  shows "w AND u_val (mask6 n) = 0 \<longleftrightarrow> drop_bit (128 - n) w = 0"
proof
  assume z: "w AND u_val (mask6 n) = 0"
  show "drop_bit (128 - n) w = 0"
  proof (rule bit_word_eqI)
    fix i assume "i < LENGTH(128)"
    have "bit (w AND u_val (mask6 n)) (128 - n + i) = bit (0 :: 128 word) (128 - n + i)"
      using z by simp
    then show "bit (drop_bit (128 - n) w) i = bit (0 :: 128 word) i"
      using bit_imp_le_length [of w "128 - n + i"] by (auto simp: bit_simps bit_mask6 [OF assms])
  qed
next
  assume z: "drop_bit (128 - n) w = 0"
  show "w AND u_val (mask6 n) = 0"
  proof (rule bit_word_eqI)
    fix i assume "i < LENGTH(128)"
    have "bit (drop_bit (128 - n) w) (i - (128 - n)) = bit (0 :: 128 word) (i - (128 - n))"
      using z by simp
    then show "bit (w AND u_val (mask6 n)) i = bit (0 :: 128 word) i"
      by (auto simp: bit_simps bit_mask6 [OF assms])
  qed
qed

section \<open>Prefixes\<close>

definition prefix_ok :: "prefix \<Rightarrow> bool" where
  "prefix_ok p \<longleftrightarrow> prefix_isValid p \<and> addr_isValid (pip p) \<and> addr_ok (pip p) \<and> \<not> addr_hasZone (pip p)
     \<and> prefix_bits p \<le> int (addr_bitLen (pip p))"

text \<open>The network of \<open>n\<close> leading bits that an address lies in.\<close>

definition net_of :: "nat \<Rightarrow> addr \<Rightarrow> nat" where
  "net_of n ip = addr_num ip div 2 ^ (addr_bitLen ip - n)"

lemma prefix_ok_bits:
  assumes "prefix_ok p"
  obtains n where "prefix_bits p = int n" "n \<le> addr_bitLen (pip p)"
proof -
  have "0 < bitsPlusOne p" using assms by (simp add: prefix_ok_def prefix_isValid_def)
  then have "0 < unat (bitsPlusOne p)" by (metis unat_gt_0 word_neq_0_conv)
  then have "prefix_bits p = int (unat (bitsPlusOne p) - 1)"
    unfolding prefix_bits_def by linarith
  then show thesis
    using that [of "unat (bitsPlusOne p) - 1"] assms
    by (simp only: prefix_ok_def) simp
qed

lemma and_eq_iff_xor: "v AND m = w AND m \<longleftrightarrow> (v XOR w) AND m = 0" for v w m :: "'a :: len word"
  by (auto simp: bit_eq_iff bit_simps)

lemma u_and_mask_eq_iff:
  assumes "n \<le> 128"
  shows "u_and a (mask6 n) = u_and b (mask6 n) \<longleftrightarrow>
     unat (u_val a) div 2 ^ (128 - n) = unat (u_val b) div 2 ^ (128 - n)"
proof -
  have "u_and a (mask6 n) = u_and b (mask6 n) \<longleftrightarrow>
      u_val a AND u_val (mask6 n) = u_val b AND u_val (mask6 n)"
    by (metis u_val_inject u_val_ops(1))
  also have "\<dots> \<longleftrightarrow> (u_val a XOR u_val b) AND u_val (mask6 n) = 0"
    by (rule and_eq_iff_xor)
  finally show ?thesis using assms by (simp add: and_mask6_zero xor_drop_zero)
qed

lemma unat_u_val_v4:
  assumes "addr_ok ip" "afam ip = Z4"
  shows "unat (u_val (abits ip)) = 0xffff * 2 ^ 32 + addr_num ip"
proof -
  have h: "hi (abits ip) = 0" "drop_bit 32 (lo (abits ip)) = 0xffff"
    using assms by (simp_all add: addr_ok_def)
  have d: "unat (lo (abits ip)) div 2 ^ 32 = 0xffff"
    using h(2) unat_drop [of 32 "lo (abits ip)"] by simp
  have n: "addr_num ip = unat (lo (abits ip)) mod 2 ^ 32"
    using assms by (simp add: addr_num_def addr_is4_def unsigned_ucast_eq take_bit_eq_mod)
  show ?thesis
    using div_mult_mod_eq [of "unat (lo (abits ip))" "2 ^ 32"]
    by (simp only: unat_u_val h(1) n d) simp
qed

text \<open>Equality of the masked bits is equality of the network.\<close>

lemma v4_div:
  assumes "m \<le> 32"
  shows "(281470681743360 + a) div 2 ^ (32 - m) = 65535 * 2 ^ m + a div (2 :: nat) ^ (32 - m)"
proof -
  have e: "(281470681743360 :: nat) = 65535 * 2 ^ m * 2 ^ (32 - m)"
    using assms by (simp flip: power_add add: mult.assoc)
  show ?thesis unfolding e by (rule div_mult_self3) simp
qed

lemma masked_eq_iff:
  assumes "addr_ok a" "addr_ok b" "afam a = afam b" "addr_isValid a" "m \<le> addr_bitLen a"
  shows "u_and (abits a) (mask6 (m + (128 - addr_bitLen a)))
       = u_and (abits b) (mask6 (m + (128 - addr_bitLen a))) \<longleftrightarrow> net_of m a = net_of m b"
proof (cases "afam a")
  case Z4
  then show ?thesis
    using assms by (simp add: addr_bitLen_def u_and_mask_eq_iff unat_u_val_v4 v4_div net_of_def)
qed (use assms in \<open>auto simp: addr_isValid_def addr_bitLen_def u_and_mask_eq_iff net_of_def
    addr_num_def addr_is4_def\<close>)

lemma no_zone_fam:
  assumes "\<not> addr_hasZone a" "\<not> addr_hasZone b" "addr_bitLen a = addr_bitLen b"
  shows "afam a = afam b"
  using assms by (cases "afam a"; cases "afam b") (auto simp: addr_hasZone_def addr_bitLen_def)

lemma v4_contains_bits:
  assumes "addr_ok a" "afam a = Z4" "addr_ok b" "afam b = Z4" "n \<le> 32"
  shows "(ucast (drop_bit (32 - n) (lo (abits a) XOR lo (abits b))) :: 32 word) = 0
     \<longleftrightarrow> net_of n a = net_of n b"
proof -
  let ?a = "lo (abits a)" and ?b = "lo (abits b)"
  have hb: "bit ?a i = bit ?b i" if "32 \<le> i" for i
  proof -
    have "bit (drop_bit 32 ?a) (i - 32) = bit (drop_bit 32 ?b) (i - 32)"
      using assms by (simp add: addr_ok_def)
    then show ?thesis using that by (simp add: bit_simps)
  qed
  have eq: "(ucast (drop_bit (32 - n) (?a XOR ?b)) :: 32 word)
      = drop_bit (32 - n) ((ucast ?a :: 32 word) XOR ucast ?b)"
  proof (rule bit_word_eqI)
    fix i assume i: "i < LENGTH(32)"
    show "bit (ucast (drop_bit (32 - n) (?a XOR ?b)) :: 32 word) i
        = bit (drop_bit (32 - n) ((ucast ?a :: 32 word) XOR ucast ?b)) i"
      using i hb [of "32 - n + i"] by (cases "32 - n + i < 32") (auto simp: bit_simps)
  qed
  show ?thesis
    unfolding eq using assms by (simp add: xor_drop_zero net_of_def addr_num_def addr_is4_def addr_bitLen_def)
qed

lemma contains_bits:
  assumes "prefix_ok p" "addr_ok x" "\<not> addr_hasZone x" "afam x = afam (pip p)" "prefix_bits p = int n"
  shows "prefix_contains p x \<longleftrightarrow> net_of n x = net_of n (pip p)"
proof -
  have v: "prefix_isValid p" "addr_isValid (pip p)" "addr_ok (pip p)" "\<not> addr_hasZone (pip p)"
      "n \<le> addr_bitLen (pip p)"
    using assms(1,5) by (simp_all add: prefix_ok_def)
  have l: "addr_bitLen (pip p) = addr_bitLen x" "addr_bitLen x \<noteq> 0"
    using v assms(4) by (cases "afam (pip p)"; simp add: addr_bitLen_def addr_isValid_def)+
  show ?thesis
  proof (cases "afam x = Z4")
    case True
    then have n: "n \<le> 32" using v l by (simp add: addr_bitLen_def)
    then have "nat ((32 - int n) mod 64) = 32 - n" by simp
    then show ?thesis
      using True n v assms l v4_contains_bits [of x "pip p" n]
      by (simp add: prefix_contains_def addr_is4_def)
  next
    case False
    then obtain z where z: "afam x = Z6 z" using l by (cases "afam x") (auto simp: addr_bitLen_def)
    then have "n \<le> 128" using v l by (simp add: addr_bitLen_def)
    then show ?thesis
      using z v assms l
      by (simp add: prefix_contains_def addr_is4_def u_isZero_iff and_mask6_zero xor_drop_zero
          net_of_def addr_num_def addr_bitLen_def)
  qed
qed

lemma prefix_contains_cidr:
  assumes "prefix_ok p" and "addr_ok x"
  shows "prefix_contains p x \<longleftrightarrow> \<not> addr_hasZone x \<and> afam x = afam (pip p)
     \<and> net_of (nat (prefix_bits p)) x = net_of (nat (prefix_bits p)) (pip p)"
proof -
  obtain n where n: "prefix_bits p = int n"
    using prefix_ok_bits [OF assms(1)] by metis
  have "\<not> addr_hasZone (pip p)" using assms(1) by (simp add: prefix_ok_def)
  then have "prefix_contains p x \<Longrightarrow> \<not> addr_hasZone x \<and> afam x = afam (pip p)"
    using no_zone_fam [of x "pip p"] by (auto simp: prefix_contains_def split: if_splits)
  then show ?thesis
    using contains_bits [OF assms _ _ n] n by auto
qed

text \<open>\<open>Contains\<close> decides membership in the CIDR block: the address has no zone, is of the
  prefix's family, and shares its first \<open>Bits()\<close> bits with the prefix's address.\<close>

theorem prefix_contains_iff:
  assumes "prefix_ok p" and "addr_ok x"
  shows "prefix_contains p x \<longleftrightarrow> \<not> addr_hasZone x \<and> afam x = afam (pip p)
     \<and> net_of (nat (prefix_bits p)) x = net_of (nat (prefix_bits p)) (pip p)"
  by (rule prefix_contains_cidr [OF assms])

theorem prefix_contains_iff_witness:
  "prefix_contains (prefixFrom (addrFrom4 [10, 0, 0, 0]) 8) (addrFrom4 [10, 1, 2, 3]) \<and>
   \<not> prefix_contains (prefixFrom (addrFrom4 [10, 0, 0, 0]) 8) (addrFrom4 [11, 1, 2, 3])"
proof -
  let ?p = "prefixFrom (addrFrom4 [10, 0, 0, 0]) 8"
  have "prefix_ok ?p" "addr_ok (addrFrom4 [10, 1, 2, 3])" "addr_ok (addrFrom4 [11, 1, 2, 3])"
    by code_simp+
  note iff = prefix_contains_iff [OF this(1) this(2)] prefix_contains_iff [OF this(1) this(3)]
  show ?thesis
    unfolding iff
    by (simp add: net_of_def addr_num_def addr_is4_def addrFrom4_def prefixFrom_def prefix_bits_def
        addr_withoutZone_def addr_is6_def addr_bitLen_def addr_hasZone_def)
qed

lemma net_of_coarser:
  assumes "m \<le> n" "n \<le> addr_bitLen a"
  shows "net_of m a = net_of n a div 2 ^ (n - m)"
proof -
  have "addr_bitLen a - m = (addr_bitLen a - n) + (n - m)" using assms by simp
  then have "net_of m a = addr_num a div (2 ^ (addr_bitLen a - n) * 2 ^ (n - m))"
    by (simp add: net_of_def power_add)
  then show ?thesis by (simp only: net_of_def div_mult2_eq)
qed

lemma net_of_coarser_eq:
  assumes "net_of n a = net_of n b" "m \<le> n" "n \<le> addr_bitLen a" "n \<le> addr_bitLen b"
  shows "net_of m a = net_of m b"
  using net_of_coarser [OF assms(2,3)] net_of_coarser [OF assms(2,4)] assms(1) by simp

lemma net_of_0: "addr_isValid a \<Longrightarrow> net_of 0 a = 0"
  using addr_num_less by (simp add: net_of_def)

lemma addr_prefix_ok:
  assumes "addr_isValid a" "\<not> addr_hasZone a" "m \<le> addr_bitLen a"
  shows "\<exists>p. addr_prefix a (int m) = Ok p
    \<and> pip p = Addr (u_and (abits a) (mask6 (m + (128 - addr_bitLen a)))) (afam a)"
proof (cases "afam a")
  case Z0
  then show ?thesis using assms by (simp add: addr_isValid_def)
next
  case Z4
  then show ?thesis
    using assms by (simp add: addr_prefix_def addr_bitLen_def prefixFrom_def addr_withoutZone_def
        addr_is6_def)
next
  case (Z6 z)
  then show ?thesis
    using assms by (simp add: addr_prefix_def addr_bitLen_def prefixFrom_def addr_withoutZone_def
        addr_is6_def addr_hasZone_def)
qed

lemma overlaps_same_family:
  assumes "prefix_ok p" "prefix_ok q" "afam (pip p) = afam (pip q)"
    "prefix_bits p = int n" "prefix_bits q = int k"
  shows "prefix_overlaps p q \<longleftrightarrow> net_of (min n k) (pip p) = net_of (min n k) (pip q)"
proof -
  let ?m = "min n k"
  have v: "prefix_isValid p" "addr_isValid (pip p)" "addr_ok (pip p)" "\<not> addr_hasZone (pip p)"
      "prefix_isValid q" "addr_isValid (pip q)" "addr_ok (pip q)" "\<not> addr_hasZone (pip q)"
      "n \<le> addr_bitLen (pip p)" "k \<le> addr_bitLen (pip q)"
    using assms by (simp_all add: prefix_ok_def)
  have w: "addr_bitLen (pip p) = addr_bitLen (pip q)" "addr_is4 (pip p) = addr_is4 (pip q)"
    using assms(3) by (simp_all add: addr_bitLen_def addr_is4_def)
  have mp: "min (prefix_bits p) (prefix_bits q) = int ?m"
    using assms(4,5) by simp
  have le: "?m \<le> addr_bitLen (pip p)" "?m \<le> addr_bitLen (pip q)"
    using v w by simp_all
  obtain p' where p': "addr_prefix (pip p) (int ?m) = Ok p'"
      "pip p' = Addr (u_and (abits (pip p)) (mask6 (?m + (128 - addr_bitLen (pip p))))) (afam (pip p))"
    using addr_prefix_ok [OF v(2,4) le(1)] by blast
  obtain q' where q': "addr_prefix (pip q) (int ?m) = Ok q'"
      "pip q' = Addr (u_and (abits (pip q)) (mask6 (?m + (128 - addr_bitLen (pip q))))) (afam (pip q))"
    using addr_prefix_ok [OF v(6,8) le(2)] by blast
  have "pip p' = pip q' \<longleftrightarrow> net_of ?m (pip p) = net_of ?m (pip q)"
    using masked_eq_iff [of "pip p" "pip q" ?m] v assms(3) w p'(2) q'(2) by simp
  moreover have "?m = 0 \<Longrightarrow> net_of ?m (pip p) = net_of ?m (pip q)"
    using v net_of_0 by simp
  ultimately show ?thesis
    using v w p'(1) q'(1) by (auto simp: prefix_overlaps_def mp Let_def)
qed

lemma contains_family:
  assumes "prefix_ok p" "prefix_contains p x"
  shows "afam x = afam (pip p) \<and> \<not> addr_hasZone x"
  using assms no_zone_fam [of x "pip p"]
  by (auto simp: prefix_contains_def prefix_ok_def split: if_splits)

lemma prefix_contains_self: "prefix_ok p \<Longrightarrow> prefix_contains p (pip p)"
  using contains_bits [of p "pip p"] prefix_ok_bits [of p] by (auto simp: prefix_ok_def)

text \<open>\<open>Overlaps\<close> decides whether two CIDR blocks have an address in common, whichever of the two
  is the larger block, including the blocks of length zero.\<close>

theorem prefix_overlaps_iff:
  assumes "prefix_ok p" and "prefix_ok q"
  shows "prefix_overlaps p q \<longleftrightarrow> (\<exists>x. addr_ok x \<and> prefix_contains p x \<and> prefix_contains q x)"
proof (cases "afam (pip p) = afam (pip q)")
  case False
  then have "\<not> prefix_overlaps p q"
    using assms
    by (cases "afam (pip p)"; cases "afam (pip q)")
      (auto simp: prefix_overlaps_def addr_is4_def prefix_ok_def addr_isValid_def addr_hasZone_def)
  then show ?thesis using contains_family False assms by metis
next
  case True
  obtain n k where n: "prefix_bits p = int n" "n \<le> addr_bitLen (pip p)"
      and k: "prefix_bits q = int k" "k \<le> addr_bitLen (pip q)"
    using prefix_ok_bits assms by metis
  have l: "addr_bitLen (pip p) = addr_bitLen (pip q)" using True by (simp add: addr_bitLen_def)
  have v: "addr_ok (pip p)" "\<not> addr_hasZone (pip p)" "addr_ok (pip q)" "\<not> addr_hasZone (pip q)"
    using assms by (simp_all add: prefix_ok_def)
  note over = overlaps_same_family [OF assms True n(1) k(1)]
  show ?thesis
  proof
    assume o: "prefix_overlaps p q"
    show "\<exists>x. addr_ok x \<and> prefix_contains p x \<and> prefix_contains q x"
    proof (cases "n \<le> k")
      case le: True
      then have "prefix_contains p (pip q)"
        using o over contains_bits [OF assms(1) v(3,4) True [symmetric] n(1)] by (simp add: min_def)
      then show ?thesis using v prefix_contains_self [OF assms(2)] by auto
    next
      case False
      then have "prefix_contains q (pip p)"
        using o over contains_bits [OF assms(2) v(1,2) True k(1)] by (simp add: min_def)
      then show ?thesis using v prefix_contains_self [OF assms(1)] by auto
    qed
  next
    assume "\<exists>x. addr_ok x \<and> prefix_contains p x \<and> prefix_contains q x"
    then obtain x where x: "addr_ok x" "prefix_contains p x" "prefix_contains q x" by auto
    then have f: "afam x = afam (pip p)" "afam x = afam (pip q)" "\<not> addr_hasZone x"
      using contains_family assms by metis+
    then have xl: "addr_bitLen x = addr_bitLen (pip p)" by (simp add: addr_bitLen_def)
    have "net_of n x = net_of n (pip p)" "net_of k x = net_of k (pip q)"
      using x f contains_bits [OF assms(1) x(1) f(3) f(1) n(1)]
        contains_bits [OF assms(2) x(1) f(3) f(2) k(1)] by simp_all
    then have "net_of (min n k) x = net_of (min n k) (pip p)"
      "net_of (min n k) x = net_of (min n k) (pip q)"
      using net_of_coarser_eq [of n x "pip p" "min n k"] net_of_coarser_eq [of k x "pip q" "min n k"]
        n k l xl by simp_all
    then show "prefix_overlaps p q" using over by simp
  qed
qed

theorem prefix_overlaps_iff_witness:
  "\<exists>x. addr_ok x \<and> prefix_contains (prefixFrom (addrFrom4 [10, 0, 0, 0]) 8) x
      \<and> prefix_contains (prefixFrom (addrFrom4 [10, 9, 0, 0]) 16) x"
proof -
  let ?p = "prefixFrom (addrFrom4 [10, 0, 0, 0]) 8" and ?q = "prefixFrom (addrFrom4 [10, 9, 0, 0]) 16"
  have "prefix_ok ?p" "prefix_ok ?q" "prefix_overlaps ?p ?q"
    by code_simp+
  then show ?thesis using prefix_overlaps_iff [of ?p ?q] by blast
qed

section \<open>Dotted and binary forms\<close>

lemma hex_digit_dec: "d < 10 \<Longrightarrow> hex_digits ! d = digit_char d"
proof -
  assume "d < 10"
  moreover have "list_all (\<lambda>d. hex_digits ! d = digit_char d) [0..<10]" by code_simp
  ultimately show ?thesis by (simp add: list_all_iff del: upt.simps)
qed

lemma word_div_mod_byte:
  "unat (x div 100) = unat x div 100" "unat (x div 10 mod 10) = unat x div 10 mod 10"
  "unat (x mod 10) = unat x mod 10" for x :: byte
  by (simp_all add: unat_div unat_mod)

lemma itoa_digits_upto3:
  "n < 10 \<Longrightarrow> itoa n = [digit_char n]"
  "10 \<le> n \<Longrightarrow> n < 100 \<Longrightarrow> itoa n = [digit_char (n div 10), digit_char (n mod 10)]"
  "100 \<le> n \<Longrightarrow> n < 1000 \<Longrightarrow>
     itoa n = [digit_char (n div 100), digit_char (n div 10 mod 10), digit_char (n mod 10)]"
proof -
  show *: "n < 10 \<Longrightarrow> itoa n = [digit_char n]" for n by (simp add: itoa.simps [of n])
  show **: "10 \<le> n \<Longrightarrow> n < 100 \<Longrightarrow> itoa n = [digit_char (n div 10), digit_char (n mod 10)]" for n
    using * [of "n div 10"] by (simp add: itoa.simps [of n] less_mult_imp_div_less)
  show "100 \<le> n \<Longrightarrow> n < 1000 \<Longrightarrow>
     itoa n = [digit_char (n div 100), digit_char (n div 10 mod 10), digit_char (n mod 10)]"
  proof -
    assume "100 \<le> n" "n < 1000"
    then have "10 \<le> n div 10" "n div 10 < 100" "\<not> n < 10" by linarith+
    then show ?thesis
      using ** [of "n div 10"] by (subst itoa.simps) (simp add: div_mult2_eq [symmetric])
  qed
qed

text \<open>\<open>appendDecimal\<close> prints the decimal numeral.\<close>

lemma appendDecimal_itoa: "appendDecimal r x = r @ itoa (unat x)"
proof -
  have l: "unat x < 256" by (rule unat_byte_less)
  have le: "100 \<le> x \<longleftrightarrow> 100 \<le> unat x" "10 \<le> x \<longleftrightarrow> 10 \<le> unat x"
    by (simp_all add: word_le_nat_alt)
  have d: "unat x div 100 < 10" "unat x div 10 mod 10 < 10" "unat x mod 10 < 10"
    using l by (simp_all add: less_mult_imp_div_less)
  consider "unat x < 10" | "10 \<le> unat x" "unat x < 100" | "100 \<le> unat x" by linarith
  then show ?thesis
  proof cases
    case 1
    then show ?thesis
      by (simp add: appendDecimal_def Let_def le word_div_mod_byte itoa_digits_upto3 hex_digit_dec)
  next
    case 2
    then have "unat x div 10 mod 10 = unat x div 10" by (simp add: less_mult_imp_div_less)
    with 2 d show ?thesis
      by (simp only: appendDecimal_def Let_def le word_div_mod_byte itoa_digits_upto3 hex_digit_dec)
        (simp add: unat_div)
  next
    case 3
    with d l show ?thesis
      by (simp only: appendDecimal_def Let_def le word_div_mod_byte itoa_digits_upto3 hex_digit_dec)
        (simp add: unat_div)
  qed
qed

lemma digit_not_dot: "d < 10 \<Longrightarrow> digit_char d \<noteq> CHR ''.''"
  using is_digit_not_sign [of "digit_char d"] by simp

text \<open>One octet of a dotted address is consumed up to its end.\<close>

lemma parse_v4_octet:
  assumes "n < 256"
  shows "\<exists>c k. c \<noteq> CHR ''.'' \<and>
    parse_v4_loop (itoa n @ rest) prev 0 0 acc = parse_v4_loop rest (Some c) n k acc"
proof -
  consider "n < 10" | "10 \<le> n" "n < 100" | "100 \<le> n" by linarith
  then show ?thesis
  proof cases
    case 1
    then show ?thesis
      by (intro exI [of _ "digit_char n"] exI [of _ "Suc 0"])
        (simp add: itoa.simps [of n] Let_def digit_not_dot)
  next
    case 2
    then have "n div 10 < 10" "n div 10 \<noteq> 0" by linarith+
    with 2 show ?thesis
      by (intro exI [of _ "digit_char (n mod 10)"] exI [of _ "Suc (Suc 0)"])
        (simp add: itoa_digits_upto3 Let_def digit_not_dot)
  next
    case 3
    define h t u where "h = n div 100" and "t = n div 10 mod 10" and "u = n mod 10"
    have "h < 10" "h \<noteq> 0" "t < 10" "u < 10"
      using 3 assms unfolding h_def t_def u_def by linarith+
    moreover have "h * 100 + t * 10 + u = n"
    proof -
      have "n div 10 div 10 = h" by (simp add: div_mult2_eq [symmetric] h_def)
      then have "n div 10 = h * 10 + t" using div_mult_mod_eq [of "n div 10" 10] by (simp only: t_def)
      then have "n = (h * 10 + t) * 10 + u" using div_mult_mod_eq [of n 10] by (simp only: u_def)
      then show ?thesis by simp
    qed
    ultimately have d: "h < 10" "h \<noteq> 0" "t < 10" "u < 10" "h * 100 + t * 10 + u = n" by simp_all
    have i: "itoa n = [digit_char h, digit_char t, digit_char u]"
      using 3 assms by (simp add: itoa_digits_upto3 h_def t_def u_def)
    have "\<not> 255 < h" "\<not> 255 < h * 10 + t"
      using d by linarith+
    moreover have "(h * 10 + t) * 10 + u = n"
      using d(5) by (simp add: algebra_simps)
    moreover have "\<not> 255 < h * 100 + t * 10 + u" using d(5) assms by simp
    ultimately show ?thesis
      unfolding i using d(1-4)
      by (intro exI [of _ "digit_char u"] exI [of _ "Suc (Suc (Suc 0))"])
        (simp add: Let_def digit_not_dot algebra_simps flip: d(5))
  qed
qed

lemma parse_v4_field:
  assumes "n < 256" "length acc < 3" "rest \<noteq> []"
  shows "parse_v4_loop (itoa n @ CHR ''.'' # rest) prev 0 0 acc
      = parse_v4_loop rest (Some (CHR ''.'')) 0 0 (acc @ [n])"
proof -
  obtain c k where c: "c \<noteq> CHR ''.''"
    "parse_v4_loop (itoa n @ CHR ''.'' # rest) prev 0 0 acc
       = parse_v4_loop (CHR ''.'' # rest) (Some c) n k acc"
    using parse_v4_octet [OF assms(1)] by metis
  show ?thesis unfolding c(2) using assms c(1) by (simp add: is_digit_def)
qed

lemma parse_v4_last:
  assumes "n < 256" "length acc = 3"
  shows "parse_v4_loop (itoa n) prev 0 0 acc = Ok (acc @ [n])"
proof -
  obtain c k where c: "parse_v4_loop (itoa n @ []) prev 0 0 acc = parse_v4_loop [] (Some c) n k acc"
    using parse_v4_octet [OF assms(1), of "[]"] by metis
  then show ?thesis using assms by simp
qed

definition dotted :: "byte \<Rightarrow> byte \<Rightarrow> byte \<Rightarrow> byte \<Rightarrow> string" where
  "dotted a b c d = itoa (unat a) @ ''.'' @ itoa (unat b) @ ''.'' @ itoa (unat c) @ ''.'' @ itoa (unat d)"

lemma parse_v4_dotted: "parseIPv4Fields (dotted a b c d) = Ok [a, b, c, d]"
  using unat_byte_less
  by (simp add: parseIPv4Fields_def dotted_def parse_v4_field parse_v4_last)

lemma scan_to_dot:
  "list_all is_digit s \<Longrightarrow> parseAddr_scan w (s @ CHR ''.'' # r) = parseIPv4 w"
  by (induction s) (auto simp: is_digit_def)

lemma parseAddr_dotted: "parseAddr (dotted a b c d) = Ok (addrFrom4 [a, b, c, d])"
proof -
  have "parseAddr (dotted a b c d) = parseIPv4 (dotted a b c d)"
    unfolding parseAddr_def by (subst (2) dotted_def) (simp add: scan_to_dot)
  then show ?thesis by (simp add: parseIPv4_def parse_v4_dotted)
qed

lemma afam_addrFrom4 [simp]: "afam (addrFrom4 x) = Z4"
  by (simp add: addrFrom4_def)

lemma addr_v4_addrFrom4:
  "addr_v4 (addrFrom4 [a, b, c, d]) 0 = a" "addr_v4 (addrFrom4 [a, b, c, d]) (Suc 0) = b"
  "addr_v4 (addrFrom4 [a, b, c, d]) 2 = c" "addr_v4 (addrFrom4 [a, b, c, d]) 3 = d"
proof -
  define K :: "64 word" where "K = 0xffff00000000"
  have "K = push_bit 32 (0xffff)" by (simp add: K_def)
  then have K: "\<not> bit K i" if "i < 32" for i using that by (simp only: bit_simps) simp
  have lo: "lo (abits (addrFrom4 [a, b, c, d])) = K OR push_bit 24 (ucast a) OR push_bit 16 (ucast b)
      OR push_bit 8 (ucast c) OR ucast d"
    by (simp add: addrFrom4_def K_def)
  have byte: "bit (w :: byte) i \<Longrightarrow> i < 8" for w i using bit_imp_le_length [of w i] by simp
  show "addr_v4 (addrFrom4 [a, b, c, d]) 0 = a" "addr_v4 (addrFrom4 [a, b, c, d]) (Suc 0) = b"
    "addr_v4 (addrFrom4 [a, b, c, d]) 2 = c" "addr_v4 (addrFrom4 [a, b, c, d]) 3 = d"
    by (rule bit_word_eqI; auto simp: addr_v4_def lo bit_simps K dest: byte)+
qed


lemma string_addrFrom4: "addr_string (addrFrom4 [a, b, c, d]) = dotted a b c d"
proof -
  have "afam (addrFrom4 [a, b, c, d]) = Z4" by (simp add: addrFrom4_def)
  then show ?thesis
    by (simp add: addr_string_def appendTo4_def appendDecimal_itoa addr_v4_addrFrom4 dotted_def)
qed

text \<open>The text form of every IPv4 address is its four decimal octets, and \<open>ParseAddr\<close> reads that
  text back to the same address.\<close>

theorem ipv4_text_roundtrip:
  "addr_string (addrFrom4 [a, b, c, d]) = dotted a b c d
   \<and> parseAddr (addr_string (addrFrom4 [a, b, c, d])) = Ok (addrFrom4 [a, b, c, d])"
  by (simp add: string_addrFrom4 parseAddr_dotted)

lemma addrFrom4_as4:
  assumes "addr_ok ip" "afam ip = Z4"
  shows "addrFrom4 (put_be32 (ucast (lo (abits ip)))) = ip"
proof -
  let ?w = "lo (abits ip)"
  have h: "hi (abits ip) = 0" "drop_bit 32 ?w = 0xffff" using assms by (simp_all add: addr_ok_def)
  define K :: "64 word" where "K = 0xffff00000000"
  have Kp: "K = push_bit 32 (drop_bit 32 ?w)" by (simp add: K_def h(2))
  have K: "bit K i \<longleftrightarrow> 32 \<le> i \<and> bit ?w i" for i
    using bit64_less [of ?w i] by (auto simp: Kp bit_simps)
  have "K OR push_bit 24 (ucast (ucast (drop_bit 24 (ucast ?w :: 32 word)) :: byte))
      OR push_bit 16 (ucast (ucast (drop_bit 16 (ucast ?w :: 32 word)) :: byte))
      OR push_bit 8 (ucast (ucast (drop_bit 8 (ucast ?w :: 32 word)) :: byte))
      OR ucast (ucast (ucast ?w :: 32 word) :: byte) = ?w" (is "?l = ?w")
  proof (rule bit_word_eqI)
    fix n assume n: "n < LENGTH(64)"
    consider "n < 8" | "8 \<le> n" "n < 16" | "16 \<le> n" "n < 24" | "24 \<le> n" "n < 32" | "32 \<le> n"
      by linarith
    then show "bit ?l n = bit ?w n"
      by cases (use n in \<open>auto simp: K bit_simps\<close>)
  qed
  then show ?thesis
    using h assms(2) by (cases ip) (simp add: addrFrom4_def put_be32_def K_def uint128.expand)
qed

lemma addrFrom16_as16: "addrFrom16 (put_be64 (hi u) @ put_be64 (lo u)) = Addr u (Z6 [])"
  by (cases u) (simp add: addrFrom16_def)

text \<open>\<open>UnmarshalBinary\<close> reads back what \<open>MarshalBinary\<close> wrote, for IPv4, IPv6 and zoned IPv6 addresses
  and for the zero address; and \<open>As4\<close>, \<open>AsSlice\<close> and \<open>AddrFromSlice\<close> agree with it.\<close>

theorem addr_binary_roundtrip:
  assumes "addr_ok ip"
  shows "addr_unmarshalBinary (addr_marshalBinary ip) = Ok ip
    \<and> (addr_isValid ip \<longrightarrow> addrFromSlice (addr_asSlice ip) = Some (addr_withoutZone ip))
    \<and> (addr_is4 ip \<longrightarrow> addr_as4 ip = Ok (addr_asSlice ip))"
proof (cases "afam ip")
  case Z0
  then show ?thesis
    using assms by (simp add: addr_ok_def addr_marshalBinary_def addr_unmarshalBinary_def
        addr_isValid_def addr_is4_def)
next
  case Z4
  then show ?thesis
    using addrFrom4_as4 [OF assms Z4]
    by (simp add: addr_marshalBinary_def addr_unmarshalBinary_def addrFromSlice_def addr_asSlice_def
        addr_withoutZone_def addr_is6_def addr_is4_def addr_as4_def)
next
  case (Z6 z)
  then show ?thesis
    using addrFrom16_as16 [of "abits ip"]
    by (cases ip; cases "z = []")
      (simp_all add: addr_marshalBinary_def addr_unmarshalBinary_def addrFromSlice_def addr_asSlice_def
        addr_withoutZone_def addr_withZone_def addr_is6_def addr_is4_def)
qed

theorem addr_binary_roundtrip_witness:
  "addr_unmarshalBinary (addr_marshalBinary (Addr (U128 1 2) (Z6 ''eth0'')))
     = Ok (Addr (U128 1 2) (Z6 ''eth0''))"
  using addr_binary_roundtrip [of "Addr (U128 1 2) (Z6 ''eth0'')"] by (simp add: addr_ok_def)

section \<open>Successor and predecessor\<close>

lemma ucast_lo_addOne: "(ucast (lo (u_addOne u)) :: 32 word) = ucast (lo u) + 1"
  by (rule word_unat_eq_iff [THEN iffD2])
    (simp add: u_addOne_def unsigned_ucast_eq take_bit_eq_mod unat_word_ariths mod_Suc_eq mod_mod_cancel)

lemma unat_plus1: "unat (w + 1) = (if w + 1 = 0 then 0 else unat w + 1)" for w :: "'a :: len word"
  by (simp add: unatSuc add.commute)

lemma plus1_zero: "w + 1 = 0 \<longleftrightarrow> unat w + 1 = 2 ^ LENGTH('a)" for w :: "'a :: len word"
proof -
  have "w + 1 = 0 \<longleftrightarrow> w = - 1" by (simp add: eq_neg_iff_add_eq_0)
  also have "\<dots> \<longleftrightarrow> unat w = unat (- 1 :: 'a word)" by (rule word_unat_eq_iff)
  also have "unat (- 1 :: 'a word) = 2 ^ LENGTH('a) - 1"
    by (simp add: unsigned_minus_1_eq_mask mask_eq_exp_minus_1)
  finally show ?thesis by (metis Suc_eq_plus1 Suc_pred' diff_Suc_1 zero_less_numeral zero_less_power)
qed

text \<open>Within the last octets of an IPv4 address no carry reaches the mapped prefix.\<close>

lemma v4_no_carry:
  assumes "(ucast w :: 32 word) + 1 \<noteq> 0"
  shows "w + 1 \<noteq> 0 \<and> drop_bit 32 (w + 1) = drop_bit 32 (w :: 64 word)"
proof -
  let ?n = "unat w"
  have "unat (ucast w :: 32 word) = ?n mod 2 ^ 32"
    by (simp add: unsigned_ucast_eq take_bit_eq_mod)
  then have m: "?n mod 2 ^ 32 + 1 \<noteq> 2 ^ 32"
    using assms by (simp add: plus1_zero)
  have ne: "w + 1 \<noteq> 0"
  proof
    assume "w + 1 = 0"
    then have "?n = 2 ^ 64 - 1" by (simp add: plus1_zero)
    then show False using m by simp
  qed
  have "(?n + 1) div 2 ^ 32 = ?n div 2 ^ 32"
    using m by (simp add: div_Suc mod_Suc)
  then have "unat (drop_bit 32 (w + 1)) = unat (drop_bit 32 w)"
    using ne by (simp add: unat_drop unat_plus1)
  then show ?thesis using ne by (simp add: word_unat_eq_iff)
qed

text \<open>\<open>Next\<close> is the successor within the family and \<open>Prev\<close> undoes it; at the last address of the
  family \<open>Next\<close> returns the zero address. For IPv4 the increment, which is done on the whole
  128-bit value, never disturbs the mapped prefix.\<close>

theorem addr_next_successor:
  assumes "addr_ok ip" and "addr_isValid ip"
  shows "if addr_num ip + 1 < 2 ^ addr_bitLen ip
         then afam (addr_next ip) = afam ip \<and> addr_ok (addr_next ip)
              \<and> addr_num (addr_next ip) = addr_num ip + 1 \<and> addr_prev (addr_next ip) = ip
         else addr_next ip = zero_addr"
proof -
  let ?u = "abits ip"
  have lt: "addr_num ip < 2 ^ addr_bitLen ip" using assms(2) by (rule addr_num_less)
  show ?thesis
  proof (cases "afam ip")
    case Z0
    then show ?thesis using assms(2) by (simp add: addr_isValid_def)
  next
    case Z4
    let ?w = "ucast (lo ?u) :: 32 word"
    have z: "?w + 1 = 0 \<longleftrightarrow> addr_num ip + 1 = 2 ^ 32"
      using Z4 by (simp add: plus1_zero addr_num_def addr_is4_def)
    show ?thesis
    proof (cases "?w + 1 = 0")
      case True
      then show ?thesis
        using Z4 z by (simp add: addr_next_def addr_is4_def ucast_lo_addOne Let_def addr_bitLen_def)
    next
      case False
      then have nc: "lo ?u + 1 \<noteq> 0" "drop_bit 32 (lo ?u + 1) = drop_bit 32 (lo ?u)"
        using v4_no_carry [of "lo ?u"] by simp_all
      have nx: "addr_next ip = Addr (u_addOne ?u) Z4"
        using False Z4 by (simp add: addr_next_def addr_is4_def ucast_lo_addOne Let_def)
      have "addr_ok (addr_next ip)"
        using assms(1) Z4 nc unfolding nx by (simp add: addr_ok_def u_addOne_def)
      moreover have "addr_num (addr_next ip) = addr_num ip + 1"
        using False Z4 unfolding nx by (simp add: addr_num_def addr_is4_def ucast_lo_addOne unat_plus1)
      moreover have "addr_prev (addr_next ip) = ip"
        using False Z4 unfolding nx
        by (cases ip) (simp add: addr_prev_def addr_is4_def ucast_lo_addOne u_subOne_addOne)
      ultimately show ?thesis
        using Z4 z False lt nx by (simp add: addr_bitLen_def)
    qed
  next
    case (Z6 zn)
    have iz: "u_isZero (u_addOne ?u) \<longleftrightarrow> addr_num ip + 1 = 2 ^ 128"
      using Z6 by (simp add: u_isZero_iff u_val_addOne plus1_zero addr_num_def addr_is4_def)
    show ?thesis
      using Z6 iz lt
      by (cases ip) (auto simp: addr_next_def addr_prev_def addr_is4_def Let_def addr_bitLen_def addr_ok_def
          addr_num_def u_val_addOne unat_plus1 u_subOne_addOne u_isZero_iff)
  qed
qed

theorem addr_next_successor_witness:
  "addr_num (addr_next (addrFrom4 [10, 0, 0, 255])) = addr_num (addrFrom4 [10, 0, 0, 255]) + 1
   \<and> addr_next (addrFrom4 [255, 255, 255, 255]) = zero_addr"
proof -
  have n: "addr_num (addrFrom4 [10, 0, 0, 255]) = 167772415"
    "addr_num (addrFrom4 [255, 255, 255, 255]) = 4294967295"
    by (simp_all add: addr_num_def addr_is4_def addrFrom4_def)
  have ok: "addr_ok (addrFrom4 [10, 0, 0, 255])" "addr_ok (addrFrom4 [255, 255, 255, 255])"
    "addr_isValid (addrFrom4 x)" "addr_bitLen (addrFrom4 x) = 32" for x
    by (simp_all add: addr_ok_def addrFrom4_def addr_isValid_def addr_bitLen_def)
  show ?thesis
    using addr_next_successor [OF ok(1,3)] addr_next_successor [OF ok(2,3)]
    by (simp add: n ok(4))
qed

end
