(* ===== verification/SocksFacts.thy ===== *)
theory SocksFacts
  imports Socks5 NetipFacts
begin

text \<open>
  Properties of the SOCKS component: the readers agree on one grammar of addresses, the text and
  the UDP forms are read back, both sides of the handshake fit together, and a server that asks
  for a password serves nobody without a correct one.
\<close>

section \<open>Addresses\<close>

lemma readByte_Ok_iff:
  "readByte c = (Inr t, c') \<longleftrightarrow> (\<exists>r. rd c = t # r \<and> c' = c\<lparr>rd := r\<rparr>)"
proof
  assume "readByte c = (Inr t, c')"
  then obtain b where b: "io_read 1 c = (Inr b, c')" "t = hd b"
    by (auto simp: readByte_def io_bind_Ok_iff)
  then show "\<exists>r. rd c = t # r \<and> c' = c\<lparr>rd := r\<rparr>"
    by (cases b) (auto simp: io_read_Ok_iff)
qed auto

lemma readAddr0_OkD:
  assumes "readAddr0 c = (Inr a, c')"
  shows "\<exists>r. rd c = a @ r \<and> addr_wf a \<and> c' = c\<lparr>rd := r\<rparr>"
proof -
  obtain t r where t: "rd c = t # r"
    "(if t = AtypDomainName then
          io_bind readByte (\<lambda>l. io_bind (io_read (unat l + 2)) (\<lambda>d. io_ret (t # l # d)))
        else if t = AtypIPv4 then io_bind (io_read (4 + 2)) (\<lambda>d. io_ret (t # d))
        else if t = AtypIPv6 then io_bind (io_read (16 + 2)) (\<lambda>d. io_ret (t # d))
        else io_err ErrAddressNotSupported) (c\<lparr>rd := r\<rparr>) = (Inr a, c')"
    using assms by (auto simp: readAddr0_def io_bind_Ok_iff readByte_Ok_iff)
  consider (dom) "t = AtypDomainName" | (v4) "t = AtypIPv4" | (v6) "t = AtypIPv6"
    using t(2) by (auto split: if_splits)
  then show ?thesis
  proof cases
    case dom
    then obtain l r2 d r3 where l: "r = l # r2" "r2 = d @ r3" "length d = unat l + 2"
        "a = t # l # d" "c' = c\<lparr>rd := r3\<rparr>"
      using t(2) by (simp add: io_bind_Ok_iff readByte_Ok_iff io_read_Ok_iff) fastforce
    have "addr_wf a"
      using dom l by (simp add: addr_wf_def splitAddr_def)
    with t l show ?thesis by simp
  next
    case v4
    then have "io_bind (io_read (4 + 2)) (\<lambda>d. io_ret (t # d)) (c\<lparr>rd := r\<rparr>) = (Inr a, c')"
      using t(2) by (simp add: atyp_defs)
    then obtain d r3 where l: "r = d @ r3" "length d = 6" "a = t # d" "c' = c\<lparr>rd := r3\<rparr>"
      by (auto simp: io_bind_Ok_iff io_read_Ok_iff)
    have "addr_wf a"
      using v4 l by (simp add: addr_wf_def splitAddr_def atyp_defs)
    with t l show ?thesis by simp
  next
    case v6
    then have "io_bind (io_read (16 + 2)) (\<lambda>d. io_ret (t # d)) (c\<lparr>rd := r\<rparr>) = (Inr a, c')"
      using t(2) by (simp add: atyp_defs)
    then obtain d r3 where l: "r = d @ r3" "length d = 18" "a = t # d" "c' = c\<lparr>rd := r3\<rparr>"
      by (auto simp: io_bind_Ok_iff io_read_Ok_iff)
    have "addr_wf a"
      using v6 l by (simp add: addr_wf_def splitAddr_def atyp_defs)
    with t l show ?thesis by simp
  qed
qed

lemma readAddr0_None:
  assumes "splitAddr b = None"
  shows "\<exists>e. fst (readAddr0 (mk_conn b)) = Inl e"
proof (cases "readAddr0 (mk_conn b)")
  case (Pair x c')
  show ?thesis
  proof (cases x)
    case (Inr a)
    then obtain r where "b = a @ r" "addr_wf a"
      using readAddr0_OkD [of "mk_conn b" a c'] Pair by (auto simp: mk_conn_def)
    then show ?thesis using assms by (simp add: splitAddr_append)
  qed (use Pair in simp)
qed

text \<open>The three readers of a SOCKS address accept the same byte strings and return the same address:
  \<open>ReadAddr\<close> with a large enough buffer, \<open>ReadAddr0\<close>, and \<open>SplitAddr\<close>, which looks at a buffer
  without consuming it. The stream readers consume exactly the address.\<close>

theorem socks_readers_agree:
  "readAddr MaxAddrLen (mk_conn b) = readAddr0 (mk_conn b) \<and>
   (case splitAddr b of
      Some a \<Rightarrow> readAddr0 (mk_conn b) = (Inr a, mk_conn (drop (length a) b))
    | None \<Rightarrow> \<exists>e. fst (readAddr0 (mk_conn b)) = Inl e)"
proof (cases "splitAddr b")
  case None
  then show ?thesis using readAddr0_None [of b] by (simp add: readAddr_eq_readAddr0)
next
  case (Some a)
  then obtain r where r: "addr_wf a" "b = a @ r" using splitAddr_wf by blast
  then have "readAddr0 (mk_conn b) = (Inr a, (mk_conn b)\<lparr>rd := r\<rparr>)"
    by (intro readAddr0_wf) (simp_all add: mk_conn_def)
  with Some r show ?thesis by (simp add: readAddr_eq_readAddr0 mk_conn_def)
qed

text \<open>\<open>DecodeUDPPacket\<close> undoes \<open>EncodeUDPPacket\<close> for every well-formed address; a packet that is
  shorter than five bytes, has reserved bits set, is a fragment, or has no complete address is
  rejected.\<close>

theorem udp_packet_roundtrip:
  "(addr_wf a \<longrightarrow> (\<exists>pkt. encodeUDPPacket (Some a) payload = Ok pkt
       \<and> decodeUDPPacket pkt = (Some a, payload, None))) \<and>
   ((\<exists>a d. decodeUDPPacket pkt = (Some a, d, None)) \<longleftrightarrow>
      5 \<le> length pkt \<and> take 3 pkt = [0, 0, 0] \<and> splitAddr (drop 3 pkt) \<noteq> None)"
proof (rule conjI)
  show "addr_wf a \<longrightarrow> (\<exists>pkt. encodeUDPPacket (Some a) payload = Ok pkt
       \<and> decodeUDPPacket pkt = (Some a, payload, None))"
    using addr_wf_length [of a]
    by (auto simp: encodeUDPPacket_def decodeUDPPacket_def splitAddr_append numeral_3_eq_3)
  have "5 \<le> length pkt \<Longrightarrow> take 3 pkt = [0, 0, 0] \<longleftrightarrow> take 2 pkt = [0, 0] \<and> pkt ! 2 = 0"
    by (cases pkt; cases "tl pkt"; cases "tl (tl pkt)") auto
  then show "(\<exists>a d. decodeUDPPacket pkt = (Some a, d, None)) \<longleftrightarrow>
      5 \<le> length pkt \<and> take 3 pkt = [0, 0, 0] \<and> splitAddr (drop 3 pkt) \<noteq> None"
    by (auto simp: decodeUDPPacket_def split: option.splits)
qed

theorem udp_packet_roundtrip_witness:
  "\<exists>pkt. encodeUDPPacket (Some (dest_addr (IP4 [8, 8, 8, 8] 53))) [1, 2] = Ok pkt
       \<and> decodeUDPPacket pkt = (Some (dest_addr (IP4 [8, 8, 8, 8] 53)), [1, 2], None)"
  using udp_packet_roundtrip [of "dest_addr (IP4 [8, 8, 8, 8] 53)" "[1, 2]" "[]"]
    addr_wf_dest [of "IP4 [8, 8, 8, 8] 53"] by simp

section \<open>Text\<close>

lemma list4:
  assumes "length a = 4" obtains a0 a1 a2 a3 where "a = [a0, a1, a2, a3]"
  using assms by (auto simp: numeral_eq_Suc length_Suc_conv)

lemma ip_string_v4: "ip_string [a, b, c, d] = dotted a b c d"
  by (simp add: ip_string_def ip_to4_def string_addrFrom4)

lemma ucast_addrFrom4: "put_be32 (ucast (lo (abits (addrFrom4 [a, b, c, d])))) = [a, b, c, d]"
proof -
  have "put_be32 (ucast (lo (abits x))) = [addr_v4 x 0, addr_v4 x 1, addr_v4 x 2, addr_v4 x 3]" for x
    by (auto simp: put_be32_def addr_v4_def bit_simps intro!: bit_word_eqI)
  then show ?thesis by (simp add: addr_v4_addrFrom4)
qed

lemma parse_ip_dotted: "parse_ip (dotted a b c d) = Some (v4_prefix @ [a, b, c, d])"
  by (simp add: parse_ip_def parseAddr_dotted ucast_addrFrom4)

lemma dotted_plain: "plain_chars (dotted a b c d)"
  using itoa_no_special by (auto simp: dotted_def plain_chars_def)

lemma ip_to4_mapped: "ip_to4 (v4_prefix @ [a, b, c, d]) = Some [a, b, c, d]"
  by (simp add: ip_to4_def v4_prefix_def)

lemma ip_string_mapped: "ip_string (v4_prefix @ [a, b, c, d]) = dotted a b c d"
  by (simp add: ip_string_def ip_to4_mapped string_addrFrom4)

lemma port_at_put: "length x = n \<Longrightarrow> port_at (x @ put_be16 p) n = unat p"
proof -
  assume "length x = n"
  moreover have "unat (ucast (drop_bit 8 p) :: byte) * 256 + unat (ucast p :: byte) = unat p"
  proof -
    have l: "unat p < 65536" using unsigned_less [of p, where ?'a = nat] by simp
    have "unat (ucast (drop_bit 8 p) :: byte) = unat p div 256"
      using l by (simp add: unsigned_ucast_eq take_bit_eq_mod unat_drop less_mult_imp_div_less)
    moreover have "unat (ucast p :: byte) = unat p mod 256"
      by (simp add: unsigned_ucast_eq take_bit_eq_mod)
    ultimately show ?thesis by simp
  qed
  ultimately show ?thesis by (simp add: port_at_def put_be16_def nth_append)
qed

lemma parse_uint_port: "parse_uint 16 (itoa (unat (p :: 16 word))) = (unat p, None)"
  using unsigned_less [of p, where ?'a = nat] by (intro parse_uint_itoa) simp

lemma put_be16_port [simp]: "put_be16 (word_of_nat (unat (p :: 16 word))) = put_be16 p"
  by simp

text \<open>The destinations whose text form is read back as the same kind of address: a name that is not
  itself an IP literal, or an IPv4 address.\<close>

fun text_ok :: "dest \<Rightarrow> bool" where
  "text_ok (Domain h p) \<longleftrightarrow> length h \<le> 255 \<and> plain_chars h \<and> parse_ip h = None"
| "text_ok (IP4 a p) \<longleftrightarrow> length a = 4"
| "text_ok (IP6 a p) \<longleftrightarrow> False"

fun dest_text :: "dest \<Rightarrow> string" where
  "dest_text (Domain h p) = join_host_port h (itoa (unat p))"
| "dest_text (IP4 a p) = join_host_port (ip_string a) (itoa (unat p))"
| "dest_text (IP6 a p) = join_host_port (ip_string a) (itoa (unat p))"

lemma split_text:
  "plain_chars h \<Longrightarrow> split_host_port (join_host_port h (itoa n)) = Ok (h, itoa n)"
  using itoa_no_special by (intro split_join_host_port) (auto simp: plain_chars_def)

lemma port_bytes: "port_at (put_be16 p) 0 = unat p"
  using port_at_put [of "[]" 0 p] by simp

lemma saddr_string_dest:
  "dest_ok d \<Longrightarrow> saddr_string (dest_addr d) = Ok (dest_text d)"
proof (cases d)
  case (Domain h p)
  assume "dest_ok d"
  moreover have "port_at (AtypDomainName # w # s2b h @ put_be16 p) (Suc (Suc (length h))) = unat p" for w
    using port_at_put [of "AtypDomainName # w # s2b h" "Suc (Suc (length h))" p] by simp
  ultimately show ?thesis
    using Domain by (simp add: saddr_string_def go_index_def go_slice_def unat_length_byte atyp_defs)
next
  case (IP4 a p)
  assume "dest_ok d"
  moreover from this have "port_at (AtypIPv4 # a @ put_be16 p) 5 = unat p"
    using port_at_put [of "AtypIPv4 # a" 5 p] IP4 by simp
  ultimately show ?thesis
    using IP4 by (simp add: saddr_string_def go_index_def go_slice_def atyp_defs)
next
  case (IP6 a p)
  assume "dest_ok d"
  moreover from this have "port_at (AtypIPv6 # a @ put_be16 p) 17 = unat p"
    using port_at_put [of "AtypIPv6 # a" 17 p] IP6 by simp
  ultimately show ?thesis
    using IP6 by (simp add: saddr_string_def go_index_def go_slice_def atyp_defs)
qed

lemma parse_saddr_dest_text: "text_ok d \<Longrightarrow> parse_saddr (dest_text d) = Some (dest_addr d)"
proof (cases d)
  case (Domain h p)
  then show "text_ok d \<Longrightarrow> parse_saddr (dest_text d) = Some (dest_addr d)"
    by (simp add: parse_saddr_def split_text Let_def parse_uint_port)
next
  case (IP4 a p)
  assume "text_ok d"
  then obtain a0 a1 a2 a3 where "a = [a0, a1, a2, a3]"
    using IP4 by (auto elim: list4)
  then show "parse_saddr (dest_text d) = Some (dest_addr d)"
    using IP4 by (simp add: parse_saddr_def ip_string_v4 split_text dotted_plain parse_ip_dotted
        ip_to4_mapped Let_def parse_uint_port)
qed simp

text \<open>\<open>Addr.String\<close> prints a well-formed address as \<open>host:port\<close> without panicking, and \<open>ParseAddr\<close>
  reads the text of a domain name or an IPv4 address back to the same address bytes.\<close>

theorem socks_text_roundtrip:
  "(dest_ok d \<longrightarrow> saddr_string (dest_addr d) = Ok (dest_text d)) \<and>
   (text_ok d \<longrightarrow> parse_saddr (dest_text d) = Some (dest_addr d))"
proof (rule conjI)
  show "dest_ok d \<longrightarrow> saddr_string (dest_addr d) = Ok (dest_text d)"
    by (simp add: saddr_string_dest)
  show "text_ok d \<longrightarrow> parse_saddr (dest_text d) = Some (dest_addr d)"
    by (simp add: parse_saddr_dest_text)
qed

theorem socks_text_roundtrip_witness:
  "parse_saddr (dest_text (IP4 [127, 0, 0, 1] 1080)) = Some (dest_addr (IP4 [127, 0, 0, 1] 1080))
   \<and> saddr_string (dest_addr (IP4 [127, 0, 0, 1] 1080)) = Ok (dest_text (IP4 [127, 0, 0, 1] 1080))"
  using socks_text_roundtrip [of "IP4 [127, 0, 0, 1] 1080"] by (simp only: text_ok.simps dest_ok.simps) simp

section \<open>Handshakes\<close>

lemma parse_ip_length: "parse_ip h = Some ip \<Longrightarrow> length ip = 16"
  by (auto simp: parse_ip_def v4_prefix_def addr_as16_def split: sum.splits zfield.splits if_splits)

lemma parse_saddr_wf:
  assumes "parse_saddr s = Some a" shows "addr_wf a"
proof -
  obtain host port where hp: "split_host_port s = Ok (host, port)"
    using assms by (auto simp: parse_saddr_def split: sum.splits)
  obtain n where n: "parse_uint 16 port = (n, None)"
    using assms by (cases "parse_uint 16 port") (auto simp: parse_saddr_def hp Let_def
        split: option.splits)
  show ?thesis
  proof (cases "parse_ip host")
    case None
    then have "length host \<le> 255" "a = dest_addr (Domain host (word_of_nat n))"
      using assms by (auto simp: parse_saddr_def hp n Let_def split: if_splits)
    then show ?thesis using addr_wf_dest [of "Domain host (word_of_nat n)"] by simp
  next
    case (Some ip)
    have l: "length ip = 16" using Some by (rule parse_ip_length)
    show ?thesis
    proof (cases "ip_to4 ip")
      case None
      then have "a = dest_addr (IP6 ip (word_of_nat n))"
        using assms Some by (simp add: parse_saddr_def hp n Let_def)
      then show ?thesis using l addr_wf_dest [of "IP6 ip (word_of_nat n)"] by simp
    next
      case (Some v)
      then have "a = dest_addr (IP4 v (word_of_nat n))" "length v = 4"
        using assms \<open>parse_ip host = Some ip\<close> l
        by (auto simp: parse_saddr_def hp n Let_def ip_to4_def split: if_splits)
      then show ?thesis using addr_wf_dest [of "IP4 v (word_of_nat n)"] by simp
    qed
  qed
qed

text \<open>The two message sequences of a successful handshake.\<close>

definition auth_msg :: "string \<times> string \<Rightarrow> bytes" where
  "auth_msg = (\<lambda>(u, p). [1, word_of_nat (length u)] @ s2b u @ [word_of_nat (length p)] @ s2b p)"

definition client_msgs :: "saddr \<Rightarrow> byte \<Rightarrow> (string \<times> string) option \<Rightarrow> bytes list" where
  "client_msgs addr cmd user =
     (case user of None \<Rightarrow> [[5, 1, 0]] | Some up \<Rightarrow> [[5, 1, 2], auth_msg up]) @ [[5, cmd, 0] @ addr]"

definition server_msgs :: "bool \<Rightarrow> saddr \<Rightarrow> bytes list" where
  "server_msgs auth la = (if auth then [[5, 2], [1, 0]] else [[5, 0]]) @ [[5, 0, 0] @ la]"

text \<open>When a client's user satisfies the server's authenticator (or neither side has one).\<close>

definition credentials_ok :: "authenticator option \<Rightarrow> (string \<times> string) option \<Rightarrow> bool" where
  "credentials_ok auth user \<longleftrightarrow>
     (case (auth, user) of
        (None, None) \<Rightarrow> True
      | (Some au, Some (u, p)) \<Rightarrow>
          0 < length u \<and> length u \<le> 255 \<and> 0 < length p \<and> length p \<le> 255 \<and> auth_verify au u p
      | _ \<Rightarrow> False)"

lemma io_read2 [simp]: "rd c = a # b # r \<Longrightarrow> io_read 2 c = (Inr [a, b], c\<lparr>rd := r\<rparr>)"
  using io_read_append [of c "[a, b]" r 2] by simp

lemma io_read3 [simp]: "rd c = a # b # d # r \<Longrightarrow> io_read 3 c = (Inr [a, b, d], c\<lparr>rd := r\<rparr>)"
  using io_read_append [of c "[a, b, d]" r 3] by simp

lemma server_auth_ok:
  assumes "credentials_ok (Some au) (Some (u, p))" "rd c = auth_msg (u, p) @ r" "\<And>i. \<not> wbad c i"
  shows "server_auth au c = (Inr (), c\<lparr>rd := r, wr := wr c @ [[5, 2], [1, 0]]\<rparr>)"
proof -
  have l: "unat (word_of_nat (length u) :: byte) = length u" "unat (word_of_nat (length p) :: byte) = length p"
      "0 < length u" "0 < length p" "auth_verify au u p"
    using assms(1) by (auto simp: credentials_ok_def unat_length_byte)
  have r: "io_read (length u) (d\<lparr>rd := s2b u @ x\<rparr>) = (Inr (s2b u), d\<lparr>rd := x\<rparr>)"
      "io_read (length p) (d\<lparr>rd := s2b p @ x\<rparr>) = (Inr (s2b p), d\<lparr>rd := x\<rparr>)" for d x
    using io_read_append [of "d\<lparr>rd := s2b u @ x\<rparr>" "s2b u" x] io_read_append [of "d\<lparr>rd := s2b p @ x\<rparr>" "s2b p" x]
    by simp_all
  show ?thesis
    using assms(2,3) l r by (simp add: server_auth_def auth_msg_def)
qed

text \<open>C5: The two sides of the SOCKS handshake fit together. Given the messages the other side writes, the
  client finishes with the server's bound address and the server with the client's destination
  and command, each having written exactly the messages that the other one read, whatever
  follows in the stream; with and without username and password.\<close>

theorem socks_handshake_complete:
  assumes "addr_wf addr" and "command = CmdConnect \<or> command = CmdUDPAssociate"
    and "parse_saddr localAddr = Some la" and "credentials_ok auth user"
  shows "serverHandshake auth localAddr (mk_conn (concat (client_msgs addr command user) @ x)) =
           (Inr (addr, command), (mk_conn x)\<lparr>wr := server_msgs (auth \<noteq> None) la\<rparr>) \<and>
         clientHandshake addr command user (mk_conn (concat (server_msgs (auth \<noteq> None) la) @ y)) =
           (Inr la, (mk_conn y)\<lparr>wr := client_msgs addr command user\<rparr>)"
proof -
  have wf: "addr_wf la" using assms(3) by (rule parse_saddr_wf)
  have cmd: "command = 1 \<or> command = 3"
    using assms(2) by (simp add: CmdConnect_def CmdUDPAssociate_def)
  show ?thesis
  proof (cases auth)
    case None
    then have "user = None" using assms(4) by (auto simp: credentials_ok_def split: option.splits)
    then show ?thesis
      using None assms wf
      by (simp add: serverHandshake_def clientHandshake_def client_msgs_def server_msgs_def mk_conn_def
          Let_def)
  next
    case (Some au)
    then obtain u p where u: "user = Some (u, p)"
      using assms(4) by (auto simp: credentials_ok_def split: option.splits)
    define c where "c = \<lparr>rd = auth_msg (u, p) @ 5 # command # 0 # addr @ x, wr = [], wbad = \<lambda>_. False\<rparr>"
    have sa: "server_auth au c = (Inr (), c\<lparr>rd := 5 # command # 0 # addr @ x, wr := [[5, 2], [1, 0]]\<rparr>)"
      using server_auth_ok [of au u p c] assms(4) Some u by (simp add: c_def)
    have s: "serverHandshake auth localAddr (mk_conn (concat (client_msgs addr command user) @ x)) =
           (Inr (addr, command), (mk_conn x)\<lparr>wr := server_msgs (auth \<noteq> None) la\<rparr>)"
      using Some u assms sa
      by (simp add: serverHandshake_def client_msgs_def server_msgs_def mk_conn_def c_def Let_def)
    have "clientHandshake addr command user (mk_conn (concat (server_msgs (auth \<noteq> None) la) @ y)) =
           (Inr la, (mk_conn y)\<lparr>wr := client_msgs addr command user\<rparr>)"
      using Some u wf
      by (simp add: clientHandshake_def client_msgs_def server_msgs_def mk_conn_def auth_msg_def)
    with s show ?thesis by blast
  qed
qed

theorem socks_handshake_complete_witness:
  "serverHandshake (newAuthenticator [(''u'', ''p'')]) (dest_text (IP4 [127, 0, 0, 1] 1080))
     (mk_conn (concat (client_msgs (dest_addr (IP4 [1, 2, 3, 4] 80)) CmdConnect (Some (''u'', ''p''))) @ [9])) =
   (Inr (dest_addr (IP4 [1, 2, 3, 4] 80), CmdConnect),
    (mk_conn [9])\<lparr>wr := server_msgs True (dest_addr (IP4 [127, 0, 0, 1] 1080))\<rparr>)"
proof -
  have la: "parse_saddr (dest_text (IP4 [127, 0, 0, 1] 1080)) = Some (dest_addr (IP4 [127, 0, 0, 1] 1080))"
    by (rule parse_saddr_dest_text) simp
  have "credentials_ok (newAuthenticator [(''u'', ''p'')]) (Some (''u'', ''p''))"
    by (simp add: credentials_ok_def newAuthenticator_def auth_verify_def)
  then show ?thesis
    using socks_handshake_complete [of "dest_addr (IP4 [1, 2, 3, 4] 80)" CmdConnect "dest_text (IP4 [127, 0, 0, 1] 1080)"
        "dest_addr (IP4 [127, 0, 0, 1] 1080)" "newAuthenticator [(''u'', ''p'')]" "Some (''u'', ''p'')" "[9]" "[]"]
      la addr_wf_dest [of "IP4 [1, 2, 3, 4] 80"]
    by (simp add: newAuthenticator_def del: dest_addr.simps dest_text.simps)
qed

text \<open>A server that asks for a password.\<close>

lemma server_auth_sound:
  assumes "server_auth au c = (Inr (), c')"
  shows "\<exists>ver ulen user plen pass r. rd c = [ver, ulen] @ user @ [plen] @ pass @ r
     \<and> auth_verify au (b2s user) (b2s pass) \<and> wr c' = wr c @ [[5, 2], [1, 0]]
     \<and> 0 < length user \<and> 0 < length pass"
proof -
  obtain c1 h c2 where 1: "c1 = c\<lparr>wr := wr c @ [[5, 2]]\<rparr>" "io_read 2 c1 = (Inr h, c2)"
    and k1: "(if unat (h ! 1) \<le> 0 then io_bind (io_try (io_write [1, 1])) (\<lambda>_. io_err AuthErr)
       else
     io_bind (io_read (unat (h ! 1))) (\<lambda>user.
     io_bind (io_read 1) (\<lambda>pl.
       if unat (hd pl) \<le> 0 then io_bind (io_try (io_write [1, 1])) (\<lambda>_. io_err AuthErr)
       else
     io_bind (io_read (unat (hd pl))) (\<lambda>pass.
       if \<not> auth_verify au (b2s user) (b2s pass)
       then io_bind (io_try (io_write [1, 1])) (\<lambda>_. io_err AuthErr)
       else io_write [1, 0])))) c2 = (Inr (), c')"
    using assms by (auto simp: server_auth_def io_bind_Ok_iff io_write_Ok_iff)
  have no: "\<not> io_bind (io_try (io_write [1, 1])) (\<lambda>_. io_err AuthErr) d = (Inr (), d')" for d d'
    by (simp add: io_bind_def io_try_def)
  have pos: "0 < unat (h ! 1)" using k1 no by (auto split: if_splits)
  obtain user c3 pl c4 where 2: "io_read (unat (h ! 1)) c2 = (Inr user, c3)" "io_read 1 c3 = (Inr pl, c4)"
    and k2: "(if unat (hd pl) \<le> 0 then io_bind (io_try (io_write [1, 1])) (\<lambda>_. io_err AuthErr)
       else
     io_bind (io_read (unat (hd pl))) (\<lambda>pass.
       if \<not> auth_verify au (b2s user) (b2s pass)
       then io_bind (io_try (io_write [1, 1])) (\<lambda>_. io_err AuthErr)
       else io_write [1, 0])) c4 = (Inr (), c')"
    using k1 pos by (simp add: io_bind_Ok_iff) metis
  have pos2: "0 < unat (hd pl)" using k2 no by (auto split: if_splits)
  obtain pass c5 where 3: "io_read (unat (hd pl)) c4 = (Inr pass, c5)"
    and k3: "(if \<not> auth_verify au (b2s user) (b2s pass)
       then io_bind (io_try (io_write [1, 1])) (\<lambda>_. io_err AuthErr)
       else io_write [1, 0]) c5 = (Inr (), c')"
    using k2 pos2 by (simp add: io_bind_Ok_iff) metis
  have v: "auth_verify au (b2s user) (b2s pass)" using k3 no by (auto split: if_splits)
  then have w: "c' = c5\<lparr>wr := wr c5 @ [[1, 0]]\<rparr>" using k3 by (simp add: io_write_Ok_iff)
  obtain a b where h: "h = [a, b]"
    using 1(2) by (auto simp: io_read_Ok_iff numeral_2_eq_2 length_Suc_conv)
  obtain q where q: "pl = [q]"
    using 2(2) by (auto simp: io_read_Ok_iff length_Suc_conv)
  have "\<exists>r. rd c = [a, b] @ user @ [q] @ pass @ r"
    using 1 2 3 h q by (auto simp: io_read_Ok_iff)
  moreover have "wr c' = wr c @ [[5, 2], [1, 0]]"
    using 1 2 3 w by (auto simp: io_read_Ok_iff)
  moreover have "0 < length user" "0 < length pass"
    using 2 3 pos pos2 by (auto simp: io_read_Ok_iff)
  ultimately show ?thesis using v by blast
qed

text \<open>C6: Authentication is enforced: a server handshake that has an authenticator succeeds only when the
  client sent a user name and a password that the authenticator verifies, and the success reply
  to them is written before the request is answered. Nothing is promised about the methods the
  client offered, which the server does not look at.\<close>

theorem socks_auth_enforced:
  assumes "serverHandshake (Some au) localAddr c = (Inr (addr, command), c')"
  shows "\<exists>ver n methods sub ulen user plen pass r la.
     rd c = [ver, n] @ methods @ [sub, ulen] @ user @ [plen] @ pass @ r \<and> length methods = unat n
     \<and> auth_verify au (b2s user) (b2s pass)
     \<and> wr c' = wr c @ [[5, 2], [1, 0], [5, 0, 0] @ la]
     \<and> (command = CmdConnect \<or> command = CmdUDPAssociate)"
proof -
  obtain h c1 m c2 c3 req c4 c5 where
      1: "io_read 2 c = (Inr h, c1)" "io_read (unat (h ! 1)) c1 = (Inr m, c2)"
         "server_auth au c2 = (Inr (), c3)" "io_read 3 c3 = (Inr req, c4)"
         "readAddr MaxAddrLen c4 = (Inr addr, c5)"
    and k: "(if req ! 1 = CmdConnect \<or> req ! 1 = CmdUDPAssociate then
         (case parse_saddr localAddr of
            None \<Rightarrow> io_err ErrAddressNotSupported
          | Some la \<Rightarrow> io_bind (io_write ([5, 0, 0] @ la)) (\<lambda>_. io_ret (addr, req ! 1)))
       else io_err ErrCommandNotSupported) c5 = (Inr (addr, command), c')"
    using assms by (auto simp: serverHandshake_def io_bind_Ok_iff Let_def split: if_splits option.splits)
  obtain ver ulen user plen pass r where a: "rd c2 = [ver, ulen] @ user @ [plen] @ pass @ r"
      "auth_verify au (b2s user) (b2s pass)" "wr c3 = wr c2 @ [[5, 2], [1, 0]]"
    using server_auth_sound [OF 1(3)] by blast
  obtain la where la: "parse_saddr localAddr = Some la" "command = req ! 1"
      "command = CmdConnect \<or> command = CmdUDPAssociate" "c' = c5\<lparr>wr := wr c5 @ [[5, 0, 0] @ la]\<rparr>"
    using k by (auto simp: io_bind_Ok_iff io_write_Ok_iff split: if_splits option.splits)
  obtain x y where h: "h = [x, y]"
    using 1(1) by (auto simp: io_read_Ok_iff numeral_2_eq_2 length_Suc_conv)
  have "wr c5 = wr c4"
    using readAddr0_OkD [of c4 addr c5] 1(5) by (auto simp: readAddr_eq_readAddr0)
  then have "wr c' = wr c @ [[5, 2], [1, 0], [5, 0, 0] @ la]"
    using 1 a(3) la(4) by (auto simp: io_read_Ok_iff)
  moreover have "rd c = [x, y] @ m @ rd c2 \<and> length m = unat y"
    using 1(1,2) h by (auto simp: io_read_Ok_iff)
  ultimately show ?thesis using a la(3) by metis
qed

theorem socks_auth_enforced_witness:
  "\<exists>ver n methods sub ulen user plen pass r la.
     concat (client_msgs (dest_addr (IP4 [1, 2, 3, 4] 80)) CmdConnect (Some (''u'', ''p'')))
       = [ver, n] @ methods @ [sub, ulen] @ user @ [plen] @ pass @ r \<and> length methods = unat n
     \<and> b2s pass = ''p'' \<and> [[5, 2], [1, 0], [5, 0, 0] @ dest_addr (IP4 [127, 0, 0, 1] 1080)]
         = [[5, 2], [1, 0], [5, 0, 0] @ la]"
proof -
  let ?au = "\<lparr>auStorage = [''u'' \<mapsto> ''p''], auUsernames = [''u'']\<rparr>"
  let ?a = "dest_addr (IP4 [1, 2, 3, 4] 80)" and ?l = "dest_addr (IP4 [127, 0, 0, 1] 1080)"
  define c where "c = mk_conn (concat (client_msgs ?a CmdConnect (Some (''u'', ''p''))))"
  have w: "addr_wf ?a" "addr_wf ?l"
    using addr_wf_dest [of "IP4 [1, 2, 3, 4] 80"] addr_wf_dest [of "IP4 [127, 0, 0, 1] 1080"] by simp_all
  have la: "parse_saddr (dest_text (IP4 [127, 0, 0, 1] 1080)) = Some ?l"
    by (rule parse_saddr_dest_text) simp
  have c: "c = \<lparr>rd = [5, 1, 2] @ auth_msg (''u'', ''p'') @ [5, CmdConnect, 0] @ ?a, wr = [],
      wbad = \<lambda>_. False\<rparr>"
    by (simp add: c_def mk_conn_def client_msgs_def)
  have sa: "server_auth ?au (c\<lparr>rd := auth_msg (''u'', ''p'') @ [5, CmdConnect, 0] @ ?a\<rparr>)
      = (Inr (), c\<lparr>rd := [5, CmdConnect, 0] @ ?a, wr := [[5, 2], [1, 0]]\<rparr>)"
    using server_auth_ok [of ?au "''u''" "''p''" "c\<lparr>rd := auth_msg (''u'', ''p'') @ [5, CmdConnect, 0] @ ?a\<rparr>"]
    by (simp add: c credentials_ok_def auth_verify_def del: dest_addr.simps)
  have "serverHandshake (Some ?au) (dest_text (IP4 [127, 0, 0, 1] 1080)) c
      = (Inr (?a, CmdConnect), c\<lparr>rd := [], wr := [[5, 2], [1, 0], [5, 0, 0] @ ?l]\<rparr>)"
    using sa la w by (simp add: serverHandshake_def c Let_def del: dest_addr.simps dest_text.simps)
  from socks_auth_enforced [OF this] obtain ver n methods sub ulen user plen pass r where
    o: "rd c = [ver, n] @ methods @ [sub, ulen] @ user @ [plen] @ pass @ r" "length methods = unat n"
      "auth_verify ?au (b2s user) (b2s pass)"
    by blast
  have "b2s pass = ''p''" using o(3) by (auto simp: auth_verify_def split: if_splits option.splits)
  moreover have "rd c = concat (client_msgs ?a CmdConnect (Some (''u'', ''p'')))"
    by (simp add: c_def mk_conn_def)
  ultimately show ?thesis using o(1,2) by metis
qed

end
