(* ===== verification/NetipOrder.thy ===== *)
theory NetipOrder
  imports Netip "HOL-Library.Product_Lexorder" "HOL-Library.List_Lexorder"
begin

text \<open>
  The order of addresses: \<open>Addr.Compare\<close> compares by family, then by value, then by zone. It is
  the lexicographic order of that triple, hence a linear order, and addresses become an
  instance of the library's \<open>linorder\<close>, which makes sorting and finite sets of addresses available.
\<close>

definition addr_key :: "addr \<Rightarrow> nat \<times> 64 word \<times> 64 word \<times> nat list" where
  "addr_key a = (addr_bitLen a, hi (abits a), lo (abits a), map of_char (addr_zone a))"

lemma map_of_char_inject [simp]: "map (of_char :: char \<Rightarrow> nat) a = map of_char b \<longleftrightarrow> a = b"
proof -
  have "inj (of_char :: char \<Rightarrow> nat)" by (rule injI) (metis char_of_char)
  then show ?thesis by (metis inj_map_eq_map)
qed

lemma addr_key_inject [simp]: "addr_key a = addr_key b \<longleftrightarrow> a = b"
proof
  assume k: "addr_key a = addr_key b"
  then have "addr_bitLen a = addr_bitLen b" "abits a = abits b" "addr_zone a = addr_zone b"
    by (auto simp: addr_key_def uint128.expand)
  then show "a = b"
    by (cases "afam a"; cases "afam b"; cases a; cases b)
      (auto simp: addr_bitLen_def addr_zone_def)
qed simp

lemma str_less_key: "str_less a b \<longleftrightarrow> map (of_char :: char \<Rightarrow> nat) a < map of_char b"
  by (simp add: str_less_def list_less_def lexordp_conv_lexord)

lemma addr_compare_key:
  "addr_compare a b =
     (if addr_key a < addr_key b then -1 else if addr_key b < addr_key a then 1 else 0)"
proof (cases "afam a = afam b \<and> addr_is6 a")
  case True
  then show ?thesis
    by (auto simp: addr_compare_def addr_key_def less_prod_simp str_less_key)
next
  case False
  then have "addr_bitLen a = addr_bitLen b \<Longrightarrow> addr_is6 a \<or> addr_zone a = addr_zone b"
    by (cases "afam a"; cases "afam b") (auto simp: addr_bitLen_def addr_zone_def addr_is6_def)
  moreover have "addr_bitLen a = addr_bitLen b \<Longrightarrow> \<not> addr_is6 a \<Longrightarrow> addr_zone a = addr_zone b"
    by (cases "afam a"; cases "afam b") (auto simp: addr_bitLen_def addr_zone_def addr_is6_def)
  ultimately show ?thesis
    by (auto simp: addr_compare_def addr_key_def less_prod_simp str_less_key)
qed

instantiation addr :: linorder
begin

definition less_eq_addr :: "addr \<Rightarrow> addr \<Rightarrow> bool" where
  "less_eq_addr a b \<longleftrightarrow> addr_compare a b \<le> 0"

definition less_addr :: "addr \<Rightarrow> addr \<Rightarrow> bool" where
  "less_addr a b \<longleftrightarrow> addr_less a b"

lemma addr_le_key: "a \<le> b \<longleftrightarrow> addr_key a \<le> addr_key b"
  by (auto simp: less_eq_addr_def addr_compare_key not_less intro: less_imp_le)

lemma addr_less_key: "a < b \<longleftrightarrow> addr_key a < addr_key b"
  by (simp add: less_addr_def addr_less_def addr_compare_key)

instance
proof
  fix a b c :: addr
  show "a < b \<longleftrightarrow> a \<le> b \<and> \<not> b \<le> a"
    unfolding addr_le_key addr_less_key by (rule less_le_not_le)
  show "a \<le> a" unfolding addr_le_key by simp
  show "a \<le> b \<Longrightarrow> b \<le> c \<Longrightarrow> a \<le> c"
    unfolding addr_le_key by (rule order_trans)
  show "a \<le> b \<Longrightarrow> b \<le> a \<Longrightarrow> a = b"
    unfolding addr_le_key by (metis addr_key_inject order_antisym)
  show "a \<le> b \<or> b \<le> a"
    unfolding addr_le_key by (rule linear)
qed

end

text \<open>\<open>Addr.Compare\<close> is a linear order: it is 0 only on equal addresses (zones included), it is
  antisymmetric, transitive and total, and \<open>Less\<close> is its strict part; invalid addresses come
  first, then IPv4, then IPv6.\<close>

theorem addr_compare_linear:
  "(addr_compare a b = 0 \<longleftrightarrow> a = b) \<and> addr_compare b a = - addr_compare a b
    \<and> (addr_less a b \<and> addr_less b c \<longrightarrow> addr_less a c)
    \<and> (addr_less a b \<or> a = b \<or> addr_less b a)
    \<and> (addr_bitLen a < addr_bitLen b \<longrightarrow> addr_less a b)"
proof -
  have "addr_less a b \<longleftrightarrow> a < b" "addr_less b c \<longleftrightarrow> b < c" "addr_less a c \<longleftrightarrow> a < c"
    "addr_less b a \<longleftrightarrow> b < a"
    by (simp_all add: less_addr_def)
  moreover have "addr_compare a b = 0 \<longleftrightarrow> a = b"
    using linorder_less_linear [of "addr_key a" "addr_key b"] by (auto simp: addr_compare_key)
  moreover have "addr_compare b a = - addr_compare a b"
    using less_asym [of "addr_key a" "addr_key b"] by (auto simp: addr_compare_key)
  moreover have "addr_bitLen a < addr_bitLen b \<longrightarrow> a < b"
    by (simp add: addr_less_key addr_key_def)
  ultimately show ?thesis by auto
qed

theorem addr_compare_linear_witness:
  "addr_less (Addr (U128 0 1) Z4) (Addr (U128 0 0) (Z6 [])) \<and>
   addr_less (Addr (U128 0 0) (Z6 [])) (Addr (U128 0 0) (Z6 ''eth0''))"
  using addr_compare_linear [of "Addr (U128 0 1) Z4" "Addr (U128 0 0) (Z6 [])" "Addr (U128 0 0) (Z6 ''eth0'')"]
    addr_compare_linear [of "Addr (U128 0 0) (Z6 [])" "Addr (U128 0 0) (Z6 ''eth0'')" "Addr (U128 0 0) (Z6 [])"]
  by (auto simp: addr_bitLen_def addr_less_def addr_compare_def addr_is6_def addr_zone_def str_less_def)

end
