(* ===== verification/Vless.thy ===== *)
theory Vless
  imports Socks5
begin

text \<open>
  \<open>transport/vless\<close> (\<open>uuid.go\<close>, \<open>vless.go\<close>, \<open>conn.go\<close>) and \<open>transport/wless\<close>: the two request
  headers that carry the destination, the client's side that writes them and the server's side
  that turns them into a SOCKS address. SHA-1 is an argument of the name-based UUIDs.
\<close>

section \<open>UUIDs\<close>

type_synonym uuid = bytes

definition fromHexChar :: "char \<Rightarrow> byte" where
  "fromHexChar c = (let n = (of_char c :: nat) in
     if 48 \<le> n \<and> n \<le> 57 then word_of_nat (n - 48)
     else if 97 \<le> n \<and> n \<le> 102 then word_of_nat (n - 97 + 10)
     else if 65 \<le> n \<and> n \<le> 70 then word_of_nat (n - 65 + 10)
     else 255)"

text \<open>The bytes read at the given positions of the text.\<close>

fun hex_at :: "string \<Rightarrow> nat list \<Rightarrow> bytes res" where
  "hex_at s [] = Ok []"
| "hex_at s (x # xs) =
     (let v1 = fromHexChar (s ! x); v2 = fromHexChar (s ! (x + 1)) in
      if v1 OR v2 = 255 then Err (Msg ''uuid: invalid UUID format'')
      else rbind (hex_at s xs) (\<lambda>r. Ok ((push_bit 4 v1 OR v2) # r)))"

definition canonical_pos :: "nat list" where
  "canonical_pos = [0, 2, 4, 6, 9, 11, 14, 16, 19, 21, 24, 26, 28, 30, 32, 34]"

definition hash_pos :: "nat list" where
  "hash_pos = map (\<lambda>i. 2 * i) [0..<16]"

definition uuid_body :: "string \<Rightarrow> uuid res" where
  "uuid_body s =
     (if length s = 36 then
        (if s ! 8 \<noteq> CHR ''-'' \<or> s ! 13 \<noteq> CHR ''-'' \<or> s ! 18 \<noteq> CHR ''-'' \<or> s ! 23 \<noteq> CHR ''-''
         then Err (Msg ''uuid: incorrect UUID format in string'')
         else hex_at s canonical_pos)
      else hex_at s hash_pos)"

definition uuid_parse :: "string \<Rightarrow> uuid res" where
  "uuid_parse s =
     (if length s = 32 \<or> length s = 36 then uuid_body s
      else if length s = 34 \<or> length s = 38 then
        (if s ! 0 \<noteq> CHR ''{'' \<or> s ! (length s - 1) \<noteq> CHR ''}''
         then Err (Msg ''uuid: incorrect UUID format in string'')
         else uuid_body (take (length s - 2) (drop 1 s)))
      else if length s = 41 \<or> length s = 45 then
        (if take 9 s \<noteq> ''urn:uuid:'' then Err (Msg ''uuid: incorrect UUID format in string'')
         else uuid_body (drop 9 s))
      else Err (Msg ''uuid: incorrect UUID length''))"

definition setVersion :: "byte \<Rightarrow> uuid \<Rightarrow> uuid" where
  "setVersion v u = u[6 := (u ! 6 AND 0x0f) OR push_bit 4 v]"

definition setVariant :: "byte \<Rightarrow> uuid \<Rightarrow> uuid" where
  "setVariant v u = u[8 :=
     (if v = 0 then (u ! 8 AND 0x7f) OR 0x00
      else if v = 1 then (u ! 8 AND 0x3f) OR 0x80
      else if v = 2 then (u ! 8 AND 0x1f) OR 0xc0
      else (u ! 8 AND 0x1f) OR 0xe0)]"

definition newFromHash :: "(bytes \<Rightarrow> bytes) \<Rightarrow> uuid \<Rightarrow> string \<Rightarrow> uuid" where
  "newFromHash h ns name = go_copy (replicate 16 0) (h (ns @ s2b name))"

definition newV5 :: "(bytes \<Rightarrow> bytes) \<Rightarrow> uuid \<Rightarrow> string \<Rightarrow> uuid" where
  "newV5 sha1 ns name = setVariant 1 (setVersion 5 (newFromHash sha1 ns name))"

definition uuidMap :: "(bytes \<Rightarrow> bytes) \<Rightarrow> string \<Rightarrow> uuid" where
  "uuidMap sha1 str = (case uuid_parse str of
     Inl _ \<Rightarrow> newV5 sha1 (replicate 16 0) str | Inr u \<Rightarrow> u)"

section \<open>The VLESS request\<close>

definition VAtypIPv4 :: byte where "VAtypIPv4 = 1"
definition VAtypDomainName :: byte where "VAtypDomainName = 2"
definition VAtypIPv6 :: byte where "VAtypIPv6 = 3"

lemmas vatyp_defs = VAtypIPv4_def VAtypDomainName_def VAtypIPv6_def

record dstAddr =
  dUDP :: bool
  dAddrType :: byte
  dAddr :: bytes
  dPort :: nat

definition vless_request :: "uuid \<Rightarrow> dstAddr \<Rightarrow> bytes" where
  "vless_request u d =
     [0] @ u @ [0] @ [if dUDP d then 2 else 1] @ put_be16 (word_of_nat (dPort d))
       @ [dAddrType d] @ dAddr d"

definition vless_sendRequest :: "uuid \<Rightarrow> dstAddr \<Rightarrow> unit io" where
  "vless_sendRequest u d = io_write (vless_request u d)"

text \<open>\<open>recvResponse\<close>: the addon bytes are discarded, and an early end while discarding is ignored.\<close>

definition vless_recvResponse :: "unit io" where
  "vless_recvResponse =
     io_bind (io_read 1) (\<lambda>v.
       if hd v \<noteq> 0 then io_err (Msg ''unexpected response version'')
       else io_bind (io_read 1) (\<lambda>l.
         (\<lambda>c. (Ok (), c\<lparr>rd := drop (unat (hd l)) (rd c)\<rparr>))))"

text \<open>\<open>Conn.Read\<close> of \<open>n\<close> bytes: the response header is consumed before the first read. The flag is
  \<open>received\<close>.\<close>

definition vless_read :: "nat \<Rightarrow> bool \<Rightarrow> (bytes \<times> bool) io" where
  "vless_read n received =
     (if received then io_bind (io_read n) (\<lambda>x. io_ret (x, True))
      else io_bind vless_recvResponse (\<lambda>_. io_bind (io_read n) (\<lambda>x. io_ret (x, True))))"

text \<open>\<open>ReadAddr(conn)\<close>. The domain length is a byte and so is \<open>2 + domainLength\<close>, which is the upper
  bound of the slice that receives the name.\<close>

definition vless_readDomain :: "bytes \<Rightarrow> saddr io" where
  "vless_readDomain port =
     io_bind readByte (\<lambda>dl.
       let b = replicate (1 + 1 + unat dl + 2) (0 :: byte); up = unat (2 + dl) in
       io_bind (io_res (go_slice b 2 up)) (\<lambda>dst.
       io_bind (io_read (length dst)) (\<lambda>name.
         io_ret ([AtypDomainName, dl] @ name @ go_copy (drop up b) port))))"

definition vless_readIP :: "byte \<Rightarrow> nat \<Rightarrow> bytes \<Rightarrow> saddr io" where
  "vless_readIP t n port = io_bind (io_read n) (\<lambda>a. io_ret ([t] @ a @ port))"

definition vless_readAddr :: "saddr io" where
  "vless_readAddr =
     io_bind (io_read (1 + 16 + 1 + 1)) (\<lambda>_.
     io_bind (io_read (2 + 1)) (\<lambda>buf.
     let port = take 2 buf; t = buf ! 2 in
     io_bind
       (if t = VAtypDomainName then vless_readDomain port
        else if t = VAtypIPv4 then vless_readIP AtypIPv4 4 port
        else if t = VAtypIPv6 then vless_readIP AtypIPv6 16 port
        else io_err ErrAddressNotSupported) (\<lambda>addr.
     io_bind (io_write [0, 0]) (\<lambda>_. io_ret addr))))"

section \<open>The WLESS request\<close>

definition wless_request :: "string \<Rightarrow> bytes" where
  "wless_request addr = word_of_nat (length addr) # s2b addr"

definition wless_sendRequest :: "string \<Rightarrow> unit io" where
  "wless_sendRequest addr = io_write (wless_request addr)"

definition wless_readAddr :: "saddr io" where
  "wless_readAddr =
     io_bind readByte (\<lambda>len.
     io_bind (io_read (unat len)) (\<lambda>buf.
     io_bind (io_res (split_host_port (b2s buf))) (\<lambda>(host, p).
       (case atoi p of
          (_, Some e) \<Rightarrow> io_err e
        | (port, None) \<Rightarrow>
            io_ret ([AtypDomainName, word_of_nat (length host)] @ s2b host
                    @ put_be16 (word_of_int port))))))"

section \<open>UUID text forms\<close>

definition hex2 :: "byte \<Rightarrow> string" where
  "hex2 b = [hex_digits ! unat (drop_bit 4 b), hex_digits ! unat (b AND 15)]"

text \<open>The canonical text of 16 bytes and its plain hexadecimal form, as the specification of what
  \<open>Parse\<close> accepts.\<close>

definition hash_text :: "uuid \<Rightarrow> string" where
  "hash_text u = concat (map hex2 u)"

definition canonical_text :: "uuid \<Rightarrow> string" where
  "canonical_text u = hash_text (take 4 u) @ ''-'' @ hash_text (take 2 (drop 4 u)) @ ''-''
     @ hash_text (take 2 (drop 6 u)) @ ''-'' @ hash_text (take 2 (drop 8 u)) @ ''-''
     @ hash_text (drop 10 u)"

lemma fromHexChar_digit:
  assumes "n < 16" shows "fromHexChar (hex_digits ! n) = word_of_nat n"
proof -
  have "list_all (\<lambda>n. fromHexChar (hex_digits ! n) = word_of_nat n) [0..<16]"
    by code_simp
  then show ?thesis using assms by (simp add: list_all_iff del: upt.simps)
qed

lemma nibble_hi: "unat (drop_bit 4 (b :: byte)) < 16"
proof -
  have "unat (drop_bit 4 b) = drop_bit 4 (unat b)"
    by (rule unat_drop_bit_eq)
  also have "\<dots> = unat b div 16" by (simp add: drop_bit_eq_div)
  finally show ?thesis using unat_byte_less [of b] by simp
qed

lemma and_15_take_bit: "(b :: byte) AND 15 = take_bit 4 b"
  by (simp add: take_bit_eq_mask mask_eq_exp_minus_1)

lemma nibble_lo: "unat ((b :: byte) AND 15) < 16"
proof -
  have "b AND 15 \<le> 15" by (rule word_and_le1)
  then show ?thesis by (simp add: word_le_nat_alt)
qed

lemma nibbles_join: "push_bit 4 (drop_bit 4 b) OR (b AND 15) = (b :: byte)"
  unfolding and_15_take_bit by (rule bit_word_eqI) (auto simp: bit_simps)

lemma hex2_decode:
  "fromHexChar (hex_digits ! unat (drop_bit 4 b)) = drop_bit 4 b"
  "fromHexChar (hex_digits ! unat (b AND 15)) = b AND 15"
  by (simp_all add: fromHexChar_digit nibble_hi nibble_lo)

lemma nibbles_not_invalid: "drop_bit 4 b OR (b AND 15) \<noteq> (255 :: byte)"
proof
  assume "drop_bit 4 b OR (b AND 15) = (255 :: byte)"
  then have "bit (drop_bit 4 b OR (b AND 15)) 7 = bit (255 :: byte) 7" by simp
  moreover have "\<not> bit b 11" using bit_imp_le_length [of b 11] by auto
  ultimately show False by (simp add: bit_simps)
qed

lemma hex_at_step:
  "s ! x = hex_digits ! unat (drop_bit 4 b) \<Longrightarrow> s ! (x + 1) = hex_digits ! unat (b AND 15) \<Longrightarrow>
   hex_at s (x # xs) = rbind (hex_at s xs) (\<lambda>r. Ok (b # r))"
  by (simp add: Let_def hex2_decode nibbles_not_invalid nibbles_join)

lemma list16:
  assumes "length u = 16"
  obtains a0 a1 a2 a3 a4 a5 a6 a7 a8 a9 a10 a11 a12 a13 a14 a15
  where "u = [a0, a1, a2, a3, a4, a5, a6, a7, a8, a9, a10, a11, a12, a13, a14, a15]"
  using assms by (auto simp: numeral_eq_Suc length_Suc_conv)

lemma hex_at_canonical:
  assumes "length u = 16"
  shows "hex_at (canonical_text u) canonical_pos = Ok u"
proof -
  obtain a0 a1 a2 a3 a4 a5 a6 a7 a8 a9 a10 a11 a12 a13 a14 a15
    where u: "u = [a0, a1, a2, a3, a4, a5, a6, a7, a8, a9, a10, a11, a12, a13, a14, a15]"
    using list16 [OF assms] .
  show ?thesis
    by (simp add: u canonical_text_def hash_text_def hex2_def canonical_pos_def hex2_decode
        nibbles_not_invalid nibbles_join Let_def)
qed

lemma hash_pos_eq: "hash_pos = [0, 2, 4, 6, 8, 10, 12, 14, 16, 18, 20, 22, 24, 26, 28, 30]"
  by (simp add: hash_pos_def upt_rec)

lemma hex_at_hash:
  assumes "length u = 16"
  shows "hex_at (hash_text u) hash_pos = Ok u"
proof -
  obtain a0 a1 a2 a3 a4 a5 a6 a7 a8 a9 a10 a11 a12 a13 a14 a15
    where u: "u = [a0, a1, a2, a3, a4, a5, a6, a7, a8, a9, a10, a11, a12, a13, a14, a15]"
    using list16 [OF assms] .
  show ?thesis
    by (simp add: u hash_text_def hex2_def hash_pos_eq hex2_decode
        nibbles_not_invalid nibbles_join Let_def)
qed

lemma length_hash_text [simp]: "length (hash_text u) = 2 * length u"
  by (induction u) (simp_all add: hash_text_def hex2_def)

lemma length_canonical_text [simp]: "length u = 16 \<Longrightarrow> length (canonical_text u) = 36"
  by (simp add: canonical_text_def)

lemma uuid_body_hash: "length u = 16 \<Longrightarrow> uuid_body (hash_text u) = Ok u"
  by (simp add: uuid_body_def hex_at_hash)

lemma uuid_body_canonical:
  assumes "length u = 16" shows "uuid_body (canonical_text u) = Ok u"
proof -
  have "canonical_text u ! 8 = CHR ''-''" "canonical_text u ! 13 = CHR ''-''"
    "canonical_text u ! 18 = CHR ''-''" "canonical_text u ! 23 = CHR ''-''"
    using assms by (simp_all add: canonical_text_def nth_append)
  then show ?thesis using assms by (simp add: uuid_body_def hex_at_canonical)
qed

text \<open>A parsed UUID always has 16 bytes.\<close>

lemma hex_at_length: "hex_at s xs = Ok u \<Longrightarrow> length u = length xs"
  by (induction xs arbitrary: u) (auto simp: Let_def rbind_Ok_iff split: if_splits)

lemma uuid_body_length: "uuid_body s = Ok u \<Longrightarrow> length u = 16"
proof -
  have "length canonical_pos = 16" "length hash_pos = 16"
    by (simp_all add: canonical_pos_def hash_pos_def)
  then show "uuid_body s = Ok u \<Longrightarrow> length u = 16"
    by (auto simp: uuid_body_def dest: hex_at_length split: if_splits)
qed

lemma uuid_parse_length: "uuid_parse s = Ok u \<Longrightarrow> length u = 16"
  by (auto simp: uuid_parse_def dest: uuid_body_length split: if_splits)

lemma length_uuidMap [simp]: "length (uuidMap h s) = 16"
  by (auto simp: uuidMap_def newV5_def setVariant_def setVersion_def newFromHash_def uuid_parse_length
      split: sum.splits)

text \<open>Parse accepts the plain hexadecimal, canonical, braced and URN forms of a UUID, in any
  combination the code allows, and returns exactly its 16 bytes.\<close>

theorem uuid_parse_roundtrip:
  assumes "length u = 16"
  shows "uuid_parse (hash_text u) = Ok u \<and> uuid_parse (canonical_text u) = Ok u
    \<and> uuid_parse (''{'' @ hash_text u @ ''}'') = Ok u
    \<and> uuid_parse (''{'' @ canonical_text u @ ''}'') = Ok u
    \<and> uuid_parse (''urn:uuid:'' @ hash_text u) = Ok u
    \<and> uuid_parse (''urn:uuid:'' @ canonical_text u) = Ok u"
  using assms
  by (simp_all add: uuid_parse_def uuid_body_hash uuid_body_canonical nth_append)

theorem uuid_parse_roundtrip_witness:
  "uuid_parse (''urn:uuid:'' @ canonical_text (replicate 16 171)) = Ok (replicate 16 171)"
  using uuid_parse_roundtrip [of "replicate 16 171"] by simp

section \<open>Requests and replies\<close>

text \<open>The client's destination for an abstract one, as \<open>parseVlessAddr\<close> and \<open>stdConnectServer\<close>
  lay it out.\<close>

fun vless_dst :: "dest \<Rightarrow> dstAddr" where
  "vless_dst (Domain h p) = \<lparr>dUDP = False, dAddrType = VAtypDomainName,
     dAddr = word_of_nat (length h) # s2b h, dPort = unat p\<rparr>"
| "vless_dst (IP4 a p) = \<lparr>dUDP = False, dAddrType = VAtypIPv4, dAddr = a, dPort = unat p\<rparr>"
| "vless_dst (IP6 a p) = \<lparr>dUDP = False, dAddrType = VAtypIPv6, dAddr = a, dPort = unat p\<rparr>"

fun vless_ok :: "dest \<Rightarrow> bool" where
  "vless_ok (Domain h p) = (length h \<le> 253)"
| "vless_ok (IP4 a p) = (length a = 4)"
| "vless_ok (IP6 a p) = (length a = 16)"

lemma vless_header:
  assumes "length u = 16" "rd c = vless_request u d @ r"
  shows "io_read 19 c = (Inr ([0] @ u @ [0] @ [if dUDP d then 2 else 1]),
    c\<lparr>rd := put_be16 (word_of_nat (dPort d)) @ [dAddrType d] @ dAddr d @ r\<rparr>)"
  using assms by (intro io_read_append) (simp_all add: vless_request_def)

lemma vless_port:
  "rd c = put_be16 p @ [t] @ r \<Longrightarrow> io_read 3 c = (Inr (put_be16 p @ [t]), c\<lparr>rd := r\<rparr>)"
  by (intro io_read_append) simp_all

lemma vless_readDomain_ok:
  assumes "unat l = length h" "unat (2 + l) = length h + 2" "rd c = l # s2b h @ r"
  shows "vless_readDomain (put_be16 p) c
    = (Inr ([AtypDomainName, l] @ s2b h @ put_be16 p), c\<lparr>rd := r\<rparr>)"
proof -
  have "io_read (length h) (c\<lparr>rd := s2b h @ r\<rparr>) = (Inr (s2b h), c\<lparr>rd := r\<rparr>)"
    using io_read_append [of "c\<lparr>rd := s2b h @ r\<rparr>" "s2b h" r] by simp
  then show ?thesis
    using assms(1,3) by (simp add: vless_readDomain_def assms(2) go_slice_def go_copy_def Let_def)
qed

lemma domain_bound_ok:
  "n \<le> 253 \<Longrightarrow> unat (2 + word_of_nat n :: byte) = n + 2"
  by (simp add: unat_word_ariths unat_length_byte)

lemma vless_readIP_ok:
  "rd c = a @ r \<Longrightarrow> length a = n \<Longrightarrow> vless_readIP t n p c = (Inr ([t] @ a @ p), c\<lparr>rd := r\<rparr>)"
  by (simp add: vless_readIP_def)

lemma vless_request_read:
  assumes "length u = 16" and "vless_ok d" and "rd c = vless_request u (vless_dst d) @ payload"
    and "\<not> wbad c (length (wr c))"
  shows "vless_readAddr c = (Inr (dest_addr d), c\<lparr>rd := payload, wr := wr c @ [[0, 0]]\<rparr>)"
proof -
  note hd = vless_header [OF assms(1,3)]
  show ?thesis
  proof (cases d)
    case (Domain h p)
    then show ?thesis
      using assms vless_readDomain_ok [of "word_of_nat (length h)" h
          "c\<lparr>rd := word_of_nat (length h) # s2b h @ payload\<rparr>" payload p]
          domain_bound_ok [of "length h"] unat_length_byte [of "length h"]
      by (simp add: vless_readAddr_def hd vless_port vatyp_defs nth_append)
  next
    case (IP4 a p)
    then show ?thesis
      using assms vless_readIP_ok [of "c\<lparr>rd := a @ payload\<rparr>" a payload 4]
      by (simp add: vless_readAddr_def hd vless_port vatyp_defs nth_append)
  next
    case (IP6 a p)
    then show ?thesis
      using assms vless_readIP_ok [of "c\<lparr>rd := a @ payload\<rparr>" a payload 16]
      by (simp add: vless_readAddr_def hd vless_port vatyp_defs nth_append)
  qed
qed

text \<open>A destination that a VLESS client encodes (a name of at most 253 bytes, an IPv4 or an IPv6
  address, with its port) is decoded by the server's ReadAddr to the SOCKS address of the same
  destination, whatever UUID was sent; the payload after it is left unread and the two-byte reply
  is the only thing written.\<close>

theorem vless_request_roundtrip:
  assumes "length u = 16" and "vless_ok d" and "rd c = vless_request u (vless_dst d) @ payload"
    and "\<not> wbad c (length (wr c))"
  shows "vless_readAddr c = (Inr (dest_addr d), c\<lparr>rd := payload, wr := wr c @ [[0, 0]]\<rparr>)"
  using assms by (rule vless_request_read)

theorem vless_request_roundtrip_witness:
  "vless_readAddr (mk_conn (vless_request (replicate 16 7) (vless_dst (Domain ''a.io'' 443)) @ [9]))
   = (Inr (dest_addr (Domain ''a.io'' 443)), (mk_conn [9])\<lparr>wr := [[0, 0]]\<rparr>)"
proof -
  define c where "c = mk_conn (vless_request (replicate 16 7) (vless_dst (Domain ''a.io'' 443)) @ [9])"
  have "vless_readAddr c = (Inr (dest_addr (Domain ''a.io'' 443)), c\<lparr>rd := [9], wr := wr c @ [[0, 0]]\<rparr>)"
    by (rule vless_request_roundtrip [of "replicate 16 7"]) (simp_all add: c_def mk_conn_def)
  then show ?thesis by (simp add: c_def mk_conn_def)
qed

text \<open>A VLESS request whose domain name is 254 or 255 bytes long makes the server panic: the
  slice bound \<open>2 + domainLength\<close> is computed in eight bits and wraps to 0 or 1. No request of any
  other length reaches that branch.\<close>

theorem vless_long_domain_panics:
  assumes "length u = 16" and "254 \<le> length h" and "length h \<le> 255"
    and "rd c = vless_request u (vless_dst (Domain h p)) @ payload"
  shows "fst (vless_readAddr c) = Inl out_of_range"
proof -
  have n: "unat (word_of_nat (length h) :: byte) = length h"
    using assms(3) by (rule unat_length_byte)
  have "length h = 254 \<or> length h = 255" using assms(2,3) by arith
  then have up: "unat (2 + word_of_nat (length h) :: byte) < 2"
    using n by (auto simp: unat_word_ariths)
  show ?thesis
    using up by (simp add: vless_readAddr_def vless_header [OF assms(1,4)] vless_port vatyp_defs nth_append
      vless_readDomain_def go_slice_def Let_def)
qed

theorem vless_long_domain_panics_witness:
  "fst (vless_readAddr (mk_conn (vless_request (replicate 16 0)
      (vless_dst (Domain (replicate 254 CHR ''x'') 80)) @ []))) = Inl out_of_range"
  by (rule vless_long_domain_panics [of "replicate 16 0" "replicate 254 CHR ''x''" _ 80 "[]"])
    (simp_all add: mk_conn_def)

text \<open>The client's first read after the request skips the server's reply and returns the first
  bytes of the payload; later reads do not look for a reply again.\<close>

lemma vless_reply_skipped:
  assumes "rd c = [0, 0] @ x @ y" and "length x = n"
  shows "vless_read n False c = (Inr (x, True), c\<lparr>rd := y\<rparr>)"
    and "vless_read n True (c\<lparr>rd := x @ y\<rparr>) = (Inr (x, True), c\<lparr>rd := y\<rparr>)"
  using assms by (simp_all add: vless_read_def vless_recvResponse_def)

lemma wless_request_read:
  assumes "length s \<le> 255" "rd c = wless_request s @ r"
  shows "readByte c = (Inr (word_of_nat (length s)), c\<lparr>rd := s2b s @ r\<rparr>)"
    and "io_read (length s) (c\<lparr>rd := s2b s @ r\<rparr>) = (Inr (s2b s), c\<lparr>rd := r\<rparr>)"
  using assms io_read_append [of "c\<lparr>rd := s2b s @ r\<rparr>" "s2b s" r]
  by (simp_all add: wless_request_def)

lemma wless_request_accepted:
  assumes "plain_chars host" and "length (join_host_port host (itoa (unat (p :: 16 word)))) \<le> 255"
    and "rd c = wless_request (join_host_port host (itoa (unat p))) @ payload"
  shows "wless_readAddr c = (Inr (dest_addr (Domain host p)), c\<lparr>rd := payload\<rparr>)"
proof -
  let ?s = "join_host_port host (itoa (unat p))"
  have sp: "split_host_port ?s = Ok (host, itoa (unat p))"
    using assms(1) itoa_no_special by (intro split_join_host_port) (auto simp: plain_chars_def)
  have "unat p < 2 ^ 16" using unsigned_less [of p, where ?'a = nat] by simp
  then have "atoi (itoa (unat p)) = (int (unat p), None)" by (intro atoi_itoa) simp
  then show ?thesis
    using assms wless_request_read [OF assms(2,3)]
    by (simp add: wless_readAddr_def unat_length_byte sp)
qed

text \<open>A destination \<open>host:port\<close> of at most 255 bytes that a WLESS client sends is decoded by the
  server to the SOCKS domain address of that host and port, and the payload is left unread.\<close>

theorem wless_request_roundtrip:
  assumes "plain_chars host" and "length (join_host_port host (itoa (unat (p :: 16 word)))) \<le> 255"
    and "rd c = wless_request (join_host_port host (itoa (unat p))) @ payload"
  shows "wless_readAddr c = (Inr (dest_addr (Domain host p)), c\<lparr>rd := payload\<rparr>)"
  using assms by (rule wless_request_accepted)

theorem wless_request_roundtrip_witness:
  "wless_readAddr (mk_conn (wless_request (join_host_port ''a.io'' (itoa (unat (443 :: 16 word)))) @ [9]))
   = (Inr (dest_addr (Domain ''a.io'' 443)), (mk_conn [9]))"
proof -
  have "length (join_host_port ''a.io'' (itoa (unat (443 :: 16 word)))) \<le> 255"
    by (simp add: join_host_port_def itoa.simps)
  then show ?thesis
    using wless_request_roundtrip [of "''a.io''" 443
        "mk_conn (wless_request (join_host_port ''a.io'' (itoa (unat (443 :: 16 word)))) @ [9])" "[9]"]
    by (simp add: mk_conn_def plain_chars_def)
qed

end
