(* ===== verification/Mux.thy ===== *)
theory Mux
  imports Socks5
begin

text \<open>
  \<open>transport/mux\<close> (\<open>protocol.go\<close>, \<open>conn.go\<close>): the header a multiplexed connection starts with, the
  request and the status that each of its streams starts with, and the three connection wrappers
  that insert them into the first write. The session layer itself (\<open>smux\<close>) is a library.
\<close>

section \<open>Protocol header\<close>

record request =
  reqVersion :: byte
  reqProtocol :: byte

definition readProtoRequest :: "request io" where
  "readProtoRequest =
     io_bind readByte (\<lambda>v.
       if v < 0 \<or> 1 < v then io_err (Msg ''unsupported version'')
       else io_bind readByte (\<lambda>p. io_ret \<lparr>reqVersion = v, reqProtocol = p\<rparr>))"

definition encodeProtoRequest :: "request \<Rightarrow> bytes \<Rightarrow> bytes" where
  "encodeProtoRequest r payload = [reqVersion r, reqProtocol r] @ payload"

section \<open>Stream requests\<close>

record streamRequest =
  srNetwork :: string
  srDestination :: string

definition flagUDP :: "16 word" where "flagUDP = 1"

definition writeAddrPort :: "byte \<Rightarrow> string \<Rightarrow> 16 word \<Rightarrow> bytes" where
  "writeAddrPort t addr port =
     [t] @ (if t = AtypIPv4 then s2b addr @ put_be16 port
            else if t = AtypDomainName then [word_of_nat (length addr)] @ s2b addr @ put_be16 port
            else [])"

text \<open>Errors of \<open>SplitHostPort\<close> and \<open>Atoi\<close> are dropped: the host and port are then empty, and the
  port is the low 16 bits of whatever \<open>Atoi\<close> returned.\<close>

definition encodeStreamRequest :: "streamRequest \<Rightarrow> bytes" where
  "encodeStreamRequest r =
     (let flags = (if srNetwork r = ''udp'' then 0 OR flagUDP else 0);
          (addr, port) = (case split_host_port (srDestination r) of
              Inl _ \<Rightarrow> ([], []) | Inr hp \<Rightarrow> hp);
          v = fst (atoi port)
      in put_be16 flags @ writeAddrPort AtypDomainName addr (word_of_int v))"

definition readAddrPort :: "string io" where
  "readAddrPort =
     io_bind (io_read 1) (\<lambda>t.
       if hd t = AtypIPv4 then
         io_bind (io_read (4 + 2)) (\<lambda>b.
           io_ret (join_host_port (ip_string (take 4 b)) (itoa (unat (get_be16 (drop 4 b))))))
       else if hd t = AtypIPv6 then
         io_bind (io_read (16 + 2)) (\<lambda>b.
           io_ret (join_host_port (ip_string (take 16 b)) (itoa (unat (get_be16 (drop 16 b))))))
       else if hd t = AtypDomainName then
         io_bind (io_read 1) (\<lambda>l.
         io_bind (io_read (unat (hd l) + 2)) (\<lambda>b.
           io_ret (join_host_port (b2s (take (length b - 2) b))
                     (itoa (unat (get_be16 (drop (length b - 2) b)))))))
       else io_ret [])"

definition readStreamRequest :: "streamRequest io" where
  "readStreamRequest =
     io_bind (io_read 2) (\<lambda>f.
     io_bind readAddrPort (\<lambda>dest.
       io_ret \<lparr>srNetwork = (if get_be16 f AND flagUDP = 0 then ''tcp'' else ''udp''),
               srDestination = dest\<rparr>))"

text \<open>\<open>ReadStreamResponse\<close>: only the status; the message stays empty.\<close>

definition readStreamResponse :: "(byte \<times> string) io" where
  "readStreamResponse = io_bind readByte (\<lambda>s. io_ret (s, []))"

definition statusSuccess :: byte where "statusSuccess = 0"
definition statusError :: byte where "statusError = 1"

definition isSpecialFqdn :: "string \<Rightarrow> bool" where
  "isSpecialFqdn fqdn \<longleftrightarrow> fqdn = ''sp.mux.sing-box.arpa'' \<or> fqdn = ''v1.mux.cool''"

section \<open>Connection wrappers\<close>

text \<open>\<open>Write\<close> returns the number of bytes it reports as written; the flag is the wrapper's
  \<open>responseWritten\<close> or \<open>requestWritten\<close>.\<close>

definition conn_write :: "bytes \<Rightarrow> nat io" where
  "conn_write b = io_bind (io_write b) (\<lambda>_. io_ret (length b))"

definition serverConn_write :: "bytes \<Rightarrow> bool \<Rightarrow> (nat \<times> bool) io" where
  "serverConn_write b responseWritten =
     (if responseWritten then io_bind (conn_write b) (\<lambda>n. io_ret (n, True))
      else io_bind (conn_write (statusSuccess # b)) (\<lambda>_. io_ret (length b, True)))"

definition clientConn_write :: "string \<Rightarrow> bytes \<Rightarrow> bool \<Rightarrow> (nat \<times> bool) io" where
  "clientConn_write dest b requestWritten =
     (if requestWritten then io_bind (conn_write b) (\<lambda>n. io_ret (n, True))
      else io_bind (conn_write (encodeStreamRequest \<lparr>srNetwork = ''tcp'', srDestination = dest\<rparr> @ b))
             (\<lambda>_. io_ret (length b, True)))"

definition clientConn_readResponse :: "unit io" where
  "clientConn_readResponse =
     io_bind readStreamResponse (\<lambda>(status, message).
       if status = statusError then io_err (Msg (''remote error: '' @ message)) else io_ret ())"

definition clientConn_read :: "nat \<Rightarrow> bool \<Rightarrow> (bytes \<times> bool) io" where
  "clientConn_read n responseRead =
     (if responseRead then io_bind (io_read n) (\<lambda>x. io_ret (x, True))
      else io_bind clientConn_readResponse (\<lambda>_.
             io_bind (io_read n) (\<lambda>x. io_ret (x, True))))"

text \<open>\<open>protocolConn.Write\<close>: the error, the count and the flag are all set after the first write,
  also when it fails.\<close>

definition protocolConn_write ::
    "request \<Rightarrow> bytes \<Rightarrow> bool \<Rightarrow> conn \<Rightarrow> ((nat \<times> gerr option) \<times> bool) \<times> conn" where
  "protocolConn_write req p requestWritten c =
     (if requestWritten then
        (case conn_write p c of
           (Inl e, c') \<Rightarrow> (((0, Some e), True), c')
         | (Inr n, c') \<Rightarrow> (((n, None), True), c'))
      else
        (case conn_write (encodeProtoRequest req p) c of
           (Inl e, c') \<Rightarrow> (((0, Some e), True), c')
         | (Inr n, c') \<Rightarrow> (((n - 1, None), True), c')))"

text \<open>A sequence of writes through a wrapper.\<close>

fun write_all :: "(bytes \<Rightarrow> bool \<Rightarrow> (nat \<times> bool) io) \<Rightarrow> bytes list \<Rightarrow> bool \<Rightarrow> unit io" where
  "write_all w [] flag = io_ret ()"
| "write_all w (b # bs) flag = io_bind (w b flag) (\<lambda>(_, flag'). write_all w bs flag')"

section \<open>Wrappers that insert a header\<close>

text \<open>What the client's and the server's wrapper promise: the first write that succeeds is preceded,
  in the same write, by the header, no later one is, and every one reports the caller's length.\<close>

locale header_wrapper =
  fixes w :: "bytes \<Rightarrow> bool \<Rightarrow> (nat \<times> bool) io"
    and hdr :: bytes
  assumes first_write: "\<not> wbad c (length (wr c)) \<Longrightarrow>
      w b False c = (Inr (length b, True), c\<lparr>wr := wr c @ [hdr @ b]\<rparr>)"
    and later_write: "\<not> wbad c (length (wr c)) \<Longrightarrow>
      w b True c = (Inr (length b, True), c\<lparr>wr := wr c @ [b]\<rparr>)"
    and failed_write: "wbad c (length (wr c)) \<Longrightarrow> w b f c = (Inl ConnErr, c)"
begin

lemma write_all_later:
  "(\<And>i. \<not> wbad c i) \<Longrightarrow> write_all w bs True c = (Inr (), c\<lparr>wr := wr c @ bs\<rparr>)"
proof (induction bs arbitrary: c)
  case (Cons b bs)
  then show ?case
    using Cons.IH [of "c\<lparr>wr := wr c @ [b]\<rparr>"] later_write [of c b] by simp
qed simp

lemma write_all_first:
  assumes "\<And>i. \<not> wbad c i"
  shows "write_all w (b # bs) False c = (Inr (), c\<lparr>wr := wr c @ (hdr @ b) # bs\<rparr>)"
  using assms first_write [of c b] write_all_later [of "c\<lparr>wr := wr c @ [hdr @ b]\<rparr>" bs]
  by simp

lemma sent_first:
  assumes "\<And>i. \<not> wbad c i" "bs \<noteq> []"
  shows "sent (snd (write_all w bs False c)) = sent c @ hdr @ concat bs"
  using assms write_all_first [of c "hd bs" "tl bs"] by (cases bs) (simp_all add: sent_def)

text \<open>A write that fails leaves the header owed: the flag does not change.\<close>

lemma retry_keeps_header:
  assumes "wbad c (length (wr c))"
  shows "w b False c = (Inl ConnErr, c)"
    and "\<not> wbad d (length (wr d)) \<Longrightarrow> wr (snd (w b False d)) = wr d @ [hdr @ b]"
  using assms failed_write first_write [of d b] by simp_all

end

lemma io_write_bad [simp]: "wbad c (length (wr c)) \<Longrightarrow> io_write b c = (Inl ConnErr, c)"
  by (simp add: io_write_def)

lemma conn_write_run [simp]:
  "\<not> wbad c (length (wr c)) \<Longrightarrow> conn_write b c = (Inr (length b), c\<lparr>wr := wr c @ [b]\<rparr>)"
  "wbad c (length (wr c)) \<Longrightarrow> conn_write b c = (Inl ConnErr, c)"
  by (simp_all add: conn_write_def)

interpretation server_wrap: header_wrapper serverConn_write "[statusSuccess]"
  by unfold_locales (simp_all add: serverConn_write_def)

interpretation client_wrap: header_wrapper "clientConn_write dest"
    "encodeStreamRequest \<lparr>srNetwork = ''tcp'', srDestination = dest\<rparr>"
  by unfold_locales (simp_all add: clientConn_write_def)

section \<open>Facts about stream requests\<close>

text \<open>The requests an encoder can represent: a network of the two, and a name of at most 255 bytes
  without brackets.\<close>

definition stream_dest :: "string \<Rightarrow> 16 word \<Rightarrow> string" where
  "stream_dest h p = join_host_port h (itoa (unat p))"

definition stream_ok :: "streamRequest \<Rightarrow> bool" where
  "stream_ok r \<longleftrightarrow> (srNetwork r = ''tcp'' \<or> srNetwork r = ''udp'') \<and>
     (\<exists>h p. srDestination r = stream_dest h p \<and> plain_chars h \<and> length h \<le> 255)"

lemma stream_okI [intro]:
  "plain_chars h \<Longrightarrow> length h \<le> 255 \<Longrightarrow> n = ''tcp'' \<or> n = ''udp'' \<Longrightarrow>
   stream_ok \<lparr>srNetwork = n, srDestination = stream_dest h p\<rparr>"
  by (auto simp: stream_ok_def)

lemma unat_16_less: "unat (p :: 16 word) < 65536"
  using unsigned_less [of p, where ?'a = nat] by simp

lemma split_stream_dest:
  "plain_chars h \<Longrightarrow> split_host_port (stream_dest h p) = Ok (h, itoa (unat p))"
  unfolding stream_dest_def using itoa_no_special
  by (intro split_join_host_port) (auto simp: plain_chars_def)

lemma atoi_port [simp]: "atoi (itoa (unat (p :: 16 word))) = (int (unat p), None)"
  using unat_16_less [of p] by (intro atoi_itoa) simp

lemma encodeStreamRequest_eq:
  assumes "plain_chars h" "srDestination r = stream_dest h p"
  shows "encodeStreamRequest r = put_be16 (if srNetwork r = ''udp'' then 1 else 0)
     @ dest_addr (Domain h p)"
  using assms
  by (simp add: encodeStreamRequest_def split_stream_dest writeAddrPort_def flagUDP_def atyp_defs)

lemma readAddrPort_domain:
  assumes "length h \<le> 255" "rd c = dest_addr (Domain h p) @ r"
  shows "readAddrPort c = (Inr (stream_dest h p), c\<lparr>rd := r\<rparr>)"
proof -
  have "io_read (length h + 2) (c\<lparr>rd := s2b h @ put_be16 p @ r\<rparr>)
      = (Inr (s2b h @ put_be16 p), c\<lparr>rd := r\<rparr>)"
    using io_read_append [of "c\<lparr>rd := s2b h @ put_be16 p @ r\<rparr>" "s2b h @ put_be16 p" r] by simp
  then show ?thesis
    using assms by (simp add: readAddrPort_def unat_length_byte atyp_defs stream_dest_def)
qed

lemma readStreamRequest_encode:
  assumes "stream_ok q" "rd c = encodeStreamRequest q @ r"
  shows "readStreamRequest c = (Inr q, c\<lparr>rd := r\<rparr>)"
proof -
  obtain h p where hp: "srDestination q = stream_dest h p" "plain_chars h" "length h \<le> 255"
    and n: "srNetwork q = ''tcp'' \<or> srNetwork q = ''udp''"
    using assms(1) by (auto simp: stream_ok_def)
  let ?f = "(if srNetwork q = ''udp'' then 1 else 0) :: 16 word"
  have "io_read 2 c = (Inr (put_be16 ?f), c\<lparr>rd := dest_addr (Domain h p) @ r\<rparr>)"
    using assms(2) encodeStreamRequest_eq [OF hp(2,1)] by (intro io_read_append) simp_all
  moreover have "readAddrPort (c\<lparr>rd := dest_addr (Domain h p) @ r\<rparr>)
      = (Inr (stream_dest h p), c\<lparr>rd := r\<rparr>)"
    using readAddrPort_domain [of h "c\<lparr>rd := dest_addr (Domain h p) @ r\<rparr>" p r] hp by simp
  ultimately show ?thesis
    using n hp by (cases q) (auto simp: readStreamRequest_def flagUDP_def)
qed

text \<open>The instance of the wire-format interface: requests on a stream are self-delimiting.\<close>

definition dec_stream :: "bytes \<Rightarrow> (streamRequest \<times> bytes) res" where
  "dec_stream inp = (case readStreamRequest (mk_conn inp) of
     (Inl e, _) \<Rightarrow> Err e | (Inr q, c) \<Rightarrow> Ok (q, rd c))"

interpretation stream_codec: codec encodeStreamRequest dec_stream stream_ok
proof
  show "dec_stream (encodeStreamRequest x @ r) = Ok (x, r)" if "stream_ok x" for x r
    using readStreamRequest_encode [OF that, of "mk_conn (encodeStreamRequest x @ r)" r]
    by (simp add: dec_stream_def mk_conn_def)
  show "encodeStreamRequest x \<noteq> []" if "stream_ok x" for x
    by (simp add: encodeStreamRequest_def put_be16_def Let_def split: prod.splits)
qed

section \<open>Properties\<close>



text \<open>A client's request never outlives its bounds: requests written one after another to the same
  stream are read back one by one, each ending where the next begins.\<close>

theorem mux_requests_self_delimiting:
  assumes "\<And>q. q \<in> set qs \<Longrightarrow> stream_ok q"
  shows "dec_many dec_stream (length (concat (map encodeStreamRequest qs)))
           (concat (map encodeStreamRequest qs)) = Ok qs"
  using assms by (rule stream_codec.stream_roundtrip)

theorem mux_requests_self_delimiting_witness:
  "dec_many dec_stream (length (concat (map encodeStreamRequest
       [\<lparr>srNetwork = ''udp'', srDestination = stream_dest ''a'' 53\<rparr>,
        \<lparr>srNetwork = ''tcp'', srDestination = stream_dest ''::1'' 80\<rparr>])))
     (concat (map encodeStreamRequest
       [\<lparr>srNetwork = ''udp'', srDestination = stream_dest ''a'' 53\<rparr>,
        \<lparr>srNetwork = ''tcp'', srDestination = stream_dest ''::1'' 80\<rparr>])) =
   Ok [\<lparr>srNetwork = ''udp'', srDestination = stream_dest ''a'' 53\<rparr>,
       \<lparr>srNetwork = ''tcp'', srDestination = stream_dest ''::1'' 80\<rparr>]"
proof (rule mux_requests_self_delimiting)
  have p: "plain_chars ''a''" "plain_chars ''::1''" by (simp_all add: plain_chars_def)
  fix q assume "q \<in> set [\<lparr>srNetwork = ''udp'', srDestination = stream_dest ''a'' 53\<rparr>,
       \<lparr>srNetwork = ''tcp'', srDestination = stream_dest ''::1'' 80\<rparr>]"
  then show "stream_ok q"
    using p by (auto intro: stream_okI)
qed

text \<open>The protocol header is sent once and read back by the server, but the first write reports
  one byte more than the caller gave: the header has two bytes and only one is subtracted.\<close>

theorem mux_protocol_header:
  assumes "\<And>i. \<not> wbad c i" and "reqVersion req \<le> 1" and "rd d = encodeProtoRequest req p @ r"
  shows "protocolConn_write req p False c =
           (((length p + 1, None), True), c\<lparr>wr := wr c @ [encodeProtoRequest req p]\<rparr>) \<and>
         protocolConn_write req p True c = (((length p, None), True), c\<lparr>wr := wr c @ [p]\<rparr>) \<and>
         readProtoRequest d = (Inr req, d\<lparr>rd := p @ r\<rparr>)"
  using assms
  by (auto simp: protocolConn_write_def readProtoRequest_def encodeProtoRequest_def not_less)

theorem mux_protocol_header_witness:
  "protocolConn_write \<lparr>reqVersion = 0, reqProtocol = 0\<rparr> [5, 6] False (mk_conn []) =
     (((3, None), True), (mk_conn [])\<lparr>wr := [[0, 0, 5, 6]]\<rparr>)"
  using mux_protocol_header [of "mk_conn []" "\<lparr>reqVersion = 0, reqProtocol = 0\<rparr>"
      "mk_conn [0, 0, 5, 6]" "[5, 6]" "[]"]
  by (simp add: mk_conn_def encodeProtoRequest_def)

end
