(* ===== verification/Meta.thy ===== *)
theory Meta
  imports SocksFacts Vless Mux
begin

text \<open>
  The destination of a connection as the program carries it around: \<open>ctx/meta.go\<close> and
  \<open>ctx/conn.go\<close>, the inbound side that builds it from a SOCKS address or an HTTP request
  (\<open>transport/inbound\<close>), the dispatcher (\<open>transport/listener.go\<close>) and the outbound side that turns
  it into a VLESS or WLESS request (\<open>transport/outbound\<close>, with the modes of \<open>transport/wss\<close>).
\<close>

section \<open>Metadata\<close>

datatype ctype = HTTP | HTTPCONNECT | SOCKS5 | SHADOWSOCKS | OtherType nat

fun ctype_string :: "ctype \<Rightarrow> string" where
  "ctype_string HTTP = ''HTTP''"
| "ctype_string HTTPCONNECT = ''HTTP Connect''"
| "ctype_string SOCKS5 = ''Socks5''"
| "ctype_string SHADOWSOCKS = ''ShadowSocks''"
| "ctype_string (OtherType _) = ''Unknown''"

record metadata =
  mNetWork :: string
  mType :: ctype
  mSrcIP :: "bytes option"
  mDstIP :: "bytes option"
  mSrcPort :: "16 word"
  mDstPort :: "16 word"
  mHost :: string
  mOrigin :: string

definition empty_metadata :: metadata where
  "empty_metadata = \<lparr>mNetWork = [], mType = HTTP, mSrcIP = None, mDstIP = None, mSrcPort = 0,
     mDstPort = 0, mHost = [], mOrigin = []\<rparr>"

definition opt_ip_string :: "bytes option \<Rightarrow> string" where
  "opt_ip_string ip = (case ip of None \<Rightarrow> ''<nil>'' | Some i \<Rightarrow> ip_string i)"

definition meta_string :: "metadata \<Rightarrow> string" where
  "meta_string m =
     (if mHost m \<noteq> [] then mHost m
      else case mDstIP m of Some ip \<Rightarrow> ip_string ip | None \<Rightarrow> ''<nil>'')"

definition remoteAddress :: "metadata \<Rightarrow> string" where
  "remoteAddress m = join_host_port (meta_string m) (itoa (unat (mDstPort m)))"

definition sourceAddress :: "metadata \<Rightarrow> string" where
  "sourceAddress m = join_host_port (opt_ip_string (mSrcIP m)) (itoa (unat (mSrcPort m)))"

definition meta_valid :: "metadata \<Rightarrow> bool" where
  "meta_valid m \<longleftrightarrow> mHost m \<noteq> [] \<or> mDstIP m \<noteq> None"

definition addrType :: "metadata \<Rightarrow> byte" where
  "addrType m =
     (if mHost m \<noteq> [] \<or> mDstIP m = None then AtypDomainName
      else if ip_to4 (the (mDstIP m)) \<noteq> None then AtypIPv4
      else AtypIPv6)"

section \<open>Inbound\<close>

text \<open>\<open>parseSocksAddr\<close>. The index and slice expressions of the domain case are computed in a byte:
  \<open>2 + target[1]\<close> has the type of \<open>target[1]\<close>.\<close>

definition port_of :: "byte \<Rightarrow> byte \<Rightarrow> 16 word" where
  "port_of h l = word_of_nat (unat h * 256 + unat l)"

definition parseSocksAddr :: "saddr \<Rightarrow> metadata res" where
  "parseSocksAddr target =
     rbind (go_index target 0) (\<lambda>t.
       if t = AtypDomainName then
         rbind (go_index target 1) (\<lambda>l.
         rbind (go_slice target 2 (unat (2 + l))) (\<lambda>h.
         rbind (go_index target (unat (2 + l))) (\<lambda>p1.
         rbind (go_index target (unat (2 + l + 1))) (\<lambda>p2.
           Ok (empty_metadata\<lparr>mHost := trim_right (CHR ''.'') (b2s h), mDstPort := port_of p1 p2\<rparr>)))))
       else if t = AtypIPv4 then
         rbind (go_slice target 1 (1 + 4)) (\<lambda>ip.
         rbind (go_index target (1 + 4)) (\<lambda>p1.
         rbind (go_index target (1 + 4 + 1)) (\<lambda>p2.
           Ok (empty_metadata\<lparr>mDstIP := Some ip, mDstPort := port_of p1 p2\<rparr>))))
       else if t = AtypIPv6 then
         rbind (go_slice target 1 (1 + 16)) (\<lambda>ip.
         rbind (go_index target (1 + 16)) (\<lambda>p1.
         rbind (go_index target (1 + 16 + 1)) (\<lambda>p2.
           Ok (empty_metadata\<lparr>mDstIP := Some ip, mDstPort := port_of p1 p2\<rparr>))))
       else Ok empty_metadata)"

text \<open>A \<open>net.Addr\<close>: a TCP or UDP address, or one of another type, each with its text.\<close>

datatype netaddr = IPAddr "bytes option" int string | OtherAddr string

fun netaddr_string :: "netaddr \<Rightarrow> string" where
  "netaddr_string (IPAddr _ _ s) = s" | "netaddr_string (OtherAddr s) = s"

fun parseNetAddr :: "netaddr \<Rightarrow> (bytes option \<times> int) res" where
  "parseNetAddr (IPAddr ip port _) = Ok (ip, port)"
| "parseNetAddr (OtherAddr s) = Err (Msg (''unknown address type '' @ s))"

definition set_source :: "netaddr \<Rightarrow> metadata \<Rightarrow> metadata" where
  "set_source a m = (case parseNetAddr a of
     Inl _ \<Rightarrow> m | Inr (ip, port) \<Rightarrow> m\<lparr>mSrcIP := ip, mSrcPort := word_of_int port\<rparr>)"

definition newSocket :: "saddr \<Rightarrow> netaddr \<Rightarrow> netaddr \<Rightarrow> ctype \<Rightarrow> metadata res" where
  "newSocket target remote localA source =
     rbind (parseSocksAddr target) (\<lambda>m.
       Ok ((set_source remote (m\<lparr>mNetWork := ''tcp'', mType := source\<rparr>))\<lparr>mOrigin := netaddr_string localA\<rparr>))"

definition newHTTP :: "saddr \<Rightarrow> netaddr \<Rightarrow> netaddr option \<Rightarrow> metadata res" where
  "newHTTP target source originTarget =
     rbind (parseSocksAddr target) (\<lambda>m.
       let m1 = set_source source (m\<lparr>mNetWork := ''tcp'', mType := HTTP\<rparr>) in
       Ok (case originTarget of None \<Rightarrow> m1 | Some a \<Rightarrow> m1\<lparr>mOrigin := netaddr_string a\<rparr>))"

text \<open>\<open>URL.Hostname\<close> and \<open>URL.Port\<close> of \<open>net/url\<close>, on the host part of the URL.\<close>

definition valid_optional_port :: "string \<Rightarrow> bool" where
  "valid_optional_port p \<longleftrightarrow> p = [] \<or> (hd p = CHR '':'' \<and> list_all is_digit (tl p))"

definition url_split :: "string \<Rightarrow> string \<times> string" where
  "url_split hp =
     (let (host, port) = (case last_index_byte (CHR '':'') hp of
            Some i \<Rightarrow> if valid_optional_port (drop i hp) then (take i hp, drop (Suc i) hp) else (hp, [])
          | None \<Rightarrow> (hp, []))
      in (if has_prefix host ''['' \<and> has_suffix host '']'' then butlast (tl host) else host, port))"

definition emptyOr :: "string \<Rightarrow> string \<Rightarrow> string" where
  "emptyOr a b = (if a = [] then b else a)"

definition parseHTTPAddr :: "string \<Rightarrow> metadata" where
  "parseHTTPAddr urlHost =
     (let (hn, up) = url_split urlHost;
          port = fst (parse_uint 16 (emptyOr up ''80''));
          host = trim_right (CHR ''.'') hn;
          m = empty_metadata\<lparr>mNetWork := ''tcp'', mHost := host, mDstPort := word_of_nat port\<rparr>
      in (case parse_ip host of Some ip \<Rightarrow> m\<lparr>mDstIP := Some ip\<rparr> | None \<Rightarrow> m))"

definition newHTTPS :: "string \<Rightarrow> netaddr \<Rightarrow> netaddr \<Rightarrow> metadata" where
  "newHTTPS urlHost remote localA =
     (set_source remote ((parseHTTPAddr urlHost)\<lparr>mType := HTTPCONNECT\<rparr>))\<lparr>mOrigin := netaddr_string localA\<rparr>"

section \<open>Dispatch\<close>

definition preHandleMetadata :: "metadata \<Rightarrow> metadata" where
  "preHandleMetadata m = (case parse_ip (mHost m) of
     Some ip \<Rightarrow> m\<lparr>mDstIP := Some ip, mHost := []\<rparr> | None \<Rightarrow> m)"

text \<open>\<open>crc32.ChecksumIEEE\<close>, bit by bit.\<close>

fun crc32_bits :: "nat \<Rightarrow> 32 word \<Rightarrow> 32 word" where
  "crc32_bits 0 c = c"
| "crc32_bits (Suc n) c =
     crc32_bits n (if c AND 1 = 1 then drop_bit 1 c XOR 0xedb88320 else drop_bit 1 c)"

definition crc32_byte :: "32 word \<Rightarrow> byte \<Rightarrow> 32 word" where
  "crc32_byte c b = crc32_bits 8 (c XOR ucast b)"

definition crc32_ieee :: "bytes \<Rightarrow> 32 word" where
  "crc32_ieee bs = NOT (foldl crc32_byte (NOT 0) bs)"

definition resolveMetadata :: "'p list \<Rightarrow> metadata \<Rightarrow> 'p res" where
  "resolveMetadata proxies m =
     (if proxies = [] then Err (Panic ''integer divide by zero'')
      else Ok (proxies ! (unat (crc32_ieee (s2b (mHost m))) mod length proxies)))"

text \<open>\<open>handleTCPConn\<close> up to the dial: nothing for metadata without a destination, otherwise the proxy
  and the metadata it is asked to dial.\<close>

definition handleTCPConn :: "'p list \<Rightarrow> metadata \<Rightarrow> ('p \<times> metadata) option res" where
  "handleTCPConn proxies m =
     (if \<not> meta_valid m then Ok None
      else let m' = preHandleMetadata m in
        rbind (resolveMetadata proxies m') (\<lambda>p. Ok (Some (p, m'))))"

section \<open>Modes and options\<close>

definition ModeDirect :: string where "ModeDirect = ''direct''"
definition ModeForward :: string where "ModeForward = ''forward''"
definition ModeDirectMux :: string where "ModeDirectMux = ''directMux''"
definition ModeForwardMux :: string where "ModeForwardMux = ''forwardMux''"

lemmas mode_defs = ModeDirect_def ModeForward_def ModeDirectMux_def ModeForwardMux_def

definition isDirect :: "string \<Rightarrow> bool" where
  "isDirect m \<longleftrightarrow> m = ModeDirect \<or> m = ModeDirectMux"

definition isForward :: "string \<Rightarrow> bool" where
  "isForward m \<longleftrightarrow> m = ModeForward \<or> m = ModeForwardMux"

definition isMux :: "string \<Rightarrow> bool" where
  "isMux m \<longleftrightarrow> m = ModeDirectMux \<or> m = ModeForwardMux"

definition mode_mux :: "string \<Rightarrow> string" where
  "mode_mux m = (if isMux m then m else if m = ModeDirect then ModeDirectMux else ModeForwardMux)"

text \<open>\<open>handleOption\<close>: the mode the client will use, from the configured mode and the mux switch.\<close>

definition handleOption :: "string \<Rightarrow> bool \<Rightarrow> string" where
  "handleOption mode mux =
     (if isDirect mode then (if mux then ModeDirectMux else ModeDirect)
      else if isForward mode then (if mux then ModeForwardMux else ModeForward)
      else (if mux then ModeDirectMux else ModeDirect))"

section \<open>Outbound\<close>

text \<open>\<open>parseVlessAddr\<close>: \<open>copy(addr, DstIP)\<close> takes the first bytes of the address as it is stored,
  whatever its form.\<close>

definition parseVlessAddr :: "metadata \<Rightarrow> dstAddr" where
  "parseVlessAddr m =
     (let t = addrType m;
          ip = (case mDstIP m of None \<Rightarrow> [] | Some i \<Rightarrow> i);
          (at, a) = (if t = AtypIPv4 then (VAtypIPv4, go_copy (replicate 4 0) ip)
                     else if t = AtypIPv6 then (VAtypIPv6, go_copy (replicate 16 0) ip)
                     else (VAtypDomainName, word_of_nat (length (mHost m)) # s2b (mHost m)))
      in \<lparr>dUDP = False, dAddrType = at, dAddr = a, dPort = unat (mDstPort m)\<rparr>)"

definition mux_domain :: string where "mux_domain = ''sp.mux.sing-box.arpa''"

definition vless_mux_dst :: dstAddr where
  "vless_mux_dst = \<lparr>dUDP = False, dAddrType = VAtypDomainName,
     dAddr = word_of_nat (length mux_domain) # s2b mux_domain, dPort = 444\<rparr>"

definition wless_mux_dst :: string where
  "wless_mux_dst = mux_domain @ '':444''"

end
