(* ===== verification/MetaFacts.thy ===== *)
theory MetaFacts
  imports Meta
begin

text \<open>
  Properties of the destination's way through the program: what the inbound parser makes of a SOCKS
  address, that the server dials exactly what the client was asked for, over VLESS and over WLESS,
  where that fails, and which proxy a connection is given to.
\<close>

section \<open>The inbound parser\<close>

lemma port_of_put: "port_of (ucast (drop_bit 8 p)) (ucast p) = (p :: 16 word)"
proof -
  have "port_at (put_be16 p) 0 = unat p" by (rule port_bytes)
  then show ?thesis by (simp add: port_of_def port_at_def put_be16_def)
qed

fun meta_of :: "dest \<Rightarrow> metadata" where
  "meta_of (Domain h p) = empty_metadata\<lparr>mHost := trim_right (CHR ''.'') h, mDstPort := p\<rparr>"
| "meta_of (IP4 a p) = empty_metadata\<lparr>mDstIP := Some a, mDstPort := p\<rparr>"
| "meta_of (IP6 a p) = empty_metadata\<lparr>mDstIP := Some a, mDstPort := p\<rparr>"

lemma byte_add: "unat (2 + l :: byte) = (2 + unat l) mod 256" "unat (3 + l :: byte) = (3 + unat l) mod 256"
  by (simp_all add: unat_word_ariths mod_simps)

lemma nth_put_be16:
  "(x @ put_be16 p) ! length x = ucast (drop_bit 8 p)" "(x @ put_be16 p) ! Suc (length x) = ucast p"
  by (simp_all add: put_be16_def nth_append)

lemma parseSocksAddr_domain:
  assumes "length h \<le> 252"
  shows "parseSocksAddr (dest_addr (Domain h p)) = Ok (meta_of (Domain h p))"
proof -
  let ?l = "word_of_nat (length h) :: byte"
  let ?x = "AtypDomainName # ?l # s2b h"
  have u: "unat ?l = length h" using assms by (simp add: unat_length_byte)
  have b: "unat (2 + ?l) = Suc (Suc (length h))" "unat (3 + ?l) = Suc (Suc (Suc (length h)))"
    using assms by (simp_all add: byte_add u)
  have n: "(?x @ put_be16 p) ! Suc (Suc (length h)) = ucast (drop_bit 8 p)"
    "(?x @ put_be16 p) ! Suc (Suc (Suc (length h))) = ucast p"
    using nth_put_be16 [of ?x p] by simp_all
  then show ?thesis
    using b by (simp add: parseSocksAddr_def go_index_def go_slice_def port_of_put)
qed

lemma parseSocksAddr_ip4:
  "length a = 4 \<Longrightarrow> parseSocksAddr (dest_addr (IP4 a p)) = Ok (meta_of (IP4 a p))"
  using nth_put_be16 [of "AtypIPv4 # a" p]
  by (simp add: parseSocksAddr_def go_index_def go_slice_def port_of_put atyp_defs)

lemma parseSocksAddr_ip6:
  "length a = 16 \<Longrightarrow> parseSocksAddr (dest_addr (IP6 a p)) = Ok (meta_of (IP6 a p))"
  using nth_put_be16 [of "AtypIPv6 # a" p]
  by (simp add: parseSocksAddr_def go_index_def go_slice_def port_of_put atyp_defs)

text \<open>The destinations whose index arithmetic does not wrap.\<close>

fun meta_ok :: "dest \<Rightarrow> bool" where
  "meta_ok (Domain h p) = (length h \<le> 252)"
| "meta_ok (IP4 a p) = (length a = 4)"
| "meta_ok (IP6 a p) = (length a = 16)"

lemma parseSocksAddr_dest: "meta_ok d \<Longrightarrow> parseSocksAddr (dest_addr d) = Ok (meta_of d)"
  by (cases d) (simp_all only: meta_ok.simps parseSocksAddr_domain parseSocksAddr_ip4 parseSocksAddr_ip6)

text \<open>\<open>parseSocksAddr\<close> on a domain name of every possible length. Up to 252 bytes the metadata has
  the name without its trailing dots and the port; at 253 the index of the port's second byte
  wraps to 0 and the low byte of the port becomes 3; at 254 and 255 the slice bound wraps and
  the parser panics.\<close>

theorem parseSocksAddr_domain_lengths:
  assumes "length h \<le> 255"
  shows "parseSocksAddr (dest_addr (Domain h p)) =
    (if length h \<le> 252 then Ok (meta_of (Domain h p))
     else if length h = 253
     then Ok ((meta_of (Domain h p))\<lparr>mDstPort := port_of (ucast (drop_bit 8 p)) 3\<rparr>)
     else Err out_of_range)"
proof -
  let ?l = "word_of_nat (length h) :: byte"
  let ?x = "AtypDomainName # ?l # s2b h"
  have u: "unat ?l = length h" using assms by (simp add: unat_length_byte)
  consider "length h \<le> 252" | "length h = 253" | "length h = 254" | "length h = 255"
    using assms by linarith
  then show ?thesis
  proof cases
    case 1
    then show ?thesis using parseSocksAddr_domain by simp
  next
    case 2
    have b: "unat (2 + ?l) = 255" "unat (3 + ?l) = 0"
      using 2 u by (simp_all only: byte_add) simp_all
    have n: "(?x @ put_be16 p) ! 255 = ucast (drop_bit 8 p)"
      using nth_put_be16(1) [of ?x p] 2 by simp
    show ?thesis
      using b n 2 by (simp add: parseSocksAddr_def go_index_def go_slice_def AtypDomainName_def)
  next
    case 3
    have "unat (2 + ?l) = 0" using 3 u by (simp only: byte_add) simp
    then show ?thesis using 3 by (simp add: parseSocksAddr_def go_index_def go_slice_def)
  next
    case 4
    have "unat (2 + ?l) = 1" using 4 u by (simp only: byte_add) simp
    then show ?thesis using 4 by (simp add: parseSocksAddr_def go_index_def go_slice_def)
  qed
qed

theorem parseSocksAddr_domain_lengths_witness:
  "parseSocksAddr (dest_addr (Domain (replicate 253 CHR ''a'') 443)) =
     Ok ((meta_of (Domain (replicate 253 CHR ''a'') 443))\<lparr>mDstPort := port_of 1 3\<rparr>)"
  using parseSocksAddr_domain_lengths [of "replicate 253 CHR ''a''" 443] by simp

section \<open>End to end\<close>

lemma newSocket_remote:
  assumes "parseSocksAddr t = Ok m"
  shows "\<exists>m'. newSocket t ra la s = Ok m' \<and> remoteAddress m' = remoteAddress m \<and> mHost m' = mHost m"
  using assms
  by (simp add: newSocket_def set_source_def remoteAddress_def meta_string_def split: sum.splits)

text \<open>The destination of a request made for metadata, when the metadata has a host name without a
  trailing dot, an IPv4 address in its 4-byte form, or a genuine IPv6 address.\<close>

definition dest_of_meta :: "metadata \<Rightarrow> dest" where
  "dest_of_meta m =
     (if mHost m \<noteq> [] then Domain (mHost m) (mDstPort m)
      else if length (the (mDstIP m)) = 4 then IP4 (the (mDstIP m)) (mDstPort m)
      else IP6 (the (mDstIP m)) (mDstPort m))"

definition vless_meta_ok :: "metadata \<Rightarrow> bool" where
  "vless_meta_ok m \<longleftrightarrow>
     (mHost m \<noteq> [] \<and> length (mHost m) \<le> 252 \<and> last (mHost m) \<noteq> CHR ''.'') \<or>
     (mHost m = [] \<and> (\<exists>ip. mDstIP m = Some ip
        \<and> (length ip = 4 \<or> (length ip = 16 \<and> ip_to4 ip = None))))"

lemma parseVlessAddr_dst:
  assumes "vless_meta_ok m"
  shows "parseVlessAddr m = vless_dst (dest_of_meta m)"
  using assms
  by (auto simp: vless_meta_ok_def parseVlessAddr_def addrType_def dest_of_meta_def atyp_defs ip_to4_def
      go_copy_def Let_def)

lemma dest_of_meta_ok:
  assumes "vless_meta_ok m"
  shows "vless_ok (dest_of_meta m)" "meta_ok (dest_of_meta m)"
    "remoteAddress (meta_of (dest_of_meta m)) = remoteAddress m"
  using assms
  by (auto simp: vless_meta_ok_def dest_of_meta_def remoteAddress_def meta_string_def trim_right_idle
      empty_metadata_def)





lemma copy_mapped: "go_copy (replicate 4 0) (v4_prefix @ x) = [0, 0, 0, 0]"
  by (simp add: go_copy_def v4_prefix_def numeral_eq_Suc)

text \<open>An IPv4 literal that reaches the dispatcher as a host name (an HTTP proxy request, a SOCKS
  domain that is an IP) is misdirected over VLESS: the parsed address has its 16-byte form, the
  request takes the first four bytes of it, and the server is asked to connect to 0.0.0.0, while
  the metadata itself still names the right address.\<close>

theorem vless_ipv4_literal_misdirected:
  "(let m' = preHandleMetadata (m\<lparr>mHost := dotted a b c d\<rparr>) in
      meta_string m' = dotted a b c d
      \<and> parseVlessAddr m' = vless_dst (IP4 [0, 0, 0, 0] (mDstPort m)))"
  by (simp add: preHandleMetadata_def parse_ip_dotted meta_string_def ip_string_mapped parseVlessAddr_def
      addrType_def ip_to4_mapped copy_mapped Let_def)

section \<open>Dispatch\<close>

lemma preHandle_host:
  "mHost m2 = mHost m \<Longrightarrow> mHost (preHandleMetadata m2) = mHost (preHandleMetadata m)"
  by (simp add: preHandleMetadata_def split: option.splits)

lemma crc32_empty: "crc32_ieee [] = 0"
  by (simp add: crc32_ieee_def)

text \<open>With at least one proxy registered every valid connection is given to a registered proxy and
  dispatch never panics; the choice depends on the host name alone, and all connections to IP
  literals go to the first proxy, because the host is blanked before it is hashed. Without
  proxies a valid connection divides by zero.\<close>

theorem dispatch_total:
  "(meta_valid m \<and> proxies \<noteq> [] \<longrightarrow>
      (\<exists>p m'. handleTCPConn proxies m = Ok (Some (p, m')) \<and> p \<in> set proxies \<and> mDstPort m' = mDstPort m
         \<and> (parse_ip (mHost m) \<noteq> None \<longrightarrow> p = proxies ! 0)
         \<and> (\<forall>m2. meta_valid m2 \<and> mHost m2 = mHost m \<longrightarrow>
              (\<exists>m3. handleTCPConn proxies m2 = Ok (Some (p, m3)))))) \<and>
   (meta_valid m \<and> proxies = [] \<longrightarrow> is_panic (handleTCPConn proxies m)) \<and>
   (\<not> meta_valid m \<longrightarrow> handleTCPConn proxies m = Ok None)"
proof (intro conjI)
  show "meta_valid m \<and> proxies \<noteq> [] \<longrightarrow>
      (\<exists>p m'. handleTCPConn proxies m = Ok (Some (p, m')) \<and> p \<in> set proxies \<and> mDstPort m' = mDstPort m
         \<and> (parse_ip (mHost m) \<noteq> None \<longrightarrow> p = proxies ! 0)
         \<and> (\<forall>m2. meta_valid m2 \<and> mHost m2 = mHost m \<longrightarrow>
              (\<exists>m3. handleTCPConn proxies m2 = Ok (Some (p, m3)))))"
  proof (intro impI, elim conjE)
    assume v: "meta_valid m" "proxies \<noteq> []"
    let ?p = "proxies ! (unat (crc32_ieee (s2b (mHost (preHandleMetadata m)))) mod length proxies)"
    have run: "handleTCPConn proxies m2 = Ok (Some (?p, preHandleMetadata m2))"
      if "meta_valid m2" "mHost m2 = mHost m" for m2
      using that v preHandle_host [of m2 m] by (simp add: handleTCPConn_def resolveMetadata_def Let_def)
    have "?p \<in> set proxies" using v by simp
    moreover have "parse_ip (mHost m) \<noteq> None \<Longrightarrow> ?p = proxies ! 0"
      by (auto simp: preHandleMetadata_def crc32_empty)
    moreover have "mDstPort (preHandleMetadata m) = mDstPort m"
      by (simp add: preHandleMetadata_def split: option.splits)
    ultimately show "\<exists>p m'. handleTCPConn proxies m = Ok (Some (p, m')) \<and> p \<in> set proxies
         \<and> mDstPort m' = mDstPort m \<and> (parse_ip (mHost m) \<noteq> None \<longrightarrow> p = proxies ! 0)
         \<and> (\<forall>m2. meta_valid m2 \<and> mHost m2 = mHost m \<longrightarrow>
              (\<exists>m3. handleTCPConn proxies m2 = Ok (Some (p, m3))))"
      using run [OF v(1) refl] run by (intro exI [of _ ?p] exI [of _ "preHandleMetadata m"]) blast
  qed
  show "meta_valid m \<and> proxies = [] \<longrightarrow> is_panic (handleTCPConn proxies m)"
    by (simp add: handleTCPConn_def resolveMetadata_def Let_def)
  show "\<not> meta_valid m \<longrightarrow> handleTCPConn proxies m = Ok None"
    by (simp add: handleTCPConn_def)
qed

theorem dispatch_total_witness:
  "\<exists>m'. handleTCPConn [''p'', ''q''] (empty_metadata\<lparr>mHost := dotted 1 2 3 4\<rparr>) = Ok (Some (''p'', m'))"
proof -
  have "meta_valid (empty_metadata\<lparr>mHost := dotted 1 2 3 4\<rparr>)"
    by (simp add: meta_valid_def dotted_def)
  then show ?thesis
    using dispatch_total [of "empty_metadata\<lparr>mHost := dotted 1 2 3 4\<rparr>" "[''p'', ''q'']"]
    by (simp add: parse_ip_dotted) blast
qed

end
