(* ===== verification/Server.thy ===== *)
theory Server
  imports Meta
begin

text \<open>
  \<open>server.go\<close>: the routing of a request, the handlers that read a destination and dial it
  (\<open>directConnect\<close>, \<open>TCPVless\<close>, \<open>SS\<close>, and the agent's \<open>connectLocal\<close> of \<open>outbound/wless.go\<close>), and
  the rendezvous of \<open>forwardConnect\<close>, where two connections that arrive with the same code are
  joined. The rendezvous is a step relation on the shared state of the handlers: the critical
  sections under \<open>groupMux\<close> and the actions outside it are separate steps, so every interleaving
  of handlers is a run. A connection and its handler goroutine have the same number.
\<close>

section \<open>Routing\<close>

record http_request =
  hUpgrade :: string
  hProto :: string
  urlPath :: string
  qName :: string
  qCode :: string
  qMode :: string
  qRule :: string
  qProto :: string
  qClose :: string

datatype route = RHealth | RUpgrade | RTime | RVersionExit | RVersion | RDirect | RForward | RManage | RNone

definition serveHTTP :: "http_request \<Rightarrow> route" where
  "serveHTTP r =
     (if hUpgrade r \<noteq> ''websocket'' then
        (if has_suffix (urlPath r) ''/health'' then RHealth
         else if has_suffix (urlPath r) ''/upgrade'' then RUpgrade
         else if has_suffix (urlPath r) ''/time'' then RTime
         else if qClose r \<noteq> [] then RVersionExit
         else RVersion)
      else if isDirect (qMode r) then RDirect
      else if isForward (qMode r) then RForward
      else if qRule r = ''manager'' then RManage
      else RNone)"

section \<open>Serving a destination\<close>

definition Vless :: string where "Vless = ''Vless''"
definition Wless :: string where "Wless = ''Wless''"

definition connectProto :: "http_request \<Rightarrow> string" where
  "connectProto r = (if hProto r = [] then qProto r else hProto r)"

definition readAddrBy :: "string \<Rightarrow> saddr io" where
  "readAddrBy proto = (if proto = Vless then vless_readAddr else wless_readAddr)"

text \<open>What a handler does once the destination is known; \<open>CloseConn\<close> when it could not be read. A
  panic is not recovered from and stays an error.\<close>

datatype server_action = CloseConn | MuxServer | DialTcp string

definition serveAddr :: "saddr io \<Rightarrow> netaddr \<Rightarrow> netaddr \<Rightarrow> server_action io" where
  "serveAddr rdr remote localA c =
     (case rdr c of
        (Inl (Panic p), c') \<Rightarrow> (Err (Panic p), c')
      | (Inl e, c') \<Rightarrow> (Ok CloseConn, c')
      | (Inr addr, c') \<Rightarrow>
          (case newSocket addr remote localA SHADOWSOCKS of
             Inl e \<Rightarrow> (Err e, c')
           | Inr m \<Rightarrow> (Ok (if isSpecialFqdn (mHost m) then MuxServer else DialTcp (remoteAddress m)), c')))"

definition directConnect :: "http_request \<Rightarrow> netaddr \<Rightarrow> netaddr \<Rightarrow> server_action io" where
  "directConnect r = serveAddr (readAddrBy (connectProto r))"

definition tcpVless :: "netaddr \<Rightarrow> netaddr \<Rightarrow> server_action io" where
  "tcpVless = serveAddr vless_readAddr"

text \<open>\<open>SS\<close>, on the connection that the cipher returns.\<close>

definition serveSS :: "netaddr \<Rightarrow> netaddr \<Rightarrow> server_action io" where
  "serveSS = serveAddr readAddr0"

text \<open>\<open>connectLocal\<close> of the passive side.\<close>

definition connectLocal :: "string \<Rightarrow> netaddr \<Rightarrow> netaddr \<Rightarrow> server_action io" where
  "connectLocal proto = serveAddr (readAddrBy proto)"

definition connectLocal_mode :: "bool \<Rightarrow> string" where
  "connectLocal_mode mx = (if mx then ModeForwardMux else ModeForward)"

section \<open>The command-line client\<close>

text \<open>\<open>stdConnectServer\<close>: the mode, and the VLESS destination for a \<open>host:port\<close> (the error of \<open>Atoi\<close> is
  dropped).\<close>

definition std_mode :: "string \<Rightarrow> string \<Rightarrow> string" where
  "std_mode remoteName remoteAddr =
     (if remoteName = [] \<or> remoteName = remoteAddr then ModeDirect else ModeForward)"

definition std_vless_dst :: "string \<Rightarrow> dstAddr res" where
  "std_vless_dst remoteAddr = rbind (split_host_port remoteAddr) (\<lambda>(host, port).
     Ok \<lparr>dUDP = False, dAddrType = VAtypDomainName, dAddr = word_of_nat (length host) # s2b host,
         dPort = nat (fst (atoi port) mod 2 ^ 64)\<rparr>)"

section \<open>The rendezvous\<close>

type_synonym cid = nat

record pair_group =
  pconns :: "cid list"
  pdone :: bool

text \<open>Where the handler of a connection is: blocked on \<open>pair.done\<close>, inside \<open>Relay\<close> between two
  connections, between closing \<open>pair.done\<close> and deleting the code, or gone.\<close>

datatype hstate =
    Waiting nat
  | Relaying nat string cid cid
  | Closing nat string
  | Finished

record link = lkTo :: cid lkCode :: string lkMux :: bool lkProto :: string

record server =
  manageConn :: "string \<Rightarrow> cid option"
  groupConn :: "string \<Rightarrow> nat option"
  pairs :: "nat \<Rightarrow> pair_group"
  nextPair :: nat
  handlers :: "cid \<Rightarrow> hstate option"
  linksSent :: "link list"
  crashed :: bool

definition init_server :: server where
  "init_server = \<lparr>manageConn = Map.empty, groupConn = Map.empty,
     pairs = (\<lambda>_. \<lparr>pconns = [], pdone = False\<rparr>), nextPair = 0, handlers = Map.empty,
     linksSent = [], crashed = False\<rparr>"

definition forwardProto :: "http_request \<Rightarrow> string" where
  "forwardProto r = (if hProto r = Vless then Vless else if qProto r = Vless then Vless else Wless)"

text \<open>The critical section that pairs connection \<open>c\<close> under \<open>code\<close>.\<close>

definition pair_up :: "cid \<Rightarrow> string \<Rightarrow> server \<Rightarrow> server" where
  "pair_up c code s =
     (case groupConn s code of
        Some p \<Rightarrow>
          let g = (pairs s p)\<lparr>pconns := pconns (pairs s p) @ [c]\<rparr> in
          s\<lparr>pairs := (pairs s)(p := g),
            handlers := (handlers s)(c \<mapsto> Relaying p code (pconns g ! 0) (pconns g ! 1))\<rparr>
      | None \<Rightarrow>
          s\<lparr>pairs := (pairs s)(nextPair s := \<lparr>pconns = [c], pdone = False\<rparr>),
            groupConn := (groupConn s)(code \<mapsto> nextPair s), nextPair := nextPair s + 1,
            handlers := (handlers s)(c \<mapsto> Waiting (nextPair s))\<rparr>)"

text \<open>\<open>forwardConnect\<close> up to \<open>Relay\<close> or to the wait, for a connection that the active side opens with a
  name or that either side opens with a code; \<open>now\<close> is the code made from the time.\<close>

definition effective_code :: "http_request \<Rightarrow> string \<Rightarrow> string" where
  "effective_code r now = (if qName r \<noteq> [] then now else qCode r)"

definition forward_refused :: "http_request \<Rightarrow> server \<Rightarrow> bool" where
  "forward_refused r s \<longleftrightarrow> (qCode r = [] \<and> qName r = []) \<or> (qName r \<noteq> [] \<and> manageConn s (qName r) = None)"

definition forwardConnect :: "cid \<Rightarrow> http_request \<Rightarrow> string \<Rightarrow> server \<Rightarrow> server" where
  "forwardConnect c r now s =
     (if qCode r = [] \<and> qName r = [] then s\<lparr>handlers := (handlers s)(c \<mapsto> Finished)\<rparr>
      else if qName r \<noteq> [] then
        (case manageConn s (qName r) of
           None \<Rightarrow> s\<lparr>handlers := (handlers s)(c \<mapsto> Finished)\<rparr>
         | Some m \<Rightarrow> pair_up c now
             (s\<lparr>linksSent := linksSent s @ [\<lparr>lkTo = m, lkCode = now, lkMux = isMux (qMode r),
                                          lkProto = forwardProto r\<rparr>]\<rparr>))
      else pair_up c (qCode r) s)"

text \<open>\<open>Relay\<close> returned: its callback closes \<open>pair.done\<close> (closing it twice panics), then deletes the
  code.\<close>

definition relay_ends :: "cid \<Rightarrow> nat \<Rightarrow> string \<Rightarrow> server \<Rightarrow> server" where
  "relay_ends c p code s =
     (if pdone (pairs s p) then s\<lparr>crashed := True\<rparr>
      else s\<lparr>pairs := (pairs s)(p := (pairs s p)\<lparr>pdone := True\<rparr>),
             handlers := (handlers s)(c \<mapsto> Closing p code)\<rparr>)"

definition delete_code :: "cid \<Rightarrow> string \<Rightarrow> server \<Rightarrow> server" where
  "delete_code c code s =
     s\<lparr>groupConn := (groupConn s)(code := None), handlers := (handlers s)(c \<mapsto> Finished)\<rparr>"

definition wake :: "cid \<Rightarrow> server \<Rightarrow> server" where
  "wake c s = s\<lparr>handlers := (handlers s)(c \<mapsto> Finished)\<rparr>"

text \<open>\<open>manageConnect\<close>: registration, and the deferred removal when the channel closes.\<close>

definition manage_open :: "string \<Rightarrow> cid \<Rightarrow> server \<Rightarrow> server" where
  "manage_open name c s = s\<lparr>manageConn := (manageConn s)(name \<mapsto> c)\<rparr>"

definition manage_close :: "string \<Rightarrow> server \<Rightarrow> server" where
  "manage_close name s = s\<lparr>manageConn := (manageConn s)(name := None)\<rparr>"

datatype event =
    EArrive cid http_request string
  | ERelayEnds cid
  | EDelete cid
  | EWake cid
  | EManageOpen string cid
  | EManageClose string

inductive sstep :: "server \<Rightarrow> event \<Rightarrow> server \<Rightarrow> bool" where
  arrive: "\<not> crashed s \<Longrightarrow> handlers s c = None \<Longrightarrow>
     sstep s (EArrive c r now) (forwardConnect c r now s)"
| relayEnds: "\<not> crashed s \<Longrightarrow> handlers s c = Some (Relaying p code a b) \<Longrightarrow>
     sstep s (ERelayEnds c) (relay_ends c p code s)"
| delete: "\<not> crashed s \<Longrightarrow> handlers s c = Some (Closing p code) \<Longrightarrow>
     sstep s (EDelete c) (delete_code c code s)"
| wakeUp: "\<not> crashed s \<Longrightarrow> handlers s c = Some (Waiting p) \<Longrightarrow> pdone (pairs s p) \<Longrightarrow>
     sstep s (EWake c) (wake c s)"
| mOpen: "\<not> crashed s \<Longrightarrow> sstep s (EManageOpen name c) (manage_open name c s)"
| mClose: "\<not> crashed s \<Longrightarrow> sstep s (EManageClose name) (manage_close name s)"

inductive_cases sstepE: "sstep s e s'"
inductive_simps sstep_crashed: "sstep s e s'"

text \<open>Runs from the initial state, with the connections that were paired so far and the code each of
  them was paired under.\<close>

fun arrival :: "server \<Rightarrow> event \<Rightarrow> (cid \<times> string) list" where
  "arrival s (EArrive c r now) = (if forward_refused r s then [] else [(c, effective_code r now)])"
| "arrival s _ = []"

inductive srun :: "server \<Rightarrow> (cid \<times> string) list \<Rightarrow> bool" where
  start: "srun init_server []"
| step: "srun s h \<Longrightarrow> sstep s e s' \<Longrightarrow> srun s' (h @ arrival s e)"

end
