(* ===== verification/ServerFacts.thy ===== *)
theory ServerFacts
  imports Server MetaFacts
begin

text \<open>
  Properties of the rendezvous (which connections are ever joined, when the server can panic, that
  a finished relay frees its code and its partner) and of the handlers that dial.
\<close>

section \<open>Invariant of the rendezvous\<close>

text \<open>Every pair holds distinct connections that arrived under one code; a code points to such a pair; a
  relay joins the first two connections of its pair and is run by a later one; \<open>pair.done\<close> is
  closed only by a handler that has left its relay, and until then the connection that opened the
  pair waits.\<close>

definition pair_code :: "server \<Rightarrow> (cid \<times> string) list \<Rightarrow> nat \<Rightarrow> string \<Rightarrow> bool" where
  "pair_code s h p code \<longleftrightarrow> p < nextPair s \<and> pconns (pairs s p) \<noteq> []
     \<and> (\<forall>c \<in> set (pconns (pairs s p)). (c, code) \<in> set h)"

fun left_relay :: "nat \<Rightarrow> hstate option \<Rightarrow> bool" where
  "left_relay p (Some (Closing q code)) \<longleftrightarrow> q = p"
| "left_relay p (Some Finished) \<longleftrightarrow> True"
| "left_relay p _ \<longleftrightarrow> False"

definition rendezvous_inv :: "server \<Rightarrow> (cid \<times> string) list \<Rightarrow> bool" where
  "rendezvous_inv s h \<longleftrightarrow>
     distinct (map fst h)
   \<and> (\<forall>c. c \<in> fst ` set h \<longrightarrow> handlers s c \<noteq> None)
   \<and> (\<forall>code p. groupConn s code = Some p \<longrightarrow> pair_code s h p code)
   \<and> (\<forall>p < nextPair s. distinct (pconns (pairs s p)) \<and> (\<exists>code. pair_code s h p code))
   \<and> (\<forall>c p. handlers s c = Some (Waiting p) \<longrightarrow> p < nextPair s \<and> hd (pconns (pairs s p)) = c)
   \<and> (\<forall>c p code a b. handlers s c = Some (Relaying p code a b) \<longrightarrow> pair_code s h p code
        \<and> (\<exists>rest. pconns (pairs s p) = a # b # rest) \<and> c \<in> set (tl (pconns (pairs s p))))
   \<and> (\<forall>p. pdone (pairs s p) \<longrightarrow> p < nextPair s
        \<and> (\<exists>c \<in> set (tl (pconns (pairs s p))). left_relay p (handlers s c)))
   \<and> (\<forall>p < nextPair s. \<not> pdone (pairs s p) \<longrightarrow> handlers s (hd (pconns (pairs s p))) = Some (Waiting p))"

lemma rendezvous_invD:
  assumes "rendezvous_inv s h"
  shows "distinct (map fst h)"
    and "c \<in> fst ` set h \<Longrightarrow> handlers s c \<noteq> None"
    and "groupConn s code = Some p \<Longrightarrow> pair_code s h p code"
    and "q < nextPair s \<Longrightarrow> distinct (pconns (pairs s q))"
    and "q < nextPair s \<Longrightarrow> \<exists>code. pair_code s h q code"
    and "handlers s c = Some (Waiting p) \<Longrightarrow> p < nextPair s \<and> hd (pconns (pairs s p)) = c"
    and "handlers s c = Some (Relaying p code a b) \<Longrightarrow> pair_code s h p code
        \<and> (\<exists>rest. pconns (pairs s p) = a # b # rest) \<and> c \<in> set (tl (pconns (pairs s p)))"
    and "pdone (pairs s p) \<Longrightarrow> p < nextPair s
        \<and> (\<exists>c \<in> set (tl (pconns (pairs s p))). left_relay p (handlers s c))"
    and "q < nextPair s \<Longrightarrow> \<not> pdone (pairs s q) \<Longrightarrow> handlers s (hd (pconns (pairs s q))) = Some (Waiting q)"
  using assms unfolding rendezvous_inv_def by blast+

lemma pair_conn_known:
  assumes "rendezvous_inv s h" "p < nextPair s" "c \<in> set (pconns (pairs s p))"
  shows "handlers s c \<noteq> None"
proof -
  obtain code where "pair_code s h p code" using rendezvous_invD(5) [OF assms(1,2)] by blast
  then have "(c, code) \<in> set h" using assms(3) by (simp add: pair_code_def)
  then have "c \<in> fst ` set h" by force
  then show ?thesis by (rule rendezvous_invD(2) [OF assms(1)])
qed

lemma pair_codeD: "pair_code s h p code \<Longrightarrow> p < nextPair s \<and> pconns (pairs s p) \<noteq> []"
  by (simp add: pair_code_def)

lemma init_rendezvous: "rendezvous_inv init_server []"
  by (simp add: rendezvous_inv_def init_server_def)

text \<open>Steps that touch neither the pairs nor the codes.\<close>

lemma rendezvous_inv_handler:
  assumes inv: "rendezvous_inv s h"
    and free: "\<And>p. handlers s c = Some (Waiting p) \<Longrightarrow> pdone (pairs s p)"
  shows "rendezvous_inv (s\<lparr>handlers := (handlers s)(c \<mapsto> Finished)\<rparr>) h" (is "rendezvous_inv ?t h")
  unfolding rendezvous_inv_def
proof (intro conjI allI impI)
  note D = rendezvous_invD [OF inv]
  show "distinct (map fst h)" by (rule D(1))
  show "handlers ?t d \<noteq> None" if "d \<in> fst ` set h" for d
    using D(2) [OF that] by simp
  show "pair_code ?t h p code"
    if "groupConn ?t code = Some p" for code p
    using D(3) [of code p] that by (simp add: pair_code_def)
  show "distinct (pconns (pairs ?t p))"
    if "p < nextPair ?t" for p
    using D(4) [of p] that by simp
  show "\<exists>code. pair_code ?t h p code"
    if "p < nextPair ?t" for p
    using D(5) [of p] that by (simp add: pair_code_def)
  show "p < nextPair ?t"
    "hd (pconns (pairs ?t p)) = d"
    if "handlers ?t d = Some (Waiting p)" for d p
    using D(6) [of d p] that by (auto split: if_splits)
  show "pair_code ?t h p code"
    "\<exists>rest. pconns (pairs ?t p) = a # b # rest"
    "d \<in> set (tl (pconns (pairs ?t p)))"
    if "handlers ?t d = Some (Relaying p code a b)" for d p code a b
    using D(7) [of d p code a b] that by (auto simp: pair_code_def split: if_splits)
  show "p < nextPair ?t"
    if "pdone (pairs ?t p)" for p
    using D(8) [of p] that by simp
  show "\<exists>d\<in>set (tl (pconns (pairs ?t p))).
      left_relay p (handlers ?t d)"
    if pd: "pdone (pairs ?t p)" for p
  proof -
    obtain d where "d \<in> set (tl (pconns (pairs s p)))" "left_relay p (handlers s d)"
      using D(8) [of p] pd by auto
    then show ?thesis by (intro bexI [of _ d]) auto
  qed
  show "handlers ?t (hd (pconns (pairs ?t p))) = Some (Waiting p)"
    if "p < nextPair ?t" "\<not> pdone (pairs ?t p)" for p
    using that D(9) [of p] free [of p] by (auto split: if_splits)
qed

lemma rendezvous_inv_cong:
  assumes "rendezvous_inv s h" "pairs t = pairs s" "nextPair t = nextPair s" "handlers t = handlers s"
    "\<And>code p. groupConn t code = Some p \<Longrightarrow> groupConn s code = Some p"
  shows "rendezvous_inv t h"
  using assms unfolding rendezvous_inv_def pair_code_def by simp blast

lemma pair_code_mono:
  "pair_code s h p code \<Longrightarrow> pairs t p = pairs s p \<Longrightarrow> nextPair s \<le> nextPair t \<Longrightarrow> set h \<subseteq> set h' \<Longrightarrow>
   pair_code t h' p code"
  by (auto simp: pair_code_def)

lemma hd_tl_append: "xs \<noteq> [] \<Longrightarrow> tl (xs @ ys) = tl xs @ ys \<and> hd (xs @ ys) = hd xs"
  by (cases xs) auto

text \<open>The critical section of \<open>forwardConnect\<close>.\<close>

lemma pair_up_new:
  assumes inv: "rendezvous_inv s h" and fresh: "handlers s c = None" and g: "groupConn s code = None"
  shows "rendezvous_inv (pair_up c code s) (h @ [(c, code)])"
proof -
  note D = rendezvous_invD [OF inv]
  let ?h = "h @ [(c, code)]" and ?n = "nextPair s" and ?t = "pair_up c code s"
  have t: "?t = s\<lparr>pairs := (pairs s)(?n := \<lparr>pconns = [c], pdone = False\<rparr>),
            groupConn := (groupConn s)(code \<mapsto> ?n), nextPair := ?n + 1,
            handlers := (handlers s)(c \<mapsto> Waiting ?n)\<rparr>"
    using g by (simp add: pair_up_def)
  have nc: "c \<notin> fst ` set h" using D(2) [of c] fresh by blast
  have old: "pair_code ?t ?h p code'" if "pair_code s h p code'" for p code'
    using that by (rule pair_code_mono) (use pair_codeD [OF that] in \<open>auto simp: t\<close>)
  have new: "pair_code ?t ?h ?n code" by (simp add: pair_code_def t)
  show ?thesis
    unfolding rendezvous_inv_def
  proof (intro conjI allI impI)
    show "distinct (map fst ?h)" using D(1) nc by simp
    show "handlers ?t d \<noteq> None" if "d \<in> fst ` set ?h" for d
      using D(2) [of d] that by (auto simp: t)
    show "pair_code ?t ?h p code'" if "groupConn ?t code' = Some p" for code' p
      using that D(3) [of code' p] old new by (auto simp: t split: if_splits)
    show "distinct (pconns (pairs ?t p))" if "p < nextPair ?t" for p
      using that D(4) [of p] by (auto simp: t less_Suc_eq)
    show "\<exists>code. pair_code ?t ?h p code" if "p < nextPair ?t" for p
      using that D(5) [of p] old new by (auto simp: t less_Suc_eq)
    show "p < nextPair ?t" "hd (pconns (pairs ?t p)) = d" if "handlers ?t d = Some (Waiting p)" for d p
      using that D(6) [of d p] by (auto simp: t split: if_splits)
    show "pair_code ?t ?h p code'" "\<exists>rest. pconns (pairs ?t p) = a # b # rest"
      "d \<in> set (tl (pconns (pairs ?t p)))"
      if "handlers ?t d = Some (Relaying p code' a b)" for d p code' a b
      using that D(7) [of d p code' a b] old pair_codeD [of s h p code']
      by (auto simp: t split: if_splits)
    show "p < nextPair ?t" if "pdone (pairs ?t p)" for p
      using that D(8) [of p] by (auto simp: t split: if_splits)
    show "\<exists>d\<in>set (tl (pconns (pairs ?t p))). left_relay p (handlers ?t d)"
      if pd: "pdone (pairs ?t p)" for p
    proof -
      have p: "pdone (pairs s p)" "p \<noteq> ?n" using pd by (auto simp: t split: if_splits)
      then obtain d where d: "d \<in> set (tl (pconns (pairs s p)))" "left_relay p (handlers s d)"
        using D(8) [of p] by auto
      then have "d \<noteq> c" using fresh by auto
      then show ?thesis using d p by (intro bexI [of _ d]) (auto simp: t)
    qed
    show "handlers ?t (hd (pconns (pairs ?t p))) = Some (Waiting p)"
      if "p < nextPair ?t" "\<not> pdone (pairs ?t p)" for p
      using that D(9) [of p] fresh by (auto simp: t less_Suc_eq)
  qed
qed

lemma pair_up_join:
  assumes inv: "rendezvous_inv s h" and fresh: "handlers s c = None" and g: "groupConn s code = Some q"
  shows "rendezvous_inv (pair_up c code s) (h @ [(c, code)])"
proof -
  note D = rendezvous_invD [OF inv]
  let ?h = "h @ [(c, code)]" and ?t = "pair_up c code s" and ?P = "pconns (pairs s q)"
  have t: "?t = s\<lparr>pairs := (pairs s)(q := (pairs s q)\<lparr>pconns := ?P @ [c]\<rparr>),
            handlers := (handlers s)(c \<mapsto> Relaying q code ((?P @ [c]) ! 0) ((?P @ [c]) ! 1))\<rparr>"
    using g by (simp add: pair_up_def Let_def)
  have pc: "pair_code s h q code" using D(3) [OF g] .
  then have q: "q < nextPair s" "?P \<noteq> []" by (auto dest: pair_codeD)
  have nc: "c \<notin> fst ` set h" using D(2) [of c] fresh by blast
  have ncp: "c \<notin> set ?P" using pair_conn_known [OF inv q(1)] fresh by blast
  have ht: "tl (?P @ [c]) = tl ?P @ [c]" "hd (?P @ [c]) = hd ?P" using q(2) hd_tl_append by blast+
  have code_eq: "code' = code" if "pair_code s h q code'" for code'
  proof -
    have "(hd ?P, code) \<in> set h" "(hd ?P, code') \<in> set h"
      using pc that by (auto simp: pair_code_def)
    then show ?thesis using D(1) by (metis eq_key_imp_eq_value)
  qed
  have old: "pair_code ?t ?h p code'" if "pair_code s h p code'" for p code'
    using that code_eq [of code'] by (cases "p = q") (auto simp: pair_code_def t)
  have two: "\<exists>rest. ?P @ [c] = (?P @ [c]) ! 0 # (?P @ [c]) ! 1 # rest"
    using q(2) by (cases ?P; cases "tl ?P") auto
  show ?thesis
    unfolding rendezvous_inv_def
  proof (intro conjI allI impI)
    show "distinct (map fst ?h)" using D(1) nc by simp
    show "handlers ?t d \<noteq> None" if "d \<in> fst ` set ?h" for d
      using D(2) [of d] that by (auto simp: t)
    show "pair_code ?t ?h p code'" if "groupConn ?t code' = Some p" for code' p
      using that D(3) [of code' p] old by (auto simp: t)
    show "distinct (pconns (pairs ?t p))" if "p < nextPair ?t" for p
      using that D(4) [of p] ncp by (auto simp: t)
    show "\<exists>code. pair_code ?t ?h p code" if "p < nextPair ?t" for p
      using that D(5) [of p] old by (auto simp: t)
    show "p < nextPair ?t" "hd (pconns (pairs ?t p)) = d" if "handlers ?t d = Some (Waiting p)" for d p
      using that D(6) [of d p] ht by (auto simp: t split: if_splits)
    show "pair_code ?t ?h p code'" if "handlers ?t d = Some (Relaying p code' a b)" for d p code' a b
      using that D(7) [of d p code' a b] old pc by (auto simp: t split: if_splits)
    show "\<exists>rest. pconns (pairs ?t p) = a # b # rest"
      if "handlers ?t d = Some (Relaying p code' a b)" for d p code' a b
      using that D(7) [of d p code' a b] two by (auto simp: t split: if_splits)
    show "d \<in> set (tl (pconns (pairs ?t p)))"
      if "handlers ?t d = Some (Relaying p code' a b)" for d p code' a b
      using that D(7) [of d p code' a b] ht by (auto simp: t split: if_splits)
    show "p < nextPair ?t" if "pdone (pairs ?t p)" for p
      using that D(8) [of p] by (auto simp: t split: if_splits)
    show "\<exists>d\<in>set (tl (pconns (pairs ?t p))). left_relay p (handlers ?t d)"
      if pd: "pdone (pairs ?t p)" for p
    proof -
      have p: "pdone (pairs s p)" using pd by (auto simp: t split: if_splits)
      then obtain d where d: "d \<in> set (tl (pconns (pairs s p)))" "left_relay p (handlers s d)"
        using D(8) [of p] by auto
      then have "d \<noteq> c" using fresh by auto
      then show ?thesis using d ht by (intro bexI [of _ d]) (auto simp: t)
    qed
    show "handlers ?t (hd (pconns (pairs ?t p))) = Some (Waiting p)"
      if "p < nextPair ?t" "\<not> pdone (pairs ?t p)" for p
      using that D(9) [of p] fresh ht by (auto simp: t)
  qed
qed

lemma pair_up_inv:
  "rendezvous_inv s h \<Longrightarrow> handlers s c = None \<Longrightarrow> rendezvous_inv (pair_up c code s) (h @ [(c, code)])"
  using pair_up_new pair_up_join by (cases "groupConn s code") auto

lemma forwardConnect_inv:
  assumes "rendezvous_inv s h" "handlers s c = None"
  shows "rendezvous_inv (forwardConnect c r now s) (h @ arrival s (EArrive c r now))"
proof (cases "forward_refused r s")
  case True
  then show ?thesis
    using rendezvous_inv_handler [OF assms(1), of c] assms(2)
    by (auto simp: forwardConnect_def forward_refused_def)
next
  case False
  show ?thesis
  proof (cases "qName r = []")
    case True
    then show ?thesis
      using False pair_up_inv [OF assms, of "qCode r"]
      by (auto simp: forwardConnect_def forward_refused_def effective_code_def)
  next
    case named: False
    then obtain m where m: "manageConn s (qName r) = Some m"
      using False by (auto simp: forward_refused_def)
    let ?l = "\<lparr>lkTo = m, lkCode = now, lkMux = isMux (qMode r), lkProto = forwardProto r\<rparr>"
    have "rendezvous_inv (s\<lparr>linksSent := linksSent s @ [?l]\<rparr>) h"
      using assms(1) by (rule rendezvous_inv_cong) simp_all
    from pair_up_inv [OF this, of c now] show ?thesis
      using False named m assms(2)
      by (simp add: forwardConnect_def effective_code_def)
  qed
qed

lemma relay_ends_inv:
  assumes inv: "rendezvous_inv s h" and c: "handlers s c = Some (Relaying p code a b)"
    and nd: "\<not> pdone (pairs s p)"
  shows "rendezvous_inv (relay_ends c p code s) h" (is "rendezvous_inv ?t h")
proof -
  note D = rendezvous_invD [OF inv]
  have t: "?t = s\<lparr>pairs := (pairs s)(p := (pairs s p)\<lparr>pdone := True\<rparr>),
             handlers := (handlers s)(c \<mapsto> Closing p code)\<rparr>"
    using nd by (simp add: relay_ends_def)
  have pcs: "pconns (pairs ?t q) = pconns (pairs s q)" for q by (simp add: t)
  have pq: "p < nextPair s" and ctl: "c \<in> set (tl (pconns (pairs s p)))"
    using D(7) [OF c] by (auto dest: pair_codeD)
  have old: "pair_code ?t h q code'" if "pair_code s h q code'" for q code'
    using that by (simp add: pair_code_def pcs) (simp add: t)
  show ?thesis
    unfolding rendezvous_inv_def pcs
  proof (intro conjI allI impI)
    show "distinct (map fst h)" by (rule D(1))
    show "handlers ?t d \<noteq> None" if "d \<in> fst ` set h" for d
      using D(2) [OF that] by (simp add: t)
    show "pair_code ?t h q code'" if "groupConn ?t code' = Some q" for code' q
      using that D(3) [of code' q] old by (simp add: t)
    show "distinct (pconns (pairs s q))" if "q < nextPair ?t" for q
      using that D(4) [of q] by (simp add: t)
    show "\<exists>code. pair_code ?t h q code" if "q < nextPair ?t" for q
      using that D(5) [of q] old by (auto simp: t)
    show "q < nextPair ?t" "hd (pconns (pairs s q)) = d" if "handlers ?t d = Some (Waiting q)" for d q
      using that D(6) [of d q] by (auto simp: t split: if_splits)
    show "pair_code ?t h q code'" "\<exists>rest. pconns (pairs s q) = a' # b' # rest"
      "d \<in> set (tl (pconns (pairs s q)))"
      if "handlers ?t d = Some (Relaying q code' a' b')" for d q code' a' b'
      using that D(7) [of d q code' a' b'] old by (auto simp: t split: if_splits)
    show "q < nextPair ?t" if "pdone (pairs ?t q)" for q
      using that D(8) [of q] pq by (auto simp: t split: if_splits)
    show "\<exists>d\<in>set (tl (pconns (pairs s q))). left_relay q (handlers ?t d)"
      if pd: "pdone (pairs ?t q)" for q
    proof (cases "q = p")
      case True
      then show ?thesis using ctl by (intro bexI [of _ c]) (auto simp: t)
    next
      case False
      then obtain d where d: "d \<in> set (tl (pconns (pairs s q)))" "left_relay q (handlers s d)"
        using pd D(8) [of q] by (auto simp: t)
      then have "d \<noteq> c" using c by auto
      then show ?thesis using d by (intro bexI [of _ d]) (auto simp: t)
    qed
    show "handlers ?t (hd (pconns (pairs s q))) = Some (Waiting q)"
      if "q < nextPair ?t" "\<not> pdone (pairs ?t q)" for q
      using that D(9) [of q] c by (auto simp: t split: if_splits)
  qed
qed

text \<open>A crash needs three connections under one code.\<close>

definition arrivals_of :: "(cid \<times> string) list \<Rightarrow> string \<Rightarrow> nat" where
  "arrivals_of h code = length (filter (\<lambda>x. snd x = code) h)"

lemma arrivals_ge:
  assumes "distinct (map fst h)" "distinct cs" "\<And>c. c \<in> set cs \<Longrightarrow> (c, code) \<in> set h"
  shows "length cs \<le> arrivals_of h code"
proof -
  let ?f = "filter (\<lambda>x. snd x = code) h"
  have "set cs \<subseteq> fst ` set ?f" using assms(3) by force
  then have "card (set cs) \<le> card (fst ` set ?f)" by (intro card_mono) auto
  also have "\<dots> \<le> length ?f" by (metis card_length length_map set_map)
  finally show ?thesis using assms(2) by (simp add: distinct_card arrivals_of_def)
qed

lemma double_close_three:
  assumes inv: "rendezvous_inv s h" and c: "handlers s c = Some (Relaying p code a b)"
    and d: "pdone (pairs s p)"
  shows "3 \<le> arrivals_of h code"
proof -
  note D = rendezvous_invD [OF inv]
  have pc: "pair_code s h p code" and ct: "c \<in> set (tl (pconns (pairs s p)))"
    using D(7) [OF c] by auto
  then have dist: "distinct (pconns (pairs s p))" using D(4) pair_codeD by blast
  obtain e where e: "e \<in> set (tl (pconns (pairs s p)))" "left_relay p (handlers s e)"
    using D(8) [OF d] by auto
  then have "e \<noteq> c" using c by auto
  then have "card {c, e} \<le> card (set (tl (pconns (pairs s p))))"
    using e ct by (intro card_mono) auto
  then have "2 \<le> length (tl (pconns (pairs s p)))"
    using \<open>e \<noteq> c\<close> dist by (metis card_2_iff card_length le_trans)
  moreover have "length (pconns (pairs s p)) \<le> arrivals_of h code"
    using D(1) dist pc by (intro arrivals_ge) (auto simp: pair_code_def)
  ultimately show ?thesis by simp
qed

lemma arrivals_of_append: "arrivals_of h code \<le> arrivals_of (h @ x) code"
  by (simp add: arrivals_of_def)

lemma sstep_inv:
  assumes st: "sstep s e s'" and inv: "rendezvous_inv s h" and nc: "\<not> crashed s'"
  shows "rendezvous_inv s' (h @ arrival s e)"
  using st
proof cases
  case (arrive c r now)
  then show ?thesis using forwardConnect_inv [OF inv] by simp
next
  case (relayEnds c p code a b)
  then show ?thesis
    using nc relay_ends_inv [OF inv relayEnds(4)] by (simp add: relay_ends_def split: if_splits)
next
  case (delete c p code)
  have "rendezvous_inv (s\<lparr>groupConn := (groupConn s)(code := None)\<rparr>) h"
    using inv by (rule rendezvous_inv_cong) (auto split: if_splits)
  from rendezvous_inv_handler [OF this, of c] show ?thesis
    using delete by (simp add: delete_code_def)
next
  case (wakeUp c p)
  then show ?thesis using rendezvous_inv_handler [OF inv, of c] by (simp add: wake_def)
next
  case (mOpen name c)
  then show ?thesis using inv by (auto simp: manage_open_def intro: rendezvous_inv_cong)
next
  case (mClose name)
  then show ?thesis using inv by (auto simp: manage_close_def intro: rendezvous_inv_cong)
qed

lemma crash_step:
  assumes "sstep s e s'" "crashed s'" "rendezvous_inv s h"
  shows "\<exists>code. 3 \<le> arrivals_of h code"
  using assms(1)
proof cases
  case (relayEnds c p code a b)
  then have "pdone (pairs s p)" using assms(2) by (simp add: relay_ends_def split: if_splits)
  then show ?thesis using double_close_three [OF assms(3) relayEnds(4)] by blast
qed (use assms(2) in \<open>simp_all add: forwardConnect_def pair_up_def delete_code_def wake_def
      manage_open_def manage_close_def Let_def split: if_splits option.splits\<close>)

lemma srun_inv: "srun s h \<Longrightarrow> (\<not> crashed s \<longrightarrow> rendezvous_inv s h)
    \<and> (crashed s \<longrightarrow> (\<exists>code. 3 \<le> arrivals_of h code))"
proof (induction rule: srun.induct)
  case start
  then show ?case using init_rendezvous by (simp add: init_server_def)
next
  case (step s h e s')
  have nc: "\<not> crashed s" using step(2) by cases auto
  show ?case
  proof (intro conjI impI)
    show "rendezvous_inv s' (h @ arrival s e)" if "\<not> crashed s'"
      using sstep_inv [OF step(2) _ that] step.IH nc by blast
    show "\<exists>code. 3 \<le> arrivals_of (h @ arrival s e) code" if "crashed s'"
      using crash_step [OF step(2) that] step.IH nc arrivals_of_append le_trans by metis
  qed
qed

lemma no_crash_two:
  assumes "srun s h" and "\<And>code. arrivals_of h code \<le> 2"
  shows "\<not> crashed s \<and> rendezvous_inv s h"
proof -
  have "\<not> crashed s"
  proof
    assume "crashed s"
    then obtain code where "3 \<le> arrivals_of h code" using srun_inv [OF assms(1)] by blast
    then show False using assms(2) [of code] by simp
  qed
  then show ?thesis using srun_inv [OF assms(1)] by blast
qed

section \<open>Properties\<close>

text \<open>C9: Whatever the interleaving of the handlers, a relay joins two different connections that arrived
  under the same code, which is also the code the relay's own handler will delete; a waiting
  handler waits on the pair that its connection opened.\<close>

theorem rendezvous_joins_same_code:
  assumes "srun s h" and "\<not> crashed s"
  shows "(handlers s c = Some (Relaying p code a b) \<longrightarrow>
            a \<noteq> b \<and> (a, code) \<in> set h \<and> (b, code) \<in> set h \<and> (c, code) \<in> set h)
       \<and> (handlers s c = Some (Waiting p) \<longrightarrow> hd (pconns (pairs s p)) = c)
       \<and> distinct (map fst h)"
proof -
  have inv: "rendezvous_inv s h" using srun_inv [OF assms(1)] assms(2) by blast
  note D = rendezvous_invD [OF inv]
  have "a \<noteq> b \<and> (a, code) \<in> set h \<and> (b, code) \<in> set h \<and> (c, code) \<in> set h"
    if r: "handlers s c = Some (Relaying p code a b)"
  proof -
    obtain rest where P: "pconns (pairs s p) = a # b # rest" and pc: "pair_code s h p code"
      and c: "c \<in> set (tl (pconns (pairs s p)))"
      using D(7) [OF r] by auto
    have "distinct (pconns (pairs s p))" using D(4) pair_codeD [OF pc] by blast
    then show ?thesis using P pc c by (auto simp: pair_code_def)
  qed
  then show ?thesis using D(1,6) by blast
qed

text \<open>C10: The server does not panic in the rendezvous as long as no code is used by more than two
  connections.\<close>

theorem rendezvous_no_panic:
  assumes "srun s h" and "\<And>code. arrivals_of h code \<le> 2"
  shows "\<not> crashed s"
  using no_crash_two [OF assms] by blast

text \<open>Concrete runs: connections that arrive one after another with the code \<open>x\<close>.\<close>

definition code_request :: "string \<Rightarrow> http_request" where
  "code_request code = \<lparr>hUpgrade = ''websocket'', hProto = [], urlPath = ''/'', qName = [], qCode = code,
     qMode = ModeForward, qRule = [], qProto = [], qClose = []\<rparr>"

fun arrive_all :: "cid list \<Rightarrow> string \<Rightarrow> server \<Rightarrow> server" where
  "arrive_all [] code s = s"
| "arrive_all (c # cs) code s = arrive_all cs code (forwardConnect c (code_request code) [] s)"

lemma arrive_crashed [simp]: "crashed (forwardConnect c r now s) = crashed s"
  by (simp add: forwardConnect_def pair_up_def Let_def split: option.splits)

lemma arrive_handlers:
  "d \<noteq> c \<Longrightarrow> handlers (forwardConnect c r now s) d = handlers s d"
  by (simp add: forwardConnect_def pair_up_def Let_def split: option.splits)

lemma arrive_all_run:
  assumes "srun s h" "\<not> crashed s" "distinct cs" "\<And>c. c \<in> set cs \<Longrightarrow> handlers s c = None" "code \<noteq> []"
  shows "srun (arrive_all cs code s) (h @ map (\<lambda>c. (c, code)) cs)"
  using assms
proof (induction cs arbitrary: s h)
  case (Cons c cs)
  let ?s = "forwardConnect c (code_request code) [] s"
  have "srun ?s (h @ arrival s (EArrive c (code_request code) []))"
    using Cons.prems by (intro srun.step [OF _ sstep.arrive]) auto
  moreover have "arrival s (EArrive c (code_request code) []) = [(c, code)]"
    using Cons.prems by (simp add: forward_refused_def code_request_def effective_code_def)
  ultimately have "srun ?s (h @ [(c, code)])" by simp
  moreover have "handlers ?s d = None" if "d \<in> set cs" for d
    using that Cons.prems arrive_handlers [of d c] by force
  ultimately show ?case
    using Cons.IH [of ?s "h @ [(c, code)]"] Cons.prems by simp
qed simp

lemma run_two: "srun (arrive_all [0, 1] ''x'' init_server) [(0, ''x''), (1, ''x'')]"
  using arrive_all_run [OF srun.start, of "[0, 1]" "''x''"] by (simp add: init_server_def)

lemmas run_eval = forwardConnect_def pair_up_def code_request_def init_server_def Let_def
  relay_ends_def delete_code_def wake_def

theorem rendezvous_joins_same_code_witness:
  "handlers (arrive_all [0, 1] ''x'' init_server) 1 = Some (Relaying 0 ''x'' 0 1)
   \<and> (0, ''x'') \<in> set [(0 :: cid, ''x''), (1, ''x'')]"
proof -
  have s: "handlers (arrive_all [0, 1] ''x'' init_server) 1 = Some (Relaying 0 ''x'' 0 1)"
    "\<not> crashed (arrive_all [0, 1] ''x'' init_server)"
    by (simp_all add: run_eval)
  show ?thesis
    using rendezvous_joins_same_code [OF run_two s(2), of 1 0 "''x''" 0 1] s(1) by blast
qed

theorem rendezvous_no_panic_witness:
  "\<not> crashed (arrive_all [0, 1] ''x'' init_server)"
proof (rule rendezvous_no_panic [OF run_two])
  show "arrivals_of [(0, ''x''), (1, ''x'')] code \<le> 2" for code
    by (simp add: arrivals_of_def)
qed

text \<open>A third connection with a code that is being relayed makes the server panic: its handler relays
  the first two connections again and closes \<open>pair.done\<close> a second time. The run below is such a
  run: three arrivals, and the two relays ending.\<close>

theorem rendezvous_third_connection_panics:
  "\<exists>s h. srun s h \<and> crashed s \<and> arrivals_of h ''x'' = 3 \<and>
     handlers (arrive_all [0, 1, 2] ''x'' init_server) 2 = Some (Relaying 0 ''x'' 0 1)"
proof -
  let ?s = "arrive_all [0, 1, 2] ''x'' init_server"
  let ?s1 = "relay_ends 1 0 ''x'' ?s" and ?s2 = "relay_ends 2 0 ''x'' (relay_ends 1 0 ''x'' ?s)"
  have r: "srun ?s [(0, ''x''), (1, ''x''), (2, ''x'')]"
    using arrive_all_run [OF srun.start, of "[0, 1, 2]" "''x''"] by (simp add: init_server_def)
  have h: "handlers ?s 1 = Some (Relaying 0 ''x'' 0 1)" "handlers ?s1 2 = Some (Relaying 0 ''x'' 0 1)"
    "handlers ?s 2 = Some (Relaying 0 ''x'' 0 1)"
    and nc: "\<not> crashed ?s" "\<not> crashed ?s1" and cr: "crashed ?s2"
    by (simp_all add: run_eval)
  have "srun ?s1 ([(0, ''x''), (1, ''x''), (2, ''x'')] @ arrival ?s (ERelayEnds 1))"
    using r sstep.relayEnds [OF nc(1) h(1)] by (rule srun.step)
  then have "srun ?s2 (([(0, ''x''), (1, ''x''), (2, ''x'')] @ arrival ?s (ERelayEnds 1)) @ arrival ?s1 (ERelayEnds 2))"
    using sstep.relayEnds [OF nc(2) h(2)] by (rule srun.step)
  then have "srun ?s2 [(0, ''x''), (1, ''x''), (2, ''x'')]" by simp
  then show ?thesis using cr h(3) by (intro exI [of _ ?s2] exI conjI) (auto simp: arrivals_of_def)
qed

text \<open>C11: When no code is used by more than two connections, the end of a relay frees everything it
  held: its handler can close and delete the code without panicking, and after that the handler
  of the other connection, which was waiting all along, can finish too.\<close>

theorem rendezvous_completes:
  assumes "srun s h" and "\<And>code. arrivals_of h code \<le> 2"
    and "handlers s c = Some (Relaying p code a b)"
  shows "\<exists>s1 s2 s3. sstep s (ERelayEnds c) s1 \<and> sstep s1 (EDelete c) s2 \<and> sstep s2 (EWake a) s3
     \<and> groupConn s3 code = None \<and> handlers s3 c = Some Finished \<and> handlers s3 a = Some Finished
     \<and> \<not> crashed s3"
proof -
  have nc: "\<not> crashed s" and inv: "rendezvous_inv s h"
    using no_crash_two [OF assms(1,2)] by blast+
  note D = rendezvous_invD [OF inv]
  have nd: "\<not> pdone (pairs s p)"
    using double_close_three [OF inv assms(3)] assms(2) [of code] by auto
  obtain rest where "p < nextPair s" "pconns (pairs s p) = a # b # rest"
    using D(7) [OF assms(3)] by (auto dest: pair_codeD)
  then have w: "handlers s a = Some (Waiting p)" using D(9) [of p] nd by simp
  then have ac: "a \<noteq> c" using assms(3) by auto
  let ?s1 = "relay_ends c p code s" and ?s2 = "delete_code c code (relay_ends c p code s)"
  have s1: "?s1 = s\<lparr>pairs := (pairs s)(p := (pairs s p)\<lparr>pdone := True\<rparr>),
             handlers := (handlers s)(c \<mapsto> Closing p code)\<rparr>"
    using nd by (simp add: relay_ends_def)
  have "sstep s (ERelayEnds c) ?s1" using nc assms(3) by (rule sstep.relayEnds)
  moreover have "sstep ?s1 (EDelete c) ?s2"
    using nc by (intro sstep.delete [where p = p]) (simp_all add: s1)
  moreover have "sstep ?s2 (EWake a) (wake a ?s2)"
    using w nc ac by (intro sstep.wakeUp [where p = p]) (simp_all add: s1 delete_code_def)
  moreover have "groupConn (wake a ?s2) code = None \<and> handlers (wake a ?s2) c = Some Finished
      \<and> handlers (wake a ?s2) a = Some Finished \<and> \<not> crashed (wake a ?s2)"
    using nc by (simp add: wake_def s1 delete_code_def)
  ultimately show ?thesis by blast
qed

theorem rendezvous_completes_witness:
  "\<exists>s1 s2 s3. sstep (arrive_all [0, 1] ''x'' init_server) (ERelayEnds 1) s1 \<and> sstep s1 (EDelete 1) s2
     \<and> sstep s2 (EWake 0) s3 \<and> groupConn s3 ''x'' = None"
proof -
  let ?s = "arrive_all [0, 1] ''x'' init_server"
  have s: "handlers ?s 1 = Some (Relaying 0 ''x'' 0 1)"
    by (simp add: run_eval)
  have "arrivals_of [(0, ''x''), (1, ''x'')] code \<le> 2" for code
    by (simp add: arrivals_of_def)
  then show ?thesis using rendezvous_completes [OF run_two _ s] by blast
qed

section \<open>Handlers\<close>

lemma serveAddr_meta:
  assumes "rdr c = (Inr addr, c')" "newSocket addr ra la SHADOWSOCKS = Ok m"
  shows "serveAddr rdr ra la c
    = (Ok (if isSpecialFqdn (mHost m) then MuxServer else DialTcp (remoteAddress m)), c')"
  using assms by (simp add: serveAddr_def)

lemma newSocket_dest:
  assumes "meta_ok d"
  shows "\<exists>m. newSocket (dest_addr d) ra la SHADOWSOCKS = Ok m \<and> remoteAddress m = remoteAddress (meta_of d)
    \<and> mHost m = mHost (meta_of d)"
  using newSocket_remote [OF parseSocksAddr_dest [OF assms]] by blast

text \<open>The handler's decision for a destination.\<close>

definition decide :: "dest \<Rightarrow> server_action" where
  "decide d = (if isSpecialFqdn (mHost (meta_of d)) then MuxServer else DialTcp (remoteAddress (meta_of d)))"

lemma serveAddr_dest:
  assumes "rdr c = (Inr (dest_addr d), c')" "meta_ok d"
  shows "serveAddr rdr ra la c = (Ok (decide d), c')"
proof -
  obtain m where "newSocket (dest_addr d) ra la SHADOWSOCKS = Ok m" "remoteAddress m = remoteAddress (meta_of d)"
      "mHost m = mHost (meta_of d)"
    using newSocket_dest [OF assms(2)] by blast
  then show ?thesis using serveAddr_meta [of rdr c "dest_addr d" c' ra la m] assms(1)
    by (simp add: decide_def)
qed

lemma vless_ok_meta_ok: "vless_ok d \<Longrightarrow> meta_ok d \<or> (\<exists>h p. d = Domain h p \<and> length h = 253)"
  by (cases d) auto

text \<open>The three ways a destination can reach the server lead to the same decision. For a destination
  whose name has at most 252 bytes, a VLESS request on the websocket or on the plain TCP port, a
  WLESS request, and a SOCKS address on the shadowsocks port make the server dial the same
  address, or start a mux session when the name is one of the reserved ones, and leave the
  payload unread.\<close>

theorem server_decision_agrees:
  assumes "meta_ok d" and "length u = 16" and "connectProto r = Vless" and "connectProto r' \<noteq> Vless"
    and "plain_chars h" and "length h \<le> 252" and "length (join_host_port h (itoa (unat (p :: 16 word)))) \<le> 255"
  shows "fst (directConnect r ra la (mk_conn (vless_request u (vless_dst d) @ x))) = Ok (decide d)
     \<and> fst (tcpVless ra la (mk_conn (vless_request u (vless_dst d) @ x))) = Ok (decide d)
     \<and> serveSS ra la (mk_conn (dest_addr d @ x)) = (Ok (decide d), mk_conn x)
     \<and> directConnect r' ra la (mk_conn (wless_request (join_host_port h (itoa (unat p))) @ x))
         = (Ok (decide (Domain h p)), mk_conn x)"
proof -
  have vok: "vless_ok d" "dest_ok d" using assms(1) by (cases d; simp)+
  let ?c = "mk_conn (vless_request u (vless_dst d) @ x)"
  have v: "vless_readAddr ?c = (Inr (dest_addr d), ?c\<lparr>rd := x, wr := wr ?c @ [[0, 0]]\<rparr>)"
    using vok assms(2) by (intro vless_request_read) (simp_all add: mk_conn_def)
  have s: "readAddr0 (mk_conn (dest_addr d @ x)) = (Inr (dest_addr d), mk_conn x)"
    using readAddr0_wf [of "dest_addr d" "mk_conn (dest_addr d @ x)" x] vok(2) by (simp add: mk_conn_def)
  have w: "wless_readAddr (mk_conn (wless_request (join_host_port h (itoa (unat p))) @ x))
      = (Inr (dest_addr (Domain h p)), mk_conn x)"
    using wless_request_accepted [OF assms(5,7), of "mk_conn (wless_request (join_host_port h (itoa (unat p))) @ x)" x]
    by (simp add: mk_conn_def)
  show ?thesis
    using serveAddr_dest [of vless_readAddr, OF v assms(1), of ra la]
      serveAddr_dest [of readAddr0, OF s assms(1), of ra la]
      serveAddr_dest [of wless_readAddr, OF w, of ra la] assms(3,4,6)
    by (simp add: directConnect_def tcpVless_def serveSS_def readAddrBy_def)
qed

theorem server_decision_agrees_witness:
  "fst (tcpVless (OtherAddr []) (OtherAddr []) (mk_conn (vless_request (replicate 16 0)
      (vless_dst (Domain mux_domain 444)) @ [1]))) = Ok MuxServer
   \<and> directConnect (code_request []) (OtherAddr []) (OtherAddr [])
       (mk_conn (wless_request (join_host_port ''a.io'' (itoa (unat (80 :: 16 word)))) @ [1]))
     = (Ok (DialTcp ''a.io:80''), mk_conn [1])"
proof -
  have d: "decide (Domain mux_domain 444) = MuxServer"
    by (simp add: decide_def isSpecialFqdn_def mux_domain_def trim_right_def)
  have e: "decide (Domain ''a.io'' 80) = DialTcp ''a.io:80''"
    by (simp add: decide_def isSpecialFqdn_def trim_right_def remoteAddress_def meta_string_def
        join_host_port_def itoa.simps digit_char_def char_of_def empty_metadata_def bit_simps)
  have l: "meta_ok (Domain mux_domain 444)" "plain_chars ''a.io''"
    "length (join_host_port ''a.io'' (itoa (unat (80 :: 16 word)))) \<le> 255"
    by (simp_all add: mux_domain_def plain_chars_def join_host_port_def itoa.simps)
  have p: "connectProto (code_request []) \<noteq> Vless" "connectProto ((code_request [])\<lparr>hProto := Vless\<rparr>) = Vless"
    by (simp_all add: connectProto_def code_request_def Vless_def)
  show ?thesis
    using server_decision_agrees [OF l(1) _ p(2,1) l(2) _ l(3), of "replicate 16 0" "OtherAddr []" "OtherAddr []" "[1]"]
    by (simp add: d e)
qed

text \<open>The mode that a client ends up with is one the server routes: direct modes to the direct handler,
  forward modes and the agent's answering connection to the rendezvous, with the mux switch
  preserved, whatever was configured.\<close>

theorem modes_are_routed:
  "(hUpgrade r = ''websocket'' \<and> qMode r = handleOption m mx \<longrightarrow>
      serveHTTP r = (if isForward m then RForward else RDirect))
   \<and> (isMux (handleOption m mx) \<longleftrightarrow> mx)
   \<and> (hUpgrade r = ''websocket'' \<and> qMode r = connectLocal_mode mx \<longrightarrow> serveHTTP r = RForward)
   \<and> (hUpgrade r = ''websocket'' \<and> qMode r = std_mode name address \<longrightarrow>
        serveHTTP r = (if name = [] \<or> name = address then RDirect else RForward))
   \<and> isMux (mode_mux m) \<and> (hUpgrade r \<noteq> ''websocket'' \<longrightarrow> serveHTTP r \<notin> {RDirect, RForward, RManage})"
  by (simp add: serveHTTP_def handleOption_def isDirect_def isForward_def isMux_def mode_defs
      connectLocal_mode_def std_mode_def mode_mux_def)

theorem modes_are_routed_witness:
  "serveHTTP ((code_request [])\<lparr>qMode := handleOption ''forward'' True\<rparr>) = RForward"
  using modes_are_routed [of "(code_request [])\<lparr>qMode := handleOption ''forward'' True\<rparr>" "''forward''" True]
  by (simp add: code_request_def isForward_def mode_defs)

text \<open>An agent that connects again before the handler of its first channel has noticed the end is not registered any more when it
  does.\<close>

lemma manage_stale_close: "manageConn (manage_close name (manage_open name c' (manage_open name c s))) name = None"
  by (simp add: manage_close_def)

end
