(* ===== verification/Skiplist.thy ===== *)
theory Skiplist
  imports Prelude
begin

text \<open>
  \<open>transport/anytls/skiplist\<close> with ordered keys (\<open>NewSkipList\<close>), at the level of its pointers: a heap
  of nodes, the head's array of 40 links, the current level and the length. A link is a node
  address or \<open>nil\<close>. An index outside a node's link array is a panic, and the searching loops are
  recursive functions that may not end on a broken list; both are \<open>None\<close>, and the
  theorems show that neither happens. The random number is an argument of \<open>Insert\<close>.
\<close>

definition skipListMaxLevel :: nat where "skipListMaxLevel = 40"

record 'v node =
  nkey :: "64 word"
  nval :: 'v
  nnext :: "nat option list"

datatype ref = Head | Node nat

record 'v skiplist =
  slevel :: nat
  slen :: nat
  shead :: "nat option list"
  sheap :: "'v node list"

definition newSkipList :: "'v skiplist" where
  "newSkipList = \<lparr>slevel = 1, slen = 0, shead = replicate skipListMaxLevel None, sheap = []\<rparr>"

definition sl_isEmpty :: "'v skiplist \<Rightarrow> bool" where "sl_isEmpty s \<longleftrightarrow> slen s = 0"

definition sl_clear :: "'v skiplist \<Rightarrow> 'v skiplist" where
  "sl_clear s = s\<lparr>shead := replicate (length (shead s)) None, slevel := 1, slen := 0\<rparr>"

section \<open>Links\<close>

definition nxt :: "'v skiplist \<Rightarrow> ref \<Rightarrow> nat \<Rightarrow> nat option option" where
  "nxt s r i = (case r of
     Head \<Rightarrow> if i < length (shead s) then Some (shead s ! i) else None
   | Node a \<Rightarrow> if a < length (sheap s) \<and> i < length (nnext (sheap s ! a))
              then Some (nnext (sheap s ! a) ! i) else None)"

definition set_nxt :: "ref \<Rightarrow> nat \<Rightarrow> nat option \<Rightarrow> 'v skiplist \<Rightarrow> 'v skiplist option" where
  "set_nxt r i v s = (case r of
     Head \<Rightarrow> if i < length (shead s) then Some (s\<lparr>shead := (shead s)[i := v]\<rparr>) else None
   | Node a \<Rightarrow> if a < length (sheap s) \<and> i < length (nnext (sheap s ! a))
              then Some (s\<lparr>sheap := (sheap s)[a := (sheap s ! a)\<lparr>nnext := (nnext (sheap s ! a))[i := v]\<rparr>]\<rparr>)
              else None)"

abbreviation skey :: "'v skiplist \<Rightarrow> nat \<Rightarrow> 64 word" where
  "skey s a \<equiv> nkey (sheap s ! a)"

abbreviation height :: "'v skiplist \<Rightarrow> nat \<Rightarrow> nat" where
  "height s a \<equiv> length (nnext (sheap s ! a))"

section \<open>Searching\<close>

text \<open>The inner loop of \<open>findPrevNodes\<close> on one level, and the one of \<open>findInsertPoint\<close> and
  \<open>doFindNode\<close>, which stops at a node with the key.\<close>

partial_function (option) walk_lt :: "'v skiplist \<Rightarrow> 64 word \<Rightarrow> nat \<Rightarrow> ref \<Rightarrow> ref option" where
  "walk_lt s key i prev =
     (case nxt s prev i of
        None \<Rightarrow> None
      | Some None \<Rightarrow> Some prev
      | Some (Some a) \<Rightarrow> if key \<le> skey s a then Some prev else walk_lt s key i (Node a))"

partial_function (option) walk_find :: "'v skiplist \<Rightarrow> 64 word \<Rightarrow> nat \<Rightarrow> ref \<Rightarrow> (nat + ref) option" where
  "walk_find s key i prev =
     (case nxt s prev i of
        None \<Rightarrow> None
      | Some None \<Rightarrow> Some (Inr prev)
      | Some (Some a) \<Rightarrow>
          if skey s a = key then Some (Inl a)
          else if key < skey s a then Some (Inr prev) else walk_find s key i (Node a))"

text \<open>\<open>findPrevNodes\<close>: the predecessors on the levels below \<open>i\<close>, lowest level first.\<close>

fun findPrevs :: "'v skiplist \<Rightarrow> 64 word \<Rightarrow> nat \<Rightarrow> ref \<Rightarrow> ref list option" where
  "findPrevs s key 0 prev = Some []"
| "findPrevs s key (Suc i) prev =
     (case walk_lt s key i prev of
        None \<Rightarrow> None
      | Some p \<Rightarrow> (case findPrevs s key i p of None \<Rightarrow> None | Some ps \<Rightarrow> Some (ps @ [p])))"

definition findPrevNodes :: "'v skiplist \<Rightarrow> 64 word \<Rightarrow> ref list option" where
  "findPrevNodes s key = findPrevs s key (slevel s) Head"

fun insertPoint :: "'v skiplist \<Rightarrow> 64 word \<Rightarrow> nat \<Rightarrow> ref \<Rightarrow> (nat + ref list) option" where
  "insertPoint s key 0 prev = Some (Inr [])"
| "insertPoint s key (Suc i) prev =
     (case walk_find s key i prev of
        None \<Rightarrow> None
      | Some (Inl a) \<Rightarrow> Some (Inl a)
      | Some (Inr p) \<Rightarrow>
          (case insertPoint s key i p of
             None \<Rightarrow> None
           | Some (Inl a) \<Rightarrow> Some (Inl a)
           | Some (Inr ps) \<Rightarrow> Some (Inr (ps @ [p]))))"

definition findInsertPoint :: "'v skiplist \<Rightarrow> 64 word \<Rightarrow> (nat + ref list) option" where
  "findInsertPoint s key = insertPoint s key (slevel s) Head"

definition findRemovePoint :: "'v skiplist \<Rightarrow> 64 word \<Rightarrow> (nat \<times> ref list) option option" where
  "findRemovePoint s key =
     (case findPrevNodes s key of
        None \<Rightarrow> None
      | Some [] \<Rightarrow> None
      | Some (p # ps) \<Rightarrow>
          (case nxt s p 0 of
             None \<Rightarrow> None
           | Some None \<Rightarrow> Some None
           | Some (Some a) \<Rightarrow> if skey s a \<noteq> key then Some None else Some (Some (a, p # ps))))"

text \<open>\<open>doFindNode\<close> from level \<open>i\<close> downwards.\<close>

fun doFind :: "'v skiplist \<Rightarrow> 64 word \<Rightarrow> bool \<Rightarrow> nat \<Rightarrow> ref \<Rightarrow> nat option option" where
  "doFind s key eq 0 prev = (if eq then Some None else nxt s prev 0)"
| "doFind s key eq (Suc i) prev =
     (case walk_find s key i prev of
        None \<Rightarrow> None
      | Some (Inl a) \<Rightarrow> Some (Some a)
      | Some (Inr p) \<Rightarrow> doFind s key eq i p)"

definition doFindNode :: "'v skiplist \<Rightarrow> 64 word \<Rightarrow> bool \<Rightarrow> nat option option" where
  "doFindNode s key eq = doFind s key eq (slevel s) Head"

definition sl_find :: "'v skiplist \<Rightarrow> 64 word \<Rightarrow> 'v option option" where
  "sl_find s key = map_option (map_option (\<lambda>a. nval (sheap s ! a))) (doFindNode s key True)"

definition sl_has :: "'v skiplist \<Rightarrow> 64 word \<Rightarrow> bool option" where
  "sl_has s key = map_option (\<lambda>n. n \<noteq> None) (doFindNode s key True)"

definition sl_lowerBound :: "'v skiplist \<Rightarrow> 64 word \<Rightarrow> nat option option" where
  "sl_lowerBound s key = doFindNode s key False"

definition sl_upperBound :: "'v skiplist \<Rightarrow> 64 word \<Rightarrow> nat option option" where
  "sl_upperBound s key =
     (case sl_lowerBound s key of
        None \<Rightarrow> None
      | Some None \<Rightarrow> Some None
      | Some (Some a) \<Rightarrow> if skey s a = key then nxt s (Node a) 0 else Some (Some a))"

section \<open>Levels\<close>

text \<open>\<open>bits.Len64\<close>.\<close>

fun len64 :: "nat \<Rightarrow> nat" where
  "len64 n = (if n = 0 then 0 else Suc (len64 (n div 2)))"

declare len64.simps [simp del]

fun limit_level :: "nat \<Rightarrow> nat \<Rightarrow> nat" where
  "limit_level level len =
     (if 3 < level \<and> len < 2 ^ (level - 3) then limit_level (level - 1) len else level)"

declare limit_level.simps [simp del]

definition randomLevel :: "64 word \<Rightarrow> 'v skiplist \<Rightarrow> nat" where
  "randomLevel rand s =
     (let total = 2 ^ skipListMaxLevel - 1; k = unat rand mod total
      in limit_level (skipListMaxLevel - len64 k + 1) (slen s))"

text \<open>\<open>newSkipListNode\<close> panics for a level that is not between 1 and 40.\<close>

definition newNode :: "nat \<Rightarrow> 64 word \<Rightarrow> 'v \<Rightarrow> 'v node option" where
  "newNode level key v =
     (if 1 \<le> level \<and> level \<le> skipListMaxLevel
      then Some \<lparr>nkey = key, nval = v, nnext = replicate level None\<rparr> else None)"

section \<open>Insert and Remove\<close>

text \<open>The linking loop of \<open>Insert\<close>, for levels \<open>i\<close> to \<open>n - 1\<close> (the predecessors are those of level
  \<open>i\<close> and up).\<close>

fun link_node :: "nat \<Rightarrow> nat \<Rightarrow> nat \<Rightarrow> ref list \<Rightarrow> 'v skiplist \<Rightarrow> 'v skiplist option" where
  "link_node a 0 i ps s = Some s"
| "link_node a (Suc n) i [] s = None"
| "link_node a (Suc n) i (p # ps) s =
     (case nxt s p i of
        None \<Rightarrow> None
      | Some v \<Rightarrow> Option.bind (set_nxt (Node a) i v s) (\<lambda>s1.
          Option.bind (set_nxt p i (Some a) s1) (\<lambda>s2. link_node a n (Suc i) ps s2)))"

fun link_head :: "nat \<Rightarrow> nat \<Rightarrow> nat \<Rightarrow> 'v skiplist \<Rightarrow> 'v skiplist option" where
  "link_head a 0 i s = Some s"
| "link_head a (Suc n) i s = Option.bind (set_nxt Head i (Some a) s) (\<lambda>s1. link_head a n (Suc i) s1)"

definition sl_insert :: "64 word \<Rightarrow> 64 word \<Rightarrow> 'v \<Rightarrow> 'v skiplist \<Rightarrow> 'v skiplist option" where
  "sl_insert rand key v s =
     (case findInsertPoint s key of
        None \<Rightarrow> None
      | Some (Inl a) \<Rightarrow> Some (s\<lparr>sheap := (sheap s)[a := (sheap s ! a)\<lparr>nval := v\<rparr>]\<rparr>)
      | Some (Inr prevs) \<Rightarrow>
          (let level = randomLevel rand s; a = length (sheap s) in
           Option.bind (newNode level key v) (\<lambda>n.
           Option.bind (link_node a (min level (slevel s)) 0 prevs (s\<lparr>sheap := sheap s @ [n]\<rparr>)) (\<lambda>s1.
           Option.bind (link_head a (level - slevel s) (slevel s) s1) (\<lambda>s2.
             Some (s2\<lparr>slevel := max level (slevel s), slen := slen s + 1\<rparr>))))))"

fun unlink :: "nat option list \<Rightarrow> nat \<Rightarrow> ref list \<Rightarrow> 'v skiplist \<Rightarrow> 'v skiplist option" where
  "unlink [] i ps s = Some s"
| "unlink (v # vs) i [] s = None"
| "unlink (v # vs) i (p # ps) s = Option.bind (set_nxt p i v s) (\<lambda>s1. unlink vs (Suc i) ps s1)"

fun shrink :: "nat \<Rightarrow> nat option list \<Rightarrow> nat" where
  "shrink 0 h = 0"
| "shrink (Suc n) h = (if 0 < n \<and> h ! n = None then shrink n h else Suc n)"

definition sl_remove :: "64 word \<Rightarrow> 'v skiplist \<Rightarrow> (bool \<times> 'v skiplist) option" where
  "sl_remove key s =
     (case findRemovePoint s key of
        None \<Rightarrow> None
      | Some None \<Rightarrow> Some (False, s)
      | Some (Some (a, prevs)) \<Rightarrow>
          Option.bind (unlink (nnext (sheap s ! a)) 0 prevs s) (\<lambda>s1.
            Some (True, s1\<lparr>slevel := shrink (slevel s1) (shead s1), slen := slen s1 - 1\<rparr>)))"

section \<open>Iteration\<close>

text \<open>\<open>ForEach\<close> and the iterator: the nodes along level 0 from a node on.\<close>

partial_function (option) sl_from :: "'v skiplist \<Rightarrow> nat option \<Rightarrow> nat list option" where
  "sl_from s e =
     (case e of
        None \<Rightarrow> Some []
      | Some a \<Rightarrow> (case nxt s (Node a) 0 of
            None \<Rightarrow> None
          | Some e' \<Rightarrow> Option.bind (sl_from s e') (\<lambda>as. Some (a # as))))"

definition sl_iterate :: "'v skiplist \<Rightarrow> nat list option" where
  "sl_iterate s = (case nxt s Head 0 of None \<Rightarrow> None | Some e \<Rightarrow> sl_from s e)"

definition sl_entries :: "'v skiplist \<Rightarrow> (64 word \<times> 'v) list option" where
  "sl_entries s = map_option (map (\<lambda>a. (skey s a, nval (sheap s ! a)))) (sl_iterate s)"

end
