(* ===== verification/SkiplistFacts.thy ===== *)
theory SkiplistFacts
  imports Skiplist
begin

text \<open>
  The skip list refines a sorted association list: on a well-formed list no search runs past the
  end of a link array or forever, and \<open>Insert\<close>, \<open>Remove\<close>, \<open>Find\<close>, the bounds and the iteration
  agree with the operations on the list of entries, whatever the random levels are. The invariant
  says that the chain of every level is the sublist of the nodes that are higher than the level.
\<close>

section \<open>Chains\<close>

fun chain :: "'v skiplist \<Rightarrow> nat \<Rightarrow> ref \<Rightarrow> nat list \<Rightarrow> bool" where
  "chain s i r [] \<longleftrightarrow> nxt s r i = Some None"
| "chain s i r (a # as) \<longleftrightarrow> nxt s r i = Some (Some a) \<and> chain s i (Node a) as"

definition lastref :: "ref \<Rightarrow> nat list \<Rightarrow> ref" where
  "lastref r xs = (if xs = [] then r else Node (last xs))"

lemma lastref_simps [simp]:
  "lastref r [] = r" "lastref r (a # as) = lastref (Node a) as" "lastref r (xs @ [a]) = Node a"
  by (simp_all add: lastref_def)

lemma lastref_append: "lastref r (xs @ ys) = lastref (lastref r xs) ys"
  by (simp add: lastref_def)

lemma lastref_in: "xs \<noteq> [] \<Longrightarrow> \<exists>a \<in> set xs. lastref r xs = Node a"
  by (auto simp: lastref_def)

lemma chain_nxt: "chain s i r xs \<Longrightarrow> nxt s r i = Some (case xs of [] \<Rightarrow> None | a # _ \<Rightarrow> Some a)"
  by (cases xs) auto

lemma chain_suffix: "chain s i r (xs @ ys) \<Longrightarrow> chain s i (lastref r xs) ys"
  by (induction xs arbitrary: r) auto

lemma chain_cong:
  "(\<And>q. q = r \<or> (\<exists>a \<in> set xs. q = Node a) \<Longrightarrow> nxt t q i = nxt s q i) \<Longrightarrow> chain t i r xs = chain s i r xs"
proof (induction xs arbitrary: r)
  case (Cons a xs)
  have "chain t i (Node a) xs = chain s i (Node a) xs"
    using Cons.prems by (intro Cons.IH) auto
  then show ?case using Cons.prems by auto
qed simp

text \<open>Putting a node into a chain, and taking one out.\<close>

lemma chain_insert:
  assumes "chain s i r (xs @ ys)" "distinct (xs @ ys)" "n \<notin> set (xs @ ys)" "r \<noteq> Node n"
    "\<And>a. r = Node a \<Longrightarrow> a \<notin> set (xs @ ys)"
    "nxt t (lastref r xs) i = Some (Some n)" "nxt t (Node n) i = nxt s (lastref r xs) i"
    "\<And>q. q \<noteq> lastref r xs \<Longrightarrow> q \<noteq> Node n \<Longrightarrow> nxt t q i = nxt s q i"
  shows "chain t i r (xs @ n # ys)"
  using assms
proof (induction xs arbitrary: r)
  case Nil
  have "chain t i (Node n) ys"
  proof (cases ys)
    case Nil
    then show ?thesis using \<open>chain s i r ([] @ ys)\<close> Nil.prems by simp
  next
    case (Cons y zs)
    have "nxt t q i = nxt s q i" if "q = Node y \<or> (\<exists>a \<in> set zs. q = Node a)" for q
    proof -
      have "q \<noteq> r" "q \<noteq> Node n" using that Nil.prems(3,5) Cons by (cases r; auto)+
      then show ?thesis using Nil.prems(8) by simp
    qed
    then have "chain t i (Node y) zs = chain s i (Node y) zs" by (rule chain_cong)
    then show ?thesis using Nil.prems Cons by simp
  qed
  then show ?case using Nil.prems by simp
next
  case (Cons x xs)
  have "lastref (Node x) xs \<noteq> r"
    using Cons.prems lastref_in [of xs "Node x"] by (cases "xs = []") auto
  then have "nxt t r i = Some (Some x)"
    using Cons.prems by auto
  moreover have "chain t i (Node x) (xs @ n # ys)"
    using Cons.prems by (intro Cons.IH) auto
  ultimately show ?case by simp
qed

lemma chain_delete:
  assumes "chain s i r (xs @ n # ys)" "distinct (xs @ n # ys)"
    "\<And>a. r = Node a \<Longrightarrow> a \<notin> set (xs @ n # ys)"
    "nxt t (lastref r xs) i = nxt s (Node n) i"
    "\<And>q. q \<noteq> lastref r xs \<Longrightarrow> nxt t q i = nxt s q i"
  shows "chain t i r (xs @ ys)"
  using assms
proof (induction xs arbitrary: r)
  case Nil
  then have c: "chain s i (Node n) ys" by simp
  show ?case
  proof (cases ys)
    case Nil
    then show ?thesis using c \<open>nxt t (lastref r []) i = nxt s (Node n) i\<close> by simp
  next
    case (Cons y zs)
    have "nxt t q i = nxt s q i" if "q = Node y \<or> (\<exists>a \<in> set zs. q = Node a)" for q
    proof -
      have "q \<noteq> r" using that Nil.prems(3) Cons by (cases r) auto
      then show ?thesis using Nil.prems(5) by simp
    qed
    then have "chain t i (Node y) zs = chain s i (Node y) zs" by (rule chain_cong)
    then show ?thesis using Nil.prems c Cons by simp
  qed
next
  case (Cons x xs)
  have "lastref (Node x) xs \<noteq> r"
    using Cons.prems lastref_in [of xs "Node x"] by (cases "xs = []") auto
  then have "nxt t r i = Some (Some x)" using Cons.prems by auto
  moreover have "chain t i (Node x) (xs @ ys)"
    using Cons.prems by (intro Cons.IH) auto
  ultimately show ?case by simp
qed

section \<open>Walks\<close>

lemma walk_lt_chain:
  "chain s i r xs \<Longrightarrow> walk_lt s k i r = Some (lastref r (takeWhile (\<lambda>a. skey s a < k) xs))"
proof (induction xs arbitrary: r)
  case Nil
  then show ?case by (simp add: walk_lt.simps [of s k i r])
next
  case (Cons a xs)
  show ?case
  proof (cases "skey s a < k")
    case True
    note nle = True [folded not_le]
    show ?thesis using Cons by (simp add: walk_lt.simps [of s k i r] nle True)
  next
    case False
    then have "k \<le> skey s a" by (simp add: not_less)
    then show ?thesis using Cons.prems False by (simp add: walk_lt.simps [of s k i r])
  qed
qed

lemma walk_find_stop:
  assumes "chain s i r (xs @ ys)" "\<And>a. a \<in> set xs \<Longrightarrow> skey s a < k"
    "ys = [] \<or> k < skey s (hd ys)"
  shows "walk_find s k i r = Some (Inr (lastref r xs))"
  using assms
proof (induction xs arbitrary: r)
  case Nil
  then show ?case by (cases ys) (auto simp: walk_find.simps [of s k i r])
next
  case (Cons a xs)
  then have "\<not> k < skey s a" "skey s a \<noteq> k" by (simp_all add: not_less less_imp_le less_imp_neq)
  with Cons show ?case by (simp add: walk_find.simps [of s k i r])
qed

lemma walk_find_hit:
  assumes "chain s i r (xs @ b # ys)" "\<And>a. a \<in> set xs \<Longrightarrow> skey s a < k" "skey s b = k"
  shows "walk_find s k i r = Some (Inl b)"
  using assms
proof (induction xs arbitrary: r)
  case Nil
  then show ?case by (simp add: walk_find.simps [of s k i r])
next
  case (Cons a xs)
  then have "\<not> k < skey s a" "skey s a \<noteq> k" by (simp_all add: not_less less_imp_le less_imp_neq)
  with Cons show ?case by (simp add: walk_find.simps [of s k i r])
qed

section \<open>The invariant\<close>

abbreviation above :: "'v skiplist \<Rightarrow> nat \<Rightarrow> nat list \<Rightarrow> nat list" where
  "above s i xs \<equiv> filter (\<lambda>a. i < height s a) xs"

definition sl_inv :: "'v skiplist \<Rightarrow> nat list \<Rightarrow> bool" where
  "sl_inv s L \<longleftrightarrow> length (shead s) = skipListMaxLevel \<and> 1 \<le> slevel s \<and> slevel s \<le> skipListMaxLevel
     \<and> slen s = length L
     \<and> (\<forall>a \<in> set L. a < length (sheap s) \<and> 1 \<le> height s a \<and> height s a \<le> slevel s)
     \<and> sorted_wrt (\<lambda>a b. skey s a < skey s b) L
     \<and> (\<forall>i < skipListMaxLevel. chain s i Head (above s i L))"

lemma sl_invD:
  assumes "sl_inv s L"
  shows "length (shead s) = skipListMaxLevel" "1 \<le> slevel s" "slevel s \<le> skipListMaxLevel"
    "slen s = length L" "a \<in> set L \<Longrightarrow> a < length (sheap s)" "a \<in> set L \<Longrightarrow> 1 \<le> height s a"
    "a \<in> set L \<Longrightarrow> height s a \<le> slevel s" "sorted_wrt (\<lambda>a b. skey s a < skey s b) L"
    "i < skipListMaxLevel \<Longrightarrow> chain s i Head (above s i L)"
  using assms unfolding sl_inv_def by auto

lemma sl_inv_distinct: "sl_inv s L \<Longrightarrow> distinct L"
proof -
  assume "sl_inv s L"
  then have "sorted_wrt (\<lambda>a b. skey s a < skey s b) L" by (rule sl_invD)
  then show ?thesis by (induction L) auto
qed

lemma new_inv: "sl_inv newSkipList []"
  by (simp add: sl_inv_def newSkipList_def skipListMaxLevel_def nxt_def)

text \<open>Descending one level keeps the position.\<close>

lemma descend:
  "\<exists>X Y. above s n B = X @ Y \<and> lastref Head (above s (Suc n) B) = lastref Head X"
proof (cases "above s (Suc n) B = []")
  case True
  then show ?thesis by (intro exI [of _ "[]"] exI [of _ "above s n B"]) simp
next
  case False
  then obtain a xs where ax: "above s (Suc n) B = xs @ [a]"
    by (metis rev_exhaust)
  then have "a \<in> set (above s (Suc n) B)" by simp
  then have "a \<in> set B" "Suc n < height s a" by auto
  then obtain B1 B2 where "B = B1 @ a # B2" by (metis split_list)
  then show ?thesis
    using ax \<open>Suc n < height s a\<close>
    by (intro exI [of _ "above s n B1 @ [a]"] exI [of _ "above s n B2"]) simp
qed

lemma takeWhile_all_append:
  "(\<And>a. a \<in> set xs \<Longrightarrow> P a) \<Longrightarrow> (\<And>a. a \<in> set ys \<Longrightarrow> \<not> P a) \<Longrightarrow> takeWhile P (xs @ ys) = xs"
  by (induction xs) (auto simp: takeWhile_eq_Nil_iff)

text \<open>The predecessors of a key, one per level.\<close>

definition preds :: "'v skiplist \<Rightarrow> nat list \<Rightarrow> nat \<Rightarrow> ref list" where
  "preds s B n = map (\<lambda>i. lastref Head (above s i B)) [0..<n]"

lemma length_preds [simp]: "length (preds s B n) = n"
  by (simp add: preds_def)

lemma nth_preds [simp]: "i < n \<Longrightarrow> preds s B n ! i = lastref Head (above s i B)"
  by (simp add: preds_def)

lemma preds_Suc: "preds s B (Suc n) = preds s B n @ [lastref Head (above s n B)]"
  by (simp add: preds_def)

lemma above_top: "sl_inv s L \<Longrightarrow> set B \<subseteq> set L \<Longrightarrow> above s (slevel s) B = []"
  by (auto simp: filter_empty_conv not_less dest: sl_invD(7))

lemma level_chain:
  assumes "sl_inv s (B @ A)" "n < skipListMaxLevel"
  obtains Y where "chain s n (lastref Head (above s (Suc n) B)) (Y @ above s n A)"
    "lastref (lastref Head (above s (Suc n) B)) Y = lastref Head (above s n B)" "set Y \<subseteq> set B"
proof -
  obtain X Y where xy: "above s n B = X @ Y" "lastref Head (above s (Suc n) B) = lastref Head X"
    using descend by blast
  have "chain s n Head (above s n B @ above s n A)"
    using sl_invD(9) [OF assms] by simp
  then have "chain s n (lastref Head X) (Y @ above s n A)"
    unfolding xy(1) append_assoc by (rule chain_suffix)
  moreover have "lastref (lastref Head X) Y = lastref Head (above s n B)"
    by (simp add: xy(1) lastref_append)
  moreover have "set Y \<subseteq> set B"
  proof -
    have "set (X @ Y) \<subseteq> set B" unfolding xy(1) [symmetric] by auto
    then show ?thesis by simp
  qed
  ultimately show thesis using that xy(2) by simp
qed

lemma findPrevs_preds:
  assumes inv: "sl_inv s (B @ A)" and B: "\<And>a. a \<in> set B \<Longrightarrow> skey s a < k"
    and A: "\<And>a. a \<in> set A \<Longrightarrow> k \<le> skey s a" and n: "n \<le> skipListMaxLevel"
  shows "findPrevs s k n (lastref Head (above s n B)) = Some (preds s B n)"
  using n
proof (induction n)
  case 0
  then show ?case by (simp add: preds_def)
next
  case (Suc n)
  obtain Y where Y: "chain s n (lastref Head (above s (Suc n) B)) (Y @ above s n A)"
      "lastref (lastref Head (above s (Suc n) B)) Y = lastref Head (above s n B)" "set Y \<subseteq> set B"
    using level_chain [OF inv, of n] Suc.prems by auto
  have "takeWhile (\<lambda>a. skey s a < k) (Y @ above s n A) = Y"
    using B A Y(3) by (intro takeWhile_all_append) (auto simp: not_less)
  then have "walk_lt s k n (lastref Head (above s (Suc n) B)) = Some (lastref Head (above s n B))"
    using walk_lt_chain [OF Y(1), of k] Y(2) by simp
  then show ?case using Suc by (simp add: preds_Suc)
qed

lemma findPrevNodes_preds:
  assumes "sl_inv s (B @ A)" "\<And>a. a \<in> set B \<Longrightarrow> skey s a < k" "\<And>a. a \<in> set A \<Longrightarrow> k \<le> skey s a"
  shows "findPrevNodes s k = Some (preds s B (slevel s))"
  using findPrevs_preds [OF assms, of "slevel s"] sl_invD(3) [OF assms(1)] above_top [OF assms(1), of B]
  by (simp add: findPrevNodes_def)

lemma lastref_above_eq:
  assumes "Y' = above s n A'" "chain s n r (Y @ Y')"
  shows "chain s n r (Y @ above s n A')"
  using assms by simp

lemma insertPoint_miss:
  assumes inv: "sl_inv s (B @ A)" and B: "\<And>a. a \<in> set B \<Longrightarrow> skey s a < k"
    and A: "\<And>a. a \<in> set A \<Longrightarrow> k < skey s a" and n: "n \<le> skipListMaxLevel"
  shows "insertPoint s k n (lastref Head (above s n B)) = Some (Inr (preds s B n))"
  using n
proof (induction n)
  case 0
  then show ?case by (simp add: preds_def)
next
  case (Suc n)
  obtain Y where Y: "chain s n (lastref Head (above s (Suc n) B)) (Y @ above s n A)"
      "lastref (lastref Head (above s (Suc n) B)) Y = lastref Head (above s n B)" "set Y \<subseteq> set B"
    using level_chain [OF inv, of n] Suc.prems by auto
  have "above s n A = [] \<or> k < skey s (hd (above s n A))"
    using A hd_in_set [of "above s n A"] by auto
  then have "walk_find s k n (lastref Head (above s (Suc n) B)) = Some (Inr (lastref Head (above s n B)))"
    using walk_find_stop [OF Y(1), of k] B Y(2,3) by auto
  then show ?case using Suc by (simp add: preds_Suc)
qed

lemma doFind_miss:
  assumes inv: "sl_inv s (B @ A)" and B: "\<And>a. a \<in> set B \<Longrightarrow> skey s a < k"
    and A: "\<And>a. a \<in> set A \<Longrightarrow> k < skey s a" and n: "n \<le> skipListMaxLevel"
  shows "doFind s k eq n (lastref Head (above s n B)) =
    (if eq then Some None else nxt s (lastref Head (above s 0 B)) 0)"
  using n
proof (induction n)
  case (Suc n)
  obtain Y where Y: "chain s n (lastref Head (above s (Suc n) B)) (Y @ above s n A)"
      "lastref (lastref Head (above s (Suc n) B)) Y = lastref Head (above s n B)" "set Y \<subseteq> set B"
    using level_chain [OF inv, of n] Suc.prems by auto
  have "above s n A = [] \<or> k < skey s (hd (above s n A))"
    using A hd_in_set [of "above s n A"] by auto
  then have "walk_find s k n (lastref Head (above s (Suc n) B)) = Some (Inr (lastref Head (above s n B)))"
    using walk_find_stop [OF Y(1), of k] B Y(2,3) by auto
  then show ?case using Suc by simp
qed simp

text \<open>On a key that is present both searches stop at its node, on whichever level they meet it.\<close>

lemma find_hit_step:
  assumes inv: "sl_inv s (B @ a # A)" and B: "\<And>b. b \<in> set B \<Longrightarrow> skey s b < k"
    and a: "skey s a = k" and A: "\<And>b. b \<in> set A \<Longrightarrow> k < skey s b" and n: "n < skipListMaxLevel"
  shows "walk_find s k n (lastref Head (above s (Suc n) B)) =
    (if n < height s a then Some (Inl a) else Some (Inr (lastref Head (above s n B))))"
proof -
  obtain Y where Y: "chain s n (lastref Head (above s (Suc n) B)) (Y @ above s n (a # A))"
      "lastref (lastref Head (above s (Suc n) B)) Y = lastref Head (above s n B)" "set Y \<subseteq> set B"
    using level_chain [OF inv n] by auto
  show ?thesis
  proof (cases "n < height s a")
    case True
    then show ?thesis
      using walk_find_hit [of s n "lastref Head (above s (Suc n) B)" Y a "above s n A" k] Y B a by auto
  next
    case False
    have "above s n A = [] \<or> k < skey s (hd (above s n A))"
      using A hd_in_set [of "above s n A"] by auto
    then show ?thesis
      using False walk_find_stop [of s n "lastref Head (above s (Suc n) B)" Y "above s n A" k] Y B by auto
  qed
qed

lemma find_hit:
  assumes inv: "sl_inv s (B @ a # A)" and B: "\<And>b. b \<in> set B \<Longrightarrow> skey s b < k"
    and a: "skey s a = k" and A: "\<And>b. b \<in> set A \<Longrightarrow> k < skey s b"
    and n: "1 \<le> n" "n \<le> skipListMaxLevel"
  shows "insertPoint s k n (lastref Head (above s n B)) = Some (Inl a)"
    and "doFind s k eq n (lastref Head (above s n B)) = Some (Some a)"
proof -
  have h: "1 \<le> height s a" using sl_invD(6) [OF inv, of a] by simp
  show "insertPoint s k n (lastref Head (above s n B)) = Some (Inl a)"
    using n
  proof (induction n)
    case (Suc n)
    note st = find_hit_step [OF inv B a A, of n]
    show ?case
      using Suc st h by (cases "n < height s a") (simp_all add: not_less)
  qed simp
  show "doFind s k eq n (lastref Head (above s n B)) = Some (Some a)"
    using n
  proof (induction n)
    case (Suc n)
    note st = find_hit_step [OF inv B a A, of n]
    show ?case
      using Suc st h by (cases "n < height s a") (simp_all add: not_less)
  qed simp
qed

text \<open>Every key splits the list of nodes.\<close>

lemma key_split:
  assumes "sorted_wrt (\<lambda>a b. f a < (f b :: 'k :: linorder)) L"
  obtains (hit) B a A where "L = B @ a # A" "f a = k" "\<And>b. b \<in> set B \<Longrightarrow> f b < k"
      "\<And>b. b \<in> set A \<Longrightarrow> k < f b"
  | (miss) B A where "L = B @ A" "\<And>b. b \<in> set B \<Longrightarrow> f b < k" "\<And>b. b \<in> set A \<Longrightarrow> k < f b"
proof (cases "\<exists>a \<in> set L. f a = k")
  case True
  then obtain a B A where "L = B @ a # A" "f a = k" by (metis split_list)
  then show thesis using assms hit by (auto simp: sorted_wrt_append)
next
  case False
  let ?B = "takeWhile (\<lambda>b. f b < k) L" and ?A = "dropWhile (\<lambda>b. f b < k) L"
  have B: "f b < k" if "b \<in> set ?B" for b using that by (metis set_takeWhileD)
  have A: "k < f b" if b: "b \<in> set ?A" for b
  proof -
    have ne: "?A \<noteq> []" using b by (metis empty_iff list.set(1))
    have "\<not> f (hd ?A) < k" using ne by (rule hd_dropWhile)
    moreover have "hd ?A \<in> set L" using hd_in_set [OF ne] by (rule set_dropWhileD)
    ultimately have h: "\<not> f (hd ?A) < k" "hd ?A \<in> set L" by simp_all
    then have "k < f (hd ?A)" using False by (metis linorder_neqE)
    moreover have "sorted_wrt (\<lambda>a b. f a < f b) ?A"
      using assms by (metis sorted_wrt_append takeWhile_dropWhile_id)
    then have "b = hd ?A \<or> f (hd ?A) < f b"
      using ne b by (cases ?A) auto
    ultimately show ?thesis by auto
  qed
  show thesis using miss [of ?B ?A] B A by simp
qed

lemma findInsertPoint_miss:
  assumes "sl_inv s (B @ A)" "\<And>a. a \<in> set B \<Longrightarrow> skey s a < k" "\<And>a. a \<in> set A \<Longrightarrow> k < skey s a"
  shows "findInsertPoint s k = Some (Inr (preds s B (slevel s)))"
  using insertPoint_miss [OF assms, of "slevel s"] sl_invD(3) [OF assms(1)] above_top [OF assms(1), of B]
  by (simp add: findInsertPoint_def)

lemma findInsertPoint_hit:
  assumes "sl_inv s (B @ a # A)" "\<And>b. b \<in> set B \<Longrightarrow> skey s b < k" "skey s a = k"
    "\<And>b. b \<in> set A \<Longrightarrow> k < skey s b"
  shows "findInsertPoint s k = Some (Inl a)" "doFindNode s k eq = Some (Some a)"
proof -
  have "above s (slevel s) B = []" by (rule above_top [OF assms(1)]) auto
  then show "findInsertPoint s k = Some (Inl a)" "doFindNode s k eq = Some (Some a)"
    using find_hit [OF assms, of "slevel s"] sl_invD(2,3) [OF assms(1)]
    by (simp_all add: findInsertPoint_def doFindNode_def)
qed

lemma above_0: "sl_inv s L \<Longrightarrow> set B \<subseteq> set L \<Longrightarrow> above s 0 B = B"
  using sl_invD(6) by (fastforce simp: filter_id_conv)

lemma doFindNode_miss:
  assumes "sl_inv s (B @ A)" "\<And>a. a \<in> set B \<Longrightarrow> skey s a < k" "\<And>a. a \<in> set A \<Longrightarrow> k < skey s a"
  shows "doFindNode s k eq = Some (if eq then None else (case A of [] \<Rightarrow> None | a # _ \<Rightarrow> Some a))"
proof -
  have f: "above s 0 B = B" "above s 0 (B @ A) = B @ A"
    using above_0 [OF assms(1), of B] above_0 [OF assms(1), of "B @ A"] by simp_all
  have "chain s 0 Head (B @ A)"
    using sl_invD(9) [OF assms(1), of 0] f(2) by (simp add: skipListMaxLevel_def)
  then have "nxt s (lastref Head B) 0 = Some (case A of [] \<Rightarrow> None | a # _ \<Rightarrow> Some a)"
    using chain_suffix chain_nxt by blast
  then show ?thesis
    using doFind_miss [OF assms, of "slevel s" eq] sl_invD(3) [OF assms(1)] above_top [OF assms(1), of B] f(1)
    by (simp add: doFindNode_def)
qed

section \<open>Changing links\<close>

definition same_shape :: "'v skiplist \<Rightarrow> 'v skiplist \<Rightarrow> bool" where
  "same_shape s t \<longleftrightarrow> slevel t = slevel s \<and> slen t = slen s \<and> length (shead t) = length (shead s)
     \<and> length (sheap t) = length (sheap s)
     \<and> (\<forall>a. skey t a = skey s a \<and> nval (sheap t ! a) = nval (sheap s ! a) \<and> height t a = height s a)"

lemma same_shape_refl [simp]: "same_shape s s"
  by (simp add: same_shape_def)

lemma same_shape_trans: "same_shape s t \<Longrightarrow> same_shape t u \<Longrightarrow> same_shape s u"
  by (simp add: same_shape_def)

lemma set_nxt_spec:
  assumes "nxt s r i \<noteq> None"
  shows "\<exists>t. set_nxt r i v s = Some t \<and> same_shape s t
    \<and> (\<forall>q j. nxt t q j = (if q = r \<and> j = i then Some v else nxt s q j))"
proof (cases r)
  case Head
  then have i: "i < length (shead s)" using assms by (simp add: nxt_def split: if_splits)
  then show ?thesis
    using Head by (auto simp: set_nxt_def same_shape_def nxt_def nth_list_update split: ref.splits)
next
  case (Node a)
  then have i: "a < length (sheap s)" "i < length (nnext (sheap s ! a))"
    using assms by (auto simp: nxt_def split: if_splits)
  then show ?thesis
    using Node by (auto simp: set_nxt_def same_shape_def nxt_def nth_list_update split: ref.splits)
qed

text \<open>The linking loop: on levels \<open>i\<close> to \<open>i + n - 1\<close> the new node takes over the predecessor's link and
  the predecessor points to the new node.\<close>

lemma link_node_spec:
  assumes "n \<le> length ps" "\<And>j. j < n \<Longrightarrow> nxt s (ps ! j) (i + j) \<noteq> None"
    "\<And>j. j < n \<Longrightarrow> nxt s (Node a) (i + j) \<noteq> None" "\<And>j. j < n \<Longrightarrow> ps ! j \<noteq> Node a"
  shows "\<exists>t. link_node a n i ps s = Some t \<and> same_shape s t
    \<and> (\<forall>q j. nxt t q j =
         (if i \<le> j \<and> j < i + n
          then (if q = ps ! (j - i) then Some (Some a)
                else if q = Node a then nxt s (ps ! (j - i)) j else nxt s q j)
          else nxt s q j))"
  using assms
proof (induction n arbitrary: i ps s)
  case 0
  then show ?case by auto
next
  case (Suc n)
  then obtain p ps' where ps: "ps = p # ps'" by (cases ps) auto
  obtain v where v: "nxt s p i = Some v" using Suc.prems(2) [of 0] ps by auto
  obtain s1 where s1: "set_nxt (Node a) i v s = Some s1" "same_shape s s1"
    "\<And>q j. nxt s1 q j = (if q = Node a \<and> j = i then Some v else nxt s q j)"
    using set_nxt_spec [of s "Node a" i v] Suc.prems(3) [of 0] by auto
  have pa: "p \<noteq> Node a" using Suc.prems(4) [of 0] ps by simp
  then have "nxt s1 p i \<noteq> None" using s1(3) v by simp
  then obtain s2 where s2: "set_nxt p i (Some a) s1 = Some s2" "same_shape s1 s2"
    "\<And>q j. nxt s2 q j = (if q = p \<and> j = i then Some (Some a) else nxt s1 q j)"
    using set_nxt_spec by blast
  have n2: "nxt s2 q j = nxt s q j" if "j \<noteq> i" for q j using that s1(3) s2(3) by simp
  have "\<exists>t. link_node a n (Suc i) ps' s2 = Some t \<and> same_shape s2 t
    \<and> (\<forall>q j. nxt t q j =
         (if Suc i \<le> j \<and> j < Suc i + n
          then (if q = ps' ! (j - Suc i) then Some (Some a)
                else if q = Node a then nxt s2 (ps' ! (j - Suc i)) j else nxt s2 q j)
          else nxt s2 q j))"
  proof (rule Suc.IH)
    show "n \<le> length ps'" using Suc.prems(1) ps by simp
    show "nxt s2 (ps' ! j) (Suc i + j) \<noteq> None" "nxt s2 (Node a) (Suc i + j) \<noteq> None"
      "ps' ! j \<noteq> Node a" if "j < n" for j
      using that Suc.prems(2,3,4) [of "Suc j"] ps n2 by simp_all
  qed
  then obtain t where t: "link_node a n (Suc i) ps' s2 = Some t" "same_shape s2 t"
    "\<And>q j. nxt t q j =
         (if Suc i \<le> j \<and> j < Suc i + n
          then (if q = ps' ! (j - Suc i) then Some (Some a)
                else if q = Node a then nxt s2 (ps' ! (j - Suc i)) j else nxt s2 q j)
          else nxt s2 q j)"
    by blast
  have "link_node a (Suc n) i ps s = Some t"
    using ps v s1(1) s2(1) t(1) by simp
  moreover have "same_shape s t" using s1(2) s2(2) t(2) same_shape_trans by blast
  moreover have "nxt t q j =
         (if i \<le> j \<and> j < i + Suc n
          then (if q = ps ! (j - i) then Some (Some a)
                else if q = Node a then nxt s (ps ! (j - i)) j else nxt s q j)
          else nxt s q j)" for q j
  proof (cases "j = i")
    case True
    then show ?thesis using t(3) s1(3) s2(3) ps v pa by auto
  next
    case False
    then have "i < j \<Longrightarrow> j - i = Suc (j - Suc i)" by simp
    with False show ?thesis using t(3) n2 ps by (auto simp: nth_Cons split: nat.splits)
  qed
  ultimately show ?case by blast
qed

lemma link_head_spec:
  assumes "\<And>j. j < n \<Longrightarrow> nxt s Head (i + j) \<noteq> None"
  shows "\<exists>t. link_head a n i s = Some t \<and> same_shape s t
    \<and> (\<forall>q j. nxt t q j = (if q = Head \<and> i \<le> j \<and> j < i + n then Some (Some a) else nxt s q j))"
  using assms
proof (induction n arbitrary: i s)
  case 0
  then show ?case by auto
next
  case (Suc n)
  obtain s1 where s1: "set_nxt Head i (Some a) s = Some s1" "same_shape s s1"
    "\<And>q j. nxt s1 q j = (if q = Head \<and> j = i then Some (Some a) else nxt s q j)"
    using set_nxt_spec [of s Head i "Some a"] Suc.prems [of 0] by auto
  have "nxt s1 Head (Suc i + j) \<noteq> None" if "j < n" for j
    using that Suc.prems [of "Suc j"] s1(3) by simp
  from Suc.IH [OF this] obtain t where t: "link_head a n (Suc i) s1 = Some t" "same_shape s1 t"
    "\<And>q j. nxt t q j = (if q = Head \<and> Suc i \<le> j \<and> j < Suc i + n then Some (Some a) else nxt s1 q j)"
    by blast
  have "nxt t q j = (if q = Head \<and> i \<le> j \<and> j < i + Suc n then Some (Some a) else nxt s q j)" for q j
    using t(3) s1(3) by auto
  then show ?case
    using t(1,2) s1(1,2) same_shape_trans by (intro exI [of _ t]) (simp add: same_shape_def)
qed

lemma unlink_spec:
  assumes "length vs \<le> length ps" "\<And>j. j < length vs \<Longrightarrow> nxt s (ps ! j) (i + j) \<noteq> None"
  shows "\<exists>t. unlink vs i ps s = Some t \<and> same_shape s t
    \<and> (\<forall>q j. nxt t q j =
         (if i \<le> j \<and> j < i + length vs \<and> q = ps ! (j - i) then Some (vs ! (j - i)) else nxt s q j))"
  using assms
proof (induction vs arbitrary: i ps s)
  case Nil
  then show ?case by auto
next
  case (Cons v vs)
  then obtain p ps' where ps: "ps = p # ps'" by (cases ps) auto
  obtain s1 where s1: "set_nxt p i v s = Some s1" "same_shape s s1"
    "\<And>q j. nxt s1 q j = (if q = p \<and> j = i then Some v else nxt s q j)"
    using set_nxt_spec [of s p i v] Cons.prems(2) [of 0] ps by auto
  have "length vs \<le> length ps'" using Cons.prems(1) ps by simp
  moreover have "nxt s1 (ps' ! j) (Suc i + j) \<noteq> None" if "j < length vs" for j
    using that Cons.prems(2) [of "Suc j"] s1(3) ps by simp
  ultimately obtain t where t: "unlink vs (Suc i) ps' s1 = Some t" "same_shape s1 t"
    "\<And>q j. nxt t q j = (if Suc i \<le> j \<and> j < Suc i + length vs \<and> q = ps' ! (j - Suc i)
        then Some (vs ! (j - Suc i)) else nxt s1 q j)"
    using Cons.IH [of ps' s1 "Suc i"] by blast
  have "nxt t q j = (if i \<le> j \<and> j < i + length (v # vs) \<and> q = ps ! (j - i)
      then Some ((v # vs) ! (j - i)) else nxt s q j)" for q j
  proof (cases "j = i")
    case True
    then show ?thesis using t(3) s1(3) ps by auto
  next
    case False
    then have "i < j \<Longrightarrow> j - i = Suc (j - Suc i)" by simp
    with False show ?thesis using t(3) s1(3) ps by auto
  qed
  then show ?case
    using t(1,2) s1(1,2) ps same_shape_trans by (intro exI [of _ t]) (simp add: same_shape_def)
qed

section \<open>Levels are in range\<close>

lemma len64_bound: "n < 2 ^ b \<Longrightarrow> len64 n \<le> b"
proof (induction b arbitrary: n)
  case 0
  then show ?case by (simp add: len64.simps)
next
  case (Suc b)
  show ?case
  proof (cases "n = 0")
    case True
    then show ?thesis by (simp add: len64.simps)
  next
    case False
    have "n div 2 < 2 ^ b" using Suc.prems by (simp add: less_mult_imp_div_less mult.commute)
    then show ?thesis using Suc.IH False by (simp add: len64.simps [of n])
  qed
qed

lemma limit_level_bounds: "1 \<le> l \<Longrightarrow> 1 \<le> limit_level l n \<and> limit_level l n \<le> l"
proof (induction l n rule: limit_level.induct)
  case (1 l n)
  then show ?case by (subst (1 2) limit_level.simps) force
qed

lemma limit_level_41: "n < 2 ^ 38 \<Longrightarrow> limit_level 41 n \<le> 40"
proof -
  assume "n < 2 ^ 38"
  then have "limit_level 41 n = limit_level 40 n" by (subst limit_level.simps) simp
  then show ?thesis using limit_level_bounds [of 40 n] by simp
qed

lemma randomLevel_bounds:
  assumes "slen s < 2 ^ 38"
  shows "1 \<le> randomLevel rand s \<and> randomLevel rand s \<le> skipListMaxLevel"
proof -
  define k where "k = unat rand mod (2 ^ skipListMaxLevel - 1)"
  have "k < 2 ^ 40" by (simp add: k_def skipListMaxLevel_def mod_less_divisor less_trans [OF mod_less_divisor])
  then have l: "len64 k \<le> 40" by (rule len64_bound)
  have r: "randomLevel rand s = limit_level (40 - len64 k + 1) (slen s)"
    by (simp add: randomLevel_def k_def skipListMaxLevel_def)
  show ?thesis
  proof (cases "len64 k = 0")
    case True
    then show ?thesis
      using r limit_level_41 [OF assms] limit_level_bounds [of 41 "slen s"]
      by (simp add: skipListMaxLevel_def)
  next
    case False
    then show ?thesis
      using r limit_level_bounds [of "40 - len64 k + 1" "slen s"] l
      by (simp add: skipListMaxLevel_def) linarith
  qed
qed

section \<open>Insert\<close>

definition ents :: "'v skiplist \<Rightarrow> nat list \<Rightarrow> (64 word \<times> 'v) list" where
  "ents s L = map (\<lambda>a. (skey s a, nval (sheap s ! a))) L"

lemma pred_link:
  assumes "sl_inv s (B @ A)" "j < skipListMaxLevel"
  shows "nxt s (lastref Head (above s j B)) j
    = Some (case above s j A of [] \<Rightarrow> None | a # _ \<Rightarrow> Some a)"
proof -
  have "chain s j Head (above s j B @ above s j A)" using sl_invD(9) [OF assms] by simp
  then show ?thesis using chain_suffix chain_nxt by blast
qed

lemma lastref_above_old:
  assumes "\<And>b. b \<in> set B \<Longrightarrow> b < n"
  shows "lastref Head (above s j B) \<noteq> Node n"
  using lastref_in [of "above s j B" Head] by (cases "above s j B = []") (auto dest: assms)

text \<open>The state before the new node is linked.\<close>

lemma nxt_extend:
  assumes "length (nnext n) = l" "nnext n = replicate l None"
  shows "nxt (s\<lparr>sheap := sheap s @ [n]\<rparr>) q j =
    (if q = Node (length (sheap s)) then (if j < l then Some None else None) else nxt s q j)"
  using assms by (auto simp: nxt_def nth_append split: ref.splits)

lemma insert_new_links:
  assumes inv: "sl_inv s (B @ A)" and l: "1 \<le> l" "l \<le> skipListMaxLevel"
    and a_def: "a = length (sheap s)" and n_def: "n = \<lparr>nkey = k, nval = v, nnext = replicate l None\<rparr>"
  shows "\<exists>s1 s2. link_node a (min l (slevel s)) 0 (preds s B (slevel s)) (s\<lparr>sheap := sheap s @ [n]\<rparr>) = Some s1
    \<and> link_head a (l - slevel s) (slevel s) s1 = Some s2
    \<and> same_shape (s\<lparr>sheap := sheap s @ [n]\<rparr>) s2
    \<and> (\<forall>q j. j < min l (slevel s) \<longrightarrow> nxt s2 q j =
          (if q = lastref Head (above s j B) then Some (Some a)
           else if q = Node a then nxt s (lastref Head (above s j B)) j else nxt s q j))
    \<and> (\<forall>q j. slevel s \<le> j \<and> j < l \<longrightarrow> nxt s2 q j =
          (if q = Head then Some (Some a) else if q = Node a then Some None else nxt s q j))
    \<and> (\<forall>q j. l \<le> j \<longrightarrow> q \<noteq> Node a \<longrightarrow> nxt s2 q j = nxt s q j)"
proof -
  let ?s0 = "s\<lparr>sheap := sheap s @ [n]\<rparr>" and ?m = "min l (slevel s)" and ?ps = "preds s B (slevel s)"
  have n0: "nxt ?s0 q j = (if q = Node a then (if j < l then Some None else None) else nxt s q j)" for q j
    unfolding a_def by (rule nxt_extend) (simp_all add: n_def)
  have lv: "slevel s \<le> skipListMaxLevel" using sl_invD(3) [OF inv] .
  have old: "lastref Head (above s j B) \<noteq> Node a" for j
    unfolding a_def using sl_invD(5) [OF inv] by (intro lastref_above_old) auto
  have pl: "nxt s (lastref Head (above s j B)) j \<noteq> None" if "j < slevel s" for j
    using pred_link [OF inv, of j] that lv by simp
  have "\<exists>t. link_node a ?m 0 ?ps ?s0 = Some t \<and> same_shape ?s0 t
    \<and> (\<forall>q j. nxt t q j =
         (if 0 \<le> j \<and> j < 0 + ?m
          then (if q = ?ps ! (j - 0) then Some (Some a)
                else if q = Node a then nxt ?s0 (?ps ! (j - 0)) j else nxt ?s0 q j)
          else nxt ?s0 q j))"
    by (rule link_node_spec) (use old pl n0 in auto)
  then obtain s1 where s1: "link_node a ?m 0 ?ps ?s0 = Some s1" "same_shape ?s0 s1"
    "\<And>q j. nxt s1 q j = (if j < ?m
          then (if q = ?ps ! j then Some (Some a)
                else if q = Node a then nxt ?s0 (?ps ! j) j else nxt ?s0 q j)
          else nxt ?s0 q j)"
    by auto
  have hh: "nxt s Head j \<noteq> None" if "j < skipListMaxLevel" for j
    using that sl_invD(1) [OF inv] by (simp add: nxt_def)
  have "nxt s1 Head (slevel s + j) \<noteq> None" if "j < l - slevel s" for j
    using that s1(3) n0 hh [of "slevel s + j"] l(2) by auto
  then obtain s2 where s2: "link_head a (l - slevel s) (slevel s) s1 = Some s2" "same_shape s1 s2"
    "\<And>q j. nxt s2 q j = (if q = Head \<and> slevel s \<le> j \<and> j < slevel s + (l - slevel s)
        then Some (Some a) else nxt s1 q j)"
    using link_head_spec [of "l - slevel s" s1 "slevel s" a] by blast
  have "nxt s2 q j = (if q = lastref Head (above s j B) then Some (Some a)
           else if q = Node a then nxt s (lastref Head (above s j B)) j else nxt s q j)"
    if "j < ?m" for q j
    using that s1(3) s2(3) n0 old [of j] by auto
  moreover have "nxt s2 q j = (if q = Head then Some (Some a) else if q = Node a then Some None else nxt s q j)"
    if "slevel s \<le> j" "j < l" for q j
    using that s1(3) s2(3) n0 by auto
  moreover have "nxt s2 q j = nxt s q j" if "l \<le> j" "q \<noteq> Node a" for q j
    using that s1(3) s2(3) n0 by auto
  ultimately show ?thesis using s1(1,2) s2(1,2) same_shape_trans by blast
qed

lemma insert_new:
  assumes inv: "sl_inv s (B @ A)" and B: "\<And>b. b \<in> set B \<Longrightarrow> skey s b < k"
    and A: "\<And>b. b \<in> set A \<Longrightarrow> k < skey s b" and len: "slen s < 2 ^ 38"
  shows "\<exists>t. sl_insert rand k v s = Some t \<and> sl_inv t (B @ length (sheap s) # A)
    \<and> ents t (B @ length (sheap s) # A) = ents s B @ (k, v) # ents s A"
proof -
  define a where "a = length (sheap s)"
  define l where "l = randomLevel rand s"
  define n where "n = \<lparr>nkey = k, nval = v, nnext = replicate l None\<rparr>"
  have l: "1 \<le> l" "l \<le> skipListMaxLevel" using randomLevel_bounds [OF len] by (simp_all add: l_def)
  obtain s1 s2 where
      s1: "link_node a (min l (slevel s)) 0 (preds s B (slevel s)) (s\<lparr>sheap := sheap s @ [n]\<rparr>) = Some s1"
    and s2: "link_head a (l - slevel s) (slevel s) s1 = Some s2"
    and sh: "same_shape (s\<lparr>sheap := sheap s @ [n]\<rparr>) s2"
    and n1: "\<And>q j. j < min l (slevel s) \<Longrightarrow> nxt s2 q j =
          (if q = lastref Head (above s j B) then Some (Some a)
           else if q = Node a then nxt s (lastref Head (above s j B)) j else nxt s q j)"
    and n2: "\<And>q j. slevel s \<le> j \<Longrightarrow> j < l \<Longrightarrow> nxt s2 q j =
          (if q = Head then Some (Some a) else if q = Node a then Some None else nxt s q j)"
    and n3: "\<And>q j. l \<le> j \<Longrightarrow> q \<noteq> Node a \<Longrightarrow> nxt s2 q j = nxt s q j"
    using insert_new_links [OF inv l a_def n_def] by blast
  define t where "t = s2\<lparr>slevel := max l (slevel s), slen := slen s + 1\<rparr>"
  have ins: "sl_insert rand k v s = Some t"
    using findInsertPoint_miss [OF inv B A] s1 s2 l
    by (simp add: sl_insert_def newNode_def t_def Let_def flip: a_def l_def n_def)
  have nt: "nxt t q j = nxt s2 q j" for q j by (simp add: t_def nxt_def split: ref.splits)
  have memL: "b < length (sheap s)" if "b \<in> set (B @ A)" for b using sl_invD(5) [OF inv that] .
  have kt: "skey t b = skey s b" "height t b = height s b" "nval (sheap t ! b) = nval (sheap s ! b)"
    if "b \<in> set (B @ A)" for b
    using sh memL [OF that] by (simp_all add: t_def same_shape_def nth_append)
  have ka: "skey t a = k" "height t a = l" "nval (sheap t ! a) = v"
    using sh by (simp_all add: t_def same_shape_def nth_append a_def n_def)
  have aL: "a \<notin> set (B @ A)" using memL a_def by blast
  have ab: "above t j B = above s j B" "above t j A = above s j A" for j
    using kt(2) by (auto intro!: filter_cong)
  have dist: "distinct (B @ A)" using sl_inv_distinct [OF inv] .
  have ch: "chain t j Head (above t j (B @ a # A))" if j: "j < skipListMaxLevel" for j
  proof -
    have c0: "chain s j Head (above s j B @ above s j A)" using sl_invD(9) [OF inv j] by simp
    consider "j < min l (slevel s)" | "slevel s \<le> j" "j < l" | "l \<le> j" by linarith
    then show ?thesis
    proof cases
      case 1
      have "chain t j Head (above s j B @ a # above s j A)"
      proof (rule chain_insert [OF c0])
        show "distinct (above s j B @ above s j A)" using dist by auto
        show "a \<notin> set (above s j B @ above s j A)" using aL by auto
        have "lastref Head (above s j B) \<noteq> Node a"
          unfolding a_def using memL by (intro lastref_above_old) simp
        then show "nxt t (lastref Head (above s j B)) j = Some (Some a)"
          "nxt t (Node a) j = nxt s (lastref Head (above s j B)) j"
          "\<And>q. q \<noteq> lastref Head (above s j B) \<Longrightarrow> q \<noteq> Node a \<Longrightarrow> nxt t q j = nxt s q j"
          using n1 [OF 1] nt by simp_all
      qed simp_all
      then show ?thesis using 1 ab ka by simp
    next
      case 2
      have "above s j B = []" "above s j A = []"
        using 2 sl_invD(7) [OF inv] by (auto simp: filter_empty_conv not_less intro: le_trans)
      then show ?thesis using 2 ab ka n2 nt by simp
    next
      case 3
      have "nxt t q j = nxt s q j" if "q = Head \<or> (\<exists>b \<in> set (above s j B @ above s j A). q = Node b)" for q
      proof -
        have "q \<noteq> Node a" using that aL by auto
        then show ?thesis using n3 [OF 3] nt by simp
      qed
      then have "chain t j Head (above s j B @ above s j A) = chain s j Head (above s j B @ above s j A)"
        by (rule chain_cong)
      then show ?thesis using 3 c0 ab ka by simp
    qed
  qed
  have "sl_inv t (B @ a # A)"
    unfolding sl_inv_def
  proof (intro conjI ballI allI impI)
    show "length (shead t) = skipListMaxLevel"
      using sh sl_invD(1) [OF inv] by (simp add: t_def same_shape_def)
    show "1 \<le> slevel t" "slevel t \<le> skipListMaxLevel"
      using l sl_invD(3) [OF inv] by (simp_all add: t_def)
    show "slen t = length (B @ a # A)" using sl_invD(4) [OF inv] by (simp add: t_def)
    show "b < length (sheap t)" if "b \<in> set (B @ a # A)" for b
      using that memL [of b] sh a_def by (auto simp: t_def same_shape_def)
    show "1 \<le> height t b" "height t b \<le> slevel t" if "b \<in> set (B @ a # A)" for b
      using that sl_invD(6,7) [OF inv, of b] kt(2) [of b] ka(2) l by (auto simp: t_def)
    show "sorted_wrt (\<lambda>x y. skey t x < skey t y) (B @ a # A)"
    proof -
      have "sorted_wrt (\<lambda>x y. skey t x < skey t y) (B @ A)"
        by (rule sorted_wrt_mono_rel [OF _ sl_invD(8) [OF inv]]) (simp add: kt(1))
      then show ?thesis
        using B A kt(1) ka(1) by (auto simp: sorted_wrt_append)
    qed
    show "chain t j Head (above t j (B @ a # A))" if "j < skipListMaxLevel" for j using ch that .
  qed
  moreover have "ents t (B @ a # A) = ents s B @ (k, v) # ents s A"
    using kt ka by (simp add: ents_def)
  ultimately show ?thesis using ins by (simp add: a_def)
qed

lemma insert_old:
  assumes inv: "sl_inv s (B @ a # A)" and B: "\<And>b. b \<in> set B \<Longrightarrow> skey s b < k"
    and a: "skey s a = k" and A: "\<And>b. b \<in> set A \<Longrightarrow> k < skey s b"
  shows "\<exists>t. sl_insert rand k v s = Some t \<and> sl_inv t (B @ a # A)
    \<and> ents t (B @ a # A) = ents s B @ (k, v) # ents s A"
proof -
  define t where "t = s\<lparr>sheap := (sheap s)[a := (sheap s ! a)\<lparr>nval := v\<rparr>]\<rparr>"
  have ins: "sl_insert rand k v s = Some t"
    using findInsertPoint_hit(1) [OF inv B a A] by (simp add: sl_insert_def t_def)
  have al: "a < length (sheap s)" using sl_invD(5) [OF inv, of a] by simp
  have kt: "skey t b = skey s b" "height t b = height s b" for b
    using al by (simp_all add: t_def nth_list_update)
  have vt: "nval (sheap t ! b) = (if b = a then v else nval (sheap s ! b))" for b
    using al by (simp add: t_def)
  have nt: "nxt t q j = nxt s q j" for q j
    using al by (auto simp: nxt_def t_def nth_list_update split: ref.splits)
  have "chain t j Head xs = chain s j Head xs" for j xs by (rule chain_cong) (rule nt)
  then have inv': "sl_inv t (B @ a # A)"
    using inv unfolding sl_inv_def kt by (simp add: t_def)
  have "distinct (B @ a # A)" using sl_inv_distinct [OF inv] .
  then have "ents t (B @ a # A) = ents s B @ (k, v) # ents s A"
    using a by (auto simp: ents_def kt vt)
  then show ?thesis using ins inv' by blast
qed

section \<open>Remove\<close>

lemma shrink_spec:
  "1 \<le> n \<Longrightarrow> 1 \<le> shrink n h \<and> shrink n h \<le> n \<and> (\<forall>j. shrink n h \<le> j \<and> j < n \<longrightarrow> h ! j = None)"
proof (induction n)
  case (Suc n)
  show ?case
  proof (cases "0 < n \<and> h ! n = None")
    case True
    then have "shrink (Suc n) h = shrink n h" by simp
    moreover have "1 \<le> shrink n h \<and> shrink n h \<le> n \<and> (\<forall>j. shrink n h \<le> j \<and> j < n \<longrightarrow> h ! j = None)"
      using Suc.IH True by simp
    ultimately show ?thesis using True by (auto simp: less_Suc_eq)
  next
    case False
    then have e: "shrink (Suc n) h = Suc n" by auto
    show ?thesis unfolding e by auto
  qed
qed simp

lemma remove_old:
  assumes inv: "sl_inv s (B @ a # A)" and B: "\<And>b. b \<in> set B \<Longrightarrow> skey s b < k"
    and a: "skey s a = k" and A: "\<And>b. b \<in> set A \<Longrightarrow> k < skey s b"
  shows "\<exists>t. sl_remove k s = Some (True, t) \<and> sl_inv t (B @ A) \<and> ents t (B @ A) = ents s B @ ents s A"
proof -
  let ?ps = "preds s B (slevel s)" and ?vs = "nnext (sheap s ! a)"
  have dist: "distinct (B @ a # A)" using sl_inv_distinct [OF inv] .
  have ha: "1 \<le> height s a" "height s a \<le> slevel s" and al: "a < length (sheap s)"
    using sl_invD(5,6,7) [OF inv, of a] by simp_all
  have lv: "1 \<le> slevel s" "slevel s \<le> skipListMaxLevel" using sl_invD(2,3) [OF inv] by simp_all
  have fp: "findPrevNodes s k = Some ?ps"
    by (rule findPrevNodes_preds [OF inv B]) (use a A in \<open>auto intro: less_imp_le\<close>)
  obtain p ps where pp: "?ps = p # ps" using lv by (cases ?ps) (auto simp: preds_def)
  have p0: "p = lastref Head (above s 0 B)" using nth_preds [of 0 "slevel s" s B] lv pp by simp
  have "above s 0 (a # A) = a # A" by (rule above_0 [OF inv]) auto
  then have "nxt s p 0 = Some (Some a)"
    using pred_link [OF inv, of 0] p0 by (simp add: skipListMaxLevel_def)
  then have fr: "findRemovePoint s k = Some (Some (a, ?ps))"
    using fp pp a by (simp add: findRemovePoint_def)
  have "nxt s (?ps ! j) (0 + j) \<noteq> None" if "j < length ?vs" for j
    using that ha lv pred_link [OF inv, of j] by simp
  moreover have "length ?vs \<le> length ?ps" using ha by simp
  ultimately obtain s1 where s1: "unlink ?vs 0 ?ps s = Some s1" "same_shape s s1"
    "\<And>q j. nxt s1 q j = (if 0 \<le> j \<and> j < 0 + length ?vs \<and> q = ?ps ! (j - 0)
       then Some (?vs ! (j - 0)) else nxt s q j)"
    using unlink_spec [of ?vs ?ps s 0] by blast
  define t where "t = s1\<lparr>slevel := shrink (slevel s1) (shead s1), slen := slen s1 - 1\<rparr>"
  have rm: "sl_remove k s = Some (True, t)"
    using fr s1(1) by (simp add: sl_remove_def t_def)
  have nt: "nxt t q j = (if j < height s a \<and> q = lastref Head (above s j B)
      then nxt s (Node a) j else nxt s q j)" for q j
  proof -
    have "nxt t q j = nxt s1 q j" by (simp add: t_def nxt_def split: ref.splits)
    moreover have "j < height s a \<Longrightarrow> nxt s (Node a) j = Some (?vs ! j)"
      using al by (simp add: nxt_def)
    moreover have "j < height s a \<Longrightarrow> ?ps ! j = lastref Head (above s j B)"
      using ha by (simp only: nth_preds)
    ultimately show ?thesis using s1(3) [of q j] by simp
  qed
  have kt: "skey t b = skey s b" "height t b = height s b" "nval (sheap t ! b) = nval (sheap s ! b)" for b
    using s1(2) by (simp_all add: t_def same_shape_def)
  have ch: "chain t j Head (above t j (B @ A))" if j: "j < skipListMaxLevel" for j
  proof -
    have c0: "chain s j Head (above s j B @ above s j (a # A))" using sl_invD(9) [OF inv j] by simp
    show ?thesis
    proof (cases "j < height s a")
      case True
      have "chain t j Head (above s j B @ above s j A)"
      proof (rule chain_delete)
        show "chain s j Head (above s j B @ a # above s j A)" using c0 True by simp
        show "distinct (above s j B @ a # above s j A)" using dist by auto
      qed (use nt True in auto)
      then show ?thesis by (simp add: kt(2))
    next
      case False
      have "chain t j Head (above s j B @ above s j A) = chain s j Head (above s j B @ above s j A)"
        by (rule chain_cong) (use nt False in auto)
      then show ?thesis using c0 False by (simp add: kt(2))
    qed
  qed
  have lv1: "slevel s1 = slevel s" using s1(2) by (simp add: same_shape_def)
  have shr: "1 \<le> slevel t" "slevel t \<le> slevel s" "\<And>j. slevel t \<le> j \<Longrightarrow> j < slevel s \<Longrightarrow> shead t ! j = None"
    using shrink_spec [of "slevel s1" "shead s1"] lv lv1 by (auto simp: t_def)
  have hd_len: "length (shead t) = skipListMaxLevel"
    using s1(2) sl_invD(1) [OF inv] by (simp add: t_def same_shape_def)
  have hb: "height t b \<le> slevel t" if b: "b \<in> set (B @ A)" for b
  proof (rule ccontr)
    assume "\<not> height t b \<le> slevel t"
    then have lt: "slevel t < height t b" by simp
    moreover have "height t b \<le> slevel s" using sl_invD(7) [OF inv, of b] b kt(2) by auto
    ultimately have r: "slevel t < slevel s" by simp
    then have r40: "slevel t < skipListMaxLevel" using lv by simp
    have "chain t (slevel t) Head (above t (slevel t) (B @ A))" using ch r40 .
    moreover have "b \<in> set (above t (slevel t) (B @ A))" using b lt by auto
    then have "above t (slevel t) (B @ A) \<noteq> []" by (metis empty_iff list.set(1))
    ultimately have "nxt t Head (slevel t) \<noteq> Some None"
      by (cases "above t (slevel t) (B @ A)") auto
    then show False using shr(3) [of "slevel t"] r r40 hd_len by (simp add: nxt_def)
  qed
  have "sl_inv t (B @ A)"
    unfolding sl_inv_def
  proof (intro conjI ballI allI impI)
    show "length (shead t) = skipListMaxLevel" by (rule hd_len)
    show "1 \<le> slevel t" by (rule shr(1))
    show "slevel t \<le> skipListMaxLevel" using shr(2) lv by simp
    show "slen t = length (B @ A)"
      using s1(2) sl_invD(4) [OF inv] by (simp add: t_def same_shape_def)
    show "b < length (sheap t)" if "b \<in> set (B @ A)" for b
      using that sl_invD(5) [OF inv, of b] s1(2) by (auto simp: t_def same_shape_def)
    show "1 \<le> height t b" if "b \<in> set (B @ A)" for b
      using that sl_invD(6) [OF inv, of b] kt(2) by auto
    show "height t b \<le> slevel t" if "b \<in> set (B @ A)" for b using hb that .
    show "sorted_wrt (\<lambda>x y. skey t x < skey t y) (B @ A)"
      using sl_invD(8) [OF inv] by (simp add: kt(1) sorted_wrt_append)
    show "chain t j Head (above t j (B @ A))" if "j < skipListMaxLevel" for j using ch that .
  qed
  moreover have "ents t (B @ A) = ents s B @ ents s A" by (simp add: ents_def kt)
  ultimately show ?thesis using rm by blast
qed

lemma remove_absent:
  assumes inv: "sl_inv s (B @ A)" and B: "\<And>b. b \<in> set B \<Longrightarrow> skey s b < k"
    and A: "\<And>b. b \<in> set A \<Longrightarrow> k < skey s b"
  shows "sl_remove k s = Some (False, s)"
proof -
  have lv: "1 \<le> slevel s" using sl_invD(2) [OF inv] .
  have fp: "findPrevNodes s k = Some (preds s B (slevel s))"
    by (rule findPrevNodes_preds [OF inv B]) (use A in \<open>auto intro: less_imp_le\<close>)
  obtain p ps where pp: "preds s B (slevel s) = p # ps"
    using lv by (cases "preds s B (slevel s)") (auto simp: preds_def)
  have p0: "p = lastref Head (above s 0 B)" using nth_preds [of 0 "slevel s" s B] lv pp by simp
  have "above s 0 A = A" by (rule above_0 [OF inv]) auto
  then have "nxt s p 0 = Some (case A of [] \<Rightarrow> None | a # _ \<Rightarrow> Some a)"
    using pred_link [OF inv, of 0] p0 by (simp add: skipListMaxLevel_def)
  then have "findRemovePoint s k = Some None"
    using fp pp A by (cases A) (auto simp: findRemovePoint_def)
  then show ?thesis by (simp add: sl_remove_def)
qed

section \<open>Iteration\<close>

lemma sl_from_chain:
  "chain s 0 (Node a) xs \<Longrightarrow> sl_from s (Some a) = Some (a # xs)"
proof (induction xs arbitrary: a)
  case Nil
  then show ?case by (simp add: sl_from.simps [of s "Some a"] sl_from.simps [of s None])
next
  case (Cons b xs)
  then show ?case by (simp add: sl_from.simps [of s "Some a"])
qed

lemma iterate_inv:
  assumes inv: "sl_inv s L"
  shows "sl_iterate s = Some L" "sl_entries s = Some (ents s L)"
proof -
  have "above s 0 L = L" using above_0 [OF inv, of L] by simp
  then have c: "chain s 0 Head L" using sl_invD(9) [OF inv, of 0] by (simp add: skipListMaxLevel_def)
  show "sl_iterate s = Some L"
  proof (cases L)
    case Nil
    then show ?thesis using c by (simp add: sl_iterate_def sl_from.simps)
  next
    case (Cons a xs)
    then show ?thesis using c sl_from_chain [of s a xs] by (simp add: sl_iterate_def)
  qed
  then show "sl_entries s = Some (ents s L)" by (simp add: sl_entries_def ents_def)
qed

end
