(* ===== verification/SkiplistMap.thy ===== *)
theory SkiplistMap
  imports SkiplistFacts
begin

text \<open>
  The abstract specification of the skip list: a list of entries with strictly increasing keys.
  The locale \<open>keyed_store\<close> is the interface its clients use (\<open>Insert\<close>, \<open>Remove\<close> and the iteration
  order); it is interpreted on the pointer-level operations of \<open>Skiplist\<close>, and its lemmas about
  sequences of operations give the properties of the list.
\<close>

section \<open>Sorted entry lists\<close>

definition al_put :: "64 word \<Rightarrow> 'v \<Rightarrow> (64 word \<times> 'v) list \<Rightarrow> (64 word \<times> 'v) list" where
  "al_put k v es = filter (\<lambda>e. fst e < k) es @ (k, v) # filter (\<lambda>e. k < fst e) es"

definition al_del :: "64 word \<Rightarrow> (64 word \<times> 'v) list \<Rightarrow> (64 word \<times> 'v) list" where
  "al_del k es = filter (\<lambda>e. fst e \<noteq> k) es"

abbreviation increasing :: "(64 word \<times> 'v) list \<Rightarrow> bool" where
  "increasing es \<equiv> sorted_wrt (\<lambda>a b. fst a < fst b) es"

lemma map_of_filter_key: "map_of (filter (\<lambda>e. P (fst e)) es) x = (if P x then map_of es x else None)"
  by (induction es) auto

lemma map_of_al_put: "map_of (al_put k v es) = (map_of es)(k \<mapsto> v)"
proof
  show "map_of (al_put k v es) x = ((map_of es)(k \<mapsto> v)) x" for x
    using linorder_less_linear [of x k] map_of_filter_key [of "\<lambda>x. x < k" es x]
      map_of_filter_key [of "\<lambda>x. k < x" es x]
    by (auto simp: al_put_def map_add_def split: option.splits)
qed

lemma map_of_al_del: "map_of (al_del k es) = (map_of es)(k := None)"
  by (auto simp: al_del_def map_of_filter_key [of "\<lambda>x. x \<noteq> k"])

lemma increasing_al_put: "increasing es \<Longrightarrow> increasing (al_put k v es)"
  by (auto simp: al_put_def sorted_wrt_append sorted_wrt_filter intro: less_trans)

lemma increasing_al_del: "increasing es \<Longrightarrow> increasing (al_del k es)"
  by (simp add: al_del_def sorted_wrt_filter)

lemma length_al_put: "length (al_put k v es) \<le> length es + 1"
proof -
  have "length (filter (\<lambda>e. fst e < k) es) + length (filter (\<lambda>e. k < fst e) es) \<le> length es"
    by (induction es) auto
  then show ?thesis by (simp add: al_put_def)
qed

lemma length_al_del: "length (al_del k es) \<le> length es"
  by (simp add: al_del_def)

lemma increasing_distinct: "increasing es \<Longrightarrow> distinct (map fst es)"
  by (induction es) auto

text \<open>Operations on a store and what they do to a finite map.\<close>

datatype 'v store_op = OpInsert "64 word" "64 word" 'v | OpRemove "64 word"

fun op_map :: "'v store_op \<Rightarrow> (64 word \<rightharpoonup> 'v) \<Rightarrow> (64 word \<rightharpoonup> 'v)" where
  "op_map (OpInsert r k v) m = m(k \<mapsto> v)"
| "op_map (OpRemove k) m = m(k := None)"

section \<open>The interface\<close>

locale keyed_store =
  fixes inv :: "'s \<Rightarrow> bool"
    and entries :: "'s \<Rightarrow> (64 word \<times> 'v) list"
    and ins :: "64 word \<Rightarrow> 64 word \<Rightarrow> 'v \<Rightarrow> 's \<Rightarrow> 's option"
    and del :: "64 word \<Rightarrow> 's \<Rightarrow> (bool \<times> 's) option"
  assumes inc: "inv s \<Longrightarrow> increasing (entries s)"
    and ins_ok: "inv s \<Longrightarrow> length (entries s) < 2 ^ 38 \<Longrightarrow>
      \<exists>t. ins r k v s = Some t \<and> inv t \<and> entries t = al_put k v (entries s)"
    and del_ok: "inv s \<Longrightarrow>
      \<exists>t. del k s = Some (map_of (entries s) k \<noteq> None, t) \<and> inv t \<and> entries t = al_del k (entries s)"
begin

fun step_op :: "'v store_op \<Rightarrow> 's \<Rightarrow> 's option" where
  "step_op (OpInsert r k v) s = ins r k v s"
| "step_op (OpRemove k) s = map_option snd (del k s)"

fun run_ops :: "'v store_op list \<Rightarrow> 's \<Rightarrow> 's option" where
  "run_ops [] s = Some s"
| "run_ops (x # xs) s = Option.bind (step_op x s) (run_ops xs)"

lemma step_ok:
  assumes "inv s" "length (entries s) < 2 ^ 38"
  shows "\<exists>t. step_op x s = Some t \<and> inv t \<and> map_of (entries t) = op_map x (map_of (entries s))
    \<and> length (entries t) \<le> length (entries s) + 1"
proof (cases x)
  case (OpInsert r k v)
  then show ?thesis
    using ins_ok [OF assms, of r k v] length_al_put [of k v "entries s"] by (auto simp: map_of_al_put)
next
  case (OpRemove k)
  then show ?thesis
    using del_ok [OF assms(1), of k] length_al_del [of k "entries s"] by (auto simp: map_of_al_del)
qed

lemma run_ok:
  "inv s \<Longrightarrow> length (entries s) + length xs \<le> 2 ^ 38 \<Longrightarrow>
   \<exists>t. run_ops xs s = Some t \<and> inv t \<and> map_of (entries t) = fold op_map xs (map_of (entries s))"
proof (induction xs arbitrary: s)
  case (Cons x xs)
  then obtain t where t: "step_op x s = Some t" "inv t"
    "map_of (entries t) = op_map x (map_of (entries s))" "length (entries t) \<le> length (entries s) + 1"
    using step_ok [of s x] by auto
  then have "length (entries t) + length xs \<le> 2 ^ 38" using Cons.prems by simp
  then show ?case using Cons.IH [OF t(2)] t by simp
qed simp

lemma del_many:
  "inv s \<Longrightarrow> \<exists>t. fold (\<lambda>k s. Option.bind s (\<lambda>s. map_option snd (del k s))) ks (Some s) = Some t \<and> inv t
     \<and> entries t = filter (\<lambda>e. fst e \<notin> set ks) (entries s)"
proof (induction ks arbitrary: s)
  case (Cons k ks)
  obtain t where "del k s = Some (map_of (entries s) k \<noteq> None, t)" "inv t" "entries t = al_del k (entries s)"
    using del_ok [OF Cons.prems, of k] by blast
  moreover from Cons.IH [OF this(2)] this(3) show ?case
    by (auto simp: calculation al_del_def conj_commute intro!: filter_cong)
qed simp

end

section \<open>The skip list is a keyed store\<close>

definition sl_wf :: "'v skiplist \<Rightarrow> bool" where
  "sl_wf s \<longleftrightarrow> (\<exists>L. sl_inv s L)"

definition sl_ents :: "'v skiplist \<Rightarrow> (64 word \<times> 'v) list" where
  "sl_ents s = the (sl_entries s)"

lemma sl_ents_inv: "sl_inv s L \<Longrightarrow> sl_ents s = ents s L"
  using iterate_inv(2) [of s L] by (simp add: sl_ents_def)

lemma sl_ents_length: "sl_wf s \<Longrightarrow> slen s = length (sl_ents s)"
  using sl_invD(4) by (fastforce simp: sl_wf_def sl_ents_inv ents_def)

lemma sl_wf_new: "sl_wf newSkipList"
  using new_inv by (auto simp: sl_wf_def)

lemma sl_ents_new: "sl_ents newSkipList = []"
  by (simp add: sl_ents_inv [OF new_inv] ents_def)

lemma sl_cases:
  assumes "sl_wf s"
  obtains (hit) B a A where "sl_inv s (B @ a # A)" "skey s a = k" "\<And>b. b \<in> set B \<Longrightarrow> skey s b < k"
      "\<And>b. b \<in> set A \<Longrightarrow> k < skey s b"
  | (miss) B A where "sl_inv s (B @ A)" "\<And>b. b \<in> set B \<Longrightarrow> skey s b < k" "\<And>b. b \<in> set A \<Longrightarrow> k < skey s b"
proof -
  obtain L where L: "sl_inv s L" using assms by (auto simp: sl_wf_def)
  show thesis
  proof (rule key_split [OF sl_invD(8) [OF L], of k])
    show thesis if "L = B @ a # A" "skey s a = k" "\<And>b. b \<in> set B \<Longrightarrow> skey s b < k"
      "\<And>b. b \<in> set A \<Longrightarrow> k < skey s b" for B a A
      using hit [of B a A] that L by blast
    show thesis if "L = B @ A" "\<And>b. b \<in> set B \<Longrightarrow> skey s b < k"
      "\<And>b. b \<in> set A \<Longrightarrow> k < skey s b" for B A
      using miss [of B A] that L by blast
  qed
qed

lemma ents_append: "ents s (B @ A) = ents s B @ ents s A"
  by (simp add: ents_def)

lemma ents_Cons: "ents s (a # A) = (skey s a, nval (sheap s ! a)) # ents s A"
  by (simp add: ents_def)

lemma filter_ents:
  "filter (\<lambda>e. P (fst e)) (ents s B) = ents s (filter (\<lambda>a. P (skey s a)) B)"
  by (induction B) (simp_all add: ents_def)

lemma filter_below:
  assumes "\<And>b. b \<in> set B \<Longrightarrow> skey s b < k"
  shows "filter (\<lambda>e. fst e < k) (ents s B) = ents s B" "filter (\<lambda>e. k < fst e) (ents s B) = []"
    "filter (\<lambda>e. fst e \<noteq> k) (ents s B) = ents s B" "map_of (ents s B) k = None"
  using assms by (fastforce simp: ents_def filter_id_conv filter_empty_conv map_of_eq_None_iff dest: less_asym)+

lemma filter_above:
  assumes "\<And>b. b \<in> set B \<Longrightarrow> k < skey s b"
  shows "filter (\<lambda>e. k < fst e) (ents s B) = ents s B" "filter (\<lambda>e. fst e < k) (ents s B) = []"
    "filter (\<lambda>e. fst e \<noteq> k) (ents s B) = ents s B" "map_of (ents s B) k = None"
  using assms by (fastforce simp: ents_def filter_id_conv filter_empty_conv map_of_eq_None_iff dest: less_asym)+

lemma sl_inc: "sl_wf s \<Longrightarrow> increasing (sl_ents s)"
  using sl_invD(8) by (fastforce simp: sl_wf_def sl_ents_inv ents_def sorted_wrt_map)

lemma sl_insert_ok:
  assumes wf: "sl_wf s" and len: "length (sl_ents s) < 2 ^ 38"
  shows "\<exists>t. sl_insert r k v s = Some t \<and> sl_wf t \<and> sl_ents t = al_put k v (sl_ents s)"
  using wf
proof (cases rule: sl_cases [of s k])
  case (hit B a A)
  obtain t where t: "sl_insert r k v s = Some t" "sl_inv t (B @ a # A)"
    "ents t (B @ a # A) = ents s B @ (k, v) # ents s A"
    using insert_old [OF hit(1,3,2,4), of r v] by blast
  have "al_put k v (sl_ents s) = ents s B @ (k, v) # ents s A"
    using filter_below [OF hit(3)] filter_above [OF hit(4)] hit(2)
    by (simp add: al_put_def sl_ents_inv [OF hit(1)] ents_append ents_Cons)
  then show ?thesis using t sl_ents_inv [OF t(2)] by (auto simp: sl_wf_def)
next
  case (miss B A)
  have "slen s < 2 ^ 38" using len sl_ents_length [OF wf] by simp
  then obtain t where t: "sl_insert r k v s = Some t" "sl_inv t (B @ length (sheap s) # A)"
    "ents t (B @ length (sheap s) # A) = ents s B @ (k, v) # ents s A"
    using insert_new [OF miss(1,2,3), of r v] by blast
  have "al_put k v (sl_ents s) = ents s B @ (k, v) # ents s A"
    using filter_below [OF miss(2)] filter_above [OF miss(3)]
    by (simp add: al_put_def sl_ents_inv [OF miss(1)] ents_append)
  then show ?thesis using t sl_ents_inv [OF t(2)] by (auto simp: sl_wf_def)
qed

lemma sl_remove_ok:
  assumes wf: "sl_wf s"
  shows "\<exists>t. sl_remove k s = Some (map_of (sl_ents s) k \<noteq> None, t) \<and> sl_wf t \<and> sl_ents t = al_del k (sl_ents s)"
  using wf
proof (cases rule: sl_cases [of s k])
  case (hit B a A)
  obtain t where t: "sl_remove k s = Some (True, t)" "sl_inv t (B @ A)" "ents t (B @ A) = ents s B @ ents s A"
    using remove_old [OF hit(1,3,2,4)] by blast
  have "al_del k (sl_ents s) = ents s B @ ents s A" "map_of (sl_ents s) k \<noteq> None"
    using filter_below [OF hit(3)] filter_above [OF hit(4)] hit(2)
    by (simp_all add: al_del_def sl_ents_inv [OF hit(1)] ents_append ents_Cons map_add_def)
  then show ?thesis using t sl_ents_inv [OF t(2)] by (auto simp: sl_wf_def)
next
  case (miss B A)
  have "al_del k (sl_ents s) = sl_ents s" "map_of (sl_ents s) k = None"
    using filter_below [OF miss(2)] filter_above [OF miss(3)]
    by (simp_all add: al_del_def sl_ents_inv [OF miss(1)] ents_append map_add_def)
  then show ?thesis using remove_absent [OF miss] wf by auto
qed

interpretation skl: keyed_store sl_wf sl_ents sl_insert sl_remove
  by unfold_locales (simp_all only: sl_inc sl_insert_ok sl_remove_ok)

section \<open>Properties\<close>

text \<open>A run of operations on a new list.\<close>

fun sl_run :: "'v store_op list \<Rightarrow> 'v skiplist \<Rightarrow> 'v skiplist option" where
  "sl_run [] s = Some s"
| "sl_run (OpInsert r k v # xs) s = Option.bind (sl_insert r k v s) (sl_run xs)"
| "sl_run (OpRemove k # xs) s = Option.bind (sl_remove k s) (\<lambda>(_, t). sl_run xs t)"

lemma sl_run_eq: "sl_run xs s = skl.run_ops xs s"
proof (induction xs s rule: sl_run.induct)
  case (3 k xs s)
  then show ?case by (cases "sl_remove k s") auto
qed (auto intro: Option.bind_cong)

lemma sl_run_new:
  assumes "length xs \<le> 2 ^ 38"
  shows "\<exists>t. sl_run xs newSkipList = Some t \<and> sl_wf t \<and> map_of (sl_ents t) = fold op_map xs Map.empty"
  using skl.run_ok [OF sl_wf_new, of xs] assms by (simp add: sl_run_eq sl_ents_new)

lemma sl_find_ok:
  assumes "sl_wf s"
  shows "sl_find s k = Some (map_of (sl_ents s) k) \<and> sl_has s k = Some (map_of (sl_ents s) k \<noteq> None)"
  using assms
proof (cases rule: sl_cases [of s k])
  case (hit B a A)
  then show ?thesis
    using findInsertPoint_hit(2) [OF hit(1,3,2,4)] filter_below(4) [OF hit(3)] filter_above(4) [OF hit(4)]
    by (simp add: sl_find_def sl_has_def sl_ents_inv [OF hit(1)] ents_append ents_Cons map_add_def)
next
  case (miss B A)
  then show ?thesis
    using doFindNode_miss [OF miss] filter_below(4) [OF miss(2)] filter_above(4) [OF miss(3)]
    by (simp add: sl_find_def sl_has_def sl_ents_inv [OF miss(1)] ents_append map_add_def)
qed

lemma chain_node_next:
  assumes "sl_inv s (B @ a # A)"
  shows "nxt s (Node a) 0 = Some (case A of [] \<Rightarrow> None | b # _ \<Rightarrow> Some b)"
proof -
  have f: "above s 0 ((B @ [a]) @ A) = (B @ [a]) @ A" using above_0 [OF assms, of "B @ a # A"] by simp
  have "chain s 0 Head ((B @ [a]) @ A)"
    using sl_invD(9) [OF assms, of 0] f by (simp add: skipListMaxLevel_def)
  then show ?thesis using chain_suffix [of s 0 Head "B @ [a]" A] chain_nxt [of s 0 "Node a" A]
    by (simp add: lastref_append)
qed

text \<open>The key and value of the node a search returns.\<close>

definition node_entry :: "'v skiplist \<Rightarrow> nat option \<Rightarrow> (64 word \<times> 'v) option" where
  "node_entry s n = map_option (\<lambda>a. (skey s a, nval (sheap s ! a))) n"

definition first_entry :: "('a \<Rightarrow> bool) \<Rightarrow> 'a list \<Rightarrow> 'a option" where
  "first_entry P es = (case filter P es of [] \<Rightarrow> None | e # _ \<Rightarrow> Some e)"

lemma bounds_ok:
  assumes "sl_wf s"
  shows "map_option (node_entry s) (sl_lowerBound s k) = Some (first_entry (\<lambda>e. k \<le> fst e) (sl_ents s))"
    "map_option (node_entry s) (sl_upperBound s k) = Some (first_entry (\<lambda>e. k < fst e) (sl_ents s))"
proof -
  have fB: "filter (\<lambda>e. k \<le> fst e) (ents s B) = []" "filter (\<lambda>e. k < fst e) (ents s B) = []"
    if "\<And>b. b \<in> set B \<Longrightarrow> skey s b < k" for B
    using that by (fastforce simp: ents_def filter_empty_conv dest: leD)+
  have fA: "filter (\<lambda>e. k \<le> fst e) (ents s A) = ents s A" "filter (\<lambda>e. k < fst e) (ents s A) = ents s A"
    if "\<And>b. b \<in> set A \<Longrightarrow> k < skey s b" for A
    using that by (fastforce simp: ents_def filter_id_conv)+
  from assms have "map_option (node_entry s) (sl_lowerBound s k) = Some (first_entry (\<lambda>e. k \<le> fst e) (sl_ents s))
    \<and> map_option (node_entry s) (sl_upperBound s k) = Some (first_entry (\<lambda>e. k < fst e) (sl_ents s))"
  proof (cases rule: sl_cases [of s k])
    case (hit B a A)
    have l: "sl_lowerBound s k = Some (Some a)"
      using findInsertPoint_hit(2) [OF hit(1,3,2,4)] by (simp add: sl_lowerBound_def)
    moreover have "sl_upperBound s k = Some (case A of [] \<Rightarrow> None | b # _ \<Rightarrow> Some b)"
      using l chain_node_next [OF hit(1)] hit(2) by (simp add: sl_upperBound_def)
    moreover have "filter (\<lambda>e. k \<le> fst e) (sl_ents s) = (k, nval (sheap s ! a)) # ents s A"
      "filter (\<lambda>e. k < fst e) (sl_ents s) = ents s A"
      using hit(2) fB [OF hit(3)] fA [OF hit(4)]
      by (simp_all add: sl_ents_inv [OF hit(1)] ents_append ents_Cons)
    ultimately show ?thesis
      using hit(2) by (cases A) (simp_all add: node_entry_def first_entry_def ents_Cons, simp add: ents_def)
  next
    case (miss B A)
    have l: "sl_lowerBound s k = Some (case A of [] \<Rightarrow> None | a # _ \<Rightarrow> Some a)"
      using doFindNode_miss [OF miss] by (simp add: sl_lowerBound_def)
    moreover have "sl_upperBound s k = sl_lowerBound s k"
      using l miss(3) by (cases A) (auto simp: sl_upperBound_def)
    moreover have "filter (\<lambda>e. k \<le> fst e) (sl_ents s) = ents s A" "filter (\<lambda>e. k < fst e) (sl_ents s) = ents s A"
      using fB [OF miss(2)] fA [OF miss(3)]
      by (simp_all add: sl_ents_inv [OF miss(1)] ents_append)
    ultimately show ?thesis
      by (cases A) (simp_all add: node_entry_def first_entry_def ents_Cons, simp add: ents_def)
  qed
  then show "map_option (node_entry s) (sl_lowerBound s k) = Some (first_entry (\<lambda>e. k \<le> fst e) (sl_ents s))"
    "map_option (node_entry s) (sl_upperBound s k) = Some (first_entry (\<lambda>e. k < fst e) (sl_ents s))"
    by simp_all
qed

text \<open>C3: Starting from a new skip list, any sequence of at most 2^38 inserts and removes, whatever
  the random numbers, runs without a panic and leaves a list whose \<open>Find\<close> and \<open>Has\<close> answer for
  every key as the finite map that the same operations build; iteration meets every entry
  once in increasing key order, and \<open>Len\<close> is the number of entries.\<close>

theorem skiplist_refines_map:
  assumes "length xs \<le> 2 ^ 38"
  shows "\<exists>t es. sl_run xs newSkipList = Some t \<and> sl_entries t = Some es
    \<and> increasing es \<and> map_of es = fold op_map xs Map.empty \<and> slen t = length es
    \<and> (\<forall>k. sl_find t k = Some (fold op_map xs Map.empty k)
         \<and> sl_has t k = Some (fold op_map xs Map.empty k \<noteq> None))"
proof -
  obtain t where t: "sl_run xs newSkipList = Some t" "sl_wf t" "map_of (sl_ents t) = fold op_map xs Map.empty"
    using sl_run_new [OF assms] by blast
  have "sl_entries t = Some (sl_ents t)"
    using t(2) iterate_inv(2) by (fastforce simp: sl_wf_def sl_ents_def)
  then show ?thesis using t sl_inc [OF t(2)] sl_ents_length [OF t(2)] sl_find_ok [OF t(2)] by auto
qed

theorem skiplist_refines_map_witness:
  "\<exists>t es. sl_run [OpInsert 5 2 ''b'', OpInsert 9 1 ''a'', OpRemove 2] newSkipList = Some t
    \<and> sl_entries t = Some es \<and> map_of es = [1 \<mapsto> ''a'']"
proof -
  have "fold op_map [OpInsert 5 2 ''b'', OpInsert 9 1 ''a'', OpRemove 2] Map.empty = [1 \<mapsto> ''a'']"
    by (auto simp: fun_eq_iff)
  then show ?thesis
    using skiplist_refines_map [of "[OpInsert 5 2 ''b'', OpInsert 9 1 ''a'', OpRemove 2]"] by auto
qed

text \<open>After the same runs \<open>FindLowerBoundNode\<close> returns the entry with the least key that is
  not below the one asked for, \<open>FindUpperBoundNode\<close> the one with the least key above it, each
  nothing when there is none, and \<open>Remove\<close> tells whether the key was present.\<close>

theorem skiplist_bounds:
  assumes "length xs \<le> 2 ^ 38"
  shows "\<exists>t es. sl_run xs newSkipList = Some t \<and> sl_entries t = Some es
    \<and> map_option (node_entry t) (sl_lowerBound t k) = Some (first_entry (\<lambda>e. k \<le> fst e) es)
    \<and> map_option (node_entry t) (sl_upperBound t k) = Some (first_entry (\<lambda>e. k < fst e) es)
    \<and> map_option fst (sl_remove k t) = Some (fold op_map xs Map.empty k \<noteq> None)"
proof -
  obtain t where t: "sl_run xs newSkipList = Some t" "sl_wf t" "map_of (sl_ents t) = fold op_map xs Map.empty"
    using sl_run_new [OF assms] by blast
  have "sl_entries t = Some (sl_ents t)"
    using t(2) iterate_inv(2) by (fastforce simp: sl_wf_def sl_ents_def)
  moreover have "map_option fst (sl_remove k t) = Some (fold op_map xs Map.empty k \<noteq> None)"
    using sl_remove_ok [OF t(2), of k] t(3) by auto
  ultimately show ?thesis using t(1) bounds_ok [OF t(2), of k] by auto
qed

theorem skiplist_bounds_witness:
  "\<exists>t. sl_run [OpInsert 5 2 ''b'', OpInsert 9 7 ''a''] newSkipList = Some t
    \<and> map_option fst (sl_remove 7 t) = Some True"
  using skiplist_bounds [of "[OpInsert 5 2 ''b'', OpInsert 9 7 ''a'']" 7] by auto

end
