(* ===== verification/AnyPadding.thy ===== *)
theory AnyPadding
  imports GoLib Codec "HOL-Library.AList"
begin

text \<open>
  \<open>transport/anytls/util\<close>'s \<open>StringMap\<close>, \<open>transport/anytls/padding\<close> and the frames of
  \<open>transport/anytls/session/frame.go\<close>. A Go map is an association list without double keys; the
  order in which \<open>range\<close> meets the entries is the order of the list, so a statement about every
  list is one about every order. \<open>crypto/rand\<close> is a supply of random numbers, and the MD5 of a
  scheme is a parameter.
\<close>

type_synonym string_map = "(string \<times> string) list"

definition kv_line :: "string \<times> string \<Rightarrow> string" where
  "kv_line e = fst e @ ''='' @ snd e"

definition stringMap_toBytes :: "string_map \<Rightarrow> bytes" where
  "stringMap_toBytes m = s2b (join [CHR 0x0A] (map kv_line m))"

fun add_line :: "string \<Rightarrow> string_map \<Rightarrow> string_map" where
  "add_line line m =
     (case split_n2 (CHR ''='') line of [k, v] \<Rightarrow> AList.update k v m | _ \<Rightarrow> m)"

definition stringMap_fromBytes :: "bytes \<Rightarrow> string_map" where
  "stringMap_fromBytes b = fold add_line (split_on (CHR 0x0A) (b2s b)) []"

section \<open>Padding schemes\<close>

abbreviation CheckMark :: int where "CheckMark \<equiv> -1"

record padding_factory =
  pf_scheme :: string_map
  pf_raw :: bytes
  pf_stop :: "32 word"
  pf_md5 :: string

definition newPaddingFactory :: "(bytes \<Rightarrow> string) \<Rightarrow> bytes \<Rightarrow> padding_factory option" where
  "newPaddingFactory md5hex raw =
     (let scheme = stringMap_fromBytes raw in
      if length scheme = 0 then None
      else (case map_of scheme ''stop'' of
          None \<Rightarrow> None
        | Some v \<Rightarrow> (case atoi v of
              (stop, None) \<Rightarrow> Some \<lparr>pf_scheme = scheme, pf_raw = raw, pf_stop = word_of_int stop, pf_md5 = md5hex raw\<rparr>
            | (_, Some _) \<Rightarrow> None)))"

definition updatePaddingScheme :: "(bytes \<Rightarrow> string) \<Rightarrow> bytes \<Rightarrow> padding_factory \<Rightarrow> bool \<times> padding_factory" where
  "updatePaddingScheme md5hex raw to =
     (case newPaddingFactory md5hex raw of Some p \<Rightarrow> (True, p) | None \<Rightarrow> (False, to))"

text \<open>\<open>rand.Int(rand.Reader, n)\<close>: a number below \<open>n\<close> from the supply.\<close>

fun rand_int :: "int \<Rightarrow> nat list \<Rightarrow> int \<times> nat list" where
  "rand_int n [] = (0, [])"
| "rand_int n (r # rs) = (int r mod n, rs)"

definition range_size :: "string \<Rightarrow> nat list \<Rightarrow> int list \<times> nat list" where
  "range_size sRange rnd =
     (let parts = split_on (CHR ''-'') sRange in
      if length parts = 2 then
        (case (parse_int64 (parts ! 0), parse_int64 (parts ! 1)) of
           ((lo0, None), (hi0, None)) \<Rightarrow>
             (let lo = (if lo0 > hi0 then hi0 else lo0); hi = (if lo0 > hi0 then lo0 else hi0) in
              if lo \<le> 0 \<or> hi \<le> 0 then ([], rnd)
              else if lo = hi then ([lo], rnd)
              else (case rand_int (hi - lo) rnd of (i, rnd') \<Rightarrow> ([i + lo], rnd')))
         | _ \<Rightarrow> ([], rnd))
      else if sRange = ''c'' then ([CheckMark], rnd) else ([], rnd))"

fun range_sizes :: "string list \<Rightarrow> nat list \<Rightarrow> int list \<times> nat list" where
  "range_sizes [] rnd = ([], rnd)"
| "range_sizes (r # rs) rnd =
     (case range_size r rnd of (xs, rnd1) \<Rightarrow>
        (case range_sizes rs rnd1 of (ys, rnd2) \<Rightarrow> (xs @ ys, rnd2)))"

definition generateRecordPayloadSizes :: "padding_factory \<Rightarrow> 32 word \<Rightarrow> nat list \<Rightarrow> int list \<times> nat list" where
  "generateRecordPayloadSizes p pkt rnd =
     (case map_of (pf_scheme p) (itoa (unat pkt)) of
        None \<Rightarrow> ([], rnd)
      | Some s \<Rightarrow> range_sizes (split_on (CHR '','') s) rnd)"

text \<open>The constant \<open>DefaultPaddingScheme\<close>, line by line.\<close>

definition defaultPaddingScheme :: bytes where
  "defaultPaddingScheme = s2b (join [CHR 0x0A]
     [''stop=8'', ''0=30-30'', ''1=100-400'',
      ''2=400-500,c,500-1000,c,500-1000,c,500-1000,c,500-1000'', ''3=9-9,500-1000'',
      ''4=500-1000'', ''5=500-1000'', ''6=500-1000'', ''7=500-1000''])"

section \<open>Frames\<close>

abbreviation cmdWaste :: byte where "cmdWaste \<equiv> 0"
abbreviation cmdSYN :: byte where "cmdSYN \<equiv> 1"
abbreviation cmdPSH :: byte where "cmdPSH \<equiv> 2"
abbreviation cmdFIN :: byte where "cmdFIN \<equiv> 3"
abbreviation cmdSettings :: byte where "cmdSettings \<equiv> 4"
abbreviation cmdAlert :: byte where "cmdAlert \<equiv> 5"
abbreviation cmdUpdatePaddingScheme :: byte where "cmdUpdatePaddingScheme \<equiv> 6"
abbreviation cmdSYNACK :: byte where "cmdSYNACK \<equiv> 7"
abbreviation cmdHeartRequest :: byte where "cmdHeartRequest \<equiv> 8"
abbreviation cmdHeartResponse :: byte where "cmdHeartResponse \<equiv> 9"
abbreviation cmdServerSettings :: byte where "cmdServerSettings \<equiv> 10"

abbreviation headerOverHeadSize :: nat where "headerOverHeadSize \<equiv> 7"

record frame =
  f_cmd :: byte
  f_sid :: "32 word"
  f_data :: bytes

definition newFrame :: "byte \<Rightarrow> 32 word \<Rightarrow> frame" where
  "newFrame cmd sid = \<lparr>f_cmd = cmd, f_sid = sid, f_data = []\<rparr>"

text \<open>The buffer that \<open>writeControlFrame\<close> and \<open>writeDataFrame\<close> build; the length is truncated to
  16 bits.\<close>

definition frame_bytes :: "frame \<Rightarrow> bytes" where
  "frame_bytes f = [f_cmd f] @ put_be32 (f_sid f) @ put_be16 (word_of_nat (length (f_data f))) @ f_data f"

definition hdr_cmd :: "bytes \<Rightarrow> byte" where "hdr_cmd h = h ! 0"
definition hdr_streamID :: "bytes \<Rightarrow> 32 word" where "hdr_streamID h = get_be32 (drop 1 h)"
definition hdr_length :: "bytes \<Rightarrow> 16 word" where "hdr_length h = get_be16 (drop 5 h)"

text \<open>The commands after which the receive loop reads data.\<close>

definition has_data :: "byte \<Rightarrow> bool" where
  "has_data cmd \<longleftrightarrow> cmd \<in> {cmdWaste, cmdPSH, cmdSettings, cmdAlert, cmdUpdatePaddingScheme, cmdSYNACK, cmdServerSettings}"

definition read_frame :: "bytes \<Rightarrow> (frame \<times> bytes) res" where
  "read_frame inp =
     rbind (read_full headerOverHeadSize inp) (\<lambda>(h, r).
       if has_data (hdr_cmd h) \<and> hdr_length h > 0
       then rbind (read_full (unat (hdr_length h)) r) (\<lambda>(d, r').
              Ok (\<lparr>f_cmd = hdr_cmd h, f_sid = hdr_streamID h, f_data = d\<rparr>, r'))
       else Ok (\<lparr>f_cmd = hdr_cmd h, f_sid = hdr_streamID h, f_data = []\<rparr>, r))"

definition frame_ok :: "frame \<Rightarrow> bool" where
  "frame_ok f \<longleftrightarrow> length (f_data f) < 65536 \<and> (f_data f = [] \<or> has_data (f_cmd f))"

definition frame_hdr :: "frame \<Rightarrow> bytes" where
  "frame_hdr f = [f_cmd f] @ put_be32 (f_sid f) @ put_be16 (word_of_nat (length (f_data f)))"

lemma frame_bytes_hdr: "frame_bytes f = frame_hdr f @ f_data f"
  by (simp add: frame_bytes_def frame_hdr_def)

lemma frame_hdr_fields:
  "length (frame_hdr f) = headerOverHeadSize" "hdr_cmd (frame_hdr f) = f_cmd f"
  "hdr_streamID (frame_hdr f) = f_sid f" "hdr_length (frame_hdr f) = word_of_nat (length (f_data f))"
proof -
  have d5: "drop 5 (frame_hdr f) = put_be16 (word_of_nat (length (f_data f)))"
    by (simp add: put_be32_def frame_hdr_def)
  show "hdr_length (frame_hdr f) = word_of_nat (length (f_data f))"
    unfolding hdr_length_def d5 by simp
qed (simp_all add: hdr_cmd_def hdr_streamID_def frame_hdr_def)

lemma frame_len_word:
  assumes "frame_ok f"
  shows "unat (word_of_nat (length (f_data f)) :: 16 word) = length (f_data f)"
    "(word_of_nat (length (f_data f)) :: 16 word) > 0 \<longleftrightarrow> f_data f \<noteq> []"
proof -
  show u: "unat (word_of_nat (length (f_data f)) :: 16 word) = length (f_data f)"
    using assms by (intro word_of_nat_unat_16) (simp add: frame_ok_def)
  show "(word_of_nat (length (f_data f)) :: 16 word) > 0 \<longleftrightarrow> f_data f \<noteq> []"
    using u by (metis length_0_conv unat_eq_zero word_gt_0)
qed

lemma read_frame_bytes:
  assumes "frame_ok f"
  shows "read_frame (frame_bytes f @ r) = Ok (f, r)"
proof -
  have "read_full 7 (frame_bytes f @ r) = Ok (frame_hdr f, f_data f @ r)"
    using read_full_append [OF frame_hdr_fields(1)] by (simp add: frame_bytes_hdr)
  moreover have "\<lparr>f_cmd = f_cmd f, f_sid = f_sid f, f_data = f_data f\<rparr> = f" by simp
  ultimately show ?thesis
    using assms frame_len_word [OF assms] by (auto simp: read_frame_def frame_hdr_fields frame_ok_def)
qed

interpretation frame_codec: codec frame_bytes read_frame frame_ok
  by unfold_locales (simp_all only: read_frame_bytes, simp add: frame_bytes_def)

section \<open>Facts\<close>

lemma add_line_kv: "CHR ''='' \<notin> set k \<Longrightarrow> add_line (kv_line (k, v)) m = AList.update k v m"
  using split_n2_append [of "CHR ''=''" k v] by (simp add: kv_line_def)

lemma fold_add_line:
  "(\<And>k v. (k, v) \<in> set es \<Longrightarrow> CHR ''='' \<notin> set k) \<Longrightarrow>
   fold add_line (map kv_line es) m = AList.updates (map fst es) (map snd es) m"
proof (induction es arbitrary: m)
  case (Cons e es)
  obtain k v where e: "e = (k, v)" by (cases e)
  have "CHR ''='' \<notin> set k" using Cons.prems [of k v] e by simp
  then have "add_line (kv_line e) m = AList.update k v m" unfolding e by (rule add_line_kv)
  moreover have "fold add_line (map kv_line es) (AList.update k v m)
    = AList.updates (map fst es) (map snd es) (AList.update k v m)"
    by (rule Cons.IH) (use Cons.prems in auto)
  ultimately show ?case by (simp add: e del: add_line.simps)
qed simp

lemma map_of_updates_new:
  "distinct (map fst es) \<Longrightarrow> map_of (AList.updates (map fst es) (map snd es) m) = map_of m ++ map_of es"
proof (induction es arbitrary: m)
  case (Cons e es)
  then show ?case
    by (cases e) (auto simp: update_conv' map_add_def fun_eq_iff map_of_eq_None_iff split: option.splits)
qed simp

definition clean_map :: "string_map \<Rightarrow> bool" where
  "clean_map m \<longleftrightarrow> distinct (map fst m)
     \<and> list_all (\<lambda>(k, v). CHR ''='' \<notin> set k \<and> CHR 0x0A \<notin> set k \<and> CHR 0x0A \<notin> set v) m"

lemma stringMap_split:
  assumes "clean_map m" "m \<noteq> []"
  shows "split_on (CHR 0x0A) (join [CHR 0x0A] (map kv_line m)) = map kv_line m"
proof (rule split_on_join)
  show "map kv_line m \<noteq> []" using assms(2) by simp
  show "CHR 0x0A \<notin> set l" if "l \<in> set (map kv_line m)" for l
    using that assms(1) by (auto simp: clean_map_def kv_line_def list_all_iff)
qed

lemma stringMap_roundtrip:
  assumes "clean_map m"
  shows "map_of (stringMap_fromBytes (stringMap_toBytes m)) = map_of m"
proof (cases "m = []")
  case True
  then show ?thesis by (simp add: stringMap_toBytes_def stringMap_fromBytes_def split_n2_def)
next
  case False
  have "fold add_line (map kv_line m) [] = AList.updates (map fst m) (map snd m) []"
    by (rule fold_add_line) (use assms in \<open>auto simp: clean_map_def list_all_iff\<close>)
  then show ?thesis
    using stringMap_split [OF assms False] assms map_of_updates_new [of m "[]"]
    by (simp add: stringMap_toBytes_def stringMap_fromBytes_def clean_map_def)
qed

text \<open>A settings map whose keys and values hold no separator is read back by
  \<open>StringMapFromBytes\<close> as the same map, in whatever order \<open>ToBytes\<close> wrote its entries.\<close>

theorem settings_roundtrip:
  assumes "clean_map m" "set es = set m" "distinct (map fst es)"
  shows "map_of (stringMap_fromBytes (stringMap_toBytes es)) = map_of m"
proof -
  have "clean_map es" using assms by (auto simp: clean_map_def list_all_iff)
  moreover have "map_of es = map_of m"
    using assms map_of_inject_set [of es m] by (simp add: clean_map_def)
  ultimately show ?thesis using stringMap_roundtrip by simp
qed

theorem settings_roundtrip_witness:
  "map_of (stringMap_fromBytes (stringMap_toBytes [(''client'', ''mihomo/1.1''), (''v'', ''2'')]))
   = map_of [(''v'', ''2''), (''client'', ''mihomo/1.1'')]"
  by (rule settings_roundtrip) (auto simp: clean_map_def)

lemma rand_int_range: "0 < n \<Longrightarrow> 0 \<le> fst (rand_int n rnd) \<and> fst (rand_int n rnd) < n"
  by (cases rnd) simp_all

lemma range_size_positive:
  assumes "x \<in> set (fst (range_size r rnd))" shows "x = CheckMark \<or> 0 < x"
proof -
  have "0 < y + lo" if "0 < lo" "rand_int n rnd = (y, rnd')" "0 < n" for y lo n rnd'
    using rand_int_range [of n rnd] that by simp
  then show ?thesis
    using assms by (auto simp: range_size_def Let_def split: if_splits prod.splits option.splits)
qed

lemma range_sizes_positive: "x \<in> set (fst (range_sizes rs rnd)) \<Longrightarrow> x = CheckMark \<or> 0 < x"
proof (induction rs arbitrary: rnd)
  case (Cons r rs)
  obtain xs rnd1 where 1: "range_size r rnd = (xs, rnd1)" by (cases "range_size r rnd")
  obtain ys rnd2 where 2: "range_sizes rs rnd1 = (ys, rnd2)" by (cases "range_sizes rs rnd1")
  show ?case using Cons.prems Cons.IH [of rnd1] range_size_positive [of x r rnd] 1 2 by auto
qed simp

lemma generate_positive:
  "x \<in> set (fst (generateRecordPayloadSizes p pkt rnd)) \<Longrightarrow> x = CheckMark \<or> 0 < x"
  using range_sizes_positive by (auto simp: generateRecordPayloadSizes_def split: option.splits)

text \<open>The default scheme.\<close>

definition default_lines :: string_map where
  "default_lines =
     [(''stop'', ''8''), (''0'', ''30-30''), (''1'', ''100-400''),
      (''2'', ''400-500,c,500-1000,c,500-1000,c,500-1000,c,500-1000''), (''3'', ''9-9,500-1000''),
      (''4'', ''500-1000''), (''5'', ''500-1000''), (''6'', ''500-1000''), (''7'', ''500-1000'')]"

lemma default_lines_clean: "clean_map default_lines"
  by (simp add: default_lines_def clean_map_def)

lemma default_scheme_toBytes: "defaultPaddingScheme = stringMap_toBytes default_lines"
  by (simp add: defaultPaddingScheme_def stringMap_toBytes_def default_lines_def kv_line_def)

lemma default_scheme_parsed: "stringMap_fromBytes defaultPaddingScheme = default_lines"
proof -
  have "stringMap_fromBytes defaultPaddingScheme = fold add_line (map kv_line default_lines) []"
    using stringMap_split [OF default_lines_clean]
    by (simp add: default_scheme_toBytes stringMap_toBytes_def stringMap_fromBytes_def default_lines_def)
  also have "\<dots> = AList.updates (map fst default_lines) (map snd default_lines) []"
    by (rule fold_add_line) (use default_lines_clean in \<open>auto simp: clean_map_def list_all_iff\<close>)
  also have "\<dots> = default_lines" by (simp add: default_lines_def)
  finally show ?thesis .
qed

lemma atoi_eval:
  "atoi ''8'' = (8, None)" "parse_int64 ''30'' = (30, None)" "parse_int64 ''9'' = (9, None)"
  "parse_int64 ''100'' = (100, None)" "parse_int64 ''400'' = (400, None)"
  "parse_int64 ''500'' = (500, None)" "parse_int64 ''1000'' = (1000, None)"
  by code_simp+

lemma range_size_eval:
  "range_size ''30-30'' rnd = ([30], rnd)" "range_size ''9-9'' rnd = ([9], rnd)"
  "range_size ''c'' rnd = ([CheckMark], rnd)"
  "range_size ''100-400'' rnd = ([fst (rand_int 300 rnd) + 100], snd (rand_int 300 rnd))"
  "range_size ''400-500'' rnd = ([fst (rand_int 100 rnd) + 400], snd (rand_int 100 rnd))"
  "range_size ''500-1000'' rnd = ([fst (rand_int 500 rnd) + 500], snd (rand_int 500 rnd))"
  by (simp_all add: range_size_def atoi_eval split: prod.splits)

lemma range_size_500: "list_all (\<lambda>x. 500 \<le> x \<and> x < 1000) (fst (range_size ''500-1000'' rnd))"
  using rand_int_range [of 500 rnd] by (simp add: range_size_eval)

definition default_factory :: "(bytes \<Rightarrow> string) \<Rightarrow> padding_factory" where
  "default_factory md5hex = \<lparr>pf_scheme = default_lines, pf_raw = defaultPaddingScheme, pf_stop = 8,
     pf_md5 = md5hex defaultPaddingScheme\<rparr>"

lemma default_factory: "newPaddingFactory md5hex defaultPaddingScheme = Some (default_factory md5hex)"
  by (simp add: newPaddingFactory_def default_scheme_parsed default_factory_def atoi_eval)
    (simp add: default_lines_def atoi_eval)

lemma range_sizes_bounded:
  assumes "\<And>r rnd. r \<in> set rs \<Longrightarrow> list_all P (fst (range_size r rnd))"
  shows "list_all P (fst (range_sizes rs rnd))"
  using assms
proof (induction rs arbitrary: rnd)
  case (Cons r rs)
  obtain xs rnd1 where 1: "range_size r rnd = (xs, rnd1)" by (cases "range_size r rnd")
  obtain ys rnd2 where 2: "range_sizes rs rnd1 = (ys, rnd2)" by (cases "range_sizes rs rnd1")
  show ?case using Cons.prems [of r rnd] Cons.IH [of rnd1] Cons.prems 1 2 by (simp add: list_all_append)
qed simp

lemma default_value_ranges:
  assumes "(k, v) \<in> set default_lines" "k \<noteq> ''stop''" "r \<in> set (split_on (CHR '','') v)"
  shows "r \<in> {''30-30'', ''9-9'', ''c'', ''100-400'', ''400-500'', ''500-1000''}"
  using assms by (auto simp: default_lines_def)

lemma default_sizes_bounded:
  assumes "k \<noteq> ''stop''" "map_of default_lines k = Some v"
  shows "list_all (\<lambda>x. x = CheckMark \<or> 0 < x \<and> x < 1000) (fst (range_sizes (split_on (CHR '','') v) rnd))"
proof (rule range_sizes_bounded)
  fix r rnd assume r: "r \<in> set (split_on (CHR '','') v)"
  have "(k, v) \<in> set default_lines" using assms(2) by (rule map_of_SomeD)
  from default_value_ranges [OF this assms(1) r]
  show "list_all (\<lambda>x. x = CheckMark \<or> 0 < x \<and> x < 1000) (fst (range_size r rnd))"
    using rand_int_range [of 300 rnd] rand_int_range [of 100 rnd] rand_int_range [of 500 rnd]
    by (auto simp: range_size_eval)
qed

lemma itoa_not_stop: "itoa n \<noteq> ''stop''"
proof
  assume "itoa n = ''stop''"
  then have "is_digit (CHR ''s'')" using itoa_digits [of n] by simp
  then show False by (simp add: is_digit_def)
qed

lemma default_generate_bounded:
  "list_all (\<lambda>x. x = CheckMark \<or> 0 < x \<and> x < 1000)
     (fst (generateRecordPayloadSizes (default_factory md5hex) pkt rnd))"
  using default_sizes_bounded [OF itoa_not_stop]
  by (auto simp: generateRecordPayloadSizes_def default_factory_def split: option.splits)

lemma itoa_small: "itoa 0 = ''0''" "itoa 1 = ''1''" "itoa (Suc 0) = ''1''"
  by code_simp+

text \<open>The default padding scheme parses: eight padded packets; packet 0 is always 30 bytes,
  packet 1 at least 100 and below 400 (the upper end of a range is never drawn), and no packet of the
  scheme asks for a record of 1000 bytes or more, so every waste frame's length fits its 16-bit
  field.\<close>

theorem default_padding_sizes:
  "\<exists>p. newPaddingFactory md5hex defaultPaddingScheme = Some p \<and> pf_stop p = 8
     \<and> fst (generateRecordPayloadSizes p 0 rnd) = [30]
     \<and> (\<exists>i. fst (generateRecordPayloadSizes p 1 rnd) = [i] \<and> 100 \<le> i \<and> i < 400)
     \<and> list_all (\<lambda>x. x = CheckMark \<or> 0 < x \<and> x < 1000) (fst (generateRecordPayloadSizes p pkt rnd))"
proof (intro exI conjI)
  show "newPaddingFactory md5hex defaultPaddingScheme = Some (default_factory md5hex)"
    by (rule default_factory)
  show "fst (generateRecordPayloadSizes (default_factory md5hex) 0 rnd) = [30]"
    by (simp add: generateRecordPayloadSizes_def default_factory_def default_lines_def itoa_small range_size_eval)
  show "fst (generateRecordPayloadSizes (default_factory md5hex) 1 rnd) = [fst (rand_int 300 rnd) + 100]"
    by (simp add: generateRecordPayloadSizes_def default_factory_def default_lines_def itoa_small range_size_eval)
  show "100 \<le> fst (rand_int 300 rnd) + 100" "fst (rand_int 300 rnd) + 100 < 400"
    using rand_int_range [of 300 rnd] by simp_all
qed (simp_all add: default_factory_def [of md5hex] default_generate_bounded [unfolded default_factory_def])

end
