(* ===== verification/AnySession.thy ===== *)
theory AnySession
  imports AnyPadding Conn
begin

text \<open>
  \<open>transport/anytls/session\<close>: \<open>session.go\<close> and \<open>stream.go\<close>. A session is a record with the state the
  Go struct has; its streams are objects in a store, because a stream lives on in its user's hands
  after the session has dropped it from the table, and a server may see the same stream id again.
  The callbacks a session makes into its owner (stream hooks, the session hook, new streams,
  alerts, the padding update) are appended to a log in the order they are made. The mutexes make
  each operation below atomic; interleavings are sequences of operations.
\<close>

section \<open>State\<close>

record stream =
  st_id :: "32 word"
  st_in :: bytes
  st_err :: "gerr option"
  st_hook :: bool
  st_reported :: bool

datatype event =
    StreamHook nat bool
  | DieHook
  | NewStream nat
  | AlertMsg bytes
  | PaddingUpdate padding_factory

record session =
  se_conn :: conn
  se_streams :: "(32 word \<times> nat) list"
  se_objs :: "stream list"
  se_nextId :: "32 word"
  se_die :: bool
  se_hook :: bool
  se_syn :: bool
  se_padding :: padding_factory
  se_peerVersion :: byte
  se_isClient :: bool
  se_sendPadding :: bool
  se_buffering :: bool
  se_buffer :: bytes
  se_pktCounter :: "32 word"
  se_rnd :: "nat list"
  se_log :: "event list"

definition newStream :: "32 word \<Rightarrow> stream" where
  "newStream sid = \<lparr>st_id = sid, st_in = [], st_err = None, st_hook = False, st_reported = False\<rparr>"

definition newClientSession :: "conn \<Rightarrow> padding_factory \<Rightarrow> nat list \<Rightarrow> session" where
  "newClientSession c p rnd =
     \<lparr>se_conn = c, se_streams = [], se_objs = [], se_nextId = 0, se_die = False, se_hook = False, se_syn = False,
      se_padding = p, se_peerVersion = 0, se_isClient = True, se_sendPadding = True, se_buffering = False,
      se_buffer = [], se_pktCounter = 0, se_rnd = rnd, se_log = []\<rparr>"

definition newServerSession :: "conn \<Rightarrow> padding_factory \<Rightarrow> nat list \<Rightarrow> session" where
  "newServerSession c p rnd =
     \<lparr>se_conn = c, se_streams = [], se_objs = [], se_nextId = 0, se_die = False, se_hook = False, se_syn = False,
      se_padding = p, se_peerVersion = 0, se_isClient = False, se_sendPadding = False, se_buffering = False,
      se_buffer = [], se_pktCounter = 0, se_rnd = rnd, se_log = []\<rparr>"

definition add_event :: "event \<Rightarrow> session \<Rightarrow> session" where
  "add_event e s = s\<lparr>se_log := se_log s @ [e]\<rparr>"

section \<open>Closing\<close>

text \<open>\<open>Stream.closeLocally\<close> and the first half of \<open>closeWithError\<close>: the first call records the
  error, closes the pipe and runs the hook. The flag tells whether this call was the first.\<close>

definition stream_die :: "gerr \<Rightarrow> nat \<Rightarrow> session \<Rightarrow> bool \<times> session" where
  "stream_die e i s =
     (if st_err (se_objs s ! i) = None then
        (let s1 = s\<lparr>se_objs := (se_objs s)[i := (se_objs s ! i)\<lparr>st_err := Some e, st_hook := False\<rparr>]\<rparr> in
         (True, if st_hook (se_objs s ! i) then add_event (StreamHook i (se_die s)) s1 else s1))
      else (False, s))"

definition closeLocally :: "nat \<Rightarrow> session \<Rightarrow> session" where
  "closeLocally i s = snd (stream_die NetClosed i s)"

definition conn_close :: "conn \<Rightarrow> conn" where
  "conn_close c = c\<lparr>rd := [], wbad := (\<lambda>_. True)\<rparr>"

definition session_close :: "session \<Rightarrow> gerr option \<times> session" where
  "session_close s =
     (if se_die s then (Some ClosedPipe, s)
      else
        (let s1 = s\<lparr>se_die := True\<rparr>;
             s2 = (if se_hook s1 then (add_event DieHook s1)\<lparr>se_hook := False\<rparr> else s1);
             s3 = fold closeLocally (map snd (se_streams s2)) s2
         in (None, s3\<lparr>se_streams := [], se_conn := conn_close (se_conn s3)\<rparr>)))"

section \<open>Writing\<close>

definition waste_frame :: "int \<Rightarrow> bytes" where
  "waste_frame l = [cmdWaste] @ put_be32 0 @ put_be16 (word_of_int l) @ replicate (nat l) 0"

text \<open>The loop of \<open>writeConn\<close> over the record sizes; \<open>n\<close> and \<open>b\<close> are the named results and the
  payload that remains. Slicing with a negative size would be a panic.\<close>

fun pad_loop :: "int list \<Rightarrow> bytes \<Rightarrow> nat \<Rightarrow> (nat \<times> bytes) io" where
  "pad_loop [] b n = io_ret (n, b)"
| "pad_loop (l # ls) b n =
     (if l = CheckMark then (if length b = 0 then io_ret (n, b) else pad_loop ls b n)
      else if int (length b) > l then
        (if l < 0 then io_err out_of_range
         else io_bind (io_write (take (nat l) b)) (\<lambda>_. pad_loop ls (drop (nat l) b) (n + nat l)))
      else if length b > 0 then
        (let paddingLen = l - int (length b) - int headerOverHeadSize;
             b' = (if paddingLen > 0 then b @ waste_frame paddingLen else b)
         in io_bind (io_write b') (\<lambda>_. pad_loop ls [] (n + length b)))
      else io_bind (io_write (waste_frame l)) (\<lambda>_. pad_loop ls [] n))"

definition pad_write :: "int list \<Rightarrow> bytes \<Rightarrow> nat io" where
  "pad_write sizes b =
     io_bind (pad_loop sizes b 0) (\<lambda>(n, b').
       if length b' = 0 then io_ret n else io_bind (io_write b') (\<lambda>_. io_ret (n + length b')))"

definition on_conn :: "'a io \<Rightarrow> session \<Rightarrow> 'a res \<times> session" where
  "on_conn m s = (case m (se_conn s) of (r, c) \<Rightarrow> (r, s\<lparr>se_conn := c\<rparr>))"

definition plain_write :: "bytes \<Rightarrow> session \<Rightarrow> nat res \<times> session" where
  "plain_write b = on_conn (io_bind (io_write b) (\<lambda>_. io_ret (length b)))"

definition writeConn :: "bytes \<Rightarrow> session \<Rightarrow> nat res \<times> session" where
  "writeConn b0 s0 =
     (if se_buffering s0 then (Ok (length b0), s0\<lparr>se_buffer := se_buffer s0 @ b0\<rparr>)
      else
        (let b = se_buffer s0 @ b0; s = s0\<lparr>se_buffer := []\<rparr> in
         if se_sendPadding s then
           (let pkt = se_pktCounter s + 1; s1 = s\<lparr>se_pktCounter := pkt\<rparr> in
            if pkt < pf_stop (se_padding s1) then
              (case generateRecordPayloadSizes (se_padding s1) pkt (se_rnd s1) of (sizes, rnd) \<Rightarrow>
                 on_conn (pad_write sizes b) (s1\<lparr>se_rnd := rnd\<rparr>))
            else plain_write b (s1\<lparr>se_sendPadding := False\<rparr>))
         else plain_write b s))"

definition writeDataFrame :: "32 word \<Rightarrow> bytes \<Rightarrow> session \<Rightarrow> nat res \<times> session" where
  "writeDataFrame sid d s =
     (case writeConn (frame_bytes \<lparr>f_cmd = cmdPSH, f_sid = sid, f_data = d\<rparr>) s of
        (Inl e, s') \<Rightarrow> (Err e, s')
      | (Inr _, s') \<Rightarrow> (Ok (length d), s'))"

definition writeControlFrame :: "frame \<Rightarrow> session \<Rightarrow> nat res \<times> session" where
  "writeControlFrame f s =
     (case writeConn (frame_bytes f) s of
        (Inl e, s') \<Rightarrow> (Err e, snd (session_close s'))
      | (Inr _, s') \<Rightarrow> (Ok (length (f_data f)), s'))"

section \<open>Session operations\<close>

text \<open>\<open>Run\<close> of a client, up to the start of its receive loop. \<open>settings\<close> is the map of the settings
  in the order \<open>ToBytes\<close> meets them.\<close>

definition client_settings :: "session \<Rightarrow> string_map" where
  "client_settings s = [(''v'', ''2''), (''client'', ''mihomo/1.1''), (''padding-md5'', pf_md5 (se_padding s))]"

definition client_run :: "string_map \<Rightarrow> session \<Rightarrow> session" where
  "client_run settings s =
     snd (writeControlFrame ((newFrame cmdSettings 0)\<lparr>f_data := stringMap_toBytes settings\<rparr>) (s\<lparr>se_buffering := True\<rparr>))"

definition openStream :: "session \<Rightarrow> nat res \<times> session" where
  "openStream s =
     (if se_die s then (Err ClosedPipe, s)
      else
        (let sid = se_nextId s + 1; i = length (se_objs s);
             s1 = s\<lparr>se_nextId := sid, se_objs := se_objs s @ [newStream sid]\<rparr>;
             s2 = (if sid \<ge> 2 \<and> se_peerVersion s1 \<ge> 2 then s1\<lparr>se_syn := True\<rparr> else s1)
         in case writeControlFrame (newFrame cmdSYN sid) s2 of
              (Inl e, s3) \<Rightarrow> (Err e, s3)
            | (Inr _, s3) \<Rightarrow>
                (let s4 = s3\<lparr>se_buffering := False\<rparr> in
                 if se_die s4 then (Err ClosedPipe, s4)
                 else (Ok i, s4\<lparr>se_streams := AList.update sid i (se_streams s4)\<rparr>))))"

text \<open>The deadline watcher of the last \<open>OpenStream\<close> fires.\<close>

definition syn_timeout :: "session \<Rightarrow> session" where
  "syn_timeout s = (if se_syn s then snd (session_close (s\<lparr>se_syn := False\<rparr>)) else s)"

definition streamClosed :: "32 word \<Rightarrow> session \<Rightarrow> gerr option \<times> session" where
  "streamClosed sid s =
     (if se_die s then (Some ClosedPipe, s)
      else case writeControlFrame (newFrame cmdFIN sid) s of
        (r, s') \<Rightarrow> ((case r of Inl e \<Rightarrow> Some e | Inr _ \<Rightarrow> None), s'\<lparr>se_streams := AList.delete sid (se_streams s')\<rparr>))"

section \<open>Stream operations\<close>

definition closeWithError :: "gerr \<Rightarrow> nat \<Rightarrow> session \<Rightarrow> gerr option \<times> session" where
  "closeWithError e i s =
     (case stream_die e i s of
        (True, s') \<Rightarrow> streamClosed (st_id (se_objs s ! i)) s'
      | (False, s') \<Rightarrow> (st_err (se_objs s ! i), s'))"

definition stream_close :: "nat \<Rightarrow> session \<Rightarrow> gerr option \<times> session" where
  "stream_close i s = closeWithError ClosedPipe i s"

text \<open>\<open>Write\<close>; the flag tells whether the write deadline has passed.\<close>

definition stream_write :: "bool \<Rightarrow> nat \<Rightarrow> bytes \<Rightarrow> session \<Rightarrow> nat res \<times> session" where
  "stream_write expired i b s =
     (if expired then (Err DeadlineExceeded, s)
      else case st_err (se_objs s ! i) of
        Some e \<Rightarrow> (Err e, s)
      | None \<Rightarrow> writeDataFrame (st_id (se_objs s ! i)) b s)"

definition handshakeFailure :: "bytes option \<Rightarrow> nat \<Rightarrow> session \<Rightarrow> gerr option \<times> session" where
  "handshakeFailure err i s =
     (let once = \<not> st_reported (se_objs s ! i);
          s1 = s\<lparr>se_objs := (se_objs s)[i := (se_objs s ! i)\<lparr>st_reported := True\<rparr>]\<rparr> in
      case err of
        None \<Rightarrow> (None, s1)
      | Some m \<Rightarrow>
          if once \<and> se_peerVersion s1 \<ge> 2 then
            (case writeControlFrame ((newFrame cmdSYNACK (st_id (se_objs s ! i)))\<lparr>f_data := m\<rparr>) s1 of
               (Inl e, s2) \<Rightarrow> (Some e, s2)
             | (Inr _, s2) \<Rightarrow> (None, s2))
          else (None, s1))"

definition handshakeSuccess :: "nat \<Rightarrow> session \<Rightarrow> gerr option \<times> session" where
  "handshakeSuccess i s =
     (let once = \<not> st_reported (se_objs s ! i);
          s1 = s\<lparr>se_objs := (se_objs s)[i := (se_objs s ! i)\<lparr>st_reported := True\<rparr>]\<rparr> in
      if once \<and> se_peerVersion s1 \<ge> 2 then
        (case writeControlFrame (newFrame cmdSYNACK (st_id (se_objs s ! i))) s1 of
           (Inl e, s2) \<Rightarrow> (Some e, s2)
         | (Inr _, s2) \<Rightarrow> (None, s2))
      else (None, s1))"

end
