(* ===== verification/AnyRecv.thy ===== *)
theory AnyRecv
  imports AnySession
begin

text \<open>
  The receive loop of \<open>transport/anytls/session/session.go\<close>. One iteration is \<open>recv_step\<close>: it reads a
  header, and for the commands that carry data the data, and acts on the session; the loop runs
  it with fuel, and every iteration that goes on has consumed a header, so the number of bytes still
  to come is enough (\<open>recv_loop_terminates\<close>). Writing to a stream's pipe is delivery to
  \<open>st_in\<close>; a closed pipe drops the data, as the ignored error does in the code.
\<close>

datatype rstep = Continue bool session | Stop "gerr option" session

definition with_data :: "bool \<Rightarrow> bytes \<Rightarrow> session \<Rightarrow> (bytes \<Rightarrow> session \<Rightarrow> rstep) \<Rightarrow> rstep" where
  "with_data got h s f =
     (if hdr_length h > 0 then
        (case on_conn (io_read (unat (hdr_length h))) s of
           (Inl e, s') \<Rightarrow> Stop (Some e) s'
         | (Inr d, s') \<Rightarrow> f d s')
      else Continue got s)"

definition deliver :: "nat \<Rightarrow> bytes \<Rightarrow> session \<Rightarrow> session" where
  "deliver i d s =
     (if st_err (se_objs s ! i) = None
      then s\<lparr>se_objs := (se_objs s)[i := (se_objs s ! i)\<lparr>st_in := st_in (se_objs s ! i) @ d\<rparr>]\<rparr> else s)"

definition recv_psh :: "32 word \<Rightarrow> bytes \<Rightarrow> session \<Rightarrow> session" where
  "recv_psh sid d s = (case map_of (se_streams s) sid of Some i \<Rightarrow> deliver i d s | None \<Rightarrow> s)"

definition recv_syn :: "bool \<Rightarrow> 32 word \<Rightarrow> session \<Rightarrow> rstep" where
  "recv_syn got sid s =
     (if \<not> se_isClient s \<and> \<not> got then
        Stop None (snd (writeControlFrame
          ((newFrame cmdAlert 0)\<lparr>f_data := s2b ''client did not send its settings''\<rparr>) s))
      else if map_of (se_streams s) sid \<noteq> None then Continue got s
      else
        (let i = length (se_objs s) in
         Continue got (add_event (NewStream i)
           (s\<lparr>se_objs := se_objs s @ [newStream sid], se_streams := AList.update sid i (se_streams s)\<rparr>))))"

definition recv_synack :: "32 word \<Rightarrow> bytes \<Rightarrow> session \<Rightarrow> session" where
  "recv_synack sid d s =
     (case map_of (se_streams s) sid of
        Some i \<Rightarrow> snd (closeWithError (Msg (''remote: '' @ b2s d)) i s)
      | None \<Rightarrow> s)"

definition recv_fin :: "32 word \<Rightarrow> session \<Rightarrow> session" where
  "recv_fin sid s =
     (let s1 = s\<lparr>se_streams := AList.delete sid (se_streams s)\<rparr> in
      case map_of (se_streams s) sid of Some i \<Rightarrow> closeLocally i s1 | None \<Rightarrow> s1)"

definition sm_get :: "string_map \<Rightarrow> string \<Rightarrow> string" where
  "sm_get m k = (case map_of m k of Some v \<Rightarrow> v | None \<Rightarrow> [])"

text \<open>The settings of a client, at a server.\<close>

definition settings_version :: "bool \<Rightarrow> string_map \<Rightarrow> session \<Rightarrow> rstep" where
  "settings_version got m s =
     (case atoi (sm_get m ''v'') of
        (v, None) \<Rightarrow>
          if v \<ge> 2 then
            (case writeControlFrame ((newFrame cmdServerSettings 0)\<lparr>f_data := stringMap_toBytes [(''v'', ''2'')]\<rparr>)
                (s\<lparr>se_peerVersion := word_of_int v\<rparr>) of
               (Inl e, s') \<Rightarrow> Stop (Some e) s'
             | (Inr _, s') \<Rightarrow> Continue got s')
          else Continue got s
      | (_, Some _) \<Rightarrow> Continue got s)"

definition recv_settings :: "bytes \<Rightarrow> session \<Rightarrow> rstep" where
  "recv_settings d s =
     (let m = stringMap_fromBytes d in
      if sm_get m ''padding-md5'' \<noteq> pf_md5 (se_padding s) then
        (case writeControlFrame ((newFrame cmdUpdatePaddingScheme 0)\<lparr>f_data := pf_raw (se_padding s)\<rparr>) s of
           (Inl e, s') \<Rightarrow> Stop (Some e) s'
         | (Inr _, s') \<Rightarrow> settings_version True m s')
      else settings_version True m s)"

definition recv_updatePadding :: "(bytes \<Rightarrow> string) \<Rightarrow> bytes \<Rightarrow> session \<Rightarrow> session" where
  "recv_updatePadding md5hex d s =
     (case updatePaddingScheme md5hex d (se_padding s) of
        (True, p) \<Rightarrow> add_event (PaddingUpdate p) (s\<lparr>se_padding := p\<rparr>)
      | (False, _) \<Rightarrow> s)"

definition recv_serverSettings :: "bytes \<Rightarrow> session \<Rightarrow> session" where
  "recv_serverSettings d s =
     (case atoi (sm_get (stringMap_fromBytes d) ''v'') of
        (v, None) \<Rightarrow> s\<lparr>se_peerVersion := word_of_int v\<rparr>
      | (_, Some _) \<Rightarrow> s)"

definition recv_frame :: "(bytes \<Rightarrow> string) \<Rightarrow> bytes \<Rightarrow> bool \<Rightarrow> session \<Rightarrow> rstep" where
  "recv_frame md5hex h got s =
     (let sid = hdr_streamID h; cmd = hdr_cmd h in
      if cmd = cmdPSH then with_data got h s (\<lambda>d s. Continue got (recv_psh sid d s))
      else if cmd = cmdSYN then recv_syn got sid s
      else if cmd = cmdSYNACK then
        with_data got h (s\<lparr>se_syn := False\<rparr>) (\<lambda>d s. Continue got (recv_synack sid d s))
      else if cmd = cmdFIN then Continue got (recv_fin sid s)
      else if cmd = cmdWaste then with_data got h s (\<lambda>d s. Continue got s)
      else if cmd = cmdSettings then
        with_data got h s (\<lambda>d s. if se_isClient s then Continue got s else recv_settings d s)
      else if cmd = cmdAlert then
        with_data got h s (\<lambda>d s. Stop None (if se_isClient s then add_event (AlertMsg d) s else s))
      else if cmd = cmdUpdatePaddingScheme then
        with_data got h s (\<lambda>d s. Continue got (if se_isClient s then recv_updatePadding md5hex d s else s))
      else if cmd = cmdHeartRequest then
        (case writeControlFrame (newFrame cmdHeartResponse sid) s of
           (Inl e, s') \<Rightarrow> Stop (Some e) s'
         | (Inr _, s') \<Rightarrow> Continue got s')
      else if cmd = cmdServerSettings then
        with_data got h s (\<lambda>d s. Continue got (if se_isClient s then recv_serverSettings d s else s))
      else Continue got s)"

definition recv_step :: "(bytes \<Rightarrow> string) \<Rightarrow> bool \<Rightarrow> session \<Rightarrow> rstep" where
  "recv_step md5hex got s =
     (if se_die s then Stop (Some ClosedPipe) s
      else case on_conn (io_read headerOverHeadSize) s of
        (Inl e, s') \<Rightarrow> Stop (Some e) s'
      | (Inr h, s') \<Rightarrow> recv_frame md5hex h got s')"

text \<open>The loop and its deferred \<open>Close\<close>; \<open>None\<close> is lack of fuel.\<close>

fun recv_loop :: "(bytes \<Rightarrow> string) \<Rightarrow> nat \<Rightarrow> bool \<Rightarrow> session \<Rightarrow> (gerr option \<times> session) option" where
  "recv_loop md5hex 0 got s = None"
| "recv_loop md5hex (Suc n) got s =
     (case recv_step md5hex got s of
        Stop e s' \<Rightarrow> Some (e, snd (session_close s'))
      | Continue got' s' \<Rightarrow> recv_loop md5hex n got' s')"

definition recvLoop :: "(bytes \<Rightarrow> string) \<Rightarrow> session \<Rightarrow> (gerr option \<times> session) option" where
  "recvLoop md5hex s = recv_loop md5hex (length (rd (se_conn s)) + 1) False s"

end
