(* ===== verification/AnyWire.thy ===== *)
theory AnyWire
  imports AnyRecv
begin

text \<open>
  What an anytls session puts on the wire. Padding cuts the payload into records and adds waste
  frames, only ever behind the last byte of the payload; so the byte stream stays a stream of
  frames, the ones that were written with waste frames between them (\<open>writeConn_ok\<close>).
\<close>

definition good :: "conn \<Rightarrow> bool" where
  "good c \<longleftrightarrow> (\<forall>n. \<not> wbad c n)"

definition padding_fits :: "padding_factory \<Rightarrow> bool" where
  "padding_fits p \<longleftrightarrow> (\<forall>pkt rnd. list_all (\<lambda>l. l = CheckMark \<or> 0 < l \<and> l < 65536)
     (fst (generateRecordPayloadSizes p pkt rnd)))"

definition wastes :: "frame list \<Rightarrow> bool" where
  "wastes gs \<longleftrightarrow> list_all (\<lambda>g. f_cmd g = cmdWaste \<and> frame_ok g) gs"

definition frames_bytes :: "frame list \<Rightarrow> bytes" where
  "frames_bytes gs = concat (map frame_bytes gs)"

lemma frames_bytes_simps [simp]:
  "frames_bytes [] = []" "frames_bytes (g # gs) = frame_bytes g @ frames_bytes gs"
  "frames_bytes (gs @ hs) = frames_bytes gs @ frames_bytes hs"
  by (simp_all add: frames_bytes_def)

lemma wastes_simps [simp]:
  "wastes []" "wastes (gs @ hs) \<longleftrightarrow> wastes gs \<and> wastes hs"
  by (simp_all add: wastes_def)

lemma waste_frame_ok:
  assumes "0 < l" "l < 65536"
  shows "\<exists>g. wastes [g] \<and> waste_frame l = frame_bytes g"
proof -
  have "word_of_int l = (word_of_nat (nat l) :: 16 word)" using assms by simp
  then have "waste_frame l = frame_bytes \<lparr>f_cmd = cmdWaste, f_sid = 0, f_data = replicate (nat l) 0\<rparr>"
    by (simp add: waste_frame_def frame_bytes_def)
  moreover have "wastes [\<lparr>f_cmd = cmdWaste, f_sid = 0, f_data = replicate (nat l) 0\<rparr>]"
    using assms by (simp add: wastes_def frame_ok_def has_data_def nat_less_iff)
  ultimately show ?thesis by blast
qed

lemma good_wr [simp]: "good (c\<lparr>wr := w\<rparr>) = good c" "good (c\<lparr>rd := r\<rparr>) = good c"
  by (simp_all add: good_def)

lemma good_write: "good c \<Longrightarrow> io_write b c = (Inr (), c\<lparr>wr := wr c @ [b]\<rparr>)"
  by (simp add: good_def)

lemma pad_loop_ok:
  assumes "good c" "list_all (\<lambda>l. l = CheckMark \<or> 0 < l \<and> l < 65536) sizes"
  shows "\<exists>ws gs m b'. pad_loop sizes b n c = (Inr (m, b'), c\<lparr>wr := wr c @ ws\<rparr>) \<and> wastes gs
    \<and> concat ws @ b' = b @ frames_bytes gs \<and> (b' \<noteq> [] \<longrightarrow> gs = [])"
  using assms
proof (induction sizes arbitrary: b n c)
  case Nil
  have "c\<lparr>wr := wr c @ []\<rparr> = c" by simp
  then show ?case by (intro exI [of _ "[]"] exI [of _ n] exI [of _ b]) simp
next
  case (Cons l ls)
  have ls: "list_all (\<lambda>l. l = CheckMark \<or> 0 < l \<and> l < 65536) ls" using Cons.prems by simp
  show ?case
  proof (cases "l = CheckMark")
    case True
    show ?thesis
    proof (cases "b = []")
      case b: True
      have "c\<lparr>wr := wr c @ []\<rparr> = c" by simp
      then show ?thesis using True b by (intro exI [of _ "[]"] exI [of _ n]) simp
    next
      case False
      then show ?thesis using Cons.IH [OF Cons.prems(1) ls, of b n] True by simp
    qed
  next
    case False
    then have l: "0 < l" "l < 65536" using Cons.prems by auto
    let ?n = "if int (length b) > l then nat l else length b"
    define rest where "rest = (if int (length b) > l then drop (nat l) b else [])"
    define rec where "rec = (if int (length b) > l then take (nat l) b
      else if b \<noteq> [] then (if l - int (length b) - 7 > 0 then b @ waste_frame (l - int (length b) - 7) else b)
      else waste_frame l)"
    obtain g0 where g0: "wastes g0" "rec @ rest = b @ frames_bytes g0" "rest \<noteq> [] \<longrightarrow> g0 = []"
    proof (cases "int (length b) > l")
      case True
      then show thesis using that [of "[]"] by (simp add: rec_def rest_def)
    next
      case nb: False
      show thesis
      proof (cases "b \<noteq> [] \<and> \<not> l - int (length b) - 7 > 0")
        case True
        then show thesis using that [of "[]"] nb by (simp add: rec_def rest_def)
      next
        case False
        let ?l = "if b = [] then l else l - int (length b) - 7"
        have "0 < ?l" "?l < 65536" using l False by auto
        then obtain g where "wastes [g]" "waste_frame ?l = frame_bytes g"
          using waste_frame_ok [of ?l] by blast
        then show thesis using that [of "[g]"] nb False
          by (cases "b = []") (simp_all add: rec_def rest_def)
      qed
    qed
    have g: "good (c\<lparr>wr := wr c @ [rec]\<rparr>)" using Cons.prems by simp
    obtain ws gs m b' where IH: "pad_loop ls rest (n + ?n) (c\<lparr>wr := wr c @ [rec]\<rparr>)
        = (Inr (m, b'), c\<lparr>wr := wr c @ rec # ws\<rparr>)"
      "wastes gs" "concat ws @ b' = rest @ frames_bytes gs" "b' \<noteq> [] \<longrightarrow> gs = []"
      using Cons.IH [OF g ls, of rest "n + ?n"] by auto
    have "pad_loop (l # ls) b n c = pad_loop ls rest (n + ?n) (c\<lparr>wr := wr c @ [rec]\<rparr>)"
      using False l good_write [OF Cons.prems(1)]
      by (auto simp: Let_def rec_def rest_def)
    moreover have "concat (rec # ws) @ b' = b @ frames_bytes (g0 @ gs)" "b' \<noteq> [] \<longrightarrow> g0 @ gs = []"
      "wastes (g0 @ gs)"
    proof -
      show "concat (rec # ws) @ b' = b @ frames_bytes (g0 @ gs)" using IH(3) g0(2) by (metis append_assoc concat.simps(2) frames_bytes_simps(3))
      have "b' \<noteq> [] \<Longrightarrow> rest \<noteq> []" using IH(3,4) by fastforce
      then show "b' \<noteq> [] \<longrightarrow> g0 @ gs = []" using IH(4) g0(3) by simp
      show "wastes (g0 @ gs)" using IH(2) g0(1) by simp
    qed
    ultimately show ?thesis using IH(1) by metis
  qed
qed

lemma pad_write_ok:
  assumes "good c" "list_all (\<lambda>l. l = CheckMark \<or> 0 < l \<and> l < 65536) sizes"
  shows "\<exists>ws gs m. pad_write sizes b c = (Inr m, c\<lparr>wr := wr c @ ws\<rparr>) \<and> wastes gs
    \<and> concat ws = b @ frames_bytes gs"
proof -
  obtain ws gs m b' where 1: "pad_loop sizes b 0 c = (Inr (m, b'), c\<lparr>wr := wr c @ ws\<rparr>)" "wastes gs"
    "concat ws @ b' = b @ frames_bytes gs"
    using pad_loop_ok [OF assms] by blast
  show ?thesis
  proof (cases "b' = []")
    case True
    then show ?thesis using 1 by (intro exI [of _ ws] exI [of _ gs]) (simp add: pad_write_def)
  next
    case False
    have "io_write b' (c\<lparr>wr := wr c @ ws\<rparr>) = (Inr (), c\<lparr>wr := wr c @ (ws @ [b'])\<rparr>)"
      using good_write [of "c\<lparr>wr := wr c @ ws\<rparr>"] assms(1) by simp
    then show ?thesis
      using 1 False by (intro exI [of _ "ws @ [b']"] exI [of _ gs] exI [of _ "m + length b'"]) (simp add: pad_write_def)
  qed
qed

text \<open>The part of a session that writing leaves alone: everything but the connection's output, the
  buffer, the padding state and the random numbers.\<close>

definition wrote :: "session \<Rightarrow> bytes list \<Rightarrow> session \<Rightarrow> bool" where
  "wrote s ws t \<longleftrightarrow> t = s\<lparr>se_conn := (se_conn s)\<lparr>wr := wr (se_conn s) @ ws\<rparr>,
     se_sendPadding := se_sendPadding t, se_buffer := se_buffer t,
     se_pktCounter := se_pktCounter t, se_rnd := se_rnd t\<rparr>"

lemma wrote_fields:
  assumes "wrote s ws t"
  shows "se_conn t = (se_conn s)\<lparr>wr := wr (se_conn s) @ ws\<rparr>" "se_streams t = se_streams s" "se_objs t = se_objs s"
    "se_nextId t = se_nextId s" "se_die t = se_die s" "se_hook t = se_hook s" "se_syn t = se_syn s"
    "se_padding t = se_padding s" "se_peerVersion t = se_peerVersion s" "se_isClient t = se_isClient s"
    "se_buffering t = se_buffering s" "se_log t = se_log s"
  using assms by (cases s; cases t; simp add: wrote_def)+

lemma wrote_trans: "wrote s ws t \<Longrightarrow> wrote t vs u \<Longrightarrow> wrote s (ws @ vs) u"
  by (cases s; cases t; cases u) (auto simp: wrote_def)

lemma wrote_refl: "wrote s [] s"
  by (cases s) (simp add: wrote_def)

text \<open>A write on a healthy connection: what was buffered, the new bytes and possibly waste frames go
  out, or everything stays in the buffer.\<close>

lemma writeConn_ok:
  assumes "good (se_conn s)" "padding_fits (se_padding s)"
  shows "\<exists>n t ws gs. writeConn b s = (Inr n, t) \<and> wrote s ws t \<and> wastes gs
    \<and> concat ws @ se_buffer t = se_buffer s @ b @ frames_bytes gs
    \<and> (\<not> se_buffering s \<longrightarrow> se_buffer t = [])"
proof -
  have p: "plain_write b s0 = (Inr (length b), s0\<lparr>se_conn := (se_conn s0)\<lparr>wr := wr (se_conn s0) @ [b]\<rparr>\<rparr>)"
    if "good (se_conn s0)" for b s0
    using good_write [OF that, of b] by (simp add: plain_write_def on_conn_def)
  consider "se_buffering s"
    | "\<not> se_buffering s" "\<not> (se_sendPadding s \<and> se_pktCounter s + 1 < pf_stop (se_padding s))"
    | "\<not> se_buffering s" "se_sendPadding s" "se_pktCounter s + 1 < pf_stop (se_padding s)" by blast
  then show ?thesis
  proof cases
    case 1
    have "wrote s [] (s\<lparr>se_buffer := se_buffer s @ b\<rparr>)"
      by (cases s) (simp add: wrote_def)
    then show ?thesis using 1
      by (intro exI [of _ "length b"] exI [of _ "s\<lparr>se_buffer := se_buffer s @ b\<rparr>"] exI [of _ "[]"])
        (simp add: writeConn_def)
  next
    case 2
    define u where "u = (if se_sendPadding s
      then s\<lparr>se_buffer := [], se_pktCounter := se_pktCounter s + 1, se_sendPadding := False\<rparr>
      else s\<lparr>se_buffer := []\<rparr>)"
    define t where "t = u\<lparr>se_conn := (se_conn u)\<lparr>wr := wr (se_conn u) @ [se_buffer s @ b]\<rparr>\<rparr>"
    have "good (se_conn u)" using assms(1) by (simp add: u_def)
    from p [OF this, of "se_buffer s @ b"] 2
    have "writeConn b s = (Inr (length (se_buffer s @ b)), t)"
      by (auto simp: writeConn_def Let_def u_def t_def)
    moreover have "wrote s [se_buffer s @ b] t" "se_buffer t = []"
      by (cases s; simp add: wrote_def t_def u_def)+
    ultimately have t: "writeConn b s = (Inr (length (se_buffer s @ b)), t)" "wrote s [se_buffer s @ b] t"
      "se_buffer t = []" .
    then show ?thesis by (intro exI [of _ "length (se_buffer s @ b)"] exI [of _ t]
          exI [of _ "[se_buffer s @ b]"] exI [of _ "[]"]) simp
  next
    case 3
    obtain sizes rnd where g: "generateRecordPayloadSizes (se_padding s) (se_pktCounter s + 1) (se_rnd s) = (sizes, rnd)"
      by (cases "generateRecordPayloadSizes (se_padding s) (se_pktCounter s + 1) (se_rnd s)")
    then have "list_all (\<lambda>l. l = CheckMark \<or> 0 < l \<and> l < 65536) sizes"
      using assms(2) by (metis fst_conv padding_fits_def)
    then obtain ws gs m where pw: "pad_write sizes (se_buffer s @ b) (se_conn s) = (Inr m, (se_conn s)\<lparr>wr := wr (se_conn s) @ ws\<rparr>)"
      "wastes gs" "concat ws = (se_buffer s @ b) @ frames_bytes gs"
      using pad_write_ok [OF assms(1)] by blast
    define t where "t = s\<lparr>se_buffer := [], se_pktCounter := se_pktCounter s + 1, se_rnd := rnd,
      se_conn := (se_conn s)\<lparr>wr := wr (se_conn s) @ ws\<rparr>\<rparr>"
    have "writeConn b s = (Inr m, t)"
      using 3 g pw(1) by (simp add: writeConn_def Let_def on_conn_def t_def)
    moreover have "wrote s ws t" "se_buffer t = []"
      by (cases s; simp add: wrote_def t_def)+
    ultimately show ?thesis using pw by (intro exI [of _ m] exI [of _ t] exI [of _ ws] exI [of _ gs]) simp
  qed
qed

lemma writeControlFrame_ok:
  assumes "good (se_conn s)" "padding_fits (se_padding s)"
  shows "\<exists>t ws gs. writeControlFrame f s = (Inr (length (f_data f)), t) \<and> wrote s ws t \<and> wastes gs
    \<and> concat ws @ se_buffer t = se_buffer s @ frame_bytes f @ frames_bytes gs
    \<and> (\<not> se_buffering s \<longrightarrow> se_buffer t = [])"
  using writeConn_ok [OF assms, of "frame_bytes f"] by (fastforce simp: writeControlFrame_def)

lemma writeDataFrame_ok:
  assumes "good (se_conn s)" "padding_fits (se_padding s)"
  shows "\<exists>t ws gs. writeDataFrame sid d s = (Inr (length d), t) \<and> wrote s ws t \<and> wastes gs
    \<and> concat ws @ se_buffer t = se_buffer s @ frame_bytes \<lparr>f_cmd = cmdPSH, f_sid = sid, f_data = d\<rparr> @ frames_bytes gs
    \<and> (\<not> se_buffering s \<longrightarrow> se_buffer t = [])"
  using writeConn_ok [OF assms, of "frame_bytes \<lparr>f_cmd = cmdPSH, f_sid = sid, f_data = d\<rparr>"]
  by (fastforce simp: writeDataFrame_def)

section \<open>Sequences of frames\<close>

text \<open>A frame is written by \<open>writeDataFrame\<close> or \<open>writeControlFrame\<close> according to its command.\<close>

definition write_frame :: "frame \<Rightarrow> session \<Rightarrow> nat res \<times> session" where
  "write_frame f s = (if f_cmd f = cmdPSH then writeDataFrame (f_sid f) (f_data f) s else writeControlFrame f s)"

fun write_frames :: "frame list \<Rightarrow> session \<Rightarrow> session option" where
  "write_frames [] s = Some s"
| "write_frames (f # fs) s =
     (case write_frame f s of (Inl e, _) \<Rightarrow> None | (Inr _, s') \<Rightarrow> write_frames fs s')"

abbreviation payload :: "frame list \<Rightarrow> frame list" where
  "payload gs \<equiv> filter (\<lambda>g. f_cmd g \<noteq> cmdWaste) gs"

lemma payload_wastes [simp]: "wastes gs \<Longrightarrow> payload gs = []"
  by (auto simp: wastes_def list_all_iff filter_empty_conv)

lemma write_frame_ok:
  assumes "good (se_conn s)" "padding_fits (se_padding s)"
  shows "\<exists>t ws gs. write_frame f s = (Inr (length (f_data f)), t) \<and> wrote s ws t \<and> wastes gs
    \<and> concat ws @ se_buffer t = se_buffer s @ frame_bytes f @ frames_bytes gs
    \<and> (\<not> se_buffering s \<longrightarrow> se_buffer t = [])"
proof (cases "f_cmd f = cmdPSH")
  case True
  have eq: "\<lparr>f_cmd = cmdPSH, f_sid = f_sid f, f_data = f_data f\<rparr> = f" using True by (cases f) simp
  show ?thesis using writeDataFrame_ok [OF assms, of "f_sid f" "f_data f"]
    unfolding eq write_frame_def using True by simp
next
  case False
  then show ?thesis using writeControlFrame_ok [OF assms, of f] by (simp add: write_frame_def)
qed

lemma write_frames_ok:
  assumes "good (se_conn s)" "padding_fits (se_padding s)"
  shows "\<exists>t ws gs. write_frames fs s = Some t \<and> wrote s ws t
    \<and> concat ws @ se_buffer t = se_buffer s @ frames_bytes gs
    \<and> payload gs = payload fs \<and> (list_all frame_ok fs \<longrightarrow> list_all frame_ok gs)
    \<and> (\<not> se_buffering s \<longrightarrow> fs \<noteq> [] \<longrightarrow> se_buffer t = [])"
  using assms
proof (induction fs arbitrary: s)
  case Nil
  then show ?case using wrote_refl [of s] by (intro exI [of _ s] exI [of _ "[]"]) simp
next
  case (Cons f fs)
  obtain t ws gs where 1: "write_frame f s = (Inr (length (f_data f)), t)" "wrote s ws t" "wastes gs"
    "concat ws @ se_buffer t = se_buffer s @ frame_bytes f @ frames_bytes gs"
    "\<not> se_buffering s \<longrightarrow> se_buffer t = []"
    using write_frame_ok [OF Cons.prems, of f] by blast
  have pt: "good (se_conn t)" "padding_fits (se_padding t)" "se_buffering t = se_buffering s"
    using wrote_fields [OF 1(2)] Cons.prems by simp_all
  obtain u vs hs where 2: "write_frames fs t = Some u" "wrote t vs u"
    "concat vs @ se_buffer u = se_buffer t @ frames_bytes hs" "payload hs = payload fs"
    "list_all frame_ok fs \<longrightarrow> list_all frame_ok hs"
    "\<not> se_buffering t \<longrightarrow> fs \<noteq> [] \<longrightarrow> se_buffer u = []"
    using Cons.IH [OF pt(1,2)] by blast
  have "write_frames (f # fs) s = Some u" using 1(1) 2(1) by simp
  moreover have "wrote s (ws @ vs) u" using 1(2) 2(2) by (rule wrote_trans)
  moreover have "concat (ws @ vs) @ se_buffer u = se_buffer s @ frames_bytes (f # gs @ hs)"
    using 1(4) 2(3) by (metis append_assoc concat_append frames_bytes_simps(2,3))
  moreover have "payload (f # gs @ hs) = payload (f # fs)" using 1(3) 2(4) by simp
  moreover have "list_all frame_ok (f # fs) \<longrightarrow> list_all frame_ok (f # gs @ hs)"
    using 1(3) 2(5) by (auto simp: wastes_def list_all_iff)
  moreover have "\<not> se_buffering s \<longrightarrow> se_buffer u = []"
  proof (cases "fs = []")
    case True
    then show ?thesis using 1(5) 2(1) by simp
  next
    case False
    then show ?thesis using 2(6) pt(3) by simp
  qed
  ultimately show ?case by blast
qed

lemma default_padding_fits: "padding_fits (default_factory md5hex)"
  unfolding padding_fits_def
proof (intro allI)
  fix pkt rnd
  show "list_all (\<lambda>l. l = CheckMark \<or> 0 < l \<and> l < 65536)
    (fst (generateRecordPayloadSizes (default_factory md5hex) pkt rnd))"
    using default_generate_bounded [of md5hex pkt rnd] by (auto simp: list_all_iff)
qed

text \<open>Padding is transparent. Whatever the padding scheme (with sizes below 2^16), the random
  numbers and the packet counter, the bytes that a sequence of frame writes puts on the wire, with
  those still buffered, parse as a sequence of frames from which dropping the waste frames gives exactly
  the frames written, in order.\<close>

theorem anytls_padding_transparent:
  assumes "good (se_conn s)" "padding_fits (se_padding s)" "se_buffer s = []"
    and "list_all frame_ok fs" "cmdWaste \<notin> set (map f_cmd fs)"
  shows "\<exists>t ws gs. write_frames fs s = Some t \<and> wr (se_conn t) = wr (se_conn s) @ ws
    \<and> dec_many read_frame (length (concat ws @ se_buffer t)) (concat ws @ se_buffer t) = Ok gs
    \<and> filter (\<lambda>g. f_cmd g \<noteq> cmdWaste) gs = fs"
proof -
  obtain t ws gs where 1: "write_frames fs s = Some t" "wrote s ws t"
    "concat ws @ se_buffer t = frames_bytes gs" "payload gs = payload fs" "list_all frame_ok gs"
    using write_frames_ok [OF assms(1,2), of fs] assms(3,4) by auto
  have "payload fs = fs" using assms(5) by (auto simp: filter_id_conv)
  moreover have "dec_many read_frame (length (frames_bytes gs)) (frames_bytes gs) = Ok gs"
    unfolding frames_bytes_def by (rule frame_codec.stream_roundtrip) (use 1(5) in \<open>simp add: list_all_iff\<close>)
  ultimately show ?thesis using 1 wrote_fields(1) [OF 1(2)]
    by (intro exI [of _ t] exI [of _ ws] exI [of _ gs]) simp
qed

theorem anytls_padding_transparent_witness:
  "\<exists>t ws gs. write_frames [\<lparr>f_cmd = cmdPSH, f_sid = 1, f_data = [7, 8]\<rparr>]
      (newClientSession (mk_conn []) (default_factory (\<lambda>_. [])) [3, 1, 4]) = Some t
    \<and> wr (se_conn t) = ws \<and> filter (\<lambda>g. f_cmd g \<noteq> cmdWaste) gs = [\<lparr>f_cmd = cmdPSH, f_sid = 1, f_data = [7, 8]\<rparr>]"
  using anytls_padding_transparent [of "newClientSession (mk_conn []) (default_factory (\<lambda>_. [])) [3, 1, 4]"
      "[\<lparr>f_cmd = cmdPSH, f_sid = 1, f_data = [7, 8]\<rparr>]"] default_padding_fits [of "\<lambda>_. []"]
  by (auto simp: newClientSession_def mk_conn_def good_def frame_ok_def has_data_def)

end
