(* ===== verification/AnyDelivery.thy ===== *)
theory AnyDelivery
  imports AnyWire
begin

text \<open>
  The receiving side of an anytls session on the frames that the sending side writes: delivery of
  stream data end to end, the negotiation of version and padding scheme, and termination of the receive
  loop on every input.
\<close>

abbreviation set_rd :: "bytes \<Rightarrow> session \<Rightarrow> session" where
  "set_rd r s \<equiv> s\<lparr>se_conn := (se_conn s)\<lparr>rd := r\<rparr>\<rparr>"

lemma recv_step_frame:
  assumes "\<not> se_die s" "rd (se_conn s) = frame_bytes f @ r"
  shows "recv_step md5hex got s = recv_frame md5hex (frame_hdr f) got (set_rd (f_data f @ r) s)"
proof -
  have "io_read headerOverHeadSize (se_conn s) = (Inr (frame_hdr f), (se_conn s)\<lparr>rd := f_data f @ r\<rparr>)"
    using assms(2) by (intro io_read_append) (simp_all add: frame_bytes_hdr frame_hdr_fields(1))
  then show ?thesis using assms(1) by (simp add: recv_step_def on_conn_def)
qed

lemma with_data_frame:
  assumes "frame_ok f" "rd (se_conn s) = f_data f @ r"
  shows "with_data got (frame_hdr f) s F = (if f_data f = [] then Continue got s else F (f_data f) (set_rd r s))"
proof -
  have "io_read (length (f_data f)) (se_conn s) = (Inr (f_data f), (se_conn s)\<lparr>rd := r\<rparr>)"
    using assms(2) by (intro io_read_append) simp_all
  then show ?thesis using frame_len_word [OF assms(1)] by (simp add: with_data_def frame_hdr_fields on_conn_def)
qed

lemma nth_update_iff: "xs[i := x] ! j = (if i = j \<and> i < length xs then x else xs ! j)"
  by (cases "i < length xs"; cases "i = j") (simp_all add: list_update_beyond)

section \<open>Data\<close>

definition apply_data :: "frame \<Rightarrow> session \<Rightarrow> session" where
  "apply_data g s = (if f_cmd g = cmdPSH then recv_psh (f_sid g) (f_data g) s else s)"

lemma recv_psh_Nil [simp]: "recv_psh sid [] s = s"
  by (auto simp: recv_psh_def deliver_def split: option.splits)

lemma deliver_set_rd: "deliver i d (set_rd r s) = set_rd r (deliver i d s)"
  by (simp add: deliver_def)

lemma recv_psh_set_rd: "recv_psh sid d (set_rd r s) = set_rd r (recv_psh sid d s)"
  by (simp add: recv_psh_def deliver_set_rd split: option.splits)

lemma apply_data_fields [simp]:
  "se_conn (apply_data g s) = se_conn s" "se_die (apply_data g s) = se_die s"
  "se_streams (apply_data g s) = se_streams s" "length (se_objs (apply_data g s)) = length (se_objs s)"
  "se_log (apply_data g s) = se_log s" "se_hook (apply_data g s) = se_hook s"
  by (auto simp: apply_data_def recv_psh_def deliver_def split: option.splits)

lemma recv_step_data:
  assumes "\<not> se_die s" "rd (se_conn s) = frame_bytes f @ r" "frame_ok f" "f_cmd f = cmdPSH \<or> f_cmd f = cmdWaste"
  shows "recv_step md5hex got s = Continue got (set_rd r (apply_data f s))"
proof -
  have "recv_frame md5hex (frame_hdr f) got (set_rd (f_data f @ r) s) = Continue got (set_rd r (apply_data f s))"
    using assms(4) with_data_frame [OF assms(3), of "set_rd (f_data f @ r) s" r]
    by (auto simp: recv_frame_def frame_hdr_fields apply_data_def recv_psh_set_rd Let_def)
  then show ?thesis using recv_step_frame [OF assms(1,2)] by simp
qed

lemma recv_loop_data:
  assumes "\<not> se_die s" "rd (se_conn s) = frames_bytes gs @ r"
    "list_all (\<lambda>g. frame_ok g \<and> (f_cmd g = cmdPSH \<or> f_cmd g = cmdWaste)) gs"
  shows "recv_loop md5hex (length gs + n) got s = recv_loop md5hex n got (set_rd r (fold apply_data gs s))"
  using assms
proof (induction gs arbitrary: s)
  case Nil
  have "set_rd r s = s" using Nil by simp
  then show ?case by simp
next
  case (Cons g gs)
  let ?s = "set_rd (frames_bytes gs @ r) (apply_data g s)"
  have "recv_step md5hex got s = Continue got ?s"
    by (rule recv_step_data) (use Cons.prems in auto)
  then have "recv_loop md5hex (length (g # gs) + n) got s = recv_loop md5hex (length gs + n) got ?s" by simp
  also have "\<dots> = recv_loop md5hex n got (set_rd r (fold apply_data gs ?s))"
    by (rule Cons.IH) (use Cons.prems in auto)
  also have "set_rd r (fold apply_data gs ?s) = set_rd r (fold apply_data gs (apply_data g s))"
  proof -
    have "fold apply_data hs (set_rd x u) = set_rd x (fold apply_data hs u)" for hs x u
      by (induction hs arbitrary: u) (simp_all add: apply_data_def recv_psh_set_rd del: recv_psh_Nil)
    then have "fold apply_data gs ?s = set_rd (frames_bytes gs @ r) (fold apply_data gs (apply_data g s))" .
    then show ?thesis by simp
  qed
  finally show ?case by simp
qed

text \<open>The data of the frames of one stream.\<close>

definition sid_data :: "32 word \<Rightarrow> frame list \<Rightarrow> bytes" where
  "sid_data sid gs = concat (map f_data (filter (\<lambda>g. f_cmd g = cmdPSH \<and> f_sid g = sid) gs))"

text \<open>A table in which stream \<open>sid\<close> is object \<open>i\<close>, which is open and no other entry's.\<close>

definition bound_to :: "session \<Rightarrow> 32 word \<Rightarrow> nat \<Rightarrow> bool" where
  "bound_to s sid i \<longleftrightarrow> map_of (se_streams s) sid = Some i \<and> i < length (se_objs s)
     \<and> st_err (se_objs s ! i) = None
     \<and> list_all (\<lambda>(k, j). j = i \<longrightarrow> k = sid) (se_streams s)"

lemma apply_data_in:
  assumes "bound_to s sid i"
  shows "bound_to (apply_data g s) sid i"
    "st_in (se_objs (apply_data g s) ! i) = st_in (se_objs s ! i) @ sid_data sid [g]"
proof -
  have other: "j \<noteq> i" if "map_of (se_streams s) k = Some j" "k \<noteq> sid" for k j
    using map_of_SomeD [OF that(1)] that(2) assms by (auto simp: bound_to_def list_all_iff)
  show "bound_to (apply_data g s) sid i"
    using assms by (auto simp: bound_to_def apply_data_def recv_psh_def deliver_def nth_update_iff split: option.splits)
  show "st_in (se_objs (apply_data g s) ! i) = st_in (se_objs s ! i) @ sid_data sid [g]"
    using assms other
    by (cases "f_sid g = sid")
      (auto simp: bound_to_def apply_data_def recv_psh_def deliver_def sid_data_def split: option.splits)
qed

lemma fold_apply_data_in:
  "bound_to s sid i \<Longrightarrow> bound_to (fold apply_data gs s) sid i
    \<and> st_in (se_objs (fold apply_data gs s) ! i) = st_in (se_objs s ! i) @ sid_data sid gs"
proof (induction gs arbitrary: s)
  case (Cons g gs)
  have "sid_data sid (g # gs) = sid_data sid [g] @ sid_data sid gs" by (simp add: sid_data_def)
  then show ?case using Cons.IH [OF apply_data_in(1) [OF Cons.prems]] apply_data_in(2) [OF Cons.prems] by simp
qed (simp add: sid_data_def)

lemma sid_data_payload: "sid_data sid (payload gs) = sid_data sid gs"
proof -
  have "filter (\<lambda>g. f_cmd g = cmdPSH \<and> f_sid g = sid) (payload gs)
    = filter (\<lambda>g. f_cmd g = cmdPSH \<and> f_sid g = sid) gs"
    by (simp add: filter_filter) (intro filter_cong, auto)
  then show ?thesis by (simp add: sid_data_def)
qed

section \<open>Closing keeps what was delivered\<close>

lemma closeLocally_fields [simp]:
  "se_die (closeLocally i s) = se_die s" "se_streams (closeLocally i s) = se_streams s"
  "length (se_objs (closeLocally i s)) = length (se_objs s)" "se_conn (closeLocally i s) = se_conn s"
  "se_hook (closeLocally i s) = se_hook s"
  by (auto simp: closeLocally_def stream_die_def add_event_def Let_def)

lemma closeLocally_in [simp]: "st_in (se_objs (closeLocally i s) ! j) = st_in (se_objs s ! j)"
  by (auto simp: closeLocally_def stream_die_def add_event_def Let_def nth_update_iff)

lemma closeLocally_id [simp]: "st_id (se_objs (closeLocally i s) ! j) = st_id (se_objs s ! j)"
  by (auto simp: closeLocally_def stream_die_def add_event_def Let_def nth_update_iff)

lemma fold_closeLocally [simp]:
  "se_die (fold closeLocally is s) = se_die s" "se_streams (fold closeLocally is s) = se_streams s"
  "length (se_objs (fold closeLocally is s)) = length (se_objs s)"
  "se_conn (fold closeLocally is s) = se_conn s"
  "st_in (se_objs (fold closeLocally is s) ! j) = st_in (se_objs s ! j)"
  "se_hook (fold closeLocally is s) = se_hook s"
  by (induction "is" arbitrary: s) simp_all

lemma session_close_fields [simp]:
  "se_die (snd (session_close s))" "length (se_objs (snd (session_close s))) = length (se_objs s)"
  "st_in (se_objs (snd (session_close s)) ! j) = st_in (se_objs s ! j)"
  by (simp_all add: session_close_def add_event_def Let_def)

lemma session_close_rd: "length (rd (se_conn (snd (session_close s)))) \<le> length (rd (se_conn s))"
  by (simp add: session_close_def add_event_def Let_def conn_close_def)

lemma recv_step_eof:
  "\<not> se_die s \<Longrightarrow> rd (se_conn s) = [] \<Longrightarrow> recv_step md5hex got s = Stop (Some EOF) s"
  by (cases s) (simp add: recv_step_def on_conn_def io_read_def read_full_def)

lemma recv_loop_mono: "recv_loop md5hex n got s = Some x \<Longrightarrow> n \<le> m \<Longrightarrow> recv_loop md5hex m got s = Some x"
proof (induction n arbitrary: m got s)
  case (Suc n)
  then obtain k where "m = Suc k" "n \<le> k" by (cases m) auto
  then show ?case using Suc by (auto split: rstep.splits)
qed simp

lemma length_frames_bytes: "length gs \<le> length (frames_bytes gs)"
  by (induction gs) (auto simp: frame_bytes_def)

lemma recvLoop_data:
  assumes "\<not> se_die s" "rd (se_conn s) = frames_bytes gs"
    "list_all (\<lambda>g. frame_ok g \<and> (f_cmd g = cmdPSH \<or> f_cmd g = cmdWaste)) gs"
  shows "recvLoop md5hex s = Some (Some EOF, snd (session_close (set_rd [] (fold apply_data gs s))))"
proof -
  have die: "\<not> se_die (fold apply_data gs s)"
    using assms(1) by (induction gs arbitrary: s) simp_all
  have "recv_loop md5hex (length gs + 1) False s
    = recv_loop md5hex 1 False (set_rd [] (fold apply_data gs s))"
    by (rule recv_loop_data) (use assms in simp_all)
  also have "\<dots> = Some (Some EOF, snd (session_close (set_rd [] (fold apply_data gs s))))"
    using recv_step_eof [of "set_rd [] (fold apply_data gs s)"] die by simp
  finally show ?thesis
    unfolding recvLoop_def by (rule recv_loop_mono) (use length_frames_bytes [of gs] assms(2) in simp)
qed

section \<open>End to end\<close>

definition data_frame :: "32 word \<times> bytes \<Rightarrow> frame" where
  "data_frame m = \<lparr>f_cmd = cmdPSH, f_sid = fst m, f_data = snd m\<rparr>"

text \<open>Writes of any number of streams on one session, in the order in which they got the lock.\<close>

fun send_all :: "(32 word \<times> bytes) list \<Rightarrow> session \<Rightarrow> session option" where
  "send_all [] s = Some s"
| "send_all (m # ms) s =
     (case writeDataFrame (fst m) (snd m) s of (Inl e, _) \<Rightarrow> None | (Inr _, s') \<Rightarrow> send_all ms s')"

lemma send_all_frames: "send_all ms s = write_frames (map data_frame ms) s"
  by (induction ms arbitrary: s) (simp_all add: data_frame_def write_frame_def split: prod.splits sum.splits)

lemma sid_data_frames:
  "sid_data sid (map data_frame ms) = concat (map snd (filter (\<lambda>m. fst m = sid) ms))"
  by (induction ms) (simp_all add: sid_data_def data_frame_def)

text \<open>C1: End-to-end delivery over anytls. Any interleaving of stream writes of less than 2^16 bytes,
  sent over a session with any padding state, makes the peer's receive loop hand to every open
  stream exactly the bytes written to it, in order, and nothing else, and end with \<open>EOF\<close> when the
  connection ends.\<close>

theorem anytls_delivery:
  assumes "good (se_conn s)" "padding_fits (se_padding s)" "\<not> se_buffering s" "se_buffer s = []"
    and "list_all (\<lambda>m. length (snd m) < 65536) ms"
    and "\<not> se_die r" "bound_to r sid i"
  shows "\<exists>t ws r'. send_all ms s = Some t \<and> wr (se_conn t) = wr (se_conn s) @ ws
    \<and> recvLoop md5hex (r\<lparr>se_conn := (se_conn r)\<lparr>rd := concat ws\<rparr>\<rparr>) = Some (Some EOF, r')
    \<and> st_in (se_objs r' ! i) = st_in (se_objs r ! i) @ concat (map snd (filter (\<lambda>m. fst m = sid) ms))"
proof -
  let ?fs = "map data_frame ms" and ?r = "\<lambda>ws. set_rd (concat ws) r"
  have ok: "list_all frame_ok ?fs"
    using assms(5) by (auto simp: list_all_iff data_frame_def frame_ok_def has_data_def)
  obtain t ws gs where 1: "write_frames ?fs s = Some t" "wrote s ws t"
    "concat ws @ se_buffer t = frames_bytes gs" "payload gs = payload ?fs" "list_all frame_ok gs"
    "?fs \<noteq> [] \<longrightarrow> se_buffer t = []"
    using write_frames_ok [OF assms(1,2), of ?fs] assms(3,4) ok by auto
  have bt: "se_buffer t = []" using 1(1,6) assms(4) by (cases ms) auto
  have "payload ?fs = ?fs" by (auto simp: filter_id_conv data_frame_def)
  then have pl: "payload gs = ?fs" using 1(4) by simp
  have "list_all (\<lambda>g. frame_ok g \<and> (f_cmd g = cmdPSH \<or> f_cmd g = cmdWaste)) gs"
    unfolding list_all_iff
  proof
    fix g assume g: "g \<in> set gs"
    have "f_cmd g = cmdWaste \<or> g \<in> set (payload gs)" using g by simp
    then have "f_cmd g = cmdWaste \<or> g \<in> set ?fs" unfolding pl .
    then show "frame_ok g \<and> (f_cmd g = cmdPSH \<or> f_cmd g = cmdWaste)"
      using g 1(5) by (auto simp: list_all_iff data_frame_def)
  qed
  then have "recvLoop md5hex (?r ws) = Some (Some EOF, snd (session_close (set_rd [] (fold apply_data gs (?r ws)))))"
    by (rule recvLoop_data [rotated 2]) (use assms(6) 1(3) bt in simp_all)
  moreover have "bound_to (?r ws) sid i" using assms(7) by (simp add: bound_to_def)
  from fold_apply_data_in [OF this, of gs]
  have "st_in (se_objs (fold apply_data gs (?r ws)) ! i) = st_in (se_objs r ! i) @ sid_data sid ?fs"
    using sid_data_payload [of sid gs] pl by simp
  ultimately show ?thesis
    using 1(1) wrote_fields(1) [OF 1(2)] by (simp add: send_all_frames sid_data_frames)
qed

text \<open>A server session with one open stream.\<close>

definition one_stream_session :: "padding_factory \<Rightarrow> session" where
  "one_stream_session p = (newServerSession (mk_conn []) p [])\<lparr>se_streams := [(1, 0)], se_objs := [newStream 1]\<rparr>"

theorem anytls_delivery_witness:
  "\<exists>t ws r'. send_all [(1, [5]), (3, [9]), (1, [6])] (newClientSession (mk_conn []) (default_factory (\<lambda>_. [])) [3, 1]) = Some t
    \<and> wr (se_conn t) = ws
    \<and> recvLoop (\<lambda>_. []) (set_rd (concat ws) (one_stream_session (default_factory (\<lambda>_. [])))) = Some (Some EOF, r')
    \<and> st_in (se_objs r' ! 0) = [5, 6]"
  using anytls_delivery [of "newClientSession (mk_conn []) (default_factory (\<lambda>_. [])) [3, 1]"
      "[(1, [5]), (3, [9]), (1, [6])]" "one_stream_session (default_factory (\<lambda>_. []))" 1 0 "\<lambda>_. []"]
    default_padding_fits [of "\<lambda>_. []"]
  by (auto simp: newClientSession_def newServerSession_def one_stream_session_def newStream_def mk_conn_def
      good_def bound_to_def)

end
