(* ===== verification/AnyLife.thy ===== *)
theory AnyLife
  imports AnyDelivery
begin

text \<open>
  The life of an anytls session: the receive loop ends on every input and without a panic, the
  settings exchange, oversized writes, and the callbacks into the owner over every sequence of
  operations.
\<close>

section \<open>Steps that only write\<close>

definition calm :: "'a io \<Rightarrow> bool" where
  "calm m \<longleftrightarrow> (\<forall>c. rd (snd (m c)) = rd c \<and> (\<forall>e. fst (m c) = Inl e \<longrightarrow> e = ConnErr))"

lemma calmD:
  assumes "calm m" "m c = (r, c')"
  shows "rd c' = rd c" "r = Inl e \<Longrightarrow> e = ConnErr"
  using assms(1) [unfolded calm_def, rule_format, of c] assms(2) by simp_all

lemma calm_basic [intro!]: "calm (io_ret x)" "calm (io_write b)"
  by (simp_all add: calm_def io_write_def)

lemma calm_bind [intro!]:
  assumes "calm m" "\<And>x. calm (f x)"
  shows "calm (io_bind m f)"
  unfolding calm_def
proof (intro allI)
  fix c
  obtain r c' where m: "m c = (r, c')" by (cases "m c")
  note mc = calmD [OF assms(1) m]
  show "rd (snd (io_bind m f c)) = rd c \<and> (\<forall>e. fst (io_bind m f c) = Inl e \<longrightarrow> e = ConnErr)"
  proof (cases r)
    case (Inl e)
    then show ?thesis using mc m by simp
  next
    case (Inr x)
    obtain q c'' where q: "f x c' = (q, c'')" by (cases "f x c'")
    show ?thesis using Inr m mc(1) q calmD [OF assms(2) q] by simp
  qed
qed

lemma calm_pad_loop: "list_all (\<lambda>l. l = CheckMark \<or> 0 < l) sizes \<Longrightarrow> calm (pad_loop sizes b n)"
  by (induction sizes arbitrary: b n) (auto simp: Let_def)

lemma calm_pad_write: "list_all (\<lambda>l. l = CheckMark \<or> 0 < l) sizes \<Longrightarrow> calm (pad_write sizes b)"
  unfolding pad_write_def by (auto intro!: calm_pad_loop)

definition quiet :: "nat res \<times> session \<Rightarrow> session \<Rightarrow> bool" where
  "quiet x s \<longleftrightarrow> rd (se_conn (snd x)) = rd (se_conn s) \<and> (\<forall>e. fst x = Inl e \<longrightarrow> e = ConnErr)"

lemma calm_on_conn: "calm m \<Longrightarrow> quiet (on_conn m s) s"
  by (cases "m (se_conn s)") (auto simp: quiet_def on_conn_def dest: calmD)

lemma quiet_cong: "se_conn t = se_conn s \<Longrightarrow> quiet x t = quiet x s"
  by (simp add: quiet_def)

lemma writeConn_quiet: "quiet (writeConn b s) s"
proof -
  obtain sizes rnd where g: "generateRecordPayloadSizes (se_padding s) (se_pktCounter s + 1) (se_rnd s) = (sizes, rnd)"
    by (cases "generateRecordPayloadSizes (se_padding s) (se_pktCounter s + 1) (se_rnd s)")
  have "list_all (\<lambda>l. l = CheckMark \<or> 0 < l) sizes"
    using generate_positive [of _ "se_padding s" "se_pktCounter s + 1" "se_rnd s"] g by (simp add: list_all_iff)
  note w = calm_on_conn [OF calm_pad_write [OF this, of "se_buffer s @ b"]]
  have p: "quiet (plain_write x t) t" for x t
    unfolding plain_write_def by (intro calm_on_conn calm_bind calm_basic)
  consider "se_buffering s" | "\<not> se_buffering s" "\<not> se_sendPadding s"
    | "\<not> se_buffering s" "se_sendPadding s" "\<not> se_pktCounter s + 1 < pf_stop (se_padding s)"
    | "\<not> se_buffering s" "se_sendPadding s" "se_pktCounter s + 1 < pf_stop (se_padding s)" by blast
  then show ?thesis
  proof cases
    case 1
    then show ?thesis by (simp add: writeConn_def quiet_def)
  next
    case 2
    then show ?thesis
      using p [of "se_buffer s @ b" "s\<lparr>se_buffer := []\<rparr>"] by (simp add: writeConn_def quiet_def)
  next
    case 3
    then show ?thesis
      using p [of "se_buffer s @ b" "s\<lparr>se_buffer := [], se_pktCounter := se_pktCounter s + 1, se_sendPadding := False\<rparr>"]
      by (simp add: writeConn_def quiet_def Let_def)
  next
    case 4
    then show ?thesis
      using w [of "s\<lparr>se_buffer := [], se_pktCounter := se_pktCounter s + 1, se_rnd := rnd\<rparr>"] g
      by (simp add: writeConn_def quiet_def Let_def)
  qed
qed

lemma writeControlFrame_calm:
  "length (rd (se_conn (snd (writeControlFrame f s)))) \<le> length (rd (se_conn s))
    \<and> (\<forall>e. fst (writeControlFrame f s) = Inl e \<longrightarrow> e = ConnErr)"
proof (cases "writeConn (frame_bytes f) s")
  case (Pair r t)
  have "rd (se_conn t) = rd (se_conn s)" "\<And>e. r = Inl e \<Longrightarrow> e = ConnErr"
    using writeConn_quiet [of "frame_bytes f" s] Pair by (simp_all add: quiet_def)
  then show ?thesis using Pair session_close_rd [of t] by (auto simp: writeControlFrame_def split: sum.splits)
qed

lemma writeControlFrame_cases:
  obtains (err) t where "writeControlFrame f s = (Inl ConnErr, t)"
    "length (rd (se_conn t)) \<le> length (rd (se_conn s))"
  | (ok) n t where "writeControlFrame f s = (Inr n, t)" "length (rd (se_conn t)) \<le> length (rd (se_conn s))"
  using writeControlFrame_calm [of f s]
  by (cases "writeControlFrame f s"; cases "fst (writeControlFrame f s)") auto

section \<open>The receive loop ends\<close>

definition no_panic :: "gerr option \<Rightarrow> bool" where
  "no_panic e \<longleftrightarrow> (case e of Some (Panic _) \<Rightarrow> False | _ \<Rightarrow> True)"

text \<open>What one iteration may do with the input: go on having used no more than there is, or stop
  with an error that is not a panic.\<close>

definition step_within :: "nat \<Rightarrow> rstep \<Rightarrow> bool" where
  "step_within n st \<longleftrightarrow> (case st of Continue _ s' \<Rightarrow> length (rd (se_conn s')) \<le> n | Stop e _ \<Rightarrow> no_panic e)"

lemma step_within_simps [simp]:
  "step_within n (Continue g s) \<longleftrightarrow> length (rd (se_conn s)) \<le> n" "step_within n (Stop e s) \<longleftrightarrow> no_panic e"
  "no_panic None" "no_panic (Some EOF)" "no_panic (Some UnexpectedEOF)" "no_panic (Some ConnErr)"
  "no_panic (Some ClosedPipe)"
  by (simp_all add: step_within_def no_panic_def)

lemma on_conn_read:
  "on_conn (io_read n) s = (Inl e, s') \<Longrightarrow> e = EOF \<or> e = UnexpectedEOF"
  "on_conn (io_read n) s = (Inr d, s') \<Longrightarrow> length (rd (se_conn s')) + n = length (rd (se_conn s))"
  by (auto simp: on_conn_def io_read_def read_full_def split: if_splits)

lemma with_data_within:
  assumes "\<And>d s'. length (rd (se_conn s')) \<le> length (rd (se_conn s)) \<Longrightarrow> step_within n (F d s')"
    "length (rd (se_conn s)) \<le> n"
  shows "step_within n (with_data got h s F)"
proof (cases "on_conn (io_read (unat (hdr_length h))) s")
  case (Pair r s')
  then show ?thesis
    using on_conn_read [of "unat (hdr_length h)" s] assms by (cases r) (fastforce simp: with_data_def)+
qed

lemma streamClosed_rd: "length (rd (se_conn (snd (streamClosed sid t)))) \<le> length (rd (se_conn t))"
  by (rule writeControlFrame_cases [of "newFrame cmdFIN sid" t]) (auto simp: streamClosed_def)

lemma stream_die_conn [simp]: "stream_die e i s = (b, t) \<Longrightarrow> se_conn t = se_conn s"
  by (auto simp: stream_die_def add_event_def Let_def split: if_splits)

lemma closeWithError_rd: "length (rd (se_conn (snd (closeWithError e i s)))) \<le> length (rd (se_conn s))"
proof (cases "stream_die e i s")
  case (Pair b t)
  then show ?thesis
    using streamClosed_rd [of "st_id (se_objs s ! i)" t] stream_die_conn [OF Pair]
    by (cases b) (simp_all add: closeWithError_def)
qed

lemma recv_psh_rd: "se_conn (recv_psh sid d s) = se_conn s"
  by (simp add: recv_psh_def deliver_def split: option.splits)

lemma recv_synack_rd: "length (rd (se_conn (recv_synack sid d s))) \<le> length (rd (se_conn s))"
  by (auto simp: recv_synack_def closeWithError_rd split: option.splits)

lemma recv_fin_rd: "se_conn (recv_fin sid s) = se_conn s"
  by (simp add: recv_fin_def Let_def split: option.splits)

lemma recv_syn_within: "length (rd (se_conn s)) \<le> n \<Longrightarrow> step_within n (recv_syn got sid s)"
  by (auto simp: recv_syn_def Let_def add_event_def)

lemma settings_version_within:
  assumes "length (rd (se_conn s)) \<le> n"
  shows "step_within n (settings_version got m s)"
proof -
  let ?f = "(newFrame cmdServerSettings 0)\<lparr>f_data := stringMap_toBytes [(''v'', ''2'')]\<rparr>"
  obtain v e where v: "atoi (sm_get m ''v'') = (v, e)" by (cases "atoi (sm_get m ''v'')")
  show ?thesis
    by (rule writeControlFrame_cases [of ?f "s\<lparr>se_peerVersion := word_of_int v\<rparr>"])
      (use assms v in \<open>auto simp: settings_version_def split: option.splits\<close>)
qed

lemma recv_settings_within:
  assumes "length (rd (se_conn s)) \<le> n"
  shows "step_within n (recv_settings d s)"
  by (rule writeControlFrame_cases [of "(newFrame cmdUpdatePaddingScheme 0)\<lparr>f_data := pf_raw (se_padding s)\<rparr>" s])
    (use assms in \<open>auto simp: recv_settings_def Let_def intro!: settings_version_within\<close>)

lemma recv_updatePadding_rd: "se_conn (recv_updatePadding md5hex d s) = se_conn s"
  by (simp add: recv_updatePadding_def add_event_def split: prod.splits bool.splits)

lemma recv_serverSettings_rd: "se_conn (recv_serverSettings d s) = se_conn s"
  by (simp add: recv_serverSettings_def split: prod.splits option.splits)

lemma heart_within:
  assumes "length (rd (se_conn s)) \<le> n"
  shows "step_within n (case writeControlFrame f s of (Inl e, s') \<Rightarrow> Stop (Some e) s' | (Inr _, s') \<Rightarrow> Continue got s')"
  by (rule writeControlFrame_cases [of f s]) (use assms in auto)

lemmas recv_rds = recv_psh_rd recv_synack_rd recv_fin_rd recv_updatePadding_rd recv_serverSettings_rd

lemma recv_frame_within:
  assumes n: "length (rd (se_conn s)) \<le> n"
  shows "step_within n (recv_frame md5hex h got s)"
proof -
  have n': "length (rd (se_conn (s\<lparr>se_syn := False\<rparr>))) \<le> n" using n by simp
  have d: "step_within n (with_data got h t (\<lambda>d s. Continue got (F d s)))"
    if "\<And>d s. length (rd (se_conn (F d s))) \<le> length (rd (se_conn s))" "length (rd (se_conn t)) \<le> n" for F t
    by (rule with_data_within) (use that in \<open>simp_all, meson le_trans\<close>)
  have "step_within n (with_data got h s (\<lambda>d s. if se_isClient s then Continue got s else recv_settings d s))"
    by (rule with_data_within) (use n recv_settings_within in \<open>auto\<close>)
  moreover have "step_within n (with_data got h s (\<lambda>d s. Stop None (F d s)))" for F
    by (rule with_data_within) (use n in auto)
  ultimately show ?thesis
    using n n' recv_syn_within [OF n] heart_within [OF n]
    by (auto simp: recv_frame_def Let_def recv_rds intro!: d)
qed

lemma recv_step_within:
  "recv_step md5hex got s = Continue got' s' \<Longrightarrow> length (rd (se_conn s')) < length (rd (se_conn s))"
  "recv_step md5hex got s = Stop e s' \<Longrightarrow> no_panic e"
proof -
  obtain r t where r: "on_conn (io_read headerOverHeadSize) s = (r, t)"
    by (cases "on_conn (io_read headerOverHeadSize) s")
  show "recv_step md5hex got s = Continue got' s' \<Longrightarrow> length (rd (se_conn s')) < length (rd (se_conn s))"
  proof -
    assume a: "recv_step md5hex got s = Continue got' s'"
    then obtain h where h: "r = Inr h" "recv_frame md5hex h got t = Continue got' s'"
      using r by (cases r) (auto simp: recv_step_def split: if_splits)
    then have "length (rd (se_conn s')) \<le> length (rd (se_conn t))"
      using recv_frame_within [OF order_refl, of t md5hex h got] by simp
    then show ?thesis using r h(1) on_conn_read(2) [of 7 s h t] by simp
  qed
  show "recv_step md5hex got s = Stop e s' \<Longrightarrow> no_panic e"
  proof -
    assume a: "recv_step md5hex got s = Stop e s'"
    show ?thesis
    proof (cases r)
      case (Inl x)
      then show ?thesis using a r on_conn_read(1) [of 7 s x t] by (auto simp: recv_step_def split: if_splits)
    next
      case (Inr h)
      then show ?thesis using a r recv_frame_within [OF order_refl, of t md5hex h got]
        by (auto simp: recv_step_def split: if_splits)
    qed
  qed
qed

lemma recv_loop_ends:
  "length (rd (se_conn s)) < n \<Longrightarrow> \<exists>e s'. recv_loop md5hex n got s = Some (e, s') \<and> no_panic e \<and> se_die s'"
proof (induction n arbitrary: got s)
  case (Suc n)
  show ?case
  proof (cases "recv_step md5hex got s")
    case (Continue got' s')
    then show ?thesis using Suc.IH [of s' got'] recv_step_within(1) [OF Continue] Suc.prems by simp
  next
    case (Stop e s')
    then show ?thesis using recv_step_within(2) [OF Stop] by simp
  qed
qed simp


end
