(* ===== verification/AnyRelation.thy ===== *)
theory AnyRelation
  imports AnyLife
begin

text \<open>
  What every operation of an anytls session does to the streams, hooks and callbacks is a composition of
  a few primitive changes. The locale \<open>session_relation\<close> is a reflexive and transitive relation between
  sessions that holds for the primitive changes; its lemmas show that it then holds for every
  operation, every frame that is received and every sequence of them.
\<close>

definition is_hook :: "nat \<Rightarrow> event \<Rightarrow> bool" where
  "is_hook i e \<longleftrightarrow> (case e of StreamHook j _ \<Rightarrow> j = i | _ \<Rightarrow> False)"

definition tbl_ok :: "session \<Rightarrow> bool" where
  "tbl_ok s \<longleftrightarrow> (\<forall>i \<in> snd ` set (se_streams s). i < length (se_objs s))"

text \<open>The first half of \<open>Close\<close>: the session is dead and its hook has run.\<close>

definition mark_dead :: "session \<Rightarrow> session" where
  "mark_dead s = (let s1 = s\<lparr>se_die := True\<rparr> in
     if se_hook s1 then (add_event DieHook s1)\<lparr>se_hook := False\<rparr> else s1)"

definition step_rel :: "(session \<Rightarrow> session \<Rightarrow> bool) \<Rightarrow> session \<Rightarrow> rstep \<Rightarrow> bool" where
  "step_rel R s st \<longleftrightarrow> (case st of Continue _ t \<Rightarrow> R s t | Stop _ t \<Rightarrow> R s t)"

lemma writeConn_same:
  "se_log (snd (writeConn b s)) = se_log s" "se_objs (snd (writeConn b s)) = se_objs s"
  "se_hook (snd (writeConn b s)) = se_hook s" "se_die (snd (writeConn b s)) = se_die s" "se_streams (snd (writeConn b s)) = se_streams s"
  by (simp_all add: writeConn_def plain_write_def on_conn_def Let_def split: prod.splits)

lemma length_writeControlFrame: "writeControlFrame f s = (r, t) \<Longrightarrow> length (se_objs t) = length (se_objs s)"
  using writeConn_same(2) [of "frame_bytes f" s]
  by (auto simp: writeControlFrame_def split: prod.splits sum.splits)

lemma tbl_okD: "tbl_ok s \<Longrightarrow> map_of (se_streams s) sid = Some i \<Longrightarrow> i < length (se_objs s)"
  by (force simp: tbl_ok_def dest: map_of_SomeD)

section \<open>Every sequence of operations\<close>

text \<open>What a user of a session, its peer and its timer can do. \<open>OpCreate\<close> is \<open>OpenStream\<close> as
  \<open>Client.CreateStream\<close> uses it: the hook of a new stream is set, a failure closes the session.\<close>

datatype sess_op =
    OpCreate
  | OpWrite nat bytes
  | OpCloseStream nat
  | OpRecv bool
  | OpInput bytes
  | OpTimeout
  | OpFailure nat "bytes option"
  | OpSuccess nat
  | OpClose

definition set_hook :: "nat \<Rightarrow> session \<Rightarrow> session" where
  "set_hook i s = s\<lparr>se_objs := (se_objs s)[i := (se_objs s ! i)\<lparr>st_hook := True\<rparr>]\<rparr>"

definition create_stream :: "session \<Rightarrow> nat res \<times> session" where
  "create_stream s =
     (case openStream s of
        (Inl e, t) \<Rightarrow> (Err e, snd (session_close t))
      | (Inr i, t) \<Rightarrow> (Ok i, set_hook i t))"

definition on_stream :: "nat \<Rightarrow> (session \<Rightarrow> session) \<Rightarrow> session \<Rightarrow> session" where
  "on_stream i f s = (if i < length (se_objs s) then f s else s)"

fun sess_step :: "(bytes \<Rightarrow> string) \<Rightarrow> sess_op \<Rightarrow> session \<Rightarrow> session" where
  "sess_step md5hex OpCreate s = snd (create_stream s)"
| "sess_step md5hex (OpWrite i b) s = on_stream i (\<lambda>s. snd (stream_write False i b s)) s"
| "sess_step md5hex (OpCloseStream i) s = on_stream i (\<lambda>s. snd (stream_close i s)) s"
| "sess_step md5hex (OpRecv got) s =
     (case recv_step md5hex got s of Continue _ t \<Rightarrow> t | Stop _ t \<Rightarrow> snd (session_close t))"
| "sess_step md5hex (OpInput b) s = s\<lparr>se_conn := (se_conn s)\<lparr>rd := rd (se_conn s) @ b\<rparr>\<rparr>"
| "sess_step md5hex OpTimeout s = syn_timeout s"
| "sess_step md5hex (OpFailure i m) s = on_stream i (\<lambda>s. snd (handshakeFailure m i s)) s"
| "sess_step md5hex (OpSuccess i) s = on_stream i (\<lambda>s. snd (handshakeSuccess i s)) s"
| "sess_step md5hex OpClose s = snd (session_close s)"

definition sess_run :: "(bytes \<Rightarrow> string) \<Rightarrow> sess_op list \<Rightarrow> session \<Rightarrow> session" where
  "sess_run md5hex ops s = fold (sess_step md5hex) ops s"

section \<open>The relation\<close>

locale session_relation =
  fixes R :: "session \<Rightarrow> session \<Rightarrow> bool"
  assumes R_refl: "R s s"
    and R_trans: "R s t \<Longrightarrow> R t u \<Longrightarrow> R s u"
    and R_if: "(tbl_ok s \<Longrightarrow> R s t) \<Longrightarrow> R s t"
    and R_same: "se_log t = se_log s \<Longrightarrow> se_objs t = se_objs s \<Longrightarrow> se_hook t = se_hook s \<Longrightarrow> se_die t = se_die s \<Longrightarrow>
      set (se_streams t) \<subseteq> set (se_streams s) \<Longrightarrow> R s t"
    and R_objs: "se_log t = se_log s \<Longrightarrow> length (se_objs t) = length (se_objs s) \<Longrightarrow> se_hook t = se_hook s \<Longrightarrow>
      se_die t = se_die s \<Longrightarrow> se_streams t = se_streams s \<Longrightarrow>
      (\<And>i. i < length (se_objs s) \<Longrightarrow> st_hook (se_objs t ! i) = st_hook (se_objs s ! i)) \<Longrightarrow> R s t"
    and R_event: "(\<And>i. \<not> is_hook i e) \<Longrightarrow> e \<noteq> DieHook \<Longrightarrow> R s (add_event e s)"
    and R_die: "i < length (se_objs s) \<Longrightarrow> R s (snd (stream_die err i s))"
    and R_dead: "\<not> se_die s \<Longrightarrow> R s (mark_dead s)"
    and R_grow: "R s (s\<lparr>se_objs := se_objs s @ [newStream sid]\<rparr>)"
    and R_bind: "i < length (se_objs s) \<Longrightarrow> R s (s\<lparr>se_streams := AList.update sid i (se_streams s)\<rparr>)"
begin

declare R_refl [simp]

lemma R_closeLocally: "i < length (se_objs s) \<Longrightarrow> R s (closeLocally i s)"
  using R_die by (simp add: closeLocally_def)

lemma R_fold_close:
  "list_all (\<lambda>i. i < length (se_objs s)) is \<Longrightarrow> R s (fold closeLocally is s)"
proof (induction "is" arbitrary: s)
  case (Cons i "is")
  have "R s (closeLocally i s)" using Cons.prems by (simp add: R_closeLocally)
  moreover have "R (closeLocally i s) (fold closeLocally is (closeLocally i s))"
    by (rule Cons.IH) (use Cons.prems in simp)
  ultimately show ?case using R_trans by simp
qed simp

lemma R_close: "R s (snd (session_close s))"
proof (rule R_if)
  assume ok: "tbl_ok s"
  show ?thesis
  proof (cases "se_die s")
    case True
    then show ?thesis by (simp add: session_close_def R_refl)
  next
    case False
    let ?s3 = "fold closeLocally (map snd (se_streams (mark_dead s))) (mark_dead s)"
    let ?t = "?s3\<lparr>se_streams := [], se_conn := conn_close (se_conn ?s3)\<rparr>"
    have "R (mark_dead s) ?s3"
      by (rule R_fold_close) (use ok in \<open>auto simp: tbl_ok_def add_event_def list_all_iff mark_dead_def Let_def\<close>)
    moreover have "R ?s3 ?t" by (rule R_same) simp_all
    moreover have "snd (session_close s) = ?t"
      using False by (simp add: session_close_def mark_dead_def Let_def del: fold_closeLocally)
    ultimately show ?thesis using R_trans [OF R_dead [OF False]] R_trans by metis
  qed
qed

lemma R_on_conn: "R s (snd (on_conn m s))"
  by (rule R_same) (simp_all add: on_conn_def split: prod.splits)

lemma R_writeConn: "R s (snd (writeConn b s))"
  by (rule R_same) (simp_all add: writeConn_same)

lemma R_writeDataFrame: "R s (snd (writeDataFrame sid d s))"
  using R_writeConn [of s "frame_bytes \<lparr>f_cmd = cmdPSH, f_sid = sid, f_data = d\<rparr>"]
  by (auto simp: writeDataFrame_def split: prod.splits sum.splits)

lemma R_writeControlFrame: "R s (snd (writeControlFrame f s))"
proof (cases "writeConn (frame_bytes f) s")
  case (Pair r t)
  have "R s t" using R_writeConn [of s "frame_bytes f"] Pair by simp
  then show ?thesis using Pair R_close [of t] R_trans
    by (cases r) (auto simp: writeControlFrame_def)
qed

lemma R_writeControlFrame': "writeControlFrame f s = (r, t) \<Longrightarrow> R s t"
  using R_writeControlFrame [of s f] by simp

section \<open>Operations\<close>

lemma R_streamClosed: "R s (snd (streamClosed sid s))"
proof (cases "writeControlFrame (newFrame cmdFIN sid) s")
  case (Pair r t)
  have "R t (t\<lparr>se_streams := AList.delete sid (se_streams t)\<rparr>)"
    by (rule R_same) (auto simp: AList.delete_eq)
  then have "R s (t\<lparr>se_streams := AList.delete sid (se_streams t)\<rparr>)"
    by (rule R_trans [OF R_writeControlFrame' [OF Pair]])
  then show ?thesis using Pair by (simp add: streamClosed_def)
qed

lemma R_closeWithError: "i < length (se_objs s) \<Longrightarrow> R s (snd (closeWithError e i s))"
proof (cases "stream_die e i s")
  case (Pair b t)
  assume i: "i < length (se_objs s)"
  have "R s t" using R_die [OF i, of e] Pair by simp
  then show ?thesis using Pair R_streamClosed [of t "st_id (se_objs s ! i)"] R_trans
    by (cases b) (auto simp: closeWithError_def)
qed

lemma R_deliver: "i < length (se_objs s) \<Longrightarrow> R s (deliver i d s)"
  by (rule R_objs) (auto simp: deliver_def nth_list_update)

lemma step_R_simps [simp]: "step_rel R s (Continue g t) = R s t" "step_rel R s (Stop e t) = R s t"
  by (simp_all add: step_rel_def)

lemma step_R_trans: "R s t \<Longrightarrow> step_rel R t st \<Longrightarrow> step_rel R s st"
  using R_trans by (cases st) auto

lemma with_data_R:
  assumes "\<And>d t. se_streams t = se_streams s \<Longrightarrow> step_rel R t (F d t)"
  shows "step_rel R s (with_data got h s F)"
proof (cases "on_conn (io_read (unat (hdr_length h))) s")
  case (Pair r t)
  have "R s t" using R_on_conn [of s "io_read (unat (hdr_length h))"] Pair by simp
  moreover have "se_streams t = se_streams s" using Pair by (auto simp: on_conn_def split: prod.splits)
  ultimately show ?thesis using Pair assms [of t] step_R_trans
    by (cases r) (auto simp: with_data_def)
qed

lemma R_recv_psh: "R s (recv_psh sid d s)"
  by (rule R_if) (auto simp: recv_psh_def dest: tbl_okD intro!: R_deliver split: option.splits)

lemma R_recv_synack: "R s (recv_synack sid d s)"
  by (rule R_if) (auto simp: recv_synack_def dest: tbl_okD intro!: R_closeWithError split: option.splits)

lemma R_recv_fin: "R s (recv_fin sid s)"
proof (rule R_if)
  assume ok: "tbl_ok s"
  let ?t = "s\<lparr>se_streams := AList.delete sid (se_streams s)\<rparr>"
  have t: "R s ?t" by (rule R_same) (auto simp: AList.delete_eq)
  show "R s (recv_fin sid s)"
  proof (cases "map_of (se_streams s) sid")
    case None
    then show ?thesis using t by (simp add: recv_fin_def)
  next
    case (Some i)
    have "R ?t (closeLocally i ?t)" by (rule R_closeLocally) (use tbl_okD [OF ok Some] in simp)
    then have "R s (closeLocally i ?t)" by (rule R_trans [OF t])
    then show ?thesis using Some by (simp add: recv_fin_def)
  qed
qed

lemma R_new_stream:
  "R s (add_event (NewStream (length (se_objs s)))
     (s\<lparr>se_objs := se_objs s @ [newStream sid], se_streams := AList.update sid (length (se_objs s)) (se_streams s)\<rparr>))"
proof -
  let ?s1 = "s\<lparr>se_objs := se_objs s @ [newStream sid]\<rparr>"
  have "R ?s1 (?s1\<lparr>se_streams := AList.update sid (length (se_objs s)) (se_streams ?s1)\<rparr>)" by (rule R_bind) simp
  then have "R s (s\<lparr>se_objs := se_objs s @ [newStream sid], se_streams := AList.update sid (length (se_objs s)) (se_streams s)\<rparr>)"
    using R_trans [OF R_grow] by simp
  then show ?thesis by (rule R_trans [OF _ R_event]) (auto simp: is_hook_def)
qed

lemma R_recv_syn: "step_rel R s (recv_syn got sid s)"
  using R_writeControlFrame R_new_stream by (auto simp: recv_syn_def Let_def)

lemma R_settings_version: "step_rel R s (settings_version got m s)"
proof -
  let ?f = "(newFrame cmdServerSettings 0)\<lparr>f_data := stringMap_toBytes [(''v'', ''2'')]\<rparr>"
  have "R s (snd (writeControlFrame ?f (s\<lparr>se_peerVersion := v\<rparr>)))" for v
    by (rule R_trans [of _ "s\<lparr>se_peerVersion := v\<rparr>"]) (auto intro: R_same R_writeControlFrame)
  then have "R s t" if "writeControlFrame ?f (s\<lparr>se_peerVersion := v\<rparr>) = (r, t)" for v r t
    using that by (metis snd_conv)
  then show ?thesis
    by (auto simp: settings_version_def split: prod.splits option.splits sum.splits)
qed

lemma R_recv_settings: "step_rel R s (recv_settings d s)"
proof -
  have "step_rel R s (settings_version True m t)" if "writeControlFrame f s = (r, t)" for f r t m
    using R_writeControlFrame' [OF that] R_settings_version step_R_trans by blast
  moreover have "R s t" if "writeControlFrame f s = (r, t)" for f r t
    using R_writeControlFrame' [OF that] .
  ultimately show ?thesis
    using R_settings_version by (auto simp: recv_settings_def Let_def split: prod.splits sum.splits)
qed

lemma R_recv_updatePadding: "R s (recv_updatePadding md5hex d s)"
proof -
  have "R s (add_event (PaddingUpdate p) (s\<lparr>se_padding := p\<rparr>))" for p
    by (rule R_trans [OF R_same R_event]) (auto simp: is_hook_def)
  then show ?thesis by (auto simp: recv_updatePadding_def split: prod.splits bool.splits)
qed

lemma R_recv_serverSettings: "R s (recv_serverSettings d s)"
  by (rule R_same) (auto simp: recv_serverSettings_def split: prod.splits option.splits)

lemma R_syn_off: "R s (s\<lparr>se_syn := b\<rparr>)"
  by (rule R_same) auto

lemma R_recv_frame: "step_rel R s (recv_frame md5hex h got s)"
proof -
  have 1: "step_rel R s (with_data got h s (\<lambda>d s. Continue got (F d s)))" if "\<And>d t. R t (F d t)" for F
    by (rule with_data_R) (simp add: that)
  have 2: "step_rel R s (with_data got h (s\<lparr>se_syn := False\<rparr>) (\<lambda>d s. Continue got (recv_synack sid d s)))" for sid
    by (rule step_R_trans [OF R_syn_off], rule with_data_R) (simp add: R_recv_synack)
  have 3: "step_rel R s (with_data got h s (\<lambda>d s. if se_isClient s then Continue got s else recv_settings d s))"
    by (rule with_data_R) (simp add: R_recv_settings)
  have 4: "step_rel R s (with_data got h s (\<lambda>d s. Stop None (if se_isClient s then add_event (AlertMsg d) s else s)))"
    by (rule with_data_R) (simp add: R_event is_hook_def)
  have 5: "step_rel R s (case writeControlFrame f s of (Inl e, s') \<Rightarrow> Stop (Some e) s' | (Inr _, s') \<Rightarrow> Continue got s')" for f
    using R_writeControlFrame' [of f s] by (cases "writeControlFrame f s"; cases "fst (writeControlFrame f s)") auto
  show ?thesis
    unfolding recv_frame_def Let_def
    by (simp only: 2 3 4 5 R_recv_syn step_R_simps R_recv_fin R_refl split: if_split)
      (auto intro!: 1 simp: R_recv_psh R_recv_updatePadding R_recv_serverSettings)
qed

lemma R_recv_step: "step_rel R s (recv_step md5hex got s)"
proof (cases "on_conn (io_read headerOverHeadSize) s")
  case (Pair r t)
  have "R s t" using R_on_conn [of s "io_read headerOverHeadSize"] Pair by simp
  then show ?thesis
    using Pair step_R_trans [OF _ R_recv_frame] by (cases r) (auto simp: recv_step_def)
qed

lemma R_reported: "R s (s\<lparr>se_objs := (se_objs s)[i := (se_objs s ! i)\<lparr>st_reported := True\<rparr>]\<rparr>)"
  by (rule R_objs) (simp_all add: nth_update_iff)

lemma R_via: "R s t \<Longrightarrow> R s (snd (writeControlFrame f t))"
  using R_trans R_writeControlFrame by blast

lemma R_case_pair:
  "snd x = t \<Longrightarrow> R s t \<Longrightarrow> R s (snd (case x of (Inl e, t) \<Rightarrow> (Some e, t) | (Inr _, t) \<Rightarrow> (None, t)))"
  by (auto split: prod.splits sum.splits)

lemma R_handshake: "R s (snd (handshakeFailure m i s))" "R s (snd (handshakeSuccess i s))"
  using R_reported [of s i] R_via [OF R_reported [of s i]]
  by (auto simp: handshakeFailure_def handshakeSuccess_def Let_def intro!: R_case_pair split: option.splits)

lemma R_stream_write: "R s (snd (stream_write ex i b s))"
  using R_writeDataFrame by (auto simp: stream_write_def split: option.splits)

text \<open>Opening a stream, up to setting its hook.\<close>

lemma R_openStream:
  assumes "openStream s = (r, t)"
  shows "R s t"
proof (cases "se_die s")
  case True
  then show ?thesis using assms by (simp add: openStream_def R_refl)
next
  case die: False
  let ?sid = "se_nextId s + 1"
  let ?s0 = "s\<lparr>se_objs := se_objs s @ [newStream ?sid]\<rparr>"
  let ?s1 = "s\<lparr>se_nextId := ?sid, se_objs := se_objs s @ [newStream ?sid]\<rparr>"
  let ?s2 = "if ?sid \<ge> 2 \<and> se_peerVersion ?s1 \<ge> 2 then ?s1\<lparr>se_syn := True\<rparr> else ?s1"
  have "R ?s0 ?s2" by (rule R_same) simp_all
  then have s2: "R s ?s2" by (rule R_trans [OF R_grow])
  obtain q u where w: "writeControlFrame (newFrame cmdSYN ?sid) ?s2 = (q, u)"
    by (cases "writeControlFrame (newFrame cmdSYN ?sid) ?s2")
  have u: "R s u" by (rule R_trans [OF s2 R_writeControlFrame' [OF w]])
  have lu: "length (se_objs u) = Suc (length (se_objs s))" using length_writeControlFrame [OF w] by simp
  have u1: "R s (u\<lparr>se_buffering := False\<rparr>)" by (rule R_trans [OF u R_same]) auto
  show ?thesis
  proof (cases "\<exists>x. q = Inr x \<and> \<not> se_die u")
    case True
    then have t: "t = u\<lparr>se_buffering := False, se_streams := AList.update ?sid (length (se_objs s)) (se_streams u)\<rparr>"
      using assms die w by (auto simp: openStream_def Let_def)
    have "R (u\<lparr>se_buffering := False\<rparr>) ((u\<lparr>se_buffering := False\<rparr>)\<lparr>se_streams :=
      AList.update ?sid (length (se_objs s)) (se_streams (u\<lparr>se_buffering := False\<rparr>))\<rparr>)"
      by (rule R_bind) (simp add: lu)
    then show ?thesis using R_trans [OF u1] by (simp add: t)
  next
    case False
    then have "t = u \<or> t = u\<lparr>se_buffering := False\<rparr>"
      using assms die w by (cases q) (auto simp: openStream_def Let_def)
    then show ?thesis using u u1 by auto
  qed
qed

text \<open>One operation other than opening a stream.\<close>

lemma R_step: "x \<noteq> OpCreate \<Longrightarrow> R s (sess_step md5hex x s)"
proof (cases x)
  case (OpRecv got)
  have "step_rel R s (recv_step md5hex got s)" by (rule R_recv_step)
  then show ?thesis using OpRecv R_trans [OF _ R_close]
    by (auto simp: step_rel_def split: rstep.splits)
next
  case (OpInput b)
  show ?thesis unfolding OpInput by (rule R_same) simp_all
next
  case OpTimeout
  show ?thesis using OpTimeout R_trans [OF R_syn_off R_close] R_refl by (auto simp: syn_timeout_def)
qed (auto simp: on_stream_def stream_close_def R_refl R_stream_write R_closeWithError R_handshake R_close)

end

lemma openStream_new:
  assumes "openStream s = (Inr i, t)"
  shows "i = length (se_objs s)" "i < length (se_objs t)"
proof -
  let ?sid = "se_nextId s + 1"
  let ?s1 = "s\<lparr>se_nextId := ?sid, se_objs := se_objs s @ [newStream ?sid]\<rparr>"
  let ?s2 = "if ?sid \<ge> 2 \<and> se_peerVersion ?s1 \<ge> 2 then ?s1\<lparr>se_syn := True\<rparr> else ?s1"
  obtain q u where w: "writeControlFrame (newFrame cmdSYN ?sid) ?s2 = (q, u)"
    by (cases "writeControlFrame (newFrame cmdSYN ?sid) ?s2")
  have "length (se_objs u) = Suc (length (se_objs s))" using length_writeControlFrame [OF w] by simp
  then show "i = length (se_objs s)" "i < length (se_objs t)"
    using assms w by (cases q; auto simp: openStream_def Let_def split: if_splits)+
qed

end
