(* ===== verification/AnyCallbacks.thy ===== *)
theory AnyCallbacks
  imports AnyRelation
begin

text \<open>
  Two instances of \<open>session_relation\<close>. \<open>calls s t\<close> says that going from \<open>s\<close> to \<open>t\<close> a hook that is
  still set may have been traded for a call, and never more, so that every hook runs at most once.
  \<open>evolves s t\<close> says which events a session reports and in which order: while it lives a stream's
  hook sees an open session, the session's own hook is the turning point, and afterwards every hook sees
  a closed one.
\<close>

definition stream_calls :: "nat \<Rightarrow> session \<Rightarrow> nat" where
  "stream_calls i s = length (filter (is_hook i) (se_log s))"

definition die_calls :: "session \<Rightarrow> nat" where
  "die_calls s = length (filter (\<lambda>e. e = DieHook) (se_log s))"

definition hm :: "session \<Rightarrow> nat \<Rightarrow> nat" where
  "hm s i = stream_calls i s + (if i < length (se_objs s) \<and> st_hook (se_objs s ! i) then 1 else 0)"

definition dm :: "session \<Rightarrow> nat" where
  "dm s = die_calls s + (if se_hook s then 1 else 0)"

definition calls :: "session \<Rightarrow> session \<Rightarrow> bool" where
  "calls s t \<longleftrightarrow> (tbl_ok s \<longrightarrow> tbl_ok t \<and> length (se_objs s) \<le> length (se_objs t) \<and> (\<forall>i. hm t i \<le> hm s i) \<and> dm t \<le> dm s)"

lemmas hm_defs = hm_def dm_def stream_calls_def die_calls_def

lemma calls_same:
  assumes "se_log t = se_log s" "se_objs t = se_objs s" "se_hook t = se_hook s"
    "set (se_streams t) \<subseteq> set (se_streams s)"
  shows "calls s t"
  using assms by (auto simp: calls_def tbl_ok_def hm_defs)

lemma calls_die:
  assumes "i < length (se_objs s)"
  shows "calls s (snd (stream_die e i s))"
  using assms
  by (auto simp: calls_def tbl_ok_def hm_defs stream_die_def add_event_def Let_def is_hook_def nth_list_update)

lemma update_entries: "set (AList.update sid (n :: nat) xs) \<subseteq> insert (sid, n) (set xs)"
  by (induction xs) auto

interpretation calls: session_relation calls
proof
  show "calls s s" for s by (simp add: calls_def)
  show "calls s t \<Longrightarrow> calls t u \<Longrightarrow> calls s u" for s t u unfolding calls_def by (meson le_trans)
  show "(tbl_ok s \<Longrightarrow> calls s t) \<Longrightarrow> calls s t" for s t by (auto simp: calls_def)
  show "i < length (se_objs s) \<Longrightarrow> calls s (snd (stream_die err i s))" for i s err by (rule calls_die)
  show "calls s (s\<lparr>se_objs := se_objs s @ [newStream sid]\<rparr>)" for s sid
    by (auto simp: calls_def tbl_ok_def hm_defs newStream_def nth_append)
  show "i < length (se_objs s) \<Longrightarrow> calls s (s\<lparr>se_streams := AList.update sid i (se_streams s)\<rparr>)" for i s sid
    using update_entries [of sid i "se_streams s"] by (fastforce simp: calls_def tbl_ok_def hm_defs)
qed (auto simp: calls_def tbl_ok_def hm_defs add_event_def is_hook_def mark_dead_def Let_def)

section \<open>At most once\<close>

definition hooks_inv :: "session \<Rightarrow> bool" where
  "hooks_inv s \<longleftrightarrow> tbl_ok s \<and> (\<forall>i. hm s i \<le> 1) \<and> (\<forall>i. length (se_objs s) \<le> i \<longrightarrow> hm s i = 0) \<and> dm s \<le> 1"

lemma hooks_inv_calls: "hooks_inv s \<Longrightarrow> calls s t \<Longrightarrow> hooks_inv t"
  unfolding hooks_inv_def calls_def by (metis le_trans le_zero_eq)

lemma hooks_inv_set_hook:
  assumes "hooks_inv t" "hm t i = 0" "i < length (se_objs t)"
  shows "hooks_inv (set_hook i t)"
proof -
  have "hm (set_hook i t) j = (if j = i then 1 else hm t j)" for j
    using assms(2,3) by (auto simp: set_hook_def hm_defs nth_list_update split: if_splits)
  then show ?thesis
    using assms by (auto simp: hooks_inv_def tbl_ok_def set_hook_def dm_def die_calls_def)
qed

lemma hooks_inv_create: "hooks_inv s \<Longrightarrow> hooks_inv (snd (create_stream s))"
proof -
  assume inv: "hooks_inv s"
  obtain r t where o: "openStream s = (r, t)" by (cases "openStream s")
  note c = calls.R_openStream [OF o]
  have t: "hooks_inv t" using hooks_inv_calls [OF inv c] .
  show ?thesis
  proof (cases r)
    case (Inl e)
    then show ?thesis using o hooks_inv_calls [OF t calls.R_close] by (simp add: create_stream_def)
  next
    case (Inr i)
    have i: "i = length (se_objs s)" "i < length (se_objs t)" using openStream_new o Inr by blast+
    have "hm t i \<le> hm s i" using c inv by (simp add: calls_def hooks_inv_def)
    then have "hm t i = 0" using inv i(1) by (simp add: hooks_inv_def)
    then show ?thesis using o Inr hooks_inv_set_hook [OF t _ i(2)] by (simp add: create_stream_def)
  qed
qed

lemma hooks_inv_step: "hooks_inv s \<Longrightarrow> hooks_inv (sess_step md5hex x s)"
  using hooks_inv_create [of s] hooks_inv_calls [OF _ calls.R_step [of x s md5hex]]
  by (cases "x = OpCreate") auto

lemma hooks_inv_run: "hooks_inv s \<Longrightarrow> hooks_inv (sess_run md5hex ops s)"
  unfolding sess_run_def by (induction ops arbitrary: s) (auto intro: hooks_inv_step)

text \<open>C13: Callbacks run at most once. From a new client or server session with its hook set, after
  any sequence of stream openings, writes, closings, received input, handshake reports, timeouts and
  \<open>Close\<close> calls, the session's \<open>dieHook\<close> has been called at most once, and so has the hook of every stream,
  so that a client session goes back to the idle pool at most once per stream.\<close>

theorem callbacks_at_most_once:
  assumes "s = (newClientSession c p rnd)\<lparr>se_hook := True\<rparr> \<or> s = (newServerSession c p rnd)\<lparr>se_hook := True\<rparr>"
  shows "die_calls (sess_run md5hex ops s) \<le> 1 \<and> stream_calls i (sess_run md5hex ops s) \<le> 1"
proof -
  have "hooks_inv s"
    using assms by (auto simp: hooks_inv_def tbl_ok_def hm_defs newClientSession_def newServerSession_def)
  then have "hooks_inv (sess_run md5hex ops s)" by (rule hooks_inv_run)
  then have "hm (sess_run md5hex ops s) i \<le> 1" "dm (sess_run md5hex ops s) \<le> 1"
    by (simp_all add: hooks_inv_def)
  then show ?thesis by (simp add: hm_def dm_def split: if_splits)
qed

theorem callbacks_at_most_once_witness:
  "stream_calls 0 (sess_run (\<lambda>_. []) [OpCreate, OpWrite 0 [1], OpCloseStream 0, OpCloseStream 0, OpClose]
     ((newClientSession (mk_conn []) (default_factory (\<lambda>_. [])) [])\<lparr>se_hook := True\<rparr>)) \<le> 1"
  using callbacks_at_most_once [of "(newClientSession (mk_conn []) (default_factory (\<lambda>_. [])) [])\<lparr>se_hook := True\<rparr>"]
  by blast

section \<open>The order of events\<close>

text \<open>The events of a session whose first state is alive or not, and the state after them.\<close>

fun ev_run :: "event list \<Rightarrow> bool \<Rightarrow> bool option" where
  "ev_run [] alive = Some alive"
| "ev_run (DieHook # es) alive = (if alive then ev_run es False else None)"
| "ev_run (StreamHook i closed # es) alive = (if closed = (\<not> alive) then ev_run es alive else None)"
| "ev_run (e # es) alive = ev_run es alive"

lemma ev_run_append: "ev_run (xs @ ys) a = Option.bind (ev_run xs a) (ev_run ys)"
  by (induction xs a rule: ev_run.induct) auto

definition sess_ok :: "session \<Rightarrow> bool" where
  "sess_ok s \<longleftrightarrow> tbl_ok s \<and> se_hook s = (\<not> se_die s)"

definition evolves :: "session \<Rightarrow> session \<Rightarrow> bool" where
  "evolves s t \<longleftrightarrow> (sess_ok s \<longrightarrow> sess_ok t \<and>
     (\<exists>es. se_log t = se_log s @ es \<and> ev_run es (\<not> se_die s) = Some (\<not> se_die t)))"

lemma evolves_none:
  assumes "se_log t = se_log s" "se_hook t = se_hook s" "se_die t = se_die s"
    "length (se_objs s) \<le> length (se_objs t)" "tbl_ok s \<Longrightarrow> tbl_ok t"
  shows "evolves s t"
  using assms by (auto simp: evolves_def sess_ok_def)

lemma evolves_one:
  assumes "se_log t = se_log s @ [e]" "tbl_ok s \<Longrightarrow> tbl_ok t" "se_hook s = (\<not> se_die s) \<Longrightarrow> se_hook t = (\<not> se_die t)"
    "ev_run [e] (\<not> se_die s) = Some (\<not> se_die t)"
  shows "evolves s t"
  using assms by (auto simp: evolves_def sess_ok_def)

lemma evolves_trans:
  assumes "evolves s t" "evolves t u" shows "evolves s u"
  unfolding evolves_def
proof
  assume "sess_ok s"
  then obtain es where 1: "sess_ok t" "se_log t = se_log s @ es" "ev_run es (\<not> se_die s) = Some (\<not> se_die t)"
    using assms(1) by (auto simp: evolves_def)
  then obtain fs where 2: "sess_ok u" "se_log u = se_log t @ fs" "ev_run fs (\<not> se_die t) = Some (\<not> se_die u)"
    using assms(2) by (auto simp: evolves_def)
  then show "sess_ok u \<and> (\<exists>es. se_log u = se_log s @ es \<and> ev_run es (\<not> se_die s) = Some (\<not> se_die u))"
    using 1 by (intro conjI exI [of _ "es @ fs"]) (simp_all add: ev_run_append)
qed

lemma ev_run_other: "(\<And>i. \<not> is_hook i e) \<Longrightarrow> e \<noteq> DieHook \<Longrightarrow> ev_run [e] a = Some a"
  by (cases e) (auto simp: is_hook_def)

interpretation evolves: session_relation evolves
proof
  show "evolves s s" for s by (rule evolves_none) simp_all
  show "evolves s t \<Longrightarrow> evolves t u \<Longrightarrow> evolves s u" for s t u by (rule evolves_trans)
  show "(tbl_ok s \<Longrightarrow> evolves s t) \<Longrightarrow> evolves s t" for s t
    by (auto simp: evolves_def sess_ok_def)
  show "evolves s t" if "se_log t = se_log s" "se_objs t = se_objs s" "se_hook t = se_hook s" "se_die t = se_die s"
    "set (se_streams t) \<subseteq> set (se_streams s)" for s t
    by (rule evolves_none) (use that in \<open>auto simp: tbl_ok_def\<close>)
  show "evolves s t" if "se_log t = se_log s" "length (se_objs t) = length (se_objs s)" "se_hook t = se_hook s"
    "se_die t = se_die s" "se_streams t = se_streams s" for s t
    by (rule evolves_none) (use that in \<open>auto simp: tbl_ok_def\<close>)
  show "evolves s (add_event e s)" if "\<And>i. \<not> is_hook i e" "e \<noteq> DieHook" for e s
    by (rule evolves_one [of _ _ e]) (use ev_run_other [OF that] in \<open>auto simp: add_event_def tbl_ok_def\<close>)
  show "evolves s (snd (stream_die err i s))" for i s err
  proof (cases "st_err (se_objs s ! i) = None \<and> st_hook (se_objs s ! i)")
    case True
    then show ?thesis
      by (intro evolves_one [of _ _ "StreamHook i (se_die s)"]) (auto simp: stream_die_def add_event_def tbl_ok_def Let_def)
  next
    case False
    then show ?thesis
      by (intro evolves_none) (auto simp: stream_die_def tbl_ok_def Let_def)
  qed
  show "\<not> se_die s \<Longrightarrow> evolves s (mark_dead s)" for s
    by (auto simp: evolves_def sess_ok_def mark_dead_def add_event_def tbl_ok_def Let_def)
  show "evolves s (s\<lparr>se_objs := se_objs s @ [newStream sid]\<rparr>)" for s sid
    by (rule evolves_none) (auto simp: tbl_ok_def)
  show "i < length (se_objs s) \<Longrightarrow> evolves s (s\<lparr>se_streams := AList.update sid i (se_streams s)\<rparr>)" for i s sid
    by (rule evolves_none) (use update_entries [of sid i "se_streams s"] in \<open>fastforce simp: tbl_ok_def\<close>)+
qed

lemma evolves_create: "evolves s (snd (create_stream s))"
proof -
  obtain r t where o: "openStream s = (r, t)" by (cases "openStream s")
  note c = evolves.R_openStream [OF o]
  show ?thesis
  proof (cases r)
    case (Inl e)
    then show ?thesis using o evolves_trans [OF c evolves.R_close] by (simp add: create_stream_def)
  next
    case (Inr i)
    have "evolves t (set_hook i t)" by (rule evolves_none) (auto simp: set_hook_def tbl_ok_def)
    then show ?thesis using o Inr evolves_trans [OF c] by (simp add: create_stream_def)
  qed
qed

lemma evolves_step: "evolves s (sess_step md5hex x s)"
  using evolves_create [of s] evolves.R_step [of x s md5hex] by (cases "x = OpCreate") auto

end
