(* ===== verification/AnyNegotiate.thy ===== *)
theory AnyNegotiate
  imports AnyDelivery
begin

text \<open>
  The settings exchange of an anytls session, and what a frame of more than 65535 bytes does to the
  stream of frames.
\<close>

section \<open>Oversized frames\<close>

text \<open>\<open>writeDataFrame\<close> truncates the length of its data to 16 bits but sends all of it and
  reports all of it as written: the peer reads back only the first \<open>len mod 2^16\<close> bytes as the
  frame and takes the rest of the data for frame headers.\<close>

theorem oversized_write_desyncs:
  "read_frame (frame_bytes \<lparr>f_cmd = cmdPSH, f_sid = sid, f_data = d\<rparr> @ r)
     = Ok (\<lparr>f_cmd = cmdPSH, f_sid = sid, f_data = take (length d mod 65536) d\<rparr>, drop (length d mod 65536) d @ r)
   \<and> (fst (writeDataFrame sid d s) = Ok (length d) \<or> (\<exists>e. fst (writeDataFrame sid d s) = Err e))"
proof -
  let ?f = "\<lparr>f_cmd = cmdPSH, f_sid = sid, f_data = d\<rparr>"
  let ?n = "length d mod 65536"
  have u: "unat (word_of_nat (length d) :: 16 word) = ?n" by (simp add: unat_of_nat)
  have z: "(word_of_nat (length d) :: 16 word) > 0 \<longleftrightarrow> ?n \<noteq> 0"
    by (metis u unat_eq_zero word_gt_0)
  have "read_full 7 (frame_bytes ?f @ r) = Ok (frame_hdr ?f, d @ r)"
    using read_full_append [OF frame_hdr_fields(1) [of ?f], of "d @ r"] by (simp add: frame_bytes_hdr)
  moreover have "read_full ?n (d @ r) = Ok (take ?n d, drop ?n d @ r)"
    using mod_less_eq_dividend [of "length d" 65536] by (simp add: read_full_def)
  ultimately have "read_frame (frame_bytes ?f @ r) = Ok (\<lparr>f_cmd = cmdPSH, f_sid = sid, f_data = take ?n d\<rparr>, drop ?n d @ r)"
    using u z by (simp add: read_frame_def frame_hdr_fields has_data_def)
  moreover have "fst (writeDataFrame sid d s) = Ok (length d) \<or> (\<exists>e. fst (writeDataFrame sid d s) = Err e)"
    by (auto simp: writeDataFrame_def split: prod.splits sum.splits)
  ultimately show ?thesis by simp
qed

section \<open>Settings\<close>

text \<open>A server session writes without padding.\<close>

definition server_ready :: "session \<Rightarrow> bool" where
  "server_ready r \<longleftrightarrow> \<not> se_die r \<and> \<not> se_isClient r \<and> \<not> se_sendPadding r \<and> \<not> se_buffering r \<and> se_buffer r = []
     \<and> good (se_conn r)"

lemma server_write:
  assumes "server_ready r"
  shows "writeControlFrame f r = (Inr (length (f_data f)), r\<lparr>se_conn := (se_conn r)\<lparr>wr := wr (se_conn r) @ [frame_bytes f]\<rparr>\<rparr>)"
proof -
  have "r\<lparr>se_buffer := [], se_conn := x\<rparr> = r\<lparr>se_conn := x\<rparr>" for x
    using assms by (cases r) (simp add: server_ready_def)
  then show ?thesis using assms good_write [of "se_conn r" "frame_bytes f"]
    by (simp add: server_ready_def writeControlFrame_def writeConn_def plain_write_def on_conn_def Let_def)
qed

lemma server_ready_upd [simp]:
  "server_ready (r\<lparr>se_conn := (se_conn r)\<lparr>wr := w\<rparr>\<rparr>) = server_ready r"
  "server_ready (set_rd x r) = server_ready r" "server_ready (r\<lparr>se_peerVersion := v\<rparr>) = server_ready r"
  by (simp_all add: server_ready_def)

abbreviation settings_frame :: "string_map \<Rightarrow> frame" where
  "settings_frame es \<equiv> (newFrame cmdSettings 0)\<lparr>f_data := stringMap_toBytes es\<rparr>"

abbreviation scheme_frame :: "padding_factory \<Rightarrow> frame" where
  "scheme_frame p \<equiv> (newFrame cmdUpdatePaddingScheme 0)\<lparr>f_data := pf_raw p\<rparr>"

abbreviation version_frame :: frame where
  "version_frame \<equiv> (newFrame cmdServerSettings 0)\<lparr>f_data := stringMap_toBytes [(''v'', ''2'')]\<rparr>"

lemma atoi_2: "atoi ''2'' = (2, None)"
  by code_simp

lemma v2_bytes: "stringMap_toBytes [(''v'', ''2'')] = s2b ''v=2''"
  by (simp add: stringMap_toBytes_def kv_line_def)

lemma v2_get: "sm_get (stringMap_fromBytes (s2b ''v=2'')) ''v'' = ''2''"
proof -
  have "clean_map [(''v'', ''2'')]" by (simp add: clean_map_def)
  from stringMap_roundtrip [OF this] show ?thesis by (simp add: sm_get_def v2_bytes)
qed

text \<open>The server's step on a client's settings.\<close>

lemma server_settings_step:
  assumes "server_ready r" "rd (se_conn r) = frame_bytes (settings_frame es)"
    "es \<noteq> []" "length (stringMap_toBytes es) < 65536"
    "map_of (stringMap_fromBytes (stringMap_toBytes es)) = m" "m ''v'' = Some ''2''" "m ''padding-md5'' = Some h"
  shows "\<exists>r'. recv_step md5hex got r = Continue True r' \<and> se_peerVersion r' = 2 \<and> server_ready r' \<and> rd (se_conn r') = []
    \<and> wr (se_conn r') = wr (se_conn r)
        @ (if h \<noteq> pf_md5 (se_padding r) then [frame_bytes (scheme_frame (se_padding r))] else [])
        @ [frame_bytes version_frame]"
proof -
  let ?f = "settings_frame es"
  have ne: "stringMap_toBytes es \<noteq> []"
  proof -
    have "kv_line e \<noteq> []" for e by (simp add: kv_line_def)
    then show ?thesis using assms(3) by (cases es rule: remdups_adj.cases) (auto simp: stringMap_toBytes_def s2b_def)
  qed
  have fok: "frame_ok ?f" using assms(4) by (simp add: newFrame_def frame_ok_def has_data_def)
  have "recv_step md5hex got r = recv_frame md5hex (frame_hdr ?f) got (set_rd (f_data ?f @ []) r)"
    by (rule recv_step_frame) (use assms(1,2) in \<open>simp_all add: server_ready_def\<close>)
  also have "\<dots> = recv_settings (stringMap_toBytes es) (set_rd [] r)"
    using with_data_frame [OF fok, of "set_rd (f_data ?f @ []) r" "[]"] ne assms(1)
    by (simp add: recv_frame_def frame_hdr_fields newFrame_def server_ready_def)
  finally have step: "recv_step md5hex got r = recv_settings (stringMap_toBytes es) (set_rd [] r)" .
  have sm: "sm_get (stringMap_fromBytes (stringMap_toBytes es)) ''v'' = ''2''"
    "sm_get (stringMap_fromBytes (stringMap_toBytes es)) ''padding-md5'' = h"
    using assms(5-7) by (simp_all add: sm_get_def)
  have ver: "\<exists>t'. settings_version True (stringMap_fromBytes (stringMap_toBytes es)) t = Continue True t'
      \<and> se_peerVersion t' = 2 \<and> server_ready t' \<and> rd (se_conn t') = rd (se_conn t)
      \<and> wr (se_conn t') = wr (se_conn t) @ [frame_bytes version_frame]" if "server_ready t" for t
    using server_write [of "t\<lparr>se_peerVersion := 2\<rparr>" version_frame] that
    by (simp add: settings_version_def sm atoi_2, simp add: server_ready_def)
  show ?thesis
  proof (cases "h = pf_md5 (se_padding r)")
    case True
    then show ?thesis using ver [of "set_rd [] r"] assms(1) by (simp add: step recv_settings_def sm)
  next
    case False
    let ?t = "(set_rd [] r)\<lparr>se_conn := (se_conn (set_rd [] r))\<lparr>wr := wr (se_conn r) @ [frame_bytes (scheme_frame (se_padding r))]\<rparr>\<rparr>"
    have "writeControlFrame (scheme_frame (se_padding r)) (set_rd [] r) = (Inr (length (pf_raw (se_padding r))), ?t)"
      using server_write [of "set_rd [] r"] assms(1) by simp
    moreover have "server_ready ?t" using assms(1) by (simp add: server_ready_def)
    ultimately show ?thesis
      using ver [of ?t] False by (simp add: step recv_settings_def sm)
  qed
qed

text \<open>The client's steps on the answers.\<close>

lemma client_scheme_step:
  assumes "\<not> se_die c" "se_isClient c" "rd (se_conn c) = frame_bytes (scheme_frame p) @ x"
    "newPaddingFactory md5hex (pf_raw p) = Some p" "pf_raw p \<noteq> []" "length (pf_raw p) < 65536"
  shows "recv_step md5hex got c = Continue got (add_event (PaddingUpdate p) ((set_rd x c)\<lparr>se_padding := p\<rparr>))"
proof -
  let ?f = "scheme_frame p"
  have fok: "frame_ok ?f" using assms(6) by (simp add: newFrame_def frame_ok_def has_data_def)
  have "recv_step md5hex got c = recv_frame md5hex (frame_hdr ?f) got (set_rd (f_data ?f @ x) c)"
    by (rule recv_step_frame) (use assms in simp_all)
  then show ?thesis
    using with_data_frame [OF fok, of "set_rd (f_data ?f @ x) c" x] assms(2,4,5)
    by (simp add: recv_frame_def frame_hdr_fields newFrame_def recv_updatePadding_def updatePaddingScheme_def)
qed

lemma client_version_step:
  assumes "\<not> se_die c" "se_isClient c" "rd (se_conn c) = frame_bytes version_frame @ x"
  shows "recv_step md5hex got c = Continue got ((set_rd x c)\<lparr>se_peerVersion := 2\<rparr>)"
proof -
  let ?f = version_frame
  have fok: "frame_ok ?f" by (simp add: newFrame_def frame_ok_def has_data_def v2_bytes)
  have ne: "s2b ''v=2'' \<noteq> []" by (simp add: s2b_def)
  have "recv_step md5hex got c = recv_frame md5hex (frame_hdr ?f) got (set_rd (f_data ?f @ x) c)"
    by (rule recv_step_frame) (use assms in simp_all)
  then show ?thesis
    using with_data_frame [OF fok, of "set_rd (f_data ?f @ x) c" x] assms(2) ne
    by (simp add: recv_frame_def frame_hdr_fields newFrame_def recv_serverSettings_def v2_bytes v2_get atoi_2)
qed

lemma client_settings_clean:
  assumes "set es = set (client_settings c)" "distinct (map fst es)" "CHR 0x0A \<notin> set (pf_md5 (se_padding c))"
  shows "map_of (stringMap_fromBytes (stringMap_toBytes es)) = map_of (client_settings c)"
proof -
  have "distinct (map fst (client_settings c))" by (simp add: client_settings_def)
  then have "map_of es = map_of (client_settings c)" using map_of_inject_set [OF assms(2)] assms(1) by simp
  moreover have "clean_map es"
    using assms by (auto simp: clean_map_def list_all_iff client_settings_def)
  ultimately show ?thesis using stringMap_roundtrip by simp
qed

text \<open>C38: The settings exchange. A server whose padding scheme has another MD5 than the client's answers
  a client's settings, in whatever order their map was written, with its scheme and its version; after
  reading the answer the client pads with the server's scheme and both sides know that the peer
  speaks version 2.\<close>

theorem anytls_negotiation:
  assumes "server_ready r" "\<not> se_die c" "se_isClient c"
    and "set es = set (client_settings c)" "distinct (map fst es)" "CHR 0x0A \<notin> set (pf_md5 (se_padding c))"
    and "length (stringMap_toBytes es) < 65536" "pf_md5 (se_padding c) \<noteq> pf_md5 (se_padding r)"
    and "newPaddingFactory md5hex (pf_raw (se_padding r)) = Some (se_padding r)"
    and "pf_raw (se_padding r) \<noteq> []" "length (pf_raw (se_padding r)) < 65536"
  shows "\<exists>r' ws c1 c2. recv_step md5hex False (set_rd (frame_bytes (settings_frame es)) r) = Continue True r'
    \<and> se_peerVersion r' = 2 \<and> wr (se_conn r') = wr (se_conn r) @ ws
    \<and> recv_step md5hex got (set_rd (concat ws) c) = Continue got c1
    \<and> recv_step md5hex got c1 = Continue got c2
    \<and> se_padding c2 = se_padding r \<and> se_peerVersion c2 = 2 \<and> rd (se_conn c2) = []"
proof -
  let ?m = "map_of (client_settings c)"
  have m: "?m ''v'' = Some ''2''" "?m ''padding-md5'' = Some (pf_md5 (se_padding c))"
    by (simp_all add: client_settings_def)
  have "client_settings c \<noteq> []" by (simp add: client_settings_def)
  then have ne: "es \<noteq> []" using assms(4) by (metis set_empty)
  let ?r = "set_rd (frame_bytes (settings_frame es)) r"
  obtain r' where r': "recv_step md5hex False ?r = Continue True r'" "se_peerVersion r' = 2"
    "wr (se_conn r') = wr (se_conn r) @ [frame_bytes (scheme_frame (se_padding r)), frame_bytes version_frame]"
    using server_settings_step [of ?r es ?m "pf_md5 (se_padding c)" md5hex False] assms(1,7,8) ne m
      client_settings_clean [OF assms(4-6)] by auto
  let ?ws = "[frame_bytes (scheme_frame (se_padding r)), frame_bytes version_frame]"
  let ?c = "set_rd (concat ?ws) c"
  let ?c1 = "add_event (PaddingUpdate (se_padding r)) ((set_rd (frame_bytes version_frame @ []) ?c)\<lparr>se_padding := se_padding r\<rparr>)"
  define c1 where "c1 = ?c1"
  define c2 where "c2 = (set_rd [] c1)\<lparr>se_peerVersion := 2\<rparr>"
  have 1: "recv_step md5hex got ?c = Continue got c1"
    unfolding c1_def by (rule client_scheme_step) (use assms(2,3,9-11) in simp_all)
  have 2: "recv_step md5hex got c1 = Continue got c2"
    unfolding c2_def by (rule client_version_step) (use assms(2,3) in \<open>simp_all add: add_event_def c1_def\<close>)
  have 3: "se_padding c2 = se_padding r" "se_peerVersion c2 = 2" "rd (se_conn c2) = []"
    by (simp_all add: add_event_def c1_def c2_def)
  show ?thesis
    by (rule exI [of _ r'], rule exI [of _ ?ws], rule exI [of _ c1], rule exI [of _ c2])
      (simp only: r' 1 2 3 simp_thms)
qed

theorem anytls_negotiation_witness:
  "\<exists>r' ws. recv_step (\<lambda>_. ''b'') False (set_rd (frame_bytes (settings_frame
        [(''v'', ''2''), (''client'', ''mihomo/1.1''), (''padding-md5'', ''a'')]))
        (newServerSession (mk_conn []) (default_factory (\<lambda>_. ''b'')) [])) = Continue True r'
    \<and> se_peerVersion r' = 2 \<and> wr (se_conn r') = ws"
  using anytls_negotiation [of "newServerSession (mk_conn []) (default_factory (\<lambda>_. ''b'')) []"
      "newClientSession (mk_conn []) (default_factory (\<lambda>_. ''a'')) []"
      "[(''v'', ''2''), (''client'', ''mihomo/1.1''), (''padding-md5'', ''a'')]" "\<lambda>_. ''b''" False]
    default_factory [of "\<lambda>_. ''b''"]
  by (auto simp: newServerSession_def newClientSession_def mk_conn_def server_ready_def good_def client_settings_def
      default_factory_def stringMap_toBytes_def kv_line_def defaultPaddingScheme_def s2b_def)

end
