(* ===== verification/AnyClient.thy ===== *)
theory AnyClient
  imports AnyCallbacks SkiplistMap
begin

text \<open>
  \<open>transport/anytls/session/client.go\<close>: the client that keeps a pool of idle sessions in the skip list of
  \<open>Skiplist\<close>, newest session first, and the header of \<open>transport/anytls/client.go\<close>. Sessions are objects
  in a store; the callbacks they make are the events of their log, handled in the order in which they were
  made. Times are integers, and a broken skip list (which never occurs) would be \<open>None\<close>.
\<close>

section \<open>State\<close>

record csession =
  cs_seq :: "64 word"
  cs_sess :: session
  cs_idle :: int

record pool_client =
  pc_die :: bool
  pc_counter :: "64 word"
  pc_idle :: "nat skiplist"
  pc_sessions :: "(64 word \<times> nat) list"
  pc_store :: "csession list"
  pc_padding :: padding_factory
  pc_min :: int
  pc_timeout :: int
  pc_interval :: int
  pc_pending :: "nat list"

definition seconds :: int where "seconds = 1000000000"

definition newClient :: "padding_factory \<Rightarrow> int \<Rightarrow> int \<Rightarrow> int \<Rightarrow> pool_client" where
  "newClient p interval timeout mn =
     \<lparr>pc_die = False, pc_counter = 0, pc_idle = newSkipList, pc_sessions = [], pc_store = [], pc_padding = p,
      pc_min = mn, pc_timeout = (if timeout \<le> 5 * seconds then 30 * seconds else timeout),
      pc_interval = (if interval \<le> 5 * seconds then 30 * seconds else interval),
      pc_pending = []\<rparr>"

text \<open>\<open>math.MaxUint64 - seq\<close>.\<close>

definition pool_key :: "64 word \<Rightarrow> 64 word" where
  "pool_key seq = - 1 - seq"

abbreviation sess_of :: "pool_client \<Rightarrow> nat \<Rightarrow> session" where
  "sess_of c k \<equiv> cs_sess (pc_store c ! k)"

abbreviation seq_of :: "pool_client \<Rightarrow> nat \<Rightarrow> 64 word" where
  "seq_of c k \<equiv> cs_seq (pc_store c ! k)"

definition put_sess :: "nat \<Rightarrow> session \<Rightarrow> pool_client \<Rightarrow> pool_client" where
  "put_sess k s c = c\<lparr>pc_store := (pc_store c)[k := (pc_store c ! k)\<lparr>cs_sess := s\<rparr>]\<rparr>"

section \<open>Callbacks\<close>

text \<open>The stream hook of \<open>CreateStream\<close> on an open session and a running client, and the session hook of
  \<open>createSession\<close>. On a closed client the stream hook starts a goroutine that closes the session:
  the session is put on \<open>pc_pending\<close>, and \<open>run_pending\<close> is that goroutine's turn.\<close>

definition back_to_pool :: "64 word \<Rightarrow> int \<Rightarrow> nat \<Rightarrow> pool_client \<Rightarrow> pool_client option" where
  "back_to_pool rnd now k c =
     (case sl_insert rnd (pool_key (seq_of c k)) k (pc_idle c) of
        None \<Rightarrow> None
      | Some sl \<Rightarrow> Some (c\<lparr>pc_idle := sl, pc_store := (pc_store c)[k := (pc_store c ! k)\<lparr>cs_idle := now\<rparr>]\<rparr>))"

definition session_gone :: "nat \<Rightarrow> pool_client \<Rightarrow> pool_client option" where
  "session_gone k c =
     (case sl_remove (pool_key (seq_of c k)) (pc_idle c) of
        None \<Rightarrow> None
      | Some (_, sl) \<Rightarrow> Some (c\<lparr>pc_idle := sl, pc_sessions := AList.delete (seq_of c k) (pc_sessions c)\<rparr>))"

fun closing_event :: "nat \<Rightarrow> event \<Rightarrow> pool_client \<Rightarrow> pool_client option" where
  "closing_event k DieHook c = session_gone k c"
| "closing_event k (PaddingUpdate p) c = Some (c\<lparr>pc_padding := p\<rparr>)"
| "closing_event k _ c = Some c"

fun all_events :: "(event \<Rightarrow> pool_client \<Rightarrow> pool_client option) \<Rightarrow> event list \<Rightarrow> pool_client \<Rightarrow> pool_client option" where
  "all_events h [] c = Some c"
| "all_events h (e # es) c = Option.bind (h e c) (all_events h es)"

definition close_session :: "nat \<Rightarrow> pool_client \<Rightarrow> pool_client option" where
  "close_session k c =
     (let s = sess_of c k; t = snd (session_close s) in
      all_events (closing_event k) (drop (length (se_log s)) (se_log t)) (put_sess k t c))"

fun handle_event :: "64 word \<Rightarrow> int \<Rightarrow> nat \<Rightarrow> event \<Rightarrow> pool_client \<Rightarrow> pool_client option" where
  "handle_event rnd now k (StreamHook i closed) c =
     (if closed then Some c
      else if pc_die c then Some (c\<lparr>pc_pending := pc_pending c @ [k]\<rparr>) else back_to_pool rnd now k c)"
| "handle_event rnd now k e c = closing_event k e c"

text \<open>An operation \<open>f\<close> on session \<open>k\<close>, which reads the padding that all sessions of the client share,
  and the callbacks it makes.\<close>

definition with_session ::
  "64 word \<Rightarrow> int \<Rightarrow> nat \<Rightarrow> (session \<Rightarrow> 'a \<times> session) \<Rightarrow> pool_client \<Rightarrow> ('a \<times> pool_client) option" where
  "with_session rnd now k f c =
     (let s = (sess_of c k)\<lparr>se_padding := pc_padding c\<rparr> in
      case f s of (r, t) \<Rightarrow>
        map_option (\<lambda>c'. (r, c'))
          (all_events (handle_event rnd now k) (drop (length (se_log s)) (se_log t)) (put_sess k t c)))"

section \<open>Operations\<close>

definition getIdleSession :: "pool_client \<Rightarrow> (nat option \<times> pool_client) option" where
  "getIdleSession c =
     (if sl_isEmpty (pc_idle c) then Some (None, c)
      else case nxt (pc_idle c) Head 0 of
        Some (Some a) \<Rightarrow>
          (case sl_remove (skey (pc_idle c) a) (pc_idle c) of
             None \<Rightarrow> None
           | Some (_, sl) \<Rightarrow> Some (Some (nval (sheap (pc_idle c) ! a)), c\<lparr>pc_idle := sl\<rparr>))
      | _ \<Rightarrow> None)"

text \<open>\<open>createSession\<close> with the result of the dial; \<open>es\<close> is the settings map in the order it is written.\<close>

definition new_session :: "conn \<Rightarrow> nat list \<Rightarrow> pool_client \<Rightarrow> pool_client" where
  "new_session cn rs c =
     (let seq = pc_counter c + 1 in
      c\<lparr>pc_counter := seq, pc_sessions := AList.update seq (length (pc_store c)) (pc_sessions c),
        pc_store := pc_store c @ [\<lparr>cs_seq = seq,
          cs_sess = (newClientSession cn (pc_padding c) rs)\<lparr>se_hook := True\<rparr>, cs_idle = 0\<rparr>]\<rparr>)"

definition createSession ::
  "64 word \<Rightarrow> int \<Rightarrow> conn res \<Rightarrow> nat list \<Rightarrow> (session \<Rightarrow> string_map) \<Rightarrow> pool_client \<Rightarrow> (nat res \<times> pool_client) option" where
  "createSession rnd now dial rs es c =
     (case dial of
        Inl e \<Rightarrow> Some (Err e, c)
      | Inr cn \<Rightarrow>
          (let k = length (pc_store c) in
           map_option (\<lambda>(_, c'). (Ok k, c'))
             (with_session rnd now k (\<lambda>s. ((), client_run (es s) s)) (new_session cn rs c))))"

definition createStream ::
  "64 word \<Rightarrow> int \<Rightarrow> conn res \<Rightarrow> nat list \<Rightarrow> (session \<Rightarrow> string_map) \<Rightarrow> pool_client \<Rightarrow> ((nat \<times> nat) res \<times> pool_client) option" where
  "createStream rnd now dial rs es c =
     (if pc_die c then Some (Err ClosedPipe, c)
      else case getIdleSession c of
        None \<Rightarrow> None
      | Some (idle, c1) \<Rightarrow>
          (case (case idle of Some k \<Rightarrow> Some (Ok k, c1) | None \<Rightarrow> createSession rnd now dial rs es c1) of
             None \<Rightarrow> None
           | Some (Inl e, c2) \<Rightarrow> Some (Err (Msg ''failed to create session''), c2)
           | Some (Inr k, c2) \<Rightarrow>
               map_option (\<lambda>(r, c3). (case r of Inl e \<Rightarrow> Err (Msg ''failed to create stream'') | Inr i \<Rightarrow> Ok (k, i), c3))
                 (with_session rnd now k create_stream c2)))"

fun close_all :: "nat list \<Rightarrow> pool_client \<Rightarrow> pool_client option" where
  "close_all [] c = Some c"
| "close_all (k # ks) c = Option.bind (close_session k c) (close_all ks)"

definition run_pending :: "pool_client \<Rightarrow> pool_client option" where
  "run_pending c = (case pc_pending c of [] \<Rightarrow> Some c | k # ks \<Rightarrow> close_session k (c\<lparr>pc_pending := ks\<rparr>))"

definition client_close :: "pool_client \<Rightarrow> pool_client option" where
  "client_close c = close_all (map snd (pc_sessions c)) (c\<lparr>pc_die := True, pc_sessions := []\<rparr>)"

text \<open>The loop of \<open>idleCleanupExpTime\<close>: the iterator has moved on before an entry is removed, so it
  meets the entries the list had at the start.\<close>

fun cleanup_scan ::
  "int \<Rightarrow> int \<Rightarrow> (64 word \<times> nat) list \<Rightarrow> int \<Rightarrow> nat list \<Rightarrow> pool_client \<Rightarrow> (nat list \<times> pool_client) option" where
  "cleanup_scan now exp [] active cl c = Some (cl, c)"
| "cleanup_scan now exp ((key, k) # es) active cl c =
     (if \<not> cs_idle (pc_store c ! k) < exp then cleanup_scan now exp es (active + 1) cl c
      else if active < pc_min c then
        cleanup_scan now exp es (active + 1) cl (c\<lparr>pc_store := (pc_store c)[k := (pc_store c ! k)\<lparr>cs_idle := now\<rparr>]\<rparr>)
      else (case sl_remove key (pc_idle c) of
          None \<Rightarrow> None
        | Some (_, sl) \<Rightarrow> cleanup_scan now exp es active (cl @ [k]) (c\<lparr>pc_idle := sl\<rparr>)))"

definition idleCleanupExpTime :: "int \<Rightarrow> int \<Rightarrow> pool_client \<Rightarrow> pool_client option" where
  "idleCleanupExpTime now exp c =
     (case sl_entries (pc_idle c) of
        None \<Rightarrow> None
      | Some es \<Rightarrow> (case cleanup_scan now exp es 0 [] c of None \<Rightarrow> None | Some (cl, c') \<Rightarrow> close_all cl c'))"

definition idleCleanup :: "int \<Rightarrow> pool_client \<Rightarrow> pool_client option" where
  "idleCleanup now c = idleCleanupExpTime now (now - pc_timeout c) c"

section \<open>Runs\<close>

text \<open>What can happen to a client: a stream is asked for, a session is used by the owner of one of its
  streams, its peer or a timer, a pending goroutine runs, the cleanup routine runs, the client is
  closed.\<close>

datatype pool_op =
    PCreate "64 word" int "conn res" "nat list"
  | PSession "64 word" int nat sess_op
  | PPending
  | PCleanup int
  | PClose

fun pool_step ::
  "(bytes \<Rightarrow> string) \<Rightarrow> (session \<Rightarrow> string_map) \<Rightarrow> pool_op \<Rightarrow> pool_client \<Rightarrow> pool_client option" where
  "pool_step md5hex es (PCreate rnd now dial rs) c = map_option snd (createStream rnd now dial rs es c)"
| "pool_step md5hex es (PSession rnd now k x) c =
     (if k < length (pc_store c) \<and> x \<noteq> OpCreate
      then map_option snd (with_session rnd now k (\<lambda>s. ((), sess_step md5hex x s)) c) else Some c)"
| "pool_step md5hex es PPending c = run_pending c"
| "pool_step md5hex es (PCleanup now) c = idleCleanup now c"
| "pool_step md5hex es PClose c = client_close c"

fun pool_run ::
  "(bytes \<Rightarrow> string) \<Rightarrow> (session \<Rightarrow> string_map) \<Rightarrow> pool_op list \<Rightarrow> pool_client \<Rightarrow> pool_client option" where
  "pool_run md5hex es [] c = Some c"
| "pool_run md5hex es (x # xs) c = Option.bind (pool_step md5hex es x c) (pool_run md5hex es xs)"

section \<open>The connection header\<close>

text \<open>What \<open>createOutboundTLSConnection\<close> writes on a new TLS connection before the session starts: the
  password hash and the padding of packet 0.\<close>

definition outbound_header :: "bytes \<Rightarrow> padding_factory \<Rightarrow> nat list \<Rightarrow> bytes" where
  "outbound_header pw p rnd =
     (let pad = fst (generateRecordPayloadSizes p 0 rnd);
          paddingLen = (if pad = [] then 0 else hd pad)
      in pw @ put_be16 (word_of_int paddingLen) @ (if paddingLen > 0 then replicate (nat paddingLen) 0 else []))"

end
