(* ===== verification/PoolFacts.thy ===== *)
theory PoolFacts
  imports AnyClient
begin

text \<open>
  The session pool of the anytls client: only open and tracked sessions are idle, the newest one is handed
  out first and to one user only, the cleanup keeps the configured number, and closing the client closes
  every session. The pool is used through the interface \<open>keyed_store\<close> of the skip list.
\<close>

abbreviation pool :: "pool_client \<Rightarrow> (64 word \<times> nat) list" where
  "pool c \<equiv> sl_ents (pc_idle c)"

section \<open>The invariant\<close>

text \<open>\<open>A\<close> says which sessions are taken to be open: between a session operation and the handling of its
  callbacks that is not yet the state in the store.\<close>

definition pool_inv :: "(nat \<Rightarrow> bool) \<Rightarrow> pool_client \<Rightarrow> bool" where
  "pool_inv A c \<longleftrightarrow> sl_wf (pc_idle c) \<and> length (pc_store c) < 2 ^ 38
     \<and> (\<forall>(key, k) \<in> set (pool c). k < length (pc_store c) \<and> key = pool_key (seq_of c k) \<and> A k)
     \<and> (\<forall>k < length (pc_store c). seq_of c k = word_of_nat (Suc k))
     \<and> pc_counter c = word_of_nat (length (pc_store c))
     \<and> (\<forall>(q, k) \<in> set (pc_sessions c). k < length (pc_store c) \<and> q = seq_of c k)
     \<and> (\<forall>k < length (pc_store c). A k \<longrightarrow> \<not> pc_die c \<longrightarrow> (seq_of c k, k) \<in> set (pc_sessions c))
     \<and> (\<forall>k \<in> set (pc_pending c). k < length (pc_store c))"

definition client_ok :: "pool_client \<Rightarrow> bool" where
  "client_ok c \<longleftrightarrow> pool_inv (\<lambda>k. \<not> se_die (sess_of c k)) c \<and> (\<forall>k < length (pc_store c). sess_ok (sess_of c k))"

text \<open>What handling a callback leaves alone.\<close>

definition keeps :: "pool_client \<Rightarrow> pool_client \<Rightarrow> bool" where
  "keeps c d \<longleftrightarrow> map cs_sess (pc_store d) = map cs_sess (pc_store c) \<and> map cs_seq (pc_store d) = map cs_seq (pc_store c)
     \<and> pc_die d = pc_die c \<and> pc_min d = pc_min c"

lemma keeps_refl [simp]: "keeps c c"
  by (simp add: keeps_def)

lemma keeps_trans: "keeps c d \<Longrightarrow> keeps d e \<Longrightarrow> keeps c e"
  by (simp add: keeps_def)

lemma keeps_len: "keeps c d \<Longrightarrow> length (pc_store d) = length (pc_store c)"
  unfolding keeps_def by (metis length_map)

lemma keeps_nth:
  "keeps c d \<Longrightarrow> k < length (pc_store c) \<Longrightarrow> sess_of d k = sess_of c k \<and> seq_of d k = seq_of c k"
  using keeps_len [of c d] unfolding keeps_def by (metis nth_map)

lemma seq_inj:
  assumes "pool_inv A c" "j < length (pc_store c)" "k < length (pc_store c)" "seq_of c j = seq_of c k"
  shows "j = k"
proof -
  have w: "unat (word_of_nat (Suc i) :: 64 word) = Suc i" if "i < length (pc_store c)" for i
    using that assms(1) by (simp add: unat_of_nat pool_inv_def del: of_nat_Suc)
  have "word_of_nat (Suc j) = (word_of_nat (Suc k) :: 64 word)" using assms by (simp add: pool_inv_def)
  then show ?thesis using w [OF assms(2)] w [OF assms(3)] by (metis Suc_inject)
qed

lemma pool_key_inj: "pool_key a = pool_key b \<longleftrightarrow> a = b"
  by (simp add: pool_key_def)

lemma pool_length:
  assumes "pool_inv A c" shows "length (pool c) \<le> length (pc_store c)"
proof -
  have "distinct (map fst (pool c))"
    using assms sl_inc increasing_distinct by (auto simp: pool_inv_def)
  moreover have "map fst (pool c) = map (\<lambda>k. pool_key (seq_of c k)) (map snd (pool c))"
    using assms by (auto simp: pool_inv_def)
  ultimately have "distinct (map snd (pool c))" by (metis distinct_map)
  moreover have "set (map snd (pool c)) \<subseteq> {..<length (pc_store c)}"
    using assms by (auto simp: pool_inv_def)
  ultimately show ?thesis by (metis card_lessThan card_mono distinct_card finite_lessThan length_map)
qed

section \<open>Callbacks\<close>

lemma back_to_pool_ok:
  assumes inv: "pool_inv A c" and k: "k < length (pc_store c)" "A k"
  shows "\<exists>d. back_to_pool rnd now k c = Some d \<and> pool_inv A d \<and> keeps c d"
proof -
  have "length (pool c) < 2 ^ 38" using pool_length [OF inv] inv by (simp add: pool_inv_def)
  then obtain sl where sl: "sl_insert rnd (pool_key (seq_of c k)) k (pc_idle c) = Some sl" "sl_wf sl"
    "sl_ents sl = al_put (pool_key (seq_of c k)) k (pool c)"
    using skl.ins_ok [of "pc_idle c" rnd "pool_key (seq_of c k)" k] inv by (auto simp: pool_inv_def)
  let ?d = "c\<lparr>pc_idle := sl, pc_store := (pc_store c)[k := (pc_store c ! k)\<lparr>cs_idle := now\<rparr>]\<rparr>"
  have sq: "seq_of ?d j = seq_of c j" for j by (simp add: nth_update_iff)
  have "pool_inv A ?d"
    unfolding pool_inv_def sq
    using inv k by (auto simp: pool_inv_def sl(2) sl(3) al_put_def)
  moreover have "keeps c ?d"
    using k(1) by (simp add: keeps_def map_update list_update_same_conv)
  ultimately show ?thesis using sl(1) by (auto simp: back_to_pool_def)
qed

lemma delete_entries: "set (AList.delete q xs) = {e \<in> set xs. fst e \<noteq> q}"
  by (auto simp: AList.delete_eq)

lemma session_gone_ok:
  assumes inv: "pool_inv A c" and k: "k < length (pc_store c)"
  shows "\<exists>d. session_gone k c = Some d \<and> pool_inv (A(k := False)) d \<and> keeps c d"
proof -
  obtain b sl where sl: "sl_remove (pool_key (seq_of c k)) (pc_idle c) = Some (b, sl)" "sl_wf sl"
    "sl_ents sl = al_del (pool_key (seq_of c k)) (pool c)"
    using skl.del_ok [of "pc_idle c" "pool_key (seq_of c k)"] inv by (auto simp: pool_inv_def)
  let ?d = "c\<lparr>pc_idle := sl, pc_sessions := AList.delete (seq_of c k) (pc_sessions c)\<rparr>"
  have other: "j \<noteq> k \<longleftrightarrow> seq_of c j \<noteq> seq_of c k" if "j < length (pc_store c)" for j
    using seq_inj [OF inv that k] by auto
  have "pool_inv (A(k := False)) ?d"
    using inv other by (auto simp: pool_inv_def sl(2) sl(3) al_del_def pool_key_inj delete_entries)
  then show ?thesis using sl(1) by (auto simp: session_gone_def keeps_def)
qed

text \<open>Callbacks in the order of \<open>ev_run\<close>.\<close>

definition handles :: "nat \<Rightarrow> (event \<Rightarrow> pool_client \<Rightarrow> pool_client option) \<Rightarrow> bool" where
  "handles k h \<longleftrightarrow> (\<forall>e a A c b. ev_run [e] a = Some b \<longrightarrow> A k = a \<longrightarrow> pool_inv A c \<longrightarrow> k < length (pc_store c) \<longrightarrow>
     (\<exists>d. h e c = Some d \<and> pool_inv (A(k := b)) d \<and> keeps c d))"

lemma pool_inv_padding [simp]: "pool_inv A (c\<lparr>pc_padding := p\<rparr>) = pool_inv A c"
  by (simp add: pool_inv_def)

lemma handles_closing: "handles k (closing_event k)"
  unfolding handles_def
proof (intro allI impI)
  fix e a A c b
  assume *: "ev_run [e] a = Some b" "A k = a" "pool_inv A c" "k < length (pc_store c)"
  have "A(k := b) = A" if "b = a" using that *(2) by auto
  then show "\<exists>d. closing_event k e c = Some d \<and> pool_inv (A(k := b)) d \<and> keeps c d"
    using * session_gone_ok [OF *(3,4)] by (cases e) (auto simp: keeps_def split: if_splits)
qed

lemma handles_handle: "handles k (handle_event rnd now k)"
  unfolding handles_def
proof (intro allI impI)
  fix e a A c b
  assume *: "ev_run [e] a = Some b" "A k = a" "pool_inv A c" "k < length (pc_store c)"
  show "\<exists>d. handle_event rnd now k e c = Some d \<and> pool_inv (A(k := b)) d \<and> keeps c d"
  proof (cases "\<exists>i closed. e = StreamHook i closed")
    case True
    then obtain i closed where e: "e = StreamHook i closed" by blast
    have ab: "b = a" "closed = (\<not> a)" using * e by (auto split: if_splits)
    then have A: "A(k := b) = A" using *(2) by auto
    have "\<not> closed \<Longrightarrow> A k" using ab *(2) by simp
    then show ?thesis using back_to_pool_ok [OF *(3,4), of rnd now] *(3,4)
      by (auto simp: e A keeps_def) (auto simp: pool_inv_def)
  next
    case False
    then have "handle_event rnd now k e c = closing_event k e c" by (cases e) auto
    then show ?thesis using handles_closing [of k] * by (simp only: handles_def)
  qed
qed

lemma all_events_ok:
  assumes h: "handles k h"
  shows "ev_run es a = Some b \<Longrightarrow> A k = a \<Longrightarrow> pool_inv A c \<Longrightarrow> k < length (pc_store c) \<Longrightarrow>
    \<exists>d. all_events h es c = Some d \<and> pool_inv (A(k := b)) d \<and> keeps c d"
proof (induction es arbitrary: a A c)
  case Nil
  then have "A(k := b) = A" by auto
  then show ?case using Nil by simp
next
  case (Cons e es)
  have "ev_run ([e] @ es) a = Some b" using Cons.prems(1) by simp
  then obtain m where m: "ev_run [e] a = Some m" "ev_run es m = Some b"
    unfolding ev_run_append by (auto simp: bind_eq_Some_conv)
  then obtain c1 where 1: "h e c = Some c1" "pool_inv (A(k := m)) c1" "keeps c c1"
    using h Cons.prems(2-4) unfolding handles_def by blast
  have "k < length (pc_store c1)" using keeps_len [OF 1(3)] Cons.prems(4) by simp
  moreover have "(A(k := m)) k = m" "(A(k := m))(k := b) = A(k := b)" by simp_all
  ultimately obtain d where d: "all_events h es c1 = Some d" "pool_inv (A(k := b)) d" "keeps c1 d"
    using Cons.IH [OF m(2) _ 1(2)] by metis
  have "all_events h (e # es) c = Some d" using 1(1) d(1) by simp
  then show ?case using d(2) keeps_trans [OF 1(3) d(3)] by blast
qed

lemma put_sess_fields [simp]:
  "pc_idle (put_sess k t c) = pc_idle c" "length (pc_store (put_sess k t c)) = length (pc_store c)"
  "pc_counter (put_sess k t c) = pc_counter c" "pc_sessions (put_sess k t c) = pc_sessions c"
  "pc_die (put_sess k t c) = pc_die c" "pc_pending (put_sess k t c) = pc_pending c" "seq_of (put_sess k t c) j = seq_of c j" "pc_min (put_sess k t c) = pc_min c"
  by (simp_all add: put_sess_def nth_update_iff)

lemma pool_inv_put: "pool_inv A c \<Longrightarrow> pool_inv A (put_sess k t c)"
  unfolding pool_inv_def put_sess_fields by assumption

text \<open>A session operation followed by its callbacks.\<close>

lemma after_callbacks:
  assumes ok: "client_ok c" and k: "k < length (pc_store c)" and h: "handles k h"
    and s: "se_log s = se_log (sess_of c k)" "se_die s = se_die (sess_of c k)" "sess_ok s"
    and ev: "evolves s t"
  shows "\<exists>d. all_events h (drop (length (se_log s)) (se_log t)) (put_sess k t c) = Some d
    \<and> client_ok d \<and> length (pc_store d) = length (pc_store c) \<and> sess_of d k = t \<and> pc_die d = pc_die c
    \<and> (\<forall>j < length (pc_store c). j \<noteq> k \<longrightarrow> sess_of d j = sess_of c j)"
proof -
  let ?A = "\<lambda>j. \<not> se_die (sess_of c j)"
  obtain es where es: "sess_ok t" "se_log t = se_log s @ es" "ev_run es (\<not> se_die s) = Some (\<not> se_die t)"
    using ev s(3) by (auto simp: evolves_def)
  have "pool_inv ?A (put_sess k t c)" using ok pool_inv_put by (simp add: client_ok_def)
  moreover have "k < length (pc_store (put_sess k t c))" using k by (simp add: put_sess_def)
  moreover have "?A k = (\<not> se_die s)" using s(2) by simp
  ultimately obtain d where d: "all_events h es (put_sess k t c) = Some d"
    "pool_inv (?A(k := \<not> se_die t)) d" "keeps (put_sess k t c) d"
    using all_events_ok [OF h es(3), of ?A "put_sess k t c"] by blast
  have len: "length (pc_store d) = length (pc_store c)" using keeps_len [OF d(3)] by (simp add: put_sess_def)
  have sd: "sess_of d j = (if j = k then t else sess_of c j)" if "j < length (pc_store c)" for j
    using keeps_nth [OF d(3), of j] that by (simp add: put_sess_def nth_list_update)
  have A: "(?A(k := \<not> se_die t)) j = (\<not> se_die (sess_of d j))" if "j < length (pc_store c)" for j
    using sd [OF that] by simp
  have cong: "pool_inv B d" if "pool_inv A d" "\<And>j. j < length (pc_store d) \<Longrightarrow> A j = B j" for A B
    using that unfolding pool_inv_def by fastforce
  have "pool_inv (\<lambda>j. \<not> se_die (sess_of d j)) d" by (rule cong [OF d(2)]) (use A len in auto)
  moreover have "\<forall>j < length (pc_store d). sess_ok (sess_of d j)"
    using sd len es(1) ok by (auto simp: client_ok_def)
  moreover have "pc_die d = pc_die c" using d(3) by (simp add: keeps_def put_sess_def)
  ultimately show ?thesis using d(1) es(2) len sd k by (auto simp: client_ok_def)
qed

section \<open>Operations\<close>

lemma with_session_ok:
  assumes ok: "client_ok c" and k: "k < length (pc_store c)" and f: "\<And>s. evolves s (snd (f s))"
  shows "\<exists>r d. with_session rnd now k f c = Some (r, d)
    \<and> (r, sess_of d k) = f ((sess_of c k)\<lparr>se_padding := pc_padding c\<rparr>)
    \<and> client_ok d \<and> length (pc_store d) = length (pc_store c) \<and> pc_die d = pc_die c
    \<and> (\<forall>j < length (pc_store c). j \<noteq> k \<longrightarrow> sess_of d j = sess_of c j)"
proof -
  let ?s = "(sess_of c k)\<lparr>se_padding := pc_padding c\<rparr>"
  obtain r t where t: "f ?s = (r, t)" by (cases "f ?s")
  have "sess_ok ?s" using ok k by (simp add: client_ok_def sess_ok_def tbl_ok_def)
  then show ?thesis
    using after_callbacks [OF ok k handles_handle [of k rnd now], of ?s t] f [of ?s] t
    by (auto simp: with_session_def Let_def)
qed

lemma close_session_ok:
  assumes ok: "client_ok c" and k: "k < length (pc_store c)"
  shows "\<exists>d. close_session k c = Some d \<and> client_ok d \<and> length (pc_store d) = length (pc_store c)
    \<and> se_die (sess_of d k) \<and> pc_die d = pc_die c
    \<and> (\<forall>j < length (pc_store c). j \<noteq> k \<longrightarrow> sess_of d j = sess_of c j)"
  using after_callbacks [OF ok k handles_closing, of "sess_of c k" "snd (session_close (sess_of c k))"]
    ok k evolves.R_close by (auto simp: close_session_def client_ok_def Let_def)

lemma client_ok_cong:
  assumes "client_ok c" "pc_store d = pc_store c" "pc_idle d = pc_idle c" "pc_sessions d = pc_sessions c"
    "pc_counter d = pc_counter c" "pc_die d = pc_die c" "set (pc_pending d) \<subseteq> set (pc_pending c)"
  shows "client_ok d"
  using assms(1,7) unfolding client_ok_def pool_inv_def assms(2-6) by blast

lemma run_pending_ok:
  assumes "client_ok c"
  shows "\<exists>d. run_pending c = Some d \<and> client_ok d \<and> length (pc_store d) = length (pc_store c) \<and> pc_die d = pc_die c
    \<and> (\<forall>j < length (pc_store c). se_die (sess_of c j) \<longrightarrow> se_die (sess_of d j))"
proof (cases "pc_pending c")
  case (Cons k ks)
  have "client_ok (c\<lparr>pc_pending := ks\<rparr>)" by (rule client_ok_cong [OF assms]) (auto simp: Cons)
  moreover have "k < length (pc_store c)" using assms Cons by (simp add: client_ok_def pool_inv_def)
  ultimately obtain d where "close_session k (c\<lparr>pc_pending := ks\<rparr>) = Some d" "client_ok d"
    "length (pc_store d) = length (pc_store c)" "se_die (sess_of d k)" "pc_die d = pc_die c"
    "\<forall>j < length (pc_store c). j \<noteq> k \<longrightarrow> sess_of d j = sess_of c j"
    using close_session_ok [of "c\<lparr>pc_pending := ks\<rparr>" k] by auto
  moreover from this have "se_die (sess_of d j)" if "j < length (pc_store c)" "se_die (sess_of c j)" for j
    using that by (cases "j = k") auto
  ultimately show ?thesis using Cons by (auto simp: run_pending_def)
qed (use assms in \<open>simp add: run_pending_def\<close>)

lemma first_link:
  assumes "sl_wf s" "sl_ents s = (key, v) # es"
  shows "\<exists>a. nxt s Head 0 = Some (Some a) \<and> skey s a = key \<and> nval (sheap s ! a) = v"
proof -
  obtain L where L: "sl_inv s L" using assms(1) by (auto simp: sl_wf_def)
  then have e: "ents s L = (key, v) # es" using assms(2) sl_ents_inv by fastforce
  then obtain a L' where l: "L = a # L'" by (cases L) (auto simp: ents_def)
  have "above s 0 L = L" using above_0 [OF L, of L] by simp
  then have "chain s 0 Head (a # L')" using sl_invD(9) [OF L, of 0] l by (simp add: skipListMaxLevel_def)
  then show ?thesis using e l by (auto simp: ents_def)
qed

lemma getIdle_empty:
  assumes "client_ok c" "pool c = []" shows "getIdleSession c = Some (None, c)"
  using assms sl_ents_length [of "pc_idle c"]
  by (simp add: getIdleSession_def sl_isEmpty_def client_ok_def pool_inv_def)

lemma getIdle_first:
  assumes ok: "client_ok c" and p: "pool c = (key, k) # es"
  shows "\<exists>d. getIdleSession c = Some (Some k, d) \<and> client_ok d \<and> pool d = es \<and> pc_store d = pc_store c
    \<and> pc_die d = pc_die c"
proof -
  have wf: "sl_wf (pc_idle c)" using ok by (simp add: client_ok_def pool_inv_def)
  obtain a where a: "nxt (pc_idle c) Head 0 = Some (Some a)" "skey (pc_idle c) a = key" "nval (sheap (pc_idle c) ! a) = k"
    using first_link [OF wf p] by blast
  obtain b sl where sl: "sl_remove key (pc_idle c) = Some (b, sl)" "sl_wf sl" "sl_ents sl = al_del key (pool c)"
    using skl.del_ok [OF wf, of key] by blast
  have "increasing ((key, k) # es)" using sl_inc [OF wf] p by simp
  then have es: "sl_ents sl = es" using sl(3) p by (auto simp: al_del_def filter_id_conv)
  have "\<not> sl_isEmpty (pc_idle c)" using sl_ents_length [OF wf] p by (simp add: sl_isEmpty_def)
  moreover have "client_ok (c\<lparr>pc_idle := sl\<rparr>)"
    using ok sl(2) es p by (auto simp: client_ok_def pool_inv_def)
  ultimately show ?thesis using a sl(1) es by (simp add: getIdleSession_def)
qed

lemma new_session_ok:
  assumes ok: "client_ok c" and len: "length (pc_store c) + 1 < 2 ^ 38"
  shows "client_ok (new_session cn rs c)"
proof -
  let ?d = "new_session cn rs c" and ?n = "length (pc_store c)"
  have st: "pc_store ?d ! j = (if j < ?n then pc_store c ! j else \<lparr>cs_seq = pc_counter c + 1,
      cs_sess = (newClientSession cn (pc_padding c) rs)\<lparr>se_hook := True\<rparr>, cs_idle = 0\<rparr>)" if "j < Suc ?n" for j
    using that by (auto simp: new_session_def Let_def nth_append less_Suc_eq)
  have fresh: "(pc_counter c + 1, j) \<notin> set (pc_sessions c)" for j
  proof
    assume "(pc_counter c + 1, j) \<in> set (pc_sessions c)"
    then have j: "j < ?n" "pc_counter c + 1 = seq_of c j" using ok by (auto simp: client_ok_def pool_inv_def)
    then have "word_of_nat (Suc ?n) = (word_of_nat (Suc j) :: 64 word)"
      using ok by (auto simp: client_ok_def pool_inv_def add.commute)
    moreover have "unat (word_of_nat (Suc i) :: 64 word) = Suc i" if "i \<le> ?n" for i
      using that len by (simp add: unat_of_nat del: of_nat_Suc)
    ultimately show False using j(1) by (metis less_imp_le less_irrefl order_refl Suc_inject)
  qed
  have upd: "set (pc_sessions ?d) = insert (pc_counter c + 1, ?n) (set (pc_sessions c))"
  proof -
    have "set (AList.update q v xs) = insert (q, v) (set xs)" if "q \<notin> fst ` set xs" for q v and xs :: "(64 word \<times> nat) list"
      using that by (induction xs) auto
    moreover have "pc_counter c + 1 \<notin> fst ` set (pc_sessions c)" using fresh by force
    ultimately show ?thesis by (simp add: new_session_def Let_def)
  qed
  have "sess_ok ((newClientSession cn (pc_padding c) rs)\<lparr>se_hook := True\<rparr>)"
    by (simp add: sess_ok_def tbl_ok_def newClientSession_def)
  moreover have "length (pc_store ?d) = Suc ?n" "pc_idle ?d = pc_idle c" "pc_die ?d = pc_die c"
    "pc_counter ?d = pc_counter c + 1" "pc_pending ?d = pc_pending c" by (simp_all add: new_session_def Let_def)
  ultimately show ?thesis
    using ok len st upd unfolding client_ok_def pool_inv_def
    by (auto simp: less_Suc_eq add.commute)
qed

lemma evolves_client_run: "evolves s (client_run es s)"
proof -
  have "evolves s (s\<lparr>se_buffering := True\<rparr>)" by (rule evolves_none) (auto simp: tbl_ok_def)
  then show ?thesis unfolding client_run_def using evolves.R_writeControlFrame evolves_trans by blast
qed

lemma getIdle_ok:
  assumes ok: "client_ok c"
  shows "\<exists>i d. getIdleSession c = Some (i, d) \<and> client_ok d \<and> pc_store d = pc_store c \<and> pc_die d = pc_die c
    \<and> (\<forall>k. i = Some k \<longrightarrow> k < length (pc_store c))"
proof (cases "pool c")
  case Nil
  then show ?thesis using getIdle_empty [OF ok] ok by simp
next
  case (Cons e es)
  obtain key k where e: "e = (key, k)" by (cases e)
  have "k < length (pc_store c)" using ok Cons e by (auto simp: client_ok_def pool_inv_def)
  then show ?thesis using getIdle_first [OF ok, of key k es] Cons e by auto
qed

lemma createSession_ok:
  assumes ok: "client_ok c" and len: "length (pc_store c) + 1 < 2 ^ 38"
  shows "\<exists>r d. createSession rnd now dial rs es c = Some (r, d) \<and> client_ok d \<and> pc_die d = pc_die c
    \<and> length (pc_store d) \<le> length (pc_store c) + 1 \<and> (\<forall>k. r = Inr k \<longrightarrow> k < length (pc_store d))"
proof (cases dial)
  case (Inl e)
  then show ?thesis using ok by (simp add: createSession_def)
next
  case (Inr cn)
  let ?d = "new_session cn rs c"
  have d: "client_ok ?d" "length (pc_store ?d) = length (pc_store c) + 1" "pc_die ?d = pc_die c"
    using new_session_ok [OF ok len] by (simp_all add: new_session_def Let_def)
  then obtain u e where "with_session rnd now (length (pc_store c)) (\<lambda>s. ((), client_run (es s) s)) ?d = Some (u, e)"
    "client_ok e" "length (pc_store e) = length (pc_store ?d)" "pc_die e = pc_die ?d"
    using with_session_ok [OF d(1), of "length (pc_store c)" "\<lambda>s. ((), client_run (es s) s)" rnd now] evolves_client_run
    by auto
  then show ?thesis using Inr d by (auto simp: createSession_def)
qed

lemma createStream_ok:
  assumes ok: "client_ok c" and len: "length (pc_store c) + 1 < 2 ^ 38"
  shows "\<exists>r d. createStream rnd now dial rs es c = Some (r, d) \<and> client_ok d \<and> pc_die d = pc_die c
    \<and> length (pc_store d) \<le> length (pc_store c) + 1"
proof (cases "pc_die c")
  case True
  then show ?thesis using ok by (simp add: createStream_def)
next
  case False
  obtain i c1 where g: "getIdleSession c = Some (i, c1)" "client_ok c1" "pc_store c1 = pc_store c" "pc_die c1 = pc_die c"
    "\<forall>k. i = Some k \<longrightarrow> k < length (pc_store c)" using getIdle_ok [OF ok] by blast
  let ?m = "case i of Some k \<Rightarrow> Some (Ok k, c1) | None \<Rightarrow> createSession rnd now dial rs es c1"
  obtain r c2 where m: "?m = Some (r, c2)" "client_ok c2" "pc_die c2 = pc_die c"
    "length (pc_store c2) \<le> length (pc_store c) + 1" "\<forall>k. r = Inr k \<longrightarrow> k < length (pc_store c2)"
    using createSession_ok [OF g(2), of rnd now dial rs es] g len by (cases i) auto
  show ?thesis
  proof (cases r)
    case (Inl e)
    then show ?thesis using m g False by (simp add: createStream_def)
  next
    case (Inr k)
    then obtain q d where "with_session rnd now k create_stream c2 = Some (q, d)" "client_ok d"
      "length (pc_store d) = length (pc_store c2)" "pc_die d = pc_die c2"
      using with_session_ok [OF m(2), of k create_stream rnd now] m(5) evolves_create by auto
    then show ?thesis using m g False Inr by (simp add: createStream_def)
  qed
qed

lemma close_all_ok:
  "client_ok c \<Longrightarrow> list_all (\<lambda>k. k < length (pc_store c)) ks \<Longrightarrow>
   \<exists>d. close_all ks c = Some d \<and> client_ok d \<and> length (pc_store d) = length (pc_store c) \<and> pc_die d = pc_die c
     \<and> (\<forall>k \<in> set ks. se_die (sess_of d k))
     \<and> (\<forall>j < length (pc_store c). j \<notin> set ks \<longrightarrow> sess_of d j = sess_of c j)
     \<and> (\<forall>j < length (pc_store c). se_die (sess_of c j) \<longrightarrow> se_die (sess_of d j))"
proof (induction ks arbitrary: c)
  case (Cons k ks)
  then obtain c1 where c1: "close_session k c = Some c1" "client_ok c1" "length (pc_store c1) = length (pc_store c)"
    "se_die (sess_of c1 k)" "pc_die c1 = pc_die c" "\<forall>j < length (pc_store c). j \<noteq> k \<longrightarrow> sess_of c1 j = sess_of c j"
    using close_session_ok [of c k] by auto
  then obtain d where d: "close_all ks c1 = Some d" "client_ok d" "length (pc_store d) = length (pc_store c1)"
    "pc_die d = pc_die c1" "\<forall>k \<in> set ks. se_die (sess_of d k)"
    "\<forall>j < length (pc_store c1). j \<notin> set ks \<longrightarrow> sess_of d j = sess_of c1 j"
    "\<forall>j < length (pc_store c1). se_die (sess_of c1 j) \<longrightarrow> se_die (sess_of d j)"
    using Cons.IH [of c1] Cons.prems by auto
  have "se_die (sess_of d k)" using d(7) c1(3,4) Cons.prems by simp
  moreover have "se_die (sess_of d j)" if "j < length (pc_store c)" "se_die (sess_of c j)" for j
    using that d(7) c1 by (cases "j = k") auto
  ultimately show ?case using c1 d by (intro exI [of _ d]) auto
qed simp

section \<open>Cleanup\<close>

lemma pool_remove:
  assumes ok: "client_ok c" and e: "(key, k) \<in> set (pool c)"
  shows "\<exists>b sl. sl_remove key (pc_idle c) = Some (b, sl) \<and> client_ok (c\<lparr>pc_idle := sl\<rparr>)
    \<and> sl_ents sl = filter (\<lambda>x. x \<noteq> (key, k)) (pool c)"
proof -
  have wf: "sl_wf (pc_idle c)" using ok by (simp add: client_ok_def pool_inv_def)
  obtain b sl where sl: "sl_remove key (pc_idle c) = Some (b, sl)" "sl_wf sl" "sl_ents sl = al_del key (pool c)"
    using skl.del_ok [OF wf, of key] by blast
  have d: "distinct (map fst (pool c))" using sl_inc [OF wf] increasing_distinct by blast
  have "al_del key (pool c) = filter (\<lambda>x. x \<noteq> (key, k)) (pool c)"
    unfolding al_del_def by (intro filter_cong) (auto dest: eq_key_imp_eq_value [OF d e])
  moreover have "client_ok (c\<lparr>pc_idle := sl\<rparr>)"
    using ok sl(2,3) by (auto simp: client_ok_def pool_inv_def al_del_def)
  ultimately show ?thesis using sl by auto
qed

lemma client_ok_touch:
  assumes "client_ok c"
  shows "client_ok (c\<lparr>pc_store := (pc_store c)[k := (pc_store c ! k)\<lparr>cs_idle := now\<rparr>]\<rparr>)"
proof -
  let ?d = "c\<lparr>pc_store := (pc_store c)[k := (pc_store c ! k)\<lparr>cs_idle := now\<rparr>]\<rparr>"
  have f: "sess_of ?d j = sess_of c j" "seq_of ?d j = seq_of c j" for j by (simp_all add: nth_update_iff)
  have l: "length (pc_store ?d) = length (pc_store c)" "pc_idle ?d = pc_idle c" "pc_counter ?d = pc_counter c"
    "pc_sessions ?d = pc_sessions c" "pc_die ?d = pc_die c" "pc_pending ?d = pc_pending c" by simp_all
  show ?thesis using assms unfolding client_ok_def pool_inv_def f l .
qed

lemma cleanup_scan_ok:
  assumes "client_ok c" "set es \<subseteq> set (pool c)" "distinct (map snd es)" "0 \<le> active"
    "\<And>key k. (key, k) \<in> set es \<Longrightarrow> cs_idle (pc_store c ! k) = T k"
  shows "\<exists>rm d. cleanup_scan now exp es active cl c = Some (cl @ map snd rm, d) \<and> set rm \<subseteq> set es
    \<and> (\<forall>(key, k) \<in> set rm. T k < exp) \<and> pool d = filter (\<lambda>e. e \<notin> set rm) (pool c)
    \<and> min (pc_min c) (active + int (length es)) \<le> active + int (length es) - int (length rm)
    \<and> client_ok d \<and> keeps c d \<and> length rm \<le> length es"
  using assms
proof (induction es arbitrary: active cl c)
  case Nil
  then show ?case by (intro exI [of _ "[]"] exI [of _ c]) simp
next
  case (Cons e es)
  obtain key k where e: "e = (key, k)" by (cases e)
  have tk: "cs_idle (pc_store c ! k) = T k" using Cons.prems(5) [of key k] e by simp
  have kn: "k \<notin> snd ` set es" using Cons.prems(3) e by simp
  show ?case
  proof (cases "\<not> T k < exp")
    case True
    obtain rm d where *: "cleanup_scan now exp es (active + 1) cl c = Some (cl @ map snd rm, d)" "set rm \<subseteq> set es"
      "\<forall>(key, k) \<in> set rm. T k < exp" "pool d = filter (\<lambda>e. e \<notin> set rm) (pool c)"
      "min (pc_min c) (active + 1 + int (length es)) \<le> active + 1 + int (length es) - int (length rm)"
      "client_ok d" "keeps c d" "length rm \<le> length es"
      using Cons.IH [of c "active + 1" cl] Cons.prems by auto
    then show ?thesis using True tk e by (intro exI [of _ rm] exI [of _ d]) auto
  next
    case old: False
    show ?thesis
    proof (cases "active < pc_min c")
      case True
      let ?c = "c\<lparr>pc_store := (pc_store c)[k := (pc_store c ! k)\<lparr>cs_idle := now\<rparr>]\<rparr>"
      have ok: "client_ok ?c" by (rule client_ok_touch [OF Cons.prems(1)])
      have "cs_idle (pc_store ?c ! k') = T k'" if "(key', k') \<in> set es" for key' k'
      proof -
        have "k' \<noteq> k" using kn that by force
        then show ?thesis using Cons.prems(5) [of key' k'] that by (simp add: nth_update_iff)
      qed
      then obtain rm d where *: "cleanup_scan now exp es (active + 1) cl ?c = Some (cl @ map snd rm, d)" "set rm \<subseteq> set es"
        "\<forall>(key, k) \<in> set rm. T k < exp" "pool d = filter (\<lambda>e. e \<notin> set rm) (pool c)"
        "min (pc_min c) (active + 1 + int (length es)) \<le> active + 1 + int (length es) - int (length rm)"
        "client_ok d" "keeps ?c d" "length rm \<le> length es"
        using Cons.IH [OF ok, of "active + 1" cl] Cons.prems by auto
      have "keeps c ?c" by (simp add: keeps_def map_update list_update_same_conv) (metis list_update_beyond list_update_id map_update nth_map not_less)
      then have "keeps c d" using *(7) keeps_trans by blast
      then show ?thesis using * True old tk e by (intro exI [of _ rm] exI [of _ d]) auto
    next
      case False
      have "(key, k) \<in> set (pool c)" using Cons.prems(2) e by auto
      from pool_remove [OF Cons.prems(1) this]
      obtain b sl where sl: "sl_remove key (pc_idle c) = Some (b, sl)" "client_ok (c\<lparr>pc_idle := sl\<rparr>)"
        "sl_ents sl = filter (\<lambda>x. x \<noteq> (key, k)) (pool c)" by blast
      let ?c = "c\<lparr>pc_idle := sl\<rparr>"
      have sub: "set es \<subseteq> set (pool ?c)" using Cons.prems(2) kn sl(3) by force
      obtain rm d where *: "cleanup_scan now exp es active (cl @ [k]) ?c = Some ((cl @ [k]) @ map snd rm, d)" "set rm \<subseteq> set es"
        "\<forall>(key, k) \<in> set rm. T k < exp" "pool d = filter (\<lambda>e. e \<notin> set rm) (pool ?c)"
        "min (pc_min c) (active + int (length es)) \<le> active + int (length es) - int (length rm)"
        "client_ok d" "keeps ?c d" "length rm \<le> length es"
        using Cons.IH [OF sl(2) sub, of active "cl @ [k]"] Cons.prems by auto
      have "pool d = filter (\<lambda>e. e \<notin> set ((key, k) # rm)) (pool c)"
        using *(4) sl(3) by (simp add: conj_commute)
      moreover have "keeps c d" using *(7) by (simp add: keeps_def)
      moreover have "min (pc_min c) (active + int (length (e # es))) \<le> active + int (length (e # es)) - int (length ((key, k) # rm))"
        using False *(8) by (simp add: min_def)
      ultimately show ?thesis using * False old tk e sl(1)
        by (intro exI [of _ "(key, k) # rm"] exI [of _ d]) auto
    qed
  qed
qed

end
