(* ===== verification/PoolRuns.thy ===== *)
theory PoolRuns
  imports PoolFacts
begin

text \<open>
  The session pool over every sequence of operations of a client.
\<close>

definition client_inv :: "pool_client \<Rightarrow> bool" where
  "client_inv c \<longleftrightarrow> client_ok c \<and> (pc_die c \<longrightarrow> (\<forall>k < length (pc_store c). se_die (sess_of c k)))"

lemma pool_entryD:
  assumes "client_ok c" "(key, k) \<in> set (pool c)"
  shows "k < length (pc_store c)" "key = pool_key (seq_of c k)" "\<not> se_die (sess_of c k)"
  using assms by (auto simp: client_ok_def pool_inv_def)

lemma client_inv_new: "client_inv (newClient p interval timeout mn)"
  by (simp add: client_inv_def client_ok_def pool_inv_def newClient_def sl_wf_new sl_ents_new)

lemma ev_run_dead: "ev_run es False = Some b \<Longrightarrow> \<not> b"
  by (induction es False rule: ev_run.induct) (auto split: if_splits)

lemma evolves_dead: "evolves s t \<Longrightarrow> sess_ok s \<Longrightarrow> se_die s \<Longrightarrow> se_die t"
  using ev_run_dead by (fastforce simp: evolves_def)

lemma createStream_inv:
  assumes inv: "client_inv c" and len: "length (pc_store c) + 1 < 2 ^ 38"
  shows "\<exists>r d. createStream rnd now dial rs es c = Some (r, d) \<and> client_inv d \<and> length (pc_store d) \<le> length (pc_store c) + 1"
proof (cases "pc_die c")
  case True
  then show ?thesis using inv by (simp add: createStream_def)
next
  case False
  then show ?thesis using createStream_ok [of c rnd now dial rs es] inv len by (auto simp: client_inv_def)
qed

lemma with_session_inv:
  assumes inv: "client_inv c" and k: "k < length (pc_store c)" and f: "\<And>s. evolves s (snd (f s))"
  shows "\<exists>r d. with_session rnd now k f c = Some (r, d) \<and> client_inv d \<and> length (pc_store d) = length (pc_store c)"
proof -
  have ok: "client_ok c" using inv by (simp add: client_inv_def)
  obtain r d where d: "with_session rnd now k f c = Some (r, d)"
    "(r, sess_of d k) = f ((sess_of c k)\<lparr>se_padding := pc_padding c\<rparr>)" "client_ok d"
    "length (pc_store d) = length (pc_store c)" "pc_die d = pc_die c"
    "\<forall>j < length (pc_store c). j \<noteq> k \<longrightarrow> sess_of d j = sess_of c j"
    using with_session_ok [OF ok k f, of rnd now] by blast
  have "se_die (sess_of d k)" if "se_die (sess_of c k)"
  proof -
    let ?s = "(sess_of c k)\<lparr>se_padding := pc_padding c\<rparr>"
    have "sess_ok ?s" using ok k by (simp add: client_ok_def sess_ok_def tbl_ok_def)
    moreover have "sess_of d k = snd (f ?s)" using d(2) by (metis snd_conv)
    ultimately show ?thesis using evolves_dead [OF f [of ?s]] that by simp
  qed
  moreover have "se_die (sess_of c j) \<Longrightarrow> j < length (pc_store c) \<Longrightarrow> j \<noteq> k \<Longrightarrow> se_die (sess_of d j)" for j
    using d(6) by simp
  ultimately have "client_inv d"
    using d(3-5) inv k by (auto simp: client_inv_def)
  then show ?thesis using d by blast
qed

text \<open>Closing a session that is not in the pool leaves the pool as it is.\<close>

lemma closing_pool:
  "sl_wf (pc_idle c) \<Longrightarrow> pool_key (seq_of c k) \<notin> fst ` set (pool c) \<Longrightarrow>
   all_events (closing_event k) es c = Some d \<Longrightarrow>
   pool d = pool c \<and> sl_wf (pc_idle d) \<and> (\<forall>j. seq_of d j = seq_of c j)"
proof (induction es arbitrary: c)
  case (Cons e es)
  obtain c1 where c1: "closing_event k e c = Some c1" "all_events (closing_event k) es c1 = Some d"
    using Cons.prems(3) by (auto simp: bind_eq_Some_conv)
  obtain b sl where sl: "sl_remove (pool_key (seq_of c k)) (pc_idle c) = Some (b, sl)" "sl_wf sl"
    "sl_ents sl = al_del (pool_key (seq_of c k)) (pool c)"
    using skl.del_ok [OF Cons.prems(1)] by blast
  have "al_del (pool_key (seq_of c k)) (pool c) = pool c"
    using Cons.prems(2) by (force simp: al_del_def filter_id_conv)
  then have "pool c1 = pool c \<and> sl_wf (pc_idle c1) \<and> (\<forall>j. seq_of c1 j = seq_of c j)"
    using c1(1) sl Cons.prems(1) by (cases e) (auto simp: session_gone_def)
  then show ?case using Cons.IH [of c1] c1(2) Cons.prems(2) by simp
qed simp

lemma close_all_pool:
  "sl_wf (pc_idle c) \<Longrightarrow> (\<And>k. k \<in> set ks \<Longrightarrow> pool_key (seq_of c k) \<notin> fst ` set (pool c)) \<Longrightarrow>
   close_all ks c = Some d \<Longrightarrow> pool d = pool c"
proof (induction ks arbitrary: c)
  case (Cons k ks)
  obtain c1 where c1: "close_session k c = Some c1" "close_all ks c1 = Some d"
    using Cons.prems(3) by (auto simp: bind_eq_Some_conv)
  have "pool c1 = pool c \<and> sl_wf (pc_idle c1) \<and> (\<forall>j. seq_of c1 j = seq_of c j)"
    using closing_pool [of "put_sess k t c" k _ c1 for t] c1(1) Cons.prems(1,2)
    by (simp add: close_session_def Let_def)
  then show ?case using Cons.IH [of c1] c1(2) Cons.prems(2) by simp
qed simp

lemma length_filter_minus:
  assumes "distinct xs" shows "length xs \<le> length (filter (\<lambda>e. e \<notin> set rm) xs) + length rm"
proof -
  have "length (filter (\<lambda>e. e \<in> set rm) xs) = card (set (filter (\<lambda>e. e \<in> set rm) xs))"
    using assms by (metis distinct_card distinct_filter)
  also have "\<dots> \<le> card (set rm)" by (rule card_mono) auto
  also have "\<dots> \<le> length rm" by (rule card_length)
  finally show ?thesis using sum_length_filter_compl [of "\<lambda>e. e \<in> set rm" xs] by simp
qed

lemma cleanup_ok:
  assumes ok: "client_ok c"
  shows "\<exists>rm d. idleCleanupExpTime now exp c = Some d \<and> set rm \<subseteq> set (pool c)
    \<and> (\<forall>(key, k) \<in> set rm. cs_idle (pc_store c ! k) < exp \<and> se_die (sess_of d k))
    \<and> client_ok d \<and> length (pc_store d) = length (pc_store c) \<and> pc_die d = pc_die c
    \<and> pool d = filter (\<lambda>e. e \<notin> set rm) (pool c) \<and> min (pc_min c) (int (length (pool c))) \<le> int (length (pool d))
    \<and> (\<forall>j < length (pc_store c). se_die (sess_of c j) \<longrightarrow> se_die (sess_of d j))
    \<and> (\<forall>j < length (pc_store c). j \<notin> snd ` set rm \<longrightarrow> sess_of d j = sess_of c j)"
proof -
  have wf: "sl_wf (pc_idle c)" using ok by (simp add: client_ok_def pool_inv_def)
  have e: "sl_entries (pc_idle c) = Some (pool c)"
    using wf iterate_inv(2) by (fastforce simp: sl_wf_def sl_ents_def)
  have d: "distinct (map snd (pool c))"
  proof -
    have "map fst (pool c) = map (\<lambda>k. pool_key (seq_of c k)) (map snd (pool c))"
      using ok by (auto simp: client_ok_def pool_inv_def)
    moreover have "distinct (map fst (pool c))" using sl_inc [OF wf] increasing_distinct by blast
    ultimately show ?thesis by (metis distinct_map)
  qed
  obtain rm c1 where s: "cleanup_scan now exp (pool c) 0 [] c = Some (map snd rm, c1)" "set rm \<subseteq> set (pool c)"
    "\<forall>(key, k) \<in> set rm. cs_idle (pc_store c ! k) < exp"
    "min (pc_min c) (int (length (pool c))) \<le> int (length (pool c)) - int (length rm)"
    "client_ok c1" "keeps c c1" "pool c1 = filter (\<lambda>e. e \<notin> set rm) (pool c)"
    using cleanup_scan_ok [OF ok order_refl d, of 0 "\<lambda>k. cs_idle (pc_store c ! k)" now exp "[]"] by auto
  have l1: "length (pc_store c1) = length (pc_store c)" using keeps_len [OF s(6)] .
  have "list_all (\<lambda>k. k < length (pc_store c1)) (map snd rm)"
    using s(2) l1 ok by (fastforce simp: list_all_iff client_ok_def pool_inv_def)
  then obtain d where cd: "close_all (map snd rm) c1 = Some d" "client_ok d" "length (pc_store d) = length (pc_store c1)"
    "pc_die d = pc_die c1" "\<forall>k \<in> set (map snd rm). se_die (sess_of d k)"
    "\<forall>j < length (pc_store c1). j \<notin> set (map snd rm) \<longrightarrow> sess_of d j = sess_of c1 j"
    "\<forall>j < length (pc_store c1). se_die (sess_of c1 j) \<longrightarrow> se_die (sess_of d j)"
    using close_all_ok [OF s(5), of "map snd rm"] by blast
  have "pool_key (seq_of c1 k) \<notin> fst ` set (pool c1)" if "k \<in> set (map snd rm)" for k
  proof
    assume "pool_key (seq_of c1 k) \<in> fst ` set (pool c1)"
    then obtain j where j: "(pool_key (seq_of c1 k), j) \<in> set (pool c1)" by force
    obtain key where kk: "(key, k) \<in> set rm" using \<open>k \<in> set (map snd rm)\<close> by auto
    have kc: "k < length (pc_store c1)" using pool_entryD [OF ok, of key k] s(2) kk l1 by auto
    have jc: "j < length (pc_store c1)" "pool_key (seq_of c1 k) = pool_key (seq_of c1 j)"
      using pool_entryD [OF s(5) j] by simp_all
    then have "j = k" using seq_inj [of _ c1 j k] s(5) kc by (auto simp: client_ok_def pool_key_inj)
    moreover have "(pool_key (seq_of c1 k), k) \<in> set rm"
      using pool_entryD [OF ok, of key k] s(2) kk keeps_nth [OF s(6), of k] by auto
    ultimately show False using j s(7) by simp
  qed
  then have "pool d = pool c1"
    using close_all_pool [of c1 "map snd rm" d] cd(1) s(5) by (simp add: client_ok_def pool_inv_def)
  then have "pool d = filter (\<lambda>e. e \<notin> set rm) (pool c)" using s(7) by simp
  moreover have "distinct (pool c)" using d by (metis distinct_zipI2 distinct_map)
  ultimately have "pool d = filter (\<lambda>e. e \<notin> set rm) (pool c)" "min (pc_min c) (int (length (pool c))) \<le> int (length (pool d))"
    using length_filter_minus [of "pool c" rm] s(4) by auto
  then show ?thesis
    using cd s e l1 keeps_nth [OF s(6)] by (intro exI [of _ rm] exI [of _ d]) (auto simp: idleCleanupExpTime_def keeps_def)
qed

lemma client_close_ok:
  assumes inv: "client_inv c"
  shows "\<exists>d. client_close c = Some d \<and> client_inv d \<and> pc_die d \<and> length (pc_store d) = length (pc_store c)
    \<and> (\<forall>k < length (pc_store c). se_die (sess_of d k))"
proof -
  let ?c = "c\<lparr>pc_die := True, pc_sessions := []\<rparr>"
  have ok: "client_ok ?c" using inv by (simp add: client_inv_def client_ok_def pool_inv_def)
  have r: "list_all (\<lambda>k. k < length (pc_store ?c)) (map snd (pc_sessions c))"
    using inv by (auto simp: client_inv_def client_ok_def pool_inv_def list_all_iff)
  obtain d where d: "close_all (map snd (pc_sessions c)) ?c = Some d" "client_ok d"
    "length (pc_store d) = length (pc_store c)" "pc_die d"
    "\<forall>k \<in> set (map snd (pc_sessions c)). se_die (sess_of d k)"
    "\<forall>j < length (pc_store c). se_die (sess_of c j) \<longrightarrow> se_die (sess_of d j)"
    using close_all_ok [OF ok r] by auto
  have "se_die (sess_of d k)" if k: "k < length (pc_store c)" for k
  proof (cases "se_die (sess_of c k)")
    case True
    then show ?thesis using d(6) k by simp
  next
    case False
    then have "(seq_of c k, k) \<in> set (pc_sessions c)"
      using inv k by (auto simp: client_inv_def client_ok_def pool_inv_def)
    then show ?thesis using d(5) by force
  qed
  then show ?thesis using d by (auto simp: client_close_def client_inv_def)
qed

lemma pool_step_ok:
  assumes inv: "client_inv c" and len: "length (pc_store c) + 1 < 2 ^ 38"
  shows "\<exists>d. pool_step md5hex es x c = Some d \<and> client_inv d \<and> length (pc_store d) \<le> length (pc_store c) + 1"
proof (cases x)
  case (PCreate rnd now dial rs)
  then show ?thesis using createStream_inv [OF inv len, of rnd now dial rs es] by auto
next
  case (PSession rnd now k y)
  then show ?thesis
    using with_session_inv [OF inv, of k "\<lambda>s. ((), sess_step md5hex y s)" rnd now] evolves_step inv by auto
next
  case PPending
  then show ?thesis using run_pending_ok [of c] inv by (auto simp: client_inv_def)
next
  case (PCleanup now)
  obtain d where d: "idleCleanupExpTime now (now - pc_timeout c) c = Some d" "client_ok d"
    "length (pc_store d) = length (pc_store c)" "pc_die d = pc_die c"
    "\<forall>j < length (pc_store c). se_die (sess_of c j) \<longrightarrow> se_die (sess_of d j)"
    using cleanup_ok [of c now "now - pc_timeout c"] inv unfolding client_inv_def by blast
  then show ?thesis using inv PCleanup by (auto simp: client_inv_def idleCleanup_def)
next
  case PClose
  then show ?thesis using client_close_ok [OF inv] by auto
qed

lemma pool_run_ok:
  "client_inv c \<Longrightarrow> length (pc_store c) + length xs < 2 ^ 38 \<Longrightarrow>
   \<exists>d. pool_run md5hex es xs c = Some d \<and> client_inv d \<and> length (pc_store d) \<le> length (pc_store c) + length xs"
proof (induction xs arbitrary: c)
  case (Cons x xs)
  obtain d where d: "pool_step md5hex es x c = Some d" "client_inv d" "length (pc_store d) \<le> length (pc_store c) + 1"
    using pool_step_ok [OF Cons.prems(1), of md5hex es x] Cons.prems(2) by auto
  then show ?case using Cons.IH [OF d(2)] Cons.prems(2) by auto
qed simp

lemma pool_run_inv:
  assumes "length xs < 2 ^ 38" "pool_run md5hex es xs (newClient p interval timeout mn) = Some c"
  shows "client_inv c"
  using pool_run_ok [OF client_inv_new, of p interval timeout mn xs md5hex es] assms
  by (auto simp: newClient_def)

lemma pool_run_new:
  assumes "length xs < 2 ^ 38"
  shows "\<exists>c. pool_run md5hex es xs (newClient p interval timeout mn) = Some c \<and> client_inv c"
  using pool_run_ok [OF client_inv_new, of p interval timeout mn xs md5hex es] assms
  by (auto simp: newClient_def)

lemma pool_key_le: "pool_key a \<le> pool_key b \<longleftrightarrow> b \<le> a"
proof -
  have u: "unat (pool_key x) = unat (- 1 :: 64 word) - unat x" for x
    unfolding pool_key_def by (rule unat_sub) simp
  have le: "unat x \<le> unat (- 1 :: 64 word)" for x :: "64 word"
    by (simp add: word_le_nat_alt [symmetric])
  show ?thesis using u [of a] u [of b] le [of a] le [of b] by (simp add: word_le_nat_alt) linarith
qed

section \<open>Properties\<close>



text \<open>An idle session is reused by one stream at a time and the newest first: \<open>getIdleSession\<close> hands
  out nothing when the pool is empty, otherwise the pooled session with the greatest sequence number, and
  that session is no longer in the pool while all the others still are.\<close>

theorem newest_idle_session:
  assumes "length xs < 2 ^ 38" "pool_run md5hex es xs (newClient p interval timeout mn) = Some c"
  shows "case pool c of
      [] \<Rightarrow> getIdleSession c = Some (None, c)
    | _ # _ \<Rightarrow> (\<exists>k d. getIdleSession c = Some (Some k, d) \<and> k \<in> snd ` set (pool c)
        \<and> list_all (\<lambda>(_, j). seq_of c j \<le> seq_of c k) (pool c)
        \<and> snd ` set (pool d) = snd ` set (pool c) - {k})"
proof (cases "pool c")
  case Nil
  have "client_ok c" using pool_run_inv [OF assms] by (simp add: client_inv_def)
  then show ?thesis using getIdle_empty Nil by simp
next
  case (Cons e rest)
  have inv: "client_inv c" by (rule pool_run_inv [OF assms(1,2)])
  then have ok: "client_ok c" by (simp add: client_inv_def)
  obtain key k where p: "pool c = (key, k) # rest" using Cons by (cases e) auto
  obtain d where d: "getIdleSession c = Some (Some k, d)" "pool d = rest" using getIdle_first [OF ok p] by blast
  have keyk: "(key', j) \<in> set (pool c) \<Longrightarrow> key' = pool_key (seq_of c j)" for key' j
    using ok by (auto simp: client_ok_def pool_inv_def)
  have inc: "increasing (pool c)" using ok sl_inc [of "pc_idle c"] by (simp add: client_ok_def pool_inv_def)
  have le: "seq_of c j \<le> seq_of c k" if "(key', j) \<in> set (pool c)" for key' j
  proof -
    have "pool_key (seq_of c k) \<le> pool_key (seq_of c j)"
      using inc p that keyk [of key k] keyk [OF that] by auto
    then show ?thesis by (simp add: pool_key_le)
  qed
  have "k \<notin> snd ` set rest"
  proof
    assume "k \<in> snd ` set rest"
    then obtain key' where "(key', k) \<in> set rest" by force
    then show False using inc p keyk [of key k] keyk [of key' k] by auto
  qed
  then have "snd ` set (pool d) = snd ` set (pool c) - {k}" "list_all (\<lambda>(_, j). seq_of c j \<le> seq_of c k) (pool c)"
    using d p le by (auto simp: list_all_iff)
  then show ?thesis using d(1) p by (simp only: list.case) (intro exI [of _ k] exI [of _ d], simp)
qed

theorem newest_idle_session_witness:
  "\<exists>c. pool_run (\<lambda>_. []) client_settings [PCreate 1 0 (Ok (mk_conn [])) [], PSession 2 5 0 (OpCloseStream 0)]
      (newClient (default_factory (\<lambda>_. [])) 0 0 1) = Some c
    \<and> (case pool c of
          [] \<Rightarrow> getIdleSession c = Some (None, c)
        | _ # _ \<Rightarrow> (\<exists>k d. getIdleSession c = Some (Some k, d) \<and> k \<in> snd ` set (pool c)))"
proof -
  let ?xs = "[PCreate 1 0 (Ok (mk_conn [])) [], PSession 2 5 0 (OpCloseStream 0)]"
  have l: "length ?xs < 2 ^ 38" by simp
  obtain c where c: "pool_run (\<lambda>_. []) client_settings ?xs (newClient (default_factory (\<lambda>_. [])) 0 0 1) = Some c"
    using pool_run_new [OF l] by blast
  show ?thesis using c newest_idle_session [OF l c] by (auto split: list.splits)
qed

text \<open>The cleanup closes what has been idle for too long and keeps enough sessions: it
  removes only sessions whose idle time has expired and closes them, leaves at least the smaller of the
  configured minimum and the former pool size in the pool, and every session it keeps is unchanged.\<close>

theorem cleanup_keeps_minimum:
  assumes "length xs < 2 ^ 38" "pool_run md5hex es xs (newClient p interval timeout mn) = Some c"
  shows "\<exists>d rm. idleCleanup now c = Some d \<and> set rm \<subseteq> set (pool c)
    \<and> list_all (\<lambda>(key, k). cs_idle (pc_store c ! k) < now - pc_timeout c \<and> se_die (sess_of d k)) rm
    \<and> pool d = filter (\<lambda>e. e \<notin> set rm) (pool c)
    \<and> min (pc_min c) (int (length (pool c))) \<le> int (length (pool d))
    \<and> (\<forall>k. k < length (pc_store c) \<longrightarrow> k \<notin> snd ` set rm \<longrightarrow> sess_of d k = sess_of c k)"
proof -
  have "client_ok c" using pool_run_inv [OF assms] by (simp add: client_inv_def)
  from cleanup_ok [OF this, of now "now - pc_timeout c"] show ?thesis
    unfolding idleCleanup_def list_all_iff by blast
qed

theorem cleanup_keeps_minimum_witness:
  "\<exists>c d. pool_run (\<lambda>_. []) client_settings [PCreate 1 0 (Ok (mk_conn [])) [], PSession 2 5 0 (OpCloseStream 0)]
      (newClient (default_factory (\<lambda>_. [])) 0 0 1) = Some c
    \<and> idleCleanup 100 c = Some d \<and> min (pc_min c) (int (length (pool c))) \<le> int (length (pool d))"
proof -
  let ?xs = "[PCreate 1 0 (Ok (mk_conn [])) [], PSession 2 5 0 (OpCloseStream 0)]"
  let ?c = "newClient (default_factory (\<lambda>_. [])) 0 0 1"
  have l: "length ?xs < 2 ^ 38" by simp
  obtain c where c: "pool_run (\<lambda>_. []) client_settings ?xs ?c = Some c"
    using pool_run_new [OF l] by blast
  show ?thesis using c cleanup_keeps_minimum [OF l c, of 100] by auto
qed

text \<open>Closing the client closes every session it ever opened, in use or idle; the pool is empty
  afterwards and no further stream can be opened.\<close>

theorem client_close_closes_all:
  assumes "length xs < 2 ^ 38" "pool_run md5hex es xs (newClient p interval timeout mn) = Some c"
  shows "\<exists>d. client_close c = Some d \<and> pool d = [] \<and> list_all (\<lambda>cs. se_die (cs_sess cs)) (pc_store d)
    \<and> length (pc_store d) = length (pc_store c)
    \<and> createStream rnd now dial rs es d = Some (Err ClosedPipe, d)"
proof -
  have "client_inv c" by (rule pool_run_inv [OF assms(1,2)])
  then obtain d where d: "client_close c = Some d" "client_inv d" "pc_die d" "length (pc_store d) = length (pc_store c)"
    "\<forall>k < length (pc_store c). se_die (sess_of d k)"
    using client_close_ok by blast
  have "e \<notin> set (pool d)" for e
  proof (cases e)
    case (Pair key k)
    show ?thesis using d Pair by (auto simp: client_inv_def client_ok_def pool_inv_def)
  qed
  then have "pool d = []" by (cases "pool d") auto
  moreover have "list_all (\<lambda>cs. se_die (cs_sess cs)) (pc_store d)" using d(4,5) by (simp add: list_all_length)
  ultimately show ?thesis using d by (simp add: createStream_def)
qed

theorem client_close_closes_all_witness:
  "\<exists>c d. pool_run (\<lambda>_. []) client_settings [PCreate 1 0 (Ok (mk_conn [])) []]
      (newClient (default_factory (\<lambda>_. [])) 0 0 1) = Some c
    \<and> client_close c = Some d \<and> pool d = [] \<and> list_all (\<lambda>cs. se_die (cs_sess cs)) (pc_store d)"
proof -
  have l: "length [PCreate 1 0 (Ok (mk_conn [])) []] < 2 ^ 38" by simp
  obtain c where c: "pool_run (\<lambda>_. []) client_settings [PCreate 1 0 (Ok (mk_conn [])) []]
      (newClient (default_factory (\<lambda>_. [])) 0 0 1) = Some c"
    using pool_run_new [OF l] by blast
  show ?thesis using c client_close_closes_all [OF l c] by blast
qed

end
