(* ===== verification/NetipText.thy ===== *)
theory NetipText
  imports NetipFacts
begin

text \<open>
  The text forms of \<open>netip\<close> addresses are read back: the hexadecimal groups, the choice of the run of
  zero groups that \<open>String\<close> shortens to \<open>::\<close>, the IPv4-mapped form and zones, against \<open>ParseAddr\<close>.
\<close>

section \<open>Hexadecimal groups\<close>

abbreviation hexs :: "16 word \<Rightarrow> string" where "hexs x \<equiv> appendHex [] x"

lemma appendHex_append: "appendHex b x = b @ hexs x"
  by (simp add: appendHex_def Let_def)

lemma hex_val_digit: "d < 16 \<Longrightarrow> hex_val (hex_digits ! d) = Some d"
proof -
  assume "d < 16"
  then have "d \<in> {0..<16}" by simp
  then have "d \<in> set [0..<16]" by simp
  moreover have "list_all (\<lambda>d. hex_val (hex_digits ! d) = Some d) [0..<16]" by code_simp
  ultimately show ?thesis by (auto simp: list_all_iff)
qed

definition group_end :: "string \<Rightarrow> bool" where
  "group_end rest \<longleftrightarrow> (case rest of [] \<Rightarrow> True | c # _ \<Rightarrow> hex_val c = None)"

lemma scan_hex_stop: "group_end rest \<Longrightarrow> scan_hex rest off acc = Ok (off, acc, rest)"
  by (cases rest) (auto simp: group_end_def)

lemma group_end_simps [simp]: "group_end []" "group_end (CHR '':'' # s)" "group_end (CHR ''.'' # s)"
  by (simp_all add: group_end_def hex_val_def Let_def)

lemma push_bit_4_nat: "push_bit 4 (word_of_nat m) + word_of_nat d = (word_of_nat (m * 16 + d) :: 32 word)"
  by (simp add: push_bit_eq_mult)

lemma scan_hex_digit:
  assumes "d < 16" "off \<le> 3" "m * 16 + d < 65536"
  shows "scan_hex (hex_digits ! d # cs) off (word_of_nat m) = scan_hex cs (Suc off) (word_of_nat (m * 16 + d))"
proof -
  have u: "unat (word_of_nat (m * 16 + d) :: 32 word) = m * 16 + d"
    using assms(3) by (simp only: unat_of_nat) simp
  have "\<not> 65535 < (word_of_nat (m * 16 + d) :: 32 word)"
    using assms(3) unfolding word_less_nat_alt u by simp
  then show ?thesis using assms by (simp add: hex_val_digit Let_def push_bit_4_nat del: of_nat_add of_nat_mult)
qed

lemma nibble:
  fixes x :: "16 word"
  shows "unat (drop_bit 12 x) = unat x div 4096"
    "unat (drop_bit 8 x AND 0xf) = unat x div 256 mod 16"
    "unat (drop_bit 4 x AND 0xf) = unat x div 16 mod 16"
    "unat (x AND 0xf) = unat x mod 16"
proof -
  have m: "unat (w AND 0xf) = unat w mod 16" for w :: "16 word"
  proof -
    have "w AND 0xf = take_bit 4 w" by (simp add: take_bit_eq_mask mask_eq_exp_minus_1)
    then have "unat (w AND 0xf) = take_bit 4 (unat w)" by (simp only: unsigned_take_bit_eq)
    then show ?thesis by (simp only: take_bit_eq_mod) simp
  qed
  show "unat (drop_bit 12 x) = unat x div 4096"
    "unat (drop_bit 8 x AND 0xf) = unat x div 256 mod 16"
    "unat (drop_bit 4 x AND 0xf) = unat x div 16 mod 16"
    "unat (x AND 0xf) = unat x mod 16"
    by (simp_all add: m unat_drop)
qed

lemma hexs_digits:
  "hexs x = (if 4096 \<le> unat x then [hex_digits ! (unat x div 4096)] else [])
     @ (if 256 \<le> unat x then [hex_digits ! (unat x div 256 mod 16)] else [])
     @ (if 16 \<le> unat x then [hex_digits ! (unat x div 16 mod 16)] else []) @ [hex_digits ! (unat x mod 16)]"
  unfolding appendHex_def Let_def nibble word_le_nat_alt by (simp add: unat_drop)

lemma hexs_nonempty [simp]: "hexs x \<noteq> []"
  by (simp add: hexs_digits)

lemma scan_hexs:
  assumes "group_end rest"
  shows "scan_hex (hexs x @ rest) 0 0 = Ok (length (hexs x), word_of_nat (unat x), rest)"
proof -
  define n where "n = unat x"
  have n: "n < 65536" using unsigned_less [of x, where ?'a = nat] by (simp add: n_def)
  define a b c d where "a = n div 4096" and "b = n div 256 mod 16" and "c = n div 16 mod 16" and "d = n mod 16"
  have lt: "a < 16" "b < 16" "c < 16" "d < 16" using n by (simp_all add: a_def b_def c_def d_def)
  have q: "n div 4096 = n div 256 div 16" "n div 256 = n div 16 div 16" by (simp_all add: div_mult2_eq [symmetric])
  have ab: "a * 16 + b = n div 256" unfolding a_def b_def q(1) by (rule div_mult_mod_eq)
  have bc: "n div 256 * 16 + c = n div 16" unfolding c_def q(2) by (rule div_mult_mod_eq)
  have cd: "n div 16 * 16 + d = n" unfolding d_def by (rule div_mult_mod_eq)
  have le: "n div 256 \<le> 255" "n div 16 \<le> 4095" using n by simp_all
  have z: "0 * 16 + e = e" for e :: nat by simp
  have hx: "hexs x = (if 4096 \<le> n then [hex_digits ! a] else []) @ (if 256 \<le> n then [hex_digits ! b] else [])
      @ (if 16 \<le> n then [hex_digits ! c] else []) @ [hex_digits ! d]"
    by (simp add: hexs_digits n_def a_def b_def c_def d_def)
  consider "4096 \<le> n" | "256 \<le> n" "n < 4096" | "16 \<le> n" "n < 256" | "n < 16" by linarith
  then have "scan_hex (hexs x @ rest) 0 (word_of_nat 0) = Ok (length (hexs x), word_of_nat n, rest)"
  proof cases
    case 1
    then have h: "hexs x = [hex_digits ! a, hex_digits ! b, hex_digits ! c, hex_digits ! d]" by (simp add: hx)
    have "scan_hex (hexs x @ rest) 0 (word_of_nat 0) = scan_hex rest (Suc (Suc (Suc (Suc 0)))) (word_of_nat n)"
      unfolding h append.simps
      using lt n le by (subst scan_hex_digit; simp only: z ab bc cd)+
    then show ?thesis by (simp add: h scan_hex_stop [OF assms])
  next
    case 2
    have b: "b = n div 256" using 2(2) ab by (simp add: a_def)
    from 2 have h: "hexs x = [hex_digits ! b, hex_digits ! c, hex_digits ! d]" by (simp add: hx)
    have "scan_hex (hexs x @ rest) 0 (word_of_nat 0) = scan_hex rest (Suc (Suc (Suc 0))) (word_of_nat n)"
      unfolding h append.simps
      using lt n le by (subst scan_hex_digit; simp only: z b bc cd)+
    then show ?thesis by (simp add: h scan_hex_stop [OF assms])
  next
    case 3
    have c: "c = n div 16" using 3(2) bc by simp
    from 3 have h: "hexs x = [hex_digits ! c, hex_digits ! d]" by (simp add: hx)
    have "scan_hex (hexs x @ rest) 0 (word_of_nat 0) = scan_hex rest (Suc (Suc 0)) (word_of_nat n)"
      unfolding h append.simps
      using lt n le by (subst scan_hex_digit; simp only: z c cd)+
    then show ?thesis by (simp add: h scan_hex_stop [OF assms])
  next
    case 4
    have d: "d = n" using 4 by (simp add: d_def)
    from 4 have h: "hexs x = [hex_digits ! d]" by (simp add: hx)
    have "scan_hex (hexs x @ rest) 0 (word_of_nat 0) = scan_hex rest (Suc 0) (word_of_nat n)"
      unfolding h append.simps
      using lt n le by (subst scan_hex_digit; simp only: z d)+
    then show ?thesis by (simp add: h scan_hex_stop [OF assms])
  qed
  then show ?thesis by (simp add: n_def)
qed

lemma hexs_chars: "c \<in> set (hexs x) \<Longrightarrow> hex_val c \<noteq> None"
proof -
  have l: "unat x div 4096 < 16" using unsigned_less [of x, where ?'a = nat] by simp
  assume "c \<in> set (hexs x)"
  then have "c \<in> (!) hex_digits ` {0..<16}"
    using l by (auto simp: hexs_digits split: if_splits)
  then show ?thesis by (auto simp: hex_val_digit)
qed

lemma hexs_no_special: "CHR '':'' \<notin> set (hexs x)" "CHR ''%'' \<notin> set (hexs x)" "CHR ''.'' \<notin> set (hexs x)"
  using hexs_chars [of "CHR '':''" x] hexs_chars [of "CHR ''%''" x] hexs_chars [of "CHR ''.''" x]
  by (auto simp: hex_val_def Let_def)

lemma hexs_Cons: obtains c s where "hexs x = c # s" "c \<noteq> CHR '':''"
  using hexs_nonempty [of x] hexs_no_special(1) [of x] by (cases "hexs x") auto

section \<open>Sequences of groups\<close>

definition group_bytes :: "16 word list \<Rightarrow> bytes" where
  "group_bytes gs = concat (map put_be16 gs)"

definition colons :: "16 word list \<Rightarrow> string" where
  "colons gs = concat (map (\<lambda>g. CHR '':'' # hexs g) gs)"

fun gtext :: "16 word list \<Rightarrow> string" where
  "gtext [] = []"
| "gtext (g # gs) = hexs g @ colons gs"

lemma group_bytes_simps [simp]:
  "group_bytes [] = []" "group_bytes (g # gs) = put_be16 g @ group_bytes gs"
  "group_bytes (gs @ hs) = group_bytes gs @ group_bytes hs"
  by (simp_all add: group_bytes_def)

lemma length_group_bytes [simp]: "length (group_bytes gs) = 2 * length gs"
  by (induction gs) auto

lemma group_bytes_zero: "group_bytes (replicate n 0) = replicate (2 * n) 0"
  by (induction n) (auto simp: put_be16_def)

lemma colons_simps [simp]:
  "colons [] = []" "colons (g # gs) = CHR '':'' # gtext (g # gs)" "colons (gs @ hs) = colons gs @ colons hs"
  by (simp_all add: colons_def)

lemma gtext_Cons: obtains c s where "gtext (g # gs) = c # s" "c \<noteq> CHR '':''"
  using hexs_Cons [of g] by (metis append_Cons gtext.simps(2))

lemma gtext_Nil_iff [simp]: "gtext gs = [] \<longleftrightarrow> gs = []"
  by (cases gs) auto

lemma colons_no_percent: "CHR ''%'' \<notin> set (colons gs)" "CHR ''.'' \<notin> set (colons gs)"
  using hexs_no_special by (auto simp: colons_def)

lemma gtext_no_special: "CHR ''%'' \<notin> set (gtext gs)" "CHR ''.'' \<notin> set (gtext gs)"
  using hexs_no_special colons_no_percent by (cases gs; auto)+

section \<open>Parsing groups\<close>

lemma acc_bytes:
  "[ucast (drop_bit 8 (word_of_nat (unat x) :: 32 word)), ucast (word_of_nat (unat x) :: 32 word)] = put_be16 (x :: 16 word)"
proof -
  have "word_of_nat (unat x) = (ucast x :: 32 word)" by simp
  then show ?thesis by (simp only: put_be16_def) (auto simp: bit_simps intro!: bit_word_eqI)
qed

lemma parse_last:
  assumes "length ip < 16"
  shows "parse_v6_loop (hexs x) ell ip = Ok ([], ell, ip @ put_be16 x)"
  using assms scan_hexs [of "[]" x] by (subst parse_v6_loop.simps) (simp add: acc_bytes [simplified])

lemma parse_next:
  assumes "length ip < 16" "s \<noteq> []" "hd s \<noteq> CHR '':''"
  shows "parse_v6_loop (hexs x @ CHR '':'' # s) ell ip = parse_v6_loop s ell (ip @ put_be16 x)"
  using assms scan_hexs [of "CHR '':'' # s" x]
  by (subst parse_v6_loop.simps) (simp add: acc_bytes [simplified])

lemma parse_ellipsis:
  assumes "length ip < 16"
  shows "parse_v6_loop (hexs x @ CHR '':'' # CHR '':'' # s) None ip =
    (if s = [] then Ok ([], Some (length ip + 2), ip @ put_be16 x)
     else parse_v6_loop s (Some (length ip + 2)) (ip @ put_be16 x))"
  using assms scan_hexs [of "CHR '':'' # CHR '':'' # s" x]
  by (subst parse_v6_loop.simps) (simp add: acc_bytes [simplified])

lemma parse_groups:
  assumes "gs \<noteq> []" "length ip + 2 * length gs \<le> 16"
  shows "parse_v6_loop (gtext gs) ell ip = Ok ([], ell, ip @ group_bytes gs)"
  using assms
proof (induction gs arbitrary: ip)
  case (Cons g gs)
  show ?case
  proof (cases gs)
    case Nil
    then show ?thesis using Cons.prems by (simp add: parse_last)
  next
    case (Cons h hs)
    obtain c s where "gtext gs = c # s" "c \<noteq> CHR '':''" using gtext_Cons [of h hs] Cons by auto
    then show ?thesis
      using Cons Cons.IH [of "ip @ put_be16 g"] Cons.prems parse_next [of ip "gtext gs" g ell] by simp
  qed
qed simp

lemma parse_groups_ell:
  assumes "gs \<noteq> []" "length ip + 2 * length gs + 2 * length hs \<le> 16"
  shows "parse_v6_loop (gtext gs @ CHR '':'' # CHR '':'' # gtext hs) None ip
     = Ok ([], Some (length ip + 2 * length gs), ip @ group_bytes gs @ group_bytes hs)"
  using assms
proof (induction gs arbitrary: ip)
  case (Cons g gs)
  show ?case
  proof (cases gs)
    case Nil
    then show ?thesis
      using Cons.prems by (cases "hs = []") (simp_all add: parse_ellipsis parse_groups)
  next
    case (Cons h ks)
    let ?s = "gtext gs @ CHR '':'' # CHR '':'' # gtext hs"
    obtain c s where "gtext gs = c # s" "c \<noteq> CHR '':''" using gtext_Cons [of h ks] Cons by auto
    then show ?thesis
      using Cons Cons.IH [of "ip @ put_be16 g"] Cons.prems parse_next [of ip ?s g None] by simp
  qed
qed simp

text \<open>The whole of \<open>parseIPv6\<close> on printed groups and a zone.\<close>

definition zone_text :: "string \<Rightarrow> string" where
  "zone_text z = (if z = [] then [] else CHR ''%'' # z)"

lemma split_zone:
  assumes "CHR ''%'' \<notin> set t"
  shows "(case index_byte (CHR ''%'') (t @ zone_text z) of
      None \<Rightarrow> (t @ zone_text z, [], False)
    | Some i \<Rightarrow> (take i (t @ zone_text z), drop (Suc i) (t @ zone_text z), drop (Suc i) (t @ zone_text z) = []))
    = (t, z, False)"
  using assms index_byte_append [OF assms, of z] index_byte_None [of "CHR ''%''" t]
  by (auto simp: zone_text_def)

lemma parseIPv6_zone:
  assumes "CHR ''%'' \<notin> set t"
  shows "parseIPv6 (t @ zone_text z) =
    (let lead = (2 \<le> length t \<and> t ! 0 = CHR '':'' \<and> t ! 1 = CHR '':'')
     in if lead \<and> length t = 2 then Ok (addr_withZone (Addr (U128 0 0) (Z6 [])) z)
        else case parse_v6_loop (if lead then drop 2 t else t) (if lead then Some 0 else None) [] of
          Inl e \<Rightarrow> Err e
        | Inr (rest, ell, ip) \<Rightarrow>
            if rest \<noteq> [] then Err (Msg ''trailing garbage after address'')
            else if length ip < 16 then
              (case ell of None \<Rightarrow> Err (Msg ''address string too short'')
               | Some e \<Rightarrow> Ok (addr_withZone
                   (addrFrom16 (take e ip @ replicate (16 - length ip) 0 @ drop e ip)) z))
            else if ell \<noteq> None
            then Err (Msg ''the :: must expand to at least one field of zeros'')
            else Ok (addr_withZone (addrFrom16 ip) z))"
  by (simp only: parseIPv6_def split_zone [OF assms] Let_def prod.case if_False)

lemma parse_all_groups:
  assumes "length gs = 8"
  shows "parseIPv6 (gtext gs @ zone_text z) = Ok (addr_withZone (addrFrom16 (group_bytes gs)) z)"
proof -
  obtain g ks where g: "gs = g # ks" using assms by (cases gs) auto
  obtain c s where c: "gtext gs = c # s" "c \<noteq> CHR '':''" using gtext_Cons [of g ks] g by auto
  then have h: "gtext gs ! 0 \<noteq> CHR '':''" by simp
  have p: "parse_v6_loop (gtext gs) None [] = Ok ([], None, group_bytes gs)"
    using parse_groups [of gs "[]" None] assms by fastforce
  show ?thesis
    using assms h p by (subst parseIPv6_zone [OF gtext_no_special(1)]) simp
qed

lemma parse_shortened:
  assumes "length gs + n + length hs = 8" "0 < n"
  shows "parseIPv6 (gtext gs @ CHR '':'' # CHR '':'' # gtext hs @ zone_text z)
     = Ok (addr_withZone (addrFrom16 (group_bytes (gs @ replicate n 0 @ hs))) z)"
proof (cases "gs = []")
  case True
  let ?t = "CHR '':'' # CHR '':'' # gtext hs"
  have p: "CHR ''%'' \<notin> set ?t" using gtext_no_special by simp
  show ?thesis
  proof (cases "hs = []")
    case hs: True
    have "addrFrom16 (replicate 16 0) = Addr (U128 0 0) (Z6 [])" by code_simp
    then show ?thesis using True hs assms parseIPv6_zone [OF p, of z]
      by (simp add: group_bytes_zero)
  next
    case hs: False
    have l: "2 * n = 16 - 2 * length hs" "length hs < 8" using assms True by auto
    show ?thesis
      using True hs l(2) parseIPv6_zone [OF p, of z] parse_groups [OF hs, of "[]" "Some 0"]
      by (simp add: group_bytes_zero l(1))
  qed
next
  case False
  let ?t = "gtext gs @ CHR '':'' # CHR '':'' # gtext hs"
  have p: "CHR ''%'' \<notin> set ?t" using gtext_no_special by simp
  obtain g ks where g: "gs = g # ks" using False by (cases gs) auto
  obtain c s where c: "gtext gs = c # s" "c \<noteq> CHR '':''" using gtext_Cons [of g ks] g by auto
  have l: "2 * n = 16 - (2 * length gs + 2 * length hs)" "length gs + length hs < 8" using assms by auto
  show ?thesis
    using False c l(2) parseIPv6_zone [OF p, of z] parse_groups_ell [OF False, of "[]" hs]
    by (simp add: group_bytes_zero l(1))
qed

section \<open>Printing groups\<close>

lemma zero_run_end_bounds:
  "i \<le> zero_run_end ip n i \<and> zero_run_end ip n i \<le> max i 8
    \<and> (\<forall>k. i \<le> k \<and> k < zero_run_end ip n i \<longrightarrow> addr_v6u16 ip k = 0)"
proof (induction n arbitrary: i)
  case (Suc n)
  show ?case
  proof (cases "i < 8 \<and> addr_v6u16 ip i = 0")
    case True
    then have e: "zero_run_end ip (Suc n) i = zero_run_end ip n (Suc i)" by simp
    have "addr_v6u16 ip k = 0" if "i \<le> k" "k < zero_run_end ip n (Suc i)" for k
      using that True Suc [of "Suc i"] by (cases "k = i") auto
    then show ?thesis unfolding e using Suc [of "Suc i"] True by auto
  qed auto
qed auto

definition run_ok :: "addr \<Rightarrow> nat \<times> nat \<Rightarrow> bool" where
  "run_ok ip r = (r = (255, 255) \<or> (fst r + 2 \<le> snd r \<and> snd r \<le> 8
     \<and> (\<forall>k. fst r \<le> k \<and> k < snd r \<longrightarrow> addr_v6u16 ip k = 0)))"

lemma zero_run_ok: "run_ok ip (zero_run ip)"
proof -
  define f where "f = (\<lambda>(zs, ze) i. let j = zero_run_end ip 8 i; l = j - i
      in if 2 \<le> l \<and> ze - zs < l then (i, j) else (zs, ze))"
  have "run_ok ip r \<Longrightarrow> i < 8 \<Longrightarrow> run_ok ip (f r i)" for r i
    using zero_run_end_bounds [of i ip 8] by (cases r) (auto simp: f_def run_ok_def Let_def max_def)
  then have all: "run_ok ip r \<Longrightarrow> set is \<subseteq> {..<8} \<Longrightarrow> run_ok ip (foldl f r is)" for r "is"
    by (induction "is" arbitrary: r) auto
  have "run_ok ip (255, 255)" by (simp add: run_ok_def)
  then have "run_ok ip (foldl f (255, 255) [0..<8])" by (rule all) auto
  then show ?thesis unfolding zero_run_def f_def .
qed

abbreviation groups :: "addr \<Rightarrow> nat \<Rightarrow> nat \<Rightarrow> 16 word list" where
  "groups ip i j \<equiv> map (addr_v6u16 ip) [i..<j]"

lemma to6_plain:
  assumes "zs < i \<or> 8 \<le> zs" "0 < i"
  shows "to6_loop ip zs ze i ret = ret @ colons (groups ip i 8)"
  using assms
proof (induction "8 - i" arbitrary: i ret)
  case 0
  then show ?case by (simp add: to6_loop.simps [of _ _ _ i])
next
  case (Suc n)
  then have "i < 8" "i \<noteq> zs" by auto
  then have "to6_loop ip zs ze i ret = to6_loop ip zs ze (Suc i) (ret @ '':'' @ hexs (addr_v6u16 ip i))"
    using Suc.prems by (simp add: to6_loop.simps [of _ _ _ i] appendHex_append [of "_ @ _"])
  also have "\<dots> = ret @ '':'' @ hexs (addr_v6u16 ip i) @ colons (groups ip (Suc i) 8)"
    using Suc.prems Suc.hyps(2) by (subst Suc.hyps(1)) auto
  finally show ?case using \<open>i < 8\<close> by (simp add: upt_conv_Cons)
qed

lemma to6_none: "to6_loop ip 255 255 0 [] = gtext (groups ip 0 8)"
proof -
  have "to6_loop ip 255 255 0 [] = to6_loop ip 255 255 (Suc 0) (hexs (addr_v6u16 ip 0))"
    by (simp add: to6_loop.simps [of _ _ _ 0])
  also have "\<dots> = gtext (groups ip 0 8)"
    by (subst to6_plain) (simp_all add: upt_conv_Cons [of 0])
  finally show ?thesis .
qed

lemma to6_at:
  assumes "zs < ze" "ze \<le> 8"
  shows "to6_loop ip zs ze zs ret = ret @ ''::'' @ gtext (groups ip ze 8)"
proof (cases "ze = 8")
  case True
  then show ?thesis using assms by (simp add: to6_loop.simps [of _ _ _ zs])
next
  case False
  then have "to6_loop ip zs ze zs ret = to6_loop ip zs ze (Suc ze) (ret @ ''::'' @ hexs (addr_v6u16 ip ze))"
    using assms by (simp add: to6_loop.simps [of _ _ _ zs] appendHex_append [of "_ @ _"] max_def)
  also have "\<dots> = ret @ ''::'' @ hexs (addr_v6u16 ip ze) @ colons (groups ip (Suc ze) 8)"
    using assms by (subst to6_plain) auto
  finally show ?thesis using False assms by (simp add: upt_conv_Cons [of ze])
qed

lemma to6_run:
  assumes "i \<le> zs" "zs < ze" "ze \<le> 8" "0 < i"
  shows "to6_loop ip zs ze i ret = ret @ colons (groups ip i zs) @ ''::'' @ gtext (groups ip ze 8)"
  using assms
proof (induction "zs - i" arbitrary: i ret)
  case 0
  then show ?case by (simp add: to6_at)
next
  case (Suc n)
  then have i: "i < 8" "i < zs" by auto
  then have "to6_loop ip zs ze i ret = to6_loop ip zs ze (Suc i) (ret @ '':'' @ hexs (addr_v6u16 ip i))"
    using Suc.prems by (simp add: to6_loop.simps [of _ _ _ i] appendHex_append [of "_ @ _"])
  also have "\<dots> = ret @ '':'' @ hexs (addr_v6u16 ip i) @ colons (groups ip (Suc i) zs) @ ''::'' @ gtext (groups ip ze 8)"
    using Suc.prems Suc.hyps(2) i by (subst Suc.hyps(1)) auto
  finally show ?case using i by (simp add: upt_conv_Cons)
qed

lemma to6_shortened:
  assumes "zs < ze" "ze \<le> 8"
  shows "to6_loop ip zs ze 0 [] = gtext (groups ip 0 zs) @ ''::'' @ gtext (groups ip ze 8)"
proof (cases "zs = 0")
  case True
  then show ?thesis using assms to6_at [of 0 ze ip "[]"] by simp
next
  case False
  then have "to6_loop ip zs ze 0 [] = to6_loop ip zs ze (Suc 0) (hexs (addr_v6u16 ip 0))"
    using assms by (simp add: to6_loop.simps [of _ _ _ 0])
  also have "\<dots> = hexs (addr_v6u16 ip 0) @ colons (groups ip (Suc 0) zs) @ ''::'' @ gtext (groups ip ze 8)"
    using assms False by (subst to6_run) auto
  finally show ?thesis using False by (simp add: upt_conv_Cons [of 0])
qed

section \<open>Round trip\<close>

lemma groups_bytes: "group_bytes (groups ip 0 8) = put_be64 (hi (abits ip)) @ put_be64 (lo (abits ip))"
proof -
  have u: "[0..<8] = [0, 1, 2, 3, 4, 5, 6, 7 :: nat]" by (simp add: upt_rec)
  show ?thesis
    unfolding u by (auto simp: put_be16_def put_be64_def put_be32_def addr_v6u16_def bit_simps intro!: bit_word_eqI)
qed

lemma groups_addr: "addrFrom16 (group_bytes (groups ip 0 8)) = Addr (abits ip) (Z6 [])"
  unfolding groups_bytes by (rule addrFrom16_as16)

lemma zero_groups:
  assumes "\<forall>k. i \<le> k \<and> k < j \<longrightarrow> addr_v6u16 ip k = 0"
  shows "groups ip i j = replicate (j - i) 0"
  using assms by (intro nth_equalityI) auto

lemma split_groups:
  assumes "i \<le> j" "j \<le> 8"
  shows "groups ip 0 8 = groups ip 0 i @ groups ip i j @ groups ip j 8"
proof -
  have "[0..<8] = [0..<i] @ [i..<j] @ [j..<8]"
    using assms upt_add_eq_append [of 0 i "8 - i"] upt_add_eq_append [of i j "8 - j"] by simp
  then show ?thesis by simp
qed

lemma parse_appendTo6:
  assumes z: "afam ip = Z6 z"
  shows "parseIPv6 (appendTo6 ip []) = Ok ip"
proof -
  obtain zs ze where r: "zero_run ip = (zs, ze)" by (cases "zero_run ip")
  have zone: "zone_suffix ip = zone_text z" using z by (simp add: zone_suffix_def zone_text_def addr_zone_def)
  have ip: "addr_withZone (Addr (abits ip) (Z6 [])) z = ip"
    using z by (cases ip) (simp add: addr_withZone_def addr_is6_def)
  have ok: "run_ok ip (zs, ze)" using zero_run_ok [of ip] r by simp
  show ?thesis
  proof (cases "(zs, ze) = (255, 255)")
    case True
    then have "appendTo6 ip [] = gtext (groups ip 0 8) @ zone_text z"
      by (simp add: appendTo6_def r zone to6_none)
    then show ?thesis by (simp add: parse_all_groups groups_addr ip del: upt_rec_numeral)
  next
    case False
    then have b: "zs + 2 \<le> ze" "ze \<le> 8" and zero: "\<forall>k. zs \<le> k \<and> k < ze \<longrightarrow> addr_v6u16 ip k = 0"
      using ok by (auto simp: run_ok_def)
    have t: "appendTo6 ip [] = gtext (groups ip 0 zs) @ CHR '':'' # CHR '':'' # gtext (groups ip ze 8) @ zone_text z"
      using b by (simp add: appendTo6_def r zone to6_shortened)
    have g: "groups ip 0 zs @ replicate (ze - zs) 0 @ groups ip ze 8 = groups ip 0 8"
      using b split_groups [of zs ze ip] zero_groups [OF zero] by simp
    show ?thesis
      unfolding t using b by (subst parse_shortened [of _ "ze - zs"]) (simp_all add: g groups_addr ip)
  qed
qed

text \<open>The IPv4-mapped form.\<close>

lemma is_digit_hex: "is_digit c \<Longrightarrow> \<exists>d < 10. c = hex_digits ! d"
proof -
  assume "is_digit c"
  then have "digit_val c < 10" "digit_char (digit_val c) = c" by (auto simp: is_digit_def digit_val_def digit_char_def)
  then show ?thesis using hex_digit_dec [of "digit_val c"] by metis
qed

lemma scan_decimal:
  assumes "list_all is_digit i" "off + length i \<le> 4" "m < 16 ^ off"
  shows "\<exists>w. scan_hex (i @ CHR ''.'' # r) off (word_of_nat m) = Ok (off + length i, w, CHR ''.'' # r)"
  using assms
proof (induction i arbitrary: off m)
  case Nil
  then show ?case by (auto simp: scan_hex_stop simp del: scan_hex.simps)
next
  case (Cons c i)
  obtain d where d: "d < 10" "c = hex_digits ! d" using is_digit_hex Cons.prems(1) by auto
  have "(16 :: nat) ^ off \<le> 16 ^ 3" using Cons.prems(2) by (intro power_increasing) auto
  then have l: "m * 16 + d < 65536" "m * 16 + d < 16 ^ Suc off" using Cons.prems(3) d by simp_all
  show ?case
    unfolding d(2) append.simps
    using scan_hex_digit [of d off m "i @ CHR ''.'' # r"] Cons.IH [of "Suc off" "m * 16 + d"] Cons.prems d l
    by (simp del: of_nat_add of_nat_mult scan_hex.simps)
qed

lemma parse_mapped_loop:
  "parse_v6_loop (''ffff:'' @ dotted a b c d) (Some 0) [] = Ok ([], Some 0, [0xff, 0xff, a, b, c, d])"
proof -
  let ?d = "dotted a b c d"
  obtain r where r: "?d = itoa (unat a) @ CHR ''.'' # r" by (simp add: dotted_def)
  consider "unat a < 10" | "10 \<le> unat a" "unat a < 100" | "100 \<le> unat a" "unat a < 1000"
    using unat_byte_less [of a] by linarith
  then have i: "length (itoa (unat a)) \<le> 3" by cases (simp_all add: itoa_digits_upto3)
  obtain w where w: "scan_hex ?d 0 0 = Ok (length (itoa (unat a)), w, CHR ''.'' # r)"
    using scan_decimal [of "itoa (unat a)" 0 0 r] i unfolding r by auto
  have "hd (itoa (unat a)) \<noteq> CHR '':''"
    using itoa_no_special(1) [of "unat a"] by (metis hd_in_set itoa_nonempty)
  then have h: "?d \<noteq> []" "hd ?d \<noteq> CHR '':''" unfolding r by auto
  have "hexs 0xffff = ''ffff''" "put_be16 0xffff = [0xff, 0xff]" by code_simp+
  then have "parse_v6_loop (''ffff:'' @ ?d) (Some 0) [] = parse_v6_loop ?d (Some 0) [0xff, 0xff]"
    using parse_next [of "[]" ?d "0xffff" "Some 0"] h by simp
  also have "\<dots> = Ok ([], Some 0, [0xff, 0xff, a, b, c, d])"
    using w by (subst parse_v6_loop.simps) (simp add: parse_v4_dotted)
  finally show ?thesis .
qed

lemma parse_mapped_text:
  "parseIPv6 (''::ffff:'' @ dotted a b c d @ zone_text z)
     = Ok (addr_withZone (addrFrom16 (replicate 10 0 @ [0xff, 0xff, a, b, c, d])) z)"
proof -
  have "\<forall>x \<in> set (dotted a b c d). is_digit x \<or> x = CHR ''.''" using itoa_chars by (auto simp: dotted_def)
  then have p: "CHR ''%'' \<notin> set (''::ffff:'' @ dotted a b c d)" by (auto simp: is_digit_def)
  have e: "(''::ffff:'' @ dotted a b c d) @ zone_text z = ''::ffff:'' @ dotted a b c d @ zone_text z" by simp
  show ?thesis
    using parse_mapped_loop [of a b c d] unfolding e [symmetric] by (subst parseIPv6_zone [OF p]) simp
qed

lemma parse_appendTo4In6:
  assumes z: "afam ip = Z6 z" and m: "addr_is4In6 ip"
  shows "parseIPv6 (appendTo4In6 ip []) = Ok ip"
proof -
  let ?v = "addr_unmap ip"
  have v: "?v = Addr (abits ip) Z4" using m by (simp add: addr_unmap_def)
  define a b c d where "a = addr_v4 ?v 0" and "b = addr_v4 ?v 1" and "c = addr_v4 ?v 2" and "d = addr_v4 ?v 3"
  have zone: "zone_suffix ip = zone_text z" using z by (simp add: zone_suffix_def zone_text_def addr_zone_def)
  have t: "appendTo4In6 ip [] = ''::ffff:'' @ dotted a b c d @ zone_text z"
    by (simp add: appendTo4In6_def appendTo4_def appendDecimal_itoa zone a_def b_def c_def d_def dotted_def)
  have hl: "hi (abits ip) = 0" "drop_bit 32 (lo (abits ip)) = 0xffff"
    using m by (simp_all add: addr_is4In6_def)
  have lo: "put_be64 (lo (abits ip)) = [0, 0, 0xff, 0xff, a, b, c, d]"
  proof -
    have "(ucast (drop_bit 32 (lo (abits ip))) :: 32 word) = 0xffff" by (simp add: hl)
    moreover have "put_be32 0xffff = [0, 0, 0xff, 0xff]" by code_simp
    moreover have "put_be32 (ucast (lo (abits ip))) = [a, b, c, d]"
      by (auto simp: put_be32_def a_def b_def c_def d_def v addr_v4_def bit_simps intro!: bit_word_eqI)
    ultimately show ?thesis by (simp add: put_be64_def)
  qed
  have "put_be64 0 = replicate 8 0" by code_simp
  then have "replicate 10 0 @ [0xff, 0xff, a, b, c, d] = put_be64 (hi (abits ip)) @ put_be64 (lo (abits ip))"
    by (simp add: hl(1) lo numeral_eq_Suc)
  then show ?thesis
    unfolding t using z
    by (subst parse_mapped_text) (cases ip, simp add: addrFrom16_as16 addr_withZone_def addr_is6_def)
qed

text \<open>\<open>ParseAddr\<close> goes by the first of the characters \<open>.\<close>, \<open>:\<close> and \<open>%\<close>.\<close>

lemma scan_to_colon:
  "CHR ''.'' \<notin> set s \<Longrightarrow> CHR ''%'' \<notin> set s \<Longrightarrow> parseAddr_scan w (s @ CHR '':'' # r) = parseIPv6 w"
  by (induction s) auto

lemma appendTo6_colon:
  "\<exists>s r. appendTo6 ip [] = s @ CHR '':'' # r \<and> CHR ''.'' \<notin> set s \<and> CHR ''%'' \<notin> set s"
proof -
  obtain zs ze where r: "zero_run ip = (zs, ze)" by (cases "zero_run ip")
  have ok: "run_ok ip (zs, ze)" using zero_run_ok [of ip] r by simp
  show ?thesis
  proof (cases "(zs, ze) = (255, 255)")
    case True
    obtain g h gs where g: "groups ip 0 8 = g # h # gs" by (simp add: upt_rec)
    have "appendTo6 ip [] = hexs g @ CHR '':'' # gtext (h # gs) @ zone_suffix ip"
      using True g by (simp add: appendTo6_def r to6_none)
    then show ?thesis using hexs_no_special by metis
  next
    case False
    then have "zs < ze" "ze \<le> 8" using ok by (auto simp: run_ok_def)
    then have "appendTo6 ip [] = gtext (groups ip 0 zs) @ CHR '':'' # CHR '':'' # gtext (groups ip ze 8) @ zone_suffix ip"
      by (simp add: appendTo6_def r to6_shortened)
    then show ?thesis using gtext_no_special by metis
  qed
qed

lemma parseAddr_v6_text:
  assumes "afam ip = Z6 z"
  shows "parseAddr (addr_string ip) = Ok ip"
proof (cases "addr_is4In6 ip")
  case True
  then have "addr_string ip = appendTo4In6 ip []" using assms by (simp add: addr_string_def)
  moreover have "appendTo4In6 ip [] = [] @ CHR '':'' # drop 1 (appendTo4In6 ip [])"
    by (simp add: appendTo4In6_def appendTo4_def appendDecimal_itoa)
  then have "parseAddr_scan w (appendTo4In6 ip []) = parseIPv6 w" for w
    using scan_to_colon [of "[]" w "drop 1 (appendTo4In6 ip [])"] by simp
  ultimately show ?thesis using parse_appendTo4In6 [OF assms True] by (simp add: parseAddr_def)
next
  case False
  then have "addr_string ip = appendTo6 ip []" using assms by (simp add: addr_string_def)
  then show ?thesis
    using parse_appendTo6 [OF assms] appendTo6_colon [of ip] scan_to_colon
    by (metis parseAddr_def)
qed

lemma addr_v4_bytes:
  assumes "addr_ok ip" "afam ip = Z4"
  shows "ip = addrFrom4 [addr_v4 ip 0, addr_v4 ip 1, addr_v4 ip 2, addr_v4 ip 3]"
proof -
  have "put_be32 (ucast (lo (abits ip))) = [addr_v4 ip 0, addr_v4 ip 1, addr_v4 ip 2, addr_v4 ip 3]"
    by (auto simp: put_be32_def addr_v4_def bit_simps intro!: bit_word_eqI)
  then show ?thesis using addrFrom4_as4 [OF assms] by simp
qed

lemma parseAddr_string:
  assumes "addr_ok ip" "addr_isValid ip"
  shows "parseAddr (addr_string ip) = Ok ip"
proof (cases "afam ip")
  case Z0
  then show ?thesis using assms by (simp add: addr_isValid_def)
next
  case Z4
  then show ?thesis using addr_v4_bytes [OF assms(1) Z4] parseAddr_dotted string_addrFrom4 by metis
next
  case (Z6 z)
  then show ?thesis by (rule parseAddr_v6_text)
qed

lemma mustParseAddr_string:
  "addr_ok ip \<Longrightarrow> addr_isValid ip \<Longrightarrow> mustParseAddr (addr_string ip) = Ok ip"
  by (simp add: mustParseAddr_def parseAddr_string)

text \<open>The text form of an address is read back. For every valid address (IPv4, IPv6, IPv4-mapped
  IPv6, each with the zone it may have) \<open>ParseAddr\<close> applied to what \<open>String\<close> prints gives the address,
  whichever run of zero groups \<open>String\<close> shortened; an IPv4 address prints as its four octets.\<close>

theorem addr_text_roundtrip:
  assumes "addr_ok ip" "addr_isValid ip"
  shows "parseAddr (addr_string ip) = Ok ip \<and> mustParseAddr (addr_string ip) = Ok ip
    \<and> (addr_is4 ip \<longrightarrow> addr_string ip = dotted (addr_v4 ip 0) (addr_v4 ip 1) (addr_v4 ip 2) (addr_v4 ip 3))"
proof -
  have "addr_string ip = dotted (addr_v4 ip 0) (addr_v4 ip 1) (addr_v4 ip 2) (addr_v4 ip 3)" if "addr_is4 ip"
    using that addr_v4_bytes [OF assms(1)] string_addrFrom4 unfolding addr_is4_def by metis
  then show ?thesis using assms by (simp add: parseAddr_string mustParseAddr_string)
qed

theorem addr_text_roundtrip_witness:
  "parseAddr (addr_string (Addr (U128 0x20010db800000000 1) (Z6 ''eth0'')))
     = Ok (Addr (U128 0x20010db800000000 1) (Z6 ''eth0''))"
  using addr_text_roundtrip [of "Addr (U128 0x20010db800000000 1) (Z6 ''eth0'')"]
  by (simp add: addr_ok_def addr_isValid_def)

end
