(* ===== verification/Rules.thy ===== *)
theory Rules
  imports Meta NetipText
begin

text \<open>
  \<open>rules/*.go\<close>: the routing rules on connection metadata. \<open>idna.ToASCII\<close>, of another module, is the
  parameter \<open>to_ascii\<close> (its error is ignored by the code), and the Unicode case table of
  \<open>strings.ToLower\<close> is the parameter \<open>ulower\<close>, used on strings with non-ASCII bytes only.
\<close>

section \<open>Rules\<close>

definition RuleDomain :: string where "RuleDomain = ''DOMAIN''"
definition RuleDomainKeyword :: string where "RuleDomainKeyword = ''DOMAIN-KEYWORD''"
definition RuleDomainSuffix :: string where "RuleDomainSuffix = ''DOMAIN-SUFFIX''"
definition RuleIPCIDR :: string where "RuleIPCIDR = ''IPCIDR''"
definition RuleMatch :: string where "RuleMatch = ''MATCH''"
definition RuleDstPort :: string where "RuleDstPort = ''DST-PORT''"
definition RuleSrcPort :: string where "RuleSrcPort = ''SRC-PORT''"

lemmas rule_names = RuleDomain_def RuleDomainKeyword_def RuleDomainSuffix_def RuleIPCIDR_def RuleMatch_def
  RuleDstPort_def RuleSrcPort_def

definition errPayload :: gerr where "errPayload = Msg ''payloadRule error''"

record port_range =
  pr_start :: "16 word"
  pr_end :: "16 word"

text \<open>The implementations of the interface \<open>Rule\<close>, each with its adapter last.\<close>

datatype rule =
    DomainRule string string
  | KeywordRule string string
  | SuffixRule string string
  | IPCIDRRule prefix string
  | PortRule (rule_type: string) (port_list: "port_range list") (port_text: string) string
  | MatchRule string

section \<open>Constructors\<close>

definition lower_char :: "char \<Rightarrow> char" where
  "lower_char c = (if 65 \<le> (of_char c :: nat) \<and> (of_char c :: nat) \<le> 90 then char_of (of_char c + 32 :: nat) else c)"

definition toLower :: "(string \<Rightarrow> string) \<Rightarrow> string \<Rightarrow> string" where
  "toLower ulower s = (if list_all (\<lambda>c. (of_char c :: nat) < 128) s then map lower_char s else ulower s)"

definition newDomain :: "(string \<Rightarrow> string) \<Rightarrow> (string \<Rightarrow> string) \<Rightarrow> string \<Rightarrow> string \<Rightarrow> rule" where
  "newDomain to_ascii ulower domain adapter = DomainRule (to_ascii (toLower ulower domain)) adapter"

definition newDomainKeyword :: "(string \<Rightarrow> string) \<Rightarrow> (string \<Rightarrow> string) \<Rightarrow> string \<Rightarrow> string \<Rightarrow> rule" where
  "newDomainKeyword to_ascii ulower domain adapter = KeywordRule (to_ascii (toLower ulower domain)) adapter"

definition newDomainSuffix :: "(string \<Rightarrow> string) \<Rightarrow> (string \<Rightarrow> string) \<Rightarrow> string \<Rightarrow> string \<Rightarrow> rule" where
  "newDomainSuffix to_ascii ulower domain adapter = SuffixRule (to_ascii (toLower ulower domain)) adapter"

definition newMatch :: "string \<Rightarrow> rule" where
  "newMatch adapter = MatchRule adapter"

definition newIPCIDR :: "string \<Rightarrow> string \<Rightarrow> rule res" where
  "newIPCIDR s adapter = rbind (parsePrefix s) (\<lambda>ipnet. Ok (IPCIDRRule ipnet adapter))"

definition newRange :: "16 word \<Rightarrow> 16 word \<Rightarrow> port_range" where
  "newRange start stop = \<lparr>pr_start = start, pr_end = stop\<rparr>"

definition range_contains :: "port_range \<Rightarrow> 16 word \<Rightarrow> bool" where
  "range_contains r v \<longleftrightarrow> pr_start r \<le> v \<and> v \<le> pr_end r"

definition parse_port :: "string \<Rightarrow> 16 word res" where
  "parse_port s = (case parse_uint 16 (str_trim ''[ ]'' s) of
     (_, Some _) \<Rightarrow> Err errPayload
   | (n, None) \<Rightarrow> Ok (word_of_nat n))"

text \<open>The loop of \<open>NewPort\<close> over the parts of the payload.\<close>

fun parse_ports :: "string list \<Rightarrow> port_range list \<Rightarrow> port_range list res" where
  "parse_ports [] acc = Ok acc"
| "parse_ports (p # ps) acc =
     (if p = [] then parse_ports ps acc
      else let sub = split_on (CHR ''-'') p in
        if 2 < length sub then Err errPayload
        else rbind (parse_port (sub ! 0)) (\<lambda>start.
          if length sub = 1 then parse_ports ps (acc @ [newRange start start])
          else rbind (parse_port (sub ! 1)) (\<lambda>stop. parse_ports ps (acc @ [newRange start stop]))))"

definition newPort :: "string \<Rightarrow> string \<Rightarrow> string \<Rightarrow> rule res" where
  "newPort port adapter ruleType =
     (let ports = split_on (CHR ''/'') port in
      if 28 < length ports then Err (Msg ''too many ports to use, maximum support 28 ports'')
      else rbind (parse_ports ports []) (\<lambda>rs.
        if rs = [] then Err errPayload else Ok (PortRule ruleType rs port adapter)))"

definition parseRule ::
  "(string \<Rightarrow> string) \<Rightarrow> (string \<Rightarrow> string) \<Rightarrow> string \<Rightarrow> string \<Rightarrow> string \<Rightarrow> string list \<Rightarrow> rule res" where
  "parseRule to_ascii ulower tp payload target params =
     (if tp = RuleDomain then Ok (newDomain to_ascii ulower payload target)
      else if tp = RuleDomainKeyword then Ok (newDomainKeyword to_ascii ulower payload target)
      else if tp = RuleDomainSuffix then Ok (newDomainSuffix to_ascii ulower payload target)
      else if tp = RuleIPCIDR then newIPCIDR payload target
      else if tp = RuleSrcPort then newPort payload target RuleSrcPort
      else if tp = RuleDstPort then newPort payload target RuleDstPort
      else if tp = RuleMatch then Ok (newMatch target)
      else Err (Msg (''unsupported rule type '' @ tp)))"

section \<open>Methods\<close>

fun rule_name :: "rule \<Rightarrow> string" where
  "rule_name (DomainRule _ _) = RuleDomain"
| "rule_name (KeywordRule _ _) = RuleDomainKeyword"
| "rule_name (SuffixRule _ _) = RuleDomainSuffix"
| "rule_name (IPCIDRRule _ _) = RuleIPCIDR"
| "rule_name (PortRule t _ _ _) = t"
| "rule_name (MatchRule _) = RuleMatch"

fun rule_payload :: "rule \<Rightarrow> string" where
  "rule_payload (DomainRule d _) = d"
| "rule_payload (KeywordRule d _) = d"
| "rule_payload (SuffixRule d _) = d"
| "rule_payload (IPCIDRRule p _) = prefix_string p"
| "rule_payload (PortRule _ _ port _) = port"
| "rule_payload (MatchRule _) = []"

definition match_domain :: "string \<Rightarrow> metadata \<Rightarrow> bool" where
  "match_domain d m \<longleftrightarrow> d = mHost m"

definition match_keyword :: "string \<Rightarrow> metadata \<Rightarrow> bool" where
  "match_keyword keyword m \<longleftrightarrow> str_contains (mHost m) keyword"

definition match_suffix :: "string \<Rightarrow> metadata \<Rightarrow> bool" where
  "match_suffix sfx m \<longleftrightarrow> has_suffix (mHost m) (CHR ''.'' # sfx) \<or> mHost m = sfx"

definition match_final :: "metadata \<Rightarrow> bool" where
  "match_final m = True"

definition match_ipcidr :: "prefix \<Rightarrow> metadata \<Rightarrow> bool res" where
  "match_ipcidr p m = rbind (mustParseAddr (opt_ip_string (mDstIP m))) (\<lambda>a. Ok (prefix_contains p a))"

definition match_port :: "string \<Rightarrow> port_range list \<Rightarrow> metadata \<Rightarrow> bool" where
  "match_port t rs m =
     (let targetPort = (if t = RuleSrcPort then mSrcPort m else mDstPort m)
      in list_ex (\<lambda>r. range_contains r targetPort) rs)"

fun rule_match :: "rule \<Rightarrow> metadata \<Rightarrow> (bool \<times> string) res" where
  "rule_match (DomainRule d a) m = Ok (match_domain d m, a)"
| "rule_match (KeywordRule d a) m = Ok (match_keyword d m, a)"
| "rule_match (SuffixRule d a) m = Ok (match_suffix d m, a)"
| "rule_match (IPCIDRRule p a) m = rbind (match_ipcidr p m) (\<lambda>b. Ok (b, a))"
| "rule_match (PortRule t rs _ a) m = Ok (match_port t rs m, a)"
| "rule_match (MatchRule a) m = Ok (match_final m, a)"

section \<open>Domain rules\<close>

lemma has_prefix_iff: "has_prefix s p \<longleftrightarrow> (\<exists>t. s = p @ t)"
  unfolding has_prefix_def by (metis append_eq_conv_conj append_take_drop_id)

lemma has_suffix_iff: "has_suffix s p \<longleftrightarrow> (\<exists>t. s = t @ p)"
proof -
  have "rev s = rev p @ t \<longleftrightarrow> s = rev t @ p" for t by (metis rev_append rev_rev_ident)
  then show ?thesis unfolding has_suffix_def has_prefix_iff by (metis rev_rev_ident)
qed

lemma str_contains_iff: "str_contains s sub \<longleftrightarrow> (\<exists>a b. s = a @ sub @ b)"
proof (induction s)
  case (Cons x s)
  have "(\<exists>a b. x # s = a @ sub @ b) \<longleftrightarrow> has_prefix (x # s) sub \<or> (\<exists>a b. s = a @ sub @ b)"
    unfolding has_prefix_iff by (metis append_Cons append_Nil neq_Nil_conv list.inject)
  then show ?case using Cons by (simp add: str_contains_def)
qed (simp add: str_contains_def)

lemma split_on_sep: "split_on c (t @ c # s) = split_on c t @ split_on c s"
proof (induction t)
  case (Cons x t)
  then show ?case by (cases "split_on c t") auto
qed simp

text \<open>A domain suffix is a suffix of the list of labels.\<close>

lemma join_append: "xs \<noteq> [] \<Longrightarrow> ys \<noteq> [] \<Longrightarrow> join sep (xs @ ys) = join sep xs @ sep @ join sep ys"
proof (induction sep xs rule: join.induct)
  case (2 sep x)
  then show ?case by (cases ys) auto
qed auto

lemma labels_suffix:
  "has_suffix h (c # d) \<or> h = d \<longleftrightarrow> (\<exists>ls. split_on c h = ls @ split_on c d)"
proof
  assume "has_suffix h (c # d) \<or> h = d"
  then show "\<exists>ls. split_on c h = ls @ split_on c d"
    unfolding has_suffix_iff by (auto simp: split_on_sep)
next
  assume "\<exists>ls. split_on c h = ls @ split_on c d"
  then obtain ls where ls: "split_on c h = ls @ split_on c d" by blast
  have "h = (if ls = [] then d else join [c] ls @ c # d)"
    using join_split_on [of c h] join_split_on [of c d] join_append [of ls "split_on c d" "[c]"]
    unfolding ls by auto
  then show "has_suffix h (c # d) \<or> h = d" unfolding has_suffix_iff by (auto split: if_splits)
qed

text \<open>What the domain rules match. A rule made for a target name matches by the name's ASCII form
  \<open>d\<close> and always names its adapter: \<open>DOMAIN\<close> the hosts equal to \<open>d\<close>, \<open>DOMAIN-KEYWORD\<close> the hosts in which
  \<open>d\<close> occurs, \<open>DOMAIN-SUFFIX\<close> the hosts whose dot-separated labels end with the labels of \<open>d\<close> (so a suffix
  never matches inside a label), and \<open>MATCH\<close> every connection.\<close>

theorem domain_rules_match:
  assumes d: "d = to_ascii (toLower ulower payload)"
  shows "rbind (parseRule to_ascii ulower RuleDomain payload target ps) (\<lambda>r. rule_match r m)
      = Ok (mHost m = d, target)
    \<and> rbind (parseRule to_ascii ulower RuleDomainKeyword payload target ps) (\<lambda>r. rule_match r m)
      = Ok (\<exists>a b. mHost m = a @ d @ b, target)
    \<and> rbind (parseRule to_ascii ulower RuleDomainSuffix payload target ps) (\<lambda>r. rule_match r m)
      = Ok (\<exists>ls. split_on (CHR ''.'') (mHost m) = ls @ split_on (CHR ''.'') d, target)
    \<and> rbind (parseRule to_ascii ulower RuleMatch payload target ps) (\<lambda>r. rule_match r m) = Ok (True, target)"
  unfolding parseRule_def
  by (simp add: rule_names newDomain_def newDomainKeyword_def newDomainSuffix_def newMatch_def d
      match_domain_def match_keyword_def match_suffix_def match_final_def
      str_contains_iff labels_suffix) (rule eq_commute)

theorem domain_rules_match_witness:
  "rbind (parseRule id id RuleDomainSuffix ''Example.COM'' ''proxy'' [])
      (\<lambda>r. rule_match r (empty_metadata\<lparr>mHost := ''www.example.com''\<rparr>)) = Ok (True, ''proxy'')
   \<and> rbind (parseRule id id RuleDomainSuffix ''Example.COM'' ''proxy'' [])
      (\<lambda>r. rule_match r (empty_metadata\<lparr>mHost := ''badexample.com''\<rparr>)) = Ok (False, ''proxy'')"
proof -
  have d: "''example.com'' = id (toLower id ''Example.COM'')" by code_simp
  note m = domain_rules_match [where to_ascii = id and ulower = id and payload = "''Example.COM''"
      and d = "''example.com''" and target = "''proxy''" and ps = "[]", OF d, THEN conjunct2, THEN conjunct2, THEN conjunct1]
  have s: "split_on (CHR ''.'') ''example.com'' = [''example'', ''com'']"
    "split_on (CHR ''.'') ''www.example.com'' = [''www'', ''example'', ''com'']"
    "split_on (CHR ''.'') ''badexample.com'' = [''badexample'', ''com'']" by code_simp+
  have "\<exists>ls. [''www'', ''example'', ''com''] = ls @ [''example'', ''com'']" by (rule exI [of _ "[''www'']"]) simp
  then show ?thesis
    using m [of "empty_metadata\<lparr>mHost := ''www.example.com''\<rparr>"] m [of "empty_metadata\<lparr>mHost := ''badexample.com''\<rparr>"]
    by (simp add: s Cons_eq_append_conv)
qed

section \<open>CIDR rules\<close>

lemma itoa_no_slash: "CHR ''/'' \<notin> set (itoa n)"
  using itoa_chars [of "CHR ''/''" n] by (auto simp: is_digit_def)

lemma itoa_hd: "0 < n \<Longrightarrow> 49 \<le> (of_char (hd (itoa n)) :: nat) \<and> (of_char (hd (itoa n)) :: nat) \<le> 57"
proof (induction n rule: itoa.induct)
  case (1 n)
  show ?case
  proof (cases "n < 10")
    case True
    then show ?thesis using 1(2) by (simp add: itoa.simps [of n] of_char_digit)
  next
    case False
    then show ?thesis using 1 by (simp add: itoa.simps [of n])
  qed
qed

lemma prefixFrom_prefix_ok:
  assumes "prefix_ok p"
  shows "prefixFrom (pip p) (prefix_bits p) = p"
proof -
  obtain n where n: "prefix_bits p = int n" "n \<le> addr_bitLen (pip p)" by (rule prefix_ok_bits [OF assms])
  have "int (unat (bitsPlusOne p)) = int n + 1" using n(1) by (simp add: prefix_bits_def)
  then have u: "unat (bitsPlusOne p) = Suc n" by linarith
  have "bitsPlusOne p = word_of_nat (unat (bitsPlusOne p))" by simp
  then have "bitsPlusOne p = word_of_nat n + 1" unfolding u by (simp add: add.commute)
  moreover have "addr_withoutZone (pip p) = pip p"
    using assms by (cases "pip p") (auto simp: prefix_ok_def addr_hasZone_def addr_withoutZone_def addr_is6_def)
  moreover have "afam (pip p) \<noteq> Z0" using assms by (simp add: prefix_ok_def addr_isValid_def)
  ultimately show ?thesis using n by (cases p) (simp add: prefixFrom_def)
qed

lemma parse_prefix_string:
  assumes "prefix_ok p"
  shows "parsePrefix (prefix_string p) = Ok p"
proof -
  obtain n where n: "prefix_bits p = int n" "n \<le> addr_bitLen (pip p)" by (rule prefix_ok_bits [OF assms])
  have v: "prefix_isValid p" "addr_ok (pip p)" "addr_isValid (pip p)" "\<not> addr_hasZone (pip p)"
    using assms by (auto simp: prefix_ok_def)
  have b: "addr_bitLen (pip p) = (if addr_is6 (pip p) then 128 else 32)"
    using v(3) by (cases "afam (pip p)") (auto simp: addr_bitLen_def addr_is6_def addr_isValid_def)
  have "n < 2 ^ 63" using n(2) b by (simp split: if_splits)
  note a = atoi_itoa [OF this]
  have s: "prefix_string p = addr_string (pip p) @ CHR ''/'' # itoa n" using v(1) n(1) by (simp add: prefix_string_def)
  have d: "1 < length (itoa n) \<Longrightarrow> 49 \<le> (of_char (itoa n ! 0) :: nat) \<and> (of_char (itoa n ! 0) :: nat) \<le> 57"
    using itoa_hd [of n] by (cases "n = 0") (simp_all add: itoa.simps [of 0] hd_conv_nth)
  have z: "\<not> (addr_is6 (pip p) \<and> afam (pip p) \<noteq> Z6 [])"
    using v(4) by (auto simp: addr_hasZone_def addr_is6_def)
  show ?thesis
    unfolding s parsePrefix_def last_index_byte_append [OF itoa_no_slash]
    using parseAddr_string [OF v(2,3)] d z a n(2) prefixFrom_prefix_ok [OF assms] n(1) b
    by (auto simp: Let_def)
qed

text \<open>The address that an IP of the metadata stands for.\<close>

definition ip_addr :: "bytes \<Rightarrow> addr" where
  "ip_addr ip = (case ip_to4 ip of Some v \<Rightarrow> addrFrom4 v | None \<Rightarrow> addrFrom16 ip)"

lemma addr_ok_addrFrom4: "addr_ok (addrFrom4 v)"
proof -
  have "drop_bit 32 (0xffff00000000 OR push_bit 24 (ucast (v ! 0)) OR push_bit 16 (ucast (v ! 1))
      OR push_bit 8 (ucast (v ! 2)) OR ucast (v ! 3)) = (0xffff :: 64 word)"
  proof -
    have K: "(0xffff00000000 :: 64 word) = push_bit 32 0xffff" by simp
    have byte: "bit (w :: byte) i \<Longrightarrow> i < 8" for w i using bit_imp_le_length [of w i] by simp
    show ?thesis unfolding K by (rule bit_word_eqI) (auto simp: bit_simps dest: byte)
  qed
  then show ?thesis by (simp add: addr_ok_def addrFrom4_def)
qed

lemma ip_addr_text:
  assumes "length ip = 4 \<or> length ip = 16"
  shows "mustParseAddr (ip_string ip) = Ok (ip_addr ip)"
proof -
  have "ip_string ip = addr_string (ip_addr ip)"
    using assms by (auto simp: ip_string_def ip_addr_def ip_to4_def)
  moreover have "addr_ok (ip_addr ip)" "addr_isValid (ip_addr ip)"
    by (auto simp: ip_addr_def addr_ok_addrFrom4 addr_isValid_def split: option.split)
      (simp_all add: addr_ok_def addrFrom16_def)
  ultimately show ?thesis by (simp add: mustParseAddr_string)
qed

lemma ip_addr_ok: "addr_ok (ip_addr ip)" "addr_isValid (ip_addr ip)" "\<not> addr_hasZone (ip_addr ip)"
  by (simp_all add: ip_addr_def addr_ok_addrFrom4 addr_isValid_def addr_hasZone_def split: option.split)
    (simp_all add: addr_ok_def addrFrom16_def)

text \<open>An \<open>IPCIDR\<close> rule is CIDR membership. The text of every valid prefix is accepted by \<open>ParseRule\<close> and
  the rule then matches exactly the connections whose destination IP, of 4 or 16 bytes, is of the prefix's
  family and lies in its network (an IPv4-mapped IPv6 destination counts as IPv4); on a connection that
  has a host name and no destination IP \<open>Match\<close> panics.\<close>

theorem ipcidr_rule_match:
  assumes "prefix_ok p"
    and "mDstIP m = None \<or> (\<exists>ip. mDstIP m = Some ip \<and> (length ip = 4 \<or> length ip = 16))"
  shows "rbind (parseRule to_ascii ulower RuleIPCIDR (prefix_string p) target ps) (\<lambda>r. rule_match r m)
    = (case mDstIP m of None \<Rightarrow> Err (Panic ''MustParseAddr'')
       | Some ip \<Rightarrow> Ok (afam (ip_addr ip) = afam (pip p) \<and>
           net_of (nat (prefix_bits p)) (ip_addr ip) = net_of (nat (prefix_bits p)) (pip p), target))"
proof (cases "mDstIP m")
  case None
  have "mustParseAddr ''<nil>'' = Err (Panic ''MustParseAddr'')" by code_simp
  then show ?thesis
    using None parse_prefix_string [OF assms(1)]
    by (simp add: parseRule_def rule_names newIPCIDR_def match_ipcidr_def opt_ip_string_def)
next
  case (Some ip)
  then have "length ip = 4 \<or> length ip = 16" using assms(2) by auto
  then show ?thesis
    using Some parse_prefix_string [OF assms(1)] ip_addr_text [of ip] ip_addr_ok [of ip]
      prefix_contains_cidr [OF assms(1), of "ip_addr ip"]
    by (simp add: parseRule_def rule_names newIPCIDR_def match_ipcidr_def opt_ip_string_def)
qed

theorem ipcidr_rule_match_witness:
  "rbind (parseRule id id RuleIPCIDR (prefix_string (prefixFrom (addrFrom4 [10, 0, 0, 0]) 8)) ''proxy'' [])
      (\<lambda>r. rule_match r (empty_metadata\<lparr>mDstIP := Some (v4_prefix @ [10, 1, 2, 3])\<rparr>)) = Ok (True, ''proxy'')"
proof -
  let ?p = "prefixFrom (addrFrom4 [10, 0, 0, 0]) 8" and ?ip = "v4_prefix @ [10, 1, 2, 3]"
  have p: "prefix_ok ?p" by code_simp
  have i: "ip_addr ?ip = addrFrom4 [10, 1, 2, 3]" by (simp add: ip_addr_def ip_to4_mapped)
  have n: "afam (pip ?p) = Z4"
    "net_of (nat (prefix_bits ?p)) (addrFrom4 [10, 1, 2, 3]) = net_of (nat (prefix_bits ?p)) (pip ?p)"
    by (simp_all add: net_of_def addr_num_def addr_is4_def addrFrom4_def prefixFrom_def prefix_bits_def
        addr_withoutZone_def addr_is6_def addr_bitLen_def)
  show ?thesis
    using ipcidr_rule_match [OF p, of "empty_metadata\<lparr>mDstIP := Some ?ip\<rparr>" id id "''proxy''" "[]"]
    by (simp add: i n) (simp add: v4_prefix_def)
qed

section \<open>Port rules\<close>

definition range_text :: "port_range \<Rightarrow> string" where
  "range_text r = (if pr_start r = pr_end r then itoa (unat (pr_start r))
     else itoa (unat (pr_start r)) @ ''-'' @ itoa (unat (pr_end r)))"

definition ports_text :: "port_range list \<Rightarrow> string" where
  "ports_text rs = join ''/'' (map range_text rs)"

lemma itoa_no_dash: "CHR ''-'' \<notin> set (itoa n)"
  using itoa_chars [of "CHR ''-''" n] by (auto simp: is_digit_def)

lemma str_trim_idle: "set s \<inter> set cs = {} \<Longrightarrow> str_trim cs s = s"
proof -
  assume d: "set s \<inter> set cs = {}"
  have idle: "set t \<inter> set cs = {} \<Longrightarrow> dropWhile (\<lambda>x. x \<in> set cs) t = t" for t by (cases t) auto
  show ?thesis using d by (simp add: str_trim_def idle)
qed

lemma parse_port_itoa: "parse_port (itoa (unat w)) = Ok w"
proof -
  have "set (itoa (unat w)) \<inter> set ''[ ]'' = {}" using itoa_chars by (force simp: is_digit_def)
  moreover have "unat w < 2 ^ 16" using unsigned_less [of w, where ?'a = nat] by simp
  ultimately show ?thesis by (simp add: parse_port_def str_trim_idle)
qed

lemma parse_ports_text: "parse_ports (map range_text rs) acc = Ok (acc @ rs)"
proof (induction rs arbitrary: acc)
  case (Cons r rs)
  have one: "split_on (CHR ''-'') (itoa n) = [itoa n]" for n by (rule split_on_no_sep [OF itoa_no_dash])
  have two: "split_on (CHR ''-'') (itoa n @ CHR ''-'' # itoa k) = [itoa n, itoa k]" for n k
    using split_on_append [OF itoa_no_dash, of n "itoa k"] one by simp
  show ?case
    using Cons by (cases r) (simp add: range_text_def one two parse_port_itoa newRange_def Let_def)
qed simp

lemma split_ports_text:
  "rs \<noteq> [] \<Longrightarrow> split_on (CHR ''/'') (ports_text rs) = map range_text rs"
  unfolding ports_text_def
  by (rule split_on_join) (auto simp: range_text_def itoa_no_slash)

text \<open>A port rule matches the ports of its ranges. The text of one to 28 ports and port ranges is
  accepted by \<open>ParseRule\<close>, and the rule matches exactly when the source port (of a \<open>SRC-PORT\<close> rule) or the
  destination port (of a \<open>DST-PORT\<close> rule) lies in one of the ranges, bounds included; more than 28 parts and
  an empty payload are errors.\<close>

theorem port_rule_match:
  assumes "rs \<noteq> []" "t = RuleSrcPort \<or> t = RuleDstPort"
  shows "rbind (parseRule to_ascii ulower t (ports_text rs) target ps) (\<lambda>r. rule_match r m)
    = (if 28 < length rs then Err (Msg ''too many ports to use, maximum support 28 ports'')
       else Ok (list_ex (\<lambda>r. (if t = RuleSrcPort then mSrcPort m else mDstPort m) \<in> {pr_start r .. pr_end r}) rs,
                target))
   \<and> parseRule to_ascii ulower t [] target ps = Err errPayload"
  using assms
  by (auto simp: parseRule_def rule_names newPort_def split_ports_text parse_ports_text match_port_def
      range_contains_def Let_def)

theorem port_rule_match_witness:
  "rbind (parseRule id id RuleDstPort (ports_text [newRange 80 80, newRange 8000 9000]) ''proxy'' [])
      (\<lambda>r. rule_match r (empty_metadata\<lparr>mDstPort := 8443\<rparr>)) = Ok (True, ''proxy'')"
  using port_rule_match [of "[newRange 80 80, newRange 8000 9000]" RuleDstPort id id "''proxy''" "[]"
      "empty_metadata\<lparr>mDstPort := 8443\<rparr>"]
  by (simp add: newRange_def rule_names)

end
