(* ===== verification/Lru.thy ===== *)
theory Lru
  imports Prelude
begin

text \<open>
  \<open>transport/common/cache/lrucache.go\<close>. A cache is a map from keys to elements and a list of the elements,
  least recently used first. Entries are objects: \<open>CloneTo\<close> puts the entries of one cache in another one,
  and both then see what either does to an entry. So the entries are in a store, an element of a list is
  the index of its entry, and every operation takes the store and returns it. Times are Unix seconds, and
  \<open>now\<close> is the clock at the time of the operation.
\<close>

section \<open>State\<close>

record ('k, 'v) entry =
  e_key :: 'k
  e_value :: 'v
  e_expires :: int

record ('k, 'v) lru_cache =
  lc_maxAge :: int
  lc_maxSize :: int
  lc_cache :: "'k \<Rightarrow> nat option"
  lc_lru :: "nat list"
  lc_updateAgeOnGet :: bool
  lc_staleReturn :: bool
  lc_onEvict :: bool
  lc_evicted :: "('k \<times> 'v) list"

type_synonym ('k, 'v) lru = "('k, 'v) entry list \<times> ('k, 'v) lru_cache"

text \<open>The options, and \<open>New\<close>. The calls of the eviction callback are recorded in \<open>lc_evicted\<close>.\<close>

datatype option_fn = WithEvict | WithUpdateAgeOnGet | WithAge int | WithSize int | WithStale bool

fun apply_option :: "option_fn \<Rightarrow> ('k, 'v) lru_cache \<Rightarrow> ('k, 'v) lru_cache" where
  "apply_option WithEvict c = c\<lparr>lc_onEvict := True\<rparr>"
| "apply_option WithUpdateAgeOnGet c = c\<lparr>lc_updateAgeOnGet := True\<rparr>"
| "apply_option (WithAge a) c = c\<lparr>lc_maxAge := a\<rparr>"
| "apply_option (WithSize n) c = c\<lparr>lc_maxSize := n\<rparr>"
| "apply_option (WithStale b) c = c\<lparr>lc_staleReturn := b\<rparr>"

definition newLru :: "option_fn list \<Rightarrow> ('k, 'v) lru_cache" where
  "newLru options = fold apply_option options
     \<lparr>lc_maxAge = 0, lc_maxSize = 0, lc_cache = Map.empty, lc_lru = [], lc_updateAgeOnGet = False,
      lc_staleReturn = False, lc_onEvict = False, lc_evicted = []\<rparr>"

section \<open>Operations\<close>

definition deleteElement :: "nat \<Rightarrow> ('k, 'v) lru \<Rightarrow> ('k, 'v) lru" where
  "deleteElement r = (\<lambda>(st, c).
     let e = st ! r in
     (st, c\<lparr>lc_lru := remove1 r (lc_lru c), lc_cache := (lc_cache c)(e_key e := None),
            lc_evicted := (if lc_onEvict c then lc_evicted c @ [(e_key e, e_value e)] else lc_evicted c)\<rparr>))"

text \<open>The loop of \<open>maybeDeleteOldest\<close> over the list from its front: each round deletes the front, so it
  meets the elements that the list had at the start.\<close>

fun delete_oldest :: "int \<Rightarrow> nat list \<Rightarrow> ('k, 'v) lru \<Rightarrow> ('k, 'v) lru" where
  "delete_oldest now [] w = w"
| "delete_oldest now (r # rs) w =
     (if e_expires (fst w ! r) \<le> now then delete_oldest now rs (deleteElement r w) else w)"

definition maybeDeleteOldest :: "int \<Rightarrow> ('k, 'v) lru \<Rightarrow> ('k, 'v) lru" where
  "maybeDeleteOldest now w =
     (if \<not> lc_staleReturn (snd w) \<and> 0 < lc_maxAge (snd w) then delete_oldest now (lc_lru (snd w)) w else w)"

definition moveToBack :: "nat \<Rightarrow> ('k, 'v) lru \<Rightarrow> ('k, 'v) lru" where
  "moveToBack r = (\<lambda>(st, c). (st, c\<lparr>lc_lru := remove1 r (lc_lru c) @ [r]\<rparr>))"

definition lru_get :: "int \<Rightarrow> 'k \<Rightarrow> ('k, 'v) lru \<Rightarrow> ('k, 'v) entry option \<times> ('k, 'v) lru" where
  "lru_get now key w =
     (case lc_cache (snd w) key of
        None \<Rightarrow> (None, w)
      | Some r \<Rightarrow>
          if \<not> lc_staleReturn (snd w) \<and> 0 < lc_maxAge (snd w) \<and> e_expires (fst w ! r) \<le> now
          then (None, maybeDeleteOldest now (deleteElement r w))
          else (case moveToBack r w of (st, c) \<Rightarrow>
            let st' = (if 0 < lc_maxAge c \<and> lc_updateAgeOnGet c
                       then st[r := (st ! r)\<lparr>e_expires := now + lc_maxAge c\<rparr>] else st)
            in (Some (st' ! r), (st', c))))"

definition cache_Get :: "int \<Rightarrow> 'k \<Rightarrow> ('k, 'v) lru \<Rightarrow> 'v option \<times> ('k, 'v) lru" where
  "cache_Get now key w = (case lru_get now key w of (e, w') \<Rightarrow> (map_option e_value e, w'))"

definition getWithExpire :: "int \<Rightarrow> 'k \<Rightarrow> ('k, 'v) lru \<Rightarrow> ('v \<times> int) option \<times> ('k, 'v) lru" where
  "getWithExpire now key w =
     (case lru_get now key w of (e, w') \<Rightarrow> (map_option (\<lambda>e. (e_value e, e_expires e)) e, w'))"

definition cache_Exist :: "'k \<Rightarrow> ('k, 'v) lru \<Rightarrow> bool" where
  "cache_Exist key w \<longleftrightarrow> lc_cache (snd w) key \<noteq> None"

definition setWithExpire :: "int \<Rightarrow> 'k \<Rightarrow> 'v \<Rightarrow> int \<Rightarrow> ('k, 'v) lru \<Rightarrow> ('k, 'v) lru" where
  "setWithExpire now key val expires w =
     maybeDeleteOldest now
       (case lc_cache (snd w) key of
          Some r \<Rightarrow>
            (case moveToBack r w of (st, c) \<Rightarrow>
               (st[r := (st ! r)\<lparr>e_value := val, e_expires := expires\<rparr>], c))
        | None \<Rightarrow>
            (let r = length (fst w);
                 st = fst w @ [\<lparr>e_key = key, e_value = val, e_expires = expires\<rparr>];
                 c = (snd w)\<lparr>lc_cache := (lc_cache (snd w))(key \<mapsto> r), lc_lru := lc_lru (snd w) @ [r]\<rparr>
             in if 0 < lc_maxSize c \<and> lc_maxSize c < int (length (lc_lru c))
                then deleteElement (hd (lc_lru c)) (st, c) else (st, c)))"

definition cache_Set :: "int \<Rightarrow> 'k \<Rightarrow> 'v \<Rightarrow> ('k, 'v) lru \<Rightarrow> ('k, 'v) lru" where
  "cache_Set now key val w =
     setWithExpire now key val (if 0 < lc_maxAge (snd w) then now + lc_maxAge (snd w) else 0) w"

definition cache_Delete :: "'k \<Rightarrow> ('k, 'v) lru \<Rightarrow> ('k, 'v) lru" where
  "cache_Delete key w = (case lc_cache (snd w) key of Some r \<Rightarrow> deleteElement r w | None \<Rightarrow> w)"

text \<open>\<open>c.CloneTo(n)\<close>: the entries of \<open>c\<close>, in their order, become those of \<open>n\<close>.\<close>

definition cloneTo :: "('k, 'v) entry list \<Rightarrow> ('k, 'v) lru_cache \<Rightarrow> ('k, 'v) lru_cache \<Rightarrow> ('k, 'v) lru_cache" where
  "cloneTo st c n =
     n\<lparr>lc_lru := lc_lru c, lc_cache := map_of (rev (map (\<lambda>r. (e_key (st ! r), r)) (lc_lru c)))\<rparr>"

section \<open>The abstract cache\<close>

text \<open>Keys with their value and expiry, least recently used first; \<open>ages\<close> says whether entries expire.\<close>

type_synonym ('k, 'v) slots = "('k \<times> 'v \<times> int) list"

definition without :: "'k \<Rightarrow> ('k, 'v) slots \<Rightarrow> ('k, 'v) slots" where
  "without k xs = filter (\<lambda>(k', _). k' \<noteq> k) xs"

definition expire :: "bool \<Rightarrow> int \<Rightarrow> ('k, 'v) slots \<Rightarrow> ('k, 'v) slots" where
  "expire ages now xs = (if ages then dropWhile (\<lambda>(_, _, e). e \<le> now) xs else xs)"

definition shrink_to :: "int \<Rightarrow> ('k, 'v) slots \<Rightarrow> ('k, 'v) slots" where
  "shrink_to mx xs = (if 0 < mx \<and> mx < int (length xs) then tl xs else xs)"

definition slots_put :: "bool \<Rightarrow> int \<Rightarrow> int \<Rightarrow> 'k \<Rightarrow> 'v \<Rightarrow> int \<Rightarrow> ('k, 'v) slots \<Rightarrow> ('k, 'v) slots" where
  "slots_put ages mx now k v e xs =
     expire ages now
       (if k \<in> fst ` set xs then without k xs @ [(k, v, e)] else shrink_to mx (xs @ [(k, v, e)]))"

definition slots_get ::
  "bool \<Rightarrow> (int \<Rightarrow> int) \<Rightarrow> int \<Rightarrow> 'k \<Rightarrow> ('k, 'v) slots \<Rightarrow> ('v \<times> int) option \<times> ('k, 'v) slots" where
  "slots_get ages renew now k xs =
     (case map_of xs k of
        None \<Rightarrow> (None, xs)
      | Some (v, e) \<Rightarrow>
          if ages \<and> e \<le> now then (None, expire ages now (without k xs))
          else (Some (v, renew e), without k xs @ [(k, v, renew e)]))"

section \<open>Invariant and abstraction\<close>

definition lru_abs :: "('k, 'v) lru \<Rightarrow> ('k, 'v) slots" where
  "lru_abs w = map (\<lambda>r. (e_key (fst w ! r), e_value (fst w ! r), e_expires (fst w ! r))) (lc_lru (snd w))"

definition lru_ok :: "('k, 'v) lru \<Rightarrow> bool" where
  "lru_ok w \<longleftrightarrow> distinct (map (\<lambda>r. e_key (fst w ! r)) (lc_lru (snd w)))
     \<and> (\<forall>r \<in> set (lc_lru (snd w)). r < length (fst w))
     \<and> (\<forall>k r. lc_cache (snd w) k = Some r \<longleftrightarrow> r \<in> set (lc_lru (snd w)) \<and> e_key (fst w ! r) = k)"

definition lc_ages :: "('k, 'v) lru_cache \<Rightarrow> bool" where
  "lc_ages c \<longleftrightarrow> \<not> lc_staleReturn c \<and> 0 < lc_maxAge c"

definition lc_renew :: "int \<Rightarrow> ('k, 'v) lru_cache \<Rightarrow> int \<Rightarrow> int" where
  "lc_renew now c e = (if 0 < lc_maxAge c \<and> lc_updateAgeOnGet c then now + lc_maxAge c else e)"

text \<open>The configuration, which no operation changes.\<close>

definition lc_config :: "('k, 'v) lru_cache \<Rightarrow> int \<times> int \<times> bool \<times> bool \<times> bool" where
  "lc_config c = (lc_maxAge c, lc_maxSize c, lc_updateAgeOnGet c, lc_staleReturn c, lc_onEvict c)"

end
