(* ===== verification/LruFacts.thy ===== *)
theory LruFacts
  imports Lru
begin

text \<open>
  The cache is the abstract list of \<open>Lru\<close>: every operation keeps the map and the list together
  (\<open>lru_ok\<close>) and does on the entries what the abstract operation does. The bounds and the order of
  eviction then follow from the abstract cache.
\<close>

named_theorems lru_defs "the operations of the cache"
declare deleteElement_def [lru_defs] moveToBack_def [lru_defs] lru_abs_def [lru_defs] lc_config_def [lru_defs]

lemma lru_keys: "map (\<lambda>r. e_key (fst w ! r)) (lc_lru (snd w)) = map fst (lru_abs w)"
  by (simp add: lru_abs_def)

lemma lru_ok_distinct: "lru_ok w \<Longrightarrow> distinct (map fst (lru_abs w))"
  by (simp add: lru_ok_def lru_keys [symmetric])

lemma lru_ok_refs: "lru_ok w \<Longrightarrow> distinct (lc_lru (snd w))"
  by (simp add: lru_ok_def distinct_map)

lemma lru_ok_key: "lru_ok w \<Longrightarrow> r \<in> set (lc_lru (snd w)) \<Longrightarrow> s \<in> set (lc_lru (snd w))
    \<Longrightarrow> e_key (fst w ! r) = e_key (fst w ! s) \<longleftrightarrow> r = s"
  by (auto simp: lru_ok_def distinct_map dest: inj_onD)

lemma without_filter: "lru_ok w \<Longrightarrow> r \<in> set (lc_lru (snd w)) \<Longrightarrow>
    map (\<lambda>s. (e_key (fst w ! s), e_value (fst w ! s), e_expires (fst w ! s))) (remove1 r (lc_lru (snd w)))
    = without (e_key (fst w ! r)) (lru_abs w)"
  using lru_ok_key [of w] lru_ok_refs [of w]
  by (auto simp: lru_abs_def without_def distinct_remove1_removeAll removeAll_filter_not_eq filter_map o_def
      intro!: arg_cong [of _ _ "map _"] filter_cong)

lemma map_of_abs:
  assumes "lru_ok w"
  shows "map_of (lru_abs w) k
    = map_option (\<lambda>r. (e_value (fst w ! r), e_expires (fst w ! r))) (lc_cache (snd w) k)"
proof (cases "lc_cache (snd w) k")
  case None
  then have "\<forall>r \<in> set (lc_lru (snd w)). e_key (fst w ! r) \<noteq> k"
    using assms by (metis lru_ok_def option.distinct(1))
  then show ?thesis using None by (auto simp: map_of_eq_None_iff lru_abs_def)
next
  case (Some r)
  then have r: "r \<in> set (lc_lru (snd w))" "e_key (fst w ! r) = k" using assms by (auto simp: lru_ok_def)
  then have "(k, e_value (fst w ! r), e_expires (fst w ! r)) \<in> set (lru_abs w)" by (auto simp: lru_abs_def)
  then show ?thesis using Some map_of_is_SomeI [OF lru_ok_distinct [OF assms]] by simp
qed

lemma cache_mem: "lru_ok w \<Longrightarrow> lc_cache (snd w) k = Some r \<Longrightarrow>
    r \<in> set (lc_lru (snd w)) \<and> e_key (fst w ! r) = k \<and> r < length (fst w)"
  by (auto simp: lru_ok_def)

section \<open>Operations on elements\<close>

lemma deleteElement_ok:
  assumes "lru_ok w" "r \<in> set (lc_lru (snd w))"
  shows "lru_ok (deleteElement r w)" "lru_abs (deleteElement r w) = without (e_key (fst w ! r)) (lru_abs w)"
    "lc_config (snd (deleteElement r w)) = lc_config (snd w)" "fst (deleteElement r w) = fst w"
    "lc_lru (snd (deleteElement r w)) = remove1 r (lc_lru (snd w))"
proof -
  obtain st c where w: "w = (st, c)" by (cases w)
  show "lru_abs (deleteElement r w) = without (e_key (fst w ! r)) (lru_abs w)"
    using without_filter [OF assms] by (simp add: deleteElement_def Let_def w lru_abs_def)
  show "lc_config (snd (deleteElement r w)) = lc_config (snd w)" "fst (deleteElement r w) = fst w"
    "lc_lru (snd (deleteElement r w)) = remove1 r (lc_lru (snd w))"
    by (simp_all add: deleteElement_def Let_def w lc_config_def)
  have d: "distinct (lc_lru c)" using lru_ok_refs [OF assms(1)] w by simp
  have s: "set (remove1 r (lc_lru c)) = set (lc_lru c) - {r}" using d by simp
  have "distinct (map (\<lambda>r. e_key (st ! r)) (remove1 r (lc_lru c)))"
    using assms(1) w by (auto simp: lru_ok_def distinct_map s intro: inj_on_subset)
  then show "lru_ok (deleteElement r w)"
    using assms lru_ok_key [OF assms(1)] w
    by (auto simp: lru_ok_def deleteElement_def Let_def s)
qed

lemma moveToBack_ok:
  assumes "lru_ok w" "r \<in> set (lc_lru (snd w))"
  shows "lru_ok (moveToBack r w)" "lc_config (snd (moveToBack r w)) = lc_config (snd w)"
    "fst (moveToBack r w) = fst w" "lc_lru (snd (moveToBack r w)) = remove1 r (lc_lru (snd w)) @ [r]"
    "lc_cache (snd (moveToBack r w)) = lc_cache (snd w)"
proof -
  obtain st c where w: "w = (st, c)" by (cases w)
  show "lc_config (snd (moveToBack r w)) = lc_config (snd w)" "fst (moveToBack r w) = fst w"
    "lc_lru (snd (moveToBack r w)) = remove1 r (lc_lru (snd w)) @ [r]"
    "lc_cache (snd (moveToBack r w)) = lc_cache (snd w)"
    by (simp_all add: moveToBack_def w lc_config_def)
  have d: "distinct (lc_lru c)" using lru_ok_refs [OF assms(1)] w by simp
  have s: "set (remove1 r (lc_lru c)) = set (lc_lru c) - {r}" using d by simp
  have "distinct (map (\<lambda>r. e_key (st ! r)) (remove1 r (lc_lru c)))"
    using assms(1) w by (auto simp: lru_ok_def distinct_map s intro: inj_on_subset)
  then show "lru_ok (moveToBack r w)"
    using assms lru_ok_key [OF assms(1)] w
    by (auto simp: lru_ok_def moveToBack_def s)
qed

text \<open>Changing the value and the expiry of an entry, wherever it is.\<close>

lemma update_entry_ok:
  assumes "lru_ok (st, c)" "e_key e = e_key (st ! r)"
  shows "lru_ok (st[r := e], c)"
proof -
  have k: "e_key (st[r := e] ! s) = e_key (st ! s)" for s
    using assms(2) by (cases "r < length st"; cases "s = r") (auto simp: list_update_beyond)
  show ?thesis using assms(1) by (simp add: lru_ok_def k)
qed

lemma delete_oldest_ok:
  assumes "lru_ok w" "lc_lru (snd w) = rs"
  shows "lru_ok (delete_oldest now rs w)
    \<and> lru_abs (delete_oldest now rs w) = dropWhile (\<lambda>(_, _, e). e \<le> now) (lru_abs w)
    \<and> lc_config (snd (delete_oldest now rs w)) = lc_config (snd w)"
  using assms
proof (induction rs arbitrary: w)
  case Nil
  then show ?case by (simp add: lru_abs_def)
next
  case (Cons r rs)
  have r: "r \<in> set (lc_lru (snd w))" using Cons.prems(2) by simp
  note d = deleteElement_ok [OF Cons.prems(1) r]
  have l: "lc_lru (snd (deleteElement r w)) = rs" using d(5) Cons.prems(2) by simp
  have "lru_abs (deleteElement r w) = tl (lru_abs w)"
    using l d(4) Cons.prems(2) by (simp add: lru_abs_def)
  moreover have "lru_abs w = (e_key (fst w ! r), e_value (fst w ! r), e_expires (fst w ! r)) # tl (lru_abs w)"
    using Cons.prems(2) by (simp add: lru_abs_def)
  ultimately show ?case
    using Cons.prems(1) Cons.IH [OF d(1) l] d(3) by (metis (mono_tags, lifting) delete_oldest.simps(2) dropWhile.simps(2) old.prod.case)
qed

lemma maybeDeleteOldest_ok:
  assumes "lru_ok w"
  shows "lru_ok (maybeDeleteOldest now w)"
    "lru_abs (maybeDeleteOldest now w) = expire (lc_ages (snd w)) now (lru_abs w)"
    "lc_config (snd (maybeDeleteOldest now w)) = lc_config (snd w)"
  using delete_oldest_ok [OF assms refl, of now] assms
  by (auto simp: maybeDeleteOldest_def expire_def lc_ages_def)

lemma config_ages: "lc_config c = lc_config d \<Longrightarrow> lc_ages c = lc_ages d \<and> lc_maxAge c = lc_maxAge d
    \<and> lc_maxSize c = lc_maxSize d \<and> lc_renew now c = lc_renew now d"
  by (auto simp: lc_config_def lc_ages_def lc_renew_def)

section \<open>Refinement\<close>

lemma lru_get_ok:
  assumes "lru_ok w"
  shows "lru_ok (snd (lru_get now k w))"
    "lc_config (snd (snd (lru_get now k w))) = lc_config (snd w)"
    "(map_option (\<lambda>e. (e_value e, e_expires e)) (fst (lru_get now k w)), lru_abs (snd (lru_get now k w)))
      = slots_get (lc_ages (snd w)) (lc_renew now (snd w)) now k (lru_abs w)"
proof -
  obtain st c where w: "w = (st, c)" by (cases w)
  have "lru_ok (snd (lru_get now k w)) \<and> lc_config (snd (snd (lru_get now k w))) = lc_config (snd w)
    \<and> (map_option (\<lambda>e. (e_value e, e_expires e)) (fst (lru_get now k w)), lru_abs (snd (lru_get now k w)))
      = slots_get (lc_ages (snd w)) (lc_renew now (snd w)) now k (lru_abs w)"
  proof (cases "lc_cache (snd w) k")
    case None
    then show ?thesis using map_of_abs [OF assms, of k] assms by (simp add: lru_get_def slots_get_def)
  next
    case (Some r)
    have r: "r \<in> set (lc_lru (snd w))" "e_key (fst w ! r) = k" "r < length (fst w)"
      using cache_mem [OF assms Some] by auto
    have m: "map_of (lru_abs w) k = Some (e_value (fst w ! r), e_expires (fst w ! r))"
      using map_of_abs [OF assms, of k] Some by simp
    show ?thesis
    proof (cases "lc_ages (snd w) \<and> e_expires (fst w ! r) \<le> now")
      case True
      note d = deleteElement_ok [OF assms r(1)]
      have "lru_get now k w = (None, maybeDeleteOldest now (deleteElement r w))"
        using True Some by (simp add: lru_get_def lc_ages_def)
      then show ?thesis
        using maybeDeleteOldest_ok [OF d(1), of now] d m True config_ages [OF d(3)] r(2)
        by (simp add: slots_get_def)
    next
      case False
      note mv = moveToBack_ok [OF assms r(1)]
      define e where "e = (st ! r)\<lparr>e_expires := lc_renew now c (e_expires (st ! r))\<rparr>"
      obtain d where d: "moveToBack r w = (st, d)" using mv(3) w by (cases "moveToBack r w") auto
      have cf: "lc_maxAge d = lc_maxAge c" "lc_updateAgeOnGet d = lc_updateAgeOnGet c"
        using mv(2) d w by (auto simp: lc_config_def)
      have e: "(if 0 < lc_maxAge d \<and> lc_updateAgeOnGet d
          then st[r := (st ! r)\<lparr>e_expires := now + lc_maxAge d\<rparr>] else st) = st[r := e]"
        using r(3) w by (simp add: e_def lc_renew_def cf)
      have g: "lru_get now k w = (Some e, (st[r := e], d))"
        using False Some d r(3) w by (simp add: lru_get_def lc_ages_def Let_def e)
      have ok: "lru_ok (st[r := e], d)" using mv(1) d by (auto simp: e_def intro: update_entry_ok)
      have "lru_abs (st[r := e], d) = without k (lru_abs w) @ [(k, e_value e, e_expires e)]"
      proof -
        have nr: "r \<notin> set (remove1 r (lc_lru c))" using lru_ok_refs [OF assms] w by simp
        have "lc_lru d = remove1 r (lc_lru c) @ [r]" using mv(4) d w by simp
        then have "lru_abs (st[r := e], d)
            = map (\<lambda>s. (e_key (st ! s), e_value (st ! s), e_expires (st ! s))) (remove1 r (lc_lru c))
              @ [(k, e_value e, e_expires e)]"
          using nr r w by (auto simp: lru_abs_def nth_list_update e_def)
        then show ?thesis using without_filter [OF assms r(1)] r(2) w by simp
      qed
      then show ?thesis using g ok m False mv(2) d w by (simp add: slots_get_def e_def)
    qed
  qed
  then show "lru_ok (snd (lru_get now k w))"
    "lc_config (snd (snd (lru_get now k w))) = lc_config (snd w)"
    "(map_option (\<lambda>e. (e_value e, e_expires e)) (fst (lru_get now k w)), lru_abs (snd (lru_get now k w)))
      = slots_get (lc_ages (snd w)) (lc_renew now (snd w)) now k (lru_abs w)"
    by blast+
qed

lemma in_keys: "k \<in> fst ` set xs \<longleftrightarrow> map_of xs k \<noteq> None"
  by (simp add: map_of_eq_None_iff)

lemma set_ok:
  assumes "lru_ok w"
  shows "lru_ok (setWithExpire now k v e w)"
    "lc_config (snd (setWithExpire now k v e w)) = lc_config (snd w)"
    "lru_abs (setWithExpire now k v e w)
      = slots_put (lc_ages (snd w)) (lc_maxSize (snd w)) now k v e (lru_abs w)"
proof -
  obtain st c where w: "w = (st, c)" by (cases w)
  define x where "x = (case lc_cache (snd w) k of
          Some r \<Rightarrow>
            (case moveToBack r w of (st, c) \<Rightarrow>
               (st[r := (st ! r)\<lparr>e_value := v, e_expires := e\<rparr>], c))
        | None \<Rightarrow>
            (let r = length (fst w);
                 st = fst w @ [\<lparr>e_key = k, e_value = v, e_expires = e\<rparr>];
                 c = (snd w)\<lparr>lc_cache := (lc_cache (snd w))(k \<mapsto> r), lc_lru := lc_lru (snd w) @ [r]\<rparr>
             in if 0 < lc_maxSize c \<and> lc_maxSize c < int (length (lc_lru c))
                then deleteElement (hd (lc_lru c)) (st, c) else (st, c)))"
  have sx: "setWithExpire now k v e w = maybeDeleteOldest now x" by (simp add: setWithExpire_def x_def)
  have "lru_ok x \<and> lc_config (snd x) = lc_config (snd w)
    \<and> lru_abs x = (if k \<in> fst ` set (lru_abs w) then without k (lru_abs w) @ [(k, v, e)]
        else shrink_to (lc_maxSize (snd w)) (lru_abs w @ [(k, v, e)]))"
  proof (cases "lc_cache (snd w) k")
    case (Some r)
    have r: "r \<in> set (lc_lru (snd w))" "e_key (fst w ! r) = k" "r < length (fst w)"
      using cache_mem [OF assms Some] by auto
    have k: "k \<in> fst ` set (lru_abs w)" using Some map_of_abs [OF assms, of k] by (simp add: in_keys)
    note mv = moveToBack_ok [OF assms r(1)]
    obtain d where d: "moveToBack r w = (st, d)" using mv(3) w by (cases "moveToBack r w") auto
    define en where "en = (st ! r)\<lparr>e_value := v, e_expires := e\<rparr>"
    have x: "x = (st[r := en], d)" using Some d by (simp add: x_def en_def)
    have nr: "r \<notin> set (remove1 r (lc_lru c))" using lru_ok_refs [OF assms] w by simp
    have "lc_lru d = remove1 r (lc_lru c) @ [r]" using mv(4) d w by simp
    then have "lru_abs x
        = map (\<lambda>s. (e_key (st ! s), e_value (st ! s), e_expires (st ! s))) (remove1 r (lc_lru c)) @ [(k, v, e)]"
      using nr r w by (auto simp: lru_abs_def nth_list_update x en_def)
    then have "lru_abs x = without k (lru_abs w) @ [(k, v, e)]"
      using without_filter [OF assms r(1)] r(2) w by simp
    moreover have "lru_ok x" using mv(1) d unfolding x by (auto simp: en_def intro: update_entry_ok)
    ultimately show ?thesis using k mv(2) d x by simp
  next
    case None
    define en where "en = \<lparr>e_key = k, e_value = v, e_expires = e\<rparr>"
    define c1 where "c1 = c\<lparr>lc_cache := (lc_cache c)(k \<mapsto> length st), lc_lru := lc_lru c @ [length st]\<rparr>"
    define w1 where "w1 = (st @ [en], c1)"
    have k: "k \<notin> fst ` set (lru_abs w)" using None map_of_abs [OF assms, of k] by (simp add: in_keys)
    have lt: "\<And>r. r \<in> set (lc_lru c) \<Longrightarrow> r < length st" using assms w by (auto simp: lru_ok_def)
    have a: "lru_abs w1 = lru_abs w @ [(k, v, e)]"
      using lt w by (auto simp: lru_abs_def w1_def c1_def en_def nth_append)
    have ok: "lru_ok w1"
    proof -
      have "distinct (map fst (lru_abs w1))" using a k lru_ok_distinct [OF assms] by auto
      moreover have "lc_cache c1 k' = Some r \<longleftrightarrow> r \<in> set (lc_lru c1) \<and> e_key ((st @ [en]) ! r) = k'" for k' r
      proof (cases "r = length st")
        case True
        then show ?thesis using assms w lt by (auto simp: lru_ok_def c1_def en_def)
      next
        case False
        have "e_key (st ! r) \<noteq> k" if "r \<in> set (lc_lru c)"
          using assms w None that by (metis lru_ok_def option.distinct(1) fst_conv snd_conv)
        then show ?thesis using False assms w lt by (auto simp: lru_ok_def c1_def nth_append)
      qed
      ultimately show ?thesis
        using lt unfolding lru_ok_def lru_keys by (auto simp: w1_def c1_def less_Suc_eq)
    qed
    have cf: "lc_config (snd w1) = lc_config (snd w)" by (simp add: w1_def c1_def w lc_config_def)
    have x: "x = (if 0 < lc_maxSize c \<and> lc_maxSize c < int (length (lc_lru c1))
        then deleteElement (hd (lc_lru c1)) w1 else w1)"
      using None w by (simp add: x_def w1_def c1_def en_def Let_def)
    have ne: "lc_lru (snd w1) = hd (lc_lru c1) # tl (lc_lru c1)" by (simp add: w1_def c1_def)
    have h: "hd (lc_lru c1) \<in> set (lc_lru (snd w1))" using ne by (metis list.set_intros(1))
    note d = deleteElement_ok [OF ok h]
    have "lc_lru (snd (deleteElement (hd (lc_lru c1)) w1)) = tl (lc_lru c1)" using d(5) ne by simp
    then have "lru_abs (deleteElement (hd (lc_lru c1)) w1) = tl (lru_abs w1)"
      using d(4) ne by (simp add: lru_abs_def map_tl [symmetric] w1_def)
    moreover have "length (lc_lru c1) = length (lru_abs w1)" by (simp add: lru_abs_def w1_def)
    ultimately show ?thesis using x ok cf d k a w by (simp add: shrink_to_def)
  qed
  then have x: "lru_ok x" "lc_config (snd x) = lc_config (snd w)"
    "lru_abs x = (if k \<in> fst ` set (lru_abs w) then without k (lru_abs w) @ [(k, v, e)]
        else shrink_to (lc_maxSize (snd w)) (lru_abs w @ [(k, v, e)]))" by blast+
  show "lru_ok (setWithExpire now k v e w)"
    "lc_config (snd (setWithExpire now k v e w)) = lc_config (snd w)"
    "lru_abs (setWithExpire now k v e w)
      = slots_put (lc_ages (snd w)) (lc_maxSize (snd w)) now k v e (lru_abs w)"
    using maybeDeleteOldest_ok [OF x(1), of now] x config_ages [OF x(2)] unfolding sx slots_put_def by simp_all
qed

end
