(* ===== verification/LruRuns.thy ===== *)
theory LruRuns
  imports LruFacts
begin

text \<open>
  Runs of the cache: refinement of the abstract cache over every sequence of operations, the size bound
  and expiry, the guarantee of the eviction order, and the sharing of entries by \<open>CloneTo\<close>.
\<close>

section \<open>Runs\<close>

datatype ('k, 'v) cache_op =
    CGet int 'k
  | CGetExpire int 'k
  | CSet int 'k 'v
  | CSetExpire int 'k 'v int
  | CDelete 'k
  | CExist 'k

datatype 'v answer = Value "'v option" | ValueExpire "('v \<times> int) option" | Present bool | Done

fun lru_step :: "('k, 'v) cache_op \<Rightarrow> ('k, 'v) lru \<Rightarrow> 'v answer \<times> ('k, 'v) lru" where
  "lru_step (CGet now k) w = map_prod Value id (cache_Get now k w)"
| "lru_step (CGetExpire now k) w = map_prod ValueExpire id (getWithExpire now k w)"
| "lru_step (CSet now k v) w = (Done, cache_Set now k v w)"
| "lru_step (CSetExpire now k v e) w = (Done, setWithExpire now k v e w)"
| "lru_step (CDelete k) w = (Done, cache_Delete k w)"
| "lru_step (CExist k) w = (Present (cache_Exist k w), w)"

fun lru_run :: "('k, 'v) cache_op list \<Rightarrow> ('k, 'v) lru \<Rightarrow> 'v answer list \<times> ('k, 'v) lru" where
  "lru_run [] w = ([], w)"
| "lru_run (x # xs) w = (case lru_step x w of (a, w') \<Rightarrow> map_prod ((#) a) id (lru_run xs w'))"

text \<open>The abstract cache of a configuration: what it answers and what it then holds.\<close>

fun slots_step :: "('k, 'v) lru_cache \<Rightarrow> ('k, 'v) cache_op \<Rightarrow> ('k, 'v) slots \<Rightarrow> 'v answer \<times> ('k, 'v) slots" where
  "slots_step c (CGet now k) s =
     map_prod (\<lambda>r. Value (map_option fst r)) id (slots_get (lc_ages c) (lc_renew now c) now k s)"
| "slots_step c (CGetExpire now k) s = map_prod ValueExpire id (slots_get (lc_ages c) (lc_renew now c) now k s)"
| "slots_step c (CSet now k v) s =
     (Done, slots_put (lc_ages c) (lc_maxSize c) now k v (if 0 < lc_maxAge c then now + lc_maxAge c else 0) s)"
| "slots_step c (CSetExpire now k v e) s = (Done, slots_put (lc_ages c) (lc_maxSize c) now k v e s)"
| "slots_step c (CDelete k) s = (Done, without k s)"
| "slots_step c (CExist k) s = (Present (k \<in> fst ` set s), s)"

fun slots_run :: "('k, 'v) lru_cache \<Rightarrow> ('k, 'v) cache_op list \<Rightarrow> ('k, 'v) slots \<Rightarrow> 'v answer list \<times> ('k, 'v) slots" where
  "slots_run c [] s = ([], s)"
| "slots_run c (x # xs) s = (case slots_step c x s of (a, s') \<Rightarrow> map_prod ((#) a) id (slots_run c xs s'))"

lemma slots_step_config: "lc_config c = lc_config d \<Longrightarrow> slots_step c x s = slots_step d x s"
  using config_ages [of c d] by (cases x) simp_all

lemma slots_run_config: "lc_config c = lc_config d \<Longrightarrow> slots_run c xs s = slots_run d xs s"
  by (induction xs arbitrary: s) (auto simp: slots_step_config [of c d] split: prod.split)

lemma delete_ok:
  assumes "lru_ok w"
  shows "lru_ok (cache_Delete k w) \<and> lc_config (snd (cache_Delete k w)) = lc_config (snd w)
    \<and> lru_abs (cache_Delete k w) = without k (lru_abs w)"
proof (cases "lc_cache (snd w) k")
  case None
  then have "k \<notin> fst ` set (lru_abs w)" using map_of_abs [OF assms, of k] by (simp add: in_keys)
  then have "without k (lru_abs w) = lru_abs w" by (force simp: without_def intro!: filter_True)
  then show ?thesis using None assms by (simp add: cache_Delete_def)
next
  case (Some r)
  then show ?thesis
    using deleteElement_ok [OF assms] cache_mem [OF assms Some] by (simp add: cache_Delete_def)
qed

lemma step_refines:
  assumes "lru_ok w"
  shows "lru_ok (snd (lru_step x w)) \<and> lc_config (snd (snd (lru_step x w))) = lc_config (snd w)
    \<and> (fst (lru_step x w), lru_abs (snd (lru_step x w))) = slots_step (snd w) x (lru_abs w)"
proof (cases x)
  case (CGet now k)
  then show ?thesis
    using lru_get_ok [OF assms, of now k]
    by (cases "lru_get now k w") (auto simp: cache_Get_def option.map_comp o_def dest: sym)
next
  case (CGetExpire now k)
  then show ?thesis
    using lru_get_ok [OF assms, of now k]
    by (cases "lru_get now k w") (auto simp: getWithExpire_def dest: sym)
next
  case (CExist k)
  then show ?thesis
    using map_of_abs [OF assms, of k] assms by (auto simp: cache_Exist_def in_keys)
qed (use set_ok [OF assms] delete_ok [OF assms] in \<open>simp_all add: cache_Set_def\<close>)

lemma run_refines:
  "lru_ok w \<Longrightarrow> lru_ok (snd (lru_run xs w)) \<and> lc_config (snd (snd (lru_run xs w))) = lc_config (snd w)
    \<and> (fst (lru_run xs w), lru_abs (snd (lru_run xs w))) = slots_run (snd w) xs (lru_abs w)"
proof (induction xs arbitrary: w)
  case (Cons x xs)
  obtain a v where v: "lru_step x w = (a, v)" by (cases "lru_step x w")
  have s: "lru_ok v" "lc_config (snd v) = lc_config (snd w)" "slots_step (snd w) x (lru_abs w) = (a, lru_abs v)"
    using step_refines [OF Cons.prems, of x] v by simp_all
  show ?case
    using Cons.IH [OF s(1)] s(2,3) slots_run_config [OF s(2), of xs "lru_abs v"]
    by (auto simp: v split: prod.split dest: sym)
qed simp

lemma apply_options_empty:
  "lc_cache c = Map.empty \<Longrightarrow> lc_lru c = [] \<Longrightarrow>
   lc_cache (fold apply_option os c) = Map.empty \<and> lc_lru (fold apply_option os c) = []"
proof (induction os arbitrary: c)
  case (Cons x os)
  then show ?case by (cases x) simp_all
qed simp

lemma newLru_empty: "lc_cache (newLru os) = Map.empty" "lc_lru (newLru os) = []"
  unfolding newLru_def by (simp_all add: apply_options_empty)

lemma new_ok: "lru_ok (st, newLru os)" "lru_abs (st, newLru os) = []"
  by (simp_all add: lru_ok_def lru_abs_def newLru_empty)

section \<open>Refinement\<close>


section \<open>Size and age\<close>

definition slots_inv :: "('k, 'v) lru_cache \<Rightarrow> ('k, 'v) slots \<Rightarrow> bool" where
  "slots_inv c s \<longleftrightarrow> distinct (map fst s) \<and> (0 < lc_maxSize c \<longrightarrow> int (length s) \<le> lc_maxSize c)"

lemma without_props:
  "set (without k s) \<subseteq> set s" "length (without k s) \<le> length s" "k \<notin> fst ` set (without k s)"
  "distinct (map fst s) \<Longrightarrow> distinct (map fst (without k s))"
  by (auto simp: without_def distinct_map_filter)

lemma length_without: "k \<in> fst ` set s \<Longrightarrow> length (without k s) < length s"
  by (auto simp: without_def intro!: length_filter_less)

lemma slots_inv_expire: "slots_inv c s \<Longrightarrow> slots_inv c (expire b now s)"
proof -
  have "length (dropWhile P s) \<le> length s" for P by (induction s) auto
  moreover have "distinct (map fst s) \<Longrightarrow> distinct (map fst (dropWhile P s))" for P
    by (metis distinct_append map_append takeWhile_dropWhile_id)
  ultimately show "slots_inv c s \<Longrightarrow> slots_inv c (expire b now s)"
    unfolding slots_inv_def expire_def by (smt (verit) of_nat_le_iff)
qed

lemma slots_inv_without: "slots_inv c s \<Longrightarrow> slots_inv c (without k s)"
  using without_props [where k = k and s = s] by (auto simp: slots_inv_def)

lemma slots_inv_renew: "slots_inv c s \<Longrightarrow> k \<in> fst ` set s \<Longrightarrow> slots_inv c (without k s @ [(k, v, e)])"
  using without_props [where k = k and s = s] length_without [of k s] by (auto simp: slots_inv_def)

lemma slots_inv_step:
  assumes "slots_inv c s"
  shows "slots_inv c (snd (slots_step c x s))"
proof -
  have put: "slots_inv c (slots_put b (lc_maxSize c) now k v e s)" for b now k v e
  proof -
    have "slots_inv c (shrink_to (lc_maxSize c) (s @ [(k, v, e)]))" if "k \<notin> fst ` set s"
    proof -
      have d: "distinct (map fst (s @ [(k, v, e)]))" using assms that by (auto simp: slots_inv_def)
      then have "distinct (map fst (tl (s @ [(k, v, e)])))" unfolding map_tl by (rule distinct_tl)
      then show ?thesis using assms d by (auto simp: slots_inv_def shrink_to_def)
    qed
    then show ?thesis using slots_inv_renew [OF assms] by (simp add: slots_put_def slots_inv_expire)
  qed
  have get: "slots_inv c (snd (slots_get b f now k s))" for b f now k
    using assms slots_inv_renew [OF assms, of k]
    by (auto simp: slots_get_def in_keys intro: slots_inv_expire slots_inv_without split: option.split)
  show ?thesis by (cases x) (simp_all add: put get assms slots_inv_without)
qed

lemma slots_inv_run: "slots_inv c s \<Longrightarrow> slots_inv c (snd (slots_run c xs s))"
proof (induction xs arbitrary: s)
  case (Cons x xs)
  obtain a t where t: "slots_step c x s = (a, t)" by (cases "slots_step c x s")
  have "slots_inv c t" using slots_inv_step [OF Cons.prems, of x] t by simp
  then show ?case using Cons.IH [of t] t by simp
qed simp

text \<open>The cache is bounded and consistent, and gives out nothing that has expired. After every sequence
  of operations on a new cache the map and the list hold the same entries, each key once; with \<open>WithSize n\<close>
  there are at most \<open>n\<close> of them; and when entries have an age and stale entries are not asked for, \<open>Get\<close>
  answers with the value of an entry only before the entry's expiry.\<close>

theorem lru_bounded_and_fresh:
  fixes c :: "('k, 'v) lru_cache"
  assumes "c = newLru os" "lru_run xs (st, c) = (as, w)"
  shows "distinct (map (\<lambda>r. e_key (fst w ! r)) (lc_lru (snd w)))
    \<and> (\<forall>k. cache_Exist k w \<longleftrightarrow> k \<in> (\<lambda>r. e_key (fst w ! r)) ` set (lc_lru (snd w)))
    \<and> (0 < lc_maxSize c \<longrightarrow> int (length (lc_lru (snd w))) \<le> lc_maxSize c)
    \<and> (\<forall>now k en. lc_ages c \<longrightarrow> fst (lru_get now k w) = Some en \<longrightarrow>
         (\<exists>e. (k, e_value en, e) \<in> set (lru_abs w) \<and> now < e))"
proof -
  have r0: "lru_ok w" "lc_config (snd w) = lc_config c" "(as, lru_abs w) = slots_run c xs []"
    using run_refines [OF new_ok(1) [of st os, folded assms(1)], of xs] new_ok(2) [of st os, folded assms(1)] assms(2)
    by simp_all
  then have r: "lru_ok w" "lc_config (snd w) = lc_config c" "lru_abs w = snd (slots_run c xs [])"
    by (metis snd_conv)+
  have "slots_inv c (lru_abs w)" unfolding r(3) by (rule slots_inv_run) (simp add: slots_inv_def)
  then have s: "0 < lc_maxSize c \<longrightarrow> int (length (lc_lru (snd w))) \<le> lc_maxSize c"
    by (simp add: slots_inv_def lru_abs_def)
  have d: "distinct (map (\<lambda>r. e_key (fst w ! r)) (lc_lru (snd w)))" using r(1) by (simp add: lru_ok_def)
  have x: "cache_Exist k w \<longleftrightarrow> k \<in> (\<lambda>r. e_key (fst w ! r)) ` set (lc_lru (snd w))" for k
  proof -
    have "fst ` set (lru_abs w) = (\<lambda>r. e_key (fst w ! r)) ` set (lc_lru (snd w))"
      by (auto simp: lru_abs_def image_image)
    then show ?thesis using map_of_abs [OF r(1), of k] in_keys [of k "lru_abs w"] by (simp add: cache_Exist_def)
  qed
  have f: "\<exists>e. (k, e_value en, e) \<in> set (lru_abs w) \<and> now < e"
    if a: "lc_ages c" and g: "fst (lru_get now k w) = Some en" for now k en
  proof -
    have "lc_ages (snd w)" using a config_ages [OF r(2)] by simp
    moreover have "fst (slots_get (lc_ages (snd w)) (lc_renew now (snd w)) now k (lru_abs w)) = Some (e_value en, e_expires en)"
      unfolding lru_get_ok(3) [OF r(1), symmetric] using g by simp
    ultimately have sg: "fst (slots_get True (lc_renew now (snd w)) now k (lru_abs w)) = Some (e_value en, e_expires en)"
      by simp
    then obtain e where e: "map_of (lru_abs w) k = Some (e_value en, e)"
      by (cases "map_of (lru_abs w) k") (auto simp: slots_get_def split: if_splits)
    then have "now < e" using sg by (auto simp: slots_get_def split: if_splits)
    then show ?thesis using map_of_SomeD [OF e] by blast
  qed
  show ?thesis using d x s f by blast
qed

theorem lru_bounded_and_fresh_witness:
  "(let c = newLru [WithSize 2, WithAge 10] :: (nat, nat) lru_cache;
        w = snd (lru_run [CSet 0 1 7, CSet 1 2 8, CGet 2 1, CSet 3 3 9] ([], c))
    in int (length (lc_lru (snd w))) \<le> 2 \<and> (cache_Exist 2 w \<longleftrightarrow> 2 \<in> (\<lambda>r. e_key (fst w ! r)) ` set (lc_lru (snd w))))"
proof -
  let ?c = "newLru [WithSize 2, WithAge 10] :: (nat, nat) lru_cache"
  let ?r = "lru_run [CSet 0 1 7, CSet 1 2 8, CGet 2 1, CSet 3 3 9] ([], ?c)"
  have m: "lc_maxSize ?c = 2" by (simp add: newLru_def)
  have r: "?r = (fst ?r, snd ?r)" by (rule surjective_pairing)
  show ?thesis
    unfolding Let_def using lru_bounded_and_fresh [OF refl r] m by (simp del: lru_run.simps)
qed

section \<open>Recency\<close>

fun op_key :: "('k, 'v) cache_op \<Rightarrow> 'k" where
  "op_key (CGet _ k) = k" | "op_key (CGetExpire _ k) = k" | "op_key (CSet _ k _) = k"
| "op_key (CSetExpire _ k _ _) = k" | "op_key (CDelete k) = k" | "op_key (CExist k) = k"

text \<open>The entry of \<open>k\<close> is in the list, and what was used after it has its key in \<open>T\<close>.\<close>

definition recent :: "'k \<Rightarrow> 'v \<Rightarrow> 'k set \<Rightarrow> ('k, 'v) slots \<Rightarrow> bool" where
  "recent k v T s \<longleftrightarrow> distinct (map fst s) \<and> (\<exists>a b e. s = a @ (k, v, e) # b \<and> fst ` set b \<subseteq> T)"

lemma without_append: "without k (a @ b) = without k a @ without k b"
  by (simp add: without_def)

lemma recent_without:
  assumes "recent k v T s" "j \<noteq> k"
  shows "recent k v T (without j s)"
proof -
  obtain a b e where s: "s = a @ (k, v, e) # b" "fst ` set b \<subseteq> T" "distinct (map fst s)"
    using assms(1) by (auto simp: recent_def)
  have "without j s = without j a @ (k, v, e) # without j b"
    using assms(2) s(1) by (simp add: without_append) (simp add: without_def)
  moreover have "fst ` set (without j b) \<subseteq> T" using without_props(1) [of j b] s(2) by blast
  ultimately show ?thesis unfolding recent_def using without_props(4) [OF s(3), of j] by blast
qed

lemma recent_snoc:
  assumes "recent k v T s" "j \<in> T" "j \<notin> fst ` set s"
  shows "recent k v T (s @ [(j, x)])"
proof -
  obtain a b e where s: "s = a @ (k, v, e) # b" "fst ` set b \<subseteq> T" "distinct (map fst s)"
    using assms(1) by (auto simp: recent_def)
  have "s @ [(j, x)] = a @ (k, v, e) # (b @ [(j, x)])" using s(1) by simp
  moreover have "fst ` set (b @ [(j, x)]) \<subseteq> T" using s(2) assms(2) by simp
  moreover have "distinct (map fst (s @ [(j, x)]))" using s(3) assms(3) by simp
  ultimately show ?thesis unfolding recent_def by blast
qed

lemma recent_renew:
  "recent k v T s \<Longrightarrow> j \<noteq> k \<Longrightarrow> j \<in> T \<Longrightarrow> recent k v T (without j s @ [(j, x)])"
  by (intro recent_snoc recent_without without_props(3))

lemma recent_shrink:
  assumes "recent k v T s" "finite T" "int (card T) < n"
  shows "recent k v T (shrink_to n s)"
proof (cases "0 < n \<and> n < int (length s)")
  case True
  obtain a b e where s: "s = a @ (k, v, e) # b" "fst ` set b \<subseteq> T" "distinct (map fst s)"
    using assms(1) by (auto simp: recent_def)
  have "length b = card (fst ` set b)" using s(1,3) distinct_card [of "map fst b"] by simp
  also have "\<dots> \<le> card T" by (rule card_mono [OF assms(2) s(2)])
  finally have "a \<noteq> []" using True assms(3) s(1) by auto
  then have "tl s = tl a @ (k, v, e) # b" using s(1) by simp
  moreover have "distinct (map fst (tl s))" using s(3) by (simp only: map_tl distinct_tl)
  ultimately show ?thesis using True s(2) unfolding recent_def shrink_to_def by auto
qed (use assms(1) in \<open>auto simp: shrink_to_def\<close>)

lemma recent_step:
  assumes "recent k v T s" "\<not> lc_ages c" "finite T" "int (card T) < lc_maxSize c" "op_key x \<in> T" "op_key x \<noteq> k"
  shows "recent k v T (snd (slots_step c x s))"
proof -
  have get: "recent k v T (snd (slots_get (lc_ages c) f now j s))" if "j \<in> T" "j \<noteq> k" for f now j
    using assms(1,2) that recent_renew [OF assms(1) that(2,1)]
    by (auto simp: slots_get_def split: option.split)
  have put: "recent k v T (slots_put (lc_ages c) (lc_maxSize c) now j u e s)" if "j \<in> T" "j \<noteq> k" for now j u e
    using assms(2) recent_renew [OF assms(1) that(2,1)]
      recent_shrink [OF recent_snoc [OF assms(1) that(1)] assms(3,4)]
    by (simp add: slots_put_def expire_def)
  show ?thesis using assms(1,5,6) by (cases x) (simp_all add: get put recent_without)
qed

lemma recent_run:
  assumes "\<not> lc_ages c" "finite T" "int (card T) < lc_maxSize c" "op_key ` set xs \<subseteq> T" "k \<notin> op_key ` set xs"
    "recent k v T s"
  shows "recent k v T (snd (slots_run c xs s))"
  using assms(4-6)
proof (induction xs arbitrary: s)
  case (Cons x xs)
  obtain a t where t: "slots_step c x s = (a, t)" by (cases "slots_step c x s")
  have "recent k v T t" using recent_step [OF Cons.prems(3) assms(1-3), of x] Cons.prems(1,2) t by auto
  then show ?case using Cons.IH [of t] Cons.prems(1,2) t by simp
qed simp

text \<open>The least recently used entry is the one that goes. In a cache of \<open>n\<close> entries without expiry, a
  key that was set is still found, with its value, after any sequence of operations on other keys that
  touch fewer than \<open>n\<close> different keys.\<close>

theorem lru_keeps_recent:
  fixes c :: "('k, 'v) lru_cache"
  assumes "c = newLru os" "\<not> lc_ages c" "lru_run xs (st, c) = (as, w)"
    and "k \<notin> op_key ` set ys" "int (card (op_key ` set ys)) < lc_maxSize c"
  shows "fst (cache_Get now' k (snd (lru_run ys (cache_Set now k v w)))) = Some v"
proof -
  let ?T = "op_key ` set ys" and ?w = "cache_Set now k v w"
  have w: "lru_ok w" "lc_config (snd w) = lc_config c"
    using run_refines [OF new_ok(1) [of st os, folded assms(1)], of xs] assms(3) by simp_all
  obtain e where e: "?w = setWithExpire now k v e w" by (simp add: cache_Set_def)
  note so = set_ok [OF w(1), of now k v e, folded e]
  have ages: "lc_ages (snd w) = lc_ages c" "lc_maxSize (snd w) = lc_maxSize c"
    "lc_ages (snd ?w) = lc_ages c" "lc_maxSize (snd ?w) = lc_maxSize c"
    using config_ages [OF w(2)] config_ages [OF so(2)] by simp_all
  have last: "recent k v ?T (s @ [(k, v, e)])" if "distinct (map fst (s @ [(k, v, e)]))" for s
    unfolding recent_def using that by (intro conjI exI [of _ s] exI [of _ "[]"]) auto
  have "recent k v ?T (lru_abs ?w)"
  proof (cases "k \<in> fst ` set (lru_abs w)")
    case True
    have "recent k v ?T (without k (lru_abs w) @ [(k, v, e)])"
      using without_props(3,4) [where k = k and s = "lru_abs w"] lru_ok_distinct [OF w(1)] by (intro last) auto
    then show ?thesis using True so(3) ages assms(2) by (simp add: slots_put_def expire_def)
  next
    case False
    have "recent k v ?T (shrink_to (lc_maxSize c) (lru_abs w @ [(k, v, e)]))"
      using False lru_ok_distinct [OF w(1)] assms(5) by (intro recent_shrink last) auto
    then show ?thesis using False so(3) ages assms(2) by (simp add: slots_put_def expire_def)
  qed
  then have r: "recent k v ?T (snd (slots_run (snd ?w) ys (lru_abs ?w)))"
    using assms(2,4,5) ages by (intro recent_run) auto
  define u where "u = snd (lru_run ys ?w)"
  have u: "lru_ok u" "lc_config (snd u) = lc_config (snd ?w)" "recent k v ?T (lru_abs u)"
    using run_refines [OF so(1), of ys] r unfolding u_def by (metis snd_conv)+
  obtain a b e' where abs: "lru_abs u = a @ (k, v, e') # b" "distinct (map fst (lru_abs u))"
    using u(3) by (auto simp: recent_def)
  then have "(k, v, e') \<in> set (lru_abs u)" by simp
  then have "map_of (lru_abs u) k = Some (v, e')" by (rule map_of_is_SomeI [OF abs(2)])
  moreover have "\<not> lc_ages (snd u)" using config_ages [OF u(2)] ages assms(2) by simp
  ultimately have "fst (slots_get (lc_ages (snd u)) (lc_renew now' (snd u)) now' k (lru_abs u))
      = Some (v, lc_renew now' (snd u) e')"
    by (simp add: slots_get_def)
  then have "map_option (\<lambda>e. (e_value e, e_expires e)) (fst (lru_get now' k u)) = Some (v, lc_renew now' (snd u) e')"
    unfolding lru_get_ok(3) [OF u(1), symmetric] by simp
  then show ?thesis unfolding u_def [symmetric] by (cases "lru_get now' k u") (auto simp: cache_Get_def)
qed

theorem lru_keeps_recent_witness:
  "fst (cache_Get 9 1 (snd (lru_run [CSet 1 2 20, CSet 2 3 30]
      (cache_Set 0 (1 :: nat) (10 :: nat) ([], newLru [WithSize 3]))))) = Some 10"
proof -
  have c: "\<not> lc_ages (newLru [WithSize 3] :: (nat, nat) lru_cache)" "lc_maxSize (newLru [WithSize 3] :: (nat, nat) lru_cache) = 3"
    by (simp_all add: newLru_def lc_ages_def)
  have r: "lru_run [] ([], newLru [WithSize 3] :: (nat, nat) lru_cache) = ([], ([], newLru [WithSize 3]))" by simp
  show ?thesis
    using lru_keeps_recent [OF refl c(1) r, of 1 "[CSet 1 2 20, CSet 2 3 30]" 9 0 10] c(2) by simp
qed

section \<open>Shared entries\<close>

lemma maybeDeleteOldest_store: "fst (maybeDeleteOldest now w) = fst w"
proof -
  have "fst (delete_oldest now rs w) = fst w" for rs
    by (induction rs arbitrary: w) (auto simp: deleteElement_def Let_def)
  then show ?thesis by (simp add: maybeDeleteOldest_def)
qed

lemma cloneTo_ok:
  assumes "lru_ok (st, c)"
  shows "lru_ok (st, cloneTo st c n)" "lru_abs (st, cloneTo st c n) = lru_abs (st, c)"
    "lc_cache (cloneTo st c n) = lc_cache c"
proof -
  let ?l = "map (\<lambda>r. (e_key (st ! r), r)) (lc_lru c)"
  have d: "distinct (map fst (rev ?l))" using assms by (simp add: lru_ok_def o_def rev_map [symmetric] del: rev_map)
  have "map_of (rev ?l) k = lc_cache c k" for k
  proof (cases "lc_cache c k")
    case None
    then have "\<forall>r \<in> set (lc_lru c). e_key (st ! r) \<noteq> k"
      using assms by (metis lru_ok_def option.distinct(1) fst_conv snd_conv)
    then show ?thesis using None by (auto simp: map_of_eq_None_iff)
  next
    case (Some r)
    then have "(k, r) \<in> set (rev ?l)" using assms by (auto simp: lru_ok_def)
    then show ?thesis using Some map_of_is_SomeI [OF d] by simp
  qed
  then show c: "lc_cache (cloneTo st c n) = lc_cache c" by (auto simp: cloneTo_def)
  show "lru_abs (st, cloneTo st c n) = lru_abs (st, c)" by (simp add: lru_abs_def cloneTo_def)
  have "lc_lru (cloneTo st c n) = lc_lru c" by (simp add: cloneTo_def)
  then show "lru_ok (st, cloneTo st c n)" using assms c by (simp add: lru_ok_def)
qed

text \<open>\<open>CloneTo\<close> shares the entries. The clone holds the entries of the original in their order and is
  consistent; but overwriting a key in the clone, with \<open>Set\<close> or \<open>SetWithExpire\<close>, changes the value and the
  expiry of that key in the original too.\<close>

theorem lru_clone_shares:
  assumes "lru_ok (st, c)" "cache_Exist k (st, c)"
    and "setWithExpire now k v e (st, cloneTo st c n) = (st', n')"
  shows "lru_ok (st, cloneTo st c n) \<and> lru_abs (st, cloneTo st c n) = lru_abs (st, c)
    \<and> lru_ok (st', c) \<and> map_of (lru_abs (st', c)) k = Some (v, e)"
proof -
  note cl = cloneTo_ok [OF assms(1), of n]
  obtain r where r: "lc_cache c k = Some r" using assms(2) by (auto simp: cache_Exist_def)
  then have m: "r \<in> set (lc_lru c)" "e_key (st ! r) = k" "r < length st" using cache_mem [OF assms(1)] by auto
  define en where "en = (st ! r)\<lparr>e_value := v, e_expires := e\<rparr>"
  have st: "st' = st[r := en]"
  proof -
    have "fst (setWithExpire now k v e (st, cloneTo st c n)) = st[r := en]"
      unfolding setWithExpire_def maybeDeleteOldest_store by (simp add: cl(3) r moveToBack_def en_def)
    then show ?thesis using assms(3) by simp
  qed
  have ok: "lru_ok (st', c)" unfolding st using assms(1) by (rule update_entry_ok) (simp add: en_def)
  have "map_of (lru_abs (st', c)) k = Some (v, e)"
    using map_of_abs [OF ok, of k] r m(3) by (simp add: st en_def)
  then show ?thesis using cl ok by blast
qed

theorem lru_clone_shares_witness:
  "\<exists>w st' n'. w = cache_Set 0 (1 :: nat) (10 :: nat) ([], newLru [])
    \<and> setWithExpire 0 1 99 0 (fst w, cloneTo (fst w) (snd w) (newLru [])) = (st', n')
    \<and> map_of (lru_abs (st', snd w)) 1 = Some (99, 0)"
proof -
  define w :: "(nat, nat) lru" where "w = cache_Set 0 1 10 ([], newLru [])"
  have n: "lru_ok ([], newLru [] :: (nat, nat) lru_cache)" by (rule new_ok(1))
  have ok: "lru_ok (fst w, snd w)"
    unfolding prod.collapse w_def cache_Set_def by (rule set_ok(1) [OF n])
  have ex: "cache_Exist 1 (fst w, snd w)"
    by (simp add: w_def cache_Set_def newLru_def setWithExpire_def maybeDeleteOldest_def cache_Exist_def)
  obtain st' n' where s: "setWithExpire 0 1 99 0 (fst w, cloneTo (fst w) (snd w) (newLru [])) = (st', n')"
    by (cases "setWithExpire 0 1 99 0 (fst w, cloneTo (fst w) (snd w) (newLru []))")
  show ?thesis using lru_clone_shares [OF ok ex s] s w_def by blast
qed

end
