(* ===== verification/Http.thy ===== *)
theory Http
  imports Rules LruRuns
begin

text \<open>
  \<open>transport/listener/http\<close>: the HTTP proxy listener, with its credentials cache, its treatment of headers and
  the loop of a connection; and the choice between SOCKS and HTTP in \<open>transport/listener/mixed\<close>. A connection is
  the list of requests that \<open>http.ReadRequest\<close> parses from it, each with the clock; sending a request
  (\<open>client.Do\<close>) is a parameter, and so is \<open>utrim\<close>, the Unicode part of \<open>strings.TrimSpace\<close> for strings that have a
  non-ASCII byte at an end.
\<close>

section \<open>Headers\<close>

text \<open>\<open>http.Header\<close> and \<open>textproto.CanonicalMIMEHeaderKey\<close>.\<close>

type_synonym header = "string \<Rightarrow> string list option"

definition token_char :: "char \<Rightarrow> bool" where
  "token_char c \<longleftrightarrow> (let n = (of_char c :: nat) in
     (48 \<le> n \<and> n \<le> 57) \<or> (65 \<le> n \<and> n \<le> 90) \<or> (97 \<le> n \<and> n \<le> 122))
     \<or> c \<in> set [CHR ''!'', CHR ''#'', CHR ''$'', CHR ''%'', CHR ''&'', CHR 0x27, CHR ''*'', CHR ''+'', CHR ''-'',
                CHR ''.'', CHR ''^'', CHR ''_'', CHR 0x60, CHR ''|'', CHR ''~'']"

definition raise_char :: "char \<Rightarrow> char" where
  "raise_char c = (if 97 \<le> (of_char c :: nat) \<and> (of_char c :: nat) \<le> 122 then char_of (of_char c - 32 :: nat) else c)"

fun canon_loop :: "bool \<Rightarrow> string \<Rightarrow> string" where
  "canon_loop upper [] = []"
| "canon_loop upper (c # cs) = (if upper then raise_char c else lower_char c) # canon_loop (c = CHR ''-'') cs"

definition canonical :: "string \<Rightarrow> string" where
  "canonical k = (if list_all token_char k then canon_loop True k else k)"

definition header_get :: "header \<Rightarrow> string \<Rightarrow> string" where
  "header_get h k = (case h (canonical k) of Some (v # _) \<Rightarrow> v | _ \<Rightarrow> [])"

definition header_del :: "header \<Rightarrow> string \<Rightarrow> header" where
  "header_del h k = h(canonical k := None)"

definition header_set :: "header \<Rightarrow> string \<Rightarrow> string \<Rightarrow> header" where
  "header_set h k v = h(canonical k \<mapsto> [v])"

definition is_space :: "char \<Rightarrow> bool" where
  "is_space c \<longleftrightarrow> (of_char c :: nat) \<in> {9, 10, 11, 12, 13, 32}"

definition trim_space :: "(string \<Rightarrow> string) \<Rightarrow> string \<Rightarrow> string" where
  "trim_space utrim s =
     (let t = rev (dropWhile is_space (rev (dropWhile is_space s)))
      in if t \<noteq> [] \<and> (128 \<le> (of_char (hd t) :: nat) \<or> 128 \<le> (of_char (last t) :: nat)) then utrim t else t)"

section \<open>Requests\<close>

record http_req =
  rq_method :: string
  rq_host :: string
  rq_scheme :: string
  rq_urlHost :: string
  rq_header :: header

record http_resp =
  rs_status :: nat
  rs_header :: header
  rs_close :: bool

definition removeProxyHeaders :: "header \<Rightarrow> header" where
  "removeProxyHeaders h = header_del (header_del (header_del h ''Proxy-Connection'') ''Proxy-Authenticate'') ''Proxy-Authorization''"

text \<open>The fields that \<open>Connection\<close> names: only its first value is looked at.\<close>

definition removeHopByHopHeaders :: "(string \<Rightarrow> string) \<Rightarrow> header \<Rightarrow> header" where
  "removeHopByHopHeaders utrim h =
     (let h1 = header_del (header_del (header_del (header_del (removeProxyHeaders h) ''TE'') ''Trailers'') ''Transfer-Encoding'') ''Upgrade'';
          connections = header_get h1 ''Connection'';
          h2 = header_del h1 ''Connection''
      in if connections = [] then h2
         else foldl (\<lambda>h f. header_del h (trim_space utrim f)) h2 (split_on (CHR '','') connections))"

definition removeExtraHTTPHostPort :: "http_req \<Rightarrow> http_req" where
  "removeExtraHTTPHostPort r =
     (let host = (if rq_host r = [] then rq_urlHost r else rq_host r);
          host = (case split_host_port host of Inr (pHost, port) \<Rightarrow> if port = ''80'' then pHost else host | Inl _ \<Rightarrow> host)
      in r\<lparr>rq_host := host, rq_urlHost := host\<rparr>)"

definition equal_fold :: "string \<Rightarrow> string \<Rightarrow> bool" where
  "equal_fold a b \<longleftrightarrow> map lower_char a = map lower_char b"

definition isUpgradeRequest :: "(string \<Rightarrow> string) \<Rightarrow> http_req \<Rightarrow> bool" where
  "isUpgradeRequest utrim r =
     list_ex (\<lambda>header. list_ex (\<lambda>elm. equal_fold (trim_space utrim elm) ''Upgrade'') (split_on (CHR '','') header))
       (case rq_header r ''Connection'' of Some vs \<Rightarrow> vs | None \<Rightarrow> [])"

text \<open>Where \<open>handleUpgrade\<close> connects to, and the request it sends there.\<close>

definition handleUpgrade :: "http_req \<Rightarrow> http_req \<times> saddr option" where
  "handleUpgrade r =
     (let r1 = removeExtraHTTPHostPort (r\<lparr>rq_header := removeProxyHeaders (rq_header r)\<rparr>);
          address = (case split_host_port (rq_host r1) of Inl _ \<Rightarrow> join_host_port (rq_host r1) ''80'' | Inr _ \<Rightarrow> rq_host r1)
      in (r1, parse_saddr address))"

section \<open>Credentials\<close>

definition parseBasicProxyAuthorization :: "http_req \<Rightarrow> string" where
  "parseBasicProxyAuthorization r =
     (let v = header_get (rq_header r) ''Proxy-Authorization''
      in if \<not> has_prefix v ''Basic '' then [] else drop 6 v)"

text \<open>\<open>base64.StdEncoding\<close>, which ignores line ends and accepts non-zero trailing bits.\<close>

definition b64_val :: "char \<Rightarrow> nat option" where
  "b64_val c = (let n = (of_char c :: nat) in
     if 65 \<le> n \<and> n \<le> 90 then Some (n - 65)
     else if 97 \<le> n \<and> n \<le> 122 then Some (n - 97 + 26)
     else if 48 \<le> n \<and> n \<le> 57 then Some (n - 48 + 52)
     else if c = CHR ''+'' then Some 62 else if c = CHR ''/'' then Some 63 else None)"

fun b64_quanta :: "string \<Rightarrow> nat list option" where
  "b64_quanta [] = Some []"
| "b64_quanta [a, b, c, d] =
     (case (b64_val a, b64_val b) of
        (Some x, Some y) \<Rightarrow>
          (if c = CHR ''='' then (if d = CHR ''='' then Some [x * 4 + y div 16] else None)
           else case b64_val c of
             None \<Rightarrow> None
           | Some z \<Rightarrow>
               (if d = CHR ''='' then Some [x * 4 + y div 16, y mod 16 * 16 + z div 4]
                else case b64_val d of
                  None \<Rightarrow> None
                | Some w \<Rightarrow> Some [x * 4 + y div 16, y mod 16 * 16 + z div 4, z mod 4 * 64 + w]))
      | _ \<Rightarrow> None)"
| "b64_quanta (a # b # c # d # e # s) =
     (case (b64_val a, b64_val b, b64_val c, b64_val d) of
        (Some x, Some y, Some z, Some w) \<Rightarrow>
          map_option (\<lambda>r. [x * 4 + y div 16, y mod 16 * 16 + z div 4, z mod 4 * 64 + w] @ r) (b64_quanta (e # s))
      | _ \<Rightarrow> None)"
| "b64_quanta _ = None"

definition b64_decode :: "string \<Rightarrow> string option" where
  "b64_decode s = map_option (map (\<lambda>n. char_of n :: char)) (b64_quanta (filter (\<lambda>c. (of_char c :: nat) \<notin> {10, 13}) s))"

definition cut_at :: "string \<Rightarrow> string \<Rightarrow> string \<times> string \<times> bool" where
  "cut_at s sep = (case str_index s sep of
     Some i \<Rightarrow> if 0 < i then (take i s, drop (i + length sep) s, True) else (s, [], False)
   | None \<Rightarrow> (s, [], False))"

definition decodeBasicProxyAuthorization :: "string \<Rightarrow> (string \<times> string) res" where
  "decodeBasicProxyAuthorization credential =
     (case b64_decode credential of
        None \<Rightarrow> Err (Msg ''illegal base64 data'')
      | Some plain \<Rightarrow>
          (case cut_at plain '':'' of
             (user, pass, found) \<Rightarrow> if \<not> found then Err (Msg ''invalid login'') else Ok (user, pass)))"

section \<open>Authentication\<close>

definition responseWith :: "nat \<Rightarrow> http_resp" where
  "responseWith status = \<lparr>rs_status = status, rs_header = Map.empty, rs_close = False\<rparr>"

text \<open>The body of \<open>authenticate\<close> for an authenticator, and \<open>authenticate\<close>, whose authenticator is made without
  users.\<close>

type_synonym cred_cache = "(string, bool) lru"

definition authenticate_with ::
  "authenticator option \<Rightarrow> int \<Rightarrow> http_req \<Rightarrow> cred_cache \<Rightarrow> http_resp option \<times> cred_cache" where
  "authenticate_with auth now r cache =
     (case auth of
        None \<Rightarrow> (None, cache)
      | Some au \<Rightarrow>
          (let credential = parseBasicProxyAuthorization r in
           if credential = [] then
             (Some ((responseWith 407)\<lparr>rs_header := header_set Map.empty ''Proxy-Authenticate'' ''Basic''\<rparr>), cache)
           else case cache_Get now credential cache of
             (Some authed, cache1) \<Rightarrow> (if \<not> authed then Some (responseWith 403) else None, cache1)
           | (None, cache1) \<Rightarrow>
               (let authed = (case decodeBasicProxyAuthorization credential of
                      Inl _ \<Rightarrow> False | Inr (user, pass) \<Rightarrow> auth_verify au user pass);
                    cache2 = cache_Set now credential authed cache1
                in (if \<not> authed then Some (responseWith 403) else None, cache2))))"

definition http_authenticate :: "int \<Rightarrow> http_req \<Rightarrow> cred_cache \<Rightarrow> http_resp option \<times> cred_cache" where
  "http_authenticate = authenticate_with (newAuthenticator [])"

section \<open>A connection\<close>

text \<open>What the listener does for the requests of a connection.\<close>

datatype http_action =
    Hijack metadata
  | UpgradeTo http_req "saddr option"
  | Forward http_req
  | Respond http_resp

definition keep_alive_headers :: "http_resp \<Rightarrow> http_resp" where
  "keep_alive_headers resp = resp\<lparr>rs_header :=
     header_set (header_set (header_set (rs_header resp) ''Proxy-Connection'' ''keep-alive'') ''Connection'' ''keep-alive'')
       ''Keep-Alive'' ''timeout=4''\<rparr>"

text \<open>What happens to a trusted request: a connection taken over, or the request that is sent on, if any, and
  the response.\<close>

definition serve_trusted ::
  "(string \<Rightarrow> string) \<Rightarrow> (http_req \<Rightarrow> http_resp option) \<Rightarrow> netaddr \<Rightarrow> netaddr \<Rightarrow> http_req
     \<Rightarrow> http_action + http_req option \<times> http_resp" where
  "serve_trusted utrim client_do remote localA r =
     (if rq_method r = ''CONNECT'' then Inl (Hijack (newHTTPS (rq_urlHost r) remote localA))
      else let host = header_get (rq_header r) ''Host'';
               r1 = (if host \<noteq> [] then r\<lparr>rq_host := host\<rparr> else r)
        in if isUpgradeRequest utrim r1 then Inl (case handleUpgrade r1 of (r2, dst) \<Rightarrow> UpgradeTo r2 dst)
           else let r2 = removeExtraHTTPHostPort (r1\<lparr>rq_header := removeHopByHopHeaders utrim (rq_header r1)\<rparr>);
                    fwd = (if rq_scheme r2 = [] \<or> rq_urlHost r2 = [] then None else Some r2);
                    resp = (case fwd of
                        None \<Rightarrow> responseWith 400
                      | Some q \<Rightarrow> (case client_do q of None \<Rightarrow> responseWith 502 | Some p \<Rightarrow> p))
             in Inr (fwd, resp\<lparr>rs_header := removeHopByHopHeaders utrim (rs_header resp)\<rparr>))"

text \<open>The loop of \<open>HandleConn\<close>. \<open>wfail\<close> says which writes to the connection fail, by their number.\<close>

fun handle_conn ::
  "authenticator option \<Rightarrow> (string \<Rightarrow> string) \<Rightarrow> (http_req \<Rightarrow> http_resp option) \<Rightarrow> (string \<Rightarrow> string) \<Rightarrow> (nat \<Rightarrow> bool)
     \<Rightarrow> netaddr \<Rightarrow> netaddr \<Rightarrow> (int \<times> http_req) list \<Rightarrow> bool \<Rightarrow> nat \<Rightarrow> cred_cache \<Rightarrow> http_action list \<times> cred_cache" where
  "handle_conn auth utrim client_do ulower wfail remote localA [] trusted n cache = ([], cache)"
| "handle_conn auth utrim client_do ulower wfail remote localA ((now, r) # rs) trusted n cache =
     (let keepAlive = (trim_space utrim (toLower ulower (header_get (rq_header r) ''Proxy-Connection'')) = ''keep-alive'');
          (denied, cache1) = (if trusted then (None, cache) else authenticate_with auth now r cache)
      in case (case denied of Some resp \<Rightarrow> Inr (None, resp) | None \<Rightarrow> serve_trusted utrim client_do remote localA r) of
           Inl act \<Rightarrow> (if wfail n \<and> rq_method r = ''CONNECT'' then [] else [act], cache1)
         | Inr (fwd, resp) \<Rightarrow>
             (let sent = (case fwd of Some q \<Rightarrow> [Forward q] | None \<Rightarrow> []);
                  resp1 = (if keepAlive then keep_alive_headers resp else resp);
                  resp2 = resp1\<lparr>rs_close := \<not> keepAlive\<rparr>
              in if wfail n then (sent, cache1)
                 else if \<not> keepAlive then (sent @ [Respond resp2], cache1)
                 else case handle_conn auth utrim client_do ulower wfail remote localA rs (denied = None) (Suc n) cache1 of
                   (acts, cache2) \<Rightarrow> (sent @ [Respond resp2] @ acts, cache2)))"

text \<open>\<open>HandleConn\<close> with the cache of the listener; without a cache nothing is asked.\<close>

definition handleHTTPConn ::
  "authenticator option \<Rightarrow> (string \<Rightarrow> string) \<Rightarrow> (http_req \<Rightarrow> http_resp option) \<Rightarrow> (string \<Rightarrow> string) \<Rightarrow> (nat \<Rightarrow> bool)
     \<Rightarrow> netaddr \<Rightarrow> netaddr \<Rightarrow> (int \<times> http_req) list \<Rightarrow> cred_cache option \<Rightarrow> http_action list \<times> cred_cache option" where
  "handleHTTPConn auth utrim client_do ulower wfail remote localA reqs cache =
     (case cache of
        None \<Rightarrow> (fst (handle_conn auth utrim client_do ulower wfail remote localA reqs True 0 ([], newLru [])), None)
      | Some c \<Rightarrow> (case handle_conn auth utrim client_do ulower wfail remote localA reqs False 0 c of
          (acts, c') \<Rightarrow> (acts, Some c')))"

definition listener_cache :: "bool \<Rightarrow> cred_cache option" where
  "listener_cache authenticate = (if authenticate then Some ([], newLru [WithAge 30]) else None)"

section \<open>The mixed listener\<close>

text \<open>The first byte of a connection decides its protocol.\<close>

datatype inbound_kind = InSocks | InHttp

definition mixed_kind :: "bytes \<Rightarrow> inbound_kind option" where
  "mixed_kind inp = (case inp of [] \<Rightarrow> None | b # _ \<Rightarrow> if b = 5 then Some InSocks else Some InHttp)"

text \<open>What the SOCKS listener does: a handshake that succeeds gives metadata, an association is held open.\<close>

definition handleSocks5 :: "string \<Rightarrow> netaddr \<Rightarrow> netaddr \<Rightarrow> metadata option io" where
  "handleSocks5 localAddr remote localA =
     io_bind (serverHandshake (newAuthenticator []) localAddr) (\<lambda>(target, command).
       if command = CmdUDPAssociate then io_ret None
       else io_bind (io_res (newSocket target remote localA SOCKS5)) (\<lambda>m. io_ret (Some m)))"

end
