(* ===== verification/HttpFacts.thy ===== *)
theory HttpFacts
  imports Http
begin

text \<open>
  The HTTP proxy listener: a connection is served only after credentials that verify, whatever the cache of
  credentials holds from before; base64 and the credentials; which header fields are removed.
\<close>

section \<open>Base64\<close>

text \<open>The encoding of RFC 4648, as a client writes its credentials.\<close>

definition b64_char :: "nat \<Rightarrow> char" where
  "b64_char n = (if n < 26 then char_of (n + 65) else if n < 52 then char_of (n + 71)
     else if n < 62 then char_of (n - 4) else if n = 62 then CHR ''+'' else CHR ''/'')"

fun b64_encode :: "nat list \<Rightarrow> string" where
  "b64_encode [] = []"
| "b64_encode [x] = [b64_char (x div 4), b64_char (x mod 4 * 16), CHR ''='', CHR ''='']"
| "b64_encode [x, y] = [b64_char (x div 4), b64_char (x mod 4 * 16 + y div 16), b64_char (y mod 16 * 4), CHR ''='']"
| "b64_encode (x # y # z # r) =
     [b64_char (x div 4), b64_char (x mod 4 * 16 + y div 16), b64_char (y mod 16 * 4 + z div 64), b64_char (z mod 64)]
       @ b64_encode r"

lemma b64_val_char: "n < 64 \<Longrightarrow> b64_val (b64_char n) = Some n"
  by (auto simp: b64_val_def b64_char_def Let_def)

lemma b64_char_plain:
  assumes "n < 64"
  shows "b64_char n \<noteq> CHR ''=''" "(of_char (b64_char n) :: nat) \<notin> {10, 13}"
proof -
  have "b64_val (CHR ''='') = None" by (simp add: b64_val_def)
  then show "b64_char n \<noteq> CHR ''=''" using b64_val_char [OF assms] by auto
  show "(of_char (b64_char n) :: nat) \<notin> {10, 13}" using assms by (auto simp: b64_char_def)
qed

lemma b64_digits:
  fixes x y z :: nat
  assumes "x < 256" "y < 256" "z < 256"
  shows "x div 4 < 64" "x mod 4 * 16 + y div 16 < 64" "y mod 16 * 4 + z div 64 < 64" "z mod 64 < 64"
    "x mod 4 * 16 < 64" "y mod 16 * 4 < 64"
proof -
  have "x div 4 < 64" "x mod 4 < 4" "y div 16 < 16" "y mod 16 < 16" "z div 64 < 4" "z mod 64 < 64"
    using assms by (simp_all add: div_less_iff_less_mult)
  then show "x div 4 < 64" "x mod 4 * 16 + y div 16 < 64" "y mod 16 * 4 + z div 64 < 64" "z mod 64 < 64"
    "x mod 4 * 16 < 64" "y mod 16 * 4 < 64" by linarith+
qed

lemma b64_bytes:
  fixes x y z :: nat
  assumes "x < 256" "y < 256" "z < 256"
  shows "x div 4 * 4 + (x mod 4 * 16 + y div 16) div 16 = x"
    "(x mod 4 * 16 + y div 16) mod 16 * 16 + (y mod 16 * 4 + z div 64) div 4 = y"
    "(y mod 16 * 4 + z div 64) mod 4 * 64 + z mod 64 = z"
    "x div 4 * 4 + x mod 4 * 16 div 16 = x"
    "(x mod 4 * 16 + y div 16) mod 16 * 16 + y mod 16 * 4 div 4 = y"
  using assms by simp_all

lemma b64_quanta_encode: "\<forall>x \<in> set bs. x < 256 \<Longrightarrow> b64_quanta (b64_encode bs) = Some bs"
proof (induction bs rule: b64_encode.induct)
  case (4 x y z r)
  then have lt: "x < 256" "y < 256" "z < 256" by auto
  note d = b64_digits [OF lt] and b = b64_bytes [OF lt]
  show ?case
  proof (cases "b64_encode r")
    case Nil
    then have "r = []" by (cases r rule: b64_encode.cases) auto
    then show ?thesis using d b by (simp add: b64_val_char b64_char_plain(1))
  next
    case (Cons e s)
    then show ?thesis using d b 4 by (simp add: b64_val_char)
  qed
next
  case (3 x y)
  then have lt: "x < 256" "y < 256" "(0::nat) < 256" by auto
  show ?case using b64_digits [OF lt] b64_bytes [OF lt] by (simp add: b64_val_char b64_char_plain(1))
next
  case (2 x)
  then have lt: "x < 256" "(0::nat) < 256" by auto
  show ?case using b64_digits [OF lt(1) lt(2) lt(2)] b64_bytes [OF lt(1) lt(2) lt(2)]
    by (simp add: b64_val_char b64_char_plain(1))
qed simp

lemma b64_encode_lines: "\<forall>x \<in> set bs. x < 256 \<Longrightarrow> filter (\<lambda>c. (of_char c :: nat) \<notin> {10, 13}) (b64_encode bs) = b64_encode bs"
proof (induction bs rule: b64_encode.induct)
  case (4 x y z r)
  then have lt: "x < 256" "y < 256" "z < 256" by auto
  then show ?case using 4 b64_digits [OF lt] b64_char_plain(2) by simp
next
  case (3 x y)
  then have lt: "x < 256" "y < 256" "(0::nat) < 256" by auto
  then show ?case using b64_digits [OF lt] b64_char_plain(2) by simp
next
  case (2 x)
  then have lt: "x < 256" "(0::nat) < 256" by auto
  then show ?case using b64_digits [OF lt(1) lt(2) lt(2)] b64_char_plain(2) by simp
qed simp

lemma b64_roundtrip: "b64_decode (b64_encode (map of_char s)) = Some s"
proof -
  have "\<forall>x \<in> set (map of_char s :: nat list). x < 256" by auto
  then show ?thesis by (simp only: b64_decode_def b64_encode_lines b64_quanta_encode) (simp add: o_def)
qed

section \<open>Credentials\<close>

lemma has_prefix_self [simp]: "has_prefix (p @ s) p"
  by (simp add: has_prefix_def)

lemma str_index_colon: "CHR '':'' \<notin> set u \<Longrightarrow> str_index (u @ CHR '':'' # p) '':'' = Some (length u)"
  by (induction u) (auto simp: has_prefix_def)

lemma decode_credentials:
  assumes "u \<noteq> []" "CHR '':'' \<notin> set u"
  shows "decodeBasicProxyAuthorization (b64_encode (map of_char (u @ CHR '':'' # p))) = Ok (u, p)"
  using assms by (simp add: decodeBasicProxyAuthorization_def b64_roundtrip [of "u @ CHR '':'' # p", simplified]
    cut_at_def str_index_colon)

definition verdict :: "authenticator \<Rightarrow> string \<Rightarrow> bool" where
  "verdict au credential = (case decodeBasicProxyAuthorization credential of
     Inl _ \<Rightarrow> False | Inr (user, pass) \<Rightarrow> auth_verify au user pass)"

text \<open>The request carries credentials that verify.\<close>

definition authorized :: "authenticator \<Rightarrow> http_req \<Rightarrow> bool" where
  "authorized au r \<longleftrightarrow> parseBasicProxyAuthorization r \<noteq> [] \<and> verdict au (parseBasicProxyAuthorization r)"

text \<open>The cache holds verdicts of this authenticator.\<close>

definition cred_sound :: "authenticator \<Rightarrow> cred_cache \<Rightarrow> bool" where
  "cred_sound au w \<longleftrightarrow> lru_ok w \<and> (\<forall>(k, v, e) \<in> set (lru_abs w). v = verdict au k)"

lemma cred_sound_new: "cred_sound au ([], newLru os)"
  by (simp add: cred_sound_def new_ok)

lemma set_expire: "set (expire b now xs) \<subseteq> set xs"
  by (auto simp: expire_def dest: set_dropWhileD)

lemma set_without: "set (without k xs) \<subseteq> set xs"
  by (auto simp: without_def)

lemma set_shrink: "set (shrink_to mx xs) \<subseteq> set xs"
  by (auto simp: shrink_to_def dest: list.set_sel(2) split: if_splits) (metis list.set_sel(2) tl_Nil)

lemma slots_put_mem: "x \<in> set (slots_put ages mx now k v e xs) \<Longrightarrow> x \<in> set xs \<or> x = (k, v, e)"
  using set_expire set_without set_shrink by (fastforce simp: slots_put_def split: if_splits)

lemma slots_get_mem:
  "slots_get ages renew now k xs = (a, ys) \<Longrightarrow> (k', v, e) \<in> set ys \<Longrightarrow> \<exists>e'. (k', v, e') \<in> set xs"
  using set_expire set_without
  by (fastforce simp: slots_get_def dest: map_of_SomeD split: if_splits option.splits)

lemma slots_get_value: "slots_get ages renew now k xs = (Some (v, e), ys) \<Longrightarrow> \<exists>e'. (k, v, e') \<in> set xs"
  by (auto simp: slots_get_def dest!: map_of_SomeD split: if_splits option.splits)

lemma cache_Get_sound:
  assumes "cred_sound au w" "cache_Get now k w = (a, w')"
  shows "cred_sound au w'" "a = Some v \<Longrightarrow> v = verdict au k"
proof -
  obtain x where g: "lru_get now k w = (x, w')" and a: "a = map_option e_value x"
    using assms(2) by (auto simp: cache_Get_def split: prod.splits)
  note ok = lru_get_ok [of w now k]
  have s: "slots_get (lc_ages (snd w)) (lc_renew now (snd w)) now k (lru_abs w)
      = (map_option (\<lambda>e. (e_value e, e_expires e)) x, lru_abs w')"
    using ok(3) assms(1) g by (simp add: cred_sound_def)
  show "cred_sound au w'"
    using ok(1) g assms(1) slots_get_mem [OF s] unfolding cred_sound_def by fastforce
  show "v = verdict au k" if v: "a = Some v"
  proof -
    obtain e where "x = Some e" "e_value e = v" using v a by auto
    then show ?thesis using slots_get_value [of _ _ _ _ _ v "e_expires e"] s assms(1)
      unfolding cred_sound_def by fastforce
  qed
qed

lemma cache_Set_sound: "cred_sound au w \<Longrightarrow> cred_sound au (cache_Set now k (verdict au k) w)"
  unfolding cred_sound_def cache_Set_def
  by (auto simp: set_ok dest!: slots_put_mem)

text \<open>\<open>authenticate\<close> lets exactly the requests through that carry credentials which verify.\<close>

lemma authenticate_sound:
  assumes "cred_sound au w" "authenticate_with (Some au) now r w = (resp, w')"
  shows "cred_sound au w'" "resp = None \<longleftrightarrow> authorized au r"
    "resp = Some q \<Longrightarrow> rs_status q = 407 \<or> rs_status q = 403"
proof -
  let ?k = "parseBasicProxyAuthorization r"
  obtain a w1 where g: "cache_Get now ?k w = (a, w1)" by (cases "cache_Get now ?k w")
  note s = cache_Get_sound [OF assms(1) g]
  show "cred_sound au w'" "resp = None \<longleftrightarrow> authorized au r" "resp = Some q \<Longrightarrow> rs_status q = 407 \<or> rs_status q = 403"
    using assms g s cache_Set_sound [OF s(1), of now ?k]
    by (auto simp: authenticate_with_def Let_def authorized_def verdict_def responseWith_def
      split: if_splits option.splits)
qed

section \<open>Serving a connection\<close>

definition denial :: "http_action \<Rightarrow> bool" where
  "denial a = (case a of Respond q \<Rightarrow> rs_status q \<in> {407, 403} | _ \<Rightarrow> False)"

lemma keep_alive_status [simp]: "rs_status (keep_alive_headers q) = rs_status q"
  by (simp add: keep_alive_headers_def)

lemma conn_trusted: "handle_conn auth u d ul wb ra la rs True n c = (acts, c') \<Longrightarrow> c' = c"
proof (induction rs arbitrary: n acts)
  case (Cons x rs)
  obtain now r where x: "x = (now, r)" by (cases x)
  show ?case
  proof (cases "serve_trusted u d ra la r")
    case (Inl a)
    then show ?thesis using Cons.prems by (simp add: x Let_def)
  next
    case (Inr p)
    obtain fwd q where p: "p = (fwd, q)" by (cases p)
    show ?thesis using Cons.prems Cons.IH Inr p by (simp add: x Let_def split: if_splits prod.splits)
  qed
qed simp

lemma conn_denials:
  assumes "cred_sound au c" "handle_conn (Some au) u d ul wb ra la rs False n c = (acts, c')"
  shows "cred_sound au c'
    \<and> (\<forall>a \<in> set (take (length (takeWhile (\<lambda>(t, r). \<not> authorized au r) rs)) acts). denial a)
    \<and> ((\<forall>(t, r) \<in> set rs. \<not> authorized au r) \<longrightarrow> (\<forall>a \<in> set acts. denial a))"
  using assms
proof (induction rs arbitrary: n c acts c')
  case (Cons x rs)
  obtain now r where x: "x = (now, r)" by (cases x)
  obtain resp c1 where a: "authenticate_with (Some au) now r c = (resp, c1)" by (cases "authenticate_with (Some au) now r c")
  note s = authenticate_sound [OF Cons.prems(1) a]
  show ?case
  proof (cases resp)
    case None
    then have au: "authorized au r" using s by simp
    have "c' = c1"
      using Cons.prems(2) None by (auto simp: x a Let_def dest: conn_trusted split: sum.splits if_splits prod.splits)
    then show ?thesis using s(1) au x by simp
  next
    case (Some q)
    then have d: "denial (Respond (q1\<lparr>rs_close := b\<rparr>))" if "q1 = q \<or> q1 = keep_alive_headers q" for q1 b
      using s(3) that by (auto simp: denial_def)
    have nau: "\<not> authorized au r" using s(2) Some by simp
    consider "acts = []" "c' = c1" | q1 b where "acts = [Respond (q1\<lparr>rs_close := b\<rparr>)]" "c' = c1" "q1 = q \<or> q1 = keep_alive_headers q"
      | q1 b more where "acts = Respond (q1\<lparr>rs_close := b\<rparr>) # more" "q1 = q \<or> q1 = keep_alive_headers q"
          "handle_conn (Some au) u d ul wb ra la rs False (Suc n) c1 = (more, c')"
      using Cons.prems(2) Some by (auto simp: x a Let_def split: if_splits prod.splits)
    then show ?thesis
    proof cases
      case 3
      then show ?thesis using Cons.IH [OF s(1) 3(3)] d nau x by simp
    qed (use s(1) d nau x in auto)
  qed
qed simp


definition sample_auth :: authenticator where
  "sample_auth = \<lparr>auStorage = [''u'' \<mapsto> ''p''], auUsernames = [''u'']\<rparr>"

definition sample_req :: "string \<Rightarrow> http_req" where
  "sample_req cred = \<lparr>rq_method = ''CONNECT'', rq_host = ''h:443'', rq_scheme = [], rq_urlHost = ''h:443'',
     rq_header = [''Proxy-Connection'' \<mapsto> [''keep-alive''], ''Proxy-Authorization'' \<mapsto> [cred]]\<rparr>"

definition sample_acts :: "http_action list \<times> cred_cache" where
  "sample_acts = handle_conn (newAuthenticator [(''u'', ''p'')]) id (\<lambda>_. None) id (\<lambda>_. False) (OtherAddr []) (OtherAddr [])
     [(0, sample_req ''Basic dTpx''), (5, sample_req ''Basic dTpw'')] False 0 ([], newLru [WithAge 30])"

lemma sample_authenticator: "newAuthenticator [(''u'', ''p'')] = Some sample_auth"
  by (simp add: newAuthenticator_def sample_auth_def)

lemma sample_authorized: "\<not> authorized sample_auth (sample_req ''Basic dTpx'')" "authorized sample_auth (sample_req ''Basic dTpw'')"
  by code_simp+

lemma sample_length: "length (fst sample_acts) = 2" "\<not> denial (fst sample_acts ! 1)"
  by code_simp+


text \<open>The program makes its authenticator without users, and so asks nobody.\<close>

lemma http_authentication_off: "http_authenticate now r c = (None, c)"
  by (simp add: http_authenticate_def newAuthenticator_def authenticate_with_def)

section \<open>Headers\<close>

lemma canonical_hops:
  "canonical ''Proxy-Connection'' = ''Proxy-Connection''" "canonical ''Proxy-Authenticate'' = ''Proxy-Authenticate''"
  "canonical ''Proxy-Authorization'' = ''Proxy-Authorization''" "canonical ''TE'' = ''Te''"
  "canonical ''Trailers'' = ''Trailers''" "canonical ''Transfer-Encoding'' = ''Transfer-Encoding''"
  "canonical ''Upgrade'' = ''Upgrade''" "canonical ''Connection'' = ''Connection''"
  by code_simp+

lemma header_del_at: "header_del h f k = (if k = canonical f then None else h k)"
  by (simp add: header_del_def)

lemma foldl_header_del: "foldl (\<lambda>h f. header_del h (g f)) h fs k = (if k \<in> canonical ` g ` set fs then None else h k)"
  by (induction fs arbitrary: h) (auto simp: header_del_def)

text \<open>The header fields that the proxy takes out of requests and responses are the fixed ones and those named by
  the first value of \<open>Connection\<close>; every other field stays as it was, those named by further values of
  \<open>Connection\<close> included.\<close>

theorem hop_by_hop_removed:
  "removeHopByHopHeaders utrim h k =
     (if k \<in> {''Proxy-Connection'', ''Proxy-Authenticate'', ''Proxy-Authorization'', ''Te'', ''Trailers'',
            ''Transfer-Encoding'', ''Upgrade'', ''Connection''}
         \<or> (\<exists>v vs. h ''Connection'' = Some (v # vs) \<and> v \<noteq> [] \<and> k \<in> (canonical \<circ> trim_space utrim) ` set (split_on (CHR '','') v))
      then None else h k)"
  (is "_ = (if k \<in> ?hops \<or> _ then _ else _)")
proof -
  let ?h1 = "header_del (header_del (header_del (header_del (removeProxyHeaders h) ''TE'') ''Trailers'') ''Transfer-Encoding'') ''Upgrade''"
  have g: "header_get ?h1 ''Connection'' = (case h ''Connection'' of Some (v # _) \<Rightarrow> v | _ \<Rightarrow> [])"
    by (simp add: header_get_def header_del_def removeProxyHeaders_def canonical_hops)
  have d: "header_del ?h1 ''Connection'' k = (if k \<in> ?hops then None else h k)"
    by (simp only: header_del_at removeProxyHeaders_def canonical_hops insert_iff empty_iff) argo
  show ?thesis
  proof (cases "\<exists>v vs. h ''Connection'' = Some (v # vs) \<and> v \<noteq> []")
    case True
    then obtain v vs where "h ''Connection'' = Some (v # vs)" "v \<noteq> []" by blast
    then show ?thesis
      unfolding removeHopByHopHeaders_def Let_def g
      by (simp only: foldl_header_del d image_comp option.case list.case if_False) (auto simp: comp_def)
  next
    case False
    then have n: "(case h ''Connection'' of Some (v # _) \<Rightarrow> v | _ \<Rightarrow> []) = []" by (auto split: option.splits list.splits)
    show ?thesis
      unfolding removeHopByHopHeaders_def Let_def g n using False by (simp only: d if_True simp_thms) (metis (no_types, lifting))
  qed
qed

text \<open>The credentials of a user are accepted: the base64 text of a user's name and password decodes to them and
  verifies, whatever the password, for a name that is not empty and has no colon.\<close>

theorem credentials_accepted:
  assumes "auStorage au u = Some p" "u \<noteq> []" "CHR '':'' \<notin> set u"
    "header_get (rq_header r) ''Proxy-Authorization'' = ''Basic '' @ b64_encode (map of_char (u @ CHR '':'' # p))"
    "cred_sound au w"
  shows "fst (authenticate_with (Some au) now r w) = None"
proof -
  obtain resp w' where a: "authenticate_with (Some au) now r w = (resp, w')" by (cases "authenticate_with (Some au) now r w")
  have c: "parseBasicProxyAuthorization r = b64_encode (map of_char (u @ CHR '':'' # p))"
    by (simp only: parseBasicProxyAuthorization_def Let_def assms(4) has_prefix_self) simp
  have "b64_encode (map of_char (u @ CHR '':'' # p)) \<noteq> []" using b64_roundtrip [of "u @ CHR '':'' # p"]
    by (auto simp: b64_decode_def)
  then have "authorized au r"
    using decode_credentials [OF assms(2,3), of p] assms(1) by (simp add: authorized_def verdict_def c auth_verify_def)
  then show ?thesis using authenticate_sound(2) [OF assms(5) a] a by simp
qed

theorem credentials_accepted_witness:
  "fst (authenticate_with (Some sample_auth) 0 (sample_req (''Basic '' @ b64_encode (map of_char (''u'' @ CHR '':'' # ''p'')))) ([], newLru [])) = None"
  by (rule credentials_accepted [where u = "''u''" and p = "''p''", OF _ _ _ _ cred_sound_new])
    (simp_all add: sample_auth_def sample_req_def header_get_def canonical_hops)

end
