(* ===== verification/Alloc.thy ===== *)
theory Alloc
  imports Prelude
begin

text \<open>
  \<open>transport/common/pool/alloc.go\<close>: buffers from pools by power of two. A buffer is a slice: its memory up
  to the capacity, and its length. \<open>sync.Pool\<close> gives any buffer that was put in it, or a new one; which one
  is the argument \<open>pick\<close> of \<open>alloc_get\<close>. The memory of a recycled buffer keeps its old contents.
\<close>

record slice =
  sl_mem :: bytes
  sl_len :: nat

abbreviation cap :: "slice \<Rightarrow> nat" where "cap b \<equiv> length (sl_mem b)"

type_synonym allocator = "slice list list"

definition newAllocator :: allocator where
  "newAllocator = replicate 17 []"

definition make_slice :: "nat \<Rightarrow> slice" where
  "make_slice n = \<lparr>sl_mem = replicate n 0, sl_len = n\<rparr>"

text \<open>\<open>bits.Len32\<close>, and \<open>msb\<close>, whose argument is converted to 32 bits and result to 16.\<close>

fun bits_len :: "nat \<Rightarrow> nat" where
  "bits_len n = (if n = 0 then 0 else Suc (bits_len (n div 2)))"

declare bits_len.simps [simp del]

definition msb :: "int \<Rightarrow> 16 word" where
  "msb sz = word_of_int (int (bits_len (unat (word_of_int sz :: 32 word))) - 1)"

text \<open>\<open>sync.Pool\<close> number \<open>i\<close>: \<open>Get\<close> with \<open>New\<close>, and \<open>Put\<close>.\<close>

definition pool_get :: "nat option \<Rightarrow> nat \<Rightarrow> allocator \<Rightarrow> slice \<times> allocator" where
  "pool_get pick i a =
     (case pick of
        Some j \<Rightarrow> (if j < length (a ! i) then (a ! i ! j, a[i := take j (a ! i) @ drop (Suc j) (a ! i)])
                   else (make_slice (2 ^ i), a))
      | None \<Rightarrow> (make_slice (2 ^ i), a))"

definition pool_put :: "nat \<Rightarrow> slice \<Rightarrow> allocator \<Rightarrow> allocator" where
  "pool_put i b a = a[i := b # a ! i]"

text \<open>\<open>b[:n]\<close>, up to the capacity.\<close>

definition reslice :: "nat \<Rightarrow> slice \<Rightarrow> slice res" where
  "reslice n b = (if n \<le> cap b then Ok (b\<lparr>sl_len := n\<rparr>) else Err out_of_range)"

definition alloc_get :: "nat option \<Rightarrow> int \<Rightarrow> allocator \<Rightarrow> slice option res \<times> allocator" where
  "alloc_get pick sz a =
     (if sz < 0 then (Err (Panic ''alloc.Get: len out of range''), a)
      else if sz = 0 then (Ok None, a)
      else if 65536 < sz then (Ok (Some (make_slice (nat sz))), a)
      else let bits = unat (msb sz);
               i = (if sz = 2 ^ bits then bits else bits + 1) in
        if length a \<le> i then (Err out_of_range, a)
        else case pool_get pick i a of (b, a') \<Rightarrow> (rbind (reslice (nat sz) b) (\<lambda>b. Ok (Some b)), a'))"

definition alloc_put :: "slice \<Rightarrow> allocator \<Rightarrow> gerr option \<times> allocator" where
  "alloc_put b a =
     (if cap b = 0 \<or> 65536 < cap b then (None, a)
      else let bits = unat (msb (int (cap b))) in
        if cap b \<noteq> 2 ^ bits then (Some (Msg ''allocator Put() incorrect buffer size''), a)
        else (None, pool_put bits b a))"

section \<open>The size classes\<close>

lemma bits_len_pow: "0 < n \<Longrightarrow> 2 ^ (bits_len n - 1) \<le> n \<and> n < 2 ^ bits_len n \<and> 0 < bits_len n"
proof (induction n rule: bits_len.induct)
  case (1 n)
  show ?case
  proof (cases "n = 1")
    case True
    then show ?thesis by (simp add: bits_len.simps [of "Suc 0"] bits_len.simps [of 0])
  next
    case False
    then have h: "0 < n div 2" using 1(2) by simp
    have b: "bits_len n = Suc (bits_len (n div 2))" using 1(2) by (simp add: bits_len.simps [of n])
    define m where "m = bits_len (n div 2)"
    have ih: "2 ^ (m - 1) \<le> n div 2" "n div 2 < 2 ^ m" "0 < m"
      using 1(1) h 1(2) unfolding m_def by auto
    have p: "(2 :: nat) ^ m = 2 * 2 ^ (m - 1)" using ih(3) by (cases m) simp_all
    have "2 ^ m \<le> n" "n < 2 * 2 ^ m" using ih(1,2) p by linarith+
    then show ?thesis unfolding b m_def [symmetric] by simp
  qed
qed

lemma msb_pow:
  assumes "0 < n" "n \<le> 65536"
  shows "2 ^ unat (msb (int n)) \<le> n" "n < 2 * 2 ^ unat (msb (int n))" "unat (msb (int n)) \<le> 16"
    "unat (msb (int n)) = 16 \<Longrightarrow> n = 65536"
proof -
  have u: "unat (word_of_int (int n) :: 32 word) = n" using assms(2) by (simp add: unat_of_nat)
  define b where "b = bits_len n"
  have b: "2 ^ (b - 1) \<le> n" "n < 2 ^ b" "0 < b" using bits_len_pow [OF assms(1)] by (simp_all add: b_def)
  have "b - 1 \<le> 16"
  proof (rule ccontr)
    assume "\<not> b - 1 \<le> 16"
    then have "(2 :: nat) ^ 17 \<le> 2 ^ (b - 1)" by (intro power_increasing) auto
    then show False using b(1) assms(2) by simp
  qed
  have ib: "int b - 1 = int (b - 1)" using b(3) by simp
  have w: "unat (word_of_nat (b - 1) :: 16 word) = b - 1"
    using \<open>b - 1 \<le> 16\<close> by (intro word_of_nat_unat_16) linarith
  have "unat (msb (int n)) = unat (word_of_int (int (b - 1)) :: 16 word)"
    unfolding msb_def u b_def [symmetric] ib ..
  then have m: "unat (msb (int n)) = b - 1" by (simp only: of_int_of_nat_eq w)
  have "(2 :: nat) ^ b = 2 * 2 ^ (b - 1)" using b(3) by (cases b) simp_all
  then show "2 ^ unat (msb (int n)) \<le> n" "n < 2 * 2 ^ unat (msb (int n))" "unat (msb (int n)) \<le> 16"
    "unat (msb (int n)) = 16 \<Longrightarrow> n = 65536"
    using b \<open>b - 1 \<le> 16\<close> assms(2) unfolding m by simp_all
qed

text \<open>Pool \<open>i\<close> only holds buffers of capacity \<open>2 ^ i\<close>.\<close>

definition alloc_ok :: "allocator \<Rightarrow> bool" where
  "alloc_ok a \<longleftrightarrow> length a = 17 \<and> (\<forall>i < 17. \<forall>b \<in> set (a ! i). cap b = 2 ^ i)"

lemma alloc_ok_new: "alloc_ok newAllocator"
  by (simp add: alloc_ok_def newAllocator_def)

lemma pool_get_ok:
  assumes "alloc_ok a" "i < 17"
  shows "cap (fst (pool_get pick i a)) = 2 ^ i" "alloc_ok (snd (pool_get pick i a))"
  using assms
  by (auto simp: pool_get_def alloc_ok_def make_slice_def nth_list_update dest: in_set_takeD in_set_dropD
      split: option.split)

lemma pool_put_ok: "alloc_ok a \<Longrightarrow> i < 17 \<Longrightarrow> cap b = 2 ^ i \<Longrightarrow> alloc_ok (pool_put i b a)"
  by (auto simp: pool_put_def alloc_ok_def nth_list_update)

lemma alloc_put_ok: "alloc_ok a \<Longrightarrow> alloc_ok (snd (alloc_put b a))"
  using msb_pow [of "cap b"] by (auto simp: alloc_put_def Let_def intro!: pool_put_ok)

lemma alloc_get_ok:
  assumes "alloc_ok a" "0 < n" "n \<le> 65536"
  shows "\<exists>b a'. alloc_get pick (int n) a = (Ok (Some b), a') \<and> alloc_ok a' \<and> sl_len b = n \<and> n \<le> cap b
    \<and> cap b < 2 * n \<and> (\<exists>i \<le> 16. cap b = 2 ^ i)"
proof -
  define m where "m = unat (msb (int n))"
  note p = msb_pow [OF assms(2,3), folded m_def]
  define i where "i = (if n = 2 ^ m then m else Suc m)"
  have n: "int n = 2 ^ m \<longleftrightarrow> n = 2 ^ m" by (metis of_nat_eq_iff of_nat_numeral of_nat_power)
  have i: "i \<le> 16" "n \<le> 2 ^ i" "2 ^ i < 2 * n"
  proof -
    show "i \<le> 16" using p(3,4) n by (cases "m = 16") (auto simp: i_def)
    show "n \<le> 2 ^ i" "2 ^ i < 2 * n" using p(1,2) n assms(2) by (auto simp: i_def)
  qed
  obtain b a' where g: "pool_get pick i a = (b, a')" by (cases "pool_get pick i a")
  have b: "cap b = 2 ^ i" "alloc_ok a'" using pool_get_ok [OF assms(1), of i pick] i(1) g by auto
  have "alloc_get pick (int n) a = (Ok (Some (b\<lparr>sl_len := n\<rparr>)), a')"
  proof -
    have c: "(if int n = 2 ^ m then m else m + 1) = i" by (simp add: i_def)
    have l: "\<not> length a \<le> i" using assms(1) i(1) by (simp add: alloc_ok_def)
    show ?thesis
      using assms(2,3) b(1) i(2)
      by (simp only: alloc_get_def Let_def m_def [symmetric] c l g prod.case) (simp add: reslice_def)
  qed
  then show ?thesis using b i by (intro exI [of _ "b\<lparr>sl_len := n\<rparr>"] exI [of _ a']) auto
qed

section \<open>Runs\<close>

datatype alloc_op = AGet "nat option" int | APut slice

fun alloc_run :: "alloc_op list \<Rightarrow> allocator \<Rightarrow> allocator" where
  "alloc_run [] a = a"
| "alloc_run (AGet pick sz # xs) a = alloc_run xs (snd (alloc_get pick sz a))"
| "alloc_run (APut b # xs) a = alloc_run xs (snd (alloc_put b a))"

lemma alloc_get_inv: "alloc_ok a \<Longrightarrow> alloc_ok (snd (alloc_get pick sz a))"
proof (cases "0 < sz \<and> sz \<le> 65536")
  case True
  then show "alloc_ok a \<Longrightarrow> alloc_ok (snd (alloc_get pick sz a))"
    using alloc_get_ok [of a "nat sz" pick] by fastforce
qed (auto simp: alloc_get_def)

lemma alloc_run_ok: "alloc_ok a \<Longrightarrow> alloc_ok (alloc_run xs a)"
  by (induction xs a rule: alloc_run.induct) (auto simp: alloc_get_inv alloc_put_ok)

text \<open>The allocator gives buffers of the right size. Whatever was requested and put back before, of any
  capacity, a request for 1 to 65536 bytes does not panic and returns a buffer of exactly that length whose
  capacity is a power of two and less than twice the length; and \<open>Put\<close> refuses, without keeping it, every buffer
  of at most 65536 bytes whose capacity is not a power of two.\<close>

theorem alloc_sizes:
  assumes "0 < n" "n \<le> 65536" "a = alloc_run xs newAllocator"
  shows "\<exists>b a'. alloc_get pick (int n) a = (Ok (Some b), a') \<and> sl_len b = n \<and> n \<le> cap b \<and> cap b < 2 * n
      \<and> (\<exists>i \<le> 16. cap b = 2 ^ i)
    \<and> (cap b' = n \<longrightarrow> (\<forall>i. n \<noteq> 2 ^ i) \<longrightarrow>
        alloc_put b' a = (Some (Msg ''allocator Put() incorrect buffer size''), a))"
proof -
  have ok: "alloc_ok a" unfolding assms(3) by (rule alloc_run_ok [OF alloc_ok_new])
  have "alloc_put b' a = (Some (Msg ''allocator Put() incorrect buffer size''), a)"
    if "cap b' = n" "\<forall>i. n \<noteq> 2 ^ i"
    using that assms(1,2) by (simp add: alloc_put_def Let_def)
  then show ?thesis using alloc_get_ok [OF ok assms(1,2), of pick] by blast
qed

theorem alloc_sizes_witness:
  "\<exists>b a'. alloc_get (Some 0) 1000 (alloc_run [APut (make_slice 1024), AGet None 5] newAllocator) = (Ok (Some b), a')
    \<and> sl_len b = 1000 \<and> cap b < 2000"
  using alloc_sizes [of 1000 "alloc_run [APut (make_slice 1024), AGet None 5] newAllocator"
      "[APut (make_slice 1024), AGet None 5]" "Some 0" "make_slice 3"] by auto

end
