(* ===== verification/ShadowAead.thy ===== *)
theory ShadowAead
  imports Conn
begin

text \<open>
  \<open>transport/shadowsocks/shadowaead\<close>: authenticated encryption of streams and packets, with a salted subkey
  per direction. A \<open>cipher.AEAD\<close>, the key derivation and the random salts are parameters. A writer or
  reader is its nonce and buffer; the connection below it is a \<open>conn\<close>.
\<close>

section \<open>Ciphers\<close>

record aead =
  ae_seal :: "bytes \<Rightarrow> bytes \<Rightarrow> bytes"
  ae_open :: "bytes \<Rightarrow> bytes \<Rightarrow> bytes option"
  ae_nonceSize :: nat
  ae_overhead :: nat

text \<open>What \<open>cipher.AEAD\<close> promises, and the sizes for which the buffers and nonces of this package suffice.\<close>

definition aead_ok :: "aead \<Rightarrow> bool" where
  "aead_ok a \<longleftrightarrow> ae_nonceSize a \<le> 32 \<and> ae_overhead a \<le> 500
     \<and> (\<forall>n p. length n = ae_nonceSize a \<longrightarrow>
          length (ae_seal a n p) = length p + ae_overhead a \<and> ae_open a n (ae_seal a n p) = Some p)"

text \<open>The interface \<open>Cipher\<close> and its implementation \<open>metaCipher\<close>; \<open>hkdf\<close> is \<open>hkdfSHA1\<close> with the info string of
  the code (secret, salt, length of the key), \<open>mk\<close> the constructor of the AEAD.\<close>

record meta_cipher =
  mc_psk :: bytes
  mc_makeAEAD :: "bytes \<Rightarrow> aead res"

definition keySize :: "meta_cipher \<Rightarrow> nat" where "keySize m = length (mc_psk m)"

definition saltSize :: "meta_cipher \<Rightarrow> nat" where
  "saltSize m = (if 16 < keySize m then keySize m else 16)"

type_synonym kdf = "bytes \<Rightarrow> bytes \<Rightarrow> string \<Rightarrow> nat \<Rightarrow> bytes"

definition encrypter :: "kdf \<Rightarrow> meta_cipher \<Rightarrow> bytes \<Rightarrow> aead res" where
  "encrypter hkdf m salt = mc_makeAEAD m (hkdf (mc_psk m) salt ''ss-subkey'' (keySize m))"

definition decrypter :: "kdf \<Rightarrow> meta_cipher \<Rightarrow> bytes \<Rightarrow> aead res" where
  "decrypter hkdf m salt = mc_makeAEAD m (hkdf (mc_psk m) salt ''ss-subkey'' (keySize m))"

definition KeySizeError :: "nat \<Rightarrow> gerr" where
  "KeySizeError n = Msg ''key size error''"

definition newAESGCM :: "(bytes \<Rightarrow> aead res) \<Rightarrow> bytes \<Rightarrow> meta_cipher res" where
  "newAESGCM aesGCM psk =
     (if length psk = 16 \<or> length psk = 24 \<or> length psk = 32 then Ok \<lparr>mc_psk = psk, mc_makeAEAD = aesGCM\<rparr>
      else Err (KeySizeError (length psk)))"

definition newChacha20Poly1305 :: "(bytes \<Rightarrow> aead res) \<Rightarrow> bytes \<Rightarrow> meta_cipher res" where
  "newChacha20Poly1305 newX psk =
     (if length psk \<noteq> 32 then Err (KeySizeError 32) else Ok \<lparr>mc_psk = psk, mc_makeAEAD = newX\<rparr>)"

definition newXChacha20Poly1305 :: "(bytes \<Rightarrow> aead res) \<Rightarrow> bytes \<Rightarrow> meta_cipher res" where
  "newXChacha20Poly1305 newX psk =
     (if length psk \<noteq> 32 then Err (KeySizeError 32) else Ok \<lparr>mc_psk = psk, mc_makeAEAD = newX\<rparr>)"

section \<open>Nonces\<close>

fun increment :: "bytes \<Rightarrow> bytes" where
  "increment [] = []"
| "increment (b # bs) = (if b + 1 \<noteq> 0 then (b + 1) # bs else (b + 1) # increment bs)"

section \<open>Writer\<close>

definition payloadSizeMask :: nat where "payloadSizeMask = 0x3FFF"
definition bufSize :: nat where "bufSize = 17 * 1024"

definition ErrZeroChunk :: gerr where "ErrZeroChunk = Msg ''zero chunk''"

text \<open>A writer or reader starts with a nonce of zeros. The buffer of \<open>bufSize\<close> bytes from the pool has a
  capacity of 32768, up to which it can be sliced.\<close>

definition zero_nonce :: "aead \<Rightarrow> bytes" where "zero_nonce a = replicate (ae_nonceSize a) 0"

definition size_bytes :: "nat \<Rightarrow> bytes" where "size_bytes n = put_be16 (word_of_nat n)"

text \<open>One record: the sealed size and the sealed payload, each with its nonce.\<close>

definition seal_record :: "aead \<Rightarrow> bytes \<Rightarrow> bytes \<Rightarrow> bytes" where
  "seal_record a nonce p = ae_seal a nonce (size_bytes (length p)) @ ae_seal a (increment nonce) p"

text \<open>The loop of \<open>Write\<close>: the number of bytes counted, the error, the nonce. The count goes up for a chunk
  whose write failed too.\<close>

function aw_loop :: "aead \<Rightarrow> bytes \<Rightarrow> nat \<Rightarrow> bytes \<Rightarrow> conn \<Rightarrow> (nat \<times> gerr option \<times> bytes) \<times> conn" where
  "aw_loop a p n nonce c =
     (if length p \<le> n then ((n, None, nonce), c)
      else let nr = (if length p < n + payloadSizeMask then length p - n else payloadSizeMask) in
        if 32768 < 2 + ae_overhead a + nr + ae_overhead a then ((n, Some out_of_range, nonce), c)
        else case io_write (seal_record a nonce (take nr (drop n p))) c of
          (Inl e, c') \<Rightarrow> ((n + nr, Some e, increment (increment nonce)), c')
        | (Inr _, c') \<Rightarrow> aw_loop a p (n + nr) (increment (increment nonce)) c')"
  by pat_completeness auto
termination
  by (relation "measure (\<lambda>(a, p, n, nonce, c). length p - n)") (auto simp: payloadSizeMask_def split: if_splits)

declare aw_loop.simps [simp del]

definition aw_write :: "aead \<Rightarrow> bytes \<Rightarrow> bytes \<Rightarrow> conn \<Rightarrow> (nat \<times> gerr option \<times> bytes) \<times> conn" where
  "aw_write a p nonce c =
     (if p = [] then
        (case io_write (ae_seal a nonce [0, 0]) c of
           (Inl e, c') \<Rightarrow> ((0, Some e, increment nonce), c')
         | (Inr _, c') \<Rightarrow> ((0, None, increment nonce), c'))
      else aw_loop a p 0 nonce c)"

text \<open>\<open>ReadFrom\<close>: the source is the list of results of its reads (data and error), at the end of which it
  reports \<open>EOF\<close> without data. A read without data still becomes a record.\<close>

fun aw_readFrom ::
  "aead \<Rightarrow> (bytes \<times> gerr option) list \<Rightarrow> nat \<Rightarrow> bytes \<Rightarrow> conn \<Rightarrow> (nat \<times> gerr option \<times> bytes) \<times> conn" where
  "aw_readFrom a [] n nonce c =
     (case io_write (seal_record a nonce []) c of
        (Inl e, c') \<Rightarrow> ((n, Some e, increment (increment nonce)), c')
      | (Inr _, c') \<Rightarrow> ((n, None, increment (increment nonce)), c'))"
| "aw_readFrom a ((d, er) # src) n nonce c =
     (case io_write (seal_record a nonce d) c of
        (Inl e, c') \<Rightarrow> ((n + length d, Some e, increment (increment nonce)), c')
      | (Inr _, c') \<Rightarrow>
          (case er of
             None \<Rightarrow> aw_readFrom a src (n + length d) (increment (increment nonce)) c'
           | Some e \<Rightarrow> ((n + length d, if e = EOF then None else Some e, increment (increment nonce)), c')))"

section \<open>Reader\<close>

text \<open>The rest of the buffer is \<open>ar_buf\<close>, \<open>None\<close> for a nil one.\<close>

record areader =
  ar_nonce :: bytes
  ar_buf :: "bytes option"

definition new_reader :: "aead \<Rightarrow> areader" where
  "new_reader a = \<lparr>ar_nonce = zero_nonce a, ar_buf = None\<rparr>"

definition ar_read :: "aead \<Rightarrow> areader \<Rightarrow> conn \<Rightarrow> (bytes res \<times> areader) \<times> conn" where
  "ar_read a r c =
     (case io_read (2 + ae_overhead a) c of
        (Inl e, c1) \<Rightarrow> ((Err e, r), c1)
      | (Inr x, c1) \<Rightarrow>
          let r1 = r\<lparr>ar_nonce := increment (ar_nonce r)\<rparr> in
          (case ae_open a (ar_nonce r) x of
             None \<Rightarrow> ((Err AuthErr, r1), c1)
           | Some h \<Rightarrow>
               let sz = unat (get_be16 h) mod (payloadSizeMask + 1) in
               if sz = 0 then ((Err ErrZeroChunk, r1), c1)
               else case io_read (sz + ae_overhead a) c1 of
                 (Inl e, c2) \<Rightarrow> ((Err e, r1), c2)
               | (Inr y, c2) \<Rightarrow>
                   let r2 = r1\<lparr>ar_nonce := increment (ar_nonce r1)\<rparr> in
                   (case ae_open a (ar_nonce r1) y of
                      None \<Rightarrow> ((Err AuthErr, r2), c2)
                    | Some d \<Rightarrow> ((Ok d, r2), c2))))"

text \<open>\<open>Read\<close> into a buffer of \<open>len\<close> bytes.\<close>

definition ar_take :: "nat \<Rightarrow> bytes \<Rightarrow> areader \<Rightarrow> bytes \<times> areader" where
  "ar_take len b r = (take len b, r\<lparr>ar_buf := (if length b \<le> len then None else Some (drop len b))\<rparr>)"

definition ar_Read :: "aead \<Rightarrow> nat \<Rightarrow> areader \<Rightarrow> conn \<Rightarrow> (bytes res \<times> areader) \<times> conn" where
  "ar_Read a len r c =
     (case ar_buf r of
        Some b \<Rightarrow> (case ar_take len b r of (d, r') \<Rightarrow> ((Ok d, r'), c))
      | None \<Rightarrow>
          if payloadSizeMask + ae_overhead a \<le> len then ar_read a r c
          else (case ar_read a r c of
              ((Inl e, r'), c') \<Rightarrow> ((Err e, r'), c')
            | ((Inr b, r'), c') \<Rightarrow> (case ar_take len b r' of (d, r'') \<Rightarrow> ((Ok d, r''), c'))))"

text \<open>\<open>WriteTo(w)\<close>: the loop, with the number of bytes written so far. After an error the buffer is left
  empty but not nil, or holds what was not written.\<close>

lemma io_read_shorter: "io_read n c = (Inr x, c') \<Longrightarrow> length (rd c') + n = length (rd c)"
  by (auto simp: io_read_Ok_iff)

lemma ar_read_shorter: "ar_read a r c = ((Inr d, r'), c') \<Longrightarrow> length (rd c') < length (rd c)"
  by (auto simp: ar_read_def Let_def split: sum.splits prod.splits option.splits if_splits
      dest!: io_read_shorter)

function ar_WriteTo ::
  "aead \<Rightarrow> nat \<Rightarrow> areader \<Rightarrow> conn \<Rightarrow> conn \<Rightarrow> (nat \<times> gerr option) \<times> areader \<times> conn \<times> conn" where
  "ar_WriteTo a n r c w =
     (case ar_read a r c of
        ((Inl e, r'), c') \<Rightarrow> ((n, if e = EOF then None else Some e), r'\<lparr>ar_buf := Some []\<rparr>, c', w)
      | ((Inr d, r'), c') \<Rightarrow>
          (case io_write d w of
             (Inl e, w') \<Rightarrow> ((n, Some e), r'\<lparr>ar_buf := Some d\<rparr>, c', w')
           | (Inr _, w') \<Rightarrow> ar_WriteTo a (n + length d) r' c' w'))"
  by pat_completeness auto
termination
  by (relation "measure (\<lambda>(a, n, r, c, w). length (rd c))") (auto dest: ar_read_shorter [OF sym])

declare ar_WriteTo.simps [simp del]

definition ar_writeTo :: "aead \<Rightarrow> areader \<Rightarrow> conn \<Rightarrow> conn \<Rightarrow> (nat \<times> gerr option) \<times> areader \<times> conn \<times> conn" where
  "ar_writeTo a r c w =
     (case ar_buf r of
        None \<Rightarrow> ar_WriteTo a 0 r c w
      | Some b \<Rightarrow>
          if b = [] then ar_WriteTo a 0 r c w
          else (case io_write b w of
             (Inl e, w') \<Rightarrow> ((0, Some e), r, c, w')
           | (Inr _, w') \<Rightarrow> ar_WriteTo a (length b) (r\<lparr>ar_buf := Some []\<rparr>) c w'))"

section \<open>Connections\<close>

record aconn =
  ac_r :: "(aead \<times> areader) option"
  ac_w :: "(aead \<times> bytes) option"

definition newConn :: aconn where "newConn = \<lparr>ac_r = None, ac_w = None\<rparr>"

definition initReader :: "kdf \<Rightarrow> meta_cipher \<Rightarrow> (aead \<times> areader) io" where
  "initReader hkdf m =
     io_bind (io_read (saltSize m)) (\<lambda>salt.
     io_bind (io_res (decrypter hkdf m salt)) (\<lambda>a. io_ret (a, new_reader a)))"

text \<open>\<open>salt\<close> is what \<open>rand.Read\<close> puts in the salt.\<close>

definition initWriter :: "kdf \<Rightarrow> meta_cipher \<Rightarrow> bytes \<Rightarrow> (aead \<times> bytes) io" where
  "initWriter hkdf m salt =
     io_bind (io_res (encrypter hkdf m salt)) (\<lambda>a.
     io_bind (io_write salt) (\<lambda>_. io_ret (a, zero_nonce a)))"

definition ac_Write ::
  "kdf \<Rightarrow> meta_cipher \<Rightarrow> bytes \<Rightarrow> bytes \<Rightarrow> aconn \<Rightarrow> conn \<Rightarrow> ((nat \<times> gerr option) \<times> aconn) \<times> conn" where
  "ac_Write hkdf m salt p s c =
     (let w = (case ac_w s of Some w \<Rightarrow> (Ok w, c) | None \<Rightarrow> initWriter hkdf m salt c) in
      case w of
        (Inl e, c1) \<Rightarrow> (((0, Some e), s), c1)
      | (Inr (a, nonce), c1) \<Rightarrow>
          (case aw_write a p nonce c1 of
             ((n, e, nonce'), c2) \<Rightarrow> (((n, e), s\<lparr>ac_w := Some (a, nonce')\<rparr>), c2)))"

definition ac_ReadFrom ::
  "kdf \<Rightarrow> meta_cipher \<Rightarrow> bytes \<Rightarrow> (bytes \<times> gerr option) list \<Rightarrow> aconn \<Rightarrow> conn \<Rightarrow> ((nat \<times> gerr option) \<times> aconn) \<times> conn" where
  "ac_ReadFrom hkdf m salt src s c =
     (let w = (case ac_w s of Some w \<Rightarrow> (Ok w, c) | None \<Rightarrow> initWriter hkdf m salt c) in
      case w of
        (Inl e, c1) \<Rightarrow> (((0, Some e), s), c1)
      | (Inr (a, nonce), c1) \<Rightarrow>
          (case aw_readFrom a src 0 nonce c1 of
             ((n, e, nonce'), c2) \<Rightarrow> (((n, e), s\<lparr>ac_w := Some (a, nonce')\<rparr>), c2)))"

definition ac_Read :: "kdf \<Rightarrow> meta_cipher \<Rightarrow> nat \<Rightarrow> aconn \<Rightarrow> conn \<Rightarrow> (bytes res \<times> aconn) \<times> conn" where
  "ac_Read hkdf m len s c =
     (let r = (case ac_r s of Some r \<Rightarrow> (Ok r, c) | None \<Rightarrow> initReader hkdf m c) in
      case r of
        (Inl e, c1) \<Rightarrow> ((Err e, s), c1)
      | (Inr (a, rr), c1) \<Rightarrow>
          (case ar_Read a len rr c1 of ((d, rr'), c2) \<Rightarrow> ((d, s\<lparr>ac_r := Some (a, rr')\<rparr>), c2)))"

definition ac_WriteTo ::
  "kdf \<Rightarrow> meta_cipher \<Rightarrow> aconn \<Rightarrow> conn \<Rightarrow> conn \<Rightarrow> ((nat \<times> gerr option) \<times> aconn) \<times> conn \<times> conn" where
  "ac_WriteTo hkdf m s c w =
     (let r = (case ac_r s of Some r \<Rightarrow> (Ok r, c) | None \<Rightarrow> initReader hkdf m c) in
      case r of
        (Inl e, c1) \<Rightarrow> (((0, Some e), s), c1, w)
      | (Inr (a, rr), c1) \<Rightarrow>
          (case ar_writeTo a rr c1 w of (ne, rr', c2, w') \<Rightarrow> ((ne, s\<lparr>ac_r := Some (a, rr')\<rparr>), c2, w')))"

section \<open>Packets\<close>

definition ErrShortPacket :: gerr where "ErrShortPacket = Msg ''short packet''"

text \<open>\<open>Pack(dst, plaintext, ciph)\<close> for a destination of \<open>dstLen\<close> bytes.\<close>

definition packPacket :: "kdf \<Rightarrow> meta_cipher \<Rightarrow> bytes \<Rightarrow> nat \<Rightarrow> bytes \<Rightarrow> bytes res" where
  "packPacket hkdf m salt dstLen plaintext =
     (if dstLen < saltSize m then Err out_of_range
      else rbind (encrypter hkdf m salt) (\<lambda>a.
        if dstLen < saltSize m + length plaintext + ae_overhead a then Err ShortBuffer
        else Ok (salt @ ae_seal a (zero_nonce a) plaintext)))"

definition unpackPacket :: "kdf \<Rightarrow> meta_cipher \<Rightarrow> nat \<Rightarrow> bytes \<Rightarrow> bytes res" where
  "unpackPacket hkdf m dstLen pkt =
     (if length pkt < saltSize m then Err ErrShortPacket
      else rbind (decrypter hkdf m (take (saltSize m) pkt)) (\<lambda>a.
        if length pkt < saltSize m + ae_overhead a then Err ErrShortPacket
        else if saltSize m + dstLen + ae_overhead a < length pkt then Err ShortBuffer
        else case ae_open a (zero_nonce a) (drop (saltSize m) pkt) of
          None \<Rightarrow> Err AuthErr | Some d \<Rightarrow> Ok d))"

text \<open>\<open>PacketConn.WriteTo\<close> up to the datagram it sends, and \<open>ReadFrom\<close> with a buffer of \<open>len\<close> bytes on a
  datagram received, cut to the buffer as datagram reads do.\<close>

definition maxPacketSize :: nat where "maxPacketSize = 64 * 1024"

definition pc_WriteTo :: "kdf \<Rightarrow> meta_cipher \<Rightarrow> bytes \<Rightarrow> bytes \<Rightarrow> (nat \<times> bytes) res" where
  "pc_WriteTo hkdf m salt b = rbind (packPacket hkdf m salt maxPacketSize b) (\<lambda>buf. Ok (length b, buf))"

definition pc_ReadFrom :: "kdf \<Rightarrow> meta_cipher \<Rightarrow> nat \<Rightarrow> bytes \<Rightarrow> bytes res" where
  "pc_ReadFrom hkdf m len pkt =
     (let b = take len pkt in
      if len < saltSize m then Err out_of_range else unpackPacket hkdf m (len - saltSize m) b)"

end
