(* ===== verification/ShadowFacts.thy ===== *)
theory ShadowFacts
  imports ShadowAead
begin

text \<open>
  The encrypted stream delivers what was written: the writer emits a list of records, each sealed with the
  next two nonces, and a reader that starts with the same nonce opens them one by one whatever the sizes of
  its buffers. Nonces count, little-endian, so none is used twice within a stream.
\<close>

section \<open>Nonces\<close>

fun le_val :: "bytes \<Rightarrow> nat" where
  "le_val [] = 0"
| "le_val (b # bs) = unat b + 256 * le_val bs"

lemma length_increment [simp]: "length (increment n) = length n"
  by (induction n) auto

lemma le_val_less: "le_val n < 256 ^ length n"
proof (induction n)
  case (Cons b n)
  have "unat b + 256 * le_val n < 256 * Suc (le_val n)" using unat_byte_less [of b] by simp
  also have "\<dots> \<le> 256 * 256 ^ length n" using Cons by (intro mult_le_mono2) simp
  finally show ?case by simp
qed simp

lemma base256_eq: "a < 256 \<Longrightarrow> b < 256 \<Longrightarrow> a + 256 * x = b + 256 * y \<longleftrightarrow> a = b \<and> x = y" for a b x y :: nat
proof
  assume l: "a < 256" "b < 256" and e: "a + 256 * x = b + 256 * y"
  have "(a + 256 * x) mod 256 = (b + 256 * y) mod 256" using e by (rule arg_cong)
  then have "a = b" using l by (simp only: mod_mult_self2 mod_less)
  then show "a = b \<and> x = y" using e by simp
qed simp

lemma le_val_inject: "length m = length n \<Longrightarrow> le_val m = le_val n \<longleftrightarrow> m = n"
proof (induction m n rule: list_induct2)
  case (Cons a m b n)
  have "le_val (a # m) = le_val (b # n) \<longleftrightarrow> unat a = unat b \<and> le_val m = le_val n"
    using base256_eq [OF unat_byte_less unat_byte_less] by simp
  then show ?case using Cons by (simp add: word_unat_eq_iff)
qed simp

lemma le_val_increment: "le_val (increment n) = (if Suc (le_val n) = 256 ^ length n then 0 else Suc (le_val n))"
proof (induction n)
  case (Cons b n)
  show ?case
  proof (cases "b + 1 = 0")
    case False
    then have u: "unat (b + 1) = Suc (unat b)" by (simp add: unatSuc add.commute)
    have "Suc (unat b) < 256" using u unat_byte_less [of "b + 1"] by simp
    then have "Suc (unat b) + 256 * le_val n \<noteq> 0 + 256 * 256 ^ length n"
      by (subst base256_eq) simp_all
    then show ?thesis using False u by simp
  next
    case True
    have "b = - 1" using True by (simp add: eq_neg_iff_add_eq_0)
    moreover have "unat (- 1 :: byte) = 255" by code_simp
    ultimately have "unat b = 255" by simp
    then show ?thesis using True Cons by auto
  qed
qed simp

lemma le_val_zero: "le_val (replicate n 0) = 0"
  by (induction n) auto

lemma le_val_iterate: "k < 256 ^ n \<Longrightarrow> le_val ((increment ^^ k) (replicate n 0)) = k"
proof (induction k)
  case (Suc k)
  have "length ((increment ^^ k) (replicate n 0)) = n" by (induction k) auto
  then show ?case using Suc by (simp add: le_val_increment)
qed (simp add: le_val_zero)

section \<open>Writing\<close>

fun recs :: "aead \<Rightarrow> bytes \<Rightarrow> bytes list \<Rightarrow> bytes list" where
  "recs a nonce [] = []"
| "recs a nonce (p # ps) = seal_record a nonce p # recs a (increment (increment nonce)) ps"

definition nonce_after :: "bytes \<Rightarrow> 'a list \<Rightarrow> bytes" where
  "nonce_after nonce ps = (increment ^^ (2 * length ps)) nonce"

lemma nonce_after_simps [simp]:
  "nonce_after nonce [] = nonce" "nonce_after nonce (p # ps) = nonce_after (increment (increment nonce)) ps"
  by (simp_all add: nonce_after_def funpow_swap1)

lemma nonce_after_append [simp]: "nonce_after nonce (ps @ qs) = nonce_after (nonce_after nonce ps) qs"
  by (induction ps arbitrary: nonce) auto

lemma recs_append: "recs a nonce (ps @ qs) = recs a nonce ps @ recs a (nonce_after nonce ps) qs"
  by (induction ps arbitrary: nonce) auto

function chunks :: "bytes \<Rightarrow> bytes list" where
  "chunks p = (if p = [] then [] else take payloadSizeMask p # chunks (drop payloadSizeMask p))"
  by pat_completeness auto
termination by (relation "measure length") (auto simp: payloadSizeMask_def)

declare chunks.simps [simp del]

lemma concat_chunks [simp]: "concat (chunks p) = p"
proof (induction p rule: chunks.induct)
  case (1 p)
  then show ?case by (subst chunks.simps) auto
qed

definition payloads :: "bytes list \<Rightarrow> bool" where
  "payloads ps \<longleftrightarrow> (\<forall>p \<in> set ps. p \<noteq> [] \<and> length p \<le> payloadSizeMask)"

lemma payloads_simps [simp]: "payloads []" "payloads (p # ps) \<longleftrightarrow> p \<noteq> [] \<and> length p \<le> payloadSizeMask \<and> payloads ps"
  "payloads (ps @ qs) \<longleftrightarrow> payloads ps \<and> payloads qs"
  by (auto simp: payloads_def)

lemma payloads_chunks: "payloads (chunks p)"
proof (induction p rule: chunks.induct)
  case (1 p)
  then show ?case by (subst chunks.simps) (auto simp: payloadSizeMask_def)
qed

lemma aw_loop_good:
  assumes "aead_ok a" "wbad c = (\<lambda>_. False)"
  shows "aw_loop a p n nonce c
    = ((max n (length p), None, nonce_after nonce (chunks (drop n p))), c\<lparr>wr := wr c @ recs a nonce (chunks (drop n p))\<rparr>)"
  using assms
proof (induction a p n nonce c rule: aw_loop.induct)
  case (1 a p n nonce c)
  show ?case
  proof (cases "length p \<le> n")
    case True
    then show ?thesis by (simp add: aw_loop.simps [of _ _ n] chunks.simps [of "[]"])
  next
    case False
    define nr where "nr = (if length p < n + payloadSizeMask then length p - n else payloadSizeMask)"
    have t: "take nr (drop n p) = take payloadSizeMask (drop n p)" "nr \<le> payloadSizeMask" "n < length p"
      "drop (n + nr) p = drop payloadSizeMask (drop n p)" "max (n + nr) (length p) = length p"
      using False by (auto simp: nr_def add.commute)
    have b: "\<not> 32768 < 2 + ae_overhead a + nr + ae_overhead a"
    proof -
      have "ae_overhead a \<le> 500" using 1(2) by (simp add: aead_ok_def)
      then show ?thesis using t(2) unfolding payloadSizeMask_def by linarith
    qed
    have w: "io_write (seal_record a nonce (take nr (drop n p))) c
        = (Inr (), c\<lparr>wr := wr c @ [seal_record a nonce (take nr (drop n p))]\<rparr>)"
      using 1(3) by simp
    have ch: "chunks (drop n p) = take payloadSizeMask (drop n p) # chunks (drop (n + nr) p)"
      using t(3,4) by (subst chunks.simps) simp
    have "aw_loop a p (n + nr) (increment (increment nonce)) (c\<lparr>wr := wr c @ [seal_record a nonce (take nr (drop n p))]\<rparr>)
      = ((max (n + nr) (length p), None, nonce_after (increment (increment nonce)) (chunks (drop (n + nr) p))),
         c\<lparr>wr := (wr c @ [seal_record a nonce (take nr (drop n p))])
             @ recs a (increment (increment nonce)) (chunks (drop (n + nr) p))\<rparr>)"
      using 1(1) [OF False nr_def b w [symmetric] refl 1(2)] 1(3) by simp
    then show ?thesis
      using False b w t(3,5) by (subst aw_loop.simps) (simp add: Let_def nr_def [symmetric] ch t(1))
  qed
qed

lemma aw_write_good:
  assumes "aead_ok a" "wbad c = (\<lambda>_. False)" "p \<noteq> []"
  shows "aw_write a p nonce c
    = ((length p, None, nonce_after nonce (chunks p)), c\<lparr>wr := wr c @ recs a nonce (chunks p)\<rparr>)"
  using assms aw_loop_good [OF assms(1,2), of p 0 nonce] by (simp add: aw_write_def)

section \<open>Reading\<close>

lemma payload_size:
  "p \<noteq> [] \<Longrightarrow> length p \<le> payloadSizeMask \<Longrightarrow>
   unat (get_be16 (size_bytes (length p))) mod (payloadSizeMask + 1) = length p"
proof -
  assume "p \<noteq> []" "length p \<le> payloadSizeMask"
  then have "unat (word_of_nat (length p) :: 16 word) = length p"
    by (intro word_of_nat_unat_16) (simp add: payloadSizeMask_def)
  then show ?thesis using \<open>length p \<le> payloadSizeMask\<close> by (simp add: size_bytes_def)
qed

lemma length_size_bytes [simp]: "length (size_bytes n) = 2"
  by (simp add: size_bytes_def)

lemma ar_read_record:
  assumes "aead_ok a" "length (ar_nonce r) = ae_nonceSize a" "p \<noteq> []" "length p \<le> payloadSizeMask"
    and "rd c = seal_record a (ar_nonce r) p @ rest"
  shows "ar_read a r c = ((Ok p, r\<lparr>ar_nonce := increment (increment (ar_nonce r))\<rparr>), c\<lparr>rd := rest\<rparr>)"
proof -
  let ?n = "ar_nonce r" and ?m = "increment (ar_nonce r)"
  have l: "length (ae_seal a ?n (size_bytes (length p))) = 2 + ae_overhead a"
    "length (ae_seal a ?m p) = length p + ae_overhead a"
    "ae_open a ?n (ae_seal a ?n (size_bytes (length p))) = Some (size_bytes (length p))"
    "ae_open a ?m (ae_seal a ?m p) = Some p"
    using assms(1,2) by (simp_all add: aead_ok_def)
  have r1: "io_read (2 + ae_overhead a) c
      = (Inr (ae_seal a ?n (size_bytes (length p))), c\<lparr>rd := ae_seal a ?m p @ rest\<rparr>)"
    using assms(5) l(1) by (intro io_read_append) (simp_all add: seal_record_def)
  have r2: "io_read (length p + ae_overhead a) (c\<lparr>rd := ae_seal a ?m p @ rest\<rparr>)
      = (Inr (ae_seal a ?m p), c\<lparr>rd := rest\<rparr>)"
    using io_read_append [of "c\<lparr>rd := ae_seal a ?m p @ rest\<rparr>" "ae_seal a ?m p" rest] l(2) by simp
  show ?thesis
    unfolding ar_read_def r1 using l(3,4) r2 assms(3) payload_size [OF assms(3,4)] by (simp add: Let_def)
qed

lemma ar_read_empty: "rd c = [] \<Longrightarrow> ar_read a r c = ((Err EOF, r), c)"
  by (simp add: ar_read_def io_read_def read_full_def)

text \<open>A reader in step with the records \<open>qs\<close> that are still to come.\<close>

definition in_step :: "aead \<Rightarrow> areader \<Rightarrow> conn \<Rightarrow> bytes list \<Rightarrow> bool" where
  "in_step a r c qs \<longleftrightarrow> aead_ok a \<and> length (ar_nonce r) = ae_nonceSize a \<and> payloads qs
     \<and> rd c = concat (recs a (ar_nonce r) qs)"

definition pending :: "areader \<Rightarrow> bytes list \<Rightarrow> bytes" where
  "pending r qs = (case ar_buf r of None \<Rightarrow> [] | Some b \<Rightarrow> b) @ concat qs"

lemma in_step_read:
  assumes "in_step a r c (q # qs)"
  shows "\<exists>r' c'. ar_read a r c = ((Ok q, r'), c') \<and> in_step a r' c' qs \<and> ar_buf r' = ar_buf r"
  using assms ar_read_record [of a r q c "concat (recs a (increment (increment (ar_nonce r))) qs)"]
  by (auto simp: in_step_def)

lemma in_step_buf [simp]: "in_step a (r\<lparr>ar_buf := b\<rparr>) c qs \<longleftrightarrow> in_step a r c qs"
  by (simp add: in_step_def)

lemma ar_Read_step:
  assumes "in_step a r c qs" "ar_buf r \<noteq> Some []"
  shows "if pending r qs = [] then fst (fst (ar_Read a len r c)) = Err EOF
    else \<exists>d r' c' qs'. ar_Read a len r c = ((Ok d, r'), c') \<and> in_step a r' c' qs' \<and> ar_buf r' \<noteq> Some []
      \<and> pending r qs = d @ pending r' qs' \<and> (0 < len \<longrightarrow> d \<noteq> [])"
proof (cases "ar_buf r")
  case (Some b)
  then have b: "b \<noteq> []" using assms(2) by auto
  have "ar_Read a len r c = ((Ok (take len b), r\<lparr>ar_buf := (if length b \<le> len then None else Some (drop len b))\<rparr>), c)"
    using Some by (simp add: ar_Read_def ar_take_def)
  then show ?thesis
    using Some b assms(1)
    by (auto simp: pending_def intro!: exI [of _ qs])
next
  case None
  show ?thesis
  proof (cases qs)
    case Nil
    then have "rd c = []" using assms(1) by (simp add: in_step_def)
    then show ?thesis using None Nil ar_read_empty [of c a r] by (simp add: pending_def ar_Read_def)
  next
    case (Cons q qs')
    have q: "q \<noteq> []" "length q \<le> payloadSizeMask" using assms(1) Cons by (simp_all add: in_step_def)
    obtain r' c' where r: "ar_read a r c = ((Ok q, r'), c')" "in_step a r' c' qs'" "ar_buf r' = None"
      using in_step_read assms(1) Cons None by metis
    have p: "pending r qs = q @ concat qs'" using None Cons by (simp add: pending_def)
    show ?thesis
    proof (cases "payloadSizeMask + ae_overhead a \<le> len")
      case True
      then have "ar_Read a len r c = ((Ok q, r'), c')" using None r by (simp add: ar_Read_def)
      then show ?thesis using r p q by (auto simp: pending_def intro!: exI [of _ qs'])
    next
      case False
      then have "ar_Read a len r c
          = ((Ok (take len q), r'\<lparr>ar_buf := (if length q \<le> len then None else Some (drop len q))\<rparr>), c')"
        using None r by (simp add: ar_Read_def ar_take_def)
      then show ?thesis
        using r p q by (auto simp: pending_def intro!: exI [of _ qs'])
    qed
  qed
qed

section \<open>Connections\<close>

text \<open>A cipher whose subkeys give working AEADs; both directions derive the same one.\<close>

definition cipher_ok :: "kdf \<Rightarrow> meta_cipher \<Rightarrow> bool" where
  "cipher_ok hkdf m \<longleftrightarrow> (\<forall>salt. length salt = saltSize m \<longrightarrow>
     (\<exists>a. mc_makeAEAD m (hkdf (mc_psk m) salt ''ss-subkey'' (keySize m)) = Ok a \<and> aead_ok a))"

lemma cipher_okE:
  assumes "cipher_ok hkdf m" "length salt = saltSize m"
  obtains a where "encrypter hkdf m salt = Ok a" "decrypter hkdf m salt = Ok a" "aead_ok a"
  using assms unfolding cipher_ok_def encrypter_def decrypter_def by blast

fun ac_writes ::
  "kdf \<Rightarrow> meta_cipher \<Rightarrow> bytes \<Rightarrow> bytes list \<Rightarrow> aconn \<Rightarrow> conn \<Rightarrow> (nat \<times> gerr option) list \<times> aconn \<times> conn" where
  "ac_writes hkdf m salt [] s c = ([], s, c)"
| "ac_writes hkdf m salt (p # ps) s c =
     (case ac_Write hkdf m salt p s c of
        ((r, s'), c') \<Rightarrow> (case ac_writes hkdf m salt ps s' c' of (rs, s'', c'') \<Rightarrow> (r # rs, s'', c'')))"

text \<open>Reads with buffers of the given sizes, up to the first error: the data and the error.\<close>

fun ac_reads :: "kdf \<Rightarrow> meta_cipher \<Rightarrow> nat list \<Rightarrow> aconn \<Rightarrow> conn \<Rightarrow> bytes \<times> gerr option" where
  "ac_reads hkdf m [] s c = ([], None)"
| "ac_reads hkdf m (len # lens) s c =
     (case ac_Read hkdf m len s c of
        ((Inl e, _), _) \<Rightarrow> ([], Some e)
      | ((Inr d, s'), c') \<Rightarrow> (case ac_reads hkdf m lens s' c' of (ds, e) \<Rightarrow> (d @ ds, e)))"

lemma ac_writes_open:
  assumes "aead_ok a" "wbad c = (\<lambda>_. False)" "[] \<notin> set ps" "ac_w s = Some (a, nonce)"
  shows "\<exists>s'. ac_writes hkdf m salt ps s c = (map (\<lambda>p. (length p, None)) ps, s',
    c\<lparr>wr := wr c @ recs a nonce (concat (map chunks ps))\<rparr>)"
  using assms(2-4)
proof (induction ps arbitrary: s c nonce)
  case (Cons p ps)
  let ?s = "s\<lparr>ac_w := Some (a, nonce_after nonce (chunks p))\<rparr>" and ?c = "c\<lparr>wr := wr c @ recs a nonce (chunks p)\<rparr>"
  have pn: "p \<noteq> []" using Cons.prems(2) by auto
  have "ac_Write hkdf m salt p s c = (((length p, None), ?s), ?c)"
    using Cons.prems aw_write_good [OF assms(1) Cons.prems(1) pn, of nonce] by (simp add: ac_Write_def)
  then show ?case
    using Cons.IH [of ?c ?s "nonce_after nonce (chunks p)"] Cons.prems by (auto simp: recs_append)
qed simp

lemma ac_writes_new:
  assumes "cipher_ok hkdf m" "length salt = saltSize m" "[] \<notin> set ps" "ps \<noteq> []"
  obtains a s where "decrypter hkdf m salt = Ok a" "aead_ok a"
    "ac_writes hkdf m salt ps newConn (mk_conn inp) = (map (\<lambda>p. (length p, None)) ps, s,
      (mk_conn inp)\<lparr>wr := salt # recs a (zero_nonce a) (concat (map chunks ps))\<rparr>)"
proof -
  obtain a where a: "encrypter hkdf m salt = Ok a" "decrypter hkdf m salt = Ok a" "aead_ok a"
    by (rule cipher_okE [OF assms(1,2)])
  obtain p qs where ps: "ps = p # qs" using assms(4) by (cases ps) auto
  define n where "n = nonce_after (zero_nonce a) (chunks p)"
  define c where "c = (mk_conn inp)\<lparr>wr := salt # recs a (zero_nonce a) (chunks p)\<rparr>"
  have w: "initWriter hkdf m salt (mk_conn inp) = (Ok (a, zero_nonce a), (mk_conn inp)\<lparr>wr := [salt]\<rparr>)"
    using a(1) by (simp add: initWriter_def mk_conn_def)
  have pn: "p \<noteq> []" using assms(3) ps by auto
  have "ac_Write hkdf m salt p newConn (mk_conn inp) = (((length p, None), newConn\<lparr>ac_w := Some (a, n)\<rparr>), c)"
    using w aw_write_good [OF a(3), of "(mk_conn inp)\<lparr>wr := [salt]\<rparr>" p "zero_nonce a"] pn
    by (simp add: ac_Write_def newConn_def n_def c_def mk_conn_def)
  moreover obtain s where "ac_writes hkdf m salt qs (newConn\<lparr>ac_w := Some (a, n)\<rparr>) c
      = (map (\<lambda>p. (length p, None)) qs, s, c\<lparr>wr := wr c @ recs a n (concat (map chunks qs))\<rparr>)"
    using ac_writes_open [OF a(3), of c qs "newConn\<lparr>ac_w := Some (a, n)\<rparr>" n hkdf m salt] assms(3) ps
    by (auto simp: c_def mk_conn_def)
  ultimately show thesis
    using that [OF a(2,3), of s] ps by (simp add: c_def n_def recs_append)
qed

lemma payloads_all: "payloads (concat (map chunks ps))"
  using payloads_chunks by (auto simp: payloads_def)

lemma concat_all: "concat (concat (map chunks ps)) = concat ps"
  by (induction ps) auto

lemma length_zero_nonce [simp]: "length (zero_nonce a) = ae_nonceSize a"
  by (simp add: zero_nonce_def)

text \<open>What the reads give, from a reader in step.\<close>

lemma ac_reads_step:
  assumes "ac_r s = Some (a, r)" "in_step a r c qs" "ar_buf r \<noteq> Some []" "ac_reads hkdf m lens s c = (ds, e)"
  shows "\<exists>rest. pending r qs = ds @ rest \<and> (e = Some EOF \<longrightarrow> rest = []) \<and> (e = None \<or> e = Some EOF)
    \<and> (0 \<notin> set lens \<longrightarrow> e = None \<longrightarrow> length lens \<le> length ds)"
  using assms
proof (induction lens arbitrary: s r c qs ds)
  case (Cons len lens)
  show ?case
  proof (cases "pending r qs = []")
    case True
    obtain x where x: "ar_Read a len r c = ((Err EOF, fst x), snd x)"
      using ar_Read_step [OF Cons.prems(2,3), of len] True by (cases "ar_Read a len r c") auto
    have "ac_reads hkdf m (len # lens) s c = ([], Some EOF)"
      using Cons.prems(1) x by (simp add: ac_Read_def split: prod.split)
    then have "ds = []" "e = Some EOF" using Cons.prems(4) by simp_all
    then show ?thesis using True by simp
  next
    case False
    then obtain d r' c' qs' where d: "ar_Read a len r c = ((Ok d, r'), c')" "in_step a r' c' qs'"
      "ar_buf r' \<noteq> Some []" "pending r qs = d @ pending r' qs'" "0 < len \<longrightarrow> d \<noteq> []"
      using ar_Read_step [OF Cons.prems(2,3), of len] by auto
    let ?s = "s\<lparr>ac_r := Some (a, r')\<rparr>"
    have rd: "ac_Read hkdf m len s c = ((Ok d, ?s), c')" using Cons.prems(1) d(1) by (simp add: ac_Read_def)
    obtain ds' where ds: "ac_reads hkdf m lens ?s c' = (ds', e)" "ds = d @ ds'"
      using Cons.prems(4) rd by (auto split: prod.splits)
    have "\<exists>rest. pending r' qs' = ds' @ rest \<and> (e = Some EOF \<longrightarrow> rest = []) \<and> (e = None \<or> e = Some EOF)
        \<and> (0 \<notin> set lens \<longrightarrow> e = None \<longrightarrow> length lens \<le> length ds')"
      by (rule Cons.IH [OF _ d(2,3) ds(1)]) simp
    moreover have "Suc (length ds') \<le> length ds" if "0 < len" using d(5) that ds(2) by (cases d) auto
    ultimately show ?thesis using d(4) ds(2) by fastforce
  qed
qed auto

lemma ac_reads_new:
  assumes "cipher_ok hkdf m" "length salt = saltSize m" "decrypter hkdf m salt = Ok a" "aead_ok a" "payloads qs"
    and "rd c = salt @ concat (recs a (zero_nonce a) qs)" "ac_reads hkdf m lens newConn c = (ds, e)"
  shows "\<exists>rest. concat qs = ds @ rest \<and> (e = Some EOF \<longrightarrow> rest = []) \<and> (e = None \<or> e = Some EOF)
    \<and> (0 \<notin> set lens \<longrightarrow> e = None \<longrightarrow> length lens \<le> length ds)"
proof (cases lens)
  case Nil
  then show ?thesis using assms(7) by auto
next
  case (Cons len lens')
  let ?c = "c\<lparr>rd := concat (recs a (zero_nonce a) qs)\<rparr>" and ?s = "newConn\<lparr>ac_r := Some (a, new_reader a)\<rparr>"
  have "initReader hkdf m c = (Ok (a, new_reader a), ?c)"
    using assms(2,3) io_read_append [OF assms(6,2)] by (simp add: initReader_def)
  then have "ac_Read hkdf m len newConn c = ac_Read hkdf m len ?s ?c"
    by (simp add: ac_Read_def newConn_def split: prod.split)
  then have "ac_reads hkdf m lens ?s ?c = (ds, e)" using assms(7) Cons by simp
  moreover have "in_step a (new_reader a) ?c qs" using assms(4,5) by (simp add: in_step_def new_reader_def)
  ultimately show ?thesis
    using ac_reads_step [of ?s a "new_reader a" ?c qs hkdf m lens ds e] by (simp add: new_reader_def pending_def)
qed

section \<open>Properties\<close>

text \<open>C2: An encrypted stream delivers what was written. With any AEAD that opens what it seals, for any
  sequence of non-empty writes of any size every write reports its whole length; a peer that reads with buffers
  of any sizes gets a prefix of the concatenated data, no error but \<open>EOF\<close> and that only after all of it, and
  gets all of it when it reads often enough.\<close>

theorem aead_stream_delivery:
  assumes "cipher_ok hkdf m" "length salt = saltSize m" "[] \<notin> set ps"
    and "ac_writes hkdf m salt ps newConn (mk_conn inp) = (rs, s, c)"
    and "ac_reads hkdf m lens newConn (mk_conn (sent c)) = (ds, e)"
  shows "rs = map (\<lambda>p. (length p, None)) ps
    \<and> (\<exists>rest. concat ps = ds @ rest \<and> (e = Some EOF \<longrightarrow> rest = [])) \<and> (e = None \<or> e = Some EOF)
    \<and> (0 \<notin> set lens \<and> length (concat ps) < length lens \<longrightarrow> ds = concat ps)"
proof (cases "ps = []")
  case True
  then have c: "sent c = []" "rs = []" using assms(4) by (auto simp: mk_conn_def sent_def)
  have "saltSize m \<noteq> 0" by (simp add: saltSize_def)
  then have "ac_reads hkdf m lens newConn (mk_conn []) = ([], if lens = [] then None else Some EOF)"
    by (cases lens) (simp_all add: ac_Read_def newConn_def initReader_def io_read_def read_full_def mk_conn_def io_bind_def)
  then show ?thesis using True c assms(5) by (auto split: if_splits)
next
  case False
  obtain a s' where a: "decrypter hkdf m salt = Ok a" "aead_ok a"
    "ac_writes hkdf m salt ps newConn (mk_conn inp) = (map (\<lambda>p. (length p, None)) ps, s',
      (mk_conn inp)\<lparr>wr := salt # recs a (zero_nonce a) (concat (map chunks ps))\<rparr>)"
    by (rule ac_writes_new [OF assms(1-3) False])
  then have rs: "rs = map (\<lambda>p. (length p, None)) ps"
    and rd: "rd (mk_conn (sent c)) = salt @ concat (recs a (zero_nonce a) (concat (map chunks ps)))"
    using assms(4) by (auto simp: sent_def mk_conn_def)
  obtain rest where r: "concat ps = ds @ rest" "e = Some EOF \<longrightarrow> rest = []" "e = None \<or> e = Some EOF"
    "0 \<notin> set lens \<longrightarrow> e = None \<longrightarrow> length lens \<le> length ds"
    using ac_reads_new [OF assms(1,2) a(1,2) payloads_all rd assms(5)] by (auto simp: concat_all)
  then have "length ds \<le> length (concat ps)" by simp
  then show ?thesis using rs r by fastforce
qed

text \<open>A concrete cipher for the witnesses: the tag is the nonce's first 12 bytes.\<close>

definition demo_aead :: aead where
  "demo_aead = \<lparr>ae_seal = (\<lambda>n p. p @ n), ae_open = (\<lambda>n x. Some (take (length x - 12) x)), ae_nonceSize = 12, ae_overhead = 12\<rparr>"

definition demo_cipher :: meta_cipher where
  "demo_cipher = \<lparr>mc_psk = replicate 16 7, mc_makeAEAD = (\<lambda>_. Ok demo_aead)\<rparr>"

lemma demo_ok: "aead_ok demo_aead" "cipher_ok (\<lambda>k s i n. k) demo_cipher" "saltSize demo_cipher = 16"
  by (simp_all add: aead_ok_def demo_aead_def cipher_ok_def demo_cipher_def saltSize_def keySize_def)

theorem aead_stream_delivery_witness:
  "\<exists>s c. ac_writes (\<lambda>k s i n. k) demo_cipher (replicate 16 1) [[1, 2, 3], [4]] newConn (mk_conn [])
      = ([(3, None), (1, None)], s, c)
    \<and> fst (ac_reads (\<lambda>k s i n. k) demo_cipher [1, 2, 9, 9, 9] newConn (mk_conn (sent c))) = [1, 2, 3, 4]"
proof -
  let ?w = "ac_writes (\<lambda>k s i n. k) demo_cipher (replicate 16 1) [[1, 2, 3], [4]] newConn (mk_conn [])"
  obtain rs s c where w: "?w = (rs, s, c)" by (cases ?w)
  obtain ds e where r: "ac_reads (\<lambda>k s i n. k) demo_cipher [1, 2, 9, 9, 9] newConn (mk_conn (sent c)) = (ds, e)"
    by (cases "ac_reads (\<lambda>k s i n. k) demo_cipher [1, 2, 9, 9, 9] newConn (mk_conn (sent c))")
  show ?thesis
    using aead_stream_delivery [OF demo_ok(2) _ _ w r] w r demo_ok(3) by simp
qed

section \<open>Copying whole streams\<close>

lemma aw_readFrom_good:
  assumes "wbad c = (\<lambda>_. False)"
  shows "aw_readFrom a (map (\<lambda>d. (d, None)) ds) n nonce c
    = ((n + length (concat ds), None, nonce_after nonce (ds @ [[]])), c\<lparr>wr := wr c @ recs a nonce (ds @ [[]])\<rparr>)"
  using assms by (induction ds arbitrary: n nonce c) simp_all

lemma ar_WriteTo_records:
  assumes "aead_ok a" "length (ar_nonce r) = ae_nonceSize a" "payloads qs"
    and "rd c = concat (recs a (ar_nonce r) qs) @ t" "wbad w = (\<lambda>_. False)"
  shows "ar_WriteTo a n r c w = ar_WriteTo a (n + length (concat qs)) (r\<lparr>ar_nonce := nonce_after (ar_nonce r) qs\<rparr>)
    (c\<lparr>rd := t\<rparr>) (w\<lparr>wr := wr w @ qs\<rparr>)"
  using assms(2-5)
proof (induction qs arbitrary: n r c w)
  case Nil
  then have "c\<lparr>rd := t\<rparr> = c" by simp
  then show ?case by simp
next
  case (Cons q qs)
  let ?r = "r\<lparr>ar_nonce := increment (increment (ar_nonce r))\<rparr>"
  let ?c = "c\<lparr>rd := concat (recs a (increment (increment (ar_nonce r))) qs) @ t\<rparr>"
  have "ar_read a r c = ((Ok q, ?r), ?c)"
    using ar_read_record [OF assms(1) Cons.prems(1), of q c] Cons.prems(2,3) by simp
  then have "ar_WriteTo a n r c w = ar_WriteTo a (n + length q) ?r ?c (w\<lparr>wr := wr w @ [q]\<rparr>)"
    using Cons.prems(4) by (subst ar_WriteTo.simps) simp
  then show ?case using Cons.IH [of ?r ?c "w\<lparr>wr := wr w @ [q]\<rparr>"] Cons.prems by (simp add: add.assoc)
qed

lemma ar_read_zero:
  assumes "aead_ok a" "length (ar_nonce r) = ae_nonceSize a" "rd c = seal_record a (ar_nonce r) [] @ t"
  shows "ar_read a r c = ((Err ErrZeroChunk, r\<lparr>ar_nonce := increment (ar_nonce r)\<rparr>),
    c\<lparr>rd := ae_seal a (increment (ar_nonce r)) [] @ t\<rparr>)"
proof -
  let ?n = "ar_nonce r"
  have l: "length (ae_seal a ?n (size_bytes 0)) = 2 + ae_overhead a"
    "ae_open a ?n (ae_seal a ?n (size_bytes 0)) = Some (size_bytes 0)"
    using assms(1,2) by (simp_all add: aead_ok_def)
  have r1: "io_read (2 + ae_overhead a) c
      = (Inr (ae_seal a ?n (size_bytes 0)), c\<lparr>rd := ae_seal a (increment ?n) [] @ t\<rparr>)"
    using assms(3) l(1) by (intro io_read_append) (simp_all add: seal_record_def)
  have z: "get_be16 (size_bytes 0) = 0" by (simp add: size_bytes_def)
  show ?thesis unfolding ar_read_def r1 using l(2) z by (simp add: Let_def)
qed

text \<open>\<open>ReadFrom\<close> ends every stream with an empty record, which the other side reports as an error. After
  copying a source to its end into an encrypted connection (which succeeds and counts all its bytes), the peer's
  \<open>WriteTo\<close> writes all the data but returns \<open>ErrZeroChunk\<close>, with the tag of the empty record left unread.\<close>

theorem aead_copy_zero_chunk:
  assumes "cipher_ok hkdf m" "length salt = saltSize m" "payloads ds"
    and "ac_ReadFrom hkdf m salt (map (\<lambda>d. (d, None)) ds) newConn (mk_conn inp) = ((res, s), c)"
    and "ac_WriteTo hkdf m newConn (mk_conn (sent c)) (mk_conn []) = ((res', s'), c', w)"
  shows "res = (length (concat ds), None) \<and> sent w = concat ds \<and> res' = (length (concat ds), Some ErrZeroChunk)
    \<and> (\<exists>a. decrypter hkdf m salt = Ok a \<and> length (rd c') = ae_overhead a)"
proof -
  obtain a where a: "encrypter hkdf m salt = Ok a" "decrypter hkdf m salt = Ok a" "aead_ok a"
    by (rule cipher_okE [OF assms(1,2)])
  let ?z = "zero_nonce a" and ?n = "nonce_after (zero_nonce a) ds"
  have "initWriter hkdf m salt (mk_conn inp) = (Ok (a, ?z), (mk_conn inp)\<lparr>wr := [salt]\<rparr>)"
    using a(1) by (simp add: initWriter_def mk_conn_def)
  then have c: "res = (length (concat ds), None)" "sent c = salt @ concat (recs a ?z (ds @ [[]]))"
    using assms(4) aw_readFrom_good [of "(mk_conn inp)\<lparr>wr := [salt]\<rparr>" a ds 0 ?z]
    by (auto simp: ac_ReadFrom_def newConn_def mk_conn_def sent_def)
  let ?k = "mk_conn (concat (recs a ?z (ds @ [[]])))"
  have "initReader hkdf m (mk_conn (sent c)) = (Ok (a, new_reader a), ?k)"
    using a(2) assms(2) io_read_append [of "mk_conn (sent c)" salt] c(2) by (simp add: initReader_def mk_conn_def)
  then have w: "ac_WriteTo hkdf m newConn (mk_conn (sent c)) (mk_conn [])
      = (case ar_WriteTo a 0 (new_reader a) ?k (mk_conn []) of
           (ne, rr', c2, w') \<Rightarrow> ((ne, newConn\<lparr>ac_r := Some (a, rr')\<rparr>), c2, w'))"
    by (simp add: ac_WriteTo_def newConn_def ar_writeTo_def new_reader_def)
  have len: "length ?n = ae_nonceSize a" by (induction ds) (simp_all add: nonce_after_def)
  have rk: "rd ?k = concat (recs a (ar_nonce (new_reader a)) ds) @ seal_record a ?n []"
    by (simp add: mk_conn_def new_reader_def recs_append)
  let ?r = "\<lparr>ar_nonce = ?n, ar_buf = None\<rparr>" and ?c = "?k\<lparr>rd := seal_record a ?n []\<rparr>" and ?w = "(mk_conn [])\<lparr>wr := ds\<rparr>"
  have "ar_WriteTo a 0 (new_reader a) ?k (mk_conn []) = ar_WriteTo a (length (concat ds)) ?r ?c ?w"
    using ar_WriteTo_records [OF a(3) _ assms(3) rk, of "mk_conn []" 0] by (simp add: new_reader_def mk_conn_def)
  also have "ar_read a ?r ?c = ((Err ErrZeroChunk, ?r\<lparr>ar_nonce := increment ?n\<rparr>), ?c\<lparr>rd := ae_seal a (increment ?n) []\<rparr>)"
    using ar_read_zero [OF a(3), of ?r ?c "[]"] len by simp
  then have "ar_WriteTo a (length (concat ds)) ?r ?c ?w
      = ((length (concat ds), Some ErrZeroChunk), \<lparr>ar_nonce = increment ?n, ar_buf = Some []\<rparr>,
         ?c\<lparr>rd := ae_seal a (increment ?n) []\<rparr>, ?w)"
    by (subst ar_WriteTo.simps) (simp add: ErrZeroChunk_def)
  finally have "res' = (length (concat ds), Some ErrZeroChunk)" "rd c' = ae_seal a (increment ?n) []" "w = ?w"
    using assms(5) w by auto
  moreover have "length (ae_seal a (increment ?n) []) = ae_overhead a" using a(3) len by (simp add: aead_ok_def)
  ultimately show ?thesis using c(1) a(2) by (simp add: sent_def)
qed

theorem aead_copy_zero_chunk_witness:
  "\<exists>res s c. ac_ReadFrom (\<lambda>k s i n. k) demo_cipher (replicate 16 1) [([1, 2, 3], None)] newConn (mk_conn []) = ((res, s), c)
    \<and> fst (fst (ac_WriteTo (\<lambda>k s i n. k) demo_cipher newConn (mk_conn (sent c)) (mk_conn []))) = (3, Some ErrZeroChunk)"
proof -
  let ?x = "ac_ReadFrom (\<lambda>k s i n. k) demo_cipher (replicate 16 1) (map (\<lambda>d. (d, None)) [[1, 2, 3]]) newConn (mk_conn [])"
  obtain res s c where x: "?x = ((res, s), c)" by (metis surj_pair)
  let ?y = "ac_WriteTo (\<lambda>k s i n. k) demo_cipher newConn (mk_conn (sent c)) (mk_conn [])"
  obtain res' s' c' w where y: "?y = ((res', s'), c', w)" by (metis surj_pair)
  have p: "payloads [[1, 2, 3]]" by (simp add: payloadSizeMask_def)
  show ?thesis using aead_copy_zero_chunk [OF demo_ok(2) _ p x y] x y demo_ok(3) by simp
qed

section \<open>Nonces of a stream\<close>

text \<open>No nonce is used twice in a stream. \<open>increment\<close> adds one to the little-endian number, wrapping
  around; so from the nonce of zeros of a new writer or reader the first \<open>256 ^ n\<close> nonces, \<open>n\<close> the nonce size, are
  all different.\<close>

theorem nonces_distinct:
  "le_val (increment b) = Suc (le_val b) mod 256 ^ length b
   \<and> inj_on (\<lambda>i. (increment ^^ i) (zero_nonce a)) {..< 256 ^ ae_nonceSize a}"
proof -
  have "le_val (increment b) = Suc (le_val b) mod 256 ^ length b"
    using le_val_less [of b] le_val_increment [of b] by auto
  moreover have "inj_on (\<lambda>i. (increment ^^ i) (zero_nonce a)) {..< 256 ^ ae_nonceSize a}"
    by (rule inj_on_inverseI [where g = le_val]) (simp add: zero_nonce_def le_val_iterate)
  ultimately show ?thesis by blast
qed

section \<open>Packets\<close>

text \<open>An encrypted packet is read back. A payload that fits in a packet is sent with its salt and tag, and
  \<open>ReadFrom\<close> with a buffer that holds the datagram returns it; a buffer too short for the salt makes \<open>ReadFrom\<close>
  panic, and a datagram cut so that the tag is missing is a short packet.\<close>

theorem aead_packet_roundtrip:
  assumes "cipher_ok hkdf m" "length salt = saltSize m" "saltSize m + length b + 500 \<le> maxPacketSize"
  shows "\<exists>a pkt. decrypter hkdf m salt = Ok a \<and> pc_WriteTo hkdf m salt b = Ok (length b, pkt)
    \<and> length pkt = saltSize m + length b + ae_overhead a
    \<and> (length pkt \<le> len \<longrightarrow> pc_ReadFrom hkdf m len pkt = Ok b)
    \<and> (saltSize m \<le> len \<and> len < saltSize m + ae_overhead a \<and> len < length pkt \<longrightarrow>
         pc_ReadFrom hkdf m len pkt = Err ErrShortPacket)
    \<and> (len < saltSize m \<longrightarrow> pc_ReadFrom hkdf m len pkt = Err out_of_range)"
proof -
  obtain a where a: "encrypter hkdf m salt = Ok a" "decrypter hkdf m salt = Ok a" "aead_ok a"
    by (rule cipher_okE [OF assms(1,2)])
  have s: "length (ae_seal a (zero_nonce a) b) = length b + ae_overhead a"
    "ae_open a (zero_nonce a) (ae_seal a (zero_nonce a) b) = Some b" "ae_overhead a \<le> 500"
    using a(3) by (simp_all add: aead_ok_def)
  define pkt where "pkt = salt @ ae_seal a (zero_nonce a) b"
  have l: "length pkt = saltSize m + length b + ae_overhead a" using s(1) assms(2) by (simp add: pkt_def)
  have w: "pc_WriteTo hkdf m salt b = Ok (length b, pkt)"
    using a(1) s(3) assms(3) by (simp add: pc_WriteTo_def packPacket_def pkt_def)
  have t: "saltSize m \<le> len \<Longrightarrow> take (saltSize m) (take len pkt) = salt" using assms(2) by (simp add: pkt_def min_def)
  have "pc_ReadFrom hkdf m len pkt = Ok b" if "length pkt \<le> len"
    using that l a(2) s(2) assms(2) by (simp add: pc_ReadFrom_def unpackPacket_def pkt_def Let_def)
  moreover have "pc_ReadFrom hkdf m len pkt = Err ErrShortPacket"
    if "saltSize m \<le> len" "\<not> length pkt \<le> len" "len < saltSize m + ae_overhead a"
    using that l a(2) t by (simp add: pc_ReadFrom_def unpackPacket_def Let_def min_def)
  moreover have "pc_ReadFrom hkdf m len pkt = Err out_of_range" if "len < saltSize m"
    using that by (simp add: pc_ReadFrom_def)
  ultimately show ?thesis using a(2) w l by (intro exI [of _ a] exI [of _ pkt]) auto
qed

theorem aead_packet_roundtrip_witness:
  "\<exists>pkt. pc_WriteTo (\<lambda>k s i n. k) demo_cipher (replicate 16 1) [1, 2, 3] = Ok (3, pkt)
    \<and> pc_ReadFrom (\<lambda>k s i n. k) demo_cipher 5 pkt = Err out_of_range"
  using aead_packet_roundtrip [OF demo_ok(2), of "replicate 16 1" "[1, 2, 3]" 5]
  by (auto simp: demo_ok(3) maxPacketSize_def)

end
