(* ===== verification/ShadowStream.thy ===== *)
theory ShadowStream
  imports ShadowFacts GoLib
begin

text \<open>
  \<open>transport/shadowsocks/shadowstream\<close>, the stream ciphers, and \<open>transport/shadowsocks/core\<close>, the choice of a
  cipher by name and the key derivation. A \<open>cipher.Stream\<close> works byte by byte on a state (its documentation:
  calls behave as if their inputs had been passed in one run); the ciphers themselves are parameters.
\<close>

section \<open>Stream ciphers\<close>

record 's stream_cipher =
  sc_ivSize :: nat
  sc_encrypter :: "bytes \<Rightarrow> 's"
  sc_decrypter :: "bytes \<Rightarrow> 's"
  sc_encStep :: "'s \<Rightarrow> byte \<Rightarrow> byte \<times> 's"
  sc_decStep :: "'s \<Rightarrow> byte \<Rightarrow> byte \<times> 's"

text \<open>\<open>XORKeyStream\<close>.\<close>

fun xor_stream :: "('s \<Rightarrow> byte \<Rightarrow> byte \<times> 's) \<Rightarrow> 's \<Rightarrow> bytes \<Rightarrow> bytes \<times> 's" where
  "xor_stream f s [] = ([], s)"
| "xor_stream f s (b # bs) = (case f s b of (x, s') \<Rightarrow> case xor_stream f s' bs of (xs, s'') \<Rightarrow> (x # xs, s''))"

text \<open>Decryption follows encryption: the two states stay related.\<close>

definition stream_ok :: "'s stream_cipher \<Rightarrow> bool" where
  "stream_ok m \<longleftrightarrow> 0 < sc_ivSize m \<and> (\<exists>R. (\<forall>iv. length iv = sc_ivSize m \<longrightarrow> R (sc_encrypter m iv) (sc_decrypter m iv))
     \<and> (\<forall>s t b. R s t \<longrightarrow> (case sc_encStep m s b of (x, s') \<Rightarrow> case sc_decStep m t x of (b', t') \<Rightarrow> b' = b \<and> R s' t')))"

section \<open>Writer and reader\<close>

definition streamBuf :: nat where "streamBuf = 2048"

function sw_loop :: "'s stream_cipher \<Rightarrow> bytes \<Rightarrow> nat \<Rightarrow> 's \<Rightarrow> conn \<Rightarrow> (nat \<times> gerr option \<times> 's) \<times> conn" where
  "sw_loop m p n s c =
     (if length p \<le> n then ((n, None, s), c)
      else let stop = (if length p < n + streamBuf then length p else n + streamBuf) in
        case xor_stream (sc_encStep m) s (take (stop - n) (drop n p)) of (b, s') \<Rightarrow>
          (case io_write b c of
             (Inl e, c') \<Rightarrow> ((n, Some e, s'), c')
           | (Inr _, c') \<Rightarrow> sw_loop m p stop s' c'))"
  by pat_completeness auto
termination
  by (relation "measure (\<lambda>(m, p, n, s, c). length p - n)") (auto simp: streamBuf_def split: if_splits)

declare sw_loop.simps [simp del]

fun sw_readFrom ::
  "'s stream_cipher \<Rightarrow> (bytes \<times> gerr option) list \<Rightarrow> nat \<Rightarrow> 's \<Rightarrow> conn \<Rightarrow> (nat \<times> gerr option \<times> 's) \<times> conn" where
  "sw_readFrom m [] n s c =
     (case io_write [] c of (Inl e, c') \<Rightarrow> ((n, Some e, s), c') | (Inr _, c') \<Rightarrow> ((n, None, s), c'))"
| "sw_readFrom m ((d, er) # src) n s c =
     (case xor_stream (sc_encStep m) s d of (b, s') \<Rightarrow>
        (case io_write b c of
           (Inl e, c') \<Rightarrow> ((n + length d, Some e, s'), c')
         | (Inr _, c') \<Rightarrow>
             (case er of
                None \<Rightarrow> sw_readFrom m src (n + length d) s' c'
              | Some e \<Rightarrow> ((n + length d, if e = EOF then None else Some e, s'), c'))))"

text \<open>A read of the connection below into \<open>len\<close> bytes, of which it fills as many as the transport delivers
  (\<open>seg\<close>, at least one).\<close>

definition io_some :: "nat \<Rightarrow> nat \<Rightarrow> bytes io" where
  "io_some len seg = (\<lambda>c. if rd c = [] then (Err EOF, c)
     else let k = min len (max 1 seg) in (Ok (take k (rd c)), c\<lparr>rd := drop k (rd c)\<rparr>))"

definition sr_Read :: "'s stream_cipher \<Rightarrow> nat \<Rightarrow> nat \<Rightarrow> 's \<Rightarrow> conn \<Rightarrow> (bytes res \<times> 's) \<times> conn" where
  "sr_Read m len seg s c =
     (case io_some len seg c of
        (Inl e, c') \<Rightarrow> ((Err e, s), c')
      | (Inr x, c') \<Rightarrow> (case xor_stream (sc_decStep m) s x of (d, s') \<Rightarrow> ((Ok d, s'), c')))"

text \<open>\<open>WriteTo\<close>; \<open>segs\<close> is what the transport delivers at each read, whole buffers when it is used up.\<close>

function sr_WriteTo ::
  "'s stream_cipher \<Rightarrow> nat list \<Rightarrow> nat \<Rightarrow> 's \<Rightarrow> conn \<Rightarrow> conn \<Rightarrow> (nat \<times> gerr option) \<times> 's \<times> conn \<times> conn" where
  "sr_WriteTo m segs n s c w =
     (case io_some streamBuf (case segs of [] \<Rightarrow> streamBuf | k # _ \<Rightarrow> k) c of
        (Inl e, c') \<Rightarrow> ((n, if e = EOF then None else Some e), s, c', w)
      | (Inr x, c') \<Rightarrow>
          (case xor_stream (sc_decStep m) s x of (d, s') \<Rightarrow>
             (case io_write d w of
                (Inl e, w') \<Rightarrow> ((n, Some e), s', c', w')
              | (Inr _, w') \<Rightarrow> sr_WriteTo m (tl segs) (n + length d) s' c' w')))"
  by pat_completeness auto
termination
  by (relation "measure (\<lambda>(m, segs, n, s, c, w). length (rd c))")
    (auto simp: io_some_def streamBuf_def Let_def split: if_splits)

declare sr_WriteTo.simps [simp del]

section \<open>Connections\<close>

record 's sconn =
  so_r :: "'s option"
  so_w :: "'s option"
  so_readIV :: bytes
  so_writeIV :: bytes

definition newStreamConn :: "'s sconn" where
  "newStreamConn = \<lparr>so_r = None, so_w = None, so_readIV = [], so_writeIV = []\<rparr>"

text \<open>\<open>ObtainWriteIV\<close>, with the random bytes as an argument, and \<open>ObtainReadIV\<close>.\<close>

definition obtainWriteIV :: "'s stream_cipher \<Rightarrow> bytes \<Rightarrow> 's sconn \<Rightarrow> bytes \<times> 's sconn" where
  "obtainWriteIV m rnd s =
     (if length (so_writeIV s) = sc_ivSize m then (so_writeIV s, s) else (rnd, s\<lparr>so_writeIV := rnd\<rparr>))"

definition obtainReadIV :: "'s stream_cipher \<Rightarrow> 's sconn \<Rightarrow> conn \<Rightarrow> (bytes res \<times> 's sconn) \<times> conn" where
  "obtainReadIV m s c =
     (if length (so_readIV s) = sc_ivSize m then ((Ok (so_readIV s), s), c)
      else case io_read (sc_ivSize m) c of
        (Inl e, c') \<Rightarrow> ((Err e, s), c')
      | (Inr iv, c') \<Rightarrow> ((Ok iv, s\<lparr>so_readIV := iv\<rparr>), c'))"

definition so_initReader :: "'s stream_cipher \<Rightarrow> 's sconn \<Rightarrow> conn \<Rightarrow> (gerr option \<times> 's sconn) \<times> conn" where
  "so_initReader m s c =
     (case so_r s of
        Some _ \<Rightarrow> ((None, s), c)
      | None \<Rightarrow>
          (case obtainReadIV m s c of
             ((Inl e, s'), c') \<Rightarrow> ((Some e, s'), c')
           | ((Inr iv, s'), c') \<Rightarrow> ((None, s'\<lparr>so_r := Some (sc_decrypter m iv)\<rparr>), c')))"

definition so_initWriter :: "'s stream_cipher \<Rightarrow> bytes \<Rightarrow> 's sconn \<Rightarrow> conn \<Rightarrow> (gerr option \<times> 's sconn) \<times> conn" where
  "so_initWriter m rnd s c =
     (case so_w s of
        Some _ \<Rightarrow> ((None, s), c)
      | None \<Rightarrow>
          (case obtainWriteIV m rnd s of (iv, s') \<Rightarrow>
             (case io_write iv c of
                (Inl e, c') \<Rightarrow> ((Some e, s'), c')
              | (Inr _, c') \<Rightarrow> ((None, s'\<lparr>so_w := Some (sc_encrypter m iv)\<rparr>), c'))))"

definition so_Write :: "'s stream_cipher \<Rightarrow> bytes \<Rightarrow> bytes \<Rightarrow> 's sconn \<Rightarrow> conn \<Rightarrow> ((nat \<times> gerr option) \<times> 's sconn) \<times> conn" where
  "so_Write m rnd p s c =
     (case so_initWriter m rnd s c of
        ((Some e, s1), c1) \<Rightarrow> (((0, Some e), s1), c1)
      | ((None, s1), c1) \<Rightarrow>
          (case sw_loop m p 0 (the (so_w s1)) c1 of
             ((n, e, t), c2) \<Rightarrow> (((n, e), s1\<lparr>so_w := Some t\<rparr>), c2)))"

definition so_ReadFrom ::
  "'s stream_cipher \<Rightarrow> bytes \<Rightarrow> (bytes \<times> gerr option) list \<Rightarrow> 's sconn \<Rightarrow> conn \<Rightarrow> ((nat \<times> gerr option) \<times> 's sconn) \<times> conn" where
  "so_ReadFrom m rnd src s c =
     (case so_initWriter m rnd s c of
        ((Some e, s1), c1) \<Rightarrow> (((0, Some e), s1), c1)
      | ((None, s1), c1) \<Rightarrow>
          (case sw_readFrom m src 0 (the (so_w s1)) c1 of
             ((n, e, t), c2) \<Rightarrow> (((n, e), s1\<lparr>so_w := Some t\<rparr>), c2)))"

definition so_Read :: "'s stream_cipher \<Rightarrow> nat \<Rightarrow> nat \<Rightarrow> 's sconn \<Rightarrow> conn \<Rightarrow> (bytes res \<times> 's sconn) \<times> conn" where
  "so_Read m len seg s c =
     (case so_initReader m s c of
        ((Some e, s1), c1) \<Rightarrow> ((Err e, s1), c1)
      | ((None, s1), c1) \<Rightarrow>
          (case sr_Read m len seg (the (so_r s1)) c1 of
             ((r, t), c2) \<Rightarrow> ((r, s1\<lparr>so_r := Some t\<rparr>), c2)))"

definition so_WriteTo ::
  "'s stream_cipher \<Rightarrow> nat list \<Rightarrow> 's sconn \<Rightarrow> conn \<Rightarrow> conn \<Rightarrow> ((nat \<times> gerr option) \<times> 's sconn) \<times> conn \<times> conn" where
  "so_WriteTo m segs s c w =
     (case so_initReader m s c of
        ((Some e, s1), c1) \<Rightarrow> (((0, Some e), s1), c1, w)
      | ((None, s1), c1) \<Rightarrow>
          (case sr_WriteTo m segs 0 (the (so_r s1)) c1 w of
             (ne, t, c2, w') \<Rightarrow> ((ne, s1\<lparr>so_r := Some t\<rparr>), c2, w')))"

section \<open>Packets\<close>

definition packStream :: "'s stream_cipher \<Rightarrow> bytes \<Rightarrow> nat \<Rightarrow> bytes \<Rightarrow> bytes res" where
  "packStream m iv dstLen plaintext =
     (if dstLen < sc_ivSize m + length plaintext then Err ShortBuffer
      else Ok (iv @ fst (xor_stream (sc_encStep m) (sc_encrypter m iv) plaintext)))"

definition unpackStream :: "'s stream_cipher \<Rightarrow> nat \<Rightarrow> bytes \<Rightarrow> bytes res" where
  "unpackStream m dstLen pkt =
     (if length pkt < sc_ivSize m then Err ErrShortPacket
      else if dstLen < length pkt - sc_ivSize m then Err ShortBuffer
      else Ok (fst (xor_stream (sc_decStep m) (sc_decrypter m (take (sc_ivSize m) pkt)) (drop (sc_ivSize m) pkt))))"

definition sp_WriteTo :: "'s stream_cipher \<Rightarrow> bytes \<Rightarrow> bytes \<Rightarrow> (nat \<times> bytes) res" where
  "sp_WriteTo m iv b = rbind (packStream m iv maxPacketSize b) (\<lambda>buf. Ok (length b, buf))"

definition sp_ReadFrom :: "'s stream_cipher \<Rightarrow> nat \<Rightarrow> bytes \<Rightarrow> bytes res" where
  "sp_ReadFrom m len pkt =
     (if len < sc_ivSize m then Err out_of_range else unpackStream m (len - sc_ivSize m) (take len pkt))"

end
