(* ===== verification/StreamFacts.thy ===== *)
theory StreamFacts
  imports ShadowStream
begin

text \<open>
  A connection encrypted with a stream cipher delivers the bytes that were written, whatever the sizes of the
  writes and reads and however the transport cuts the stream.
\<close>

section \<open>Streams\<close>

lemma xor_append:
  "xor_stream f s (a @ b) =
     (fst (xor_stream f s a) @ fst (xor_stream f (snd (xor_stream f s a)) b),
      snd (xor_stream f (snd (xor_stream f s a)) b))"
  by (induction a arbitrary: s) (auto split: prod.split)

lemma length_xor [simp]: "length (fst (xor_stream f s p)) = length p"
  by (induction p arbitrary: s) (simp_all add: case_prod_beta)

lemma xor_take: "take k (fst (xor_stream f s p)) = fst (xor_stream f s (take k p))"
proof -
  have "fst (xor_stream f s (take k p @ drop k p))
      = fst (xor_stream f s (take k p)) @ fst (xor_stream f (snd (xor_stream f s (take k p))) (drop k p))"
    by (simp only: xor_append fst_conv)
  then show ?thesis by (simp add: min_def)
qed

lemma xor_drop: "drop k (fst (xor_stream f s p)) = fst (xor_stream f (snd (xor_stream f s (take k p))) (drop k p))"
proof -
  have "fst (xor_stream f s (take k p @ drop k p))
      = fst (xor_stream f s (take k p)) @ fst (xor_stream f (snd (xor_stream f s (take k p))) (drop k p))"
    by (simp only: xor_append fst_conv)
  then show ?thesis by (simp add: min_def)
qed

definition follows :: "'s stream_cipher \<Rightarrow> ('s \<Rightarrow> 's \<Rightarrow> bool) \<Rightarrow> bool" where
  "follows m R \<longleftrightarrow> (\<forall>s t b. R s t \<longrightarrow>
     (case sc_encStep m s b of (x, s') \<Rightarrow> case sc_decStep m t x of (b', t') \<Rightarrow> b' = b \<and> R s' t'))"

lemma xor_follows:
  "follows m R \<Longrightarrow> R s t \<Longrightarrow>
   fst (xor_stream (sc_decStep m) t (fst (xor_stream (sc_encStep m) s p))) = p
   \<and> R (snd (xor_stream (sc_encStep m) s p)) (snd (xor_stream (sc_decStep m) t (fst (xor_stream (sc_encStep m) s p))))"
proof (induction p arbitrary: s t)
  case (Cons b p)
  obtain x s' where x: "sc_encStep m s b = (x, s')" by (cases "sc_encStep m s b")
  obtain b' t' where b: "sc_decStep m t x = (b', t')" by (cases "sc_decStep m t x")
  have "b' = b" "R s' t'" using Cons.prems x b unfolding follows_def by (metis (mono_tags, lifting) case_prod_conv)+
  then show ?case using Cons.IH [OF Cons.prems(1), of s' t'] x b by (auto split: prod.split)
qed simp

section \<open>Writing\<close>

lemma sw_loop_good:
  assumes "wbad c = (\<lambda>_. False)"
  shows "\<exists>ws. sw_loop m p n s c =
      ((max n (length p), None, snd (xor_stream (sc_encStep m) s (drop n p))), c\<lparr>wr := wr c @ ws\<rparr>)
    \<and> concat ws = fst (xor_stream (sc_encStep m) s (drop n p))"
  using assms
proof (induction m p n s c rule: sw_loop.induct)
  case (1 m p n s c)
  show ?case
  proof (cases "length p \<le> n")
    case True
    then show ?thesis by (intro exI [of _ "[]"]) (simp add: sw_loop.simps [of m p n])
  next
    case False
    define stop where "stop = (if length p < n + streamBuf then length p else n + streamBuf)"
    have st: "n < stop" "stop \<le> length p" using False by (auto simp: stop_def streamBuf_def)
    obtain b s' where x: "xor_stream (sc_encStep m) s (take (stop - n) (drop n p)) = (b, s')"
      by (cases "xor_stream (sc_encStep m) s (take (stop - n) (drop n p))")
    let ?c = "c\<lparr>wr := wr c @ [b]\<rparr>"
    have w: "io_write b c = (Inr (), ?c)" using 1(2) by simp
    obtain ws where ws: "sw_loop m p stop s' ?c =
        ((max stop (length p), None, snd (xor_stream (sc_encStep m) s' (drop stop p))), ?c\<lparr>wr := wr ?c @ ws\<rparr>)"
      "concat ws = fst (xor_stream (sc_encStep m) s' (drop stop p))"
      using 1(1) [OF False stop_def x [symmetric] w [symmetric] refl] 1(2) by auto
    have d: "drop n p = take (stop - n) (drop n p) @ drop stop p"
      using st by (metis append_take_drop_id drop_drop le_add_diff_inverse2 less_imp_le)
    have e: "xor_stream (sc_encStep m) s (drop n p)
        = (b @ fst (xor_stream (sc_encStep m) s' (drop stop p)), snd (xor_stream (sc_encStep m) s' (drop stop p)))"
      by (subst d, subst xor_append) (simp add: x)
    show ?thesis
      using False w ws(1) x st
      by (intro exI [of _ "b # ws"], subst sw_loop.simps) (simp add: Let_def stop_def [symmetric] e ws(2))
  qed
qed

fun so_writes ::
  "'s stream_cipher \<Rightarrow> bytes \<Rightarrow> bytes list \<Rightarrow> 's sconn \<Rightarrow> conn \<Rightarrow> (nat \<times> gerr option) list \<times> 's sconn \<times> conn" where
  "so_writes m rnd [] s c = ([], s, c)"
| "so_writes m rnd (p # ps) s c =
     (case so_Write m rnd p s c of
        ((r, s'), c') \<Rightarrow> (case so_writes m rnd ps s' c' of (rs, s'', c'') \<Rightarrow> (r # rs, s'', c'')))"

lemma so_writes_open:
  assumes "wbad c = (\<lambda>_. False)" "so_w s = Some t"
  shows "\<exists>s' ws. so_writes m rnd ps s c = (map (\<lambda>p. (length p, None)) ps, s', c\<lparr>wr := wr c @ ws\<rparr>)
    \<and> concat ws = fst (xor_stream (sc_encStep m) t (concat ps))"
  using assms
proof (induction ps arbitrary: s c t)
  case Nil
  then show ?case by (intro exI [of _ s] exI [of _ "[]"]) simp
next
  case (Cons p ps)
  obtain vs where v: "sw_loop m p 0 t c = ((length p, None, snd (xor_stream (sc_encStep m) t p)), c\<lparr>wr := wr c @ vs\<rparr>)"
    "concat vs = fst (xor_stream (sc_encStep m) t p)"
    using sw_loop_good [OF Cons.prems(1), of m p 0 t] by auto
  let ?s = "s\<lparr>so_w := Some (snd (xor_stream (sc_encStep m) t p))\<rparr>" and ?c = "c\<lparr>wr := wr c @ vs\<rparr>"
  have w: "so_Write m rnd p s c = (((length p, None), ?s), ?c)"
    using Cons.prems(2) v(1) by (simp add: so_Write_def so_initWriter_def)
  obtain s' ws where "so_writes m rnd ps ?s ?c = (map (\<lambda>p. (length p, None)) ps, s', ?c\<lparr>wr := wr ?c @ ws\<rparr>)"
    "concat ws = fst (xor_stream (sc_encStep m) (snd (xor_stream (sc_encStep m) t p)) (concat ps))"
    using Cons.IH [of ?c ?s] Cons.prems(1) by auto
  then show ?case using w v(2) by (intro exI [of _ s'] exI [of _ "vs @ ws"]) (simp add: xor_append)
qed

lemma so_writes_new:
  assumes "ps \<noteq> []" "0 < sc_ivSize m"
  shows "\<exists>s c. so_writes m iv ps newStreamConn (mk_conn inp) = (map (\<lambda>p. (length p, None)) ps, s, c)
    \<and> sent c = iv @ fst (xor_stream (sc_encStep m) (sc_encrypter m iv) (concat ps))"
proof -
  obtain p qs where ps: "ps = p # qs" using assms by (cases ps) auto
  let ?s = "newStreamConn\<lparr>so_writeIV := iv, so_w := Some (sc_encrypter m iv)\<rparr>"
  let ?c = "(mk_conn inp)\<lparr>wr := [iv]\<rparr>"
  have "so_initWriter m iv newStreamConn (mk_conn inp) = ((None, ?s), ?c)"
    using assms(2) by (simp add: so_initWriter_def newStreamConn_def obtainWriteIV_def mk_conn_def)
  moreover have "so_initWriter m iv ?s ?c = ((None, ?s), ?c)" by (simp add: so_initWriter_def)
  ultimately have "so_Write m iv p newStreamConn (mk_conn inp) = so_Write m iv p ?s ?c" by (simp add: so_Write_def)
  then have "so_writes m iv ps newStreamConn (mk_conn inp) = so_writes m iv ps ?s ?c" by (simp add: ps)
  then show ?thesis
    using so_writes_open [of ?c ?s "sc_encrypter m iv" m iv ps] by (auto simp: mk_conn_def sent_def)
qed

section \<open>Reading\<close>

text \<open>Reads, each with the size of its buffer and what the transport delivers, up to the first error.\<close>

fun so_reads :: "'s stream_cipher \<Rightarrow> (nat \<times> nat) list \<Rightarrow> 's sconn \<Rightarrow> conn \<Rightarrow> bytes \<times> gerr option" where
  "so_reads m [] s c = ([], None)"
| "so_reads m ((len, seg) # xs) s c =
     (case so_Read m len seg s c of
        ((Inl e, _), _) \<Rightarrow> ([], Some e)
      | ((Inr d, s'), c') \<Rightarrow> (case so_reads m xs s' c' of (ds, e) \<Rightarrow> (d @ ds, e)))"

lemma so_reads_open:
  assumes "follows m R" "R u t" "so_r s = Some t" "rd c = fst (xor_stream (sc_encStep m) u p)"
    and "so_reads m xs s c = (ds, e)"
  shows "\<exists>rest. p = ds @ rest \<and> (e = Some EOF \<longrightarrow> rest = []) \<and> (e = None \<or> e = Some EOF)
    \<and> (0 \<notin> fst ` set xs \<longrightarrow> e = None \<longrightarrow> length xs \<le> length ds)"
  using assms(2-5)
proof (induction xs arbitrary: u t s c p ds)
  case Nil
  then show ?case by auto
next
  case (Cons x xs)
  obtain len seg where x: "x = (len, seg)" by (cases x)
  show ?case
  proof (cases "p = []")
    case True
    then have "so_Read m len seg s c = ((Err EOF, s\<lparr>so_r := Some t\<rparr>), c)"
      using Cons.prems by (simp add: so_Read_def so_initReader_def sr_Read_def io_some_def)
    then have "ds = []" "e = Some EOF" using Cons.prems(4) x by simp_all
    then show ?thesis using True by simp
  next
    case False
    define k where "k = min len (max 1 seg)"
    define t' where "t' = snd (xor_stream (sc_decStep m) t (fst (xor_stream (sc_encStep m) u (take k p))))"
    define u' where "u' = snd (xor_stream (sc_encStep m) u (take k p))"
    let ?s = "s\<lparr>so_r := Some t'\<rparr>" and ?c = "c\<lparr>rd := fst (xor_stream (sc_encStep m) u' (drop k p))\<rparr>"
    have f: "fst (xor_stream (sc_decStep m) t (fst (xor_stream (sc_encStep m) u (take k p)))) = take k p" "R u' t'"
      using xor_follows [OF assms(1) Cons.prems(1), of "take k p"] by (auto simp: t'_def u'_def)
    have ne: "rd c \<noteq> []" using False Cons.prems(3) length_xor [of "sc_encStep m" u p] by (metis length_0_conv)
    have "io_some len seg c = (Ok (take k (rd c)), c\<lparr>rd := drop k (rd c)\<rparr>)"
      using ne by (simp add: io_some_def k_def Let_def)
    then have "sr_Read m len seg t c = ((Ok (take k p), t'), ?c)"
      using f(1) by (simp add: sr_Read_def Cons.prems(3) xor_take xor_drop u'_def t'_def case_prod_beta)
    then have r: "so_Read m len seg s c = ((Ok (take k p), ?s), ?c)"
      using Cons.prems(2) by (simp add: so_Read_def so_initReader_def)
    obtain ds' where ds: "so_reads m xs ?s ?c = (ds', e)" "ds = take k p @ ds'"
      using Cons.prems(4) r x by (auto split: prod.splits)
    have "\<exists>rest. drop k p = ds' @ rest \<and> (e = Some EOF \<longrightarrow> rest = []) \<and> (e = None \<or> e = Some EOF)
        \<and> (0 \<notin> fst ` set xs \<longrightarrow> e = None \<longrightarrow> length xs \<le> length ds')"
      by (rule Cons.IH [OF f(2) _ _ ds(1)]) simp_all
    then obtain rest where rest: "drop k p = ds' @ rest" "e = Some EOF \<longrightarrow> rest = []" "e = None \<or> e = Some EOF"
      "0 \<notin> fst ` set xs \<longrightarrow> e = None \<longrightarrow> length xs \<le> length ds'" by blast
    have "p = ds @ rest" using ds(2) rest(1) by (metis append.assoc append_take_drop_id)
    moreover have "Suc (length ds') \<le> length ds" if "len \<noteq> 0" using that False ds(2) by (cases p) (auto simp: k_def)
    ultimately show ?thesis using rest x by fastforce
  qed
qed

section \<open>Properties\<close>

text \<open>A connection encrypted with a stream cipher delivers what was written. For every sequence of writes of
  any size each write reports its whole length; a peer that reads with buffers of any sizes, over a
  transport that cuts the stream anywhere, gets a prefix of the concatenated data, no error but \<open>EOF\<close> and that only
  after all of it, and gets all of it when it reads often enough.\<close>

theorem stream_cipher_delivery:
  assumes "stream_ok m" "length iv = sc_ivSize m"
    and "so_writes m iv ps newStreamConn (mk_conn inp) = (rs, s, c)"
    and "so_reads m xs newStreamConn (mk_conn (sent c)) = (ds, e)"
  shows "rs = map (\<lambda>p. (length p, None)) ps
    \<and> (\<exists>rest. concat ps = ds @ rest \<and> (e = Some EOF \<longrightarrow> rest = [])) \<and> (e = None \<or> e = Some EOF)
    \<and> (0 \<notin> fst ` set xs \<and> length (concat ps) < length xs \<longrightarrow> ds = concat ps)"
proof (cases "ps = []")
  case True
  then have c: "sent c = []" "rs = []" using assms(3) by (auto simp: mk_conn_def sent_def)
  have "sc_ivSize m \<noteq> 0" using assms(1) by (simp add: stream_ok_def)
  then have "so_reads m xs newStreamConn (mk_conn []) = ([], if xs = [] then None else Some EOF)"
    by (cases xs) (auto simp: so_Read_def newStreamConn_def so_initReader_def obtainReadIV_def io_read_def
        read_full_def mk_conn_def)
  then show ?thesis using True c assms(4) by (auto split: if_splits)
next
  case False
  have iv: "0 < sc_ivSize m" using assms(1) by (simp add: stream_ok_def)
  have w: "rs = map (\<lambda>p. (length p, None)) ps"
    "sent c = iv @ fst (xor_stream (sc_encStep m) (sc_encrypter m iv) (concat ps))"
    using so_writes_new [OF False iv, of iv inp] assms(3) by auto
  obtain R where R: "follows m R" "R (sc_encrypter m iv) (sc_decrypter m iv)"
    using assms(1,2) unfolding stream_ok_def follows_def by blast
  have "\<exists>rest. concat ps = ds @ rest \<and> (e = Some EOF \<longrightarrow> rest = []) \<and> (e = None \<or> e = Some EOF)
      \<and> (0 \<notin> fst ` set xs \<longrightarrow> e = None \<longrightarrow> length xs \<le> length ds)"
  proof (cases xs)
    case Nil
    then show ?thesis using assms(4) by auto
  next
    case (Cons x ys)
    let ?s = "newStreamConn\<lparr>so_readIV := iv, so_r := Some (sc_decrypter m iv)\<rparr>"
    let ?c = "mk_conn (fst (xor_stream (sc_encStep m) (sc_encrypter m iv) (concat ps)))"
    have "io_read (sc_ivSize m) (mk_conn (sent c)) = (Inr iv, ?c)"
      using io_read_append [of "mk_conn (sent c)" iv] w(2) assms(2) by (simp add: mk_conn_def)
    then have "so_initReader m newStreamConn (mk_conn (sent c)) = ((None, ?s), ?c)"
      using iv by (simp add: so_initReader_def newStreamConn_def obtainReadIV_def)
    moreover have "so_initReader m ?s ?c = ((None, ?s), ?c)" by (simp add: so_initReader_def)
    ultimately have "so_Read m len seg newStreamConn (mk_conn (sent c)) = so_Read m len seg ?s ?c" for len seg
      by (simp add: so_Read_def)
    then have "so_reads m xs ?s ?c = (ds, e)" using assms(4) Cons by (cases x) simp
    then show ?thesis
      by (rule so_reads_open [OF R, rotated 2]) (simp_all add: mk_conn_def)
  qed
  then obtain rest where r: "concat ps = ds @ rest" "e = Some EOF \<longrightarrow> rest = []" "e = None \<or> e = Some EOF"
    "0 \<notin> fst ` set xs \<longrightarrow> e = None \<longrightarrow> length xs \<le> length ds" by blast
  then have "length ds \<le> length (concat ps)" by simp
  then show ?thesis using w(1) r by fastforce
qed

text \<open>A concrete cipher for the witnesses: a counter from the IV's first byte is added and subtracted.\<close>

definition demo_stream :: "byte stream_cipher" where
  "demo_stream = \<lparr>sc_ivSize = 8, sc_encrypter = (\<lambda>iv. hd iv), sc_decrypter = (\<lambda>iv. hd iv),
     sc_encStep = (\<lambda>s b. (b + s, s + 1)), sc_decStep = (\<lambda>s b. (b - s, s + 1))\<rparr>"

lemma demo_stream_ok: "stream_ok demo_stream"
  unfolding stream_ok_def demo_stream_def by (auto intro!: exI [of _ "(=)"])

theorem stream_cipher_delivery_witness:
  "\<exists>s c. so_writes demo_stream (replicate 8 9) [[1, 2, 3], [], [4]] newStreamConn (mk_conn [])
      = ([(3, None), (0, None), (1, None)], s, c)
    \<and> fst (so_reads demo_stream [(1, 1), (2, 9), (9, 1), (9, 9), (9, 9)] newStreamConn (mk_conn (sent c))) = [1, 2, 3, 4]"
proof -
  let ?w = "so_writes demo_stream (replicate 8 9) [[1, 2, 3], [], [4]] newStreamConn (mk_conn [])"
  let ?x = "[(1, 1), (2, 9), (9, 1), (9, 9), (9, 9)]"
  obtain rs s c where w: "?w = (rs, s, c)" by (cases ?w)
  obtain ds e where r: "so_reads demo_stream ?x newStreamConn (mk_conn (sent c)) = (ds, e)"
    by (cases "so_reads demo_stream ?x newStreamConn (mk_conn (sent c))")
  have "length (replicate 8 (9 :: byte)) = sc_ivSize demo_stream" by (simp add: demo_stream_def)
  then show ?thesis using stream_cipher_delivery [OF demo_stream_ok _ w r] w r by simp
qed

end
