(* ===== verification/ShadowCore.thy ===== *)
theory ShadowCore
  imports ShadowStream
begin

text \<open>
  \<open>transport/shadowsocks/core/cipher.go\<close>: the tables of ciphers, \<open>PickCipher\<close> and the key derivation. MD5 is a
  parameter, and so is the Unicode case table of \<open>strings.ToUpper\<close>, used on strings with non-ASCII bytes only.
\<close>

section \<open>Tables\<close>

datatype aead_ctor = AESGCM | Chacha20Poly1305 | XChacha20Poly1305
datatype stream_ctor = RC4MD5 | AESCTR | AESCFB | Chacha20IETF | Xchacha20

definition aeadList :: "(string \<times> nat \<times> aead_ctor) list" where
  "aeadList = [(''AEAD_AES_128_GCM'', 16, AESGCM), (''AEAD_AES_192_GCM'', 24, AESGCM), (''AEAD_AES_256_GCM'', 32, AESGCM),
     (''AEAD_CHACHA20_POLY1305'', 32, Chacha20Poly1305), (''AEAD_XCHACHA20_POLY1305'', 32, XChacha20Poly1305)]"

definition streamList :: "(string \<times> nat \<times> stream_ctor) list" where
  "streamList = [(''RC4-MD5'', 16, RC4MD5), (''AES-128-CTR'', 16, AESCTR), (''AES-192-CTR'', 24, AESCTR),
     (''AES-256-CTR'', 32, AESCTR), (''AES-128-CFB'', 16, AESCFB), (''AES-192-CFB'', 24, AESCFB),
     (''AES-256-CFB'', 32, AESCFB), (''CHACHA20-IETF'', 32, Chacha20IETF), (''XCHACHA20'', 32, Xchacha20)]"

text \<open>The constructors check the length of the key.\<close>

fun aead_new :: "aead_ctor \<Rightarrow> bytes \<Rightarrow> gerr option" where
  "aead_new AESGCM key =
     (if length key = 16 \<or> length key = 24 \<or> length key = 32 then None else Some (KeySizeError (length key)))"
| "aead_new Chacha20Poly1305 key = (if length key \<noteq> 32 then Some (KeySizeError 32) else None)"
| "aead_new XChacha20Poly1305 key = (if length key \<noteq> 32 then Some (KeySizeError 32) else None)"

fun stream_new :: "stream_ctor \<Rightarrow> bytes \<Rightarrow> gerr option" where
  "stream_new RC4MD5 key = None"
| "stream_new AESCTR key =
     (if length key = 16 \<or> length key = 24 \<or> length key = 32 then None else Some (KeySizeError (length key)))"
| "stream_new AESCFB key =
     (if length key = 16 \<or> length key = 24 \<or> length key = 32 then None else Some (KeySizeError (length key)))"
| "stream_new Chacha20IETF key = (if length key \<noteq> 32 then Some (KeySizeError 32) else None)"
| "stream_new Xchacha20 key = (if length key \<noteq> 32 then Some (KeySizeError 32) else None)"

section \<open>Key derivation\<close>

text \<open>The loop of \<open>Kdf\<close>, with fuel for the rounds.\<close>

fun kdf_loop :: "(bytes \<Rightarrow> bytes) \<Rightarrow> nat \<Rightarrow> bytes \<Rightarrow> nat \<Rightarrow> bytes \<Rightarrow> bytes \<Rightarrow> bytes option" where
  "kdf_loop md5 fuel pw keyLen b prev =
     (if keyLen \<le> length b then Some b
      else case fuel of
        0 \<Rightarrow> None
      | Suc fuel' \<Rightarrow>
          (let b' = b @ md5 (prev @ pw) in kdf_loop md5 fuel' pw keyLen b' (drop (length b' - 16) b')))"

declare kdf_loop.simps [simp del]

definition kdf_key :: "(bytes \<Rightarrow> bytes) \<Rightarrow> string \<Rightarrow> nat \<Rightarrow> bytes option" where
  "kdf_key md5 password keyLen = map_option (take keyLen) (kdf_loop md5 keyLen (s2b password) keyLen [] [])"

section \<open>PickCipher\<close>

definition upper_char :: "char \<Rightarrow> char" where
  "upper_char c = (if 97 \<le> (of_char c :: nat) \<and> (of_char c :: nat) \<le> 122 then char_of (of_char c - 32 :: nat) else c)"

definition toUpper :: "(string \<Rightarrow> string) \<Rightarrow> string \<Rightarrow> string" where
  "toUpper uupper s = (if list_all (\<lambda>c. (of_char c :: nat) < 128) s then map upper_char s else uupper s)"

text \<open>The cipher that was picked: its table entry's constructor and its key.\<close>

datatype picked = Dummy | AeadCipher aead_ctor bytes | StreamCipher stream_ctor bytes

definition ErrCipherNotSupported :: gerr where "ErrCipherNotSupported = Msg ''cipher not supported''"

definition rename_cipher :: "string \<Rightarrow> string" where
  "rename_cipher name =
     (if name = ''CHACHA20-IETF-POLY1305'' then ''AEAD_CHACHA20_POLY1305''
      else if name = ''XCHACHA20-IETF-POLY1305'' then ''AEAD_XCHACHA20_POLY1305''
      else if name = ''AES-128-GCM'' then ''AEAD_AES_128_GCM''
      else if name = ''AES-192-GCM'' then ''AEAD_AES_192_GCM''
      else if name = ''AES-256-GCM'' then ''AEAD_AES_256_GCM''
      else name)"

definition pick_key :: "(bytes \<Rightarrow> bytes) \<Rightarrow> nat \<Rightarrow> bytes \<Rightarrow> string \<Rightarrow> bytes res" where
  "pick_key md5 n key password =
     (case (if key = [] then kdf_key md5 password n else Some key) of
        None \<Rightarrow> Err (Panic ''no result'')
      | Some k \<Rightarrow> if length k \<noteq> n then Err (KeySizeError n) else Ok k)"

definition pickCipher :: "(string \<Rightarrow> string) \<Rightarrow> (bytes \<Rightarrow> bytes) \<Rightarrow> string \<Rightarrow> bytes \<Rightarrow> string \<Rightarrow> picked res" where
  "pickCipher uupper md5 name key password =
     (let name = toUpper uupper name in
      if name = ''DUMMY'' then Ok Dummy
      else let name = rename_cipher name in
        case map_of aeadList name of
          Some (n, ctor) \<Rightarrow>
            rbind (pick_key md5 n key password) (\<lambda>k. case aead_new ctor k of Some e \<Rightarrow> Err e | None \<Rightarrow> Ok (AeadCipher ctor k))
        | None \<Rightarrow>
            (case map_of streamList name of
               Some (n, ctor) \<Rightarrow>
                 rbind (pick_key md5 n key password) (\<lambda>k. case stream_new ctor k of Some e \<Rightarrow> Err e | None \<Rightarrow> Ok (StreamCipher ctor k))
             | None \<Rightarrow> Err ErrCipherNotSupported))"

section \<open>Lemmas\<close>

text \<open>The digests the key is cut from.\<close>

fun kdf_digest :: "(bytes \<Rightarrow> bytes) \<Rightarrow> bytes \<Rightarrow> nat \<Rightarrow> bytes" where
  "kdf_digest md5 pw 0 = md5 pw"
| "kdf_digest md5 pw (Suc i) = md5 (kdf_digest md5 pw i @ pw)"

abbreviation digests :: "(bytes \<Rightarrow> bytes) \<Rightarrow> bytes \<Rightarrow> nat \<Rightarrow> bytes" where
  "digests md5 pw n \<equiv> concat (map (kdf_digest md5 pw) [0..<n])"

lemma length_digest: "(\<And>x. length (md5 x) = 16) \<Longrightarrow> length (kdf_digest md5 pw i) = 16"
  by (cases i) simp_all

lemma length_digests: "(\<And>x. length (md5 x) = 16) \<Longrightarrow> length (digests md5 pw n) = 16 * n"
  by (induction n) (simp_all add: length_digest)

lemma kdf_loop_digests:
  assumes md5: "\<And>x. length (md5 x) = 16"
  shows "keyLen \<le> 16 * i + 16 * fuel \<Longrightarrow> prev = (if i = 0 then [] else kdf_digest md5 pw (i - 1)) \<Longrightarrow>
    \<exists>n \<ge> i. kdf_loop md5 fuel pw keyLen (digests md5 pw i) prev = Some (digests md5 pw n) \<and> keyLen \<le> 16 * n
      \<and> (n = i \<or> 16 * (n - 1) < keyLen)"
proof (induction fuel arbitrary: i prev)
  case 0
  then show ?case by (intro exI [of _ i]) (simp add: kdf_loop.simps length_digests [OF md5])
next
  case (Suc fuel)
  show ?case
  proof (cases "keyLen \<le> 16 * i")
    case True
    then show ?thesis by (intro exI [of _ i]) (simp add: kdf_loop.simps length_digests [OF md5])
  next
    case False
    have d: "md5 (prev @ pw) = kdf_digest md5 pw i" using Suc.prems(2) by (cases i) simp_all
    have dr: "drop (length (digests md5 pw i @ kdf_digest md5 pw i) - 16) (digests md5 pw i @ kdf_digest md5 pw i)
        = kdf_digest md5 pw i"
      by (simp add: length_digest [OF md5] length_digests [OF md5])
    have "kdf_loop md5 (Suc fuel) pw keyLen (digests md5 pw i) prev
        = kdf_loop md5 fuel pw keyLen (digests md5 pw (Suc i)) (kdf_digest md5 pw i)"
      using False dr by (subst kdf_loop.simps) (simp add: length_digests [OF md5] d Let_def)
    moreover obtain n where "n \<ge> Suc i"
      "kdf_loop md5 fuel pw keyLen (digests md5 pw (Suc i)) (kdf_digest md5 pw i) = Some (digests md5 pw n)"
      "keyLen \<le> 16 * n" "n = Suc i \<or> 16 * (n - 1) < keyLen"
      using Suc.IH [of "Suc i" "kdf_digest md5 pw i"] Suc.prems(1) by auto
    ultimately show ?thesis using False by (intro exI [of _ n]) auto
  qed
qed

lemma kdf_key_digests:
  assumes "\<And>x. length (md5 x) = 16" "keyLen \<le> 16 * n"
  shows "kdf_key md5 password keyLen = Some (take keyLen (digests md5 (s2b password) n))"
proof -
  let ?d = "digests md5 (s2b password)"
  obtain k where k: "kdf_loop md5 keyLen (s2b password) keyLen [] [] = Some (?d k)" "keyLen \<le> 16 * k"
    using kdf_loop_digests [where ?md5.0 = md5 and i = 0 and fuel = keyLen and prev = "[]" and keyLen = keyLen
        and pw = "s2b password"] assms(1) by auto
  have pre: "take keyLen (?d (i + j)) = take keyLen (?d i)" if "keyLen \<le> 16 * i" for i j
    using that by (simp add: upt_add_eq_append [of 0 i j, simplified] length_digests [OF assms(1)])
  have "take keyLen (?d k) = take keyLen (?d n)"
    using pre [OF k(2), of "n - k"] pre [OF assms(2), of "k - n"] by (cases "k \<le> n") auto
  then show ?thesis using k by (simp add: kdf_key_def)
qed

lemma kdf_key_length:
  assumes "\<And>x. length (md5 x) = 16"
  shows "\<exists>k. kdf_key md5 password n = Some k \<and> length k = n"
  using kdf_key_digests [of md5 n n password] assms by (simp add: length_digests [OF assms])

text \<open>The key derivation returns, with a key of the right length: for every password and every length the
  loop ends and the key is the first bytes of the MD5 digests of the password, each chained to the one before.\<close>

theorem kdf_terminates:
  assumes "\<And>x. length (md5 x) = 16"
  shows "\<exists>k. kdf_key md5 password keyLen = Some k \<and> length k = keyLen
    \<and> k = take keyLen (digests md5 (s2b password) ((keyLen + 15) div 16))"
  using kdf_key_digests [of md5 keyLen "(keyLen + 15) div 16" password] kdf_key_length [of md5 password keyLen] assms
  by auto

theorem kdf_terminates_witness:
  "\<exists>k. kdf_key (\<lambda>x. replicate 16 (word_of_nat (length x))) ''pw'' 32 = Some k \<and> length k = 32"
  using kdf_terminates [of "\<lambda>x. replicate 16 (word_of_nat (length x))" "''pw''" 32] by auto

text \<open>\<open>PickCipher\<close> accepts exactly the names of its tables, in any case: for a name, its upper-case form
  being \<open>n\<close>, it returns an error if \<open>n\<close> is neither \<open>DUMMY\<close> nor, after renaming, in a table; for a name in a table
  it returns a cipher of that entry whose key has the entry's length, which is the given key, or derived from
  the password when none is given, and otherwise fails because of the key's length.\<close>

theorem pickCipher_tables:
  assumes "\<And>x. length (md5 x) = 16" "n = toUpper uupper name"
  shows "pickCipher uupper md5 name key password =
    (if n = ''DUMMY'' then Ok Dummy
     else case (map_of aeadList (rename_cipher n), map_of streamList n) of
       (Some (l, ctor), _) \<Rightarrow>
         (if key \<noteq> [] \<and> length key \<noteq> l then Err (KeySizeError l)
          else Ok (AeadCipher ctor (if key = [] then the (kdf_key md5 password l) else key)))
     | (None, Some (l, ctor)) \<Rightarrow>
         (if key \<noteq> [] \<and> length key \<noteq> l then Err (KeySizeError l)
          else Ok (StreamCipher ctor (if key = [] then the (kdf_key md5 password l) else key)))
     | (None, None) \<Rightarrow> Err ErrCipherNotSupported)"
proof -
  have key: "pick_key md5 l key password =
      (if key \<noteq> [] \<and> length key \<noteq> l then Err (KeySizeError l)
       else Ok (if key = [] then the (kdf_key md5 password l) else key))" for l
    using kdf_key_length [of md5 password l] assms(1) by (auto simp: pick_key_def)
  have len: "length (if key = [] then the (kdf_key md5 password l) else key) = l"
    if "\<not> (key \<noteq> [] \<and> length key \<noteq> l)" for l
    using that kdf_key_length [of md5 password l] assms(1) by auto
  have a: "aead_new ctor k = None" if "map_of aeadList x = Some (length k, ctor)" for x ctor k
    using that by (cases ctor) (auto simp: aeadList_def split: if_splits)
  have s: "stream_new ctor k = None" if "map_of streamList x = Some (length k, ctor)" for x ctor k
    using that by (cases ctor) (auto simp: streamList_def split: if_splits)
  have r: "map_of streamList (rename_cipher n) = map_of streamList n" if "map_of aeadList (rename_cipher n) = None"
    using that by (auto simp: rename_cipher_def aeadList_def split: if_splits)
  show ?thesis
  proof (cases "map_of aeadList (rename_cipher n)")
    case (Some p)
    obtain l ctor where p: "p = (l, ctor)" by (cases p)
    show ?thesis
      using Some p a [of "rename_cipher n" "if key = [] then the (kdf_key md5 password l) else key" ctor] len [of l]
      by (auto simp: pickCipher_def Let_def assms(2) [symmetric] key simp del: if_split_asm)
  next
    case None
    note no = None r [OF None]
    show ?thesis
    proof (cases "map_of streamList n")
      case (Some p)
      obtain l ctor where p: "p = (l, ctor)" by (cases p)
      show ?thesis
        using Some p no s [of n "if key = [] then the (kdf_key md5 password l) else key" ctor] len [of l]
        by (auto simp: pickCipher_def Let_def assms(2) [symmetric] key)
    next
      case None
      then show ?thesis using no by (simp add: pickCipher_def Let_def assms(2) [symmetric])
    qed
  qed
qed

theorem pickCipher_tables_witness:
  "pickCipher id (\<lambda>x. replicate 16 0) ''aes-256-gcm'' (replicate 32 5) [] = Ok (AeadCipher AESGCM (replicate 32 5))"
proof -
  have m: "\<And>x. length (replicate 16 (0 :: byte)) = 16" by simp
  have u: "''AES-256-GCM'' = toUpper id ''aes-256-gcm''" by code_simp
  show ?thesis
    unfolding pickCipher_tables [OF m u] by (simp add: rename_cipher_def aeadList_def)
qed

end
