(* ===== verification/SsrFrames.thy ===== *)
theory SsrFrames
  imports ShadowCore
begin

text \<open>
  \<open>transport/ssr/protocol/stream.go\<close>: a connection that decodes the frames of a protocol. Every protocol of
  \<open>transport/ssr\<close> decodes in the same way: a loop looks at the bytes that have arrived, takes a whole frame off
  them, fails, or waits for more. The loop and the connection are here, with the laws of one round of a decoder as
  the interface \<open>frame_decoder\<close>, and of a decoder whose peer packs the frames as \<open>frame_codec\<close>.
\<close>

section \<open>Decoding\<close>

text \<open>One round: wait, take \<open>n\<close> bytes and hand out others, or fail (which empties the buffer).\<close>

datatype 's frame_step = NeedMore 's | Took nat bytes 's | Fails gerr 's

fun decode_loop ::
  "('s \<Rightarrow> bytes \<Rightarrow> 's frame_step) \<Rightarrow> nat \<Rightarrow> 's \<Rightarrow> bytes \<Rightarrow> bytes \<Rightarrow> gerr option \<times> 's \<times> bytes \<times> bytes" where
  "decode_loop step 0 st src dst = (None, st, src, dst)"
| "decode_loop step (Suc f) st src dst =
     (case step st src of
        NeedMore st' \<Rightarrow> (None, st', src, dst)
      | Took n out st' \<Rightarrow> decode_loop step f st' (drop n src) (dst @ out)
      | Fails e st' \<Rightarrow> (Some e, st', [], dst))"

text \<open>\<open>Decode\<close>: the error, the new state, what is left in the buffer and what was handed out. After an error in the
  stream some protocols pass everything on unchanged.\<close>

definition frames_decode ::
  "('s \<Rightarrow> bool) \<Rightarrow> ('s \<Rightarrow> bytes \<Rightarrow> 's frame_step) \<Rightarrow> 's \<Rightarrow> bytes \<Rightarrow> bytes \<Rightarrow> gerr option \<times> 's \<times> bytes \<times> bytes" where
  "frames_decode raw step st src dst =
     (if raw st then (None, st, [], dst @ src) else decode_loop step (Suc (length src)) st src dst)"

section \<open>The connection\<close>

record 's ssr_conn =
  cn_proto :: 's
  cn_decoded :: bytes
  cn_under :: bytes

text \<open>\<open>Read\<close> into a buffer of \<open>m\<close> bytes; \<open>net\<close> holds what the reads of the connection below return.\<close>

definition cn_Read ::
  "('s \<Rightarrow> bytes \<Rightarrow> bytes \<Rightarrow> gerr option \<times> 's \<times> bytes \<times> bytes) \<Rightarrow> nat \<Rightarrow> 's ssr_conn \<times> bytes list
     \<Rightarrow> bytes res \<times> 's ssr_conn \<times> bytes list" where
  "cn_Read decode m = (\<lambda>(c, net).
     if cn_decoded c \<noteq> [] then (Ok (take m (cn_decoded c)), c\<lparr>cn_decoded := drop m (cn_decoded c)\<rparr>, net)
     else case net of
       [] \<Rightarrow> (Err EOF, c, [])
     | x # net' \<Rightarrow>
         (case decode (cn_proto c) (cn_under c @ x) (cn_decoded c) of
            (Some e, st, rest, out) \<Rightarrow> (Err e, c\<lparr>cn_proto := st, cn_under := rest, cn_decoded := out\<rparr>, net')
          | (None, st, rest, out) \<Rightarrow>
              (Ok (take m out), c\<lparr>cn_proto := st, cn_under := rest, cn_decoded := drop m out\<rparr>, net')))"

fun cn_reads ::
  "('s \<Rightarrow> bytes \<Rightarrow> bytes \<Rightarrow> gerr option \<times> 's \<times> bytes \<times> bytes) \<Rightarrow> nat list \<Rightarrow> 's ssr_conn \<times> bytes list
     \<Rightarrow> bytes res list \<times> 's ssr_conn \<times> bytes list" where
  "cn_reads decode [] w = ([], w)"
| "cn_reads decode (m # ms) w =
     (case cn_Read decode m w of (r, w1) \<Rightarrow> case cn_reads decode ms w1 of (rs, w2) \<Rightarrow> (r # rs, w2))"

text \<open>\<open>Write\<close>: what goes to the connection below.\<close>

definition cn_Write :: "('s \<Rightarrow> bytes \<Rightarrow> bytes \<times> 's) \<Rightarrow> 's ssr_conn \<Rightarrow> bytes \<Rightarrow> bytes \<times> 's ssr_conn" where
  "cn_Write encode c b = (case encode (cn_proto c) b of (w, st) \<Rightarrow> (w, c\<lparr>cn_proto := st\<rparr>))"

fun cn_writes :: "('s \<Rightarrow> 'w \<Rightarrow> bytes \<times> 's) \<Rightarrow> 's \<Rightarrow> 'w list \<Rightarrow> bytes \<times> 's" where
  "cn_writes encode st [] = ([], st)"
| "cn_writes encode st (w # ws) =
     (case encode st w of (x, st1) \<Rightarrow> case cn_writes encode st1 ws of (y, st2) \<Rightarrow> (x @ y, st2))"

lemma cn_writes_append:
  "cn_writes encode st (ws @ vs) = (case cn_writes encode st ws of (x, st1) \<Rightarrow> case cn_writes encode st1 vs of (y, st2) \<Rightarrow> (x @ y, st2))"
  by (induction ws arbitrary: st) (auto split: prod.splits)

definition oks :: "bytes res list \<Rightarrow> bytes" where
  "oks rs = concat (map (\<lambda>r. case r of Inr x \<Rightarrow> x | Inl _ \<Rightarrow> []) rs)"

section \<open>The interface of a decoder\<close>

text \<open>The laws of a round: a frame is within the buffer, and neither a frame nor an error depends on what comes
  after it; having waited changes nothing for the next round.\<close>

locale frame_decoder =
  fixes raw :: "'s \<Rightarrow> bool" and step :: "'s \<Rightarrow> bytes \<Rightarrow> 's frame_step"
  assumes took: "step st src = Took n out st' \<Longrightarrow> 0 < n \<and> n \<le> length src \<and> raw st' = raw st"
    and took_more: "step st src = Took n out st' \<Longrightarrow> step st (src @ t) = Took n out st'"
    and fails_more: "step st src = Fails e st' \<Longrightarrow> step st (src @ t) = Fails e st'"
    and waited: "step st src = NeedMore st' \<Longrightarrow> step st' (src @ t) = step st (src @ t) \<and> raw st' = raw st"
begin

abbreviation decode where "decode \<equiv> frames_decode raw step"

lemma loop_fuel: "length src < f \<Longrightarrow> length src < g \<Longrightarrow> decode_loop step f st src dst = decode_loop step g st src dst"
proof (induction f arbitrary: g st src dst)
  case (Suc f)
  then obtain g' where g: "g = Suc g'" by (cases g) auto
  show ?case
  proof (cases "step st src")
    case (Took n out st')
    then have "length (drop n src) < f" "length (drop n src) < g'"
      using took [OF Took] Suc.prems g by auto
    from Suc.IH [OF this, of st' "dst @ out"] show ?thesis using Took g by simp
  qed (simp_all add: g)
qed simp

lemma decode_round:
  assumes "\<not> raw st"
  shows "decode st src dst = (case step st src of
     NeedMore st' \<Rightarrow> (None, st', src, dst)
   | Took n out st' \<Rightarrow> decode st' (drop n src) (dst @ out)
   | Fails e st' \<Rightarrow> (Some e, st', [], dst))"
proof (cases "step st src")
  case (Took n out st')
  have "length (drop n src) < length src" using took [OF Took] by auto
  then have "decode_loop step (length src) st' (drop n src) (dst @ out)
      = decode_loop step (Suc (length (drop n src))) st' (drop n src) (dst @ out)"
    by (intro loop_fuel) auto
  then show ?thesis using Took took [OF Took] assms by (simp add: frames_decode_def)
qed (simp_all add: frames_decode_def assms)

text \<open>Decoding what arrives in two pieces is decoding it at once.\<close>

lemma decode_append:
  "\<not> raw st \<Longrightarrow> decode st (s @ t) dst = (case decode st s dst of
     (None, st', rest, out) \<Rightarrow> decode st' (rest @ t) out
   | (Some e, st', rest, out) \<Rightarrow> (Some e, st', [], out))"
proof (induction "length s" arbitrary: st s dst rule: less_induct)
  case less
  show ?case
  proof (cases "step st s")
    case (NeedMore st')
    note w = waited [OF NeedMore]
    show ?thesis using NeedMore w [of t] less.prems by (simp add: decode_round)
  next
    case (Took n out st')
    note k = took [OF Took]
    have "length (drop n s) < length s" using k by auto
    from less.hyps [OF this, of st' "dst @ out"] show ?thesis
      using Took k took_more [OF Took, of t] less.prems by (simp add: decode_round [of st])
  next
    case (Fails e st')
    then show ?thesis using fails_more [OF Fails, of t] less.prems by (simp add: decode_round)
  qed
qed

lemma decode_raw: "\<not> raw st \<Longrightarrow> decode st s dst = (None, st', rest, out) \<Longrightarrow> \<not> raw st'"
proof (induction "length s" arbitrary: st s dst rule: less_induct)
  case less
  show ?case
  proof (cases "step st s")
    case (NeedMore st2)
    then show ?thesis using less.prems waited [OF NeedMore] by (simp add: decode_round)
  next
    case (Took n o2 st2)
    have "length (drop n s) < length s" using took [OF Took] by auto
    from less.hyps [OF this, of st2 "dst @ o2"] show ?thesis
      using less.prems Took took [OF Took] by (simp add: decode_round [of st])
  qed (use less.prems in \<open>simp add: decode_round\<close>)
qed

lemma decode_waits: "\<not> raw st \<Longrightarrow> decode st s dst = (None, st', rest, out) \<Longrightarrow> \<exists>st''. step st' rest = NeedMore st''"
proof (induction "length s" arbitrary: st s dst rule: less_induct)
  case less
  show ?case
  proof (cases "step st s")
    case (NeedMore st2)
    then show ?thesis using less.prems waited [OF NeedMore, of "[]"] by (simp add: decode_round)
  next
    case (Took n o2 st2)
    have "length (drop n s) < length s" using took [OF Took] by auto
    from less.hyps [OF this, of st2 "dst @ o2"] show ?thesis
      using less.prems Took took [OF Took] by (simp add: decode_round [of st])
  qed (use less.prems in \<open>simp add: decode_round\<close>)
qed

text \<open>What is handed out does not depend on what was handed out before.\<close>

lemma loop_dst: "decode_loop step f st s (a @ dst) =
    (case decode_loop step f st s dst of (e, st', rest, out) \<Rightarrow> (e, st', rest, a @ out))"
  by (induction f arbitrary: st s dst) (auto split: frame_step.splits)

lemma decode_dst: "decode st s dst = (case decode st s [] of (e, st', rest, out) \<Rightarrow> (e, st', rest, dst @ out))"
proof (cases "raw st")
  case False
  then show ?thesis using loop_dst [of "Suc (length s)" st s dst "[]"]
    by (simp only: frames_decode_def if_False append_Nil2)
qed (simp add: frames_decode_def)

text \<open>A sequence of reads hands out what decoding the whole stream at once hands out.\<close>

definition pending :: "'s ssr_conn \<times> bytes list \<Rightarrow> gerr option \<times> bytes" where
  "pending = (\<lambda>(c, net). case decode (cn_proto c) (cn_under c @ concat net) [] of
     (e, st, rest, out) \<Rightarrow> (e, cn_decoded c @ out))"

definition settled :: "'s ssr_conn \<times> bytes list \<Rightarrow> bool" where
  "settled w \<longleftrightarrow> \<not> raw (cn_proto (fst w)) \<and> (\<exists>st'. step (cn_proto (fst w)) (cn_under (fst w)) = NeedMore st')"

lemma read_pending:
  assumes "settled w" "pending w = (None, data)" "cn_Read decode m w = (r, w')"
    "cn_decoded (fst w) \<noteq> [] \<or> snd w \<noteq> []"
  shows "\<exists>x data'. r = Ok x \<and> data = x @ data' \<and> pending w' = (None, data') \<and> settled w'"
proof -
  obtain c net where w: "w = (c, net)" by (cases w)
  show ?thesis
  proof (cases "cn_decoded c = []")
    case False
    then show ?thesis
      using assms by (auto simp: w cn_Read_def pending_def settled_def split: prod.splits)
  next
    case True
    then obtain x net' where net: "net = x # net'" using assms(4) by (cases net) (auto simp: w)
    obtain e st rest out where d: "decode (cn_proto c) (cn_under c @ x) [] = (e, st, rest, out)"
      by (cases "decode (cn_proto c) (cn_under c @ x) []")
    have raw: "\<not> raw (cn_proto c)" using assms(1) by (simp add: w settled_def)
    have p: "decode (cn_proto c) ((cn_under c @ x) @ concat net') [] =
        (case e of None \<Rightarrow> decode st (rest @ concat net') out | Some e' \<Rightarrow> (Some e', st, [], out))"
      using decode_append [OF raw, of "cn_under c @ x" "concat net'" "[]"] d by (simp split: option.splits)
    have e: "e = None"
      using assms(2) True p by (auto simp: w net pending_def split: option.splits prod.splits)
    have q: "decode st (rest @ concat net') out =
        (case decode st (rest @ concat net') [] of (e, st', rest', o2) \<Rightarrow> (e, st', rest', out @ o2))"
      by (rule decode_dst)
    have r: "r = Ok (take m out)" "w' = (c\<lparr>cn_proto := st, cn_under := rest, cn_decoded := drop m out\<rparr>, net')"
      using assms(3) True d e by (auto simp: w net cn_Read_def)
    obtain e2 st2 rest2 o2 where d2: "decode st (rest @ concat net') [] = (e2, st2, rest2, o2)"
      by (cases "decode st (rest @ concat net') []")
    have "data = out @ o2" "e2 = None"
      using assms(2) True p q d2 e by (auto simp: w net pending_def)
    then show ?thesis
      using r d2 decode_raw [OF raw] decode_waits [OF raw] d e
      by (auto simp: pending_def settled_def intro!: exI [of _ "drop m out @ o2"])
  qed
qed

lemma reads_pending:
  assumes "settled w" "pending w = (None, data)" "cn_reads decode ms w = (rs, w')"
  shows "\<exists>data'. data = oks rs @ data' \<and> pending w' = (None, data') \<and> (\<forall>e. Err e \<in> set rs \<longrightarrow> e = EOF \<and> data' = [])"
  using assms
proof (induction ms arbitrary: w rs data)
  case Nil
  then show ?case by (simp add: oks_def)
next
  case (Cons m ms)
  obtain r w1 where r: "cn_Read decode m w = (r, w1)" by (cases "cn_Read decode m w")
  obtain rs1 where rs: "cn_reads decode ms w1 = (rs1, w')" "rs = r # rs1"
    using Cons.prems(3) r by (auto split: prod.splits)
  show ?case
  proof (cases "cn_decoded (fst w) \<noteq> [] \<or> snd w \<noteq> []")
    case True
    obtain x d1 where x: "r = Ok x" "data = x @ d1" "pending w1 = (None, d1)" "settled w1"
      using read_pending [OF Cons.prems(1,2) r True] by blast
    from Cons.IH [OF x(4,3) rs(1)] show ?thesis using x rs by (auto simp: oks_def)
  next
    case False
    then have e: "r = Err EOF" "w1 = w"
      using r by (cases w; auto simp: cn_Read_def)+
    obtain st' where "step (cn_proto (fst w)) (cn_under (fst w)) = NeedMore st'" "\<not> raw (cn_proto (fst w))"
      using Cons.prems(1) by (auto simp: settled_def)
    then have "data = []" using Cons.prems(2) False by (cases w) (auto simp: pending_def decode_round)
    with Cons.IH [OF Cons.prems(1,2), of rs1] rs e show ?thesis by (auto simp: oks_def)
  qed
qed

end

section \<open>The interface of a codec\<close>

text \<open>A decoder whose peer packs data that are \<open>fit\<close>: the next round takes the frame and hands out its data, and the
  peers stay linked.\<close>

locale frame_codec = frame_decoder raw step
  for raw :: "'s \<Rightarrow> bool" and step :: "'s \<Rightarrow> bytes \<Rightarrow> 's frame_step" +
  fixes pack :: "'t \<Rightarrow> 'd \<Rightarrow> bytes \<times> 't" and payload :: "'t \<Rightarrow> 'd \<Rightarrow> bytes" and fit :: "'t \<Rightarrow> 'd \<Rightarrow> bool"
    and linked :: "'t \<Rightarrow> 's \<Rightarrow> bool"
  assumes packed: "linked tx st \<Longrightarrow> fit tx d \<Longrightarrow> pack tx d = (p, tx') \<Longrightarrow>
      \<exists>st'. step st (p @ t) = Took (length p) (payload tx d) st' \<and> linked tx' st'"
    and idle: "linked tx st \<Longrightarrow> \<not> raw st \<and> (\<exists>st'. step st [] = NeedMore st')"
begin

fun pack_all :: "'t \<Rightarrow> 'd list \<Rightarrow> bytes \<times> bytes \<times> 't" where
  "pack_all tx [] = ([], [], tx)"
| "pack_all tx (d # ds) = (case pack tx d of (p, tx1) \<Rightarrow> case pack_all tx1 ds of (ps, data, tx2) \<Rightarrow>
     (p @ ps, payload tx d @ data, tx2))"

fun all_fit :: "'t \<Rightarrow> 'd list \<Rightarrow> bool" where
  "all_fit tx [] \<longleftrightarrow> True"
| "all_fit tx (d # ds) \<longleftrightarrow> fit tx d \<and> all_fit (snd (pack tx d)) ds"

lemma all_fitI: "(\<And>tx d. d \<in> set ds \<Longrightarrow> fit tx d) \<Longrightarrow> all_fit tx ds"
  by (induction ds arbitrary: tx) auto

lemma pack_all_append:
  "pack_all tx (ds @ es) = (case pack_all tx ds of (p, a, tx1) \<Rightarrow> case pack_all tx1 es of (q, b, tx2) \<Rightarrow> (p @ q, a @ b, tx2))"
  by (induction ds arbitrary: tx) (auto split: prod.splits)

fun payloads_of :: "'t \<Rightarrow> 'd list \<Rightarrow> bytes" where
  "payloads_of tx [] = []"
| "payloads_of tx (d # ds) = payload tx d @ payloads_of (snd (pack tx d)) ds"

lemma pack_all_writes: "pack_all tx ds = (fst (cn_writes pack tx ds), payloads_of tx ds, snd (cn_writes pack tx ds))"
  by (induction ds arbitrary: tx) (auto split: prod.splits)

lemma decode_packed:
  "linked tx st \<Longrightarrow> all_fit tx ds \<Longrightarrow> pack_all tx ds = (ps, data, tx')
    \<Longrightarrow> \<exists>st'. decode st ps dst = (None, st', [], dst @ data)"
proof (induction ds arbitrary: tx st ps data dst)
  case Nil
  then show ?case using idle [OF Nil.prems(1)] by (auto simp: decode_round)
next
  case (Cons d ds)
  obtain p tx1 where p: "pack tx d = (p, tx1)" by (cases "pack tx d")
  obtain ps1 data1 where q: "pack_all tx1 ds = (ps1, data1, tx')" "ps = p @ ps1" "data = payload tx d @ data1"
    using Cons.prems(3) p by (auto split: prod.splits)
  obtain st1 where st: "step st (p @ ps1) = Took (length p) (payload tx d) st1" "linked tx1 st1"
    using packed [OF Cons.prems(1) _ p] Cons.prems(2) by auto
  have f: "all_fit tx1 ds" using Cons.prems(2) p by simp
  show ?case
    using Cons.IH [OF st(2) f q(1), of "dst @ payload tx d"] idle [OF Cons.prems(1)] st(1) q
    by (simp add: decode_round [of st])
qed

text \<open>However the transport cuts the stream of frames into pieces and whatever the sizes of the reads, the reads
  return the data in order, and \<open>EOF\<close> only after all of it.\<close>

lemma delivery:
  assumes "linked tx st" "all_fit tx ds" "pack_all tx ds = (concat net, data, tx')"
    "cn_reads decode ms (\<lparr>cn_proto = st, cn_decoded = [], cn_under = []\<rparr>, net) = (rs, w')"
  shows "\<exists>data'. data = oks rs @ data' \<and> (\<forall>e. Err e \<in> set rs \<longrightarrow> e = EOF \<and> data' = [])"
proof -
  let ?w = "(\<lparr>cn_proto = st, cn_decoded = [], cn_under = []\<rparr>, net)"
  have "settled ?w" using idle [OF assms(1)] by (simp add: settled_def)
  moreover have "pending ?w = (None, data)"
    using decode_packed [OF assms(1-3), of "[]"] by (auto simp: pending_def)
  ultimately show ?thesis using reads_pending [OF _ _ assms(4)] by blast
qed

end

section \<open>Packets\<close>

text \<open>\<open>transport/ssr/protocol/packet.go\<close>: the datagram that \<open>WriteTo\<close> sends, and what \<open>ReadFrom\<close> returns for a datagram
  and a buffer of \<open>m\<close> bytes.\<close>

definition pk_WriteTo :: "(bytes \<Rightarrow> bytes) \<Rightarrow> bytes \<Rightarrow> bytes \<times> nat" where
  "pk_WriteTo encode b = (encode b, length b)"

definition pk_ReadFrom :: "(bytes \<Rightarrow> bytes res) \<Rightarrow> nat \<Rightarrow> bytes \<Rightarrow> bytes res" where
  "pk_ReadFrom decode m datagram = decode (take m datagram)"

end
