(* ===== verification/SsrBase.thy ===== *)
theory SsrBase
  imports SsrFrames HttpFacts
begin

text \<open>
  What the protocols of \<open>transport/ssr/protocol\<close> share: the checksums of \<open>hash/crc32\<close> and \<open>hash/adler32\<close>, the
  authentication data of a client (\<open>base.go\<close>), the size of the first packet and the list of protocols
  (\<open>protocol.go\<close>, \<open>origin.go\<close>), and the generator of \<open>transport/ssr/tools/random.go\<close>. Random choices and the clock are
  arguments: a \<open>draw\<close> has the numbers that \<open>rand.Intn\<close> reduces and the bytes that \<open>AppendRandBytes\<close> appends.
\<close>

section \<open>Checksums\<close>

definition crc_shift :: "32 word \<Rightarrow> 32 word" where
  "crc_shift c = (if bit c 0 then drop_bit 1 c XOR 0xEDB88320 else drop_bit 1 c)"

definition crc_byte :: "32 word \<Rightarrow> byte \<Rightarrow> 32 word" where
  "crc_byte c b = (crc_shift ^^ 8) (c XOR ucast b)"

definition crc32 :: "bytes \<Rightarrow> 32 word" where
  "crc32 bs = NOT (foldl crc_byte 0xFFFFFFFF bs)"

fun adler_loop :: "nat \<Rightarrow> nat \<Rightarrow> bytes \<Rightarrow> nat \<times> nat" where
  "adler_loop a b [] = (a, b)"
| "adler_loop a b (x # xs) = (let a' = (a + unat x) mod 65521 in adler_loop a' ((b + a') mod 65521) xs)"

definition adler32 :: "bytes \<Rightarrow> 32 word" where
  "adler32 bs = (case adler_loop 1 0 bs of (a, b) \<Rightarrow> word_of_nat (b * 65536 + a))"

section \<open>Randomness\<close>

record draw =
  dw_int :: nat
  dw_pos :: nat
  dw_bytes :: "nat \<Rightarrow> byte"

definition randBytes :: "draw \<Rightarrow> nat \<Rightarrow> bytes" where
  "randBytes r n = map (dw_bytes r) [0..<n]"

lemma length_randBytes [simp]: "length (randBytes r n) = n"
  by (simp add: randBytes_def)

section \<open>Authentication data\<close>

record auth_data =
  ad_clientID :: bytes
  ad_connectionID :: "32 word"

text \<open>\<open>next\<close>, with the random client identifier and number: the new value of the shared data, which is also what the
  connection gets.\<close>

definition auth_next :: "bytes \<Rightarrow> 32 word \<Rightarrow> auth_data \<Rightarrow> auth_data" where
  "auth_next rid rnum a =
     (let a1 = (if 0xff000000 < ad_connectionID a \<or> ad_connectionID a = 0
                then \<lparr>ad_clientID = rid, ad_connectionID = rnum AND 0xffffff\<rparr> else a)
      in a1\<lparr>ad_connectionID := ad_connectionID a1 + 1\<rparr>)"

definition putAuthData :: "int \<Rightarrow> auth_data \<Rightarrow> bytes" where
  "putAuthData now a = put_le32 (word_of_int now) @ ad_clientID a @ put_le32 (ad_connectionID a)"

text \<open>\<open>base64.StdEncoding.EncodeToString\<close>.\<close>

definition b64_string :: "bytes \<Rightarrow> string" where
  "b64_string b = b64_encode (map unat b)"

text \<open>\<open>putEncryptedData\<close>; \<open>cbc k\<close> is AES-CBC with the key \<open>k\<close> and a zero IV.\<close>

definition putEncryptedData ::
  "(bytes \<Rightarrow> bytes) \<Rightarrow> (bytes \<Rightarrow> bytes \<Rightarrow> bytes) \<Rightarrow> int \<Rightarrow> auth_data \<Rightarrow> bytes \<Rightarrow> nat \<Rightarrow> nat \<Rightarrow> string \<Rightarrow> bytes" where
  "putEncryptedData md5 cbc now a userKey p0 p1 salt =
     (let plain = putAuthData now a @ put_le16 (word_of_nat p0) @ put_le16 (word_of_nat p1);
          key = the (kdf_key md5 (b64_string userKey @ salt) 16)
      in cbc key plain)"

lemma length_putEncryptedData:
  "length (ad_clientID a) = 4 \<Longrightarrow> (\<And>k x. length (cbc k x) = length x) \<Longrightarrow> length (putEncryptedData md5 cbc now a k p0 p1 salt) = 16"
  by (simp add: putEncryptedData_def putAuthData_def Let_def)

section \<open>Protocols\<close>

definition getHeadSize :: "bytes \<Rightarrow> nat \<Rightarrow> nat" where
  "getHeadSize b defaultValue =
     (if length b < 2 then defaultValue
      else let headType = b ! 0 AND 7 in
        if headType = 1 then 7 else if headType = 4 then 19 else if headType = 3 then 4 + unat (b ! 1)
        else defaultValue)"

definition getDataLength :: "draw \<Rightarrow> bytes \<Rightarrow> nat" where
  "getDataLength r b =
     (let dataLength = getHeadSize b 30 + dw_int r mod 32
      in if length b < dataLength then length b else dataLength)"

lemma getDataLength_le: "getDataLength r b \<le> length b" "getDataLength r b \<le> 290"
  using unat_byte_less [of "b ! 1"]
  by (auto simp: getDataLength_def getHeadSize_def Let_def)

datatype ssr_protocol = Origin | AuthSHA1V4 | AuthAES128SHA1 | AuthAES128MD5 | AuthChainA | AuthChainB

definition protocolList :: "(string \<times> nat \<times> ssr_protocol) list" where
  "protocolList = [(''origin'', 0, Origin), (''auth_sha1_v4'', 7, AuthSHA1V4), (''auth_aes128_sha1'', 9, AuthAES128SHA1),
     (''auth_aes128_md5'', 9, AuthAES128MD5), (''auth_chain_a'', 4, AuthChainA), (''auth_chain_b'', 4, AuthChainB)]"

record ssr_base =
  sb_key :: bytes
  sb_overhead :: nat
  sb_param :: string

definition pickProtocol :: "string \<Rightarrow> ssr_base \<Rightarrow> (ssr_protocol \<times> ssr_base) res" where
  "pickProtocol name b =
     (case map_of protocolList name of
        Some (o1, p) \<Rightarrow> Ok (p, b\<lparr>sb_overhead := sb_overhead b + o1\<rparr>)
      | None \<Rightarrow> Err (Msg ''protocol not supported''))"

text \<open>\<open>origin\<close> passes everything on: its rounds never come up.\<close>

definition origin_Decode :: "unit \<Rightarrow> bytes \<Rightarrow> bytes \<Rightarrow> gerr option \<times> unit \<times> bytes \<times> bytes" where
  "origin_Decode = frames_decode (\<lambda>_. True) (\<lambda>st _. NeedMore st)"

definition origin_Encode :: "unit \<Rightarrow> bytes \<Rightarrow> bytes \<times> unit" where
  "origin_Encode st b = (b, st)"

section \<open>The generator\<close>

type_synonym xorshift = "64 word \<times> 64 word"

definition rng_next :: "xorshift \<Rightarrow> 64 word \<times> xorshift" where
  "rng_next = (\<lambda>(s0, s1).
     let x = s0 XOR push_bit 23 s0;
         x' = x XOR (s1 XOR drop_bit 17 x XOR drop_bit 26 s1)
     in (x' + s1, (s1, x')))"

text \<open>\<open>InitFromBin\<close> and \<open>InitFromBinAndLength\<close>: the buffer that they fill up to 16 bytes is not the one that they read
  from, so a shorter input panics. The second one writes the length over the first two bytes of its argument, so it
  also returns the bytes.\<close>

definition initFromBin :: "bytes \<Rightarrow> xorshift res" where
  "initFromBin bin = (if length bin < 16 then Err out_of_range
     else Ok (get_le64 bin, get_le64 (drop 8 bin)))"

definition initFromBinAndLength :: "bytes \<Rightarrow> nat \<Rightarrow> (xorshift \<times> bytes) res" where
  "initFromBinAndLength bin n =
     (if length bin < 16 then Err out_of_range
      else let full = put_le16 (word_of_nat n) @ drop 2 bin;
               r = (get_le64 full, get_le64 (drop 8 full))
           in Ok (((\<lambda>r. snd (rng_next r)) ^^ 4) r, full))"

lemma initFromBinAndLength_prefix:
  "drop 2 a = drop 2 b \<Longrightarrow> length a = length b \<Longrightarrow> initFromBinAndLength a n = initFromBinAndLength b n"
  by (simp add: initFromBinAndLength_def)

lemma initFromBinAndLength_bytes:
  "initFromBinAndLength bin n = Ok (r, full) \<Longrightarrow> drop 2 full = drop 2 bin \<and> length full = length bin"
  by (auto simp: initFromBinAndLength_def Let_def split: if_splits)

section \<open>Padding and packets\<close>

text \<open>\<open>packRandData\<close>: the padding and its length, in the byte order of the protocol.\<close>

definition packRandData :: "(16 word \<Rightarrow> bytes) \<Rightarrow> draw \<Rightarrow> nat \<Rightarrow> bytes" where
  "packRandData put16 r n =
     (if n < 128 then word_of_nat (n + 1) # randBytes r n
      else 255 # put16 (word_of_nat (n + 3)) @ randBytes r n)"

text \<open>The loop of \<open>Encode\<close>: packets of at most \<open>k\<close> bytes.\<close>

function split_packets :: "nat \<Rightarrow> bytes \<Rightarrow> bytes list" where
  "split_packets k b =
     (if 0 < k \<and> k < length b then take k b # split_packets k (drop k b)
      else if b = [] then [] else [b])"
  by pat_completeness auto
termination by (relation "measure (\<lambda>(k, b). length b)") auto

declare split_packets.simps [simp del]

lemma concat_split_packets [simp]: "concat (split_packets k b) = b"
  by (induction k b rule: split_packets.induct) (subst split_packets.simps, auto)

lemma split_packets_bound: "0 < k \<Longrightarrow> p \<in> set (split_packets k b) \<Longrightarrow> p \<noteq> [] \<and> length p \<le> k"
proof (induction k b rule: split_packets.induct)
  case (1 k b)
  then show ?case by (subst (asm) (2) split_packets.simps) (auto split: if_splits)
qed

lemma length_split_packets: "length (split_packets k b) \<le> length b"
proof (induction k b rule: split_packets.induct)
  case (1 k b)
  then show ?case by (subst split_packets.simps) (cases b; auto)
qed

text \<open>The packets with the random choices for each.\<close>

definition numbered :: "(nat \<Rightarrow> draw) \<Rightarrow> bytes list \<Rightarrow> (draw \<times> bytes) list" where
  "numbered rs ps = zip (map rs [0..<length ps]) ps"

lemma numbered_simps [simp]: "map snd (numbered rs ps) = ps" "length (numbered rs ps) = length ps"
  "(r, p) \<in> set (numbered rs ps) \<Longrightarrow> p \<in> set ps"
  by (auto simp: numbered_def dest: set_zip_rightD)

text \<open>What a decoder finds in a packet with padding: where the data begin.\<close>

definition data_pos :: "(bytes \<Rightarrow> 16 word) \<Rightarrow> bytes \<Rightarrow> nat" where
  "data_pos get16 src = (let p = unat (src ! 4) in if p < 255 then p + 4 else unat (get16 (drop 5 src)) + 4)"

lemma data_pos_packed:
  assumes "length h = 4" "n \<le> 60000" "\<And>w r. get16 (put16 w @ r) = w" "\<And>w. length (put16 w) = 2"
  shows "data_pos get16 (h @ packRandData put16 r n @ t) = 4 + length (packRandData put16 r n)"
proof -
  have u: "unat (word_of_nat (n + 1) :: byte) = n + 1" if "n < 128"
    using that by (simp only: unat_of_nat) simp
  have v: "unat (word_of_nat (n + 3) :: 16 word) = n + 3" using assms(2) by (simp only: unat_of_nat) simp
  show ?thesis using assms u v by (auto simp: data_pos_def packRandData_def nth_append Let_def simp del: of_nat_add of_nat_Suc of_nat_1)
qed

end
