(* ===== verification/SsrSha1.thy ===== *)
theory SsrSha1
  imports SsrBase
begin

text \<open>
  \<open>transport/ssr/protocol/auth_sha1_v4.go\<close>. HMAC-SHA1 is a parameter; the clock and the random choices are arguments.
\<close>

section \<open>The protocol\<close>

record sha1_proto =
  s1_key :: bytes
  s1_iv :: bytes
  s1_auth :: auth_data
  s1_hasSentHeader :: bool
  s1_rawTrans :: bool

definition sha1_streamConn :: "bytes \<Rightarrow> auth_data \<Rightarrow> bytes \<Rightarrow> sha1_proto" where
  "sha1_streamConn key auth iv =
     \<lparr>s1_key = key, s1_iv = iv, s1_auth = auth, s1_hasSentHeader = False, s1_rawTrans = False\<rparr>"

text \<open>A round of \<open>Decode\<close>.\<close>

definition sha1_step :: "sha1_proto \<Rightarrow> bytes \<Rightarrow> sha1_proto frame_step" where
  "sha1_step a src =
     (if length src \<le> 4 then NeedMore a
      else if ucast (crc32 (take 2 src)) \<noteq> get_le16 (drop 2 src)
      then Fails (Msg ''auth_sha1_v4 decode data wrong crc32'') a
      else let len = unat (get_be16 src) in
        if 8192 \<le> len \<or> len < 7
        then Fails (Msg ''auth_sha1_v4 decode data wrong length'') (a\<lparr>s1_rawTrans := True\<rparr>)
        else if length src < len then NeedMore a
        else if adler32 (take (len - 4) src) \<noteq> get_le32 (drop (len - 4) src)
        then Fails (Msg ''auth_sha1_v4 decode data wrong adler32'') (a\<lparr>s1_rawTrans := True\<rparr>)
        else let pos = data_pos get_be16 src in
          if len - 4 < pos then Fails out_of_range a
          else Took len (drop pos (take (len - 4) src)) a)"

definition sha1_Decode :: "sha1_proto \<Rightarrow> bytes \<Rightarrow> bytes \<Rightarrow> gerr option \<times> sha1_proto \<times> bytes \<times> bytes" where
  "sha1_Decode = frames_decode s1_rawTrans sha1_step"

definition sha1_getRandDataLength :: "draw \<Rightarrow> nat \<Rightarrow> nat" where
  "sha1_getRandDataLength r n =
     (if 1200 < n then 0 else if 400 < n then dw_int r mod 256 else dw_int r mod 512)"

definition sha1_packData :: "draw \<Rightarrow> bytes \<Rightarrow> bytes" where
  "sha1_packData r data =
     (let rlen = sha1_getRandDataLength r (length data);
          plen = (if rlen < 128 then 2 + 2 + 3 + rlen + length data + 4 - 2 else 2 + 2 + 3 + rlen + length data + 4);
          size = put_be16 (word_of_nat plen);
          body = size @ put_le16 (ucast (crc32 size)) @ packRandData put_be16 r rlen @ data
      in body @ put_le32 (adler32 body))"

definition sha1_packAuthData :: "(bytes \<Rightarrow> bytes \<Rightarrow> bytes) \<Rightarrow> int \<Rightarrow> draw \<Rightarrow> sha1_proto \<Rightarrow> bytes \<Rightarrow> bytes" where
  "sha1_packAuthData hmac now r a data =
     (let rlen = sha1_getRandDataLength r (12 + length data);
          plen = (if rlen < 128 then 2 + 4 + 3 + rlen + 12 + length data + 10 - 2
                  else 2 + 4 + 3 + rlen + 12 + length data + 10);
          crcData = put_be16 (word_of_nat plen) @ s2b ''auth_sha1_v4'' @ s1_key a;
          body = take 2 crcData @ put_le32 (crc32 crcData) @ packRandData put_be16 r rlen
            @ putAuthData now (s1_auth a) @ data
      in body @ take 10 (hmac (s1_iv a @ s1_key a) body))"

text \<open>\<open>Encode\<close>; \<open>rs i\<close> are the random choices for the packet number \<open>i\<close>, \<open>r0\<close> those for the header.\<close>

definition sha1_Encode ::
  "(bytes \<Rightarrow> bytes \<Rightarrow> bytes) \<Rightarrow> int \<Rightarrow> draw \<times> (nat \<Rightarrow> draw) \<Rightarrow> sha1_proto \<Rightarrow> bytes \<Rightarrow> bytes \<times> sha1_proto" where
  "sha1_Encode hmac now = (\<lambda>(r0, rs) a b.
     let n = (if s1_hasSentHeader a then 0 else getDataLength r0 b);
         head = (if s1_hasSentHeader a then [] else sha1_packAuthData hmac now r0 a (take n b));
         ps = split_packets 8100 (drop n b)
     in (head @ concat (map (\<lambda>i. sha1_packData (rs i) (ps ! i)) [0..<length ps]), a\<lparr>s1_hasSentHeader := True\<rparr>))"

section \<open>Decoding\<close>

lemma get_take_append:
  "2 \<le> length s \<Longrightarrow> get_be16 (s @ t) = get_be16 s"
  "2 \<le> length s \<Longrightarrow> get_le16 (s @ t) = get_le16 s"
  "4 \<le> length s \<Longrightarrow> get_le32 (s @ t) = get_le32 s"
  by (cases s rule: get_be16.cases; simp add: get_le16_def get_le32_def)+

lemma data_pos_append:
  assumes "7 \<le> length s" "\<And>s t. 2 \<le> length s \<Longrightarrow> get16 (s @ t) = get16 s"
  shows "data_pos get16 (s @ t) = data_pos get16 s"
  using assms by (simp add: data_pos_def nth_append Let_def)

lemma data_pos_ge: "4 \<le> data_pos get16 s"
  by (simp add: data_pos_def Let_def)

interpretation sha1: frame_decoder s1_rawTrans sha1_step
proof
  fix st st' :: sha1_proto and src out t n e
  show "0 < n \<and> n \<le> length src \<and> s1_rawTrans st' = s1_rawTrans st" if "sha1_step st src = Took n out st'"
    using that by (auto simp: sha1_step_def Let_def split: if_splits)
  show "sha1_step st (src @ t) = Took n out st'" if "sha1_step st src = Took n out st'"
    using that by (auto simp: sha1_step_def Let_def get_take_append data_pos_append split: if_splits)
  show "sha1_step st (src @ t) = Fails e st'" if "sha1_step st src = Fails e st'"
    using that by (auto simp: sha1_step_def Let_def get_take_append data_pos_append split: if_splits)
  show "sha1_step st' (src @ t) = sha1_step st (src @ t) \<and> s1_rawTrans st' = s1_rawTrans st" if "sha1_step st src = NeedMore st'"
    using that by (auto simp: sha1_step_def Let_def split: if_splits)
qed

section \<open>Packing\<close>

lemma length_packRandData:
  "(\<And>w. length (put16 w) = 2) \<Longrightarrow> length (packRandData put16 r n) = (if n < 128 then n + 1 else n + 3)"
  by (simp add: packRandData_def)

lemma sha1_rand_bound: "sha1_getRandDataLength r n < 512" "1200 < n \<Longrightarrow> sha1_getRandDataLength r n = 0"
  using mod_less_divisor [of 256 "dw_int r"] mod_less_divisor [of 512 "dw_int r"]
  by (auto simp: sha1_getRandDataLength_def simp del: mod_less_divisor)

lemma sha1_packData_shape:
  assumes "length d \<le> 8100"
  obtains h pad where "sha1_packData r d = (h @ pad @ d) @ put_le32 (adler32 (h @ pad @ d))" "length h = 4"
    "length (sha1_packData r d) < 8192" "9 \<le> length (sha1_packData r d)"
    "\<And>t. unat (get_be16 (h @ t)) = length (sha1_packData r d)"
    "\<And>t. ucast (crc32 (take 2 (h @ t))) = get_le16 (drop 2 (h @ t))"
    "\<And>t. data_pos get_be16 (h @ pad @ t) = 4 + length pad"
proof -
  define n where "n = sha1_getRandDataLength r (length d)"
  define pad where "pad = packRandData put_be16 r n"
  define plen where "plen = (if n < 128 then 2 + 2 + 3 + n + length d + 4 - 2 else 2 + 2 + 3 + n + length d + 4)"
  define h where "h = put_be16 (word_of_nat plen) @ put_le16 (ucast (crc32 (put_be16 (word_of_nat plen))))"
  have n: "n < 512" "1200 < length d \<Longrightarrow> n = 0" using sha1_rand_bound by (auto simp: n_def)
  have lp: "length pad = (if n < 128 then n + 1 else n + 3)" by (simp add: pad_def length_packRandData)
  have eq: "sha1_packData r d = (h @ pad @ d) @ put_le32 (adler32 (h @ pad @ d))"
    by (simp add: sha1_packData_def Let_def n_def [symmetric] plen_def [symmetric] pad_def [symmetric] h_def)
  have len: "length (sha1_packData r d) = plen" by (simp add: eq lp plen_def h_def)
  have "plen < 8192" using n assms by (cases "1200 < length d") (auto simp: plen_def)
  moreover have "9 \<le> plen" by (simp add: plen_def)
  moreover have "unat (get_be16 (h @ t)) = plen" for t
    using \<open>plen < 8192\<close> by (simp add: h_def unat_of_nat)
  moreover have "ucast (crc32 (take 2 (h @ t))) = get_le16 (drop 2 (h @ t))" for t
    by (simp add: h_def)
  moreover have "data_pos get_be16 (h @ pad @ t) = 4 + length pad" for t
    unfolding pad_def by (rule data_pos_packed) (use n in \<open>auto simp: h_def\<close>)
  moreover have "length h = 4" by (simp add: h_def)
  ultimately show ?thesis using that [of h pad] eq len by auto
qed

lemma sha1_step_packData:
  assumes "length d \<le> 8100"
  shows "sha1_step a (sha1_packData r d @ t) = Took (length (sha1_packData r d)) d a"
proof -
  obtain h pad where s: "sha1_packData r d = (h @ pad @ d) @ put_le32 (adler32 (h @ pad @ d))" "length h = 4"
    "length (sha1_packData r d) < 8192" "9 \<le> length (sha1_packData r d)"
    "\<And>t. unat (get_be16 (h @ t)) = length (sha1_packData r d)"
    "\<And>t. ucast (crc32 (take 2 (h @ t))) = get_le16 (drop 2 (h @ t))"
    "\<And>t. data_pos get_be16 (h @ pad @ t) = 4 + length pad"
    by (rule sha1_packData_shape [OF assms]) blast
  let ?p = "sha1_packData r d" and ?b = "h @ pad @ d"
  have p: "?p @ t = h @ pad @ d @ put_le32 (adler32 ?b) @ t" by (simp add: s(1))
  have l: "length ?p - 4 = length ?b" "length ?p = length ?b + 4" by (simp_all add: s(1))
  have "take (length ?b) (?p @ t) = ?b" "drop (length ?b) (?p @ t) = put_le32 (adler32 ?b) @ t"
    by (simp_all add: s(1))
  then show ?thesis
    using s(2-7) l by (simp add: sha1_step_def Let_def p)
qed

interpretation sha1_peer: frame_codec s1_rawTrans sha1_step "\<lambda>u (r, d). (sha1_packData r d, u)" "\<lambda>u (r, d). d"
  "\<lambda>u (r, d). length d \<le> 8100" "\<lambda>(u :: sha1_proto) a. \<not> s1_rawTrans a"
proof
  show "\<exists>st'. sha1_step st (p @ t) = Took (length p) (case d of (r, d) \<Rightarrow> d) st' \<and> \<not> s1_rawTrans st'"
    if "\<not> s1_rawTrans st" "case d of (r, d) \<Rightarrow> length d \<le> 8100" "(case d of (r, d) \<Rightarrow> (sha1_packData r d, tx)) = (p, tx')"
    for tx tx' :: sha1_proto and st d p t
    using that by (auto simp: sha1_step_packData split: prod.splits)
qed (simp add: sha1_step_def)

section \<open>Delivery\<close>

text \<open>The frames of one write, and of many.\<close>

definition sha1_frames :: "(nat \<Rightarrow> draw) \<Rightarrow> bytes \<Rightarrow> (draw \<times> bytes) list" where
  "sha1_frames rs b = (let ps = split_packets 8100 b in map (\<lambda>i. (rs i, ps ! i)) [0..<length ps])"

lemma sha1_frames_fit: "(r, d) \<in> set (sha1_frames rs b) \<Longrightarrow> length d \<le> 8100"
  using split_packets_bound [of 8100 _ b] by (auto simp: sha1_frames_def Let_def)

lemma sha1_frames_data: "concat (map snd (sha1_frames rs b)) = b"
  by (simp add: sha1_frames_def Let_def comp_def map_nth)

lemma sha1_pack_all: "sha1_peer.pack_all u ds = (concat (map (\<lambda>(r, d). sha1_packData r d) ds), concat (map snd ds), u)"
  by (induction ds) auto

lemma sha1_Encode_sent:
  "s1_hasSentHeader a \<Longrightarrow> sha1_Encode hmac now (r0, rs) a b
    = (concat (map (\<lambda>(r, d). sha1_packData r d) (sha1_frames rs b)), a)"
  by (simp add: sha1_Encode_def sha1_frames_def Let_def comp_def)

lemma sha1_writes:
  assumes "s1_hasSentHeader a"
  shows "concat (map (\<lambda>(rs, b). fst (sha1_Encode hmac now rs a b)) ws)
    = fst (sha1_peer.pack_all u (concat (map (\<lambda>((r0, rs), b). sha1_frames rs b) ws)))"
  by (induction ws) (auto simp: sha1_pack_all sha1_Encode_sent [OF assms])

text \<open>Over \<open>auth_sha1_v4\<close> what is written arrives. The bytes that any number of writes after the first one send,
  with any padding, cut into pieces by the transport in any way, are handed out in order by reads of any sizes; a
  read fails only with \<open>EOF\<close> and only after everything was handed out.\<close>

theorem sha1_delivery:
  assumes "s1_hasSentHeader a" "\<not> s1_rawTrans st"
    "concat net = concat (map (\<lambda>(rs, b). fst (sha1_Encode hmac now rs a b)) ws)"
    "cn_reads sha1_Decode ms (\<lparr>cn_proto = st, cn_decoded = [], cn_under = []\<rparr>, net) = (rs, w')"
  shows "\<exists>rest. concat (map snd ws) = oks rs @ rest \<and> (\<forall>e. Err e \<in> set rs \<longrightarrow> e = EOF \<and> rest = [])"
proof -
  let ?ds = "concat (map (\<lambda>((r0, rs), b). sha1_frames rs b) ws)"
  have data: "concat (map snd ?ds) = concat (map snd ws)"
    by (induction ws) (auto simp: sha1_frames_data)
  have "sha1_peer.pack_all a ?ds = (concat net, concat (map snd ws), a)"
    using sha1_writes [OF assms(1), of hmac now ws a] assms(3) by (simp add: sha1_pack_all data)
  moreover have "sha1_peer.all_fit a ?ds" by (rule sha1_peer.all_fitI) (auto dest: sha1_frames_fit)
  ultimately show ?thesis
    using sha1_peer.delivery [OF assms(2) _ _ assms(4) [unfolded sha1_Decode_def]] by blast
qed

definition sample_draw :: draw where
  "sample_draw = \<lparr>dw_int = 3, dw_pos = 1, dw_bytes = word_of_nat\<rparr>"

definition sample_sha1 :: sha1_proto where
  "sample_sha1 = \<lparr>s1_key = [1, 2], s1_iv = [3], s1_auth = \<lparr>ad_clientID = [1, 2, 3, 4], ad_connectionID = 5\<rparr>,
     s1_hasSentHeader = True, s1_rawTrans = False\<rparr>"

definition sample_sha1_wire :: bytes where
  "sample_sha1_wire = fst (sha1_Encode (\<lambda>_ _. []) 0 (sample_draw, \<lambda>_. sample_draw) sample_sha1 [7, 8, 9])"

theorem sha1_delivery_witness:
  "\<exists>rest. [7, 8, 9] = oks (fst (cn_reads sha1_Decode [2, 2, 2, 2]
      (\<lparr>cn_proto = sample_sha1, cn_decoded = [], cn_under = []\<rparr>, [take 6 sample_sha1_wire, drop 6 sample_sha1_wire]))) @ rest"
proof -
  let ?w = "(\<lparr>cn_proto = sample_sha1, cn_decoded = [], cn_under = []\<rparr>, [take 6 sample_sha1_wire, drop 6 sample_sha1_wire])"
  obtain rs w' where r: "cn_reads sha1_Decode [2, 2, 2, 2] ?w = (rs, w')" by (cases "cn_reads sha1_Decode [2, 2, 2, 2] ?w")
  show ?thesis
    using sha1_delivery [of sample_sha1 sample_sha1 "[take 6 sample_sha1_wire, drop 6 sample_sha1_wire]" "\<lambda>_ _. []" 0
        "[((sample_draw, \<lambda>_. sample_draw), [7, 8, 9])]", OF _ _ _ r] r
    by (auto simp: sample_sha1_wire_def) (auto simp: sample_sha1_def)
qed

section \<open>The first packet\<close>

text \<open>The first packet of a connection has its own length in front, ends with the data, at most 290 bytes, and ten
  bytes of the MAC of everything before them, and the rest of the write follows in packets.\<close>

theorem sha1_first_packet:
  assumes "\<not> s1_hasSentHeader a" "\<And>k x. 10 \<le> length (hmac k x)" "length (ad_clientID (s1_auth a)) = 4"
  shows "\<exists>head. fst (sha1_Encode hmac now (r0, rs) a b)
        = head @ fst (sha1_Encode hmac now (r0, rs) (a\<lparr>s1_hasSentHeader := True\<rparr>) (drop (getDataLength r0 b) b))
    \<and> unat (get_be16 head) = length head \<and> length head < 1024
    \<and> drop (length head - 10) head = take 10 (hmac (s1_iv a @ s1_key a) (take (length head - 10) head))
    \<and> drop (length head - 10 - getDataLength r0 b) (take (length head - 10) head) = take (getDataLength r0 b) b"
proof -
  define n where "n = getDataLength r0 b"
  define m where "m = sha1_getRandDataLength r0 (12 + n)"
  define plen where "plen = (if m < 128 then 2 + 4 + 3 + m + 12 + n + 10 - 2 else 2 + 4 + 3 + m + 12 + n + 10)"
  define crc where "crc = put_le32 (crc32 (put_be16 (word_of_nat plen) @ s2b ''auth_sha1_v4'' @ s1_key a))"
  define pre where "pre = put_be16 (word_of_nat plen) @ crc @ packRandData put_be16 r0 m @ putAuthData now (s1_auth a)"
  define head where "head = sha1_packAuthData hmac now r0 a (take n b)"
  have n: "n \<le> length b" "n \<le> 290" "min (length b) n = n" using getDataLength_le by (auto simp: n_def)
  have m: "m < 512" using sha1_rand_bound by (simp add: m_def)
  have h: "head = (pre @ take n b) @ take 10 (hmac (s1_iv a @ s1_key a) (pre @ take n b))"
  proof -
    have l: "length (take n b) = n" using n by simp
    have "take 2 (put_be16 (word_of_nat plen) @ x) = put_be16 (word_of_nat plen)" for x by simp
    then show ?thesis
      unfolding head_def sha1_packAuthData_def Let_def l m_def [symmetric] plen_def [symmetric] crc_def [symmetric]
      by (simp only: pre_def append_assoc)
  qed
  have lp: "length pre + n + 10 = plen"
    using assms(3) by (auto simp: pre_def crc_def length_packRandData plen_def putAuthData_def)
  have lh: "length head = plen" using n assms(2) [of "s1_iv a @ s1_key a" "pre @ take n b"] lp by (simp add: h min_def)
  have pl: "plen < 1024" using m n by (simp add: plen_def)
  have "get_be16 head = word_of_nat plen" by (simp add: h pre_def)
  then have "unat (get_be16 head) = plen" using pl by (simp add: unat_of_nat)
  moreover have "plen - 10 = length (pre @ take n b)" using lp n by simp
  moreover have "take (length (pre @ take n b)) head = pre @ take n b"
    "drop (length (pre @ take n b)) head = take 10 (hmac (s1_iv a @ s1_key a) (pre @ take n b))"
    using n by (simp_all add: h min_def)
  ultimately show ?thesis
    using pl lh lp n assms(1)
    by (intro exI [of _ head]) (simp add: sha1_Encode_def Let_def n_def [symmetric] head_def [symmetric])
qed

theorem sha1_first_packet_witness:
  "\<exists>head. fst (sha1_Encode (\<lambda>_ _. replicate 20 0) 0 (sample_draw, \<lambda>_. sample_draw) (sample_sha1\<lparr>s1_hasSentHeader := False\<rparr>) [1, 2, 3])
        = head @ fst (sha1_Encode (\<lambda>_ _. replicate 20 0) 0 (sample_draw, \<lambda>_. sample_draw) (sample_sha1\<lparr>s1_hasSentHeader := True\<rparr>)
            (drop (getDataLength sample_draw [1, 2, 3]) [1, 2, 3])) \<and> unat (get_be16 head) = length head"
  using sha1_first_packet [of "sample_sha1\<lparr>s1_hasSentHeader := False\<rparr>" "\<lambda>_ _. replicate 20 0" 0 sample_draw "\<lambda>_. sample_draw" "[1, 2, 3]"]
  by (auto simp: sample_sha1_def)

section \<open>Unkeyed checksums\<close>

definition forged_packet :: bytes where
  "forged_packet = (let size = put_be16 9; body = size @ put_le16 (ucast (crc32 size)) @ [254] in body @ put_le32 (adler32 body))"

text \<open>The checks of \<open>auth_sha1_v4\<close> need no key, so anybody on the path can make the client panic: a packet of nine
  bytes whose padding length points past its end passes both checksums.\<close>

theorem sha1_forged_packet_panics:
  "sha1_Decode (sha1_streamConn key auth iv) (forged_packet @ tail) dst = (Some out_of_range, sha1_streamConn key auth iv, [], dst)"
proof -
  let ?h = "put_be16 9 @ put_le16 (ucast (crc32 (put_be16 9))) @ [254]"
  have f: "forged_packet = ?h @ put_le32 (adler32 ?h)" by (simp add: forged_packet_def Let_def)
  have t: "take 2 forged_packet = put_be16 9" "take 5 forged_packet = ?h" "drop 5 forged_packet = put_le32 (adler32 ?h)"
    "forged_packet ! 4 = 254" "drop 2 forged_packet = put_le16 (ucast (crc32 (put_be16 9))) @ [254] @ put_le32 (adler32 ?h)"
    "get_be16 forged_packet = 9" "length forged_packet = 9"
    by (simp_all add: f nth_append)
  have "data_pos get_be16 forged_packet = 258" by (simp add: data_pos_def t)
  then have "sha1_step a forged_packet = Fails out_of_range a" for a
    using t get_put_le(2) [of "adler32 ?h" "[]"] by (simp add: sha1_step_def Let_def)
  then have "sha1_step a (forged_packet @ tail) = Fails out_of_range a" for a by (rule sha1.fails_more)
  then show ?thesis by (simp add: sha1_Decode_def sha1.decode_round sha1_streamConn_def)
qed

end
