(* ===== verification/SsrAes.thy ===== *)
theory SsrAes
  imports SsrSha1
begin

text \<open>
  \<open>transport/ssr/protocol/auth_aes128_sha1.go\<close> and \<open>auth_aes128_md5.go\<close>: one protocol with two hash functions. The
  MAC (HMAC-SHA1 or HMAC-MD5), the digest and AES-CBC are parameters; the clock and the random choices are arguments.
\<close>

section \<open>State\<close>

record aes_proto =
  a8_key :: bytes
  a8_overhead :: nat
  a8_salt :: string
  a8_auth :: auth_data
  a8_userKey :: bytes
  a8_userID :: bytes
  a8_iv :: bytes
  a8_hasSentHeader :: bool
  a8_rawTrans :: bool
  a8_packID :: "32 word"
  a8_recvID :: "32 word"

text \<open>\<open>initUserData\<close>: the key and the identifier of the user from the parameter \<open>id:key\<close>, or else the shared key and
  a random identifier \<open>rid\<close>.\<close>

definition aes_initUserData :: "(bytes \<Rightarrow> bytes) \<Rightarrow> bytes \<Rightarrow> ssr_base \<Rightarrow> bytes \<times> bytes" where
  "aes_initUserData digest rid b =
     (let params = split_on (CHR '':'') (sb_param b);
          (key, uid) = (if 1 < length params then
              (case parse_uint 32 (params ! 0) of
                 (n, None) \<Rightarrow> (digest (s2b (params ! 1)), put_le32 (word_of_nat n))
               | (_, Some _) \<Rightarrow> ([], [0, 0, 0, 0]))
            else ([], [0, 0, 0, 0]))
      in if key = [] then (sb_key b, rid) else (key, uid))"

definition aes_streamConn :: "ssr_base \<Rightarrow> string \<Rightarrow> bytes \<times> bytes \<Rightarrow> auth_data \<Rightarrow> bytes \<Rightarrow> aes_proto" where
  "aes_streamConn b salt user auth iv =
     \<lparr>a8_key = sb_key b, a8_overhead = sb_overhead b, a8_salt = salt, a8_auth = auth, a8_userKey = fst user, a8_userID = snd user,
      a8_iv = iv, a8_hasSentHeader = False, a8_rawTrans = False, a8_packID = 1, a8_recvID = 1\<rparr>"

section \<open>Decoding\<close>

definition aes_step :: "(bytes \<Rightarrow> bytes \<Rightarrow> bytes) \<Rightarrow> aes_proto \<Rightarrow> bytes \<Rightarrow> aes_proto frame_step" where
  "aes_step hmac a src =
     (let macKey = a8_userKey a @ put_le32 (a8_recvID a) in
      if length src \<le> 4 then NeedMore a
      else if take 2 (hmac macKey (take 2 src)) \<noteq> take 2 (drop 2 src)
      then Fails (Msg ''auth_aes128 decode data wrong mac'') a
      else let len = unat (get_le16 src) in
        if 8192 \<le> len \<or> len < 7
        then Fails (Msg ''auth_aes128 decode data wrong length'') (a\<lparr>a8_rawTrans := True\<rparr>)
        else if length src < len then NeedMore a
        else if take 4 (hmac macKey (take (len - 4) src)) \<noteq> drop (len - 4) (take len src)
        then Fails (Msg ''auth_aes128 decode data wrong checksum'') (a\<lparr>a8_rawTrans := True\<rparr>)
        else let pos = data_pos get_le16 src; a' = a\<lparr>a8_recvID := a8_recvID a + 1\<rparr> in
          if len - 4 < pos then Fails out_of_range a'
          else Took len (drop pos (take (len - 4) src)) a')"

definition aes_Decode ::
  "(bytes \<Rightarrow> bytes \<Rightarrow> bytes) \<Rightarrow> aes_proto \<Rightarrow> bytes \<Rightarrow> bytes \<Rightarrow> gerr option \<times> aes_proto \<times> bytes \<times> bytes" where
  "aes_Decode hmac = frames_decode a8_rawTrans (aes_step hmac)"

section \<open>Encoding\<close>

text \<open>\<open>trapezoidRandom(max, -0.3)\<close>: its test of the second argument fails for a negative one, so it is a number below
  \<open>max\<close>.\<close>

definition trapezoidRandom :: "draw \<Rightarrow> nat \<Rightarrow> nat" where
  "trapezoidRandom r mx = (if mx = 0 then 0 else dw_int r mod mx)"

definition aes_randForPackData :: "aes_proto \<Rightarrow> draw \<Rightarrow> nat \<Rightarrow> nat \<Rightarrow> nat" where
  "aes_randForPackData a r dataLength fullDataLength =
     (if 32 * 1024 - int (a8_overhead a) \<le> int fullDataLength then 0
      else let revLength = 1460 - int dataLength - 9 in
        if revLength = 0 then 0
        else if revLength < 0 then
          (if -1460 < revLength then trapezoidRandom r (nat (revLength + 1460)) else dw_int r mod 32)
        else if 900 < dataLength then dw_int r mod nat revLength
        else trapezoidRandom r (nat revLength))"

definition aes_packData :: "(bytes \<Rightarrow> bytes \<Rightarrow> bytes) \<Rightarrow> aes_proto \<Rightarrow> draw \<times> nat \<times> bytes \<Rightarrow> bytes \<times> aes_proto" where
  "aes_packData hmac a = (\<lambda>(r, fullDataLength, data).
     let rlen = aes_randForPackData a r (length data) fullDataLength;
         plen = (if rlen < 128 then 2 + 2 + 3 + rlen + length data + 4 - 2 else 2 + 2 + 3 + rlen + length data + 4);
         macKey = a8_userKey a @ put_le32 (a8_packID a);
         size = put_le16 (word_of_nat plen);
         body = size @ take 2 (hmac macKey size) @ packRandData put_le16 r rlen @ data
     in (body @ take 4 (hmac macKey body), a\<lparr>a8_packID := a8_packID a + 1\<rparr>))"

definition aes_packAuthData ::
  "(bytes \<Rightarrow> bytes \<Rightarrow> bytes) \<Rightarrow> (bytes \<Rightarrow> bytes) \<Rightarrow> (bytes \<Rightarrow> bytes \<Rightarrow> bytes) \<Rightarrow> int \<Rightarrow> draw \<Rightarrow> aes_proto \<Rightarrow> bytes \<Rightarrow> bytes" where
  "aes_packAuthData hmac md5 cbc now r a data =
     (if data = [] then []
      else let rlen = (if 400 < length data then dw_int r mod 512 else dw_int r mod 1024);
               plen = 7 + 4 + 16 + 4 + rlen + length data + 4;
               macKey = a8_iv a @ a8_key a;
               check = [word_of_nat (dw_pos r mod 256)];
               head = check @ take 6 (hmac macKey check);
               info = a8_userID a @ putEncryptedData md5 cbc now (a8_auth a) (a8_userKey a) plen rlen (a8_salt a);
               body = head @ info @ take 4 (hmac macKey info) @ randBytes r rlen @ data
           in body @ take 4 (hmac (a8_userKey a) body))"

fun aes_pack_loop :: "(bytes \<Rightarrow> bytes \<Rightarrow> bytes) \<Rightarrow> (nat \<Rightarrow> draw) \<Rightarrow> nat \<Rightarrow> aes_proto \<Rightarrow> bytes list \<Rightarrow> bytes \<times> aes_proto" where
  "aes_pack_loop hmac rs full a [] = ([], a)"
| "aes_pack_loop hmac rs full a (p # ps) =
     (case aes_packData hmac a (rs (length ps), full, p) of (x, a1) \<Rightarrow>
        case aes_pack_loop hmac rs full a1 ps of (y, a2) \<Rightarrow> (x @ y, a2))"

definition aes_Encode ::
  "(bytes \<Rightarrow> bytes \<Rightarrow> bytes) \<Rightarrow> (bytes \<Rightarrow> bytes) \<Rightarrow> (bytes \<Rightarrow> bytes \<Rightarrow> bytes) \<Rightarrow> int \<Rightarrow> aes_proto
     \<Rightarrow> (draw \<times> (nat \<Rightarrow> draw)) \<times> bytes \<Rightarrow> bytes \<times> aes_proto" where
  "aes_Encode hmac md5 cbc now a = (\<lambda>((r0, rs), b).
     let n = (if a8_hasSentHeader a then 0 else getDataLength r0 b);
         head = (if a8_hasSentHeader a then [] else aes_packAuthData hmac md5 cbc now r0 a (take n b))
     in case aes_pack_loop hmac rs (length b) (a\<lparr>a8_hasSentHeader := True\<rparr>) (split_packets 8100 (drop n b)) of
          (x, a1) \<Rightarrow> (head @ x, a1))"

definition aes_DecodePacket :: "(bytes \<Rightarrow> bytes \<Rightarrow> bytes) \<Rightarrow> aes_proto \<Rightarrow> bytes \<Rightarrow> bytes res" where
  "aes_DecodePacket hmac a b =
     (if length b < 4 then Err (Msg ''auth_aes128 decode data wrong length'')
      else let d = take (length b - 4) b in
        if take 4 (hmac (a8_key a) d) \<noteq> drop (length b - 4) b
        then Err (Msg ''auth_aes128 decode data wrong checksum'') else Ok d)"

definition aes_EncodePacket :: "(bytes \<Rightarrow> bytes \<Rightarrow> bytes) \<Rightarrow> aes_proto \<Rightarrow> bytes \<Rightarrow> bytes" where
  "aes_EncodePacket hmac a b = (b @ a8_userID a) @ take 4 (hmac (a8_userKey a) (b @ a8_userID a))"

section \<open>The decoder is one\<close>

lemma aes_step_append:
  assumes "aes_step hmac a src \<noteq> NeedMore a"
  shows "aes_step hmac a (src @ t) = aes_step hmac a src"
proof (cases "4 < length src")
  case l: True
  let ?len = "unat (get_le16 src)"
  have e: "take 2 (src @ t) = take 2 src" "take 2 (drop 2 (src @ t)) = take 2 (drop 2 src)"
    "get_le16 (src @ t) = get_le16 src" using l by (simp_all add: get_take_append)
  show ?thesis
  proof (cases "8192 \<le> ?len \<or> ?len < 7 \<or> ?len \<le> length src")
    case True
    have "\<not> (8192 \<le> ?len \<or> ?len < 7) \<Longrightarrow> take (?len - 4) (src @ t) = take (?len - 4) src
        \<and> take ?len (src @ t) = take ?len src \<and> data_pos get_le16 (src @ t) = data_pos get_le16 src"
      using True by (auto simp: data_pos_append get_take_append)
    then show ?thesis using l True by (simp only: aes_step_def e length_append Let_def) force
  next
    case False
    then have "aes_step hmac a src \<noteq> NeedMore a \<Longrightarrow> take 2 (hmac (a8_userKey a @ put_le32 (a8_recvID a)) (take 2 src)) \<noteq> take 2 (drop 2 src)"
      using l by (auto simp: aes_step_def Let_def split: if_splits)
    then show ?thesis using assms l by (simp add: aes_step_def e Let_def)
  qed
qed (use assms in \<open>simp add: aes_step_def\<close>)

lemma aes_step_wait: "aes_step hmac st src = NeedMore st' \<Longrightarrow> st' = st"
  by (auto simp: aes_step_def Let_def split: if_splits)

interpretation aes: frame_decoder a8_rawTrans "aes_step hmac" for hmac
proof
  fix st st' :: aes_proto and src out t n e
  show "0 < n \<and> n \<le> length src \<and> a8_rawTrans st' = a8_rawTrans st" if "aes_step hmac st src = Took n out st'"
    using that by (auto simp: aes_step_def Let_def split: if_splits)
  show "aes_step hmac st (src @ t) = Took n out st'" if "aes_step hmac st src = Took n out st'"
    using that aes_step_append [of hmac st src t] by simp
  show "aes_step hmac st (src @ t) = Fails e st'" if "aes_step hmac st src = Fails e st'"
    using that aes_step_append [of hmac st src t] by simp
  show "aes_step hmac st' (src @ t) = aes_step hmac st (src @ t) \<and> a8_rawTrans st' = a8_rawTrans st"
    if "aes_step hmac st src = NeedMore st'"
    using aes_step_wait [OF that] by simp
qed

section \<open>Packing\<close>

lemma aes_rand_bound:
  assumes "length d \<le> 8100"
  shows "length d + aes_randForPackData a r (length d) full \<le> 8131"
proof -
  have m: "length d + dw_int r mod nat (k - int (length d)) \<le> 8131" if "int (length d) < k" "k \<le> 2911" for k
    using that mod_less_divisor [of "nat (k - int (length d))" "dw_int r"] by linarith
  show ?thesis
    using assms m [of 1451] m [of 2911] mod_less_divisor [of 32 "dw_int r"]
    by (auto simp: aes_randForPackData_def trapezoidRandom_def Let_def simp del: mod_less_divisor)
qed

text \<open>A MAC of at least four bytes, as HMAC-SHA1 (20) and HMAC-MD5 (16) give.\<close>

definition mac_ok :: "(bytes \<Rightarrow> bytes \<Rightarrow> bytes) \<Rightarrow> bool" where
  "mac_ok hmac \<longleftrightarrow> (\<forall>k x. 4 \<le> length (hmac k x))"

definition aes_linked :: "aes_proto \<Rightarrow> aes_proto \<Rightarrow> bool" where
  "aes_linked tx st \<longleftrightarrow> a8_userKey tx = a8_userKey st \<and> a8_packID tx = a8_recvID st \<and> \<not> a8_rawTrans st"

lemma aes_step_packData:
  assumes "mac_ok hmac" "aes_linked tx st" "length d \<le> 8100" "aes_packData hmac tx (r, full, d) = (p, tx')"
  shows "aes_step hmac st (p @ t) = Took (length p) d (st\<lparr>a8_recvID := a8_recvID st + 1\<rparr>)
    \<and> aes_linked tx' (st\<lparr>a8_recvID := a8_recvID st + 1\<rparr>)"
proof -
  define n where "n = aes_randForPackData tx r (length d) full"
  define pad where "pad = packRandData put_le16 r n"
  define plen where "plen = (if n < 128 then 2 + 2 + 3 + n + length d + 4 - 2 else 2 + 2 + 3 + n + length d + 4)"
  define k where "k = a8_userKey st @ put_le32 (a8_recvID st)"
  define h where "h = put_le16 (word_of_nat plen) @ take 2 (hmac k (put_le16 (word_of_nat plen)))"
  have m: "2 \<le> length (hmac k x)" "4 \<le> length (hmac k x)" for x
    using assms(1) by (auto simp: mac_ok_def intro: le_trans [of 2 4])
  have n: "length d + n \<le> 8131" using aes_rand_bound [OF assms(3)] by (simp add: n_def)
  have lp: "length pad = (if n < 128 then n + 1 else n + 3)" by (simp add: pad_def length_packRandData)
  have m2: "min (length (hmac k x)) 2 = 2" "min (length (hmac k x)) 4 = 4" for x using m by (simp_all add: min_absorb2)
  have lh: "length h = 4" using m2 by (simp add: h_def)
  have p: "p = (h @ pad @ d) @ take 4 (hmac k (h @ pad @ d))"
    using assms(2,4) by (auto simp: aes_packData_def aes_linked_def Let_def n_def [symmetric] plen_def pad_def h_def k_def)
  have tx': "tx' = tx\<lparr>a8_packID := a8_packID tx + 1\<rparr>" using assms(4) by (simp add: aes_packData_def Let_def)
  have pl: "length p = plen" "plen < 8192" "9 \<le> plen" "plen - 4 = length (h @ pad @ d)"
    using n m2 by (auto simp: p lp lh plen_def)
  have le: "get_le16 (p @ t) = word_of_nat plen" by (simp add: p h_def)
  have u: "unat (get_le16 (p @ t)) = plen" using pl(2) by (simp add: le unat_of_nat)
  have mac: "take 2 (hmac k (take 2 (p @ t))) = take 2 (drop 2 (p @ t))"
    using m(1) by (simp add: p h_def)
  have body: "take (plen - 4) (p @ t) = h @ pad @ d" "drop (plen - 4) (take plen (p @ t)) = take 4 (hmac k (h @ pad @ d))"
    using pl(1,4) m2(2) by (simp_all add: p) (simp add: pl(1) [symmetric] p)
  have pos: "data_pos get_le16 (p @ t) = 4 + length pad"
    unfolding p append_assoc pad_def by (rule data_pos_packed) (use n lh in auto)
  show ?thesis
    unfolding aes_step_def Let_def k_def [symmetric] mac u body pos
    using assms(2) pl lh by (simp add: tx' aes_linked_def)
qed

lemma aes_codec:
  "mac_ok hmac \<Longrightarrow> frame_codec a8_rawTrans (aes_step hmac) (aes_packData hmac) (\<lambda>tx (r, full, d). d)
     (\<lambda>tx (r, full, d). length d \<le> 8100) aes_linked"
proof
  show "\<exists>st'. aes_step hmac st (p @ t) = Took (length p) (case d of (r, full, d) \<Rightarrow> d) st' \<and> aes_linked tx' st'"
    if "mac_ok hmac" "aes_linked tx st" "case d of (r, full, d) \<Rightarrow> length d \<le> 8100" "aes_packData hmac tx d = (p, tx')"
    for tx tx' st d p t
    using aes_step_packData [OF that(1,2)] that(3,4) by (cases d) auto
qed (auto simp: aes_step_def aes_linked_def)

section \<open>Delivery\<close>

fun aes_frames :: "(nat \<Rightarrow> draw) \<Rightarrow> nat \<Rightarrow> bytes list \<Rightarrow> (draw \<times> nat \<times> bytes) list" where
  "aes_frames rs full [] = []"
| "aes_frames rs full (p # ps) = (rs (length ps), full, p) # aes_frames rs full ps"

definition aes_write_frames :: "(draw \<times> (nat \<Rightarrow> draw)) \<times> bytes \<Rightarrow> (draw \<times> nat \<times> bytes) list" where
  "aes_write_frames = (\<lambda>((r0, rs), b). aes_frames rs (length b) (split_packets 8100 b))"

lemma aes_frames_data: "concat (map (\<lambda>(r, full, d). d) (aes_frames rs full ps)) = concat ps"
  by (induction ps) auto

lemma aes_frames_fit: "\<forall>p \<in> set ps. length p \<le> 8100 \<Longrightarrow> (r, f, d) \<in> set (aes_frames rs full ps) \<Longrightarrow> length d \<le> 8100"
  by (induction ps) auto

lemma aes_write_frames_fit: "(r, f, d) \<in> set (aes_write_frames w) \<Longrightarrow> length d \<le> 8100"
  using split_packets_bound [of 8100] by (cases w) (auto simp: aes_write_frames_def dest: aes_frames_fit [rotated])

lemma aes_writes_data: "concat (map (\<lambda>(r, full, d). d) (concat (map aes_write_frames ws))) = concat (map snd ws)"
  by (induction ws) (auto simp: aes_write_frames_def aes_frames_data)

lemma aes_sent: "aes_packData hmac a x = (p, a') \<Longrightarrow> a8_hasSentHeader a' = a8_hasSentHeader a"
  by (auto simp: aes_packData_def Let_def split: prod.splits)

lemma aes_pack_loop_all:
  assumes "mac_ok hmac"
  shows "frame_codec.pack_all (aes_packData hmac) (\<lambda>tx (r, full, d). d) a (aes_frames rs full ps)
    = (fst (aes_pack_loop hmac rs full a ps), concat ps, snd (aes_pack_loop hmac rs full a ps))"
proof (induction ps arbitrary: a)
  case (Cons p ps)
  then show ?case
    by (simp add: frame_codec.pack_all.simps [OF aes_codec [OF assms]] split: prod.splits)
qed (simp add: frame_codec.pack_all.simps [OF aes_codec [OF assms]])

lemma aes_pack_loop_sent:
  "aes_pack_loop hmac rs full a ps = (p, a') \<Longrightarrow> a8_hasSentHeader a' = a8_hasSentHeader a"
  by (induction ps arbitrary: a p) (auto split: prod.splits dest: aes_sent)

lemma aes_writes_all:
  assumes "mac_ok hmac" "a8_hasSentHeader a" "cn_writes (aes_Encode hmac md5 cbc now) a ws = (p, a')"
  shows "frame_codec.pack_all (aes_packData hmac) (\<lambda>tx (r, full, d). d) a (concat (map aes_write_frames ws))
    = (p, concat (map snd ws), a')"
  using assms(2,3)
proof (induction ws arbitrary: a p)
  case Nil
  then show ?case by (simp add: frame_codec.pack_all.simps [OF aes_codec [OF assms(1)]])
next
  case (Cons w ws)
  obtain r0 rs b where w: "w = ((r0, rs), b)" by (metis surj_pair)
  obtain x a1 where l: "aes_pack_loop hmac rs (length b) a (split_packets 8100 b) = (x, a1)"
    by (cases "aes_pack_loop hmac rs (length b) a (split_packets 8100 b)")
  have u: "a\<lparr>a8_hasSentHeader := True\<rparr> = a" using Cons.prems(1) by simp
  have "aes_pack_loop hmac rs (length b) (a\<lparr>a8_hasSentHeader := True\<rparr>) (split_packets 8100 b) = (x, a1)"
    unfolding u by (rule l)
  then have e: "aes_Encode hmac md5 cbc now a w = (x, a1)"
    using Cons.prems(1) by (simp add: w aes_Encode_def)
  obtain y where y: "cn_writes (aes_Encode hmac md5 cbc now) a1 ws = (y, a')" "p = x @ y"
    using Cons.prems(2) e by (auto split: prod.splits)
  have s: "a8_hasSentHeader a1" using aes_pack_loop_sent [OF l] Cons.prems(1) by simp
  show ?case
    using Cons.IH [OF s y(1)] aes_pack_loop_all [OF assms(1), of a rs "length b" "split_packets 8100 b"] y(2) l
    by (simp add: w frame_codec.pack_all_append [OF aes_codec [OF assms(1)]] aes_write_frames_def)
qed

text \<open>C15: Over \<open>auth_aes128\<close> what is written arrives, for any MAC, padding, cuts of the transport and sizes of writes and
  reads: the reads hand out in order what was written after the first packet, and fail only with \<open>EOF\<close> and after all
  of it, as long as the peers agree on the user's key and the number of the next packet.\<close>

theorem aes_delivery:
  assumes "mac_ok hmac" "a8_hasSentHeader a" "aes_linked a st"
    "cn_writes (aes_Encode hmac md5 cbc now) a ws = (concat net, a')"
    "cn_reads (aes_Decode hmac) ms (\<lparr>cn_proto = st, cn_decoded = [], cn_under = []\<rparr>, net) = (rs, w')"
  shows "\<exists>rest. concat (map snd ws) = oks rs @ rest \<and> (\<forall>e. Err e \<in> set rs \<longrightarrow> e = EOF \<and> rest = [])"
proof -
  have "frame_codec.all_fit (aes_packData hmac) (\<lambda>tx (r, full, d). length d \<le> 8100) a (concat (map aes_write_frames ws))"
    by (rule frame_codec.all_fitI [OF aes_codec [OF assms(1)]]) (auto dest: aes_write_frames_fit)
  then show ?thesis
    using frame_codec.delivery [OF aes_codec [OF assms(1)] assms(3) _ aes_writes_all [OF assms(1,2,4)] assms(5) [unfolded aes_Decode_def]]
    by blast
qed

definition sample_aes :: aes_proto where
  "sample_aes = \<lparr>a8_key = [1, 2], a8_overhead = 9, a8_salt = ''auth_aes128_md5'', a8_auth = s1_auth sample_sha1, a8_userKey = [5, 6],
     a8_userID = [0, 0, 0, 1], a8_iv = [3], a8_hasSentHeader = True, a8_rawTrans = False, a8_packID = 4, a8_recvID = 4\<rparr>"

definition sample_mac :: "bytes \<Rightarrow> bytes \<Rightarrow> bytes" where
  "sample_mac k x = put_le64 (word_of_nat (sum_list (map unat (k @ x))))"

definition sample_aes_wire :: bytes where
  "sample_aes_wire = fst (cn_writes (aes_Encode sample_mac id (\<lambda>_ x. x) 0) sample_aes [((sample_draw, \<lambda>_. sample_draw), [7, 8, 9])])"

theorem aes_delivery_witness:
  "\<exists>rest. [7, 8, 9] = oks (fst (cn_reads (aes_Decode sample_mac) [2, 2, 2, 2]
      (\<lparr>cn_proto = sample_aes, cn_decoded = [], cn_under = []\<rparr>, [take 6 sample_aes_wire, drop 6 sample_aes_wire]))) @ rest"
proof -
  let ?w = "(\<lparr>cn_proto = sample_aes, cn_decoded = [], cn_under = []\<rparr>, [take 6 sample_aes_wire, drop 6 sample_aes_wire])"
  let ?ws = "[((sample_draw, \<lambda>_. sample_draw), [7, 8, 9])]"
  obtain rs w' where r: "cn_reads (aes_Decode sample_mac) [2, 2, 2, 2] ?w = (rs, w')"
    by (cases "cn_reads (aes_Decode sample_mac) [2, 2, 2, 2] ?w")
  obtain a' where e: "cn_writes (aes_Encode sample_mac id (\<lambda>_ x. x) 0) sample_aes ?ws = (sample_aes_wire, a')"
    unfolding sample_aes_wire_def by (metis prod.collapse)
  have "mac_ok sample_mac" "aes_linked sample_aes sample_aes" "a8_hasSentHeader sample_aes"
    by (simp_all add: mac_ok_def sample_mac_def aes_linked_def sample_aes_def)
  then show ?thesis
    using aes_delivery [of sample_mac sample_aes sample_aes id "\<lambda>_ x. x" 0 ?ws "[take 6 sample_aes_wire, drop 6 sample_aes_wire]" a', OF _ _ _ _ r]
      r e by auto
qed

section \<open>Datagrams\<close>

text \<open>A datagram is accepted iff it ends with the four bytes of the MAC, under the shared key, of what comes before,
  which is what is handed out; \<open>EncodePacket\<close> appends the identifier of the user and a MAC under the user's key.\<close>

theorem aes_datagrams:
  assumes "mac_ok hmac"
  shows "aes_DecodePacket hmac a b = Ok d \<longleftrightarrow> b = d @ take 4 (hmac (a8_key a) d)"
    (is "?l \<longleftrightarrow> ?r")
proof -
  have m: "length (take 4 (hmac k x)) = 4" for k x using assms by (simp add: mac_ok_def min_absorb2)
  show ?thesis
  proof
    assume ?l
    then have "length b \<ge> 4" "d = take (length b - 4) b" "take 4 (hmac (a8_key a) d) = drop (length b - 4) b"
      by (auto simp: aes_DecodePacket_def Let_def split: if_splits)
    then show ?r by simp
  next
    assume b: ?r
    then have "length b = length d + 4" using m by simp
    then show ?l using b by (simp add: aes_DecodePacket_def Let_def)
  qed
qed

theorem aes_datagrams_witness:
  "aes_DecodePacket sample_mac sample_aes ([1, 2, 3] @ take 4 (sample_mac [1, 2] [1, 2, 3])) = Ok [1, 2, 3]"
  using aes_datagrams [of sample_mac sample_aes "[1, 2, 3] @ take 4 (sample_mac [1, 2] [1, 2, 3])" "[1, 2, 3]"]
  by (simp add: mac_ok_def sample_mac_def sample_aes_def)

text \<open>The user of the parameter \<open>id:key\<close>, with a digest that is not empty.\<close>

lemma aes_user_of_param:
  assumes "n < 2 ^ 32" "CHR '':'' \<notin> set k" "digest (s2b k) \<noteq> []" "sb_param b = itoa n @ CHR '':'' # k"
  shows "aes_initUserData digest rid b = (digest (s2b k), put_le32 (word_of_nat n))"
proof -
  have "CHR '':'' \<notin> set (itoa n)" using itoa_no_special by blast
  then show ?thesis
    using assms by (simp add: aes_initUserData_def split_on_append split_on_no_sep)
qed

end
