(* ===== verification/SsrChain.thy ===== *)
theory SsrChain
  imports SsrAes
begin

text \<open>
  \<open>transport/ssr/protocol/auth_chain_a.go\<close> and \<open>auth_chain_b.go\<close>. Every packet is encrypted with RC4, carries padding of a
  length that both sides compute from the MAC of the packet before it, and ends with two bytes of its own MAC. RC4
  (\<open>crypto/rc4\<close>) is defined; MD5, HMAC-MD5 and AES-CBC are parameters; the clock and the random choices are arguments.
\<close>

section \<open>RC4\<close>

record rc4 =
  rc_s :: "byte list"
  rc_i :: byte
  rc_j :: byte

definition rc4_swap :: "byte list \<Rightarrow> byte \<Rightarrow> byte \<Rightarrow> byte list" where
  "rc4_swap s i j = s[unat i := s ! unat j, unat j := s ! unat i]"

definition rc4_new :: "bytes \<Rightarrow> rc4" where
  "rc4_new key =
     (let init = map word_of_nat [0..<256];
          mix = (\<lambda>(s, j) i. let j' = j + s ! i + key ! (i mod length key) in (rc4_swap s (word_of_nat i) j', j'))
      in \<lparr>rc_s = fst (foldl mix (init, 0) [0..<256]), rc_i = 0, rc_j = 0\<rparr>)"

text \<open>\<open>XORKeyStream\<close>, byte by byte.\<close>

definition rc4_step :: "rc4 \<Rightarrow> byte \<Rightarrow> byte \<times> rc4" where
  "rc4_step c b =
     (let i = rc_i c + 1; x = rc_s c ! unat i; j = rc_j c + x; y = rc_s c ! unat j; s = rc4_swap (rc_s c) i j
      in (b XOR s ! unat (x + y), \<lparr>rc_s = s, rc_i = i, rc_j = j\<rparr>))"

abbreviation rc4_xor :: "rc4 \<Rightarrow> bytes \<Rightarrow> bytes \<times> rc4" where
  "rc4_xor \<equiv> xor_stream rc4_step"

lemma rc4_twice: "rc4_xor c (fst (rc4_xor c p)) = (p, snd (rc4_xor c p))"
proof (induction p arbitrary: c)
  case (Cons b p)
  have "rc4_step c (fst (rc4_step c b)) = (b, snd (rc4_step c b))"
    by (simp add: rc4_step_def Let_def xor.assoc)
  then show ?case using Cons [of "snd (rc4_step c b)"] by (simp add: case_prod_beta)
qed simp

section \<open>Padding lengths\<close>

text \<open>\<open>sort.Search\<close>: the binary search.\<close>

function sort_search_loop :: "(nat \<Rightarrow> bool) \<Rightarrow> nat \<Rightarrow> nat \<Rightarrow> nat" where
  "sort_search_loop f i j =
     (if i < j then let h = (i + j) div 2 in if \<not> f h then sort_search_loop f (h + 1) j else sort_search_loop f i h
      else i)"
  by pat_completeness auto
termination by (relation "measure (\<lambda>(f, i, j). j - i)") auto

declare sort_search_loop.simps [simp del]

definition sort_search :: "nat \<Rightarrow> (nat \<Rightarrow> bool) \<Rightarrow> nat" where
  "sort_search n f = sort_search_loop f 0 n"

text \<open>The two protocols differ in the length of the padding; \<open>auth_chain_b\<close> has two lists of sizes.\<close>

datatype chain_kind = ChainA | ChainB "nat list" "nat list"

fun rng_sizes :: "nat \<Rightarrow> xorshift \<Rightarrow> nat list \<times> xorshift" where
  "rng_sizes 0 r = ([], r)"
| "rng_sizes (Suc n) r = (case rng_next r of (v, r1) \<Rightarrow> case rng_sizes n r1 of (vs, r2) \<Rightarrow>
     (unat v mod 2340 mod 2040 mod 1440 # vs, r2))"

definition initDataSize :: "bytes \<Rightarrow> (chain_kind \<times> xorshift) res" where
  "initDataSize key =
     (case initFromBin key of
        Inl e \<Rightarrow> Err e
      | Inr r0 \<Rightarrow>
          (case rng_next r0 of (v1, r1) \<Rightarrow>
           case rng_sizes (unat v1 mod 8 + 4) r1 of (l1, r2) \<Rightarrow>
           case rng_next r2 of (v2, r3) \<Rightarrow>
           case rng_sizes (unat v2 mod 16 + 8) r3 of (l2, r4) \<Rightarrow> Ok (ChainB (sort l1) (sort l2), r4)))"

definition getRandStartPos :: "nat \<Rightarrow> xorshift \<Rightarrow> nat \<times> xorshift" where
  "getRandStartPos len r =
     (if len = 0 then (0, r) else case rng_next r of (v, r') \<Rightarrow> (unat v mod 8589934609 mod len, r'))"

text \<open>What the generator holds after \<open>InitFromBinAndLength\<close> for a hash, which is 16 bytes long.\<close>

definition rng_seed :: "bytes \<Rightarrow> nat \<Rightarrow> xorshift \<times> bytes" where
  "rng_seed h n = (case initFromBinAndLength h n of Inr x \<Rightarrow> x | Inl _ \<Rightarrow> ((0, 0), h))"

definition rand_tail :: "nat \<Rightarrow> xorshift \<Rightarrow> nat \<times> xorshift" where
  "rand_tail len r = (case rng_next r of (v, r') \<Rightarrow>
     (if 1300 < len then unat v mod 31 else if 900 < len then unat v mod 127 else if 400 < len then unat v mod 521
      else unat v mod 1021, r'))"

text \<open>The padding for \<open>len\<close> bytes of data: its length, the hash (whose first two bytes are overwritten) and the
  generator. The subtractions of \<open>auth_chain_b\<close> do not go below zero, see \<open>chain_b_size\<close>.\<close>

definition chain_b_randLength :: "nat list \<Rightarrow> nat list \<Rightarrow> nat \<Rightarrow> nat \<Rightarrow> bytes \<Rightarrow> xorshift \<Rightarrow> nat \<times> bytes \<times> xorshift" where
  "chain_b_randLength l1 l2 overhead len h r =
     (if 1440 \<le> len then (0, h, r)
      else case rng_seed h len of (r1, h1) \<Rightarrow> case rng_next r1 of (v2, r2) \<Rightarrow>
        let pos = sort_search (length l1) (\<lambda>i. len + overhead \<le> l1 ! i);
            fin = pos + unat v2 mod length l1
        in if fin < length l1 then (l1 ! fin - len - overhead, h1, r2)
           else case rng_next r2 of (v3, r3) \<Rightarrow>
             let pos = sort_search (length l2) (\<lambda>i. len + overhead \<le> l2 ! i);
                 fin = pos + unat v3 mod length l2
             in if fin < length l2 then (l2 ! fin - len - overhead, h1, r3)
                else if fin < pos + length l2 - 1 then (0, h1, r3)
                else case rand_tail len r3 of (n, r4) \<Rightarrow> (n, h1, r4))"

declare chain_b_randLength_def [simp]

fun chain_randLength :: "chain_kind \<Rightarrow> nat \<Rightarrow> nat \<Rightarrow> bytes \<Rightarrow> xorshift \<Rightarrow> nat \<times> bytes \<times> xorshift" where
  "chain_randLength ChainA overhead len h r =
     (if 1440 < len then (0, h, r)
      else case rng_seed h len of (r1, h1) \<Rightarrow> case rand_tail len r1 of (n, r2) \<Rightarrow> (n, h1, r2))"
| "chain_randLength (ChainB l1 l2) overhead len h r = chain_b_randLength l1 l2 overhead len h r"

definition udpGetRandLength :: "bytes \<Rightarrow> nat \<times> xorshift" where
  "udpGetRandLength h = (let r = (get_le64 h, get_le64 (drop 8 h)) in case rng_next r of (v, r') \<Rightarrow> (unat v mod 127, r'))"

section \<open>State\<close>

record chain_proto =
  ca_key :: bytes
  ca_overhead :: nat
  ca_salt :: string
  ca_auth :: auth_data
  ca_userKey :: bytes
  ca_userID :: bytes
  ca_iv :: bytes
  ca_hasSentHeader :: bool
  ca_rawTrans :: bool
  ca_lastClientHash :: bytes
  ca_lastServerHash :: bytes
  ca_encrypter :: rc4
  ca_decrypter :: rc4
  ca_randomClient :: xorshift
  ca_randomServer :: xorshift
  ca_kind :: chain_kind
  ca_packID :: "32 word"
  ca_recvID :: "32 word"

definition chain_initUserData :: "bytes \<Rightarrow> ssr_base \<Rightarrow> bytes \<times> bytes" where
  "chain_initUserData rid b = aes_initUserData id rid b"

text \<open>\<open>StreamConn\<close>; before the first packet there are no hashes and no cipher.\<close>

definition no_rc4 :: rc4 where "no_rc4 = \<lparr>rc_s = [], rc_i = 0, rc_j = 0\<rparr>"

definition chain_a_streamConn :: "ssr_base \<Rightarrow> string \<Rightarrow> bytes \<times> bytes \<Rightarrow> auth_data \<Rightarrow> bytes \<Rightarrow> chain_proto" where
  "chain_a_streamConn b salt user auth iv =
     \<lparr>ca_key = sb_key b, ca_overhead = sb_overhead b, ca_salt = salt, ca_auth = auth, ca_userKey = fst user, ca_userID = snd user,
      ca_iv = iv, ca_hasSentHeader = False, ca_rawTrans = False, ca_lastClientHash = [], ca_lastServerHash = [],
      ca_encrypter = no_rc4, ca_decrypter = no_rc4, ca_randomClient = (0, 0), ca_randomServer = (0, 0), ca_kind = ChainA,
      ca_packID = 1, ca_recvID = 1\<rparr>"

definition chain_b_streamConn :: "ssr_base \<Rightarrow> string \<Rightarrow> bytes \<times> bytes \<Rightarrow> auth_data \<Rightarrow> bytes \<Rightarrow> chain_proto res" where
  "chain_b_streamConn b salt user auth iv =
     (case initDataSize (sb_key b) of
        Inl e \<Rightarrow> Err e
      | Inr (k, r) \<Rightarrow> Ok ((chain_a_streamConn b salt user auth iv)\<lparr>ca_kind := k, ca_randomServer := r\<rparr>))"

section \<open>Decoding\<close>

definition chain_step :: "(bytes \<Rightarrow> bytes \<Rightarrow> bytes) \<Rightarrow> chain_proto \<Rightarrow> bytes \<Rightarrow> chain_proto frame_step" where
  "chain_step hmac a src =
     (let macKey = ca_userKey a @ put_le32 (ca_recvID a) in
      if length src \<le> 4 then NeedMore a
      else if length (ca_lastServerHash a) < 16 then Fails out_of_range a
      else let dlen = unat (get_le16 src XOR get_le16 (drop 14 (ca_lastServerHash a))) in
        case chain_randLength (ca_kind a) (ca_overhead a) dlen (ca_lastServerHash a) (ca_randomServer a) of
          (rlen, h1, r1) \<Rightarrow>
            let len = dlen + rlen; a1 = a\<lparr>ca_lastServerHash := h1, ca_randomServer := r1\<rparr> in
            if 4096 \<le> len then Fails (Msg ''auth_chain decode data wrong length'') (a1\<lparr>ca_rawTrans := True\<rparr>)
            else if length src < 4 + len then NeedMore a1
            else let serverHash = hmac macKey (take (len + 2) src) in
              if take 2 serverHash \<noteq> take 2 (drop (len + 2) src)
              then Fails (Msg ''auth_chain decode data wrong checksum'') (a1\<lparr>ca_rawTrans := True\<rparr>)
              else case (if 0 < dlen \<and> 0 < rlen then getRandStartPos rlen r1 else (0, r1)) of
                (start, r2) \<Rightarrow>
                  (case rc4_xor (ca_decrypter a) (take dlen (drop (2 + start) src)) of
                     (data, d1) \<Rightarrow>
                       let a2 = a1\<lparr>ca_lastServerHash := serverHash, ca_randomServer := r2, ca_decrypter := d1,
                                   ca_recvID := ca_recvID a + 1\<rparr> in
                       if ca_recvID a = 1 \<and> dlen < 2 then Fails out_of_range a2
                       else Took (len + 4) (if ca_recvID a = 1 then drop 2 data else data) a2))"

definition chain_Decode ::
  "(bytes \<Rightarrow> bytes \<Rightarrow> bytes) \<Rightarrow> chain_proto \<Rightarrow> bytes \<Rightarrow> bytes \<Rightarrow> gerr option \<times> chain_proto \<times> bytes \<times> bytes" where
  "chain_Decode hmac = frames_decode ca_rawTrans (chain_step hmac)"

section \<open>Encoding\<close>

definition putMixed :: "chain_proto \<Rightarrow> draw \<Rightarrow> bytes \<Rightarrow> bytes \<times> chain_proto" where
  "putMixed a r data =
     (case chain_randLength (ca_kind a) (ca_overhead a) (length data) (ca_lastClientHash a) (ca_randomClient a) of
        (rlen, h1, r1) \<Rightarrow>
          let a1 = a\<lparr>ca_lastClientHash := h1, ca_randomClient := r1\<rparr>; pad = randBytes r rlen in
          if data = [] then (pad, a1)
          else if 0 < rlen then
            (case getRandStartPos rlen r1 of
               (start, r2) \<Rightarrow> (take start pad @ data @ drop start pad, a1\<lparr>ca_randomClient := r2\<rparr>))
          else (data, a1))"

definition chain_packData :: "(bytes \<Rightarrow> bytes \<Rightarrow> bytes) \<Rightarrow> chain_proto \<Rightarrow> draw \<times> bytes \<Rightarrow> bytes \<times> chain_proto" where
  "chain_packData hmac a = (\<lambda>(r, data).
     case rc4_xor (ca_encrypter a) data of
       (enc, e1) \<Rightarrow>
         let macKey = ca_userKey a @ put_le32 (ca_packID a);
             len = word_of_nat (length data) XOR get_le16 (drop 14 (ca_lastClientHash a)) in
         case putMixed (a\<lparr>ca_encrypter := e1, ca_packID := ca_packID a + 1\<rparr>) r enc of
           (mixed, a1) \<Rightarrow>
             let pkt = put_le16 len @ mixed; h = hmac macKey pkt
             in (pkt @ take 2 h, a1\<lparr>ca_lastClientHash := h\<rparr>))"

text \<open>\<open>packAuthData\<close>; \<open>rc\<close> gives the four random bytes of the check head.\<close>

definition chain_packAuthData ::
  "(bytes \<Rightarrow> bytes \<Rightarrow> bytes) \<Rightarrow> (bytes \<Rightarrow> bytes) \<Rightarrow> (bytes \<Rightarrow> bytes \<Rightarrow> bytes) \<Rightarrow> int \<Rightarrow> draw \<Rightarrow> draw \<Rightarrow> chain_proto \<Rightarrow> bytes
     \<Rightarrow> bytes \<times> chain_proto" where
  "chain_packAuthData hmac md5 cbc now rc r a data =
     (let macKey = ca_iv a @ ca_key a;
          check = randBytes rc 4;
          h = hmac macKey check;
          cipher = rc4_new (the (kdf_key md5 (b64_string (ca_userKey a) @ b64_string h) 16));
          body = put_le32 (get_le32 (ca_userID a) XOR get_le32 (drop 8 h))
            @ putEncryptedData md5 cbc now (ca_auth a) (ca_userKey a) (ca_overhead a) 0 (ca_salt a);
          sh = hmac (ca_userKey a) body;
          a1 = a\<lparr>ca_lastClientHash := h, ca_lastServerHash := sh, ca_encrypter := cipher, ca_decrypter := cipher\<rparr>
      in case chain_packData hmac a1 (r, data) of (p, a2) \<Rightarrow> (check @ take 8 h @ body @ take 4 sh @ p, a2))"

definition chain_Encode ::
  "(bytes \<Rightarrow> bytes \<Rightarrow> bytes) \<Rightarrow> (bytes \<Rightarrow> bytes) \<Rightarrow> (bytes \<Rightarrow> bytes \<Rightarrow> bytes) \<Rightarrow> int \<Rightarrow> chain_proto
     \<Rightarrow> (draw \<times> draw \<times> (nat \<Rightarrow> draw)) \<times> bytes \<Rightarrow> bytes \<times> chain_proto" where
  "chain_Encode hmac md5 cbc now a = (\<lambda>((rc, r0, rs), b).
     let n = (if ca_hasSentHeader a then 0 else getDataLength r0 b) in
     case (if ca_hasSentHeader a then ([], a) else chain_packAuthData hmac md5 cbc now rc r0 a (take n b)) of
       (head, a1) \<Rightarrow>
         (case cn_writes (chain_packData hmac) (a1\<lparr>ca_hasSentHeader := True\<rparr>) (numbered rs (split_packets 2800 (drop n b))) of
            (x, a2) \<Rightarrow> (head @ x, a2)))"

section \<open>Datagrams\<close>

definition chain_udp_key :: "(bytes \<Rightarrow> bytes) \<Rightarrow> chain_proto \<Rightarrow> bytes \<Rightarrow> rc4" where
  "chain_udp_key md5 a md5Data = rc4_new (the (kdf_key md5 (b64_string (ca_userKey a) @ b64_string md5Data) 16))"

definition chain_DecodePacket :: "(bytes \<Rightarrow> bytes \<Rightarrow> bytes) \<Rightarrow> (bytes \<Rightarrow> bytes) \<Rightarrow> chain_proto \<Rightarrow> bytes \<Rightarrow> bytes res" where
  "chain_DecodePacket hmac md5 a b =
     (if length b < 9 then Err (Msg ''auth_chain decode data wrong length'')
      else if take 1 (hmac (ca_userKey a) (take (length b - 1) b)) \<noteq> drop (length b - 1) b
      then Err (Msg ''auth_chain decode data wrong checksum'')
      else let md5Data = hmac (ca_key a) (drop (length b - 8) (take (length b - 1) b));
               rlen = fst (udpGetRandLength md5Data) in
        if length b < 8 + rlen then Err out_of_range
        else Ok (fst (rc4_xor (chain_udp_key md5 a md5Data) (take (length b - 8 - rlen) b))))"

definition chain_EncodePacket :: "(bytes \<Rightarrow> bytes \<Rightarrow> bytes) \<Rightarrow> (bytes \<Rightarrow> bytes) \<Rightarrow> bytes \<Rightarrow> draw \<Rightarrow> chain_proto \<Rightarrow> bytes \<Rightarrow> bytes" where
  "chain_EncodePacket hmac md5 authData r a b =
     (let md5Data = hmac (ca_key a) authData;
          rlen = fst (udpGetRandLength md5Data);
          body = fst (rc4_xor (chain_udp_key md5 a md5Data) b) @ randBytes r rlen @ authData
            @ put_le32 (get_le32 (ca_userID a) XOR get_le32 md5Data)
      in body @ take 1 (hmac (ca_userKey a) body))"

end
