(* ===== verification/ChainFacts.thy ===== *)
theory ChainFacts
  imports SsrChain StreamFacts
begin

text \<open>
  The chain protocols: both sides compute the same padding, the decoder is one, what is written arrives, and the
  panics of the client.
\<close>

section \<open>The generator\<close>

lemma rng_seed_hash:
  assumes "16 \<le> length h" "rng_seed h n = (r, h')"
  shows "length h' = length h" "drop 2 h' = drop 2 h"
  using assms by (auto simp: rng_seed_def initFromBinAndLength_def Let_def)

lemma rng_seed_cong: "16 \<le> length h \<Longrightarrow> length h = length g \<Longrightarrow> drop 2 h = drop 2 g \<Longrightarrow> rng_seed h n = rng_seed g n"
  by (auto simp: rng_seed_def initFromBinAndLength_def Let_def)

lemma tail16: "drop 2 h' = drop 2 h \<Longrightarrow> drop 14 h' = drop 14 h"
proof -
  assume "drop 2 h' = drop 2 h"
  then have "drop 12 (drop 2 h') = drop 12 (drop 2 h)" by simp
  then show "drop 14 h' = drop 14 h" by simp
qed

text \<open>The padding is a function of the last hash without its first two bytes: computing it again, or on the other side,
  gives the same.\<close>

lemma randLength_hash:
  assumes "16 \<le> length h" "chain_randLength k ov len h r = (n, h', r')"
  shows "length h' = length h" "drop 2 h' = drop 2 h"
proof -
  have "length h' = length h \<and> drop 2 h' = drop 2 h"
  proof (cases k)
    case ChainA
    then show ?thesis using assms rng_seed_hash [OF assms(1)]
      by (auto split: if_splits prod.splits)
  next
    case (ChainB l1 l2)
    then show ?thesis using assms rng_seed_hash [OF assms(1)]
      by (auto simp: Let_def split: if_splits prod.splits)
  qed
  then show "length h' = length h" "drop 2 h' = drop 2 h" by auto
qed

lemma randLength_cong:
  assumes "16 \<le> length h" "length h = length g" "drop 2 h = drop 2 g"
    "chain_randLength k ov len h r = (n, h', r')" "chain_randLength k ov len g q = (m, g', q')"
  shows "m = n \<and> (0 < n \<longrightarrow> q' = r')"
  using assms(4,5) rng_seed_cong [OF assms(1-3), of len] by (cases k) (auto split: if_splits)

lemma randLength_again:
  assumes "16 \<le> length h" "chain_randLength k ov len h r = (n, h', r')"
  shows "chain_randLength k ov len h' r' = (n, h', r')"
proof -
  have "rng_seed h' len = rng_seed h len"
    using rng_seed_cong [of h' h len] randLength_hash [OF assms] assms(1) by simp
  then show ?thesis using assms(2) by (cases k) (auto split: if_splits)
qed

section \<open>The sizes of the padding\<close>

lemma search_loop_bounds: "i \<le> j \<Longrightarrow> i \<le> sort_search_loop f i j \<and> sort_search_loop f i j \<le> j"
proof (induction f i j rule: sort_search_loop.induct)
  case (1 f i j)
  show ?case
  proof (cases "i < j")
    case True
    then have "i \<le> (i + j) div 2" "(i + j) div 2 < j" by auto
    then show ?thesis using 1 True by (subst (1 2) sort_search_loop.simps) (auto simp: Let_def)
  qed (use 1 in \<open>subst (1 2) sort_search_loop.simps, simp\<close>)
qed

lemma search_loop_found:
  assumes "i \<le> j" "\<And>x y. x \<le> y \<Longrightarrow> y < n \<Longrightarrow> f x \<Longrightarrow> f y" "j = n \<or> j < n \<and> f j"
  shows "sort_search_loop f i j = n \<or> sort_search_loop f i j < n \<and> f (sort_search_loop f i j)"
  using assms
proof (induction f i j rule: sort_search_loop.induct)
  case (1 f i j)
  define h where "h = (i + j) div 2"
  consider "\<not> i < j" | "i < j" "f h" | "i < j" "\<not> f h" by blast
  then show ?case
  proof cases
    case 1
    then show ?thesis using "1.prems" by (subst (1 2 3) sort_search_loop.simps) auto
  next
    case 2
    have h: "i \<le> h" "h < j" "h < n" using 2(1) "1.prems"(3) by (auto simp: h_def)
    have "sort_search_loop f i j = sort_search_loop f i h"
      using 2 by (subst sort_search_loop.simps) (simp add: h_def Let_def)
    then show ?thesis using "1.IH"(2) [OF 2(1) h_def] 2 h "1.prems"(2) by auto
  next
    case 3
    have h: "h < j" using 3(1) by (auto simp: h_def)
    have "sort_search_loop f i j = sort_search_loop f (h + 1) j"
      using 3 by (subst sort_search_loop.simps) (simp add: h_def Let_def)
    then show ?thesis using "1.IH"(1) [OF 3(1) h_def] 3 h "1.prems"(2,3) by auto
  qed
qed

text \<open>On a sorted list the binary search gives the first element that is large enough, so no size of the lists is taken
  that is too small for the data.\<close>

lemma sort_search_sorted:
  assumes "sorted l"
  shows "sort_search (length l) (\<lambda>i. x \<le> l ! i) \<le> length l"
    "sort_search (length l) (\<lambda>i. x \<le> l ! i) \<le> i \<Longrightarrow> i < length l \<Longrightarrow> x \<le> l ! i"
proof -
  let ?s = "sort_search (length l) (\<lambda>i. x \<le> l ! i)"
  show "?s \<le> length l" using search_loop_bounds [of 0 "length l"] by (simp add: sort_search_def)
  have m: "x \<le> l ! j" if "i \<le> j" "j < length l" "x \<le> l ! i" for i j
    using that assms sorted_nth_mono [of l i j] by simp
  have "?s = length l \<or> ?s < length l \<and> x \<le> l ! ?s"
    unfolding sort_search_def by (rule search_loop_found) (auto intro: m)
  then show "x \<le> l ! i" if "?s \<le> i" "i < length l"
    using that m by auto
qed

definition kind_ok :: "chain_kind \<Rightarrow> bool" where
  "kind_ok k = (case k of ChainA \<Rightarrow> True
     | ChainB l1 l2 \<Rightarrow> sorted l1 \<and> sorted l2 \<and> l1 \<noteq> [] \<and> l2 \<noteq> [] \<and> (\<forall>x \<in> set l1 \<union> set l2. x < 1440))"

lemma rng_sizes_ok: "length (fst (rng_sizes n r)) = n \<and> (\<forall>x \<in> set (fst (rng_sizes n r)). x < 1440)"
  by (induction n arbitrary: r) (auto simp: case_prod_beta)

lemma initDataSize_ok: "initDataSize key = Ok (k, r) \<Longrightarrow> kind_ok k"
proof -
  assume a: "initDataSize key = Ok (k, r)"
  obtain n1 n2 :: nat and r1 r3 where k: "k = ChainB (sort (fst (rng_sizes (n1 mod 8 + 4) r1))) (sort (fst (rng_sizes (n2 mod 16 + 8) r3)))"
    using a by (auto simp: initDataSize_def split: sum.splits prod.splits) (metis fst_conv)
  have "length (fst (rng_sizes (n1 mod 8 + 4) r1)) \<noteq> 0" "length (fst (rng_sizes (n2 mod 16 + 8) r3)) \<noteq> 0"
    using rng_sizes_ok by simp_all
  then show ?thesis
    using rng_sizes_ok [of "n1 mod 8 + 4" r1] rng_sizes_ok [of "n2 mod 16 + 8" r3]
    unfolding k kind_ok_def chain_kind.case by (auto simp flip: length_0_conv)
qed

text \<open>The subtractions of \<open>auth_chain_b\<close> never go below zero.\<close>

lemma chain_b_size:
  assumes "kind_ok (ChainB l1 l2)"
  shows "sort_search (length l1) (\<lambda>i. x \<le> l1 ! i) + d < length l1 \<Longrightarrow> x \<le> l1 ! (sort_search (length l1) (\<lambda>i. x \<le> l1 ! i) + d)"
    "sort_search (length l2) (\<lambda>i. x \<le> l2 ! i) + d < length l2 \<Longrightarrow> x \<le> l2 ! (sort_search (length l2) (\<lambda>i. x \<le> l2 ! i) + d)"
  using assms sort_search_sorted(2) [of l1] sort_search_sorted(2) [of l2] by (auto simp: kind_ok_def)

lemma rand_tail_bound: "rand_tail len r = (n, r') \<Longrightarrow> n < 1440"
  using mod_less_divisor [of 1021] mod_less_divisor [of 521] mod_less_divisor [of 127] mod_less_divisor [of 31]
  by (auto simp: rand_tail_def split: prod.splits intro: less_trans)

lemma randLength_bound:
  assumes "kind_ok k" "chain_randLength k ov len h r = (n, h', r')"
  shows "n < 1440" "1440 < len \<Longrightarrow> n = 0"
proof -
  have "n < 1440 \<and> (1440 < len \<longrightarrow> n = 0)"
  proof (cases k)
    case ChainA
    then show ?thesis using assms by (auto split: if_splits prod.splits dest: rand_tail_bound)
  next
    case (ChainB l1 l2)
    have l: "i < length l1 \<Longrightarrow> l1 ! i - a - b < 1440" "i < length l2 \<Longrightarrow> l2 ! i - a - b < 1440" for i a b
    proof -
      have m: "\<forall>x \<in> set l1 \<union> set l2. x < 1440" using assms(1) ChainB by (simp add: kind_ok_def)
      show "i < length l1 \<Longrightarrow> l1 ! i - a - b < 1440" using m nth_mem [of i l1] by (simp add: less_imp_diff_less)
      show "i < length l2 \<Longrightarrow> l2 ! i - a - b < 1440" using m nth_mem [of i l2] by (simp add: less_imp_diff_less)
    qed
    show ?thesis
      using assms(2) l unfolding ChainB
      by (auto simp: Let_def split: if_splits prod.splits dest: rand_tail_bound)
  qed
  then show "n < 1440" "1440 < len \<Longrightarrow> n = 0" by auto
qed

lemma getRandStartPos_less: "0 < n \<Longrightarrow> getRandStartPos n r = (p, r') \<Longrightarrow> p < n"
  by (auto simp: getRandStartPos_def split: prod.splits)

section \<open>The decoder is one\<close>

lemma chain_step_short: "length src \<le> 4 \<Longrightarrow> chain_step hmac a src = NeedMore a"
  by (simp add: chain_step_def Let_def)

lemma get_le16_append: "2 \<le> length s \<Longrightarrow> get_le16 (s @ t) = get_le16 s"
  by (rule get_take_append)

text \<open>A round on a buffer that holds a whole frame.\<close>

definition chain_frame :: "chain_proto \<Rightarrow> bytes \<Rightarrow> nat \<times> nat \<times> bytes \<times> xorshift" where
  "chain_frame a src =
     (let dlen = unat (get_le16 src XOR get_le16 (drop 14 (ca_lastServerHash a)))
      in (dlen, chain_randLength (ca_kind a) (ca_overhead a) dlen (ca_lastServerHash a) (ca_randomServer a)))"

lemma chain_frame_append: "4 < length src \<Longrightarrow> chain_frame a (src @ t) = chain_frame a src"
  by (simp add: chain_frame_def get_le16_append)

lemma chain_step_wait:
  assumes "chain_step hmac a src = NeedMore a'"
  shows "a' = a \<and> length src \<le> 4 \<or> 4 < length src \<and> 16 \<le> length (ca_lastServerHash a)
    \<and> (\<exists>dlen rlen h1 r1. chain_frame a src = (dlen, rlen, h1, r1) \<and> a' = a\<lparr>ca_lastServerHash := h1, ca_randomServer := r1\<rparr>
        \<and> length src < 4 + dlen + rlen)"
  using assms
  by (cases "chain_frame a src") (auto simp: chain_step_def chain_frame_def Let_def split: if_splits prod.splits)

lemma chain_step_append:
  assumes "4 < length src" "\<And>a'. chain_step hmac a src \<noteq> NeedMore a'"
  shows "chain_step hmac a (src @ t) = chain_step hmac a src"
proof (cases "length (ca_lastServerHash a) < 16")
  case True
  then show ?thesis using assms(1) by (simp add: chain_step_def Let_def)
next
  case False
  obtain dlen rlen h1 r1 where f: "chain_frame a src = (dlen, rlen, h1, r1)" by (metis surj_pair)
  then have f': "unat (get_le16 src XOR get_le16 (drop 14 (ca_lastServerHash a))) = dlen"
    "unat (get_le16 (src @ t) XOR get_le16 (drop 14 (ca_lastServerHash a))) = dlen"
    "chain_randLength (ca_kind a) (ca_overhead a) dlen (ca_lastServerHash a) (ca_randomServer a) = (rlen, h1, r1)"
    using assms(1) by (auto simp: chain_frame_def Let_def get_le16_append)
  show ?thesis
  proof (cases "4096 \<le> dlen + rlen")
    case True
    then show ?thesis using False assms(1) f' by (simp add: chain_step_def Let_def)
  next
    case small: False
    have "4 + (dlen + rlen) \<le> length src"
      using assms(2) False small assms(1) f' by (force simp: chain_step_def Let_def split: if_splits)
    moreover have "2 + p + dlen \<le> length src" if "getRandStartPos rlen r1 = (p, r)" "0 < rlen" for p r
      using getRandStartPos_less [OF that(2,1)] calculation by simp
    ultimately show ?thesis
      using False small assms(1) f' by (auto simp: chain_step_def Let_def split: prod.splits)
  qed
qed

interpretation chain: frame_decoder ca_rawTrans "chain_step hmac" for hmac
proof
  fix st st' :: chain_proto and src out t n e
  show took: "0 < n \<and> n \<le> length src \<and> ca_rawTrans st' = ca_rawTrans st" if "chain_step hmac st src = Took n out st'"
    using that by (auto simp: chain_step_def Let_def split: if_splits prod.splits)
  show "chain_step hmac st (src @ t) = Took n out st'" if a: "chain_step hmac st src = Took n out st'"
    using chain_step_append [of src hmac st t] chain_step_short [of src hmac st] a
    by (cases "length src \<le> 4") auto
  show "chain_step hmac st (src @ t) = Fails e st'" if a: "chain_step hmac st src = Fails e st'"
    using chain_step_append [of src hmac st t] chain_step_short [of src hmac st] a
    by (cases "length src \<le> 4") auto
  show "chain_step hmac st' (src @ t) = chain_step hmac st (src @ t) \<and> ca_rawTrans st' = ca_rawTrans st"
    if wait: "chain_step hmac st src = NeedMore st'"
  proof (cases "st' = st")
    case False
    then obtain dlen rlen h1 r1 where w: "4 < length src" "16 \<le> length (ca_lastServerHash st)" "chain_frame st src = (dlen, rlen, h1, r1)"
      "st' = st\<lparr>ca_lastServerHash := h1, ca_randomServer := r1\<rparr>"
      using chain_step_wait [OF wait] by blast
    have r: "chain_randLength (ca_kind st) (ca_overhead st) dlen (ca_lastServerHash st) (ca_randomServer st) = (rlen, h1, r1)"
      and dl: "unat (get_le16 src XOR get_le16 (drop 14 (ca_lastServerHash st))) = dlen"
      using w(3) by (auto simp: chain_frame_def Let_def)
    have h: "drop 14 h1 = drop 14 (ca_lastServerHash st)" "length h1 = length (ca_lastServerHash st)"
      using randLength_hash [OF w(2) r] tail16 by auto
    have e: "get_le16 (src @ t) = get_le16 src" using w(1) by (simp add: get_le16_append)
    have sel: "ca_userKey st' = ca_userKey st" "ca_recvID st' = ca_recvID st" "ca_kind st' = ca_kind st"
      "ca_overhead st' = ca_overhead st" "ca_decrypter st' = ca_decrypter st" "ca_lastServerHash st' = h1"
      "ca_randomServer st' = r1" "ca_rawTrans st' = ca_rawTrans st"
      "st'\<lparr>ca_lastServerHash := h1, ca_randomServer := r1\<rparr> = st\<lparr>ca_lastServerHash := h1, ca_randomServer := r1\<rparr>"
      by (simp_all add: w(4))
    have "chain_step hmac st' (src @ t) = chain_step hmac st (src @ t)"
      unfolding chain_step_def Let_def sel e h dl r randLength_again [OF w(2) r] prod.case sel
      using w(1,2) by simp
    then show ?thesis using sel by simp
  qed simp
qed

section \<open>Packing\<close>

definition chain_linked :: "chain_proto \<Rightarrow> chain_proto \<Rightarrow> bool" where
  "chain_linked tx st \<longleftrightarrow> ca_userKey tx = ca_userKey st \<and> ca_overhead tx = ca_overhead st \<and> ca_kind tx = ca_kind st
     \<and> kind_ok (ca_kind st) \<and> ca_encrypter tx = ca_decrypter st \<and> ca_packID tx = ca_recvID st
     \<and> length (ca_lastClientHash tx) = 16 \<and> length (ca_lastServerHash st) = 16
     \<and> drop 2 (ca_lastClientHash tx) = drop 2 (ca_lastServerHash st) \<and> \<not> ca_rawTrans st"

definition chain_fit :: "chain_proto \<Rightarrow> draw \<times> bytes \<Rightarrow> bool" where
  "chain_fit tx = (\<lambda>(r, d). d \<noteq> [] \<and> length d \<le> 2800 \<and> (ca_packID tx = 1 \<longrightarrow> 2 \<le> length d))"

definition chain_payload :: "chain_proto \<Rightarrow> draw \<times> bytes \<Rightarrow> bytes" where
  "chain_payload tx = (\<lambda>(r, d). if ca_packID tx = 1 then drop 2 d else d)"

lemma putMixed_shape:
  assumes "chain_randLength (ca_kind a) (ca_overhead a) (length data) (ca_lastClientHash a) (ca_randomClient a) = (rlen, h1, r1)"
    "putMixed a r data = (mixed, a1)"
  obtains start pre post q where "mixed = pre @ data @ post" "length mixed = length data + rlen"
    "start = (if 0 < length data \<and> 0 < rlen then fst (getRandStartPos rlen r1) else 0)"
    "0 < length data \<Longrightarrow> length pre = start"
    "a1 = a\<lparr>ca_lastClientHash := h1, ca_randomClient := q\<rparr>"
proof (cases "data = [] \<or> rlen = 0")
  case True
  then have "mixed = (if data = [] then randBytes r rlen else data)" "a1 = a\<lparr>ca_lastClientHash := h1, ca_randomClient := r1\<rparr>"
    using assms by (auto simp: putMixed_def Let_def split: if_splits)
  then show ?thesis
    using True that [of "if data = [] then randBytes r rlen else []" "[]" 0 r1] by (cases "data = []") auto
next
  case False
  obtain p r2 where p: "getRandStartPos rlen r1 = (p, r2)" by (cases "getRandStartPos rlen r1")
  have lt: "p < rlen" using getRandStartPos_less p False by blast
  have "mixed = take p (randBytes r rlen) @ data @ drop p (randBytes r rlen)"
    "a1 = a\<lparr>ca_lastClientHash := h1, ca_randomClient := r2\<rparr>"
    using assms False p by (auto simp: putMixed_def Let_def)
  with lt False p show ?thesis
    by (intro that [of "take p (randBytes r rlen)" "drop p (randBytes r rlen)" p r2]) simp_all
qed

lemma chain_step_packData:
  assumes mac: "\<And>k x. length (hmac k x) = 16" and lk: "chain_linked tx st" and f: "chain_fit tx (r, d)"
    and p: "chain_packData hmac tx (r, d) = (p, tx')"
  shows "\<exists>st'. chain_step hmac st (p @ t) = Took (length p) (chain_payload tx (r, d)) st' \<and> chain_linked tx' st'"
proof -
  obtain enc e1 where enc: "rc4_xor (ca_encrypter tx) d = (enc, e1)" by (cases "rc4_xor (ca_encrypter tx) d")
  have le: "length enc = length d" using length_xor [of rc4_step "ca_encrypter tx" d] enc by simp
  have dec: "rc4_xor (ca_decrypter st) enc = (d, e1)"
    using rc4_twice [of "ca_encrypter tx" d] enc lk by (simp add: chain_linked_def)
  define tx1 where "tx1 = tx\<lparr>ca_encrypter := e1, ca_packID := ca_packID tx + 1\<rparr>"
  obtain rlen h1 r1 where rl: "chain_randLength (ca_kind tx) (ca_overhead tx) (length d) (ca_lastClientHash tx) (ca_randomClient tx) = (rlen, h1, r1)"
    by (metis surj_pair)
  obtain mixed tx2 where m: "putMixed tx1 r enc = (mixed, tx2)" by (cases "putMixed tx1 r enc")
  have rl1: "chain_randLength (ca_kind tx1) (ca_overhead tx1) (length enc) (ca_lastClientHash tx1) (ca_randomClient tx1) = (rlen, h1, r1)"
    using rl le by (simp add: tx1_def)
  obtain start pre post q where mx: "mixed = pre @ enc @ post" "length mixed = length enc + rlen"
    "start = (if 0 < length enc \<and> 0 < rlen then fst (getRandStartPos rlen r1) else 0)"
    "0 < length enc \<Longrightarrow> length pre = start"
    "tx2 = tx1\<lparr>ca_lastClientHash := h1, ca_randomClient := q\<rparr>"
    by (rule putMixed_shape [OF rl1 m]) blast
  define w where "w = word_of_nat (length d) XOR get_le16 (drop 14 (ca_lastClientHash tx))"
  define key where "key = ca_userKey st @ put_le32 (ca_recvID st)"
  define h where "h = hmac key (put_le16 w @ mixed)"
  have pe: "p = put_le16 w @ mixed @ take 2 h" and tx': "tx' = tx2\<lparr>ca_lastClientHash := h\<rparr>"
    using p enc m lk le by (auto simp: chain_packData_def Let_def tx1_def [symmetric] w_def h_def key_def chain_linked_def)
  have d: "d \<noteq> []" "length d \<le> 2800" "ca_recvID st = 1 \<Longrightarrow> 2 \<le> length d" using f lk by (auto simp: chain_fit_def chain_linked_def)
  have "w XOR get_le16 (drop 14 (ca_lastServerHash st)) = word_of_nat (length d)"
    using tail16 [of "ca_lastClientHash tx" "ca_lastServerHash st"] lk by (simp add: w_def chain_linked_def xor.assoc)
  then have dl: "unat (get_le16 (p @ t) XOR get_le16 (drop 14 (ca_lastServerHash st))) = length d"
    using d(2) by (simp add: pe unat_of_nat)
  obtain h2 r2 where rs: "chain_randLength (ca_kind st) (ca_overhead st) (length d) (ca_lastServerHash st) (ca_randomServer st) = (rlen, h2, r2)"
    "0 < rlen \<Longrightarrow> r2 = r1"
  proof -
    obtain n h2 r2 where rs: "chain_randLength (ca_kind st) (ca_overhead st) (length d) (ca_lastServerHash st) (ca_randomServer st) = (n, h2, r2)"
      by (metis surj_pair)
    show ?thesis using randLength_cong [OF _ _ _ rl, of "ca_lastServerHash st"] lk rs that by (auto simp: chain_linked_def)
  qed
  have kind: "kind_ok (ca_kind tx)" "kind_ok (ca_kind st)" using lk by (auto simp: chain_linked_def)
  have small: "length d + rlen < 4096" using randLength_bound [OF kind(1) rl] d(2) by (cases "1440 < length d") auto
  have lp: "length p = length d + rlen + 4" using mac by (simp add: pe mx(2) le h_def)
  have mp: "take (length d + rlen + 2) (p @ t) = put_le16 w @ mixed" "take 2 (drop (length d + rlen + 2) (p @ t)) = take 2 h"
    using mx(2) le mac by (simp_all add: pe h_def)
  have dp: "take (length d) (drop (2 + start) (p @ t)) = enc"
  proof (cases "enc = []")
    case False
    then have "length pre = start" using mx(4) by simp
    then show ?thesis using le by (simp add: pe mx(1))
  qed (use le in simp)
  define sp where "sp = (if 0 < length d \<and> 0 < rlen then getRandStartPos rlen r2 else (0, r2))"
  have "fst sp = start" using mx(3) rs(2) le by (auto simp: sp_def)
  then have st: "(if 0 < length d \<and> 0 < rlen then getRandStartPos rlen r2 else (0, r2)) = (start, snd sp)"
    unfolding sp_def [symmetric] by (cases sp) simp
  define st' where "st' = st\<lparr>ca_lastServerHash := h, ca_randomServer := snd sp, ca_decrypter := e1, ca_recvID := ca_recvID st + 1\<rparr>"
  have nf: "\<not> (ca_recvID st = 1 \<and> length d < 2)" using d(3) by auto
  have "chain_step hmac st (p @ t) = Took (length p) (chain_payload tx (r, d)) st'"
    unfolding chain_step_def Let_def dl rs(1) prod.case key_def [symmetric] mp h_def [symmetric] st dp dec
    using lk small d(1) nf lp by (simp add: chain_linked_def st'_def chain_payload_def)
  moreover have "chain_linked tx' st'"
    using lk mac by (simp add: chain_linked_def st'_def tx' mx(5)) (simp add: tx1_def h_def)
  ultimately show ?thesis by blast
qed

definition mac16 :: "(bytes \<Rightarrow> bytes \<Rightarrow> bytes) \<Rightarrow> bool" where
  "mac16 hmac \<longleftrightarrow> (\<forall>k x. length (hmac k x) = 16)"

lemma chain_codec:
  "mac16 hmac \<Longrightarrow> frame_codec ca_rawTrans (chain_step hmac) (chain_packData hmac) chain_payload chain_fit chain_linked"
proof
  show "\<exists>st'. chain_step hmac st (p @ t) = Took (length p) (chain_payload tx d) st' \<and> chain_linked tx' st'"
    if "mac16 hmac" "chain_linked tx st" "chain_fit tx d" "chain_packData hmac tx d = (p, tx')"
    for tx tx' st d p t
    using chain_step_packData [of hmac tx st "fst d" "snd d" p tx' t] that by (simp add: mac16_def)
qed (auto simp: chain_step_short chain_linked_def)

section \<open>Delivery\<close>

lemma chain_packID:
  "chain_packData hmac a x = (p, a') \<Longrightarrow> ca_packID a' = ca_packID a + 1 \<and> ca_hasSentHeader a' = ca_hasSentHeader a"
  by (auto simp: chain_packData_def putMixed_def Let_def split: prod.splits if_splits)

lemma chain_fit_all:
  assumes "mac16 hmac"
  shows "2 \<le> unat (ca_packID tx) \<Longrightarrow> unat (ca_packID tx) + length ds \<le> 2 ^ 32
    \<Longrightarrow> (\<And>r d. (r, d) \<in> set ds \<Longrightarrow> d \<noteq> [] \<and> length d \<le> 2800)
    \<Longrightarrow> frame_codec.all_fit (chain_packData hmac) chain_fit tx ds
      \<and> frame_codec.payloads_of (chain_packData hmac) chain_payload tx ds = concat (map snd ds)"
proof (induction ds arbitrary: tx)
  case Nil
  show ?case by (simp add: frame_codec.all_fit.simps [OF chain_codec [OF assms]] frame_codec.payloads_of.simps [OF chain_codec [OF assms]])
next
  case (Cons x ds)
  obtain r d where x: "x = (r, d)" by (cases x)
  obtain p tx' where p: "chain_packData hmac tx x = (p, tx')" by (cases "chain_packData hmac tx x")
  have one: "ca_packID tx \<noteq> 1" using Cons.prems(1) by auto
  have "frame_codec.all_fit (chain_packData hmac) chain_fit tx' ds
      \<and> frame_codec.payloads_of (chain_packData hmac) chain_payload tx' ds = concat (map snd ds)"
  proof (cases "ds = []")
    case True
    then show ?thesis
      by (simp add: frame_codec.all_fit.simps [OF chain_codec [OF assms]] frame_codec.payloads_of.simps [OF chain_codec [OF assms]])
  next
    case False
    then have "0 < length ds" by simp
    then have "unat (ca_packID tx) + 1 < 2 ^ 32" using Cons.prems(2) by (simp del: length_greater_0_conv)
    then have u: "unat (ca_packID tx') = unat (ca_packID tx) + 1"
      using chain_packID [OF p] by (simp add: unat_word_ariths(1))
    show ?thesis by (rule Cons.IH) (use u Cons.prems in auto)
  qed
  moreover have "chain_fit tx x" "chain_payload tx x = d"
    using one Cons.prems(3) [of r d] by (simp_all add: x chain_fit_def chain_payload_def)
  ultimately show ?case
    using p
    by (simp add: x frame_codec.all_fit.simps [OF chain_codec [OF assms]] frame_codec.payloads_of.simps [OF chain_codec [OF assms]])
qed

text \<open>The packets of one write.\<close>

definition chain_frames :: "(draw \<times> draw \<times> (nat \<Rightarrow> draw)) \<times> bytes \<Rightarrow> (draw \<times> bytes) list" where
  "chain_frames = (\<lambda>((rc, r0, rs), b). numbered rs (split_packets 2800 b))"

lemma chain_writes_sent:
  "ca_hasSentHeader (snd (cn_writes (chain_packData hmac) a ds)) = ca_hasSentHeader a"
proof (induction ds arbitrary: a)
  case (Cons d ds)
  obtain p a1 where p: "chain_packData hmac a d = (p, a1)" by (cases "chain_packData hmac a d")
  show ?case using Cons [of a1] chain_packID [OF p] p by (simp add: case_prod_beta)
qed simp

lemma chain_writes_frames:
  "ca_hasSentHeader a \<Longrightarrow> cn_writes (chain_Encode hmac md5 cbc now) a ws = cn_writes (chain_packData hmac) a (concat (map chain_frames ws))"
proof (induction ws arbitrary: a)
  case (Cons w ws)
  obtain rc r0 rs b where w: "w = ((rc, r0, rs), b)" by (metis surj_pair)
  have sent: "ca_hasSentHeader (snd (cn_writes (chain_packData hmac) a ds)) = ca_hasSentHeader a" for ds a
    by (rule chain_writes_sent)
  have u: "a\<lparr>ca_hasSentHeader := True\<rparr> = a" using Cons.prems by simp
  obtain x a2 where x: "cn_writes (chain_packData hmac) a (numbered rs (split_packets 2800 b)) = (x, a2)"
    by (cases "cn_writes (chain_packData hmac) a (numbered rs (split_packets 2800 b))")
  have "cn_writes (chain_packData hmac) (a\<lparr>ca_hasSentHeader := True\<rparr>) (numbered rs (split_packets 2800 b)) = (x, a2)"
    unfolding u by (rule x)
  then have "chain_Encode hmac md5 cbc now a w = cn_writes (chain_packData hmac) a (chain_frames w)"
    using Cons.prems x by (simp add: w chain_Encode_def chain_frames_def)
  then show ?case
    using Cons.IH [of "snd (cn_writes (chain_packData hmac) a (chain_frames w))"] sent [of a "chain_frames w"] Cons.prems
    by (simp add: cn_writes_append case_prod_beta)
qed simp

lemma chain_frames_data: "concat (map snd (concat (map chain_frames ws))) = concat (map snd ws)"
  by (induction ws) (auto simp: chain_frames_def)

lemma chain_frames_length: "length (concat (map chain_frames ws)) \<le> length (concat (map snd ws))"
  using length_split_packets [of 2800] by (induction ws) (auto simp: chain_frames_def intro: add_mono)

lemma chain_frames_fit: "(r, d) \<in> set (concat (map chain_frames ws)) \<Longrightarrow> d \<noteq> [] \<and> length d \<le> 2800"
  using split_packets_bound [of 2800] by (auto simp: chain_frames_def dest!: numbered_simps(3))

text \<open>C17: Over \<open>auth_chain_a\<close> and \<open>auth_chain_b\<close> what is written arrives: with keys and hashes that agree, every number of
  writes of any sizes, with any padding, cut into pieces in any way, is handed out in order by reads of any sizes, which
  fail only with \<open>EOF\<close> and after everything. Both sides compute the same padding for every packet. The number of the
  next packet is past the first one, which carries two more bytes, and does not wrap around.\<close>

theorem chain_delivery:
  assumes "mac16 hmac" "ca_hasSentHeader a" "chain_linked a st" "2 \<le> unat (ca_packID a)"
    "unat (ca_packID a) + length (concat (map snd ws)) \<le> 2 ^ 32"
    "cn_writes (chain_Encode hmac md5 cbc now) a ws = (concat net, a')"
    "cn_reads (chain_Decode hmac) ms (\<lparr>cn_proto = st, cn_decoded = [], cn_under = []\<rparr>, net) = (rs, w')"
  shows "\<exists>rest. concat (map snd ws) = oks rs @ rest \<and> (\<forall>e. Err e \<in> set rs \<longrightarrow> e = EOF \<and> rest = [])"
proof -
  let ?ds = "concat (map chain_frames ws)"
  have f: "frame_codec.all_fit (chain_packData hmac) chain_fit a ?ds
      \<and> frame_codec.payloads_of (chain_packData hmac) chain_payload a ?ds = concat (map snd ?ds)"
    using assms(5) chain_frames_length [of ws] by (intro chain_fit_all [OF assms(1,4)] chain_frames_fit) auto
  have "frame_codec.pack_all (chain_packData hmac) chain_payload a ?ds = (concat net, concat (map snd ws), a')"
    using assms(6) f chain_writes_frames [OF assms(2), of hmac md5 cbc now ws]
    by (simp only: frame_codec.pack_all_writes [OF chain_codec [OF assms(1)]] chain_frames_data) simp
  then show ?thesis
    using frame_codec.delivery [OF chain_codec [OF assms(1)] assms(3) conjunct1 [OF f] _ assms(7) [unfolded chain_Decode_def]] by blast
qed

definition sample_mac16 :: "bytes \<Rightarrow> bytes \<Rightarrow> bytes" where
  "sample_mac16 k x = sample_mac k x @ sample_mac x k"

definition sample_chain :: chain_proto where
  "sample_chain = (chain_a_streamConn \<lparr>sb_key = [1, 2], sb_overhead = 4, sb_param = []\<rparr> ''auth_chain_a'' ([5, 6], [0, 0, 0, 1]) (s1_auth sample_sha1) [3])
     \<lparr>ca_hasSentHeader := True, ca_lastClientHash := replicate 16 7, ca_lastServerHash := replicate 16 7,
      ca_encrypter := rc4_new [1, 2, 3], ca_decrypter := rc4_new [1, 2, 3], ca_packID := 2, ca_recvID := 2\<rparr>"

definition sample_chain_wire :: bytes where
  "sample_chain_wire = fst (cn_writes (chain_Encode sample_mac16 id (\<lambda>_ x. x) 0) sample_chain
     [((sample_draw, sample_draw, \<lambda>_. sample_draw), [7, 8, 9])])"

theorem chain_delivery_witness:
  "\<exists>rest. [7, 8, 9] = oks (fst (cn_reads (chain_Decode sample_mac16) [2, 2, 2, 2]
      (\<lparr>cn_proto = sample_chain, cn_decoded = [], cn_under = []\<rparr>, [take 6 sample_chain_wire, drop 6 sample_chain_wire]))) @ rest"
proof -
  let ?w = "(\<lparr>cn_proto = sample_chain, cn_decoded = [], cn_under = []\<rparr>, [take 6 sample_chain_wire, drop 6 sample_chain_wire])"
  let ?ws = "[((sample_draw, sample_draw, \<lambda>_. sample_draw), [7, 8, 9])]"
  obtain rs w' where r: "cn_reads (chain_Decode sample_mac16) [2, 2, 2, 2] ?w = (rs, w')"
    by (cases "cn_reads (chain_Decode sample_mac16) [2, 2, 2, 2] ?w")
  obtain a' where e: "cn_writes (chain_Encode sample_mac16 id (\<lambda>_ x. x) 0) sample_chain ?ws
      = (concat [take 6 sample_chain_wire, drop 6 sample_chain_wire], a')"
    by (cases "cn_writes (chain_Encode sample_mac16 id (\<lambda>_ x. x) 0) sample_chain ?ws") (simp add: sample_chain_wire_def)
  have "mac16 sample_mac16" "chain_linked sample_chain sample_chain" "ca_hasSentHeader sample_chain" "2 \<le> unat (ca_packID sample_chain)"
    "unat (ca_packID sample_chain) + length (concat (map snd ?ws)) \<le> 2 ^ 32"
    by (simp_all add: mac16_def sample_mac16_def sample_mac_def chain_linked_def sample_chain_def chain_a_streamConn_def kind_ok_def)
  from chain_delivery [OF this(1,3,2,4,5) e r] r show ?thesis by auto
qed

section \<open>Before the first packet\<close>

text \<open>A server that sends before the client has written makes the client panic: the client then has no hash yet, and
  any five bytes make \<open>Decode\<close> slice it.\<close>

theorem chain_early_data_panics:
  "chain_Decode hmac (chain_a_streamConn b salt user auth iv) (x1 # x2 # x3 # x4 # x5 # src) dst
    = (Some out_of_range, chain_a_streamConn b salt user auth iv, [], dst)"
proof -
  let ?a = "chain_a_streamConn b salt user auth iv"
  have "\<not> ca_rawTrans ?a" "length (ca_lastServerHash ?a) < 16" by (simp_all add: chain_a_streamConn_def)
  then show ?thesis by (simp add: chain_Decode_def chain.decode_round chain_step_def Let_def)
qed

section \<open>Datagrams\<close>

lemma chain_datagram_read:
  assumes "mac16 hmac" "length z = 7" "body \<noteq> []" "n = fst (udpGetRandLength (hmac (ca_key a) z))"
    "pkt = body @ z" "out = chain_DecodePacket hmac md5 a (pkt @ take 1 (hmac (ca_userKey a) pkt))"
  shows "out = (if length body < n then Err out_of_range
     else Ok (fst (rc4_xor (chain_udp_key md5 a (hmac (ca_key a) z)) (take (length body - n) body))))"
proof -
  have m: "length (take 1 (hmac (ca_userKey a) pkt)) = 1" using assms(1) by (simp add: mac16_def)
  define q where "q = pkt @ take 1 (hmac (ca_userKey a) pkt)"
  have q: "length q = length body + 8" "take (length q - 1) q = pkt" "drop (length q - 1) q = take 1 (hmac (ca_userKey a) pkt)"
    "drop (length q - 8) pkt = z" "take (length q - 8 - n) q = take (length body - n) body"
    using m assms(2,5) by (simp_all add: q_def)
  show "out = (if length body < n then Err out_of_range
     else Ok (fst (rc4_xor (chain_udp_key md5 a (hmac (ca_key a) z)) (take (length body - n) body))))"
    unfolding assms(6) q_def [symmetric] chain_DecodePacket_def Let_def q(2-4) assms(4) [symmetric] q(5)
    using q(1) assms(3) by simp
qed

text \<open>A datagram of the server is read back: encrypted data, padding of the length that follows from its last seven
  bytes, those bytes and one byte of the MAC.\<close>

theorem chain_datagram_roundtrip:
  assumes "mac16 hmac" "length z = 7" "n = fst (udpGetRandLength (hmac (ca_key a) z))" "d \<noteq> []"
    "pkt = fst (rc4_xor (chain_udp_key md5 a (hmac (ca_key a) z)) d) @ randBytes r n @ z"
  shows "chain_DecodePacket hmac md5 a (pkt @ take 1 (hmac (ca_userKey a) pkt)) = Ok d"
proof -
  let ?e = "fst (rc4_xor (chain_udp_key md5 a (hmac (ca_key a) z)) d)"
  have "?e \<noteq> []" using assms(4) length_xor [of rc4_step "chain_udp_key md5 a (hmac (ca_key a) z)" d] by (metis length_0_conv)
  then have "?e @ randBytes r n \<noteq> []" "pkt = (?e @ randBytes r n) @ z"
    using assms(5) by auto
  from chain_datagram_read [OF assms(1,2) this(1) assms(3) this(2) refl] show ?thesis
    using rc4_twice by simp
qed

definition one_mac :: "bytes \<Rightarrow> bytes \<Rightarrow> bytes" where
  "one_mac k x = [1, 0, 0, 0, 0, 0, 0, 0, 0, 0, 0, 0, 0, 0, 0, 0]"

lemma one_mac_length: "fst (udpGetRandLength (one_mac k x)) = 69"
proof -
  have "get_le64 (one_mac k x) = 1" "get_le64 (drop 8 (one_mac k x)) = 0"
    by (simp_all add: one_mac_def get_le64_def get_be64_def)
  then show ?thesis by (simp add: udpGetRandLength_def rng_next_def Let_def)
qed

theorem chain_datagram_roundtrip_witness:
  "\<exists>pkt. chain_DecodePacket one_mac id sample_chain (pkt @ [1]) = Ok [7, 8]"
proof -
  have "mac16 one_mac" "take 1 (one_mac k x) = [1]" for k x by (simp_all add: mac16_def one_mac_def)
  then show ?thesis
    using chain_datagram_roundtrip [of one_mac "replicate 7 0" _ sample_chain "[7, 8]" _ id sample_draw, OF _ _ refl _ refl]
    by (simp only: append_assoc simp_thms length_replicate list.distinct True_implies_equals) (metis append_assoc)
qed

text \<open>One byte is all that protects the client from a datagram that makes it panic: if what comes before the last eight
  bytes is shorter than the padding that they announce, \<open>DecodePacket\<close> slices with a negative bound.\<close>

theorem chain_short_datagram_panics:
  assumes "mac16 hmac" "length z = 7" "body \<noteq> []" "length body < fst (udpGetRandLength (hmac (ca_key a) z))"
  shows "chain_DecodePacket hmac md5 a (body @ z @ take 1 (hmac (ca_userKey a) (body @ z))) = Err out_of_range"
  using chain_datagram_read [OF assms(1-3) refl refl refl] assms(4) by simp

theorem chain_short_datagram_panics_witness:
  "chain_DecodePacket one_mac id sample_chain ([9] @ replicate 7 0 @ take 1 (one_mac [5, 6] ([9] @ replicate 7 0))) = Err out_of_range"
  using chain_short_datagram_panics [of one_mac "replicate 7 0" "[9]" sample_chain id]
  by (simp add: one_mac_length) (simp add: mac16_def one_mac_def)

end
