(* ===== verification/SsrObfs.thy ===== *)
theory SsrObfs
  imports ChainFacts
begin

text \<open>
  \<open>transport/ssr/obfs\<close>: the obfuscations \<open>plain\<close>, \<open>random_head\<close>, \<open>http_simple\<close> and \<open>http_post\<close>, and
  \<open>tls1.2_ticket_auth\<close>. What a connection writes goes to the connection below (\<open>Conn\<close>); random choices, the clock,
  HMAC-SHA1 and the table of user agents are arguments.
\<close>

section \<open>Choice\<close>

datatype obfs = Plain | HTTPSimple | HTTPPost | RandomHead | TLS12Ticket

definition obfsList :: "(string \<times> nat \<times> obfs) list" where
  "obfsList = [(''plain'', 0, Plain), (''http_simple'', 0, HTTPSimple), (''http_post'', 0, HTTPPost), (''random_head'', 0, RandomHead),
     (''tls1.2_ticket_auth'', 5, TLS12Ticket), (''tls1.2_ticket_fastauth'', 5, TLS12Ticket)]"

definition pickObfs :: "string \<Rightarrow> (obfs \<times> nat) res" where
  "pickObfs name = (case map_of obfsList name of
     Some (overhead, o1) \<Rightarrow> Ok (o1, overhead) | None \<Rightarrow> Err (Msg ''Obfs not supported''))"

record obfs_base =
  ob_host :: string
  ob_port :: int
  ob_key :: bytes
  ob_ivSize :: nat
  ob_param :: string

text \<open>A write below, and its error if any.\<close>

definition put :: "bytes \<Rightarrow> conn \<Rightarrow> gerr option \<times> conn" where
  "put b c = (case io_write b c of (Inl e, c') \<Rightarrow> (Some e, c') | (Inr _, c') \<Rightarrow> (None, c'))"

section \<open>random\_head\<close>

record random_head =
  rh_hasSentHeader :: bool
  rh_rawTransSent :: bool
  rh_rawTransRecv :: bool
  rh_buf :: bytes

definition random_header :: "draw \<Rightarrow> bytes" where
  "random_header r = (let d = randBytes r (dw_int r mod 96 + 4) in d @ put_le32 (0xffffffff - crc32 d))"

definition rh_Write :: "draw \<Rightarrow> bytes \<Rightarrow> random_head \<times> conn \<Rightarrow> (nat \<times> gerr option) \<times> random_head \<times> conn" where
  "rh_Write r b = (\<lambda>(s, c).
     if rh_rawTransSent s then (case put b c of (e, c') \<Rightarrow> ((if e = None then length b else 0, e), s, c'))
     else let s1 = s\<lparr>rh_buf := rh_buf s @ b\<rparr> in
       if \<not> rh_hasSentHeader s1 then
         (case put (random_header r) c of (e, c') \<Rightarrow> ((length b, e), s1\<lparr>rh_hasSentHeader := True\<rparr>, c'))
       else if rh_rawTransRecv s1 then
         (case put (rh_buf s1) c of (e, c') \<Rightarrow> ((length b, e), s1\<lparr>rh_buf := [], rh_rawTransSent := True\<rparr>, c'))
       else ((length b, None), s1, c))"

text \<open>\<open>Read\<close> into \<open>m\<close> bytes; the first one takes whatever the peer sends first and drops it.\<close>

definition rh_Read :: "draw \<Rightarrow> nat \<Rightarrow> nat \<Rightarrow> random_head \<times> conn \<Rightarrow> bytes res \<times> random_head \<times> conn" where
  "rh_Read r m seg = (\<lambda>(s, c).
     if rh_rawTransRecv s then (case io_some m seg c of (x, c') \<Rightarrow> (x, s, c'))
     else case io_some (20 * 1024) seg c of
       (_, c') \<Rightarrow> (case rh_Write r [] (s\<lparr>rh_rawTransRecv := True\<rparr>, c') of (_, s', c'') \<Rightarrow> (Ok [], s', c'')))"

section \<open>http\_simple and http\_post\<close>

record http_obfs =
  ho_base :: obfs_base
  ho_post :: bool
  ho_hasSentHeader :: bool
  ho_hasRecvHeader :: bool
  ho_buf :: "bytes option"

definition crlf :: string where "crlf = [CHR 0x0D, CHR 0x0A]"

text \<open>\<open>Read\<close>; \<open>net\<close> holds what the reads of the connection below return, each into a buffer that is large enough.\<close>

definition ho_Read :: "nat \<Rightarrow> http_obfs \<times> bytes list \<Rightarrow> bytes res \<times> http_obfs \<times> bytes list" where
  "ho_Read m = (\<lambda>(h, net).
     case ho_buf h of
       Some buf \<Rightarrow> (Ok (take m buf), h\<lparr>ho_buf := (if length buf \<le> m then None else Some (drop m buf))\<rparr>, net)
     | None \<Rightarrow>
         (case net of
            [] \<Rightarrow> (Err EOF, h, [])
          | x # net' \<Rightarrow>
              if ho_hasRecvHeader h then
                (Ok (take m x), h, (if length x \<le> m then net' else drop m x # net'))
              else (case str_index x (s2b (crlf @ crlf)) of
                  None \<Rightarrow> (Err EOF, h, net')
                | Some pos \<Rightarrow>
                    let d = drop (4 + pos) x in
                    (Ok (take m d), h\<lparr>ho_hasRecvHeader := True, ho_buf := (if m < length d then Some (drop m d) else None)\<rparr>, net'))))"

definition hex_char :: "byte \<Rightarrow> char" where
  "hex_char n = ''0123456789abcdef'' ! unat n"

definition packURLEncodedHeadData :: "bytes \<Rightarrow> string" where
  "packURLEncodedHeadData data = concat (map (\<lambda>b. [CHR ''%'', hex_char (drop_bit 4 b), hex_char (b AND 15)]) data)"

text \<open>\<open>strings.ReplaceAll\<close> for a text that is not empty.\<close>

function replace_all :: "string \<Rightarrow> string \<Rightarrow> string \<Rightarrow> string" where
  "replace_all old new s =
     (if old = [] then s
      else case str_index s old of None \<Rightarrow> s
      | Some i \<Rightarrow> take i s @ new @ (if s = [] then [] else replace_all old new (drop (i + length old) s)))"
  by pat_completeness auto
termination by (relation "measure (\<lambda>(old, new, s). length s)") auto

declare replace_all.simps [simp del]

definition packBoundary :: "(nat \<Rightarrow> nat) \<Rightarrow> string" where
  "packBoundary picks = ''Content-Type: multipart/form-data; boundary=''
     @ map (\<lambda>i. ''ABCDEFGHIJKLMNOPQRSTUVWXYZabcdefghijklmnopqrstuvwxyz0123456789'' ! (picks i mod 62)) [0..<32] @ crlf"

text \<open>The random choices of the first write.\<close>

record http_picks =
  hp_head :: nat
  hp_host :: nat
  hp_agent :: nat
  hp_boundary :: "nat \<Rightarrow> nat"

definition ho_headDataLength :: "obfs_base \<Rightarrow> http_picks \<Rightarrow> bytes \<Rightarrow> nat" where
  "ho_headDataLength base p b =
     (let headLength = ob_ivSize base + 30
      in if 64 < int (length b) - int headLength then headLength + hp_head p mod 65 else length b)"

definition ho_host_body :: "obfs_base \<Rightarrow> string \<times> string" where
  "ho_host_body base =
     (if ob_param base \<noteq> [] then
        (case str_index (ob_param base) ''#'' of
           Some pos \<Rightarrow>
             (take pos (ob_param base),
              replace_all [CHR 0x5C, CHR ''n''] crlf (replace_all [CHR 0x0A] crlf (drop (pos + 1) (ob_param base))))
         | None \<Rightarrow> (ob_param base, []))
      else (ob_host base, []))"

definition int_text :: "int \<Rightarrow> string" where
  "int_text i = (if i < 0 then CHR ''-'' # itoa (nat (- i)) else itoa (nat i))"

text \<open>What follows the data in the request line.\<close>

definition ho_fields :: "string list \<Rightarrow> http_obfs \<Rightarrow> http_picks \<Rightarrow> string" where
  "ho_fields agents h p =
     (let (host, body) = ho_host_body (ho_base h);
          hosts = split_on (CHR '','') host;
          port = ob_port (ho_base h)
      in '' HTTP/1.1'' @ crlf @ ''Host: '' @ hosts ! (hp_host p mod length hosts)
         @ (if port \<noteq> 80 then CHR '':'' # int_text port else []) @ crlf
         @ (if body \<noteq> [] then body @ crlf @ crlf
            else ''User-Agent: '' @ agents ! (hp_agent p mod length agents) @ crlf
              @ ''Accept: text/html,application/xhtml+xml,application/xml;q=0.9,*/*;q=0.8'' @ crlf
              @ ''Accept-Language: en-US,en;q=0.8'' @ crlf @ ''Accept-Encoding: gzip, deflate'' @ crlf
              @ (if ho_post h then packBoundary (hp_boundary p) else [])
              @ ''DNT: 1'' @ crlf @ ''Connection: keep-alive'' @ crlf @ crlf))"

text \<open>\<open>Write\<close>: an error of the first write is dropped.\<close>

definition ho_Write ::
  "string list \<Rightarrow> http_picks \<Rightarrow> bytes \<Rightarrow> http_obfs \<times> conn \<Rightarrow> (nat \<times> gerr option) \<times> http_obfs \<times> conn" where
  "ho_Write agents p b = (\<lambda>(h, c).
     if ho_hasSentHeader h then (case put b c of (e, c') \<Rightarrow> ((if e = None then length b else 0, e), h, c'))
     else let n = ho_headDataLength (ho_base h) p b;
              req = s2b ((if ho_post h then ''POST /'' else ''GET /'') @ packURLEncodedHeadData (take n b) @ ho_fields agents h p)
                    @ drop n b
       in case put req c of
         (Some _, c') \<Rightarrow> ((0, None), h, c')
       | (None, c') \<Rightarrow> ((length b, None), h\<lparr>ho_hasSentHeader := True\<rparr>, c'))"

section \<open>tls1.2\_ticket\_auth\<close>

record tls_ticket =
  tt_base :: obfs_base
  tt_clientID :: bytes
  tt_status :: nat
  tt_sendBuf :: bytes

text \<open>A record.\<close>

definition tls_packData :: "bytes \<Rightarrow> bytes" where
  "tls_packData data = [0x17, 3, 3] @ put_be16 (word_of_nat (length data)) @ data"

definition tls_step :: "tls_ticket \<Rightarrow> bytes \<Rightarrow> tls_ticket frame_step" where
  "tls_step t src =
     (if length src \<le> 5 then NeedMore t
      else if take 3 src \<noteq> [0x17, 3, 3] then Fails (Msg ''tls1.2_ticket_auth incorrect magic number'') t
      else let n = unat (get_be16 (drop 3 src)) in
        if length src < 5 + n then NeedMore t else Took (5 + n) (take n (drop 5 src)) t)"

definition tls_hmac :: "(bytes \<Rightarrow> bytes \<Rightarrow> bytes) \<Rightarrow> tls_ticket \<Rightarrow> bytes \<Rightarrow> bytes" where
  "tls_hmac sha t data = take 10 (sha (ob_key (tt_base t) @ tt_clientID t) data)"

definition tls_getHost :: "obfs_base \<Rightarrow> nat \<Rightarrow> string" where
  "tls_getHost base pick =
     (let host = (if ob_param base = [] then ob_host base else ob_param base);
          host = (if host \<noteq> [] \<and> is_digit (last host) then [] else host);
          hosts = split_on (CHR '','') host
      in hosts ! (pick mod length hosts))"

definition packSNIData :: "string \<Rightarrow> bytes" where
  "packSNIData u = (let n = word_of_nat (length u) :: 16 word
     in [0, 0] @ put_be16 (n + 5) @ put_be16 (n + 3) @ [0] @ put_be16 n @ s2b u)"

definition packTicketBuf :: "draw \<Rightarrow> bytes" where
  "packTicketBuf r = (let n = 16 * (dw_int r mod 17 + 8) in [0, 0x23] @ put_be16 (word_of_nat n) @ randBytes r n)"

definition tls_packAuth :: "(bytes \<Rightarrow> bytes \<Rightarrow> bytes) \<Rightarrow> int \<Rightarrow> draw \<Rightarrow> tls_ticket \<Rightarrow> bytes" where
  "tls_packAuth sha now r t = (let d = put_be32 (word_of_int now) @ randBytes r 18 in d @ take 10 (tls_hmac sha t d))"

definition tls_extensions :: "draw \<Rightarrow> nat \<Rightarrow> tls_ticket \<Rightarrow> bytes" where
  "tls_extensions r pick t =
     [0xff, 0x01, 0x00, 0x01, 0x00] @ packSNIData (tls_getHost (tt_base t) pick) @ [0, 0x17, 0, 0] @ packTicketBuf r
     @ [0x00, 0x0d, 0x00, 0x16, 0x00, 0x14, 0x06, 0x01, 0x06, 0x03, 0x05, 0x01, 0x05, 0x03, 0x04, 0x01, 0x04, 0x03, 0x03, 0x01,
        0x03, 0x03, 0x02, 0x01, 0x02, 0x03]
     @ [0x00, 0x05, 0x00, 0x05, 0x01, 0x00, 0x00, 0x00, 0x00] @ [0x00, 0x12, 0x00, 0x00] @ [0x75, 0x50, 0x00, 0x00]
     @ [0x00, 0x0b, 0x00, 0x02, 0x01, 0x00] @ [0x00, 0x0a, 0x00, 0x06, 0x00, 0x04, 0x00, 0x17, 0x00, 0x18]"

definition tls_client_hello :: "(bytes \<Rightarrow> bytes \<Rightarrow> bytes) \<Rightarrow> int \<Rightarrow> draw \<Rightarrow> nat \<Rightarrow> tls_ticket \<Rightarrow> bytes" where
  "tls_client_hello sha now r pick t =
     (let ext = tls_extensions r pick t;
          data = [3, 3] @ tls_packAuth sha now r t @ [0x20] @ tt_clientID t
            @ [0x00, 0x1c, 0xc0, 0x2b, 0xc0, 0x2f, 0xcc, 0xa9, 0xcc, 0xa8, 0xcc, 0x14, 0xcc, 0x13, 0xc0, 0x0a, 0xc0, 0x14, 0xc0, 0x09,
               0xc0, 0x13, 0x00, 0x9c, 0x00, 0x35, 0x00, 0x2f, 0x00, 0x0a]
            @ [0x1, 0x0] @ put_be16 (word_of_nat (length ext)) @ ext
      in [0x16, 3, 1] @ put_be16 (word_of_nat (length data + 4)) @ [1, 0] @ put_be16 (word_of_nat (length data)) @ data)"

definition tls_finish :: "(bytes \<Rightarrow> bytes \<Rightarrow> bytes) \<Rightarrow> draw \<Rightarrow> tls_ticket \<Rightarrow> bytes" where
  "tls_finish sha r t =
     (let d = [0x14, 3, 3, 0, 1, 1, 0x16, 3, 3, 0, 0x20] @ randBytes r 22 in d @ take 10 (tls_hmac sha t d))"

text \<open>The records of a write after the handshake: while there are more than 2048 bytes left, a random size.\<close>

function tls_chunks :: "(nat \<Rightarrow> nat) \<Rightarrow> nat \<Rightarrow> bytes \<Rightarrow> bytes list" where
  "tls_chunks sizes i b =
     (if 2048 < length b then
        (let size = sizes i mod 4096 + 100; size = (if length b < size then length b else size)
         in take size b # tls_chunks sizes (Suc i) (drop size b))
      else if 0 < length b then [b] else [])"
  by pat_completeness auto
termination by (relation "measure (\<lambda>(sizes, i, b). length b)") (auto simp: Let_def)

declare tls_chunks.simps [simp del]

record tls_draw =
  td_draw :: draw
  td_host :: nat
  td_sizes :: "nat \<Rightarrow> nat"

definition tls_Write ::
  "(bytes \<Rightarrow> bytes \<Rightarrow> bytes) \<Rightarrow> int \<Rightarrow> tls_draw \<Rightarrow> bytes \<Rightarrow> tls_ticket \<times> conn \<Rightarrow> (nat \<times> gerr option) \<times> tls_ticket \<times> conn" where
  "tls_Write sha now r b = (\<lambda>(t, c).
     if tt_status t = 8 then
       (case put (concat (map tls_packData (tls_chunks (td_sizes r) 0 b))) c of
          (Some e, c') \<Rightarrow> ((0, Some e), t, c') | (None, c') \<Rightarrow> ((length b, None), t, c'))
     else let t1 = (if b \<noteq> [] then t\<lparr>tt_sendBuf := tt_sendBuf t @ tls_packData b\<rparr> else t) in
       if tt_status t1 = 0 then
         (case put (tls_client_hello sha now (td_draw r) (td_host r) t1) c of
            (Some e, c') \<Rightarrow> ((0, Some e), t1\<lparr>tt_status := 1\<rparr>, c') | (None, c') \<Rightarrow> ((length b, None), t1\<lparr>tt_status := 1\<rparr>, c'))
       else if tt_status t1 = 1 \<and> b = [] then
         (case put (tls_finish sha (td_draw r) t1 @ tt_sendBuf t1) c of
            (e, c') \<Rightarrow> ((0, e), t1\<lparr>tt_sendBuf := [], tt_status := 8\<rparr>, c'))
       else ((length b, None), t1, c))"

text \<open>What \<open>Read\<close> does with the answer of the server before the handshake is complete.\<close>

definition tls_verify :: "(bytes \<Rightarrow> bytes \<Rightarrow> bytes) \<Rightarrow> tls_ticket \<Rightarrow> bytes \<Rightarrow> gerr option" where
  "tls_verify sha t buf =
     (let n = length buf in
      if n < 11 + 32 + 1 + 32 then Some (Msg ''tls1.2_ticket_auth too short data'')
      else if take 10 (drop 33 buf) \<noteq> take 10 (tls_hmac sha t (take 22 (drop 11 buf)))
        \<or> drop (n - 10) buf \<noteq> take 10 (tls_hmac sha t (take (n - 10) buf))
      then Some (Msg ''tls1.2_ticket_auth hmac verifying failed'') else None)"

definition tls_Read ::
  "(bytes \<Rightarrow> bytes \<Rightarrow> bytes) \<Rightarrow> int \<Rightarrow> tls_draw \<Rightarrow> nat \<Rightarrow> (tls_ticket ssr_conn \<times> bytes list) \<times> conn
     \<Rightarrow> bytes res \<times> (tls_ticket ssr_conn \<times> bytes list) \<times> conn" where
  "tls_Read sha now r m = (\<lambda>((s, net), c).
     if cn_decoded s \<noteq> [] \<or> tt_status (cn_proto s) = 8
     then (case cn_Read (frames_decode (\<lambda>_. False) tls_step) m (s, net) of (x, s', net') \<Rightarrow> (x, (s', net'), c))
     else case net of
       [] \<Rightarrow> (Err EOF, (s, []), c)
     | buf # net' \<Rightarrow>
         (case tls_verify sha (cn_proto s) buf of
            Some e \<Rightarrow> (Err e, (s, net'), c)
          | None \<Rightarrow> (case tls_Write sha now r [] (cn_proto s, c) of (_, t', c') \<Rightarrow> (Ok [], (s\<lparr>cn_proto := t'\<rparr>, net'), c'))))"

end
