(* ===== verification/ObfsFacts.thy ===== *)
theory ObfsFacts
  imports SsrObfs "HOL-Library.Sublist"
begin

text \<open>
  The obfuscations lose and reorder nothing: what is written is on the wire in order behind the header or the handshake,
  and what the peer sends behind its own is handed out.
\<close>

lemma put_good: "wbad c = (\<lambda>_. False) \<Longrightarrow> put b c = (None, c\<lparr>wr := wr c @ [b]\<rparr>)"
  by (simp add: put_def io_write_def)

lemma sent_write [simp]: "sent (c\<lparr>wr := wr c @ [b]\<rparr>) = sent c @ b"
  by (simp add: sent_def)

lemma io_some_wire: "io_some m seg c = (x, c') \<Longrightarrow> sent c' = sent c \<and> wbad c' = wbad c"
  by (auto simp: sent_def io_some_def Let_def split: if_splits)

section \<open>random\_head\<close>

datatype rh_op = RhWrite draw bytes | RhRead draw nat nat

fun rh_op_step :: "rh_op \<Rightarrow> random_head \<times> conn \<Rightarrow> random_head \<times> conn" where
  "rh_op_step (RhWrite r b) w = snd (rh_Write r b w)"
| "rh_op_step (RhRead r m seg) w = snd (rh_Read r m seg w)"

fun rh_written :: "rh_op \<Rightarrow> bytes" where
  "rh_written (RhWrite r b) = b" | "rh_written (RhRead r m seg) = []"

definition rh_new :: random_head where
  "rh_new = \<lparr>rh_hasSentHeader = False, rh_rawTransSent = False, rh_rawTransRecv = False, rh_buf = []\<rparr>"

text \<open>Before the header nothing is on the wire; then the header and what was handed on.\<close>

definition rh_inv :: "bytes \<Rightarrow> random_head \<times> conn \<Rightarrow> bool" where
  "rh_inv data = (\<lambda>(s, c). wbad c = (\<lambda>_. False) \<and>
     (if rh_hasSentHeader s
      then \<exists>r x. sent c = random_header r @ x \<and> data = x @ rh_buf s
        \<and> (if rh_rawTransSent s then rh_buf s = [] \<and> rh_rawTransRecv s else x = [])
      else sent c = [] \<and> data = rh_buf s \<and> \<not> rh_rawTransSent s \<and> rh_buf s = []))"

lemma rh_Write_inv: "rh_inv data w \<Longrightarrow> rh_inv (data @ b) (snd (rh_Write r b w))"
  by (cases w) (auto simp: rh_inv_def rh_Write_def put_good Let_def split: if_splits)

lemma rh_inv_rd:
  "rh_inv data (s, c) \<Longrightarrow> io_some m seg c = (x, c') \<Longrightarrow> rh_inv data (s, c')"
  by (drule io_some_wire) (simp add: rh_inv_def)

lemma rh_inv_recv: "rh_inv data (s, c) \<Longrightarrow> rh_inv data (s\<lparr>rh_rawTransRecv := True\<rparr>, c)"
  by (auto simp: rh_inv_def split: if_splits)

lemma rh_Read_inv: "rh_inv data w \<Longrightarrow> rh_inv data (snd (rh_Read r m seg w))"
proof (cases w)
  case (Pair s c)
  assume i: "rh_inv data w"
  show ?thesis
  proof (cases "rh_rawTransRecv s")
    case True
    then show ?thesis using i rh_inv_rd by (auto simp: Pair rh_Read_def split: prod.splits)
  next
    case False
    obtain x c' where x: "io_some (20 * 1024) seg c = (x, c')" by (cases "io_some (20 * 1024) seg c")
    have "rh_inv data (s\<lparr>rh_rawTransRecv := True\<rparr>, c')"
      using rh_inv_recv [OF rh_inv_rd [OF _ x]] i Pair by simp
    from rh_Write_inv [OF this, of "[]" r] show ?thesis
      using False x by (simp add: Pair rh_Read_def case_prod_beta)
  qed
qed

lemma rh_run_inv: "rh_inv data w \<Longrightarrow> rh_inv (data @ concat (map rh_written ops)) (fold rh_op_step ops w)"
proof (induction ops arbitrary: data w)
  case (Cons x ops)
  have "rh_inv (data @ rh_written x) (rh_op_step x w)"
    using rh_Write_inv [OF Cons.prems] rh_Read_inv [OF Cons.prems] by (cases x) auto
  from Cons.IH [OF this] show ?case by simp
qed simp

lemma random_header_nonempty: "random_header r \<noteq> []"
  by (simp add: random_header_def Let_def randBytes_def)

text \<open>Over \<open>random_head\<close> nothing is lost, repeated or reordered. Whatever writes and reads are made, in any order, the
  wire holds one random header with its checksum and then what was written up to some point; the rest waits in the
  buffer, which is empty from the first write after the answer of the peer on.\<close>

theorem random_head_in_order:
  assumes "fold rh_op_step ops (rh_new, mk_conn inp) = (s, c)"
  shows "(sent c = [] \<or> (\<exists>r x. sent c = random_header r @ x \<and> concat (map rh_written ops) = x @ rh_buf s))
    \<and> (sent c = [] \<longrightarrow> concat (map rh_written ops) = []) \<and> (rh_rawTransSent s \<longrightarrow> rh_buf s = [])"
proof -
  have "rh_inv [] (rh_new, mk_conn inp)" by (simp add: rh_inv_def rh_new_def mk_conn_def sent_def)
  from rh_run_inv [OF this, of ops] show ?thesis
    using random_header_nonempty by (auto simp: rh_inv_def assms split: if_splits) (metis random_header_nonempty)+
qed

definition sample_rh :: "random_head \<times> conn" where
  "sample_rh = fold rh_op_step [RhWrite sample_draw [1, 2], RhRead sample_draw 10 10, RhWrite sample_draw [3]] (rh_new, mk_conn [9])"

theorem random_head_in_order_witness:
  "\<exists>r x. sent (snd sample_rh) = random_header r @ x \<and> [1, 2, 3] = x @ rh_buf (fst sample_rh)"
  using random_head_in_order [of "[RhWrite sample_draw [1, 2], RhRead sample_draw 10 10, RhWrite sample_draw [3]]" "[9]"
      "fst sample_rh" "snd sample_rh"]
  by (simp only: sample_rh_def prod.collapse) auto

section \<open>Records\<close>

interpretation tls: frame_decoder "\<lambda>_. False" tls_step
proof
  fix st st' :: tls_ticket and src out t n e
  show "0 < n \<and> n \<le> length src \<and> False = False" if "tls_step st src = Took n out st'"
    using that by (auto simp: tls_step_def Let_def split: if_splits)
  show "tls_step st (src @ t) = Took n out st'" if "tls_step st src = Took n out st'"
    using that by (auto simp: tls_step_def Let_def get_take_append split: if_splits)
  show "tls_step st (src @ t) = Fails e st'" if "tls_step st src = Fails e st'"
    using that by (auto simp: tls_step_def Let_def split: if_splits)
  show "tls_step st' (src @ t) = tls_step st (src @ t) \<and> False = False" if "tls_step st src = NeedMore st'"
    using that by (auto simp: tls_step_def Let_def split: if_splits)
qed

definition record_fit :: "bytes \<Rightarrow> bool" where
  "record_fit d \<longleftrightarrow> d \<noteq> [] \<and> length d < 65536"

interpretation tls_peer: frame_codec "\<lambda>_. False" tls_step "\<lambda>t d. (tls_packData d, t)" "\<lambda>t d. d" "\<lambda>t. record_fit"
  "\<lambda>(tx :: tls_ticket) st. True"
proof
  show "\<exists>st'. tls_step st (p @ t) = Took (length p) d st' \<and> True" if "record_fit d" "(tls_packData d, tx) = (p, tx')"
    for tx tx' :: tls_ticket and st d p t
  proof -
    have "p = [0x17, 3, 3] @ put_be16 (word_of_nat (length d)) @ d" "unat (word_of_nat (length d) :: 16 word) = length d"
      using that by (auto simp: tls_packData_def record_fit_def unat_of_nat)
    then show ?thesis using that(1) by (auto simp: tls_step_def record_fit_def Let_def)
  qed
qed (simp_all add: tls_step_def)

lemma tls_chunks_fit: "d \<in> set (tls_chunks sizes i b) \<Longrightarrow> record_fit d"
proof (induction sizes i b rule: tls_chunks.induct)
  case (1 sizes i b)
  have "sizes i mod 4096 < 4096" by simp
  then have "sizes i mod 4096 + 100 < 65536" by linarith
  then show ?case
    using 1 unfolding tls_chunks.simps [of sizes i b] by (auto simp: record_fit_def Let_def split: if_splits)
qed

lemma concat_tls_chunks [simp]: "concat (tls_chunks sizes i b) = b"
proof (induction sizes i b rule: tls_chunks.induct)
  case (1 sizes i b)
  then show ?case by (subst tls_chunks.simps) (auto simp: Let_def)
qed

lemma tls_pack_all: "tls_peer.pack_all t ds = (concat (map tls_packData ds), concat ds, t)"
  by (induction ds) auto

lemma tls_decode_records:
  "\<forall>d \<in> set ds. record_fit d \<Longrightarrow> \<exists>st'. tls.decode st (concat (map tls_packData ds)) dst = (None, st', [], dst @ concat ds)"
  using tls_peer.decode_packed [where tx = t and tx' = t and st = st and ds = ds and ps = "concat (map tls_packData ds)"
    and data = "concat ds" and dst = dst]
  by (simp add: tls_pack_all tls_peer.all_fitI)

section \<open>tls1.2\_ticket\_auth\<close>

datatype tls_op = TlsWrite int tls_draw bytes | TlsRead int tls_draw nat

type_synonym tls_world = "(tls_ticket ssr_conn \<times> bytes list) \<times> conn"

fun tls_op_step :: "(bytes \<Rightarrow> bytes \<Rightarrow> bytes) \<Rightarrow> tls_op \<Rightarrow> tls_world \<Rightarrow> tls_world" where
  "tls_op_step sha (TlsWrite now r b) ((s, net), c) =
     (case tls_Write sha now r b (cn_proto s, c) of (_, t, c') \<Rightarrow> ((s\<lparr>cn_proto := t\<rparr>, net), c'))"
| "tls_op_step sha (TlsRead now r m) w = snd (tls_Read sha now r m w)"

fun tls_written :: "tls_op \<Rightarrow> bytes" where
  "tls_written (TlsWrite now r b) = b" | "tls_written (TlsRead now r m) = []"

definition tls_new :: "obfs_base \<Rightarrow> bytes \<Rightarrow> tls_ticket" where
  "tls_new base clientID = \<lparr>tt_base = base, tt_clientID = clientID, tt_status = 0, tt_sendBuf = []\<rparr>"

definition records :: "bytes list \<Rightarrow> bytes" where
  "records ds = concat (map tls_packData ds)"

definition is_hello :: "(bytes \<Rightarrow> bytes \<Rightarrow> bytes) \<Rightarrow> bytes \<Rightarrow> bool" where
  "is_hello sha w \<longleftrightarrow> (\<exists>now r pick t. w = tls_client_hello sha now r pick t)"

definition is_handshake :: "(bytes \<Rightarrow> bytes \<Rightarrow> bytes) \<Rightarrow> bytes \<Rightarrow> bool" where
  "is_handshake sha w \<longleftrightarrow> (\<exists>h r t. is_hello sha h \<and> w = h @ tls_finish sha r t)"

lemma helloI [intro]: "is_hello sha (tls_client_hello sha now r pick t)"
  by (auto simp: is_hello_def)

lemma handshakeI [intro]: "is_hello sha h \<Longrightarrow> is_handshake sha (h @ tls_finish sha r t)"
  by (auto simp: is_handshake_def)

text \<open>What is on the wire and in the buffer in the three states of the handshake.\<close>

definition tls_inv :: "(bytes \<Rightarrow> bytes \<Rightarrow> bytes) \<Rightarrow> bytes \<Rightarrow> tls_ticket \<times> conn \<Rightarrow> bool" where
  "tls_inv sha data = (\<lambda>(t, c). wbad c = (\<lambda>_. False) \<and> (\<exists>ds. (\<forall>d \<in> set ds. record_fit d) \<and> concat ds = data \<and>
     (if tt_status t = 0 then sent c = [] \<and> tt_sendBuf t = records ds
      else if tt_status t = 1 then is_hello sha (sent c) \<and> tt_sendBuf t = records ds
      else tt_status t = 8 \<and> tt_sendBuf t = [] \<and> (\<exists>h. is_handshake sha h \<and> sent c = h @ records ds))))"

lemma records_simps [simp]: "records [] = []" "records (ds @ es) = records ds @ records es" "records [d] = tls_packData d"
  by (simp_all add: records_def)

lemma tls_inv_write:
  assumes "tls_inv sha data (t, c)" "tt_status t = 8 \<or> length b < 65536"
  shows "tls_inv sha (data @ b) (snd (tls_Write sha now r b (t, c)))"
proof -
  obtain ds where ds: "\<forall>d \<in> set ds. record_fit d" "concat ds = data" and bad: "wbad c = (\<lambda>_. False)"
    and st: "if tt_status t = 0 then sent c = [] \<and> tt_sendBuf t = records ds
      else if tt_status t = 1 then is_hello sha (sent c) \<and> tt_sendBuf t = records ds
      else tt_status t = 8 \<and> tt_sendBuf t = [] \<and> (\<exists>h. is_handshake sha h \<and> sent c = h @ records ds)"
    using assms(1) by (auto simp: tls_inv_def)
  show ?thesis
  proof (cases "tt_status t = 8")
    case True
    let ?es = "ds @ tls_chunks (td_sizes r) 0 b"
    have "\<forall>d \<in> set ?es. record_fit d" "concat ?es = data @ b" using ds tls_chunks_fit by auto
    then show ?thesis
      using True st bad unfolding tls_inv_def by (auto simp: tls_Write_def put_good records_def intro!: exI [of _ ?es])
  next
    case False
    let ?es = "if b = [] then ds else ds @ [b]"
    have es: "\<forall>d \<in> set ?es. record_fit d" "concat ?es = data @ b" "records ?es = records ds @ (if b = [] then [] else tls_packData b)"
      using ds assms(2) False by (auto simp: record_fit_def)
    have "tt_status t = 0 \<or> tt_status t = 1" using False st by (auto split: if_splits)
    then show ?thesis
    proof
      assume s: "tt_status t = 0"
      then show ?thesis
        using es st bad
        by (auto simp: tls_inv_def tls_Write_def put_good Let_def intro!: exI [of _ ?es])
    next
      assume s: "tt_status t = 1"
      then show ?thesis
        using es st bad by (cases "b = []") (auto simp: tls_inv_def tls_Write_def put_good Let_def intro!: exI [of _ ?es])
    qed
  qed
qed

lemma tls_step_state: "tls_step t src = NeedMore t' \<Longrightarrow> t' = t" "tls_step t src = Took n out t' \<Longrightarrow> t' = t"
  "tls_step t src = Fails e t' \<Longrightarrow> t' = t"
  by (auto simp: tls_step_def Let_def split: if_splits)

lemma tls_loop_state: "decode_loop tls_step f t src dst = (e, t', rest, out) \<Longrightarrow> t' = t"
  by (induction f arbitrary: src dst) (auto split: frame_step.splits dest: tls_step_state)

lemma tls_cn_Read_state: "cn_Read (frames_decode (\<lambda>_. False) tls_step) m (s, net) = (x, s', net') \<Longrightarrow> cn_proto s' = cn_proto s"
  by (auto simp: cn_Read_def frames_decode_def simp del: decode_loop.simps split: if_splits list.splits prod.splits option.splits dest: tls_loop_state)

lemma tls_inv_step:
  assumes "tls_inv sha data (cn_proto s, c)" "length (tls_written op1) < 65536" "tls_op_step sha op1 ((s, net), c) = ((s', net'), c')"
  shows "tls_inv sha (data @ tls_written op1) (cn_proto s', c')"
proof (cases op1)
  case (TlsWrite now r b)
  obtain n t c1 where w: "tls_Write sha now r b (cn_proto s, c) = (n, t, c1)" by (metis surj_pair)
  have "s' = s\<lparr>cn_proto := t\<rparr>" "c' = c1" using assms(3) w by (simp_all add: TlsWrite)
  then show ?thesis using tls_inv_write [OF assms(1), of b now r] assms(2) w by (simp add: TlsWrite)
next
  case (TlsRead now r m)
  obtain n t c1 where w: "tls_Write sha now r [] (cn_proto s, c) = (n, t, c1)" by (metis surj_pair)
  have i: "tls_inv sha data (t, c1)" using tls_inv_write [OF assms(1), of "[]" now r] w by simp
  show ?thesis
    using assms(1,3) i w
    by (auto simp: TlsRead tls_Read_def split: if_splits prod.splits list.splits option.splits dest: tls_cn_Read_state)
qed

lemma tls_inv_run:
  "tls_inv sha data (cn_proto s, c) \<Longrightarrow> \<forall>x \<in> set ops. length (tls_written x) < 65536
    \<Longrightarrow> fold (tls_op_step sha) ops ((s, net), c) = ((s', net'), c') \<Longrightarrow> tls_inv sha (data @ concat (map tls_written ops)) (cn_proto s', c')"
proof (induction ops arbitrary: data s net c)
  case (Cons x ops)
  obtain s1 net1 c1 where st: "tls_op_step sha x ((s, net), c) = ((s1, net1), c1)" by (metis surj_pair)
  from Cons.IH [OF tls_inv_step [OF Cons.prems(1) _ st]] Cons.prems(2,3) st show ?case by simp
qed simp

text \<open>Over \<open>tls1.2_ticket_auth\<close> nothing is lost or reordered. Whatever is written and read, before, during and after the
  handshake, the wire holds a ClientHello, the end of the handshake and then records from which the peer decodes exactly
  what was written, in order; until then what was written waits in the buffer. No write is of 65536 bytes or more.\<close>

theorem tls_ticket_in_order:
  assumes "\<forall>x \<in> set ops. length (tls_written x) < 65536" "tt_status (cn_proto s) = 8"
    "fold (tls_op_step sha) ops ((\<lparr>cn_proto = tls_new base clientID, cn_decoded = [], cn_under = []\<rparr>, net), mk_conn inp) = ((s, net'), c)"
  shows "\<exists>h wire. is_handshake sha h \<and> sent c = h @ wire
    \<and> frames_decode (\<lambda>_. False) tls_step t wire [] = (None, t, [], concat (map tls_written ops))"
proof -
  have "tls_inv sha [] (cn_proto \<lparr>cn_proto = tls_new base clientID, cn_decoded = [], cn_under = []\<rparr>, mk_conn inp)"
    by (auto simp: tls_inv_def tls_new_def mk_conn_def sent_def intro!: exI [of _ "[]"])
  from tls_inv_run [OF this assms(1,3)] obtain ds where
    ds: "\<forall>d \<in> set ds. record_fit d" "concat ds = concat (map tls_written ops)"
      "\<exists>h. is_handshake sha h \<and> sent c = h @ records ds"
    using assms(2) by (auto simp: tls_inv_def)
  obtain t2 where d: "frames_decode (\<lambda>_. False) tls_step t (records ds) [] = (None, t2, [], concat ds)"
    using tls_decode_records [OF ds(1), of t "[]"] by (auto simp: records_def)
  then have "t2 = t" by (auto simp: frames_decode_def simp del: decode_loop.simps dest: tls_loop_state)
  then show ?thesis using ds d by auto
qed

definition zero_mac :: "bytes \<Rightarrow> bytes \<Rightarrow> bytes" where
  "zero_mac k x = replicate 20 0"

definition sample_base :: obfs_base where
  "sample_base = \<lparr>ob_host = ''h.org'', ob_port = 8080, ob_key = [1], ob_ivSize = 16, ob_param = []\<rparr>"

definition sample_td :: tls_draw where
  "sample_td = \<lparr>td_draw = sample_draw, td_host = 0, td_sizes = (\<lambda>i. i)\<rparr>"

definition sample_tls :: tls_world where
  "sample_tls = fold (tls_op_step zero_mac) [TlsWrite 0 sample_td [1, 2], TlsRead 0 sample_td 10, TlsWrite 0 sample_td [3]]
     ((\<lparr>cn_proto = tls_new sample_base (replicate 32 5), cn_decoded = [], cn_under = []\<rparr>, [replicate 76 0]), mk_conn [])"

theorem tls_ticket_in_order_witness:
  "\<exists>h wire. is_handshake zero_mac h \<and> sent (snd sample_tls) = h @ wire
    \<and> frames_decode (\<lambda>_. False) tls_step (tls_new sample_base []) wire [] = (None, tls_new sample_base [], [], [1, 2, 3])"
proof -
  have "wbad (mk_conn []) = (\<lambda>_. False)" by (simp add: mk_conn_def)
  then have "tt_status (cn_proto (fst (fst sample_tls))) = 8"
    by (simp add: sample_tls_def tls_Write_def tls_Read_def tls_verify_def tls_hmac_def tls_new_def put_good zero_mac_def Let_def
      numeral_eq_Suc)
  moreover have "sample_tls = ((fst (fst sample_tls), snd (fst sample_tls)), snd sample_tls)" by simp
  ultimately have "\<exists>h wire. is_handshake zero_mac h \<and> sent (snd sample_tls) = h @ wire
    \<and> frames_decode (\<lambda>_. False) tls_step (tls_new sample_base []) wire [] = (None, tls_new sample_base [], [],
        concat (map tls_written [TlsWrite 0 sample_td [1, 2], TlsRead 0 sample_td 10, TlsWrite 0 sample_td [3]]))"
    by (intro tls_ticket_in_order [where s = "fst (fst sample_tls)" and base = sample_base and clientID = "replicate 32 5"
        and net = "[replicate 76 0]" and inp = "[]" and net' = "snd (fst sample_tls)"])
      (simp, assumption, simp only: sample_tls_def [symmetric])
  then show ?thesis by simp
qed

text \<open>A longer write before the handshake gets a length of its size modulo 65536.\<close>

lemma tls_oversized_record: "length b = 65536 \<Longrightarrow> tls_step t (tls_packData b @ x) = Took 5 [] t"
  by (simp add: tls_step_def tls_packData_def Let_def)

section \<open>The ClientHello\<close>

lemma length_tls_extensions:
  "length (tls_extensions r pick t) = 5 + (9 + length (tls_getHost (tt_base t) pick)) + 4 + (4 + 16 * (dw_int r mod 17 + 8)) + 59"
  by (simp add: tls_extensions_def packSNIData_def packTicketBuf_def Let_def)

text \<open>The three lengths of the ClientHello are right: that of the record, that of the handshake message and that of the
  extensions, for every host name that fits and whatever the random choices are.\<close>

theorem tls_hello_lengths:
  assumes "length (tt_clientID t) = 32" "\<And>k x. 10 \<le> length (sha k x)" "length (tls_getHost (tt_base t) pick) < 60000"
  shows "let hello = tls_client_hello sha now r pick t in
    unat (get_be16 (drop 3 hello)) + 5 = length hello \<and> unat (get_be16 (drop 7 hello)) + 9 = length hello
    \<and> unat (get_be16 (drop 108 hello)) + 110 = length hello \<and> drop 110 hello = tls_extensions r pick t"
proof -
  define ext where "ext = tls_extensions r pick t"
  define auth where "auth = tls_packAuth sha now r t"
  have "dw_int r mod 17 < 17" by simp
  then have e: "length ext < 60500" using assms(3) by (simp add: ext_def length_tls_extensions)
  have a: "length auth = 32"
    using assms(2) by (simp add: auth_def tls_packAuth_def tls_hmac_def Let_def min_absorb2)
  have u: "unat (word_of_nat n :: 16 word) = n" if "n < 65536" for n using that by (simp add: unat_of_nat)
  show ?thesis
    unfolding Let_def tls_client_hello_def ext_def [symmetric] auth_def [symmetric]
    using e a assms(1) by (simp add: u del: of_nat_add of_nat_Suc of_nat_numeral)
qed

theorem tls_hello_lengths_witness:
  "let hello = tls_client_hello zero_mac 0 sample_draw 0 (tls_new sample_base (replicate 32 5)) in
    unat (get_be16 (drop 3 hello)) + 5 = length hello"
  using tls_hello_lengths [of "tls_new sample_base (replicate 32 5)" zero_mac 0 0 sample_draw]
  by (simp add: tls_new_def zero_mac_def sample_base_def tls_getHost_def is_digit_def Let_def)

section \<open>http\_simple\<close>

text \<open>How a peer reads the data in the request line: pairs of hexadecimal digits behind percent signs.\<close>

fun url_decode :: "string \<Rightarrow> bytes option" where
  "url_decode [] = Some []"
| "url_decode (c # a # b # s) =
     (if c \<noteq> CHR ''%'' then None
      else case (hex_val a, hex_val b) of
        (Some x, Some y) \<Rightarrow> map_option ((#) (word_of_nat (x * 16 + y))) (url_decode s)
      | _ \<Rightarrow> None)"
| "url_decode _ = None"

lemma hex_val_char: "unat n < 16 \<Longrightarrow> hex_val (hex_char n) = Some (unat n)"
  by (simp add: hex_char_def hex_val_digit flip: hex_digits_def)

lemma hex_halves:
  fixes b :: byte
  shows "unat (drop_bit 4 b) = unat b div 16" "unat (b AND 15) = unat b mod 16"
proof -
  have "unat b < 2 ^ 8" using unsigned_less [of b, where ?'a = nat] by simp
  then have "take_bit 8 (unat b) = unat b" by (simp add: take_bit_nat_eq_self)
  then show "unat (drop_bit 4 b) = unat b div 16" by (simp only: unsigned_drop_bit_eq) (simp add: drop_bit_eq_div)
  have "b AND 15 = take_bit 4 b" by (simp add: take_bit_eq_mask mask_eq_exp_minus_1)
  then show "unat (b AND 15) = unat b mod 16" by (simp only: unsigned_take_bit_eq) (simp add: take_bit_eq_mod)
qed

lemma url_roundtrip: "url_decode (packURLEncodedHeadData d) = Some d"
proof (induction d)
  case (Cons b d)
  have "unat b < 256" using unsigned_less [of b, where ?'a = nat] by simp
  then have h: "hex_val (hex_char (drop_bit 4 b)) = Some (unat b div 16)" "hex_val (hex_char (b AND 15)) = Some (unat b mod 16)"
    by (simp_all add: hex_val_char hex_halves)
  have "(word_of_nat (unat b div 16 * 16 + unat b mod 16) :: byte) = b" by (simp only: div_mult_mod_eq) simp
  then show ?case using Cons.IH h by (simp add: packURLEncodedHeadData_def del: of_nat_add of_nat_mult)
qed (simp add: packURLEncodedHeadData_def)

lemma hex_char_plain: "unat n < 16 \<Longrightarrow> CHR '' '' \<noteq> hex_char n"
proof -
  have "hex_val (CHR '' '') = None" by (simp add: hex_val_def Let_def)
  then show "unat n < 16 \<Longrightarrow> CHR '' '' \<noteq> hex_char n" using hex_val_char [of n] by (metis option.distinct(1))
qed

lemma url_no_space: "CHR '' '' \<notin> set (packURLEncodedHeadData d)"
proof -
  have "CHR '' '' \<noteq> hex_char (drop_bit 4 b)" "CHR '' '' \<noteq> hex_char (b AND 15)" for b :: byte
    using unsigned_less [of b, where ?'a = nat] by (auto intro!: hex_char_plain simp: hex_halves)
  then show ?thesis by (induction d) (auto simp: packURLEncodedHeadData_def)
qed

lemma ho_fields_shape: obtains fields where "ho_fields agents h p = CHR '' '' # fields @ crlf @ crlf"
proof -
  obtain host body where hb: "ho_host_body (ho_base h) = (host, body)" by (cases "ho_host_body (ho_base h)")
  have "suffix (crlf @ crlf) (ho_fields agents h p)"
    unfolding ho_fields_def hb Let_def prod.case
    by (cases "body = []") (simp_all only: if_True if_False simp_thms, (intro suffix_appendI suffix_order.order_refl)+)
  moreover have "ho_fields agents h p \<noteq> []" "hd (ho_fields agents h p) = CHR '' ''" by (simp_all add: ho_fields_def hb Let_def)
  then obtain x where x: "ho_fields agents h p = CHR '' '' # x" by (metis list.collapse)
  ultimately have "suffix (crlf @ crlf) x" by (auto simp: suffix_Cons crlf_def)
  then show thesis using that x by (auto simp: suffix_def)
qed

text \<open>The first write of \<open>http_simple\<close> and \<open>http_post\<close> is a request from whose path the peer reads the first bytes of
  the data, and behind whose fields, which end with an empty line, the others follow unchanged; later writes are not
  touched. So the peer gets every byte once and in order.\<close>

theorem http_obfs_in_order:
  assumes "\<not> ho_hasSentHeader h" "wbad c = (\<lambda>_. False)"
    "ho_Write agents p b (h, c) = (r, h1, c1)" "ho_Write agents q b2 (h1, c1) = (r2, h2, c2)"
  shows "\<exists>path fields rest body. url_decode path = Some body \<and> body @ rest = b \<and> CHR '' '' \<notin> set path
    \<and> sent c2 = sent c @ s2b ((if ho_post h then ''POST /'' else ''GET /'') @ path @ CHR '' '' # fields @ crlf @ crlf) @ rest @ b2
    \<and> r = (length b, None) \<and> r2 = (length b2, None)"
proof -
  define n where "n = ho_headDataLength (ho_base h) p b"
  obtain fields where f: "ho_fields agents h p = CHR '' '' # fields @ crlf @ crlf" by (rule ho_fields_shape)
  have r: "sent c2 = sent c @ s2b ((if ho_post h then ''POST /'' else ''GET /'') @ packURLEncodedHeadData (take n b)
      @ CHR '' '' # fields @ crlf @ crlf) @ drop n b @ b2" "r = (length b, None)" "r2 = (length b2, None)"
    using assms by (auto simp: ho_Write_def put_good Let_def f n_def sent_def)
  have "take n b @ drop n b = b" by simp
  then show ?thesis using r url_roundtrip [of "take n b"] url_no_space [of "take n b"] by blast
qed

definition sample_http :: http_obfs where
  "sample_http = \<lparr>ho_base = sample_base, ho_post = True, ho_hasSentHeader = False, ho_hasRecvHeader = False, ho_buf = None\<rparr>"

definition sample_picks :: http_picks where
  "sample_picks = \<lparr>hp_head = 7, hp_host = 0, hp_agent = 0, hp_boundary = (\<lambda>i. i)\<rparr>"

theorem http_obfs_in_order_witness:
  "\<exists>path fields rest body. url_decode path = Some body \<and> body @ rest = replicate 200 5 \<and> CHR '' '' \<notin> set path
    \<and> sent (snd (snd (ho_Write [''curl''] sample_picks [6] (snd (ho_Write [''curl''] sample_picks (replicate 200 5)
        (sample_http, mk_conn [])))))) = s2b (''POST /'' @ path @ CHR '' '' # fields @ crlf @ crlf) @ rest @ [6]"
proof -
  let ?w = "ho_Write [''curl''] sample_picks (replicate 200 5) (sample_http, mk_conn [])"
  let ?v = "ho_Write [''curl''] sample_picks [6] (fst (snd ?w), snd (snd ?w))"
  have "\<not> ho_hasSentHeader sample_http" "ho_post sample_http" "wbad (mk_conn []) = (\<lambda>_. False)" "sent (mk_conn []) = []"
    by (simp_all add: sample_http_def mk_conn_def sent_def)
  then show ?thesis
    using http_obfs_in_order [of sample_http "mk_conn []" "[''curl'']" sample_picks "replicate 200 5" "fst ?w" "fst (snd ?w)"
      "snd (snd ?w)" sample_picks "[6]" "fst ?v" "fst (snd ?v)" "snd (snd ?v)"]
    by (simp only: prod.collapse if_True self_append_conv2 append_Nil simp_thms) blast
qed

section \<open>The answer of http\_simple\<close>

text \<open>Successive reads.\<close>

fun ho_reads :: "nat list \<Rightarrow> http_obfs \<times> bytes list \<Rightarrow> bytes res list \<times> http_obfs \<times> bytes list" where
  "ho_reads [] w = ([], w)"
| "ho_reads (m # ms) w = (case ho_Read m w of (x, w1) \<Rightarrow> (case ho_reads ms w1 of (xs, w2) \<Rightarrow> (x # xs, w2)))"

definition ho_out :: "bytes res list \<Rightarrow> bytes" where
  "ho_out xs = concat (map (\<lambda>x. case x of Ok d \<Rightarrow> d | Err e \<Rightarrow> []) xs)"

definition ho_pending :: "http_obfs \<times> bytes list \<Rightarrow> bytes" where
  "ho_pending w = (case ho_buf (fst w) of None \<Rightarrow> [] | Some d \<Rightarrow> d) @ concat (snd w)"

lemma ho_Read_pending:
  "ho_hasRecvHeader (fst w) \<Longrightarrow> ho_Read m w = (x, w1) \<Longrightarrow> ho_hasRecvHeader (fst w1) \<and> ho_pending w = ho_out [x] @ ho_pending w1"
  by (cases w) (auto simp: ho_Read_def ho_pending_def ho_out_def split: option.splits list.splits if_splits)

lemma ho_reads_pending:
  "ho_hasRecvHeader (fst w) \<Longrightarrow> ho_reads ms w = (xs, w1) \<Longrightarrow> ho_pending w = ho_out xs @ ho_pending w1"
proof (induction ms arbitrary: w xs)
  case (Cons m ms)
  then show ?case using ho_Read_pending [of w m] by (fastforce simp: ho_out_def split: prod.splits)
qed (simp add: ho_out_def)

text \<open>When the first segment of the answer holds the whole header, reads of any sizes hand out what is behind the header
  and behind it in later segments, in order and without loss: what they return followed by what is still pending is
  everything behind the first empty line. When the segment does not hold the end of the header, the read fails.\<close>

theorem http_answer_in_order:
  assumes "\<not> ho_hasRecvHeader h" "ho_buf h = None" "ho_reads (m # ms) (h, seg # net) = (xs, w)"
  shows "case str_index seg (s2b (crlf @ crlf)) of
      Some pos \<Rightarrow> drop (pos + 4) seg @ concat net = ho_out xs @ ho_pending w
    | None \<Rightarrow> hd xs = Err EOF"
proof (cases "str_index seg (s2b (crlf @ crlf))")
  case None
  then show ?thesis using assms by (auto simp: ho_Read_def split: prod.splits)
next
  case (Some pos)
  obtain x w1 ys where x: "ho_Read m (h, seg # net) = (x, w1)" "ho_reads ms w1 = (ys, w)" "xs = x # ys"
    using assms(3) by (auto split: prod.splits)
  then have "ho_hasRecvHeader (fst w1)" "drop (pos + 4) seg @ concat net = ho_out [x] @ ho_pending w1"
    using Some assms(1,2) by (auto simp: ho_Read_def ho_pending_def ho_out_def Let_def add.commute [of 4] simp flip: drop_drop)
  then show ?thesis using Some ho_reads_pending [OF _ x(2)] x(3) by (simp add: ho_out_def)
qed

theorem http_answer_in_order_witness:
  "ho_reads [1, 5] (sample_http, [s2b (''HTTP'' @ crlf @ crlf @ ''abc''), s2b ''de'']) =
      ([Ok (s2b ''a''), Ok (s2b ''bc'')], sample_http\<lparr>ho_hasRecvHeader := True\<rparr>, [s2b ''de''])
    \<and> s2b ''abcde'' = ho_out [Ok (s2b ''a''), Ok (s2b ''bc'')] @ ho_pending (sample_http, [s2b ''de''])"
proof -
  let ?seg = "s2b (''HTTP'' @ crlf @ crlf @ ''abc'')"
  have i: "str_index ?seg (s2b (crlf @ crlf)) = Some 4" by (simp add: crlf_def s2b_def has_prefix_def)
  have r: "ho_reads [1, 5] (sample_http, [?seg, s2b ''de'']) =
      ([Ok (s2b ''a''), Ok (s2b ''bc'')], sample_http\<lparr>ho_hasRecvHeader := True\<rparr>, [s2b ''de''])"
    using i by (simp add: ho_Read_def sample_http_def crlf_def s2b_def)
  show ?thesis
    using http_answer_in_order [OF _ _ r] r i by (simp add: sample_http_def crlf_def s2b_def ho_pending_def)
qed

end
