(* ===== verification/AnyPipe.thy ===== *)
theory AnyPipe
  imports Prelude
begin

text \<open>
  \<open>transport/anytls/pipe\<close>: the synchronous pipe with deadlines (\<open>io_pipe.go\<close>, \<open>deadline.go\<close>). Any number of goroutines
  call \<open>read\<close> and \<open>write\<close>; every point where one of them can block is a state of its own, and \<open>pstep\<close> is what the
  scheduler can do next. A channel of a deadline is a number. The clock is not modelled: a timer that was set may fire at
  any time.
\<close>

section \<open>Deadlines\<close>

datatype timer = NoTimer | Pending | Fired

record deadline =
  dl_timer :: timer
  dl_cancel :: nat
  dl_closed :: "nat set"

definition makePipeDeadline :: deadline where
  "makePipeDeadline = \<lparr>dl_timer = NoTimer, dl_cancel = 0, dl_closed = {}\<rparr>"

abbreviation expired :: "deadline \<Rightarrow> bool" where
  "expired d \<equiv> dl_cancel d \<in> dl_closed d"

definition close_cancel :: "deadline \<Rightarrow> deadline" where
  "close_cancel d = d\<lparr>dl_closed := insert (dl_cancel d) (dl_closed d)\<rparr>"

text \<open>\<open>if closed { d.cancel = make(chan struct{}) }\<close>\<close>

definition renew :: "deadline \<Rightarrow> deadline" where
  "renew d = (if expired d then d\<lparr>dl_cancel := Suc (dl_cancel d)\<rparr> else d)"

text \<open>\<open>Set\<close>; the argument is the time left, \<open>None\<close> for the zero time. A timer that has fired has closed its channel.\<close>

definition dl_Set :: "int option \<Rightarrow> deadline \<Rightarrow> deadline" where
  "dl_Set t d = (let d = d\<lparr>dl_timer := NoTimer\<rparr> in
     case t of
       None \<Rightarrow> renew d
     | Some dur \<Rightarrow>
         if 0 < dur then (renew d)\<lparr>dl_timer := Pending\<rparr> else if expired d then d else close_cancel d)"

definition dl_fire :: "deadline \<Rightarrow> deadline" where
  "dl_fire d = (close_cancel d)\<lparr>dl_timer := Fired\<rparr>"

section \<open>The pipe\<close>

text \<open>A reader is idle, waits in the second \<open>select\<close> with a buffer of \<open>m\<close> bytes and the channel it got from \<open>Wait\<close>, or has
  copied data and hands its size to the writer. A writer is idle, waits for the mutex, waits in the \<open>select\<close> of its loop,
  waits for the size, or is about to return; it wants to write \<open>b\<close> and has written \<open>n\<close> bytes of it.\<close>

datatype reader = RIdle | RWait nat nat | RGot bytes

datatype writer = WIdle | WLock bytes | WLoop bytes nat nat | WSize bytes nat | WRet bytes nat "gerr option"

record pipe =
  pp_done :: bool
  pp_rerr :: "gerr option"
  pp_werr :: "gerr option"
  pp_rdl :: deadline
  pp_wdl :: deadline
  pp_wrMu :: "nat option"
  pp_readers :: "nat \<Rightarrow> reader"
  pp_writers :: "nat \<Rightarrow> writer"

definition newPipe :: pipe where
  "newPipe = \<lparr>pp_done = False, pp_rerr = None, pp_werr = None, pp_rdl = makePipeDeadline, pp_wdl = makePipeDeadline,
     pp_wrMu = None, pp_readers = (\<lambda>_. RIdle), pp_writers = (\<lambda>_. WIdle)\<rparr>"

abbreviation set_reader :: "nat \<Rightarrow> reader \<Rightarrow> pipe \<Rightarrow> pipe" where
  "set_reader r x p \<equiv> p\<lparr>pp_readers := (pp_readers p)(r := x)\<rparr>"

abbreviation set_writer :: "nat \<Rightarrow> writer \<Rightarrow> pipe \<Rightarrow> pipe" where
  "set_writer w x p \<equiv> p\<lparr>pp_writers := (pp_writers p)(w := x)\<rparr>"

text \<open>\<open>onceError.Store\<close>\<close>

definition once_store :: "gerr \<Rightarrow> gerr option \<Rightarrow> gerr option" where
  "once_store e a = (case a of None \<Rightarrow> Some e | Some _ \<Rightarrow> a)"

definition readCloseError :: "pipe \<Rightarrow> gerr" where
  "readCloseError p = (case (pp_rerr p, pp_werr p) of (None, Some e) \<Rightarrow> e | _ \<Rightarrow> ClosedPipe)"

definition writeCloseError :: "pipe \<Rightarrow> gerr" where
  "writeCloseError p = (case (pp_werr p, pp_rerr p) of (None, Some e) \<Rightarrow> e | _ \<Rightarrow> ClosedPipe)"

definition closeRead :: "gerr option \<Rightarrow> pipe \<Rightarrow> pipe" where
  "closeRead e p =
     p\<lparr>pp_rerr := once_store (case e of None \<Rightarrow> ClosedPipe | Some x \<Rightarrow> x) (pp_rerr p), pp_done := True\<rparr>"

definition closeWrite :: "gerr option \<Rightarrow> pipe \<Rightarrow> pipe" where
  "closeWrite e p = p\<lparr>pp_werr := once_store (case e of None \<Rightarrow> EOF | Some x \<Rightarrow> x) (pp_werr p), pp_done := True\<rparr>"

definition setReadDeadline :: "int option \<Rightarrow> pipe \<Rightarrow> gerr option \<times> pipe" where
  "setReadDeadline t p = (if pp_done p then (Some ClosedPipe, p) else (None, p\<lparr>pp_rdl := dl_Set t (pp_rdl p)\<rparr>))"

definition setWriteDeadline :: "int option \<Rightarrow> pipe \<Rightarrow> gerr option \<times> pipe" where
  "setWriteDeadline t p = (if pp_done p then (Some ClosedPipe, p) else (None, p\<lparr>pp_wdl := dl_Set t (pp_wdl p)\<rparr>))"

text \<open>Entering the \<open>select\<close> of the loop of \<open>write\<close>, or leaving the loop.\<close>

definition write_loop :: "bytes \<Rightarrow> nat \<Rightarrow> pipe \<Rightarrow> writer" where
  "write_loop b n p = (if n < length b then WLoop b n (dl_cancel (pp_wdl p)) else WRet b n None)"

text \<open>What can be seen from outside: calls that begin, and what they return.\<close>

datatype pipe_ev =
    CallRead nat nat
  | ReadOk nat bytes
  | ReadErr nat gerr
  | CallWrite nat bytes
  | WriteRet nat bytes nat "gerr option"
  | CloseRead "gerr option"
  | CloseWrite "gerr option"
  | SetRead "int option" "gerr option"
  | SetWrite "int option" "gerr option"
  | Internal

inductive pstep :: "pipe \<Rightarrow> pipe_ev \<Rightarrow> pipe \<Rightarrow> bool" where
  read_done: "pp_readers p r = RIdle \<Longrightarrow> pp_done p \<Longrightarrow> pstep p (ReadErr r (readCloseError p)) p"
| read_late: "pp_readers p r = RIdle \<Longrightarrow> expired (pp_rdl p) \<Longrightarrow> pstep p (ReadErr r DeadlineExceeded) p"
| read_wait: "pp_readers p r = RIdle \<Longrightarrow> \<not> pp_done p \<Longrightarrow> \<not> expired (pp_rdl p)
    \<Longrightarrow> pstep p (CallRead r m) (set_reader r (RWait m (dl_cancel (pp_rdl p))) p)"
| wait_done: "pp_readers p r = RWait m c \<Longrightarrow> pp_done p \<Longrightarrow> pstep p (ReadErr r (readCloseError p)) (set_reader r RIdle p)"
| wait_late: "pp_readers p r = RWait m c \<Longrightarrow> c \<in> dl_closed (pp_rdl p)
    \<Longrightarrow> pstep p (ReadErr r DeadlineExceeded) (set_reader r RIdle p)"
| hand_over: "pp_readers p r = RWait m c \<Longrightarrow> pp_writers p w = WLoop b n c'
    \<Longrightarrow> pstep p Internal (set_writer w (WSize b n) (set_reader r (RGot (take m (drop n b))) p))"
| hand_back: "pp_readers p r = RGot d \<Longrightarrow> pp_writers p w = WSize b n
    \<Longrightarrow> pstep p (ReadOk r d) (set_writer w (write_loop b (n + length d) p) (set_reader r RIdle p))"
| write_done: "pp_writers p w = WIdle \<Longrightarrow> pp_done p \<Longrightarrow> pstep p (WriteRet w b 0 (Some (writeCloseError p))) p"
| write_late: "pp_writers p w = WIdle \<Longrightarrow> expired (pp_wdl p) \<Longrightarrow> pstep p (WriteRet w b 0 (Some DeadlineExceeded)) p"
| write_lock: "pp_writers p w = WIdle \<Longrightarrow> \<not> pp_done p \<Longrightarrow> \<not> expired (pp_wdl p)
    \<Longrightarrow> pstep p (CallWrite w b) (set_writer w (WLock b) p)"
| locked: "pp_writers p w = WLock b \<Longrightarrow> pp_wrMu p = None
    \<Longrightarrow> pstep p Internal (set_writer w (WLoop b 0 (dl_cancel (pp_wdl p))) (p\<lparr>pp_wrMu := Some w\<rparr>))"
| loop_done: "pp_writers p w = WLoop b n c \<Longrightarrow> pp_done p
    \<Longrightarrow> pstep p Internal (set_writer w (WRet b n (Some (writeCloseError p))) p)"
| loop_late: "pp_writers p w = WLoop b n c \<Longrightarrow> c \<in> dl_closed (pp_wdl p)
    \<Longrightarrow> pstep p Internal (set_writer w (WRet b n (Some DeadlineExceeded)) p)"
| write_ret: "pp_writers p w = WRet b n e
    \<Longrightarrow> pstep p (WriteRet w b n e) (set_writer w WIdle (p\<lparr>pp_wrMu := None\<rparr>))"
| close_read: "pstep p (CloseRead e) (closeRead e p)"
| close_write: "pstep p (CloseWrite e) (closeWrite e p)"
| set_read: "setReadDeadline t p = (e, p') \<Longrightarrow> pstep p (SetRead t e) p'"
| set_write: "setWriteDeadline t p = (e, p') \<Longrightarrow> pstep p (SetWrite t e) p'"
| fire_read: "dl_timer (pp_rdl p) = Pending \<Longrightarrow> pstep p Internal (p\<lparr>pp_rdl := dl_fire (pp_rdl p)\<rparr>)"
| fire_write: "dl_timer (pp_wdl p) = Pending \<Longrightarrow> pstep p Internal (p\<lparr>pp_wdl := dl_fire (pp_wdl p)\<rparr>)"

inductive_cases pstepE: "pstep p ev p'"

inductive prun :: "pipe_ev list \<Rightarrow> pipe \<Rightarrow> bool" where
  start: "prun [] newPipe"
| step: "prun tr p \<Longrightarrow> pstep p ev p' \<Longrightarrow> prun (tr @ [ev]) p'"

text \<open>What a trace delivered to readers, and the writes that returned.\<close>

fun ev_read :: "pipe_ev \<Rightarrow> bytes" where
  "ev_read (ReadOk r d) = d" | "ev_read _ = []"

fun ev_accepted :: "pipe_ev \<Rightarrow> bytes" where
  "ev_accepted (WriteRet w b n e) = take n b" | "ev_accepted _ = []"

definition delivered :: "pipe_ev list \<Rightarrow> bytes" where
  "delivered tr = concat (map ev_read tr)"

definition accepted :: "pipe_ev list \<Rightarrow> bytes" where
  "accepted tr = concat (map ev_accepted tr)"

lemma delivered_simps [simp]: "delivered [] = []" "delivered (tr @ [ev]) = delivered tr @ ev_read ev"
  and accepted_simps [simp]: "accepted [] = []" "accepted (tr @ [ev]) = accepted tr @ ev_accepted ev"
  by (simp_all add: delivered_def accepted_def)

section \<open>Invariant\<close>

text \<open>A writer between taking and releasing the mutex, and what it has handed over.\<close>

fun in_loop :: "writer \<Rightarrow> bool" where
  "in_loop (WLoop b n c) = True" | "in_loop (WSize b n) = True" | "in_loop (WRet b n e) = True" | "in_loop _ = False"

fun progress :: "writer \<Rightarrow> bytes" where
  "progress (WLoop b n c) = take n b" | "progress (WSize b n) = take n b" | "progress (WRet b n e) = take n b" | "progress _ = []"

fun writer_ok :: "writer \<Rightarrow> bool" where
  "writer_ok (WLoop b n c) = (n \<le> length b)" | "writer_ok (WSize b n) = (n \<le> length b)"
| "writer_ok (WRet b n e) = (n \<le> length b \<and> (e = None \<longrightarrow> n = length b))" | "writer_ok _ = True"

definition mutex_inv :: "pipe \<Rightarrow> bool" where
  "mutex_inv p \<longleftrightarrow> (\<forall>w. in_loop (pp_writers p w) \<longleftrightarrow> pp_wrMu p = Some w) \<and> (\<forall>w. writer_ok (pp_writers p w))"

text \<open>There is a reader with data exactly when a writer waits for its size, and then the data are what comes next.\<close>

definition hand_inv :: "pipe \<Rightarrow> bool" where
  "hand_inv p \<longleftrightarrow> (\<forall>r r' d d'. pp_readers p r = RGot d \<longrightarrow> pp_readers p r' = RGot d' \<longrightarrow> r = r')
     \<and> (\<forall>r d. pp_readers p r = RGot d \<longrightarrow> (\<exists>w b n. pp_writers p w = WSize b n \<and> d = take (length d) (drop n b)))
     \<and> (\<forall>w b n. pp_writers p w = WSize b n \<longrightarrow> (\<exists>r d. pp_readers p r = RGot d))"

definition pending :: "pipe \<Rightarrow> bytes" where
  "pending p = (case pp_wrMu p of None \<Rightarrow> [] | Some w \<Rightarrow> progress (pp_writers p w))"

text \<open>A channel of a deadline is only given up when it is closed.\<close>

definition deadline_inv :: "deadline \<Rightarrow> bool" where
  "deadline_inv d \<longleftrightarrow> {..<dl_cancel d} \<subseteq> dl_closed d"

definition waits_inv :: "pipe \<Rightarrow> bool" where
  "waits_inv p \<longleftrightarrow> deadline_inv (pp_rdl p) \<and> deadline_inv (pp_wdl p)
     \<and> (\<forall>r m c. pp_readers p r = RWait m c \<longrightarrow> c \<le> dl_cancel (pp_rdl p))
     \<and> (\<forall>w b n c. pp_writers p w = WLoop b n c \<longrightarrow> c \<le> dl_cancel (pp_wdl p))"

lemma mutex_start: "mutex_inv newPipe" and hand_start: "hand_inv newPipe" and waits_start: "waits_inv newPipe"
  by (simp_all add: mutex_inv_def hand_inv_def waits_inv_def newPipe_def deadline_inv_def makePipeDeadline_def)

lemma pipe_set_deadline_fields:
  "setReadDeadline t p = (e, p') \<Longrightarrow> pp_writers p' = pp_writers p \<and> pp_readers p' = pp_readers p \<and> pp_wrMu p' = pp_wrMu p
     \<and> pp_done p' = pp_done p \<and> pp_rerr p' = pp_rerr p \<and> pp_werr p' = pp_werr p"
  "setWriteDeadline t p = (e, p') \<Longrightarrow> pp_writers p' = pp_writers p \<and> pp_readers p' = pp_readers p \<and> pp_wrMu p' = pp_wrMu p
     \<and> pp_done p' = pp_done p \<and> pp_rerr p' = pp_rerr p \<and> pp_werr p' = pp_werr p"
  by (auto simp: setReadDeadline_def setWriteDeadline_def split: if_splits)

lemma writers_ok: "mutex_inv p \<Longrightarrow> pp_writers p w = x \<Longrightarrow> writer_ok x \<and> (in_loop x \<longleftrightarrow> pp_wrMu p = Some w)"
  by (auto simp: mutex_inv_def)

lemma mutex_set_writer:
  "mutex_inv p \<Longrightarrow> pp_writers p w = y \<Longrightarrow> in_loop x = in_loop y \<Longrightarrow> writer_ok x \<Longrightarrow> mutex_inv (set_writer w x p)"
proof -
  assume m: "mutex_inv p" "pp_writers p w = y" "in_loop x = in_loop y" "writer_ok x"
  then have "in_loop x \<longleftrightarrow> pp_wrMu p = Some w" using writers_ok by blast
  then show ?thesis using m(1,4) by (simp add: mutex_inv_def)
qed

lemma mutex_cong: "mutex_inv p \<Longrightarrow> pp_writers p' = pp_writers p \<Longrightarrow> pp_wrMu p' = pp_wrMu p \<Longrightarrow> mutex_inv p'"
  by (simp add: mutex_inv_def)

lemma mutex_take: "mutex_inv p \<Longrightarrow> pp_wrMu p = None \<Longrightarrow> in_loop x \<Longrightarrow> writer_ok x
    \<Longrightarrow> mutex_inv (set_writer w x (p\<lparr>pp_wrMu := Some w\<rparr>))"
  by (auto simp: mutex_inv_def)

lemma mutex_release: "mutex_inv p \<Longrightarrow> pp_wrMu p = Some w \<Longrightarrow> mutex_inv (set_writer w WIdle (p\<lparr>pp_wrMu := None\<rparr>))"
  by (simp add: mutex_inv_def)

lemma hand_data: "hand_inv p \<Longrightarrow> mutex_inv p \<Longrightarrow> pp_readers p r = RGot d \<Longrightarrow> pp_writers p w = WSize b n
    \<Longrightarrow> d = take (length d) (drop n b) \<and> n + length d \<le> length b"
proof -
  assume h: "hand_inv p" "mutex_inv p" "pp_readers p r = RGot d" "pp_writers p w = WSize b n"
  obtain w' b' n' where w': "pp_writers p w' = WSize b' n'" "d = take (length d) (drop n' b')"
    using h(1,3) unfolding hand_inv_def by blast
  have "w' = w" using writers_ok [OF h(2) h(4)] writers_ok [OF h(2) w'(1)] by simp
  moreover have "length d \<le> length (drop n' b')" using w'(2) by (metis length_take min.cobounded1)
  ultimately show ?thesis using w' h(4) writers_ok [OF h(2) h(4)] by auto
qed

lemma write_loop_ok: "n \<le> length b \<Longrightarrow> writer_ok (write_loop b n p) \<and> in_loop (write_loop b n p) \<and> progress (write_loop b n p) = take n b"
  by (simp add: write_loop_def)

lemma mutex_step: "pstep p ev p' \<Longrightarrow> mutex_inv p \<Longrightarrow> hand_inv p \<Longrightarrow> mutex_inv p'"
proof (induction rule: pstep.induct)
  case (hand_back p r d w b n)
  have "mutex_inv (set_reader r RIdle p)" by (rule mutex_cong [OF hand_back(3)]) simp_all
  with hand_back write_loop_ok hand_data [OF hand_back(4,3,1,2)] show ?case
    by (intro mutex_set_writer [of _ _ "WSize b n"]) auto
next
  case (hand_over p r m c w b n c')
  have "mutex_inv (set_reader r (RGot (take m (drop n b))) p)" by (rule mutex_cong [OF hand_over(3)]) simp_all
  with hand_over show ?case using writers_ok [OF hand_over(3,2)] by (intro mutex_set_writer [of _ _ "WLoop b n c'"]) auto
next
  case (write_ret p w b n e)
  then show ?case using writers_ok [of p w] by (intro mutex_release) auto
next
  case (locked p w b)
  then show ?case by (intro mutex_take) auto
next
  case (loop_done p w b n c)
  then show ?case using writers_ok [of p w] by (intro mutex_set_writer [of _ _ "WLoop b n c"]) auto
next
  case (loop_late p w b n c)
  then show ?case using writers_ok [of p w] by (intro mutex_set_writer [of _ _ "WLoop b n c"]) auto
next
  case (write_lock p w b)
  then show ?case by (intro mutex_set_writer [of _ _ WIdle]) auto
next
  case (set_read t p e p')
  then show ?case using pipe_set_deadline_fields(1) [OF set_read(1)] mutex_cong by simp
next
  case (set_write t p e p')
  then show ?case using pipe_set_deadline_fields(2) [OF set_write(1)] mutex_cong by simp
qed (simp_all add: mutex_inv_def closeRead_def closeWrite_def)

text \<open>The second part: a reader that gets data, and one that gives the size back.\<close>

lemma hand_cong:
  assumes "hand_inv p" "\<And>r d. pp_readers p' r = RGot d \<longleftrightarrow> pp_readers p r = RGot d"
    "\<And>w b n. pp_writers p' w = WSize b n \<longleftrightarrow> pp_writers p w = WSize b n"
  shows "hand_inv p'"
  using assms(1) unfolding hand_inv_def assms(2,3) .

lemma hand_step: "pstep p ev p' \<Longrightarrow> mutex_inv p \<Longrightarrow> hand_inv p \<Longrightarrow> hand_inv p'"
proof (induction rule: pstep.induct)
  case (hand_over p r m c w b n c')
  have none: "pp_writers p w' \<noteq> WSize b' n'" for w' b' n'
    using writers_ok [OF hand_over(3,2)] writers_ok [OF hand_over(3), of w' "WSize b' n'"] hand_over(2) by auto
  then have "pp_readers p r' \<noteq> RGot d" for r' d using hand_over(4) by (auto simp: hand_inv_def)
  moreover have "take m (drop n b) = take (length (take m (drop n b))) (drop n b)"
    by (cases "m \<le> length b - n") simp_all
  ultimately show ?case using none by (auto simp: hand_inv_def simp del: length_take)
next
  case (hand_back p r d w b n)
  have "pp_writers p w' \<noteq> WSize b' n'" if "w' \<noteq> w" for w' b' n'
    using writers_ok [OF hand_back(3,2)] writers_ok [OF hand_back(3), of w' "WSize b' n'"] that by auto
  moreover have "pp_readers p r' \<noteq> RGot d'" if "r' \<noteq> r" for r' d'
    using hand_back(1,4) that by (auto simp: hand_inv_def)
  ultimately show ?case using hand_back(1,2) by (auto simp: hand_inv_def write_loop_def)
next
  case (set_read t p e p')
  then show ?case using pipe_set_deadline_fields(1) [OF set_read(1)] by (auto intro: hand_cong)
next
  case (set_write t p e p')
  then show ?case using pipe_set_deadline_fields(2) [OF set_write(1)] by (auto intro: hand_cong)
qed (auto simp: closeRead_def closeWrite_def elim!: hand_cong split: if_splits)


section \<open>Delivery\<close>

lemma pending_cong: "pp_wrMu p' = pp_wrMu p \<Longrightarrow> pp_writers p' = pp_writers p \<Longrightarrow> pending p' = pending p"
  by (simp add: pending_def split: option.split)

lemma pending_loop: "mutex_inv p \<Longrightarrow> pp_writers p w = x \<Longrightarrow> in_loop x \<Longrightarrow> pending p = progress x"
  using writers_ok [of p w x] by (simp add: pending_def)

lemma pending_set_idle:
  "mutex_inv p \<Longrightarrow> pp_writers p w = y \<Longrightarrow> \<not> in_loop y \<Longrightarrow> pending (set_writer w x p) = pending p"
  by (auto simp: pending_def mutex_inv_def split: option.splits)

lemma pending_set_loop:
  "mutex_inv p \<Longrightarrow> pp_writers p w = y \<Longrightarrow> in_loop y \<Longrightarrow> pp_wrMu p' = pp_wrMu p \<Longrightarrow> pp_writers p' = (pp_writers p)(w := x)
    \<Longrightarrow> pending p' = progress x"
  using writers_ok [of p w y] by (simp add: pending_def)

lemma delivery_step:
  "pstep p ev p' \<Longrightarrow> mutex_inv p \<Longrightarrow> hand_inv p \<Longrightarrow> pending p @ ev_read ev = ev_accepted ev @ pending p'"
proof (induction rule: pstep.induct)
  case (hand_over p r m c w b n c')
  then show ?case using pending_loop [OF hand_over(3,2)] pending_set_loop [OF hand_over(3,2)] by simp
next
  case (hand_back p r d w b n)
  note h = hand_data [OF hand_back(4,3,1,2)]
  have "take n b @ d = take (n + length d) b" using h by (metis take_add)
  then have d: "take n b @ d = take (n + length d) b" "n + length d \<le> length b" using h by simp_all
  show ?case
    using pending_loop [OF hand_back(3,2)] write_loop_ok [OF d(2), of p] d(1)
      pending_set_loop [OF hand_back(3,2), of _ "write_loop b (n + length d) p"] by simp
next
  case (locked p w b)
  then show ?case by (simp add: pending_def)
next
  case (loop_done p w b n c)
  then show ?case using pending_loop [OF loop_done(3,1)] pending_set_loop [OF loop_done(3,1)] by simp
next
  case (loop_late p w b n c)
  then show ?case using pending_loop [OF loop_late(3,1)] pending_set_loop [OF loop_late(3,1)] by simp
next
  case (write_ret p w b n e)
  then show ?case using pending_loop [OF write_ret(2,1)] by (simp add: pending_def)
next
  case (write_lock p w b)
  then show ?case using pending_set_idle [OF write_lock(4,1)] by simp
next
  case (set_read t p e p')
  have "pending p' = pending p" by (rule pending_cong) (use pipe_set_deadline_fields(1) [OF set_read(1)] in blast)+
  then show ?case by simp
next
  case (set_write t p e p')
  have "pending p' = pending p" by (rule pending_cong) (use pipe_set_deadline_fields(2) [OF set_write(1)] in blast)+
  then show ?case by simp
qed (simp_all add: pending_def closeRead_def closeWrite_def split: option.split)

lemma prun_inv: "prun tr p \<Longrightarrow> mutex_inv p \<and> hand_inv p \<and> delivered tr = accepted tr @ pending p"
proof (induction rule: prun.induct)
  case start
  then show ?case using mutex_start hand_start by (simp add: pending_def newPipe_def)
next
  case (step tr p ev p')
  then have "delivered (tr @ [ev]) = accepted tr @ pending p @ ev_read ev" by simp
  also have "\<dots> = accepted (tr @ [ev]) @ pending p'" using delivery_step [OF step(2)] step(3) by simp
  finally show ?case using mutex_step [OF step(2)] hand_step [OF step(2)] step(3) by simp
qed

text \<open>A write returns without error only when everything was taken.\<close>

lemma write_ret_ok: "pstep p (WriteRet w b n e) p' \<Longrightarrow> mutex_inv p \<Longrightarrow> n \<le> length b \<and> (e = None \<longrightarrow> n = length b)"
  by (erule pstepE) (use writers_ok [of p w] in auto)

lemma writes_ok: "prun tr p \<Longrightarrow> WriteRet w b n e \<in> set tr \<Longrightarrow> n \<le> length b \<and> (e = None \<longrightarrow> n = length b)"
  by (induction rule: prun.induct) (use prun_inv write_ret_ok in auto)


section \<open>Deadlines wake\<close>

lemma deadline_renew: "deadline_inv d \<Longrightarrow> deadline_inv (renew d) \<and> dl_cancel d \<le> dl_cancel (renew d) \<and> dl_closed (renew d) = dl_closed d"
  by (auto simp: deadline_inv_def renew_def less_Suc_eq)

lemma deadline_fields: "deadline_inv (d\<lparr>dl_timer := x\<rparr>) = deadline_inv d" "deadline_inv d \<Longrightarrow> deadline_inv (close_cancel d)"
  "dl_cancel (close_cancel d) = dl_cancel d"
  by (auto simp: deadline_inv_def close_cancel_def)

lemma deadline_Set: "deadline_inv d \<Longrightarrow> deadline_inv (dl_Set t d) \<and> dl_cancel d \<le> dl_cancel (dl_Set t d)"
  using deadline_renew [of "d\<lparr>dl_timer := NoTimer\<rparr>"] deadline_fields(2) [of "d\<lparr>dl_timer := NoTimer\<rparr>"]
  by (auto simp: dl_Set_def Let_def deadline_fields split: option.splits)

lemma deadline_fire: "deadline_inv d \<Longrightarrow> deadline_inv (dl_fire d) \<and> dl_cancel (dl_fire d) = dl_cancel d"
  by (simp add: dl_fire_def deadline_fields)

lemma waits_set_deadlines:
  assumes "waits_inv p"
  shows "setReadDeadline t p = (e, p') \<Longrightarrow> waits_inv p'" "setWriteDeadline t p = (e, p') \<Longrightarrow> waits_inv p'"
proof -
  have "c \<le> dl_cancel (pp_rdl p) \<Longrightarrow> c \<le> dl_cancel (dl_Set t (pp_rdl p))" "c \<le> dl_cancel (pp_wdl p) \<Longrightarrow> c \<le> dl_cancel (dl_Set t (pp_wdl p))" for c
    using assms deadline_Set [of "pp_rdl p" t] deadline_Set [of "pp_wdl p" t] by (auto simp: waits_inv_def)
  then show "setReadDeadline t p = (e, p') \<Longrightarrow> waits_inv p'" "setWriteDeadline t p = (e, p') \<Longrightarrow> waits_inv p'"
    using assms deadline_Set [of "pp_rdl p" t] deadline_Set [of "pp_wdl p" t]
    unfolding setReadDeadline_def setWriteDeadline_def waits_inv_def by (auto split: if_splits)
qed

lemma waits_step: "pstep p ev p' \<Longrightarrow> waits_inv p \<Longrightarrow> waits_inv p'"
proof (induction rule: pstep.induct)
  case (set_read t p e p')
  then show ?case by (auto intro: waits_set_deadlines(1))
next
  case (set_write t p e p')
  then show ?case by (auto intro: waits_set_deadlines(2))
qed (auto simp: waits_inv_def closeRead_def closeWrite_def write_loop_def deadline_fire split: if_splits)

lemma prun_waits: "prun tr p \<Longrightarrow> waits_inv p"
  by (induction rule: prun.induct) (use waits_start waits_step in auto)

lemma waits_expired: "deadline_inv d \<Longrightarrow> c \<le> dl_cancel d \<Longrightarrow> expired d \<Longrightarrow> c \<in> dl_closed d"
  unfolding deadline_inv_def by (cases "c = dl_cancel d") (simp, force)

section \<open>Nobody is stuck\<close>

text \<open>The steps that need no call from outside.\<close>

definition stable :: "pipe \<Rightarrow> bool" where
  "stable p \<longleftrightarrow> (\<nexists>ev p'. pstep p ev p' \<and> (case ev of
      Internal \<Rightarrow> True | ReadOk r d \<Rightarrow> True | ReadErr r e \<Rightarrow> pp_readers p r \<noteq> RIdle | WriteRet w b n e \<Rightarrow> pp_writers p w \<noteq> WIdle
    | _ \<Rightarrow> False))"

lemma stableD: "stable p \<Longrightarrow> pstep p ev p' \<Longrightarrow> ev = Internal \<Longrightarrow> False"
  "stable p \<Longrightarrow> pstep p (ReadOk r d) p' \<Longrightarrow> False"
  "stable p \<Longrightarrow> pstep p (ReadErr r e) p' \<Longrightarrow> pp_readers p r = RIdle"
  "stable p \<Longrightarrow> pstep p (WriteRet w b n oe) p' \<Longrightarrow> pp_writers p w = WIdle"
  unfolding stable_def by fastforce+

lemma stable_no_hand: "mutex_inv p \<Longrightarrow> hand_inv p \<Longrightarrow> stable p \<Longrightarrow> pp_readers p r \<noteq> RGot d \<and> pp_writers p w \<noteq> WSize b n"
  unfolding hand_inv_def by (metis pstep.hand_back stableD(2))

lemma stable_writer:
  assumes "mutex_inv p" "hand_inv p" "stable p"
  obtains "pp_writers p w = WIdle" | b w' b' n c where "pp_writers p w = WLock b" "pp_writers p w' = WLoop b' n c"
    | b n c where "pp_writers p w = WLoop b n c"
proof (cases "pp_writers p w")
  case (WLock b)
  show thesis
  proof (cases "pp_wrMu p")
    case None
    then show thesis using pstep.locked [OF WLock] stableD(1) [OF assms(3)] by blast
  next
    case (Some w')
    have "in_loop (pp_writers p w')" using assms(1) Some by (simp add: mutex_inv_def)
    moreover have "pp_writers p w' \<noteq> WRet b n e" for b n e
      using pstep.write_ret [of p w' b n e] stableD(4) [OF assms(3)] by fastforce
    ultimately obtain b' n c where "pp_writers p w' = WLoop b' n c"
      using stable_no_hand [OF assms, of _ _ w'] by (cases "pp_writers p w'") auto
    then show thesis using that(2) WLock by blast
  qed
next
  case (WRet b n e)
  then show thesis using pstep.write_ret [OF WRet] stableD(4) [OF assms(3)] by fastforce
qed (use that stable_no_hand [OF assms] in auto)

text \<open>C20: Nobody waits for something that cannot come. When no goroutine can go on by itself, then readers and writers do not
  wait for each other; after a close nobody waits at all; and after the deadline of an end nobody waits on that end, even if
  the deadline was moved while they waited.\<close>

theorem pipe_no_stuck:
  assumes "prun tr p" "stable p"
  shows "((\<forall>r. pp_readers p r = RIdle) \<or> (\<forall>w. pp_writers p w = WIdle))
    \<and> (pp_done p \<longrightarrow> (\<forall>r. pp_readers p r = RIdle) \<and> (\<forall>w. pp_writers p w = WIdle))
    \<and> (expired (pp_rdl p) \<longrightarrow> (\<forall>r. pp_readers p r = RIdle)) \<and> (expired (pp_wdl p) \<longrightarrow> (\<forall>w. pp_writers p w = WIdle))"
proof -
  have inv: "mutex_inv p" "hand_inv p" "waits_inv p" using prun_inv [OF assms(1)] prun_waits [OF assms(1)] by auto
  have rd: "\<exists>m c. pp_readers p r = RWait m c" if "pp_readers p r \<noteq> RIdle" for r
    using that stable_no_hand [OF inv(1,2) assms(2)] by (cases "pp_readers p r") auto
  have wr: "\<exists>w' b n c. pp_writers p w' = WLoop b n c" if "pp_writers p w \<noteq> WIdle" for w
    using stable_writer [OF inv(1,2) assms(2), of w] that by metis
  have loop: "\<not> pp_done p \<and> \<not> expired (pp_wdl p) \<and> pp_readers p r = RIdle" if "pp_writers p w = WLoop b n c" for w b n c r
    using pstep.loop_done [OF that] pstep.loop_late [OF that] pstep.hand_over [OF _ that] stableD(1) [OF assms(2)]
      waits_expired [of "pp_wdl p" c] inv(3) that rd by (metis waits_inv_def)
  have wait: "\<not> pp_done p \<and> \<not> expired (pp_rdl p)" if "pp_readers p r = RWait m c" for r m c
    using pstep.wait_done [OF that] pstep.wait_late [OF that] stableD(3) [OF assms(2)]
      waits_expired [of "pp_rdl p" c] inv(3) that by (metis reader.distinct(1) waits_inv_def)
  show ?thesis using rd wr loop wait by metis
qed

section \<open>Errors\<close>

text \<open>The error with which an end was closed first.\<close>

fun first_close :: "pipe_ev list \<Rightarrow> gerr option \<times> gerr option" where
  "first_close [] = (None, None)"
| "first_close (ev # tr) = (case first_close tr of (r, w) \<Rightarrow>
     (case ev of CloseRead e \<Rightarrow> (Some (case e of None \<Rightarrow> ClosedPipe | Some x \<Rightarrow> x), w)
      | CloseWrite e \<Rightarrow> (r, Some (case e of None \<Rightarrow> EOF | Some x \<Rightarrow> x)) | _ \<Rightarrow> (r, w)))"

lemma first_close_snoc:
  "first_close (tr @ [ev]) = (case first_close tr of (r, w) \<Rightarrow> (case ev of
      CloseRead e \<Rightarrow> (once_store (case e of None \<Rightarrow> ClosedPipe | Some x \<Rightarrow> x) r, w)
    | CloseWrite e \<Rightarrow> (r, once_store (case e of None \<Rightarrow> EOF | Some x \<Rightarrow> x) w) | _ \<Rightarrow> (r, w)))"
  by (induction tr) (auto simp: once_store_def split: pipe_ev.splits prod.splits option.splits)

lemma prun_closed: "prun tr p \<Longrightarrow> (pp_rerr p, pp_werr p) = first_close tr \<and> (pp_done p \<longleftrightarrow> first_close tr \<noteq> (None, None))"
proof (induction rule: prun.induct)
  case start
  then show ?case by (simp add: newPipe_def)
next
  case (step tr p ev p')
  show ?case
    using step(2)
  proof (cases rule: pstep.cases)
    case (set_read t e)
    then show ?thesis using step(3) pipe_set_deadline_fields(1) [OF set_read(2)] by (auto simp: first_close_snoc split: prod.splits)
  next
    case (set_write t e)
    then show ?thesis using step(3) pipe_set_deadline_fields(2) [OF set_write(2)] by (auto simp: first_close_snoc split: prod.splits)
  qed (use step(3) in \<open>auto simp: first_close_snoc closeRead_def closeWrite_def once_store_def split: prod.splits option.splits\<close>)
qed

lemma read_error_step:
  "pstep p (ReadErr r e) p' \<Longrightarrow> e = DeadlineExceeded \<or> pp_done p \<and> e = readCloseError p"
  "pstep p (WriteRet w b n (Some e)) p' \<Longrightarrow> pp_writers p w \<noteq> WRet b n (Some e) \<Longrightarrow> e = DeadlineExceeded \<or> pp_done p \<and> e = writeCloseError p"
  by (auto elim: pstepE)

text \<open>A read fails only with the deadline or after a close. As long as the read end was not closed it then gets the error of
  the first close of the write end, which is \<open>EOF\<close> for a plain \<open>Close\<close>; after that \<open>ErrClosedPipe\<close>.\<close>

theorem pipe_read_errors:
  assumes "prun tr p" "pstep p (ReadErr r e) p'"
  shows "e = DeadlineExceeded \<or> (case first_close tr of
      (None, None) \<Rightarrow> False | (None, Some w) \<Rightarrow> e = w | (Some x, w) \<Rightarrow> e = ClosedPipe)"
  using read_error_step(1) [OF assms(2)] prun_closed [OF assms(1)]
  by (auto simp: readCloseError_def split: option.splits prod.splits)


section \<open>A run\<close>

text \<open>A write of three bytes that two reads consume, then a close.\<close>

definition sample_trace :: "pipe_ev list" where
  "sample_trace = [CallRead 0 2, CallWrite 5 [1, 2, 3], Internal, Internal, ReadOk 0 [1, 2], CallRead 1 9, Internal,
     ReadOk 1 [3], WriteRet 5 [1, 2, 3] 3 None, CloseWrite None]"

lemma prun_from: "prun tr p \<Longrightarrow> pstep p ev q \<Longrightarrow> q = p' \<Longrightarrow> tr' = tr @ [ev] \<Longrightarrow> prun tr' p'"
  by (auto intro: prun.step)

lemma sample_run: "prun sample_trace (closeWrite None newPipe)"
proof -
  let ?p = "\<lambda>r0 r1 x l. newPipe\<lparr>pp_readers := (\<lambda>_. RIdle)(0 := r0, 1 := r1), pp_writers := (\<lambda>_. WIdle)(5 := x), pp_wrMu := l\<rparr>"
  let ?b = "[1, 2, 3] :: bytes"
  note defs = newPipe_def makePipeDeadline_def write_loop_def fun_upd_idem fun_eq_iff
  have s: "prun (take 1 sample_trace) (?p (RWait 2 0) RIdle WIdle None)"
    by (rule prun_from [OF prun.start pstep.read_wait]) (simp_all add: defs sample_trace_def)
  have s: "prun (take 2 sample_trace) (?p (RWait 2 0) RIdle (WLock ?b) None)"
    by (rule prun_from [OF s pstep.write_lock]) (simp_all add: defs sample_trace_def)
  have s: "prun (take 3 sample_trace) (?p (RWait 2 0) RIdle (WLoop ?b 0 0) (Some 5))"
    by (rule prun_from [OF s pstep.locked [of _ 5 ?b]]) (simp_all add: defs sample_trace_def)
  have s: "prun (take 4 sample_trace) (?p (RGot [1, 2]) RIdle (WSize ?b 0) (Some 5))"
    by (rule prun_from [OF s pstep.hand_over [of _ 0 2 0 5 ?b 0 0]]) (simp_all add: defs sample_trace_def)
  have s: "prun (take 5 sample_trace) (?p RIdle RIdle (WLoop ?b 2 0) (Some 5))"
    by (rule prun_from [OF s pstep.hand_back [of _ 0 _ 5 ?b 0]]) (simp_all add: defs sample_trace_def)
  have s: "prun (take 6 sample_trace) (?p RIdle (RWait 9 0) (WLoop ?b 2 0) (Some 5))"
    by (rule prun_from [OF s pstep.read_wait]) (simp_all add: defs sample_trace_def)
  have s: "prun (take 7 sample_trace) (?p RIdle (RGot [3]) (WSize ?b 2) (Some 5))"
    by (rule prun_from [OF s pstep.hand_over [of _ 1 9 0 5 ?b 2 0]]) (simp_all add: defs sample_trace_def)
  have s: "prun (take 8 sample_trace) (?p RIdle RIdle (WRet ?b 3 None) (Some 5))"
    by (rule prun_from [OF s pstep.hand_back [of _ 1 _ 5 ?b 2]]) (simp_all add: defs sample_trace_def)
  have s: "prun (take 9 sample_trace) (newPipe)"
    by (rule prun_from [OF s pstep.write_ret [of _ 5 ?b 3 None]]) (simp_all add: defs sample_trace_def)
  have s: "prun (take 10 sample_trace) (closeWrite None newPipe)"
    by (rule prun_from [OF s pstep.close_write]) (simp_all add: defs sample_trace_def)
  from s show ?thesis by (simp add: sample_trace_def)
qed


lemma closed_stable: "stable (closeWrite None newPipe)"
  unfolding stable_def
  by (auto elim!: pstepE simp: closeWrite_def newPipe_def makePipeDeadline_def)

theorem pipe_no_stuck_witness:
  "pp_done (closeWrite None newPipe) \<and> (\<forall>r. pp_readers (closeWrite None newPipe) r = RIdle)
    \<and> (\<forall>w. pp_writers (closeWrite None newPipe) w = WIdle)"
  using pipe_no_stuck [OF sample_run closed_stable] by (simp add: closeWrite_def)

theorem pipe_read_errors_witness:
  "pstep (closeWrite None newPipe) (ReadErr 7 EOF) (closeWrite None newPipe) \<and> snd (first_close sample_trace) = Some EOF"
proof -
  have s: "pstep (closeWrite None newPipe) (ReadErr 7 EOF) (closeWrite None newPipe)"
    using pstep.read_done [of "closeWrite None newPipe" 7]
    by (simp add: closeWrite_def newPipe_def once_store_def readCloseError_def)
  from pipe_read_errors [OF sample_run s] have "snd (first_close sample_trace) = Some EOF"
    by (auto split: prod.splits option.splits)
  with s show ?thesis by simp
qed

end
