(* ===== verification/Protobytes.thy ===== *)
theory Protobytes
  imports Netip Conn Codec
begin

text \<open>
  \<open>transport/common/protobytes\<close>: \<open>BytesReader\<close>, which takes values off the front of a slice, \<open>BytesWriter\<close>, which puts
  them behind one that grows (\<open>bytes.go\<close>), and \<open>Reader\<close>, which reads from a \<open>bufio.Reader\<close> and keeps its first error
  (\<open>reader.go\<close>). The variable length integers of \<open>encoding/binary\<close> are defined. Sizes of \<open>Grow\<close> and \<open>Skip\<close> are natural
  numbers.
\<close>

section \<open>BytesReader\<close>

text \<open>A slice that is shorter than what is taken off makes the code panic.\<close>

definition rd_take :: "nat \<Rightarrow> bytes \<Rightarrow> (bytes \<times> bytes) res" where
  "rd_take n b = (if n \<le> length b then Ok (take n b, drop n b) else Err out_of_range)"

definition rd_get :: "nat \<Rightarrow> (bytes \<Rightarrow> 'a) \<Rightarrow> bytes \<Rightarrow> ('a \<times> bytes) res" where
  "rd_get n f b = rbind (rd_take n b) (\<lambda>(x, r). Ok (f x, r))"

definition splitAt :: "nat \<Rightarrow> bytes \<Rightarrow> bytes \<times> bytes" where
  "splitAt n b = (let n = (if length b < n then length b else n) in (take n b, drop n b))"

fun splitBy_loop :: "(byte \<Rightarrow> bool) \<Rightarrow> nat \<Rightarrow> bytes \<Rightarrow> bytes \<Rightarrow> bytes \<times> bytes" where
  "splitBy_loop f i b [] = (b, [])"
| "splitBy_loop f i b (c # cs) = (if f c then splitAt i b else splitBy_loop f (Suc i) b cs)"

definition splitBy :: "(byte \<Rightarrow> bool) \<Rightarrow> bytes \<Rightarrow> bytes \<times> bytes" where
  "splitBy f b = splitBy_loop f 0 b b"

definition readUint8 :: "bytes \<Rightarrow> (byte \<times> bytes) res" where
  "readUint8 = rd_get 1 hd"

definition readUint16be :: "bytes \<Rightarrow> (16 word \<times> bytes) res" where
  "readUint16be = rd_get 2 get_be16"

definition readUint32be :: "bytes \<Rightarrow> (32 word \<times> bytes) res" where
  "readUint32be = rd_get 4 get_be32"

definition readUint64be :: "bytes \<Rightarrow> (64 word \<times> bytes) res" where
  "readUint64be = rd_get 8 get_be64"

definition readUint16le :: "bytes \<Rightarrow> (16 word \<times> bytes) res" where
  "readUint16le = rd_get 2 get_le16"

definition readUint32le :: "bytes \<Rightarrow> (32 word \<times> bytes) res" where
  "readUint32le = rd_get 4 get_le32"

definition readUint64le :: "bytes \<Rightarrow> (64 word \<times> bytes) res" where
  "readUint64le = rd_get 8 get_le64"


definition readIPv4 :: "bytes \<Rightarrow> (addr \<times> bytes) res" where
  "readIPv4 = rd_get 4 addrFrom4"

definition readIPv6 :: "bytes \<Rightarrow> (addr \<times> bytes) res" where
  "readIPv6 = rd_get 16 addrFrom16"

definition rd_skip :: "nat \<Rightarrow> bytes \<Rightarrow> bytes res" where
  "rd_skip n b = (if n \<le> length b then Ok (drop n b) else Err out_of_range)"

definition rd_Read :: "nat \<Rightarrow> bytes \<Rightarrow> bytes res \<times> bytes" where
  "rd_Read m b = (if b = [] then (if m = 0 then Ok [] else Err EOF, b) else (Ok (take m b), drop m b))"

fun rd_ReadByte :: "bytes \<Rightarrow> byte res \<times> bytes" where
  "rd_ReadByte [] = (Err EOF, [])" | "rd_ReadByte (c # b) = (Ok c, b)"

text \<open>\<open>binary.ReadUvarint\<close>: at most ten bytes, of which the last is 0 or 1. It returns the value and an error.\<close>

definition overflow :: gerr where "overflow = Msg ''binary: varint overflows a 64-bit integer''"

fun uvarint_loop :: "nat \<Rightarrow> 64 word \<Rightarrow> nat \<Rightarrow> bytes \<Rightarrow> (64 word \<times> gerr option) \<times> bytes" where
  "uvarint_loop 0 x s b = ((x, Some overflow), b)"
| "uvarint_loop (Suc k) x s b =
     (case b of
        [] \<Rightarrow> ((x, Some (if k = 9 then EOF else UnexpectedEOF)), [])
      | c # b' \<Rightarrow>
          if c < 0x80 then (if k = 0 \<and> 1 < c then ((x, Some overflow), b') else ((x OR push_bit s (ucast c), None), b'))
          else uvarint_loop k (x OR push_bit s (ucast (c AND 0x7f))) (s + 7) b')"

definition readUvarint :: "bytes \<Rightarrow> (64 word \<times> gerr option) \<times> bytes" where
  "readUvarint = uvarint_loop 10 0 0"

definition readVarint :: "bytes \<Rightarrow> (64 word \<times> gerr option) \<times> bytes" where
  "readVarint b = (case readUvarint b of ((ux, e), r) \<Rightarrow>
     ((if odd ux then NOT (drop_bit 1 ux) else drop_bit 1 ux, e), r))"

section \<open>BytesWriter\<close>

text \<open>A slice: what it holds, what its array holds behind that, and whether it is nil.\<close>

record bytes_writer =
  bw_buf :: bytes
  bw_spare :: bytes
  bw_nil :: bool

abbreviation bw_cap :: "bytes_writer \<Rightarrow> nat" where
  "bw_cap w \<equiv> length (bw_buf w) + length (bw_spare w)"

definition tryGrowByReslice :: "nat \<Rightarrow> bytes_writer \<Rightarrow> (nat \<times> bytes_writer) option" where
  "tryGrowByReslice n w =
     (if n \<le> length (bw_spare w)
      then Some (length (bw_buf w), w\<lparr>bw_buf := bw_buf w @ take n (bw_spare w), bw_spare := drop n (bw_spare w)\<rparr>)
      else None)"

text \<open>\<open>growSlice\<close>; \<open>rnd\<close> is the capacity that the runtime gives to a slice of a length, and is not less.\<close>

definition growSlice :: "(nat \<Rightarrow> nat) \<Rightarrow> nat \<Rightarrow> bytes_writer \<Rightarrow> bytes_writer" where
  "growSlice rnd n w =
     (let c = length (bw_buf w) + n; c = (if c < 2 * bw_cap w then 2 * bw_cap w else c)
      in w\<lparr>bw_spare := replicate (rnd c - length (bw_buf w)) 0, bw_nil := False\<rparr>)"

definition maxInt :: int where "maxInt = 2 ^ 63 - 1"

definition bw_grow :: "(nat \<Rightarrow> nat) \<Rightarrow> nat \<Rightarrow> bytes_writer \<Rightarrow> (nat \<times> bytes_writer) res" where
  "bw_grow rnd n w =
     (let m = length (bw_buf w); c = bw_cap w in
      case tryGrowByReslice n w of
        Some x \<Rightarrow> Ok x
      | None \<Rightarrow>
          if bw_nil w \<and> n \<le> 64 then Ok (0, w\<lparr>bw_buf := replicate n 0, bw_spare := replicate (64 - n) 0, bw_nil := False\<rparr>)
          else if maxInt - int c - int n < int c then Err (Panic ''bytes.Buffer: too large'')
          else let w' = (if int c div 2 - int m < int n then growSlice rnd n w else w) in
            if m + n \<le> bw_cap w'
            then Ok (m, w'\<lparr>bw_buf := take (m + n) (bw_buf w' @ bw_spare w'), bw_spare := drop (m + n) (bw_buf w' @ bw_spare w')\<rparr>)
            else Err out_of_range)"

definition bw_Grow :: "(nat \<Rightarrow> nat) \<Rightarrow> nat \<Rightarrow> bytes_writer \<Rightarrow> (nat \<times> bytes_writer) res" where
  "bw_Grow rnd n w = (case tryGrowByReslice n w of Some x \<Rightarrow> Ok x | None \<Rightarrow> bw_grow rnd n w)"

text \<open>\<open>next\<close>, and writing into what it returns.\<close>

definition put_next :: "(nat \<Rightarrow> nat) \<Rightarrow> bytes \<Rightarrow> bytes_writer \<Rightarrow> bytes_writer res" where
  "put_next rnd d w = rbind (bw_Grow rnd (length d) w) (\<lambda>(m, w1).
     Ok (w1\<lparr>bw_buf := take m (bw_buf w1) @ go_copy (drop m (bw_buf w1)) d\<rparr>))"

definition putUint8 :: "(nat \<Rightarrow> nat) \<Rightarrow> byte \<Rightarrow> bytes_writer \<Rightarrow> bytes_writer res" where
  "putUint8 rnd v = put_next rnd [v]"

definition putUint16be :: "(nat \<Rightarrow> nat) \<Rightarrow> 16 word \<Rightarrow> bytes_writer \<Rightarrow> bytes_writer res" where
  "putUint16be rnd v = put_next rnd (put_be16 v)"

definition putUint32be :: "(nat \<Rightarrow> nat) \<Rightarrow> 32 word \<Rightarrow> bytes_writer \<Rightarrow> bytes_writer res" where
  "putUint32be rnd v = put_next rnd (put_be32 v)"

definition putUint64be :: "(nat \<Rightarrow> nat) \<Rightarrow> 64 word \<Rightarrow> bytes_writer \<Rightarrow> bytes_writer res" where
  "putUint64be rnd v = put_next rnd (put_be64 v)"

definition putUint16le :: "(nat \<Rightarrow> nat) \<Rightarrow> 16 word \<Rightarrow> bytes_writer \<Rightarrow> bytes_writer res" where
  "putUint16le rnd v = put_next rnd (put_le16 v)"

definition putUint32le :: "(nat \<Rightarrow> nat) \<Rightarrow> 32 word \<Rightarrow> bytes_writer \<Rightarrow> bytes_writer res" where
  "putUint32le rnd v = put_next rnd (put_le32 v)"

definition putUint64le :: "(nat \<Rightarrow> nat) \<Rightarrow> 64 word \<Rightarrow> bytes_writer \<Rightarrow> bytes_writer res" where
  "putUint64le rnd v = put_next rnd (put_le64 v)"

definition putSlice :: "(nat \<Rightarrow> nat) \<Rightarrow> bytes \<Rightarrow> bytes_writer \<Rightarrow> bytes_writer res" where
  "putSlice rnd p = put_next rnd p"

definition putString :: "(nat \<Rightarrow> nat) \<Rightarrow> string \<Rightarrow> bytes_writer \<Rightarrow> bytes_writer res" where
  "putString rnd s = put_next rnd (s2b s)"


text \<open>\<open>binary.PutUvarint\<close>\<close>

function uvarint_bytes :: "64 word \<Rightarrow> bytes" where
  "uvarint_bytes x = (if 0x80 \<le> x then (ucast x OR 0x80) # uvarint_bytes (drop_bit 7 x) else [ucast x])"
  by pat_completeness auto
termination
proof (relation "measure unat")
  fix x :: "64 word"
  assume "0x80 \<le> x"
  then have "128 \<le> unat x" by (simp add: word_le_nat_alt)
  then show "(drop_bit 7 x, x) \<in> measure unat" by (simp add: drop_bit_eq_div unat_div_distrib)
qed simp

declare uvarint_bytes.simps [simp del]

definition varint_word :: "64 word \<Rightarrow> 64 word" where
  "varint_word x = (if sint x < 0 then NOT (push_bit 1 x) else push_bit 1 x)"

text \<open>Room for ten bytes, then what was not needed is given back.\<close>

definition put_var :: "(nat \<Rightarrow> nat) \<Rightarrow> bytes \<Rightarrow> bytes_writer \<Rightarrow> bytes_writer res" where
  "put_var rnd d w = rbind (bw_Grow rnd 10 w) (\<lambda>(m, w1).
     let full = take m (bw_buf w1) @ go_copy (drop m (bw_buf w1)) d; k = m + length d
     in Ok (w1\<lparr>bw_buf := take k full, bw_spare := drop k full @ bw_spare w1\<rparr>))"

definition putUvarint :: "(nat \<Rightarrow> nat) \<Rightarrow> 64 word \<Rightarrow> bytes_writer \<Rightarrow> bytes_writer res" where
  "putUvarint rnd v = put_var rnd (uvarint_bytes v)"

definition putVarint :: "(nat \<Rightarrow> nat) \<Rightarrow> 64 word \<Rightarrow> bytes_writer \<Rightarrow> bytes_writer res" where
  "putVarint rnd v = put_var rnd (uvarint_bytes (varint_word v))"


definition bw_ReadFull :: "(nat \<Rightarrow> nat) \<Rightarrow> nat \<Rightarrow> bytes_writer \<times> conn \<Rightarrow> unit res \<times> bytes_writer \<times> conn" where
  "bw_ReadFull rnd n = (\<lambda>(w, c).
     case bw_Grow rnd n w of
       Inl e \<Rightarrow> (Err e, w, c)
     | Inr (m, w1) \<Rightarrow>
         (case io_read n c of
            (Inr d, c') \<Rightarrow> (Ok (), w1\<lparr>bw_buf := take m (bw_buf w1) @ d\<rparr>, c')
          | (Inl e, c') \<Rightarrow>
              (Err e, w1\<lparr>bw_buf := bw_buf w, bw_spare := go_copy (drop m (bw_buf w1)) (rd c) @ bw_spare w1\<rparr>, c')))"

text \<open>\<open>Slice\<close>: an empty writer over the array from \<open>s\<close> on, and what the first writer holds after the second was filled in
  place; the capacity of the second reaches behind \<open>e\<close>.\<close>

definition bw_Slice :: "nat \<Rightarrow> nat \<Rightarrow> bytes_writer \<Rightarrow> bytes_writer res" where
  "bw_Slice s e w = (if s \<le> e \<and> e \<le> bw_cap w
     then Ok \<lparr>bw_buf = [], bw_spare = drop s (bw_buf w @ bw_spare w), bw_nil = bw_nil w\<rparr> else Err out_of_range)"

definition bw_shared :: "nat \<Rightarrow> bytes_writer \<Rightarrow> bytes_writer \<Rightarrow> bytes_writer" where
  "bw_shared s v w = (let a = take s (bw_buf w @ bw_spare w) @ bw_buf v @ bw_spare v; n = length (bw_buf w)
     in w\<lparr>bw_buf := take n a, bw_spare := drop n a\<rparr>)"

definition bw_Write :: "(nat \<Rightarrow> nat) \<Rightarrow> bytes \<Rightarrow> bytes_writer \<Rightarrow> (nat \<times> bytes_writer) res" where
  "bw_Write rnd p w = rbind (putSlice rnd p w) (\<lambda>w'. Ok (length p, w'))"

definition bw_Reset :: "bytes_writer \<Rightarrow> bytes_writer" where
  "bw_Reset w = w\<lparr>bw_buf := [], bw_spare := bw_buf w @ bw_spare w\<rparr>"

section \<open>Reader\<close>

text \<open>What is still to come from the \<open>bufio.Reader\<close>, whose buffer has 4096 bytes and which then reports \<open>EOF\<close>, and the
  first error.\<close>

record proto_reader =
  pr_in :: bytes
  pr_err :: "gerr option"

definition bufferFull :: gerr where "bufferFull = Msg ''bufio: buffer full''"

definition bufio_Peek :: "nat \<Rightarrow> bytes \<Rightarrow> bytes \<times> gerr option" where
  "bufio_Peek n b = (if 4096 < n then (take 4096 b, Some bufferFull)
     else if length b < n then (b, Some EOF) else (take n b, None))"

definition tryPeek :: "nat \<Rightarrow> proto_reader \<Rightarrow> (bytes \<times> gerr option) \<times> proto_reader" where
  "tryPeek n p =
     (if pr_err p \<noteq> None then (([], pr_err p), p)
      else case bufio_Peek n (pr_in p) of
        (buf, None) \<Rightarrow> ((buf, None), p) | (buf, Some e) \<Rightarrow> ((buf, Some e), p\<lparr>pr_err := Some e\<rparr>))"

definition try_peek :: "nat \<Rightarrow> (bytes \<Rightarrow> 'a::zero) \<Rightarrow> proto_reader \<Rightarrow> 'a \<times> proto_reader" where
  "try_peek n get p = (case tryPeek n p of ((buf, e), p') \<Rightarrow> (if e \<noteq> None then 0 else get buf, p'))"

definition try_read :: "nat \<Rightarrow> (bytes \<Rightarrow> 'a::zero) \<Rightarrow> proto_reader \<Rightarrow> 'a \<times> proto_reader" where
  "try_read n get p = (case try_peek n get p of (i, p') \<Rightarrow>
     (i, if pr_err p' = None then p'\<lparr>pr_in := drop n (pr_in p')\<rparr> else p'))"

definition tryPeekUint8 :: "proto_reader \<Rightarrow> byte \<times> proto_reader" where
  "tryPeekUint8 = try_peek 1 (\<lambda>b. hd b :: byte)"

definition tryPeekUint16le :: "proto_reader \<Rightarrow> 16 word \<times> proto_reader" where
  "tryPeekUint16le = try_peek 2 get_le16"

definition tryPeekUint32le :: "proto_reader \<Rightarrow> 32 word \<times> proto_reader" where
  "tryPeekUint32le = try_peek 4 get_le32"

definition tryPeekUint64le :: "proto_reader \<Rightarrow> 64 word \<times> proto_reader" where
  "tryPeekUint64le = try_peek 8 get_le64"

definition tryPeekUint16be :: "proto_reader \<Rightarrow> 16 word \<times> proto_reader" where
  "tryPeekUint16be = try_peek 2 get_be16"

definition tryPeekUint32be :: "proto_reader \<Rightarrow> 32 word \<times> proto_reader" where
  "tryPeekUint32be = try_peek 4 get_be32"

definition tryPeekUint64be :: "proto_reader \<Rightarrow> 64 word \<times> proto_reader" where
  "tryPeekUint64be = try_peek 8 get_be64"

definition tryReadUint8 :: "proto_reader \<Rightarrow> byte \<times> proto_reader" where
  "tryReadUint8 = try_read 1 (\<lambda>b. hd b :: byte)"

definition tryReadUint16le :: "proto_reader \<Rightarrow> 16 word \<times> proto_reader" where
  "tryReadUint16le = try_read 2 get_le16"

definition tryReadUint32le :: "proto_reader \<Rightarrow> 32 word \<times> proto_reader" where
  "tryReadUint32le = try_read 4 get_le32"

definition tryReadUint64le :: "proto_reader \<Rightarrow> 64 word \<times> proto_reader" where
  "tryReadUint64le = try_read 8 get_le64"

definition tryReadUint16be :: "proto_reader \<Rightarrow> 16 word \<times> proto_reader" where
  "tryReadUint16be = try_read 2 get_be16"

definition tryReadUint32be :: "proto_reader \<Rightarrow> 32 word \<times> proto_reader" where
  "tryReadUint32be = try_read 4 get_be32"

definition tryReadUint64be :: "proto_reader \<Rightarrow> 64 word \<times> proto_reader" where
  "tryReadUint64be = try_read 8 get_be64"


definition tryByte :: "proto_reader \<Rightarrow> byte \<times> proto_reader" where
  "tryByte p =
     (if pr_err p \<noteq> None then (0, p)
      else case pr_in p of [] \<Rightarrow> (0, p\<lparr>pr_err := Some EOF\<rparr>) | b # r \<Rightarrow> (b, p\<lparr>pr_in := r\<rparr>))"

definition pr_next :: "nat \<Rightarrow> proto_reader \<Rightarrow> (bytes \<times> gerr option) \<times> proto_reader" where
  "pr_next n p = (case tryPeek n p of ((buf, e), p') \<Rightarrow>
     ((buf, e), if e = None then p'\<lparr>pr_in := drop n (pr_in p')\<rparr> else p'))"

definition pr_Next :: "nat \<Rightarrow> proto_reader \<Rightarrow> bytes res \<times> proto_reader" where
  "pr_Next n p = (case pr_next n p of ((buf, e), p') \<Rightarrow> (case e of None \<Rightarrow> Ok buf | Some e \<Rightarrow> Err e, p'))"

definition tryNext :: "nat \<Rightarrow> proto_reader \<Rightarrow> bytes \<times> proto_reader" where
  "tryNext n p = (case pr_Next n p of (Inr b, p') \<Rightarrow> (b, p') | (Inl e, p') \<Rightarrow> ([], p'))"

text \<open>\<open>Read\<close> into \<open>m\<close> bytes; \<open>seg\<close> is how many the buffer has at that moment.\<close>

definition pr_Read :: "nat \<Rightarrow> nat \<Rightarrow> proto_reader \<Rightarrow> bytes res \<times> proto_reader" where
  "pr_Read m seg p =
     (case pr_err p of
        Some e \<Rightarrow> (Err e, p)
      | None \<Rightarrow>
          if m = 0 then (Ok [], p)
          else if pr_in p = [] then (Err EOF, p\<lparr>pr_err := Some EOF\<rparr>)
          else let k = min m (max 1 seg) in (Ok (take k (pr_in p)), p\<lparr>pr_in := drop k (pr_in p)\<rparr>))"

text \<open>\<open>ReadFull\<close> neither looks at the error nor keeps its own; \<open>TryReadFull\<close> keeps it.\<close>

definition pr_ReadFull :: "nat \<Rightarrow> proto_reader \<Rightarrow> bytes res \<times> proto_reader" where
  "pr_ReadFull n p = (case read_full n (pr_in p) of
     Inl e \<Rightarrow> (Err e, p\<lparr>pr_in := []\<rparr>) | Inr (x, r) \<Rightarrow> (Ok x, p\<lparr>pr_in := r\<rparr>))"

definition tryReadFull :: "nat \<Rightarrow> proto_reader \<Rightarrow> bytes res \<times> proto_reader" where
  "tryReadFull n p = (case pr_ReadFull n p of (Inl e, p') \<Rightarrow> (Err e, p'\<lparr>pr_err := Some e\<rparr>) | x \<Rightarrow> x)"

definition pr_Reset :: "bytes \<Rightarrow> proto_reader \<Rightarrow> proto_reader" where
  "pr_Reset inp p = p\<lparr>pr_in := inp, pr_err := None\<rparr>"

end
