(* ===== verification/ProtobytesFacts.thy ===== *)
theory ProtobytesFacts
  imports Protobytes
begin

text \<open>
  What is put into a \<open>BytesWriter\<close> is read back by a \<open>BytesReader\<close>, for every width, byte order and variable length, however
  the slice grows; and the \<open>Reader\<close> reads what a \<open>BytesReader\<close> reads until its first error.
\<close>

section \<open>Variable length integers\<close>

lemma unat_ucast_small: "unat (v :: 64 word) < 128 \<Longrightarrow> unat (ucast v :: byte) = unat v"
  by (simp add: unsigned_ucast_eq unsigned_take_bit_eq take_bit_nat_eq_self)

lemma uvarint_last:
  fixes v :: "64 word"
  assumes "v < 0x80"
  shows "(ucast v :: byte) < 0x80" "ucast (ucast v :: byte) = v"
proof -
  have "unat v < 128" using assms by (simp add: word_less_nat_alt)
  then have "unat (ucast v :: byte) = unat v" by (rule unat_ucast_small)
  then show "(ucast v :: byte) < 0x80" "ucast (ucast v :: byte) = v"
    using \<open>unat v < 128\<close> by (simp_all add: word_less_nat_alt word_unat_eq_iff unsigned_ucast_eq unsigned_take_bit_eq)
qed

lemma bit_7f: "bit (0x7F :: int) n \<longleftrightarrow> n < 7"
proof -
  have "(0x7F :: int) = mask 7" by (simp add: mask_eq_exp_minus_1)
  then show ?thesis by (simp only: bit_mask_iff) simp
qed

lemma bit_80: "bit (0x80 :: int) n \<longleftrightarrow> n = 7"
proof -
  have "(0x80 :: int) = push_bit 7 1" by (simp add: push_bit_eq_mult)
  then show ?thesis by (simp only: bit_push_bit_iff) (auto simp: bit_1_iff)
qed

lemma uvarint_more:
  fixes v :: "64 word"
  shows "\<not> (ucast v OR 0x80 :: byte) < 0x80" "(ucast v OR 0x80 :: byte) AND 0x7f = ucast v AND 0x7f"
proof -
  have "(ucast v OR 0x80 :: byte) AND 0x80 = 0x80" by (rule bit_word_eqI) (auto simp: bit_simps bit_80)
  then have "0x80 \<le> (ucast v OR 0x80 :: byte)" by (metis word_and_le2)
  then show "\<not> (ucast v OR 0x80 :: byte) < 0x80" by simp
  show "(ucast v OR 0x80 :: byte) AND 0x7f = ucast v AND 0x7f" by (rule bit_word_eqI) (auto simp: bit_simps bit_80 bit_7f)
qed

lemma uvarint_join:
  fixes v :: "64 word"
  shows "push_bit s (ucast (ucast v AND 0x7f :: byte)) OR push_bit (s + 7) (drop_bit 7 v) = push_bit s v"
proof (rule bit_word_eqI)
  fix n assume "n < LENGTH(64)"
  then show "bit (push_bit s (ucast (ucast v AND 0x7f :: byte)) OR push_bit (s + 7) (drop_bit 7 v)) n = bit (push_bit s v) n"
  proof (cases "s + 7 \<le> n")
    case True
    then have "7 + (n - (s + 7)) = n - s" by simp
    then show ?thesis using True \<open>n < LENGTH(64)\<close> by (auto simp: bit_simps bit_7f)
  next
    case False
    then show ?thesis by (auto simp: bit_simps bit_7f)
  qed
qed

lemma uvarint_loop_bytes:
  "unat v < 2 ^ (64 - s) \<Longrightarrow> s = 7 * (10 - k) \<Longrightarrow> 1 \<le> k \<Longrightarrow> k \<le> 10
    \<Longrightarrow> uvarint_loop k acc s (uvarint_bytes v @ r) = ((acc OR push_bit s v, None), r)"
proof (induction v arbitrary: k acc s rule: uvarint_bytes.induct)
  case (1 v)
  obtain k' where k: "k = Suc k'" using 1(4) by (cases k) auto
  show ?case
  proof (cases "0x80 \<le> v")
    case False
    then have v: "v < 0x80" by simp
    have "\<not> (k' = 0 \<and> 1 < (ucast v :: byte))"
    proof
      assume a: "k' = 0 \<and> 1 < (ucast v :: byte)"
      then have "unat v < 2" using 1(2,3) by (simp add: k)
      then have "unat (ucast v :: byte) < 2" using unat_ucast_small [of v] by simp
      with a show False by (simp add: word_less_nat_alt)
    qed
    then show ?thesis
      using uvarint_last [OF v] False by (subst uvarint_bytes.simps) (simp add: k)
  next
    case True
    then have v: "128 \<le> unat v" by (simp add: word_le_nat_alt)
    have "s \<noteq> 63" using 1(2) v by auto
    then have k2: "s \<le> 56" "1 \<le> k'" "s + 7 = 7 * (10 - k')" using 1(3,4,5) k by auto
    have "unat (drop_bit 7 v) = unat v div 2 ^ 7" by (simp add: drop_bit_eq_div unat_div)
    moreover have "(2 :: nat) ^ (64 - s) = 2 ^ (64 - (s + 7)) * 2 ^ 7" using k2(1) by (subst power_add [symmetric]) simp
    ultimately have "unat (drop_bit 7 v) < 2 ^ (64 - (s + 7))" using 1(2) by (simp only: less_mult_imp_div_less)
    from 1(1) [OF True this k2(3) k2(2)] show ?thesis
      using True uvarint_more [of v] uvarint_join [of s v] 1(5) k
      by (subst uvarint_bytes.simps) (simp add: or.assoc)
  qed
qed

lemma uvarint_bytes_nonempty [simp]: "uvarint_bytes v \<noteq> []"
  by (subst uvarint_bytes.simps) simp

lemma uvarint_roundtrip: "readUvarint (uvarint_bytes v @ r) = ((v, None), r)"
proof -
  have "unat v < 2 ^ 64" using unsigned_less [of v, where ?'a = nat] by simp
  then show ?thesis using uvarint_loop_bytes [of v 0 10 0 r] by (simp add: readUvarint_def)
qed

lemma varint_word_inverse:
  fixes x :: "64 word"
  shows "(if odd (varint_word x) then NOT (drop_bit 1 (varint_word x)) else drop_bit 1 (varint_word x)) = x"
proof (cases "sint x < 0")
  case True
  then have m: "bit x 63" by (simp add: bit_last_iff [of x, symmetric])
  have "odd (NOT (push_bit 1 x))" by (simp add: even_not_iff push_bit_eq_mult)
  moreover have "NOT (drop_bit 1 (NOT (push_bit 1 x))) = x"
  proof (rule bit_word_eqI)
    fix n assume "n < LENGTH(64)"
    then show "bit (NOT (drop_bit 1 (NOT (push_bit 1 x)))) n = bit x n"
      using m by (cases "n = 63") (auto simp only: bit_not_iff bit_drop_bit_eq bit_push_bit_iff comp_def, auto)
  qed
  ultimately show ?thesis using True by (simp add: varint_word_def)
next
  case False
  then have m: "\<not> bit x 63" by (simp add: bit_last_iff [of x, symmetric])
  have "drop_bit 1 (push_bit 1 x) = x"
  proof (rule bit_word_eqI)
    fix n assume "n < LENGTH(64)"
    then show "bit (drop_bit 1 (push_bit 1 x)) n = bit x n" using m by (cases "n = 63") (auto simp only: bit_drop_bit_eq bit_push_bit_iff comp_def, auto)
  qed
  then show ?thesis using False by (simp add: varint_word_def push_bit_eq_mult)
qed

lemma varint_roundtrip: "readVarint (uvarint_bytes (varint_word v) @ r) = ((v, None), r)"
  using varint_word_inverse [of v] by (simp add: readVarint_def uvarint_roundtrip)

lemma uvarint_short: "length (uvarint_bytes v) \<le> 10"
proof -
  have "unat v < 2 ^ (7 * k) \<Longrightarrow> 1 \<le> k \<Longrightarrow> length (uvarint_bytes v) \<le> k" for k
  proof (induction v arbitrary: k rule: uvarint_bytes.induct)
    case (1 v)
    show ?case
    proof (cases "0x80 \<le> v")
      case True
      then have v: "128 \<le> unat v" by (simp add: word_le_nat_alt)
      then have "k \<noteq> 1" using 1(2) by auto
      then obtain k' where k: "k = Suc k'" "1 \<le> k'" using 1(3) by (cases k) auto
      have "unat (drop_bit 7 v) = unat v div 2 ^ 7" by (simp add: drop_bit_eq_div unat_div)
      moreover have "unat v < 2 ^ (7 * k') * 2 ^ 7" using 1(2) by (simp add: k power_add)
      ultimately have "unat (drop_bit 7 v) < 2 ^ (7 * k')" by (simp only: less_mult_imp_div_less)
      from 1(1) [OF True this k(2)] show ?thesis using True by (subst uvarint_bytes.simps) (simp add: k)
    next
      case False
      then show ?thesis using 1(3) by (subst uvarint_bytes.simps) simp
    qed
  qed
  moreover have "unat v < 2 ^ (7 * 10)" using unsigned_less [of v, where ?'a = nat] by simp
  ultimately show ?thesis by simp
qed


section \<open>What is read is what was put\<close>

interpretation u8: codec "\<lambda>v. [v]" readUint8 "\<lambda>_. True"
  by unfold_locales (simp_all add: readUint8_def rd_get_def rd_take_def)

lemma rd_get_append: "length x = n \<Longrightarrow> rd_get n f (x @ r) = Ok (f x, r)"
  by (simp add: rd_get_def rd_take_def)

lemma get_le_all: "get_le16 (put_le16 w) = w" "get_le32 (put_le32 x) = x" "get_le64 (put_le64 y) = y"
  using get_put_le(1) [of w "[]"] get_put_le(2) [of x "[]"] get_put_le(3) [of y "[]"] by simp_all

lemma put_nonempty: "length x = Suc n \<Longrightarrow> x \<noteq> []"
  by auto

interpretation u16be: codec put_be16 readUint16be "\<lambda>_. True"
  by unfold_locales (simp_all add: readUint16be_def rd_get_append put_nonempty)

interpretation u32be: codec put_be32 readUint32be "\<lambda>_. True"
  by unfold_locales (simp_all add: readUint32be_def rd_get_append put_nonempty)

interpretation u64be: codec put_be64 readUint64be "\<lambda>_. True"
  by unfold_locales (simp_all add: readUint64be_def rd_get_append put_nonempty)

interpretation u16le: codec put_le16 readUint16le "\<lambda>_. True"
  by unfold_locales (simp_all add: readUint16le_def rd_get_append get_le_all put_nonempty)

interpretation u32le: codec put_le32 readUint32le "\<lambda>_. True"
  by unfold_locales (simp_all add: readUint32le_def rd_get_append get_le_all put_nonempty)

interpretation u64le: codec put_le64 readUint64le "\<lambda>_. True"
  by unfold_locales (simp_all add: readUint64le_def rd_get_append get_le_all put_nonempty)

text \<open>A reader that returns a value and an error.\<close>

definition as_res :: "(bytes \<Rightarrow> ('a \<times> gerr option) \<times> bytes) \<Rightarrow> bytes \<Rightarrow> ('a \<times> bytes) res" where
  "as_res f b = (case f b of ((v, None), r) \<Rightarrow> Ok (v, r) | ((v, Some e), r) \<Rightarrow> Err e)"

interpretation uvarint: codec uvarint_bytes "as_res readUvarint" "\<lambda>_. True"
  by unfold_locales (simp_all add: as_res_def uvarint_roundtrip)

interpretation varint: codec "\<lambda>v. uvarint_bytes (varint_word v)" "as_res readVarint" "\<lambda>_. True"
  by unfold_locales (simp_all add: as_res_def varint_roundtrip)

datatype proto_val =
    U8 byte | U16be "16 word" | U32be "32 word" | U64be "64 word" | U16le "16 word" | U32le "32 word" | U64le "64 word"
  | Uvarint "64 word" | Varint "64 word" | Slice bytes | Text string

fun put_val :: "(nat \<Rightarrow> nat) \<Rightarrow> proto_val \<Rightarrow> bytes_writer \<Rightarrow> bytes_writer res" where
  "put_val rnd (U8 v) = putUint8 rnd v"
| "put_val rnd (U16be v) = putUint16be rnd v"
| "put_val rnd (U32be v) = putUint32be rnd v"
| "put_val rnd (U64be v) = putUint64be rnd v"
| "put_val rnd (U16le v) = putUint16le rnd v"
| "put_val rnd (U32le v) = putUint32le rnd v"
| "put_val rnd (U64le v) = putUint64le rnd v"
| "put_val rnd (Uvarint v) = putUvarint rnd v"
| "put_val rnd (Varint v) = putVarint rnd v"
| "put_val rnd (Slice d) = putSlice rnd d"
| "put_val rnd (Text s) = putString rnd s"

fun put_all :: "(nat \<Rightarrow> nat) \<Rightarrow> proto_val list \<Rightarrow> bytes_writer \<Rightarrow> bytes_writer res" where
  "put_all rnd [] w = Ok w"
| "put_all rnd (v # vs) w = rbind (put_val rnd v w) (put_all rnd vs)"

text \<open>Reading a value of the kind of a given one.\<close>

definition rd_map :: "('a \<Rightarrow> 'b) \<Rightarrow> ('a \<times> bytes) res \<Rightarrow> ('b \<times> bytes) res" where
  "rd_map f x = rbind x (\<lambda>(v, r). Ok (f v, r))"

fun get_val :: "proto_val \<Rightarrow> bytes \<Rightarrow> (proto_val \<times> bytes) res" where
  "get_val (U8 _) b = rd_map U8 (readUint8 b)"
| "get_val (U16be _) b = rd_map U16be (readUint16be b)"
| "get_val (U32be _) b = rd_map U32be (readUint32be b)"
| "get_val (U64be _) b = rd_map U64be (readUint64be b)"
| "get_val (U16le _) b = rd_map U16le (readUint16le b)"
| "get_val (U32le _) b = rd_map U32le (readUint32le b)"
| "get_val (U64le _) b = rd_map U64le (readUint64le b)"
| "get_val (Uvarint _) b = rd_map Uvarint (as_res readUvarint b)"
| "get_val (Varint _) b = rd_map Varint (as_res readVarint b)"
| "get_val (Slice d) b = (case splitAt (length d) b of (x, r) \<Rightarrow> Ok (Slice x, r))"
| "get_val (Text s) b = (case splitAt (length s) b of (x, r) \<Rightarrow> Ok (Text (b2s x), r))"

fun get_all :: "proto_val list \<Rightarrow> bytes \<Rightarrow> (proto_val list \<times> bytes) res" where
  "get_all [] b = Ok ([], b)"
| "get_all (k # ks) b = rbind (get_val k b) (\<lambda>(v, r). rbind (get_all ks r) (\<lambda>(vs, r'). Ok (v # vs, r')))"

text \<open>The bytes of a value.\<close>

fun val_bytes :: "proto_val \<Rightarrow> bytes" where
  "val_bytes (U8 v) = [v]" | "val_bytes (U16be v) = put_be16 v" | "val_bytes (U32be v) = put_be32 v"
| "val_bytes (U64be v) = put_be64 v" | "val_bytes (U16le v) = put_le16 v" | "val_bytes (U32le v) = put_le32 v"
| "val_bytes (U64le v) = put_le64 v" | "val_bytes (Uvarint v) = uvarint_bytes v"
| "val_bytes (Varint v) = uvarint_bytes (varint_word v)" | "val_bytes (Slice d) = d" | "val_bytes (Text s) = s2b s"

lemma get_val_bytes: "get_val v (val_bytes v @ r) = Ok (v, r)"
  using u8.dec_enc u16be.dec_enc u32be.dec_enc u64be.dec_enc u16le.dec_enc u32le.dec_enc u64le.dec_enc uvarint.dec_enc varint.dec_enc
  by (cases v) (simp_all add: rd_map_def splitAt_def)

lemma get_all_bytes: "get_all vs (concat (map val_bytes vs) @ r) = Ok (vs, r)"
  by (induction vs) (simp_all add: get_val_bytes)

section \<open>A writer appends\<close>

text \<open>A nil slice is empty and has no capacity.\<close>

definition bw_ok :: "bytes_writer \<Rightarrow> bool" where
  "bw_ok w \<longleftrightarrow> (bw_nil w \<longrightarrow> bw_buf w = [] \<and> bw_spare w = [])"

text \<open>Without room the slice is always copied into a larger one: the branch that leaves it is never taken.\<close>

lemma bw_Grow_alloc:
  assumes "\<And>k. k \<le> rnd k" "\<not> n \<le> length (bw_spare w)"
  defines "g \<equiv> growSlice rnd n w"
  shows "bw_Grow rnd n w =
    (if bw_nil w \<and> n \<le> 64 then Ok (0, w\<lparr>bw_buf := replicate n 0, bw_spare := replicate (64 - n) 0, bw_nil := False\<rparr>)
     else if maxInt - int (bw_cap w) - int n < int (bw_cap w) then Err (Panic ''bytes.Buffer: too large'')
     else Ok (length (bw_buf w), g\<lparr>bw_buf := bw_buf w @ replicate n 0, bw_spare := replicate (length (bw_spare g) - n) 0\<rparr>))"
proof -
  have t: "tryGrowByReslice n w = None" using assms(2) by (simp add: tryGrowByReslice_def)
  have l: "n \<le> length (bw_spare g)"
    using assms(1) [of "length (bw_buf w) + n"] assms(1) [of "2 * bw_cap w"] by (auto simp: g_def growSlice_def Let_def)
  have g: "bw_buf g = bw_buf w" "\<exists>k. bw_spare g = replicate k 0" by (auto simp: g_def growSlice_def Let_def)
  have "int (bw_cap w) div 2 - int (length (bw_buf w)) < int n" using assms(2) by linarith
  then show ?thesis
    unfolding bw_Grow_def bw_grow_def Let_def t option.case g_def [symmetric]
    using l g by (auto simp: min_absorb2)
qed

lemma grow_ok:
  assumes "\<And>k. k \<le> rnd k" "bw_ok w" "bw_Grow rnd n w = Ok (m, w')"
  shows "m = length (bw_buf w) \<and> take m (bw_buf w') = bw_buf w \<and> length (bw_buf w') = m + n \<and> bw_ok w'"
proof (cases "n \<le> length (bw_spare w)")
  case True
  then show ?thesis using assms(2,3) by (auto simp: bw_Grow_def tryGrowByReslice_def bw_ok_def)
next
  case False
  then show ?thesis
    using assms(2,3) bw_Grow_alloc [OF assms(1) False] by (auto simp: bw_ok_def growSlice_def Let_def split: if_splits)
qed

lemma grow_no_panic:
  assumes "\<And>k. k \<le> rnd k" "2 * int (bw_cap w) + int n \<le> maxInt"
  shows "\<exists>m w'. bw_Grow rnd n w = Ok (m, w')"
proof (cases "n \<le> length (bw_spare w)")
  case True
  then show ?thesis by (auto simp: bw_Grow_def tryGrowByReslice_def)
next
  case False
  then show ?thesis using assms(2) bw_Grow_alloc [OF assms(1) False] by (auto split: if_splits)
qed

lemma put_next_ok:
  assumes "\<And>k. k \<le> rnd k" "bw_ok w" "put_next rnd d w = Ok w'"
  shows "bw_buf w' = bw_buf w @ d \<and> bw_ok w'"
proof -
  obtain m w1 where g: "bw_Grow rnd (length d) w = Ok (m, w1)" "w' = w1\<lparr>bw_buf := take m (bw_buf w1) @ go_copy (drop m (bw_buf w1)) d\<rparr>"
    using assms(3) by (auto simp: put_next_def rbind_Ok_iff)
  from grow_ok [OF assms(1,2) g(1)] have r: "take m (bw_buf w1) = bw_buf w" "length (drop m (bw_buf w1)) = length d" "bw_ok w1" by auto
  then have "bw_buf w' = bw_buf w @ d" using g(2) by (simp add: go_copy_full)
  moreover have "bw_ok w'"
    using r g(2) by (cases "bw_nil w1") (auto simp: bw_ok_def go_copy_full)
  ultimately show ?thesis by simp
qed

lemma put_var_ok:
  assumes "\<And>k. k \<le> rnd k" "bw_ok w" "put_var rnd d w = Ok w'" "length d \<le> 10"
  shows "bw_buf w' = bw_buf w @ d \<and> bw_ok w'"
proof -
  obtain m w1 where g: "bw_Grow rnd 10 w = Ok (m, w1)"
    and w': "w' = w1\<lparr>bw_buf := take (m + length d) (take m (bw_buf w1) @ go_copy (drop m (bw_buf w1)) d),
      bw_spare := drop (m + length d) (take m (bw_buf w1) @ go_copy (drop m (bw_buf w1)) d) @ bw_spare w1\<rparr>"
    using assms(3) by (auto simp: put_var_def rbind_Ok_iff Let_def)
  from grow_ok [OF assms(1,2) g] have r: "m = length (bw_buf w)" "take m (bw_buf w1) = bw_buf w" "length (drop m (bw_buf w1)) = 10"
      "bw_ok w1" "bw_buf w1 \<noteq> []" "min (length (bw_buf w1)) m = m" by auto
  have "take (length d) (go_copy (drop m (bw_buf w1)) d) = d" using r(3) assms(4) by (simp add: go_copy_def)
  then have "bw_buf w' = bw_buf w @ d" using w' r(1,2,6) by simp
  moreover have "bw_ok w'" using r(4,5) w' by (auto simp: bw_ok_def)
  ultimately show ?thesis by simp
qed

lemmas put_val_defs = putUint8_def putUint16be_def putUint32be_def putUint64be_def putUint16le_def putUint32le_def putUint64le_def
  putSlice_def putString_def putUvarint_def putVarint_def

lemma put_val_ok:
  assumes "\<And>k. k \<le> rnd k" "bw_ok w" "put_val rnd v w = Ok w'"
  shows "bw_buf w' = bw_buf w @ val_bytes v \<and> bw_ok w'"
  using put_next_ok [OF assms(1,2)] put_var_ok [OF assms(1,2)] uvarint_short assms(3) by (cases v) (simp_all add: put_val_defs)

lemma put_all_ok:
  assumes "\<And>k. k \<le> rnd k" "bw_ok w" "put_all rnd vs w = Ok w'"
  shows "bw_buf w' = bw_buf w @ concat (map val_bytes vs) \<and> bw_ok w'"
  using assms(2,3)
proof (induction vs arbitrary: w)
  case (Cons v vs)
  obtain w1 where w1: "put_val rnd v w = Ok w1" "put_all rnd vs w1 = Ok w'" using Cons.prems(2) by (auto simp: rbind_Ok_iff)
  from put_val_ok [OF assms(1) Cons.prems(1) w1(1)] Cons.IH [OF _ w1(2)] show ?case by simp
qed simp

text \<open>C27: What is put into a writer, values of any kind in any order, is appended to what it holds, whatever its capacity is and
  however the slice grows; and a \<open>BytesReader\<close> over it that reads the same kinds gets the same values back and leaves what
  follows.\<close>

theorem protobytes_roundtrip:
  assumes "\<And>k. k \<le> rnd k" "bw_ok w" "put_all rnd vs w = Ok w'"
  shows "\<exists>b. bw_buf w' = bw_buf w @ b \<and> get_all vs (b @ rest) = Ok (vs, rest) \<and> bw_ok w'"
  using put_all_ok [OF assms] get_all_bytes [of vs rest] by blast

definition newWriter :: bytes_writer where
  "newWriter = \<lparr>bw_buf = [], bw_spare = [], bw_nil = True\<rparr>"

definition sample_vals :: "proto_val list" where
  "sample_vals = [U16be 258, Uvarint 300, Text ''ab'', Slice (replicate 60 7), U32le 1]"

text \<open>While the sizes stay small nothing panics; here for a runtime that does not round up.\<close>

lemma grow_cap: "bw_Grow id n w = Ok (m, w') \<Longrightarrow> bw_cap w' \<le> 2 * bw_cap w + n + 64"
proof (cases "n \<le> length (bw_spare w)")
  case False
  have "k \<le> id k" for k :: nat by simp
  from bw_Grow_alloc [of id, OF this False] show "bw_Grow id n w = Ok (m, w') \<Longrightarrow> bw_cap w' \<le> 2 * bw_cap w + n + 64"
    by (auto simp: growSlice_def Let_def split: if_splits)
qed (auto simp: bw_Grow_def tryGrowByReslice_def)

lemma put_val_total:
  assumes "bw_cap w \<le> 2 ^ j" "length (val_bytes v) \<le> 2 ^ j" "6 \<le> j" "j \<le> 58"
  shows "\<exists>w'. put_val id v w = Ok w' \<and> bw_cap w' \<le> 2 ^ (j + 2)"
proof -
  have j: "(2 :: nat) ^ 6 \<le> 2 ^ j" "(2 :: nat) ^ j \<le> 2 ^ 58" using assms(3,4) by (intro power_increasing; simp)+
  have total: "\<exists>m w1. bw_Grow id n w = Ok (m, w1) \<and> bw_cap w1 \<le> 2 ^ (j + 2)" if "n \<le> 2 ^ j" for n
  proof -
    have "2 * int (bw_cap w) + int n \<le> maxInt" using assms(1) j that by (simp add: maxInt_def)
    then obtain m w1 where g: "bw_Grow id n w = Ok (m, w1)" using grow_no_panic [of id w n] by auto
    moreover have "bw_cap w1 \<le> 2 ^ (j + 2)" using grow_cap [OF g] assms(1) that j by simp
    ultimately show ?thesis by blast
  qed
  have "\<exists>w'. put_next id (val_bytes v) w = Ok w' \<and> bw_cap w' \<le> 2 ^ (j + 2)"
    using total [OF assms(2)] by (auto simp: put_next_def)
  moreover have "\<exists>w'. put_var id d w = Ok w' \<and> bw_cap w' \<le> 2 ^ (j + 2)" for d
    using total [of 10] j by (auto simp: put_var_def Let_def)
  ultimately show ?thesis by (cases v) (auto simp: put_val_defs)
qed

lemma put_all_total:
  "bw_cap w \<le> 2 ^ j \<Longrightarrow> \<forall>v \<in> set vs. length (val_bytes v) \<le> 2 ^ j \<Longrightarrow> 6 \<le> j \<Longrightarrow> j + 2 * length vs \<le> 60
    \<Longrightarrow> \<exists>w'. put_all id vs w = Ok w'"
proof (induction vs arbitrary: w j)
  case (Cons v vs)
  obtain w1 where w1: "put_val id v w = Ok w1" "bw_cap w1 \<le> 2 ^ (j + 2)"
    using put_val_total [of w j v] Cons.prems by auto
  have "(2 :: nat) ^ j \<le> 2 ^ (j + 2)" by (intro power_increasing) auto
  then have l: "\<forall>v \<in> set vs. length (val_bytes v) \<le> 2 ^ (j + 2)" using Cons.prems(2) by fastforce
  have "6 \<le> j + 2" "j + 2 + 2 * length vs \<le> 60" using Cons.prems(3,4) by auto
  from Cons.IH [OF w1(2) l this] obtain w' where "put_all id vs w1 = Ok w'" by blast
  then show ?case by (intro exI [of _ w']) (simp only: put_all.simps rbind.simps w1(1))
qed simp

theorem protobytes_roundtrip_witness:
  "\<exists>w' b. put_all id sample_vals newWriter = Ok w' \<and> bw_buf w' = b \<and> get_all sample_vals b = Ok (sample_vals, [])"
proof -
  have "\<forall>v \<in> set sample_vals. length (val_bytes v) \<le> 2 ^ 6" using uvarint_short [of 300] by (simp add: sample_vals_def)
  then obtain w' where w': "put_all id sample_vals newWriter = Ok w'"
    using put_all_total [of newWriter 6 sample_vals] by (auto simp: newWriter_def sample_vals_def)
  show ?thesis
    using protobytes_roundtrip [of id newWriter sample_vals w' "[]"] w' by (auto simp: newWriter_def bw_ok_def)
qed

section \<open>Slice\<close>

text \<open>A writer made by \<open>Slice\<close> may overwrite what the first writer holds behind the end of the slice: its capacity is not
  limited.\<close>

lemma slice_overrun:
  assumes "bw_Slice s e w = Ok v" "length d \<le> length (bw_spare v)"
  shows "\<exists>v'. putSlice rnd d v = Ok v'
    \<and> bw_buf (bw_shared s v' w) = take (length (bw_buf w)) (take s (bw_buf w @ bw_spare w) @ d @ drop (s + length d) (bw_buf w @ bw_spare w))"
proof -
  have v: "v = \<lparr>bw_buf = [], bw_spare = drop s (bw_buf w @ bw_spare w), bw_nil = bw_nil w\<rparr>"
    using assms(1) by (simp add: bw_Slice_def split: if_splits)
  show ?thesis
    using assms(2) unfolding v
    by (simp add: putSlice_def put_next_def bw_Grow_def tryGrowByReslice_def bw_shared_def Let_def go_copy_def min_absorb2
      del: take_append drop_append) (simp add: drop_drop add.commute del: take_append drop_append)
qed

section \<open>Errors of the variable length integers\<close>

lemma uvarint_loop_suffix: "uvarint_loop k x s b = (y, r) \<Longrightarrow> \<exists>u. b = u @ r \<and> length u \<le> k"
proof (induction k x s b arbitrary: y r rule: uvarint_loop.induct)
  case (2 k x s b)
  show ?case
  proof (cases b)
    case (Cons c b')
    show ?thesis
    proof (cases "c < 0x80")
      case True
      then show ?thesis using 2(2) Cons by (auto split: if_splits intro!: exI [of _ "[c]"])
    next
      case False
      from 2(1) [OF Cons False] 2(2) obtain u where "b' = u @ r" "length u \<le> k" using False Cons by auto
      then show ?thesis by (intro exI [of _ "c # u"]) (simp add: Cons)
    qed
  qed (use 2(2) in auto)
qed simp

lemma uvarint_loop_more:
  "\<forall>c \<in> set u. 0x80 \<le> c \<Longrightarrow> length u \<le> k \<Longrightarrow> \<exists>x'. uvarint_loop k x s (u @ r) = uvarint_loop (k - length u) x' (s + 7 * length u) r"
proof (induction u arbitrary: k x s)
  case (Cons c u)
  then obtain k' where k: "k = Suc k'" by (cases k) auto
  from Cons.IH [of k' "x OR push_bit s (ucast (c AND 0x7f))" "s + 7"] Cons.prems show ?case
    by (auto simp: k not_less [symmetric] algebra_simps)
qed auto

text \<open>An integer that is cut off is an unexpected end, an empty slice the end, and more than ten bytes with the
  continuation bit an overflow; whatever the slice holds, \<open>ReadUvarint\<close> takes at most ten bytes off its front.\<close>

theorem uvarint_errors:
  assumes "\<forall>c \<in> set u. 0x80 \<le> c"
  shows "(length u < 10 \<longrightarrow> snd (fst (readUvarint u)) = Some (if u = [] then EOF else UnexpectedEOF))
    \<and> (length u = 10 \<longrightarrow> snd (fst (readUvarint (u @ r))) = Some overflow \<and> snd (readUvarint (u @ r)) = r)"
proof -
  have "snd (fst (readUvarint u)) = Some (if u = [] then EOF else UnexpectedEOF)" if l: "length u < 10"
  proof -
    obtain x' where "readUvarint u = uvarint_loop (10 - length u) x' (7 * length u) []"
      using uvarint_loop_more [OF assms, of 10 0 0 "[]"] l by (auto simp: readUvarint_def)
    moreover have "10 - length u = Suc (9 - length u)" "9 - length u = 9 \<longleftrightarrow> u = []" using l by (simp, cases u) auto
    ultimately show ?thesis by simp
  qed
  moreover have "snd (fst (readUvarint (u @ r))) = Some overflow \<and> snd (readUvarint (u @ r)) = r" if l: "length u = 10"
    using uvarint_loop_more [OF assms, of 10 0 0 r] l by (auto simp: readUvarint_def)
  ultimately show ?thesis by blast
qed

theorem uvarint_errors_witness:
  "snd (fst (readUvarint [0xff, 0x80])) = Some UnexpectedEOF \<and> snd (fst (readUvarint (replicate 10 0xff))) = Some overflow"
  using uvarint_errors [of "[0xff, 0x80]"] uvarint_errors [of "replicate 10 0xff" "[]"] by simp

section \<open>The reader with an error\<close>

datatype fixed = F8 | F16le | F32le | F64le | F16be | F32be | F64be

fun fixed_size :: "fixed \<Rightarrow> nat" where
  "fixed_size F8 = 1" | "fixed_size F16le = 2" | "fixed_size F32le = 4" | "fixed_size F64le = 8"
| "fixed_size F16be = 2" | "fixed_size F32be = 4" | "fixed_size F64be = 8"

fun fixed_try :: "fixed \<Rightarrow> proto_reader \<Rightarrow> nat \<times> proto_reader" where
  "fixed_try F8 p = map_prod unat id (tryReadUint8 p)"
| "fixed_try F16le p = map_prod unat id (tryReadUint16le p)"
| "fixed_try F32le p = map_prod unat id (tryReadUint32le p)"
| "fixed_try F64le p = map_prod unat id (tryReadUint64le p)"
| "fixed_try F16be p = map_prod unat id (tryReadUint16be p)"
| "fixed_try F32be p = map_prod unat id (tryReadUint32be p)"
| "fixed_try F64be p = map_prod unat id (tryReadUint64be p)"

fun fixed_read :: "fixed \<Rightarrow> bytes \<Rightarrow> (nat \<times> bytes) res" where
  "fixed_read F8 b = rd_map unat (readUint8 b)"
| "fixed_read F16le b = rd_map unat (readUint16le b)"
| "fixed_read F32le b = rd_map unat (readUint32le b)"
| "fixed_read F64le b = rd_map unat (readUint64le b)"
| "fixed_read F16be b = rd_map unat (readUint16be b)"
| "fixed_read F32be b = rd_map unat (readUint32be b)"
| "fixed_read F64be b = rd_map unat (readUint64be b)"

fun try_all :: "fixed list \<Rightarrow> proto_reader \<Rightarrow> nat list \<times> proto_reader" where
  "try_all [] p = ([], p)"
| "try_all (f # fs) p = (case fixed_try f p of (v, p1) \<Rightarrow> (case try_all fs p1 of (vs, p2) \<Rightarrow> (v # vs, p2)))"

text \<open>What the reads should give: values while there are enough bytes, then zeros and \<open>EOF\<close>.\<close>

fun read_spec :: "fixed list \<Rightarrow> bytes \<Rightarrow> nat list \<times> bytes \<times> gerr option" where
  "read_spec [] b = ([], b, None)"
| "read_spec (f # fs) b =
     (case fixed_read f b of
        Inr (v, r) \<Rightarrow> (case read_spec fs r of (vs, x) \<Rightarrow> (v # vs, x))
      | Inl _ \<Rightarrow> (replicate (Suc (length fs)) 0, b, Some EOF))"

lemmas try_read_defs = tryReadUint8_def tryReadUint16le_def tryReadUint32le_def tryReadUint64le_def tryReadUint16be_def
  tryReadUint32be_def tryReadUint64be_def readUint8_def readUint16le_def readUint32le_def readUint64le_def readUint16be_def
  readUint32be_def readUint64be_def

lemma try_read_get:
  fixes g :: "bytes \<Rightarrow> 'a::len word"
  assumes "n \<le> 8"
  shows "pr_err p = None \<Longrightarrow> map_prod unat id (try_read n g p) = (case rd_map unat (rd_get n g (pr_in p)) of
      Inr (v, r) \<Rightarrow> (v, p\<lparr>pr_in := r\<rparr>) | Inl _ \<Rightarrow> (0, p\<lparr>pr_err := Some EOF\<rparr>))"
    "pr_err p = Some e \<Longrightarrow> map_prod unat id (try_read n g p) = (0, p)"
  using assms by (auto simp: try_read_def try_peek_def tryPeek_def bufio_Peek_def rd_map_def rd_get_def rd_take_def)

lemma fixed_try_read:
  "pr_err p = None \<Longrightarrow> fixed_try f p = (case fixed_read f (pr_in p) of
      Inr (v, r) \<Rightarrow> (v, p\<lparr>pr_in := r\<rparr>) | Inl _ \<Rightarrow> (0, p\<lparr>pr_err := Some EOF\<rparr>))"
  "pr_err p = Some e \<Longrightarrow> fixed_try f p = (0, p)"
  by (cases f; simp add: try_read_defs try_read_get)+

lemma try_all_latched: "pr_err p = Some e \<Longrightarrow> try_all fs p = (replicate (length fs) 0, p)"
  by (induction fs) (simp_all add: fixed_try_read(2))

text \<open>Reading with the \<open>Try\<close> functions and looking at the error once at the end is the same as reading each value off a
  slice: the values are those of the \<open>BytesReader\<close> up to the first that is cut off; that one and all later ones are zero, the
  error is \<open>EOF\<close>, and nothing more is taken.\<close>

theorem proto_reader_latch:
  assumes "pr_err p = None"
  shows "try_all fs p = (case read_spec fs (pr_in p) of (vs, r, e) \<Rightarrow> (vs, p\<lparr>pr_in := r, pr_err := e\<rparr>))"
  using assms
proof (induction fs arbitrary: p)
  case (Cons f fs)
  show ?case
  proof (cases "fixed_read f (pr_in p)")
    case (Inl e)
    then show ?thesis using Cons.prems by (simp add: fixed_try_read(1) try_all_latched)
  next
    case (Inr x)
    obtain v r where "x = (v, r)" by (cases x)
    then show ?thesis
      using Inr Cons.prems Cons.IH [of "p\<lparr>pr_in := r\<rparr>"] by (cases "read_spec fs r") (simp add: fixed_try_read(1))
  qed
qed simp

theorem proto_reader_latch_witness:
  "fst (try_all [F16be, F32le, F8] \<lparr>pr_in = [1, 2, 3], pr_err = None\<rparr>) = [258, 0, 0]"
  using proto_reader_latch [of "\<lparr>pr_in = [1, 2, 3], pr_err = None\<rparr>" "[F16be, F32le, F8]"]
  by (simp add: rd_map_def try_read_defs rd_get_def rd_take_def)

end
