(* ===== verification/WssConn.thy ===== *)
theory WssConn
  imports ServerFacts HttpFacts
begin

text \<open>
  \<open>transport/wss\<close>: which errors count as the end of a connection (\<open>IsClose\<close>), the byte stream over WebSocket messages
  (\<open>websocketConn\<close>), and the request with which a client connects (\<open>RawWebSocketConnect\<close>, \<open>Header\<close>), whose query is read
  by \<open>ServeHTTP\<close> (\<open>server.go\<close>). Also the loop in which an agent connects to its server again (\<open>manage\<close> of
  \<open>outbound/wless.go\<close>). gorilla/websocket is a library: a connection is the messages that it will deliver.
\<close>

section \<open>Errors\<close>

datatype errno = ECONNABORTED | ECONNRESET | ETIMEDOUT | ECONNREFUSED | ENETUNREACH | ENETRESET | EPIPE | ErrnoOther string

fun errno_text :: "errno \<Rightarrow> string" where
  "errno_text ECONNABORTED = ''software caused connection abort''"
| "errno_text ECONNRESET = ''connection reset by peer''"
| "errno_text ETIMEDOUT = ''connection timed out''"
| "errno_text ECONNREFUSED = ''connection refused''"
| "errno_text ENETUNREACH = ''network is unreachable''"
| "errno_text ENETRESET = ''network dropped connection on reset''"
| "errno_text EPIPE = ''broken pipe''"
| "errno_text (ErrnoOther s) = s"

text \<open>Errors by their dynamic type: \<open>io.EOF\<close>, a close frame, \<open>*net.OpError\<close> (with the text before the error inside),
  \<open>syscall.Errno\<close>, \<open>websocket.ErrCloseSent\<close>, an error that wraps another, and any other.\<close>

datatype goerr =
    GEof
  | GClose nat string
  | GOp string goerr
  | GErrno errno
  | GCloseSent
  | GWrap string goerr
  | GText string

fun goerr_text :: "goerr \<Rightarrow> string" where
  "goerr_text GEof = ''EOF''"
| "goerr_text (GClose code t) = ''websocket: close '' @ itoa code @ t"
| "goerr_text (GOp pre e) = pre @ '': '' @ goerr_text e"
| "goerr_text (GErrno e) = errno_text e"
| "goerr_text GCloseSent = ''websocket: close sent''"
| "goerr_text (GWrap pre e) = pre @ '': '' @ goerr_text e"
| "goerr_text (GText s) = s"

text \<open>\<open>errors.Is\<close> for a target that is compared by identity.\<close>

fun errors_is :: "goerr \<Rightarrow> goerr \<Rightarrow> bool" where
  "errors_is (GOp pre e) t = (GOp pre e = t \<or> errors_is e t)"
| "errors_is (GWrap pre e) t = (GWrap pre e = t \<or> errors_is e t)"
| "errors_is e t = (e = t)"

text \<open>\<open>Errno.Is\<close> of the standard library only knows \<open>oserror.ErrPermission\<close>, \<open>ErrExist\<close>, \<open>ErrNotExist\<close> and
  \<open>ErrUnsupported\<close>; no \<open>Errno\<close> is one of these.\<close>

datatype is_target = OsPermission | OsExist | OsNotExist | OsUnsupported | TargetErrno errno

definition errno_Is :: "errno \<Rightarrow> is_target \<Rightarrow> bool" where
  "errno_Is e t = (case t of
     OsPermission \<Rightarrow> e \<in> {ErrnoOther ''permission denied'', ErrnoOther ''operation not permitted''}
   | OsExist \<Rightarrow> e \<in> {ErrnoOther ''file exists'', ErrnoOther ''directory not empty''}
   | OsNotExist \<Rightarrow> e = ErrnoOther ''no such file or directory''
   | OsUnsupported \<Rightarrow> e \<in> {ErrnoOther ''function not implemented'', ErrnoOther ''operation not supported''}
   | TargetErrno _ \<Rightarrow> False)"

definition isSyscallError :: "errno \<Rightarrow> bool" where
  "isSyscallError v \<longleftrightarrow> errno_Is v (TargetErrno ECONNABORTED) \<or> errno_Is v (TargetErrno ECONNRESET)
     \<or> errno_Is v (TargetErrno ETIMEDOUT) \<or> errno_Is v (TargetErrno ECONNREFUSED)
     \<or> errno_Is v (TargetErrno ENETUNREACH) \<or> errno_Is v (TargetErrno ENETRESET) \<or> errno_Is v (TargetErrno EPIPE)"

definition webSocketCloseCode :: "nat list" where
  "webSocketCloseCode = [1000, 1001, 1002, 1003, 1005, 1006, 1007, 1011, 1012, 1013]"

text \<open>The rest of \<open>IsClose\<close>, by the text of the error.\<close>

definition isClose_text :: "goerr \<Rightarrow> bool" where
  "isClose_text e \<longleftrightarrow> str_contains (goerr_text e) ''use of closed network connection''
     \<or> str_contains (goerr_text e) ''broken pipe'' \<or> str_contains (goerr_text e) ''connection reset by peer''
     \<or> errors_is e GCloseSent"

definition isClose :: "goerr option \<Rightarrow> bool" where
  "isClose err = (case err of None \<Rightarrow> False
   | Some e \<Rightarrow>
       if errors_is e GEof then True
       else case e of
         GClose code t \<Rightarrow> code \<in> set webSocketCloseCode
       | GOp pre (GErrno v) \<Rightarrow> isSyscallError v
       | GErrno v \<Rightarrow> isSyscallError v
       | _ \<Rightarrow> isClose_text e)"

section \<open>A byte stream over messages\<close>

text \<open>The reader of the current message, by what is left of it, the messages to come, and the error after them.\<close>

record ws_conn =
  ws_reader :: "bytes option"
  ws_msgs :: "bytes list"
  ws_err :: goerr

text \<open>\<open>Read\<close> into \<open>m\<close> bytes; a message reader returns at most \<open>seg\<close> bytes, at least one, and \<open>EOF\<close> at the end.\<close>

function ws_Read :: "nat \<Rightarrow> nat \<Rightarrow> ws_conn \<Rightarrow> (goerr + bytes) \<times> ws_conn" where
  "ws_Read m seg w =
     (case ws_reader w of
        None \<Rightarrow>
          (case ws_msgs w of
             [] \<Rightarrow> (Inl (ws_err w), w)
           | x # xs \<Rightarrow> ws_Read m seg (w\<lparr>ws_reader := Some x, ws_msgs := xs\<rparr>))
      | Some [] \<Rightarrow> ws_Read m seg (w\<lparr>ws_reader := None\<rparr>)
      | Some d \<Rightarrow> let k = min m (max 1 seg) in (Inr (take k d), w\<lparr>ws_reader := Some (drop k d)\<rparr>))"
  by pat_completeness auto
termination
  by (relation "measure (\<lambda>(m, seg, w). 2 * length (ws_msgs w) + (if ws_reader w = None then 0 else 1))") auto

declare ws_Read.simps [simp del]

fun ws_reads :: "(nat \<times> nat) list \<Rightarrow> ws_conn \<Rightarrow> (goerr + bytes) list \<times> ws_conn" where
  "ws_reads [] w = ([], w)"
| "ws_reads ((m, seg) # ms) w = (case ws_Read m seg w of (x, w1) \<Rightarrow> (case ws_reads ms w1 of (xs, w2) \<Rightarrow> (x # xs, w2)))"

text \<open>\<open>Write\<close> sends one message; \<open>Close\<close> sends a close frame and closes, and reports the errors of both.\<close>

definition ws_Write :: "bytes \<Rightarrow> nat io" where
  "ws_Write b = io_bind (io_write b) (\<lambda>_. io_ret (length b))"

definition ws_Close :: "goerr option \<Rightarrow> goerr option \<Rightarrow> string option" where
  "ws_Close control close =
     (let errors = (case control of None \<Rightarrow> [] | Some e \<Rightarrow> [goerr_text e]) @ (case close of None \<Rightarrow> [] | Some e \<Rightarrow> [goerr_text e])
      in if errors \<noteq> [] then Some (''failed to close connection: '' @ join '','' errors) else None)"

section \<open>The query\<close>

text \<open>\<open>url.QueryEscape\<close> and \<open>Values.Encode\<close>\<close>

definition upper_hex :: "nat \<Rightarrow> char" where
  "upper_hex n = ''0123456789ABCDEF'' ! n"

definition unreserved :: "char \<Rightarrow> bool" where
  "unreserved c \<longleftrightarrow> (let n = (of_char c :: nat) in
     48 \<le> n \<and> n \<le> 57 \<or> 65 \<le> n \<and> n \<le> 90 \<or> 97 \<le> n \<and> n \<le> 122) \<or> c \<in> set ''-_.~''"

definition queryEscape :: "string \<Rightarrow> string" where
  "queryEscape s = concat (map (\<lambda>c. if unreserved c then [c] else if c = CHR '' '' then ''+''
     else [CHR ''%'', upper_hex (of_char c div 16), upper_hex (of_char c mod 16)]) s)"

definition values_encode :: "(string \<times> string) list \<Rightarrow> string" where
  "values_encode kvs = join ''&'' (map (\<lambda>(k, v). queryEscape k @ ''='' @ queryEscape v) kvs)"

text \<open>\<open>url.QueryUnescape\<close>, \<open>url.ParseQuery\<close> without its error, and \<open>Get\<close>.\<close>

fun queryUnescape :: "string \<Rightarrow> string option" where
  "queryUnescape [] = Some []"
| "queryUnescape (c # s) =
     (if c = CHR ''%'' then
        (case s of
           a # b # s' \<Rightarrow>
             (case (hex_val a, hex_val b) of
                (Some x, Some y) \<Rightarrow> map_option ((#) (char_of (x * 16 + y))) (queryUnescape s')
              | _ \<Rightarrow> None)
         | _ \<Rightarrow> None)
      else map_option ((#) (if c = CHR ''+'' then CHR '' '' else c)) (queryUnescape s))"

definition str_cut :: "string \<Rightarrow> char \<Rightarrow> string \<times> string" where
  "str_cut s c = (case str_index s [c] of Some i \<Rightarrow> (take i s, drop (i + 1) s) | None \<Rightarrow> (s, []))"

definition parse_pair :: "string \<Rightarrow> (string \<times> string) option" where
  "parse_pair p =
     (if CHR '';'' \<in> set p \<or> p = [] then None
      else case str_cut p (CHR ''='') of (k, v) \<Rightarrow>
        (case (queryUnescape k, queryUnescape v) of (Some k', Some v') \<Rightarrow> Some (k', v') | _ \<Rightarrow> None))"

definition parseQuery :: "string \<Rightarrow> (string \<times> string) list" where
  "parseQuery q = List.map_filter parse_pair (split_on (CHR ''&'') q)"

definition query_get :: "(string \<times> string) list \<Rightarrow> string \<Rightarrow> string" where
  "query_get kvs k = (case map_of kvs k of None \<Rightarrow> [] | Some v \<Rightarrow> v)"

record connect_param =
  cp_name :: string
  cp_role :: string
  cp_code :: string
  cp_mode :: string

text \<open>The query of \<open>RawWebSocketConnect\<close>; \<open>Encode\<close> sorts by key.\<close>

definition connect_query :: "connect_param \<Rightarrow> string" where
  "connect_query p = values_encode ([(''code'', cp_code p), (''mode'', cp_mode p), (''name'', cp_name p)]
     @ (if cp_role p \<noteq> [] then [(''rule'', cp_role p)] else []))"

definition connect_url :: "string \<Rightarrow> connect_param \<Rightarrow> string" where
  "connect_url server p = server @ ''?'' @ connect_query p"

text \<open>\<open>RawQuery\<close> of \<open>url.Parse\<close>: behind the first question mark of what is before the first number sign.\<close>

definition raw_query :: "string \<Rightarrow> string" where
  "raw_query u = snd (str_cut (fst (str_cut u (CHR ''#''))) (CHR ''?''))"

text \<open>What \<open>ServeHTTP\<close> sees of a request for a URL, with the header fields that it looks at.\<close>

definition seen_request :: "string \<Rightarrow> string \<Rightarrow> string \<Rightarrow> string \<Rightarrow> http_request" where
  "seen_request upgrade proto path u = (let q = query_get (parseQuery (raw_query u)) in
     \<lparr>hUpgrade = upgrade, hProto = proto, urlPath = path, qName = q ''name'', qCode = q ''code'', qMode = q ''mode'',
      qRule = q ''rule'', qProto = q ''proto'', qClose = q ''close''\<rparr>)"

definition wss_Header :: "string \<Rightarrow> (string \<times> string) list \<Rightarrow> header" where
  "wss_Header proto hdr = (let h = foldl (\<lambda>h (k, v). header_set h k v) Map.empty hdr
     in if proto \<noteq> [] then header_set h ''proto'' proto else h)"

section \<open>The channel of an agent\<close>

text \<open>\<open>manage\<close>: the seconds before each attempt to connect, for a number of attempts that fail; and its reading loop over the
  outcomes of \<open>ReadMessage\<close>, with the messages it hands on. gorilla/websocket panics when a connection that has failed is read
  again and again, \<open>limit\<close> times.\<close>

fun manage_sleeps :: "nat \<Rightarrow> nat \<Rightarrow> nat list" where
  "manage_sleeps secs 0 = [secs]"
| "manage_sleeps secs (Suc n) = secs # manage_sleeps ((if 64 \<le> secs then 1 else secs) * 2) n"

datatype loop_end = LoopClosed | LoopPanics | LoopReads

fun manage_loop :: "nat \<Rightarrow> nat \<Rightarrow> (goerr + bytes) list \<Rightarrow> bytes list \<times> loop_end" where
  "manage_loop limit failed [] = ([], LoopReads)"
| "manage_loop limit failed (Inl e # xs) =
     (if limit \<le> Suc failed then ([], LoopPanics)
      else if isClose (Some e) then ([], LoopClosed) else manage_loop limit (Suc failed) xs)"
| "manage_loop limit failed (Inr m # xs) = (case manage_loop limit failed xs of (ms, r) \<Rightarrow> (m # ms, r))"

end
