(* ===== verification/WssFacts.thy ===== *)
theory WssFacts
  imports WssConn
begin

text \<open>
  The messages of a WebSocket are read as the byte stream that was written; the server reads the name, code, mode and role that
  the client asked for; \<open>IsClose\<close> decides by the text of an error and never by its number.
\<close>

section \<open>Errors\<close>

lemma str_index_Some: "\<exists>i. str_index (a @ sub @ b) sub = Some i"
proof (induction a)
  case Nil
  have "has_prefix (sub @ b) sub" by (simp add: has_prefix_def)
  then show ?case by (cases "sub @ b") auto
next
  case (Cons x a)
  then show ?case by auto
qed

lemma str_contains_mid: "str_contains (a @ sub @ b) sub"
  using str_index_Some [of a sub b] by (auto simp: str_contains_def)

lemma isSyscallError_never: "\<not> isSyscallError v"
  by (simp add: isSyscallError_def errno_Is_def)

text \<open>\<open>IsClose\<close> never recognises a system error by its number, because \<open>Errno.Is\<close> does not compare two numbers: an error that
  holds one directly does not count as a close, whichever it is. It recognises a reset connection or a broken pipe by the text
  of an error that wraps the number once more.\<close>

theorem isClose_by_text:
  "\<not> isClose (Some (GErrno v)) \<and> \<not> isClose (Some (GOp pre (GErrno v)))
    \<and> isClose (Some (GOp pre (GWrap call (GErrno ECONNRESET)))) \<and> isClose (Some (GOp pre (GWrap call (GErrno EPIPE))))"
proof -
  have "str_contains (goerr_text (GOp pre (GWrap call (GErrno ECONNRESET)))) ''connection reset by peer''"
    using str_contains_mid [of "pre @ '': '' @ call @ '': ''" "''connection reset by peer''" "[]"] by simp
  moreover have "str_contains (goerr_text (GOp pre (GWrap call (GErrno EPIPE)))) ''broken pipe''"
    using str_contains_mid [of "pre @ '': '' @ call @ '': ''" "''broken pipe''" "[]"] by simp
  ultimately show ?thesis by (simp add: isClose_def isClose_text_def isSyscallError_never del: goerr_text.simps)
qed

section \<open>The byte stream\<close>

definition ws_rest :: "ws_conn \<Rightarrow> bytes" where
  "ws_rest w = (case ws_reader w of None \<Rightarrow> [] | Some d \<Rightarrow> d) @ concat (ws_msgs w)"

definition ws_out :: "(goerr + bytes) list \<Rightarrow> bytes" where
  "ws_out xs = concat (map (\<lambda>x. case x of Inr d \<Rightarrow> d | Inl e \<Rightarrow> []) xs)"

lemma ws_out_simps [simp]: "ws_out [] = []" "ws_out (Inl e # xs) = ws_out xs" "ws_out (Inr d # xs) = d @ ws_out xs"
  by (simp_all add: ws_out_def)

lemma ws_Read_step:
  "ws_Read m seg w = (x, w') \<Longrightarrow> ws_err w' = ws_err w \<and> ws_rest w = ws_out [x] @ ws_rest w'
    \<and> (case x of Inl e \<Rightarrow> e = ws_err w \<and> ws_rest w = [] | Inr d \<Rightarrow> 0 < m \<longrightarrow> d \<noteq> [])"
proof (induction m seg w arbitrary: x w' rule: ws_Read.induct)
  case (1 m seg w)
  show ?case
  proof (cases "ws_reader w")
    case None
    show ?thesis
    proof (cases "ws_msgs w")
      case Nil
      then show ?thesis using 1(3) None by (subst (asm) ws_Read.simps) (auto simp: ws_rest_def)
    next
      case (Cons d ds)
      with 1(3) None have "ws_Read m seg (w\<lparr>ws_reader := Some d, ws_msgs := ds\<rparr>) = (x, w')"
        by (subst (asm) ws_Read.simps) simp
      moreover have "ws_rest w = ws_rest (w\<lparr>ws_reader := Some d, ws_msgs := ds\<rparr>)" using None Cons by (simp add: ws_rest_def)
      ultimately show ?thesis using 1(1) [OF None Cons] by (cases x) auto
    qed
  next
    case (Some d)
    show ?thesis
    proof (cases d)
      case Nil
      with 1(3) Some have "ws_Read m seg (w\<lparr>ws_reader := None\<rparr>) = (x, w')" by (subst (asm) ws_Read.simps) simp
      moreover have "ws_rest w = ws_rest (w\<lparr>ws_reader := None\<rparr>)" using Some Nil by (simp add: ws_rest_def)
      ultimately show ?thesis using 1(2) [OF Some Nil] by (cases x) auto
    next
      case (Cons b d')
      then show ?thesis using 1(3) Some by (subst (asm) ws_Read.simps) (auto simp: ws_rest_def Let_def)
    qed
  qed
qed

lemma ws_reads_steps:
  "ws_reads ms w = (xs, w') \<Longrightarrow> ws_err w' = ws_err w \<and> ws_rest w = ws_out xs @ ws_rest w'
    \<and> (\<forall>e. Inl e \<in> set xs \<longrightarrow> e = ws_err w \<and> ws_rest w' = [])"
proof (induction ms arbitrary: w xs)
  case (Cons p ms)
  obtain m seg where p: "p = (m, seg)" by (cases p)
  obtain x w1 ys where x: "ws_Read m seg w = (x, w1)" "ws_reads ms w1 = (ys, w')" "xs = x # ys"
    using Cons.prems by (auto simp: p split: prod.splits)
  from ws_Read_step [OF x(1)] Cons.IH [OF x(2)] show ?case
    by (cases x) (auto simp: x(3))
qed simp

lemma ws_writes: "wbad c = (\<lambda>_. False) \<Longrightarrow> wr (snd (foldl (\<lambda>(_, c) b. ws_Write b c) (x, c) bs)) = wr c @ bs"
proof (induction bs arbitrary: x c)
  case (Cons b bs)
  have "ws_Write b c = (Inr (length b), c\<lparr>wr := wr c @ [b]\<rparr>)" using Cons.prems by (simp add: ws_Write_def io_defs)
  then show ?case using Cons.IH [of "c\<lparr>wr := wr c @ [b]\<rparr>" "Inr (length b)"] Cons.prems by simp
qed simp

text \<open>What one side writes, in writes of any sizes, empty ones too, the other side reads: each write is one message, and reads of
  any sizes, however the library cuts the messages, return in order what was written, followed by what is still unread; a read
  fails only with the error of the connection and only after everything.\<close>

theorem ws_delivery:
  assumes "wbad c = (\<lambda>_. False)" "wr c = []"
    "ws_reads ms \<lparr>ws_reader = None, ws_msgs = wr (snd (foldl (\<lambda>(_, c) b. ws_Write b c) (Ok 0, c) bs)), ws_err = e\<rparr> = (xs, w)"
  shows "concat bs = ws_out xs @ ws_rest w \<and> (\<forall>e'. Inl e' \<in> set xs \<longrightarrow> e' = e \<and> ws_out xs = concat bs)"
  using ws_reads_steps [OF assms(3)] ws_writes [OF assms(1), of "Ok 0" bs] assms(2) by (auto simp: ws_rest_def)

theorem ws_delivery_witness:
  "ws_out (fst (ws_reads [(2, 1), (9, 9), (9, 9), (9, 9)] \<lparr>ws_reader = None, ws_msgs = [[1, 2], [], [3]], ws_err = GEof\<rparr>)) = [1, 2, 3]"
proof -
  let ?w = "\<lparr>ws_reader = None, ws_msgs = [[1, 2], [], [3]], ws_err = GEof\<rparr>"
  have m: "wr (snd (foldl (\<lambda>(_, c) b. ws_Write b c) (Ok 0, mk_conn []) [[1, 2], [], [3]])) = [[1, 2], [], [3]]"
    using ws_writes [of "mk_conn []" "Ok 0" "[[1, 2], [], [3]]"] by (simp add: mk_conn_def)
  have r: "ws_reads [(2, 1), (9, 9), (9, 9), (9, 9)] ?w
      = ([Inr [1], Inr [2], Inr [3], Inl GEof], \<lparr>ws_reader = None, ws_msgs = [], ws_err = GEof\<rparr>)"
    by (simp add: ws_Read.simps Let_def)
  show ?thesis
    using ws_delivery [of "mk_conn []" "[(2, 1), (9, 9), (9, 9), (9, 9)]" "[[1, 2], [], [3]]" GEof, unfolded m, OF _ _ r] r
    by (simp add: mk_conn_def)
qed

section \<open>The query\<close>

lemma unreserved_chars: "c \<in> set ''%+&;=#?'' \<Longrightarrow> \<not> unreserved c"
  by (auto simp: unreserved_def Let_def)

lemma upper_hex_val: "n < 16 \<Longrightarrow> hex_val (upper_hex n) = Some n"
proof -
  have "\<forall>n \<in> set [0..<16]. hex_val (upper_hex n) = Some n"
    by (simp add: upt_rec [of 0] upt_rec numeral_eq_Suc) (simp add: upper_hex_def hex_val_def Let_def)
  then show "n < 16 \<Longrightarrow> hex_val (upper_hex n) = Some n" by simp
qed


lemma char_div_mod: "char_of ((of_char c :: nat) div 16 * 16 + of_char c mod 16) = c"
  by (simp only: div_mult_mod_eq) simp

lemma of_char_digits: "(of_char c :: nat) div 16 < 16" "(of_char c :: nat) mod 16 < 16"
  using of_char_less_256 [of c] by (auto intro: less_mult_imp_div_less)

lemma unescape_escape: "queryUnescape (queryEscape s) = Some s"
proof (induction s)
  case (Cons c s)
  have e: "queryEscape (c # s) = (if unreserved c then [c] else if c = CHR '' '' then ''+''
      else [CHR ''%'', upper_hex (of_char c div 16), upper_hex (of_char c mod 16)]) @ queryEscape s"
    by (simp add: queryEscape_def)
  have h: "hex_val (upper_hex (of_char c div 16)) = Some (of_char c div 16)" "hex_val (upper_hex (of_char c mod 16)) = Some (of_char c mod 16)"
    by (simp_all add: upper_hex_val of_char_digits)
  consider "unreserved c" | "\<not> unreserved c" "c = CHR '' ''" | "\<not> unreserved c" "c \<noteq> CHR '' ''" by blast
  then show ?case
  proof cases
    case 1
    then have "c \<noteq> CHR ''%''" "c \<noteq> CHR ''+''" using unreserved_chars by auto
    then show ?thesis using 1 Cons.IH by (simp add: e)
  next
    case 2
    then show ?thesis using Cons.IH e by simp
  next
    case 3
    then show ?thesis using Cons.IH h char_div_mod [of c] by (simp add: e)
  qed
qed (simp add: queryEscape_def)

lemma upper_hex_plain: "n < 16 \<Longrightarrow> upper_hex n \<notin> set ''&=;#?''"
  using upper_hex_val [of n] by (auto simp: hex_val_def Let_def)

lemma escape_plain: "c \<in> set (queryEscape s) \<Longrightarrow> c \<notin> set ''&=;#?''"
proof (induction s)
  case (Cons d s)
  have "queryEscape (d # s) = (if unreserved d then [d] else if d = CHR '' '' then ''+''
      else [CHR ''%'', upper_hex (of_char d div 16), upper_hex (of_char d mod 16)]) @ queryEscape s"
    by (simp add: queryEscape_def)
  moreover have "upper_hex (of_char d div 16) \<notin> set ''&=;#?''" "upper_hex (of_char d mod 16) \<notin> set ''&=;#?''"
    by (intro upper_hex_plain of_char_digits)+
  ultimately show ?case using Cons unreserved_chars [of d] by (auto split: if_splits)
qed (simp add: queryEscape_def)

lemma str_cut_char: "x \<notin> set a \<Longrightarrow> str_cut (a @ x # b) x = (a, b)"
proof -
  assume x: "x \<notin> set a"
  then have "str_index (a @ x # b) [x] = Some (length a)" by (induction a) (auto simp: has_prefix_def)
  then show ?thesis by (simp add: str_cut_def)
qed

lemma str_cut_none: "x \<notin> set a \<Longrightarrow> str_cut a x = (a, [])"
proof -
  assume "x \<notin> set a"
  then have "str_index a [x] = None" by (induction a) (auto simp: has_prefix_def)
  then show ?thesis by (simp add: str_cut_def)
qed

lemma parse_pair_encoded: "parse_pair (queryEscape k @ ''='' @ queryEscape v) = Some (k, v)"
proof -
  have "CHR '';'' \<notin> set (queryEscape k @ ''='' @ queryEscape v)" "CHR ''='' \<notin> set (queryEscape k)"
    using escape_plain by fastforce+
  then show ?thesis using str_cut_char [of "CHR ''=''" "queryEscape k" "queryEscape v"]
    by (simp add: parse_pair_def unescape_escape)
qed

lemma parseQuery_encode: "kvs \<noteq> [] \<Longrightarrow> parseQuery (values_encode kvs) = kvs"
proof -
  assume ne: "kvs \<noteq> []"
  have "CHR ''&'' \<notin> set (queryEscape k @ ''='' @ queryEscape v)" for k v using escape_plain by fastforce
  then have "split_on (CHR ''&'') (values_encode kvs) = map (\<lambda>(k, v). queryEscape k @ ''='' @ queryEscape v) kvs"
    unfolding values_encode_def using ne by (intro split_on_join) auto
  then have "parseQuery (values_encode kvs) = List.map_filter (parse_pair \<circ> (\<lambda>(k, v). queryEscape k @ ''='' @ queryEscape v)) kvs"
    by (simp add: parseQuery_def map_filter_def filter_map comp_def)
  also have "\<dots> = kvs" by (induction kvs) (auto simp: map_filter_simps parse_pair_encoded [simplified])
  finally show ?thesis .
qed

lemma join_chars: "c \<in> set (join s ps) \<Longrightarrow> c \<in> set s \<or> (\<exists>p \<in> set ps. c \<in> set p)"
  by (induction ps rule: join.induct) auto

lemma encode_plain: "c \<in> set (values_encode kvs) \<Longrightarrow> c \<notin> set ''#?''"
proof -
  assume "c \<in> set (values_encode kvs)"
  then have "c = CHR ''&'' \<or> (\<exists>k v. c \<in> set (queryEscape k @ ''='' @ queryEscape v))"
    unfolding values_encode_def by (auto dest!: join_chars)
  then show ?thesis using escape_plain by fastforce
qed

lemma connect_query_fields:
  assumes "CHR ''?'' \<notin> set server" "CHR ''#'' \<notin> set server"
  shows "let r = seen_request ''websocket'' proto path (connect_url server p) in qName r = cp_name p \<and> qCode r = cp_code p \<and> qMode r = cp_mode p \<and> qRule r = cp_role p
    \<and> serveHTTP r = (if isDirect (cp_mode p) then RDirect else if isForward (cp_mode p) then RForward
        else if cp_role p = ''manager'' then RManage else RNone)"
proof -
  define kvs where "kvs = [(''code'', cp_code p), (''mode'', cp_mode p), (''name'', cp_name p)]
     @ (if cp_role p \<noteq> [] then [(''rule'', cp_role p)] else [])"
  have q: "connect_query p = values_encode kvs" by (simp add: connect_query_def kvs_def)
  have "CHR ''#'' \<notin> set (connect_url server p)" using assms(2) encode_plain [of "CHR ''#''" kvs] by (auto simp: connect_url_def q)
  then have "raw_query (connect_url server p) = values_encode kvs"
    using str_cut_none [of "CHR ''#''"] str_cut_char [OF assms(1)] by (simp add: raw_query_def connect_url_def q)
  then have "parseQuery (raw_query (connect_url server p)) = kvs" by (simp add: parseQuery_encode kvs_def)
  then show ?thesis
    by (simp add: seen_request_def query_get_def kvs_def serveHTTP_def Let_def)
qed

text \<open>The server reads what the client asked for: for every name, code, mode and role, whatever characters they have, the
  parameters that \<open>ServeHTTP\<close> reads off the URL that \<open>RawWebSocketConnect\<close> makes are these, and so the request goes to the handler
  of its mode, the manager's channel when the mode is neither and the role says so. The endpoint itself has no query and no
  fragment.\<close>

theorem connect_query_roundtrip:
  assumes "CHR ''?'' \<notin> set server" "CHR ''#'' \<notin> set server"
  shows "let r = seen_request ''websocket'' proto path (connect_url server p) in qName r = cp_name p \<and> qCode r = cp_code p \<and> qMode r = cp_mode p \<and> qRule r = cp_role p
    \<and> serveHTTP r = (if isDirect (cp_mode p) then RDirect else if isForward (cp_mode p) then RForward
        else if cp_role p = ''manager'' then RManage else RNone)"
  using assms by (rule connect_query_fields)

theorem connect_query_roundtrip_witness:
  "qCode (seen_request ''websocket'' ''Vless'' ''/'' (connect_url ''wss://h/'' \<lparr>cp_name = ''a&b'', cp_role = [], cp_code = ''x=1'',
      cp_mode = ''forward''\<rparr>)) = ''x=1''"
  using connect_query_roundtrip [of "''wss://h/''" "''Vless''" "''/''"
      "\<lparr>cp_name = ''a&b'', cp_role = [], cp_code = ''x=1'', cp_mode = ''forward''\<rparr>"] by (simp add: Let_def)

text \<open>With a query in the endpoint the code is lost: the second question mark does not start a query.\<close>

lemma connect_query_lost:
  "qCode (seen_request up proto path (connect_url ''ws://h/?t=1''
      \<lparr>cp_name = [], cp_role = [], cp_code = ''c'', cp_mode = ''forward''\<rparr>)) = []"
proof -
  have "connect_query \<lparr>cp_name = [], cp_role = [], cp_code = ''c'', cp_mode = ''forward''\<rparr> = ''code=c&mode=forward&name=''"
    by (simp add: connect_query_def values_encode_def queryEscape_def unreserved_def Let_def)
  then show ?thesis
    by (simp add: seen_request_def connect_url_def raw_query_def str_cut_def has_prefix_def parseQuery_def parse_pair_def
      map_filter_simps query_get_def Let_def)
qed

section \<open>The channel of an agent\<close>

lemma manage_sleeps_bounds:
  "secs \<in> {1, 2, 4, 8, 16, 32, 64} \<Longrightarrow> x \<in> set (manage_sleeps secs n) \<Longrightarrow> x \<in> {1, 2, 4, 8, 16, 32, 64}"
proof (induction secs n rule: manage_sleeps.induct)
  case (2 secs n)
  have "(if 64 \<le> secs then 1 else secs) * 2 \<in> {1, 2, 4, 8, 16, 32, 64}" using 2(2) by auto
  from 2(1) [OF this] 2(2,3) show ?case by auto
qed simp

lemma manage_loop_spins:
  "\<not> isClose (Some e) \<Longrightarrow> k < limit \<Longrightarrow> manage_loop limit k (replicate (limit - k) (Inl e)) = ([], LoopPanics)"
proof (induction "limit - k" arbitrary: k)
  case (Suc n)
  have m: "limit - k = Suc n" using Suc(2) by simp
  show ?case
  proof (cases "limit \<le> Suc k")
    case True
    then show ?thesis using m by simp
  next
    case False
    moreover have "n = limit - Suc k" using m by simp
    ultimately show ?thesis using Suc(1) [of "Suc k"] Suc(3) m by simp
  qed
qed simp

text \<open>An agent never waits more than 64 seconds, nor less than one, before it connects again, however often it fails. But
  a close frame that \<open>IsClose\<close> does not list, as 1008 or 1009, makes its reading loop run until the library panics: the error
  is returned by every later read and the loop goes on.\<close>

theorem agent_channel:
  assumes "0 < limit"
  shows "set (manage_sleeps 1 n) \<subseteq> {1..64} \<and> manage_loop limit 0 (replicate limit (Inl (GClose 1009 t))) = ([], LoopPanics)"
proof -
  have "\<not> isClose (Some (GClose 1009 t))" by (simp add: isClose_def webSocketCloseCode_def)
  then show ?thesis using manage_loop_spins [of "GClose 1009 t" 0 limit] assms manage_sleeps_bounds [of 1] by fastforce
qed

theorem agent_channel_witness: "manage_loop 1000 0 (replicate 1000 (Inl (GClose 1009 []))) = ([], LoopPanics)"
  using agent_channel [of 1000] by simp

end
