(* ===== verification/MuxPool.thy ===== *)
theory MuxPool
  imports WssFacts
begin

text \<open>
  The sessions of the multiplexer: the pool of a client (\<open>transport/mux/client.go\<close>), the loop that serves the streams of a
  session (\<open>transport/mux/server.go\<close>), and what the dispatchers of the WLESS and VLESS proxies connect to (\<open>createConn\<close> in
  \<open>outbound/vless.go\<close>). xtaci/smux is a library: a session is what its methods report, and a stream that it accepts the bytes
  that will arrive on it.
\<close>

section \<open>The client's pool\<close>

text \<open>\<open>IsClosed\<close>, \<open>NumStreams\<close>, and the error that \<open>OpenStream\<close> returns.\<close>

datatype open_error = ErrGoAway | OpenError gerr

record mux_session =
  ss_closed :: bool
  ss_streams :: nat
  ss_open :: "open_error option"

definition usable :: "mux_session \<Rightarrow> bool" where
  "usable s \<longleftrightarrow> \<not> ss_closed s \<and> ss_streams s \<le> 8"

text \<open>\<open>Range\<close> visits the sessions, which are numbered as they were stored, in the order \<open>order\<close>; \<open>None\<close> is the case without
  a stream and without an error.\<close>

definition openMuxConnectConn :: "nat list \<Rightarrow> mux_session list \<Rightarrow> nat option res \<times> mux_session list" where
  "openMuxConnectConn order pool =
     (case find (\<lambda>i. i < length pool \<and> usable (pool ! i)) order of
        None \<Rightarrow> (Ok None, pool)
      | Some i \<Rightarrow>
          (case ss_open (pool ! i) of
             None \<Rightarrow> (Ok (Some i), pool[i := (pool ! i)\<lparr>ss_streams := ss_streams (pool ! i) + 1\<rparr>])
           | Some ErrGoAway \<Rightarrow> (Ok None, pool)
           | Some (OpenError e) \<Rightarrow> (Err e, pool)))"

text \<open>\<open>newClientSession\<close>; \<open>made\<close> is what the library returns for protocol 0. \<open>newServerSession\<close> is the same with the other end.\<close>

definition newMuxSession :: "byte \<Rightarrow> mux_session res \<Rightarrow> mux_session res" where
  "newMuxSession protocol made = (if protocol = 0 then made else Err (Msg ''unexpected protocol''))"

text \<open>One round of \<open>openStream\<close>: the order of \<open>Range\<close>, what the dialer returns, and the session over it.\<close>

record attempt =
  at_order :: "nat list"
  at_dial :: "unit res"
  at_session :: "mux_session res"

datatype open_result = Opened nat | OpenFailed gerr | StillOpening

fun mux_openStream :: "attempt list \<Rightarrow> mux_session list \<Rightarrow> open_result \<times> mux_session list" where
  "mux_openStream [] pool = (StillOpening, pool)"
| "mux_openStream (a # as) pool =
     (case openMuxConnectConn (at_order a) pool of
        (Inl e, pool) \<Rightarrow> (OpenFailed e, pool)
      | (Inr (Some i), pool) \<Rightarrow> (Opened i, pool)
      | (Inr None, pool) \<Rightarrow>
          (case at_dial a of
             Inl e \<Rightarrow> (OpenFailed e, pool)
           | Inr _ \<Rightarrow>
               (case newMuxSession 0 (at_session a) of
                  Inl e \<Rightarrow> (OpenFailed e, pool)
                | Inr s \<Rightarrow> mux_openStream as (pool @ [s]))))"

text \<open>\<open>DialContext\<close>: the stream, and the destination that its first write will carry.\<close>

definition mux_DialContext :: "attempt list \<Rightarrow> metadata \<Rightarrow> mux_session list \<Rightarrow> (nat \<times> string) option res \<times> mux_session list" where
  "mux_DialContext as m pool =
     (case mux_openStream as pool of
        (Opened i, pool) \<Rightarrow> (Ok (Some (i, remoteAddress m)), pool)
      | (OpenFailed e, pool) \<Rightarrow> (Err e, pool)
      | (StillOpening, pool) \<Rightarrow> (Ok None, pool))"

section \<open>Facts about the pool\<close>

definition pool_ok :: "mux_session list \<Rightarrow> bool" where
  "pool_ok pool \<longleftrightarrow> (\<forall>s \<in> set pool. ss_streams s \<le> 9)"

lemma find_usable: "find P xs = Some i \<Longrightarrow> i \<in> set xs \<and> P i"
  by (induction xs) (auto split: if_splits)

lemma pool_ok_update: "pool_ok pool \<Longrightarrow> ss_streams x \<le> 9 \<Longrightarrow> pool_ok (pool[i := x])"
  by (auto simp: pool_ok_def dest: set_update_subset_insert [THEN subsetD])

lemma openMux_ok:
  "pool_ok pool \<Longrightarrow> openMuxConnectConn order pool = (r, pool') \<Longrightarrow>
     pool_ok pool' \<and> length pool' = length pool
     \<and> (\<forall>i. r = Ok (Some i) \<longrightarrow> i < length pool \<and> usable (pool ! i) \<and> pool' = pool[i := (pool ! i)\<lparr>ss_streams := ss_streams (pool ! i) + 1\<rparr>])
     \<and> ((\<nexists>i. r = Ok (Some i)) \<longrightarrow> pool' = pool)"
  by (auto simp: openMuxConnectConn_def usable_def dest!: find_usable intro: pool_ok_update split: option.splits open_error.splits)


definition fresh_session :: mux_session where
  "fresh_session = \<lparr>ss_closed = False, ss_streams = 0, ss_open = None\<rparr>"

definition dial_ok :: "nat list \<Rightarrow> attempt" where
  "dial_ok order = \<lparr>at_order = order, at_dial = Ok (), at_session = Ok fresh_session\<rparr>"


text \<open>A usable session is used: when the first usable one that \<open>Range\<close> meets opens a stream, nothing is dialed; and when
  there is none, one dial is enough, if the new session is usable and \<open>Range\<close> meets it before one that is not.\<close>

theorem mux_pool_dials_once:
  assumes "\<And>i. i < length pool \<Longrightarrow> usable (pool ! i) \<Longrightarrow> ss_open (pool ! i) = None"
    "set (at_order a) = {..<length pool}" "at_dial a = Ok ()" "at_session a = Ok s" "usable s" "ss_open s = None"
    "set (at_order b) = {..length pool}"
  shows "if \<exists>t \<in> set pool. usable t then \<exists>i. mux_openStream (a # b # as) pool = (Opened i, pool[i := (pool ! i)\<lparr>ss_streams := ss_streams (pool ! i) + 1\<rparr>])
    else mux_openStream (a # b # as) pool = (Opened (length pool), pool @ [s\<lparr>ss_streams := ss_streams s + 1\<rparr>])"
proof (cases "\<exists>t \<in> set pool. usable t")
  case True
  then obtain k where "k < length pool" "usable (pool ! k)" by (auto simp: in_set_conv_nth)
  then have "find (\<lambda>i. i < length pool \<and> usable (pool ! i)) (at_order a) \<noteq> None"
    using assms(2) by (auto simp: find_None_iff)
  then obtain i where i: "find (\<lambda>i. i < length pool \<and> usable (pool ! i)) (at_order a) = Some i" by auto
  with find_usable [OF i] assms(1) have "openMuxConnectConn (at_order a) pool
      = (Ok (Some i), pool[i := (pool ! i)\<lparr>ss_streams := ss_streams (pool ! i) + 1\<rparr>])"
    by (simp add: openMuxConnectConn_def)
  then show ?thesis using True by auto
next
  case False
  then have none: "\<not> usable (pool ! i)" if "i < length pool" for i using False that nth_mem by blast
  then have "openMuxConnectConn (at_order a) pool = (Ok None, pool)"
    by (auto simp: openMuxConnectConn_def dest: find_usable split: option.splits)
  moreover have "openMuxConnectConn (at_order b) (pool @ [s]) = (Ok (Some (length pool)), pool @ [s\<lparr>ss_streams := ss_streams s + 1\<rparr>])"
  proof -
    let ?P = "\<lambda>i. i < length (pool @ [s]) \<and> usable ((pool @ [s]) ! i)"
    have "?P (length pool)" using assms(5) by simp
    moreover have "length pool \<in> set (at_order b)" using assms(7) by simp
    ultimately obtain i where i: "find ?P (at_order b) = Some i" by (metis (no_types, lifting) find_None_iff not_Some_eq)
    from find_usable [OF i] none have "i = length pool" by (auto simp: nth_append split: if_splits)
    then show ?thesis using i assms(6) by (simp add: openMuxConnectConn_def list_update_append)
  qed
  ultimately show ?thesis using False assms(3,4) by (simp add: newMuxSession_def)
qed

theorem mux_pool_dials_once_witness:
  "mux_openStream [dial_ok [], dial_ok [0]] [] = (Opened 0, [fresh_session\<lparr>ss_streams := 1\<rparr>])"
  using mux_pool_dials_once [of "[]" "dial_ok []" fresh_session "dial_ok [0]" "[]"]
  by (simp add: dial_ok_def fresh_session_def usable_def)

text \<open>A session that goes away but is not closed, and that \<open>Range\<close> meets first, keeps \<open>openStream\<close> dialing: every round stores
  one more connection and none is used.\<close>

lemma mux_goaway_dials_forever:
  assumes "0 < length pool" "usable (pool ! 0)" "ss_open (pool ! 0) = Some ErrGoAway"
  shows "mux_openStream (replicate n (dial_ok [0])) pool = (StillOpening, pool @ replicate n fresh_session)"
  using assms
proof (induction n arbitrary: pool)
  case (Suc n)
  then have "openMuxConnectConn [0] pool = (Ok None, pool)" by (simp add: openMuxConnectConn_def)
  then show ?case using Suc.IH [of "pool @ [fresh_session]"] Suc.prems
    by (simp add: dial_ok_def newMuxSession_def nth_append replicate_app_Cons_same)
qed simp

section \<open>Serving the streams of a session\<close>

text \<open>What \<open>AcceptStream\<close> returns: a timeout, an error, or a stream with the bytes that will arrive on it and whether its
  destination can be dialed.\<close>

datatype accept_result = AccTimeout | AccErr goerr | AccStream bytes bool

text \<open>A relay to a destination and what the stream still holds for it; the result of \<open>NewConnection\<close>, \<open>None\<close> while the loop
  waits. A panic of \<open>ReadStreamRequest\<close> does not occur.\<close>

record relay =
  rl_network :: string
  rl_dest :: string
  rl_payload :: bytes

definition serve_stream :: "bytes \<Rightarrow> bool \<Rightarrow> relay option" where
  "serve_stream inp dialed =
     (case readStreamRequest (mk_conn inp) of
        (Inl e, _) \<Rightarrow> None
      | (Inr q, c) \<Rightarrow>
          if dialed then Some \<lparr>rl_network = srNetwork q, rl_dest = srDestination q, rl_payload = rd c\<rparr> else None)"

fun service_loop :: "accept_result list \<Rightarrow> relay list \<times> goerr option option" where
  "service_loop [] = ([], None)"
| "service_loop (AccTimeout # as) = service_loop as"
| "service_loop (AccErr e # as) = ([], Some (if isClose (Some e) then None else Some e))"
| "service_loop (AccStream inp dialed # as) =
     (case service_loop as of (rs, r) \<Rightarrow> (case serve_stream inp dialed of None \<Rightarrow> rs | Some x \<Rightarrow> x # rs, r))"

text \<open>\<open>NewConnection\<close>: the header of the connection first.\<close>

definition service_NewConnection :: "accept_result list \<Rightarrow> conn \<Rightarrow> (relay list \<times> goerr option option) res" where
  "service_NewConnection as c =
     (case readProtoRequest c of
        (Inl e, _) \<Rightarrow> Err e
      | (Inr q, _) \<Rightarrow> if reqProtocol q = 0 then Ok (service_loop as) else Err (Msg ''unexpected protocol''))"

lemma serve_stream_request:
  "stream_ok q \<Longrightarrow> serve_stream (encodeStreamRequest q @ d) True = Some \<lparr>rl_network = srNetwork q, rl_dest = srDestination q, rl_payload = d\<rparr>"
  using readStreamRequest_encode [of q "mk_conn (encodeStreamRequest q @ d)" d] by (simp add: serve_stream_def mk_conn_def)

lemma service_loop_streams:
  "service_loop (map (\<lambda>(q, d). AccStream (encodeStreamRequest q @ d) True) qs @ as)
    = (case service_loop as of (rs, r) \<Rightarrow> (map (\<lambda>(q, d). \<lparr>rl_network = srNetwork q, rl_dest = srDestination q, rl_payload = d\<rparr>) qs @ rs, r))"
  if "\<forall>(q, d) \<in> set qs. stream_ok q"
  using that by (induction qs) (auto simp: serve_stream_request split: prod.splits)

text \<open>The streams that other streams do not disturb.\<close>

definition good_stream :: "accept_result \<Rightarrow> bool" where
  "good_stream a = (case a of AccStream inp d \<Rightarrow> serve_stream inp d \<noteq> None | _ \<Rightarrow> False)"

lemma good_stream_simps [simp]:
  "\<not> good_stream AccTimeout" "\<not> good_stream (AccErr e)" "good_stream (AccStream inp d) \<longleftrightarrow> serve_stream inp d \<noteq> None"
  by (simp_all add: good_stream_def)

lemma service_loop_filter:
  "(\<And>e. AccErr e \<notin> set as) \<Longrightarrow> service_loop as = (fst (service_loop (filter good_stream as)), None)"
proof (induction as)
  case (Cons a as)
  then have ih: "service_loop as = (fst (service_loop (filter good_stream as)), None)" by auto
  show ?case
  proof (cases a)
    case (AccErr e)
    then show ?thesis using Cons.prems by auto
  next
    case (AccStream inp d)
    then show ?thesis using ih by (cases "serve_stream inp d") (auto split: prod.splits)
  qed (use ih in simp)
qed simp


definition sample_request :: streamRequest where
  "sample_request = \<lparr>srNetwork = ''tcp'', srDestination = stream_dest ''a'' 80\<rparr>"

lemma sample_request_ok: "stream_ok sample_request"
  by (auto simp: sample_request_def plain_chars_def)


section \<open>What the proxies connect to\<close>

record proxy_option =
  po_remote :: string
  po_mode :: string
  po_server :: string
  po_mux :: bool
  po_header :: "(string \<times> string) list"

text \<open>\<open>connect\<close>: the parameters and the header of the WebSocket.\<close>

definition outbound_connect :: "string \<Rightarrow> string \<Rightarrow> (string \<times> string) list \<Rightarrow> string \<Rightarrow> connect_param \<times> header" where
  "outbound_connect mode remote hdr proto =
     (\<lparr>cp_name = remote, cp_role = [], cp_code = [], cp_mode = mode\<rparr>, wss_Header proto hdr)"

text \<open>\<open>createConn\<close>: over a stream of the pool, or over a connection of its own to the destination. \<open>Some\<close> holds the
  connection that is made and the address that is written first on it; in the pool this happens for a new session.\<close>

definition wless_createConn :: "proxy_option \<Rightarrow> metadata \<Rightarrow> (connect_param \<times> header) \<times> string \<times> bool" where
  "wless_createConn o1 m =
     (let mode = handleOption (po_mode o1) (po_mux o1)
      in (outbound_connect mode (po_remote o1) (po_header o1) Wless, if po_mux o1 then wless_mux_dst else remoteAddress m, po_mux o1))"

definition vless_createConn :: "proxy_option \<Rightarrow> metadata \<Rightarrow> (connect_param \<times> header) \<times> dstAddr \<times> bool" where
  "vless_createConn o1 m =
     (let mode = handleOption (po_mode o1) (po_mux o1)
      in (outbound_connect mode (po_remote o1) (po_header o1) Vless, if po_mux o1 then vless_mux_dst else parseVlessAddr m, po_mux o1))"

text \<open>What \<open>NewWless\<close> and \<open>NewVless\<close> check; whether the passive side is started.\<close>

definition new_proxy_checks :: "string \<Rightarrow> string \<Rightarrow> bool res" where
  "new_proxy_checks server direct =
     (if server = [] then Err (Msg ''server must be set'')
      else if \<not> has_prefix server ''ws://'' \<and> \<not> has_prefix server ''wss://'' then Err (Msg ''server must be startsWith wss:// or ws://'')
      else Ok (direct = ''recv'' \<or> direct = ''sendrecv''))"

lemma wss_Header_proto: "proto \<noteq> [] \<Longrightarrow> header_get (wss_Header proto hdr) ''proto'' = proto"
  by (simp add: wss_Header_def header_get_def header_set_def Let_def)

lemma outbound_request:
  assumes "CHR ''?'' \<notin> set server" "CHR ''#'' \<notin> set server" "proto \<noteq> []"
    "outbound_connect (handleOption mode mx) remote hdr proto = (cp, h)"
  shows "let r = seen_request ''websocket'' (header_get h ''proto'') path (connect_url server cp) in
    serveHTTP r = (if isForward mode then RForward else RDirect) \<and> qName r = remote \<and> connectProto r = proto \<and> isMux (qMode r) = mx"
proof -
  have cp: "cp = \<lparr>cp_name = remote, cp_role = [], cp_code = [], cp_mode = handleOption mode mx\<rparr>" "h = wss_Header proto hdr"
    using assms(4) by (auto simp: outbound_connect_def)
  have p: "header_get h ''proto'' = proto" using assms(3) by (simp add: cp wss_Header_proto)
  have m: "isMux (handleOption mode mx) = mx" "isDirect (handleOption mode mx) = (\<not> isForward mode)"
      "isForward (handleOption mode mx) = isForward mode"
    by (auto simp: handleOption_def isMux_def isDirect_def isForward_def ModeDirect_def ModeForward_def ModeDirectMux_def ModeForwardMux_def)
  define r where "r = seen_request ''websocket'' proto path (connect_url server cp)"
  have "hProto r = proto" by (simp add: r_def seen_request_def Let_def)
  then have "connectProto r = proto" using assms(3) by (simp add: connectProto_def)
  then show ?thesis
    using connect_query_fields [OF assms(1,2), of proto path cp] m unfolding p Let_def r_def [symmetric] by (simp add: cp(1))
qed

text \<open>C24: A proxy and the server agree: the connection that a WLESS or a VLESS proxy makes is handled by the server directly, or by
  the rendezvous when the mode of the option is a forwarding one, with the remote name of the option; the server takes it for the
  protocol it is, and for a multiplexed one exactly when the option says so. The endpoint has no query and no fragment.\<close>

theorem outbound_reaches_handler:
  assumes "CHR ''?'' \<notin> set (po_server o1)" "CHR ''#'' \<notin> set (po_server o1)"
  shows "let seen = (\<lambda>(cp, hdr). seen_request ''websocket'' (header_get hdr ''proto'') path (connect_url (po_server o1) cp));
      w = seen (fst (wless_createConn o1 m)); v = seen (fst (vless_createConn o1 m)) in
    serveHTTP w = (if isForward (po_mode o1) then RForward else RDirect) \<and> serveHTTP v = serveHTTP w
    \<and> qName w = po_remote o1 \<and> qName v = po_remote o1 \<and> connectProto w = Wless \<and> connectProto v = Vless
    \<and> isMux (qMode w) = po_mux o1 \<and> isMux (qMode v) = po_mux o1"
  using outbound_request [OF assms, of Wless "po_mode o1" "po_mux o1" "po_remote o1" "po_header o1"]
    outbound_request [OF assms, of Vless "po_mode o1" "po_mux o1" "po_remote o1" "po_header o1"]
  by (auto simp: wless_createConn_def vless_createConn_def Let_def Wless_def Vless_def split: prod.split)

theorem outbound_reaches_handler_witness:
  "serveHTTP (seen_request ''websocket'' Wless ''/'' (connect_url ''wss://h/''
      (fst (fst (wless_createConn \<lparr>po_remote = ''home'', po_mode = ''forward'', po_server = ''wss://h/'', po_mux = True, po_header = []\<rparr>
        empty_metadata))))) = RForward"
proof -
  let ?o = "\<lparr>po_remote = ''home'', po_mode = ''forward'', po_server = ''wss://h/'', po_mux = True, po_header = []\<rparr>"
  have "header_get (snd (fst (wless_createConn ?o empty_metadata))) ''proto'' = Wless" "isForward ''forward''"
    by (simp_all add: wless_createConn_def outbound_connect_def wss_Header_proto Wless_def Let_def isForward_def ModeForward_def)
  then show ?thesis
    using outbound_reaches_handler [of ?o "''/''" empty_metadata]
    by (simp add: Let_def case_prod_beta)
qed

end
