(* ===== verification/Structure.thy ===== *)
theory Structure
  imports MuxPool
begin

text \<open>
  \<open>transport/common/structure/struct.go\<close>: the decoder that fills a struct from a configuration map by reflection, and what uses
  it: \<open>ParseProxy\<close> (\<open>transport/parse.go\<close>) and the configuration that an agent makes of its flags (\<open>cmd/tcpover/main.go\<close>).

  A Go type is a \<open>gtype\<close>, a value that is filled a \<open>gval\<close>, and what a configuration holds a \<open>data\<close>: what \<open>encoding/json\<close>
  gives, integers too, but no structs and pointers. A map is a list in the order of its iteration, with distinct keys that are
  strings. A floating point number is its 64 bits; the conversions of \<open>float_ops\<close> are arguments. The texts of errors are
  abbreviated.
\<close>

section \<open>Data and types\<close>

datatype data =
    DNull
  | DBool bool
  | DInt int
  | DUint nat
  | DFloat "64 word"
  | DString string
  | DSlice "data list"
  | DNilMap
  | DMap "(string \<times> data) list"

text \<open>A field has a name and a tag (the text under the decoder's \<open>TagName\<close>), may be unexported or embedded.\<close>

record finfo =
  fi_name :: string
  fi_tag :: string
  fi_exported :: bool
  fi_anonymous :: bool

datatype gtype =
    TInt nat
  | TUint nat
  | TFloat nat
  | TString
  | TBool
  | TPtr gtype
  | TSlice gtype
  | TMap gtype gtype
  | TInterface
  | TStruct "(finfo \<times> gtype) list"
  | TOther string

datatype gval =
    VInt int
  | VUint nat
  | VFloat "64 word"
  | VString string
  | VBool bool
  | VPtr "gval option"
  | VSlice "gval list option"
  | VMap "(gval \<times> gval) list option"
  | VIface "data option"
  | VStruct "gval list"
  | VOther

fun zero_of :: "gtype \<Rightarrow> gval" where
  "zero_of (TInt w) = VInt 0"
| "zero_of (TUint w) = VUint 0"
| "zero_of (TFloat w) = VFloat 0"
| "zero_of TString = VString []"
| "zero_of TBool = VBool False"
| "zero_of (TPtr t) = VPtr None"
| "zero_of (TSlice t) = VSlice None"
| "zero_of (TMap k e) = VMap None"
| "zero_of TInterface = VIface None"
| "zero_of (TStruct fs) = VStruct (map (\<lambda>(i, t). zero_of t) fs)"
| "zero_of (TOther n) = VOther"

text \<open>The conversions of the language and of \<open>strconv\<close> for floating point numbers.\<close>

record float_ops =
  fo_to_int :: "64 word \<Rightarrow> int"
  fo_to_uint :: "64 word \<Rightarrow> nat"
  fo_of_int :: "int \<Rightarrow> 64 word"
  fo_round :: "nat \<Rightarrow> 64 word \<Rightarrow> 64 word"
  fo_parse :: "nat \<Rightarrow> string \<Rightarrow> 64 word option"
  fo_format :: "64 word \<Rightarrow> string"

record decode_option =
  op_weak :: bool
  op_replacer :: "(string \<Rightarrow> string) option"
  op_float :: float_ops

definition defaultKeyReplacer :: "string \<Rightarrow> string" where
  "defaultKeyReplacer = map (\<lambda>c. if c = CHR ''_'' then CHR ''-'' else c)"

definition replace_key :: "decode_option \<Rightarrow> string \<Rightarrow> string" where
  "replace_key o1 k = (case op_replacer o1 of None \<Rightarrow> k | Some f \<Rightarrow> f k)"

section \<open>Numbers\<close>

text \<open>\<open>strconv.ParseUint\<close> and \<open>ParseInt\<close> with base 0: a prefix gives the base, underscores may separate digits.\<close>

fun num_prefix :: "string \<Rightarrow> nat \<times> string" where
  "num_prefix (z # p # x # s) =
     (if z \<noteq> CHR ''0'' then (10, z # p # x # s)
      else if lower_char p = CHR ''b'' then (2, x # s) else if lower_char p = CHR ''o'' then (8, x # s)
      else if lower_char p = CHR ''x'' then (16, x # s) else (8, p # x # s))"
| "num_prefix (z # s) = (if z = CHR ''0'' then (8, s) else (10, z # s))"
| "num_prefix [] = (10, [])"

definition num_digit :: "char \<Rightarrow> nat option" where
  "num_digit c = (let n = (of_char (lower_char c) :: nat) in
     if 48 \<le> n \<and> n \<le> 57 then Some (n - 48) else if 97 \<le> n \<and> n \<le> 122 then Some (n - 97 + 10) else None)"

fun num_digits :: "nat \<Rightarrow> nat \<Rightarrow> nat \<Rightarrow> string \<Rightarrow> nat option" where
  "num_digits base bits n [] = Some n"
| "num_digits base bits n (c # s) =
     (if c = CHR ''_'' then num_digits base bits n s
      else case num_digit c of
        None \<Rightarrow> None
      | Some d \<Rightarrow> if base \<le> d \<or> 2 ^ bits \<le> n * base + d then None else num_digits base bits (n * base + d) s)"

text \<open>\<open>underscoreOK\<close>; the flags tell whether the last character was a digit or an underscore.\<close>

fun underscore_loop :: "bool \<Rightarrow> bool \<Rightarrow> bool \<Rightarrow> string \<Rightarrow> bool" where
  "underscore_loop hex digit us [] = (\<not> us)"
| "underscore_loop hex digit us (c # s) =
     (if is_digit c \<or> hex \<and> (case num_digit c of Some d \<Rightarrow> 10 \<le> d \<and> d < 16 | None \<Rightarrow> False)
      then underscore_loop hex True False s
      else if c = CHR ''_'' then digit \<and> underscore_loop hex False True s
      else \<not> us \<and> underscore_loop hex False False s)"

definition underscoreOK :: "string \<Rightarrow> bool" where
  "underscoreOK s =
     (let s = (if s \<noteq> [] \<and> (hd s = CHR ''-'' \<or> hd s = CHR ''+'') then tl s else s) in
      case s of
        z # p # r \<Rightarrow>
          if z = CHR ''0'' \<and> lower_char p \<in> {CHR ''b'', CHR ''o'', CHR ''x''}
          then underscore_loop (lower_char p = CHR ''x'') True False r else underscore_loop False False False s
      | _ \<Rightarrow> underscore_loop False False False s)"

definition parse_uint0 :: "nat \<Rightarrow> string \<Rightarrow> nat option" where
  "parse_uint0 bits s =
     (if s = [] then None
      else case num_prefix s of (base, r) \<Rightarrow>
        (case num_digits base bits 0 r of
           None \<Rightarrow> None | Some n \<Rightarrow> if CHR ''_'' \<in> set r \<and> \<not> underscoreOK s then None else Some n))"

definition parse_int0 :: "nat \<Rightarrow> string \<Rightarrow> int option" where
  "parse_int0 bits s =
     (if s = [] then None
      else let neg = (hd s = CHR ''-''); r = (if neg \<or> hd s = CHR ''+'' then tl s else s) in
        case parse_uint0 bits r of
          None \<Rightarrow> None
        | Some n \<Rightarrow>
            if \<not> neg \<and> 2 ^ (bits - 1) \<le> n \<or> neg \<and> 2 ^ (bits - 1) < n then None else Some (if neg then - int n else int n))"

definition formatInt :: "int \<Rightarrow> string" where
  "formatInt i = (if i < 0 then CHR ''-'' # itoa (nat (- i)) else itoa (nat i))"

section \<open>Decoding\<close>

text \<open>An error, which may be a panic, and the value after decoding.\<close>

type_synonym decoded = "gerr option \<times> gval"

type_synonym decoder = "gtype \<Rightarrow> string \<Rightarrow> data \<Rightarrow> gval \<Rightarrow> decoded"

definition bad :: "string \<Rightarrow> gerr" where
  "bad name = Msg (''unconvertible '' @ name)"

text \<open>A method of a nil \<open>reflect.Value\<close>, or one of the wrong kind, panics.\<close>

definition reflect_panic :: gerr where
  "reflect_panic = Panic ''reflect''"

definition set_int :: "nat \<Rightarrow> int \<Rightarrow> decoded" where
  "set_int w i = (None, VInt (signed_take_bit (w - 1) i))"

definition set_uint :: "nat \<Rightarrow> int \<Rightarrow> decoded" where
  "set_uint w i = (None, VUint (nat (take_bit w i)))"

definition decodeInt :: "decode_option \<Rightarrow> nat \<Rightarrow> string \<Rightarrow> data \<Rightarrow> gval \<Rightarrow> decoded" where
  "decodeInt o1 w name d v =
     (case d of
        DInt i \<Rightarrow> set_int w i
      | DUint n \<Rightarrow> if op_weak o1 then set_int w (signed_take_bit 63 (int n)) else (Some (bad name), v)
      | DFloat f \<Rightarrow> if op_weak o1 then set_int w (fo_to_int (op_float o1) f) else (Some (bad name), v)
      | DString s \<Rightarrow>
          if op_weak o1 then (case parse_int0 w s of Some i \<Rightarrow> set_int w i | None \<Rightarrow> (Some (Msg (''cannot parse '' @ name)), v))
          else (Some (bad name), v)
      | DNull \<Rightarrow> (Some reflect_panic, v)
      | _ \<Rightarrow> (Some (bad name), v))"

definition decodeUint :: "decode_option \<Rightarrow> nat \<Rightarrow> string \<Rightarrow> data \<Rightarrow> gval \<Rightarrow> decoded" where
  "decodeUint o1 w name d v =
     (case d of
        DUint n \<Rightarrow> set_uint w (int n)
      | DInt i \<Rightarrow> if op_weak o1 then set_uint w i else (Some (bad name), v)
      | DFloat f \<Rightarrow> if op_weak o1 then set_uint w (int (fo_to_uint (op_float o1) f)) else (Some (bad name), v)
      | DString s \<Rightarrow>
          if op_weak o1 then (case parse_uint0 w s of Some n \<Rightarrow> set_uint w (int n) | None \<Rightarrow> (Some (Msg (''cannot parse '' @ name)), v))
          else (Some (bad name), v)
      | DNull \<Rightarrow> (Some reflect_panic, v)
      | _ \<Rightarrow> (Some (bad name), v))"

definition decodeFloat :: "decode_option \<Rightarrow> nat \<Rightarrow> string \<Rightarrow> data \<Rightarrow> gval \<Rightarrow> decoded" where
  "decodeFloat o1 w name d v =
     (let fo = op_float o1; set = (\<lambda>f. (None, VFloat (fo_round fo w f))) in
      case d of
        DFloat f \<Rightarrow> set f
      | DUint n \<Rightarrow> set (fo_of_int fo (int n))
      | DInt i \<Rightarrow> if op_weak o1 then set (fo_of_int fo i) else (Some (bad name), v)
      | DString s \<Rightarrow>
          if op_weak o1 then (case fo_parse fo w s of Some f \<Rightarrow> set f | None \<Rightarrow> (Some (Msg (''cannot parse '' @ name)), v))
          else (Some (bad name), v)
      | DNull \<Rightarrow> (Some reflect_panic, v)
      | _ \<Rightarrow> (Some (bad name), v))"

definition decodeString :: "decode_option \<Rightarrow> string \<Rightarrow> data \<Rightarrow> gval \<Rightarrow> decoded" where
  "decodeString o1 name d v =
     (case d of
        DString s \<Rightarrow> (None, VString s)
      | DInt i \<Rightarrow> if op_weak o1 then (None, VString (formatInt i)) else (Some (bad name), v)
      | DUint n \<Rightarrow> if op_weak o1 then (None, VString (itoa n)) else (Some (bad name), v)
      | DFloat f \<Rightarrow> if op_weak o1 then (None, VString (fo_format (op_float o1) f)) else (Some (bad name), v)
      | DNull \<Rightarrow> (Some reflect_panic, v)
      | _ \<Rightarrow> (Some (bad name), v))"

text \<open>For an unsigned number \<open>decodeBool\<close> calls \<open>SetString\<close> on a bool, which panics.\<close>

definition decodeBool :: "decode_option \<Rightarrow> string \<Rightarrow> data \<Rightarrow> gval \<Rightarrow> decoded" where
  "decodeBool o1 name d v =
     (case d of
        DBool b \<Rightarrow> (None, VBool b)
      | DInt i \<Rightarrow> if op_weak o1 then (None, VBool (i \<noteq> 0)) else (Some (bad name), v)
      | DUint n \<Rightarrow> (Some (if op_weak o1 then reflect_panic else bad name), v)
      | DNull \<Rightarrow> (Some reflect_panic, v)
      | _ \<Rightarrow> (Some (bad name), v))"

text \<open>\<open>decodeSlice\<close>; \<open>rec\<close> is \<open>decode\<close>. The first error ends the loop and the slice is not set.\<close>

fun slice_loop :: "decode_option \<Rightarrow> decoder \<Rightarrow> gtype \<Rightarrow> string \<Rightarrow> nat \<Rightarrow> data list \<Rightarrow> gerr + gval list" where
  "slice_loop o1 rec t name i [] = Ok []"
| "slice_loop o1 rec t name i (d # ds) =
     (let fieldName = name @ ''['' @ itoa i @ '']'';
          x = (if d = DNull then
                 if op_weak o1 \<or> (case t of TMap k e \<Rightarrow> True | TSlice e \<Rightarrow> True | _ \<Rightarrow> False) then Ok (zero_of t)
                 else Err (Msg (fieldName @ '' can not be null''))
               else case rec t fieldName d (zero_of t) of (Some e, _) \<Rightarrow> Err e | (None, v) \<Rightarrow> Ok v)
      in rbind x (\<lambda>v. rbind (slice_loop o1 rec t name (i + 1) ds) (\<lambda>vs. Ok (v # vs))))"

definition decodeSlice :: "decode_option \<Rightarrow> decoder \<Rightarrow> gtype \<Rightarrow> string \<Rightarrow> data \<Rightarrow> gval \<Rightarrow> decoded" where
  "decodeSlice o1 rec t name d v =
     (case d of
        DString s \<Rightarrow>
          if t = TUint 8 then
            (case b64_decode s of
               None \<Rightarrow> (Some (Msg (''try decode by base64 '' @ name)), v)
             | Some b \<Rightarrow> (None, VSlice (Some (map (\<lambda>c. VUint (of_char c)) b))))
          else (Some (Msg (name @ '' is not a slice'')), v)
      | DSlice ds \<Rightarrow>
          (case slice_loop o1 rec t name 0 ds of Inl e \<Rightarrow> (Some e, v) | Inr vs \<Rightarrow> (None, VSlice (Some vs)))
      | _ \<Rightarrow> (Some (Msg (name @ '' is not a slice'')), v))"

text \<open>\<open>decodeMap\<close> and \<open>decodeMapFromMap\<close>: entries with errors are left out and the errors are joined; a panic ends everything.
  A nil map in the data has the type of the value (else \<open>Set\<close> panics when the value is not nil).\<close>

fun gmap_set :: "gval \<Rightarrow> gval \<Rightarrow> (gval \<times> gval) list \<Rightarrow> (gval \<times> gval) list" where
  "gmap_set k v [] = [(k, v)]"
| "gmap_set k v ((k', v') # m) = (if k' = k then (k, v) # m else (k', v') # gmap_set k v m)"

definition is_panic_err :: "gerr option \<Rightarrow> bool" where
  "is_panic_err e = (case e of Some (Panic p) \<Rightarrow> True | _ \<Rightarrow> False)"

fun err_text :: "gerr \<Rightarrow> string" where
  "err_text (Msg s) = s" | "err_text _ = []"

fun map_loop :: "decoder \<Rightarrow> gtype \<Rightarrow> gtype \<Rightarrow> string \<Rightarrow> (string \<times> data) list \<Rightarrow> (gval \<times> gval) list \<Rightarrow> string list
    \<Rightarrow> gerr option \<times> (gval \<times> gval) list \<times> string list" where
  "map_loop rec kt et name [] m errs = (None, m, errs)"
| "map_loop rec kt et name ((k, d) # es) m errs =
     (let fieldName = name @ ''['' @ k @ '']'' in
      case rec kt fieldName (DString k) (zero_of kt) of
        (Some (Panic p), _) \<Rightarrow> (Some (Panic p), m, errs)
      | (Some e, _) \<Rightarrow> map_loop rec kt et name es m (errs @ [err_text e])
      | (None, kv) \<Rightarrow>
          if d = DNull then map_loop rec kt et name es m (errs @ [''filed '' @ fieldName @ '' invalid''])
          else (case rec et fieldName d (zero_of et) of
              (Some (Panic p), _) \<Rightarrow> (Some (Panic p), m, errs)
            | (Some e, _) \<Rightarrow> map_loop rec kt et name es m (errs @ [err_text e])
            | (None, ev) \<Rightarrow> map_loop rec kt et name es (gmap_set kv ev m) errs))"

definition joined :: "string list \<Rightarrow> gerr option" where
  "joined errs = (if errs = [] then None else Some (Msg (join '','' errs)))"

definition decodeMap :: "decoder \<Rightarrow> gtype \<Rightarrow> gtype \<Rightarrow> string \<Rightarrow> data \<Rightarrow> gval \<Rightarrow> decoded" where
  "decodeMap rec kt et name d v =
     (let m = (case v of VMap (Some m) \<Rightarrow> m | _ \<Rightarrow> []) in
      case d of
        DNilMap \<Rightarrow> (None, VMap None)
      | DMap es \<Rightarrow>
          (case map_loop rec kt et name es m [] of
             (Some e, m', errs) \<Rightarrow> (Some e, case v of VMap (Some _) \<Rightarrow> VMap (Some m') | _ \<Rightarrow> v)
           | (None, m', errs) \<Rightarrow> (joined errs, VMap (Some m')))
      | _ \<Rightarrow> (Some (Msg (name @ '' expected a map'')), v))"

section \<open>Structs\<close>

text \<open>A key of the map for the name of a field: the name itself, else the first key that is equal but for case after the
  replacements.\<close>

definition replaced_key :: "decode_option \<Rightarrow> string \<Rightarrow> (string \<times> data) list \<Rightarrow> string" where
  "replaced_key o1 key es = (if map_of es key = None then replace_key o1 key else key)"

definition find_key :: "decode_option \<Rightarrow> string \<Rightarrow> (string \<times> data) list \<Rightarrow> data option" where
  "find_key o1 fieldName es =
     (case map_of es fieldName of
        Some d \<Rightarrow> Some d
      | None \<Rightarrow> map_option snd (find (\<lambda>(k, d). equal_fold (replace_key o1 k) (replace_key o1 fieldName)) es))"

text \<open>The parts of a tag behind the first comma.\<close>

definition squashed :: "finfo \<Rightarrow> bool" where
  "squashed i \<longleftrightarrow> ''squash'' \<in> set (tl (split_on (CHR '','') (fi_tag i)))"

definition tag_name :: "finfo \<Rightarrow> string" where
  "tag_name i = (let t = hd (split_on (CHR '','') (fi_tag i)) in if t \<noteq> [] then t else fi_name i)"

text \<open>The fields of a struct with the squashed ones in the order of the queue; a field is found by its path.\<close>

fun split_fields :: "nat list \<Rightarrow> nat \<Rightarrow> (finfo \<times> gtype) list
    \<Rightarrow> (nat list \<times> (finfo \<times> gtype) list) list \<times> (nat list \<times> finfo \<times> gtype) list \<times> string list" where
  "split_fields path n [] = ([], [], [])"
| "split_fields path n ((i, t) # fs) =
     (case split_fields path (n + 1) fs of (sq, fl, er) \<Rightarrow>
        if squashed i then
          (case t of TStruct gs \<Rightarrow> ((path @ [n], gs) # sq, fl, er)
           | _ \<Rightarrow> (sq, fl, (fi_name i @ '': unsupported type for squash'') # er))
        else (sq, (path @ [n], i, t) # fl, er))"

definition queue_size :: "(nat list \<times> (finfo \<times> gtype) list) list \<Rightarrow> nat" where
  "queue_size q = sum_list (map (\<lambda>(p, fs). 1 + sum_list (map (\<lambda>(i, t). size t) fs)) q)"

lemma fields_size: "sum_list (map (\<lambda>(i, t). size t) fs) \<le> size_list (size_prod (\<lambda>x :: finfo. 0) size) fs"
  by (induction fs) auto

lemma split_fields_size:
  "split_fields path n fs = (sq, fl, er) \<Longrightarrow>
     sum_list (map (\<lambda>(p, fs). Suc (sum_list (map (\<lambda>(i, t). size t) fs))) sq) \<le> sum_list (map (\<lambda>(i, t). size t) fs)"
proof (induction path n fs arbitrary: sq fl er rule: split_fields.induct)
  case (2 path n i t fs)
  obtain sq' fl' er' where r: "split_fields path (n + 1) fs = (sq', fl', er')" by (cases "split_fields path (n + 1) fs")
  note ih = "2.IH" [OF r]
  show ?case
  proof (cases t)
    case (TStruct gs)
    then show ?thesis using ih "2.prems" r fields_size [of gs] by (auto split: if_splits)
  qed (use ih "2.prems" r in \<open>auto split: if_splits\<close>)
qed simp

function collect_fields :: "(nat list \<times> (finfo \<times> gtype) list) list \<Rightarrow> (nat list \<times> finfo \<times> gtype) list \<times> string list" where
  "collect_fields [] = ([], [])"
| "collect_fields ((path, fs) # q) =
     (case split_fields path 0 fs of (sq, fl, er) \<Rightarrow>
        (case collect_fields (q @ sq) of (fl', er') \<Rightarrow> (fl @ fl', er @ er')))"
  by pat_completeness auto
termination
proof (relation "measure queue_size", simp, goal_cases)
  case (1 path fs q)
  then show ?case using split_fields_size [of path 0 fs] by (cases "split_fields path 0 fs") (auto simp: queue_size_def)
qed

fun get_path :: "nat list \<Rightarrow> gval \<Rightarrow> gval" where
  "get_path [] v = v"
| "get_path (n # p) (VStruct vs) = get_path p (vs ! n)"
| "get_path (n # p) v = VOther"

fun set_path :: "nat list \<Rightarrow> gval \<Rightarrow> gval \<Rightarrow> gval" where
  "set_path [] x v = x"
| "set_path (n # p) x (VStruct vs) = VStruct (vs[n := set_path p x (vs ! n)])"
| "set_path (n # p) x v = v"

fun fields_loop :: "decode_option \<Rightarrow> decoder \<Rightarrow> string \<Rightarrow> (string \<times> data) list \<Rightarrow> (nat list \<times> finfo \<times> gtype) list
    \<Rightarrow> gval \<Rightarrow> string list \<Rightarrow> gerr option \<times> gval \<times> string list" where
  "fields_loop o1 rec name es [] v errs = (None, v, errs)"
| "fields_loop o1 rec name es ((p, i, t) # fs) v errs =
     (case find_key o1 (tag_name i) es of
        None \<Rightarrow> fields_loop o1 rec name es fs v errs
      | Some d \<Rightarrow>
          if \<not> fi_exported i then fields_loop o1 rec name es fs v errs
          else let key = replaced_key o1 (tag_name i) es; fieldName = (if name \<noteq> [] then name @ ''.'' @ key else key) in
            (case rec t fieldName d (get_path p v) of
               (Some (Panic x), v') \<Rightarrow> (Some (Panic x), set_path p v' v, errs)
             | (Some e, v') \<Rightarrow> fields_loop o1 rec name es fs (set_path p v' v) (errs @ [err_text e])
             | (None, v') \<Rightarrow> fields_loop o1 rec name es fs (set_path p v' v) errs))"

definition decodeStructFromMap ::
  "decode_option \<Rightarrow> decoder \<Rightarrow> (finfo \<times> gtype) list \<Rightarrow> string \<Rightarrow> (string \<times> data) list \<Rightarrow> gval \<Rightarrow> decoded" where
  "decodeStructFromMap o1 rec fs name es v =
     (case collect_fields [([], fs)] of (fl, er) \<Rightarrow>
        (case fields_loop o1 rec name es fl v er of
           (Some e, v', _) \<Rightarrow> (Some e, v') | (None, v', errs) \<Rightarrow> (joined errs, v')))"

definition decodeStruct :: "decode_option \<Rightarrow> decoder \<Rightarrow> (finfo \<times> gtype) list \<Rightarrow> string \<Rightarrow> data \<Rightarrow> gval \<Rightarrow> decoded" where
  "decodeStruct o1 rec fs name d v =
     (case d of
        DMap es \<Rightarrow> decodeStructFromMap o1 rec fs name es v
      | DNilMap \<Rightarrow> decodeStructFromMap o1 rec fs name [] v
      | DNull \<Rightarrow> (Some reflect_panic, v)
      | _ \<Rightarrow> (Some (Msg (name @ '' expected a map'')), v))"

text \<open>\<open>decode\<close> with the decoder for the types inside.\<close>

definition decode_step :: "decode_option \<Rightarrow> decoder \<Rightarrow> decoder" where
  "decode_step o1 rec t name d v =
     (case t of
        TInt w \<Rightarrow> decodeInt o1 w name d v
      | TUint w \<Rightarrow> decodeUint o1 w name d v
      | TFloat w \<Rightarrow> decodeFloat o1 w name d v
      | TPtr e \<Rightarrow>
          (case rec e name d (case v of VPtr (Some x) \<Rightarrow> x | _ \<Rightarrow> zero_of e) of (err, x) \<Rightarrow> (err, VPtr (Some x)))
      | TString \<Rightarrow> decodeString o1 name d v
      | TBool \<Rightarrow> decodeBool o1 name d v
      | TSlice e \<Rightarrow> decodeSlice o1 rec e name d v
      | TMap k e \<Rightarrow> decodeMap rec k e name d v
      | TInterface \<Rightarrow> if d = DNull then (Some reflect_panic, v) else (None, VIface (Some d))
      | TStruct fs \<Rightarrow> decodeStruct o1 rec fs name d v
      | TOther n \<Rightarrow> (Some (Msg (''type '' @ n @ '' not support'')), v))"

text \<open>The recursion goes down the type, so its size bounds it.\<close>

fun decode_fuel :: "decode_option \<Rightarrow> nat \<Rightarrow> decoder" where
  "decode_fuel o1 0 t name d v = (Some (Panic ''fuel''), v)"
| "decode_fuel o1 (Suc n) t name d v = decode_step o1 (decode_fuel o1 n) t name d v"

definition gdecode :: "decode_option \<Rightarrow> decoder" where
  "gdecode o1 t = decode_fuel o1 (Suc (size t)) t"

text \<open>\<open>Decode\<close>: every field must be there, but those of embedded structs and those that may be empty. A tag may have one comma;
  \<open>Cut\<close> does not cut at the first character. The fields at the top are exported ones (\<open>Set\<close> panics on others).\<close>

fun decode_top :: "decode_option \<Rightarrow> (string \<times> data) list \<Rightarrow> (finfo \<times> gtype) list \<Rightarrow> gval list \<Rightarrow> gerr option \<times> gval list" where
  "decode_top o1 src ((i, t) # fs) (v # vs) =
     (let continue = (\<lambda>v'. case decode_top o1 src fs vs of (e, vs') \<Rightarrow> (e, v' # vs')) in
      if fi_anonymous i then
        (case t of
           TStruct gs \<Rightarrow>
             (case decodeStruct o1 (gdecode o1) gs (fi_name i) (DMap src) v of
                (Some e, v') \<Rightarrow> (Some e, v' # vs) | (None, v') \<Rightarrow> continue v')
         | _ \<Rightarrow> (Some reflect_panic, v # vs))
      else case cut_at (fi_tag i) '','' of (key, omitKey, found) \<Rightarrow>
        (case find_key o1 key src of
           None \<Rightarrow> if found \<and> omitKey = ''omitempty'' then continue v else (Some (Msg (''key missing: '' @ replaced_key o1 key src)), v # vs)
         | Some d \<Rightarrow>
             if d = DNull then
               (if found \<and> omitKey = ''omitempty'' then continue v else (Some (Msg (''key missing: '' @ replaced_key o1 key src)), v # vs))
             else (case gdecode o1 t (replaced_key o1 key src) d v of (Some e, v') \<Rightarrow> (Some e, v' # vs) | (None, v') \<Rightarrow> continue v')))"
| "decode_top o1 src fs vs = (None, vs)"

end
