(* ===== verification/StructureFacts.thy ===== *)
theory StructureFacts
  imports Structure
begin

text \<open>
  Facts about the decoder of configurations: the size of the type is enough fuel, so \<open>gdecode\<close> satisfies the recursive equation
  of \<open>decode\<close>; what is decoded keeps its type; and data without nulls and unsigned numbers cannot make the decoder panic.
\<close>

declare collect_fields.simps(2) [simp del]

section \<open>The fields of a struct\<close>

lemma split_fields_in:
  "split_fields path n fs = (sq, fl, er) \<Longrightarrow>
     (\<forall>(p, i, t) \<in> set fl. (i, t) \<in> set fs) \<and> (\<forall>(p, gs) \<in> set sq. \<exists>i. (i, TStruct gs) \<in> set fs)"
proof (induction path n fs arbitrary: sq fl er rule: split_fields.induct)
  case (2 path n i t fs)
  obtain sq' fl' er' where r: "split_fields path (n + 1) fs = (sq', fl', er')" by (cases "split_fields path (n + 1) fs")
  show ?case using "2.IH" [OF r] "2.prems" r by (cases t) (fastforce split: if_splits)+
qed simp

lemma field_size: "(i, t) \<in> set fs \<Longrightarrow> size t \<le> sum_list (map (\<lambda>(i, t). size t) fs)"
  by (induction fs) auto

lemma field_size_struct: "(i, t) \<in> set fs \<Longrightarrow> size t < size (TStruct fs)"
  using field_size [of i t fs] fields_size [of fs] by simp

text \<open>Every collected field is in a struct that holds all structs of the queue.\<close>

lemma collect_fields_size:
  "\<forall>(path, fs) \<in> set q. size (TStruct fs) \<le> n \<Longrightarrow> (p, i, t) \<in> set (fst (collect_fields q)) \<Longrightarrow> size t < n"
proof (induction q rule: collect_fields.induct)
  case (2 path fs q)
  obtain sq fl er where s: "split_fields path 0 fs = (sq, fl, er)" by (cases "split_fields path 0 fs")
  note inn = split_fields_in [OF s]
  have fs: "size (TStruct fs) \<le> n" using "2.prems" by auto
  have "size (TStruct gs) \<le> n" if "(p', gs) \<in> set sq" for p' gs
  proof -
    from that inn obtain k where "(k, TStruct gs) \<in> set fs" by blast
    from field_size_struct [OF this] fs show ?thesis by linarith
  qed
  then have q: "\<forall>(path, fs) \<in> set (q @ sq). size (TStruct fs) \<le> n" using "2.prems"(1) by auto
  consider "(p, i, t) \<in> set fl" | "(p, i, t) \<in> set (fst (collect_fields (q @ sq)))"
    using "2.prems"(2) s by (auto simp: collect_fields.simps(2) split: prod.splits)
  then show ?case
  proof cases
    case 1
    then have "(i, t) \<in> set fs" using inn by blast
    from field_size_struct [OF this] fs show ?thesis by linarith
  next
    case 2
    then show ?thesis using "2.IH" [OF s [symmetric] refl] q by blast
  qed
qed simp

lemma struct_field_size: "(p, i, t) \<in> set (fst (collect_fields [([], fs)])) \<Longrightarrow> size t < size (TStruct fs)"
  using collect_fields_size [of "[([], fs)]" "size (TStruct fs)"] by auto

section \<open>The recursion\<close>

lemma slice_loop_cong: "r t = s t \<Longrightarrow> slice_loop o1 r t name i ds = slice_loop o1 s t name i ds"
  by (induction ds arbitrary: i) (simp_all add: Let_def)

lemma map_loop_cong: "r kt = s kt \<Longrightarrow> r et = s et \<Longrightarrow> map_loop r kt et name es m errs = map_loop s kt et name es m errs"
  by (induction es arbitrary: m errs) (auto simp: Let_def split: prod.splits option.splits gerr.splits)

lemma fields_loop_cong:
  "\<forall>(p, i, t) \<in> set fs. r t = s t \<Longrightarrow> fields_loop o1 r name es fs v errs = fields_loop o1 s name es fs v errs"
  by (induction fs arbitrary: v errs) (auto simp: Let_def split: option.split prod.split gerr.split)

lemma decodeStruct_cong:
  assumes "\<And>t. size t < size (TStruct fs) \<Longrightarrow> r t = s t"
  shows "decodeStruct o1 r fs name d v = decodeStruct o1 s fs name d v"
proof -
  obtain fl er where c: "collect_fields [([], fs)] = (fl, er)" by (cases "collect_fields [([], fs)]")
  have "\<forall>(p, i, t) \<in> set fl. r t = s t"
    using struct_field_size [of _ _ _ fs] assms unfolding c fst_conv by fast
  then have "decodeStructFromMap o1 r fs name es v = decodeStructFromMap o1 s fs name es v" for es
    by (simp add: decodeStructFromMap_def c fields_loop_cong [of fl r s])
  then show ?thesis by (simp add: decodeStruct_def split: data.split)
qed

lemma decode_step_cong:
  assumes "\<And>t'. size t' < size t \<Longrightarrow> r t' = s t'"
  shows "decode_step o1 r t name d v = decode_step o1 s t name d v"
proof (cases t)
  case (TStruct fs)
  then show ?thesis using decodeStruct_cong [of fs r s] assms by (simp only: decode_step_def gtype.case)
next
  case (TSlice e)
  then have "r e = s e" using assms by simp
  then show ?thesis using TSlice by (simp add: decode_step_def decodeSlice_def slice_loop_cong [of r e s] split: data.split)
next
  case (TMap k e)
  then have "r k = s k" "r e = s e" using assms by simp_all
  then show ?thesis using TMap by (simp add: decode_step_def decodeMap_def Let_def map_loop_cong [of r k s e] split: data.split)
qed (use assms in \<open>simp_all add: decode_step_def\<close>)

lemma decode_fuel_enough: "size t < n \<Longrightarrow> size t < m \<Longrightarrow> decode_fuel o1 n t = decode_fuel o1 m t"
proof (induction n arbitrary: m t)
  case (Suc n)
  obtain k where k: "m = Suc k" using Suc.prems by (cases m) auto
  have "decode_fuel o1 n t' = decode_fuel o1 k t'" if "size t' < size t" for t'
    using that Suc.prems k Suc.IH [of t' k] by simp
  from decode_step_cong [OF this] show ?case unfolding k by (intro ext) simp
qed simp

text \<open>Decoding never runs out of fuel: \<open>gdecode\<close> satisfies the equation of \<open>decode\<close>, for every type and every data.\<close>

lemma gdecode_rec: "gdecode o1 t name d v = decode_step o1 (gdecode o1) t name d v"
proof -
  have "decode_fuel o1 (size t) t' = gdecode o1 t'" if "size t' < size t" for t'
    using that decode_fuel_enough [of t' "size t" "Suc (size t')"] by (simp add: gdecode_def)
  from decode_step_cong [of t, OF this] show ?thesis by (simp only: gdecode_def [of o1 t] decode_fuel.simps)
qed

theorem decode_recursion: "gdecode o1 t name d v = decode_step o1 (gdecode o1) t name d v"
  by (rule gdecode_rec)

section \<open>Types\<close>

function has_type :: "gtype \<Rightarrow> gval \<Rightarrow> bool" where
  "has_type (TInt w) v = (case v of VInt i \<Rightarrow> - (2 ^ (w - 1)) \<le> i \<and> i < 2 ^ (w - 1) | _ \<Rightarrow> False)"
| "has_type (TUint w) v = (case v of VUint n \<Rightarrow> n < 2 ^ w | _ \<Rightarrow> False)"
| "has_type (TFloat w) v = (case v of VFloat f \<Rightarrow> True | _ \<Rightarrow> False)"
| "has_type TString v = (case v of VString s \<Rightarrow> True | _ \<Rightarrow> False)"
| "has_type TBool v = (case v of VBool b \<Rightarrow> True | _ \<Rightarrow> False)"
| "has_type (TPtr t) v = (case v of VPtr None \<Rightarrow> True | VPtr (Some x) \<Rightarrow> has_type t x | _ \<Rightarrow> False)"
| "has_type (TSlice t) v = (case v of VSlice None \<Rightarrow> True | VSlice (Some xs) \<Rightarrow> list_all (has_type t) xs | _ \<Rightarrow> False)"
| "has_type (TMap k e) v =
     (case v of VMap None \<Rightarrow> True | VMap (Some m) \<Rightarrow> list_all (\<lambda>(a, b). has_type k a \<and> has_type e b) m | _ \<Rightarrow> False)"
| "has_type TInterface v = (case v of VIface d \<Rightarrow> d \<noteq> Some DNull | _ \<Rightarrow> False)"
| "has_type (TStruct fs) v =
     (case v of VStruct vs \<Rightarrow> length vs = length fs \<and> list_all (\<lambda>((i, t), x). has_type t x) (zip fs vs) | _ \<Rightarrow> False)"
| "has_type (TOther n) v = (v = VOther)"
  by pat_completeness auto
termination
  by (relation "measure (\<lambda>(t, v). size t)") (auto dest!: set_zip_leftD dest: field_size_struct)

lemma has_type_struct:
  "has_type (TStruct fs) v \<longleftrightarrow>
     (\<exists>vs. v = VStruct vs \<and> length vs = length fs \<and> (\<forall>n < length fs. has_type (snd (fs ! n)) (vs ! n)))"
  by (cases v) (auto simp: list_all_length case_prod_beta)

lemma zero_typed: "has_type t (zero_of t)"
proof (induction t)
  case (TStruct fs)
  have "has_type (snd (fs ! n)) (zero_of (snd (fs ! n)))" if "n < length fs" for n
    using TStruct [of "fs ! n" "snd (fs ! n)"] that by (auto simp: prod_set_defs)
  then show ?case by (simp add: has_type_struct case_prod_beta del: has_type.simps)
qed simp_all

text \<open>The type at a path, and what reading and writing at a path does to types.\<close>

fun type_at :: "gtype \<Rightarrow> nat list \<Rightarrow> gtype option" where
  "type_at t [] = Some t"
| "type_at (TStruct fs) (n # p) = (if n < length fs then type_at (snd (fs ! n)) p else None)"
| "type_at t (n # p) = None"

lemma type_at_snoc:
  "type_at t p = Some (TStruct fs) \<Longrightarrow> n < length fs \<Longrightarrow> type_at t (p @ [n]) = Some (snd (fs ! n))"
  by (induction t p rule: type_at.induct) (auto split: if_splits)

lemma get_path_typed: "type_at t p = Some t' \<Longrightarrow> has_type t v \<Longrightarrow> has_type t' (get_path p v)"
  by (induction t p arbitrary: v rule: type_at.induct) (auto simp: has_type_struct simp del: has_type.simps(10) split: if_splits)

lemma set_path_typed: "type_at t p = Some t' \<Longrightarrow> has_type t v \<Longrightarrow> has_type t' x \<Longrightarrow> has_type t (set_path p x v)"
proof (induction t p arbitrary: v rule: type_at.induct)
  case (2 fs n p)
  then obtain vs where "v = VStruct vs" "length vs = length fs" "\<forall>n < length fs. has_type (snd (fs ! n)) (vs ! n)" "n < length fs"
    by (auto simp: has_type_struct simp del: has_type.simps(10) split: if_splits)
  then show ?case using 2 by (auto simp: has_type_struct nth_list_update simp del: has_type.simps(10))
qed simp_all

lemma split_fields_typed:
  "split_fields path n fs = (sq, fl, er) \<Longrightarrow> type_at t path = Some (TStruct all) \<Longrightarrow> drop n all = fs \<Longrightarrow>
     (\<forall>(p, i, t') \<in> set fl. type_at t p = Some t') \<and> (\<forall>(p, gs) \<in> set sq. type_at t p = Some (TStruct gs))"
proof (induction path n fs arbitrary: sq fl er rule: split_fields.induct)
  case (2 path n i t' fs)
  obtain sq' fl' er' where r: "split_fields path (n + 1) fs = (sq', fl', er')" by (cases "split_fields path (n + 1) fs")
  have n: "n < length all" using "2.prems"(3) by (cases "n < length all") auto
  then have "all ! n = (i, t')" "drop (n + 1) all = fs"
    using "2.prems"(3) Cons_nth_drop_Suc [OF n] by simp_all
  then show ?case using "2.IH" [OF r "2.prems"(2)] "2.prems" r type_at_snoc [OF "2.prems"(2) n]
    by (cases t') (auto split: if_splits)
qed simp

lemma collect_fields_typed:
  "\<forall>(path, fs) \<in> set q. type_at t path = Some (TStruct fs) \<Longrightarrow> \<forall>(p, i, t') \<in> set (fst (collect_fields q)). type_at t p = Some t'"
proof (induction q rule: collect_fields.induct)
  case (2 path fs q)
  obtain sq fl er where s: "split_fields path 0 fs = (sq, fl, er)" by (cases "split_fields path 0 fs")
  have "type_at t path = Some (TStruct fs)" using "2.prems" by auto
  note st = split_fields_typed [OF s this]
  then have "\<forall>(path, fs) \<in> set (q @ sq). type_at t path = Some (TStruct fs)" using "2.prems" by auto
  from "2.IH" [OF s [symmetric] refl this] st show ?case by (auto simp: collect_fields.simps(2) s split: prod.splits)
qed simp

text \<open>A decoder that keeps types.\<close>

definition keeps_types :: "decoder \<Rightarrow> bool" where
  "keeps_types r \<longleftrightarrow> (\<forall>t name d v. has_type t v \<longrightarrow> has_type t (snd (r t name d v)))"

lemma keeps_typesD: "keeps_types r \<Longrightarrow> r t name d v = (e, v') \<Longrightarrow> has_type t v \<Longrightarrow> has_type t v'"
  unfolding keeps_types_def by (metis snd_conv)

lemma slice_loop_typed: "keeps_types r \<Longrightarrow> slice_loop o1 r t name i ds = Ok vs \<Longrightarrow> list_all (has_type t) vs"
proof (induction ds arbitrary: i vs)
  case (Cons d ds)
  then show ?case
    by (auto simp: Let_def zero_typed rbind_Ok_iff dest: keeps_typesD [OF _ _ zero_typed] split: if_splits prod.splits option.splits)
qed simp

abbreviation entries_typed :: "gtype \<Rightarrow> gtype \<Rightarrow> (gval \<times> gval) list \<Rightarrow> bool" where
  "entries_typed k e \<equiv> list_all (\<lambda>(a, b). has_type k a \<and> has_type e b)"

lemma gmap_set_typed: "entries_typed k e m \<Longrightarrow> has_type k a \<Longrightarrow> has_type e b \<Longrightarrow> entries_typed k e (gmap_set a b m)"
  by (induction a b m rule: gmap_set.induct) auto

lemma map_loop_typed:
  "keeps_types r \<Longrightarrow> entries_typed kt et m \<Longrightarrow> map_loop r kt et name es m errs = (x, m', errs') \<Longrightarrow> entries_typed kt et m'"
proof (induction es arbitrary: m errs)
  case (Cons f es)
  obtain k d where f: "f = (k, d)" by (cases f)
  obtain e1 kv where k: "r kt (name @ ''['' @ k @ '']'') (DString k) (zero_of kt) = (e1, kv)" by fastforce
  obtain e2 ev where e: "r et (name @ ''['' @ k @ '']'') d (zero_of et) = (e2, ev)" by fastforce
  note m = gmap_set_typed [OF Cons.prems(2) keeps_typesD [OF Cons.prems(1) k zero_typed] keeps_typesD [OF Cons.prems(1) e zero_typed]]
  note ih = Cons.IH [OF Cons.prems(1) Cons.prems(2)] and ih2 = Cons.IH [OF Cons.prems(1) m]
  show ?case
  proof (cases e1)
    case (Some y)
    then show ?thesis using Cons.prems(2,3) k ih by (cases y) (simp_all add: f Let_def)
  next
    case e1: None
    show ?thesis
    proof (cases e2)
      case (Some y)
      then show ?thesis using Cons.prems(2,3) k e e1 ih by (cases y) (simp_all add: f Let_def split: if_splits)
    next
      case None
      then show ?thesis using Cons.prems(2,3) k e e1 ih ih2 by (simp add: f Let_def split: if_splits)
    qed
  qed
qed simp

lemma fields_loop_typed:
  "keeps_types r \<Longrightarrow> \<forall>(p, i, t') \<in> set fs. type_at t p = Some t' \<Longrightarrow> has_type t v \<Longrightarrow>
     fields_loop o1 r name es fs v errs = (x, v', errs') \<Longrightarrow> has_type t v'"
proof (induction fs arbitrary: v errs)
  case (Cons f fs)
  obtain p i t' where f: "f = (p, i, t')" by (cases f)
  have p: "type_at t p = Some t'" and fs: "\<forall>(p, i, t') \<in> set fs. type_at t p = Some t'" using Cons.prems(2) f by auto
  show ?case
  proof (cases "find_key o1 (tag_name i) es = None \<or> \<not> fi_exported i")
    case True
    then show ?thesis using Cons.IH [OF Cons.prems(1) fs Cons.prems(3)] Cons.prems(4) by (auto simp: f split: option.splits)
  next
    case False
    then obtain d where d: "find_key o1 (tag_name i) es = Some d" "fi_exported i" by auto
    let ?k = "replaced_key o1 (tag_name i) es"
    obtain e w where r: "r t' (if name \<noteq> [] then name @ ''.'' @ ?k else ?k) d (get_path p v) = (e, w)" by fastforce
    have w: "has_type t (set_path p w v)"
      using set_path_typed [OF p Cons.prems(3)] keeps_typesD [OF Cons.prems(1) r get_path_typed [OF p Cons.prems(3)]] by blast
    note ih = Cons.IH [OF Cons.prems(1) fs w]
    show ?thesis
    proof (cases e)
      case None
      then show ?thesis using Cons.prems(4) r d ih by (simp add: f Let_def)
    next
      case (Some y)
      then show ?thesis using Cons.prems(4) r d ih w by (cases y) (simp_all add: f Let_def)
    qed
  qed
qed simp

lemma decodeStruct_typed:
  assumes "keeps_types r" "has_type (TStruct fs) v"
  shows "has_type (TStruct fs) (snd (decodeStruct o1 r fs name d v))"
proof -
  obtain fl er where c: "collect_fields [([], fs)] = (fl, er)" by (cases "collect_fields [([], fs)]")
  have fl: "\<forall>(p, i, t') \<in> set fl. type_at (TStruct fs) p = Some t'"
    using collect_fields_typed [of "[([], fs)]" "TStruct fs"] c by simp
  have "has_type (TStruct fs) (snd (decodeStructFromMap o1 r fs name es v))" for es
  proof -
    obtain x v' errs where l: "fields_loop o1 r name es fl v er = (x, v', errs)" by (cases "fields_loop o1 r name es fl v er")
    from fields_loop_typed [OF assms(1) fl assms(2) l] show ?thesis
      by (cases x) (simp_all add: decodeStructFromMap_def c l del: has_type.simps)
  qed
  then show ?thesis using assms(2) by (simp add: decodeStruct_def del: has_type.simps split: data.split)
qed

lemma decode_numbers_typed:
  "has_type (TInt w) v \<Longrightarrow> has_type (TInt w) (snd (decodeInt o1 w name d v))"
  "has_type (TUint w) v \<Longrightarrow> has_type (TUint w) (snd (decodeUint o1 w name d v))"
  "has_type (TFloat w) v \<Longrightarrow> has_type (TFloat w) (snd (decodeFloat o1 w name d v))"
proof -
  have i: "has_type (TInt w) (snd (set_int w i))" for i
    using signed_take_bit_int_less_exp [of "w - 1" i] signed_take_bit_int_greater_eq_minus_exp [of "w - 1" i] by (simp add: set_int_def)
  have u: "has_type (TUint w) (snd (set_uint w i))" for i
    using take_bit_int_less_exp [of w i] by (simp add: set_uint_def nat_less_iff)
  show "has_type (TInt w) v \<Longrightarrow> has_type (TInt w) (snd (decodeInt o1 w name d v))"
    using i by (auto simp: decodeInt_def simp del: has_type.simps split: data.split option.split)
  show "has_type (TUint w) v \<Longrightarrow> has_type (TUint w) (snd (decodeUint o1 w name d v))"
    using u by (auto simp: decodeUint_def simp del: has_type.simps split: data.split option.split)
  show "has_type (TFloat w) v \<Longrightarrow> has_type (TFloat w) (snd (decodeFloat o1 w name d v))"
    by (simp add: decodeFloat_def Let_def split: data.split option.split)
qed

lemma decodeMap_typed:
  assumes "keeps_types r" "has_type (TMap k e) v"
  shows "has_type (TMap k e) (snd (decodeMap r k e name d v))"
proof (cases "\<exists>es. d = DMap es")
  case True
  then obtain es where es: "d = DMap es" by blast
  define m where "m = (case v of VMap (Some m) \<Rightarrow> m | _ \<Rightarrow> [])"
  have m: "entries_typed k e m" using assms(2) by (auto simp: m_def split: gval.splits option.splits)
  obtain x m' errs where l: "map_loop r k e name es m [] = (x, m', errs)" by (cases "map_loop r k e name es m []")
  from map_loop_typed [OF assms(1) m l] have "entries_typed k e m'" .
  then show ?thesis using assms(2)
    by (auto simp: decodeMap_def es Let_def m_def [symmetric] l split: option.splits gval.splits)
next
  case False
  then show ?thesis using assms(2) by (cases d) (auto simp: decodeMap_def Let_def)
qed

lemma decodeSlice_typed:
  assumes "keeps_types r" "has_type (TSlice e) v"
  shows "has_type (TSlice e) (snd (decodeSlice o1 r e name d v))"
proof -
  have "list_all (has_type (TUint 8)) (map (\<lambda>c. VUint (of_char c)) s)" for s :: string
    by (auto simp: list_all_iff)
  then show ?thesis using assms slice_loop_typed [OF assms(1)]
    by (auto simp: decodeSlice_def simp del: has_type.simps(2) split: data.splits option.splits sum.splits)
qed

lemma decode_step_typed: "keeps_types r \<Longrightarrow> keeps_types (decode_step o1 r)"
proof (unfold keeps_types_def [of "decode_step o1 r"], intro allI impI)
  fix t name d v
  assume r: "keeps_types r" and v: "has_type t v"
  show "has_type t (snd (decode_step o1 r t name d v))"
  proof (cases t)
    case (TPtr e)
    define x where "x = (case v of VPtr (Some x) \<Rightarrow> x | _ \<Rightarrow> zero_of e)"
    have x: "has_type e x" using v TPtr by (auto simp: x_def zero_typed split: gval.splits option.splits)
    obtain err y where y: "r e name d x = (err, y)" by fastforce
    from keeps_typesD [OF r y x] show ?thesis by (simp add: decode_step_def TPtr x_def [symmetric] y)
  qed (use v r in \<open>simp_all add: decode_step_def decode_numbers_typed decodeString_def decodeBool_def decodeMap_typed decodeSlice_typed
      decodeStruct_typed del: has_type.simps split: data.split\<close>; simp split: data.split)+
qed

lemma decode_typed_fuel: "keeps_types (decode_fuel o1 n)"
proof (induction n)
  case (Suc n)
  have "decode_fuel o1 (Suc n) = decode_step o1 (decode_fuel o1 n)" by (intro ext) simp
  then show ?case using decode_step_typed [OF Suc] by simp
qed (simp add: keeps_types_def)

lemma gdecode_typed: "keeps_types (gdecode o1)"
  using decode_typed_fuel unfolding keeps_types_def gdecode_def by blast



section \<open>Panics\<close>

fun plain :: "data \<Rightarrow> bool" where
  "plain DNull = False"
| "plain (DUint n) = False"
| "plain (DSlice ds) = list_all plain ds"
| "plain (DMap es) = list_all (\<lambda>(k, d). plain d) es"
| "plain d = True"

definition calm_decoder :: "decoder \<Rightarrow> gtype \<Rightarrow> bool" where
  "calm_decoder r t \<longleftrightarrow> (\<forall>name d v. plain d \<longrightarrow> \<not> is_panic_err (fst (r t name d v)))"

lemma is_panic_err_simps [simp]: "\<not> is_panic_err None" "is_panic_err (Some (Panic p))" "\<not> is_panic_err (Some (Msg m))"
  by (simp_all add: is_panic_err_def)

lemma joined_calm [simp]: "\<not> is_panic_err (joined errs)"
  by (simp add: joined_def)

lemma calm_decoderD: "calm_decoder r t \<Longrightarrow> plain d \<Longrightarrow> r t name d v = (e, v') \<Longrightarrow> \<not> is_panic_err e"
  unfolding calm_decoder_def by (metis fst_conv)

lemma slice_loop_calm: "calm_decoder r t \<Longrightarrow> list_all plain ds \<Longrightarrow> slice_loop o1 r t name i ds = Inl e \<Longrightarrow> \<not> is_panic_err (Some e)"
proof (induction ds arbitrary: i)
  case (Cons d ds)
  obtain x v where r: "r t (name @ ''['' @ itoa i @ '']'') d (zero_of t) = (x, v)" by fastforce
  have "\<not> is_panic_err x" "d \<noteq> DNull" using calm_decoderD [OF Cons.prems(1) _ r] Cons.prems(2) by auto
  then show ?case using Cons r by (cases x; cases "slice_loop o1 r t name (i + 1) ds") (auto simp: Let_def)
qed simp

lemma map_loop_calm:
  "calm_decoder r kt \<Longrightarrow> calm_decoder r et \<Longrightarrow> list_all (\<lambda>(k, d). plain d) es \<Longrightarrow> fst (map_loop r kt et name es m errs) = None"
proof (induction es arbitrary: m errs)
  case (Cons f es)
  obtain k d where f: "f = (k, d)" by (cases f)
  obtain e1 kv where k: "r kt (name @ ''['' @ k @ '']'') (DString k) (zero_of kt) = (e1, kv)" by fastforce
  obtain e2 ev where e: "r et (name @ ''['' @ k @ '']'') d (zero_of et) = (e2, ev)" by fastforce
  have d: "plain d" "list_all (\<lambda>(k, d). plain d) es" using Cons.prems(3) f by simp_all
  have "\<not> is_panic_err e1" "\<not> is_panic_err e2"
    using calm_decoderD [OF Cons.prems(1) _ k] calm_decoderD [OF Cons.prems(2) d(1) e] by simp_all
  then show ?case using Cons.IH [OF Cons.prems(1,2) d(2)] k e
    by (auto simp: f Let_def is_panic_err_def split: option.split gerr.split)
qed simp

lemma find_key_plain: "list_all (\<lambda>(k, d). plain d) es \<Longrightarrow> find_key o1 k es = Some d \<Longrightarrow> plain d"
  by (auto simp: find_key_def list_all_iff find_Some_iff dest: map_of_SomeD split: option.splits) (metis case_prod_conv nth_mem)

lemma fields_loop_calm:
  "\<forall>(p, i, t) \<in> set fs. calm_decoder r t \<Longrightarrow> list_all (\<lambda>(k, d). plain d) es \<Longrightarrow> fst (fields_loop o1 r name es fs v errs) = None"
proof (induction fs arbitrary: v errs)
  case (Cons f fs)
  obtain p i t where f: "f = (p, i, t)" by (cases f)
  have c: "calm_decoder r t" "\<forall>(p, i, t) \<in> set fs. calm_decoder r t" using Cons.prems(1) f by auto
  note ih = Cons.IH [OF c(2) Cons.prems(2)]
  show ?case
  proof (cases "find_key o1 (tag_name i) es")
    case (Some d)
    let ?k = "replaced_key o1 (tag_name i) es"
    obtain e w where r: "r t (if name \<noteq> [] then name @ ''.'' @ ?k else ?k) d (get_path p v) = (e, w)" by fastforce
    have "\<not> is_panic_err e" using calm_decoderD [OF c(1) find_key_plain [OF Cons.prems(2) Some] r] .
    then show ?thesis using ih r Some by (auto simp: f Let_def is_panic_err_def split: option.split gerr.split)
  qed (simp add: f ih)
qed simp

lemma decodeStruct_calm:
  assumes "\<And>t. size t < size (TStruct fs) \<Longrightarrow> calm_decoder r t" "plain d"
  shows "\<not> is_panic_err (fst (decodeStruct o1 r fs name d v))"
proof -
  obtain fl er where c: "collect_fields [([], fs)] = (fl, er)" by (cases "collect_fields [([], fs)]")
  have fl: "\<forall>(p, i, t) \<in> set fl. calm_decoder r t"
    using struct_field_size [of _ _ _ fs] assms(1) unfolding c fst_conv by fast
  have "\<not> is_panic_err (fst (decodeStructFromMap o1 r fs name es v))" if "list_all (\<lambda>(k, d). plain d) es" for es
    using fields_loop_calm [OF fl that, of o1 name v er]
    by (auto simp: decodeStructFromMap_def c split: prod.split)
  then show ?thesis using assms(2) by (auto simp: decodeStruct_def split: data.split)
qed

lemma gdecode_calm: "calm_decoder (gdecode o1) t"
proof (induction t rule: measure_induct_rule [of size])
  case (less t)
  have "\<not> is_panic_err (fst (gdecode o1 t name d v))" if d: "plain d" for name d v
  proof (cases t)
    case (TPtr e)
    have "\<not> is_panic_err (fst (gdecode o1 e name d x))" for x using less [of e] TPtr d by (simp add: calm_decoder_def)
    then show ?thesis by (subst gdecode_rec) (simp add: TPtr decode_step_def case_prod_beta)
  next
    case (TSlice e)
    then show ?thesis using slice_loop_calm [OF less [of e], of _ o1 name 0] d
      by (subst gdecode_rec) (auto simp: TSlice decode_step_def decodeSlice_def split: data.split option.split sum.split)
  next
    case (TMap k e)
    then show ?thesis using map_loop_calm [OF less [of k] less [of e], of _ name _ "[]"] d
      by (subst gdecode_rec) (auto simp: TMap decode_step_def decodeMap_def Let_def split: data.split option.split prod.split,
        (metis fst_conv option.distinct(1))+)
  next
    case (TStruct fs)
    then show ?thesis using decodeStruct_calm [of fs "gdecode o1" d o1 name v] less d
      by (subst gdecode_rec) (simp add: decode_step_def)
  qed (use d in \<open>(subst gdecode_rec; auto simp: decode_step_def decodeInt_def decodeUint_def decodeFloat_def decodeString_def
      decodeBool_def set_int_def set_uint_def bad_def Let_def split: data.split option.split)+\<close>)
  then show ?case by (simp add: calm_decoder_def)
qed


text \<open>A configuration without nulls and unsigned numbers cannot make the decoder panic, whatever is in it; it may have nulls at
  the top when the option has no embedded struct.\<close>

theorem decode_no_panic:
  assumes "list_all (\<lambda>(k, d). plain d \<or> d = DNull \<and> list_all (\<lambda>(i, t). \<not> fi_anonymous i) fs) src"
    "list_all (\<lambda>(i, t). fi_anonymous i \<longrightarrow> (\<exists>gs. t = TStruct gs)) fs"
  shows "\<not> is_panic_err (fst (decode_top o1 src fs vs))"
  using assms
proof (induction o1 src fs vs rule: decode_top.induct)
  case (1 o1 src i t fs v vs)
  have p: "list_all (\<lambda>(k, d). plain d \<or> d = DNull \<and> list_all (\<lambda>(i, t). \<not> fi_anonymous i) fs) src"
    using "1.prems"(1) by (auto simp: list_all_iff)
  have "list_all (\<lambda>(i, t). fi_anonymous i \<longrightarrow> (\<exists>gs. t = TStruct gs)) fs" using "1.prems"(2) by simp
  note ih = "1.IH" [OF p this]
  show ?case
  proof (cases "fi_anonymous i")
    case True
    then obtain gs where t: "t = TStruct gs" using "1.prems"(2) by auto
    have "list_all (\<lambda>(k, d). plain d) src" using "1.prems"(1) True by (auto simp: list_all_iff)
    then have d: "\<not> is_panic_err (fst (decodeStruct o1 (gdecode o1) gs (fi_name i) (DMap src) v))"
      using decodeStruct_calm [of gs "gdecode o1" "DMap src"] gdecode_calm by auto
    obtain e w where e: "decodeStruct o1 (gdecode o1) gs (fi_name i) (DMap src) v = (e, w)" by fastforce
    then show ?thesis using d ih True t by (cases e) (auto simp: Let_def case_prod_beta)
  next
    case False
    obtain key omit found where c: "cut_at (fi_tag i) '','' = (key, omit, found)" by (cases "cut_at (fi_tag i) '',''")
    show ?thesis
    proof (cases "find_key o1 key src = None \<or> find_key o1 key src = Some DNull")
      case True
      then show ?thesis using False c ih by (auto simp: Let_def case_prod_beta)
    next
      case ff: False
      then obtain d where d: "find_key o1 key src = Some d" "d \<noteq> DNull" by auto
      have "\<exists>k. (k, d) \<in> set src" using d(1)
        by (auto simp: find_key_def find_Some_iff dest: map_of_SomeD split: option.splits) (metis nth_mem)
      then have "plain d" using "1.prems"(1) d(2) by (auto simp: list_all_iff)
      obtain e w where e: "gdecode o1 t (replaced_key o1 key src) d v = (e, w)" by fastforce
      have "\<not> is_panic_err e" using calm_decoderD [OF gdecode_calm \<open>plain d\<close> e] .
      then show ?thesis using False c d e ih by (cases e) (auto simp: Let_def case_prod_beta)
    qed
  qed
qed simp_all

text \<open>What a successful \<open>Decode\<close> tells about the configuration: a value that is not null was there for every field at the top, but
  for embedded structs and fields marked \<open>omitempty\<close>.\<close>

lemma decode_requires_keys:
  assumes "fst (decode_top o1 src fs vs) = None" "length vs = length fs" "(i, t) \<in> set fs" "\<not> fi_anonymous i"
    "snd (snd (cut_at (fi_tag i) '','')) \<longrightarrow> fst (snd (cut_at (fi_tag i) '','')) \<noteq> ''omitempty''"
  shows "\<exists>d. find_key o1 (fst (cut_at (fi_tag i) '','')) src = Some d \<and> d \<noteq> DNull"
  using assms
proof (induction o1 src fs vs rule: decode_top.induct)
  case (1 o1 src j u fs v vs)
  have rest: "fst (decode_top o1 src fs vs) = None"
    using "1.prems"(1) by (auto simp: Let_def case_prod_beta split: if_splits option.splits gtype.splits)
  show ?case
  proof (cases "(i, t) \<in> set fs")
    case True
    then show ?thesis using "1.IH" [OF rest] "1.prems" by simp
  next
    case False
    then have "i = j" using "1.prems"(3) by simp
    then show ?thesis using "1.prems"(1,4,5)
      by (auto simp: Let_def case_prod_beta split: if_splits option.splits)
  qed
qed simp_all

end
