(* ===== verification/Configure.thy ===== *)
theory Configure
  imports StructureFacts "HOL-Library.AList"
begin

text \<open>
  From a configuration to a proxy: the options of the WLESS and VLESS proxies (\<open>transport/outbound\<close>), \<open>ParseProxy\<close>
  (\<open>transport/parse.go\<close>), the registration of the proxies of a client (\<open>Serve\<close> in \<open>client.go\<close>) and the configuration that an
  agent makes of its flags (\<open>cmd/tcpover/main.go\<close>).
\<close>

section \<open>Options\<close>

definition option_field :: "string \<Rightarrow> string \<Rightarrow> gtype \<Rightarrow> finfo \<times> gtype" where
  "option_field name tag t = (\<lparr>fi_name = name, fi_tag = tag, fi_exported = True, fi_anonymous = False\<rparr>, t)"

definition wlessOption :: "(finfo \<times> gtype) list" where
  "wlessOption =
     [option_field ''Name'' ''name'' TString, option_field ''Local'' ''local'' TString, option_field ''Remote'' ''remote'' TString,
      option_field ''Mode'' ''mode'' TString, option_field ''Server'' ''server'' TString, option_field ''Direct'' ''direct'' TString,
      option_field ''Mux'' ''mux'' TBool, option_field ''Header'' ''header'' (TMap TString TString)]"

definition vlessOption :: "(finfo \<times> gtype) list" where
  "vlessOption =
     [(\<lparr>fi_name = ''WlessOption'', fi_tag = [], fi_exported = True, fi_anonymous = True\<rparr>, TStruct wlessOption),
      option_field ''UUID'' ''uuid'' TString]"

record wless_option =
  wo_name :: string
  wo_local :: string
  wo_remote :: string
  wo_mode :: string
  wo_server :: string
  wo_direct :: string
  wo_mux :: bool
  wo_header :: "(string \<times> string) list"

fun gtext :: "gval \<Rightarrow> string" where
  "gtext (VString s) = s" | "gtext _ = []"

fun gbool :: "gval \<Rightarrow> bool" where
  "gbool (VBool b) = b" | "gbool _ = False"

fun gfields :: "gval \<Rightarrow> gval list" where
  "gfields (VStruct vs) = vs" | "gfields _ = []"

fun gheader :: "gval \<Rightarrow> (string \<times> string) list" where
  "gheader (VMap (Some es)) = map (\<lambda>(k, v). (gtext k, gtext v)) es" | "gheader _ = []"

text \<open>The struct that the values of the fields are.\<close>

definition wless_of :: "gval list \<Rightarrow> wless_option" where
  "wless_of vs = \<lparr>wo_name = gtext (vs ! 0), wo_local = gtext (vs ! 1), wo_remote = gtext (vs ! 2), wo_mode = gtext (vs ! 3),
     wo_server = gtext (vs ! 4), wo_direct = gtext (vs ! 5), wo_mux = gbool (vs ! 6), wo_header = gheader (vs ! 7)\<rparr>"

section \<open>Proxies\<close>

text \<open>A proxy: its name and type, the option of its dispatcher, the UUID of a VLESS one, and the server and the name with which
  the passive side is started.\<close>

record made_proxy =
  mp_type :: string
  mp_name :: string
  mp_option :: "proxy_option option"
  mp_uuid :: "uuid option"
  mp_passive :: "(string \<times> string) option"

definition make_proxy :: "string \<Rightarrow> uuid option \<Rightarrow> wless_option \<Rightarrow> made_proxy res" where
  "make_proxy type u c =
     rbind (new_proxy_checks (wo_server c) (wo_direct c)) (\<lambda>passive.
       Ok \<lparr>mp_type = type, mp_name = wo_name c,
         mp_option = Some \<lparr>po_remote = wo_remote c, po_mode = wo_mode c, po_server = wo_server c, po_mux = wo_mux c, po_header = wo_header c\<rparr>,
         mp_uuid = u, mp_passive = (if passive then Some (wo_server c, wo_local c) else None)\<rparr>)"

definition newWless :: "wless_option \<Rightarrow> made_proxy res" where
  "newWless c = make_proxy Wless None c"

definition newVless :: "(bytes \<Rightarrow> bytes) \<Rightarrow> wless_option \<Rightarrow> string \<Rightarrow> made_proxy res" where
  "newVless sha1 c u = make_proxy Vless (Some (uuidMap sha1 u)) c"

definition newDirect :: made_proxy where
  "newDirect = \<lparr>mp_type = ''Direct'', mp_name = ''DIRECT'', mp_option = None, mp_uuid = None, mp_passive = None\<rparr>"

definition parse_options :: "float_ops \<Rightarrow> decode_option" where
  "parse_options fo = \<lparr>op_weak = True, op_replacer = Some defaultKeyReplacer, op_float = fo\<rparr>"

abbreviation zero_fields :: "(finfo \<times> gtype) list \<Rightarrow> gval list" where
  "zero_fields fs \<equiv> map (\<lambda>(i, t). zero_of t) fs"

definition parseProxy :: "(bytes \<Rightarrow> bytes) \<Rightarrow> float_ops \<Rightarrow> (string \<times> data) list \<Rightarrow> made_proxy res" where
  "parseProxy sha1 fo mapping =
     (case map_of mapping ''type'' of
        Some (DString t) \<Rightarrow>
          if t = Wless then
            (case decode_top (parse_options fo) mapping wlessOption (zero_fields wlessOption) of
               (Some e, _) \<Rightarrow> Err e
             | (None, vs) \<Rightarrow> newWless (wless_of vs))
          else if t = Vless then
            (case decode_top (parse_options fo) mapping vlessOption (zero_fields vlessOption) of
               (Some e, _) \<Rightarrow> Err e
             | (None, vs) \<Rightarrow> newVless sha1 (wless_of (gfields (vs ! 0))) (gtext (vs ! 1)))
          else if t = ''Direct'' then Ok newDirect
          else Err (Msg (''unsupport proxy type: '' @ t))
      | _ \<Rightarrow> Err (Msg ''missing type''))"

text \<open>\<open>Serve\<close>: the proxies that are registered, and the error at which it stops before it listens.\<close>

fun client_Serve :: "(bytes \<Rightarrow> bytes) \<Rightarrow> float_ops \<Rightarrow> (string \<times> data) list list \<Rightarrow> made_proxy list \<Rightarrow> gerr option \<times> made_proxy list" where
  "client_Serve sha1 fo [] proxies = (None, proxies)"
| "client_Serve sha1 fo (m # ms) proxies =
     (case parseProxy sha1 fo m of Inl e \<Rightarrow> (Some e, proxies) | Inr p \<Rightarrow> client_Serve sha1 fo ms (proxies @ [p]))"

definition newClient_server :: "string \<Rightarrow> string" where
  "newClient_server server = (if str_contains server ''://'' then server else ''wss://'' @ server)"

section \<open>The flags of an agent\<close>

text \<open>\<open>Set\<close> of a header flag: only a text with exactly one colon is kept.\<close>

definition header_Set :: "(string \<Rightarrow> string) \<Rightarrow> string \<Rightarrow> (string \<times> string) list option \<Rightarrow> (string \<times> string) list option" where
  "header_Set utrim s h =
     (case split_on (CHR '':'') (trim_space utrim s) of
        [k, v] \<Rightarrow> Some (AList.update (trim_space utrim k) (trim_space utrim v) (case h of None \<Rightarrow> [] | Some m \<Rightarrow> m))
      | _ \<Rightarrow> h)"

definition agent_mode :: "string \<Rightarrow> string \<Rightarrow> bool \<Rightarrow> string" where
  "agent_mode name remoteName mux =
     (let mode = (if name = [] \<and> remoteName = [] then ModeDirect else ModeForward) in if mux then mode_mux mode else mode)"

definition agent_mapping ::
  "string \<Rightarrow> string \<Rightarrow> string \<Rightarrow> string \<Rightarrow> bool \<Rightarrow> (string \<times> string) list option \<Rightarrow> string \<Rightarrow> (string \<times> data) list" where
  "agent_mapping type name remoteName endpoint mux h now =
     [(''type'', DString type), (''name'', DString ''proxying''), (''local'', DString name), (''remote'', DString remoteName),
      (''direct'', DString ''sendrecv''), (''server'', DString endpoint), (''mode'', DString (agent_mode name remoteName mux)),
      (''mux'', DBool mux), (''header'', case h of None \<Rightarrow> DNilMap | Some m \<Rightarrow> DMap (map (\<lambda>(k, v). (k, DString v)) m))]
     @ (if type = Vless then [(''uuid'', DString now)] else [])"

text \<open>What \<open>main\<close> refuses before it does anything; an agent may not do without an endpoint, a connector also needs an address.\<close>

record flags =
  fl_server :: bool
  fl_connector :: bool
  fl_agent :: bool
  fl_listen :: string
  fl_endpoint :: string
  fl_addr :: string

definition main_checks :: "flags \<Rightarrow> unit res" where
  "main_checks f =
     (if \<not> fl_server f \<and> \<not> fl_connector f \<and> \<not> fl_agent f then Err (Msg ''must be run as one mode'')
      else if fl_server f \<and> fl_listen f = [] then Err (Msg ''server must set listen addr'')
      else if fl_connector f \<and> fl_endpoint f = [] then Err (Msg ''connector must set server endpoint'')
      else if fl_connector f \<and> fl_addr f = [] then Err (Msg ''connector must set link remote addr'')
      else if fl_agent f \<and> fl_endpoint f = [] then Err (Msg ''agent must set server endpoint'')
      else Ok ())"

datatype run_as = RunServer | RunConnector | RunAgent

definition main_runs :: "flags \<Rightarrow> run_as res" where
  "main_runs f = rbind (main_checks f) (\<lambda>_. Ok (if fl_server f then RunServer else if fl_connector f then RunConnector else RunAgent))"

section \<open>Decoding the options\<close>

lemma gdecode_string [simp]: "gdecode o1 TString name (DString s) v = (None, VString s)"
  by (subst gdecode_rec) (simp add: decode_step_def decodeString_def)

lemma gdecode_bool [simp]: "gdecode o1 TBool name (DBool b) v = (None, VBool b)"
  by (subst gdecode_rec) (simp add: decode_step_def decodeBool_def)

lemma gmap_set_new: "k \<notin> fst ` set m \<Longrightarrow> gmap_set k v m = m @ [(k, v)]"
  by (induction k v m rule: gmap_set.induct) auto

lemma map_loop_strings:
  "distinct (map fst es) \<Longrightarrow> fst ` set m \<inter> VString ` fst ` set es = {} \<Longrightarrow>
     map_loop (gdecode o1) TString TString name (map (\<lambda>(k, v). (k, DString v)) es) m errs
       = (None, m @ map (\<lambda>(k, v). (VString k, VString v)) es, errs)"
proof (induction es arbitrary: m)
  case (Cons e es)
  obtain k v where e: "e = (k, v)" by (cases e)
  have "fst ` set (m @ [(VString k, VString v)]) \<inter> VString ` fst ` set es = {}" using Cons.prems e by force
  then show ?case using Cons.IH [of "m @ [(VString k, VString v)]"] Cons.prems e
    by (simp add: Let_def gmap_set_new)
qed simp

lemma gdecode_header:
  assumes "\<And>m. h = Some m \<Longrightarrow> distinct (map fst m)"
  shows "gdecode o1 (TMap TString TString) name (case h of None \<Rightarrow> DNilMap | Some m \<Rightarrow> DMap (map (\<lambda>(k, v). (k, DString v)) m)) (VMap None)
    = (None, VMap (map_option (map (\<lambda>(k, v). (VString k, VString v))) h))"
  using assms by (subst gdecode_rec) (auto simp: decode_step_def decodeMap_def Let_def joined_def map_loop_strings split: option.split)

lemma find_key_exact: "map_of es k = Some d \<Longrightarrow> find_key o1 k es = Some d"
  by (simp add: find_key_def)


lemma str_index_none: "c \<notin> set s \<Longrightarrow> str_index s [c] = None"
  by (induction s) (auto simp: has_prefix_def)

lemma top_field:
  assumes "map_of src key = Some d" "d \<noteq> DNull" "CHR '','' \<notin> set key" "gdecode o1 t key d v = (None, v')"
  shows "decode_top o1 src (option_field name key t # fs) (v # vs) = (case decode_top o1 src fs vs of (e, ws) \<Rightarrow> (e, v' # ws))"
  using assms by (simp add: option_field_def Let_def cut_at_def str_index_none find_key_exact replaced_key_def)

lemma top_null:
  assumes "map_of src key = Some DNull" "CHR '','' \<notin> set key"
  shows "decode_top o1 src (option_field name key t # fs) (v # vs) = (Some (Msg (''key missing: '' @ key)), v # vs)"
  using assms by (simp add: option_field_def Let_def cut_at_def str_index_none find_key_exact replaced_key_def)

lemma split_on_plain: "c \<notin> set s \<Longrightarrow> split_on c s = [s]"
  by (induction s) auto

lemma option_field_facts:
  assumes "option_field name key t = (i, u)" "CHR '','' \<notin> set key" "key \<noteq> []"
  shows "tag_name i = key" "fi_exported i" "\<not> squashed i" "u = t"
  using assms by (auto simp: option_field_def tag_name_def squashed_def split_on_plain)

lemma not_squashed: "CHR '','' \<notin> set key \<Longrightarrow> key \<noteq> [] \<Longrightarrow>
  split_fields path n (option_field name key t # fs) =
    (case split_fields path (n + 1) fs of (sq, fl, er) \<Rightarrow> (sq, (path @ [n], option_field name key t) # fl, er))"
  by (auto simp: option_field_def squashed_def split_on_plain split: prod.split)

lemma struct_field:
  assumes "map_of es key = Some d" "CHR '','' \<notin> set key" "key \<noteq> []" "\<And>nm. r t nm d (get_path p v) = (None, v')"
  shows "fields_loop o1 r name es ((p, option_field nme key t) # fs) v errs = fields_loop o1 r name es fs (set_path p v' v) errs"
proof -
  obtain i where i: "option_field nme key t = (i, t)" by (simp add: option_field_def)
  note f = option_field_facts [OF i assms(2,3)]
  show ?thesis using assms(1,4) f by (simp add: i find_key_exact Let_def)
qed

section \<open>The configuration of an agent\<close>

lemma wless_fields: "collect_fields [([], wlessOption)] = (map (\<lambda>n. ([n], wlessOption ! n)) [0, 1, 2, 3, 4, 5, 6, 7], [])"
  by (simp add: collect_fields.simps(2) wlessOption_def not_squashed)

text \<open>The header of the proxy.\<close>

definition header_value :: "(string \<times> string) list option \<Rightarrow> gval" where
  "header_value h = VMap (map_option (map (\<lambda>(k, v). (VString k, VString v))) h)"

lemma gheader_value [simp]: "gheader (header_value h) = (case h of None \<Rightarrow> [] | Some m \<Rightarrow> m)"
  by (induction h) (auto simp: header_value_def o_def case_prod_beta)

definition agent_values :: "string \<Rightarrow> string \<Rightarrow> string \<Rightarrow> bool \<Rightarrow> (string \<times> string) list option \<Rightarrow> gval list" where
  "agent_values name remoteName endpoint mux h =
     [VString ''proxying'', VString name, VString remoteName, VString (agent_mode name remoteName mux), VString endpoint,
      VString ''sendrecv'', VBool mux, header_value h]"

text \<open>The mapping in any order of its iteration.\<close>

lemma mapping_lookup:
  assumes "distinct (map fst src)" "set src = set (agent_mapping type name remoteName endpoint mux h now)"
  shows "map_of src ''type'' = Some (DString type)" "map_of src ''name'' = Some (DString ''proxying'')"
    "map_of src ''local'' = Some (DString name)" "map_of src ''remote'' = Some (DString remoteName)"
    "map_of src ''direct'' = Some (DString ''sendrecv'')" "map_of src ''server'' = Some (DString endpoint)"
    "map_of src ''mode'' = Some (DString (agent_mode name remoteName mux))" "map_of src ''mux'' = Some (DBool mux)"
    "map_of src ''header'' = Some (case h of None \<Rightarrow> DNilMap | Some m \<Rightarrow> DMap (map (\<lambda>(k, v). (k, DString v)) m))"
    "type = Vless \<Longrightarrow> map_of src ''uuid'' = Some (DString now)"
  using map_of_is_SomeI [OF assms(1)] assms(2) by (auto simp: agent_mapping_def)

lemma header_not_null: "(case h of None \<Rightarrow> DNilMap | Some m \<Rightarrow> DMap (f m)) \<noteq> DNull"
  by (cases h) auto

lemma agent_decodes:
  assumes "distinct (map fst src)" "set src = set (agent_mapping type name remoteName endpoint mux h now)"
    "\<And>m. h = Some m \<Longrightarrow> distinct (map fst m)"
  shows "decode_top o1 src wlessOption (zero_fields wlessOption) = (None, agent_values name remoteName endpoint mux h)"
    "decodeStruct o1 (gdecode o1) wlessOption nm (DMap src) (VStruct (zero_fields wlessOption))
      = (None, VStruct (agent_values name remoteName endpoint mux h))"
proof -
  note lookup = mapping_lookup [OF assms(1,2)]
  have z: "zero_fields wlessOption = [VString [], VString [], VString [], VString [], VString [], VString [], VBool False, VMap None]"
    by (simp add: wlessOption_def option_field_def)
  note hd = gdecode_header [OF assms(3), folded header_value_def]
  show "decode_top o1 src wlessOption (zero_fields wlessOption) = (None, agent_values name remoteName endpoint mux h)"
    unfolding z unfolding wlessOption_def
    by (simp add: top_field lookup hd header_not_null agent_values_def)
  show "decodeStruct o1 (gdecode o1) wlessOption nm (DMap src) (VStruct (zero_fields wlessOption))
      = (None, VStruct (agent_values name remoteName endpoint mux h))"
    unfolding z
    by (simp add: decodeStruct_def decodeStructFromMap_def wless_fields)
      (simp add: wlessOption_def struct_field lookup hd agent_values_def joined_def)
qed


lemma vless_top:
  assumes "decodeStruct o1 (gdecode o1) wlessOption ''WlessOption'' (DMap src) (VStruct (zero_fields wlessOption)) = (None, VStruct ws)"
    "map_of src ''uuid'' = Some (DString u)"
  shows "decode_top o1 src vlessOption (zero_fields vlessOption) = (None, [VStruct ws, VString u])"
proof -
  have z: "zero_fields vlessOption = [VStruct (zero_fields wlessOption), VString []]"
    by (simp add: vlessOption_def option_field_def)
  show ?thesis unfolding z unfolding vlessOption_def by (simp add: assms top_field [OF assms(2)])
qed

lemma agent_option:
  "wless_of (agent_values name remoteName endpoint mux h) =
    \<lparr>wo_name = ''proxying'', wo_local = name, wo_remote = remoteName, wo_mode = agent_mode name remoteName mux, wo_server = endpoint,
      wo_direct = ''sendrecv'', wo_mux = mux, wo_header = (case h of None \<Rightarrow> [] | Some m \<Rightarrow> m)\<rparr>"
  by (simp add: wless_of_def agent_values_def)

lemma agent_parse:
  assumes "distinct (map fst src)" "set src = set (agent_mapping type name remoteName endpoint mux h now)"
    "\<And>m. h = Some m \<Longrightarrow> distinct (map fst m)" "type = Wless \<or> type = Vless" "endpoint \<noteq> []"
  shows "parseProxy sha1 fo src =
    (if has_prefix endpoint ''ws://'' \<or> has_prefix endpoint ''wss://'' then
       Ok \<lparr>mp_type = type, mp_name = ''proxying'',
         mp_option = Some \<lparr>po_remote = remoteName, po_mode = agent_mode name remoteName mux, po_server = endpoint, po_mux = mux,
           po_header = (case h of None \<Rightarrow> [] | Some m \<Rightarrow> m)\<rparr>,
         mp_uuid = (if type = Vless then Some (uuidMap sha1 now) else None), mp_passive = Some (endpoint, name)\<rparr>
     else Err (Msg ''server must be startsWith wss:// or ws://''))"
proof -
  note lookup = mapping_lookup [OF assms(1,2)] and dec = agent_decodes [OF assms(1-3), of "parse_options fo"]
  have made: "make_proxy type u (wless_of (agent_values name remoteName endpoint mux h)) =
    (if has_prefix endpoint ''ws://'' \<or> has_prefix endpoint ''wss://'' then
       Ok \<lparr>mp_type = type, mp_name = ''proxying'',
         mp_option = Some \<lparr>po_remote = remoteName, po_mode = agent_mode name remoteName mux, po_server = endpoint, po_mux = mux,
           po_header = (case h of None \<Rightarrow> [] | Some m \<Rightarrow> m)\<rparr>,
         mp_uuid = u, mp_passive = Some (endpoint, name)\<rparr>
     else Err (Msg ''server must be startsWith wss:// or ws://''))" for u
    using assms(5) by (simp add: make_proxy_def agent_option new_proxy_checks_def)
  show ?thesis
  proof (cases "type = Wless")
    case True
    moreover have "Wless \<noteq> Vless" by (simp add: Wless_def Vless_def)
    ultimately show ?thesis using made [of None] lookup(1) by (simp add: parseProxy_def dec(1) newWless_def)
  next
    case False
    then have v: "type = Vless" using assms(4) by simp
    have "decode_top (parse_options fo) src vlessOption (zero_fields vlessOption)
        = (None, [VStruct (agent_values name remoteName endpoint mux h), VString now])"
      by (rule vless_top) (use dec(2) lookup(10) v in auto)
    then show ?thesis using made [of "Some (uuidMap sha1 now)"] lookup(1) False v
      by (simp add: parseProxy_def newVless_def)
  qed
qed

text \<open>C23: An agent gets the proxy that its flags ask for: whatever the order in which its configuration is iterated, \<open>ParseProxy\<close>
  returns a proxy of the wanted type for the endpoint, the remote name and the headers of the flags, whose mode is the direct one
  exactly when neither name is given, and whose passive side is registered under the name of the agent. An endpoint that does not
  begin with \<open>ws://\<close> or \<open>wss://\<close> is refused.\<close>

theorem agent_configuration:
  assumes "distinct (map fst src)" "set src = set (agent_mapping type name remoteName endpoint mux h now)"
    "\<And>m. h = Some m \<Longrightarrow> distinct (map fst m)" "type = Wless \<or> type = Vless" "endpoint \<noteq> []"
  shows "parseProxy sha1 fo src =
    (if has_prefix endpoint ''ws://'' \<or> has_prefix endpoint ''wss://'' then
       Ok \<lparr>mp_type = type, mp_name = ''proxying'',
         mp_option = Some \<lparr>po_remote = remoteName, po_mode = agent_mode name remoteName mux, po_server = endpoint, po_mux = mux,
           po_header = (case h of None \<Rightarrow> [] | Some m \<Rightarrow> m)\<rparr>,
         mp_uuid = (if type = Vless then Some (uuidMap sha1 now) else None), mp_passive = Some (endpoint, name)\<rparr>
     else Err (Msg ''server must be startsWith wss:// or ws://''))"
  by (rule agent_parse [OF assms])

definition no_floats :: float_ops where
  "no_floats = \<lparr>fo_to_int = \<lambda>f. 0, fo_to_uint = \<lambda>f. 0, fo_of_int = \<lambda>i. 0, fo_round = \<lambda>w f. f, fo_parse = \<lambda>w s. None,
    fo_format = \<lambda>f. ''0E+00''\<rparr>"

theorem agent_configuration_witness:
  "(\<exists>p. parseProxy (\<lambda>b. []) no_floats (rev (agent_mapping Wless ''a'' [] ''wss://h'' True (Some [(''X'', ''y'')]) []))
      = Ok p \<and> mp_passive p = Some (''wss://h'', ''a'') \<and> map_option po_mode (mp_option p) = Some ''forwardMux'')
   \<and> parseProxy (\<lambda>b. []) no_floats (agent_mapping Vless [] [] ''h.org'' False None ''now'')
      = Err (Msg ''server must be startsWith wss:// or ws://'')"
proof -
  let ?a = "agent_mapping Wless ''a'' [] ''wss://h'' True (Some [(''X'', ''y'')]) []"
  let ?b = "agent_mapping Vless [] [] ''h.org'' False None ''now''"
  have d: "distinct (map fst (rev ?a))" "distinct (map fst ?b)" by (simp_all add: agent_mapping_def)
  have "parseProxy (\<lambda>b. []) no_floats (rev ?a) = Ok \<lparr>mp_type = Wless, mp_name = ''proxying'',
      mp_option = Some \<lparr>po_remote = [], po_mode = ''forwardMux'', po_server = ''wss://h'', po_mux = True, po_header = [(''X'', ''y'')]\<rparr>,
      mp_uuid = None, mp_passive = Some (''wss://h'', ''a'')\<rparr>"
    using agent_configuration [OF d(1) set_rev] by (simp add: has_prefix_def agent_mode_def mode_mux_def isMux_def mode_defs Wless_def Vless_def)
  moreover have "parseProxy (\<lambda>b. []) no_floats ?b = Err (Msg ''server must be startsWith wss:// or ws://'')"
    using agent_configuration [OF d(2) refl] by (simp add: has_prefix_def)
  ultimately show ?thesis by simp
qed

text \<open>The same endpoint without a scheme is completed for a connector (\<open>NewClient\<close>), whose client an agent does not use.\<close>

lemma connector_completes_endpoint:
  "newClient_server ''h.org'' = ''wss://h.org''" "has_prefix (newClient_server ''h.org'') ''wss://''"
  by (simp_all add: newClient_server_def str_contains_def has_prefix_def)

text \<open>A header with a colon in its value is dropped.\<close>

lemma header_Set_colon: "header_Set (\<lambda>s. s) ''Host: h.org:443'' h = h"
  by (simp add: header_Set_def trim_space_def is_space_def Let_def)

text \<open>A configuration of a VLESS proxy needs its UUID only, which the option itself holds; a null in it makes the embedded struct
  panic, where a WLESS configuration gets an error.\<close>

lemma gdecode_string_null: "gdecode o1 TString name DNull v = (Some reflect_panic, v)"
  by (subst gdecode_rec) (simp add: decode_step_def decodeString_def)

lemma vless_null_panics:
  "is_panic (parseProxy sha1 fo [(''type'', DString ''Vless''), (''uuid'', DString u), (''name'', DNull)])"
  "parseProxy sha1 fo [(''type'', DString ''Wless''), (''name'', DNull)] = Err (Msg ''key missing: name'')"
proof -
  let ?v = "[(''type'', DString ''Vless''), (''uuid'', DString u), (''name'', DNull)]"
  have z: "zero_fields vlessOption = [VStruct (zero_fields wlessOption), VString []]"
    by (simp add: vlessOption_def option_field_def)
  obtain i where i: "wlessOption ! 0 = (i, TString)" "option_field ''Name'' ''name'' TString = (i, TString)"
    by (simp add: wlessOption_def option_field_def)
  note f = option_field_facts [OF i(2)]
  have "fst (decodeStruct o1 (gdecode o1) wlessOption nm (DMap ?v) w) = Some reflect_panic" for o1 nm w
    using f by (simp add: decodeStruct_def decodeStructFromMap_def wless_fields i find_key_exact Let_def gdecode_string_null reflect_panic_def)
  then have "fst (decode_top o1 ?v vlessOption (zero_fields vlessOption)) = Some reflect_panic" for o1
    unfolding z unfolding vlessOption_def by (simp add: Let_def case_prod_beta reflect_panic_def)
  then show "is_panic (parseProxy sha1 fo ?v)"
    by (simp add: parseProxy_def Wless_def Vless_def case_prod_beta reflect_panic_def)
  show "parseProxy sha1 fo [(''type'', DString ''Wless''), (''name'', DNull)] = Err (Msg ''key missing: name'')"
  proof -
    let ?w = "[(''type'', DString ''Wless''), (''name'', DNull)]"
    obtain fs where w: "wlessOption = option_field ''Name'' ''name'' TString # fs" by (simp add: wlessOption_def)
    have "fst (decode_top o1 ?w wlessOption (zero_fields wlessOption)) = Some (Msg ''key missing: name'')" for o1
      unfolding w by (simp add: top_null)
    then show ?thesis by (simp add: parseProxy_def Wless_def case_prod_beta)
  qed
qed

section \<open>Configurations that are refused\<close>

definition wless_keys :: "string list" where
  "wless_keys = [''name'', ''local'', ''remote'', ''mode'', ''server'', ''direct'', ''mux'', ''header'']"

lemma wless_key_field: "k \<in> set wless_keys \<Longrightarrow> \<exists>n t. option_field n k t \<in> set wlessOption \<and> CHR '','' \<notin> set k"
  by (auto simp: wless_keys_def wlessOption_def)

text \<open>A WLESS proxy is only made from a configuration that has a value for each of its eight keys, spelled as the tag or but for case
  and with underscores for hyphens, whose server is a WebSocket endpoint.\<close>

theorem wless_config_complete:
  assumes "parseProxy sha1 fo src = Ok p" "map_of src ''type'' = Some (DString Wless)" "k \<in> set wless_keys"
  shows "(\<exists>d. find_key (parse_options fo) k src = Some d \<and> d \<noteq> DNull)
    \<and> (\<exists>o1. mp_option p = Some o1 \<and> (has_prefix (po_server o1) ''ws://'' \<or> has_prefix (po_server o1) ''wss://''))"
proof -
  obtain e vs where d: "decode_top (parse_options fo) src wlessOption (zero_fields wlessOption) = (e, vs)" by fastforce
  have e: "e = None" "newWless (wless_of vs) = Ok p" using assms(1,2) d by (auto simp: parseProxy_def split: option.splits)
  obtain n t where f: "option_field n k t \<in> set wlessOption" "CHR '','' \<notin> set k" using wless_key_field [OF assms(3)] by blast
  obtain i where i: "option_field n k t = (i, t)" "fi_tag i = k" "\<not> fi_anonymous i" by (simp add: option_field_def)
  have "cut_at (fi_tag i) '','' = (k, [], False)" using f(2) i by (simp add: cut_at_def str_index_none)
  moreover have "\<exists>o1. mp_option p = Some o1 \<and> (has_prefix (po_server o1) ''ws://'' \<or> has_prefix (po_server o1) ''wss://'')"
    using e(2) by (auto simp: newWless_def make_proxy_def new_proxy_checks_def split: if_splits)
  ultimately show ?thesis
    using decode_requires_keys [of "parse_options fo" src wlessOption "zero_fields wlessOption" i t] d e f(1) i by simp
qed


theorem wless_config_complete_witness:
  "\<exists>d. find_key (parse_options no_floats) ''remote'' (agent_mapping Wless ''a'' [] ''wss://h'' True None []) = Some d \<and> d \<noteq> DNull"
proof -
  let ?a = "agent_mapping Wless ''a'' [] ''wss://h'' True None []"
  have "distinct (map fst ?a)" by (simp add: agent_mapping_def Wless_def Vless_def)
  from agent_parse [OF this refl, of "\<lambda>b. []" no_floats] obtain p where "parseProxy (\<lambda>b. []) no_floats ?a = Ok p"
    by (simp add: has_prefix_def Wless_def Vless_def)
  from wless_config_complete [OF this, of "''remote''"] show ?thesis
    by (simp add: agent_mapping_def wless_keys_def)
qed


theorem decode_no_panic_witness:
  "\<not> is_panic_err (fst (decode_top (parse_options no_floats) [(''name'', DNull), (''mux'', DBool True)] wlessOption (zero_fields wlessOption)))"
  by (rule decode_no_panic) (simp_all add: wlessOption_def option_field_def)

end
