(* ===== verification/Certs.thy ===== *)
theory Certs
  imports Http ObfsFacts
begin

text \<open>
  Which certificates a TLS connection accepts: pinning by fingerprint and the configuration of a client
  (\<open>transport/common/ca/finger.go\<close>, \<open>config.go\<close>, \<open>keypair.go\<close>, \<open>StreamTLSConn\<close> in \<open>transport/anytls/client.go\<close>), and the verification that
  \<open>transport/wss/tls.go\<close> puts in the place of the one of crypto/tls. SHA-256 and what \<open>crypto/x509\<close> does are the arguments of
  \<open>x509_ops\<close>; a pool of certificates is the list of those added to it.
\<close>

section \<open>Certificates\<close>

record 'c verify_options =
  vo_roots :: "'c list option"
  vo_intermediates :: "'c list"
  vo_time :: "int option"

text \<open>\<open>ParseCertificate\<close>, \<open>Raw\<close>, \<open>Verify\<close> (its error), \<open>sha256.Sum256\<close> and \<open>tls.X509KeyPair\<close>.\<close>

record 'c x509_ops =
  xo_parse :: "bytes \<Rightarrow> 'c res"
  xo_raw :: "'c \<Rightarrow> bytes"
  xo_verify :: "'c verify_options \<Rightarrow> 'c \<Rightarrow> gerr option"
  xo_sha256 :: "bytes \<Rightarrow> bytes"
  xo_keyPair :: "string \<Rightarrow> string \<Rightarrow> bytes res"

text \<open>\<open>hex.DecodeString\<close> and \<open>EncodeToString\<close>.\<close>

fun hex_decode :: "string \<Rightarrow> bytes res" where
  "hex_decode (c # d # s) =
     (case (hex_val c, hex_val d) of
        (Some a, Some b) \<Rightarrow> rbind (hex_decode s) (\<lambda>bs. Ok (word_of_nat (a * 16 + b) # bs))
      | _ \<Rightarrow> Err (Msg ''encoding/hex: invalid byte''))"
| "hex_decode [c] = Err (Msg (if hex_val c = None then ''encoding/hex: invalid byte'' else ''encoding/hex: odd length hex string''))"
| "hex_decode [] = Ok []"

definition hex_encode :: "bytes \<Rightarrow> string" where
  "hex_encode bs = concat (map (\<lambda>b. [hex_char (drop_bit 4 b), hex_char (b AND 15)]) bs)"

section \<open>Pinning\<close>

definition browser_fingerprints :: "string list" where
  "browser_fingerprints = [''chrome'', ''firefox'', ''safari'', ''ios'', ''android'', ''edge'', ''360'', ''qq'', ''random'', ''randomized'']"

text \<open>\<open>NewFingerprintVerifier\<close>: the bytes that the function it returns compares with, and this function.\<close>

definition newFingerprintVerifier :: "(string \<Rightarrow> string) \<Rightarrow> string \<Rightarrow> bytes res" where
  "newFingerprintVerifier utrim fingerprint =
     (if fingerprint \<in> set browser_fingerprints then Err (Msg ''use client-fingerprint'')
      else case hex_decode (trim_space utrim (filter (\<lambda>c. c \<noteq> CHR '':'') fingerprint)) of
        Inl e \<Rightarrow> Err (Msg ''fingerprint string decode error'')
      | Inr fp \<Rightarrow> if length fp \<noteq> 32 then Err (Msg ''fingerprint string length error,need sha256 fingerprint'') else Ok fp)"

fun parse_all :: "'c x509_ops \<Rightarrow> bytes list \<Rightarrow> 'c list res" where
  "parse_all X [] = Ok []"
| "parse_all X (r # rs) = rbind (xo_parse X r) (\<lambda>c. rbind (parse_all X rs) (\<lambda>cs. Ok (c # cs)))"

definition errNotMatch :: gerr where
  "errNotMatch = Msg ''certificate fingerprints do not match''"

definition verify_under :: "'c x509_ops \<Rightarrow> int option \<Rightarrow> bytes list \<Rightarrow> gerr option" where
  "verify_under X now raws =
     (case parse_all X raws of
        Inl e \<Rightarrow> Some e
      | Inr certs \<Rightarrow> xo_verify X \<lparr>vo_roots = Some [last certs], vo_intermediates = tl certs, vo_time = now\<rparr> (hd certs))"

fun pin_loop :: "'c x509_ops \<Rightarrow> int option \<Rightarrow> bytes \<Rightarrow> bytes list \<Rightarrow> bytes list \<Rightarrow> gerr option" where
  "pin_loop X now fp before [] = Some errNotMatch"
| "pin_loop X now fp before (raw # raws) =
     (if fp = xo_sha256 X raw then (if before \<noteq> [] then verify_under X now (before @ [raw]) else None)
      else pin_loop X now fp (before @ [raw]) raws)"

definition verify_pinned :: "'c x509_ops \<Rightarrow> int option \<Rightarrow> bytes \<Rightarrow> bytes list \<Rightarrow> gerr option" where
  "verify_pinned X now fp raws = pin_loop X now fp [] raws"

definition calculateFingerprint :: "'c x509_ops \<Rightarrow> bytes \<Rightarrow> string" where
  "calculateFingerprint X der = hex_encode (xo_sha256 X der)"

section \<open>The configuration of a client\<close>

text \<open>\<open>initializeCertPool\<close>, \<open>GetCertPool\<close> with the pool that was made before, and \<open>zeroTrustCertPool\<close>; \<open>None\<close> is the pool of the system.\<close>

definition initializeCertPool :: "bool \<Rightarrow> bool \<Rightarrow> 'c list res \<Rightarrow> 'c list \<Rightarrow> 'c list" where
  "initializeCertPool disableSystem disableEmbed system embedded =
     (if disableSystem then [] else case system of Inl e \<Rightarrow> [] | Inr p \<Rightarrow> p) @ (if disableEmbed then [] else embedded)"

definition getCertPool :: "bool \<Rightarrow> bool \<Rightarrow> 'c list res \<Rightarrow> 'c list \<Rightarrow> 'c list option \<Rightarrow> 'c list \<times> 'c list option" where
  "getCertPool disableSystem disableEmbed system embedded st =
     (case st of Some p \<Rightarrow> (p, st) | None \<Rightarrow> let p = initializeCertPool disableSystem disableEmbed system embedded in (p, Some p))"

definition zeroTrustCertPool :: "'c list \<Rightarrow> 'c list option" where
  "zeroTrustCertPool embedded = (if embedded \<noteq> [] then Some embedded else None)"

record 'c tls_config =
  tc_serverName :: string
  tc_insecureSkipVerify :: bool
  tc_rootCAs :: "'c list option"
  tc_verify :: "(bytes list \<Rightarrow> gerr option) option"
  tc_certificate :: "bytes option"

record ca_option =
  ca_fingerprint :: string
  ca_zeroTrust :: bool
  ca_certificate :: string
  ca_privateKey :: string

text \<open>\<open>NewRandomTLSKeyPair\<close>; the key generators, \<open>CreateCertificate\<close> with the serial number, the times and the key of the template,
  \<open>MarshalPKCS8PrivateKey\<close> and \<open>pem.EncodeToMemory\<close> are the library. Times are in nanoseconds.\<close>

record 'k keygen_ops =
  kg_rsa2048 :: "'k res"
  kg_p256 :: "'k res"
  kg_p384 :: "'k res"
  kg_ed25519 :: "'k res"
  kg_create :: "int \<Rightarrow> int \<Rightarrow> int \<Rightarrow> 'k \<Rightarrow> bytes res"
  kg_pkcs8 :: "'k \<Rightarrow> bytes res"
  kg_pem :: "string \<Rightarrow> bytes \<Rightarrow> string"

definition keyPair_generate :: "'k keygen_ops \<Rightarrow> string \<Rightarrow> 'k res" where
  "keyPair_generate G kind =
     (if kind = ''rsa'' then kg_rsa2048 G else if kind = ''p256'' then kg_p256 G else if kind = ''p384'' then kg_p384 G
      else if kind = ''ed25519'' then kg_ed25519 G else kg_rsa2048 G)"

definition year :: int where "year = 3600 * 10 ^ 9 * 24 * 365"

definition newRandomTLSKeyPair :: "'c x509_ops \<Rightarrow> 'k keygen_ops \<Rightarrow> int \<Rightarrow> string \<Rightarrow> (string \<times> string \<times> string) res" where
  "newRandomTLSKeyPair X G now kind =
     rbind (keyPair_generate G kind) (\<lambda>key.
     rbind (kg_create G 1 (now - year) (now + year) key) (\<lambda>certDER.
     rbind (kg_pkcs8 G key) (\<lambda>privBytes.
     Ok (kg_pem G ''CERTIFICATE'' certDER, kg_pem G ''PRIVATE KEY'' privBytes, calculateFingerprint X certDER))))"

definition loadTLSKeyPair :: "'c x509_ops \<Rightarrow> 'k keygen_ops \<Rightarrow> int \<Rightarrow> string \<Rightarrow> string \<Rightarrow> bytes res" where
  "loadTLSKeyPair X G now certificate privateKey =
     (if certificate = [] \<and> privateKey = [] then rbind (newRandomTLSKeyPair X G now ''rsa'') (\<lambda>(c, k, f). xo_keyPair X c k)
      else xo_keyPair X certificate privateKey)"

definition getTLSConfig ::
  "'c x509_ops \<Rightarrow> (string \<Rightarrow> string) \<Rightarrow> int \<Rightarrow> 'c list \<Rightarrow> 'c list \<Rightarrow> 'k keygen_ops \<Rightarrow> ca_option \<Rightarrow> 'c tls_config \<Rightarrow> 'c tls_config res" where
  "getTLSConfig X utrim now pool embedded G opt cfg =
     (let cfg = cfg\<lparr>tc_rootCAs := (if ca_zeroTrust opt then zeroTrustCertPool embedded else Some pool)\<rparr> in
      rbind (if ca_fingerprint opt \<noteq> [] then
               rbind (newFingerprintVerifier utrim (ca_fingerprint opt)) (\<lambda>fp.
                 Ok (cfg\<lparr>tc_verify := Some (verify_pinned X (Some now) fp), tc_insecureSkipVerify := True\<rparr>))
             else Ok cfg) (\<lambda>cfg.
      if ca_certificate opt \<noteq> [] \<or> ca_privateKey opt \<noteq> [] then
        rbind (loadTLSKeyPair X G now (ca_certificate opt) (ca_privateKey opt)) (\<lambda>cert. Ok (cfg\<lparr>tc_certificate := Some cert\<rparr>))
      else Ok cfg))"

text \<open>The configuration that \<open>StreamTLSConn\<close> dials with.\<close>

definition streamTLS_config ::
  "'c x509_ops \<Rightarrow> (string \<Rightarrow> string) \<Rightarrow> int \<Rightarrow> 'c list \<Rightarrow> 'c list \<Rightarrow> 'k keygen_ops \<Rightarrow> string \<Rightarrow> bool \<Rightarrow> ca_option \<Rightarrow> 'c tls_config res" where
  "streamTLS_config X utrim now pool embedded G host skipVerify opt =
     getTLSConfig X utrim now pool embedded G (opt\<lparr>ca_zeroTrust := False\<rparr>)
       \<lparr>tc_serverName = host, tc_insecureSkipVerify = skipVerify, tc_rootCAs = None, tc_verify = None, tc_certificate = None\<rparr>"

text \<open>What crypto/tls accepts: \<open>chain_ok\<close> is its own verification against the roots and the name, then \<open>VerifyPeerCertificate\<close>.\<close>

definition tls_accepts :: "('c list option \<Rightarrow> string \<Rightarrow> bytes list \<Rightarrow> bool) \<Rightarrow> 'c tls_config \<Rightarrow> bytes list \<Rightarrow> bool" where
  "tls_accepts chain_ok cfg raws \<longleftrightarrow>
     raws \<noteq> [] \<and> (tc_insecureSkipVerify cfg \<or> chain_ok (tc_rootCAs cfg) (tc_serverName cfg) raws)
     \<and> (case tc_verify cfg of None \<Rightarrow> True | Some f \<Rightarrow> f raws = None)"

section \<open>The verification of the WebSocket transport\<close>

fun peer_loop :: "'c x509_ops \<Rightarrow> int \<Rightarrow> bytes list \<Rightarrow> gerr option \<Rightarrow> bytes list \<Rightarrow> gerr option" where
  "peer_loop X now fps preErr [] = preErr"
| "peer_loop X now fps preErr (raw # raws) =
     (case xo_parse X raw of
        Inl e \<Rightarrow> peer_loop X now fps preErr raws
      | Inr cert \<Rightarrow>
          (case xo_verify X \<lparr>vo_roots = None, vo_intermediates = [], vo_time = Some now\<rparr> cert of
             None \<Rightarrow> None
           | Some e \<Rightarrow> if xo_sha256 X (xo_raw X cert) \<in> set fps then None else peer_loop X now fps (Some e) raws))"

definition verifyPeerCertificateAndFingerprints :: "'c x509_ops \<Rightarrow> int \<Rightarrow> bytes list \<Rightarrow> bool \<Rightarrow> bytes list \<Rightarrow> gerr option" where
  "verifyPeerCertificateAndFingerprints X now fps insecureSkipVerify raws =
     (if insecureSkipVerify then None else peer_loop X now fps None raws)"

definition getGlobalFingerprintTLCConfig :: "'c x509_ops \<Rightarrow> int \<Rightarrow> bytes list \<Rightarrow> 'c tls_config option \<Rightarrow> 'c tls_config" where
  "getGlobalFingerprintTLCConfig X now fps cfg =
     (case cfg of
        None \<Rightarrow> \<lparr>tc_serverName = [], tc_insecureSkipVerify = True, tc_rootCAs = None,
                 tc_verify = Some (verifyPeerCertificateAndFingerprints X now fps False), tc_certificate = None\<rparr>
      | Some c \<Rightarrow> c\<lparr>tc_verify := Some (verifyPeerCertificateAndFingerprints X now fps (tc_insecureSkipVerify c)),
                    tc_insecureSkipVerify := True\<rparr>)"

section \<open>Fingerprints\<close>

lemma hex_roundtrip: "hex_decode (hex_encode bs) = Ok bs"
proof (induction bs)
  case (Cons b bs)
  have "unat b < 256" using unsigned_less [of b, where ?'a = nat] by simp
  then have h: "hex_val (hex_char (drop_bit 4 b)) = Some (unat b div 16)" "hex_val (hex_char (b AND 15)) = Some (unat b mod 16)"
    by (simp_all add: hex_val_char hex_halves)
  have "(word_of_nat (unat b div 16 * 16 + unat b mod 16) :: byte) = b" by (simp only: div_mult_mod_eq) simp
  then show ?case using Cons h by (simp add: hex_encode_def del: of_nat_add of_nat_mult)
qed (simp add: hex_encode_def)

text \<open>The characters of a fingerprint are hexadecimal digits, so \<open>TrimSpace\<close> and the removal of the colons leave it alone.\<close>

lemma hex_encode_chars: "c \<in> set (hex_encode bs) \<Longrightarrow> hex_val c \<noteq> None"
proof -
  assume "c \<in> set (hex_encode bs)"
  then obtain b where "c = hex_char (drop_bit 4 b) \<or> c = hex_char (b AND 15)" by (auto simp: hex_encode_def)
  moreover have "unat b < 256" using unsigned_less [of b, where ?'a = nat] by simp
  ultimately show ?thesis by (auto simp: hex_val_char hex_halves)
qed

lemma hex_val_ascii: "hex_val c \<noteq> None \<Longrightarrow> \<not> is_space c \<and> c \<noteq> CHR '':'' \<and> (of_char c :: nat) < 128"
  by (auto simp: hex_val_def is_space_def Let_def split: if_splits)

lemma trim_space_plain: "(\<And>c. c \<in> set s \<Longrightarrow> \<not> is_space c \<and> (of_char c :: nat) < 128) \<Longrightarrow> trim_space utrim s = s"
proof -
  assume p: "\<And>c. c \<in> set s \<Longrightarrow> \<not> is_space c \<and> (of_char c :: nat) < 128"
  have d: "dropWhile is_space s = s" "dropWhile is_space (rev s) = rev s"
    using p by (cases s, simp, simp) (cases "rev s", simp, use p in \<open>metis dropWhile.simps(2) list.set_intros(1) set_rev\<close>)
  show ?thesis
  proof (cases "s = []")
    case False
    then have "(of_char (hd s) :: nat) < 128" "(of_char (last s) :: nat) < 128" using p by simp_all
    then show ?thesis by (simp add: trim_space_def d Let_def)
  qed (simp add: trim_space_def Let_def)
qed

lemma length_hex_encode: "length (hex_encode bs) = 2 * length bs"
  by (induction bs) (simp_all add: hex_encode_def)

lemma fingerprint_read:
  assumes "length (xo_sha256 X der) = 32"
  shows "newFingerprintVerifier utrim (calculateFingerprint X der) = Ok (xo_sha256 X der)"
proof -
  let ?s = "hex_encode (xo_sha256 X der)"
  have c: "\<not> is_space c \<and> c \<noteq> CHR '':'' \<and> (of_char c :: nat) < 128" if "c \<in> set ?s" for c
    using hex_val_ascii [OF hex_encode_chars [OF that]] .
  then have f: "filter (\<lambda>c. c \<noteq> CHR '':'') ?s = ?s" by (simp add: filter_id_conv)
  have t: "trim_space utrim ?s = ?s" using c by (intro trim_space_plain) blast
  have "length ?s = 64" using assms by (simp add: length_hex_encode)
  then have "?s \<notin> set browser_fingerprints" by (auto simp: browser_fingerprints_def)
  then show ?thesis using assms f t by (simp add: newFingerprintVerifier_def calculateFingerprint_def hex_roundtrip)
qed

text \<open>The fingerprint that \<open>CalculateFingerprint\<close> prints for a certificate is one that \<open>NewFingerprintVerifier\<close> takes, and it accepts
  this certificate as the leaf of any chain, at any time.\<close>

theorem fingerprint_roundtrip:
  assumes "length (xo_sha256 X der) = 32"
  shows "\<exists>fp. newFingerprintVerifier utrim (calculateFingerprint X der) = Ok fp \<and> verify_pinned X now fp (der # raws) = None"
  using fingerprint_read [OF assms] by (simp add: verify_pinned_def)

lemma random_pair_pinned:
  assumes "newRandomTLSKeyPair X G now kind = Ok (c, k, f)" "\<And>b. length (xo_sha256 X b) = 32"
  shows "\<exists>der fp. c = kg_pem G ''CERTIFICATE'' der \<and> newFingerprintVerifier utrim f = Ok fp \<and> verify_pinned X t fp [der] = None"
  using assms(1) fingerprint_read [OF assms(2), of utrim]
  by (auto simp: newRandomTLSKeyPair_def verify_pinned_def rbind_Ok_iff split: sum.splits)

text \<open>A toy instance of the library: the certificate of bytes is the bytes, its hash its first 32 bytes, and it verifies under a root
  that it begins with.\<close>

definition sample_x509 :: "bytes x509_ops" where
  "sample_x509 = \<lparr>xo_parse = Ok, xo_raw = (\<lambda>c. c),
     xo_verify = (\<lambda>o1 c. if (case vo_roots o1 of None \<Rightarrow> hd c = 1 | Some rs \<Rightarrow> \<exists>r \<in> set rs. hd r = hd c) then None else Some (Msg ''unknown authority'')),
     xo_sha256 = (\<lambda>b. take 32 (b @ replicate 32 0)), xo_keyPair = (\<lambda>c k. Ok [])\<rparr>"

theorem fingerprint_roundtrip_witness:
  "\<exists>fp. newFingerprintVerifier id (calculateFingerprint sample_x509 [7, 8]) = Ok fp \<and> verify_pinned sample_x509 None fp [[7, 8], [9]] = None"
  by (rule fingerprint_roundtrip) (simp add: sample_x509_def)

section \<open>What is accepted\<close>

lemma pin_loop_sound:
  "pin_loop X now fp before raws = None \<Longrightarrow>
     \<exists>i < length raws. xo_sha256 X (raws ! i) = fp \<and> (\<forall>j < i. xo_sha256 X (raws ! j) \<noteq> fp)
       \<and> (before @ take i raws \<noteq> [] \<longrightarrow> verify_under X now (before @ take (Suc i) raws) = None)"
proof (induction raws arbitrary: before)
  case (Cons raw raws)
  show ?case
  proof (cases "fp = xo_sha256 X raw")
    case True
    then show ?thesis using Cons.prems by (intro exI [of _ 0]) (auto split: if_splits)
  next
    case False
    then have "pin_loop X now fp (before @ [raw]) raws = None" using Cons.prems by simp
    from Cons.IH [OF this] obtain i where "i < length raws" "xo_sha256 X (raws ! i) = fp" "\<forall>j < i. xo_sha256 X (raws ! j) \<noteq> fp"
      "verify_under X now ((before @ [raw]) @ take (Suc i) raws) = None" by auto
    then show ?thesis using False by (intro exI [of _ "Suc i"]) (auto simp: less_Suc_eq_0_disj nth_Cons')
  qed
qed simp

lemma getTLSConfig_pinned:
  assumes "getTLSConfig X utrim now pool embedded G opt cfg0 = Ok cfg" "ca_fingerprint opt \<noteq> []"
  shows "\<exists>fp. newFingerprintVerifier utrim (ca_fingerprint opt) = Ok fp \<and> length fp = 32 \<and> tc_verify cfg = Some (verify_pinned X (Some now) fp)"
  using assms by (auto simp: getTLSConfig_def Let_def rbind_Ok_iff newFingerprintVerifier_def split: if_splits sum.splits)

text \<open>C30: With a fingerprint in the configuration, a handshake with an anytls server is only accepted when one of the certificates of the
  server has this SHA-256 hash, and unless this is the leaf, the leaf verifies at the time of the handshake under this one certificate
  as the root, through those before it. Neither the pool of roots nor the name has a say.\<close>

theorem fingerprint_pins:
  assumes "streamTLS_config X utrim now pool embedded G host skipVerify opt = Ok cfg" "ca_fingerprint opt \<noteq> []"
    "tls_accepts chain_ok cfg raws"
  shows "\<exists>fp i. newFingerprintVerifier utrim (ca_fingerprint opt) = Ok fp \<and> length fp = 32 \<and> i < length raws \<and> xo_sha256 X (raws ! i) = fp
    \<and> (0 < i \<longrightarrow> (\<exists>certs. parse_all X (take (Suc i) raws) = Ok certs
          \<and> xo_verify X \<lparr>vo_roots = Some [last certs], vo_intermediates = tl certs, vo_time = Some now\<rparr> (hd certs) = None))"
proof -
  obtain fp where fp: "newFingerprintVerifier utrim (ca_fingerprint opt) = Ok fp" "length fp = 32" "tc_verify cfg = Some (verify_pinned X (Some now) fp)"
    using getTLSConfig_pinned [OF assms(1) [unfolded streamTLS_config_def]] assms(2) by auto
  then have "pin_loop X (Some now) fp [] raws = None" using assms(3) by (simp add: tls_accepts_def verify_pinned_def)
  from pin_loop_sound [OF this] obtain i where i: "i < length raws" "xo_sha256 X (raws ! i) = fp"
    "take i raws \<noteq> [] \<longrightarrow> verify_under X (Some now) (take (Suc i) raws) = None" by auto
  have "\<exists>certs. parse_all X (take (Suc i) raws) = Ok certs
      \<and> xo_verify X \<lparr>vo_roots = Some [last certs], vo_intermediates = tl certs, vo_time = Some now\<rparr> (hd certs) = None" if "0 < i"
    using i(1,3) that by (auto simp: verify_under_def split: sum.splits)
  then show ?thesis using fp(1,2) i(1,2) by blast
qed

theorem fingerprint_pins_witness:
  "\<exists>i < 2. xo_sha256 sample_x509 ([[7, 8], [7, 9]] ! i) = xo_sha256 sample_x509 [7, 9]"
proof -
  define G :: "nat keygen_ops" where
    "G = \<lparr>kg_rsa2048 = Ok 0, kg_p256 = Ok 1, kg_p384 = Ok 2, kg_ed25519 = Ok 3, kg_create = (\<lambda>_ _ _ _. Ok []), kg_pkcs8 = (\<lambda>_. Ok []),
      kg_pem = (\<lambda>t b. t @ b2s b)\<rparr>"
  let ?o = "\<lparr>ca_fingerprint = calculateFingerprint sample_x509 [7, 9], ca_zeroTrust = False, ca_certificate = [], ca_privateKey = []\<rparr>"
  have len: "length (xo_sha256 sample_x509 [7, 9]) = 32" by (simp add: sample_x509_def)
  note fp = fingerprint_read [OF len, of id]
  have ne: "ca_fingerprint ?o \<noteq> []" using len length_hex_encode [of "xo_sha256 sample_x509 [7, 9]"]
    by (auto simp: calculateFingerprint_def)
  obtain cfg where cfg: "streamTLS_config sample_x509 id 0 [] [] G ''h'' False ?o = Ok cfg"
      "tc_insecureSkipVerify cfg" "tc_verify cfg = Some (verify_pinned sample_x509 (Some 0) (xo_sha256 sample_x509 [7, 9]))"
    using ne fp by (simp add: streamTLS_config_def getTLSConfig_def)
  have "tls_accepts (\<lambda>r n c. False) cfg [[7, 8], [7, 9]]"
    using cfg(2,3) by (simp add: tls_accepts_def verify_pinned_def verify_under_def sample_x509_def)
  from fingerprint_pins [OF cfg(1) ne this] fp show ?thesis by (auto simp: numeral_2_eq_2)
qed

lemma peer_loop_iff:
  "peer_loop X now fps pre raws = None \<longleftrightarrow>
     (\<exists>raw \<in> set raws. \<exists>c. xo_parse X raw = Ok c \<and>
        (xo_verify X \<lparr>vo_roots = None, vo_intermediates = [], vo_time = Some now\<rparr> c = None \<or> xo_sha256 X (xo_raw X c) \<in> set fps))
     \<or> pre = None \<and> (\<forall>raw \<in> set raws. \<exists>e. xo_parse X raw = Err e)"
  by (induction raws arbitrary: pre) (auto split: sum.split option.split)

text \<open>The verification of the WebSocket transport looks at each certificate of the peer on its own: it accepts when any of them, the
  leaf or not, verifies under the roots of the system or has a listed fingerprint (or when none can be parsed), whatever the name
  and whatever crypto/tls would say. So a certificate of anyone, put behind the leaf of a forger, makes the forger accepted.\<close>

theorem wss_accepts_any_certificate:
  "tls_accepts chain_ok (getGlobalFingerprintTLCConfig X now fps None) raws \<longleftrightarrow>
     raws \<noteq> [] \<and>
     ((\<exists>raw \<in> set raws. \<exists>c. xo_parse X raw = Ok c \<and>
        (xo_verify X \<lparr>vo_roots = None, vo_intermediates = [], vo_time = Some now\<rparr> c = None \<or> xo_sha256 X (xo_raw X c) \<in> set fps))
      \<or> (\<forall>raw \<in> set raws. \<exists>e. xo_parse X raw = Err e))"
  by (auto simp: tls_accepts_def getGlobalFingerprintTLCConfig_def verifyPeerCertificateAndFingerprints_def peer_loop_iff)

theorem wss_accepts_any_certificate_witness:
  "tls_accepts (\<lambda>_ _ _. False) (getGlobalFingerprintTLCConfig sample_x509 5 [] None) [[7, 8], [1]]"
  unfolding wss_accepts_any_certificate by (simp add: sample_x509_def)

lemma wss_accepts_forged_leaf:
  assumes "xo_parse X public = Ok c" "xo_verify X \<lparr>vo_roots = None, vo_intermediates = [], vo_time = Some now\<rparr> c = None"
  shows "tls_accepts chain_ok (getGlobalFingerprintTLCConfig X now [] None) [forged, public]"
  using assms by (auto simp: tls_accepts_def getGlobalFingerprintTLCConfig_def verifyPeerCertificateAndFingerprints_def peer_loop_iff
      simp del: peer_loop.simps)

text \<open>Without a fingerprint the verification is that of crypto/tls with the shared pool, switched off by \<open>SkipCertVerify\<close> only.\<close>

lemma unpinned_config:
  assumes "streamTLS_config X utrim now pool embedded G host skipVerify opt = Ok cfg" "ca_fingerprint opt = []"
  shows "tc_insecureSkipVerify cfg = skipVerify \<and> tc_rootCAs cfg = Some pool \<and> tc_verify cfg = None \<and> tc_serverName cfg = host"
  using assms by (auto simp: streamTLS_config_def getTLSConfig_def Let_def rbind_Ok_iff split: if_splits)

end
