(* ===== verification/Intern.thy ===== *)
theory Intern
  imports Prelude
begin

text \<open>
  \<open>transport/common/netip/itern.go\<close>: the interning of zones. \<open>valMap\<close> holds the addresses of values as numbers, which the garbage
  collector does not see, and a finalizer takes a value out of the map when nothing else uses it. The collector is part of the
  model as far as the Go runtime documents it: a cycle has a start, at which it knows what is referenced, and an end; objects that
  are allocated in between count as referenced, but not the pointers that \<open>get\<close> makes of numbers. At the end an object that was not
  referenced is freed, unless it has a finalizer: then the finalizer is removed and queued to run with the object, which the queue
  keeps. An address that is free may be allocated again. \<open>mu\<close> makes \<open>get\<close> and \<open>finalize\<close> atomic.
\<close>

section \<open>Values, keys and the state\<close>

text \<open>A comparable value: a string or another one.\<close>

datatype 'o ival = IString string | IOther 'o

record 'o ivalue =
  iv_cmpVal :: "'o ival"
  iv_resurrected :: bool

record 'o ikey =
  ik_s :: string
  ik_cmpVal :: "'o ival option"
  ik_isString :: bool

fun keyFor :: "'o ival \<Rightarrow> 'o ikey" where
  "keyFor (IString s) = \<lparr>ik_s = s, ik_cmpVal = None, ik_isString = True\<rparr>"
| "keyFor (IOther x) = \<lparr>ik_s = [], ik_cmpVal = Some (IOther x), ik_isString = False\<rparr>"

definition key_Value :: "'o ikey \<Rightarrow> 'o ivalue" where
  "key_Value k = \<lparr>iv_cmpVal = (if ik_isString k then IString (ik_s k) else the (ik_cmpVal k)), iv_resurrected = False\<rparr>"

text \<open>\<open>in_held\<close> are the addresses that the rest of the program has pointers to, \<open>in_final\<close> those with a finalizer, \<open>in_queue\<close> those
  whose finalizer is to run, and \<open>in_marked\<close> what the collector takes to be referenced while a cycle runs.\<close>

record 'o interns =
  in_map :: "'o ikey \<Rightarrow> nat option"
  in_heap :: "nat \<Rightarrow> 'o ivalue option"
  in_held :: "nat set"
  in_final :: "nat set"
  in_queue :: "nat set"
  in_marked :: "nat set option"

definition no_interns :: "'o interns" where
  "no_interns = \<lparr>in_map = Map.empty, in_heap = Map.empty, in_held = {}, in_final = {}, in_queue = {}, in_marked = None\<rparr>"

section \<open>Operations\<close>

text \<open>\<open>get\<close>; \<open>a\<close> is the address of a new value. Reading through an address that is not allocated is \<open>None\<close>.\<close>

definition intern_get :: "'o ikey \<Rightarrow> nat \<Rightarrow> 'o interns \<Rightarrow> (nat \<times> 'o interns) option" where
  "intern_get k a s =
     (case in_map s k of
        Some x \<Rightarrow>
          (case in_heap s x of
             None \<Rightarrow> None
           | Some v \<Rightarrow> Some (x, s\<lparr>in_heap := (in_heap s)(x \<mapsto> v\<lparr>iv_resurrected := True\<rparr>), in_held := insert x (in_held s)\<rparr>))
      | None \<Rightarrow>
          Some (a, s\<lparr>in_map := (in_map s)(k \<mapsto> a), in_heap := (in_heap s)(a \<mapsto> key_Value k), in_held := insert a (in_held s),
            in_final := insert a (in_final s), in_marked := map_option (insert a) (in_marked s)\<rparr>))"

definition intern_Get :: "'o ival \<Rightarrow> nat \<Rightarrow> 'o interns \<Rightarrow> (nat \<times> 'o interns) option" where
  "intern_Get v = intern_get (keyFor v)"

definition getByString :: "string \<Rightarrow> nat \<Rightarrow> 'o interns \<Rightarrow> (nat \<times> 'o interns) option" where
  "getByString s = intern_get \<lparr>ik_s = s, ik_cmpVal = None, ik_isString = True\<rparr>"

definition finalize :: "nat \<Rightarrow> 'o interns \<Rightarrow> 'o interns option" where
  "finalize x s =
     (case in_heap s x of
        None \<Rightarrow> None
      | Some v \<Rightarrow>
          if iv_resurrected v then
            Some (s\<lparr>in_heap := (in_heap s)(x \<mapsto> v\<lparr>iv_resurrected := False\<rparr>), in_final := insert x (in_final s),
              in_queue := in_queue s - {x}\<rparr>)
          else Some (s\<lparr>in_map := (in_map s)(keyFor (iv_cmpVal v) := None), in_queue := in_queue s - {x}\<rparr>))"

definition drop_refs :: "nat \<Rightarrow> 'o interns \<Rightarrow> 'o interns" where
  "drop_refs x s = s\<lparr>in_held := in_held s - {x}\<rparr>"

definition gc_start :: "'o interns \<Rightarrow> 'o interns" where
  "gc_start s = s\<lparr>in_marked := Some (in_held s \<union> in_queue s)\<rparr>"

definition gc_end :: "nat set \<Rightarrow> 'o interns \<Rightarrow> 'o interns" where
  "gc_end W s =
     s\<lparr>in_heap := (\<lambda>x. if x \<in> W \<or> x \<in> in_final s then in_heap s x else None),
       in_final := in_final s \<inter> W, in_queue := in_queue s \<union> (in_final s - W), in_marked := None\<rparr>"

text \<open>What can happen next. A run of the program also copies pointers, which changes nothing here.\<close>

datatype 'o intern_ev = EGet "'o ival" nat | EDrop nat | EStart | EEnd | EFinalize nat

inductive istep :: "'o interns \<Rightarrow> 'o intern_ev \<Rightarrow> 'o interns \<Rightarrow> bool" where
  get: "in_heap s a = None \<Longrightarrow> intern_Get v a s = Some (x, t) \<Longrightarrow> istep s (EGet v x) t"
| drop: "istep s (EDrop x) (drop_refs x s)"
| start: "in_marked s = None \<Longrightarrow> istep s EStart (gc_start s)"
| finish: "in_marked s = Some W \<Longrightarrow> istep s EEnd (gc_end W s)"
| final: "x \<in> in_queue s \<Longrightarrow> finalize x s = Some t \<Longrightarrow> istep s (EFinalize x) t"

inductive_cases istepE: "istep s e t"

inductive irun :: "'o intern_ev list \<Rightarrow> 'o interns \<Rightarrow> bool" where
  irun_init: "irun [] no_interns"
| irun_step: "irun es s \<Longrightarrow> istep s e t \<Longrightarrow> irun (es @ [e]) t"

section \<open>The invariant\<close>

lemma key_of_value [simp]: "iv_cmpVal (key_Value (keyFor v)) = v"
  by (cases v) (simp_all add: key_Value_def)

lemma fresh_not_resurrected [simp]: "iv_resurrected (key_Value k) = False"
  by (simp add: key_Value_def)

lemma keyFor_inject [simp]: "keyFor v = keyFor w \<longleftrightarrow> v = w"
  by (cases v; cases w) auto

text \<open>A value is registered when the map leads to it.\<close>

definition registered :: "'o interns \<Rightarrow> nat \<Rightarrow> bool" where
  "registered s x \<longleftrightarrow> (\<exists>v. in_heap s x = Some v \<and> in_map s (keyFor (iv_cmpVal v)) = Some x)"

definition resurrected :: "'o interns \<Rightarrow> nat \<Rightarrow> bool" where
  "resurrected s x \<longleftrightarrow> (\<exists>v. in_heap s x = Some v \<and> iv_resurrected v)"

text \<open>A pointer that the collector does not know of is to a value that is marked as resurrected.\<close>

definition intern_inv :: "'o interns \<Rightarrow> bool" where
  "intern_inv s \<longleftrightarrow>
     (\<forall>k x. in_map s k = Some x \<longrightarrow> (\<exists>v. in_heap s x = Some v \<and> keyFor (iv_cmpVal v) = k) \<and> x \<in> in_final s \<union> in_queue s)
     \<and> (\<forall>x \<in> in_held s \<union> in_final s \<union> in_queue s. registered s x)
     \<and> in_final s \<inter> in_queue s = {}
     \<and> (\<forall>x \<in> in_held s \<inter> in_queue s. resurrected s x)
     \<and> (\<forall>W. in_marked s = Some W \<longrightarrow> in_queue s \<subseteq> W \<and> (\<forall>x \<in> in_held s - W. resurrected s x))"

lemma inv_no_interns: "intern_inv no_interns"
  by (simp add: intern_inv_def no_interns_def)

lemma inv_map: "intern_inv s \<Longrightarrow> in_map s k = Some x \<Longrightarrow> \<exists>v. in_heap s x = Some v \<and> keyFor (iv_cmpVal v) = k"
  by (simp add: intern_inv_def)

lemma inv_registered: "intern_inv s \<Longrightarrow> x \<in> in_held s \<union> in_final s \<union> in_queue s \<Longrightarrow> registered s x"
  by (simp add: intern_inv_def)

lemma inv_disjoint: "intern_inv s \<Longrightarrow> in_final s \<inter> in_queue s = {}"
  by (simp add: intern_inv_def)

lemma inv_held_queue: "intern_inv s \<Longrightarrow> x \<in> in_held s \<Longrightarrow> x \<in> in_queue s \<Longrightarrow> resurrected s x"
  by (simp add: intern_inv_def)

lemma registered_alive: "intern_inv s \<Longrightarrow> registered s x \<Longrightarrow> x \<in> in_final s \<union> in_queue s"
  unfolding intern_inv_def registered_def by blast

lemma inv_drop: "intern_inv s \<Longrightarrow> intern_inv (drop_refs x s)"
  by (auto simp: intern_inv_def drop_refs_def registered_def resurrected_def)

lemma inv_start: "intern_inv s \<Longrightarrow> intern_inv (gc_start s)"
  by (auto simp: intern_inv_def gc_start_def registered_def resurrected_def)

lemma inv_end:
  assumes "intern_inv s" "in_marked s = Some W"
  shows "intern_inv (gc_end W s)"
proof -
  have keep: "in_heap (gc_end W s) x = in_heap s x" if "x \<in> in_held s \<union> in_final s \<union> in_queue s" for x
  proof -
    have "x \<in> in_final s \<union> in_queue s" using registered_alive [OF assms(1) inv_registered [OF assms(1) that]] .
    then show ?thesis using assms by (auto simp: intern_inv_def gc_end_def)
  qed
  have reg: "registered (gc_end W s) x" if "x \<in> in_held s \<union> in_final s \<union> in_queue s" for x
    using inv_registered [OF assms(1) that] keep [OF that] by (simp add: registered_def) (simp add: gc_end_def)
  have res: "resurrected (gc_end W s) x = resurrected s x" if "x \<in> in_held s" for x
    using keep [of x] that by (simp add: resurrected_def)
  have q: "in_queue s \<subseteq> W" "\<forall>x \<in> in_held s - W. resurrected s x" using assms by (simp_all add: intern_inv_def)
  have fields: "in_held (gc_end W s) = in_held s" "in_final (gc_end W s) = in_final s \<inter> W" "in_map (gc_end W s) = in_map s"
    "in_queue (gc_end W s) = in_queue s \<union> (in_final s - W)" "in_marked (gc_end W s) = None" by (simp_all add: gc_end_def)
  show ?thesis unfolding intern_inv_def
  proof (intro conjI allI ballI impI)
    fix k x assume k: "in_map (gc_end W s) k = Some x"
    then have x: "x \<in> in_final s \<union> in_queue s" using assms(1) by (auto simp: intern_inv_def fields)
    show "\<exists>v. in_heap (gc_end W s) x = Some v \<and> keyFor (iv_cmpVal v) = k"
      using inv_map [OF assms(1)] k keep [of x] x by (auto simp: fields)
    show "x \<in> in_final (gc_end W s) \<union> in_queue (gc_end W s)" using x by (auto simp: fields)
  qed (use assms(1) reg res q in \<open>auto simp: fields intern_inv_def\<close>)
qed

lemma inv_get:
  assumes "intern_inv s" "in_heap s a = None" "intern_Get v a s = Some (x, t)"
  shows "intern_inv t \<and> x \<in> in_held t \<and> (\<exists>w. in_heap t x = Some w \<and> iv_cmpVal w = v)"
proof (cases "in_map s (keyFor v)")
  case None
  have t: "x = a" "t = s\<lparr>in_map := (in_map s)(keyFor v \<mapsto> a), in_heap := (in_heap s)(a \<mapsto> key_Value (keyFor v)), in_held := insert a (in_held s),
      in_final := insert a (in_final s), in_marked := map_option (insert a) (in_marked s)\<rparr>"
    using assms(3) None by (auto simp: intern_Get_def intern_get_def)
  have a: "a \<notin> in_held s \<union> in_final s \<union> in_queue s" "\<And>k. in_map s k \<noteq> Some a"
    using inv_registered [OF assms(1), of a] inv_map [OF assms(1), of _ a] assms(2) by (auto simp: registered_def)
  have other: "registered t y" if reg: "registered s y" for y
  proof -
    obtain w where w: "in_heap s y = Some w" "in_map s (keyFor (iv_cmpVal w)) = Some y" using reg by (auto simp: registered_def)
    then have "y \<noteq> a" "iv_cmpVal w \<noteq> v" using assms(2) None by auto
    then show ?thesis using w by (simp add: t registered_def)
  qed
  have "intern_inv t" unfolding intern_inv_def
  proof (intro conjI allI ballI impI)
    fix k y assume "in_map t k = Some y"
    then show "\<exists>v. in_heap t y = Some v \<and> keyFor (iv_cmpVal v) = k" "y \<in> in_final t \<union> in_queue t"
      using assms(1,2) a by (auto simp: t intern_inv_def split: if_splits)
  next
    fix y assume y: "y \<in> in_held t \<union> in_final t \<union> in_queue t"
    show "registered t y"
    proof (cases "y = a")
      case True
      then show ?thesis by (simp add: t registered_def)
    next
      case False
      then show ?thesis using y by (intro other inv_registered [OF assms(1)]) (auto simp: t)
    qed
  next
    show "in_final t \<inter> in_queue t = {}" using assms(1) a by (auto simp: t intern_inv_def)
  next
    fix y assume "y \<in> in_held t \<inter> in_queue t"
    then show "resurrected t y" using assms(1) a by (auto simp: t intern_inv_def resurrected_def)
  next
    fix W assume "in_marked t = Some W"
    then obtain W0 where "in_marked s = Some W0" "W = insert a W0" by (auto simp: t)
    then show "in_queue t \<subseteq> W" using assms(1) by (auto simp: t intern_inv_def)
  next
    fix W y assume "in_marked t = Some W" "y \<in> in_held t - W"
    moreover from this obtain W0 where "in_marked s = Some W0" "W = insert a W0" by (auto simp: t)
    ultimately show "resurrected t y" using assms(1) by (auto simp: t intern_inv_def resurrected_def)
  qed
  then show ?thesis by (simp add: t)
next
  case (Some y)
  obtain w where w: "in_heap s y = Some w" "iv_cmpVal w = v" using inv_map [OF assms(1) Some] by auto
  have t: "x = y" "t = s\<lparr>in_heap := (in_heap s)(y \<mapsto> w\<lparr>iv_resurrected := True\<rparr>), in_held := insert y (in_held s)\<rparr>"
    using assms(3) Some w by (auto simp: intern_Get_def intern_get_def)
  have "registered t z \<longleftrightarrow> registered s z" for z using w by (auto simp: t registered_def)
  moreover have "resurrected t z \<longleftrightarrow> resurrected s z \<or> z = y" for z by (auto simp: t resurrected_def)
  moreover have "registered s y" using w Some by (simp add: registered_def)
  moreover have "keyFor (iv_cmpVal w) = k" if "in_map s k = Some y" for k using inv_map [OF assms(1) that] w by auto
  ultimately have "intern_inv t" using assms(1) w unfolding intern_inv_def by (auto simp: t)
  then show ?thesis using w by (simp add: t)
qed

text \<open>The finalizer: a value that was resurrected stays, with a new finalizer; another one is not held, so it can be forgotten.\<close>

lemma inv_finalize:
  assumes "intern_inv s" "x \<in> in_queue s" "finalize x s = Some t"
  shows "intern_inv t"
proof -
  obtain v where v: "in_heap s x = Some v" "in_map s (keyFor (iv_cmpVal v)) = Some x" "x \<notin> in_final s"
    using inv_registered [OF assms(1), of x] assms(2) inv_disjoint [OF assms(1)] by (auto simp: registered_def)
  have key: "in_map s k = Some x \<longleftrightarrow> k = keyFor (iv_cmpVal v)" for k using inv_map [OF assms(1), of k x] v by auto
  show ?thesis
  proof (cases "iv_resurrected v")
    case True
    then have t: "t = s\<lparr>in_heap := (in_heap s)(x \<mapsto> v\<lparr>iv_resurrected := False\<rparr>), in_final := insert x (in_final s), in_queue := in_queue s - {x}\<rparr>"
      using assms(3) v by (simp add: finalize_def)
    have "registered t z \<longleftrightarrow> registered s z" for z using v by (auto simp: t registered_def)
    moreover have "resurrected t z \<longleftrightarrow> resurrected s z \<and> z \<noteq> x" for z by (auto simp: t resurrected_def)
    ultimately show ?thesis using assms(1,2) v key unfolding intern_inv_def by (auto simp: t)
  next
    case False
    then have t: "t = s\<lparr>in_map := (in_map s)(keyFor (iv_cmpVal v) := None), in_queue := in_queue s - {x}\<rparr>"
      using assms(3) v by (simp add: finalize_def)
    have "x \<notin> in_held s" using inv_held_queue [OF assms(1) _ assms(2)] v(1) False by (auto simp: resurrected_def)
    moreover have "registered t z" if "z \<in> in_held s \<union> in_final s \<union> (in_queue s - {x})" for z
    proof -
      have reg: "registered s z" "z \<noteq> x" using that v(3) calculation by (auto intro: inv_registered [OF assms(1)])
      obtain w where w: "in_heap s z = Some w" "in_map s (keyFor (iv_cmpVal w)) = Some z" using reg by (auto simp: registered_def)
      then have "iv_cmpVal w \<noteq> iv_cmpVal v" using v reg by auto
      then show ?thesis using w by (simp add: t registered_def)
    qed
    moreover have "resurrected t z \<longleftrightarrow> resurrected s z" for z by (simp add: t resurrected_def)
    ultimately show ?thesis using assms(1,2) v key unfolding intern_inv_def by (auto simp: t)
  qed
qed

lemma inv_step: "istep s e t \<Longrightarrow> intern_inv s \<Longrightarrow> intern_inv t"
  by (erule istep.cases) (auto dest: inv_get intro: inv_drop inv_start inv_end inv_finalize)

lemma inv_run: "irun es s \<Longrightarrow> intern_inv s"
  by (induction rule: irun.induct) (auto intro: inv_no_interns inv_step)

section \<open>Interned pointers\<close>

lemma held_unique:
  assumes "intern_inv s" "x \<in> in_held s" "y \<in> in_held s"
  obtains v w where "in_heap s x = Some v" "in_heap s y = Some w" "iv_cmpVal v = iv_cmpVal w \<longleftrightarrow> x = y"
proof -
  have "registered s x" "registered s y" using inv_registered [OF assms(1)] assms(2,3) by auto
  then obtain v w where h: "in_heap s x = Some v" "in_map s (keyFor (iv_cmpVal v)) = Some x"
    "in_heap s y = Some w" "in_map s (keyFor (iv_cmpVal w)) = Some y" by (auto simp: registered_def)
  then have "iv_cmpVal v = iv_cmpVal w \<longleftrightarrow> x = y" by auto
  then show ?thesis using h that by blast
qed

lemma get_defined: "intern_inv s \<Longrightarrow> \<exists>x t. intern_Get v a s = Some (x, t)"
  using inv_map [of s "keyFor v"] by (auto simp: intern_Get_def intern_get_def split: option.split)

text \<open>C29: The pointers are as good as the values: whatever the program, the collector and the finalizers do, no pointer that the program
  holds is to freed memory, two of them are equal exactly when their values are, and \<open>Get\<close> never follows a number to freed memory
  and returns a pointer to its argument.\<close>

theorem intern_unique:
  assumes "irun es s"
  shows "(\<forall>x \<in> in_held s. \<forall>y \<in> in_held s. \<exists>v w. in_heap s x = Some v \<and> in_heap s y = Some w \<and> (iv_cmpVal v = iv_cmpVal w \<longleftrightarrow> x = y))
    \<and> (\<forall>v a. in_heap s a = None \<longrightarrow> (\<exists>x t w. intern_Get v a s = Some (x, t) \<and> in_heap t x = Some w \<and> iv_cmpVal w = v))"
proof (intro conjI ballI allI impI)
  fix x y assume "x \<in> in_held s" "y \<in> in_held s"
  from held_unique [OF inv_run [OF assms] this]
  show "\<exists>v w. in_heap s x = Some v \<and> in_heap s y = Some w \<and> (iv_cmpVal v = iv_cmpVal w \<longleftrightarrow> x = y)" by metis
next
  fix v a assume a: "in_heap s a = None"
  obtain x t where g: "intern_Get v a s = Some (x, t)" using get_defined [OF inv_run [OF assms]] by blast
  then show "\<exists>x t w. intern_Get v a s = Some (x, t) \<and> in_heap t x = Some w \<and> iv_cmpVal w = v"
    using inv_get [OF inv_run [OF assms] a g] by blast
qed

text \<open>A zone is interned, dropped, found unreferenced by the collector, and asked for again before its finalizer runs.\<close>

definition eth0 :: "nat ival" where "eth0 = IString ''eth0''"

lemma sample_interns:
  "\<exists>s :: nat interns. irun [EGet eth0 7, EDrop 7, EStart, EGet eth0 7, EEnd, EFinalize 7] s \<and> in_held s = {7}"
proof -
  define k where "k = keyFor eth0"
  define v where "v = key_Value k"
  have kv: "iv_cmpVal v = eth0" "iv_resurrected v = False" "v\<lparr>iv_resurrected := False\<rparr> = v"
    by (simp_all add: v_def k_def)
  define s1 :: "nat interns" where "s1 = \<lparr>in_map = [k \<mapsto> 7], in_heap = [7 \<mapsto> v], in_held = {7}, in_final = {7}, in_queue = {}, in_marked = None\<rparr>"
  define s2 where "s2 = s1\<lparr>in_held := {}\<rparr>"
  define s3 where "s3 = s2\<lparr>in_marked := Some {}\<rparr>"
  define s4 where "s4 = s3\<lparr>in_heap := [7 \<mapsto> v\<lparr>iv_resurrected := True\<rparr>], in_held := {7}\<rparr>"
  define s5 where "s5 = s4\<lparr>in_final := {}, in_queue := {7}, in_marked := None\<rparr>"
  define s6 where "s6 = s5\<lparr>in_heap := [7 \<mapsto> v\<lparr>iv_resurrected := False\<rparr>], in_final := {7}, in_queue := {}\<rparr>"
  have "istep no_interns (EGet eth0 7) s1"
    by (rule istep.get [where a = 7]) (simp_all add: no_interns_def intern_Get_def intern_get_def s1_def k_def [symmetric] v_def)
  moreover have "istep s1 (EDrop 7) s2"
    using istep.drop [of s1 7] by (simp add: drop_refs_def s2_def s1_def)
  moreover have "istep s2 EStart s3"
    using istep.start [of s2] by (simp add: gc_start_def s3_def s2_def s1_def)
  moreover have "istep s3 (EGet eth0 7) s4"
    by (rule istep.get [where a = 8]) (simp_all add: intern_Get_def intern_get_def s4_def s3_def s2_def s1_def k_def [symmetric])
  moreover have "gc_end {} s4 = s5"
    by (rule interns.equality) (auto simp: gc_end_def s5_def s4_def s3_def s2_def s1_def)
  then have "istep s4 EEnd s5"
    using istep.finish [of s4 "{}"] by (simp add: s4_def s3_def)
  moreover have "finalize 7 s5 = Some s6"
    using kv by (simp add: finalize_def s6_def s5_def s4_def s3_def s2_def s1_def)
  then have "istep s5 (EFinalize 7) s6" by (intro istep.final) (simp_all add: s5_def)
  moreover have "in_held s6 = {7}" by (simp add: s6_def s5_def s4_def)
  ultimately show ?thesis using irun_step [OF irun_step [OF irun_step [OF irun_step [OF irun_step [OF irun_step [OF irun_init]]]]]]
    by fastforce
qed

theorem intern_unique_witness:
  "\<exists>s. \<exists>v w. irun [EGet eth0 7, EDrop 7, EStart, EGet eth0 7, EEnd, EFinalize 7] s \<and> in_heap s 7 = Some v \<and> in_heap s 7 = Some w
    \<and> (iv_cmpVal v = iv_cmpVal w \<longleftrightarrow> (7 :: nat) = 7)"
proof -
  obtain s :: "nat interns" where s: "irun [EGet eth0 7, EDrop 7, EStart, EGet eth0 7, EEnd, EFinalize 7] s" "in_held s = {7}"
    using sample_interns by blast
  from intern_unique [OF s(1)] s show ?thesis by auto
qed

section \<open>Memory is given back\<close>

text \<open>A whole cycle of the collector, and the finalizer of \<open>x\<close> if it is queued.\<close>

definition cycle :: "nat \<Rightarrow> 'o interns \<Rightarrow> 'o interns" where
  "cycle x s =
     (let t = gc_end (in_held s \<union> in_queue s) (gc_start s) in
      if x \<in> in_queue t then (case finalize x t of None \<Rightarrow> t | Some u \<Rightarrow> u) else t)"

text \<open>When nobody holds a value or asks for it, three cycles of the collector with their finalizers are enough to free it, whatever its
  state.\<close>

lemma cycle_queued:
  assumes "intern_inv s" "x \<notin> in_held s" "x \<in> in_final s" "in_heap s x = Some v" "in_marked s = None"
  shows "if iv_resurrected v
    then x \<in> in_final (cycle x s) \<and> in_heap (cycle x s) x = Some (v\<lparr>iv_resurrected := False\<rparr>) \<and> x \<notin> in_queue (cycle x s) \<and> in_held (cycle x s) = in_held s
    else x \<notin> in_final (cycle x s) \<and> x \<notin> in_queue (cycle x s) \<and> in_map (cycle x s) (keyFor (iv_cmpVal v)) = None \<and> in_held (cycle x s) = in_held s"
  using assms inv_disjoint [OF assms(1)] by (auto simp: cycle_def Let_def gc_end_def gc_start_def finalize_def)

lemma cycle_gone:
  assumes "x \<notin> in_held s" "x \<notin> in_final s" "x \<notin> in_queue s"
  shows "in_heap (cycle x s) x = None \<and> x \<notin> in_held (cycle x s) \<and> x \<notin> in_final (cycle x s) \<and> x \<notin> in_queue (cycle x s)"
  using assms by (simp add: cycle_def Let_def gc_end_def gc_start_def)

lemma reclaimed:
  assumes "intern_inv s" "in_marked s = None" "x \<notin> in_held s" "x \<in> in_final s" "in_heap s x = Some v"
  shows "in_heap (cycle x (cycle x (cycle x s))) x = None"
proof (cases "iv_resurrected v")
  case False
  then have c: "x \<notin> in_held (cycle x s)" "x \<notin> in_final (cycle x s)" "x \<notin> in_queue (cycle x s)"
    using cycle_queued [OF assms(1,3,4,5,2)] assms(3) by simp_all
  show ?thesis using cycle_gone [OF c] cycle_gone [of x "cycle x (cycle x s)"] by simp
next
  case True
  let ?s = "cycle x s"
  have c: "x \<in> in_final ?s" "in_heap ?s x = Some (v\<lparr>iv_resurrected := False\<rparr>)" "x \<notin> in_queue ?s" "x \<notin> in_held ?s"
    using cycle_queued [OF assms(1,3,4,5,2)] assms(3) True by simp_all
  have "x \<notin> in_held (cycle x ?s) \<and> x \<notin> in_final (cycle x ?s) \<and> x \<notin> in_queue (cycle x ?s)"
    using c by (auto simp: cycle_def [of x ?s] Let_def gc_end_def gc_start_def finalize_def)
  then show ?thesis using cycle_gone [of x "cycle x ?s"] by simp
qed

theorem interned_reclaimed:
  assumes "irun es s" "in_marked s = None" "x \<notin> in_held s" "x \<in> in_final s" "in_heap s x = Some v"
  shows "in_heap (cycle x (cycle x (cycle x s))) x = None"
  by (rule reclaimed [OF inv_run [OF assms(1)] assms(2-5)])

lemma sample_dropped: "irun [EGet eth0 7, EDrop 7]
  \<lparr>in_map = [keyFor eth0 \<mapsto> 7], in_heap = [7 \<mapsto> key_Value (keyFor eth0)], in_held = {}, in_final = {7}, in_queue = {}, in_marked = None\<rparr>"
proof -
  let ?s = "\<lparr>in_map = [keyFor eth0 \<mapsto> 7], in_heap = [7 \<mapsto> key_Value (keyFor eth0)], in_held = {7}, in_final = {7}, in_queue = {}, in_marked = None\<rparr>"
  have "istep no_interns (EGet eth0 7) ?s"
    by (rule istep.get [where a = 7]) (simp_all add: no_interns_def intern_Get_def intern_get_def)
  from irun_step [OF irun_step [OF irun_init this] istep.drop [where x = 7]] show ?thesis by (simp add: drop_refs_def)
qed

theorem interned_reclaimed_witness:
  "\<exists>s :: nat interns. in_heap s 7 \<noteq> None \<and> in_heap (cycle 7 (cycle 7 (cycle 7 s))) 7 = None"
  by (rule exI, rule conjI [OF _ interned_reclaimed [OF sample_dropped]]) simp_all

end
