(* ===== verification/NetipCodec.thy ===== *)
theory NetipCodec
  imports NetipText NetipOrder
begin

text \<open>
  The rest of \<open>transport/common/netip\<close>: the text and binary encoders of addresses, address-port pairs and prefixes
  (\<open>AppendTo\<close>, \<open>MarshalText\<close>, \<open>UnmarshalText\<close>, \<open>MarshalBinary\<close>, \<open>UnmarshalBinary\<close>), their order, and the helpers of
  \<open>leaf_alt.go\<close>, \<open>cmp.go\<close> and \<open>itoa.go\<close>. What an encoder prints its decoder reads back, and the helpers agree with the
  definitions that the other theories use in their place.
\<close>

section \<open>Helpers\<close>

definition beUint64 :: "bytes \<Rightarrow> 64 word" where
  "beUint64 b = ucast (b ! 7) OR push_bit 8 (ucast (b ! 6)) OR push_bit 16 (ucast (b ! 5)) OR push_bit 24 (ucast (b ! 4))
     OR push_bit 32 (ucast (b ! 3)) OR push_bit 40 (ucast (b ! 2)) OR push_bit 48 (ucast (b ! 1)) OR push_bit 56 (ucast (b ! 0))"

definition bePutUint64 :: "bytes \<Rightarrow> 64 word \<Rightarrow> bytes" where
  "bePutUint64 b v = b[0 := ucast (drop_bit 56 v), 1 := ucast (drop_bit 48 v), 2 := ucast (drop_bit 40 v), 3 := ucast (drop_bit 32 v),
     4 := ucast (drop_bit 24 v), 5 := ucast (drop_bit 16 v), 6 := ucast (drop_bit 8 v), 7 := ucast v]"

definition bePutUint32 :: "bytes \<Rightarrow> 32 word \<Rightarrow> bytes" where
  "bePutUint32 b v = b[0 := ucast (drop_bit 24 v), 1 := ucast (drop_bit 16 v), 2 := ucast (drop_bit 8 v), 3 := ucast v]"

definition leUint16 :: "bytes \<Rightarrow> 16 word" where
  "leUint16 b = ucast (b ! 0) OR push_bit 8 (ucast (b ! 1))"

definition lePutUint16 :: "bytes \<Rightarrow> 16 word \<Rightarrow> bytes" where
  "lePutUint16 b v = b[0 := ucast v, 1 := ucast (drop_bit 8 v)]"

definition compareInt :: "int \<Rightarrow> int \<Rightarrow> int" where
  "compareInt x y = (if x < y then - 1 else if x > y then 1 else 0)"

definition compareUint16 :: "16 word \<Rightarrow> 16 word \<Rightarrow> int" where
  "compareUint16 x y = (if x < y then - 1 else if x > y then 1 else 0)"

text \<open>\<open>Uitoa\<close> fills its buffer of 20 bytes from the end; an index below 0 would be a panic.\<close>

fun uitoa_loop :: "nat \<Rightarrow> int \<Rightarrow> string \<Rightarrow> string res" where
  "uitoa_loop val i buf =
     (if i < 0 then Err (Panic ''index out of range'')
      else if 10 \<le> val then let q = val div 10 in uitoa_loop q (i - 1) (buf[nat i := char_of (48 + val - q * 10)])
      else Ok (drop (nat i) (buf[nat i := char_of (48 + val)])))"

declare uitoa_loop.simps [simp del]

definition uitoa :: "64 word \<Rightarrow> string res" where
  "uitoa val = (if val = 0 then Ok ''0'' else uitoa_loop (unat val) 19 (replicate 20 (char_of (0 :: nat))))"

text \<open>\<open>-val\<close> of the least integer is itself, and \<open>uint\<close> of it \<open>2 ^ 63\<close>.\<close>

definition netip_Itoa :: "64 word \<Rightarrow> string res" where
  "netip_Itoa val = (if val <s 0 then rbind (uitoa (- val)) (\<lambda>s. Ok (CHR ''-'' # s)) else uitoa val)"

section \<open>Addresses\<close>

definition iPv6LinkLocalAllNodes :: addr where
  "iPv6LinkLocalAllNodes = addrFrom16 ((replicate 16 0)[0 := 0xff, 1 := 2, 15 := 1])"

definition iPv6LinkLocalAllRouters :: addr where
  "iPv6LinkLocalAllRouters = addrFrom16 ((replicate 16 0)[0 := 0xff, 1 := 2, 15 := 2])"

definition iPv6Loopback :: addr where "iPv6Loopback = addrFrom16 ((replicate 16 0)[15 := 1])"
definition iPv6Unspecified :: addr where "iPv6Unspecified = Addr (U128 0 0) (Z6 [])"
definition iPv4Unspecified :: addr where "iPv4Unspecified = addrFrom4 [0, 0, 0, 0]"

definition addr_isZero :: "addr \<Rightarrow> bool" where
  "addr_isZero ip \<longleftrightarrow> afam ip = Z0"

definition addr_marshalText :: "addr \<Rightarrow> string" where
  "addr_marshalText ip = (case afam ip of Z0 \<Rightarrow> [] | Z4 \<Rightarrow> appendTo4 ip []
     | Z6 _ \<Rightarrow> if addr_is4In6 ip then appendTo4In6 ip [] else appendTo6 ip [])"

definition addr_unmarshalText :: "string \<Rightarrow> addr res" where
  "addr_unmarshalText text = (if length text = 0 then Ok zero_addr else parseAddr text)"

text \<open>\<open>marshalBinaryWithTrailingBytes\<close>, by the writes it makes into its buffer.\<close>

definition marshal_trailing :: "addr \<Rightarrow> nat \<Rightarrow> bytes" where
  "marshal_trailing ip n = (case afam ip of
       Z0 \<Rightarrow> replicate n 0
     | Z4 \<Rightarrow> bePutUint32 (replicate (4 + n) 0) (ucast (lo (abits ip)))
     | Z6 z \<Rightarrow>
         let b = replicate (16 + length z + n) 0;
             b = bePutUint64 (take 8 b) (hi (abits ip)) @ drop 8 b;
             b = take 8 b @ bePutUint64 (drop 8 b) (lo (abits ip))
         in take 16 b @ go_copy (drop 16 b) (s2b z))"

section \<open>Addresses and ports\<close>

definition addrPort_isValid :: "addrPort \<Rightarrow> bool" where
  "addrPort_isValid p \<longleftrightarrow> addr_isValid (ap_ip p)"

definition addrPort_compare :: "addrPort \<Rightarrow> addrPort \<Rightarrow> int" where
  "addrPort_compare p q = (let c = addr_compare (ap_ip p) (ap_ip q) in if c \<noteq> 0 then c else compareUint16 (ap_port p) (ap_port q))"

definition addrPort_appendTo :: "addrPort \<Rightarrow> string \<Rightarrow> string" where
  "addrPort_appendTo p b =
     (case afam (ap_ip p) of
        Z0 \<Rightarrow> b
      | Z4 \<Rightarrow> appendTo4 (ap_ip p) b @ '':'' @ itoa (unat (ap_port p))
      | Z6 _ \<Rightarrow> (if addr_is4In6 (ap_ip p) then appendTo4In6 (ap_ip p) (b @ ''['') else appendTo6 (ap_ip p) (b @ ''[''))
                @ '']'' @ '':'' @ itoa (unat (ap_port p)))"

definition addrPort_marshalText :: "addrPort \<Rightarrow> string" where
  "addrPort_marshalText p = addrPort_appendTo p []"

definition addrPort_unmarshalText :: "string \<Rightarrow> addrPort res" where
  "addrPort_unmarshalText text = (if length text = 0 then Ok (AddrPort zero_addr 0) else parseAddrPort text)"

definition mustParseAddrPort :: "string \<Rightarrow> addrPort res" where
  "mustParseAddrPort s = (case parseAddrPort s of Inl e \<Rightarrow> Err (Panic ''MustParseAddrPort'') | Inr p \<Rightarrow> Ok p)"

definition addrPort_marshalBinary :: "addrPort \<Rightarrow> bytes" where
  "addrPort_marshalBinary p =
     (let b = marshal_trailing (ap_ip p) 2; n = length b - 2 in take n b @ lePutUint16 (drop n b) (ap_port p))"

definition addrPort_unmarshalBinary :: "bytes \<Rightarrow> addrPort res" where
  "addrPort_unmarshalBinary b =
     (if length b < 2 then Err (Msg ''unexpected slice size'')
      else case addr_unmarshalBinary (take (length b - 2) b) of
        Inl e \<Rightarrow> Err e
      | Inr a \<Rightarrow> Ok (AddrPort a (leUint16 (drop (length b - 2) b))))"

section \<open>Prefixes\<close>

definition prefix_isZero :: "prefix \<Rightarrow> bool" where
  "prefix_isZero p \<longleftrightarrow> p = zero_prefix"

definition prefix_compare :: "prefix \<Rightarrow> prefix \<Rightarrow> int" where
  "prefix_compare p q =
     (let c = compareInt (int (addr_bitLen (pip p))) (int (addr_bitLen (pip q))) in
      if c \<noteq> 0 then c
      else let c = compareInt (prefix_bits p) (prefix_bits q) in
        if c \<noteq> 0 then c else addr_compare (pip p) (pip q))"

definition prefix_appendTo :: "prefix \<Rightarrow> string \<Rightarrow> string" where
  "prefix_appendTo p b =
     (if prefix_isZero p then b
      else if \<not> prefix_isValid p then b @ ''invalid Prefix''
      else let b = (if afam (pip p) = Z4 then appendTo4 (pip p) b
                    else if addr_is4In6 (pip p) then appendTo4 (addr_unmap (pip p)) (b @ ''::ffff:'') else appendTo6 (pip p) b)
        in appendDecimal (b @ ''/'') (word_of_int (prefix_bits p)))"

definition prefix_marshalText :: "prefix \<Rightarrow> string" where
  "prefix_marshalText p = prefix_appendTo p []"

definition prefix_unmarshalText :: "string \<Rightarrow> prefix res" where
  "prefix_unmarshalText text = (if length text = 0 then Ok zero_prefix else parsePrefix text)"

definition mustParsePrefix :: "string \<Rightarrow> prefix res" where
  "mustParsePrefix s = (case parsePrefix s of Inl e \<Rightarrow> Err (Panic ''MustParsePrefix'') | Inr p \<Rightarrow> Ok p)"

section \<open>The helpers agree with the library\<close>

lemma leUint16_put: "length b = 2 \<Longrightarrow> leUint16 (lePutUint16 b v) = v"
  by (rule bit_word_eqI) (auto simp: leUint16_def lePutUint16_def bit_simps)

lemma lePutUint16_eq: "length b = 2 \<Longrightarrow> lePutUint16 b v = put_le16 v"
  by (auto simp: lePutUint16_def put_le16_def put_be16_def length_Suc_conv numeral_2_eq_2)

lemma length_ge_4: "4 \<le> length b \<Longrightarrow> \<exists>w x y z r. b = w # x # y # z # r"
  by (auto simp: numeral_eq_Suc Suc_le_length_iff)

lemma length_ge_8: "8 \<le> length b \<Longrightarrow> \<exists>u0 u1 u2 u3 u4 u5 u6 u7 r. b = u0 # u1 # u2 # u3 # u4 # u5 # u6 # u7 # r"
  by (auto simp: numeral_eq_Suc Suc_le_length_iff)

lemma bePutUint32_eq: "4 \<le> length b \<Longrightarrow> bePutUint32 b v = put_be32 v @ drop 4 b"
  by (drule length_ge_4) (auto simp: bePutUint32_def put_be32_def)

lemma put_be64_bytes: "put_be64 v = [ucast (drop_bit 56 v), ucast (drop_bit 48 v), ucast (drop_bit 40 v), ucast (drop_bit 32 v),
     ucast (drop_bit 24 v), ucast (drop_bit 16 v), ucast (drop_bit 8 v), ucast v]"
  by (auto simp: put_be64_def put_be32_def intro!: bit_word_eqI) (auto simp: bit_simps)

lemma bePutUint64_eq: "8 \<le> length b \<Longrightarrow> bePutUint64 b v = put_be64 v @ drop 8 b"
  by (drule length_ge_8) (auto simp: bePutUint64_def put_be64_bytes)

lemma ucast_push: "n \<le> 24 \<Longrightarrow> (ucast (push_bit n (ucast a :: 32 word)) :: 64 word) = push_bit n (ucast a)" for a :: byte
  by (rule bit_word_eqI) (auto simp: bit_simps dest: bit_imp_le_length)

lemma beUint64_eq: "8 \<le> length b \<Longrightarrow> beUint64 b = get_be64 b"
proof (drule length_ge_8, elim exE)
  fix u0 u1 u2 u3 u4 u5 u6 u7 r assume b: "b = u0 # u1 # u2 # u3 # u4 # u5 # u6 # u7 # r"
  have u: "(ucast (ucast a :: 32 word) :: 64 word) = ucast a" for a :: byte
    using ucast_push [of 0 a] by simp
  show ?thesis unfolding b
    by (simp add: beUint64_def get_be64_def ucast_push unsigned_or_eq push_bit_or push_bit_push_bit u ac_simps del: push_bit_numeral)
qed

lemma digit_of: "(char_of (48 + v - v div 10 * 10) :: char) = digit_char (v mod 10)" for v :: nat
proof -
  have "48 + v - v div 10 * 10 = 48 + v mod 10" by presburger
  then show ?thesis by (simp add: digit_char_def)
qed

lemma uitoa_loop_itoa:
  "val < 10 ^ Suc n \<Longrightarrow> n < length buf \<Longrightarrow> uitoa_loop val (int n) buf = Ok (itoa val @ drop (Suc n) buf)"
proof (induction n arbitrary: val buf)
  case 0
  then have "val < 10" by simp
  then show ?case using 0 by (simp add: uitoa_loop.simps itoa.simps digit_char_def) (cases buf; simp)
next
  case (Suc n)
  have i: "int (Suc n) - 1 = int n" "nat (int (Suc n)) = Suc n" by simp_all
  show ?case
  proof (cases "10 \<le> val")
    case True
    have "val div 10 < 10 ^ Suc n" using Suc.prems(1) by (simp add: less_mult_imp_div_less)
    then have "uitoa_loop (val div 10) (int n) (buf[Suc n := digit_char (val mod 10)])
        = Ok (itoa (val div 10) @ drop (Suc n) (buf[Suc n := digit_char (val mod 10)]))"
      using Suc.IH Suc.prems(2) by simp
    moreover have "drop (Suc n) (buf[Suc n := c]) = c # drop (Suc (Suc n)) buf" for c
      using Suc.prems(2) by (simp add: drop_update_swap Cons_nth_drop_Suc [symmetric])
    ultimately show ?thesis using True
      by (subst uitoa_loop.simps) (simp add: Let_def digit_of itoa.simps [of val] i del: of_nat_Suc)
  next
    case False
    then show ?thesis using Suc.prems
      by (subst uitoa_loop.simps) (simp add: itoa.simps [of val] digit_char_def drop_update_swap Cons_nth_drop_Suc [symmetric] i del: of_nat_Suc)
  qed
qed

lemma uitoa_itoa: "uitoa val = Ok (itoa (unat val))"
proof -
  have "unat val < 2 ^ 64" using unsigned_less [of val, where ?'a = nat] by simp
  then have "unat val < 10 ^ Suc 19" by (rule less_le_trans) simp
  moreover have "char_of (48 :: nat) = CHR ''0''" by code_simp
  ultimately show ?thesis using uitoa_loop_itoa [of "unat val" 19 "replicate 20 (char_of (0 :: nat))"]
    by (cases "val = 0") (simp_all add: uitoa_def itoa.simps [of 0] digit_char_def)
qed

text \<open>The buffer of \<open>Uitoa\<close> is never left, and for every integer \<open>Itoa\<close> prints its decimal digits, with a sign for the negative
  ones; the least integer too, whose negation wraps to itself.\<close>

lemma sint_range_64: "- (2 ^ 63) \<le> sint val \<and> sint val < 2 ^ 63" for val :: "64 word"
  using sint_greater_eq [of val] sint_less [of val] by simp

lemma abs_of_neg: "sint val < 0 \<Longrightarrow> unat (- val) = nat (- sint val)" for val :: "64 word"
proof -
  assume n: "sint val < 0"
  have "- val = word_of_int (- sint val)" by simp
  then have "uint (- val) = take_bit 64 (- sint val)" by (simp only: uint_word_of_int_eq) simp
  also have "\<dots> = - sint val" using n sint_range_64 [of val] by (intro take_bit_int_eq_self) simp_all
  finally show ?thesis by (simp add: unat_eq_nat_uint)
qed

lemma abs_of_nonneg: "\<not> sint val < 0 \<Longrightarrow> unat val = nat (sint val)" for val :: "64 word"
proof -
  assume n: "\<not> sint val < 0"
  have "uint val = take_bit 64 (sint val)" using uint_sint [of val] by simp
  also have "\<dots> = sint val" using n sint_range_64 [of val] by (intro take_bit_int_eq_self) simp_all
  finally show ?thesis by (simp add: unat_eq_nat_uint)
qed

theorem itoa_prints_decimal:
  "netip_Itoa val = Ok (if sint val < 0 then CHR ''-'' # itoa (nat (- sint val)) else itoa (nat (sint val)))"
  by (simp add: netip_Itoa_def uitoa_itoa word_sless_alt abs_of_neg abs_of_nonneg)

section \<open>Appending\<close>

lemma appendTo4_append: "appendTo4 ip r = r @ appendTo4 ip []"
  by (simp add: appendTo4_def appendDecimal_itoa)

lemma appendTo4In6_append: "appendTo4In6 ip r = r @ appendTo4In6 ip []"
  by (simp add: appendTo4In6_def appendTo4_append [of "addr_unmap ip" "r @ _"] appendTo4_append [of "addr_unmap ip" "''::ffff:''"])

lemma to6_loop_unfold:
  "to6_loop ip zs ze i t =
     (if 8 \<le> i then t
      else if i = zs then (if 8 \<le> ze then t @ ''::'' else to6_loop ip zs ze (Suc (max i ze)) (t @ ''::'' @ hexs (addr_v6u16 ip ze)))
      else to6_loop ip zs ze (Suc i) (t @ (if 0 < i then '':'' else []) @ hexs (addr_v6u16 ip i)))"
  by (subst to6_loop.simps) (simp add: appendHex_append [of "_ @ _"] appendHex_append [of t])

lemma to6_loop_append: "to6_loop ip zs ze i (r @ s) = r @ to6_loop ip zs ze i s"
proof (induction "8 - i" arbitrary: i s rule: less_induct)
  case less
  have J: "to6_loop ip zs ze j (r @ t) = r @ to6_loop ip zs ze j t" if "i < j" "i < 8" for j t
    by (rule less.hyps) (use that in simp)
  show ?case
    by (subst (1 2) to6_loop_unfold) (simp add: J)
qed

lemma appendTo6_append: "appendTo6 ip r = r @ appendTo6 ip []"
  using to6_loop_append [of ip _ _ 0 r "[]"] by (simp add: appendTo6_def split: prod.split)

lemma addr_appendTo_string: "addr_isValid ip \<Longrightarrow> addr_appendTo ip b = b @ addr_string ip"
  using appendTo4_append [of ip b] appendTo4In6_append [of ip b] appendTo6_append [of ip b]
  by (auto simp: addr_appendTo_def addr_string_def addr_isValid_def split: zfield.split)

lemma addr_marshalText_string: "addr_isValid ip \<Longrightarrow> addr_marshalText ip = addr_string ip"
  by (auto simp: addr_marshalText_def addr_string_def addr_isValid_def split: zfield.split)

lemma addrPort_appendTo_string:
  "addr_isValid (ap_ip p) \<Longrightarrow> addrPort_appendTo p b = b @ addrPort_string p"
  "addr_isValid (ap_ip p) \<Longrightarrow> addrPort_string p =
     (if addr_is4 (ap_ip p) then addr_string (ap_ip p) else CHR ''['' # addr_string (ap_ip p) @ '']'') @ CHR '':'' # itoa (unat (ap_port p))"
  using appendTo4_append [of "ap_ip p" b] appendTo4In6_append [of "ap_ip p" "b @ ''[''"] appendTo6_append [of "ap_ip p" "b @ ''[''"]
    appendTo4In6_append [of "ap_ip p" "''[''"] appendTo6_append [of "ap_ip p" "''[''"]
  by (auto simp: addrPort_appendTo_def addrPort_string_def addr_string_def addr_isValid_def addr_is4_def split: zfield.split)

lemma prefix_bits_byte:
  assumes "prefix_ok p" shows "unat (word_of_int (prefix_bits p) :: byte) = nat (prefix_bits p)" "0 \<le> prefix_bits p"
proof -
  obtain n where n: "prefix_bits p = int n" "n \<le> addr_bitLen (pip p)" using prefix_ok_bits [OF assms] by metis
  moreover have "addr_bitLen (pip p) \<le> 128" by (cases "afam (pip p)") (simp_all add: addr_bitLen_def)
  ultimately show "unat (word_of_int (prefix_bits p) :: byte) = nat (prefix_bits p)" "0 \<le> prefix_bits p" by (simp_all add: unat_of_nat)
qed

lemma prefix_appendTo_string:
  assumes "prefix_ok p"
  shows "prefix_appendTo p b = b @ prefix_string p" "prefix_string p = addr_string (pip p) @ CHR ''/'' # itoa (nat (prefix_bits p))"
proof -
  have v: "prefix_isValid p" "addr_isValid (pip p)" "\<not> addr_hasZone (pip p)" using assms by (simp_all add: prefix_ok_def)
  then show *: "prefix_string p = addr_string (pip p) @ CHR ''/'' # itoa (nat (prefix_bits p))" by (simp add: prefix_string_def)
  have nz: "\<not> prefix_isZero p" using v(1) by (auto simp: prefix_isZero_def zero_prefix_def prefix_isValid_def)
  note u = prefix_bits_byte [OF assms]
  have z: "zone_suffix (pip p) = []" if "addr_is4In6 (pip p)"
    using v that by (auto simp: zone_suffix_def addr_hasZone_def addr_is4In6_def addr_is6_def)
  show "prefix_appendTo p b = b @ prefix_string p"
    using v nz * u z appendTo4_append [of "pip p" b] appendTo6_append [of "pip p" b] appendTo4_append [of "addr_unmap (pip p)" "b @ ''::ffff:''"]
      appendTo4_append [of "addr_unmap (pip p)" "''::ffff:''"]
    by (auto simp: prefix_appendTo_def addr_string_def Let_def appendDecimal_itoa appendTo4In6_def addr_isValid_def split: zfield.split)
qed

section \<open>Reading back\<close>

lemma digits_no_char: "\<not> is_digit c \<Longrightarrow> c \<notin> set (itoa n)"
  using itoa_digits [of n] by (auto simp: list_all_iff)

lemma addr_string_4: "addr_ok ip \<Longrightarrow> addr_is4 ip \<Longrightarrow> \<exists>c s. addr_string ip = c # s \<and> is_digit c"
proof -
  assume a: "addr_ok ip" "addr_is4 ip"
  have "addr_string ip = itoa (unat (addr_v4 ip 0)) @ CHR ''.'' # drop (Suc (length (itoa (unat (addr_v4 ip 0))))) (addr_string ip)"
    using a by (simp add: addr_string_def addr_is4_def appendTo4_def appendDecimal_itoa)
  then show ?thesis using itoa_digits [of "unat (addr_v4 ip 0)"] itoa_nonempty [of "unat (addr_v4 ip 0)"]
    by (cases "itoa (unat (addr_v4 ip 0))") (auto simp: list_all_iff)
qed

lemma parseAddrPort_string:
  assumes "addr_ok (ap_ip p)" "addr_isValid (ap_ip p)"
  shows "parseAddrPort (addrPort_string p) = Ok p"
proof -
  have colon: "CHR '':'' \<notin> set (itoa (unat (ap_port p)))" by (rule digits_no_char) (simp add: is_digit_def)
  have port: "parse_uint 16 (itoa (unat (ap_port p))) = (unat (ap_port p), None)"
    using unsigned_less [of "ap_port p", where ?'a = nat] by simp
  note li = last_index_byte_append [OF colon]
  note pa = parseAddr_string [OF assms]
  show ?thesis
  proof (cases "addr_is4 (ap_ip p)")
    case True
    obtain c s where c: "addr_string (ap_ip p) = c # s" "is_digit c" using addr_string_4 [OF assms(1) True] by blast
    have "splitAddrPort (addrPort_string p) = Ok (addr_string (ap_ip p), itoa (unat (ap_port p)), False)"
      using c is_digit_not_sign [OF c(2)] li [of "addr_string (ap_ip p)"]
      by (simp add: splitAddrPort_def addrPort_appendTo_string(2) [OF assms(2)] True)
    then show ?thesis using port pa True by (cases p) (simp add: parseAddrPort_def addr_is6_def addr_is4_def)
  next
    case False
    have "splitAddrPort (addrPort_string p) = Ok (addr_string (ap_ip p), itoa (unat (ap_port p)), True)"
      using li [of "CHR ''['' # addr_string (ap_ip p) @ '']''"]
      by (simp add: splitAddrPort_def addrPort_appendTo_string(2) [OF assms(2)] False)
    then show ?thesis using port pa False by (cases p) (simp add: parseAddrPort_def)
  qed
qed

lemma itoa_leading: "0 < n \<Longrightarrow> 49 \<le> (of_char (itoa n ! 0) :: nat) \<and> (of_char (itoa n ! 0) :: nat) \<le> 57"
proof (induction n rule: itoa.induct)
  case (1 n)
  show ?case
  proof (cases "n < 10")
    case True
    then show ?thesis using 1(2) by (simp add: itoa.simps [of n] of_char_digit)
  next
    case False
    then have "0 < n div 10" by simp
    then show ?thesis using 1(1) False by (simp add: itoa.simps [of n] nth_append)
  qed
qed

lemma prefixFrom_ok: "prefix_ok p \<Longrightarrow> prefixFrom (pip p) (prefix_bits p) = p"
proof -
  assume p: "prefix_ok p"
  obtain n where n: "prefix_bits p = int n" "n \<le> addr_bitLen (pip p)" using prefix_ok_bits [OF p] by metis
  have "addr_withoutZone (pip p) = pip p"
    using p by (cases "pip p") (auto simp: prefix_ok_def addr_hasZone_def addr_withoutZone_def addr_is6_def)
  moreover have "word_of_int (prefix_bits p) + 1 = bitsPlusOne p" by (simp add: prefix_bits_def)
  ultimately show ?thesis using p n by (cases p) (simp add: prefixFrom_def prefix_ok_def addr_isValid_def)
qed

lemma parsePrefix_string:
  assumes "prefix_ok p"
  shows "parsePrefix (prefix_string p) = Ok p"
proof -
  obtain n where n: "prefix_bits p = int n" "n \<le> addr_bitLen (pip p)" using prefix_ok_bits [OF assms] by metis
  have v: "addr_ok (pip p)" "addr_isValid (pip p)" "\<not> addr_hasZone (pip p)" using assms by (simp_all add: prefix_ok_def)
  have len: "addr_bitLen (pip p) = (if addr_is6 (pip p) then 128 else 32)"
    using v by (cases "afam (pip p)") (auto simp: addr_bitLen_def addr_is6_def addr_isValid_def)
  have "CHR ''/'' \<notin> set (itoa n)" by (rule digits_no_char) (simp add: is_digit_def)
  note li = last_index_byte_append [OF this, of "addr_string (pip p)"]
  have lead: "1 < length (itoa n) \<Longrightarrow> 0 < n" by (cases "n = 0") (simp_all add: itoa.simps [of 0])
  have "n < 2 ^ 63" using n(2) len by (simp split: if_splits)
  then have at: "atoi (itoa n) = (int n, None)" by simp
  have d: "(Suc 0 < length (itoa n) \<and> ((of_char (itoa n ! 0) :: nat) < 49 \<or> 57 < (of_char (itoa n ! 0) :: nat))) = False"
    using lead itoa_leading [of n] by auto
  have z: "addr_is6 (pip p) \<Longrightarrow> afam (pip p) = Z6 []" using v(3) by (auto simp: addr_hasZone_def addr_is6_def)
  have r: "addr_is6 (pip p) \<Longrightarrow> n \<le> 128" "\<not> addr_is6 (pip p) \<Longrightarrow> n \<le> 32" using n(2) len by simp_all
  show ?thesis
    using prefixFrom_ok [OF assms] n(1) z r
    by (cases "addr_is6 (pip p)")
      (simp_all add: parsePrefix_def prefix_appendTo_string(2) [OF assms] li parseAddr_string [OF v(1,2)] Let_def at d)
qed

section \<open>The binary form\<close>

lemma go_copy_zeros: "go_copy (replicate (length z + n) 0) z = z @ replicate n 0"
  by (simp add: go_copy_def)

lemma marshal_trailing_eq: "marshal_trailing ip n = addr_marshalBinary ip @ replicate n 0"
proof (cases "afam ip")
  case (Z6 z)
  have "bePutUint64 (take 8 (replicate (16 + length z + n) 0)) v = put_be64 v" for v by (simp add: bePutUint64_eq)
  moreover have "bePutUint64 (replicate (8 + (length z + n)) 0) v = put_be64 v @ replicate (length z + n) 0" for v
    by (simp add: bePutUint64_eq)
  ultimately show ?thesis using Z6 go_copy_zeros [of "s2b z" n]
    by (simp add: marshal_trailing_def addr_marshalBinary_def Let_def)
qed (simp_all add: marshal_trailing_def addr_marshalBinary_def bePutUint32_eq)

lemma addrPort_marshalBinary_eq: "addrPort_marshalBinary p = addr_marshalBinary (ap_ip p) @ put_le16 (ap_port p)"
  by (simp add: addrPort_marshalBinary_def marshal_trailing_eq Let_def lePutUint16_eq)

lemma addrPort_binary: "addr_ok ip \<Longrightarrow> addrPort_unmarshalBinary (addrPort_marshalBinary (AddrPort ip port)) = Ok (AddrPort ip port)"
proof -
  assume "addr_ok ip"
  then have "addr_unmarshalBinary (addr_marshalBinary ip) = Ok ip" using addr_binary_roundtrip by blast
  moreover have "leUint16 (put_le16 port) = port" using leUint16_put [of "[0, 0]" port] lePutUint16_eq [of "[0, 0]" port] by simp
  ultimately show ?thesis by (simp add: addrPort_unmarshalBinary_def addrPort_marshalBinary_eq)
qed

lemma prefix_binary: "prefix_ok p \<Longrightarrow> prefix_unmarshalBinary (prefix_marshalBinary p) = Ok p"
proof -
  assume p: "prefix_ok p"
  have "addr_withoutZone (pip p) = pip p"
    using p by (cases "pip p") (auto simp: prefix_ok_def addr_hasZone_def addr_withoutZone_def addr_is6_def)
  moreover have "addr_unmarshalBinary (addr_marshalBinary (pip p)) = Ok (pip p)"
    using p addr_binary_roundtrip by (simp add: prefix_ok_def)
  moreover have "int (unat (word_of_int (prefix_bits p) :: byte)) = prefix_bits p" using prefix_bits_byte [OF p] by simp
  ultimately show ?thesis using prefixFrom_ok [OF p] by (simp add: prefix_unmarshalBinary_def prefix_marshalBinary_def)
qed

text \<open>The decoders read back what the encoders wrote: an address, with its zone, an address with a port, and a prefix. The encoders
  of all three fill one buffer whose last bytes they leave to each other.\<close>

theorem netip_binary_roundtrip:
  assumes "addr_ok ip" "prefix_ok p"
  shows "addr_unmarshalBinary (marshal_trailing ip 0) = Ok ip
    \<and> addrPort_unmarshalBinary (addrPort_marshalBinary (AddrPort ip port)) = Ok (AddrPort ip port)
    \<and> prefix_unmarshalBinary (prefix_marshalBinary p) = Ok p
    \<and> marshal_trailing (pip p) 1 = butlast (prefix_marshalBinary p) @ [0]"
proof -
  have "addr_withoutZone (pip p) = pip p"
    using assms(2) by (cases "pip p") (auto simp: prefix_ok_def addr_hasZone_def addr_withoutZone_def addr_is6_def)
  then show ?thesis
    using addrPort_binary [OF assms(1)] prefix_binary [OF assms(2)] addr_binary_roundtrip [OF assms(1)]
    by (simp add: marshal_trailing_eq prefix_marshalBinary_def)
qed

theorem netip_binary_roundtrip_witness:
  "addrPort_unmarshalBinary (addrPort_marshalBinary (AddrPort (Addr (U128 1 2) (Z6 ''eth0'')) 443)) = Ok (AddrPort (Addr (U128 1 2) (Z6 ''eth0'')) 443)
    \<and> prefix_unmarshalBinary (prefix_marshalBinary (Prefix (Addr (U128 1 2) (Z6 [])) 65)) = Ok (Prefix (Addr (U128 1 2) (Z6 [])) 65)"
  using netip_binary_roundtrip [of "Addr (U128 1 2) (Z6 ''eth0'')" "Prefix (Addr (U128 1 2) (Z6 [])) 65" 443]
  by (simp add: addr_ok_def prefix_ok_def prefix_isValid_def addr_isValid_def addr_hasZone_def prefix_bits_def addr_bitLen_def)

section \<open>The text form\<close>

lemma addrPort_string_nonempty: "addr_isValid (ap_ip p) \<Longrightarrow> addrPort_string p \<noteq> []"
  by (simp add: addrPort_appendTo_string(2))

text \<open>C28: The same for the texts: the readers accept what the printers print and return the same value, for the valid addresses; the
  others are printed as the empty text, without their port, which is read as the zero value.\<close>

theorem netip_text_roundtrip:
  assumes "addr_ok (ap_ip q)" "prefix_ok p"
  shows "addrPort_unmarshalText (addrPort_marshalText q) = Ok (if addr_isValid (ap_ip q) then q else AddrPort zero_addr 0)
    \<and> prefix_unmarshalText (prefix_marshalText p) = Ok p
    \<and> addr_unmarshalText (addr_marshalText (ap_ip q)) = Ok (ap_ip q)"
proof -
  have "prefix_string p \<noteq> []" by (simp add: prefix_appendTo_string(2) [OF assms(2)])
  then have p: "prefix_unmarshalText (prefix_marshalText p) = Ok p"
    by (simp add: prefix_unmarshalText_def prefix_marshalText_def prefix_appendTo_string(1) [OF assms(2)] parsePrefix_string [OF assms(2)])
  show ?thesis
  proof (cases "addr_isValid (ap_ip q)")
    case True
    have "addr_string (ap_ip q) \<noteq> []"
      using parseAddr_string [OF assms(1) True] by (auto simp: parseAddr_def)
    then show ?thesis using True p addrPort_string_nonempty [OF True]
      by (simp add: addrPort_unmarshalText_def addrPort_marshalText_def addrPort_appendTo_string(1) parseAddrPort_string [OF assms(1) True]
          addr_unmarshalText_def addr_marshalText_string parseAddr_string [OF assms(1)])
  next
    case False
    then show ?thesis using p assms(1)
      by (simp add: addrPort_unmarshalText_def addrPort_marshalText_def addrPort_appendTo_def addr_isValid_def addr_unmarshalText_def
          addr_marshalText_def addr_ok_def)
  qed
qed

theorem netip_text_roundtrip_witness:
  "addrPort_unmarshalText (addrPort_marshalText (AddrPort (Addr (U128 1 2) (Z6 ''eth0'')) 443)) = Ok (AddrPort (Addr (U128 1 2) (Z6 ''eth0'')) 443)
    \<and> prefix_unmarshalText (prefix_marshalText (Prefix (Addr (U128 1 2) (Z6 [])) 65)) = Ok (Prefix (Addr (U128 1 2) (Z6 [])) 65)"
  using netip_text_roundtrip [of "AddrPort (Addr (U128 1 2) (Z6 ''eth0'')) 443" "Prefix (Addr (U128 1 2) (Z6 [])) 65"]
  by (simp add: addr_ok_def prefix_ok_def prefix_isValid_def addr_isValid_def addr_hasZone_def prefix_bits_def addr_bitLen_def)

section \<open>The order\<close>

lemma compareInt_cases: "compareInt x y = 0 \<longleftrightarrow> x = y" "compareInt y x = - compareInt x y"
  by (auto simp: compareInt_def)

lemma compareUint16_cases: "compareUint16 x y = 0 \<longleftrightarrow> x = y" "compareUint16 y x = - compareUint16 x y"
  by (auto simp: compareUint16_def)

text \<open>The comparisons of address-port pairs and of prefixes are those of a total order.\<close>

lemma endpoint_compare:
  "addrPort_compare p q = 0 \<longleftrightarrow> p = q" "addrPort_compare q p = - addrPort_compare p q"
proof -
  let ?c = "addr_compare (ap_ip p) (ap_ip q)"
  have c: "?c = 0 \<longleftrightarrow> ap_ip p = ap_ip q" "addr_compare (ap_ip q) (ap_ip p) = - ?c"
    using addr_compare_linear [of "ap_ip p" "ap_ip q"] by blast+
  show "addrPort_compare p q = 0 \<longleftrightarrow> p = q"
    using c(1) by (auto simp: addrPort_compare_def Let_def compareUint16_cases(1) addrPort.expand)
  show "addrPort_compare q p = - addrPort_compare p q"
    unfolding addrPort_compare_def Let_def c(2) compareUint16_cases(2) [of "ap_port q" "ap_port p"] by simp
qed

lemma prefix_compare_cases:
  "prefix_compare p q = 0 \<longleftrightarrow> p = q" "prefix_compare q p = - prefix_compare p q"
proof -
  let ?c = "addr_compare (pip p) (pip q)"
  have c: "?c = 0 \<longleftrightarrow> pip p = pip q" "addr_compare (pip q) (pip p) = - ?c"
    using addr_compare_linear [of "pip p" "pip q"] by blast+
  have b: "prefix_bits p = prefix_bits q \<longleftrightarrow> bitsPlusOne p = bitsPlusOne q"
    by (auto simp: prefix_bits_def dest: unsigned_word_eqI)
  show "prefix_compare p q = 0 \<longleftrightarrow> p = q"
    using c(1) b by (auto simp: prefix_compare_def Let_def compareInt_cases(1) prefix.expand)
  show "prefix_compare q p = - prefix_compare p q"
    unfolding prefix_compare_def Let_def c(2) compareInt_cases(2) [of "int (addr_bitLen (pip q))" "int (addr_bitLen (pip p))"]
      compareInt_cases(2) [of "prefix_bits q" "prefix_bits p"] by simp
qed

text \<open>The comment on \<open>compare\<close> has the invalid prefixes first; an invalid IPv6 one is behind the valid IPv4 ones.\<close>

lemma invalid_prefix_not_first:
  "prefix_isValid (prefixFrom (addrFrom4 [10, 0, 0, 0]) 8) \<and> \<not> prefix_isValid (prefixFrom iPv6Unspecified 129)
    \<and> prefix_compare (prefixFrom iPv6Unspecified 129) (prefixFrom (addrFrom4 [10, 0, 0, 0]) 8) = 1"
  by (simp add: prefix_isValid_def prefixFrom_def iPv6Unspecified_def addr_bitLen_def addrFrom4_def prefix_compare_def Let_def
      addr_withoutZone_def addr_is6_def compareInt_def)

end
