(* ===== verification/SkiplistFunc.thy ===== *)
theory SkiplistFunc
  imports SkiplistMap
begin

text \<open>
  The other half of \<open>transport/anytls/skiplist\<close>: the list that orders its keys by a comparison function (\<open>NewSkipListFunc\<close>), the
  ranges and the iterators. The list with a comparison function is the ordered list of \<open>Skiplist\<close> on renamed keys: for every
  renaming \<open>f\<close> with the order of the comparison, each operation on the one is the operation on the other. So what
  \<open>SkiplistMap\<close> shows holds for it too. The links of a list never leave its heap, whatever it is used for.
\<close>

section \<open>Searching with a comparison function\<close>

type_synonym cmpfn = "64 word \<Rightarrow> 64 word \<Rightarrow> int"

partial_function (option) walkF_lt :: "cmpfn \<Rightarrow> 'v skiplist \<Rightarrow> 64 word \<Rightarrow> nat \<Rightarrow> ref \<Rightarrow> ref option" where
  "walkF_lt keyCmp s key i prev =
     (case nxt s prev i of
        None \<Rightarrow> None
      | Some None \<Rightarrow> Some prev
      | Some (Some a) \<Rightarrow> if 0 \<le> keyCmp (skey s a) key then Some prev else walkF_lt keyCmp s key i (Node a))"

partial_function (option) walkF_find :: "cmpfn \<Rightarrow> 'v skiplist \<Rightarrow> 64 word \<Rightarrow> nat \<Rightarrow> ref \<Rightarrow> (nat + ref) option" where
  "walkF_find keyCmp s key i prev =
     (case nxt s prev i of
        None \<Rightarrow> None
      | Some None \<Rightarrow> Some (Inr prev)
      | Some (Some a) \<Rightarrow>
          let r = keyCmp (skey s a) key in
          if r = 0 then Some (Inl a) else if 0 < r then Some (Inr prev) else walkF_find keyCmp s key i (Node a))"

fun lowerF :: "cmpfn \<Rightarrow> 'v skiplist \<Rightarrow> 64 word \<Rightarrow> nat \<Rightarrow> ref \<Rightarrow> nat option option" where
  "lowerF keyCmp s key 0 prev = nxt s prev 0"
| "lowerF keyCmp s key (Suc i) prev =
     (case walkF_find keyCmp s key i prev of
        None \<Rightarrow> None
      | Some (Inl a) \<Rightarrow> Some (Some a)
      | Some (Inr p) \<Rightarrow> lowerF keyCmp s key i p)"

definition lowerBoundF :: "cmpfn \<Rightarrow> 'v skiplist \<Rightarrow> 64 word \<Rightarrow> nat option option" where
  "lowerBoundF keyCmp s key = lowerF keyCmp s key (slevel s) Head"

definition findNodeF :: "cmpfn \<Rightarrow> 'v skiplist \<Rightarrow> 64 word \<Rightarrow> nat option option" where
  "findNodeF keyCmp s key =
     (case lowerBoundF keyCmp s key of
        None \<Rightarrow> None
      | Some None \<Rightarrow> Some None
      | Some (Some a) \<Rightarrow> Some (if keyCmp (skey s a) key = 0 then Some a else None))"

definition upperBoundF :: "cmpfn \<Rightarrow> 'v skiplist \<Rightarrow> 64 word \<Rightarrow> nat option option" where
  "upperBoundF keyCmp s key =
     (case lowerBoundF keyCmp s key of
        None \<Rightarrow> None
      | Some None \<Rightarrow> Some None
      | Some (Some a) \<Rightarrow> if keyCmp (skey s a) key = 0 then nxt s (Node a) 0 else Some (Some a))"

fun insertPointF :: "cmpfn \<Rightarrow> 'v skiplist \<Rightarrow> 64 word \<Rightarrow> nat \<Rightarrow> ref \<Rightarrow> (nat + ref list) option" where
  "insertPointF keyCmp s key 0 prev = Some (Inr [])"
| "insertPointF keyCmp s key (Suc i) prev =
     (case walkF_find keyCmp s key i prev of
        None \<Rightarrow> None
      | Some (Inl a) \<Rightarrow> Some (Inl a)
      | Some (Inr p) \<Rightarrow>
          (case insertPointF keyCmp s key i p of
             None \<Rightarrow> None
           | Some (Inl a) \<Rightarrow> Some (Inl a)
           | Some (Inr ps) \<Rightarrow> Some (Inr (ps @ [p]))))"

definition findInsertPointF :: "cmpfn \<Rightarrow> 'v skiplist \<Rightarrow> 64 word \<Rightarrow> (nat + ref list) option" where
  "findInsertPointF keyCmp s key = insertPointF keyCmp s key (slevel s) Head"

fun findPrevsF :: "cmpfn \<Rightarrow> 'v skiplist \<Rightarrow> 64 word \<Rightarrow> nat \<Rightarrow> ref \<Rightarrow> ref list option" where
  "findPrevsF keyCmp s key 0 prev = Some []"
| "findPrevsF keyCmp s key (Suc i) prev =
     (case walkF_lt keyCmp s key i prev of
        None \<Rightarrow> None
      | Some p \<Rightarrow> (case findPrevsF keyCmp s key i p of None \<Rightarrow> None | Some ps \<Rightarrow> Some (ps @ [p])))"

definition findPrevNodesF :: "cmpfn \<Rightarrow> 'v skiplist \<Rightarrow> 64 word \<Rightarrow> ref list option" where
  "findPrevNodesF keyCmp s key = findPrevsF keyCmp s key (slevel s) Head"

definition findRemovePointF :: "cmpfn \<Rightarrow> 'v skiplist \<Rightarrow> 64 word \<Rightarrow> (nat \<times> ref list) option option" where
  "findRemovePointF keyCmp s key =
     (case findPrevNodesF keyCmp s key of
        None \<Rightarrow> None
      | Some [] \<Rightarrow> None
      | Some (p # ps) \<Rightarrow>
          (case nxt s p 0 of
             None \<Rightarrow> None
           | Some None \<Rightarrow> Some None
           | Some (Some a) \<Rightarrow> if keyCmp (skey s a) key \<noteq> 0 then Some None else Some (Some (a, p # ps))))"

section \<open>Operations over both searches\<close>

text \<open>\<open>Insert\<close> and \<open>Remove\<close> call the search of \<open>impl\<close>; the rest of them is shared.\<close>

definition insert_at :: "(nat + ref list) option \<Rightarrow> 64 word \<Rightarrow> 64 word \<Rightarrow> 'v \<Rightarrow> 'v skiplist \<Rightarrow> 'v skiplist option" where
  "insert_at pt rand key v s =
     (case pt of
        None \<Rightarrow> None
      | Some (Inl a) \<Rightarrow> Some (s\<lparr>sheap := (sheap s)[a := (sheap s ! a)\<lparr>nval := v\<rparr>]\<rparr>)
      | Some (Inr prevs) \<Rightarrow>
          (let level = randomLevel rand s; a = length (sheap s) in
           Option.bind (newNode level key v) (\<lambda>n.
           Option.bind (link_node a (min level (slevel s)) 0 prevs (s\<lparr>sheap := sheap s @ [n]\<rparr>)) (\<lambda>s1.
           Option.bind (link_head a (level - slevel s) (slevel s) s1) (\<lambda>s2.
             Some (s2\<lparr>slevel := max level (slevel s), slen := slen s + 1\<rparr>))))))"

definition remove_at :: "(nat \<times> ref list) option option \<Rightarrow> 'v skiplist \<Rightarrow> (bool \<times> 'v skiplist) option" where
  "remove_at pt s =
     (case pt of
        None \<Rightarrow> None
      | Some None \<Rightarrow> Some (False, s)
      | Some (Some (a, prevs)) \<Rightarrow>
          Option.bind (unlink (nnext (sheap s ! a)) 0 prevs s) (\<lambda>s1.
            Some (True, s1\<lparr>slevel := shrink (slevel s1) (shead s1), slen := slen s1 - 1\<rparr>)))"

definition insertF :: "cmpfn \<Rightarrow> 64 word \<Rightarrow> 64 word \<Rightarrow> 'v \<Rightarrow> 'v skiplist \<Rightarrow> 'v skiplist option" where
  "insertF keyCmp rand key v s = insert_at (findInsertPointF keyCmp s key) rand key v s"

definition removeF :: "cmpfn \<Rightarrow> 64 word \<Rightarrow> 'v skiplist \<Rightarrow> (bool \<times> 'v skiplist) option" where
  "removeF keyCmp key s = remove_at (findRemovePointF keyCmp s key) s"

definition findF :: "cmpfn \<Rightarrow> 'v skiplist \<Rightarrow> 64 word \<Rightarrow> 'v option option" where
  "findF keyCmp s key = map_option (map_option (\<lambda>a. nval (sheap s ! a))) (findNodeF keyCmp s key)"

definition hasF :: "cmpfn \<Rightarrow> 'v skiplist \<Rightarrow> 64 word \<Rightarrow> bool option" where
  "hasF keyCmp s key = map_option (\<lambda>n. n \<noteq> None) (findNodeF keyCmp s key)"

lemma sl_insert_at: "sl_insert rand key v s = insert_at (findInsertPoint s key) rand key v s"
  by (simp add: sl_insert_def insert_at_def)

lemma sl_remove_at: "sl_remove key s = remove_at (findRemovePoint s key) s"
  by (simp add: sl_remove_def remove_at_def)

section \<open>Ranges and iterators\<close>

text \<open>An iterator is a node and the node to stop at; \<open>Key\<close>, \<open>Value\<close> and \<open>MoveToNext\<close> of an iterator without a node panic.\<close>

record iter =
  it_node :: "nat option"
  it_end :: "nat option"

definition it_isNotEnd :: "iter \<Rightarrow> bool" where
  "it_isNotEnd it \<longleftrightarrow> it_node it \<noteq> it_end it"

definition it_moveToNext :: "'v skiplist \<Rightarrow> iter \<Rightarrow> iter option" where
  "it_moveToNext s it = (case it_node it of None \<Rightarrow> None | Some a \<Rightarrow> map_option (\<lambda>n. it\<lparr>it_node := n\<rparr>) (nxt s (Node a) 0))"

definition it_key :: "'v skiplist \<Rightarrow> iter \<Rightarrow> 64 word option" where
  "it_key s it = map_option (skey s) (it_node it)"

definition it_value :: "'v skiplist \<Rightarrow> iter \<Rightarrow> 'v option" where
  "it_value s it = map_option (\<lambda>a. nval (sheap s ! a)) (it_node it)"

definition findRange :: "'v skiplist \<Rightarrow> 64 word \<Rightarrow> 64 word \<Rightarrow> iter option" where
  "findRange s first lst =
     Option.bind (sl_lowerBound s first) (\<lambda>a. Option.bind (sl_upperBound s lst) (\<lambda>b. Some \<lparr>it_node = a, it_end = b\<rparr>))"

text \<open>The loop that an iterator is for.\<close>

partial_function (option) it_collect :: "'v skiplist \<Rightarrow> iter \<Rightarrow> (64 word \<times> 'v) list option" where
  "it_collect s it =
     (if it_isNotEnd it then
        Option.bind (it_key s it) (\<lambda>k. Option.bind (it_value s it) (\<lambda>v. Option.bind (it_moveToNext s it) (\<lambda>it'.
          Option.bind (it_collect s it') (\<lambda>es. Some ((k, v) # es)))))
      else Some [])"

text \<open>\<open>ForEachIf\<close>: the entries that \<open>op\<close> is called with; it ends the loop by returning false.\<close>

partial_function (option) forEachIf_from :: "'v skiplist \<Rightarrow> (64 word \<Rightarrow> 'v \<Rightarrow> bool) \<Rightarrow> nat option \<Rightarrow> (64 word \<times> 'v) list option" where
  "forEachIf_from s op e =
     (case e of
        None \<Rightarrow> Some []
      | Some a \<Rightarrow>
          if \<not> op (skey s a) (nval (sheap s ! a)) then Some [(skey s a, nval (sheap s ! a))]
          else Option.bind (nxt s (Node a) 0) (\<lambda>e'. Option.bind (forEachIf_from s op e') (\<lambda>es. Some ((skey s a, nval (sheap s ! a)) # es))))"

definition forEachIf :: "'v skiplist \<Rightarrow> (64 word \<Rightarrow> 'v \<Rightarrow> bool) \<Rightarrow> (64 word \<times> 'v) list option" where
  "forEachIf s op = Option.bind (nxt s Head 0) (forEachIf_from s op)"

text \<open>\<open>NewSkipListFromMap\<close>; the entries come in any order, each with the random number of its insertion.\<close>

definition newSkipListFromMap :: "(64 word \<times> 64 word \<times> 'v) list \<Rightarrow> 'v skiplist option" where
  "newSkipListFromMap es = fold (\<lambda>(r, k, v) s. Option.bind s (sl_insert r k v)) es (Some newSkipList)"

section \<open>Links stay in the heap\<close>

definition links_ok :: "'v skiplist \<Rightarrow> bool" where
  "links_ok s \<longleftrightarrow> (\<forall>r i a. nxt s r i = Some (Some a) \<longrightarrow> a < length (sheap s))"

definition in_heap_opt :: "'v skiplist \<Rightarrow> nat option \<Rightarrow> bool" where
  "in_heap_opt s v \<longleftrightarrow> (\<forall>a. v = Some a \<longrightarrow> a < length (sheap s))"

lemma links_okD: "links_ok s \<Longrightarrow> nxt s r i = Some v \<Longrightarrow> in_heap_opt s v"
  by (auto simp: links_ok_def in_heap_opt_def)

lemma set_nxt_links:
  assumes "set_nxt r i v s = Some t" "links_ok s" "in_heap_opt s v"
  shows "links_ok t \<and> length (sheap t) = length (sheap s)"
proof -
  have "nxt s r i \<noteq> None" using assms(1) by (auto simp: set_nxt_def nxt_def split: ref.splits if_splits)
  from set_nxt_spec [OF this, of v] assms(1) have t: "same_shape s t" "\<And>q j. nxt t q j = (if q = r \<and> j = i then Some v else nxt s q j)"
    by auto
  then show ?thesis using assms(2,3) by (auto simp: links_ok_def in_heap_opt_def same_shape_def split: if_splits)
qed

lemma link_node_links:
  "link_node a n i ps s = Some t \<Longrightarrow> links_ok s \<Longrightarrow> a < length (sheap s) \<Longrightarrow> links_ok t \<and> length (sheap t) = length (sheap s)"
proof (induction a n i ps s rule: link_node.induct)
  case (3 a n i p ps s)
  from 3(2) obtain v s1 s2 where st: "nxt s p i = Some v" "set_nxt (Node a) i v s = Some s1" "set_nxt p i (Some a) s1 = Some s2"
    "link_node a n (Suc i) ps s2 = Some t" by (auto split: option.splits simp: bind_eq_Some_conv)
  have 1: "links_ok s1" "length (sheap s1) = length (sheap s)" using set_nxt_links [OF st(2) 3(3) links_okD [OF 3(3) st(1)]] by auto
  then have "in_heap_opt s1 (Some a)" using 3(4) by (simp add: in_heap_opt_def)
  from set_nxt_links [OF st(3) 1(1) this] 1 3(1) [OF st(1,2,3,4)] 3(4) show ?case by simp
qed auto

lemma link_head_links:
  "link_head a n i s = Some t \<Longrightarrow> links_ok s \<Longrightarrow> a < length (sheap s) \<Longrightarrow> links_ok t \<and> length (sheap t) = length (sheap s)"
proof (induction n arbitrary: i s)
  case (Suc n)
  from Suc.prems(1) obtain s1 where st: "set_nxt Head i (Some a) s = Some s1" "link_head a n (Suc i) s1 = Some t"
    by (auto simp: bind_eq_Some_conv)
  have "links_ok s1 \<and> length (sheap s1) = length (sheap s)"
    using set_nxt_links [OF st(1) Suc.prems(2)] Suc.prems(3) by (simp add: in_heap_opt_def)
  then show ?case using Suc.IH [OF st(2)] Suc.prems(3) by simp
qed auto

lemma unlink_links:
  "unlink vs i ps s = Some t \<Longrightarrow> links_ok s \<Longrightarrow> \<forall>v \<in> set vs. in_heap_opt s v \<Longrightarrow> links_ok t \<and> length (sheap t) = length (sheap s)"
proof (induction vs i ps s rule: unlink.induct)
  case (3 v vs i p ps s)
  from 3(2) obtain s1 where st: "set_nxt p i v s = Some s1" "unlink vs (Suc i) ps s1 = Some t" by (auto simp: bind_eq_Some_conv)
  have 1: "links_ok s1 \<and> length (sheap s1) = length (sheap s)" using set_nxt_links [OF st(1) 3(3)] 3(4) by simp
  then have "\<forall>v \<in> set vs. in_heap_opt s1 v" using 3(4) by (auto simp: in_heap_opt_def)
  with 3(1) [OF st] 1 show ?case by simp
qed auto

lemma new_links: "links_ok newSkipList"
  by (auto simp: links_ok_def newSkipList_def nxt_def split: ref.splits if_splits)

lemma append_links:
  assumes "links_ok s" "newNode l k v = Some n"
  shows "links_ok (s\<lparr>sheap := sheap s @ [n]\<rparr>)"
  unfolding links_ok_def
proof (intro allI impI)
  fix r i a assume a: "nxt (s\<lparr>sheap := sheap s @ [n]\<rparr>) r i = Some (Some a)"
  have n: "i < length (nnext n) \<Longrightarrow> nnext n ! i = None" using assms(2) by (auto simp: newNode_def split: if_splits)
  have "nxt s r i = Some (Some a)"
  proof (cases r)
    case Head
    then show ?thesis using a by (simp add: nxt_def split: if_splits)
  next
    case (Node b)
    then show ?thesis using a n by (cases "b < length (sheap s)") (auto simp: nxt_def nth_append less_Suc_eq split: if_splits)
  qed
  then show "a < length (sheap (s\<lparr>sheap := sheap s @ [n]\<rparr>))" using assms(1) by (auto simp: links_ok_def intro: less_SucI)
qed

lemma nxt_counts [simp]: "nxt (t\<lparr>slevel := x, slen := y\<rparr>) r i = nxt t r i"
  by (cases r) (simp_all add: nxt_def)

lemma insert_links: "insert_at pt rand key v s = Some t \<Longrightarrow> links_ok s \<Longrightarrow> links_ok t"
proof -
  assume i: "insert_at pt rand key v s = Some t" and s: "links_ok s"
  have len: "links_ok (t\<lparr>slevel := x, slen := y\<rparr>) = links_ok t" for t :: "'a skiplist" and x y
    by (simp add: links_ok_def)
  show ?thesis
  proof (cases "\<exists>a. pt = Some (Inl a)")
    case True
    then obtain a where "t = s\<lparr>sheap := (sheap s)[a := (sheap s ! a)\<lparr>nval := v\<rparr>]\<rparr>" using i by (auto simp: insert_at_def)
    then have "nxt t q j = nxt s q j" "length (sheap t) = length (sheap s)" for q j
      by (cases q; cases "q = Node a"; auto simp: nxt_def nth_list_update)+
    then show ?thesis using s by (simp add: links_ok_def)
  next
    case False
    then obtain prevs where "pt = Some (Inr prevs)" using i by (auto simp: insert_at_def split: option.splits sum.splits)
    then obtain n s1 s2 where st: "newNode (randomLevel rand s) key v = Some n"
      "link_node (length (sheap s)) (min (randomLevel rand s) (slevel s)) 0 prevs (s\<lparr>sheap := sheap s @ [n]\<rparr>) = Some s1"
      "link_head (length (sheap s)) (randomLevel rand s - slevel s) (slevel s) s1 = Some s2"
      "t = s2\<lparr>slevel := max (randomLevel rand s) (slevel s), slen := slen s + 1\<rparr>"
      using i by (auto simp: insert_at_def Let_def bind_eq_Some_conv)
    have "links_ok s1 \<and> length (sheap s1) = Suc (length (sheap s))"
      using link_node_links [OF st(2) append_links [OF s st(1)]] by simp
    then show ?thesis using link_head_links [OF st(3)] by (simp add: st(4) len)
  qed
qed

lemma remove_links: "remove_at pt s = Some (b, t) \<Longrightarrow> links_ok s \<Longrightarrow> (\<And>a ps. pt = Some (Some (a, ps)) \<Longrightarrow> a < length (sheap s)) \<Longrightarrow> links_ok t"
proof -
  assume r: "remove_at pt s = Some (b, t)" and s: "links_ok s" and pt: "\<And>a ps. pt = Some (Some (a, ps)) \<Longrightarrow> a < length (sheap s)"
  show "links_ok t"
  proof (cases "pt = Some None")
    case True
    then show ?thesis using r s by (simp add: remove_at_def)
  next
    case False
    then obtain a ps s1 where st: "pt = Some (Some (a, ps))" "unlink (nnext (sheap s ! a)) 0 ps s = Some s1"
      "t = s1\<lparr>slevel := shrink (slevel s1) (shead s1), slen := slen s1 - 1\<rparr>"
      using r by (auto simp: remove_at_def bind_eq_Some_conv split: option.splits)
    have "nxt s (Node a) j = Some (nnext (sheap s ! a) ! j)" if "j < height s a" for j
      using pt [OF st(1)] that by (simp add: nxt_def)
    then have "\<forall>v \<in> set (nnext (sheap s ! a)). in_heap_opt s v"
      using links_okD [OF s] by (metis in_set_conv_nth)
    from unlink_links [OF st(2) s this] have "links_ok s1" by simp
    then show ?thesis by (simp add: st(3) links_ok_def)
  qed
qed

lemma removePointF_in_heap: "links_ok s \<Longrightarrow> findRemovePointF cmp s k = Some (Some (a, ps)) \<Longrightarrow> a < length (sheap s)"
  by (auto simp: findRemovePointF_def links_ok_def split: option.splits list.splits if_splits)

section \<open>Renamed keys\<close>

definition rename :: "(64 word \<Rightarrow> 64 word) \<Rightarrow> 'v skiplist \<Rightarrow> 'v skiplist" where
  "rename f s = s\<lparr>sheap := map (\<lambda>n. n\<lparr>nkey := f (nkey n)\<rparr>) (sheap s)\<rparr>"

lemma rename_simps [simp]:
  "slevel (rename f s) = slevel s" "slen (rename f s) = slen s" "shead (rename f s) = shead s" "length (sheap (rename f s)) = length (sheap s)"
  by (simp_all add: rename_def)

lemma rename_new: "rename f newSkipList = newSkipList"
  by (simp add: rename_def newSkipList_def)

lemma nxt_rename [simp]: "nxt (rename f s) r i = nxt s r i"
  by (cases r) (auto simp: nxt_def rename_def)

lemma skey_rename: "a < length (sheap s) \<Longrightarrow> skey (rename f s) a = f (skey s a)"
  by (simp add: rename_def)

lemma nval_rename: "a < length (sheap s) \<Longrightarrow> nval (sheap (rename f s) ! a) = nval (sheap s ! a)"
  by (simp add: rename_def)

text \<open>The comparison has the order of the renamed keys.\<close>

definition cmp_order :: "cmpfn \<Rightarrow> (64 word \<Rightarrow> 64 word) \<Rightarrow> bool" where
  "cmp_order cmp f \<longleftrightarrow> (\<forall>a b. (cmp a b < 0 \<longleftrightarrow> f a < f b) \<and> (cmp a b = 0 \<longleftrightarrow> f a = f b))"

lemma cmp_orderD:
  assumes "cmp_order cmp f"
  shows "cmp a b = 0 \<longleftrightarrow> f a = f b" "0 \<le> cmp a b \<longleftrightarrow> f b \<le> f a" "0 < cmp a b \<longleftrightarrow> f b < f a"
proof -
  have lt: "cmp a b < 0 \<longleftrightarrow> f a < f b" and eq: "cmp a b = 0 \<longleftrightarrow> f a = f b" using assms by (simp_all add: cmp_order_def)
  show "cmp a b = 0 \<longleftrightarrow> f a = f b" by (rule eq)
  have "0 \<le> cmp a b \<longleftrightarrow> \<not> cmp a b < 0" by linarith
  then show "0 \<le> cmp a b \<longleftrightarrow> f b \<le> f a" by (simp only: lt not_less)
  have "0 < cmp a b \<longleftrightarrow> \<not> cmp a b < 0 \<and> \<not> cmp a b = 0" by linarith
  then show "0 < cmp a b \<longleftrightarrow> f b < f a" by (simp only: lt eq not_less le_less) auto
qed

lemma walkF_lt_1:
  assumes "walkF_lt cmp s k i r = Some y"
  shows "cmp_order cmp f \<longrightarrow> links_ok s \<longrightarrow> walk_lt (rename f s) (f k) i r = Some y"
proof (rule walkF_lt.raw_induct [OF _ assms], intro impI)
  fix V cmp s k i r y
  assume ih: "\<And>cmp s k i r y. V cmp s k i r = Some y \<Longrightarrow> cmp_order cmp f \<longrightarrow> links_ok s \<longrightarrow> walk_lt (rename f s) (f k) i r = Some y"
    and c: "cmp_order cmp f" and l: "links_ok (s :: 'a skiplist)"
    and b: "(case nxt s r i of None \<Rightarrow> None | Some None \<Rightarrow> Some r
      | Some (Some a) \<Rightarrow> if 0 \<le> cmp (skey s a) k then Some r else V cmp s k i (Node a)) = Some y"
  then show "walk_lt (rename f s) (f k) i r = Some y"
    by (subst walk_lt.simps) (auto simp: cmp_orderD(2) [OF c] skey_rename links_okD [OF l, unfolded in_heap_opt_def] split: option.splits if_splits)
qed

lemma walkF_lt_2:
  assumes "walk_lt t l i r = Some y"
  shows "\<forall>s k. t = rename f s \<longrightarrow> l = f k \<longrightarrow> cmp_order cmp f \<longrightarrow> links_ok s \<longrightarrow> walkF_lt cmp s k i r = Some y"
proof (rule walk_lt.raw_induct [OF _ assms], intro allI impI)
  fix V t l i r y s k
  assume ih: "\<And>t l i r y. V t l i r = Some y \<Longrightarrow> \<forall>s k. t = rename f s \<longrightarrow> l = f k \<longrightarrow> cmp_order cmp f \<longrightarrow> links_ok s \<longrightarrow> walkF_lt cmp s k i r = Some y"
    and e: "t = rename f s" "l = f k" and c: "cmp_order cmp f" and l: "links_ok (s :: 'a skiplist)"
    and b: "(case nxt t r i of None \<Rightarrow> None | Some None \<Rightarrow> Some r
      | Some (Some a) \<Rightarrow> if l \<le> skey t a then Some r else V t l i (Node a)) = Some y"
  then show "walkF_lt cmp s k i r = Some y"
    by (subst walkF_lt.simps) (auto simp: cmp_orderD(2) [OF c] skey_rename links_okD [OF l, unfolded in_heap_opt_def] split: option.splits if_splits)
qed

lemma walkF_lt_rename: "cmp_order cmp f \<Longrightarrow> links_ok s \<Longrightarrow> walkF_lt cmp s k i r = walk_lt (rename f s) (f k) i r"
  using walkF_lt_1 [of cmp s k i r _ f] walkF_lt_2 [of "rename f s" "f k" i r _ f cmp]
  by (cases "walkF_lt cmp s k i r"; cases "walk_lt (rename f s) (f k) i r") auto

lemma walkF_find_1:
  assumes "walkF_find cmp s k i r = Some y"
  shows "cmp_order cmp f \<longrightarrow> links_ok s \<longrightarrow> walk_find (rename f s) (f k) i r = Some y"
proof (rule walkF_find.raw_induct [OF _ assms], intro impI)
  fix V cmp s k i r y
  assume ih: "\<And>cmp s k i r y. V cmp s k i r = Some y \<Longrightarrow> cmp_order cmp f \<longrightarrow> links_ok s \<longrightarrow> walk_find (rename f s) (f k) i r = Some y"
    and c: "cmp_order cmp f" and l: "links_ok (s :: 'a skiplist)"
    and b: "(case nxt s r i of None \<Rightarrow> None | Some None \<Rightarrow> Some (Inr r)
      | Some (Some a) \<Rightarrow> let c = cmp (skey s a) k in if c = 0 then Some (Inl a) else if 0 < c then Some (Inr r) else V cmp s k i (Node a)) = Some y"
  then show "walk_find (rename f s) (f k) i r = Some y"
    by (subst walk_find.simps) (auto simp: cmp_orderD(1,3) [OF c] skey_rename links_okD [OF l, unfolded in_heap_opt_def] Let_def split: option.splits if_splits)
qed

lemma walkF_find_2:
  assumes "walk_find t l i r = Some y"
  shows "\<forall>s k. t = rename f s \<longrightarrow> l = f k \<longrightarrow> cmp_order cmp f \<longrightarrow> links_ok s \<longrightarrow> walkF_find cmp s k i r = Some y"
proof (rule walk_find.raw_induct [OF _ assms], intro allI impI)
  fix V t l i r y s k
  assume ih: "\<And>t l i r y. V t l i r = Some y \<Longrightarrow> \<forall>s k. t = rename f s \<longrightarrow> l = f k \<longrightarrow> cmp_order cmp f \<longrightarrow> links_ok s \<longrightarrow> walkF_find cmp s k i r = Some y"
    and e: "t = rename f s" "l = f k" and c: "cmp_order cmp f" and l: "links_ok (s :: 'a skiplist)"
    and b: "(case nxt t r i of None \<Rightarrow> None | Some None \<Rightarrow> Some (Inr r)
      | Some (Some a) \<Rightarrow> if skey t a = l then Some (Inl a) else if l < skey t a then Some (Inr r) else V t l i (Node a)) = Some y"
  then show "walkF_find cmp s k i r = Some y"
    by (subst walkF_find.simps) (auto simp: cmp_orderD(1,3) [OF c] skey_rename links_okD [OF l, unfolded in_heap_opt_def] Let_def split: option.splits if_splits)
qed

lemma walkF_find_rename: "cmp_order cmp f \<Longrightarrow> links_ok s \<Longrightarrow> walkF_find cmp s k i r = walk_find (rename f s) (f k) i r"
  using walkF_find_1 [of cmp s k i r _ f] walkF_find_2 [of "rename f s" "f k" i r _ f cmp]
  by (cases "walkF_find cmp s k i r"; cases "walk_find (rename f s) (f k) i r") auto

lemma findPrevsF_rename: "cmp_order cmp f \<Longrightarrow> links_ok s \<Longrightarrow> findPrevsF cmp s k n r = findPrevs (rename f s) (f k) n r"
  by (induction n arbitrary: r) (simp_all add: walkF_lt_rename split: option.split)

lemma insertPointF_rename: "cmp_order cmp f \<Longrightarrow> links_ok s \<Longrightarrow> insertPointF cmp s k n r = insertPoint (rename f s) (f k) n r"
  by (induction n arbitrary: r) (simp_all add: walkF_find_rename split: option.split sum.split)

lemma lowerF_rename: "cmp_order cmp f \<Longrightarrow> links_ok s \<Longrightarrow> lowerF cmp s k n r = doFind (rename f s) (f k) False n r"
  by (induction n arbitrary: r) (simp_all add: walkF_find_rename split: option.split sum.split)

lemma walk_find_in_heap:
  assumes "walk_find s k i r = Some y"
  shows "links_ok s \<longrightarrow> (\<forall>a. y = Inl a \<longrightarrow> a < length (sheap s))"
proof (rule walk_find.raw_induct [OF _ assms], intro impI allI)
  fix V s k i r y a
  assume ih: "\<And>s k i r y. V s k i r = Some y \<Longrightarrow> links_ok s \<longrightarrow> (\<forall>a. y = Inl a \<longrightarrow> a < length (sheap s))"
    and l: "links_ok (s :: 'a skiplist)" and y: "y = Inl a"
    and b: "(case nxt s r i of None \<Rightarrow> None | Some None \<Rightarrow> Some (Inr r)
      | Some (Some a) \<Rightarrow> if skey s a = k then Some (Inl a) else if k < skey s a then Some (Inr r) else V s k i (Node a)) = Some y"
  then show "a < length (sheap s)"
    by (auto dest: links_okD [OF l] simp: in_heap_opt_def split: option.splits if_splits)
qed

lemma doFind_in_heap: "links_ok s \<Longrightarrow> doFind s k False n r = Some (Some a) \<Longrightarrow> a < length (sheap s)"
proof (induction n arbitrary: r)
  case 0
  then show ?case by (simp add: links_ok_def)
next
  case (Suc n)
  then show ?case using walk_find_in_heap [of s k n r] by (auto split: option.splits sum.splits)
qed

lemma links_rename [simp]: "links_ok (rename f s) = links_ok s"
  by (simp add: links_ok_def)

lemma finders_rename:
  assumes "cmp_order cmp f" "links_ok s"
  shows "findInsertPointF cmp s k = findInsertPoint (rename f s) (f k)"
    "findRemovePointF cmp s k = findRemovePoint (rename f s) (f k)"
    "lowerBoundF cmp s k = sl_lowerBound (rename f s) (f k)"
    "upperBoundF cmp s k = sl_upperBound (rename f s) (f k)"
proof -
  show "findInsertPointF cmp s k = findInsertPoint (rename f s) (f k)"
    by (simp add: findInsertPointF_def findInsertPoint_def insertPointF_rename [OF assms])
  have p: "findPrevNodesF cmp s k = findPrevNodes (rename f s) (f k)"
    by (simp add: findPrevNodesF_def findPrevNodes_def findPrevsF_rename [OF assms])
  have e: "cmp (skey s a) k = 0 \<longleftrightarrow> skey (rename f s) a = f k" if "a < length (sheap s)" for a
    using that by (simp add: cmp_orderD(1) [OF assms(1)] skey_rename)
  have h: "nxt s r i = Some (Some a) \<Longrightarrow> a < length (sheap s)" for r i a using assms(2) by (simp add: links_ok_def)
  show "findRemovePointF cmp s k = findRemovePoint (rename f s) (f k)"
    unfolding findRemovePointF_def findRemovePoint_def p by (auto simp: e dest: h split: option.split list.split)
  show l: "lowerBoundF cmp s k = sl_lowerBound (rename f s) (f k)"
    by (simp add: lowerBoundF_def sl_lowerBound_def doFindNode_def lowerF_rename [OF assms])
  have "sl_lowerBound (rename f s) (f k) = Some (Some a) \<Longrightarrow> a < length (sheap s)" for a
    using doFind_in_heap [of "rename f s"] assms(2) by (simp add: sl_lowerBound_def doFindNode_def)
  then show "upperBoundF cmp s k = sl_upperBound (rename f s) (f k)"
    unfolding upperBoundF_def sl_upperBound_def l by (auto simp: e split: option.split)
qed

lemma findNodeF_rename:
  assumes "cmp_order cmp f" "links_ok s" "sl_wf (rename f s)"
  shows "findNodeF cmp s k = doFindNode (rename f s) (f k) True"
proof -
  note l = finders_rename(3) [OF assms(1,2), of k, unfolded sl_lowerBound_def]
  have e: "cmp (skey s a) k = 0 \<longleftrightarrow> skey (rename f s) a = f k" if "a < length (sheap s)" for a
    using that by (simp add: cmp_orderD(1) [OF assms(1)] skey_rename)
  show ?thesis
    using assms(3)
  proof (cases rule: sl_cases [of "rename f s" "f k"])
    case (hit B a A)
    have "a < length (sheap s)" using sl_invD(5) [OF hit(1), of a] by simp
    then show ?thesis using findInsertPoint_hit(2) [OF hit(1,3,2,4)] hit(2) by (simp add: findNodeF_def l e)
  next
    case (miss B A)
    have "a < length (sheap s) \<and> skey (rename f s) a \<noteq> f k" if "a \<in> set A" for a
      using sl_invD(5) [OF miss(1), of a] miss(3) [OF that] that by auto
    then show ?thesis using doFindNode_miss [OF miss] by (auto simp: findNodeF_def l e split: list.split)
  qed
qed

section \<open>The operations on renamed keys\<close>

lemma node_commute:
  "n\<lparr>nkey := x, nval := v\<rparr> = n\<lparr>nval := v, nkey := x\<rparr>" "n\<lparr>nkey := x, nnext := l\<rparr> = n\<lparr>nnext := l, nkey := x\<rparr>"
  by (cases n, simp)+

lemma set_nxt_rename: "set_nxt r i v (rename f s) = map_option (rename f) (set_nxt r i v s)"
  by (cases r) (simp_all add: set_nxt_def rename_def map_update node_commute)

lemma link_node_rename: "link_node a n i ps (rename f s) = map_option (rename f) (link_node a n i ps s)"
proof (induction a n i ps s rule: link_node.induct)
  case (3 a n i p ps s)
  show ?case
  proof (cases "nxt s p i")
    case (Some v)
    note v = Some
    show ?thesis
    proof (cases "set_nxt (Node a) i v s")
      case (Some s1)
      then show ?thesis using v 3 by (cases "set_nxt p i (Some a) s1") (simp_all add: set_nxt_rename)
    qed (simp add: v set_nxt_rename)
  qed simp
qed simp_all

lemma link_head_rename: "link_head a n i (rename f s) = map_option (rename f) (link_head a n i s)"
proof (induction n arbitrary: i s)
  case (Suc n)
  then show ?case by (cases "set_nxt Head i (Some a) s") (simp_all add: set_nxt_rename)
qed simp

lemma unlink_rename: "unlink vs i ps (rename f s) = map_option (rename f) (unlink vs i ps s)"
proof (induction vs i ps s rule: unlink.induct)
  case (3 v vs i p ps s)
  then show ?case by (cases "set_nxt p i v s") (simp_all add: set_nxt_rename)
qed simp_all

lemma insert_at_rename: "insert_at pt rand (f k) v (rename f s) = map_option (rename f) (insert_at pt rand k v s)"
proof (cases "\<exists>prevs. pt = Some (Inr prevs)")
  case False
  have "(rename f s)\<lparr>sheap := (sheap (rename f s))[a := (sheap (rename f s) ! a)\<lparr>nval := v\<rparr>]\<rparr>
      = rename f (s\<lparr>sheap := (sheap s)[a := (sheap s ! a)\<lparr>nval := v\<rparr>]\<rparr>)" for a
    by (cases "a < length (sheap s)") (simp_all add: rename_def map_update list_update_beyond node_commute)
  then show ?thesis using False by (auto simp: insert_at_def split: option.split sum.split)
next
  case True
  then obtain prevs where pt: "pt = Some (Inr prevs)" by blast
  have l: "randomLevel rand (rename f s) = randomLevel rand s" by (simp add: randomLevel_def)
  show ?thesis
  proof (cases "newNode (randomLevel rand s) k v")
    case None
    then have "newNode (randomLevel rand s) (f k) v = None" by (simp add: newNode_def split: if_splits)
    then show ?thesis using None by (simp add: insert_at_def pt l Let_def)
  next
    case (Some n)
    then have n: "newNode (randomLevel rand s) (f k) v = Some (n\<lparr>nkey := f (nkey n)\<rparr>)" by (auto simp: newNode_def split: if_splits)
    let ?lv = "randomLevel rand s" and ?a = "length (sheap s)"
    have e: "(rename f s)\<lparr>sheap := sheap (rename f s) @ [n\<lparr>nkey := f (nkey n)\<rparr>]\<rparr> = rename f (s\<lparr>sheap := sheap s @ [n]\<rparr>)"
      by (simp add: rename_def)
    have c: "(rename f t)\<lparr>slevel := x, slen := y\<rparr> = rename f (t\<lparr>slevel := x, slen := y\<rparr>)" for t :: "'a skiplist" and x y
      by (simp add: rename_def)
    show ?thesis
    proof (cases "link_node ?a (min ?lv (slevel s)) 0 prevs (s\<lparr>sheap := sheap s @ [n]\<rparr>)")
      case None
      then show ?thesis using Some n e by (simp add: insert_at_def pt l Let_def link_node_rename)
    next
      case (Some s1)
      then show ?thesis using \<open>newNode ?lv k v = Some n\<close> n e
        by (cases "link_head ?a (?lv - slevel s) (slevel s) s1") (simp_all add: insert_at_def pt l Let_def link_node_rename link_head_rename c)
    qed
  qed
qed

lemma remove_at_rename:
  assumes "\<And>a ps. pt = Some (Some (a, ps)) \<Longrightarrow> a < length (sheap s)"
  shows "remove_at pt (rename f s) = map_option (map_prod id (rename f)) (remove_at pt s)"
proof (cases "\<exists>a ps. pt = Some (Some (a, ps))")
  case False
  then show ?thesis by (auto simp: remove_at_def split: option.split)
next
  case True
  then obtain a ps where pt: "pt = Some (Some (a, ps))" by blast
  then have n: "nnext (sheap (rename f s) ! a) = nnext (sheap s ! a)" using assms by (simp add: rename_def)
  have c: "(rename f t)\<lparr>slevel := x, slen := y\<rparr> = rename f (t\<lparr>slevel := x, slen := y\<rparr>)" for t :: "'a skiplist" and x y
    by (simp add: rename_def)
  show ?thesis by (cases "unlink (nnext (sheap s ! a)) 0 ps s") (simp_all add: remove_at_def pt n unlink_rename c)
qed

lemma ops_rename:
  assumes "cmp_order cmp f" "links_ok s"
  shows "sl_insert r (f k) v (rename f s) = map_option (rename f) (insertF cmp r k v s)"
    "sl_remove (f k) (rename f s) = map_option (map_prod id (rename f)) (removeF cmp k s)"
  using removePointF_in_heap [OF assms(2)]
  by (simp_all add: sl_insert_at sl_remove_at insertF_def removeF_def insert_at_rename remove_at_rename finders_rename(1,2) [OF assms, symmetric])

section \<open>Runs\<close>

fun runF :: "cmpfn \<Rightarrow> 'v store_op list \<Rightarrow> 'v skiplist \<Rightarrow> 'v skiplist option" where
  "runF cmp [] s = Some s"
| "runF cmp (OpInsert r k v # xs) s = Option.bind (insertF cmp r k v s) (runF cmp xs)"
| "runF cmp (OpRemove k # xs) s = Option.bind (removeF cmp k s) (\<lambda>(_, t). runF cmp xs t)"

fun rename_op :: "(64 word \<Rightarrow> 64 word) \<Rightarrow> 'v store_op \<Rightarrow> 'v store_op" where
  "rename_op f (OpInsert r k v) = OpInsert r (f k) v"
| "rename_op f (OpRemove k) = OpRemove (f k)"

lemma insertF_links: "links_ok s \<Longrightarrow> insertF cmp r k v s = Some t \<Longrightarrow> links_ok t"
  unfolding insertF_def by (erule insert_links)

lemma removeF_links: "links_ok s \<Longrightarrow> removeF cmp k s = Some (b, t) \<Longrightarrow> links_ok t"
  unfolding removeF_def using removePointF_in_heap [of s cmp k] remove_links by blast

lemma runF_rename:
  "cmp_order cmp f \<Longrightarrow> links_ok s \<Longrightarrow>
     sl_run (map (rename_op f) xs) (rename f s) = map_option (rename f) (runF cmp xs s) \<and> (\<forall>t. runF cmp xs s = Some t \<longrightarrow> links_ok t)"
proof (induction cmp xs s rule: runF.induct)
  case (2 cmp r k v xs s)
  show ?case
  proof (cases "insertF cmp r k v s")
    case None
    then show ?thesis using ops_rename(1) [OF 2(2,3)] by simp
  next
    case (Some t)
    then show ?thesis using ops_rename(1) [OF 2(2,3), of r k v] 2(1) [OF Some 2(2) insertF_links [OF 2(3) Some]] by simp
  qed
next
  case (3 cmp k xs s)
  show ?case
  proof (cases "removeF cmp k s")
    case None
    then show ?thesis using ops_rename(2) [OF 3(2,3)] by simp
  next
    case (Some bt)
    then obtain b t where bt: "removeF cmp k s = Some (b, t)" by (cases bt) auto
    then show ?thesis using ops_rename(2) [OF 3(2,3), of k] 3(1) [OF bt refl 3(2) removeF_links [OF 3(3) bt]] by simp
  qed
qed simp

lemma nval_find:
  assumes "cmp_order cmp f" "links_ok s" "sl_wf (rename f s)"
  shows "findF cmp s k = sl_find (rename f s) (f k)" "hasF cmp s k = sl_has (rename f s) (f k)"
proof -
  note n = findNodeF_rename [OF assms, of k]
  have "nval (sheap (rename f s) ! a) = nval (sheap s ! a)" if "doFindNode (rename f s) (f k) True = Some (Some a)" for a
  proof -
    have "a < length (sheap s)"
      using n that finders_rename(3) [OF assms(1,2), of k] doFind_in_heap [of "rename f s"] assms(2)
      by (auto simp: findNodeF_def sl_lowerBound_def doFindNode_def split: option.splits if_splits)
    then show ?thesis by (rule nval_rename)
  qed
  then show "findF cmp s k = sl_find (rename f s) (f k)" "hasF cmp s k = sl_has (rename f s) (f k)"
    by (cases "doFindNode (rename f s) (f k) True"; auto simp: findF_def sl_find_def hasF_def sl_has_def n; cases "the (doFindNode (rename f s) (f k) True)"; simp)+
qed

lemma func_run:
  assumes "cmp_order cmp f" "length xs \<le> 2 ^ 38"
  shows "\<exists>t. runF cmp xs newSkipList = Some t \<and> sl_run (map (rename_op f) xs) newSkipList = Some (rename f t)
    \<and> (\<forall>k. findF cmp t k = Some (fold op_map (map (rename_op f) xs) Map.empty (f k))
          \<and> hasF cmp t k = Some (fold op_map (map (rename_op f) xs) Map.empty (f k) \<noteq> None)
          \<and> lowerBoundF cmp t k = sl_lowerBound (rename f t) (f k) \<and> upperBoundF cmp t k = sl_upperBound (rename f t) (f k))"
proof -
  obtain u where u: "sl_run (map (rename_op f) xs) newSkipList = Some u" "sl_wf u"
    "map_of (sl_ents u) = fold op_map (map (rename_op f) xs) Map.empty"
    using sl_run_new [of "map (rename_op f) xs"] assms(2) by auto
  obtain t where t: "runF cmp xs newSkipList = Some t" "u = rename f t" "links_ok t"
    using runF_rename [OF assms(1) new_links, of xs] u(1) by (cases "runF cmp xs newSkipList") (auto simp: rename_new)
  have w: "sl_wf (rename f t)" using u(2) t(2) by simp
  show ?thesis
    using t(1) u(1,3) t(2) nval_find [OF assms(1) t(3) w] sl_find_ok [OF w] finders_rename(3,4) [OF assms(1) t(3)] by simp
qed

text \<open>C31: For every comparison function that has the order of a renaming \<open>f\<close> of the keys (the identity for the usual order, the complement
  for the reverse one), the list of \<open>NewSkipListFunc\<close> and the ordered list of \<open>NewSkipList\<close> on the renamed keys are the same list after
  every sequence of insertions and removals, whatever the random levels: no search panics or runs forever, both find the same
  entries and bounds, and these are those of a finite map.\<close>

theorem func_list_equivalent:
  assumes "cmp_order cmp f" "length xs \<le> 2 ^ 38"
  shows "\<exists>t. runF cmp xs newSkipList = Some t \<and> sl_run (map (rename_op f) xs) newSkipList = Some (rename f t)
    \<and> (\<forall>k. findF cmp t k = Some (fold op_map (map (rename_op f) xs) Map.empty (f k))
          \<and> hasF cmp t k = Some (fold op_map (map (rename_op f) xs) Map.empty (f k) \<noteq> None)
          \<and> lowerBoundF cmp t k = sl_lowerBound (rename f t) (f k) \<and> upperBoundF cmp t k = sl_upperBound (rename f t) (f k))"
  by (rule func_run [OF assms])

definition reverse_cmp :: cmpfn where
  "reverse_cmp a b = (if a < b then 1 else if b < a then - 1 else 0)"

lemma reverse_order: "cmp_order reverse_cmp (\<lambda>x. - 1 - x)"
proof -
  have u: "unat (- 1 - x) = unat (- 1 :: 64 word) - unat x" "unat x \<le> unat (- 1 :: 64 word)" for x :: "64 word"
    using unat_sub [OF word_order.extremum, of x] word_order.extremum [of x] by (simp_all add: word_le_nat_alt)
  have "- 1 - a < - 1 - b \<longleftrightarrow> b < a" for a b :: "64 word"
    using u(2) [of a] u(2) [of b] by (simp only: word_less_nat_alt u(1)) linarith
  then show ?thesis by (auto simp: cmp_order_def reverse_cmp_def)
qed

theorem func_list_equivalent_witness:
  "\<exists>t. runF reverse_cmp [OpInsert 1 5 ''a'', OpInsert 2 7 ''b'', OpRemove 5] newSkipList = Some t
    \<and> findF reverse_cmp t 7 = Some (Some ''b'') \<and> findF reverse_cmp t 5 = Some None"
  using func_list_equivalent [OF reverse_order, of "[OpInsert 1 5 ''a'', OpInsert 2 7 ''b'', OpRemove 5]"] by fastforce

section \<open>Ranges\<close>

definition first_of :: "nat list \<Rightarrow> nat option" where
  "first_of xs = (case xs of [] \<Rightarrow> None | a # _ \<Rightarrow> Some a)"

lemma lowerBound_node:
  assumes "sl_inv s (B @ A)" "\<And>b. b \<in> set B \<Longrightarrow> skey s b < k" "\<And>b. b \<in> set A \<Longrightarrow> k \<le> skey s b"
  shows "sl_lowerBound s k = Some (first_of A)"
proof (cases "A \<noteq> [] \<and> skey s (hd A) = k")
  case True
  then obtain a A' where A: "A = a # A'" "skey s a = k" by (cases A) auto
  have "k < skey s b" if "b \<in> set A'" for b
    using sl_invD(8) [OF assms(1)] A that by (auto simp: sorted_wrt_append)
  then show ?thesis using findInsertPoint_hit(2) [of s B a A' k False] assms(1,2) A by (simp add: sl_lowerBound_def first_of_def)
next
  case False
  have "k < skey s b" if b: "b \<in> set A" for b
  proof -
    obtain a A' where A: "A = a # A'" using b by (cases A) auto
    then have "k < skey s a" using assms(3) [of a] False by (simp add: less_le)
    moreover have "b = a \<or> skey s a < skey s b" using sl_invD(8) [OF assms(1)] A b by (auto simp: sorted_wrt_append)
    ultimately show ?thesis by auto
  qed
  from doFindNode_miss [OF assms(1,2) this] show ?thesis by (simp add: sl_lowerBound_def first_of_def)
qed

lemma upperBound_node:
  assumes inv: "sl_inv s (B @ A)" and B: "\<And>b. b \<in> set B \<Longrightarrow> skey s b \<le> k" and A: "\<And>b. b \<in> set A \<Longrightarrow> k < skey s b"
  shows "sl_upperBound s k = Some (first_of A)"
proof (cases "B \<noteq> [] \<and> skey s (last B) = k")
  case True
  then obtain B' b where bb: "B = B' @ [b]" "skey s b = k" by (cases B rule: rev_cases) auto
  have lt: "skey s c < k" if "c \<in> set B'" for c using sl_invD(8) [OF inv] bb that by (auto simp: sorted_wrt_append)
  have "sl_lowerBound s k = Some (first_of (b # A))"
    by (rule lowerBound_node [of s B']) (use inv bb lt A in \<open>auto intro: less_imp_le\<close>)
  then show ?thesis using chain_node_next [of s B' b A] inv bb by (simp add: sl_upperBound_def first_of_def)
next
  case False
  have "skey s b < k" if b: "b \<in> set B" for b
  proof -
    obtain B' c where bb: "B = B' @ [c]" using b by (cases B rule: rev_cases) auto
    then have "skey s c < k" using B [of c] False by (simp add: less_le)
    moreover have "b = c \<or> skey s b < skey s c" using sl_invD(8) [OF inv] bb b by (auto simp: sorted_wrt_append)
    ultimately show ?thesis by auto
  qed
  then have "sl_lowerBound s k = Some (first_of A)" by (rule lowerBound_node [OF inv]) (use A in \<open>auto intro: less_imp_le\<close>)
  moreover have "skey s a \<noteq> k" if "first_of A = Some a" for a using A that by (auto simp: first_of_def split: list.splits)
  ultimately show ?thesis by (auto simp: sl_upperBound_def split: option.split)
qed

lemma it_collect_chain:
  "chain s 0 r (M @ Q) \<Longrightarrow> distinct (M @ Q) \<Longrightarrow> it_collect s \<lparr>it_node = first_of (M @ Q), it_end = first_of Q\<rparr> = Some (ents s M)"
proof (induction M arbitrary: r)
  case Nil
  then show ?case by (subst it_collect.simps) (simp add: it_isNotEnd_def ents_def)
next
  case (Cons a M)
  have "nxt s (Node a) 0 = Some (first_of (M @ Q))" using Cons.prems(1) chain_nxt [of s 0 "Node a" "M @ Q"] by (simp add: first_of_def)
  moreover have "first_of Q \<noteq> Some a" using Cons.prems(2) by (auto simp: first_of_def split: list.splits)
  moreover have "it_collect s \<lparr>it_node = first_of (M @ Q), it_end = first_of Q\<rparr> = Some (ents s M)"
    using Cons.IH [of "Node a"] Cons.prems by simp
  ultimately show ?case
    by (subst it_collect.simps) (simp add: it_isNotEnd_def it_key_def it_value_def it_moveToNext_def first_of_def [of "a # _"] ents_Cons)
qed

text \<open>Three parts of a list with increasing keys.\<close>

lemma range_split:
  assumes "sorted_wrt (\<lambda>a b. f a < (f b :: 'k :: linorder)) L" "x \<le> y"
  obtains P M Q where "L = P @ M @ Q" "\<And>a. a \<in> set P \<Longrightarrow> f a < x" "\<And>a. a \<in> set M \<Longrightarrow> x \<le> f a \<and> f a \<le> y" "\<And>a. a \<in> set Q \<Longrightarrow> y < f a"
proof -
  let ?P = "filter (\<lambda>a. f a < x) L" and ?M = "filter (\<lambda>a. x \<le> f a \<and> f a \<le> y) L" and ?Q = "filter (\<lambda>a. y < f a) L"
  have "L = ?P @ ?M @ ?Q"
    using assms(1)
  proof (induction L)
    case (Cons a L)
    have ih: "filter (\<lambda>a. f a < x) L @ filter (\<lambda>a. x \<le> f a \<and> f a \<le> y) L @ filter (\<lambda>a. y < f a) L = L"
      by (rule Cons.IH [symmetric]) (use Cons.prems in simp)
    have gt: "f a < f b" if "b \<in> set L" for b using Cons.prems that by simp
    consider "f a < x" | "x \<le> f a" "f a \<le> y" | "y < f a" by fastforce
    then show ?case
    proof cases
      case 1
      then have "\<not> x \<le> f a" "\<not> y < f a" using assms(2) by auto
      then show ?thesis using ih 1 by simp
    next
      case 2
      then have "filter (\<lambda>a. f a < x) L = []" using gt by (fastforce simp: filter_empty_conv)
      moreover have "\<not> f a < x" "\<not> y < f a" using 2 by auto
      ultimately show ?thesis using ih 2 by simp
    next
      case 3
      then have "filter (\<lambda>a. f a < x) L = []" "filter (\<lambda>a. x \<le> f a \<and> f a \<le> y) L = []"
        using gt assms(2) by (fastforce simp: filter_empty_conv)+
      moreover have "\<not> f a < x" "\<not> f a \<le> y" using 3 assms(2) by auto
      ultimately show ?thesis using ih 3 by simp
    qed
  qed simp
  then show thesis by (rule that) simp_all
qed

lemma findRange_split:
  assumes "sl_wf s" "first \<le> lst"
  shows "Option.bind (findRange s first lst) (it_collect s) = Some (filter (\<lambda>e. first \<le> fst e \<and> fst e \<le> lst) (sl_ents s))"
proof -
  obtain L where L: "sl_inv s L" using assms(1) by (auto simp: sl_wf_def)
  obtain P M Q where pmq: "L = P @ M @ Q" "\<And>a. a \<in> set P \<Longrightarrow> skey s a < first" "\<And>a. a \<in> set M \<Longrightarrow> first \<le> skey s a \<and> skey s a \<le> lst"
    "\<And>a. a \<in> set Q \<Longrightarrow> lst < skey s a"
    using range_split [OF sl_invD(8) [OF L] assms(2)] by blast
  have i1: "sl_inv s (P @ (M @ Q))" and i2: "sl_inv s ((P @ M) @ Q)" using L pmq(1) by simp_all
  have "sl_lowerBound s first = Some (first_of (M @ Q))"
    by (rule lowerBound_node [OF i1 pmq(2)]) (use pmq(3,4) assms(2) in fastforce)+
  moreover have "sl_upperBound s lst = Some (first_of Q)"
    by (rule upperBound_node [OF i2 _ pmq(4)]) (use pmq(2,3) assms(2) in fastforce)+
  moreover have "chain s 0 (lastref Head P) (M @ Q)"
    using sl_invD(9) [OF L, of 0] above_0 [OF L, of L] chain_suffix [of s 0 Head P "M @ Q"] pmq(1) by (simp add: skipListMaxLevel_def)
  then have "it_collect s \<lparr>it_node = first_of (M @ Q), it_end = first_of Q\<rparr> = Some (ents s M)"
    by (rule it_collect_chain) (use sl_inv_distinct [OF L] pmq(1) in simp)
  moreover have "filter (\<lambda>e. first \<le> fst e \<and> fst e \<le> lst) (ents s L) = ents s M"
  proof -
    have "filter (\<lambda>a. first \<le> skey s a \<and> skey s a \<le> lst) P = []" using pmq(2) by (auto simp: filter_empty_conv not_le)
    moreover have "filter (\<lambda>a. first \<le> skey s a \<and> skey s a \<le> lst) Q = []" using pmq(4) by (auto simp: filter_empty_conv not_le)
    moreover have "filter (\<lambda>a. first \<le> skey s a \<and> skey s a \<le> lst) M = M" using pmq(3) by (auto simp: filter_id_conv)
    ultimately show ?thesis by (simp add: filter_ents [of "\<lambda>k. first \<le> k \<and> k \<le> lst"] pmq(1))
  qed
  ultimately show ?thesis by (simp add: findRange_def sl_ents_inv [OF L])
qed

text \<open>A loop over \<open>FindRange(first, last)\<close> ends and meets the entries with keys from \<open>first\<close> to \<open>last\<close>, in order: the last key is
  one of them, although the comment on the function says that it is not included.\<close>

theorem findRange_includes_last:
  assumes "length xs \<le> 2 ^ 38" "first \<le> lst"
  shows "\<exists>t. sl_run xs newSkipList = Some t
    \<and> Option.bind (findRange t first lst) (it_collect t) = Some (filter (\<lambda>e. first \<le> fst e \<and> fst e \<le> lst) (sl_ents t))
    \<and> map_of (sl_ents t) = fold op_map xs Map.empty \<and> increasing (sl_ents t)"
  using sl_run_new [OF assms(1)] findRange_split [OF _ assms(2)] sl_inc by blast

theorem findRange_includes_last_witness:
  "\<exists>t es. sl_run [OpInsert 1 5 ''a'', OpInsert 2 7 ''b'', OpInsert 3 9 ''c''] newSkipList = Some t
    \<and> Option.bind (findRange t 5 7) (it_collect t) = Some es \<and> map_of es 7 = Some ''b''"
proof -
  let ?xs = "[OpInsert 1 5 ''a'', OpInsert 2 7 ''b'', OpInsert 3 9 ''c''] :: char list store_op list"
  obtain t where t: "sl_run ?xs newSkipList = Some t"
    "Option.bind (findRange t 5 7) (it_collect t) = Some (filter (\<lambda>e. 5 \<le> fst e \<and> fst e \<le> 7) (sl_ents t))"
    "map_of (sl_ents t) = fold op_map ?xs Map.empty"
    using findRange_includes_last [of ?xs 5 7] by auto
  have "map_of (filter (\<lambda>e. 5 \<le> fst e \<and> fst e \<le> 7) (sl_ents t)) 7 = Some ''b''"
    using map_of_filter_key [of "\<lambda>k. 5 \<le> k \<and> k \<le> 7" "sl_ents t" 7] t(3) by simp
  then show ?thesis using t(1,2) by blast
qed

section \<open>ForEachIf and NewSkipListFromMap\<close>

fun call_until :: "(64 word \<Rightarrow> 'v \<Rightarrow> bool) \<Rightarrow> (64 word \<times> 'v) list \<Rightarrow> (64 word \<times> 'v) list" where
  "call_until op [] = []"
| "call_until op ((k, v) # es) = (k, v) # (if op k v then call_until op es else [])"

lemma forEachIf_chain: "chain s 0 (Node a) xs \<Longrightarrow> forEachIf_from s op (Some a) = Some (call_until op (ents s (a # xs)))"
proof (induction xs arbitrary: a)
  case Nil
  then show ?case by (subst forEachIf_from.simps) (simp add: ents_def forEachIf_from.simps [of s op None])
next
  case (Cons b xs)
  then show ?case by (subst forEachIf_from.simps) (simp add: ents_Cons)
qed

text \<open>The loop of \<open>ForEachIf\<close> meets the entries in order up to the first one that its function returns false for.\<close>

lemma forEachIf_ok: "sl_wf s \<Longrightarrow> forEachIf s op = Some (call_until op (sl_ents s))"
proof -
  assume "sl_wf s"
  then obtain L where L: "sl_inv s L" by (auto simp: sl_wf_def)
  have c: "chain s 0 Head L" using sl_invD(9) [OF L, of 0] above_0 [OF L, of L] by (simp add: skipListMaxLevel_def)
  show ?thesis
  proof (cases L)
    case Nil
    then show ?thesis using c by (simp add: forEachIf_def sl_ents_inv [OF L] ents_def forEachIf_from.simps)
  next
    case (Cons a xs)
    then show ?thesis using c forEachIf_chain [of s a xs op] by (simp add: forEachIf_def sl_ents_inv [OF L])
  qed
qed

lemma newSkipListFromMap_run: "newSkipListFromMap es = sl_run (map (\<lambda>(r, k, v). OpInsert r k v) es) newSkipList"
proof -
  have none: "fold (\<lambda>(r, k, v) s. Option.bind s (sl_insert r k v)) es None = None" for es :: "(64 word \<times> 64 word \<times> 'a) list"
    by (induction es) auto
  have "fold (\<lambda>(r, k, v) s. Option.bind s (sl_insert r k v)) es (Some s) = sl_run (map (\<lambda>(r, k, v). OpInsert r k v) es) s" for s
  proof (induction es arbitrary: s)
    case (Cons e es)
    obtain r k v where "e = (r, k, v)" by (cases e) auto
    then show ?case using Cons none by (cases "sl_insert r k v s") simp_all
  qed simp
  then show ?thesis by (simp add: newSkipListFromMap_def)
qed

text \<open>The list made from a map finds the entries of the map, in whatever order its iteration is.\<close>

lemma newSkipListFromMap_find:
  assumes "length es \<le> 2 ^ 38" "distinct (map (\<lambda>(r, k, v). k) es)"
  shows "\<exists>t. newSkipListFromMap es = Some t \<and> (\<forall>k. sl_find t k = Some (map_of (map snd es) k))"
proof -
  have "fold op_map (map (\<lambda>(r, k, v). OpInsert r k v) es) m = m ++ map_of (map snd es)" for m
    using assms(2)
  proof (induction es arbitrary: m)
    case (Cons e es)
    obtain r k v where e: "e = (r, k, v)" by (cases e) auto
    have "k \<notin> dom (map_of (map snd es))" using Cons.prems unfolding e by (auto simp: dom_map_of_conv_image_fst split_beta image_image)
    then have "m(k \<mapsto> v) ++ map_of (map snd es) = m ++ (map_of (map snd es))(k \<mapsto> v)"
      by (auto simp: map_add_def fun_eq_iff dom_def split: option.split)
    moreover have "m ++ map_of (map snd (e # es)) = (m ++ map_of (map snd es))(k \<mapsto> v)"
      by (simp only: e list.map map_of.simps snd_conv fst_conv map_add_upd)
    moreover have "fold op_map (map (\<lambda>(r, k, v). OpInsert r k v) es) (m(k \<mapsto> v)) = m(k \<mapsto> v) ++ map_of (map snd es)"
      by (rule Cons.IH) (use Cons.prems in simp)
    ultimately show ?case by (simp only: e list.map fold.simps o_apply prod.case op_map.simps map_add_upd)
  qed simp
  then show ?thesis
    using sl_run_new [of "map (\<lambda>(r, k, v). OpInsert r k v) es"] assms(1) sl_find_ok by (fastforce simp: newSkipListFromMap_run)
qed

end
