(* ===== verification/Relay.thy ===== *)
theory Relay
  imports Prelude "HOL-Library.Sublist"
begin

text \<open>
  \<open>transport/common/bufio/relay.go\<close>: \<open>Relay\<close>, which couples the two connections of a tunnel, as a step relation. A copier, named by the
  connection it reads, is the loop of \<open>io.Copy\<close>: it reads at most 32 KiB, writes them, and ends with the end of the data or an error.
  When a copier has ended it makes the reads of the other one time out; \<open>Relay\<close> returns when both have ended. The peers send data
  and end their side of a connection whenever they like. A write succeeds, or fails after a part of the data. The wrapper that
  records a connection in files is at the end.
\<close>

section \<open>The model\<close>

datatype side = LeftS | RightS

fun other :: "side \<Rightarrow> side" where
  "other LeftS = RightS" | "other RightS = LeftS"

datatype phase = Reading | Writing bytes | Ended "gerr option"

text \<open>\<open>rl_arrived\<close> is all that the peer sent, of which \<open>rl_inp\<close> has not been read; \<open>rl_end\<close> tells how its side ended, with \<open>None\<close> for the
  end of the data. \<open>rl_out\<close> is what was written to a connection, \<open>rl_dead\<close> whether its read deadline has passed, \<open>rl_signalled\<close> whether a
  copier has set the deadline of the other one, and \<open>rl_done\<close> the argument of \<open>deferCall\<close> once \<open>Relay\<close> has closed both connections.\<close>

record relay_state =
  rl_arrived :: "side \<Rightarrow> bytes"
  rl_inp :: "side \<Rightarrow> bytes"
  rl_end :: "side \<Rightarrow> gerr option option"
  rl_out :: "side \<Rightarrow> bytes"
  rl_dead :: "side \<Rightarrow> bool"
  rl_phase :: "side \<Rightarrow> phase"
  rl_signalled :: "side \<Rightarrow> bool"
  rl_done :: "gerr option option"

definition relay_start :: relay_state where
  "relay_start = \<lparr>rl_arrived = (\<lambda>_. []), rl_inp = (\<lambda>_. []), rl_end = (\<lambda>_. None), rl_out = (\<lambda>_. []), rl_dead = (\<lambda>_. False),
     rl_phase = (\<lambda>_. Reading), rl_signalled = (\<lambda>_. False), rl_done = None\<rparr>"

definition copy_buffer :: nat where "copy_buffer = 32 * 1024"

definition copy_err :: "phase \<Rightarrow> gerr option" where
  "copy_err p = (case p of Ended e \<Rightarrow> e | _ \<Rightarrow> None)"

datatype relay_ev = Arrive side bytes | Finish side "gerr option" | ReadSome side nat | ReadEnd side | ReadTimeout side
  | WriteAll side | WriteFail side nat gerr | Signal side | Return

inductive relay_step :: "relay_state \<Rightarrow> relay_ev \<Rightarrow> relay_state \<Rightarrow> bool" where
  arrive: "rl_end s c = None \<Longrightarrow>
    relay_step s (Arrive c b) (s\<lparr>rl_arrived := (rl_arrived s)(c := rl_arrived s c @ b), rl_inp := (rl_inp s)(c := rl_inp s c @ b)\<rparr>)"
| finish: "rl_end s c = None \<Longrightarrow> relay_step s (Finish c e) (s\<lparr>rl_end := (rl_end s)(c := Some e)\<rparr>)"
| read: "rl_phase s c = Reading \<Longrightarrow> \<not> rl_dead s c \<Longrightarrow> 1 \<le> n \<Longrightarrow> n \<le> length (rl_inp s c) \<Longrightarrow> n \<le> copy_buffer \<Longrightarrow>
    relay_step s (ReadSome c n) (s\<lparr>rl_phase := (rl_phase s)(c := Writing (take n (rl_inp s c))), rl_inp := (rl_inp s)(c := drop n (rl_inp s c))\<rparr>)"
| ended: "rl_phase s c = Reading \<Longrightarrow> \<not> rl_dead s c \<Longrightarrow> rl_inp s c = [] \<Longrightarrow> rl_end s c = Some e \<Longrightarrow>
    relay_step s (ReadEnd c) (s\<lparr>rl_phase := (rl_phase s)(c := Ended e)\<rparr>)"
| timeout: "rl_phase s c = Reading \<Longrightarrow> rl_dead s c \<Longrightarrow>
    relay_step s (ReadTimeout c) (s\<lparr>rl_phase := (rl_phase s)(c := Ended (Some DeadlineExceeded))\<rparr>)"
| wrote: "rl_phase s c = Writing b \<Longrightarrow>
    relay_step s (WriteAll c) (s\<lparr>rl_out := (rl_out s)(other c := rl_out s (other c) @ b), rl_phase := (rl_phase s)(c := Reading)\<rparr>)"
| wfail: "rl_phase s c = Writing b \<Longrightarrow> k < length b \<Longrightarrow>
    relay_step s (WriteFail c k e) (s\<lparr>rl_out := (rl_out s)(other c := rl_out s (other c) @ take k b), rl_phase := (rl_phase s)(c := Ended (Some e))\<rparr>)"
| signal: "rl_phase s c = Ended e \<Longrightarrow> \<not> rl_signalled s c \<Longrightarrow>
    relay_step s (Signal c) (s\<lparr>rl_dead := (rl_dead s)(other c := True), rl_signalled := (rl_signalled s)(c := True)\<rparr>)"
| return: "rl_signalled s LeftS \<Longrightarrow> rl_signalled s RightS \<Longrightarrow> rl_done s = None \<Longrightarrow>
    relay_step s Return (s\<lparr>rl_done := Some (copy_err (rl_phase s RightS))\<rparr>)"

inductive_cases relay_stepE: "relay_step s e t"

inductive rrun :: "relay_ev list \<Rightarrow> relay_state \<Rightarrow> bool" where
  rrun_init: "rrun [] relay_start"
| rrun_step: "rrun es s \<Longrightarrow> relay_step s e t \<Longrightarrow> rrun (es @ [e]) t"

text \<open>The steps of the program, as opposed to those of the peers.\<close>

fun own :: "relay_ev \<Rightarrow> bool" where
  "own (Arrive c b) = False" | "own (Finish c e) = False" | "own _ = True"

section \<open>The invariant\<close>

definition copier_inv :: "relay_state \<Rightarrow> side \<Rightarrow> bool" where
  "copier_inv s c \<longleftrightarrow>
     (case rl_phase s c of
        Reading \<Rightarrow> rl_arrived s c = rl_out s (other c) @ rl_inp s c
      | Writing b \<Rightarrow> rl_arrived s c = rl_out s (other c) @ b @ rl_inp s c
      | Ended None \<Rightarrow> rl_arrived s c = rl_out s (other c) \<and> rl_end s c = Some None
      | Ended (Some e) \<Rightarrow> prefix (rl_out s (other c)) (rl_arrived s c))
     \<and> (rl_signalled s c \<longrightarrow> (\<exists>e. rl_phase s c = Ended e) \<and> rl_dead s (other c))
     \<and> (rl_dead s (other c) \<longrightarrow> rl_signalled s c)"

definition relay_inv :: "relay_state \<Rightarrow> bool" where
  "relay_inv s \<longleftrightarrow> (\<forall>c. copier_inv s c)
     \<and> (\<forall>e. rl_done s = Some e \<longrightarrow> rl_signalled s LeftS \<and> rl_signalled s RightS \<and> rl_phase s RightS = Ended e)"

lemma other_other [simp]: "other (other c) = c" "other c \<noteq> c" "c \<noteq> other c"
  by (cases c; simp)+

lemma all_side: "(\<forall>c. P c) \<longleftrightarrow> P LeftS \<and> P RightS"
  by (metis side.exhaust)

lemma other_eq [simp]: "other c = other d \<longleftrightarrow> c = d"
  by (cases c; cases d; simp)

lemma step_copier: "relay_step s e t \<Longrightarrow> \<forall>c. copier_inv s c \<Longrightarrow> copier_inv t d"
proof (induction rule: relay_step.induct)
  case (arrive s c b)
  have "copier_inv s d" using arrive(2) by blast
  then show ?case using arrive(1) by (auto simp: copier_inv_def prefix_def split: phase.splits option.splits)
next
  case (finish s c e)
  have "copier_inv s d" using finish(2) by blast
  then show ?case using finish(1) by (auto simp: copier_inv_def split: phase.splits option.splits)
next
  case (read s c n)
  have "copier_inv s d" using read(6) by blast
  then show ?case using read(1-5) by (auto simp: copier_inv_def split: phase.splits option.splits)
next
  case (ended s c e)
  have "copier_inv s d" using ended(5) by blast
  then show ?case using ended(1-4) by (auto simp: copier_inv_def split: phase.splits option.splits)
next
  case (timeout s c)
  have "copier_inv s d" using timeout(3) by blast
  then show ?case using timeout(1,2) by (auto simp: copier_inv_def split: phase.splits option.splits)
next
  case (wrote s c b)
  have "copier_inv s d" using wrote(2) by blast
  then show ?case using wrote(1) by (auto simp: copier_inv_def split: phase.splits option.splits)
next
  case (wfail s c b k e)
  have "copier_inv s d" using wfail(3) by blast
  moreover have "prefix (take k b) (b @ rl_inp s c)" using take_is_prefix [of k b] by (rule prefix_prefix)
  ultimately show ?case using wfail(1) by (auto simp: copier_inv_def split: phase.splits option.splits)
next
  case (signal s c e)
  have "copier_inv s d" using signal(3) by blast
  then show ?case using signal(1,2) by (auto simp: copier_inv_def split: phase.splits option.splits)
next
  case (return s)
  have "copier_inv s d" using return(4) by blast
  then show ?case by (auto simp: copier_inv_def split: phase.splits option.splits)
qed

lemma signalled_ended: "copier_inv s c \<Longrightarrow> rl_signalled s c \<Longrightarrow> \<exists>e. rl_phase s c = Ended e"
  by (simp add: copier_inv_def)

lemma step_done:
  assumes "relay_step s e t" "relay_inv s" "rl_done t = Some r"
  shows "rl_signalled t LeftS \<and> rl_signalled t RightS \<and> rl_phase t RightS = Ended r"
proof -
  have c: "copier_inv s c" for c using assms(2) by (simp add: relay_inv_def)
  have d: "rl_done s = Some r' \<Longrightarrow> rl_signalled s LeftS \<and> rl_signalled s RightS \<and> rl_phase s RightS = Ended r'" for r'
    using assms(2) by (simp add: relay_inv_def)
  show ?thesis using assms(1,3) d [of r] signalled_ended [OF c, of RightS]
    by (cases rule: relay_step.cases) (auto simp: copy_err_def split: if_splits)
qed

lemma relay_start_inv: "relay_inv relay_start"
  by (simp add: relay_inv_def relay_start_def copier_inv_def)

lemma relay_run_inv: "rrun es s \<Longrightarrow> relay_inv s"
proof (induction rule: rrun.induct)
  case (rrun_step es s e t)
  have "copier_inv t c" for c using step_copier [OF rrun_step(2), of c] rrun_step(3) by (simp add: relay_inv_def)
  then show ?case using step_done [OF rrun_step(2,3)] by (simp add: relay_inv_def)
qed (rule relay_start_inv)

section \<open>Order and end\<close>

lemma copier_prefix: "copier_inv s c \<Longrightarrow> prefix (rl_out s (other c)) (rl_arrived s c)"
  by (auto simp: copier_inv_def split: phase.splits option.splits)

text \<open>C21: In every interleaving of the copiers, the peers, the time-outs and the failures, what was written to one connection is a
  prefix of what the other peer sent; it is all of it when the copier ended without an error, which it only does when that peer has
  ended its side. The error given to \<open>deferCall\<close> is the one of the copier that reads from the right.\<close>

theorem relay_in_order:
  assumes "rrun es s"
  shows "prefix (rl_out s (other c)) (rl_arrived s c)
    \<and> (rl_phase s c = Ended None \<longrightarrow> rl_out s (other c) = rl_arrived s c \<and> rl_end s c = Some None)
    \<and> (\<forall>e. rl_done s = Some e \<longrightarrow> rl_phase s RightS = Ended e)"
proof -
  have "copier_inv s c" using relay_run_inv [OF assms] by (simp add: relay_inv_def)
  then show ?thesis using relay_run_inv [OF assms] copier_prefix [of s c] by (auto simp: relay_inv_def copier_inv_def [of s c])
qed

text \<open>Every step of the program uses something up.\<close>

definition phase_weight :: "phase \<Rightarrow> nat" where
  "phase_weight p = (case p of Reading \<Rightarrow> 1 | Writing _ \<Rightarrow> 2 | Ended _ \<Rightarrow> 0)"

definition side_weight :: "relay_state \<Rightarrow> side \<Rightarrow> nat" where
  "side_weight s c = 2 * length (rl_inp s c) + phase_weight (rl_phase s c) + (if rl_signalled s c then 0 else 1)"

definition relay_measure :: "relay_state \<Rightarrow> nat" where
  "relay_measure s = side_weight s LeftS + side_weight s RightS + (if rl_done s = None then 1 else 0)"

lemma side_weight_other: "relay_measure s = side_weight s c + side_weight s (other c) + (if rl_done s = None then 1 else 0)"
  by (cases c) (simp_all add: relay_measure_def)

lemma own_decreases: "relay_step s e t \<Longrightarrow> own e \<Longrightarrow> relay_measure t < relay_measure s"
proof (induction rule: relay_step.induct)
  case (read s c n)
  then show ?case unfolding side_weight_other [of _ c] by (simp add: side_weight_def phase_weight_def)
next
  case (ended s c e)
  then show ?case unfolding side_weight_other [of _ c] by (simp add: side_weight_def phase_weight_def)
next
  case (timeout s c)
  then show ?case unfolding side_weight_other [of _ c] by (simp add: side_weight_def phase_weight_def)
next
  case (wrote s c b)
  then show ?case unfolding side_weight_other [of _ c] by (simp add: side_weight_def phase_weight_def)
next
  case (wfail s c b k e)
  then show ?case unfolding side_weight_other [of _ c] by (simp add: side_weight_def phase_weight_def)
next
  case (signal s c e)
  then show ?case unfolding side_weight_other [of _ c] by (simp add: side_weight_def phase_weight_def)
next
  case (return s)
  then show ?case by (simp add: relay_measure_def side_weight_def)
qed simp_all

lemma ended_progress:
  assumes "relay_inv s" "rl_phase s c = Ended e" "rl_done s = None"
  shows "\<exists>e t. own e \<and> relay_step s e t"
proof -
  have ic: "copier_inv s c" using assms(1) by (simp add: relay_inv_def)
  show ?thesis
  proof (cases "rl_signalled s c")
    case False
    have "own (Signal c)" by simp
    with relay_step.signal [OF assms(2) False] show ?thesis by blast
  next
    case True
    then have dead: "rl_dead s (other c)" using ic by (simp add: copier_inv_def)
    show ?thesis
    proof (cases "rl_phase s (other c)")
      case Reading
      have "own (ReadTimeout (other c))" by simp
      with relay_step.timeout [OF Reading dead] show ?thesis by blast
    next
      case (Writing b)
      have "own (WriteAll (other c))" by simp
      with relay_step.wrote [OF Writing] show ?thesis by blast
    next
      case (Ended e')
      show ?thesis
      proof (cases "rl_signalled s (other c)")
        case False
        have "own (Signal (other c))" by simp
        with relay_step.signal [OF Ended False] show ?thesis by blast
      next
        case True
        then have "rl_signalled s LeftS" "rl_signalled s RightS" using \<open>rl_signalled s c\<close> by (cases c; simp)+
        moreover have "own Return" by simp
        ultimately show ?thesis using relay_step.return [OF _ _ assms(3)] by blast
      qed
    qed
  qed
qed

text \<open>C22: Once one direction has ended, \<open>Relay\<close> is never stuck before it has returned, and between two events of the peers it can only do
  finitely many steps: it returns, provided that writes do.\<close>

theorem relay_returns:
  assumes "rrun es s" "rl_phase s c = Ended e"
  shows "(rl_done s = None \<longrightarrow> (\<exists>e t. own e \<and> relay_step s e t)) \<and> (\<forall>e t. own e \<and> relay_step s e t \<longrightarrow> relay_measure t < relay_measure s)"
  using ended_progress [OF relay_run_inv [OF assms(1)] assms(2)] own_decreases by blast

section \<open>Half-closed connections\<close>

text \<open>A peer that ends its side after its request does not get the answer: the end of the one direction makes the reads of the other
  one time out.\<close>

definition half_close_events :: "bytes \<Rightarrow> bytes \<Rightarrow> relay_ev list" where
  "half_close_events req ans =
     [Arrive LeftS req, Finish LeftS None, ReadSome LeftS (length req), WriteAll LeftS, ReadEnd LeftS, Signal LeftS,
      Arrive RightS ans, ReadTimeout RightS, Signal RightS, Return]"

lemma rstep_to: "relay_step s e t \<Longrightarrow> t = u \<Longrightarrow> relay_step s e u"
  by simp

lemma fun_side_eq: "f = g \<longleftrightarrow> f LeftS = g LeftS \<and> f RightS = g RightS"
  by (auto simp: fun_eq_iff) (metis side.exhaust)

lemma half_close_loses:
  assumes "req \<noteq> []" "length req \<le> copy_buffer"
  shows "\<exists>s. rrun (half_close_events req ans) s \<and> rl_out s RightS = req \<and> rl_arrived s RightS = ans \<and> rl_out s LeftS = []
    \<and> rl_done s = Some (Some DeadlineExceeded) \<and> rl_phase s LeftS = Ended None"
proof -
  define s1 where "s1 = \<lparr>rl_arrived = (\<lambda>_. [])(LeftS := req), rl_inp = (\<lambda>_. [])(LeftS := req), rl_end = (\<lambda>_. None), rl_out = (\<lambda>_. []),
      rl_dead = (\<lambda>_. False), rl_phase = (\<lambda>_. Reading), rl_signalled = (\<lambda>_. False), rl_done = None\<rparr>"
  define s2 where "s2 = \<lparr>rl_arrived = (\<lambda>_. [])(LeftS := req), rl_inp = (\<lambda>_. [])(LeftS := req), rl_end = (\<lambda>_. None)(LeftS := Some None), rl_out = (\<lambda>_. []),
      rl_dead = (\<lambda>_. False), rl_phase = (\<lambda>_. Reading), rl_signalled = (\<lambda>_. False), rl_done = None\<rparr>"
  define s3 where "s3 = \<lparr>rl_arrived = (\<lambda>_. [])(LeftS := req), rl_inp = (\<lambda>_. []), rl_end = (\<lambda>_. None)(LeftS := Some None), rl_out = (\<lambda>_. []),
      rl_dead = (\<lambda>_. False), rl_phase = (\<lambda>_. Reading)(LeftS := Writing req), rl_signalled = (\<lambda>_. False), rl_done = None\<rparr>"
  define s4 where "s4 = \<lparr>rl_arrived = (\<lambda>_. [])(LeftS := req), rl_inp = (\<lambda>_. []), rl_end = (\<lambda>_. None)(LeftS := Some None), rl_out = (\<lambda>_. [])(RightS := req),
      rl_dead = (\<lambda>_. False), rl_phase = (\<lambda>_. Reading), rl_signalled = (\<lambda>_. False), rl_done = None\<rparr>"
  define s5 where "s5 = \<lparr>rl_arrived = (\<lambda>_. [])(LeftS := req), rl_inp = (\<lambda>_. []), rl_end = (\<lambda>_. None)(LeftS := Some None), rl_out = (\<lambda>_. [])(RightS := req),
      rl_dead = (\<lambda>_. False), rl_phase = (\<lambda>_. Reading)(LeftS := Ended None), rl_signalled = (\<lambda>_. False), rl_done = None\<rparr>"
  define s6 where "s6 = \<lparr>rl_arrived = (\<lambda>_. [])(LeftS := req), rl_inp = (\<lambda>_. []), rl_end = (\<lambda>_. None)(LeftS := Some None), rl_out = (\<lambda>_. [])(RightS := req),
      rl_dead = (\<lambda>_. False)(RightS := True), rl_phase = (\<lambda>_. Reading)(LeftS := Ended None), rl_signalled = (\<lambda>_. False)(LeftS := True), rl_done = None\<rparr>"
  define s7 where "s7 = \<lparr>rl_arrived = (\<lambda>_. [])(LeftS := req, RightS := ans), rl_inp = (\<lambda>_. [])(RightS := ans), rl_end = (\<lambda>_. None)(LeftS := Some None), rl_out = (\<lambda>_. [])(RightS := req),
      rl_dead = (\<lambda>_. False)(RightS := True), rl_phase = (\<lambda>_. Reading)(LeftS := Ended None), rl_signalled = (\<lambda>_. False)(LeftS := True), rl_done = None\<rparr>"
  define s8 where "s8 = \<lparr>rl_arrived = (\<lambda>_. [])(LeftS := req, RightS := ans), rl_inp = (\<lambda>_. [])(RightS := ans), rl_end = (\<lambda>_. None)(LeftS := Some None), rl_out = (\<lambda>_. [])(RightS := req),
      rl_dead = (\<lambda>_. False)(RightS := True), rl_phase = (\<lambda>_. Reading)(LeftS := Ended None, RightS := Ended (Some DeadlineExceeded)), rl_signalled = (\<lambda>_. False)(LeftS := True), rl_done = None\<rparr>"
  define s9 where "s9 = \<lparr>rl_arrived = (\<lambda>_. [])(LeftS := req, RightS := ans), rl_inp = (\<lambda>_. [])(RightS := ans), rl_end = (\<lambda>_. None)(LeftS := Some None), rl_out = (\<lambda>_. [])(RightS := req),
      rl_dead = (\<lambda>_. True), rl_phase = (\<lambda>_. Reading)(LeftS := Ended None, RightS := Ended (Some DeadlineExceeded)), rl_signalled = (\<lambda>_. True), rl_done = None\<rparr>"
  define s10 where "s10 = \<lparr>rl_arrived = (\<lambda>_. [])(LeftS := req, RightS := ans), rl_inp = (\<lambda>_. [])(RightS := ans), rl_end = (\<lambda>_. None)(LeftS := Some None), rl_out = (\<lambda>_. [])(RightS := req),
      rl_dead = (\<lambda>_. True), rl_phase = (\<lambda>_. Reading)(LeftS := Ended None, RightS := Ended (Some DeadlineExceeded)), rl_signalled = (\<lambda>_. True), rl_done = Some (Some DeadlineExceeded)\<rparr>"
  have st1: "relay_step relay_start (Arrive LeftS req) s1"
    by (rule rstep_to, rule relay_step.arrive) (use assms in \<open>simp_all add: relay_start_def s1_def fun_side_eq Suc_le_eq copy_err_def\<close>)
  have st2: "relay_step s1 (Finish LeftS None) s2"
    by (rule rstep_to, rule relay_step.finish) (use assms in \<open>simp_all add: s1_def s2_def fun_side_eq Suc_le_eq copy_err_def\<close>)
  have st3: "relay_step s2 (ReadSome LeftS (length req)) s3"
    by (rule rstep_to, rule relay_step.read [where n = "length req"]) (use assms in \<open>simp_all add: s2_def s3_def fun_side_eq Suc_le_eq copy_err_def\<close>)
  have st4: "relay_step s3 (WriteAll LeftS) s4"
    by (rule rstep_to, rule relay_step.wrote) (use assms in \<open>simp_all add: s3_def s4_def fun_side_eq Suc_le_eq copy_err_def\<close>)
  have st5: "relay_step s4 (ReadEnd LeftS) s5"
    by (rule rstep_to, rule relay_step.ended) (use assms in \<open>simp_all add: s4_def s5_def fun_side_eq Suc_le_eq copy_err_def\<close>)
  have st6: "relay_step s5 (Signal LeftS) s6"
    by (rule rstep_to, rule relay_step.signal) (use assms in \<open>simp_all add: s5_def s6_def fun_side_eq Suc_le_eq copy_err_def\<close>)
  have st7: "relay_step s6 (Arrive RightS ans) s7"
    by (rule rstep_to, rule relay_step.arrive) (use assms in \<open>simp_all add: s6_def s7_def fun_side_eq Suc_le_eq copy_err_def\<close>)
  have st8: "relay_step s7 (ReadTimeout RightS) s8"
    by (rule rstep_to, rule relay_step.timeout) (use assms in \<open>simp_all add: s7_def s8_def fun_side_eq Suc_le_eq copy_err_def\<close>)
  have st9: "relay_step s8 (Signal RightS) s9"
    by (rule rstep_to, rule relay_step.signal) (use assms in \<open>simp_all add: s8_def s9_def fun_side_eq Suc_le_eq copy_err_def\<close>)
  have st10: "relay_step s9 (Return) s10"
    by (rule rstep_to, rule relay_step.return) (use assms in \<open>simp_all add: s9_def s10_def fun_side_eq Suc_le_eq copy_err_def\<close>)
  from rrun_step [OF rrun_step [OF rrun_step [OF rrun_step [OF rrun_step [OF rrun_step [OF rrun_step [OF rrun_step [OF rrun_step [OF rrun_step [OF rrun_init st1] st2] st3] st4] st5] st6] st7] st8] st9] st10]
  have "rrun (half_close_events req ans) s10" by (simp add: half_close_events_def)
  then show ?thesis by (intro exI [of _ s10]) (simp add: s10_def)
qed

theorem relay_in_order_witness:
  "\<exists>s. rrun (half_close_events [1] [2]) s \<and> prefix (rl_out s RightS) (rl_arrived s LeftS) \<and> rl_out s RightS = rl_arrived s LeftS"
proof -
  obtain s where s: "rrun (half_close_events [1] [2]) s" "rl_phase s LeftS = Ended None"
    using half_close_loses [of "[1]" "[2]"] by (auto simp: copy_buffer_def)
  from relay_in_order [OF s(1), of LeftS] s show ?thesis by auto
qed

definition one_ended :: relay_state where
  "one_ended = relay_start\<lparr>rl_end := (rl_end relay_start)(LeftS := Some None), rl_phase := (rl_phase relay_start)(LeftS := Ended None)\<rparr>"

lemma one_ended_run: "rrun [Finish LeftS None, ReadEnd LeftS] one_ended"
proof -
  have 1: "relay_step relay_start (Finish LeftS None) (relay_start\<lparr>rl_end := (rl_end relay_start)(LeftS := Some None)\<rparr>)"
    by (rule relay_step.finish) (simp add: relay_start_def)
  have 2: "relay_step (relay_start\<lparr>rl_end := (rl_end relay_start)(LeftS := Some None)\<rparr>) (ReadEnd LeftS) one_ended"
    by (rule rstep_to, rule relay_step.ended [where e = None]) (simp_all add: relay_start_def one_ended_def)
  from rrun_step [OF rrun_step [OF rrun_init 1] 2] show ?thesis by simp
qed

theorem relay_returns_witness:
  "\<exists>e t. own e \<and> relay_step one_ended e t \<and> relay_measure t < relay_measure one_ended"
  using relay_returns [OF one_ended_run, of LeftS None] by (auto simp: one_ended_def relay_start_def)

section \<open>Recording a connection\<close>

text \<open>\<open>New\<close> names the two files after the addresses; the results of the reads and writes of the connection are arguments.\<close>

record dump =
  dp_read :: bytes
  dp_write :: bytes

definition dump_New :: "string \<Rightarrow> string \<Rightarrow> string \<times> string \<times> dump" where
  "dump_New localAddr remoteAddr =
     (let name = filter (\<lambda>c. c \<noteq> CHR ''.'') (filter (\<lambda>c. c \<noteq> CHR '':'') (localAddr @ ''-'' @ remoteAddr))
      in (''./read_'' @ name @ ''.txt'', ''./write_'' @ name @ ''.txt'', \<lparr>dp_read = [], dp_write = []\<rparr>))"

definition dump_Write :: "bytes \<Rightarrow> nat \<Rightarrow> gerr option \<Rightarrow> dump \<Rightarrow> (nat \<times> gerr option) \<times> dump" where
  "dump_Write p n err d = ((n, err), if 0 < n then d\<lparr>dp_write := dp_write d @ take n p\<rparr> else d)"

definition dump_Read :: "bytes \<Rightarrow> gerr option \<Rightarrow> dump \<Rightarrow> (bytes \<times> gerr option) \<times> dump" where
  "dump_Read got err d = ((got, err), if 0 < length got then d\<lparr>dp_read := dp_read d @ got\<rparr> else d)"

text \<open>The files hold what was read and what was accepted, and the caller sees what it would see without them.\<close>

lemma dump_records:
  "dp_read (fold (\<lambda>(b, e) d. snd (dump_Read b e d)) rs d) = dp_read d @ concat (map fst rs)"
  "dp_write (fold (\<lambda>(p, n, e) d. snd (dump_Write p n e d)) ws d) = dp_write d @ concat (map (\<lambda>(p, n, e). take n p) ws)"
proof -
  show "dp_read (fold (\<lambda>(b, e) d. snd (dump_Read b e d)) rs d) = dp_read d @ concat (map fst rs)"
    by (induction rs arbitrary: d) (auto simp: dump_Read_def)
  show "dp_write (fold (\<lambda>(p, n, e) d. snd (dump_Write p n e d)) ws d) = dp_write d @ concat (map (\<lambda>(p, n, e). take n p) ws)"
    by (induction ws arbitrary: d) (auto simp: dump_Write_def)
qed

end
