(* ===== verification/ServerPages.thy ===== *)
theory ServerPages
  imports ServerFacts WssFacts Certs
begin

text \<open>
  The handlers of \<open>server.go\<close> around the tunnel: \<open>Upgrade\<close>, which replaces the executable, on a file system; \<open>manageConnect\<close> with the
  pings of its ticker; and the part of \<open>getConnectConnAndAddr\<close> before the destination is read.
\<close>

section \<open>Replacing the executable\<close>

text \<open>\<open>filepath.Join(filepath.Dir(pwd), "stream.backup")\<close> for the absolute path that \<open>os.Executable\<close> returns.\<close>

definition backup_path :: "string \<Rightarrow> string" where
  "backup_path pwd = (case last_index_byte (CHR ''/'') pwd of None \<Rightarrow> ''stream.backup'' | Some i \<Rightarrow> take i pwd @ ''/stream.backup'')"

datatype reply = Reply (status: nat) (body: string)

text \<open>What the libraries do: the download by its text and the error that ends it (of the transfer or of the file), the hash, and the errors
  of opening the temporary file (other than its presence) and of the renaming.\<close>

record upgrade_env =
  ue_fetch :: "string \<Rightarrow> (bytes \<times> gerr option) res"
  ue_sha1 :: "bytes \<Rightarrow> bytes"
  ue_pwd :: string
  ue_openErr :: "gerr option"
  ue_renameErr :: "gerr option"

definition upgrade_page ::
  "(string \<Rightarrow> string) \<Rightarrow> upgrade_env \<Rightarrow> string \<Rightarrow> (string \<Rightarrow> bytes option) \<Rightarrow> reply \<times> (string \<Rightarrow> bytes option)" where
  "upgrade_page utrim E url fs =
     (let download = trim_space utrim url in
      if \<not> has_prefix download ''http://'' \<and> \<not> has_prefix download ''https://'' then (Reply 400 ''invalid download url'', fs)
      else case ue_fetch E download of
        Inl e \<Rightarrow> (Reply 400 ''download failure'', fs)
      | Inr (content, copyErr) \<Rightarrow>
          let oldPath = backup_path (ue_pwd E) in
          if ue_openErr E \<noteq> None \<or> fs oldPath \<noteq> None then (Reply 500 ''create temp file failure'', fs)
          else let fs = fs(oldPath \<mapsto> content) in
            if copyErr \<noteq> None then (Reply 500 ''download copy failure'', fs)
            else if ue_renameErr E \<noteq> None then (Reply 500 ''rename failure'', fs)
            else (Reply 200 (hex_encode (ue_sha1 E content)), fs(oldPath := None, ue_pwd E \<mapsto> content)))"

lemma upgrade_cases:
  assumes "upgrade_page utrim E url fs = (rep, fs')" "fs (ue_pwd E) \<noteq> None"
  shows "(status rep = 200 \<longrightarrow> (\<exists>content. ue_fetch E (trim_space utrim url) = Ok (content, None) \<and> fs' (ue_pwd E) = Some content
            \<and> fs' (backup_path (ue_pwd E)) = None \<and> body rep = hex_encode (ue_sha1 E content)))
    \<and> (status rep \<noteq> 200 \<longrightarrow> fs' (ue_pwd E) = fs (ue_pwd E))
    \<and> (fs' = fs \<or> status rep = 200 \<or> fs' (backup_path (ue_pwd E)) \<noteq> None)
    \<and> (fs (backup_path (ue_pwd E)) \<noteq> None \<longrightarrow> status rep \<noteq> 200 \<and> fs' = fs)
    \<and> (\<forall>p. p \<noteq> ue_pwd E \<and> p \<noteq> backup_path (ue_pwd E) \<longrightarrow> fs' p = fs p)"
  using assms by (auto simp: upgrade_page_def Let_def split: if_splits sum.splits)


definition sample_upgrade :: "gerr option \<Rightarrow> upgrade_env" where
  "sample_upgrade err = \<lparr>ue_fetch = (\<lambda>_. Ok ([1, 2], err)), ue_sha1 = (\<lambda>b. b), ue_pwd = ''/bin/tcpover'', ue_openErr = None, ue_renameErr = None\<rparr>"

definition sample_files :: "string \<Rightarrow> bytes option" where
  "sample_files = [''/bin/tcpover'' \<mapsto> [0]]"

lemma sample_backup: "backup_path ''/bin/tcpover'' = ''/bin/stream.backup''"
  by (simp add: backup_path_def last_index_byte_def)


text \<open>Nothing but the path and the header with the address is asked of the client: any request that is not a WebSocket, whatever its other
  headers and parameters, makes the server download the file and put it in the place of the program.\<close>

lemma upgrade_by_anyone:
  assumes "hUpgrade r \<noteq> ''websocket''" "urlPath r = ''/upgrade''" "has_prefix (trim_space utrim url) ''http://''"
    "ue_fetch E (trim_space utrim url) = Ok (content, None)" "ue_openErr E = None" "ue_renameErr E = None"
    "fs (backup_path (ue_pwd E)) = None"
  shows "serveHTTP r = RUpgrade \<and> snd (upgrade_page utrim E url fs) (ue_pwd E) = Some content"
  using assms by (simp add: serveHTTP_def has_suffix_def has_prefix_def upgrade_page_def)

section \<open>The control channel of an agent\<close>

text \<open>\<open>manageConnect\<close>: the errors of the pings, one every ten seconds; it ends with the first that \<open>IsClose\<close> knows. The upgrade of the
  request can fail before, with a reply unless the handshake was at fault.\<close>

datatype upgrade_error = HandshakeError string | OtherError string

definition upgrade_refused :: "upgrade_error \<Rightarrow> reply option" where
  "upgrade_refused e = (case e of HandshakeError t \<Rightarrow> None | OtherError t \<Rightarrow> Some (Reply 500 (''upgrade error: '' @ t)))"

fun manage_pings :: "goerr option list \<Rightarrow> nat option" where
  "manage_pings [] = None"
| "manage_pings (err # errs) = (if isClose err then Some 1 else map_option Suc (manage_pings errs))"

datatype manage_result = ManageRefused "reply option" | ManageOpen | ManageClosed nat

definition manageConnect :: "string \<Rightarrow> cid \<Rightarrow> upgrade_error option \<Rightarrow> goerr option list \<Rightarrow> server \<Rightarrow> manage_result \<times> server" where
  "manageConnect name c up errs s =
     (case up of
        Some e \<Rightarrow> (ManageRefused (upgrade_refused e), s)
      | None \<Rightarrow>
          let s = manage_open name c s in
          case manage_pings errs of None \<Rightarrow> (ManageOpen, s) | Some n \<Rightarrow> (ManageClosed n, manage_close name s))"

text \<open>An agent can be reached from its registration until a ping fails in a way that \<open>IsClose\<close> knows, and no handler touches another
  name. While the errors are others it stays registered with its dead channel.\<close>

lemma manageConnect_registration:
  assumes "manageConnect name c None errs s = (r, t)"
  shows "manageConn t name = (if \<exists>err \<in> set errs. isClose err then None else Some c)
    \<and> (\<forall>other. other \<noteq> name \<longrightarrow> manageConn t other = manageConn s other) \<and> groupConn t = groupConn s"
proof -
  have p: "manage_pings errs = None \<longleftrightarrow> \<not> (\<exists>err \<in> set errs. isClose err)" by (induction errs) auto
  show ?thesis
  proof (cases "manage_pings errs")
    case None
    then have "\<not> (\<exists>err \<in> set errs. isClose err)" using p by simp
    then show ?thesis using assms None by (auto simp: manageConnect_def manage_open_def)
  next
    case (Some n)
    then have "\<exists>err \<in> set errs. isClose err" using p by simp
    then show ?thesis using assms Some by (auto simp: manageConnect_def manage_open_def manage_close_def)
  qed
qed

section \<open>The connection and its destination\<close>

text \<open>\<open>getConnectConnAndAddr\<close>: the reply that was written, and the destination with the connection behind it, which is closed on an
  error.\<close>

definition getConnectConnAndAddr :: "http_request \<Rightarrow> upgrade_error option \<Rightarrow> conn \<Rightarrow> reply option \<times> (saddr \<times> conn) res" where
  "getConnectConnAndAddr r up c =
     (case up of
        Some e \<Rightarrow> (upgrade_refused e, Err (Msg ''upgrade error''))
      | None \<Rightarrow>
          (None, case readAddrBy (connectProto r) c of
             (Inl e, _) \<Rightarrow> Err e
           | (Inr addr, remote) \<Rightarrow> Ok (addr, remote)))"

lemma directConnect_get:
  assumes "getConnectConnAndAddr r None c = (rep, Ok (addr, remote))"
  shows "rep = None \<and> directConnect r rn ln c =
    ((case newSocket addr rn ln SHADOWSOCKS of Inl e \<Rightarrow> Err e
      | Inr m \<Rightarrow> Ok (if isSpecialFqdn (mHost m) then MuxServer else DialTcp (remoteAddress m))), remote)"
  using assms by (auto simp: getConnectConnAndAddr_def directConnect_def serveAddr_def split: prod.splits sum.splits)

end
