(* ===== verification/StreamCiphers.thy ===== *)
theory StreamCiphers
  imports StreamFacts ShadowCore SsrChain
begin

text \<open>
  \<open>transport/shadowsocks/shadowstream/cipher.go\<close>: the stream ciphers themselves. The modes of \<open>crypto/cipher\<close> (CTR, CFB) and RC4 are
  defined; the block cipher, the key stream of ChaCha20 and MD5 are parameters, of which nothing is assumed. Every cipher that
  \<open>PickCipher\<close> can choose is a stream cipher in the sense of \<open>stream_ok\<close>, so what \<open>StreamFacts\<close> shows holds for it.
\<close>

section \<open>Modes\<close>

record crypto =
  cy_block :: "bytes \<Rightarrow> bytes \<Rightarrow> bytes"
  cy_chacha :: "bytes \<Rightarrow> bytes \<Rightarrow> nat \<Rightarrow> byte"
  cy_md5 :: "bytes \<Rightarrow> bytes"

text \<open>The states: the counter block with the rest of the key stream; the shift register with the block that encrypts it and how much of
  that was used; nonce and position; RC4.\<close>

datatype cipher_state = SCtr bytes bytes | SCfb bytes bytes nat | SChacha bytes nat | SRc4 rc4

text \<open>The counter is the whole block, as a number with the most significant byte first.\<close>

fun incr_le :: "bytes \<Rightarrow> bytes" where
  "incr_le [] = []"
| "incr_le (b # bs) = (if b = 255 then 0 # incr_le bs else (b + 1) # bs)"

definition incr_be :: "bytes \<Rightarrow> bytes" where
  "incr_be b = rev (incr_le (rev b))"

fun ctr_step :: "(bytes \<Rightarrow> bytes) \<Rightarrow> cipher_state \<Rightarrow> byte \<Rightarrow> byte \<times> cipher_state" where
  "ctr_step E (SCtr ctr []) b = (b XOR hd (E ctr), SCtr (incr_be ctr) (tl (E ctr)))"
| "ctr_step E (SCtr ctr (k # ks)) b = (b XOR k, SCtr ctr ks)"
| "ctr_step E s b = (b, s)"

text \<open>CFB keeps the last 16 bytes of cipher text in its register, in both directions.\<close>

fun cfb_step :: "bool \<Rightarrow> (bytes \<Rightarrow> bytes) \<Rightarrow> cipher_state \<Rightarrow> byte \<Rightarrow> byte \<times> cipher_state" where
  "cfb_step decrypt E (SCfb next out used) b =
     (let out = (if used = 16 then E next else out); used = (if used = 16 then 0 else used); x = b XOR out ! used
      in (x, SCfb (next[used := (if decrypt then b else x)]) out (Suc used)))"
| "cfb_step decrypt E s b = (b, s)"

fun chacha_step :: "(bytes \<Rightarrow> nat \<Rightarrow> byte) \<Rightarrow> cipher_state \<Rightarrow> byte \<Rightarrow> byte \<times> cipher_state" where
  "chacha_step K (SChacha nonce n) b = (b XOR K nonce n, SChacha nonce (Suc n))"
| "chacha_step K s b = (b, s)"

fun rc4md5_step :: "cipher_state \<Rightarrow> byte \<Rightarrow> byte \<times> cipher_state" where
  "rc4md5_step (SRc4 c) b = (case rc4_step c b of (x, c') \<Rightarrow> (x, SRc4 c'))"
| "rc4md5_step s b = (b, s)"

section \<open>The ciphers\<close>

definition aesCTR :: "crypto \<Rightarrow> bytes \<Rightarrow> cipher_state stream_cipher" where
  "aesCTR C key = \<lparr>sc_ivSize = 16, sc_encrypter = (\<lambda>iv. SCtr iv []), sc_decrypter = (\<lambda>iv. SCtr iv []),
     sc_encStep = ctr_step (cy_block C key), sc_decStep = ctr_step (cy_block C key)\<rparr>"

definition aesCFB :: "crypto \<Rightarrow> bytes \<Rightarrow> cipher_state stream_cipher" where
  "aesCFB C key = \<lparr>sc_ivSize = 16, sc_encrypter = (\<lambda>iv. SCfb iv [] 16), sc_decrypter = (\<lambda>iv. SCfb iv [] 16),
     sc_encStep = cfb_step False (cy_block C key), sc_decStep = cfb_step True (cy_block C key)\<rparr>"

definition chacha20IETF :: "crypto \<Rightarrow> bytes \<Rightarrow> cipher_state stream_cipher" where
  "chacha20IETF C key = \<lparr>sc_ivSize = 12, sc_encrypter = (\<lambda>iv. SChacha iv 0), sc_decrypter = (\<lambda>iv. SChacha iv 0),
     sc_encStep = chacha_step (cy_chacha C key), sc_decStep = chacha_step (cy_chacha C key)\<rparr>"

definition xchacha20 :: "crypto \<Rightarrow> bytes \<Rightarrow> cipher_state stream_cipher" where
  "xchacha20 C key = \<lparr>sc_ivSize = 24, sc_encrypter = (\<lambda>iv. SChacha iv 0), sc_decrypter = (\<lambda>iv. SChacha iv 0),
     sc_encStep = chacha_step (cy_chacha C key), sc_decStep = chacha_step (cy_chacha C key)\<rparr>"

definition rc4MD5 :: "crypto \<Rightarrow> bytes \<Rightarrow> cipher_state stream_cipher" where
  "rc4MD5 C key = \<lparr>sc_ivSize = 16, sc_encrypter = (\<lambda>iv. SRc4 (rc4_new (cy_md5 C (key @ iv)))),
     sc_decrypter = (\<lambda>iv. SRc4 (rc4_new (cy_md5 C (key @ iv)))), sc_encStep = rc4md5_step, sc_decStep = rc4md5_step\<rparr>"

fun cipher_of :: "crypto \<Rightarrow> stream_ctor \<Rightarrow> bytes \<Rightarrow> cipher_state stream_cipher" where
  "cipher_of C RC4MD5 key = rc4MD5 C key"
| "cipher_of C AESCTR key = aesCTR C key"
| "cipher_of C AESCFB key = aesCFB C key"
| "cipher_of C Chacha20IETF key = chacha20IETF C key"
| "cipher_of C Xchacha20 key = xchacha20 C key"

section \<open>Every cipher can be undone\<close>

lemma xor_twice [simp]: "(b XOR k) XOR k = (b :: byte)"
  by (simp add: xor.assoc)

lemma ctr_undo: "ctr_step E s b = (x, s') \<Longrightarrow> ctr_step E s x = (b, s')"
  by (induction E s b rule: ctr_step.induct) auto

lemma cfb_undo: "cfb_step False E s b = (x, s') \<Longrightarrow> cfb_step True E s x = (b, s')"
  by (cases s) (auto simp: Let_def split: if_splits)

lemma chacha_undo: "chacha_step K s b = (x, s') \<Longrightarrow> chacha_step K s x = (b, s')"
  by (cases s) auto

lemma rc4md5_undo: "rc4md5_step s b = (x, s') \<Longrightarrow> rc4md5_step s x = (b, s')"
  by (cases s) (auto simp: rc4_step_def Let_def)

lemma cipher_okI:
  assumes "0 < sc_ivSize m" "\<And>iv. sc_encrypter m iv = sc_decrypter m iv"
    "\<And>s b x s'. sc_encStep m s b = (x, s') \<Longrightarrow> sc_decStep m s x = (b, s')"
  shows "ShadowStream.stream_ok m"
  unfolding ShadowStream.stream_ok_def using assms by (intro conjI exI [of _ "(=)"]) (auto split: prod.split)

lemma cipher_of_ok: "ShadowStream.stream_ok (cipher_of C ctor key)"
proof (cases ctor)
  case RC4MD5
  show ?thesis unfolding RC4MD5 by (rule cipher_okI, simp_all add: rc4MD5_def) (erule rc4md5_undo)
next
  case AESCTR
  show ?thesis unfolding AESCTR by (rule cipher_okI, simp_all add: aesCTR_def) (erule ctr_undo)
next
  case AESCFB
  show ?thesis unfolding AESCFB by (rule cipher_okI, simp_all add: aesCFB_def) (erule cfb_undo)
next
  case Chacha20IETF
  show ?thesis unfolding Chacha20IETF by (rule cipher_okI, simp_all add: chacha20IETF_def) (erule chacha_undo)
next
  case Xchacha20
  show ?thesis unfolding Xchacha20 by (rule cipher_okI, simp_all add: xchacha20_def) (erule chacha_undo)
qed

text \<open>The key that a cipher was picked with picks it again.\<close>

lemma pick_again:
  assumes "pickCipher uupper md5 name key password = Ok (StreamCipher ctor k)"
  shows "pickCipher uupper md5 name k password' = Ok (StreamCipher ctor k)"
proof -
  let ?name = "rename_cipher (toUpper uupper name)"
  have nd: "toUpper uupper name \<noteq> ''DUMMY''" using assms by (auto simp: pickCipher_def Let_def)
  have na: "map_of aeadList ?name = None"
    using assms nd by (cases "map_of aeadList ?name") (auto simp: pickCipher_def Let_def rbind_Ok_iff split: option.splits)
  then obtain n c where st: "map_of streamList ?name = Some (n, c)" "pick_key md5 n key password = Ok k" "stream_new c k = None" "c = ctor"
    using assms nd by (auto simp: pickCipher_def Let_def rbind_Ok_iff split: option.splits)
  have "0 < n" using map_of_SomeD [OF st(1)] by (auto simp: streamList_def)
  moreover have "length k = n" using st(2) by (auto simp: pick_key_def split: option.splits if_splits)
  ultimately have "pick_key md5 n k password' = Ok k" by (auto simp: pick_key_def)
  then show ?thesis using nd na st by (simp add: pickCipher_def Let_def)
qed

text \<open>C36: A writer that picks a stream cipher by its name, from a password or a key, and a reader that picks it by the same name with the
  key of the writer exchange their data: the writes are accepted in full, the reads return a prefix of what was written, all of it
  when they read far enough, and no error but the end of the connection. This holds for every block cipher, key stream and hash.\<close>

theorem picked_cipher_delivers:
  assumes "pickCipher uupper md5 name key password = Ok (StreamCipher ctor k)"
    and "pickCipher uupper md5 name k password' = Ok (StreamCipher ctor' k')"
    and "length iv = sc_ivSize (cipher_of C ctor k)"
    and "so_writes (cipher_of C ctor k) iv ps newStreamConn (mk_conn inp) = (rs, s, c)"
    and "so_reads (cipher_of C ctor' k') xs newStreamConn (mk_conn (sent c)) = (ds, e)"
  shows "rs = map (\<lambda>p. (length p, None)) ps
    \<and> (\<exists>rest. concat ps = ds @ rest \<and> (e = Some EOF \<longrightarrow> rest = [])) \<and> (e = None \<or> e = Some EOF)
    \<and> (0 \<notin> fst ` set xs \<and> length (concat ps) < length xs \<longrightarrow> ds = concat ps)"
proof -
  have "ctor' = ctor" "k' = k" using pick_again [OF assms(1), of password'] assms(2) by simp_all
  then show ?thesis using stream_cipher_delivery [OF cipher_of_ok assms(3,4)] assms(5) by simp
qed

definition sample_crypto :: crypto where
  "sample_crypto = \<lparr>cy_block = (\<lambda>key b. map2 (XOR) key b), cy_chacha = (\<lambda>key nonce n. word_of_nat n), cy_md5 = (\<lambda>b. replicate 16 7)\<rparr>"

theorem picked_cipher_delivers_witness:
  "\<exists>k s c. pickCipher id (\<lambda>b. replicate 16 7) ''aes-128-cfb'' [] ''pw'' = Ok (StreamCipher AESCFB k)
    \<and> so_writes (cipher_of sample_crypto AESCFB k) (replicate 16 9) [[1, 2, 3], [], [4]] newStreamConn (mk_conn [])
        = ([(3, None), (0, None), (1, None)], s, c)
    \<and> fst (so_reads (cipher_of sample_crypto AESCFB k) [(1, 1), (2, 9), (9, 1), (9, 9), (9, 9)] newStreamConn (mk_conn (sent c))) = [1, 2, 3, 4]"
proof -
  let ?k = "replicate 16 7 :: bytes"
  let ?m = "cipher_of sample_crypto AESCFB ?k"
  let ?w = "so_writes ?m (replicate 16 9) [[1, 2, 3], [], [4]] newStreamConn (mk_conn [])"
  let ?x = "[(1, 1), (2, 9), (9, 1), (9, 9), (9, 9)]"
  have n: "rename_cipher (toUpper id ''aes-128-cfb'') = ''AES-128-CFB''" "toUpper id ''aes-128-cfb'' \<noteq> ''DUMMY''" by code_simp+
  have d: "kdf_key (\<lambda>b. ?k) ''pw'' 16 = Some ?k" by (simp add: kdf_key_def kdf_loop.simps)
  have p: "pickCipher id (\<lambda>b. ?k) ''aes-128-cfb'' [] ''pw'' = Ok (StreamCipher AESCFB ?k)"
    by (simp add: pickCipher_def Let_def n) (simp add: aeadList_def streamList_def pick_key_def d)
  obtain rs s c where w: "?w = (rs, s, c)" by (cases ?w)
  obtain ds e where r: "so_reads ?m ?x newStreamConn (mk_conn (sent c)) = (ds, e)"
    by (cases "so_reads ?m ?x newStreamConn (mk_conn (sent c))")
  have "length (replicate 16 (9 :: byte)) = sc_ivSize ?m" by (simp add: aesCFB_def)
  from picked_cipher_delivers [OF p pick_again [OF p] this w r] p w r show ?thesis by simp
qed

end
