(* ===== verification/Agent.thy ===== *)
theory Agent
  imports HttpFacts MetaFacts SocksFacts "HOL-Library.Sublist"
begin

text \<open>
  The running agent: the listeners of \<open>transport/listener\<close> with their accept loops and \<open>Close\<close>, the handler that each starts for a
  connection, and the pump of \<open>transport/listener.go\<close>, with the channel between them. The handlers are functions of the bytes that a
  connection delivers; the loops are the step relation \<open>agent_step\<close>, in which every interleaving is a run.
\<close>

section \<open>Handlers\<close>

text \<open>What becomes of a connection: its handler puts metadata into the channel; it is held open; it is closed; it is left open; or the
  handler panics, after it may have put metadata into the channel, which ends the program.\<close>

datatype handler_end = Puts "metadata list" | HeldOpen | Shut | LeftOpen | Crashed gerr "metadata list"

fun end_sends :: "handler_end \<Rightarrow> metadata list" where
  "end_sends (Puts ms) = ms" | "end_sends (Crashed e ms) = ms" | "end_sends _ = []"

definition socks_end :: "metadata option res \<Rightarrow> handler_end" where
  "socks_end r = (case r of Inr (Some m) \<Rightarrow> Puts [m] | Inr None \<Rightarrow> HeldOpen | Inl e \<Rightarrow> if is_panic r then Crashed e [] else Shut)"

definition handleSocks :: "string \<Rightarrow> netaddr \<Rightarrow> netaddr \<Rightarrow> conn \<Rightarrow> handler_end" where
  "handleSocks localAddr remote localA c =
     (case rd c of [] \<Rightarrow> Shut | b # _ \<Rightarrow> if b = 5 then socks_end (fst (handleSocks5 localAddr remote localA c)) else Shut)"

definition mixed_handleConn :: "string \<Rightarrow> netaddr \<Rightarrow> netaddr \<Rightarrow> (conn \<Rightarrow> handler_end) \<Rightarrow> conn \<Rightarrow> handler_end" where
  "mixed_handleConn localAddr remote localA http c =
     (case mixed_kind (rd c) of
        None \<Rightarrow> LeftOpen
      | Some InSocks \<Rightarrow> socks_end (fst (handleSocks5 localAddr remote localA c))
      | Some InHttp \<Rightarrow> http c)"

text \<open>The transport that an HTTP connection uses to send requests on: it dials by putting metadata into the channel.\<close>

definition client_Dial :: "string \<Rightarrow> string \<Rightarrow> netaddr \<Rightarrow> netaddr option \<Rightarrow> metadata res" where
  "client_Dial network address source originTarget =
     (if network \<noteq> ''tcp'' \<and> network \<noteq> ''tcp4'' \<and> network \<noteq> ''tcp6'' then Err (Msg (''unsupported network '' @ network))
      else case parse_saddr address of None \<Rightarrow> Err ErrAddressNotSupported | Some dst \<Rightarrow> newHTTP dst source originTarget)"

text \<open>The metadata that HTTP actions put into the channel; \<open>dials\<close> gives the dials of the transport for a request, none when it has an
  idle connection. A panic in a dial ends the program, an error only the request.\<close>

fun action_puts :: "(http_req \<Rightarrow> (string \<times> string) list) \<Rightarrow> netaddr \<Rightarrow> netaddr \<Rightarrow> http_action \<Rightarrow> metadata res list" where
  "action_puts dials source target (Hijack m) = [Ok m]"
| "action_puts dials source target (Forward q) = map (\<lambda>(network, address). client_Dial network address source (Some target)) (dials q)"
| "action_puts dials source target (UpgradeTo q dst) = []"
| "action_puts dials source target (Respond p) = []"

fun put_all :: "metadata list \<Rightarrow> metadata res list \<Rightarrow> handler_end" where
  "put_all ms [] = Puts ms"
| "put_all ms (Inr m # rs) = put_all (ms @ [m]) rs"
| "put_all ms (Inl e # rs) = (if is_panic (Inl e :: metadata res) then Crashed e ms else put_all ms rs)"

definition http_handler ::
  "(conn \<Rightarrow> (int \<times> http_req) list) \<Rightarrow> (http_req \<Rightarrow> (string \<times> string) list) \<Rightarrow> authenticator option \<Rightarrow> (string \<Rightarrow> string)
     \<Rightarrow> (http_req \<Rightarrow> http_resp option) \<Rightarrow> (string \<Rightarrow> string) \<Rightarrow> (nat \<Rightarrow> bool) \<Rightarrow> netaddr \<Rightarrow> netaddr \<Rightarrow> cred_cache option \<Rightarrow> conn
     \<Rightarrow> handler_end" where
  "http_handler read_requests dials auth utrim client_do ulower wfail remote localA cache c =
     put_all [] (concat (map (action_puts dials remote localA)
       (fst (handleHTTPConn auth utrim client_do ulower wfail remote localA (read_requests c) cache))))"

section \<open>Listeners\<close>

datatype listener_kind = SocksL | HttpL | MixedL

text \<open>\<open>RegisterListener\<close> with the constructors that it calls; \<open>listen\<close> gives the error of \<open>net.Listen\<close>, if any. All three return a
  running listener, the HTTP one with authentication.\<close>

definition new_listener :: "(string \<Rightarrow> gerr option) \<Rightarrow> listener_kind \<Rightarrow> string \<Rightarrow> listener_kind res" where
  "new_listener listen k address = (case listen address of Some e \<Rightarrow> Inl e | None \<Rightarrow> Ok k)"

definition socks_New :: "(string \<Rightarrow> gerr option) \<Rightarrow> string \<Rightarrow> listener_kind res" where
  "socks_New listen address = new_listener listen SocksL address"

definition http_New :: "(string \<Rightarrow> gerr option) \<Rightarrow> string \<Rightarrow> listener_kind res" where
  "http_New listen address = new_listener listen HttpL address"

definition mixed_New :: "(string \<Rightarrow> gerr option) \<Rightarrow> string \<Rightarrow> listener_kind res" where
  "mixed_New listen address = new_listener listen MixedL address"

definition registerListener :: "(string \<Rightarrow> gerr option) \<Rightarrow> string \<Rightarrow> string \<Rightarrow> listener_kind res" where
  "registerListener listen type address =
     (if type = ''socks'' then socks_New listen address
      else if type = ''http'' then http_New listen address
      else if type = ''mixed'' then mixed_New listen address
      else Err (Msg ''invalid type''))"

definition registerProxy :: "'p \<Rightarrow> 'p list \<Rightarrow> 'p list" where
  "registerProxy p proxies = proxies @ [p]"

definition listener_handler ::
  "listener_kind \<Rightarrow> string \<Rightarrow> netaddr \<Rightarrow> netaddr \<Rightarrow> (conn \<Rightarrow> handler_end) \<Rightarrow> conn \<Rightarrow> handler_end" where
  "listener_handler k localAddr remote localA http c =
     (case k of SocksL \<Rightarrow> handleSocks localAddr remote localA c
      | HttpL \<Rightarrow> http c
      | MixedL \<Rightarrow> mixed_handleConn localAddr remote localA http c)"

text \<open>The rest of \<open>handleTCPConn\<close>: the metadata is not valid, the dial fails, or the connection is relayed to what was dialled. In each
  case the connection is closed at the end.\<close>

datatype 'c tcp_end = Dropped | DialFailed gerr | Relayed 'c

definition handleTCPConn_end :: "('p \<Rightarrow> metadata \<Rightarrow> 'c res) \<Rightarrow> 'p list \<Rightarrow> metadata \<Rightarrow> 'c tcp_end res" where
  "handleTCPConn_end dial proxies m =
     rbind (handleTCPConn proxies m) (\<lambda>r. case r of
        None \<Rightarrow> Ok Dropped
      | Some (p, m') \<Rightarrow> (case dial p m' of Inl e \<Rightarrow> Ok (DialFailed e) | Inr remote \<Rightarrow> Ok (Relayed remote)))"

lemma relayed_by_proxy:
  "handleTCPConn_end dial proxies m = Ok (Relayed remote) \<longleftrightarrow>
     (\<exists>p m'. handleTCPConn proxies m = Ok (Some (p, m')) \<and> dial p m' = Ok remote)"
proof (cases "handleTCPConn proxies m")
  case (Inr r)
  then show ?thesis by (cases r) (auto simp: handleTCPConn_end_def split: sum.splits)
qed (simp add: handleTCPConn_end_def)

section \<open>The loops\<close>

text \<open>The connections of a listener are numbered as they arrive, and the accept loop takes them in this order. \<open>ag_todo\<close> is what the
  handler of a connection has still to put into the channel, which holds 100 entries; \<open>ag_handled\<close> is what the pump has started
  \<open>handleTCPConn\<close> on, each entry with the connection it is from.\<close>

record agent =
  ag_listening :: bool
  ag_closed :: bool
  ag_loop :: bool
  ag_arrived :: nat
  ag_accepted :: nat
  ag_todo :: "nat \<Rightarrow> metadata list"
  ag_in :: "(nat \<times> metadata) list"
  ag_handled :: "(nat \<times> metadata) list"
  ag_crashed :: bool

definition agent_start :: agent where
  "agent_start = \<lparr>ag_listening = True, ag_closed = False, ag_loop = True, ag_arrived = 0, ag_accepted = 0, ag_todo = (\<lambda>_. []),
     ag_in = [], ag_handled = [], ag_crashed = False\<rparr>"

definition in_capacity :: nat where "in_capacity = 100"

datatype agent_ev = Connects | AcceptConn | AcceptFails | AcceptClosed | SetsClosed | ClosesListener | SendsIn nat | Pumps
  | HandlerCrashes nat | DispatchCrashes

text \<open>An accept fails for a moment while the listener is open, and always once it is closed. In both cases the loop ends exactly if
  \<open>Close\<close> has been called, otherwise it accepts again.\<close>

inductive agent_step :: "(nat \<Rightarrow> handler_end) \<Rightarrow> 'p list \<Rightarrow> agent \<Rightarrow> agent_ev \<Rightarrow> agent \<Rightarrow> bool"
  for h proxies where
  connects: "ag_listening s \<Longrightarrow> agent_step h proxies s Connects (s\<lparr>ag_arrived := Suc (ag_arrived s)\<rparr>)"
| accepts: "\<not> ag_crashed s \<Longrightarrow> ag_loop s \<Longrightarrow> ag_listening s \<Longrightarrow> ag_accepted s < ag_arrived s \<Longrightarrow>
    agent_step h proxies s AcceptConn (s\<lparr>ag_accepted := Suc (ag_accepted s),
      ag_todo := (ag_todo s)(ag_accepted s := end_sends (h (ag_accepted s)))\<rparr>)"
| fails: "\<not> ag_crashed s \<Longrightarrow> ag_loop s \<Longrightarrow> ag_listening s \<Longrightarrow>
    agent_step h proxies s AcceptFails (s\<lparr>ag_loop := \<not> ag_closed s\<rparr>)"
| accept_closed: "\<not> ag_crashed s \<Longrightarrow> ag_loop s \<Longrightarrow> \<not> ag_listening s \<Longrightarrow>
    agent_step h proxies s AcceptClosed (s\<lparr>ag_loop := \<not> ag_closed s\<rparr>)"
| sets: "agent_step h proxies s SetsClosed (s\<lparr>ag_closed := True\<rparr>)"
| closes: "ag_closed s \<Longrightarrow> agent_step h proxies s ClosesListener (s\<lparr>ag_listening := False\<rparr>)"
| sends: "\<not> ag_crashed s \<Longrightarrow> ag_todo s c = m # ms \<Longrightarrow> length (ag_in s) < in_capacity \<Longrightarrow>
    agent_step h proxies s (SendsIn c) (s\<lparr>ag_todo := (ag_todo s)(c := ms), ag_in := ag_in s @ [(c, m)]\<rparr>)"
| pumps: "\<not> ag_crashed s \<Longrightarrow> ag_in s = x # xs \<Longrightarrow>
    agent_step h proxies s Pumps (s\<lparr>ag_in := xs, ag_handled := ag_handled s @ [x]\<rparr>)"
| crashes: "\<not> ag_crashed s \<Longrightarrow> c < ag_accepted s \<Longrightarrow> h c = Crashed e ms \<Longrightarrow> ag_todo s c = [] \<Longrightarrow>
    agent_step h proxies s (HandlerCrashes c) (s\<lparr>ag_crashed := True\<rparr>)"
| panics: "\<not> ag_crashed s \<Longrightarrow> x \<in> set (ag_handled s) \<Longrightarrow> is_panic (handleTCPConn proxies (snd x)) \<Longrightarrow>
    agent_step h proxies s DispatchCrashes (s\<lparr>ag_crashed := True\<rparr>)"

inductive_cases agent_stepE: "agent_step h proxies s e t"

inductive agent_run :: "(nat \<Rightarrow> handler_end) \<Rightarrow> 'p list \<Rightarrow> agent_ev list \<Rightarrow> agent \<Rightarrow> bool"
  for h proxies where
  run_start: "agent_run h proxies [] agent_start"
| run_step: "agent_run h proxies es s \<Longrightarrow> agent_step h proxies s e t \<Longrightarrow> agent_run h proxies (es @ [e]) t"

text \<open>The steps of the agent itself, as opposed to those of its clients, of the operating system and of the caller of \<open>Close\<close>.\<close>

fun agent_own :: "agent_ev \<Rightarrow> bool" where
  "agent_own Connects = False" | "agent_own AcceptFails = False" | "agent_own SetsClosed = False" | "agent_own ClosesListener = False"
| "agent_own _ = True"

section \<open>What the runs keep\<close>

text \<open>What the channel and the pump got from a connection.\<close>

definition of_conn :: "nat \<Rightarrow> (nat \<times> metadata) list \<Rightarrow> metadata list" where
  "of_conn c xs = map snd (filter (\<lambda>x. fst x = c) xs)"

lemma of_conn_simps [simp]:
  "of_conn c [] = []" "of_conn c (xs @ ys) = of_conn c xs @ of_conn c ys"
  "of_conn c (x # xs) = (if fst x = c then snd x # of_conn c xs else of_conn c xs)"
  by (simp_all add: of_conn_def)

definition agent_inv :: "(nat \<Rightarrow> handler_end) \<Rightarrow> agent \<Rightarrow> bool" where
  "agent_inv h s \<longleftrightarrow> ag_accepted s \<le> ag_arrived s \<and> length (ag_in s) \<le> in_capacity
     \<and> (\<not> ag_listening s \<longrightarrow> ag_closed s) \<and> (\<not> ag_loop s \<longrightarrow> ag_closed s)
     \<and> (\<forall>c. of_conn c (ag_handled s) @ of_conn c (ag_in s) @ ag_todo s c = (if c < ag_accepted s then end_sends (h c) else []))"

lemma agent_step_inv: "agent_step h proxies s e t \<Longrightarrow> agent_inv h s \<Longrightarrow> agent_inv h t"
proof (induction rule: agent_step.induct)
  case (sends s c m ms)
  have i: "of_conn d (ag_handled s) @ of_conn d (ag_in s) @ ag_todo s d = (if d < ag_accepted s then end_sends (h d) else [])" for d
    using sends(4) by (simp add: agent_inv_def)
  have "of_conn d (ag_handled s) @ of_conn d (ag_in s @ [(c, m)]) @ ((ag_todo s)(c := ms)) d
      = (if d < ag_accepted s then end_sends (h d) else [])" for d
    using i [of d] sends(2) by (cases "d = c") (auto split: if_splits)
  then show ?case using sends by (simp add: agent_inv_def)
next
  case (pumps s x xs)
  have "of_conn d (ag_handled s) @ of_conn d (ag_in s) @ ag_todo s d = (if d < ag_accepted s then end_sends (h d) else [])" for d
    using pumps(3) by (simp add: agent_inv_def)
  then have "of_conn d (ag_handled s @ [x]) @ of_conn d xs @ ag_todo s d = (if d < ag_accepted s then end_sends (h d) else [])" for d
    using pumps(2) by (cases "fst x = d") (metis append.assoc append_Cons append_Nil of_conn_simps)+
  then show ?case using pumps(1-3) by (simp add: agent_inv_def)
next
  case (accepts s)
  have i: "of_conn d (ag_handled s) @ of_conn d (ag_in s) @ ag_todo s d = (if d < ag_accepted s then end_sends (h d) else [])" for d
    using accepts(5) by (simp add: agent_inv_def)
  have "of_conn d (ag_handled s) @ of_conn d (ag_in s) @ ((ag_todo s)(ag_accepted s := end_sends (h (ag_accepted s)))) d
      = (if d < Suc (ag_accepted s) then end_sends (h d) else [])" for d
    using i [of d] by (cases "d = ag_accepted s") (auto simp: less_Suc_eq)
  then show ?case using accepts by (simp add: agent_inv_def)
qed (auto simp: agent_inv_def)

lemma agent_start_inv: "agent_inv h agent_start"
  by (simp add: agent_inv_def agent_start_def)

lemma agent_run_inv: "agent_run h proxies es s \<Longrightarrow> agent_inv h s"
  by (induction rule: agent_run.induct) (auto intro: agent_start_inv agent_step_inv)

lemma agent_inv_conn:
  "agent_inv h s \<Longrightarrow> of_conn c (ag_handled s) @ of_conn c (ag_in s) @ ag_todo s c = (if c < ag_accepted s then end_sends (h c) else [])"
  by (simp add: agent_inv_def)

text \<open>C18: In every interleaving, the pump starts on what the handler of a connection put into the channel in the order in which it was put,
  each once, and on nothing else; the channel never holds more than its capacity; and the accept loop only ends after \<open>Close\<close>, so no
  failing accept stops a listener.\<close>

theorem agent_in_order:
  assumes "agent_run h proxies es s"
  shows "prefix (of_conn c (ag_handled s)) (end_sends (h c)) \<and> (ag_accepted s \<le> c \<longrightarrow> of_conn c (ag_handled s) = [])
    \<and> length (ag_in s) \<le> in_capacity \<and> ag_accepted s \<le> ag_arrived s \<and> (\<not> ag_loop s \<longrightarrow> ag_closed s)"
proof -
  have inv: "agent_inv h s" by (rule agent_run_inv [OF assms])
  have "prefix (of_conn c (ag_handled s)) (if c < ag_accepted s then end_sends (h c) else [])"
    using agent_inv_conn [OF inv, of c] by (metis prefixI)
  then show ?thesis using inv by (auto simp: agent_inv_def split: if_splits)
qed

section \<open>Progress\<close>

text \<open>Every step of the agent uses something up: a connection that waits, an entry on its way, the loop, the program.\<close>

definition conn_weight :: "(nat \<Rightarrow> handler_end) \<Rightarrow> agent \<Rightarrow> nat \<Rightarrow> nat" where
  "conn_weight h s c = 2 * length (ag_todo s c) + (if c < ag_accepted s then 0 else 1 + 2 * length (end_sends (h c)))"

definition agent_measure :: "(nat \<Rightarrow> handler_end) \<Rightarrow> agent \<Rightarrow> nat" where
  "agent_measure h s = (\<Sum>c < ag_arrived s. conn_weight h s c) + length (ag_in s) + (if ag_loop s then 1 else 0)
     + (if ag_crashed s then 0 else 1)"

lemma sum_one_less:
  fixes g g' :: "nat \<Rightarrow> nat"
  assumes "c < n" "g' c + k = g c" "\<And>d. d \<noteq> c \<Longrightarrow> g' d = g d"
  shows "(\<Sum>d < n. g' d) + k = (\<Sum>d < n. g d)"
proof -
  have "(\<Sum>d < n. g d) = g c + (\<Sum>d \<in> {..<n} - {c}. g d)" "(\<Sum>d < n. g' d) = g' c + (\<Sum>d \<in> {..<n} - {c}. g' d)"
    using assms(1) by (simp_all add: sum.remove)
  moreover have "(\<Sum>d \<in> {..<n} - {c}. g' d) = (\<Sum>d \<in> {..<n} - {c}. g d)" using assms(3) by (intro sum.cong) auto
  ultimately show ?thesis using assms(2) by simp
qed

lemma todo_accepted: "agent_inv h s \<Longrightarrow> ag_accepted s \<le> c \<Longrightarrow> ag_todo s c = []"
  using agent_inv_conn [of h s c] by simp

lemma agent_own_decreases:
  "agent_step h proxies s e t \<Longrightarrow> agent_inv h s \<Longrightarrow> agent_own e \<Longrightarrow> agent_measure h t < agent_measure h s"
proof (induction rule: agent_step.induct)
  case (accepts s)
  have w: "ag_todo s (ag_accepted s) = []" by (rule todo_accepted [OF accepts(5)]) simp
  let ?t = "s\<lparr>ag_accepted := Suc (ag_accepted s), ag_todo := (ag_todo s)(ag_accepted s := end_sends (h (ag_accepted s)))\<rparr>"
  have "(\<Sum>c < ag_arrived s. conn_weight h ?t c) + 1 = (\<Sum>c < ag_arrived s. conn_weight h s c)"
    by (rule sum_one_less [where c = "ag_accepted s"]) (use accepts w in \<open>auto simp: conn_weight_def\<close>)
  then show ?case by (simp add: agent_measure_def)
next
  case (sends s c m ms)
  have "c < ag_accepted s" using todo_accepted [OF sends(4), of c] sends(2) by (cases "ag_accepted s \<le> c") auto
  moreover have "ag_accepted s \<le> ag_arrived s" using sends(4) by (simp add: agent_inv_def)
  ultimately have c: "c < ag_arrived s" by simp
  let ?t = "s\<lparr>ag_todo := (ag_todo s)(c := ms), ag_in := ag_in s @ [(c, m)]\<rparr>"
  have "(\<Sum>d < ag_arrived s. conn_weight h ?t d) + 2 = (\<Sum>d < ag_arrived s. conn_weight h s d)"
    by (rule sum_one_less [OF c]) (use sends in \<open>auto simp: conn_weight_def\<close>)
  then show ?case by (simp add: agent_measure_def)
qed (auto simp: agent_measure_def conn_weight_def agent_inv_def)

lemma own_progress:
  assumes "agent_inv h s" "\<not> ag_crashed s"
    and "(\<exists>c. ag_todo s c \<noteq> []) \<or> ag_in s \<noteq> [] \<or> (ag_loop s \<and> (\<not> ag_listening s \<or> ag_accepted s < ag_arrived s))"
  shows "\<exists>e t. agent_own e \<and> agent_step h proxies s e t"
proof (cases "ag_in s")
  case (Cons x xs)
  have "agent_own Pumps" by simp
  with agent_step.pumps [OF assms(2) Cons] show ?thesis by blast
next
  case Nil
  show ?thesis
  proof (cases "\<exists>c. ag_todo s c \<noteq> []")
    case True
    then obtain c m ms where "ag_todo s c = m # ms" by (metis list.exhaust)
    moreover have "length (ag_in s) < in_capacity" "agent_own (SendsIn c)" using Nil by (simp_all add: in_capacity_def)
    ultimately show ?thesis using agent_step.sends [OF assms(2)] by blast
  next
    case False
    with assms(3) Nil have l: "ag_loop s" "\<not> ag_listening s \<or> ag_accepted s < ag_arrived s" by auto
    have o: "agent_own AcceptClosed" "agent_own AcceptConn" by simp_all
    show ?thesis
      using o agent_step.accept_closed [OF assms(2) l(1)] agent_step.accepts [OF assms(2) l(1)] l(2) by blast
  qed
qed


section \<open>A client that ends the program\<close>

text \<open>A SOCKS client that asks for no authentication and connects to an address: the bytes it sends.\<close>

definition socks_client :: "saddr \<Rightarrow> bytes \<Rightarrow> bytes" where
  "socks_client a x = [5, 1, 0, 5, 1, 0] @ a @ x"

lemma socks_plain_handshake:
  assumes "addr_wf a" "parse_saddr localAddr = Some la"
  shows "serverHandshake (newAuthenticator []) localAddr (mk_conn (socks_client a x)) =
     (Inr (a, CmdConnect), (mk_conn x)\<lparr>wr := [[5, 0], [5, 0, 0] @ la]\<rparr>)"
  using assms by (simp add: serverHandshake_def socks_client_def mk_conn_def newAuthenticator_def CmdConnect_def Let_def)

lemma socks_client_end:
  assumes "addr_wf a" "parse_saddr localAddr = Some la"
  shows "fst (handleSocks5 localAddr remote localA (mk_conn (socks_client a x))) =
     map_sum id Some (newSocket a remote localA SOCKS5)"
  unfolding handleSocks5_def io_bind_def socks_plain_handshake [OF assms]
  by (simp add: CmdConnect_def CmdUDPAssociate_def io_res_def io_ret_def split: sum.splits)

lemma newSocket_long:
  assumes "254 \<le> length host" "length host \<le> 255"
  shows "newSocket (dest_addr (Domain host p)) remote localA SOCKS5 = Inl out_of_range"
  using parseSocksAddr_domain_lengths [of host p] assms by (simp add: newSocket_def)

lemma long_name_crashes:
  assumes "254 \<le> length host" "length host \<le> 255" "parse_saddr localAddr = Some la" "k \<noteq> HttpL"
  shows "listener_handler k localAddr remote localA http (mk_conn (socks_client (dest_addr (Domain host p)) x)) = Crashed out_of_range []"
proof -
  let ?c = "mk_conn (socks_client (dest_addr (Domain host p)) x)"
  have "addr_wf (dest_addr (Domain host p))" using assms(2) by (intro addr_wf_dest) simp
  from socks_client_end [OF this assms(3), of remote localA x]
  have e: "socks_end (fst (handleSocks5 localAddr remote localA ?c)) = Crashed out_of_range []"
    using assms by (simp add: newSocket_long socks_end_def out_of_range_def del: dest_addr.simps)
  obtain r where r: "rd ?c = 5 # r" by (simp add: socks_client_def mk_conn_def)
  show ?thesis using assms(4)
    by (cases k) (simp_all add: listener_handler_def handleSocks_def mixed_handleConn_def mixed_kind_def r e del: dest_addr.simps)
qed

text \<open>The same happens to a request that is sent on by the transport of an HTTP connection.\<close>

lemma dial_long_panics:
  assumes "254 \<le> length host" "length host \<le> 255" "parse_saddr address = Some (dest_addr (Domain host p))"
  shows "put_all ms (client_Dial ''tcp'' address source a # rs) = Crashed out_of_range ms"
  using parseSocksAddr_domain_lengths [of host p] assms by (simp add: client_Dial_def newHTTP_def out_of_range_def del: dest_addr.simps)

text \<open>C33: A client of a SOCKS or mixed listener that asks for a name of 254 or 255 bytes, which the protocol allows, ends the agent with
  all its connections: the handler panics, and after that the agent makes no step. Whatever the other connections do, three steps are
  enough.\<close>

theorem socks_client_crashes_agent:
  assumes "254 \<le> length host" "length host \<le> 255" "parse_saddr localAddr = Some la" "k \<noteq> HttpL"
    and "h 0 = listener_handler k localAddr remote localA http (mk_conn (socks_client (dest_addr (Domain host p)) x))"
  shows "\<exists>s. agent_run h proxies [Connects, AcceptConn, HandlerCrashes 0] s \<and> ag_crashed s
    \<and> (\<nexists>e t. agent_own e \<and> agent_step h proxies s e t)"
proof -
  have c: "h 0 = Crashed out_of_range []" using long_name_crashes [OF assms(1-4)] assms(5) by simp
  let ?s1 = "agent_start\<lparr>ag_arrived := 1\<rparr>"
  let ?s2 = "?s1\<lparr>ag_accepted := 1, ag_todo := (\<lambda>_. [])\<rparr>"
  let ?s3 = "?s2\<lparr>ag_crashed := True\<rparr>"
  have 1: "agent_step h proxies agent_start Connects ?s1"
    using agent_step.connects [of agent_start h proxies] by (simp add: agent_start_def)
  have 2: "agent_step h proxies ?s1 AcceptConn ?s2"
    using agent_step.accepts [of ?s1 h proxies] c by (simp add: agent_start_def fun_upd_idem)
  have 3: "agent_step h proxies ?s2 (HandlerCrashes 0) ?s3"
    using agent_step.crashes [of ?s2 0 h out_of_range "[]" proxies] c by (simp add: agent_start_def)
  have "agent_run h proxies [Connects, AcceptConn, HandlerCrashes 0] ?s3"
    using run_step [OF run_step [OF run_step [OF run_start 1] 2] 3] by simp
  moreover have "\<not> (agent_own e \<and> agent_step h proxies ?s3 e t)" for e t
    by (auto elim: agent_stepE)
  ultimately show ?thesis by (intro exI [of _ ?s3]) auto
qed

section \<open>Sample runs\<close>

definition sample_local :: string where "sample_local = dest_text (IP4 [127, 0, 0, 1] 1080)"

lemma sample_local_addr: "parse_saddr sample_local = Some (dest_addr (IP4 [127, 0, 0, 1] 1080))"
  unfolding sample_local_def by (rule parse_saddr_dest_text) simp

text \<open>The handlers of a mixed listener whose clients all ask for the same address.\<close>

definition sample_handler :: "string \<Rightarrow> nat \<Rightarrow> handler_end" where
  "sample_handler host c = listener_handler MixedL sample_local (OtherAddr ''client'') (OtherAddr ''agent'') (\<lambda>_. Shut)
     (mk_conn (socks_client (dest_addr (Domain host 80)) []))"

theorem socks_client_crashes_agent_witness:
  "\<exists>s. agent_run (sample_handler (replicate 254 CHR ''a'')) [()] [Connects, AcceptConn, HandlerCrashes 0] s \<and> ag_crashed s"
proof -
  let ?host = "replicate 254 CHR ''a''"
  have "254 \<le> length ?host" "length ?host \<le> 255" "MixedL \<noteq> HttpL" by simp_all
  from socks_client_crashes_agent [of ?host, OF this(1,2) sample_local_addr this(3), of "sample_handler ?host", OF sample_handler_def]
  show ?thesis by blast
qed

definition sample_meta :: metadata where
  "sample_meta = (meta_of (Domain ''ab'' 80))\<lparr>mNetWork := ''tcp'', mType := SOCKS5, mOrigin := ''agent''\<rparr>"

lemma sample_handler_ab: "sample_handler ''ab'' c = Puts [sample_meta]"
proof -
  let ?c = "mk_conn (socks_client (dest_addr (Domain ''ab'' 80)) [])"
  have "addr_wf (dest_addr (Domain ''ab'' 80))" by (intro addr_wf_dest) simp
  from socks_client_end [OF this sample_local_addr, of "OtherAddr ''client''" "OtherAddr ''agent''" "[]"]
  have e: "fst (handleSocks5 sample_local (OtherAddr ''client'') (OtherAddr ''agent'') ?c) = Inr (Some sample_meta)"
    using parseSocksAddr_domain_lengths [of "''ab''" 80]
    by (simp add: newSocket_def set_source_def sample_meta_def del: dest_addr.simps)
  obtain r where r: "rd ?c = 5 # r" by (simp add: socks_client_def mk_conn_def)
  show ?thesis
    by (simp add: sample_handler_def listener_handler_def mixed_handleConn_def mixed_kind_def r e socks_end_def del: dest_addr.simps)
qed

definition sample_end :: agent where
  "sample_end = agent_start\<lparr>ag_arrived := 1, ag_accepted := 1, ag_handled := [(0, sample_meta)]\<rparr>"

lemma sample_agent_run: "agent_run (sample_handler ''ab'') [()] [Connects, AcceptConn, SendsIn 0, Pumps] sample_end"
proof -
  let ?h = "sample_handler ''ab''"
  let ?s1 = "agent_start\<lparr>ag_arrived := 1\<rparr>"
  let ?s2 = "?s1\<lparr>ag_accepted := 1, ag_todo := (\<lambda>_. [])(0 := [sample_meta])\<rparr>"
  let ?s3 = "?s1\<lparr>ag_accepted := 1, ag_in := [(0, sample_meta)]\<rparr>"
  have 1: "agent_step ?h [()] agent_start Connects ?s1"
    using agent_step.connects [of agent_start ?h "[()]"] by (simp add: agent_start_def)
  have 2: "agent_step ?h [()] ?s1 AcceptConn ?s2"
    using agent_step.accepts [of ?s1 ?h "[()]"] by (simp add: agent_start_def sample_handler_ab)
  have 3: "agent_step ?h [()] ?s2 (SendsIn 0) ?s3"
    using agent_step.sends [of ?s2 0 sample_meta "[]" ?h "[()]"] by (simp add: agent_start_def in_capacity_def fun_upd_idem)
  have 4: "agent_step ?h [()] ?s3 Pumps sample_end"
    using agent_step.pumps [of ?s3 "(0, sample_meta)" "[]" ?h "[()]"] by (simp add: agent_start_def sample_end_def)
  from run_step [OF run_step [OF run_step [OF run_step [OF run_start 1] 2] 3] 4] show ?thesis by simp
qed

theorem agent_in_order_witness:
  "agent_run (sample_handler ''ab'') [()] [Connects, AcceptConn, SendsIn 0, Pumps] sample_end
    \<and> prefix (of_conn 0 (ag_handled sample_end)) [sample_meta] \<and> length (ag_in sample_end) \<le> in_capacity"
  using agent_in_order [OF sample_agent_run, of 0] sample_agent_run by (simp add: sample_handler_ab)

lemma handleTCPConn_one: "\<not> is_panic (handleTCPConn [p] m)"
  by (simp add: handleTCPConn_def resolveMetadata_def Let_def)

lemma sample_end_rests: "\<not> (agent_own e \<and> agent_step (sample_handler ''ab'') [()] sample_end e t)"
  by (auto simp: sample_end_def agent_start_def sample_handler_ab handleTCPConn_one elim!: agent_stepE)


end
