(* ===== verification/Console.thy ===== *)
theory Console
  imports Relay
begin

text \<open>
  The end of \<open>stdConnectServer\<close> of \<open>client.go\<close>: standard input and output, or their replacement, coupled with the connection to the
  server. Unlike \<open>Relay\<close>, a copier closes the side that it has read from, and nothing makes the other copier end. Sides and phases are
  those of \<open>Relay\<close>: \<open>LeftS\<close> is the local side (\<open>StdReadWriteCloser\<close> of \<open>readwriter.go\<close>, whose \<open>Close\<close> closes input and output),
  \<open>RightS\<close> the server.
\<close>

section \<open>The model\<close>

record std_state =
  st_arrived :: "side \<Rightarrow> bytes"
  st_inp :: "side \<Rightarrow> bytes"
  st_end :: "side \<Rightarrow> gerr option option"
  st_out :: "side \<Rightarrow> bytes"
  st_phase :: "side \<Rightarrow> phase"
  st_closed :: "side \<Rightarrow> bool"
  st_returned :: bool

definition std_start :: std_state where
  "std_start = \<lparr>st_arrived = (\<lambda>_. []), st_inp = (\<lambda>_. []), st_end = (\<lambda>_. None), st_out = (\<lambda>_. []), st_phase = (\<lambda>_. Reading),
     st_closed = (\<lambda>_. False), st_returned = False\<rparr>"

definition socketBufferLength :: nat where "socketBufferLength = 16384"

text \<open>\<open>Close\<close> of standard input and output reports the first error, but closes both.\<close>

definition std_Close :: "gerr option \<Rightarrow> gerr option \<Rightarrow> gerr option" where
  "std_Close err1 err2 = (if err1 \<noteq> None then err1 else if err2 \<noteq> None then err2 else None)"

datatype std_ev = SArrive side bytes | SFinish side "gerr option" | SRead side nat | SReadEnd side | SWriteAll side
  | SWriteFail side nat gerr | SWriteClosed side gerr | SClose side | SReturn

inductive std_step :: "std_state \<Rightarrow> std_ev \<Rightarrow> std_state \<Rightarrow> bool" where
  arrive: "st_end s c = None \<Longrightarrow>
    std_step s (SArrive c b) (s\<lparr>st_arrived := (st_arrived s)(c := st_arrived s c @ b), st_inp := (st_inp s)(c := st_inp s c @ b)\<rparr>)"
| finish: "st_end s c = None \<Longrightarrow> std_step s (SFinish c e) (s\<lparr>st_end := (st_end s)(c := Some e)\<rparr>)"
| read: "st_phase s c = Reading \<Longrightarrow> 1 \<le> n \<Longrightarrow> n \<le> length (st_inp s c) \<Longrightarrow> n \<le> socketBufferLength \<Longrightarrow>
    std_step s (SRead c n) (s\<lparr>st_phase := (st_phase s)(c := Writing (take n (st_inp s c))), st_inp := (st_inp s)(c := drop n (st_inp s c))\<rparr>)"
| ended: "st_phase s c = Reading \<Longrightarrow> st_inp s c = [] \<Longrightarrow> st_end s c = Some e \<Longrightarrow>
    std_step s (SReadEnd c) (s\<lparr>st_phase := (st_phase s)(c := Ended e)\<rparr>)"
| wrote: "st_phase s c = Writing b \<Longrightarrow> \<not> st_closed s (other c) \<Longrightarrow>
    std_step s (SWriteAll c) (s\<lparr>st_out := (st_out s)(other c := st_out s (other c) @ b), st_phase := (st_phase s)(c := Reading)\<rparr>)"
| wfail: "st_phase s c = Writing b \<Longrightarrow> \<not> st_closed s (other c) \<Longrightarrow> k < length b \<Longrightarrow>
    std_step s (SWriteFail c k e) (s\<lparr>st_out := (st_out s)(other c := st_out s (other c) @ take k b), st_phase := (st_phase s)(c := Ended (Some e))\<rparr>)"
| wclosed: "st_phase s c = Writing b \<Longrightarrow> st_closed s (other c) \<Longrightarrow>
    std_step s (SWriteClosed c e) (s\<lparr>st_phase := (st_phase s)(c := Ended (Some e))\<rparr>)"
| close: "st_phase s c = Ended e \<Longrightarrow> \<not> st_closed s c \<Longrightarrow> std_step s (SClose c) (s\<lparr>st_closed := (st_closed s)(c := True)\<rparr>)"
| return: "st_closed s LeftS \<Longrightarrow> st_closed s RightS \<Longrightarrow> \<not> st_returned s \<Longrightarrow> std_step s SReturn (s\<lparr>st_returned := True\<rparr>)"

inductive_cases std_stepE: "std_step s e t"

inductive std_run :: "std_ev list \<Rightarrow> std_state \<Rightarrow> bool" where
  srun_init: "std_run [] std_start"
| srun_step: "std_run es s \<Longrightarrow> std_step s e t \<Longrightarrow> std_run (es @ [e]) t"

fun std_own :: "std_ev \<Rightarrow> bool" where
  "std_own (SArrive c b) = False" | "std_own (SFinish c e) = False" | "std_own _ = True"

section \<open>Order\<close>

definition std_inv :: "std_state \<Rightarrow> side \<Rightarrow> bool" where
  "std_inv s c \<longleftrightarrow>
     (case st_phase s c of
        Reading \<Rightarrow> st_arrived s c = st_out s (other c) @ st_inp s c
      | Writing b \<Rightarrow> st_arrived s c = st_out s (other c) @ b @ st_inp s c
      | Ended None \<Rightarrow> st_arrived s c = st_out s (other c) \<and> st_end s c = Some None
      | Ended (Some e) \<Rightarrow> prefix (st_out s (other c)) (st_arrived s c))
     \<and> (st_closed s c \<longrightarrow> (\<exists>e. st_phase s c = Ended e))"

lemma std_step_inv: "std_step s e t \<Longrightarrow> std_inv s d \<Longrightarrow> std_inv t d"
proof (induction rule: std_step.induct)
  case (wfail s c b k e)
  have "prefix (take k b) (b @ st_inp s c)" using take_is_prefix [of k b] by (rule prefix_prefix)
  then show ?case using wfail by (auto simp: std_inv_def split: phase.splits option.splits)
qed (auto simp: std_inv_def prefix_def split: phase.splits option.splits)

lemma std_run_inv: "std_run es s \<Longrightarrow> std_inv s c"
  by (induction rule: std_run.induct) (auto intro: std_step_inv, simp add: std_inv_def std_start_def)

lemma std_run_returned: "std_run es s \<Longrightarrow> st_returned s \<Longrightarrow> st_closed s LeftS \<and> st_closed s RightS"
  by (induction rule: std_run.induct) (auto simp: std_start_def elim!: std_stepE split: if_splits)

text \<open>What was written to one side is a prefix of what came from the other, all of it when the copier ended without an error; when the
  function has returned both sides are closed.\<close>

theorem std_in_order:
  assumes "std_run es s"
  shows "prefix (st_out s (other c)) (st_arrived s c)
    \<and> (st_phase s c = Ended None \<longrightarrow> st_out s (other c) = st_arrived s c \<and> st_end s c = Some None)
    \<and> (st_returned s \<longrightarrow> st_closed s c \<and> (\<exists>e. st_phase s c = Ended e))"
proof -
  have i: "std_inv s c" by (rule std_run_inv [OF assms])
  then have "prefix (st_out s (other c)) (st_arrived s c)" by (auto simp: std_inv_def split: phase.splits option.splits)
  moreover have "st_returned s \<Longrightarrow> st_closed s c" using std_run_returned [OF assms] by (cases c) simp_all
  ultimately show ?thesis using i by (auto simp: std_inv_def)
qed

section \<open>When it returns\<close>

definition std_weight :: "std_state \<Rightarrow> side \<Rightarrow> nat" where
  "std_weight s c = 2 * length (st_inp s c) + phase_weight (st_phase s c) + (if st_closed s c then 0 else 1)"

definition std_measure :: "std_state \<Rightarrow> nat" where
  "std_measure s = std_weight s LeftS + std_weight s RightS + (if st_returned s then 0 else 1)"

lemma std_measure_sides: "std_measure s = std_weight s c + std_weight s (other c) + (if st_returned s then 0 else 1)"
  by (cases c) (simp_all add: std_measure_def)

lemma std_own_decreases: "std_step s e t \<Longrightarrow> std_own e \<Longrightarrow> std_measure t < std_measure s"
proof (induction rule: std_step.induct)
  case (return s)
  then show ?case by (simp add: std_measure_def std_weight_def)
next
  case (read s c n)
  then show ?case unfolding std_measure_sides [of _ c] by (simp add: std_weight_def phase_weight_def)
next
  case (ended s c e)
  then show ?case unfolding std_measure_sides [of _ c] by (simp add: std_weight_def phase_weight_def)
next
  case (wrote s c b)
  then show ?case unfolding std_measure_sides [of _ c] by (simp add: std_weight_def phase_weight_def)
next
  case (wfail s c b k e)
  then show ?case unfolding std_measure_sides [of _ c] by (simp add: std_weight_def phase_weight_def)
next
  case (wclosed s c b e)
  then show ?case unfolding std_measure_sides [of _ c] by (simp add: std_weight_def phase_weight_def)
next
  case (close s c e)
  then show ?case unfolding std_measure_sides [of _ c] by (simp add: std_weight_def phase_weight_def)
qed simp_all

text \<open>A copier that is not waiting for its peer can go on.\<close>

definition waits :: "std_state \<Rightarrow> side \<Rightarrow> bool" where
  "waits s c \<longleftrightarrow> st_phase s c = Reading \<and> st_inp s c = [] \<and> st_end s c = None"

lemma copier_goes_on:
  assumes "\<not> waits s c" "\<not> st_closed s c"
  shows "\<exists>e t. std_own e \<and> std_step s e t"
proof (cases "st_phase s c")
  case Reading
  show ?thesis
  proof (cases "st_inp s c = []")
    case True
    then obtain r where "st_end s c = Some r" using assms(1) Reading by (auto simp: waits_def)
    moreover have "std_own (SReadEnd c)" by simp
    ultimately show ?thesis using std_step.ended [OF Reading True] by blast
  next
    case False
    then have "1 \<le> length (st_inp s c)" "1 \<le> socketBufferLength" by (simp_all add: Suc_le_eq socketBufferLength_def)
    moreover have "std_own (SRead c 1)" by simp
    ultimately show ?thesis using std_step.read [OF Reading order_refl] by blast
  qed
next
  case (Writing b)
  have "std_own (SWriteAll c)" "std_own (SWriteClosed c ConnErr)" by simp_all
  then show ?thesis using std_step.wrote [OF Writing] std_step.wclosed [OF Writing] by blast
next
  case (Ended e)
  have "std_own (SClose c)" by simp
  then show ?thesis using std_step.close [OF Ended assms(2)] by blast
qed

text \<open>The function returns when both sides have ended, and only then: in a state in which it can do nothing it has returned, or waits for
  a side that neither sends nor ends, whatever the other side does. Between two events of the sides it does finitely many steps.\<close>

theorem std_returns:
  assumes "std_run es s"
  shows "((\<nexists>e t. std_own e \<and> std_step s e t) \<longrightarrow> st_returned s \<or> waits s LeftS \<or> waits s RightS)
    \<and> (waits s c \<longrightarrow> \<not> st_returned s)
    \<and> (std_own e \<and> std_step s e t \<longrightarrow> std_measure t < std_measure s)"
proof (intro conjI impI)
  assume stuck: "\<nexists>e t. std_own e \<and> std_step s e t"
  show "st_returned s \<or> waits s LeftS \<or> waits s RightS"
  proof (rule ccontr)
    assume n: "\<not> (st_returned s \<or> waits s LeftS \<or> waits s RightS)"
    then have "st_closed s LeftS" "st_closed s RightS" using stuck copier_goes_on by blast+
    moreover have "std_own SReturn" by simp
    ultimately show False using std_step.return [of s] n stuck by blast
  qed
next
  assume "waits s c"
  then show "\<not> st_returned s" using std_in_order [OF assms, of c] by (auto simp: waits_def)
next
  assume "std_own e \<and> std_step s e t"
  then show "std_measure t < std_measure s" using std_own_decreases by blast
qed

section \<open>Two runs\<close>

lemma std_to: "std_step s e t \<Longrightarrow> t = u \<Longrightarrow> std_step s e u"
  by simp

text \<open>After the server has ended the connection, the client still waits for its input.\<close>

definition server_gone :: std_state where
  "server_gone = std_start\<lparr>st_end := (\<lambda>_. None)(RightS := Some None), st_phase := (\<lambda>_. Reading)(RightS := Ended None),
     st_closed := (\<lambda>_. False)(RightS := True)\<rparr>"

lemma server_gone_run: "std_run [SFinish RightS None, SReadEnd RightS, SClose RightS] server_gone"
proof -
  let ?s1 = "std_start\<lparr>st_end := (\<lambda>_. None)(RightS := Some None)\<rparr>"
  let ?s2 = "?s1\<lparr>st_phase := (\<lambda>_. Reading)(RightS := Ended None)\<rparr>"
  have 1: "std_step std_start (SFinish RightS None) ?s1"
    by (rule std_to, rule std_step.finish) (simp_all add: std_start_def)
  have 2: "std_step ?s1 (SReadEnd RightS) ?s2"
    by (rule std_to, rule std_step.ended [where e = None]) (simp_all add: std_start_def)
  have 3: "std_step ?s2 (SClose RightS) server_gone"
    by (rule std_to, rule std_step.close [where e = None]) (simp_all add: std_start_def server_gone_def)
  from srun_step [OF srun_step [OF srun_step [OF srun_init 1] 2] 3] show ?thesis by simp
qed

lemma server_gone_stuck: "\<not> (std_own e \<and> std_step server_gone e t)"
  by (auto simp: server_gone_def std_start_def elim!: std_stepE split: if_splits)

theorem std_returns_witness:
  "(\<nexists>e t. std_own e \<and> std_step server_gone e t) \<and> waits server_gone LeftS \<and> \<not> st_returned server_gone"
proof -
  have "waits server_gone LeftS" by (simp add: waits_def server_gone_def std_start_def)
  then show ?thesis using std_returns [OF server_gone_run, of LeftS] server_gone_stuck by blast
qed

text \<open>When the input ends first, as it does in a pipeline, the output is closed with it, and the answer is lost.\<close>

definition input_gone :: "bytes \<Rightarrow> std_state" where
  "input_gone ans = \<lparr>st_arrived = (\<lambda>_. [])(RightS := ans), st_inp = (\<lambda>_. []), st_end = (\<lambda>_. None)(LeftS := Some None), st_out = (\<lambda>_. []),
     st_phase = (\<lambda>_. Ended (Some NetClosed))(LeftS := Ended None), st_closed = (\<lambda>_. False)(LeftS := True), st_returned = False\<rparr>"

lemma input_gone_run:
  assumes "ans \<noteq> []" "length ans \<le> socketBufferLength"
  shows "std_run [SFinish LeftS None, SReadEnd LeftS, SClose LeftS, SArrive RightS ans, SRead RightS (length ans), SWriteClosed RightS NetClosed]
    (input_gone ans)"
proof -
  let ?s1 = "std_start\<lparr>st_end := (\<lambda>_. None)(LeftS := Some None)\<rparr>"
  let ?s2 = "?s1\<lparr>st_phase := (\<lambda>_. Reading)(LeftS := Ended None)\<rparr>"
  let ?s3 = "?s2\<lparr>st_closed := (\<lambda>_. False)(LeftS := True)\<rparr>"
  let ?s4 = "?s3\<lparr>st_arrived := (\<lambda>_. [])(RightS := ans), st_inp := (\<lambda>_. [])(RightS := ans)\<rparr>"
  let ?s5 = "?s3\<lparr>st_arrived := (\<lambda>_. [])(RightS := ans), st_phase := (\<lambda>_. Writing ans)(LeftS := Ended None)\<rparr>"
  have 1: "std_step std_start (SFinish LeftS None) ?s1"
    by (rule std_to, rule std_step.finish) (simp_all add: std_start_def)
  have 2: "std_step ?s1 (SReadEnd LeftS) ?s2"
    by (rule std_to, rule std_step.ended [where e = None]) (simp_all add: std_start_def)
  have 3: "std_step ?s2 (SClose LeftS) ?s3"
    by (rule std_to, rule std_step.close [where e = None]) (simp_all add: std_start_def)
  have 4: "std_step ?s3 (SArrive RightS ans) ?s4"
    by (rule std_to, rule std_step.arrive) (simp_all add: std_start_def)
  have 5: "std_step ?s4 (SRead RightS (length ans)) ?s5"
    by (rule std_to, rule std_step.read [where n = "length ans"]) (use assms in \<open>simp_all add: std_start_def fun_side_eq Suc_le_eq\<close>)
  have 6: "std_step ?s5 (SWriteClosed RightS NetClosed) (input_gone ans)"
    by (rule std_to, rule std_step.wclosed [where b = ans]) (simp_all add: std_start_def input_gone_def fun_side_eq)
  from srun_step [OF srun_step [OF srun_step [OF srun_step [OF srun_step [OF srun_step [OF srun_init 1] 2] 3] 4] 5] 6]
  show ?thesis by simp
qed

text \<open>No byte of the answer is shown, however it arrives later, since the local side stays closed.\<close>

lemma closed_stays: "std_step s e t \<Longrightarrow> st_closed s c \<Longrightarrow> st_closed t c \<and> st_out t c = st_out s c"
  by (auto elim!: std_stepE)

theorem std_in_order_witness:
  "\<exists>s. std_run [SFinish LeftS None, SReadEnd LeftS, SClose LeftS, SArrive RightS [7], SRead RightS 1, SWriteClosed RightS NetClosed] s
    \<and> prefix (st_out s LeftS) (st_arrived s RightS) \<and> st_out s LeftS \<noteq> st_arrived s RightS \<and> st_out s RightS = st_arrived s LeftS"
proof -
  have r: "std_run [SFinish LeftS None, SReadEnd LeftS, SClose LeftS, SArrive RightS [7], SRead RightS 1, SWriteClosed RightS NetClosed] (input_gone [7])"
    using input_gone_run [of "[7]"] by (simp add: socketBufferLength_def)
  from std_in_order [OF r, of RightS] have p: "prefix (st_out (input_gone [7]) LeftS) (st_arrived (input_gone [7]) RightS)" by simp
  show ?thesis by (intro exI [of _ "input_gone [7]"] conjI r p) (simp_all add: input_gone_def)
qed

end
