(* ===== verification/Links.thy ===== *)
theory Links
  imports ServerFacts MuxPool Certs
begin

text \<open>
  How connections come about. First the control channel: the message with which the server (\<open>server.go\<close>) asks an agent for a connection,
  what the agent (\<open>outbound/wless.go\<close>) makes of it, and that the connection it opens is joined with the one that waits for it. Then what
  the functions that open connections return and close: \<open>wss/websocket.go\<close>, \<open>wss/conn.go\<close>, \<open>anytls/client.go\<close> and the second half of
  \<open>listener/http/upgrade.go\<close>; dialling, TLS and the handshakes are parameters.
\<close>

section \<open>Control messages\<close>

text \<open>The \<open>Data\<close> of a message holds values of JSON; strings and booleans are looked at.\<close>

datatype jval = JString string | JBool bool | JOther

record control_message =
  cm_Command :: nat
  cm_Data :: "(string \<times> jval) list"

definition CommandLink :: nat where "CommandLink = 0x01"
definition CommandPing :: nat where "CommandPing = 0x02"

definition link_message :: "link \<Rightarrow> control_message" where
  "link_message l = \<lparr>cm_Command = CommandLink,
     cm_Data = [(''Code'', JString (lkCode l)), (''Network'', JString ''tcp''), (''Mux'', JBool (lkMux l)), (''Proto'', JString (lkProto l))]\<rparr>"

definition ping_message :: control_message where
  "ping_message = \<lparr>cm_Command = CommandPing, cm_Data = []\<rparr>"

text \<open>The type assertion \<open>cmd.Data[k].(string)\<close> panics when there is no string, in a routine that does not recover.\<close>

definition data_string :: "(string \<times> jval) list \<Rightarrow> string \<Rightarrow> string res" where
  "data_string d k = (case map_of d k of Some (JString s) \<Rightarrow> Ok s | _ \<Rightarrow> Err (Panic ''interface conversion''))"

definition data_bool :: "(string \<times> jval) list \<Rightarrow> string \<Rightarrow> bool" where
  "data_bool d k = (case map_of d k of Some (JBool b) \<Rightarrow> b | _ \<Rightarrow> False)"

text \<open>What the agent does with a message: nothing, or \<open>connectLocal\<close> with a code, a network, a protocol and whether it is multiplexed.\<close>

record link_request =
  lr_code :: string
  lr_network :: string
  lr_proto :: string
  lr_mux :: bool

definition handle_command :: "control_message \<Rightarrow> link_request option res" where
  "handle_command m =
     (if cm_Command m = CommandLink then
        rbind (data_string (cm_Data m) ''Code'') (\<lambda>code.
        rbind (data_string (cm_Data m) ''Network'') (\<lambda>network.
        rbind (data_string (cm_Data m) ''Proto'') (\<lambda>proto.
          Ok (Some \<lparr>lr_code = code, lr_network = network, lr_proto = proto, lr_mux = data_bool (cm_Data m) ''Mux''\<rparr>))))
      else Ok None)"

text \<open>The WebSocket that \<open>connectLocal\<close> opens.\<close>

definition link_connect :: "(string \<times> string) list \<Rightarrow> link_request \<Rightarrow> connect_param \<times> header" where
  "link_connect hdr lr =
     (\<lparr>cp_name = [], cp_role = [], cp_code = lr_code lr, cp_mode = connectLocal_mode (lr_mux lr)\<rparr>, wss_Header (lr_proto lr) hdr)"

lemma handle_link: "handle_command (link_message l) = Ok (Some \<lparr>lr_code = lkCode l, lr_network = ''tcp'', lr_proto = lkProto l, lr_mux = lkMux l\<rparr>)"
  by (simp add: handle_command_def link_message_def data_string_def data_bool_def)

lemma handle_ping: "handle_command ping_message = Ok None"
  by (simp add: handle_command_def ping_message_def CommandPing_def CommandLink_def)

text \<open>A link message without a code, or with one that is not a string, ends the agent.\<close>

lemma link_without_code:
  "cm_Command m = CommandLink \<Longrightarrow> map_of (cm_Data m) ''Code'' = None \<Longrightarrow> is_panic (handle_command m)"
  by (simp add: handle_command_def data_string_def)

section \<open>The connection that answers\<close>

text \<open>The request that reaches the server, and the state of the rendezvous after the connection that asks by name.\<close>

definition link_seen :: "string \<Rightarrow> string \<Rightarrow> (string \<times> string) list \<Rightarrow> link_request \<Rightarrow> http_request" where
  "link_seen server path hdr lr =
     (case link_connect hdr lr of (cp, h) \<Rightarrow> seen_request ''websocket'' (header_get h ''proto'') path (connect_url server cp))"

lemma link_seen_fields:
  assumes "CHR ''?'' \<notin> set server" "CHR ''#'' \<notin> set server"
  shows "qName (link_seen server path hdr lr) = []" "qCode (link_seen server path hdr lr) = lr_code lr"
    "serveHTTP (link_seen server path hdr lr) = RForward" "isMux (qMode (link_seen server path hdr lr)) = lr_mux lr"
  using connect_query_fields [OF assms, of "header_get (wss_Header (lr_proto lr) hdr) ''proto''" path
      "\<lparr>cp_name = [], cp_role = [], cp_code = lr_code lr, cp_mode = connectLocal_mode (lr_mux lr)\<rparr>"]
  by (simp_all add: link_seen_def link_connect_def Let_def connectLocal_mode_def isDirect_def isForward_def isMux_def
      ModeDirect_def ModeForward_def ModeDirectMux_def ModeForwardMux_def)

lemma asks_by_name:
  assumes "qName r \<noteq> []" "manageConn s (qName r) = Some a" "groupConn s now = None"
  shows "forwardConnect c r now s = s\<lparr>linksSent := linksSent s @ [\<lparr>lkTo = a, lkCode = now, lkMux = isMux (qMode r), lkProto = forwardProto r\<rparr>],
      pairs := (pairs s)(nextPair s := \<lparr>pconns = [c], pdone = False\<rparr>), groupConn := (groupConn s)(now \<mapsto> nextPair s),
      nextPair := nextPair s + 1, handlers := (handlers s)(c \<mapsto> Waiting (nextPair s))\<rparr>"
  using assms by (simp add: forwardConnect_def pair_up_def Let_def)

text \<open>C35: A connection that asks for an agent by its name gets it: the server sends the agent one link message, which the agent understands;
  the WebSocket that it opens for it is handled by the rendezvous and joined with the connection that asked, provided that the code of
  the server's clock was not in use and is still registered when it arrives. The agent uses the protocol and the multiplexing that the
  other connection asked for.\<close>

theorem agent_answers_link:
  assumes "qName r \<noteq> []" "manageConn s (qName r) = Some a" "groupConn s now = None" "now \<noteq> []"
    and "CHR ''?'' \<notin> set server" "CHR ''#'' \<notin> set server"
    and "groupConn t now = groupConn (forwardConnect c r now s) now"
    and "pairs t (nextPair s) = pairs (forwardConnect c r now s) (nextPair s)"
  shows "\<exists>l lr. linksSent (forwardConnect c r now s) = linksSent s @ [l] \<and> lkTo l = a \<and> handle_command (link_message l) = Ok (Some lr)
    \<and> handlers (forwardConnect c r now s) c = Some (Waiting (nextPair s))
    \<and> serveHTTP (link_seen server path hdr lr) = RForward \<and> \<not> forward_refused (link_seen server path hdr lr) t
    \<and> handlers (forwardConnect d (link_seen server path hdr lr) now' t) d = Some (Relaying (nextPair s) now c d)
    \<and> pconns (pairs (forwardConnect d (link_seen server path hdr lr) now' t) (nextPair s)) = [c, d]
    \<and> lr_proto lr = forwardProto r \<and> lr_mux lr = isMux (qMode r) \<and> isMux (qMode (link_seen server path hdr lr)) = isMux (qMode r)"
proof -
  let ?l = "\<lparr>lkTo = a, lkCode = now, lkMux = isMux (qMode r), lkProto = forwardProto r\<rparr>"
  let ?lr = "\<lparr>lr_code = now, lr_network = ''tcp'', lr_proto = forwardProto r, lr_mux = isMux (qMode r)\<rparr>"
  let ?q = "link_seen server path hdr ?lr"
  note f = asks_by_name [OF assms(1-3), of c]
  have h: "handle_command (link_message ?l) = Ok (Some ?lr)" by (simp add: handle_link)
  have q: "qName ?q = []" "qCode ?q = now" "serveHTTP ?q = RForward" "isMux (qMode ?q) = isMux (qMode r)"
    using link_seen_fields [OF assms(5,6), of path hdr ?lr] by simp_all
  have t: "groupConn t now = Some (nextPair s)" "pairs t (nextPair s) = \<lparr>pconns = [c], pdone = False\<rparr>"
    using assms(7,8) f by simp_all
  have j: "forwardConnect d ?q now' t = pair_up d now t" using q assms(4) by (simp add: forwardConnect_def)
  have "handlers (forwardConnect d ?q now' t) d = Some (Relaying (nextPair s) now c d)"
    "pconns (pairs (forwardConnect d ?q now' t) (nextPair s)) = [c, d]" unfolding j by (simp_all add: pair_up_def t Let_def)
  moreover have "\<not> forward_refused ?q t" using q assms(4) by (simp add: forward_refused_def)
  ultimately show ?thesis using f h q by (intro exI [of _ ?l] exI [of _ ?lr]) simp
qed

theorem agent_answers_link_witness:
  "\<exists>l lr. handle_command (link_message l) = Ok (Some lr) \<and> serveHTTP (link_seen ''wss://h/'' ''/'' [] lr) = RForward
    \<and> lkTo l = 5 \<and> lr_mux lr \<and> lr_proto lr = Vless"
proof -
  define s where "s = init_server\<lparr>manageConn := [''home'' \<mapsto> 5]\<rparr>"
  define r where "r = (code_request [])\<lparr>qName := ''home'', qMode := ModeForwardMux, hProto := Vless\<rparr>"
  have "qName r \<noteq> []" "manageConn s (qName r) = Some 5" "groupConn s ''now'' = None" "''now'' \<noteq> []"
    "CHR ''?'' \<notin> set ''wss://h/''" "CHR ''#'' \<notin> set ''wss://h/''"
    by (simp_all add: r_def s_def init_server_def)
  from agent_answers_link [OF this refl refl, of 1] obtain l lr where
    "handle_command (link_message l) = Ok (Some lr)" "serveHTTP (link_seen ''wss://h/'' ''/'' [] lr) = RForward" "lkTo l = 5"
    "lr_proto lr = forwardProto r" "lr_mux lr = isMux (qMode r)" by blast
  moreover have "forwardProto r = Vless" "isMux (qMode r)" by (simp_all add: r_def forwardProto_def isMux_def)
  ultimately show ?thesis by auto
qed

section \<open>Opening a WebSocket\<close>

text \<open>The dialer: through \<open>DialProxy\<close> when there is one, directly when there is none or it fails.\<close>

definition ws_netDial :: "(string \<Rightarrow> 'c res) option \<Rightarrow> (string \<Rightarrow> 'c res) \<Rightarrow> string \<Rightarrow> 'c res" where
  "ws_netDial dialProxy dial address =
     (case dialProxy of None \<Rightarrow> dial address | Some p \<Rightarrow> (case p address of Inr c \<Rightarrow> Ok c | Inl _ \<Rightarrow> dial address))"

text \<open>\<open>RawWebSocketConnect\<close> with the outcome of the handshake for a URL: an error, or the connection with the status and the text of the
  answer. A request without a header gets an empty one.\<close>

definition rawWebSocketConnect ::
  "(string \<Rightarrow> header \<Rightarrow> gerr + 'w \<times> nat \<times> string) \<Rightarrow> string \<Rightarrow> connect_param \<Rightarrow> header option \<Rightarrow> 'w res" where
  "rawWebSocketConnect handshake server p hdr =
     (case handshake (connect_url server p) (case hdr of None \<Rightarrow> Map.empty | Some h \<Rightarrow> h) of
        Inl e \<Rightarrow> Inl e
      | Inr (w, status, text) \<Rightarrow> if status \<noteq> 101 then Err (Msg (''statusCode != 101:'' @ [CHR 0x0A] @ text)) else Ok w)"

definition webSocketConnect ::
  "(string \<Rightarrow> header \<Rightarrow> gerr + 'w \<times> nat \<times> string) \<Rightarrow> ('w \<Rightarrow> string) \<Rightarrow> string \<Rightarrow> connect_param \<Rightarrow> header option \<Rightarrow> ('w \<times> string) res" where
  "webSocketConnect handshake remoteAddr server p hdr = rbind (rawWebSocketConnect handshake server p hdr) (\<lambda>w. Ok (w, remoteAddr w))"

lemma webSocketConnect_ok:
  "webSocketConnect handshake remoteAddr server p hdr = Ok (w, a) \<longleftrightarrow>
     (\<exists>text. handshake (connect_url server p) (case hdr of None \<Rightarrow> Map.empty | Some h \<Rightarrow> h) = Inr (w, 101, text)) \<and> a = remoteAddr w"
  by (auto simp: webSocketConnect_def rawWebSocketConnect_def rbind_Ok_iff split: sum.splits if_splits)

text \<open>A WebSocket over a connection that is there already. Of a header with several values only the first is sent.\<close>

record ws_config =
  wc_Host :: string
  wc_Port :: string
  wc_Path :: string
  wc_Headers :: "header option"
  wc_TLS :: bool

record ws_url =
  wu_scheme :: string
  wu_host :: string
  wu_path :: string
  wu_query :: string

definition header_add :: "header \<Rightarrow> string \<Rightarrow> string \<Rightarrow> header" where
  "header_add h k v = h(canonical k \<mapsto> (case h (canonical k) of None \<Rightarrow> [v] | Some vs \<Rightarrow> vs @ [v]))"

definition copied_headers :: "string list \<Rightarrow> header option \<Rightarrow> header" where
  "copied_headers keys hdr =
     (case hdr of None \<Rightarrow> Map.empty | Some src \<Rightarrow> foldl (\<lambda>h k. header_add h k (header_get src k)) Map.empty keys)"

definition streamWebSocketConn ::
  "(string \<Rightarrow> string + string \<times> string) \<Rightarrow> string list \<Rightarrow> (ws_url \<Rightarrow> header \<Rightarrow> (string \<times> string option) + 'w) \<Rightarrow> ws_config \<Rightarrow> 'w res" where
  "streamWebSocketConn url_parse keys dial c =
     (case url_parse (wc_Path c) of
        Inl e \<Rightarrow> Err (Msg (''parse url '' @ wc_Path c @ '' error: '' @ e))
      | Inr (path, query) \<Rightarrow>
          let uri = \<lparr>wu_scheme = (if wc_TLS c then ''wss'' else ''ws''), wu_host = join_host_port (wc_Host c) (wc_Port c),
                     wu_path = path, wu_query = query\<rparr>
          in (case dial uri (copied_headers keys (wc_Headers c)) of
                Inl (e, status) \<Rightarrow>
                  Err (Msg (''dial '' @ wu_host uri @ '' error: '' @ (case status of None \<Rightarrow> e | Some st \<Rightarrow> st)))
              | Inr w \<Rightarrow> Ok w))"

lemma header_add_at:
  "canonical k \<noteq> c \<Longrightarrow> header_add h k v c = h c"
  "h (canonical k) = None \<Longrightarrow> header_add h k v (canonical k) = Some [v]"
  by (simp_all add: header_add_def)

lemma copied_first_value:
  assumes "distinct (map canonical keys)" "k \<in> set keys"
  shows "copied_headers keys (Some src) (canonical k) = Some [header_get src k]"
proof -
  have other: "canonical k \<notin> canonical ` set ks \<Longrightarrow> foldl (\<lambda>h k. header_add h k (header_get src k)) h ks (canonical k) = h (canonical k)" for h ks
    by (induction ks arbitrary: h) (auto simp: header_add_at)
  have "\<forall>k \<in> set ks. h (canonical k) = None \<Longrightarrow> k \<in> set ks \<Longrightarrow> distinct (map canonical ks) \<Longrightarrow>
      foldl (\<lambda>h k. header_add h k (header_get src k)) h ks (canonical k) = Some [header_get src k]" for h ks
  proof (induction ks arbitrary: h)
    case (Cons x ks)
    show ?case
    proof (cases "k = x")
      case True
      then show ?thesis using Cons.prems other [of ks "header_add h x (header_get src x)"] by (simp add: header_add_at)
    next
      case False
      then have "k \<in> set ks" using Cons.prems(2) by simp
      moreover have "\<forall>y \<in> set ks. header_add h x (header_get src x) (canonical y) = None"
      proof
        fix y assume y: "y \<in> set ks"
        then have "canonical x \<noteq> canonical y" using Cons.prems(3) by auto
        then show "header_add h x (header_get src x) (canonical y) = None" using y Cons.prems(1) by (simp add: header_add_at)
      qed
      ultimately show ?thesis using Cons.IH Cons.prems(3) by simp
    qed
  qed simp
  then show ?thesis using assms by (simp add: copied_headers_def)
qed

section \<open>Opening an anytls connection\<close>

text \<open>\<open>createOutboundTLSConnection\<close>, with the outcomes of the dial, of the TLS handshake and of the write of the header: the result, what
  was written and what was closed.\<close>

datatype closed_conn = CloseRaw | CloseTLS

definition createOutboundTLSConnection ::
  "'c res \<Rightarrow> ('c \<Rightarrow> 't res) \<Rightarrow> ('t \<Rightarrow> bytes \<Rightarrow> gerr option) \<Rightarrow> bytes \<Rightarrow> 't res \<times> closed_conn list" where
  "createOutboundTLSConnection dialled tls write header =
     (case dialled of
        Inl e \<Rightarrow> (Inl e, [])
      | Inr conn \<Rightarrow> (case tls conn of
            Inl e \<Rightarrow> (Inl e, [CloseRaw])
          | Inr t \<Rightarrow> (case write t header of Some e \<Rightarrow> (Inl e, [CloseTLS]) | None \<Rightarrow> (Ok t, []))))"

text \<open>No connection is left open when an error is returned, none is closed that is returned.\<close>

lemma outbound_no_leak:
  "createOutboundTLSConnection (Inr conn) tls write header = (r, closed) \<Longrightarrow>
     (case r of Inl _ \<Rightarrow> length closed = 1 | Inr t \<Rightarrow> closed = [] \<and> tls conn = Ok t \<and> write t header = None)"
  by (auto simp: createOutboundTLSConnection_def split: sum.splits option.splits)

section \<open>An upgraded proxy connection\<close>

text \<open>\<open>handleUpgrade\<close> after the destination is known: the request is written to the other end of a pipe, the answer is read from it and
  passed on, and the connection is relayed when the answer is to switch protocols.\<close>

datatype upgrade_end = UpgradeDropped | UpgradeAnswered http_resp | UpgradeRelayed http_resp

definition upgrade_exchange :: "gerr option \<Rightarrow> http_resp res \<Rightarrow> (http_resp \<Rightarrow> gerr option) \<Rightarrow> upgrade_end" where
  "upgrade_exchange wrote answer pass_on =
     (if wrote \<noteq> None then UpgradeDropped
      else case answer of
        Inl _ \<Rightarrow> UpgradeDropped
      | Inr p \<Rightarrow>
          let p' = p\<lparr>rs_header := removeProxyHeaders (rs_header p)\<rparr>
          in if pass_on p' \<noteq> None then UpgradeDropped
             else if rs_status p' = 101 then UpgradeRelayed p' else UpgradeAnswered p')"

lemma upgrade_relayed_iff:
  "(\<exists>p. upgrade_exchange wrote answer pass_on = UpgradeRelayed p) \<longleftrightarrow>
     wrote = None \<and> (\<exists>p. answer = Inr p \<and> rs_status p = 101 \<and> pass_on (p\<lparr>rs_header := removeProxyHeaders (rs_header p)\<rparr>) = None)"
  by (auto simp: upgrade_exchange_def Let_def split: sum.splits)

end
