(* ===== verification/Buffers.thy ===== *)
theory Buffers
  imports ProtobytesFacts
begin

text \<open>
  Helpers of the runtime: the buffered connection of \<open>common/bufio/bufio.go\<close>, with what \<open>bufio.Reader\<close> does for it, which the listeners
  read from after they have looked at the first byte; the pools of buffers of \<open>common/pool/buffer.go\<close>; and the deadline watcher and the
  periodic routine of \<open>anytls/util/util.go\<close>.
\<close>

section \<open>The buffered connection\<close>

text \<open>The connection delivers segments, none of them empty, and then an error. \<open>bc_pend\<close> is what the buffer holds, \<open>bc_last\<close> the byte that
  \<open>UnreadByte\<close> may give back, \<open>bc_err\<close> an error that was met while the buffer was filled.\<close>

record buf_conn =
  bc_pend :: bytes
  bc_last :: "byte option"
  bc_err :: "gerr option"
  bc_segs :: "bytes list"
  bc_end :: gerr

definition buf_size :: nat where "buf_size = 4096"

datatype net_conn = PlainConn "bytes list" gerr | BufferedConn buf_conn

fun newBufferedConn :: "net_conn \<Rightarrow> buf_conn" where
  "newBufferedConn (BufferedConn c) = c"
| "newBufferedConn (PlainConn segs e) = \<lparr>bc_pend = [], bc_last = None, bc_err = None, bc_segs = segs, bc_end = e\<rparr>"

text \<open>One read of at most \<open>k\<close> bytes from the connection.\<close>

definition net_read :: "nat \<Rightarrow> buf_conn \<Rightarrow> bytes \<times> gerr option \<times> buf_conn" where
  "net_read k c =
     (case bc_segs c of
        [] \<Rightarrow> ([], Some (bc_end c), c)
      | s # ss \<Rightarrow> (take k s, None, c\<lparr>bc_segs := (if k < length s then drop k s # ss else ss)\<rparr>))"

definition bc_fill :: "buf_conn \<Rightarrow> buf_conn" where
  "bc_fill c = (case net_read (buf_size - length (bc_pend c)) c of (d, e, c') \<Rightarrow>
     c'\<lparr>bc_pend := bc_pend c @ d, bc_err := (case e of None \<Rightarrow> bc_err c | Some x \<Rightarrow> Some x)\<rparr>)"

text \<open>\<open>Peek\<close> fills the buffer until it has the bytes, is full, or an error is met, at most once for each byte.\<close>

fun peek_loop :: "nat \<Rightarrow> nat \<Rightarrow> buf_conn \<Rightarrow> buf_conn" where
  "peek_loop 0 n c = c"
| "peek_loop (Suc fuel) n c =
     (if length (bc_pend c) < n \<and> length (bc_pend c) < buf_size \<and> bc_err c = None then peek_loop fuel n (bc_fill c) else c)"

definition bc_Peek :: "nat \<Rightarrow> buf_conn \<Rightarrow> (bytes \<times> gerr option) \<times> buf_conn" where
  "bc_Peek n c =
     (let c1 = peek_loop (Suc buf_size) n (c\<lparr>bc_last := None\<rparr>)
      in if buf_size < n then ((bc_pend c1, Some (Msg ''bufio: buffer full'')), c1)
         else if length (bc_pend c1) < n then ((bc_pend c1, (case bc_err c1 of None \<Rightarrow> Some (Msg ''bufio: buffer full'') | e \<Rightarrow> e)), c1\<lparr>bc_err := None\<rparr>)
         else ((take n (bc_pend c1), None), c1))"

definition last_of :: "bytes \<Rightarrow> byte option \<Rightarrow> byte option" where
  "last_of d b = (if d = [] then b else Some (last d))"

definition bc_Read :: "nat \<Rightarrow> buf_conn \<Rightarrow> (bytes \<times> gerr option) \<times> buf_conn" where
  "bc_Read n c =
     (if n = 0 then (if bc_pend c \<noteq> [] then (([], None), c) else (([], bc_err c), c\<lparr>bc_err := None\<rparr>))
      else if bc_pend c \<noteq> [] then
        ((take n (bc_pend c), None), c\<lparr>bc_pend := drop n (bc_pend c), bc_last := last_of (take n (bc_pend c)) (bc_last c)\<rparr>)
      else if bc_err c \<noteq> None then (([], bc_err c), c\<lparr>bc_err := None\<rparr>)
      else if buf_size \<le> n then
        (case net_read n c of (d, e, c1) \<Rightarrow> ((d, e), c1\<lparr>bc_last := last_of d (bc_last c)\<rparr>))
      else
        (case net_read buf_size c of (d, e, c1) \<Rightarrow>
           if d = [] then (([], e), c1)
           else ((take n d, None), c1\<lparr>bc_pend := drop n d, bc_err := e, bc_last := last_of (take n d) (bc_last c)\<rparr>)))"

definition bc_ReadByte :: "buf_conn \<Rightarrow> byte res \<times> buf_conn" where
  "bc_ReadByte c =
     (let c1 = peek_loop 1 1 c
      in case bc_pend c1 of
           b # bs \<Rightarrow> (Ok b, c1\<lparr>bc_pend := bs, bc_last := Some b\<rparr>)
         | [] \<Rightarrow> (Err (case bc_err c1 of Some e \<Rightarrow> e | None \<Rightarrow> ConnErr), c1\<lparr>bc_err := None\<rparr>))"

definition bc_UnreadByte :: "buf_conn \<Rightarrow> gerr option \<times> buf_conn" where
  "bc_UnreadByte c =
     (case bc_last c of
        None \<Rightarrow> (Some (Msg ''bufio: invalid use of UnreadByte''), c)
      | Some b \<Rightarrow> (None, c\<lparr>bc_pend := b # bc_pend c, bc_last := None\<rparr>))"

definition bc_Buffered :: "buf_conn \<Rightarrow> nat" where
  "bc_Buffered c = length (bc_pend c)"

section \<open>It hands out the connection's bytes\<close>

definition bc_stream :: "buf_conn \<Rightarrow> bytes" where
  "bc_stream c = bc_pend c @ concat (bc_segs c)"

definition bc_ok :: "buf_conn \<Rightarrow> bool" where
  "bc_ok c \<longleftrightarrow> [] \<notin> set (bc_segs c) \<and> (bc_err c \<noteq> None \<longrightarrow> bc_segs c = [])"

lemma buf_new_ok: "[] \<notin> set segs \<Longrightarrow> bc_ok (newBufferedConn (PlainConn segs e)) \<and> bc_stream (newBufferedConn (PlainConn segs e)) = concat segs"
  by (simp add: bc_ok_def bc_stream_def)

text \<open>A connection that is wrapped a second time is the same, with the bytes that it has buffered.\<close>

lemma new_again: "newBufferedConn (BufferedConn (newBufferedConn c)) = newBufferedConn c"
  by simp

lemma net_read_props:
  assumes "net_read k c = (d, e, c')" "bc_ok c" "0 < k"
  shows "concat (bc_segs c) = d @ concat (bc_segs c')" "[] \<notin> set (bc_segs c')" "bc_pend c' = bc_pend c" "bc_last c' = bc_last c"
    "bc_err c' = bc_err c" "bc_end c' = bc_end c" "d = [] \<longleftrightarrow> e \<noteq> None" "e \<noteq> None \<longrightarrow> bc_segs c' = [] \<and> e = Some (bc_end c)"
    "length d \<le> k"
  using assms by (auto simp: net_read_def bc_ok_def split: list.splits if_splits)

lemma fill_props:
  assumes "bc_ok c" "length (bc_pend c) < buf_size"
  shows "bc_ok (bc_fill c)" "bc_stream (bc_fill c) = bc_stream c" "bc_last (bc_fill c) = bc_last c"
    "length (bc_pend c) < length (bc_pend (bc_fill c)) \<or> bc_err (bc_fill c) \<noteq> None"
    "bc_err c = None \<Longrightarrow> bc_err (bc_fill c) \<noteq> None \<Longrightarrow> bc_pend (bc_fill c) = bc_pend c"
proof -
  obtain d e c' where n: "net_read (buf_size - length (bc_pend c)) c = (d, e, c')" by (metis prod_cases3)
  have "0 < buf_size - length (bc_pend c)" using assms(2) by simp
  note p = net_read_props [OF n assms(1) this]
  have e: "bc_err c \<noteq> None \<Longrightarrow> bc_segs c = []" using assms(1) by (simp add: bc_ok_def)
  show "bc_ok (bc_fill c)" using n p e by (auto simp: bc_fill_def bc_ok_def split: option.splits)
  show "bc_stream (bc_fill c) = bc_stream c" using n p by (simp add: bc_fill_def bc_stream_def)
  show "bc_last (bc_fill c) = bc_last c" using n p by (simp add: bc_fill_def)
  show "length (bc_pend c) < length (bc_pend (bc_fill c)) \<or> bc_err (bc_fill c) \<noteq> None"
    using n p by (cases "d = []") (auto simp: bc_fill_def)
  show "bc_err c = None \<Longrightarrow> bc_err (bc_fill c) \<noteq> None \<Longrightarrow> bc_pend (bc_fill c) = bc_pend c"
    using n p by (auto simp: bc_fill_def split: option.splits)
qed

lemma peek_loop_props: "bc_ok c \<Longrightarrow> bc_ok (peek_loop f n c) \<and> bc_stream (peek_loop f n c) = bc_stream c \<and> bc_last (peek_loop f n c) = bc_last c"
  by (induction f n c rule: peek_loop.induct) (auto simp: fill_props)

text \<open>The fuel of \<open>Peek\<close> is enough: it stops with the bytes, a full buffer, or an error and everything else in the buffer.\<close>

lemma peek_loop_stops:
  "bc_ok c \<Longrightarrow> buf_size < f + length (bc_pend c) \<Longrightarrow>
     (let c' = peek_loop f n c in n \<le> length (bc_pend c') \<or> buf_size \<le> length (bc_pend c') \<or> bc_err c' \<noteq> None)"
proof (induction f n c rule: peek_loop.induct)
  case (2 fuel n c)
  show ?case
  proof (cases "length (bc_pend c) < n \<and> length (bc_pend c) < buf_size \<and> bc_err c = None")
    case True
    then have f: "bc_ok (bc_fill c)" "length (bc_pend c) < length (bc_pend (bc_fill c)) \<or> bc_err (bc_fill c) \<noteq> None"
      using fill_props [of c] 2(2) by simp_all
    show ?thesis
    proof (cases "bc_err (bc_fill c) \<noteq> None")
      case True
      have "peek_loop fuel n (bc_fill c) = bc_fill c" using True by (cases fuel) auto
      then show ?thesis using True \<open>length (bc_pend c) < n \<and> length (bc_pend c) < buf_size \<and> bc_err c = None\<close> by simp
    next
      case False
      then have "buf_size < fuel + length (bc_pend (bc_fill c))" using f(2) 2(3) by simp
      then show ?thesis using 2(1) [OF True f(1)] True by simp
    qed
  qed (use 2(3) in auto)
qed simp

datatype buf_op = OpPeek nat | OpRead nat | OpReadByte | OpUnread

text \<open>A run of operations, with what has been consumed so far and what each \<open>Peek\<close> showed there.\<close>

fun buf_step :: "buf_op \<Rightarrow> bytes \<times> buf_conn \<Rightarrow> bytes \<times> buf_conn" where
  "buf_step (OpPeek n) (got, c) = (got, snd (bc_Peek n c))"
| "buf_step (OpRead n) (got, c) = (case bc_Read n c of ((d, e), c') \<Rightarrow> (got @ d, c'))"
| "buf_step OpReadByte (got, c) = (case bc_ReadByte c of (Inr b, c') \<Rightarrow> (got @ [b], c') | (Inl e, c') \<Rightarrow> (got, c'))"
| "buf_step OpUnread (got, c) = (case bc_UnreadByte c of (None, c') \<Rightarrow> (butlast got, c') | (Some e, c') \<Rightarrow> (got, c'))"

definition buf_inv :: "bytes \<Rightarrow> bytes \<times> buf_conn \<Rightarrow> bool" where
  "buf_inv all w \<longleftrightarrow> bc_ok (snd w) \<and> fst w @ bc_stream (snd w) = all
     \<and> (bc_last (snd w) = None \<or> fst w \<noteq> [] \<and> bc_last (snd w) = Some (last (fst w)))"

lemma buf_inv_read:
  assumes "buf_inv all (got, c)" "bc_Read n c = ((d, e), c')"
  shows "buf_inv all (got @ d, c')"
proof -
  have ok: "bc_ok c" "got @ bc_stream c = all" using assms(1) by (simp_all add: buf_inv_def)
  have l: "bc_last c = None \<or> got \<noteq> [] \<and> bc_last c = Some (last got)" using assms(1) by (simp add: buf_inv_def)
  have s: "0 < buf_size" by (simp add: buf_size_def)
  consider "n = 0 \<or> bc_pend c \<noteq> [] \<or> bc_err c \<noteq> None" | "n \<noteq> 0" "bc_pend c = []" "bc_err c = None" by blast
  then show ?thesis
  proof cases
    case 1
    then show ?thesis using assms(2) ok l
      by (auto simp: bc_Read_def buf_inv_def bc_ok_def bc_stream_def last_of_def split: if_splits option.splits)
  next
    case 2
    obtain d' e' c1 where r: "net_read (if buf_size \<le> n then n else buf_size) c = (d', e', c1)" by (metis prod_cases3)
    have "0 < (if buf_size \<le> n then n else buf_size)" using s by simp
    note p = net_read_props [OF r ok(1) this]
    have s1: "d' @ concat (bc_segs c1) = concat (bc_segs c)" using p(1) by simp
    then have "take n d' @ drop n d' @ concat (bc_segs c1) = concat (bc_segs c)" by (metis append.assoc append_take_drop_id)
    with s1 show ?thesis using assms(2) ok l p(2-8) r 2
      by (auto simp: bc_Read_def buf_inv_def bc_ok_def bc_stream_def last_of_def split: if_splits option.splits)
  qed
qed

lemma buf_inv_peek: "buf_inv all (got, c) \<Longrightarrow> buf_inv all (got, snd (bc_Peek n c))"
proof -
  assume a: "buf_inv all (got, c)"
  have "bc_ok (c\<lparr>bc_last := None\<rparr>)" "bc_stream (c\<lparr>bc_last := None\<rparr>) = bc_stream c" using a by (simp_all add: buf_inv_def bc_ok_def bc_stream_def)
  then show ?thesis using a peek_loop_props [of "c\<lparr>bc_last := None\<rparr>" "Suc buf_size" n]
    by (auto simp: bc_Peek_def buf_inv_def Let_def bc_ok_def bc_stream_def)
qed

lemma buf_inv_byte:
  assumes "buf_inv all (got, c)"
  shows "buf_inv all (buf_step OpReadByte (got, c))"
proof -
  have "bc_ok c" using assms by (simp add: buf_inv_def)
  note p = peek_loop_props [OF this, of 1 1]
  show ?thesis
    using assms p by (cases "bc_pend (peek_loop 1 1 c)")
      (auto simp: bc_ReadByte_def buf_inv_def Let_def bc_ok_def bc_stream_def simp del: peek_loop.simps)
qed

lemma buf_inv_step: "buf_inv all w \<Longrightarrow> buf_inv all (buf_step x w)"
proof (cases w, cases x)
  fix got c
  assume a: "buf_inv all w" and w: "w = (got, c)"
  show "\<And>n. x = OpPeek n \<Longrightarrow> ?thesis" using a w buf_inv_peek by simp
  show "\<And>n. x = OpRead n \<Longrightarrow> ?thesis" using a w buf_inv_read by (auto split: prod.split)
  show "x = OpReadByte \<Longrightarrow> ?thesis" using a w buf_inv_byte by simp
  show "x = OpUnread \<Longrightarrow> ?thesis"
  proof (cases "bc_last c")
    case (Some b)
    then have "got = butlast got @ [b]" using a w by (auto simp: buf_inv_def)
    then have "butlast got @ b # bc_stream c = all" using a w by (metis append.assoc append_Cons append_Nil buf_inv_def fst_conv snd_conv)
    then show "x = OpUnread \<Longrightarrow> ?thesis" using a w Some by (simp add: bc_UnreadByte_def buf_inv_def bc_ok_def bc_stream_def)
  qed (use a w in \<open>simp add: bc_UnreadByte_def\<close>)
qed

text \<open>A buffered connection hands out what the connection delivers: after every sequence of reads, of single bytes given back and of
  peeks, what was consumed followed by what is still to come is what the connection delivers. A peek of up to 4096 bytes shows the next
  bytes, and fewer only when there are no more.\<close>

theorem buffered_transparent:
  assumes "[] \<notin> set segs" "fold buf_step ops ([], newBufferedConn (PlainConn segs e)) = (got, c)"
  shows "got @ bc_stream c = concat segs
    \<and> (n \<le> buf_size \<longrightarrow> fst (fst (bc_Peek n c)) = take n (bc_stream c) \<and> (snd (fst (bc_Peek n c)) = None \<longleftrightarrow> n \<le> length (bc_stream c)))
    \<and> newBufferedConn (BufferedConn c) = c"
proof -
  have "buf_inv (concat segs) ([], newBufferedConn (PlainConn segs e))"
    using assms(1) by (simp add: buf_inv_def bc_ok_def bc_stream_def)
  moreover have "buf_inv all w \<Longrightarrow> buf_inv all (fold buf_step xs w)" for all w xs
    by (induction xs arbitrary: w) (simp_all add: buf_inv_step)
  ultimately have inv: "buf_inv (concat segs) (got, c)" using assms(2) by metis
  have peek: "fst (fst (bc_Peek n c)) = take n (bc_stream c) \<and> (snd (fst (bc_Peek n c)) = None \<longleftrightarrow> n \<le> length (bc_stream c))" if "n \<le> buf_size"
  proof -
    define c1 where "c1 = peek_loop (Suc buf_size) n (c\<lparr>bc_last := None\<rparr>)"
    have ok: "bc_ok (c\<lparr>bc_last := None\<rparr>)" "bc_stream (c\<lparr>bc_last := None\<rparr>) = bc_stream c"
      using inv by (simp_all add: buf_inv_def bc_ok_def bc_stream_def)
    have 1: "bc_ok c1" "bc_stream c1 = bc_stream c" using peek_loop_props [OF ok(1)] ok(2) by (simp_all add: c1_def del: peek_loop.simps)
    have 2: "n \<le> length (bc_pend c1) \<or> buf_size \<le> length (bc_pend c1) \<or> bc_err c1 \<noteq> None"
      using peek_loop_stops [OF ok(1), of "Suc buf_size" n] by (simp add: c1_def Let_def del: peek_loop.simps)
    show ?thesis
    proof (cases "n \<le> length (bc_pend c1)")
      case True
      moreover have "bc_stream c = bc_pend c1 @ concat (bc_segs c1)" using 1(2) by (simp add: bc_stream_def)
      ultimately show ?thesis using that by (simp add: bc_Peek_def Let_def c1_def [symmetric] del: peek_loop.simps)
    next
      case False
      then have e: "bc_err c1 \<noteq> None" using 2 that by auto
      then have "bc_stream c = bc_pend c1" using 1 by (simp add: bc_ok_def bc_stream_def)
      then show ?thesis using False that e by (auto simp: bc_Peek_def Let_def c1_def [symmetric] simp del: peek_loop.simps)
    qed
  qed
  show ?thesis using inv peek by (auto simp: buf_inv_def)
qed

theorem buffered_transparent_witness:
  "\<exists>got c. fold buf_step [OpPeek 3, OpReadByte, OpUnread, OpRead 1, OpRead 9] ([], newBufferedConn (PlainConn [[1, 2], [3, 4]] EOF)) = (got, c)
    \<and> got @ bc_stream c = [1, 2, 3, 4] \<and> fst (fst (bc_Peek 1 c)) = take 1 (bc_stream c)"
proof -
  obtain got c where r: "fold buf_step [OpPeek 3, OpReadByte, OpUnread, OpRead 1, OpRead 9]
      ([], newBufferedConn (PlainConn [[1, 2], [3, 4]] EOF)) = (got, c)" by (metis surj_pair)
  have "[] \<notin> set [[1, 2], [3, 4 :: byte]]" by simp
  from buffered_transparent [OF this r, of 1] r show ?thesis by (simp add: buf_size_def)
qed

section \<open>Pools of buffers\<close>

text \<open>A \<open>sync.Pool\<close> gives any object that it holds, by its index, or a new one. A buffer is its content.\<close>

definition get_buffer :: "nat option \<Rightarrow> 'a list list \<Rightarrow> 'a list \<times> 'a list list" where
  "get_buffer pick pool =
     (case pick of Some i \<Rightarrow> if i < length pool then (pool ! i, take i pool @ drop (Suc i) pool) else ([], pool) | None \<Rightarrow> ([], pool))"

definition put_buffer :: "'a list \<Rightarrow> 'a list list \<Rightarrow> 'a list list" where
  "put_buffer buf pool = [] # pool"

datatype 'a pool_op = PGet "nat option" | PPut "'a list"

fun pool_after :: "'a pool_op list \<Rightarrow> 'a list list" where
  "pool_after [] = []"
| "pool_after (PGet pick # xs) = snd (get_buffer pick (pool_after xs))"
| "pool_after (PPut b # xs) = put_buffer b (pool_after xs)"

text \<open>Whatever was written to the buffers that were given back, a buffer from the pool is empty.\<close>

lemma pooled_empty: "set (pool_after xs) \<subseteq> {[]}"
  by (induction xs rule: pool_after.induct)
    (auto simp: get_buffer_def put_buffer_def split: option.splits if_splits dest: in_set_takeD in_set_dropD)

lemma get_buffer_empty: "fst (get_buffer pick (pool_after xs)) = []"
  using pooled_empty [of xs] by (cases pick) (auto simp: get_buffer_def dest: nth_mem)

section \<open>Deadlines and routines\<close>

text \<open>\<open>NewDeadlineWatcher\<close>: a routine that waits for the timer or for \<open>done\<close>, whichever it takes when both are there.\<close>

record watcher =
  wt_closed :: bool
  wt_due :: bool
  wt_waits :: bool
  wt_timeouts :: nat

definition newDeadlineWatcher :: watcher where
  "newDeadlineWatcher = \<lparr>wt_closed = False, wt_due = False, wt_waits = True, wt_timeouts = 0\<rparr>"

inductive watch_step :: "watcher \<Rightarrow> watcher \<Rightarrow> bool" where
  due: "watch_step w (w\<lparr>wt_due := True\<rparr>)"
| stop: "watch_step w (w\<lparr>wt_closed := True\<rparr>)"
| closed: "wt_waits w \<Longrightarrow> wt_closed w \<Longrightarrow> watch_step w (w\<lparr>wt_waits := False\<rparr>)"
| timeOut: "wt_waits w \<Longrightarrow> wt_due w \<Longrightarrow> watch_step w (w\<lparr>wt_waits := False, wt_timeouts := Suc (wt_timeouts w)\<rparr>)"

text \<open>The action of the deadline is taken at most once, and not before the deadline.\<close>

lemma watcher_once: "watch_step\<^sup>*\<^sup>* newDeadlineWatcher w \<Longrightarrow> wt_timeouts w \<le> 1 \<and> (wt_waits w \<longrightarrow> wt_timeouts w = 0) \<and> (\<not> wt_due w \<longrightarrow> wt_timeouts w = 0)"
  by (induction rule: rtranclp_induct) (auto simp: newDeadlineWatcher_def elim!: watch_step.cases)

text \<open>\<open>StartRoutine\<close>: the number of calls of a function, given for each call whether it panics and whether the context has ended. A panic
  ends the routine as the end of the context does, since only the whole loop recovers.\<close>

fun startRoutine :: "(bool \<times> bool) list \<Rightarrow> nat" where
  "startRoutine [] = 0"
| "startRoutine ((panics, ended) # xs) = Suc (if panics \<or> ended then 0 else startRoutine xs)"

lemma startRoutine_calls: "startRoutine xs = length (takeWhile (\<lambda>(p, e). \<not> p \<and> \<not> e) xs) + (if list_all (\<lambda>(p, e). \<not> p \<and> \<not> e) xs then 0 else 1)"
  by (induction xs rule: startRoutine.induct) auto

end
