(* ===== verification/Spec2Isabelle.thy ===== *)
theory Spec2Isabelle
  imports SocksFacts NetipOrder Vless Mux MetaFacts ServerFacts SkiplistMap AnyCallbacks AnyNegotiate PoolRuns HttpFacts Alloc StreamFacts
    ObfsFacts AnyPipe ProtobytesFacts MuxPool Configure Certs Intern NetipCodec
    SkiplistFunc Relay ServerPages StreamCiphers Agent Console UserAgents Links Buffers
begin

text \<open>
  Verification of tcpover, a tunnel for TCP connections over WebSockets, written in Go.

  \<^bold>\<open>The program.\<close> An agent (\<open>cmd/tcpover\<close>, \<open>client.go\<close>) listens for SOCKS5 and HTTP proxy connections (\<open>transport/listener\<close>), turns
  each into metadata (\<open>ctx\<close>, \<open>transport/inbound\<close>), hands it to one of its proxies (\<open>transport/listener.go\<close>), and the proxy
  (\<open>transport/outbound\<close>) writes a WLESS or VLESS request (\<open>transport/wless\<close>, \<open>transport/vless\<close>) on a WebSocket (\<open>transport/wss\<close>) to the
  server (\<open>server.go\<close>), on a connection of its own or on a stream of a multiplexed one (\<open>transport/mux\<close>). The server dials the
  destination, or joins the connection with one that another agent opens for it when it is told to by its control channel. The
  repository also holds the libraries this is built with or meant to grow by: addresses (\<open>common/netip\<close>), an LRU cache, a buffer
  allocator, a byte reader and writer, a configuration decoder, routing rules (\<open>rules\<close>), the Shadowsocks and ShadowsocksR protocols
  (\<open>transport/shadowsocks\<close>, \<open>transport/ssr\<close>) and the anytls protocol with its session pool (\<open>transport/anytls\<close>).

  \<^bold>\<open>Conventions.\<close> A byte slice is a list of \<open>8 word\<close>, a Go string a list of characters, an integer of a fixed width a word or written
  out with its wrap-around. An operation that can fail returns \<open>gerr + 'a\<close>; a run-time panic is the error \<open>Panic\<close>, so a theorem that
  an operation does not panic is about its value. A \<open>net.Conn\<close> is the record \<open>conn\<close> of \<open>Conn\<close>: the bytes that will arrive, the writes
  that were made and which write fails. Objects that are shared (entries of the cache, sessions, streams, nodes of the skip list) are
  in stores and referred to by index. A Go map whose order is observed is a list without double keys, so a statement about
  every list is one about every order. Concurrency is a step relation with one step for each critical section.

  \<^bold>\<open>The theories\<close>, each with the code it models; facts are in the theories whose names end in \<open>Facts\<close>, \<open>Runs\<close>, \<open>Order\<close>, \<open>Text\<close>, \<open>Map\<close>.
  \<^item> \<open>Prelude\<close>, \<open>GoLib\<close>, \<open>Conn\<close>: shared vocabulary; the parts of Go's standard library that are called; connections. \<open>Codec\<close>: the locale of a
    self-delimiting wire format, interpreted for frames, stream requests, SOCKS addresses and the numbers of \<open>protobytes\<close>.
  \<^item> \<open>Netip\<close>, \<open>NetipFacts\<close>, \<open>NetipOrder\<close>, \<open>NetipText\<close>, \<open>NetipCodec\<close> (\<open>common/netip\<close>): addresses, prefixes and pairs with a port, their text
    and binary forms; order, membership, overlap and round trips. \<open>Intern\<close> (\<open>netip/itern.go\<close>): the interning of zones with finalizers, as
    runs of the program, the garbage collector and the finalizers.
  \<^item> \<open>Socks5\<close>, \<open>SocksFacts\<close> (\<open>socks5\<close>, \<open>common/auth\<close>): both handshakes complete against each other; authentication is enforced.
  \<^item> \<open>Vless\<close>, \<open>Mux\<close>, \<open>Meta\<close>, \<open>MetaFacts\<close> (\<open>vless\<close>, \<open>wless\<close>, \<open>mux/protocol.go\<close>, \<open>mux/conn.go\<close>, \<open>ctx\<close>, \<open>inbound\<close>, \<open>outbound\<close>, \<open>listener.go\<close>): requests, and a
    destination's way from the listener to the server's dial.
  \<^item> \<open>WssConn\<close>, \<open>WssFacts\<close>, \<open>MuxPool\<close> (\<open>wss\<close>, \<open>mux/client.go\<close>, \<open>mux/server.go\<close>, \<open>outbound\<close>): WebSocket connections, the query of a connection, the
    errors that end one, the control channel; the sessions of the multiplexer and the streams they serve.
  \<^item> \<open>Server\<close>, \<open>ServerFacts\<close> (\<open>server.go\<close>): routing, and the rendezvous as the step relation \<open>sstep\<close>: who is joined, when it panics,
    that a finished relay frees its partner. \<open>ServerPages\<close>: the replacement of the executable, the control channel.
  \<^item> \<open>Relay\<close> (\<open>common/bufio/relay.go\<close>): the two copiers that couple the connections of a tunnel, as a step relation: order, end, and what a
    half-closed connection loses. \<open>Console\<close> (\<open>client.go\<close>, \<open>readwriter.go\<close>): the same for standard input and output, which end differently.
  \<^item> \<open>Agent\<close> (\<open>listener.go\<close>, \<open>listener/socks\<close>, \<open>listener/http\<close>, \<open>listener/mixed\<close>): the running agent, from the accept loops and their
    handlers over the channel to the proxies, as the step relation \<open>agent_step\<close>: order, progress, and how a client ends it. \<open>Links\<close>
    (\<open>server.go\<close>, \<open>outbound/wless.go\<close>, \<open>wss\<close>, \<open>anytls/client.go\<close>): the control messages, and the connection that an agent opens for one.
  \<^item> \<open>Buffers\<close> (\<open>common/bufio/bufio.go\<close>, \<open>common/pool/buffer.go\<close>, \<open>anytls/util\<close>): the buffered connection hands out the bytes of the
    connection, so the listeners of the other theories read those; pools of buffers, deadlines, routines.
  \<^item> \<open>Certs\<close> (\<open>common/ca\<close>, \<open>wss/tls.go\<close>, \<open>anytls/client.go\<close>): which certificates a TLS connection accepts.
  \<^item> \<open>Structure\<close>, \<open>StructureFacts\<close>, \<open>Configure\<close> (\<open>common/structure\<close>, \<open>parse.go\<close>, \<open>client.go\<close>, \<open>cmd/tcpover/main.go\<close>): decoding of configurations, with
    reflection as the datatypes \<open>gtype\<close> and \<open>gval\<close>; types are kept; the proxy that an agent's flags lead to.
  \<^item> \<open>Http\<close>, \<open>HttpFacts\<close> (\<open>listener/http\<close>, \<open>listener/mixed\<close>): credentials, headers, the loop of a connection.
  \<^item> \<open>Rules\<close> (\<open>rules\<close>), \<open>Lru\<close>, \<open>LruFacts\<close>, \<open>LruRuns\<close> (\<open>common/cache\<close>), \<open>Alloc\<close> (\<open>common/pool\<close>), \<open>Protobytes\<close>, \<open>ProtobytesFacts\<close> (\<open>common/protobytes\<close>): the cache
    refines an abstract list of slots over every run, with sharing by \<open>CloneTo\<close>.
  \<^item> \<open>Skiplist\<close>, \<open>SkiplistFacts\<close>, \<open>SkiplistMap\<close> (\<open>anytls/skiplist\<close>): the list at the level of pointers refines a finite map; the locale
    \<open>keyed_store\<close> is what the session pool uses of it. \<open>SkiplistFunc\<close>: the list with a comparison function is this list on renamed keys;
    ranges and iterators.
  \<^item> \<open>AnyPadding\<close>, \<open>AnySession\<close>, \<open>AnyRecv\<close>, \<open>AnyWire\<close>, \<open>AnyDelivery\<close>, \<open>AnyLife\<close>, \<open>AnyNegotiate\<close>, \<open>AnyRelation\<close>, \<open>AnyCallbacks\<close> (\<open>anytls/session\<close>,
    \<open>anytls/padding\<close>, \<open>anytls/util\<close>): a session; delivery through padding, the end of the receive loop, the settings exchange, callbacks
    at most once (an instance of the locale \<open>session_relation\<close>). \<open>AnyPipe\<close> (\<open>anytls/pipe\<close>): the pipe with deadlines as a step relation.
    \<open>AnyClient\<close>, \<open>PoolFacts\<close>, \<open>PoolRuns\<close> (\<open>anytls/session/client.go\<close>): the pool of sessions over every run.
  \<^item> \<open>ShadowAead\<close>, \<open>ShadowFacts\<close>, \<open>ShadowStream\<close>, \<open>StreamFacts\<close>, \<open>ShadowCore\<close>, \<open>StreamCiphers\<close> (\<open>shadowsocks\<close>): encrypted streams and
    packets, choice of the cipher, the stream ciphers with their modes.
  \<^item> \<open>SsrFrames\<close>, \<open>SsrBase\<close>, \<open>SsrSha1\<close>, \<open>SsrAes\<close>, \<open>SsrChain\<close>, \<open>ChainFacts\<close> (\<open>ssr/protocol\<close>, \<open>ssr/tools\<close>), \<open>SsrObfs\<close>, \<open>ObfsFacts\<close>,
    \<open>UserAgents\<close> (\<open>ssr/obfs\<close>): the locale
    \<open>framed\<close> of a protocol that cuts a stream into authenticated packets, interpreted for each protocol: delivery; what forged input does.

  \<^bold>\<open>Bounds and fuel.\<close> Loops are structural or have a termination proof; where a definition has fuel, a theorem says that it is enough:
  the remaining bytes for \<open>recv_loop\<close> and \<open>decode_loop\<close> (every iteration that goes on uses one), the length of the key for \<open>kdf_loop\<close>, the
  size of the type for \<open>decode_fuel\<close> (\<open>decode_recursion\<close>). The skip list takes its random levels from a supply; its counters are
  exact for fewer than \<open>2 ^ 38\<close> operations.

  \<^bold>\<open>Parameters.\<close> Code that is not in the repository is an argument: MD5, SHA-1, the HMACs, HKDF, AES, AEADs, the key stream of ChaCha20, IDNA,
  the Unicode case and space tables, random numbers, the clock, \<open>client.Do\<close>, the conversions of floating point numbers, the rounding
  up of allocations, X.509, key generation, what xtaci/smux and gorilla/websocket report. The hypotheses on them (a decryption undoes the encryption, a
  MAC has its length) are definitions such as \<open>aead_ok\<close>, and each theorem that has one has a witness with a concrete function.

  \<^bold>\<open>Not modelled.\<close> Dialling, TLS handshakes, signals, logging and the terminal are input and output. Goroutines that only
  call an operation periodically are operations of the runs. A zone is its text in all theories but \<open>Intern\<close>. In \<open>Relay\<close> a write
  ends, by success or failure; the garbage collector of \<open>Intern\<close> is as far as the Go runtime documents it.
  The key stream of ChaCha20 is unbounded, where the library panics after 256 GiB.
\<close>

end
